(* ===== verification/OhtPrelude.thy ===== *)
theory OhtPrelude
  imports Main "HOL-Library.Word" "HOL-Library.Monad_Syntax"
begin

unbundle bit_operations_syntax

text \<open>
  Shared vocabulary of the OpenHT development: the machine word types, the result type of
  code that may abort, the collections of simplification rules the component theories
  extend, and the facts on ring indices that every queue of the tool set rests on.

  Conventions.
  \<^item> \<open>'a option\<close> is the result of code that may stop the process: \<open>None\<close> is a failed
    \<^verbatim>\<open>ht_assert\<close>, \<^verbatim>\<open>assert\<close>, \<^verbatim>\<open>Assert(0)\<close> or a trap; \<open>Some x\<close> is a normal return.
  \<^item> A C++ template parameter (a width such as \<open>addrBits\<close>) is a leading argument.
  \<^item> Storage the C++ leaves uninitialised is an argument of the constructor's model.
\<close>

section \<open>Machine words and checked results\<close>

type_synonym u8 = "8 word"
type_synonym u32 = "32 word"
type_synonym u64 = "64 word"

text \<open>\<^verbatim>\<open>ht_assert(c)\<close> and \<^verbatim>\<open>assert(c)\<close>: the run stops when the condition fails.\<close>

definition ensure :: "bool \<Rightarrow> unit option" where
  "ensure c = (if c then Some () else None)"

lemma ensure_simps [simp]:
  "ensure True = Some ()"
  "ensure False = None"
  by (simp_all add: ensure_def)

lemma ensure_eq_Some [simp]: "ensure c = Some u \<longleftrightarrow> c"
  by (simp add: ensure_def)

lemma ensure_eq_None [simp]: "ensure c = None \<longleftrightarrow> \<not> c"
  by (simp add: ensure_def)

lemma bind_ensure_eq_Some [simp]:
  "Option.bind (ensure c) f = Some y \<longleftrightarrow> c \<and> f () = Some y"
  by (simp add: ensure_def)

lemma bind_ensure_True [simp]: "c \<Longrightarrow> Option.bind (ensure c) f = f ()"
  by (simp add: ensure_def)

named_theorems cint_simps \<open>C integer conversions\<close>
named_theorems ring_simps \<open>ring index arithmetic\<close>
named_theorems op_defs \<open>definitions of the component operations\<close>

section \<open>Words as naturals\<close>

text \<open>
  The queues mask a free-running index with \<open>2 ^ k - 1\<close>. As a natural number that is the
  remainder modulo \<open>2 ^ k\<close>, also across the wrap-around of the index.
\<close>

lemma unat_and_mask:
  fixes w :: "'a::len word"
  shows "unat (w AND mask k) = unat w mod 2 ^ k"
  by (simp flip: take_bit_eq_mask take_bit_eq_mod unsigned_take_bit_eq)

lemma unat_push_bit_one:
  "k < LENGTH('a) \<Longrightarrow> unat (push_bit k 1 :: 'a::len word) = 2 ^ k"
  by (simp only: unsigned_push_bit_eq) (simp add: take_bit_eq_mod push_bit_eq_mult)

lemma mask_eq_push_bit_minus_one:
  "(mask k :: 'a::len word) = push_bit k 1 - 1"
  by (simp add: mask_eq_exp_minus_1 push_bit_eq_mult)

lemma unat_add_one_mod_pow:
  fixes w :: "'a::len word"
  assumes "k \<le> LENGTH('a)"
  shows "unat (w + 1) mod 2 ^ k = (unat w + 1) mod 2 ^ k"
proof -
  have "unat (w + 1) = (unat w + 1) mod 2 ^ LENGTH('a)"
    by (simp add: unat_word_ariths)
  moreover have "(2::nat) ^ k dvd 2 ^ LENGTH('a)"
    using assms by (simp add: le_imp_power_dvd)
  ultimately show ?thesis by (simp add: mod_mod_cancel)
qed

section \<open>Ring windows\<close>

text \<open>
  A ring of \<open>n\<close> slots holds a queue in the slots \<open>r, r + 1, \<dots>, r + len - 1\<close> modulo \<open>n\<close>.
  \<open>ring_list\<close> reads the queue out of the slots, oldest entry first.
\<close>

definition ring_list :: "nat \<Rightarrow> (nat \<Rightarrow> 'a) \<Rightarrow> nat \<Rightarrow> nat \<Rightarrow> 'a list" where
  "ring_list n m r len = map (\<lambda>i. m ((r + i) mod n)) [0..<len]"

lemma length_ring_list [simp]: "length (ring_list n m r len) = len"
  by (simp add: ring_list_def)

lemma ring_list_0 [simp]: "ring_list n m r 0 = []"
  by (simp add: ring_list_def)

lemma nth_ring_list [simp]: "i < len \<Longrightarrow> ring_list n m r len ! i = m ((r + i) mod n)"
  by (simp add: ring_list_def)

lemma ring_list_mod [simp]: "ring_list n m (r mod n) len = ring_list n m r len"
  by (simp add: ring_list_def mod_add_left_eq)

lemma ring_list_Suc:
  "ring_list n m r (Suc len) = m (r mod n) # ring_list n m (Suc r) len"
  by (rule nth_equalityI) (auto simp: nth_Cons split: nat.splits)

lemma ring_list_snoc:
  "ring_list n m r (Suc len) = ring_list n m r len @ [m ((r + len) mod n)]"
  by (simp add: ring_list_def)

lemma ring_list_hd: "0 < len \<Longrightarrow> hd (ring_list n m r len) = m (r mod n)"
  by (cases len) (simp_all add: ring_list_Suc)

lemma ring_list_tl: "0 < len \<Longrightarrow> tl (ring_list n m r len) = ring_list n m (Suc r) (len - 1)"
  by (cases len) (simp_all add: ring_list_Suc)

lemma ring_list_take: "k \<le> len \<Longrightarrow> take k (ring_list n m r len) = ring_list n m r k"
  by (rule nth_equalityI) auto

lemma ring_list_drop: "drop k (ring_list n m r len) = ring_list n m (r + k) (len - k)"
  by (rule nth_equalityI) (auto simp: add.assoc)

lemma ring_list_append:
  "ring_list n m r (a + b) = ring_list n m r a @ ring_list n m (r + a) b"
  by (metis append_take_drop_id ring_list_take ring_list_drop le_add1 diff_add_inverse)

text \<open>Distinct positions of a window that is no longer than the ring are distinct slots.\<close>

lemma ring_slot_neq:
  assumes "i < j" and "j < i + n"
  shows "(r + i) mod n \<noteq> (r + j) mod (n::nat)"
proof
  assume "(r + i) mod n = (r + j) mod n"
  then have "n dvd (r + j) - (r + i)"
    using assms by (metis add_le_cancel_left less_imp_le mod_eq_dvd_iff_nat)
  then have "n dvd j - i" by simp
  with assms show False by (auto dest: dvd_imp_le)
qed

text \<open>Writing the slot after the window leaves the window unchanged, if there is room.\<close>

lemma ring_list_upd_other:
  assumes "len < n"
  shows "ring_list n (m((r + len) mod n := x)) r len = ring_list n m r len"
proof (rule nth_equalityI)
  fix i
  assume "i < length (ring_list n (m((r + len) mod n := x)) r len)"
  then have "i < len" by simp
  with assms have "(r + i) mod n \<noteq> (r + len) mod n"
    by (intro ring_slot_neq) auto
  with \<open>i < len\<close> show
    "ring_list n (m((r + len) mod n := x)) r len ! i = ring_list n m r len ! i"
    by simp
qed simp

lemma ring_list_push:
  assumes "len < n"
  shows "ring_list n (m((r + len) mod n := x)) r (Suc len) = ring_list n m r len @ [x]"
  using assms by (simp add: ring_list_snoc ring_list_upd_other)

lemmas ring_list_ops = ring_list_Suc ring_list_hd ring_list_tl ring_list_push

text \<open>
  The distance from a read index to a write index on a ring of \<open>m\<close> positions, as the
  queues compute it: a difference, corrected by \<open>m\<close> when the write index has wrapped.
\<close>

definition ring_dist :: "nat \<Rightarrow> nat \<Rightarrow> nat \<Rightarrow> nat" where
  "ring_dist m wr rd = (if rd \<le> wr then wr - rd else wr + m - rd)"

lemma ring_dist_lt: "rd < m \<Longrightarrow> wr < m \<Longrightarrow> ring_dist m wr rd < m"
  by (auto simp: ring_dist_def)

lemma ring_dist_add [ring_simps]: "rd < m \<Longrightarrow> wr < m \<Longrightarrow> (rd + ring_dist m wr rd) mod m = wr"
  by (auto simp: ring_dist_def)

lemma ring_dist_of_add: "rd < m \<Longrightarrow> s < m \<Longrightarrow> ring_dist m ((rd + s) mod m) rd = s"
proof (cases "rd + s < m")
  case False
  assume "rd < m" "s < m"
  with False have "(rd + s) mod m = rd + s - m" by (simp add: mod_if)
  with False \<open>s < m\<close> show ?thesis by (auto simp: ring_dist_def)
qed (simp add: ring_dist_def)

lemma ring_dist_0_iff [ring_simps]:
  "rd < m \<Longrightarrow> wr < m \<Longrightarrow> ring_dist m wr rd = 0 \<longleftrightarrow> wr = rd"
  by (auto simp: ring_dist_def)

lemma ring_dist_self [simp]: "ring_dist m x x = 0"
  by (simp add: ring_dist_def)

lemma ring_dist_inc_wr:
  assumes "rd < m" "wr < m" "ring_dist m wr rd + 1 < m"
  shows "ring_dist m (Suc wr mod m) rd = Suc (ring_dist m wr rd)"
proof -
  have "Suc wr mod m = (rd + Suc (ring_dist m wr rd)) mod m"
    using ring_dist_add [OF assms(1,2)] by (metis add_Suc_right mod_Suc_eq)
  moreover have "ring_dist m ((rd + Suc (ring_dist m wr rd)) mod m) rd = Suc (ring_dist m wr rd)"
    using assms by (intro ring_dist_of_add) auto
  ultimately show ?thesis by simp
qed

lemma ring_dist_inc_rd:
  assumes "rd < m" "wr < m" "0 < ring_dist m wr rd"
  shows "ring_dist m wr (Suc rd mod m) = ring_dist m wr rd - 1"
proof -
  have "wr = (Suc rd mod m + (ring_dist m wr rd - 1)) mod m"
    using ring_dist_add [OF assms(1,2)] assms(3)
    by (metis Suc_diff_1 add_Suc_shift mod_add_left_eq)
  moreover have "ring_dist m wr rd - 1 < m" using ring_dist_lt [OF assms(1,2)] by simp
  moreover have "Suc rd mod m < m" using assms by simp
  ultimately show ?thesis using ring_dist_of_add [of "Suc rd mod m" m "ring_dist m wr rd - 1"] by simp
qed

lemma mod_double [simp]: "((a::nat) mod (2 * n)) mod n = a mod n"
  by (simp add: mod_mod_cancel)

lemma mod_pow_Suc [simp]: "((a::nat) mod 2 ^ Suc k) mod 2 ^ k = a mod 2 ^ k"
  by (simp add: mod_mod_cancel)


text \<open>
  One step of a queue on a ring of \<open>n\<close> slots with indices modulo \<open>2 * n\<close>: a value may be
  written at the write index and an entry dropped at the read index, both at once.
\<close>

lemma ring_step:
  fixes n :: nat
  assumes "rd < 2 * n" "wr < 2 * n" and le: "ring_dist (2 * n) wr rd \<le> n"
    and room: "x \<noteq> None \<longrightarrow> ring_dist (2 * n) wr rd < n" and p: "p \<longrightarrow> wr \<noteq> rd"
  defines "wr' \<equiv> if x = None then wr else Suc wr mod (2 * n)"
    and "rd' \<equiv> if p then Suc rd mod (2 * n) else rd"
  shows "ring_dist (2 * n) wr' rd' = ring_dist (2 * n) wr rd + of_bool (x \<noteq> None) - of_bool p"
    and "ring_list n (case x of None \<Rightarrow> m | Some a \<Rightarrow> m(wr mod n := a)) rd' (ring_dist (2 * n) wr' rd') =
           drop (of_bool p) (ring_list n m rd (ring_dist (2 * n) wr rd)) @
           (case x of None \<Rightarrow> [] | Some a \<Rightarrow> [a])"
proof -
  let ?s = "ring_dist (2 * n) wr rd"
  have pos: "0 < n" using assms(1) by simp
  have w1: "ring_dist (2 * n) wr' rd = ?s + of_bool (x \<noteq> None)"
    using assms(1,2) room pos by (auto simp: wr'_def ring_dist_inc_wr)
  have wr': "wr' < 2 * n" using assms(2) pos by (auto simp: wr'_def)
  have nz: "p \<Longrightarrow> 0 < ?s" using p ring_dist_0_iff [OF assms(1,2)] by simp
  show d: "ring_dist (2 * n) wr' rd' = ?s + of_bool (x \<noteq> None) - of_bool p"
  proof (cases p)
    case True
    then have "0 < ring_dist (2 * n) wr' rd" using nz w1 by simp
    then show ?thesis using True w1 ring_dist_inc_rd [OF assms(1) wr'] by (simp add: rd'_def)
  qed (simp add: rd'_def w1)
  let ?m = "case x of None \<Rightarrow> m | Some a \<Rightarrow> m(wr mod n := a)"
  have wn: "wr mod n = (rd + ?s) mod n"
    using ring_dist_add [OF assms(1,2)] by (metis mod_double)
  have full: "ring_list n ?m rd (?s + of_bool (x \<noteq> None)) =
      ring_list n m rd ?s @ (case x of None \<Rightarrow> [] | Some a \<Rightarrow> [a])"
    using room by (cases x) (simp_all add: wn ring_list_push)
  have rd'_n: "rd' mod n = (rd + of_bool p) mod n" by (simp add: rd'_def)
  have "ring_list n ?m rd' (ring_dist (2 * n) wr' rd') =
      ring_list n ?m (rd + of_bool p) (?s + of_bool (x \<noteq> None) - of_bool p)"
    by (metis d rd'_n ring_list_mod)
  also have "\<dots> = drop (of_bool p) (ring_list n ?m rd (?s + of_bool (x \<noteq> None)))"
    by (simp add: ring_list_drop)
  also have "\<dots> = drop (of_bool p) (ring_list n m rd ?s) @ (case x of None \<Rightarrow> [] | Some a \<Rightarrow> [a])"
    unfolding full using nz by (cases p) auto
  finally show "ring_list n ?m rd' (ring_dist (2 * n) wr' rd') = \<dots>" .
qed

section \<open>Alignment\<close>

lemma unat_and_not_mask:
  fixes a :: "'a :: len word"
  shows "unat (a AND NOT (mask n)) = unat a div 2 ^ n * 2 ^ n"
proof -
  have e: "a AND NOT (mask n) = push_bit n (drop_bit n a)"
    by (rule bit_word_eqI) (auto simp: bit_simps)
  have "unat a div 2 ^ n * 2 ^ n \<le> unat a" by (rule div_times_less_eq_dividend)
  also have "\<dots> < 2 ^ LENGTH('a)" by (rule unsigned_less)
  finally have lt: "unat a div 2 ^ n * 2 ^ n < 2 ^ LENGTH('a)" .
  have "unat (push_bit n (drop_bit n a)) = take_bit LENGTH('a) (push_bit n (drop_bit n (unat a)))"
    by (simp only: unsigned_push_bit_eq unsigned_drop_bit_eq) (simp add: take_bit_nat_eq_self)
  then show ?thesis using lt by (simp add: e push_bit_eq_mult drop_bit_eq_div take_bit_eq_mod)
qed

end
