(* ===== verification/CIntegers.thy ===== *)
theory CIntegers
  imports OhtPrelude
begin

text \<open>
  The C++ integer types of the tool set's constant evaluator and their conversions.

  A C value is a mathematical \<open>int\<close> in the range of its type; \<open>c_wrap t v\<close> is the
  conversion of a value to type \<open>t\<close> (modular for the unsigned types, two's complement for
  the signed ones, as on every platform the tool set builds for). \<open>c_common\<close> is the type
  of the usual arithmetic conversions. Signed overflow wraps, as compiled; a division by
  zero or of the least value by \<open>-1\<close> traps, and a shift by a count outside the width
  is undefined: both are \<open>None\<close>.
\<close>

section \<open>Types and conversions\<close>

datatype c_ty = CU32 | CU64 | CS32 | CS64

fun c_wrap :: "c_ty \<Rightarrow> int \<Rightarrow> int" where
  "c_wrap CU32 v = take_bit 32 v"
| "c_wrap CU64 v = take_bit 64 v"
| "c_wrap CS32 v = signed_take_bit 31 v"
| "c_wrap CS64 v = signed_take_bit 63 v"

fun c_width :: "c_ty \<Rightarrow> nat" where
  "c_width CU32 = 32" | "c_width CU64 = 64" | "c_width CS32 = 32" | "c_width CS64 = 64"

fun c_signed :: "c_ty \<Rightarrow> bool" where
  "c_signed CU32 = False" | "c_signed CU64 = False" | "c_signed CS32 = True" | "c_signed CS64 = True"

definition c_common :: "c_ty \<Rightarrow> c_ty \<Rightarrow> c_ty" where
  "c_common s t =
     (if s = CU64 \<or> t = CU64 then CU64
      else if s = CS64 \<or> t = CS64 then CS64
      else if s = CU32 \<or> t = CU32 then CU32 else CS32)"

definition c_min :: "c_ty \<Rightarrow> int" where
  "c_min t = (if c_signed t then - (2 ^ (c_width t - 1)) else 0)"

definition c_max :: "c_ty \<Rightarrow> int" where
  "c_max t = (if c_signed t then 2 ^ (c_width t - 1) - 1 else 2 ^ c_width t - 1)"

definition c_fits :: "c_ty \<Rightarrow> int \<Rightarrow> bool" where
  "c_fits t v \<longleftrightarrow> c_min t \<le> v \<and> v \<le> c_max t"

lemma c_fits_wrap [simp]: "c_fits t (c_wrap t v)"
  using take_bit_int_less_exp [of 32 v] take_bit_int_less_exp [of 64 v]
    signed_take_bit_int_less_exp [of 31 v] signed_take_bit_int_less_exp [of 63 v]
    signed_take_bit_int_greater_eq_minus_exp [of 31 v]
    signed_take_bit_int_greater_eq_minus_exp [of 63 v]
  by (cases t) (simp_all add: c_fits_def c_min_def c_max_def)

lemma c_wrap_id [simp]: "c_fits t v \<Longrightarrow> c_wrap t v = v"
  by (cases t)
    (simp_all add: c_fits_def c_min_def c_max_def take_bit_int_eq_self_iff
      signed_take_bit_int_eq_self_iff)

lemma c_wrap_wrap [simp]: "c_wrap t (c_wrap t v) = c_wrap t v"
  by simp

text \<open>
  A conversion keeps the value modulo \<open>2 ^ width\<close>; so two values that agree modulo
  \<open>2 ^ width\<close> convert to the same value.
\<close>

lemma take_bit_c_wrap [cint_simps]:
  "n \<le> c_width t \<Longrightarrow> take_bit n (c_wrap t v) = take_bit n v"
  by (cases t) (simp_all add: take_bit_signed_take_bit)

lemma c_wrap_cong:
  "take_bit (c_width t) v = take_bit (c_width t) w \<Longrightarrow> c_wrap t v = c_wrap t w"
  by (cases t) (simp_all add: signed_take_bit_eq_iff_take_bit_eq)

lemma c_wrap_eq_iff:
  "c_wrap t v = c_wrap t w \<longleftrightarrow> take_bit (c_width t) v = take_bit (c_width t) w"
  by (metis c_wrap_cong order_refl take_bit_c_wrap)

lemma c_wrap_via [cint_simps]:
  "c_width s \<le> c_width t \<Longrightarrow> c_wrap s (c_wrap t v) = c_wrap s v"
  by (simp add: c_wrap_eq_iff take_bit_c_wrap)

section \<open>Operators\<close>

definition c_add :: "c_ty \<Rightarrow> int \<Rightarrow> int \<Rightarrow> int option" where
  "c_add t a b = Some (c_wrap t (a + b))"

definition c_sub :: "c_ty \<Rightarrow> int \<Rightarrow> int \<Rightarrow> int option" where
  "c_sub t a b = Some (c_wrap t (a - b))"

definition c_mul :: "c_ty \<Rightarrow> int \<Rightarrow> int \<Rightarrow> int option" where
  "c_mul t a b = Some (c_wrap t (a * b))"

text \<open>Division truncates towards zero; the remainder has the sign of the dividend.\<close>

definition c_quot :: "int \<Rightarrow> int \<Rightarrow> int" where
  "c_quot a b = sgn a * sgn b * (\<bar>a\<bar> div \<bar>b\<bar>)"

definition c_rem :: "int \<Rightarrow> int \<Rightarrow> int" where
  "c_rem a b = a - b * c_quot a b"

definition c_div_traps :: "c_ty \<Rightarrow> int \<Rightarrow> int \<Rightarrow> bool" where
  "c_div_traps t a b \<longleftrightarrow> b = 0 \<or> (c_signed t \<and> a = c_min t \<and> b = -1)"

definition c_div :: "c_ty \<Rightarrow> int \<Rightarrow> int \<Rightarrow> int option" where
  "c_div t a b = (if c_div_traps t a b then None else Some (c_quot a b))"

definition c_mod :: "c_ty \<Rightarrow> int \<Rightarrow> int \<Rightarrow> int option" where
  "c_mod t a b = (if c_div_traps t a b then None else Some (c_rem a b))"

definition c_or :: "c_ty \<Rightarrow> int \<Rightarrow> int \<Rightarrow> int option" where
  "c_or t a b = Some (c_wrap t (a OR b))"

definition c_and :: "c_ty \<Rightarrow> int \<Rightarrow> int \<Rightarrow> int option" where
  "c_and t a b = Some (c_wrap t (a AND b))"

definition c_xor :: "c_ty \<Rightarrow> int \<Rightarrow> int \<Rightarrow> int option" where
  "c_xor t a b = Some (c_wrap t (a XOR b))"

text \<open>The type of a shift is that of its left operand; the count keeps its own type.\<close>

definition c_shl :: "c_ty \<Rightarrow> int \<Rightarrow> int \<Rightarrow> int option" where
  "c_shl t a n =
     (if 0 \<le> n \<and> n < int (c_width t) then Some (c_wrap t (push_bit (nat n) a)) else None)"

definition c_shr :: "c_ty \<Rightarrow> int \<Rightarrow> int \<Rightarrow> int option" where
  "c_shr t a n = (if 0 \<le> n \<and> n < int (c_width t) then Some (drop_bit (nat n) a) else None)"

definition c_bool :: "bool \<Rightarrow> int" where
  "c_bool b = (if b then 1 else 0)"

lemma c_bool_simps [simp]: "c_bool True = 1" "c_bool False = 0" "c_bool b = 0 \<longleftrightarrow> \<not> b"
  "c_bool b = 1 \<longleftrightarrow> b"
  by (auto simp: c_bool_def)

section \<open>Facts\<close>

lemma c_common_commute: "c_common s t = c_common t s"
  by (auto simp: c_common_def)

lemma c_common_self [simp]: "c_common t t = t"
  by (cases t) (simp_all add: c_common_def)

lemma c_width_common: "c_width (c_common s t) = max (c_width s) (c_width t)"
  by (cases s; cases t) (simp_all add: c_common_def)

lemma take_bit_add_cong:
  "take_bit n (a::int) = take_bit n a' \<Longrightarrow> take_bit n b = take_bit n b' \<Longrightarrow>
    take_bit n (a + b) = take_bit n (a' + b')"
  by (metis take_bit_add)

lemma take_bit_diff_cong:
  "take_bit n (a::int) = take_bit n a' \<Longrightarrow> take_bit n b = take_bit n b' \<Longrightarrow>
    take_bit n (a - b) = take_bit n (a' - b')"
  by (metis take_bit_diff)

lemma take_bit_mult_cong:
  "take_bit n (a::int) = take_bit n a' \<Longrightarrow> take_bit n b = take_bit n b' \<Longrightarrow>
    take_bit n (a * b) = take_bit n (a' * b')"
  by (metis take_bit_mult)

lemma c_quot_exact: "0 \<le> a \<Longrightarrow> 0 < b \<Longrightarrow> c_quot a b = a div b"
  by (cases "a = 0") (simp_all add: c_quot_def sgn_if)

lemma c_rem_exact: "0 \<le> a \<Longrightarrow> 0 < b \<Longrightarrow> c_rem a b = a mod b"
  by (simp add: c_rem_def c_quot_exact minus_mult_div_eq_mod)

lemma c_quot_rem: "b * c_quot a b + c_rem a b = a"
  by (simp add: c_rem_def)

lemma abs_c_quot: "\<bar>c_quot a b\<bar> = \<bar>a\<bar> div \<bar>b\<bar>"
proof (cases "a = 0 \<or> b = 0")
  case True
  then show ?thesis by (auto simp: c_quot_def)
next
  case False
  then have "0 \<le> \<bar>a\<bar> div \<bar>b\<bar>" by (simp add: pos_imp_zdiv_nonneg_iff)
  with False show ?thesis by (simp add: c_quot_def abs_mult abs_sgn_eq)
qed

lemma c_rem_sgn: "c_rem a b = sgn a * (\<bar>a\<bar> mod \<bar>b\<bar>)"
proof -
  have "c_rem a b = sgn a * \<bar>a\<bar> - (b * sgn b) * (sgn a * (\<bar>a\<bar> div \<bar>b\<bar>))"
    by (simp add: c_rem_def c_quot_def sgn_mult_abs)
  also have "\<dots> = sgn a * (\<bar>a\<bar> - \<bar>b\<bar> * (\<bar>a\<bar> div \<bar>b\<bar>))"
    by (simp add: algebra_simps abs_sgn)
  finally show ?thesis by (simp add: minus_mult_div_eq_mod)
qed

lemma c_rem_bound: "b \<noteq> 0 \<Longrightarrow> \<bar>c_rem a b\<bar> < \<bar>b\<bar>"
  by (cases "a = 0") (simp_all add: c_rem_sgn abs_mult abs_sgn_eq)

end
