(* ===== verification/ConstValue.thy ===== *)
theory ConstValue
  imports CIntegers
begin

text \<open>
  The constant values of the SystemC front end: \<^verbatim>\<open>struct CConstValue\<close> of
  \<^verbatim>\<open>src/Htfe/HtfeConstValue.h\<close>, a tag and a union of the four integer types, with the
  operators by which \<^verbatim>\<open>EvalConstantExpr\<close> and \<^verbatim>\<open>FoldConstantExpr\<close> evaluate constant
  expressions. The union is its 64 bits (little endian: a 32-bit member is the low half);
  a 32-bit store leaves the high half as it was. The binary operators switch on
  \<^verbatim>\<open>(type << 2) | rhs.type\<close>; the sixteen cases of each are a table indexed by that key,
  every entry naming the getters (with the casts written in the case) and the setter.
\<close>

section \<open>Data\<close>

datatype EConstType = UINT32 | UINT64 | SINT32 | SINT64 | UNKNOWN

fun ct_code :: "EConstType \<Rightarrow> nat" where
  "ct_code UINT32 = 0" | "ct_code UINT64 = 1" | "ct_code SINT32 = 2" | "ct_code SINT64 = 3"
| "ct_code UNKNOWN = 4"

record CConstValue =
  m_constType :: EConstType
  m_union :: u64

definition m_uint64 :: "CConstValue \<Rightarrow> int" where
  "m_uint64 v = uint (m_union v)"

definition m_sint64 :: "CConstValue \<Rightarrow> int" where
  "m_sint64 v = c_wrap CS64 (uint (m_union v))"

definition m_uint32 :: "CConstValue \<Rightarrow> int" where
  "m_uint32 v = c_wrap CU32 (uint (m_union v))"

definition m_sint32 :: "CConstValue \<Rightarrow> int" where
  "m_sint32 v = c_wrap CS32 (uint (m_union v))"

text \<open>The constructors.\<close>

definition cv_of_int32 :: "int \<Rightarrow> CConstValue" where
  "cv_of_int32 i = \<lparr>m_constType = SINT32, m_union = word_of_int i\<rparr>"

definition cv_of_uint32 :: "int \<Rightarrow> CConstValue" where
  "cv_of_uint32 i = \<lparr>m_constType = UINT32, m_union = word_of_int i\<rparr>"

definition cv_of_uint64 :: "int \<Rightarrow> CConstValue" where
  "cv_of_uint64 i = \<lparr>m_constType = UINT64, m_union = word_of_int i\<rparr>"

section \<open>Tests and getters\<close>

definition IsZero :: "CConstValue \<Rightarrow> bool" where
  "IsZero v = (case m_constType v of
      SINT64 \<Rightarrow> m_sint64 v = 0
    | SINT32 \<Rightarrow> m_sint32 v = 0
    | UINT64 \<Rightarrow> m_uint64 v = 0
    | UINT32 \<Rightarrow> m_uint32 v = 0
    | UNKNOWN \<Rightarrow> True)"

definition IsNeg :: "CConstValue \<Rightarrow> bool" where
  "IsNeg v = (case m_constType v of
      SINT64 \<Rightarrow> m_sint64 v < 0
    | SINT32 \<Rightarrow> m_sint32 v < 0
    | _ \<Rightarrow> False)"

definition IsPos :: "CConstValue \<Rightarrow> bool" where
  "IsPos v = (case m_constType v of
      SINT64 \<Rightarrow> m_sint64 v \<ge> 0
    | SINT32 \<Rightarrow> m_sint32 v \<ge> 0
    | _ \<Rightarrow> True)"

definition cv_IsSigned :: "CConstValue \<Rightarrow> bool" where
  "cv_IsSigned v = (case m_constType v of SINT64 \<Rightarrow> True | SINT32 \<Rightarrow> True | _ \<Rightarrow> False)"

definition Is32Bit :: "CConstValue \<Rightarrow> bool" where
  "Is32Bit v = (case m_constType v of SINT32 \<Rightarrow> True | UINT32 \<Rightarrow> True | _ \<Rightarrow> False)"

definition IsBinary :: "CConstValue \<Rightarrow> bool option" where
  "IsBinary v = (case m_constType v of
      SINT64 \<Rightarrow> Some (m_sint64 v < 0 \<or> m_sint64 v > 1)
    | SINT32 \<Rightarrow> Some (m_sint32 v < 0 \<or> m_sint32 v > 1)
    | UINT64 \<Rightarrow> Some (m_uint64 v > 1)
    | UINT32 \<Rightarrow> Some (m_uint32 v > 1)
    | UNKNOWN \<Rightarrow> None)"

definition GetSint64 :: "CConstValue \<Rightarrow> int" where
  "GetSint64 v = (case m_constType v of
      SINT64 \<Rightarrow> m_sint64 v
    | SINT32 \<Rightarrow> c_wrap CS64 (m_sint32 v)
    | UINT64 \<Rightarrow> c_wrap CS64 (m_uint64 v)
    | UINT32 \<Rightarrow> c_wrap CS64 (m_uint32 v)
    | UNKNOWN \<Rightarrow> 0)"

definition GetUint64 :: "CConstValue \<Rightarrow> int" where
  "GetUint64 v = (case m_constType v of
      SINT64 \<Rightarrow> c_wrap CU64 (m_sint64 v)
    | SINT32 \<Rightarrow> c_wrap CU64 (m_sint32 v)
    | UINT64 \<Rightarrow> m_uint64 v
    | UINT32 \<Rightarrow> c_wrap CU64 (m_uint32 v)
    | UNKNOWN \<Rightarrow> 0)"

definition GetSint32 :: "CConstValue \<Rightarrow> int" where
  "GetSint32 v = (case m_constType v of
      SINT64 \<Rightarrow> c_wrap CS32 (m_sint64 v)
    | SINT32 \<Rightarrow> c_wrap CS32 (m_sint32 v)
    | UINT64 \<Rightarrow> c_wrap CS32 (m_uint64 v)
    | UINT32 \<Rightarrow> c_wrap CS32 (m_uint32 v)
    | UNKNOWN \<Rightarrow> 0)"

definition GetUint32 :: "CConstValue \<Rightarrow> int" where
  "GetUint32 v = (case m_constType v of
      SINT64 \<Rightarrow> c_wrap CU32 (m_sint64 v)
    | SINT32 \<Rightarrow> c_wrap CU32 (m_sint32 v)
    | UINT64 \<Rightarrow> c_wrap CU32 (m_uint64 v)
    | UINT32 \<Rightarrow> c_wrap CU32 (m_uint32 v)
    | UNKNOWN \<Rightarrow> 0)"

section \<open>Setters\<close>

text \<open>The C++ setters return a reference; the model is the store through it.\<close>

definition SetUint64 :: "int \<Rightarrow> CConstValue \<Rightarrow> CConstValue" where
  "SetUint64 x v = \<lparr>m_constType = UINT64, m_union = word_of_int x\<rparr>"

definition SetSint64 :: "int \<Rightarrow> CConstValue \<Rightarrow> CConstValue" where
  "SetSint64 x v = \<lparr>m_constType = SINT64, m_union = word_of_int x\<rparr>"

definition store_low32 :: "u64 \<Rightarrow> int \<Rightarrow> u64" where
  "store_low32 u x = (u AND NOT (mask 32)) OR take_bit 32 (word_of_int x)"

definition SetUint32 :: "int \<Rightarrow> CConstValue \<Rightarrow> CConstValue" where
  "SetUint32 x v = \<lparr>m_constType = UINT32, m_union = store_low32 (m_union v) x\<rparr>"

definition SetSint32 :: "int \<Rightarrow> CConstValue \<Rightarrow> CConstValue" where
  "SetSint32 x v = \<lparr>m_constType = SINT32, m_union = store_low32 (m_union v) x\<rparr>"

fun cv_get :: "c_ty \<Rightarrow> CConstValue \<Rightarrow> int" where
  "cv_get CU32 v = GetUint32 v" | "cv_get CU64 v = GetUint64 v"
| "cv_get CS32 v = GetSint32 v" | "cv_get CS64 v = GetSint64 v"

fun cv_set :: "c_ty \<Rightarrow> int \<Rightarrow> CConstValue \<Rightarrow> CConstValue" where
  "cv_set CU32 x v = SetUint32 x v" | "cv_set CU64 x v = SetUint64 x v"
| "cv_set CS32 x v = SetSint32 x v" | "cv_set CS64 x v = SetSint64 x v"

section \<open>Conversions\<close>

text \<open>
  \<^verbatim>\<open>ErrorMsg(PARSE_ERROR, ...)\<close> reports and goes on: the result carries whether an error
  was reported, next to the converted value.
\<close>

definition ConvertToSigned :: "CConstValue \<Rightarrow> (bool \<times> CConstValue) option" where
  "ConvertToSigned v = (case m_constType v of
      SINT64 \<Rightarrow> Some (False, v)
    | SINT32 \<Rightarrow> Some (False, v)
    | UINT64 \<Rightarrow> Some (GetUint64 v AND 0x8000000000000000 \<noteq> 0, SetSint64 (GetUint64 v) v)
    | UINT32 \<Rightarrow> Some (GetUint32 v AND 0x80000000 \<noteq> 0, SetSint32 (GetUint32 v) v)
    | UNKNOWN \<Rightarrow> None)"

definition ConvertToUnsigned :: "CConstValue \<Rightarrow> (bool \<times> CConstValue) option" where
  "ConvertToUnsigned v = (case m_constType v of
      SINT64 \<Rightarrow> Some (GetSint64 v AND 0x8000000000000000 \<noteq> 0, SetUint64 (GetSint64 v) v)
    | SINT32 \<Rightarrow> Some (GetSint32 v AND 0x80000000 \<noteq> 0, SetUint32 (GetSint32 v) v)
    | UINT64 \<Rightarrow> Some (False, v)
    | UINT32 \<Rightarrow> Some (False, v)
    | UNKNOWN \<Rightarrow> None)"

text \<open>
  \<^verbatim>\<open>1ull << width\<close> is undefined for a width above 63 and for a negative one: the models take
  the widths \<open>0 .. 64\<close> (\<open>1 .. 64\<close> where the code shifts by \<open>64 - width\<close>), \<open>None\<close> outside.
\<close>

definition width_mask :: "nat \<Rightarrow> int" where
  "width_mask width = (if width = 64 then c_wrap CU64 (NOT 0) else c_wrap CU64 (push_bit width 1 - 1))"

definition CastAsUint :: "nat \<Rightarrow> CConstValue \<Rightarrow> CConstValue option" where
  "CastAsUint width v =
     (if width > 64 then None
      else case m_constType v of
        SINT64 \<Rightarrow> Some (SetUint64 (c_wrap CU64 (GetSint64 v) AND width_mask width) (cv_of_int32 0))
      | SINT32 \<Rightarrow> Some (SetUint32 (c_wrap CU64 (GetSint32 v) AND width_mask width) (cv_of_int32 0))
      | UINT64 \<Rightarrow> Some (SetUint64 (GetUint64 v AND width_mask width) (cv_of_int32 0))
      | UINT32 \<Rightarrow> Some (SetUint32 (GetUint32 v AND width_mask width) (cv_of_int32 0))
      | UNKNOWN \<Rightarrow> None)"

definition Cast :: "bool \<Rightarrow> nat \<Rightarrow> CConstValue \<Rightarrow> CConstValue option" where
  "Cast isSigned width v =
     (if isSigned then
        (if width = 0 \<or> width > 64 then None
         else do {
           value \<leftarrow> (case m_constType v of
               SINT64 \<Rightarrow> Some (GetSint64 v)
             | SINT32 \<Rightarrow> Some (GetSint32 v)
             | UINT64 \<Rightarrow> Some (c_wrap CS64 (GetUint64 v))
             | UINT32 \<Rightarrow> Some (GetUint32 v)
             | UNKNOWN \<Rightarrow> None);
           let value = drop_bit (64 - width) (c_wrap CS64 (push_bit (64 - width) value));
           Some (if width > 32 then SetSint64 value (cv_of_int32 0)
                 else SetSint32 (c_wrap CS32 value) (cv_of_int32 0))
         })
      else
        (if width > 64 then None
         else do {
           value \<leftarrow> (case m_constType v of
               SINT64 \<Rightarrow> Some (c_wrap CU64 (GetSint64 v))
             | SINT32 \<Rightarrow> Some (c_wrap CU64 (GetSint32 v))
             | UINT64 \<Rightarrow> Some (GetUint64 v)
             | UINT32 \<Rightarrow> Some (GetUint32 v)
             | UNKNOWN \<Rightarrow> None);
           let value = value AND width_mask width;
           Some (if width > 32 then SetUint64 value (cv_of_int32 0)
                 else SetUint32 (c_wrap CU32 value) (cv_of_int32 0))
         }))"

section \<open>Unary operators\<close>

definition cv_neg :: "CConstValue \<Rightarrow> CConstValue option" where
  "cv_neg v = (case m_constType v of
      SINT64 \<Rightarrow> Some (SetSint64 (c_wrap CS64 (- GetSint64 v)) (cv_of_int32 0))
    | SINT32 \<Rightarrow> Some (SetSint32 (c_wrap CS32 (- GetSint32 v)) (cv_of_int32 0))
    | UINT64 \<Rightarrow> Some (SetUint64 (c_wrap CU64 (- GetUint64 v)) (cv_of_int32 0))
    | UINT32 \<Rightarrow> Some (SetUint32 (c_wrap CU32 (- GetUint32 v)) (cv_of_int32 0))
    | UNKNOWN \<Rightarrow> None)"

definition cv_compl :: "CConstValue \<Rightarrow> CConstValue option" where
  "cv_compl v = (case m_constType v of
      SINT64 \<Rightarrow> Some (SetSint64 (c_wrap CS64 (NOT (GetSint64 v))) (cv_of_int32 0))
    | SINT32 \<Rightarrow> Some (SetSint32 (c_wrap CS32 (NOT (GetSint32 v))) (cv_of_int32 0))
    | UINT64 \<Rightarrow> Some (SetUint64 (c_wrap CU64 (NOT (GetUint64 v))) (cv_of_int32 0))
    | UINT32 \<Rightarrow> Some (SetUint32 (c_wrap CU32 (NOT (GetUint32 v))) (cv_of_int32 0))
    | UNKNOWN \<Rightarrow> None)"

definition cv_not :: "CConstValue \<Rightarrow> CConstValue option" where
  "cv_not v = (case m_constType v of
      SINT64 \<Rightarrow> Some (SetSint64 (c_bool (GetSint64 v = 0)) (cv_of_int32 0))
    | SINT32 \<Rightarrow> Some (SetSint32 (c_bool (GetSint32 v = 0)) (cv_of_int32 0))
    | UINT64 \<Rightarrow> Some (SetUint64 (c_bool (GetUint64 v = 0)) (cv_of_int32 0))
    | UINT32 \<Rightarrow> Some (SetUint32 (c_bool (GetUint32 v = 0)) (cv_of_int32 0))
    | UNKNOWN \<Rightarrow> None)"

definition XorReduce :: "CConstValue \<Rightarrow> CConstValue option" where
  "XorReduce v = do {
     r \<leftarrow> (case m_constType v of
         SINT64 \<Rightarrow> Some (word_of_int (GetSint64 v) :: u64)
       | SINT32 \<Rightarrow> Some (word_of_int (GetSint32 v))
       | UINT64 \<Rightarrow> Some (word_of_int (GetUint64 v))
       | UINT32 \<Rightarrow> Some (word_of_int (GetUint32 v))
       | UNKNOWN \<Rightarrow> None);
     let r = r XOR drop_bit 32 r;
     let r = r XOR drop_bit 16 r;
     let r = r XOR drop_bit 8 r;
     let r = r XOR drop_bit 4 r;
     let r = r XOR drop_bit 2 r;
     let r = r XOR drop_bit 1 r;
     Some (SetUint64 (uint r) v)
   }"

section \<open>The case tables of the binary operators\<close>

text \<open>\<^verbatim>\<open>(GetConstType() << 2) | rhs.GetConstType()\<close>\<close>

definition cv_key :: "CConstValue \<Rightarrow> CConstValue \<Rightarrow> nat" where
  "cv_key l r = push_bit 2 (ct_code (m_constType l)) OR ct_code (m_constType r)"

definition table :: "'a list \<Rightarrow> nat \<Rightarrow> 'a option" where
  "table rows k = (if k < length rows then Some (rows ! k) else None)"

text \<open>The getters of the arithmetic, bitwise and logical cases, and the setter of each.\<close>

definition getter_rows :: "(c_ty \<times> c_ty) list" where
  "getter_rows =
    [(CU32, CU32), (CU32, CU64), (CU32, CS32), (CU32, CS64),
     (CU64, CU32), (CU64, CU64), (CU64, CS32), (CU64, CS64),
     (CS32, CU32), (CS32, CU64), (CS32, CS32), (CS32, CS64),
     (CS64, CU32), (CS64, CU64), (CS64, CS32), (CS64, CS64)]"

definition arith_setter_rows :: "c_ty list" where
  "arith_setter_rows =
    [CU32, CU64, CU32, CU64,
     CU64, CU64, CU64, CU64,
     CU32, CU64, CS32, CS64,
     CU64, CU64, CS64, CS64]"

definition arith_rows :: "((c_ty \<times> c_ty) \<times> c_ty) list" where
  "arith_rows = zip getter_rows arith_setter_rows"

text \<open>
  One case of an arithmetic operator: the operands are converted to the common type of the
  two getters, the operation works at that type, and the setter converts the result.
\<close>

definition arith_case ::
  "(c_ty \<Rightarrow> int \<Rightarrow> int \<Rightarrow> int option) \<Rightarrow> CConstValue \<Rightarrow> CConstValue \<Rightarrow> CConstValue option" where
  "arith_case f l r = do {
     ((gl, gr), s) \<leftarrow> table arith_rows (cv_key l r);
     let t = c_common gl gr;
     x \<leftarrow> f t (c_wrap t (cv_get gl l)) (c_wrap t (cv_get gr r));
     Some (cv_set s (c_wrap s x) (cv_of_int32 0))
   }"

definition cv_add :: "CConstValue \<Rightarrow> CConstValue \<Rightarrow> CConstValue option" where
  "cv_add l r = arith_case c_add l r"

definition cv_sub :: "CConstValue \<Rightarrow> CConstValue \<Rightarrow> CConstValue option" where
  "cv_sub l r = arith_case c_sub l r"

definition cv_div :: "CConstValue \<Rightarrow> CConstValue \<Rightarrow> CConstValue option" where
  "cv_div l r = arith_case c_div l r"

definition cv_mod :: "CConstValue \<Rightarrow> CConstValue \<Rightarrow> CConstValue option" where
  "cv_mod l r = arith_case c_mod l r"

definition cv_mul :: "CConstValue \<Rightarrow> CConstValue \<Rightarrow> CConstValue option" where
  "cv_mul l r = arith_case c_mul l r"

definition cv_or :: "CConstValue \<Rightarrow> CConstValue \<Rightarrow> CConstValue option" where
  "cv_or l r = arith_case c_or l r"

definition cv_and :: "CConstValue \<Rightarrow> CConstValue \<Rightarrow> CConstValue option" where
  "cv_and l r = arith_case c_and l r"

definition cv_xor :: "CConstValue \<Rightarrow> CConstValue \<Rightarrow> CConstValue option" where
  "cv_xor l r = arith_case c_xor l r"

text \<open>The shifts work at the type of the left operand and keep it.\<close>

definition shift_case ::
  "(c_ty \<Rightarrow> int \<Rightarrow> int \<Rightarrow> int option) \<Rightarrow> CConstValue \<Rightarrow> CConstValue \<Rightarrow> CConstValue option" where
  "shift_case f l r = do {
     (gl, gr) \<leftarrow> table getter_rows (cv_key l r);
     x \<leftarrow> f gl (cv_get gl l) (cv_get gr r);
     Some (cv_set gl x (cv_of_int32 0))
   }"

definition cv_shl :: "CConstValue \<Rightarrow> CConstValue \<Rightarrow> CConstValue option" where
  "cv_shl l r = shift_case c_shl l r"

definition cv_shr :: "CConstValue \<Rightarrow> CConstValue \<Rightarrow> CConstValue option" where
  "cv_shr l r = shift_case c_shr l r"

definition logic_case ::
  "(bool \<Rightarrow> bool \<Rightarrow> bool) \<Rightarrow> CConstValue \<Rightarrow> CConstValue \<Rightarrow> CConstValue option" where
  "logic_case f l r = do {
     (gl, gr) \<leftarrow> table getter_rows (cv_key l r);
     Some (SetUint32 (c_bool (f (cv_get gl l \<noteq> 0) (cv_get gr r \<noteq> 0))) (cv_of_int32 0))
   }"

definition cv_lor :: "CConstValue \<Rightarrow> CConstValue \<Rightarrow> CConstValue option" where
  "cv_lor l r = logic_case (\<or>) l r"

definition cv_land :: "CConstValue \<Rightarrow> CConstValue \<Rightarrow> CConstValue option" where
  "cv_land l r = logic_case (\<and>) l r"

section \<open>Comparisons\<close>

text \<open>
  Each side of a comparison case is a getter and the type its value is cast to in the case
  (the getter's own type where there is no cast).
\<close>

type_synonym cmp_side = "c_ty \<times> c_ty"

text \<open>The cases of \<^verbatim>\<open>!=\<close>, \<^verbatim>\<open><\<close>, \<^verbatim>\<open>>\<close>, \<^verbatim>\<open><=\<close> and \<^verbatim>\<open>>=\<close>.\<close>

definition order_rows :: "(cmp_side \<times> cmp_side) list" where
  "order_rows =
    [((CU32, CU32), (CU32, CU32)), ((CU32, CU32), (CU64, CU64)),
     ((CU32, CU32), (CS32, CU32)), ((CU32, CU32), (CS64, CS64)),
     ((CU64, CU64), (CU32, CU32)), ((CU64, CU64), (CU64, CU64)),
     ((CU64, CU64), (CS32, CU64)), ((CU64, CU64), (CS64, CU64)),
     ((CS32, CU32), (CU32, CU32)), ((CS32, CU64), (CU64, CU64)),
     ((CS32, CS32), (CS32, CS32)), ((CS32, CS32), (CS64, CS64)),
     ((CS64, CS64), (CU32, CU32)), ((CS64, CU64), (CU64, CU64)),
     ((CS64, CS64), (CS32, CS32)), ((CS64, CS64), (CS64, CS64))]"

text \<open>
  The cases of \<^verbatim>\<open>==\<close> and of \<^verbatim>\<open>IsEquivalent\<close>: whatever the type of the left operand,
  it is read by \<^verbatim>\<open>GetUint32()\<close>.
\<close>

definition equal_rows :: "(cmp_side \<times> cmp_side) list" where
  "equal_rows =
    [((CU32, CU32), (CU32, CU32)), ((CU32, CU32), (CU64, CU64)),
     ((CU32, CU32), (CS32, CU32)), ((CU32, CU32), (CS64, CS64)),
     ((CU32, CU32), (CU32, CU32)), ((CU32, CU32), (CU64, CU64)),
     ((CU32, CU32), (CS32, CU32)), ((CU32, CU32), (CS64, CS64)),
     ((CU32, CU32), (CU32, CU32)), ((CU32, CU32), (CU64, CU64)),
     ((CU32, CU32), (CS32, CU32)), ((CU32, CU32), (CS64, CS64)),
     ((CU32, CU32), (CU32, CU32)), ((CU32, CU32), (CU64, CU64)),
     ((CU32, CU32), (CS32, CU32)), ((CU32, CU32), (CS64, CS64))]"

definition cmp_side_get :: "cmp_side \<Rightarrow> CConstValue \<Rightarrow> int" where
  "cmp_side_get sd v = (case sd of (g, c) \<Rightarrow> c_wrap c (cv_get g v))"

definition cmp_case ::
  "(cmp_side \<times> cmp_side) list \<Rightarrow> (int \<Rightarrow> int \<Rightarrow> bool) \<Rightarrow> CConstValue \<Rightarrow> CConstValue \<Rightarrow> bool option"
  where
  "cmp_case rows f l r = do {
     (sl, sr) \<leftarrow> table rows (cv_key l r);
     let t = c_common (snd sl) (snd sr);
     Some (f (c_wrap t (cmp_side_get sl l)) (c_wrap t (cmp_side_get sr r)))
   }"

definition cv_bool_rslt :: "bool option \<Rightarrow> CConstValue option" where
  "cv_bool_rslt b = map_option (\<lambda>b. SetUint32 (c_bool b) (cv_of_int32 0)) b"

definition IsEquivalent :: "CConstValue \<Rightarrow> CConstValue \<Rightarrow> bool option" where
  "IsEquivalent l r = cmp_case equal_rows (=) l r"

definition cv_eq :: "CConstValue \<Rightarrow> CConstValue \<Rightarrow> CConstValue option" where
  "cv_eq l r = cv_bool_rslt (cmp_case equal_rows (=) l r)"

definition cv_ne :: "CConstValue \<Rightarrow> CConstValue \<Rightarrow> CConstValue option" where
  "cv_ne l r = cv_bool_rslt (cmp_case order_rows (\<noteq>) l r)"

definition cv_lt :: "CConstValue \<Rightarrow> CConstValue \<Rightarrow> CConstValue option" where
  "cv_lt l r = cv_bool_rslt (cmp_case order_rows (<) l r)"

definition cv_gt :: "CConstValue \<Rightarrow> CConstValue \<Rightarrow> CConstValue option" where
  "cv_gt l r = cv_bool_rslt (cmp_case order_rows (>) l r)"

definition cv_le :: "CConstValue \<Rightarrow> CConstValue \<Rightarrow> CConstValue option" where
  "cv_le l r = cv_bool_rslt (cmp_case order_rows (\<le>) l r)"

definition cv_ge :: "CConstValue \<Rightarrow> CConstValue \<Rightarrow> CConstValue option" where
  "cv_ge l r = cv_bool_rslt (cmp_case order_rows (\<ge>) l r)"

text \<open>\<^verbatim>\<open>bool operator != (int64_t value)\<close>\<close>

definition cv_ne_int64 :: "CConstValue \<Rightarrow> int \<Rightarrow> bool option" where
  "cv_ne_int64 v value = (case m_constType v of
      UINT32 \<Rightarrow> Some (GetUint32 v \<noteq> value)
    | UINT64 \<Rightarrow> Some (GetUint64 v \<noteq> c_wrap CU64 value)
    | SINT32 \<Rightarrow> Some (GetSint32 v \<noteq> value)
    | SINT64 \<Rightarrow> Some (GetSint64 v \<noteq> value)
    | UNKNOWN \<Rightarrow> None)"

section \<open>Widths\<close>

text \<open>
  The binary search of \<^verbatim>\<open>GetLeadingZeroCnt\<close>, kept as the loop it is: \<open>None\<close> would be a
  loop that does not end.
\<close>

partial_function (option) glz_loop :: "u64 \<Rightarrow> nat \<Rightarrow> nat \<Rightarrow> nat \<Rightarrow> nat option" where
  "glz_loop v hi lo w =
     (if hi = lo then Some w
      else if v AND push_bit w (- 1) = 0 then glz_loop v w lo ((w + lo) div 2)
      else glz_loop v hi (w + 1) ((hi + (w + 1)) div 2))"

definition GetLeadingZeroCnt :: "u64 \<Rightarrow> nat option" where
  "GetLeadingZeroCnt v = glz_loop v 64 1 16"

definition GetLeadingOnesCnt :: "u64 \<Rightarrow> nat option" where
  "GetLeadingOnesCnt v = GetLeadingZeroCnt (NOT v)"

definition GetMinWidth :: "CConstValue \<Rightarrow> nat option" where
  "GetMinWidth v = (case m_constType v of
      UINT32 \<Rightarrow> GetLeadingZeroCnt (word_of_int (GetUint32 v))
    | UINT64 \<Rightarrow> GetLeadingZeroCnt (word_of_int (GetUint64 v))
    | SINT32 \<Rightarrow> map_option Suc (if IsNeg v then GetLeadingOnesCnt (word_of_int (GetSint32 v))
                                else GetLeadingZeroCnt (word_of_int (GetSint32 v)))
    | SINT64 \<Rightarrow> map_option Suc (if IsNeg v then GetLeadingOnesCnt (word_of_int (GetSint64 v))
                                else GetLeadingZeroCnt (word_of_int (GetSint64 v)))
    | UNKNOWN \<Rightarrow> None)"

definition GetSigWidth :: "CConstValue \<Rightarrow> nat option" where
  "GetSigWidth v = GetMinWidth v"

section \<open>Values\<close>

text \<open>
  The integer a constant stands for, read at its own type; an \<open>UNKNOWN\<close> constant has none.
\<close>

fun cv_cty :: "EConstType \<Rightarrow> c_ty" where
  "cv_cty UINT32 = CU32" | "cv_cty UINT64 = CU64" | "cv_cty SINT32 = CS32" | "cv_cty SINT64 = CS64"
| "cv_cty UNKNOWN = CS32"

abbreviation cv_type :: "CConstValue \<Rightarrow> c_ty" where
  "cv_type v \<equiv> cv_cty (m_constType v)"

definition cv_known :: "CConstValue \<Rightarrow> bool" where
  "cv_known v \<longleftrightarrow> m_constType v \<noteq> UNKNOWN"

definition cv_val :: "CConstValue \<Rightarrow> int" where
  "cv_val v = cv_get (cv_type v) v"

lemma uint64_fits [simp]: "c_fits CU64 (uint (w :: u64))"
  using uint_bounded [of w] by (simp add: c_fits_def c_min_def c_max_def)

lemma m_uint64_wrap: "m_uint64 v = c_wrap CU64 (uint (m_union v))"
  by (simp add: m_uint64_def del: c_wrap.simps)

lemmas member_defs = m_uint64_wrap m_sint64_def m_uint32_def m_sint32_def

lemma cv_get_val: "cv_known v \<Longrightarrow> cv_get t v = c_wrap t (cv_val v)"
  by (cases t; cases "m_constType v")
    (simp_all add: cv_val_def cv_known_def GetUint32_def GetUint64_def GetSint32_def GetSint64_def
      member_defs c_wrap_via del: c_wrap.simps)

lemma c_fits_0 [simp]: "c_fits t 0"
  by (cases t) (simp_all add: c_fits_def c_min_def c_max_def)

lemma cv_val_fits [simp]: "c_fits (cv_type v) (cv_val v)"
  by (cases "m_constType v")
    (simp_all add: cv_val_def GetUint32_def GetUint64_def GetSint32_def GetSint64_def
      member_defs c_wrap_via  del: c_wrap.simps)

lemma take_bit_32_store_low32: "take_bit 32 (uint (store_low32 u x)) = take_bit 32 x"
  by (rule bit_eqI)
    (auto simp: store_low32_def bit_take_bit_iff bit_uint_iff bit_or_iff bit_and_iff bit_not_iff
      bit_mask_iff bit_word_of_int_iff)

lemma c_wrap_low32:
  "c_width t = 32 \<Longrightarrow> c_wrap t (uint (store_low32 u x)) = c_wrap t x"
  by (rule c_wrap_cong) (simp add: take_bit_32_store_low32)

lemma cv_set_type: "cv_type (cv_set t x v) = t" "cv_known (cv_set t x v)"
  by (cases t; simp add: SetUint32_def SetUint64_def SetSint32_def SetSint64_def cv_known_def)+

lemma cv_val_set [simp]: "cv_val (cv_set t x v) = c_wrap t x"
  by (cases t)
   (simp_all add: cv_val_def SetUint32_def SetUint64_def SetSint32_def SetSint64_def
     GetUint32_def GetUint64_def GetSint32_def GetSint64_def member_defs c_wrap_low32 c_wrap_via
     uint_word_of_int_eq
     del: c_wrap.simps,
    simp_all add: c_wrap_eq_iff del: c_wrap.simps)

definition arith_rtype :: "c_ty \<Rightarrow> c_ty \<Rightarrow> c_ty" where
  "arith_rtype s t =
    (if c_signed s \<and> c_signed t then (if c_width s = 64 \<or> c_width t = 64 then CS64 else CS32)
     else if c_width s = 64 \<or> c_width t = 64 then CU64 else CU32)"

lemma getter_row:
  "cv_known l \<Longrightarrow> cv_known r \<Longrightarrow> table getter_rows (cv_key l r) = Some (cv_type l, cv_type r)"
  by (cases "m_constType l"; cases "m_constType r")
    (simp_all add: cv_known_def cv_key_def table_def getter_rows_def)

lemma arith_row:
  "cv_known l \<Longrightarrow> cv_known r \<Longrightarrow> table arith_rows (cv_key l r) =
     Some ((cv_type l, cv_type r), arith_rtype (cv_type l) (cv_type r))"
  by (cases "m_constType l"; cases "m_constType r")
    (simp_all add: cv_known_def cv_key_def table_def arith_rows_def getter_rows_def
      arith_setter_rows_def arith_rtype_def)


lemma width_rtype: "c_width (arith_rtype s t) = c_width (c_common s t)"
  by (cases s; cases t) (simp_all add: c_common_def arith_rtype_def)

lemma take_bit_common:
  "n = c_width (c_common s t) \<Longrightarrow> take_bit n (c_wrap (c_common s t) v) = take_bit n v"
  by (simp add: take_bit_c_wrap)

text \<open>The shape of every arithmetic case on known operands.\<close>

lemma arith_case_known:
  assumes "cv_known l" "cv_known r"
  shows "arith_case f l r =
    map_option (\<lambda>x. cv_set (arith_rtype (cv_type l) (cv_type r))
        (c_wrap (arith_rtype (cv_type l) (cv_type r)) x) (cv_of_int32 0))
      (f (c_common (cv_type l) (cv_type r))
         (c_wrap (c_common (cv_type l) (cv_type r)) (cv_val l))
         (c_wrap (c_common (cv_type l) (cv_type r)) (cv_val r)))"
  using assms
  by (simp add: arith_case_def arith_row cv_val_def [symmetric] Let_def map_conv_bind_option comp_def)

text \<open>
  An operation that is a function on \<open>take_bit\<close> classes: the result is the exact result
  reduced to the result type.
\<close>

lemma arith_case_hom:
  assumes known: "cv_known l" "cv_known r"
    and f: "\<And>t a b. f t a b = Some (c_wrap t (g a b))"
    and hom: "\<And>n a b. take_bit n (g (take_bit n a) (take_bit n b)) = take_bit n (g a b)"
    and rt: "rt = arith_rtype (cv_type l) (cv_type r)"
  shows "\<exists>v. arith_case f l r = Some v \<and> cv_known v \<and> cv_type v = rt
           \<and> cv_val v = c_wrap rt (g (cv_val l) (cv_val r))"
proof -
  let ?t = "c_common (cv_type l) (cv_type r)"
  let ?x = "c_wrap ?t (g (c_wrap ?t (cv_val l)) (c_wrap ?t (cv_val r)))"
  have w: "c_width rt = c_width ?t" by (simp add: rt width_rtype)
  have "take_bit (c_width rt) ?x = take_bit (c_width rt) (g (cv_val l) (cv_val r))"
    by (metis hom take_bit_c_wrap order_refl w)
  then have "c_wrap rt ?x = c_wrap rt (g (cv_val l) (cv_val r))"
    by (rule c_wrap_cong)
  then show ?thesis
    using known by (simp add: arith_case_known f rt cv_set_type)
qed

lemma cv_add_val:
  assumes "cv_known l" "cv_known r" "rt = arith_rtype (cv_type l) (cv_type r)"
  shows "\<exists>v. cv_add l r = Some v \<and> cv_known v \<and> cv_type v = rt \<and> cv_val v = c_wrap rt (cv_val l + cv_val r)"
  unfolding cv_add_def
  by (rule arith_case_hom [where g = "(+)"]) (simp_all add: assms c_add_def take_bit_add)

lemma cv_sub_val:
  assumes "cv_known l" "cv_known r" "rt = arith_rtype (cv_type l) (cv_type r)"
  shows "\<exists>v. cv_sub l r = Some v \<and> cv_known v \<and> cv_type v = rt \<and> cv_val v = c_wrap rt (cv_val l - cv_val r)"
  unfolding cv_sub_def
  by (rule arith_case_hom [where g = "(-)"]) (simp_all add: assms c_sub_def take_bit_diff)

lemma cv_mul_val:
  assumes "cv_known l" "cv_known r" "rt = arith_rtype (cv_type l) (cv_type r)"
  shows "\<exists>v. cv_mul l r = Some v \<and> cv_known v \<and> cv_type v = rt \<and> cv_val v = c_wrap rt (cv_val l * cv_val r)"
  unfolding cv_mul_def
  by (rule arith_case_hom [where g = "(*)"]) (simp_all add: assms c_mul_def take_bit_mult)

lemma cv_bitwise_val:
  assumes "cv_known l" "cv_known r" "rt = arith_rtype (cv_type l) (cv_type r)"
  shows "\<exists>v. cv_and l r = Some v \<and> cv_known v \<and> cv_type v = rt \<and> cv_val v = c_wrap rt (cv_val l AND cv_val r)"
    and "\<exists>v. cv_or l r = Some v \<and> cv_known v \<and> cv_type v = rt \<and> cv_val v = c_wrap rt (cv_val l OR cv_val r)"
    and "\<exists>v. cv_xor l r = Some v \<and> cv_known v \<and> cv_type v = rt \<and> cv_val v = c_wrap rt (cv_val l XOR cv_val r)"
  unfolding cv_and_def cv_or_def cv_xor_def
  by (rule arith_case_hom; simp add: assms c_and_def c_or_def c_xor_def)+


lemma c_wrap_same_common [simp]: "c_wrap (cv_type v) (cv_val v) = cv_val v"
  by simp

lemma cv_val_own:
  "m_constType v = UINT32 \<Longrightarrow> c_wrap CU32 (cv_val v) = cv_val v"
  "m_constType v = UINT64 \<Longrightarrow> c_wrap CU64 (cv_val v) = cv_val v"
  "m_constType v = SINT32 \<Longrightarrow> c_wrap CS32 (cv_val v) = cv_val v"
  "m_constType v = SINT64 \<Longrightarrow> c_wrap CS64 (cv_val v) = cv_val v"
  using c_wrap_same_common [of v] by (simp_all del: c_wrap_same_common c_wrap_id c_wrap.simps)

lemma order_row:
  "cv_known l \<Longrightarrow> cv_known r \<Longrightarrow>
   cmp_case order_rows f l r =
     Some (let t = c_common (cv_type l) (cv_type r)
           in f (c_wrap t (cv_val l)) (c_wrap t (cv_val r)))"
  by (cases "m_constType l"; cases "m_constType r")
    (simp_all add: cv_known_def cv_key_def table_def order_rows_def cmp_case_def
      cmp_side_get_def c_common_def cv_get_val c_wrap_via cv_val_own del: c_wrap.simps)

lemma equal_row:
  "cv_known l \<Longrightarrow> cv_known r \<Longrightarrow>
   cmp_case equal_rows f l r =
     Some (let rt = (case cv_type r of CS32 \<Rightarrow> CU32 | t \<Rightarrow> t); t = c_common CU32 rt
           in f (c_wrap t (c_wrap CU32 (cv_val l))) (c_wrap t (cv_val r)))"
  by (cases "m_constType l"; cases "m_constType r")
    (simp_all add: cv_known_def cv_key_def table_def equal_rows_def cmp_case_def
      cmp_side_get_def c_common_def cv_get_val c_wrap_via cv_val_own del: c_wrap.simps)

definition cv_true :: "CConstValue option \<Rightarrow> bool" where
  "cv_true x = (case x of Some v \<Rightarrow> cv_val v = 1 | None \<Rightarrow> False)"

lemma cv_true_rslt [simp]: "cv_true (cv_bool_rslt (Some b)) \<longleftrightarrow> b"
  using cv_val_set [of CU32 "c_bool b" "cv_of_int32 0"]
  by (cases b) (simp_all add: cv_true_def cv_bool_rslt_def)

lemmas cmp_defs = cv_lt_def cv_gt_def cv_le_def cv_ge_def cv_ne_def cv_eq_def

lemma cv_order_total:
  assumes "cv_known l" "cv_known r"
  shows "cv_true (cv_lt l r) \<longleftrightarrow> cv_true (cv_gt r l)"
    "cv_true (cv_ge l r) \<longleftrightarrow> \<not> cv_true (cv_lt l r)"
    "cv_true (cv_le l r) \<longleftrightarrow> \<not> cv_true (cv_gt l r)"
    "cv_true (cv_ne l r) \<longleftrightarrow> cv_true (cv_lt l r) \<or> cv_true (cv_gt l r)"
  using assms by (auto simp: cmp_defs order_row Let_def c_common_commute simp del: c_wrap.simps)

lemma cv_order_val:
  assumes "cv_known l" "cv_known r"
    and "c_fits (c_common (cv_type l) (cv_type r)) (cv_val l)"
    and "c_fits (c_common (cv_type l) (cv_type r)) (cv_val r)"
  shows "cv_true (cv_lt l r) \<longleftrightarrow> cv_val l < cv_val r"
    "cv_true (cv_le l r) \<longleftrightarrow> cv_val l \<le> cv_val r"
    "cv_true (cv_ne l r) \<longleftrightarrow> cv_val l \<noteq> cv_val r"
  using assms by (auto simp: cmp_defs order_row Let_def simp del: c_wrap.simps)

lemma cv_of_simps [simp]:
  "cv_type (cv_of_uint32 i) = CU32" "cv_type (cv_of_uint64 i) = CU64" "cv_type (cv_of_int32 i) = CS32"
  "cv_known (cv_of_uint32 i)" "cv_known (cv_of_uint64 i)" "cv_known (cv_of_int32 i)"
  by (simp_all add: cv_known_def cv_of_uint32_def cv_of_uint64_def cv_of_int32_def)

lemma cv_IsSigned_of:
  "\<not> cv_IsSigned (cv_of_uint32 i)" "\<not> cv_IsSigned (cv_of_uint64 i)" "cv_IsSigned (cv_of_int32 i)"
  by (simp_all add: cv_IsSigned_def cv_of_uint32_def cv_of_uint64_def cv_of_int32_def)

lemma cv_val_of [simp]:
  "cv_val (cv_of_uint32 i) = c_wrap CU32 i"
  "cv_val (cv_of_uint64 i) = c_wrap CU64 i"
  "cv_val (cv_of_int32 i) = c_wrap CS32 i"
  by (simp_all add: cv_of_uint32_def cv_of_uint64_def cv_of_int32_def cv_val_def
    GetUint32_def GetUint64_def GetSint32_def member_defs uint_word_of_int_eq c_wrap_via
    del: c_wrap.simps, simp_all add: c_wrap_eq_iff del: c_wrap.simps)

section \<open>Correctness of the width search\<close>

lemma and_not_mask_zero_iff:
  fixes v :: u64
  assumes "w < 64"
  shows "v AND NOT (mask w) = 0 \<longleftrightarrow> unat v < 2 ^ w"
proof -
  have "v AND NOT (mask w) = 0 \<longleftrightarrow> (\<forall>n. w \<le> n \<longrightarrow> \<not> bit v n)"
    using bit_imp_le_length [of v] by (auto simp: bit_eq_iff bit_and_iff bit_not_iff bit_mask_iff not_less)
  also have "\<dots> \<longleftrightarrow> take_bit w v = v"
    by (metis bit_take_bit_iff bit_eqI not_le_imp_less linorder_not_less)
  also have "\<dots> \<longleftrightarrow> unat v < 2 ^ w"
    by (metis take_bit_nat_eq_self_iff unsigned_take_bit_eq unsigned_word_eqI)
  finally show ?thesis .
qed

definition min_width_of :: "nat \<Rightarrow> nat \<Rightarrow> bool" where
  "min_width_of x w \<longleftrightarrow> 1 \<le> w \<and> x < 2 ^ w \<and> (\<forall>k. 1 \<le> k \<and> k < w \<longrightarrow> 2 ^ k \<le> x)"

lemma glz_loop_correct:
  assumes "1 \<le> lo" "hi \<le> 64" "lo \<le> w" "w < hi \<or> (hi = lo \<and> w = lo)"
    and "unat v < 2 ^ hi" "\<forall>k. 1 \<le> k \<and> k < lo \<longrightarrow> 2 ^ k \<le> unat v"
  shows "\<exists>r. glz_loop v hi lo w = Some r \<and> min_width_of (unat v) r \<and> r \<le> 64"
  using assms
proof (induction "hi - lo" arbitrary: hi lo w rule: less_induct)
  case less
  show ?case
  proof (cases "hi = lo")
    case True
    with less.prems show ?thesis by (auto simp: glz_loop.simps min_width_of_def)
  next
    case False
    with less.prems have w: "lo \<le> w" "w < hi" "w < 64" by auto
    show ?thesis
    proof (cases "unat v < 2 ^ w")
      case True
      have "\<exists>r. glz_loop v w lo ((w + lo) div 2) = Some r \<and> min_width_of (unat v) r \<and> r \<le> 64"
        using less.prems w True by (intro less.hyps) auto
      with False w True show ?thesis
        by (simp add: glz_loop.simps [of v hi lo w] and_not_mask_zero_iff)
    next
      case big: False
      have "2 ^ k \<le> unat v" if "k < w + 1" for k
        using that big power_increasing [of k w "2::nat"] by linarith
      then have "\<exists>r. glz_loop v hi (w + 1) ((hi + (w + 1)) div 2) = Some r
                     \<and> min_width_of (unat v) r \<and> r \<le> 64"
        using less.prems w by (intro less.hyps) auto
      with False w big show ?thesis
        by (simp add: glz_loop.simps [of v hi lo w] and_not_mask_zero_iff)
    qed
  qed
qed

lemma GetLeadingZeroCnt_correct:
  "\<exists>w. GetLeadingZeroCnt v = Some w \<and> min_width_of (unat v) w \<and> w \<le> 64"
  unfolding GetLeadingZeroCnt_def
  by (rule glz_loop_correct) (use unsigned_less [of v] in auto)


lemma unat_word_of_int_small:
  assumes "0 \<le> x" "x < 2 ^ 64"
  shows "unat (word_of_int x :: u64) = nat x"
proof -
  have "take_bit 64 x = x" using assms by (simp add: take_bit_int_eq_self)
  then show ?thesis by (simp add: unat_eq_nat_uint uint_word_of_int_eq)
qed

lemma cv_val_range:
  "m_constType v = UINT32 \<or> m_constType v = UINT64 \<Longrightarrow> 0 \<le> cv_val v \<and> cv_val v < 2 ^ 64"
  "m_constType v = SINT32 \<or> m_constType v = SINT64 \<Longrightarrow> - (2 ^ 63) \<le> cv_val v \<and> cv_val v < 2 ^ 63"
  using cv_val_fits [of v] by (auto simp: c_fits_def c_min_def c_max_def simp del: cv_val_fits)

text \<open>The width of an unsigned constant.\<close>

lemma min_width_unsigned:
  assumes "m_constType v = UINT32 \<or> m_constType v = UINT64"
  shows "\<exists>w. GetMinWidth v = Some w \<and> min_width_of (nat (cv_val v)) w"
  using assms cv_val_range(1) [OF assms] GetLeadingZeroCnt_correct [of "word_of_int (cv_val v)"]
  by (auto simp: GetMinWidth_def cv_val_def unat_word_of_int_small)

definition signed_fits :: "nat \<Rightarrow> int \<Rightarrow> bool" where
  "signed_fits w x \<longleftrightarrow> - (2 ^ (w - 1)) \<le> x \<and> x < 2 ^ (w - 1)"

lemma signed_width:
  assumes "min_width_of (nat (if x < 0 then - x - 1 else x)) w"
  shows "signed_fits (Suc w) x \<and> (\<forall>k. 2 \<le> k \<and> k \<le> w \<longrightarrow> \<not> signed_fits k x)"
proof -
  let ?m = "if x < 0 then - x - 1 else x"
  have fits: "?m < 2 ^ w" and low: "\<And>k. 1 \<le> k \<and> k < w \<Longrightarrow> 2 ^ k \<le> ?m"
    using assms by (auto simp: min_width_of_def nat_less_iff le_nat_iff split: if_splits)
  have "\<not> signed_fits k x" if k: "2 \<le> k \<and> k \<le> w" for k
  proof -
    have "2 ^ (k - 1) \<le> ?m" by (rule low) (use k in auto)
    then show ?thesis by (auto simp: signed_fits_def split: if_splits)
  qed
  with fits show ?thesis by (auto simp: signed_fits_def split: if_splits)
qed

lemma min_width_signed:
  assumes "m_constType v = SINT32 \<or> m_constType v = SINT64"
  shows "\<exists>w. GetMinWidth v = Some w \<and> signed_fits w (cv_val v) \<and>
             (\<forall>k. 2 \<le> k \<and> k < w \<longrightarrow> \<not> signed_fits k (cv_val v))"
proof -
  let ?m = "if cv_val v < 0 then - cv_val v - 1 else cv_val v"
  have neg: "IsNeg v \<longleftrightarrow> cv_val v < 0"
    using assms by (auto simp: IsNeg_def cv_val_def GetSint32_def GetSint64_def m_sint32_def
        simp del: c_wrap.simps)
  have "NOT (word_of_int x) = (word_of_int (- x - 1) :: u64)" for x
    by (simp add: not_eq_complement)
  with neg have "GetMinWidth v = map_option Suc (GetLeadingZeroCnt (word_of_int ?m))"
    using assms by (auto simp: GetMinWidth_def GetLeadingOnesCnt_def cv_val_def)
  moreover obtain w where "GetLeadingZeroCnt (word_of_int ?m) = Some w" "min_width_of (nat ?m) w"
    using GetLeadingZeroCnt_correct [of "word_of_int ?m"] cv_val_range(2) [OF assms]
    by (auto simp: unat_word_of_int_small)
  ultimately show ?thesis
    using signed_width [of "cv_val v" w] by auto
qed


section \<open>Correctness of the reduction\<close>

definition odd_bits :: "nat \<Rightarrow> u64 \<Rightarrow> nat \<Rightarrow> bool" where
  "odd_bits k r n \<longleftrightarrow> odd (\<Sum>i<k. of_bool (bit r (n + i)) :: nat)"

lemma sum_lessThan_add:
  fixes a b :: nat
  shows "(\<Sum>i<a + b. f i) = (\<Sum>i<a. f i) + (\<Sum>i<b. f (a + i) :: nat)"
  by (induction b) simp_all

lemma even_uint_u64: "even (uint (w :: u64)) \<longleftrightarrow> \<not> bit w 0"
  using bit_uint_iff [of w 0] by (simp add: bit_0)

lemma odd_bits_fold: "odd_bits k (r XOR drop_bit k r) n \<longleftrightarrow> odd_bits (2 * k) r n"
proof -
  have "odd (\<Sum>i<m. of_bool (bit (r XOR drop_bit k r) (n + i)) :: nat)
        \<longleftrightarrow> odd ((\<Sum>i<m. of_bool (bit r (n + i))) + (\<Sum>i<m. of_bool (bit r (n + k + i))) :: nat)" for m
    by (induction m) (auto simp: bit_xor_iff bit_drop_bit_eq ac_simps)
  moreover have "(\<Sum>i<2*k. of_bool (bit r (n + i)) :: nat)
      = (\<Sum>i<k. of_bool (bit r (n + i))) + (\<Sum>i<k. of_bool (bit r (n + k + i)))"
    using sum_lessThan_add [of "\<lambda>i. of_bool (bit r (n + i)) :: nat" k k]
    by (simp only: mult_2 add.assoc)
  ultimately show ?thesis by (simp add: odd_bits_def)
qed

lemma odd_bits_1: "odd_bits 1 r n \<longleftrightarrow> bit r n"
  by (simp add: odd_bits_def)

lemma xor_reduce_odd:
  assumes "cv_known v"
  shows "\<exists>u. XorReduce v = Some u \<and> m_constType u = UINT64 \<and>
             (odd (cv_val u) \<longleftrightarrow> odd (card {i. i < 64 \<and> bit (cv_val v) i}))"
proof -
  let ?r = "word_of_int (cv_val v) :: u64"
  define f where "f k r = (r XOR drop_bit k r :: u64)" for k r
  have fold: "odd_bits k (f k r) 0 \<longleftrightarrow> odd_bits (2 * k) r 0" for k r
    by (simp add: f_def odd_bits_fold)
  have "XorReduce v = Some (SetUint64 (uint (f 1 (f 2 (f 4 (f 8 (f 16 (f 32 ?r))))))) v)"
    using assms by (cases "m_constType v") (simp_all add: XorReduce_def cv_val_def cv_known_def f_def Let_def)
  moreover have "bit (f 1 (f 2 (f 4 (f 8 (f 16 (f 32 ?r)))))) 0 \<longleftrightarrow> odd_bits 64 ?r 0"
    using fold [of 1] fold [of 2] fold [of 4] fold [of 8] fold [of 16] fold [of 32]
    by (simp add: odd_bits_1 [symmetric])
  moreover have "(\<Sum>i<64. of_bool (bit ?r i) :: nat) = card {i. i < 64 \<and> bit (cv_val v) i}"
    by (simp add: sum_of_bool_eq bit_word_of_int_iff Int_def conj_commute)
  ultimately show ?thesis
    by (simp add: SetUint64_def cv_val_def GetUint64_def m_uint64_def odd_bits_def even_uint_u64)
qed

section \<open>Correctness of the casts\<close>

lemma width_mask_mask: "width \<le> 64 \<Longrightarrow> width_mask width = mask width"
  by (auto simp: width_mask_def push_bit_eq_mult take_bit_not_eq_mask_diff
      mask_eq_exp_minus_1 [symmetric] simp flip: mask_eq_exp_minus_1)

lemma shift_up_down:
  assumes "0 < w" "w \<le> 64"
  shows "drop_bit (64 - w) (c_wrap CS64 (push_bit (64 - w) x)) = signed_take_bit (w - 1) x"
  using assms by (intro bit_eqI) (auto simp: bit_drop_bit_eq bit_signed_take_bit_iff bit_push_bit_iff min_def)

lemma signed_take_bit_range:
  assumes "n \<le> m"
  shows "- (2 ^ m) \<le> signed_take_bit n (x::int) \<and> signed_take_bit n x < 2 ^ m"
proof -
  have "(2::int) ^ n \<le> 2 ^ m" using assms by (intro power_increasing) auto
  then show ?thesis
    using signed_take_bit_int_less_exp [of n x] signed_take_bit_int_greater_eq_minus_exp [of n x]
    by linarith
qed

lemma cast_vals:
  assumes "cv_known v" "0 < w" "w \<le> 64"
  shows "\<exists>u. Cast True w v = Some u \<and> cv_type u = (if w > 32 then CS64 else CS32) \<and>
             cv_val u = signed_take_bit (w - 1) (cv_val v)"
    and "\<exists>u. Cast False w v = Some u \<and> cv_type u = (if w > 32 then CU64 else CU32) \<and>
             cv_val u = take_bit w (cv_val v)"
proof -
  let ?x = "cv_val v"
  have sv: "drop_bit (64 - w) (c_wrap CS64 (push_bit (64 - w) y)) = signed_take_bit (w - 1) ?x"
    if "take_bit 64 y = take_bit 64 ?x" for y
  proof -
    have "take_bit w y = take_bit w ?x" using that assms by (metis min.absorb1 take_bit_take_bit)
    with assms show ?thesis
      by (simp add: shift_up_down signed_take_bit_eq_iff_take_bit_eq del: c_wrap.simps)
  qed
  have "Cast True w v = Some (let value = signed_take_bit (w - 1) ?x in
      if w > 32 then cv_set CS64 value (cv_of_int32 0) else cv_set CS32 (c_wrap CS32 value) (cv_of_int32 0))"
    using assms sv
    by (cases "m_constType v") (simp_all add: Cast_def cv_known_def cv_val_def Let_def take_bit_c_wrap
      del: c_wrap.simps)
  moreover have "c_fits (if w > 32 then CS64 else CS32) (signed_take_bit (w - 1) ?x)"
    using assms signed_take_bit_range [of "w - 1" 63 ?x] signed_take_bit_range [of "w - 1" 31 ?x]
    by (auto simp: c_fits_def c_min_def c_max_def)
  ultimately show "\<exists>u. Cast True w v = Some u \<and> cv_type u = (if w > 32 then CS64 else CS32) \<and>
             cv_val u = signed_take_bit (w - 1) (cv_val v)"
    by (auto simp: Let_def cv_set_type simp del: c_wrap.simps cv_set.simps)
  have um: "y AND width_mask w = take_bit w ?x" if "take_bit 64 y = take_bit 64 ?x" for y
    using that assms by (simp add: width_mask_mask flip: take_bit_eq_mask) (metis min.absorb1 take_bit_take_bit)
  have "Cast False w v = Some (let value = take_bit w ?x in
      if w > 32 then cv_set CU64 value (cv_of_int32 0) else cv_set CU32 (c_wrap CU32 value) (cv_of_int32 0))"
    using assms um
    by (cases "m_constType v") (simp_all add: Cast_def cv_known_def cv_val_def Let_def take_bit_c_wrap
      del: c_wrap.simps)
  then show "\<exists>u. Cast False w v = Some u \<and> cv_type u = (if w > 32 then CU64 else CU32) \<and>
             cv_val u = take_bit w (cv_val v)"
    using assms by (auto simp: Let_def cv_set_type simp del: cv_set.simps)
qed


section \<open>Correctness of division\<close>

lemma c_quot_fits:
  assumes "c_fits t a" "c_fits t b" "\<not> c_div_traps t a b"
  shows "c_fits t (c_quot a b)" "c_fits t (c_rem a b)"
proof -
  have b: "b \<noteq> 0" using assms by (simp add: c_div_traps_def)
  show "c_fits t (c_quot a b)"
  proof (cases "c_signed t")
    case False
    then have "0 \<le> a" "0 < b" using assms b by (auto simp: c_fits_def c_min_def)
    moreover have "a div b \<le> a"
      using \<open>0 \<le> a\<close> \<open>0 < b\<close> by (metis div_by_1 zdiv_mono2 zero_less_one int_one_le_iff_zero_less)
    ultimately show ?thesis
      using assms False by (auto simp: c_quot_exact c_fits_def c_min_def pos_imp_zdiv_nonneg_iff)
  next
    case True
    let ?M = "2 ^ (c_width t - 1) :: int"
    have ab: "- ?M \<le> a" "a < ?M" "\<not> (a = - ?M \<and> b = -1)"
      using assms True by (auto simp: c_fits_def c_min_def c_max_def c_div_traps_def)
    have le: "\<bar>c_quot a b\<bar> \<le> \<bar>a\<bar>"
      using b zdiv_mono2 [of "\<bar>a\<bar>" 1 "\<bar>b\<bar>"] by (simp add: abs_c_quot)
    have "c_quot a b \<noteq> ?M"
    proof
      assume q: "c_quot a b = ?M"
      with le ab have a: "a = - ?M" by linarith
      have "\<bar>a\<bar> div \<bar>b\<bar> = \<bar>a\<bar>" using abs_c_quot [of a b] q a by simp
      moreover have "\<bar>a\<bar> div \<bar>b\<bar> < \<bar>a\<bar>" if "2 \<le> \<bar>b\<bar>"
      proof -
        have "0 < \<bar>a\<bar>" by (simp add: a)
        then have "\<bar>a\<bar> div 2 < \<bar>a\<bar>" by linarith
        moreover have "\<bar>a\<bar> div \<bar>b\<bar> \<le> \<bar>a\<bar> div 2" using that by (intro zdiv_mono2) auto
        ultimately show ?thesis by linarith
      qed
      ultimately have "\<bar>b\<bar> = 1" using b by linarith
      with ab a q b show False by (auto simp: c_quot_def)
    qed
    with le ab True show ?thesis by (auto simp: c_fits_def c_min_def c_max_def)
  qed
  show "c_fits t (c_rem a b)"
  proof (cases "c_signed t")
    case False
    then have "0 \<le> a" "0 < b" using assms b by (auto simp: c_fits_def c_min_def)
    then show ?thesis
      using assms False pos_mod_bound [OF \<open>0 < b\<close>, of a] pos_mod_sign [OF \<open>0 < b\<close>, of a]
      unfolding c_fits_def by (simp add: c_rem_exact c_min_def)
  next
    case True
    then show ?thesis
      using assms c_rem_bound [OF b, of a] by (auto simp: c_fits_def c_min_def c_max_def)
  qed
qed

lemma cv_divmod_vals:
  assumes known: "cv_known l" "cv_known r" and ty: "cv_type l = cv_type r"
    and tr: "\<not> c_div_traps (cv_type l) (cv_val l) (cv_val r)"
  shows "\<exists>q m. cv_div l r = Some q \<and> cv_mod l r = Some m \<and>
      cv_type q = cv_type l \<and> cv_type m = cv_type l \<and>
      cv_val l = cv_val r * cv_val q + cv_val m \<and> \<bar>cv_val m\<bar> < \<bar>cv_val r\<bar> \<and>
      \<bar>cv_val q\<bar> = \<bar>cv_val l\<bar> div \<bar>cv_val r\<bar>"
proof -
  have rt: "arith_rtype (cv_type r) (cv_type r) = cv_type r"
    by (cases "cv_type r") (simp_all add: arith_rtype_def)
  have fits: "c_fits (cv_type r) (c_quot (cv_val l) (cv_val r))"
             "c_fits (cv_type r) (c_rem (cv_val l) (cv_val r))"
    using c_quot_fits [of "cv_type r" "cv_val l" "cv_val r"] tr ty cv_val_fits [of l] by simp_all
  have fl: "c_fits (cv_type r) (cv_val l)" using cv_val_fits [of l] ty by simp
  show ?thesis
    using known tr ty fits fl c_rem_bound [of "cv_val r" "cv_val l"]
    by (simp add: cv_div_def cv_mod_def arith_case_known rt c_div_def c_mod_def cv_set_type abs_c_quot
        c_quot_rem c_div_traps_def del: c_wrap.simps)
qed

lemma cv_div_zero:
  assumes "cv_known l" "cv_known r" "cv_val r = 0"
  shows "cv_div l r = None" "cv_mod l r = None"
proof -
  have "c_wrap t 0 = 0" for t by (cases t) simp_all
  then show "cv_div l r = None" "cv_mod l r = None"
    using assms by (simp_all add: cv_div_def cv_mod_def arith_case_known c_div_def c_mod_def c_div_traps_def del: c_wrap.simps)
qed

section \<open>Correctness of the conversions\<close>

text \<open>A conversion between the types of one width keeps the value unless the sign bit is set.\<close>

lemma to_signed_same_iff:
  assumes "0 \<le> x" "x < 2 ^ Suc n"
  shows "signed_take_bit n x = x \<longleftrightarrow> (x::int) AND 2 ^ n = 0"
proof
  assume "signed_take_bit n x = x"
  with assms(1) have "0 \<le> signed_take_bit n x" by simp
  then show "x AND 2 ^ n = 0" by (simp add: and_exp_eq_0_iff_not_bit)
next
  assume "x AND 2 ^ n = 0"
  then have n: "\<not> bit x n" by (simp add: and_exp_eq_0_iff_not_bit)
  have "take_bit (Suc n) x = x" using assms by (simp add: take_bit_int_eq_self)
  then have "take_bit n x = x"
    using n by (metis bit_eqI bit_take_bit_iff less_antisym)
  with n show "signed_take_bit n x = x" by (simp add: signed_take_bit_eq_if_positive)
qed

lemma to_unsigned_same_iff:
  assumes "- (2 ^ n) \<le> x" "x < 2 ^ n"
  shows "take_bit (Suc n) x = x \<longleftrightarrow> (x::int) AND 2 ^ n = 0"
proof -
  have s: "signed_take_bit n x = x"
    using assms by (simp add: signed_take_bit_int_eq_self_iff)
  have "take_bit (Suc n) x = x \<longleftrightarrow> 0 \<le> x"
    using assms by (simp add: take_bit_int_eq_self_iff)
  also have "\<dots> \<longleftrightarrow> \<not> bit x n"
    using signed_take_bit_nonnegative_iff [of n x] by (simp add: s)
  finally show ?thesis by (simp add: and_exp_eq_0_iff_not_bit)
qed

lemma convert_vals:
  assumes "cv_known v"
  shows "\<exists>e u. ConvertToSigned v = Some (e, u) \<and> c_signed (cv_type u) \<and>
           c_width (cv_type u) = c_width (cv_type v) \<and> (\<not> e \<longleftrightarrow> cv_val u = cv_val v)"
    "\<exists>e u. ConvertToUnsigned v = Some (e, u) \<and> \<not> c_signed (cv_type u) \<and>
           c_width (cv_type u) = c_width (cv_type v) \<and> (\<not> e \<longleftrightarrow> cv_val u = cv_val v)"
proof -
  note ranges = to_signed_same_iff [of "cv_val v" 31] to_signed_same_iff [of "cv_val v" 63]
    to_unsigned_same_iff [of 31 "cv_val v"] to_unsigned_same_iff [of 63 "cv_val v"]
  note set = cv_val_set [of CS32 "cv_val v" v] cv_val_set [of CS64 "cv_val v" v]
    cv_val_set [of CU32 "cv_val v" v] cv_val_set [of CU64 "cv_val v" v]
    cv_set_type [of CS32 "cv_val v" v] cv_set_type [of CS64 "cv_val v" v]
    cv_set_type [of CU32 "cv_val v" v] cv_set_type [of CU64 "cv_val v" v]
  have val: "m_constType v = UINT32 \<Longrightarrow> GetUint32 v = cv_val v"
    "m_constType v = UINT64 \<Longrightarrow> GetUint64 v = cv_val v"
    "m_constType v = SINT32 \<Longrightarrow> GetSint32 v = cv_val v"
    "m_constType v = SINT64 \<Longrightarrow> GetSint64 v = cv_val v"
    by (simp_all add: cv_val_def)
  show "\<exists>e u. ConvertToSigned v = Some (e, u) \<and> c_signed (cv_type u) \<and>
           c_width (cv_type u) = c_width (cv_type v) \<and> (\<not> e \<longleftrightarrow> cv_val u = cv_val v)"
    using assms cv_val_fits [of v] ranges set
    by (cases "m_constType v") (auto simp: ConvertToSigned_def cv_known_def val c_fits_def c_min_def c_max_def)
  show "\<exists>e u. ConvertToUnsigned v = Some (e, u) \<and> \<not> c_signed (cv_type u) \<and>
           c_width (cv_type u) = c_width (cv_type v) \<and> (\<not> e \<longleftrightarrow> cv_val u = cv_val v)"
    using assms cv_val_fits [of v] ranges set
    by (cases "m_constType v") (auto simp: ConvertToUnsigned_def cv_known_def val c_fits_def c_min_def c_max_def)
qed

section \<open>Properties\<close>

lemma shift_vals:
  assumes "cv_known l" "cv_known r"
  shows "cv_shl l r = (if 0 \<le> cv_val r \<and> cv_val r < int (c_width (cv_type l))
           then Some (cv_set (cv_type l) (c_wrap (cv_type l) (cv_val l * 2 ^ nat (cv_val r))) (cv_of_int32 0))
           else None)"
    and "cv_shr l r = (if 0 \<le> cv_val r \<and> cv_val r < int (c_width (cv_type l))
           then Some (cv_set (cv_type l) (cv_val l div 2 ^ nat (cv_val r)) (cv_of_int32 0))
           else None)"
  using assms
  by (simp_all add: cv_shl_def cv_shr_def shift_case_def getter_row c_shl_def c_shr_def
    cv_val_def [symmetric] push_bit_eq_mult drop_bit_eq_div)

lemma shr_fits: "c_fits t x \<Longrightarrow> c_fits t (x div 2 ^ n)"
proof -
  assume "c_fits t x"
  moreover have "x div 2 ^ n \<le> x" if "0 \<le> x"
    using zdiv_mono2 [of x 1 "2 ^ n"] that by simp
  moreover have "x \<le> x div 2 ^ n" if "x < 0"
    using zdiv_mono2_neg [of x 1 "2 ^ n"] that by simp
  moreover have "0 \<le> x div 2 ^ n \<longleftrightarrow> 0 \<le> x"
    by (simp add: pos_imp_zdiv_nonneg_iff)
  moreover have "c_min t \<le> 0" "0 \<le> c_max t"
    by (cases t; simp add: c_min_def c_max_def)+
  ultimately show ?thesis by (cases "0 \<le> x") (auto simp: c_fits_def)
qed

text \<open>
  C23: the operators \<^verbatim>\<open>+ - * & | ^\<close> on two typed constants return a constant of the type
  the case tables give (unsigned as soon as one side is, 64 bits as soon as one side is) whose
  value is the exact mathematical result reduced to that type: no case reads an operand
  through a getter, or stores through a setter, that changes it.
\<close>

theorem cv_arith_exact:
  assumes "cv_known l" "cv_known r" "rt = arith_rtype (cv_type l) (cv_type r)"
  shows "(\<exists>v. cv_add l r = Some v \<and> cv_type v = rt \<and> cv_val v = c_wrap rt (cv_val l + cv_val r)) \<and>
         (\<exists>v. cv_sub l r = Some v \<and> cv_type v = rt \<and> cv_val v = c_wrap rt (cv_val l - cv_val r)) \<and>
         (\<exists>v. cv_mul l r = Some v \<and> cv_type v = rt \<and> cv_val v = c_wrap rt (cv_val l * cv_val r)) \<and>
         (\<exists>v. cv_and l r = Some v \<and> cv_type v = rt \<and> cv_val v = c_wrap rt (cv_val l AND cv_val r)) \<and>
         (\<exists>v. cv_or l r = Some v \<and> cv_type v = rt \<and> cv_val v = c_wrap rt (cv_val l OR cv_val r)) \<and>
         (\<exists>v. cv_xor l r = Some v \<and> cv_type v = rt \<and> cv_val v = c_wrap rt (cv_val l XOR cv_val r))"
  using cv_add_val [OF assms] cv_sub_val [OF assms] cv_mul_val [OF assms] cv_bitwise_val [OF assms]
  by blast

theorem cv_arith_exact_witness:
  "\<exists>v. cv_add (cv_of_uint32 0xFFFFFFFF) (cv_of_int32 2) = Some v \<and> cv_type v = CU32 \<and> cv_val v = 1"
  using cv_arith_exact [of "cv_of_uint32 0xFFFFFFFF" "cv_of_int32 2" CU32]
  by (simp add: arith_rtype_def)

text \<open>
  C24: division and remainder of two constants of one type, when the machine division does
  not trap, satisfy the division identity, with the quotient truncated towards zero and a
  remainder smaller than the divisor.
\<close>

theorem cv_divmod_exact:
  assumes "cv_known l" "cv_known r" "cv_type l = cv_type r"
    and "\<not> c_div_traps (cv_type l) (cv_val l) (cv_val r)"
  shows "\<exists>q m. cv_div l r = Some q \<and> cv_mod l r = Some m \<and>
      cv_type q = cv_type l \<and> cv_type m = cv_type l \<and>
      cv_val l = cv_val r * cv_val q + cv_val m \<and> \<bar>cv_val m\<bar> < \<bar>cv_val r\<bar> \<and>
      \<bar>cv_val q\<bar> = \<bar>cv_val l\<bar> div \<bar>cv_val r\<bar>"
  using assms by (rule cv_divmod_vals)

theorem cv_divmod_exact_witness:
  "\<exists>q m. cv_div (cv_of_int32 (-7)) (cv_of_int32 2) = Some q \<and>
         cv_mod (cv_of_int32 (-7)) (cv_of_int32 2) = Some m \<and> -7 = 2 * cv_val q + cv_val m"
  using cv_divmod_exact [of "cv_of_int32 (-7)" "cv_of_int32 2"]
  by (auto simp: c_div_traps_def c_min_def)

text \<open>
  The shifts keep the type of the left operand; a count within its width multiplies by
  (reducing to the type) or divides by (rounding down) the power of two, and any other count
  is undefined in the code.
\<close>

theorem cv_shift_exact:
  assumes "cv_known l" "cv_known r"
  shows "if 0 \<le> cv_val r \<and> cv_val r < int (c_width (cv_type l))
         then (\<exists>u v. cv_shl l r = Some u \<and> cv_type u = cv_type l \<and>
                     cv_val u = c_wrap (cv_type l) (cv_val l * 2 ^ nat (cv_val r)) \<and>
                     cv_shr l r = Some v \<and> cv_type v = cv_type l \<and>
                     cv_val v = cv_val l div 2 ^ nat (cv_val r))
         else cv_shl l r = None \<and> cv_shr l r = None"
  using shift_vals [OF assms] shr_fits [OF cv_val_fits [of l]] by (simp add: cv_set_type del: c_wrap.simps)

theorem cv_shift_exact_witness:
  "\<exists>v. cv_shr (cv_of_int32 (-5)) (cv_of_uint64 1) = Some v \<and> cv_val v = -3"
  using cv_shift_exact [of "cv_of_int32 (-5)" "cv_of_uint64 1"] by auto

text \<open>
  The orderings of two typed constants are coherent (\<^verbatim>\<open><\<close> and \<^verbatim>\<open>>\<close> are converse,
  \<^verbatim>\<open>>=\<close> and \<^verbatim>\<open><=\<close> their complements, \<^verbatim>\<open>!=\<close> their union), and they are the order of the
  integers whenever both values fit the common type of the operands.
\<close>

theorem cv_order_exact:
  assumes "cv_known l" "cv_known r"
  shows "(cv_true (cv_lt l r) \<longleftrightarrow> cv_true (cv_gt r l)) \<and>
         (cv_true (cv_ge l r) \<longleftrightarrow> \<not> cv_true (cv_lt l r)) \<and>
         (cv_true (cv_le l r) \<longleftrightarrow> \<not> cv_true (cv_gt l r)) \<and>
         (cv_true (cv_ne l r) \<longleftrightarrow> cv_true (cv_lt l r) \<or> cv_true (cv_gt l r)) \<and>
         (c_fits (c_common (cv_type l) (cv_type r)) (cv_val l) \<longrightarrow>
          c_fits (c_common (cv_type l) (cv_type r)) (cv_val r) \<longrightarrow>
          (cv_true (cv_lt l r) \<longleftrightarrow> cv_val l < cv_val r) \<and>
          (cv_true (cv_le l r) \<longleftrightarrow> cv_val l \<le> cv_val r) \<and>
          (cv_true (cv_ne l r) \<longleftrightarrow> cv_val l \<noteq> cv_val r))"
  using cv_order_total [OF assms] cv_order_val [OF assms] by blast

theorem cv_order_exact_witness:
  "cv_true (cv_lt (cv_of_int32 (-1)) (cv_of_int32 3)) \<and> \<not> cv_true (cv_ge (cv_of_int32 (-1)) (cv_of_int32 3))"
  using cv_order_exact [of "cv_of_int32 (-1)" "cv_of_int32 3"]
  by (auto simp: c_fits_def c_min_def c_max_def)

text \<open>
  \<^verbatim>\<open>==\<close> and \<^verbatim>\<open>IsEquivalent\<close> against a 32-bit right operand compare the low 32 bits of the
  two values and nothing else, whatever the type of the left operand: a 64-bit constant equals
  every 32-bit constant with the same low half.
\<close>

theorem cv_eq_low_half:
  assumes "cv_known l" "Is32Bit r"
  shows "(cv_true (cv_eq l r) \<longleftrightarrow> take_bit 32 (cv_val l) = take_bit 32 (cv_val r)) \<and>
         IsEquivalent l r = Some (take_bit 32 (cv_val l) = take_bit 32 (cv_val r))"
proof -
  have known: "cv_known r" using assms by (auto simp: Is32Bit_def cv_known_def)
  have "cv_type r = CU32 \<or> cv_type r = CS32" using assms by (cases "m_constType r") (auto simp: Is32Bit_def)
  then show ?thesis
    using assms known
    by (auto simp: cv_eq_def IsEquivalent_def equal_row Let_def c_common_def cv_true_rslt)
qed

theorem cv_eq_low_half_witness:
  "cv_true (cv_eq (cv_of_uint64 0x100000000) (cv_of_uint32 0)) \<and>
   cv_true (cv_ne (cv_of_uint64 0x100000000) (cv_of_uint32 0))"
proof -
  have "Is32Bit (cv_of_uint32 0)" by (simp add: Is32Bit_def cv_of_uint32_def)
  with cv_eq_low_half [of "cv_of_uint64 0x100000000" "cv_of_uint32 0"]
  show ?thesis by (simp add: cv_ne_def order_row c_common_def)
qed

text \<open>
  C25: the width search ends, and gives an unsigned constant the least width that holds it and
  a signed constant a two's complement width that holds it, least among the widths above one.
\<close>

theorem GetMinWidth_exact:
  assumes "cv_known v"
  shows "\<exists>w. GetMinWidth v = Some w \<and>
     (if cv_IsSigned v
      then signed_fits w (cv_val v) \<and> (\<forall>k. 2 \<le> k \<and> k < w \<longrightarrow> \<not> signed_fits k (cv_val v))
      else min_width_of (nat (cv_val v)) w)"
  using assms min_width_unsigned [of v] min_width_signed [of v]
  by (cases "m_constType v") (auto simp: cv_known_def cv_IsSigned_def)

theorem GetMinWidth_exact_witness:
  "\<exists>w. GetMinWidth (cv_of_uint32 5) = Some w \<and> min_width_of 5 w"
  using GetMinWidth_exact [of "cv_of_uint32 5"] by (simp add: cv_IsSigned_of)

text \<open>
  C28: a cast to a width of 1 to 64 bits returns the value reduced to that width, two's
  complement for a signed cast, in a constant of 32 or 64 bits by the width.
\<close>

theorem Cast_exact:
  assumes "cv_known v" "0 < w" "w \<le> 64"
  shows "(\<exists>u. Cast True w v = Some u \<and> cv_type u = (if w > 32 then CS64 else CS32) \<and>
             cv_val u = signed_take_bit (w - 1) (cv_val v)) \<and>
         (\<exists>u. Cast False w v = Some u \<and> cv_type u = (if w > 32 then CU64 else CU32) \<and>
             cv_val u = take_bit w (cv_val v))"
  using cast_vals [OF assms] by blast

theorem Cast_exact_witness:
  "\<exists>u. Cast True 4 (cv_of_int32 13) = Some u \<and> cv_val u = -3"
  using Cast_exact [of "cv_of_int32 13" 4] by auto

text \<open>
  bit 0 of \<^verbatim>\<open>XorReduce\<close> is the parity of the bits of the constant (sign extended to 64).
\<close>

theorem XorReduce_parity:
  assumes "cv_known v"
  shows "\<exists>u. XorReduce v = Some u \<and> m_constType u = UINT64 \<and>
             (odd (cv_val u) \<longleftrightarrow> odd (card {i. i < 64 \<and> bit (cv_val v) i}))"
  using assms by (rule xor_reduce_odd)

theorem XorReduce_parity_witness:
  "\<exists>u. XorReduce (cv_of_uint32 0) = Some u \<and> even (cv_val u)"
  using XorReduce_parity [of "cv_of_uint32 0"] by auto

text \<open>
  \<^verbatim>\<open>ConvertToSigned\<close> and \<^verbatim>\<open>ConvertToUnsigned\<close> keep the width, reach the asked
  signedness, and report an error exactly when the conversion changes the value.
\<close>

theorem Convert_exact:
  assumes "cv_known v"
  shows "(\<exists>e u. ConvertToSigned v = Some (e, u) \<and> c_signed (cv_type u) \<and>
           c_width (cv_type u) = c_width (cv_type v) \<and> (\<not> e \<longleftrightarrow> cv_val u = cv_val v)) \<and>
         (\<exists>e u. ConvertToUnsigned v = Some (e, u) \<and> \<not> c_signed (cv_type u) \<and>
           c_width (cv_type u) = c_width (cv_type v) \<and> (\<not> e \<longleftrightarrow> cv_val u = cv_val v))"
  using convert_vals [OF assms] by blast

theorem Convert_exact_witness:
  "\<exists>e u. ConvertToUnsigned (cv_of_int32 (-1)) = Some (e, u) \<and> (\<not> e \<longleftrightarrow> cv_val u = -1)"
  using Convert_exact [of "cv_of_int32 (-1)"] by auto

end
