(* ===== verification/SyscQueues.thy ===== *)
theory SyscQueues
  imports OhtPrelude
begin

text \<open>
  The queue primitives of the SystemC library, \<^verbatim>\<open>ht_dist_que\<close>, \<^verbatim>\<open>ht_block_que\<close> and
  \<^verbatim>\<open>ht_ultra_que\<close> of \<^verbatim>\<open>ht_lib/sysc/HtMemTypes.h\<close>: rings of \<open>2 ^ addrBits\<close> entries with
  read and write indices one bit wider, held in SystemC signals so that the push and the pop
  side may run on different clocks. \<open>uint32_t\<close> variables are naturals below \<open>2 ^ 32\<close> with the
  wrap-around written where it can occur; an \<open>sc_uint<n>\<close> keeps a value modulo \<open>2 ^ n\<close>.
\<close>

section \<open>Signals\<close>

text \<open>
  An \<^verbatim>\<open>sc_signal\<close>: \<open>read()\<close> gives the current value; a write is seen after the next
  update phase of the kernel (the delta cycle), the last write winning.
\<close>

record 'a sc_signal =
  sig_cur :: 'a
  sig_new :: 'a

definition sig_write :: "'a \<Rightarrow> 'a sc_signal \<Rightarrow> 'a sc_signal" where
  "sig_write x s = s\<lparr>sig_new := x\<rparr>"

definition sig_delta :: "'a sc_signal \<Rightarrow> 'a sc_signal" where
  "sig_delta s = s\<lparr>sig_cur := sig_new s\<rparr>"

definition sc_uint_write :: "nat \<Rightarrow> nat \<Rightarrow> nat sc_signal \<Rightarrow> nat sc_signal" where
  "sc_uint_write n x s = sig_write (x mod 2 ^ n) s"

lemma sig_simps [simp]:
  "sig_cur (sig_write x s) = sig_cur s"
  "sig_new (sig_write x s) = x"
  "sig_cur (sig_delta s) = sig_new s"
  "sig_new (sig_delta s) = sig_new s"
  "sig_cur (sc_uint_write n i t) = sig_cur t"
  "sig_new (sc_uint_write n i t) = i mod 2 ^ n"
  by (simp_all add: sig_write_def sig_delta_def sc_uint_write_def)

text \<open>\<^verbatim>\<open>x & ((1 << addrBits) - 1)\<close>\<close>

definition mask_idx :: "nat \<Rightarrow> nat \<Rightarrow> nat" where
  "mask_idx addrBits x = x AND (2 ^ addrBits - 1)"

lemma mask_idx_mod: "mask_idx k x = x mod 2 ^ k"
proof -
  have "(2::nat) ^ k - 1 = mask k" by (simp add: mask_eq_exp_minus_1)
  then show ?thesis by (simp only: mask_idx_def) (simp flip: take_bit_eq_mask take_bit_eq_mod)
qed

section \<open>The interface\<close>

text \<open>
  What a module relies on: in one clock it may push once when the queue is not full and pop
  once when it is not empty; then the queue's entries change as a FIFO's. \<open>entries\<close> is what
  the queue holds, \<open>avail\<close> the part of it that is already visible to the pop side.
\<close>

locale hw_queue =
  fixes cycle :: "'a option \<Rightarrow> bool \<Rightarrow> 'q \<Rightarrow> 'q option"
    and is_empty :: "'q \<Rightarrow> bool"
    and is_full :: "'q \<Rightarrow> bool"
    and front :: "'q \<Rightarrow> 'a"
    and entries :: "'q \<Rightarrow> 'a list"
    and avail :: "'q \<Rightarrow> nat"
    and inv :: "'q \<Rightarrow> bool"
    and cap :: nat
  assumes cycle_steps:
    "inv q \<Longrightarrow> (x \<noteq> None \<longrightarrow> \<not> is_full q) \<Longrightarrow> (p \<longrightarrow> \<not> is_empty q) \<Longrightarrow>
      \<exists>q'. cycle x p q = Some q' \<and> inv q' \<and>
        entries q' = drop (of_bool p) (entries q) @ (case x of None \<Rightarrow> [] | Some a \<Rightarrow> [a])"
    and is_empty_avail: "inv q \<Longrightarrow> is_empty q \<longleftrightarrow> avail q = 0"
    and avail_le: "inv q \<Longrightarrow> avail q \<le> length (entries q)"
    and front_hd: "inv q \<Longrightarrow> \<not> is_empty q \<Longrightarrow> front q = hd (entries q)"
    and is_full_cap: "inv q \<Longrightarrow> is_full q \<longleftrightarrow> length (entries q) = cap"
    and entries_cap: "inv q \<Longrightarrow> length (entries q) \<le> cap"

text \<open>
  A client that, each clock, offers a value (or none) and wishes to pop (or not), and uses the
  queue by its contract: the push happens when the queue is not full, the pop when it is not
  empty. The run returns the values pushed, the values popped and the last state.
\<close>

fun queue_run ::
  "('a option \<Rightarrow> bool \<Rightarrow> 'q \<Rightarrow> 'q option) \<Rightarrow> ('q \<Rightarrow> bool) \<Rightarrow> ('q \<Rightarrow> bool) \<Rightarrow> ('q \<Rightarrow> 'a) \<Rightarrow>
   ('a option \<times> bool) list \<Rightarrow> 'q \<Rightarrow> ('a list \<times> 'a list \<times> 'q) option" where
  "queue_run cycle is_empty is_full front [] q = Some ([], [], q)"
| "queue_run cycle is_empty is_full front ((x, p) # ops) q =
     (let x' = (if is_full q then None else x); p' = (p \<and> \<not> is_empty q)
      in do {
        q' \<leftarrow> cycle x' p' q;
        (ins, outs, q'') \<leftarrow> queue_run cycle is_empty is_full front ops q';
        Some ((case x' of None \<Rightarrow> ins | Some a \<Rightarrow> a # ins), (if p' then front q # outs else outs), q'')
      })"

context hw_queue
begin

lemma cycle_nonempty: "inv q \<Longrightarrow> \<not> is_empty q \<Longrightarrow> entries q = front q # tl (entries q)"
  using avail_le [of q] by (cases "entries q") (auto simp: is_empty_avail front_hd)

text \<open>The queue never stops the run, and what it returns is what was put in, in order.\<close>

lemma run_fifo:
  assumes "inv q"
  shows "\<exists>ins outs q'. queue_run cycle is_empty is_full front ops q = Some (ins, outs, q') \<and>
           inv q' \<and> entries q @ ins = outs @ entries q'"
  using assms
proof (induction ops arbitrary: q)
  case Nil
  then show ?case by simp
next
  case (Cons op ops)
  obtain x p where op: "op = (x, p)" by (cases op)
  define x' where "x' = (if is_full q then None else x)"
  define p' where "p' = (p \<and> \<not> is_empty q)"
  obtain q1 where q1: "cycle x' p' q = Some q1" "inv q1"
    "entries q1 = drop (of_bool p') (entries q) @ (case x' of None \<Rightarrow> [] | Some a \<Rightarrow> [a])"
  proof -
    have "x' \<noteq> None \<longrightarrow> \<not> is_full q" by (simp add: x'_def)
    moreover have "p' \<longrightarrow> \<not> is_empty q" by (simp add: p'_def)
    ultimately show ?thesis using cycle_steps [OF Cons.prems, of x' p'] that by blast
  qed
  obtain ins outs q2 where run: "queue_run cycle is_empty is_full front ops q1 = Some (ins, outs, q2)"
    "inv q2" "entries q1 @ ins = outs @ entries q2"
    using Cons.IH [OF q1(2)] by blast
  let ?in = "case x' of None \<Rightarrow> [] | Some a \<Rightarrow> [a]"
  let ?out = "if p' then [front q] else []"
  have "entries q = ?out @ drop (of_bool p') (entries q)"
    using cycle_nonempty [OF Cons.prems] by (auto simp: p'_def drop_Suc)
  then have "entries q @ ?in = ?out @ entries q1" by (simp add: q1(3))
  then have "entries q @ ?in @ ins = ?out @ outs @ entries q2" by (metis append_assoc run(3))
  moreover have "queue_run cycle is_empty is_full front (op # ops) q = Some (?in @ ins, ?out @ outs, q2)"
    using q1(1) run(1) by (auto simp: op Let_def simp flip: x'_def p'_def split: option.splits)
  ultimately show ?case using run(2) by auto
qed

end

section \<open>The distributed-RAM queue\<close>

record 'a dist_que =
  dq_maxEntriesUsed :: nat
  dq_que :: "nat \<Rightarrow> 'a"
  dq_pushData :: 'a
  dq_rdIdx :: nat
  dq_wrIdx :: nat
  dq_cmpWrIdx :: "nat sc_signal"
  dq_cmpRdIdx :: "nat sc_signal"
  dq_bPop :: bool
  dq_bPush :: bool
  dq_bPopWasReset :: bool
  dq_bPushWasReset :: bool

text \<open>The constructor; \<open>que\<close>, \<open>pushData\<close>, \<open>rdIdx\<close> and \<open>wrIdx\<close> are not initialised.\<close>

definition dq_new :: "nat \<Rightarrow> (nat \<Rightarrow> 'a) \<Rightarrow> 'a \<Rightarrow> nat \<Rightarrow> nat \<Rightarrow> 'a dist_que option" where
  "dq_new addrBits que pushData rdIdx wrIdx = do {
     ensure (addrBits < 10);
     Some \<lparr>dq_maxEntriesUsed = 0, dq_que = que, dq_pushData = pushData, dq_rdIdx = rdIdx,
           dq_wrIdx = wrIdx, dq_cmpWrIdx = \<lparr>sig_cur = 0, sig_new = 0\<rparr>,
           dq_cmpRdIdx = \<lparr>sig_cur = 0, sig_new = 0\<rparr>, dq_bPop = False, dq_bPush = False,
           dq_bPopWasReset = False, dq_bPushWasReset = False\<rparr>
   }"

definition dq_size :: "nat \<Rightarrow> 'a dist_que \<Rightarrow> nat" where
  "dq_size addrBits q =
     (if sig_cur (dq_cmpWrIdx q) \<ge> sig_cur (dq_cmpRdIdx q)
      then sig_cur (dq_cmpWrIdx q) - sig_cur (dq_cmpRdIdx q)
      else sig_cur (dq_cmpWrIdx q) + 2 ^ (addrBits + 1) - sig_cur (dq_cmpRdIdx q))"

definition dq_empty :: "'a dist_que \<Rightarrow> bool" where
  "dq_empty q = (sig_cur (dq_cmpWrIdx q) = sig_cur (dq_cmpRdIdx q))"

text \<open>\<open>(1 << addrBits) - num\<close> is a \<^verbatim>\<open>uint32_t\<close>.\<close>

definition dq_full :: "nat \<Rightarrow> nat \<Rightarrow> 'a dist_que \<Rightarrow> bool" where
  "dq_full addrBits num q = (dq_size addrBits q \<ge> (2 ^ addrBits + 2 ^ 32 - num) mod 2 ^ 32)"

definition dq_front :: "nat \<Rightarrow> 'a dist_que \<Rightarrow> 'a" where
  "dq_front addrBits q = dq_que q (mask_idx addrBits (dq_rdIdx q))"

definition dq_read_entry_debug :: "nat \<Rightarrow> nat \<Rightarrow> 'a dist_que \<Rightarrow> 'a" where
  "dq_read_entry_debug addrBits idx q = dq_que q (mask_idx addrBits (dq_rdIdx q + idx))"

definition dq_pop :: "'a dist_que \<Rightarrow> 'a dist_que option" where
  "dq_pop q =
     (if dq_bPopWasReset q \<and> dq_bPushWasReset q then do {
        ensure (\<not> dq_empty q);
        ensure (\<not> dq_bPop q);
        Some (q\<lparr>dq_bPop := True\<rparr>)
      } else Some q)"

definition dq_push :: "nat \<Rightarrow> 'a \<Rightarrow> 'a dist_que \<Rightarrow> 'a dist_que option" where
  "dq_push addrBits data q =
     (if dq_bPopWasReset q \<and> dq_bPushWasReset q then do {
        ensure (\<not> dq_full addrBits 0 q);
        ensure (\<not> dq_bPush q);
        Some (q\<lparr>dq_bPush := True, dq_pushData := data\<rparr>)
      } else Some q)"

definition dq_push_clock :: "nat \<Rightarrow> bool \<Rightarrow> 'a dist_que \<Rightarrow> 'a dist_que" where
  "dq_push_clock addrBits bReset q =
     (let wrIdx = sig_cur (dq_cmpWrIdx q);
          (wrIdx, q) =
            (if bReset then (0, q\<lparr>dq_bPushWasReset := True\<rparr>)
             else if dq_bPush q then
               (wrIdx + 1,
                q\<lparr>dq_que := (dq_que q)(mask_idx addrBits (dq_wrIdx q) := dq_pushData q),
                  dq_maxEntriesUsed :=
                    (if dq_maxEntriesUsed q < dq_size addrBits q then dq_size addrBits q
                     else dq_maxEntriesUsed q)\<rparr>)
             else (wrIdx, q))
      in q\<lparr>dq_wrIdx := wrIdx,
           dq_cmpWrIdx := sc_uint_write (addrBits + 1) wrIdx (dq_cmpWrIdx q),
           dq_bPush := False\<rparr>)"

definition dq_pop_clock :: "nat \<Rightarrow> bool \<Rightarrow> 'a dist_que \<Rightarrow> 'a dist_que option" where
  "dq_pop_clock addrBits bReset q = do {
     let rdIdx = sig_cur (dq_cmpRdIdx q);
     (rdIdx, q) \<leftarrow>
       (if bReset then Some (0, q\<lparr>dq_bPopWasReset := True\<rparr>)
        else if dq_bPop q then do { ensure (\<not> dq_empty q); Some (rdIdx + 1, q) }
        else Some (rdIdx, q));
     Some (q\<lparr>dq_rdIdx := rdIdx,
            dq_cmpRdIdx := sc_uint_write (addrBits + 1) rdIdx (dq_cmpRdIdx q),
            dq_bPop := False\<rparr>)
   }"

definition dq_clock :: "nat \<Rightarrow> bool \<Rightarrow> 'a dist_que \<Rightarrow> 'a dist_que option" where
  "dq_clock addrBits bReset q = dq_pop_clock addrBits bReset (dq_push_clock addrBits bReset q)"

definition dq_read_addr :: "nat \<Rightarrow> 'a dist_que \<Rightarrow> nat" where
  "dq_read_addr addrBits q = mask_idx addrBits (dq_rdIdx q)"

definition dq_write_addr :: "nat \<Rightarrow> 'a dist_que \<Rightarrow> nat" where
  "dq_write_addr addrBits q = mask_idx addrBits (dq_wrIdx q)"

definition dq_capacity :: "nat \<Rightarrow> nat" where
  "dq_capacity addrBits = 2 ^ addrBits"

text \<open>The kernel's update phase, and one clock of a module that uses the queue.\<close>

definition dq_delta :: "'a dist_que \<Rightarrow> 'a dist_que" where
  "dq_delta q = q\<lparr>dq_cmpWrIdx := sig_delta (dq_cmpWrIdx q), dq_cmpRdIdx := sig_delta (dq_cmpRdIdx q)\<rparr>"

definition dq_cycle :: "nat \<Rightarrow> bool \<Rightarrow> 'a option \<Rightarrow> bool \<Rightarrow> 'a dist_que \<Rightarrow> 'a dist_que option" where
  "dq_cycle addrBits bReset x p q = do {
     q \<leftarrow> (if p then dq_pop q else Some q);
     q \<leftarrow> (case x of None \<Rightarrow> Some q | Some a \<Rightarrow> dq_push addrBits a q);
     q \<leftarrow> dq_clock addrBits bReset q;
     Some (dq_delta q)
   }"


definition dq_entries :: "nat \<Rightarrow> 'a dist_que \<Rightarrow> 'a list" where
  "dq_entries addrBits q =
     ring_list (2 ^ addrBits) (dq_que q) (sig_cur (dq_cmpRdIdx q)) (dq_size addrBits q)"

definition dq_inv :: "nat \<Rightarrow> 'a dist_que \<Rightarrow> bool" where
  "dq_inv addrBits q \<longleftrightarrow>
     addrBits < 10 \<and>
     sig_new (dq_cmpWrIdx q) = sig_cur (dq_cmpWrIdx q) \<and> sig_cur (dq_cmpWrIdx q) < 2 ^ Suc addrBits \<and>
     sig_new (dq_cmpRdIdx q) = sig_cur (dq_cmpRdIdx q) \<and> sig_cur (dq_cmpRdIdx q) < 2 ^ Suc addrBits \<and>
     dq_wrIdx q mod 2 ^ Suc addrBits = sig_cur (dq_cmpWrIdx q) \<and>
     dq_rdIdx q mod 2 ^ Suc addrBits = sig_cur (dq_cmpRdIdx q) \<and>
     dq_size addrBits q \<le> 2 ^ addrBits \<and>
     \<not> dq_bPop q \<and> \<not> dq_bPush q \<and> dq_bPopWasReset q \<and> dq_bPushWasReset q"

lemma dq_size_dist:
  "dq_size k q = ring_dist (2 ^ Suc k) (sig_cur (dq_cmpWrIdx q)) (sig_cur (dq_cmpRdIdx q))"
  by (simp add: dq_size_def ring_dist_def)

lemma pow_lt_word: "k < 18 \<Longrightarrow> (2::nat) ^ k mod 2 ^ 32 = 2 ^ k"
  by (rule mod_less) (rule power_strict_increasing, auto)

lemma dq_full_0: "addrBits < 18 \<Longrightarrow> dq_full addrBits 0 q \<longleftrightarrow> 2 ^ addrBits \<le> dq_size addrBits q"
  using pow_lt_word [of addrBits] by (simp add: dq_full_def)

lemma mask_idx_ring: "i mod 2 ^ Suc k = c \<Longrightarrow> mask_idx k i = c mod 2 ^ k"
  by (metis mask_idx_mod mod_pow_Suc)

lemma dq_cycle_steps:
  assumes inv: "dq_inv k q" and x: "x \<noteq> None \<longrightarrow> \<not> dq_full k 0 q" and p: "p \<longrightarrow> \<not> dq_empty q"
  shows "\<exists>q'. dq_cycle k False x p q = Some q' \<and> dq_inv k q' \<and>
           dq_entries k q' = drop (of_bool p) (dq_entries k q) @ (case x of None \<Rightarrow> [] | Some a \<Rightarrow> [a])"
proof -
  note i = inv [unfolded dq_inv_def]
  let ?w = "sig_cur (dq_cmpWrIdx q)" and ?r = "sig_cur (dq_cmpRdIdx q)" and ?m = "2 ^ Suc k :: nat"
  let ?wr = "(if x = None then ?w else Suc ?w mod ?m)" and ?rd = "(if p then Suc ?r mod ?m else ?r)"
  have "k < 18" using i by simp
  obtain q' where run: "dq_cycle k False x p q = Some q'" and
    q': "sig_cur (dq_cmpWrIdx q') = ?wr" "sig_new (dq_cmpWrIdx q') = ?wr"
      "sig_cur (dq_cmpRdIdx q') = ?rd" "sig_new (dq_cmpRdIdx q') = ?rd"
      "dq_wrIdx q' mod ?m = ?wr" "dq_rdIdx q' mod ?m = ?rd"
      "\<not> dq_bPop q' \<and> \<not> dq_bPush q' \<and> dq_bPopWasReset q' \<and> dq_bPushWasReset q'"
      "dq_que q' = (case x of None \<Rightarrow> dq_que q | Some a \<Rightarrow> (dq_que q)(?w mod 2 ^ k := a))"
    using i x p \<open>k < 18\<close>
    by (cases x; cases p) (simp_all add: dq_cycle_def dq_pop_def dq_push_def dq_clock_def dq_push_clock_def
        dq_pop_clock_def dq_delta_def Let_def dq_full_0 dq_size_dist dq_empty_def mask_idx_ring mod_simps del: power_Suc)
  let ?n = "2 ^ k :: nat"
  have "?r < 2 * ?n" "?w < 2 * ?n" "ring_dist (2 * ?n) ?w ?r \<le> ?n"
    "x \<noteq> None \<longrightarrow> ring_dist (2 * ?n) ?w ?r < ?n" "p \<longrightarrow> ?w \<noteq> ?r"
    using i x p \<open>k < 18\<close> by (auto simp: dq_size_dist dq_full_0 dq_empty_def)
  note rs = ring_step [OF this]
  show ?thesis
    using run q' rs(1) rs(2) [of "dq_que q"] i x \<open>k < 18\<close>
    by (auto simp: dq_inv_def dq_entries_def dq_size_dist dq_full_0)
qed

lemma dq_empty_size: "dq_inv k q \<Longrightarrow> dq_empty q \<longleftrightarrow> dq_size k q = 0"
  by (simp add: dq_inv_def dq_empty_def dq_size_dist ring_dist_0_iff)

lemma dq_front_hd: "dq_inv k q \<Longrightarrow> \<not> dq_empty q \<Longrightarrow> dq_front k q = hd (dq_entries k q)"
  using dq_empty_size [of k q]
  by (simp add: dq_front_def dq_entries_def ring_list_hd dq_inv_def mask_idx_ring del: power_Suc)

lemma length_dq_entries [simp]: "length (dq_entries k q) = dq_size k q"
  by (simp add: dq_entries_def)

interpretation dq: hw_queue "dq_cycle k False" dq_empty "dq_full k 0" "dq_front k"
  "dq_entries k" "dq_size k" "dq_inv k" "dq_capacity k" for k
proof unfold_locales
  show "dq_full k 0 q \<longleftrightarrow> length (dq_entries k q) = dq_capacity k" if "dq_inv k q" for q :: "'a dist_que"
    using that by (auto simp: dq_inv_def dq_full_0 dq_capacity_def)
  show "length (dq_entries k q) \<le> dq_capacity k" if "dq_inv k q" for q :: "'a dist_que"
    using that by (simp add: dq_inv_def dq_capacity_def)
qed (simp_all add: dq_cycle_steps dq_empty_size dq_front_hd)

lemma dq_reset:
  assumes "k < 10"
  shows "\<exists>q'. dq_cycle k True None False q = Some q' \<and> dq_inv k q' \<and> dq_entries k q' = []"
  using assms
  by (simp add: dq_cycle_def dq_clock_def dq_push_clock_def dq_pop_clock_def dq_delta_def dq_inv_def
      dq_entries_def dq_size_def)


section \<open>The block-RAM queue\<close>

record 'a block_que =
  bq_maxEntriesUsed :: nat
  bq_que :: "nat \<Rightarrow> 'a"
  bq_pushData :: 'a
  bq_rdIdx :: nat
  bq_wrIdx :: nat
  bq_cmpWrIdx :: "nat sc_signal"
  bq_cmpWrIdx2 :: "nat sc_signal"
  bq_cmpRdIdx :: "nat sc_signal"
  bq_bPop :: bool
  bq_bPush :: bool
  bq_bPopWasReset :: bool
  bq_bPushWasReset :: bool

text \<open>The constructor; \<open>que\<close>, \<open>pushData\<close>, \<open>rdIdx\<close> and \<open>wrIdx\<close> are not initialised.\<close>

definition bq_new :: "nat \<Rightarrow> (nat \<Rightarrow> 'a) \<Rightarrow> 'a \<Rightarrow> nat \<Rightarrow> nat \<Rightarrow> 'a block_que option" where
  "bq_new addrBits que pushData rdIdx wrIdx = do {
     ensure (addrBits < 18);
     Some \<lparr>bq_maxEntriesUsed = 0, bq_que = que, bq_pushData = pushData, bq_rdIdx = rdIdx,
           bq_wrIdx = wrIdx, bq_cmpWrIdx = \<lparr>sig_cur = 0, sig_new = 0\<rparr>,
           bq_cmpWrIdx2 = \<lparr>sig_cur = 0, sig_new = 0\<rparr>,
           bq_cmpRdIdx = \<lparr>sig_cur = 0, sig_new = 0\<rparr>, bq_bPop = False, bq_bPush = False,
           bq_bPopWasReset = False, bq_bPushWasReset = False\<rparr>
   }"

definition bq_size :: "nat \<Rightarrow> 'a block_que \<Rightarrow> nat" where
  "bq_size addrBits q =
     (if sig_cur (bq_cmpWrIdx q) \<ge> sig_cur (bq_cmpRdIdx q)
      then sig_cur (bq_cmpWrIdx q) - sig_cur (bq_cmpRdIdx q)
      else sig_cur (bq_cmpWrIdx q) + 2 ^ (addrBits + 1) - sig_cur (bq_cmpRdIdx q))"

definition bq_empty :: "'a block_que \<Rightarrow> bool" where
  "bq_empty q = (sig_cur (bq_cmpWrIdx2 q) = sig_cur (bq_cmpRdIdx q))"

text \<open>\<open>(1 << addrBits) - num\<close> is a \<^verbatim>\<open>uint32_t\<close>.\<close>

definition bq_full :: "nat \<Rightarrow> nat \<Rightarrow> 'a block_que \<Rightarrow> bool" where
  "bq_full addrBits num q = (bq_size addrBits q \<ge> (2 ^ addrBits + 2 ^ 32 - num) mod 2 ^ 32)"

definition bq_front :: "nat \<Rightarrow> 'a block_que \<Rightarrow> 'a" where
  "bq_front addrBits q = bq_que q (mask_idx addrBits (bq_rdIdx q))"

definition bq_EntryIgnore :: "nat \<Rightarrow> 'a block_que \<Rightarrow> 'a" where
  "bq_EntryIgnore idx q = bq_que q idx"

definition bq_pop :: "'a block_que \<Rightarrow> 'a block_que option" where
  "bq_pop q =
     (if bq_bPopWasReset q \<and> bq_bPushWasReset q then do {
        ensure (\<not> bq_empty q);
        ensure (\<not> bq_bPop q);
        Some (q\<lparr>bq_bPop := True\<rparr>)
      } else Some q)"

definition bq_push :: "nat \<Rightarrow> 'a \<Rightarrow> 'a block_que \<Rightarrow> 'a block_que option" where
  "bq_push addrBits data q =
     (if bq_bPopWasReset q \<and> bq_bPushWasReset q then do {
        ensure (\<not> bq_full addrBits 0 q);
        ensure (\<not> bq_bPush q);
        Some (q\<lparr>bq_bPush := True, bq_pushData := data\<rparr>)
      } else Some q)"

definition bq_push_clock :: "nat \<Rightarrow> bool \<Rightarrow> 'a block_que \<Rightarrow> 'a block_que" where
  "bq_push_clock addrBits bReset q =
     (let wrIdx = sig_cur (bq_cmpWrIdx q);
          (wrIdx, q) =
            (if bReset then (0,
                q\<lparr>bq_cmpWrIdx2 := sc_uint_write (addrBits + 1) 0 (bq_cmpWrIdx2 q), bq_bPushWasReset := True\<rparr>)
             else if bq_bPush q then
               (wrIdx + 1,
                q\<lparr>bq_que := (bq_que q)(mask_idx addrBits (bq_wrIdx q) := bq_pushData q),
                  bq_maxEntriesUsed :=
                    (if bq_maxEntriesUsed q < bq_size addrBits q then bq_size addrBits q
                     else bq_maxEntriesUsed q)\<rparr>)
             else (wrIdx, q))
      in q\<lparr>bq_cmpWrIdx2 := sig_write (sig_cur (bq_cmpWrIdx q)) (bq_cmpWrIdx2 q),
           bq_wrIdx := wrIdx,
           bq_cmpWrIdx := sc_uint_write (addrBits + 1) wrIdx (bq_cmpWrIdx q),
           bq_bPush := False\<rparr>)"

definition bq_pop_clock :: "nat \<Rightarrow> bool \<Rightarrow> 'a block_que \<Rightarrow> 'a block_que option" where
  "bq_pop_clock addrBits bReset q = do {
     let rdIdx = sig_cur (bq_cmpRdIdx q);
     (rdIdx, q) \<leftarrow>
       (if bReset then Some (0, q\<lparr>bq_bPopWasReset := True\<rparr>)
        else if bq_bPop q then do { ensure (\<not> bq_empty q); Some (rdIdx + 1, q) }
        else Some (rdIdx, q));
     Some (q\<lparr>bq_rdIdx := rdIdx,
            bq_cmpRdIdx := sc_uint_write (addrBits + 1) rdIdx (bq_cmpRdIdx q),
            bq_bPop := False\<rparr>)
   }"

definition bq_clock :: "nat \<Rightarrow> bool \<Rightarrow> 'a block_que \<Rightarrow> 'a block_que option" where
  "bq_clock addrBits bReset q = bq_pop_clock addrBits bReset (bq_push_clock addrBits bReset q)"

definition bq_read_addr :: "nat \<Rightarrow> 'a block_que \<Rightarrow> nat" where
  "bq_read_addr addrBits q = mask_idx addrBits (bq_rdIdx q)"

definition bq_write_addr :: "nat \<Rightarrow> 'a block_que \<Rightarrow> nat" where
  "bq_write_addr addrBits q = mask_idx addrBits (bq_wrIdx q)"

definition bq_capacity :: "nat \<Rightarrow> nat" where
  "bq_capacity addrBits = 2 ^ addrBits"

text \<open>The kernel's update phase, and one clock of a module that uses the queue.\<close>

definition bq_delta :: "'a block_que \<Rightarrow> 'a block_que" where
  "bq_delta q = q\<lparr>bq_cmpWrIdx := sig_delta (bq_cmpWrIdx q), bq_cmpWrIdx2 := sig_delta (bq_cmpWrIdx2 q),
     bq_cmpRdIdx := sig_delta (bq_cmpRdIdx q)\<rparr>"

definition bq_cycle :: "nat \<Rightarrow> bool \<Rightarrow> 'a option \<Rightarrow> bool \<Rightarrow> 'a block_que \<Rightarrow> 'a block_que option" where
  "bq_cycle addrBits bReset x p q = do {
     q \<leftarrow> (if p then bq_pop q else Some q);
     q \<leftarrow> (case x of None \<Rightarrow> Some q | Some a \<Rightarrow> bq_push addrBits a q);
     q \<leftarrow> bq_clock addrBits bReset q;
     Some (bq_delta q)
   }"


definition bq_entries :: "nat \<Rightarrow> 'a block_que \<Rightarrow> 'a list" where
  "bq_entries addrBits q =
     ring_list (2 ^ addrBits) (bq_que q) (sig_cur (bq_cmpRdIdx q)) (bq_size addrBits q)"

text \<open>The entries already visible on the pop side.\<close>

definition bq_avail :: "nat \<Rightarrow> 'a block_que \<Rightarrow> nat" where
  "bq_avail addrBits q = ring_dist (2 ^ Suc addrBits) (sig_cur (bq_cmpWrIdx2 q)) (sig_cur (bq_cmpRdIdx q))"

definition bq_inv :: "nat \<Rightarrow> 'a block_que \<Rightarrow> bool" where
  "bq_inv addrBits q \<longleftrightarrow>
     addrBits < 18 \<and>
     sig_new (bq_cmpWrIdx q) = sig_cur (bq_cmpWrIdx q) \<and> sig_cur (bq_cmpWrIdx q) < 2 ^ Suc addrBits \<and>
     sig_new (bq_cmpWrIdx2 q) = sig_cur (bq_cmpWrIdx2 q) \<and> sig_cur (bq_cmpWrIdx2 q) < 2 ^ Suc addrBits \<and>
     sig_new (bq_cmpRdIdx q) = sig_cur (bq_cmpRdIdx q) \<and> sig_cur (bq_cmpRdIdx q) < 2 ^ Suc addrBits \<and>
     bq_wrIdx q mod 2 ^ Suc addrBits = sig_cur (bq_cmpWrIdx q) \<and>
     bq_rdIdx q mod 2 ^ Suc addrBits = sig_cur (bq_cmpRdIdx q) \<and>
     bq_size addrBits q \<le> 2 ^ addrBits \<and> bq_avail addrBits q \<le> bq_size addrBits q \<and>
     \<not> bq_bPop q \<and> \<not> bq_bPush q \<and> bq_bPopWasReset q \<and> bq_bPushWasReset q"

lemma bq_size_dist:
  "bq_size k q = ring_dist (2 ^ Suc k) (sig_cur (bq_cmpWrIdx q)) (sig_cur (bq_cmpRdIdx q))"
  by (simp add: bq_size_def ring_dist_def)

lemma bq_full_0: "addrBits < 18 \<Longrightarrow> bq_full addrBits 0 q \<longleftrightarrow> 2 ^ addrBits \<le> bq_size addrBits q"
  using pow_lt_word [of addrBits] by (simp add: bq_full_def)

lemma bq_empty_avail: "bq_inv k q \<Longrightarrow> bq_empty q \<longleftrightarrow> bq_avail k q = 0"
  by (simp add: bq_inv_def bq_empty_def bq_avail_def ring_dist_0_iff)

lemma bq_cycle_runs:
  assumes inv: "bq_inv k q" and x: "x \<noteq> None \<longrightarrow> \<not> bq_full k 0 q" and p: "p \<longrightarrow> \<not> bq_empty q"
  shows "\<exists>q'. bq_cycle k False x p q = Some q' \<and> bq_inv k q' \<and>
           bq_entries k q' = drop (of_bool p) (bq_entries k q) @ (case x of None \<Rightarrow> [] | Some a \<Rightarrow> [a]) \<and>
           bq_avail k q' = bq_size k q - of_bool p"
proof -
  note i = inv [unfolded bq_inv_def]
  let ?w = "sig_cur (bq_cmpWrIdx q)" and ?r = "sig_cur (bq_cmpRdIdx q)" and ?m = "2 ^ Suc k :: nat"
  let ?wr = "(if x = None then ?w else Suc ?w mod ?m)" and ?rd = "(if p then Suc ?r mod ?m else ?r)"
  have "k < 18" using i by simp
  obtain q' where run: "bq_cycle k False x p q = Some q'" and
    q': "sig_cur (bq_cmpWrIdx q') = ?wr" "sig_new (bq_cmpWrIdx q') = ?wr"
      "sig_cur (bq_cmpWrIdx2 q') = ?w" "sig_new (bq_cmpWrIdx2 q') = ?w"
      "sig_cur (bq_cmpRdIdx q') = ?rd" "sig_new (bq_cmpRdIdx q') = ?rd"
      "bq_wrIdx q' mod ?m = ?wr" "bq_rdIdx q' mod ?m = ?rd"
      "\<not> bq_bPop q' \<and> \<not> bq_bPush q' \<and> bq_bPopWasReset q' \<and> bq_bPushWasReset q'"
      "bq_que q' = (case x of None \<Rightarrow> bq_que q | Some a \<Rightarrow> (bq_que q)(?w mod 2 ^ k := a))"
    using i x p \<open>k < 18\<close>
    by (cases x; cases p) (simp_all add: bq_cycle_def bq_pop_def bq_push_def bq_clock_def bq_push_clock_def
        bq_pop_clock_def bq_delta_def Let_def bq_full_0 bq_size_dist bq_empty_def mask_idx_ring mod_simps del: power_Suc)
  let ?n = "2 ^ k :: nat"
  have b: "?r < 2 * ?n" "?w < 2 * ?n" "ring_dist (2 * ?n) ?w ?r \<le> ?n"
    using i by (auto simp: bq_size_dist)
  have "0 < bq_avail k q" if p using that p bq_empty_avail [OF inv] by simp
  then have "0 < ring_dist (2 * ?n) ?w ?r" if p using that i by (simp add: bq_size_dist)
  then have pw: "p \<longrightarrow> ?w \<noteq> ?r" using b by (auto simp: ring_dist_0_iff)
  have "x \<noteq> None \<longrightarrow> ring_dist (2 * ?n) ?w ?r < ?n"
    using x \<open>k < 18\<close> by (auto simp: bq_size_dist bq_full_0)
  note rs = ring_step [OF b this pw]
  have "bq_avail k q' = bq_size k q - of_bool p"
    using q' ring_step(1) [OF b _ pw, of None] by (auto simp: bq_avail_def bq_size_dist)
  then show ?thesis
    using run q' rs(1) rs(2) [of "bq_que q"] i x \<open>k < 18\<close>
    by (auto simp: bq_inv_def bq_entries_def bq_size_dist bq_full_0)
qed

lemma bq_front_hd: "bq_inv k q \<Longrightarrow> \<not> bq_empty q \<Longrightarrow> bq_front k q = hd (bq_entries k q)"
  using bq_empty_avail [of k q]
  by (simp add: bq_front_def bq_entries_def ring_list_hd bq_inv_def mask_idx_ring del: power_Suc)

lemma length_bq_entries [simp]: "length (bq_entries k q) = bq_size k q"
  by (simp add: bq_entries_def)

interpretation bq: hw_queue "bq_cycle k False" bq_empty "bq_full k 0" "bq_front k"
  "bq_entries k" "bq_avail k" "bq_inv k" "bq_capacity k" for k
proof unfold_locales
  show "bq_full k 0 q \<longleftrightarrow> length (bq_entries k q) = bq_capacity k" if "bq_inv k q" for q :: "'a block_que"
    using that by (auto simp: bq_inv_def bq_full_0 bq_capacity_def)
  show "length (bq_entries k q) \<le> bq_capacity k" if "bq_inv k q" for q :: "'a block_que"
    using that by (simp add: bq_inv_def bq_capacity_def)
  show "bq_avail k q \<le> length (bq_entries k q)" if "bq_inv k q" for q :: "'a block_que"
    using that by (simp add: bq_inv_def)
  show "\<exists>q'. bq_cycle k False x p q = Some q' \<and> bq_inv k q' \<and>
      bq_entries k q' = drop (of_bool p) (bq_entries k q) @ (case x of None \<Rightarrow> [] | Some a \<Rightarrow> [a])"
    if "bq_inv k q" "x \<noteq> None \<longrightarrow> \<not> bq_full k 0 q" "p \<longrightarrow> \<not> bq_empty q" for q :: "'a block_que" and x p
    using bq_cycle_runs [OF that] by blast
qed (simp_all add: bq_empty_avail bq_front_hd)

lemma bq_reset:
  assumes "k < 18"
  shows "\<exists>q1 q2. bq_cycle k True None False q = Some q1 \<and> bq_cycle k True None False q1 = Some q2 \<and>
    bq_inv k q2 \<and> bq_entries k q2 = []"
  using assms
  by (simp add: bq_cycle_def bq_clock_def bq_push_clock_def bq_pop_clock_def bq_delta_def bq_inv_def
      bq_entries_def bq_size_def bq_avail_def)

section \<open>Properties\<close>

text \<open>Two live queues for the examples: a block-RAM queue after reset, and a distributed-RAM queue of three entries.\<close>

definition bq_ready :: "nat block_que" where
  "bq_ready = \<lparr>bq_maxEntriesUsed = 0, bq_que = (\<lambda>_. 0), bq_pushData = 0, bq_rdIdx = 0, bq_wrIdx = 0,
     bq_cmpWrIdx = \<lparr>sig_cur = 0, sig_new = 0\<rparr>, bq_cmpWrIdx2 = \<lparr>sig_cur = 0, sig_new = 0\<rparr>,
     bq_cmpRdIdx = \<lparr>sig_cur = 0, sig_new = 0\<rparr>, bq_bPop = False, bq_bPush = False,
     bq_bPopWasReset = True, bq_bPushWasReset = True\<rparr>"

definition dq_ready :: "nat dist_que" where
  "dq_ready = \<lparr>dq_maxEntriesUsed = 0, dq_que = (\<lambda>_. 0), dq_pushData = 0, dq_rdIdx = 0, dq_wrIdx = 3,
     dq_cmpWrIdx = \<lparr>sig_cur = 3, sig_new = 3\<rparr>, dq_cmpRdIdx = \<lparr>sig_cur = 0, sig_new = 0\<rparr>,
     dq_bPop = False, dq_bPush = False, dq_bPopWasReset = True, dq_bPushWasReset = True\<rparr>"

text \<open>
  C30: A distributed-RAM queue of \<open>addrBits < 10\<close>, constructed and reset, whatever values its
  members started with, never fails an assertion for a client that pushes when it is not
  full and pops when it is not empty: the values popped are a prefix of the values
  pushed, in order, what remains is the queue's content, and at most \<open>2 ^ addrBits\<close> are held.
\<close>

theorem dist_que_fifo:
  assumes "k < 10"
  shows "\<exists>q0 q1 ins outs q.
    dq_new k que pushData rdIdx wrIdx = Some q0 \<and>
    dq_cycle k True None False q0 = Some q1 \<and>
    queue_run (dq_cycle k False) dq_empty (dq_full k 0) (dq_front k) ops q1 = Some (ins, outs, q) \<and>
    ins = outs @ dq_entries k q \<and> length (dq_entries k q) \<le> 2 ^ k"
proof -
  obtain q0 where q0: "dq_new k que pushData rdIdx wrIdx = Some q0"
    using assms by (simp add: dq_new_def)
  obtain q1 where q1: "dq_cycle k True None False q0 = Some q1" "dq_inv k q1" "dq_entries k q1 = []"
    using dq_reset [OF assms] by blast
  obtain ins outs q where "queue_run (dq_cycle k False) dq_empty (dq_full k 0) (dq_front k) ops q1 =
      Some (ins, outs, q)" "dq_inv k q" "dq_entries k q1 @ ins = outs @ dq_entries k q"
    using dq.run_fifo [OF q1(2)] by blast
  moreover from \<open>dq_inv k q\<close> have "length (dq_entries k q) \<le> 2 ^ k"
    using dq.entries_cap [of k q] by (simp add: dq_capacity_def)
  ultimately show ?thesis using q0 q1(1,3) by auto
qed

theorem dist_que_fifo_witness:
  "\<exists>q0 q1 ins outs q.
    dq_new 2 (\<lambda>_. 0) (0::nat) 7 9 = Some q0 \<and>
    dq_cycle 2 True None False q0 = Some q1 \<and>
    queue_run (dq_cycle 2 False) dq_empty (dq_full 2 0) (dq_front 2)
      [(Some 5, True), (Some 6, True), (None, True)] q1 = Some (ins, outs, q) \<and>
    ins = outs @ dq_entries 2 q \<and> length (dq_entries 2 q) \<le> 2 ^ 2"
  by (rule dist_que_fifo) simp

text \<open>
  C31: A block-RAM queue of \<open>addrBits < 18\<close>, constructed and held in reset for two clocks,
  never fails an assertion for a client that pushes when it is not full and pops when it is
  not empty: the values popped are a prefix of the values pushed, in order, what remains is
  the queue's content, and at most \<open>2 ^ addrBits\<close> are held.
\<close>

theorem block_que_fifo:
  assumes "k < 18"
  shows "\<exists>q0 q1 q2 ins outs q.
    bq_new k que pushData rdIdx wrIdx = Some q0 \<and>
    bq_cycle k True None False q0 = Some q1 \<and> bq_cycle k True None False q1 = Some q2 \<and>
    queue_run (bq_cycle k False) bq_empty (bq_full k 0) (bq_front k) ops q2 = Some (ins, outs, q) \<and>
    ins = outs @ bq_entries k q \<and> length (bq_entries k q) \<le> 2 ^ k"
proof -
  obtain q0 where q0: "bq_new k que pushData rdIdx wrIdx = Some q0"
    using assms by (simp add: bq_new_def)
  obtain q1 q2 where q12: "bq_cycle k True None False q0 = Some q1"
    "bq_cycle k True None False q1 = Some q2" "bq_inv k q2" "bq_entries k q2 = []"
    using bq_reset [OF assms] by blast
  obtain ins outs q where "queue_run (bq_cycle k False) bq_empty (bq_full k 0) (bq_front k) ops q2 =
      Some (ins, outs, q)" "bq_inv k q" "bq_entries k q2 @ ins = outs @ bq_entries k q"
    using bq.run_fifo [OF q12(3)] by blast
  moreover from \<open>bq_inv k q\<close> have "length (bq_entries k q) \<le> 2 ^ k"
    using bq.entries_cap [of k q] by (simp add: bq_capacity_def)
  ultimately show ?thesis using q0 q12(1,2,4) by auto
qed

theorem block_que_fifo_witness:
  "\<exists>q0 q1 q2 ins outs q.
    bq_new 2 (\<lambda>_. 0) (0::nat) 7 9 = Some q0 \<and>
    bq_cycle 2 True None False q0 = Some q1 \<and> bq_cycle 2 True None False q1 = Some q2 \<and>
    queue_run (bq_cycle 2 False) bq_empty (bq_full 2 0) (bq_front 2)
      [(Some 5, True), (Some 6, True), (None, True)] q2 = Some (ins, outs, q) \<and>
    ins = outs @ bq_entries 2 q \<and> length (bq_entries 2 q) \<le> 2 ^ 2"
  by (rule block_que_fifo) simp

text \<open>
  The pop side of a block-RAM queue sees a pushed value one clock after the value is
  counted: after a clock of a live queue, \<open>empty()\<close> tells whether the entries held before
  that clock have all been popped, whatever was pushed in the clock, while \<open>size()\<close> counts
  the push.
\<close>

theorem block_que_latency:
  assumes "bq_inv k q" "x \<noteq> None \<longrightarrow> \<not> bq_full k 0 q" "p \<longrightarrow> \<not> bq_empty q"
  shows "\<exists>q'. bq_cycle k False x p q = Some q' \<and>
    (bq_empty q' \<longleftrightarrow> drop (of_bool p) (bq_entries k q) = []) \<and>
    bq_size k q' = bq_size k q - of_bool p + of_bool (x \<noteq> None)"
proof -
  obtain q' where q': "bq_cycle k False x p q = Some q'" "bq_inv k q'"
    "bq_entries k q' = drop (of_bool p) (bq_entries k q) @ (case x of None \<Rightarrow> [] | Some a \<Rightarrow> [a])"
    "bq_avail k q' = bq_size k q - of_bool p"
    using bq_cycle_runs [OF assms] by blast
  from arg_cong [OF q'(3), of length]
  have "bq_size k q' = bq_size k q - of_bool p + of_bool (x \<noteq> None)"
    by (cases x) auto
  then show ?thesis using q' by (auto simp: bq_empty_avail)
qed

theorem block_que_latency_witness:
  "\<exists>q'. bq_cycle 2 False (Some 5) False bq_ready = Some q' \<and>
    (bq_empty q' \<longleftrightarrow> drop (of_bool False) (bq_entries 2 bq_ready) = []) \<and>
    bq_size 2 q' = bq_size 2 bq_ready - of_bool False + of_bool (Some 5 \<noteq> (None :: nat option))"
  by (rule block_que_latency) (simp_all add: bq_ready_def bq_inv_def bq_size_def bq_avail_def bq_full_0)

text \<open>
  One clock of reset does not empty a block-RAM queue in use: the reset's write of the
  delayed write index is overwritten by the statement after it, so \<open>empty()\<close> afterwards
  compares the write index from before the reset with zero.
\<close>

theorem block_que_reset_once:
  "map_option (bq_empty) (bq_cycle k True None False q) =
     Some (sig_cur (bq_cmpWrIdx q) = 0)"
  by (auto simp: bq_cycle_def bq_clock_def bq_push_clock_def bq_pop_clock_def bq_delta_def bq_empty_def)

text \<open>
  \<open>full(num)\<close> of a distributed-RAM queue asks for \<open>num\<close> spare entries: it holds exactly when
  fewer than \<open>num + 1\<close> of the \<open>2 ^ addrBits\<close> entries are free, as long as \<open>num\<close> is no more than
  the capacity; beyond that the subtraction wraps and a reachable queue is never full.
\<close>

theorem dist_que_full_reserve:
  assumes "dq_inv k q" "num < 2 ^ 32"
  shows "dq_full k num q \<longleftrightarrow> num \<le> dq_capacity k \<and> dq_capacity k - dq_size k q \<le> num"
proof -
  have k: "k < 10" "dq_size k q \<le> 2 ^ k" using assms(1) by (simp_all add: dq_inv_def)
  have p: "(2::nat) ^ k \<le> 2 ^ 9" using k(1) by (intro power_increasing) auto
  show ?thesis
  proof (cases "num \<le> 2 ^ k")
    case True
    then have "(2 ^ k + 2 ^ 32 - num) mod 2 ^ 32 = (2 ^ k - num + 2 ^ 32) mod 2 ^ 32" by simp
    also have "\<dots> = 2 ^ k - num" using p by simp
    finally show ?thesis using True by (auto simp: dq_full_def dq_capacity_def)
  next
    case False
    then have "(2 ^ k + 2 ^ 32 - num) mod 2 ^ 32 = 2 ^ k + 2 ^ 32 - num"
      using assms(2) by (intro mod_less) auto
    then show ?thesis using False k assms(2) by (auto simp: dq_full_def dq_capacity_def)
  qed
qed

theorem dist_que_full_reserve_witness:
  "dq_full 2 1 dq_ready \<longleftrightarrow> 1 \<le> dq_capacity 2 \<and> dq_capacity 2 - dq_size 2 dq_ready \<le> 1"
  by (rule dist_que_full_reserve) (simp_all add: dq_ready_def dq_inv_def dq_size_def)

end
