(* ===== verification/SyscRams.thy ===== *)
theory SyscRams
  imports SyscQueues
begin

text \<open>
  The memory primitives of \<^verbatim>\<open>ht_lib/sysc/HtMemTypes.h\<close>: \<^verbatim>\<open>ht_dist_ram\<close> (asynchronous read),
  \<^verbatim>\<open>ht_block_ram\<close> (registered read address, optional output register), and the banked
  \<^verbatim>\<open>ht_mrd_block_ram\<close> (one bank written, all banks read) and \<^verbatim>\<open>ht_mwr_block_ram\<close> (all banks
  written, one bank read). The memory array is a function of the address; the lemmas bound
  every address that is used. Members the constructors do not initialise keep the value they
  have in the record that is given to the constructor's model. The value of
  \<^verbatim>\<open>ht_bad_data\<close>, a conversion of a constant to the element type, is the argument \<open>bad\<close>.
\<close>

section \<open>Addresses\<close>

text \<open>\<^verbatim>\<open>(idx1 + (idx2 << AW1)) & ((1 << AW1) * (1 << AW2) - 1)\<close>, in \<^verbatim>\<open>uint64_t\<close>.\<close>

definition ram_addr :: "nat \<Rightarrow> nat \<Rightarrow> u64 \<Rightarrow> u64 \<Rightarrow> u64" where
  "ram_addr aw1 aw2 i1 i2 = (i1 + push_bit aw1 i2) AND (push_bit aw1 1 * push_bit aw2 1 - 1)"

lemma ram_addr_mask: "ram_addr aw1 aw2 i1 i2 = (i1 + push_bit aw1 i2) AND mask (aw1 + aw2)"
  by (simp add: ram_addr_def mask_eq_push_bit_minus_one push_bit_eq_mult power_add)

lemma unat_ram_addr:
  assumes "aw1 + aw2 \<le> 64"
  shows "unat (ram_addr aw1 aw2 i1 i2) = (unat i1 + unat i2 * 2 ^ aw1) mod 2 ^ (aw1 + aw2)"
proof -
  have d: "(2::nat) ^ (aw1 + aw2) dvd 2 ^ 64" using assms by (rule le_imp_power_dvd)
  have "unat (push_bit aw1 i2) = unat i2 * 2 ^ aw1 mod 2 ^ 64"
    by (simp only: unsigned_push_bit_eq) (simp add: take_bit_eq_mod push_bit_eq_mult)
  then have "unat (i1 + push_bit aw1 i2) mod 2 ^ (aw1 + aw2) =
      (unat i1 + unat i2 * 2 ^ aw1 mod 2 ^ 64) mod 2 ^ 64 mod 2 ^ (aw1 + aw2)"
    by (simp only: unat_word_ariths) simp
  also have "\<dots> = (unat i1 + unat i2 * 2 ^ aw1) mod 2 ^ (aw1 + aw2)"
    using d by (simp add: mod_mod_cancel mod_add_right_eq)
  finally show ?thesis by (simp add: ram_addr_mask unat_and_mask)
qed

lemma ram_addr_bound:
  assumes "aw1 + aw2 < 64"
  shows "unat (ram_addr aw1 aw2 i1 i2) < 2 ^ (aw1 + aw2)"
  using assms by (simp add: unat_ram_addr)

section \<open>The interface\<close>

text \<open>
  One clock of a memory: an optional read request, an optional write, the answer to the read
  when the memory delivers it. \<open>answer\<close> is what the contract promises for a read of the
  memory \<open>mem s\<close> while \<open>w\<close> is written, \<open>update\<close> the effect of a write.
\<close>

locale sync_ram =
  fixes step :: "'r option \<Rightarrow> 'w option \<Rightarrow> 's \<Rightarrow> ('d option \<times> 's) option"
    and mem :: "'s \<Rightarrow> 'm"
    and answer :: "'r \<Rightarrow> 'w option \<Rightarrow> 'm \<Rightarrow> 'd"
    and update :: "'w \<Rightarrow> 'm \<Rightarrow> 'm"
    and okr :: "'r \<Rightarrow> bool"
    and okw :: "'w \<Rightarrow> bool"
    and inv :: "'s \<Rightarrow> bool"
  assumes step_ok:
    "inv s \<Longrightarrow> pred_option okr r \<Longrightarrow> pred_option okw w \<Longrightarrow>
      \<exists>s'. step r w s = Some (map_option (\<lambda>r. answer r w (mem s)) r, s') \<and> inv s' \<and>
        mem s' = (case w of None \<Rightarrow> mem s | Some w \<Rightarrow> update w (mem s))"

fun ram_run ::
  "('r option \<Rightarrow> 'w option \<Rightarrow> 's \<Rightarrow> ('d option \<times> 's) option) \<Rightarrow> ('r option \<times> 'w option) list \<Rightarrow>
   's \<Rightarrow> ('d option list \<times> 's) option" where
  "ram_run step [] s = Some ([], s)"
| "ram_run step ((r, w) # ops) s = do {
     (d, s') \<leftarrow> step r w s;
     (ds, s'') \<leftarrow> ram_run step ops s';
     Some (d # ds, s'')
   }"

text \<open>The abstract memory: the answers and the final content of a sequence of requests.\<close>

fun mem_run ::
  "('r \<Rightarrow> 'w option \<Rightarrow> 'm \<Rightarrow> 'd) \<Rightarrow> ('w \<Rightarrow> 'm \<Rightarrow> 'm) \<Rightarrow> ('r option \<times> 'w option) list \<Rightarrow> 'm \<Rightarrow>
   'd option list \<times> 'm" where
  "mem_run answer update [] m = ([], m)"
| "mem_run answer update ((r, w) # ops) m =
     (let m' = (case w of None \<Rightarrow> m | Some w \<Rightarrow> update w m);
          (ds, m'') = mem_run answer update ops m'
      in (map_option (\<lambda>r. answer r w m) r # ds, m''))"

context sync_ram
begin

lemma run_refines:
  assumes "inv s" "\<forall>(r, w) \<in> set ops. pred_option okr r \<and> pred_option okw w"
  shows "\<exists>s'. ram_run step ops s = Some (fst (mem_run answer update ops (mem s)), s') \<and>
    inv s' \<and> mem s' = snd (mem_run answer update ops (mem s))"
  using assms
proof (induction ops arbitrary: s)
  case Nil
  then show ?case by simp
next
  case (Cons op ops)
  obtain r w where op: "op = (r, w)" by (cases op)
  have ok: "pred_option okr r" "pred_option okw w" using Cons.prems(2) by (auto simp: op)
  obtain s1 where s1: "step r w s = Some (map_option (\<lambda>r. answer r w (mem s)) r, s1)" "inv s1"
    "mem s1 = (case w of None \<Rightarrow> mem s | Some w \<Rightarrow> update w (mem s))"
    using step_ok [OF Cons.prems(1) ok] by blast
  obtain s2 where "ram_run step ops s1 = Some (fst (mem_run answer update ops (mem s1)), s2)"
    "inv s2" "mem s2 = snd (mem_run answer update ops (mem s1))"
    using Cons.IH [OF s1(2)] Cons.prems(2) by auto
  with s1 show ?case by (simp add: op Let_def split: prod.splits)
qed

end

text \<open>
  A memory with an output register delivers the data of a read one clock later still. The state has the read \<open>p\<close> of the clock before beside the memory:
  its data is \<open>look\<close>, which the clock loads into the register when the memory is \<open>armed\<close> for it.
\<close>

locale registered_ram =
  fixes rstep :: "'r option \<Rightarrow> 'w option \<Rightarrow> 'r option \<times> 's \<Rightarrow> ('d option \<times> 'r option \<times> 's) option"
    and mem :: "'s \<Rightarrow> 'm"
    and answer :: "'r \<Rightarrow> 'w option \<Rightarrow> 'm \<Rightarrow> 'd"
    and update :: "'w \<Rightarrow> 'm \<Rightarrow> 'm"
    and okr :: "'r \<Rightarrow> bool"
    and okw :: "'w \<Rightarrow> bool"
    and inv :: "'s \<Rightarrow> bool"
    and look :: "'r \<Rightarrow> 's \<Rightarrow> 'd"
    and armed :: "'r \<Rightarrow> 's \<Rightarrow> bool"
  assumes rstep_ok:
    "inv s \<Longrightarrow> pred_option (\<lambda>a. okr a \<and> armed a s) p \<Longrightarrow> pred_option okr r \<Longrightarrow> pred_option okw w \<Longrightarrow>
      \<exists>s'. rstep r w (p, s) = Some (map_option (\<lambda>a. look a s) p, r, s') \<and> inv s' \<and>
        mem s' = (case w of None \<Rightarrow> mem s | Some w \<Rightarrow> update w (mem s)) \<and>
        pred_option (\<lambda>a. armed a s' \<and> look a s' = answer a w (mem s)) r"
begin

lemma reg_run_refines:
  assumes "inv s" "pred_option (\<lambda>a. okr a \<and> armed a s) p" "\<forall>(r, w) \<in> set ops. pred_option okr r \<and> pred_option okw w"
  shows "\<exists>p' s'. ram_run rstep ops (p, s) = Some (butlast (map_option (\<lambda>a. look a s) p # fst (mem_run answer update ops (mem s))), (p', s')) \<and>
    inv s' \<and> mem s' = snd (mem_run answer update ops (mem s))"
  using assms
proof (induction ops arbitrary: p s)
  case Nil
  then show ?case by simp
next
  case (Cons op ops)
  obtain r w where op: "op = (r, w)" by (cases op)
  have ok: "pred_option okr r" "pred_option okw w" using Cons.prems(3) by (auto simp: op)
  obtain s1 where s1: "rstep r w (p, s) = Some (map_option (\<lambda>a. look a s) p, r, s1)" "inv s1"
    "mem s1 = (case w of None \<Rightarrow> mem s | Some w \<Rightarrow> update w (mem s))" "pred_option (\<lambda>a. armed a s1 \<and> look a s1 = answer a w (mem s)) r"
    using rstep_ok [OF Cons.prems(1,2) ok] by blast
  have r: "pred_option (\<lambda>a. okr a \<and> armed a s1) r" "map_option (\<lambda>a. look a s1) r = map_option (\<lambda>a. answer a w (mem s)) r"
    using ok(1) s1(4) by (cases r; simp)+
  obtain p2 s2 where "ram_run rstep ops (r, s1) = Some (butlast (map_option (\<lambda>a. look a s1) r # fst (mem_run answer update ops (mem s1))), (p2, s2))"
    "inv s2" "mem s2 = snd (mem_run answer update ops (mem s1))"
    using Cons.IH [OF s1(2) r(1)] Cons.prems(3) by auto
  with s1(1,3) show ?case by (simp add: op r(2) Let_def split: prod.splits)
qed

end

section \<open>The distributed RAM\<close>

record 'a dist_ram =
  dr_bReset :: bool
  dr_mem :: "u64 \<Rightarrow> 'a"
  dr_bRdAddr :: bool
  dr_rdAddr :: u64
  dr_bWrAddr :: bool
  dr_bWrData :: bool
  dr_wrData :: 'a
  dr_wrAddr :: u64

definition dr_new :: "'a dist_ram \<Rightarrow> 'a dist_ram" where
  "dr_new raw = raw\<lparr>dr_bReset := True, dr_bWrAddr := False, dr_bRdAddr := False, dr_bWrData := False\<rparr>"

definition dr_read_mem_debug :: "nat \<Rightarrow> nat \<Rightarrow> u64 \<Rightarrow> u64 \<Rightarrow> 'a dist_ram \<Rightarrow> 'a" where
  "dr_read_mem_debug aw1 aw2 i1 i2 q = dr_mem q (ram_addr aw1 aw2 i1 i2)"

definition dr_read_addr_ignore :: "nat \<Rightarrow> nat \<Rightarrow> u64 \<Rightarrow> u64 \<Rightarrow> 'a dist_ram \<Rightarrow> 'a dist_ram" where
  "dr_read_addr_ignore aw1 aw2 i1 i2 q = q\<lparr>dr_rdAddr := ram_addr aw1 aw2 i1 i2\<rparr>"

definition dr_read_mem_ignore :: "'a dist_ram \<Rightarrow> 'a" where
  "dr_read_mem_ignore q = dr_mem q (dr_rdAddr q)"

definition dr_read_addr :: "nat \<Rightarrow> nat \<Rightarrow> u64 \<Rightarrow> u64 \<Rightarrow> 'a dist_ram \<Rightarrow> 'a dist_ram option" where
  "dr_read_addr aw1 aw2 i1 i2 q = do {
     let rdAddr = ram_addr aw1 aw2 i1 i2;
     ensure (dr_bReset q \<or> \<not> dr_bRdAddr q \<or> dr_rdAddr q = rdAddr);
     Some (q\<lparr>dr_bRdAddr := True, dr_rdAddr := rdAddr\<rparr>)
   }"

definition dr_write_addr :: "nat \<Rightarrow> nat \<Rightarrow> u64 \<Rightarrow> u64 \<Rightarrow> 'a dist_ram \<Rightarrow> 'a dist_ram option" where
  "dr_write_addr aw1 aw2 i1 i2 q = do {
     let wrAddr = ram_addr aw1 aw2 i1 i2;
     ensure (dr_bReset q \<or> \<not> dr_bWrAddr q \<or> dr_wrAddr q = wrAddr);
     let q = q\<lparr>dr_wrAddr := wrAddr\<rparr>;
     let q = (if \<not> dr_bWrAddr q
              then q\<lparr>dr_wrData := dr_mem q (if dr_bReset q then 0 else dr_wrAddr q)\<rparr> else q);
     Some (q\<lparr>dr_bWrAddr := True\<rparr>)
   }"

definition dr_write_mem_debug :: "nat \<Rightarrow> nat \<Rightarrow> u64 \<Rightarrow> u64 \<Rightarrow> 'a \<Rightarrow> 'a dist_ram \<Rightarrow> 'a dist_ram" where
  "dr_write_mem_debug aw1 aw2 i1 i2 x q = q\<lparr>dr_mem := (dr_mem q)(ram_addr aw1 aw2 i1 i2 := x)\<rparr>"

definition dr_read_mem :: "'a dist_ram \<Rightarrow> 'a option" where
  "dr_read_mem q =
     (if dr_bReset q then Some (dr_mem q 0)
      else do { ensure (dr_bRdAddr q); Some (dr_mem q (dr_rdAddr q)) })"

text \<open>\<^verbatim>\<open>T & write_mem()\<close>: the caller changes the write data through the reference by \<open>f\<close>.\<close>

definition dr_write_mem_ref :: "('a \<Rightarrow> 'a) \<Rightarrow> 'a dist_ram \<Rightarrow> 'a dist_ram" where
  "dr_write_mem_ref f q = q\<lparr>dr_bWrData := True, dr_wrData := f (dr_wrData q)\<rparr>"

definition dr_write_mem :: "'a \<Rightarrow> 'a dist_ram \<Rightarrow> 'a dist_ram" where
  "dr_write_mem x q = q\<lparr>dr_bWrData := True, dr_wrData := x\<rparr>"

definition dr_read_clock :: "bool \<Rightarrow> 'a dist_ram \<Rightarrow> 'a dist_ram" where
  "dr_read_clock bReset q = q\<lparr>dr_bReset := bReset, dr_bRdAddr := False\<rparr>"

definition dr_write_clock :: "bool \<Rightarrow> 'a dist_ram \<Rightarrow> 'a dist_ram option" where
  "dr_write_clock bReset q = do {
     let q = q\<lparr>dr_bReset := bReset\<rparr>;
     q \<leftarrow> (if \<not> dr_bReset q \<and> dr_bWrData q then do {
             ensure (dr_bWrAddr q);
             Some (q\<lparr>dr_mem := (dr_mem q)(dr_wrAddr q := dr_wrData q)\<rparr>)
           } else Some q);
     Some (q\<lparr>dr_bWrData := False, dr_bWrAddr := False\<rparr>)
   }"

definition dr_clock :: "bool \<Rightarrow> 'a dist_ram \<Rightarrow> 'a dist_ram option" where
  "dr_clock bReset q = dr_write_clock bReset (dr_read_clock bReset q)"

text \<open>One clock of a module that uses the memory; the data is read before the clock edge.\<close>

definition dr_step ::
  "nat \<Rightarrow> nat \<Rightarrow> (u64 \<times> u64) option \<Rightarrow> ((u64 \<times> u64) \<times> 'a) option \<Rightarrow> 'a dist_ram \<Rightarrow>
   ('a option \<times> 'a dist_ram) option" where
  "dr_step aw1 aw2 r w q = do {
     (d, q) \<leftarrow> (case r of None \<Rightarrow> Some (None, q)
       | Some (i1, i2) \<Rightarrow> do {
           q \<leftarrow> dr_read_addr aw1 aw2 i1 i2 q;
           d \<leftarrow> dr_read_mem q;
           Some (Some d, q)
         });
     q \<leftarrow> (case w of None \<Rightarrow> Some q
       | Some ((i1, i2), x) \<Rightarrow> do {
           q \<leftarrow> dr_write_addr aw1 aw2 i1 i2 q;
           Some (dr_write_mem x q)
         });
     q \<leftarrow> dr_clock False q;
     Some (d, q)
   }"

section \<open>The block RAM\<close>

record 'a block_ram =
  br_bReset :: bool
  br_mem :: "u64 \<Rightarrow> 'a"
  br_doReg :: 'a
  br_bRdAddr :: bool
  br_rdAddr :: u64
  br_r_bRdAddr :: "bool sc_signal"
  br_r_bRdAddr2 :: bool
  br_r_rdAddr :: "u64 sc_signal"
  br_bWrData :: bool
  br_r_bWrData :: "bool sc_signal"
  br_bWrAddr :: bool
  br_wrData :: 'a
  br_wrAddr :: u64
  br_r_wrAddr :: "u64 sc_signal"

text \<open>The signals start at \<open>false\<close> and 0; the constructor's assignments are writes to them.\<close>

definition br_new :: "'a block_ram \<Rightarrow> 'a block_ram" where
  "br_new raw = raw\<lparr>br_bReset := True, br_bWrAddr := False, br_bWrData := False,
     br_r_bWrData := \<lparr>sig_cur = False, sig_new = False\<rparr>, br_r_wrAddr := \<lparr>sig_cur = 0, sig_new = 0\<rparr>,
     br_bRdAddr := False, br_r_bRdAddr := \<lparr>sig_cur = False, sig_new = True\<rparr>,
     br_r_rdAddr := \<lparr>sig_cur = 0, sig_new = 0\<rparr>\<rparr>"

definition br_RdAddrIgnore :: "nat \<Rightarrow> nat \<Rightarrow> u64 \<Rightarrow> u64 \<Rightarrow> 'a block_ram \<Rightarrow> 'a block_ram" where
  "br_RdAddrIgnore aw1 aw2 i1 i2 q = q\<lparr>br_bRdAddr := True, br_rdAddr := ram_addr aw1 aw2 i1 i2\<rparr>"

definition br_read_addr :: "nat \<Rightarrow> nat \<Rightarrow> u64 \<Rightarrow> u64 \<Rightarrow> 'a block_ram \<Rightarrow> 'a block_ram option" where
  "br_read_addr aw1 aw2 i1 i2 q = do {
     ensure (br_bReset q \<or> \<not> br_bRdAddr q);
     Some (q\<lparr>br_bRdAddr := True, br_rdAddr := ram_addr aw1 aw2 i1 i2\<rparr>)
   }"

definition br_write_addr :: "nat \<Rightarrow> nat \<Rightarrow> u64 \<Rightarrow> u64 \<Rightarrow> 'a block_ram \<Rightarrow> 'a block_ram option" where
  "br_write_addr aw1 aw2 i1 i2 q = do {
     let wrAddr = ram_addr aw1 aw2 i1 i2;
     ensure (br_bReset q \<or> \<not> br_bWrAddr q \<or> br_wrAddr q = wrAddr);
     let q = q\<lparr>br_wrAddr := wrAddr\<rparr>;
     let q = (if \<not> br_bWrAddr q
              then q\<lparr>br_wrData := br_mem q (if br_bReset q then 0 else br_wrAddr q)\<rparr> else q);
     Some (q\<lparr>br_bWrAddr := True\<rparr>)
   }"

definition br_read_mem_debug :: "nat \<Rightarrow> nat \<Rightarrow> u64 \<Rightarrow> u64 \<Rightarrow> 'a block_ram \<Rightarrow> 'a" where
  "br_read_mem_debug aw1 aw2 i1 i2 q = br_mem q (ram_addr aw1 aw2 i1 i2)"

text \<open>
  \<^verbatim>\<open>(r_bRdAddr && r_bWrData && r_rdAddr == r_wrAddr) ? ht_bad_data(r_doReg) : m_mem[r_rdAddr]\<close>
\<close>

definition br_mem_out :: "'a \<Rightarrow> 'a block_ram \<Rightarrow> 'a" where
  "br_mem_out bad q =
     (if sig_cur (br_r_bRdAddr q) \<and> sig_cur (br_r_bWrData q) \<and>
         sig_cur (br_r_rdAddr q) = sig_cur (br_r_wrAddr q)
      then bad else br_mem q (sig_cur (br_r_rdAddr q)))"

definition br_read_mem :: "bool \<Rightarrow> 'a \<Rightarrow> 'a block_ram \<Rightarrow> 'a option" where
  "br_read_mem bDoReg bad q =
     (if br_bReset q then Some (br_mem q 0)
      else do {
        ensure (if bDoReg then br_r_bRdAddr2 q else sig_cur (br_r_bRdAddr q));
        Some (if bDoReg then br_doReg q else br_mem_out bad q)
      })"

definition br_write_mem_ref :: "('a \<Rightarrow> 'a) \<Rightarrow> 'a block_ram \<Rightarrow> 'a block_ram option" where
  "br_write_mem_ref f q = do { ensure (br_bWrAddr q); Some (q\<lparr>br_wrData := f (br_wrData q)\<rparr>) }"

definition br_write_mem :: "'a \<Rightarrow> 'a block_ram \<Rightarrow> 'a block_ram option" where
  "br_write_mem x q = do {
     ensure (br_bReset q \<or> br_bWrAddr q);
     Some (q\<lparr>br_bWrData := True, br_wrData := x\<rparr>)
   }"

definition br_write_mem_debug :: "nat \<Rightarrow> nat \<Rightarrow> u64 \<Rightarrow> u64 \<Rightarrow> 'a \<Rightarrow> 'a block_ram \<Rightarrow> 'a block_ram" where
  "br_write_mem_debug aw1 aw2 i1 i2 x q = q\<lparr>br_mem := (br_mem q)(ram_addr aw1 aw2 i1 i2 := x)\<rparr>"

definition br_read_clock :: "'a \<Rightarrow> bool \<Rightarrow> 'a block_ram \<Rightarrow> 'a block_ram" where
  "br_read_clock bad bReset q =
     (let q = q\<lparr>br_bReset := bReset\<rparr>;
          q = (if \<not> br_bReset q \<and> sig_cur (br_r_bRdAddr q) then q\<lparr>br_doReg := br_mem_out bad q\<rparr> else q)
      in q\<lparr>br_r_bRdAddr2 := sig_cur (br_r_bRdAddr q),
           br_r_bRdAddr := sig_write (br_bRdAddr q) (br_r_bRdAddr q),
           br_bRdAddr := False,
           br_r_rdAddr := sig_write (br_rdAddr q) (br_r_rdAddr q)\<rparr>)"

definition br_write_clock :: "bool \<Rightarrow> 'a block_ram \<Rightarrow> 'a block_ram" where
  "br_write_clock bReset q =
     (let q = q\<lparr>br_bReset := bReset\<rparr>;
          q = (if \<not> br_bReset q \<and> br_bWrData q
               then q\<lparr>br_mem := (br_mem q)(br_wrAddr q := br_wrData q)\<rparr> else q)
      in q\<lparr>br_r_bWrData := sig_write (br_bWrData q) (br_r_bWrData q),
           br_r_wrAddr := sig_write (br_wrAddr q) (br_r_wrAddr q),
           br_bWrAddr := False, br_bWrData := False\<rparr>)"

definition br_clock :: "'a \<Rightarrow> bool \<Rightarrow> 'a block_ram \<Rightarrow> 'a block_ram" where
  "br_clock bad bReset q = br_write_clock bReset (br_read_clock bad bReset q)"

text \<open>The kernel's update phase, and one clock of a module that uses the memory.\<close>

definition br_delta :: "'a block_ram \<Rightarrow> 'a block_ram" where
  "br_delta q = q\<lparr>br_r_bRdAddr := sig_delta (br_r_bRdAddr q), br_r_rdAddr := sig_delta (br_r_rdAddr q),
     br_r_bWrData := sig_delta (br_r_bWrData q), br_r_wrAddr := sig_delta (br_r_wrAddr q)\<rparr>"

definition br_cycle ::
  "nat \<Rightarrow> nat \<Rightarrow> 'a \<Rightarrow> (u64 \<times> u64) option \<Rightarrow> ((u64 \<times> u64) \<times> 'a) option \<Rightarrow> 'a block_ram \<Rightarrow>
   'a block_ram option" where
  "br_cycle aw1 aw2 bad r w q = do {
     q \<leftarrow> (case r of None \<Rightarrow> Some q | Some (i1, i2) \<Rightarrow> br_read_addr aw1 aw2 i1 i2 q);
     q \<leftarrow> (case w of None \<Rightarrow> Some q
       | Some ((i1, i2), x) \<Rightarrow> do {
           q \<leftarrow> br_write_addr aw1 aw2 i1 i2 q;
           br_write_mem x q
         });
     Some (br_delta (br_clock bad False q))
   }"

text \<open>A clock followed by the read of the data in the next one.\<close>

definition br_step ::
  "nat \<Rightarrow> nat \<Rightarrow> 'a \<Rightarrow> (u64 \<times> u64) option \<Rightarrow> ((u64 \<times> u64) \<times> 'a) option \<Rightarrow> 'a block_ram \<Rightarrow>
   ('a option \<times> 'a block_ram) option" where
  "br_step aw1 aw2 bad r w q = do {
     q \<leftarrow> br_cycle aw1 aw2 bad r w q;
     d \<leftarrow> (if r = None then Some None else map_option Some (br_read_mem False bad q));
     Some (d, q)
   }"


section \<open>The banked block RAMs\<close>

text \<open>
  \<^verbatim>\<open>ht_mrd_block_ram\<close>: a write goes to one bank, a read delivers every bank; \<^verbatim>\<open>m_mem[addr][sel]\<close> is
  \<open>mr_mem q addr sel\<close>. The registers are plain members here, not signals.
\<close>

record 'a mrd_ram =
  mr_bReset :: bool
  mr_mem :: "u64 \<Rightarrow> u64 \<Rightarrow> 'a"
  mr_doReg :: "u64 \<Rightarrow> 'a"
  mr_bRdAddr :: bool
  mr_rdAddr :: u64
  mr_r_bRdAddr :: bool
  mr_r_bRdAddr2 :: bool
  mr_r_rdAddr :: u64
  mr_bWrData :: bool
  mr_r_bWrData :: bool
  mr_bWrAddr :: bool
  mr_wrData :: 'a
  mr_wrAddr :: u64
  mr_wrSel :: u64
  mr_r_wrAddr :: u64

definition mr_new :: "'a mrd_ram \<Rightarrow> 'a mrd_ram" where
  "mr_new raw = raw\<lparr>mr_bReset := True, mr_bWrAddr := False, mr_bWrData := False, mr_r_bWrData := False,
     mr_r_wrAddr := 0, mr_bRdAddr := False, mr_r_bRdAddr := True, mr_r_rdAddr := 0\<rparr>"

definition mr_RdAddrIgnore :: "nat \<Rightarrow> nat \<Rightarrow> u64 \<Rightarrow> u64 \<Rightarrow> 'a mrd_ram \<Rightarrow> 'a mrd_ram" where
  "mr_RdAddrIgnore aw1 aw2 i1 i2 q = q\<lparr>mr_bRdAddr := True, mr_rdAddr := ram_addr aw1 aw2 i1 i2\<rparr>"

definition mr_read_addr :: "nat \<Rightarrow> nat \<Rightarrow> u64 \<Rightarrow> u64 \<Rightarrow> 'a mrd_ram \<Rightarrow> 'a mrd_ram option" where
  "mr_read_addr aw1 aw2 i1 i2 q = do {
     ensure (mr_bReset q \<or> \<not> mr_bRdAddr q);
     Some (q\<lparr>mr_bRdAddr := True, mr_rdAddr := ram_addr aw1 aw2 i1 i2\<rparr>)
   }"

definition mr_write_addr :: "nat \<Rightarrow> nat \<Rightarrow> nat \<Rightarrow> u64 \<Rightarrow> u64 \<Rightarrow> u64 \<Rightarrow> 'a mrd_ram \<Rightarrow> 'a mrd_ram option" where
  "mr_write_addr sw aw1 aw2 wrSel i1 i2 q = do {
     let wrAddr = ram_addr aw1 aw2 i1 i2;
     ensure (wrSel < push_bit sw 1);
     ensure (mr_bReset q \<or> \<not> mr_bWrAddr q \<or> mr_wrAddr q = wrAddr);
     let q = q\<lparr>mr_wrAddr := wrAddr, mr_wrSel := wrSel\<rparr>;
     let q = (if \<not> mr_bWrAddr q
              then q\<lparr>mr_wrData := (if mr_bReset q then mr_mem q 0 0 else mr_mem q (mr_wrAddr q) (mr_wrSel q))\<rparr>
              else q);
     Some (q\<lparr>mr_bWrAddr := True\<rparr>)
   }"

definition mr_read_mem_debug :: "nat \<Rightarrow> nat \<Rightarrow> nat \<Rightarrow> u64 \<Rightarrow> u64 \<Rightarrow> u64 \<Rightarrow> 'a mrd_ram \<Rightarrow> 'a option" where
  "mr_read_mem_debug sw aw1 aw2 rdSel i1 i2 q = do {
     ensure (rdSel < push_bit sw 1);
     Some (mr_mem q (ram_addr aw1 aw2 i1 i2) rdSel)
   }"

definition mr_mem_out :: "'a \<Rightarrow> u64 \<Rightarrow> 'a mrd_ram \<Rightarrow> 'a" where
  "mr_mem_out bad rdSel q =
     (if mr_r_bRdAddr q \<and> mr_r_bWrData q \<and> mr_r_rdAddr q = mr_r_wrAddr q
      then bad else mr_mem q (mr_r_rdAddr q) rdSel)"

definition mr_read_mem :: "nat \<Rightarrow> bool \<Rightarrow> 'a \<Rightarrow> u64 \<Rightarrow> 'a mrd_ram \<Rightarrow> 'a option" where
  "mr_read_mem sw bDoReg bad rdSel q =
     (if mr_bReset q then Some (mr_mem q 0 0)
      else do {
        ensure (rdSel < push_bit sw 1);
        ensure (if bDoReg then mr_r_bRdAddr2 q else mr_r_bRdAddr q);
        Some (if bDoReg then mr_doReg q rdSel else mr_mem_out bad rdSel q)
      })"

definition mr_write_mem_ref :: "('a \<Rightarrow> 'a) \<Rightarrow> 'a mrd_ram \<Rightarrow> 'a mrd_ram option" where
  "mr_write_mem_ref f q = do { ensure (mr_bWrAddr q); Some (q\<lparr>mr_wrData := f (mr_wrData q)\<rparr>) }"

definition mr_write_mem :: "'a \<Rightarrow> 'a mrd_ram \<Rightarrow> 'a mrd_ram option" where
  "mr_write_mem x q = do {
     ensure (mr_bReset q \<or> mr_bWrAddr q);
     Some (q\<lparr>mr_bWrData := True, mr_wrData := x\<rparr>)
   }"

text \<open>The store to \<^verbatim>\<open>m_mem[addr][sel]\<close>.\<close>

definition bank_upd :: "u64 \<Rightarrow> u64 \<Rightarrow> 'a \<Rightarrow> (u64 \<Rightarrow> u64 \<Rightarrow> 'a) \<Rightarrow> u64 \<Rightarrow> u64 \<Rightarrow> 'a" where
  "bank_upd a sel x m = m(a := (m a)(sel := x))"

definition mr_write_mem_debug ::
  "nat \<Rightarrow> nat \<Rightarrow> nat \<Rightarrow> u64 \<Rightarrow> u64 \<Rightarrow> u64 \<Rightarrow> 'a \<Rightarrow> 'a mrd_ram \<Rightarrow> 'a mrd_ram option" where
  "mr_write_mem_debug sw aw1 aw2 wrSel i1 i2 x q = do {
     ensure (wrSel < push_bit sw 1);
     Some (q\<lparr>mr_mem := bank_upd (ram_addr aw1 aw2 i1 i2) wrSel x (mr_mem q)\<rparr>)
   }"

definition mr_read_clock :: "nat \<Rightarrow> 'a \<Rightarrow> bool \<Rightarrow> 'a mrd_ram \<Rightarrow> 'a mrd_ram" where
  "mr_read_clock sw bad bReset q =
     (let q = q\<lparr>mr_bReset := bReset\<rparr>;
          q = (if \<not> mr_bReset q \<and> mr_r_bRdAddr q
               then q\<lparr>mr_doReg := (\<lambda>rdSel. if rdSel < push_bit sw 1 then mr_mem_out bad rdSel q else mr_doReg q rdSel)\<rparr>
               else q);
          q = q\<lparr>mr_r_bRdAddr2 := mr_r_bRdAddr q\<rparr>;
          q = q\<lparr>mr_r_bRdAddr := mr_bRdAddr q\<rparr>;
          q = q\<lparr>mr_bRdAddr := False\<rparr>
      in q\<lparr>mr_r_rdAddr := mr_rdAddr q\<rparr>)"

definition mr_write_clock :: "bool \<Rightarrow> 'a mrd_ram \<Rightarrow> 'a mrd_ram" where
  "mr_write_clock bReset q =
     (let q = q\<lparr>mr_bReset := bReset\<rparr>;
          q = (if \<not> mr_bReset q \<and> mr_bWrData q
               then q\<lparr>mr_mem := bank_upd (mr_wrAddr q) (mr_wrSel q) (mr_wrData q) (mr_mem q)\<rparr> else q)
      in q\<lparr>mr_r_bWrData := mr_bWrData q, mr_r_wrAddr := mr_wrAddr q, mr_bWrAddr := False, mr_bWrData := False\<rparr>)"

definition mr_clock :: "nat \<Rightarrow> 'a \<Rightarrow> bool \<Rightarrow> 'a mrd_ram \<Rightarrow> 'a mrd_ram" where
  "mr_clock sw bad bReset q = mr_write_clock bReset (mr_read_clock sw bad bReset q)"

definition mr_cycle ::
  "nat \<Rightarrow> nat \<Rightarrow> nat \<Rightarrow> 'a \<Rightarrow> (u64 \<times> u64) option \<Rightarrow> ((u64 \<times> u64 \<times> u64) \<times> 'a) option \<Rightarrow> 'a mrd_ram \<Rightarrow>
   'a mrd_ram option" where
  "mr_cycle sw aw1 aw2 bad r w q = do {
     q \<leftarrow> (case r of None \<Rightarrow> Some q | Some (i1, i2) \<Rightarrow> mr_read_addr aw1 aw2 i1 i2 q);
     q \<leftarrow> (case w of None \<Rightarrow> Some q
       | Some ((sel, i1, i2), x) \<Rightarrow> do {
           q \<leftarrow> mr_write_addr sw aw1 aw2 sel i1 i2 q;
           mr_write_mem x q
         });
     Some (mr_clock sw bad False q)
   }"

definition mr_step ::
  "nat \<Rightarrow> nat \<Rightarrow> nat \<Rightarrow> 'a \<Rightarrow> (u64 \<times> u64 \<times> u64) option \<Rightarrow> ((u64 \<times> u64 \<times> u64) \<times> 'a) option \<Rightarrow> 'a mrd_ram \<Rightarrow>
   ('a option \<times> 'a mrd_ram) option" where
  "mr_step sw aw1 aw2 bad r w q = do {
     q \<leftarrow> mr_cycle sw aw1 aw2 bad (map_option snd r) w q;
     d \<leftarrow> (case r of None \<Rightarrow> Some None | Some (sel, _) \<Rightarrow> map_option Some (mr_read_mem sw False bad sel q));
     Some (d, q)
   }"

text \<open>With the output register the data is read one clock later; \<open>p\<close> is the read of the clock before.\<close>

definition mr_reg_step ::
  "nat \<Rightarrow> nat \<Rightarrow> nat \<Rightarrow> 'a \<Rightarrow> (u64 \<times> u64 \<times> u64) option \<Rightarrow> ((u64 \<times> u64 \<times> u64) \<times> 'a) option \<Rightarrow>
   (u64 \<times> u64 \<times> u64) option \<times> 'a mrd_ram \<Rightarrow> ('a option \<times> (u64 \<times> u64 \<times> u64) option \<times> 'a mrd_ram) option" where
  "mr_reg_step sw aw1 aw2 bad r w s = (case s of (p, q) \<Rightarrow> do {
     q \<leftarrow> mr_cycle sw aw1 aw2 bad (map_option snd r) w q;
     d \<leftarrow> (case p of None \<Rightarrow> Some None | Some (sel, _) \<Rightarrow> map_option Some (mr_read_mem sw True bad sel q));
     Some (d, r, q)
   })"

text \<open>
  \<^verbatim>\<open>ht_mwr_block_ram\<close>: a write goes to every bank, a read delivers the selected one. Its
  \<^verbatim>\<open>T & write_mem()\<close> returns an array where a \<^verbatim>\<open>T &\<close> is declared and cannot be instantiated; it
  has no model.
\<close>

record 'a mwr_ram =
  mw_bReset :: bool
  mw_mem :: "u64 \<Rightarrow> u64 \<Rightarrow> 'a"
  mw_doReg :: 'a
  mw_bRdAddr :: bool
  mw_rdSel :: u64
  mw_rdAddr :: u64
  mw_r_bRdAddr :: bool
  mw_r_bRdAddr2 :: bool
  mw_r_rdSel :: u64
  mw_r_rdAddr :: u64
  mw_bWrData :: bool
  mw_r_bWrData :: bool
  mw_bWrAddr :: bool
  mw_wrData :: "u64 \<Rightarrow> 'a"
  mw_wrAddr :: u64
  mw_r_wrAddr :: u64

definition mw_new :: "'a mwr_ram \<Rightarrow> 'a mwr_ram" where
  "mw_new raw = raw\<lparr>mw_bReset := True, mw_bWrAddr := False, mw_bWrData := False, mw_r_bWrData := False,
     mw_r_wrAddr := 0, mw_bRdAddr := False, mw_r_bRdAddr := True, mw_r_rdSel := 0, mw_r_rdAddr := 0\<rparr>"

definition mw_RdAddrIgnore :: "nat \<Rightarrow> nat \<Rightarrow> nat \<Rightarrow> u64 \<Rightarrow> u64 \<Rightarrow> u64 \<Rightarrow> 'a mwr_ram \<Rightarrow> 'a mwr_ram option" where
  "mw_RdAddrIgnore sw aw1 aw2 rdSel i1 i2 q = do {
     ensure (rdSel < push_bit sw 1);
     Some (q\<lparr>mw_bRdAddr := True, mw_rdSel := rdSel, mw_rdAddr := ram_addr aw1 aw2 i1 i2\<rparr>)
   }"

definition mw_read_addr :: "nat \<Rightarrow> nat \<Rightarrow> nat \<Rightarrow> u64 \<Rightarrow> u64 \<Rightarrow> u64 \<Rightarrow> 'a mwr_ram \<Rightarrow> 'a mwr_ram option" where
  "mw_read_addr sw aw1 aw2 rdSel i1 i2 q = do {
     ensure (mw_bReset q \<or> rdSel < push_bit sw 1);
     ensure (mw_bReset q \<or> \<not> mw_bRdAddr q);
     Some (q\<lparr>mw_bRdAddr := True, mw_rdSel := rdSel, mw_rdAddr := ram_addr aw1 aw2 i1 i2\<rparr>)
   }"

definition mw_write_addr :: "nat \<Rightarrow> nat \<Rightarrow> nat \<Rightarrow> u64 \<Rightarrow> u64 \<Rightarrow> 'a::zero mwr_ram \<Rightarrow> 'a mwr_ram option" where
  "mw_write_addr sw aw1 aw2 i1 i2 q = do {
     let wrAddr = ram_addr aw1 aw2 i1 i2;
     ensure (mw_bReset q \<or> \<not> mw_bWrAddr q \<or> mw_wrAddr q = wrAddr);
     Some (q\<lparr>mw_wrAddr := wrAddr,
            mw_wrData := (\<lambda>wrSel. if wrSel < push_bit sw 1 then 0 else mw_wrData q wrSel),
            mw_bWrAddr := True\<rparr>)
   }"

definition mw_read_mem_debug :: "nat \<Rightarrow> nat \<Rightarrow> nat \<Rightarrow> u64 \<Rightarrow> u64 \<Rightarrow> u64 \<Rightarrow> 'a mwr_ram \<Rightarrow> 'a option" where
  "mw_read_mem_debug sw aw1 aw2 rdSel i1 i2 q = do {
     ensure (rdSel < push_bit sw 1);
     Some (mw_mem q (ram_addr aw1 aw2 i1 i2) rdSel)
   }"

definition mw_mem_out :: "'a \<Rightarrow> 'a mwr_ram \<Rightarrow> 'a" where
  "mw_mem_out bad q =
     (if mw_r_bRdAddr q \<and> mw_r_bWrData q \<and> mw_r_rdAddr q = mw_r_wrAddr q
      then bad else mw_mem q (mw_r_rdAddr q) (mw_r_rdSel q))"

definition mw_read_mem :: "bool \<Rightarrow> 'a \<Rightarrow> 'a mwr_ram \<Rightarrow> 'a option" where
  "mw_read_mem bDoReg bad q =
     (if mw_bReset q then Some (mw_mem q 0 0)
      else do {
        ensure (if bDoReg then mw_r_bRdAddr2 q else mw_r_bRdAddr q);
        Some (if bDoReg then mw_doReg q else mw_mem_out bad q)
      })"

definition mw_write_mem :: "nat \<Rightarrow> u64 \<Rightarrow> 'a \<Rightarrow> 'a mwr_ram \<Rightarrow> 'a mwr_ram option" where
  "mw_write_mem sw wrSel x q = do {
     ensure (mw_bReset q \<or> wrSel < push_bit sw 1);
     ensure (mw_bReset q \<or> mw_bWrAddr q);
     Some (q\<lparr>mw_bWrData := True, mw_wrData := (mw_wrData q)((if mw_bReset q then 0 else wrSel) := x)\<rparr>)
   }"

definition mw_write_mem_debug ::
  "nat \<Rightarrow> nat \<Rightarrow> nat \<Rightarrow> u64 \<Rightarrow> u64 \<Rightarrow> u64 \<Rightarrow> 'a \<Rightarrow> 'a mwr_ram \<Rightarrow> 'a mwr_ram option" where
  "mw_write_mem_debug sw aw1 aw2 wrSel i1 i2 x q = do {
     ensure (wrSel < push_bit sw 1);
     Some (q\<lparr>mw_mem := bank_upd (ram_addr aw1 aw2 i1 i2) wrSel x (mw_mem q)\<rparr>)
   }"

definition mw_read_clock :: "'a \<Rightarrow> bool \<Rightarrow> 'a mwr_ram \<Rightarrow> 'a mwr_ram" where
  "mw_read_clock bad bReset q =
     (let q = q\<lparr>mw_bReset := bReset\<rparr>;
          q = (if \<not> mw_bReset q \<and> mw_r_bRdAddr q then q\<lparr>mw_doReg := mw_mem_out bad q\<rparr> else q);
          q = q\<lparr>mw_r_bRdAddr2 := mw_r_bRdAddr q\<rparr>;
          q = q\<lparr>mw_r_bRdAddr := mw_bRdAddr q\<rparr>;
          q = q\<lparr>mw_bRdAddr := False\<rparr>
      in q\<lparr>mw_r_rdSel := mw_rdSel q, mw_r_rdAddr := mw_rdAddr q\<rparr>)"

definition mw_write_clock :: "nat \<Rightarrow> bool \<Rightarrow> 'a mwr_ram \<Rightarrow> 'a mwr_ram" where
  "mw_write_clock sw bReset q =
     (let q = q\<lparr>mw_bReset := bReset\<rparr>;
          q = (if \<not> mw_bReset q \<and> mw_bWrData q
               then q\<lparr>mw_mem := (mw_mem q)(mw_wrAddr q :=
                 (\<lambda>wrSel. if wrSel < push_bit sw 1 then mw_wrData q wrSel else mw_mem q (mw_wrAddr q) wrSel))\<rparr>
               else q)
      in q\<lparr>mw_r_bWrData := mw_bWrData q, mw_r_wrAddr := mw_wrAddr q, mw_bWrAddr := False, mw_bWrData := False\<rparr>)"

definition mw_clock :: "nat \<Rightarrow> 'a \<Rightarrow> bool \<Rightarrow> 'a mwr_ram \<Rightarrow> 'a mwr_ram" where
  "mw_clock sw bad bReset q = mw_write_clock sw bReset (mw_read_clock bad bReset q)"

text \<open>A clock's write gives an address and then the banks it stores to, in order.\<close>

fun mw_write_banks :: "nat \<Rightarrow> (u64 \<times> 'a) list \<Rightarrow> 'a mwr_ram \<Rightarrow> 'a mwr_ram option" where
  "mw_write_banks sw [] q = Some q"
| "mw_write_banks sw ((sel, x) # ws) q = do {
     q \<leftarrow> mw_write_mem sw sel x q;
     mw_write_banks sw ws q
   }"

definition mw_cycle ::
  "nat \<Rightarrow> nat \<Rightarrow> nat \<Rightarrow> 'a::zero \<Rightarrow> (u64 \<times> u64 \<times> u64) option \<Rightarrow> ((u64 \<times> u64) \<times> (u64 \<times> 'a) list) option \<Rightarrow>
   'a mwr_ram \<Rightarrow> 'a mwr_ram option" where
  "mw_cycle sw aw1 aw2 bad r w q = do {
     q \<leftarrow> (case r of None \<Rightarrow> Some q | Some (sel, i1, i2) \<Rightarrow> mw_read_addr sw aw1 aw2 sel i1 i2 q);
     q \<leftarrow> (case w of None \<Rightarrow> Some q
       | Some ((i1, i2), ws) \<Rightarrow> do {
           q \<leftarrow> mw_write_addr sw aw1 aw2 i1 i2 q;
           mw_write_banks sw ws q
         });
     Some (mw_clock sw bad False q)
   }"

definition mw_step ::
  "nat \<Rightarrow> nat \<Rightarrow> nat \<Rightarrow> 'a::zero \<Rightarrow> (u64 \<times> u64 \<times> u64) option \<Rightarrow> ((u64 \<times> u64) \<times> (u64 \<times> 'a) list) option \<Rightarrow>
   'a mwr_ram \<Rightarrow> ('a option \<times> 'a mwr_ram) option" where
  "mw_step sw aw1 aw2 bad r w q = do {
     q \<leftarrow> mw_cycle sw aw1 aw2 bad r w q;
     d \<leftarrow> (if r = None then Some None else map_option Some (mw_read_mem False bad q));
     Some (d, q)
   }"

definition mw_reg_step ::
  "nat \<Rightarrow> nat \<Rightarrow> nat \<Rightarrow> 'a::zero \<Rightarrow> (u64 \<times> u64 \<times> u64) option \<Rightarrow> ((u64 \<times> u64) \<times> (u64 \<times> 'a) list) option \<Rightarrow>
   (u64 \<times> u64 \<times> u64) option \<times> 'a mwr_ram \<Rightarrow> ('a option \<times> (u64 \<times> u64 \<times> u64) option \<times> 'a mwr_ram) option" where
  "mw_reg_step sw aw1 aw2 bad r w s = (case s of (p, q) \<Rightarrow> do {
     q \<leftarrow> mw_cycle sw aw1 aw2 bad r w q;
     d \<leftarrow> (if p = None then Some None else map_option Some (mw_read_mem True bad q));
     Some (d, r, q)
   })"

section \<open>Correctness\<close>

text \<open>Distinct cells of a two-dimensional memory have distinct addresses.\<close>

lemma ram_addr_inj:
  assumes "aw1 + aw2 \<le> 64" "unat i1 < 2 ^ aw1" "unat i2 < 2 ^ aw2" "unat j1 < 2 ^ aw1" "unat j2 < 2 ^ aw2"
    and eq: "ram_addr aw1 aw2 i1 i2 = ram_addr aw1 aw2 j1 j2"
  shows "i1 = j1 \<and> i2 = j2"
proof -
  have b: "unat a1 + unat a2 * 2 ^ aw1 < 2 ^ (aw1 + aw2)"
    if "unat a1 < 2 ^ aw1" "unat a2 < 2 ^ aw2" for a1 a2 :: u64
  proof -
    have "unat a1 + unat a2 * 2 ^ aw1 < (unat a2 + 1) * 2 ^ aw1" using that(1) by simp
    also have "\<dots> \<le> 2 ^ aw2 * 2 ^ aw1" using that(2) by (intro mult_right_mono) auto
    finally show ?thesis by (simp add: power_add mult.commute)
  qed
  have e: "unat i1 + unat i2 * 2 ^ aw1 = unat j1 + unat j2 * 2 ^ aw1"
    using arg_cong [OF eq, of unat] b [OF assms(2,3)] b [OF assms(4,5)]
    by (simp add: unat_ram_addr assms(1))
  have "unat i1 = unat j1"
    using arg_cong [OF e, of "\<lambda>n. n mod 2 ^ aw1"] assms(2,4) by simp
  moreover have "unat i2 = unat j2" using e calculation by simp
  ultimately show ?thesis by (simp add: word_unat_eq_iff)
qed

definition dr_inv :: "'a dist_ram \<Rightarrow> bool" where
  "dr_inv q \<longleftrightarrow> \<not> dr_bReset q \<and> \<not> dr_bRdAddr q \<and> \<not> dr_bWrAddr q \<and> \<not> dr_bWrData q"

abbreviation pair_addr :: "nat \<Rightarrow> nat \<Rightarrow> u64 \<times> u64 \<Rightarrow> u64" where
  "pair_addr aw1 aw2 i \<equiv> ram_addr aw1 aw2 (fst i) (snd i)"

text \<open>What the memories promise: the write's effect, and the two kinds of read.\<close>

definition mem_update :: "nat \<Rightarrow> nat \<Rightarrow> (u64 \<times> u64) \<times> 'a \<Rightarrow> (u64 \<Rightarrow> 'a) \<Rightarrow> u64 \<Rightarrow> 'a" where
  "mem_update aw1 aw2 w m = m(pair_addr aw1 aw2 (fst w) := snd w)"

definition async_answer ::
  "nat \<Rightarrow> nat \<Rightarrow> u64 \<times> u64 \<Rightarrow> ((u64 \<times> u64) \<times> 'a) option \<Rightarrow> (u64 \<Rightarrow> 'a) \<Rightarrow> 'a" where
  "async_answer aw1 aw2 r w m = m (pair_addr aw1 aw2 r)"

definition sync_answer ::
  "nat \<Rightarrow> nat \<Rightarrow> 'a \<Rightarrow> u64 \<times> u64 \<Rightarrow> ((u64 \<times> u64) \<times> 'a) option \<Rightarrow> (u64 \<Rightarrow> 'a) \<Rightarrow> 'a" where
  "sync_answer aw1 aw2 bad r w m =
     (if \<exists>x. w = Some x \<and> pair_addr aw1 aw2 (fst x) = pair_addr aw1 aw2 r then bad
      else m (pair_addr aw1 aw2 r))"

interpretation dr: sync_ram "dr_step aw1 aw2" dr_mem "async_answer aw1 aw2" "mem_update aw1 aw2"
  "\<lambda>_. True" "\<lambda>_. True" dr_inv for aw1 aw2
  by unfold_locales
    (auto simp: dr_step_def dr_read_addr_def dr_read_mem_def dr_write_addr_def dr_write_mem_def
      dr_clock_def dr_read_clock_def dr_write_clock_def dr_inv_def mem_update_def async_answer_def
      Let_def split: option.splits)

definition br_inv :: "'a block_ram \<Rightarrow> bool" where
  "br_inv q \<longleftrightarrow> \<not> br_bReset q \<and> \<not> br_bRdAddr q \<and> \<not> br_bWrAddr q \<and> \<not> br_bWrData q"

text \<open>The clock, member by member.\<close>

lemma br_clock_simps:
  "br_bReset (br_delta (br_clock bad False q)) = False"
  "br_bRdAddr (br_delta (br_clock bad False q)) = False"
  "br_bWrAddr (br_delta (br_clock bad False q)) = False"
  "br_bWrData (br_delta (br_clock bad False q)) = False"
  "br_mem (br_delta (br_clock bad False q)) =
     (if br_bWrData q then (br_mem q)(br_wrAddr q := br_wrData q) else br_mem q)"
  "br_doReg (br_delta (br_clock bad False q)) =
     (if sig_cur (br_r_bRdAddr q) then br_mem_out bad q else br_doReg q)"
  "br_r_bRdAddr2 (br_delta (br_clock bad False q)) = sig_cur (br_r_bRdAddr q)"
  "sig_cur (br_r_bRdAddr (br_delta (br_clock bad False q))) = br_bRdAddr q"
  "sig_cur (br_r_rdAddr (br_delta (br_clock bad False q))) = br_rdAddr q"
  "sig_cur (br_r_bWrData (br_delta (br_clock bad False q))) = br_bWrData q"
  "sig_cur (br_r_wrAddr (br_delta (br_clock bad False q))) = br_wrAddr q"
  by (simp_all add: br_delta_def br_clock_def br_read_clock_def br_write_clock_def br_mem_out_def Let_def)

text \<open>The state that a clock's requests leave for the clock edge.\<close>

definition br_requests ::
  "nat \<Rightarrow> nat \<Rightarrow> (u64 \<times> u64) option \<Rightarrow> ((u64 \<times> u64) \<times> 'a) option \<Rightarrow> 'a block_ram \<Rightarrow> 'a block_ram" where
  "br_requests aw1 aw2 r w q = q\<lparr>br_bRdAddr := r \<noteq> None,
     br_rdAddr := (case r of None \<Rightarrow> br_rdAddr q | Some a \<Rightarrow> pair_addr aw1 aw2 a),
     br_bWrAddr := w \<noteq> None, br_bWrData := w \<noteq> None,
     br_wrAddr := (case w of None \<Rightarrow> br_wrAddr q | Some b \<Rightarrow> pair_addr aw1 aw2 (fst b)),
     br_wrData := (case w of None \<Rightarrow> br_wrData q | Some b \<Rightarrow> snd b)\<rparr>"

lemma br_cycle_requests:
  assumes "br_inv q"
  shows "br_cycle aw1 aw2 bad r w q = Some (br_delta (br_clock bad False (br_requests aw1 aw2 r w q)))"
  using assms
  by (cases r; cases w)
    (auto simp: br_inv_def br_cycle_def br_read_addr_def br_write_addr_def br_write_mem_def Let_def
      br_requests_def intro!: arg_cong [of _ _ "\<lambda>q. br_delta (br_clock bad False q)"])

lemma br_cycle_ok:
  assumes "br_inv q"
  shows "\<exists>q'. br_cycle aw1 aw2 bad r w q = Some q' \<and> br_inv q' \<and>
    br_mem q' = (case w of None \<Rightarrow> br_mem q | Some w \<Rightarrow> mem_update aw1 aw2 w (br_mem q)) \<and>
    br_r_bRdAddr2 q' = sig_cur (br_r_bRdAddr q) \<and>
    (sig_cur (br_r_bRdAddr q) \<longrightarrow> br_doReg q' = br_mem_out bad q) \<and>
    sig_cur (br_r_bRdAddr q') = (r \<noteq> None) \<and>
    (\<forall>a. r = Some a \<longrightarrow> br_mem_out bad q' = sync_answer aw1 aw2 bad a w (br_mem q))"
proof -
  have "br_mem_out bad (br_delta (br_clock bad False (br_requests aw1 aw2 r w q))) =
      sync_answer aw1 aw2 bad a w (br_mem q)" if "r = Some a" for a
    using that by (cases w) (auto simp: br_mem_out_def br_clock_simps sync_answer_def br_requests_def)
  moreover have "br_mem_out bad (br_requests aw1 aw2 r w q) = br_mem_out bad q"
    by (simp add: br_mem_out_def br_requests_def)
  ultimately show ?thesis
    using br_cycle_requests [OF assms, of aw1 aw2 bad r w]
    by (cases w) (simp_all add: br_clock_simps br_inv_def mem_update_def, simp_all add: br_requests_def)
qed

interpretation br: sync_ram "br_step aw1 aw2 bad" br_mem "sync_answer aw1 aw2 bad" "mem_update aw1 aw2"
  "\<lambda>_. True" "\<lambda>_. True" br_inv for aw1 aw2 bad
proof unfold_locales
  fix s :: "'a block_ram" and r w
  assume "br_inv s"
  from br_cycle_ok [OF this, of aw1 aw2 bad r w] obtain q' where
    "br_cycle aw1 aw2 bad r w s = Some q'" "br_inv q'"
    "br_mem q' = (case w of None \<Rightarrow> br_mem s | Some w \<Rightarrow> mem_update aw1 aw2 w (br_mem s))"
    "sig_cur (br_r_bRdAddr q') = (r \<noteq> None)"
    "\<forall>a. r = Some a \<longrightarrow> br_mem_out bad q' = sync_answer aw1 aw2 bad a w (br_mem s)" by blast
  then show "\<exists>s'. br_step aw1 aw2 bad r w s =
      Some (map_option (\<lambda>r. sync_answer aw1 aw2 bad r w (br_mem s)) r, s') \<and> br_inv s' \<and>
      br_mem s' = (case w of None \<Rightarrow> br_mem s | Some w \<Rightarrow> mem_update aw1 aw2 w (br_mem s))"
    by (cases r) (simp_all add: br_step_def br_read_mem_def br_inv_def)
qed

text \<open>The banked memories: a read of any bank clashes with a write of any bank of its address.\<close>

definition mr_inv :: "'a mrd_ram \<Rightarrow> bool" where
  "mr_inv q \<longleftrightarrow> \<not> mr_bReset q \<and> \<not> mr_bRdAddr q \<and> \<not> mr_bWrAddr q \<and> \<not> mr_bWrData q"

definition mw_inv :: "'a mwr_ram \<Rightarrow> bool" where
  "mw_inv q \<longleftrightarrow> \<not> mw_bReset q \<and> \<not> mw_bRdAddr q \<and> \<not> mw_bWrAddr q \<and> \<not> mw_bWrData q"

definition sel_ok :: "nat \<Rightarrow> u64 \<Rightarrow> bool" where
  "sel_ok sw sel \<longleftrightarrow> sel < push_bit sw 1"

definition bank_update ::
  "nat \<Rightarrow> nat \<Rightarrow> (u64 \<times> u64 \<times> u64) \<times> 'a \<Rightarrow> (u64 \<Rightarrow> u64 \<Rightarrow> 'a) \<Rightarrow> u64 \<Rightarrow> u64 \<Rightarrow> 'a" where
  "bank_update aw1 aw2 w m = bank_upd (pair_addr aw1 aw2 (snd (fst w))) (fst (fst w)) (snd w) m"

definition bank_answer ::
  "nat \<Rightarrow> nat \<Rightarrow> 'a \<Rightarrow> u64 \<times> u64 \<times> u64 \<Rightarrow> ((u64 \<times> u64 \<times> u64) \<times> 'a) option \<Rightarrow> (u64 \<Rightarrow> u64 \<Rightarrow> 'a) \<Rightarrow> 'a" where
  "bank_answer aw1 aw2 bad r w m =
     (if \<exists>x. w = Some x \<and> pair_addr aw1 aw2 (snd (fst x)) = pair_addr aw1 aw2 (snd r) then bad
      else m (pair_addr aw1 aw2 (snd r)) (fst r))"

text \<open>A write to several banks: the banks that are not named get 0. An address without data is no write.\<close>

definition row_of :: "nat \<Rightarrow> (u64 \<times> 'a::zero) list \<Rightarrow> (u64 \<Rightarrow> 'a) \<Rightarrow> u64 \<Rightarrow> 'a" where
  "row_of sw ws row sel =
     (if sel_ok sw sel then case map_of (rev ws) sel of Some x \<Rightarrow> x | None \<Rightarrow> 0 else row sel)"

definition row_update ::
  "nat \<Rightarrow> nat \<Rightarrow> nat \<Rightarrow> (u64 \<times> u64) \<times> (u64 \<times> 'a::zero) list \<Rightarrow> (u64 \<Rightarrow> u64 \<Rightarrow> 'a) \<Rightarrow> u64 \<Rightarrow> u64 \<Rightarrow> 'a" where
  "row_update sw aw1 aw2 w m = (if snd w = [] then m else
     m(pair_addr aw1 aw2 (fst w) := row_of sw (snd w) (m (pair_addr aw1 aw2 (fst w)))))"

definition row_answer ::
  "nat \<Rightarrow> nat \<Rightarrow> 'a \<Rightarrow> u64 \<times> u64 \<times> u64 \<Rightarrow> ((u64 \<times> u64) \<times> (u64 \<times> 'a) list) option \<Rightarrow>
   (u64 \<Rightarrow> u64 \<Rightarrow> 'a) \<Rightarrow> 'a" where
  "row_answer aw1 aw2 bad r w m =
     (if \<exists>x. w = Some x \<and> snd x \<noteq> [] \<and> pair_addr aw1 aw2 (fst x) = pair_addr aw1 aw2 (snd r) then bad
      else m (pair_addr aw1 aw2 (snd r)) (fst r))"

lemma mr_clock_simps:
  "mr_bReset (mr_clock sw bad False q) = False"
  "mr_bRdAddr (mr_clock sw bad False q) = False"
  "mr_bWrAddr (mr_clock sw bad False q) = False"
  "mr_bWrData (mr_clock sw bad False q) = False"
  "mr_mem (mr_clock sw bad False q) =
     (if mr_bWrData q then bank_upd (mr_wrAddr q) (mr_wrSel q) (mr_wrData q) (mr_mem q) else mr_mem q)"
  "mr_r_bRdAddr (mr_clock sw bad False q) = mr_bRdAddr q"
  "mr_r_rdAddr (mr_clock sw bad False q) = mr_rdAddr q"
  "mr_r_bWrData (mr_clock sw bad False q) = mr_bWrData q"
  "mr_r_wrAddr (mr_clock sw bad False q) = mr_wrAddr q"
  "mr_r_bRdAddr2 (mr_clock sw bad False q) = mr_r_bRdAddr q"
  "mr_doReg (mr_clock sw bad False q) sel = (if mr_r_bRdAddr q \<and> sel_ok sw sel then mr_mem_out bad sel q else mr_doReg q sel)"
  by (simp_all add: mr_clock_def mr_read_clock_def mr_write_clock_def mr_mem_out_def sel_ok_def Let_def)

lemma mw_clock_simps:
  "mw_bReset (mw_clock sw bad False q) = False"
  "mw_bRdAddr (mw_clock sw bad False q) = False"
  "mw_bWrAddr (mw_clock sw bad False q) = False"
  "mw_bWrData (mw_clock sw bad False q) = False"
  "mw_mem (mw_clock sw bad False q) =
     (if mw_bWrData q then (mw_mem q)(mw_wrAddr q :=
        (\<lambda>sel. if sel_ok sw sel then mw_wrData q sel else mw_mem q (mw_wrAddr q) sel)) else mw_mem q)"
  "mw_r_bRdAddr (mw_clock sw bad False q) = mw_bRdAddr q"
  "mw_r_rdSel (mw_clock sw bad False q) = mw_rdSel q"
  "mw_r_rdAddr (mw_clock sw bad False q) = mw_rdAddr q"
  "mw_r_bWrData (mw_clock sw bad False q) = mw_bWrData q"
  "mw_r_wrAddr (mw_clock sw bad False q) = mw_wrAddr q"
  "mw_r_bRdAddr2 (mw_clock sw bad False q) = mw_r_bRdAddr q"
  "mw_doReg (mw_clock sw bad False q) = (if mw_r_bRdAddr q then mw_mem_out bad q else mw_doReg q)"
  by (simp_all add: mw_clock_def mw_read_clock_def mw_write_clock_def mw_mem_out_def Let_def sel_ok_def cong: if_cong)

text \<open>A clock of the memory, with what it leaves for the reads.\<close>

lemma mr_cycle_ok:
  assumes s: "mr_inv s" and ok: "pred_option (\<lambda>w. sel_ok sw (fst (fst w))) w"
  shows "\<exists>q. mr_cycle sw aw1 aw2 bad (map_option snd r) w s = Some q \<and> mr_inv q \<and>
    mr_mem q = (case w of None \<Rightarrow> mr_mem s | Some w \<Rightarrow> bank_update aw1 aw2 w (mr_mem s)) \<and>
    mr_r_bRdAddr q = (r \<noteq> None) \<and> mr_r_bRdAddr2 q = mr_r_bRdAddr s \<and>
    (\<forall>sel. mr_r_bRdAddr s \<and> sel_ok sw sel \<longrightarrow> mr_doReg q sel = mr_mem_out bad sel s) \<and>
    (\<forall>a. r = Some a \<longrightarrow> mr_mem_out bad (fst a) q = bank_answer aw1 aw2 bad a w (mr_mem s))"
proof -
  define q1 where "q1 = (let q = (case r of None \<Rightarrow> s | Some a \<Rightarrow>
      s\<lparr>mr_bRdAddr := True, mr_rdAddr := pair_addr aw1 aw2 (snd a)\<rparr>)
    in case w of None \<Rightarrow> q | Some b \<Rightarrow>
      q\<lparr>mr_wrAddr := pair_addr aw1 aw2 (snd (fst b)), mr_wrSel := fst (fst b), mr_bWrAddr := True,
        mr_bWrData := True, mr_wrData := snd b\<rparr>)"
  have c: "mr_cycle sw aw1 aw2 bad (map_option snd r) w s = Some (mr_clock sw bad False q1)"
    using s ok by (cases r; cases w)
      (auto simp: mr_inv_def mr_cycle_def mr_read_addr_def mr_write_addr_def mr_write_mem_def Let_def q1_def sel_ok_def)
  have q1: "mr_bRdAddr q1 = (r \<noteq> None)" "\<And>a. r = Some a \<Longrightarrow> mr_rdAddr q1 = pair_addr aw1 aw2 (snd a)"
    "mr_bWrData q1 = (w \<noteq> None)" "mr_mem q1 = mr_mem s" "mr_r_bRdAddr q1 = mr_r_bRdAddr s"
    "\<And>b. w = Some b \<Longrightarrow> mr_wrAddr q1 = pair_addr aw1 aw2 (snd (fst b)) \<and> mr_wrSel q1 = fst (fst b) \<and> mr_wrData q1 = snd b"
    using s by (cases r; cases w; simp add: q1_def Let_def mr_inv_def)+
  have "mr_mem_out bad sel q1 = mr_mem_out bad sel s" for sel
    by (cases r; cases w) (simp_all add: mr_mem_out_def q1_def Let_def)
  moreover have "mr_mem_out bad (fst a) (mr_clock sw bad False q1) = bank_answer aw1 aw2 bad a w (mr_mem s)" if "r = Some a" for a
    using that q1 by (cases w) (auto simp: mr_mem_out_def mr_clock_simps bank_answer_def bank_upd_def)
  ultimately show ?thesis
    using c q1 by (cases w; cases r) (simp_all add: mr_clock_simps mr_inv_def bank_update_def)
qed

interpretation mr: sync_ram "mr_step sw aw1 aw2 bad" mr_mem "bank_answer aw1 aw2 bad" "bank_update aw1 aw2"
  "\<lambda>r. sel_ok sw (fst r)" "\<lambda>w. sel_ok sw (fst (fst w))" mr_inv for sw aw1 aw2 bad
proof unfold_locales
  fix s :: "'a mrd_ram" and r :: "(u64 \<times> u64 \<times> u64) option" and w :: "((u64 \<times> u64 \<times> u64) \<times> 'a) option"
  assume s: "mr_inv s" and ok: "pred_option (\<lambda>r. sel_ok sw (fst r)) r" "pred_option (\<lambda>w. sel_ok sw (fst (fst w))) w"
  show "\<exists>s'. mr_step sw aw1 aw2 bad r w s =
      Some (map_option (\<lambda>r. bank_answer aw1 aw2 bad r w (mr_mem s)) r, s') \<and> mr_inv s' \<and>
      mr_mem s' = (case w of None \<Rightarrow> mr_mem s | Some w \<Rightarrow> bank_update aw1 aw2 w (mr_mem s))"
    using mr_cycle_ok [OF s ok(2), of aw1 aw2 bad r] ok(1)
    by (cases r) (auto simp: mr_step_def mr_read_mem_def mr_inv_def sel_ok_def)
qed

interpretation mr_reg: registered_ram "mr_reg_step sw aw1 aw2 bad" mr_mem "bank_answer aw1 aw2 bad" "bank_update aw1 aw2"
  "\<lambda>r. sel_ok sw (fst r)" "\<lambda>w. sel_ok sw (fst (fst w))" mr_inv "\<lambda>a. mr_mem_out bad (fst a)" "\<lambda>_. mr_r_bRdAddr" for sw aw1 aw2 bad
proof unfold_locales
  fix s :: "'a mrd_ram" and p r :: "(u64 \<times> u64 \<times> u64) option" and w :: "((u64 \<times> u64 \<times> u64) \<times> 'a) option"
  assume s: "mr_inv s" and p: "pred_option (\<lambda>a. sel_ok sw (fst a) \<and> mr_r_bRdAddr s) p" and ok: "pred_option (\<lambda>w. sel_ok sw (fst (fst w))) w"
  show "\<exists>s'. mr_reg_step sw aw1 aw2 bad r w (p, s) = Some (map_option (\<lambda>a. mr_mem_out bad (fst a) s) p, r, s') \<and> mr_inv s' \<and>
      mr_mem s' = (case w of None \<Rightarrow> mr_mem s | Some w \<Rightarrow> bank_update aw1 aw2 w (mr_mem s)) \<and>
      pred_option (\<lambda>a. mr_r_bRdAddr s' \<and> mr_mem_out bad (fst a) s' = bank_answer aw1 aw2 bad a w (mr_mem s)) r"
    using mr_cycle_ok [OF s ok, of aw1 aw2 bad r] p
    by (cases p; cases r) (auto simp: mr_reg_step_def mr_read_mem_def mr_inv_def sel_ok_def)
qed

lemma mw_write_banks_ok:
  assumes "\<not> mw_bReset q" "mw_bWrAddr q" "\<forall>w \<in> set ws. sel_ok sw (fst w)"
  shows "mw_write_banks sw ws q = Some (q\<lparr>mw_bWrData := mw_bWrData q \<or> ws \<noteq> [],
    mw_wrData := (\<lambda>sel. case map_of (rev ws) sel of Some x \<Rightarrow> x | None \<Rightarrow> mw_wrData q sel)\<rparr>)"
  using assms
proof (induction ws arbitrary: q)
  case (Cons w ws)
  obtain sel x where w: "w = (sel, x)" by (cases w)
  let ?q = "q\<lparr>mw_bWrData := True, mw_wrData := (mw_wrData q)(sel := x)\<rparr>"
  have "mw_write_mem sw sel x q = Some ?q"
    using Cons.prems by (simp add: w mw_write_mem_def sel_ok_def)
  moreover have "mw_write_banks sw ws ?q = Some (?q\<lparr>mw_bWrData := True,
    mw_wrData := (\<lambda>s. case map_of (rev ws) s of Some x \<Rightarrow> x | None \<Rightarrow> ((mw_wrData q)(sel := x)) s)\<rparr>)"
    using Cons.IH [of ?q] Cons.prems by (simp cong: option.case_cong)
  ultimately show ?case
    by (auto simp: w map_add_def intro!: mwr_ram.equality split: option.splits)
qed (simp)

lemma mw_cycle_ok:
  fixes s :: "'a::zero mwr_ram"
  assumes s: "mw_inv s" and ok: "pred_option (\<lambda>r. sel_ok sw (fst r)) r" "pred_option (\<lambda>w. \<forall>x \<in> set (snd w). sel_ok sw (fst x)) w"
  shows "\<exists>q. mw_cycle sw aw1 aw2 bad r w s = Some q \<and> mw_inv q \<and>
    mw_mem q = (case w of None \<Rightarrow> mw_mem s | Some w \<Rightarrow> row_update sw aw1 aw2 w (mw_mem s)) \<and>
    mw_r_bRdAddr q = (r \<noteq> None) \<and> mw_r_bRdAddr2 q = mw_r_bRdAddr s \<and>
    (mw_r_bRdAddr s \<longrightarrow> mw_doReg q = mw_mem_out bad s) \<and>
    (\<forall>a. r = Some a \<longrightarrow> mw_mem_out bad q = row_answer aw1 aw2 bad a w (mw_mem s))"
proof -
  define q0 where "q0 = (case r of None \<Rightarrow> s | Some a \<Rightarrow>
      s\<lparr>mw_bRdAddr := True, mw_rdSel := fst a, mw_rdAddr := pair_addr aw1 aw2 (snd a)\<rparr>)"
  define q1 where "q1 = (case w of None \<Rightarrow> q0 | Some b \<Rightarrow>
      q0\<lparr>mw_wrAddr := pair_addr aw1 aw2 (fst b), mw_bWrAddr := True, mw_bWrData := snd b \<noteq> [],
        mw_wrData := (\<lambda>sel. case map_of (rev (snd b)) sel of Some x \<Rightarrow> x
          | None \<Rightarrow> if sel_ok sw sel then 0 else mw_wrData q0 sel)\<rparr>)"
  have q0: "\<not> mw_bReset q0" "\<not> mw_bWrAddr q0" "\<not> mw_bWrData q0" "mw_mem q0 = mw_mem s" "mw_bRdAddr q0 = (r \<noteq> None)"
    "mw_r_bRdAddr q0 = mw_r_bRdAddr s" "mw_mem_out bad q0 = mw_mem_out bad s"
    "\<And>a. r = Some a \<Longrightarrow> mw_rdAddr q0 = pair_addr aw1 aw2 (snd a) \<and> mw_rdSel q0 = fst a"
    using s by (cases r; simp add: q0_def mw_inv_def mw_mem_out_def)+
  have "(case r of None \<Rightarrow> Some s | Some (sel, i1, i2) \<Rightarrow> mw_read_addr sw aw1 aw2 sel i1 i2 s) = Some q0"
    using s ok by (cases r) (auto simp: mw_inv_def mw_read_addr_def q0_def sel_ok_def)
  moreover have "(case w of None \<Rightarrow> Some q0 | Some ((i1, i2), ws) \<Rightarrow> do {
      q \<leftarrow> mw_write_addr sw aw1 aw2 i1 i2 q0; mw_write_banks sw ws q }) = Some q1"
    using q0 ok by (cases w)
      (auto simp: mw_write_addr_def Let_def mw_write_banks_ok q1_def sel_ok_def cong: if_cong option.case_cong)
  ultimately have c: "mw_cycle sw aw1 aw2 bad r w s = Some (mw_clock sw bad False q1)"
    by (simp add: mw_cycle_def)
  have q1: "mw_bRdAddr q1 = (r \<noteq> None)" "mw_bWrData q1 = (\<exists>b. w = Some b \<and> snd b \<noteq> [])" "mw_mem q1 = mw_mem s"
    "mw_r_bRdAddr q1 = mw_r_bRdAddr s" "mw_mem_out bad q1 = mw_mem_out bad s"
    "\<And>a. r = Some a \<Longrightarrow> mw_rdAddr q1 = pair_addr aw1 aw2 (snd a) \<and> mw_rdSel q1 = fst a"
    "\<And>b. w = Some b \<Longrightarrow> mw_wrAddr q1 = pair_addr aw1 aw2 (fst b) \<and>
      (\<lambda>sel. if sel_ok sw sel then mw_wrData q1 sel else mw_mem s (mw_wrAddr q1) sel) =
        row_of sw (snd b) (mw_mem s (pair_addr aw1 aw2 (fst b)))"
    using q0 by (cases w; auto simp: q1_def row_of_def mw_mem_out_def split: option.splits)+
  have "mw_mem_out bad (mw_clock sw bad False q1) = row_answer aw1 aw2 bad a w (mw_mem s)" if "r = Some a" for a
    using that q1 by (cases w) (auto simp: mw_mem_out_def mw_clock_simps row_answer_def)
  then show ?thesis
    using c q1 by (cases w) (auto simp: mw_clock_simps mw_inv_def row_update_def cong: if_cong)
qed

interpretation mw: sync_ram "mw_step sw aw1 aw2 bad" mw_mem "row_answer aw1 aw2 bad" "row_update sw aw1 aw2"
  "\<lambda>r. sel_ok sw (fst r)" "\<lambda>w. \<forall>x \<in> set (snd w). sel_ok sw (fst x)" mw_inv
  for sw aw1 aw2 bad
proof unfold_locales
  fix s :: "'a mwr_ram" and r :: "(u64 \<times> u64 \<times> u64) option" and w :: "((u64 \<times> u64) \<times> (u64 \<times> 'a) list) option"
  assume s: "mw_inv s" and ok: "pred_option (\<lambda>r. sel_ok sw (fst r)) r" "pred_option (\<lambda>w. \<forall>x \<in> set (snd w). sel_ok sw (fst x)) w"
  show "\<exists>s'. mw_step sw aw1 aw2 bad r w s =
      Some (map_option (\<lambda>r. row_answer aw1 aw2 bad r w (mw_mem s)) r, s') \<and> mw_inv s' \<and>
      mw_mem s' = (case w of None \<Rightarrow> mw_mem s | Some w \<Rightarrow> row_update sw aw1 aw2 w (mw_mem s))"
    using mw_cycle_ok [OF s ok, of aw1 aw2 bad]
    by (cases r) (auto simp: mw_step_def mw_read_mem_def mw_inv_def)
qed

interpretation mw_reg: registered_ram "mw_reg_step sw aw1 aw2 bad" mw_mem "row_answer aw1 aw2 bad" "row_update sw aw1 aw2"
  "\<lambda>r. sel_ok sw (fst r)" "\<lambda>w. \<forall>x \<in> set (snd w). sel_ok sw (fst x)" mw_inv "\<lambda>_. mw_mem_out bad" "\<lambda>_. mw_r_bRdAddr"
  for sw aw1 aw2 bad
proof unfold_locales
  fix s :: "'a mwr_ram" and p r :: "(u64 \<times> u64 \<times> u64) option" and w :: "((u64 \<times> u64) \<times> (u64 \<times> 'a) list) option"
  assume s: "mw_inv s" and p: "pred_option (\<lambda>a. sel_ok sw (fst a) \<and> mw_r_bRdAddr s) p" and
    ok: "pred_option (\<lambda>r. sel_ok sw (fst r)) r" "pred_option (\<lambda>w. \<forall>x \<in> set (snd w). sel_ok sw (fst x)) w"
  show "\<exists>s'. mw_reg_step sw aw1 aw2 bad r w (p, s) = Some (map_option (\<lambda>_. mw_mem_out bad s) p, r, s') \<and> mw_inv s' \<and>
      mw_mem s' = (case w of None \<Rightarrow> mw_mem s | Some w \<Rightarrow> row_update sw aw1 aw2 w (mw_mem s)) \<and>
      pred_option (\<lambda>a. mw_r_bRdAddr s' \<and> mw_mem_out bad s' = row_answer aw1 aw2 bad a w (mw_mem s)) r"
    using mw_cycle_ok [OF s ok, of aw1 aw2 bad] p
    by (cases p; cases r) (auto simp: mw_reg_step_def mw_read_mem_def mw_inv_def)
qed

section \<open>Properties\<close>

text \<open>Small memories out of reset, for the examples.\<close>

definition dr_example :: "nat dist_ram" where
  "dr_example = \<lparr>dr_bReset = False, dr_mem = (\<lambda>a. unat a), dr_bRdAddr = False, dr_rdAddr = 0, dr_bWrAddr = False,
     dr_bWrData = False, dr_wrData = 0, dr_wrAddr = 0\<rparr>"

definition br_example :: "nat block_ram" where
  "br_example = \<lparr>br_bReset = False, br_mem = (\<lambda>a. unat a), br_doReg = 0, br_bRdAddr = False, br_rdAddr = 0,
     br_r_bRdAddr = \<lparr>sig_cur = False, sig_new = False\<rparr>, br_r_bRdAddr2 = False,
     br_r_rdAddr = \<lparr>sig_cur = 0, sig_new = 0\<rparr>, br_bWrData = False,
     br_r_bWrData = \<lparr>sig_cur = False, sig_new = False\<rparr>, br_bWrAddr = False, br_wrData = 0, br_wrAddr = 0,
     br_r_wrAddr = \<lparr>sig_cur = 0, sig_new = 0\<rparr>\<rparr>"

definition mr_example :: "nat mrd_ram" where
  "mr_example = \<lparr>mr_bReset = True, mr_mem = (\<lambda>a sel. unat a), mr_doReg = (\<lambda>_. 0), mr_bRdAddr = False, mr_rdAddr = 0,
     mr_r_bRdAddr = False, mr_r_bRdAddr2 = False, mr_r_rdAddr = 0, mr_bWrData = False, mr_r_bWrData = False,
     mr_bWrAddr = False, mr_wrData = 0, mr_wrAddr = 0, mr_wrSel = 0, mr_r_wrAddr = 0\<rparr>"

definition mw_example :: "nat mwr_ram" where
  "mw_example = \<lparr>mw_bReset = True, mw_mem = (\<lambda>a sel. unat a), mw_doReg = 0, mw_bRdAddr = False, mw_rdSel = 0,
     mw_rdAddr = 0, mw_r_bRdAddr = False, mw_r_bRdAddr2 = False, mw_r_rdSel = 0, mw_r_rdAddr = 0,
     mw_bWrData = False, mw_r_bWrData = False, mw_bWrAddr = False, mw_wrData = (\<lambda>_. 0), mw_wrAddr = 0,
     mw_r_wrAddr = 0\<rparr>"

text \<open>
  The address of the cell \<open>(i1, i2)\<close> of a two-dimensional memory lies inside the array, and
  two cells inside the declared dimensions have the same address only if they are the same.
\<close>

theorem ram_cells:
  assumes "aw1 + aw2 < 31"
  shows "unat (ram_addr aw1 aw2 i1 i2) < 2 ^ (aw1 + aw2) \<and>
    (unat i1 < 2 ^ aw1 \<longrightarrow> unat i2 < 2 ^ aw2 \<longrightarrow> unat j1 < 2 ^ aw1 \<longrightarrow> unat j2 < 2 ^ aw2 \<longrightarrow>
      ram_addr aw1 aw2 i1 i2 = ram_addr aw1 aw2 j1 j2 \<longrightarrow> i1 = j1 \<and> i2 = j2)"
  using assms ram_addr_bound [of aw1 aw2 i1 i2] ram_addr_inj [of aw1 aw2 i1 i2 j1 j2] by auto

theorem ram_cells_witness:
  "unat (ram_addr 3 2 5 1) < 2 ^ (3 + 2) \<and> \<not> (ram_addr 3 2 5 1 = ram_addr 3 2 5 2)"
  using ram_cells [of 3 2 5 1 5 2] by auto

text \<open>
  C32: A distributed RAM, once out of reset, answers any sequence of clocks, each with an optional
  read and an optional write, as the abstract memory does: a read gets the content before the
  clock's write, and every write and only the writes change the content.
\<close>

theorem dist_ram_refines:
  "\<exists>q0 q. dr_clock False (dr_new raw) = Some q0 \<and>
    ram_run (dr_step aw1 aw2) ops q0 =
      Some (fst (mem_run (async_answer aw1 aw2) (mem_update aw1 aw2) ops (dr_mem raw)), q) \<and>
    dr_mem q = snd (mem_run (async_answer aw1 aw2) (mem_update aw1 aw2) ops (dr_mem raw))"
proof -
  let ?q0 = "(dr_new raw)\<lparr>dr_bReset := False\<rparr>"
  have "dr_clock False (dr_new raw) = Some ?q0" "dr_inv ?q0" "dr_mem ?q0 = dr_mem raw"
    by (simp_all add: dr_clock_def dr_read_clock_def dr_write_clock_def dr_new_def dr_inv_def)
  then show ?thesis using dr.run_refines [of ?q0 ops aw1 aw2] by (auto simp: option.pred_True)
qed

text \<open>
  C33: A block RAM without output register answers any sequence of clocks as the abstract memory
  does, the data of a read being delivered in the next clock: the content before the clock's
  write, or bad data when the clock wrote the same address.
\<close>

theorem block_ram_refines:
  "\<exists>q. ram_run (br_step aw1 aw2 bad) ops (br_delta (br_clock bad False (br_new raw))) =
      Some (fst (mem_run (sync_answer aw1 aw2 bad) (mem_update aw1 aw2) ops (br_mem raw)), q) \<and>
    br_mem q = snd (mem_run (sync_answer aw1 aw2 bad) (mem_update aw1 aw2) ops (br_mem raw))"
proof -
  let ?q0 = "br_delta (br_clock bad False (br_new raw))"
  have "br_inv ?q0" "br_mem ?q0 = br_mem raw"
    by (simp_all add: br_clock_simps br_inv_def br_new_def)
  then show ?thesis using br.run_refines [of ?q0 ops aw1 aw2 bad] by (auto simp: option.pred_True)
qed

text \<open>
  With the output register the data of a read is delivered one clock later still: it is the
  answer for the clock of the read, whatever the clock in between reads or writes.
\<close>

theorem block_ram_output_register:
  assumes "br_inv q"
  shows "\<exists>q1 q2. br_cycle aw1 aw2 bad (Some a) w q = Some q1 \<and> br_cycle aw1 aw2 bad r2 w2 q1 = Some q2 \<and>
    br_read_mem True bad q2 = Some (sync_answer aw1 aw2 bad a w (br_mem q))"
proof -
  obtain q1 where q1: "br_cycle aw1 aw2 bad (Some a) w q = Some q1" "br_inv q1"
    "sig_cur (br_r_bRdAddr q1)" "br_mem_out bad q1 = sync_answer aw1 aw2 bad a w (br_mem q)"
    using br_cycle_ok [OF assms, of aw1 aw2 bad "Some a" w] by auto
  obtain q2 where "br_cycle aw1 aw2 bad r2 w2 q1 = Some q2" "br_inv q2"
    "br_r_bRdAddr2 q2" "br_doReg q2 = br_mem_out bad q1"
    using br_cycle_ok [OF q1(2), of aw1 aw2 bad r2 w2] q1(3) by auto
  with q1 show ?thesis by (simp add: br_read_mem_def br_inv_def)
qed

theorem block_ram_output_register_witness:
  "\<exists>q1 q2. br_cycle 4 0 99 (Some (3, 0)) (Some ((3, 0), 7)) br_example = Some q1 \<and>
    br_cycle 4 0 99 None None q1 = Some q2 \<and>
    br_read_mem True 99 q2 = Some (sync_answer 4 0 99 (3, 0) (Some ((3, 0), 7)) (br_mem br_example))"
  by (rule block_ram_output_register) (simp add: br_example_def br_inv_def)

text \<open>
  C34: A banked RAM written bank by bank (\<^verbatim>\<open>ht_mrd_block_ram\<close>) answers any sequence of clocks with
  selectors in range, which the code asserts, as the abstract memory of rows does; a read of any bank of the address
  being written gets bad data. With the output register every answer comes one clock later, and the last one is not
  seen yet.
\<close>

theorem mrd_ram_refines:
  assumes "\<forall>(r, w) \<in> set ops. pred_option (\<lambda>r. sel_ok sw (fst r)) r \<and> pred_option (\<lambda>w. sel_ok sw (fst (fst w))) w"
  shows "\<exists>q. ram_run (mr_step sw aw1 aw2 bad) ops (mr_clock sw bad False (mr_new raw)) =
      Some (fst (mem_run (bank_answer aw1 aw2 bad) (bank_update aw1 aw2) ops (mr_mem raw)), q) \<and>
    mr_mem q = snd (mem_run (bank_answer aw1 aw2 bad) (bank_update aw1 aw2) ops (mr_mem raw)) \<and>
   (\<exists>p q'. ram_run (mr_reg_step sw aw1 aw2 bad) ops (None, mr_clock sw bad False (mr_new raw)) =
      Some (butlast (None # fst (mem_run (bank_answer aw1 aw2 bad) (bank_update aw1 aw2) ops (mr_mem raw))), (p, q')) \<and>
    mr_mem q' = snd (mem_run (bank_answer aw1 aw2 bad) (bank_update aw1 aw2) ops (mr_mem raw)))"
proof -
  let ?q0 = "mr_clock sw bad False (mr_new raw)"
  have q0: "mr_inv ?q0" "mr_mem ?q0 = mr_mem raw"
    by (simp_all add: mr_clock_simps mr_inv_def mr_new_def)
  then have "\<exists>q. ram_run (mr_step sw aw1 aw2 bad) ops ?q0 =
      Some (fst (mem_run (bank_answer aw1 aw2 bad) (bank_update aw1 aw2) ops (mr_mem raw)), q) \<and>
    mr_mem q = snd (mem_run (bank_answer aw1 aw2 bad) (bank_update aw1 aw2) ops (mr_mem raw))"
    using mr.run_refines [of ?q0 ops sw aw1 aw2 bad] assms by auto
  moreover have "\<exists>p q. ram_run (mr_reg_step sw aw1 aw2 bad) ops (None, ?q0) =
      Some (butlast (None # fst (mem_run (bank_answer aw1 aw2 bad) (bank_update aw1 aw2) ops (mr_mem raw))), (p, q)) \<and>
    mr_mem q = snd (mem_run (bank_answer aw1 aw2 bad) (bank_update aw1 aw2) ops (mr_mem raw))"
    using mr_reg.reg_run_refines [of ?q0 sw None ops aw1 aw2 bad] q0 assms by auto
  ultimately show ?thesis by blast
qed

theorem mrd_ram_refines_witness:
  "\<exists>p q. ram_run (mr_reg_step 1 2 0 9) [(None, Some ((1, 3, 0), 7)), (Some (1, 3, 0), None), (None, None)] (None, mr_clock 1 9 False (mr_new mr_example)) =
      Some ([None, None, Some 7], (p, q))"
  using mrd_ram_refines [of "[(None, Some ((1, 3, 0), 7)), (Some (1, 3, 0), None), (None, None)]" 1 2 0 9 mr_example]
  by (auto simp: sel_ok_def bank_answer_def bank_update_def bank_upd_def)

text \<open>
  C35: A banked RAM written row by row (\<^verbatim>\<open>ht_mwr_block_ram\<close>) answers any sequence of clocks with
  selectors in range, which the code asserts, as the abstract memory of rows does, where a write replaces the whole row:
  the banks it does not name become 0, and an address without data changes nothing. With the output register every
  answer comes one clock later, and the last one is not seen yet.
\<close>

theorem mwr_ram_refines:
  assumes "\<forall>(r, w) \<in> set ops. pred_option (\<lambda>r. sel_ok sw (fst r)) r \<and>
    pred_option (\<lambda>w. \<forall>x \<in> set (snd w). sel_ok sw (fst x)) w"
  shows "\<exists>q. ram_run (mw_step sw aw1 aw2 bad) ops (mw_clock sw bad False (mw_new raw)) =
      Some (fst (mem_run (row_answer aw1 aw2 bad) (row_update sw aw1 aw2) ops (mw_mem raw)), q) \<and>
    mw_mem q = snd (mem_run (row_answer aw1 aw2 bad) (row_update sw aw1 aw2) ops (mw_mem raw)) \<and>
   (\<exists>p q'. ram_run (mw_reg_step sw aw1 aw2 bad) ops (None, mw_clock sw bad False (mw_new raw)) =
      Some (butlast (None # fst (mem_run (row_answer aw1 aw2 bad) (row_update sw aw1 aw2) ops (mw_mem raw))), (p, q')) \<and>
    mw_mem q' = snd (mem_run (row_answer aw1 aw2 bad) (row_update sw aw1 aw2) ops (mw_mem raw)))"
proof -
  let ?q0 = "mw_clock sw bad False (mw_new raw)"
  have q0: "mw_inv ?q0" "mw_mem ?q0 = mw_mem raw"
    by (simp_all add: mw_clock_simps mw_inv_def mw_new_def)
  then have "\<exists>q. ram_run (mw_step sw aw1 aw2 bad) ops ?q0 =
      Some (fst (mem_run (row_answer aw1 aw2 bad) (row_update sw aw1 aw2) ops (mw_mem raw)), q) \<and>
    mw_mem q = snd (mem_run (row_answer aw1 aw2 bad) (row_update sw aw1 aw2) ops (mw_mem raw))"
    using mw.run_refines [of ?q0 ops sw aw1 aw2 bad] assms by auto
  moreover have "\<exists>p q. ram_run (mw_reg_step sw aw1 aw2 bad) ops (None, ?q0) =
      Some (butlast (None # fst (mem_run (row_answer aw1 aw2 bad) (row_update sw aw1 aw2) ops (mw_mem raw))), (p, q)) \<and>
    mw_mem q = snd (mem_run (row_answer aw1 aw2 bad) (row_update sw aw1 aw2) ops (mw_mem raw))"
    using mw_reg.reg_run_refines [of ?q0 sw None ops aw1 aw2 bad] q0 assms by auto
  ultimately show ?thesis by blast
qed

theorem mwr_ram_refines_witness:
  "\<exists>p q. ram_run (mw_reg_step 1 2 0 9) [(None, Some ((3, 0), [(1, 7)])), (Some (0, 3, 0), None), (None, None)] (None, mw_clock 1 9 False (mw_new mw_example)) =
      Some ([None, None, Some 0], (p, q))"
  using mwr_ram_refines [of "[(None, Some ((3, 0), [(1, 7)])), (Some (0, 3, 0), None), (None, None)]" 1 2 0 9 mw_example]
  by (auto simp: sel_ok_def row_answer_def row_update_def row_of_def)

text \<open>
  Writing a field through the reference that \<^verbatim>\<open>write_mem()\<close> returns stores the changed word in
  a distributed RAM at the clock, but changes nothing in a block RAM: the reference form does
  not set the flag the clock tests.
\<close>

theorem write_mem_reference:
  assumes "dr_inv d" "br_inv b"
  shows "do { d1 \<leftarrow> dr_write_addr aw1 aw2 i1 i2 d; d2 \<leftarrow> dr_clock False (dr_write_mem_ref f d1); Some (dr_mem d2) } =
      Some ((dr_mem d)(ram_addr aw1 aw2 i1 i2 := f (dr_mem d (ram_addr aw1 aw2 i1 i2)))) \<and>
    do { b1 \<leftarrow> br_write_addr aw1 aw2 i1 i2 b; b2 \<leftarrow> br_write_mem_ref f b1; Some (br_mem (br_delta (br_clock bad False b2))) } =
      Some (br_mem b)"
  using assms
  by (simp add: dr_inv_def br_inv_def dr_write_addr_def dr_write_mem_ref_def dr_clock_def dr_read_clock_def
      dr_write_clock_def br_write_addr_def br_write_mem_ref_def br_clock_simps Let_def)

theorem write_mem_reference_witness:
  "do { d1 \<leftarrow> dr_write_addr 2 0 1 0 dr_example; d2 \<leftarrow> dr_clock False (dr_write_mem_ref (\<lambda>x. x + 1) d1); Some (dr_mem d2) } =
      Some ((dr_mem dr_example)(ram_addr 2 0 1 0 := dr_mem dr_example (ram_addr 2 0 1 0) + 1)) \<and>
    do { b1 \<leftarrow> br_write_addr 2 0 1 0 br_example; b2 \<leftarrow> br_write_mem_ref (\<lambda>x. x + 1) b1; Some (br_mem (br_delta (br_clock 9 False b2))) } =
      Some (br_mem br_example)"
  by (rule write_mem_reference) (simp_all add: dr_inv_def dr_example_def br_inv_def br_example_def)

end
