(* ===== verification/SyscUltra.thy ===== *)
theory SyscUltra
  imports SyscQueues SyscRams
begin

text \<open>
  The classes of \<^verbatim>\<open>HtMemTypes.h\<close> for ultra RAMs. The text of each is the text of the class for block RAMs but for its name, so each operation is that of
  the block RAM's model; what \<open>SyscQueues\<close> and \<open>SyscRams\<close> show of the one holds of the other.
\<close>

section \<open>\<^verbatim>\<open>ht_ultra_que\<close>\<close>

type_synonym 'a ultra_que = "'a block_que"

definition uq_new :: "nat \<Rightarrow> (nat \<Rightarrow> 'a) \<Rightarrow> 'a \<Rightarrow> nat \<Rightarrow> nat \<Rightarrow> 'a ultra_que option" where "uq_new = bq_new"
definition uq_size :: "nat \<Rightarrow> 'a ultra_que \<Rightarrow> nat" where "uq_size = bq_size"
definition uq_empty :: "'a ultra_que \<Rightarrow> bool" where "uq_empty = bq_empty"
definition uq_full :: "nat \<Rightarrow> nat \<Rightarrow> 'a ultra_que \<Rightarrow> bool" where "uq_full = bq_full"
definition uq_front :: "nat \<Rightarrow> 'a ultra_que \<Rightarrow> 'a" where "uq_front = bq_front"
definition uq_EntryIgnore :: "nat \<Rightarrow> 'a ultra_que \<Rightarrow> 'a" where "uq_EntryIgnore = bq_EntryIgnore"
definition uq_pop :: "'a ultra_que \<Rightarrow> 'a ultra_que option" where "uq_pop = bq_pop"
definition uq_push :: "nat \<Rightarrow> 'a \<Rightarrow> 'a ultra_que \<Rightarrow> 'a ultra_que option" where "uq_push = bq_push"
definition uq_clock :: "nat \<Rightarrow> bool \<Rightarrow> 'a ultra_que \<Rightarrow> 'a ultra_que option" where "uq_clock = bq_clock"
definition uq_push_clock :: "nat \<Rightarrow> bool \<Rightarrow> 'a ultra_que \<Rightarrow> 'a ultra_que" where "uq_push_clock = bq_push_clock"
definition uq_pop_clock :: "nat \<Rightarrow> bool \<Rightarrow> 'a ultra_que \<Rightarrow> 'a ultra_que option" where "uq_pop_clock = bq_pop_clock"
definition uq_read_addr :: "nat \<Rightarrow> 'a ultra_que \<Rightarrow> nat" where "uq_read_addr = bq_read_addr"
definition uq_write_addr :: "nat \<Rightarrow> 'a ultra_que \<Rightarrow> nat" where "uq_write_addr = bq_write_addr"
definition uq_capacity :: "nat \<Rightarrow> nat" where "uq_capacity = bq_capacity"

section \<open>\<^verbatim>\<open>ht_ultra_ram\<close>\<close>

type_synonym 'a ultra_ram = "'a block_ram"

definition ur_new :: "'a ultra_ram \<Rightarrow> 'a ultra_ram" where "ur_new = br_new"
definition ur_RdAddrIgnore :: "nat \<Rightarrow> nat \<Rightarrow> u64 \<Rightarrow> u64 \<Rightarrow> 'a ultra_ram \<Rightarrow> 'a ultra_ram" where "ur_RdAddrIgnore = br_RdAddrIgnore"
definition ur_read_addr :: "nat \<Rightarrow> nat \<Rightarrow> u64 \<Rightarrow> u64 \<Rightarrow> 'a ultra_ram \<Rightarrow> 'a ultra_ram option" where "ur_read_addr = br_read_addr"
definition ur_write_addr :: "nat \<Rightarrow> nat \<Rightarrow> u64 \<Rightarrow> u64 \<Rightarrow> 'a ultra_ram \<Rightarrow> 'a ultra_ram option" where "ur_write_addr = br_write_addr"
definition ur_read_mem_debug :: "nat \<Rightarrow> nat \<Rightarrow> u64 \<Rightarrow> u64 \<Rightarrow> 'a ultra_ram \<Rightarrow> 'a" where "ur_read_mem_debug = br_read_mem_debug"
definition ur_mem_out :: "'a \<Rightarrow> 'a ultra_ram \<Rightarrow> 'a" where "ur_mem_out = br_mem_out"
definition ur_read_mem :: "bool \<Rightarrow> 'a \<Rightarrow> 'a ultra_ram \<Rightarrow> 'a option" where "ur_read_mem = br_read_mem"
definition ur_write_mem_ref :: "('a \<Rightarrow> 'a) \<Rightarrow> 'a ultra_ram \<Rightarrow> 'a ultra_ram option" where "ur_write_mem_ref = br_write_mem_ref"
definition ur_write_mem :: "'a \<Rightarrow> 'a ultra_ram \<Rightarrow> 'a ultra_ram option" where "ur_write_mem = br_write_mem"
definition ur_write_mem_debug :: "nat \<Rightarrow> nat \<Rightarrow> u64 \<Rightarrow> u64 \<Rightarrow> 'a \<Rightarrow> 'a ultra_ram \<Rightarrow> 'a ultra_ram" where "ur_write_mem_debug = br_write_mem_debug"
definition ur_read_clock :: "'a \<Rightarrow> bool \<Rightarrow> 'a ultra_ram \<Rightarrow> 'a ultra_ram" where "ur_read_clock = br_read_clock"
definition ur_write_clock :: "bool \<Rightarrow> 'a ultra_ram \<Rightarrow> 'a ultra_ram" where "ur_write_clock = br_write_clock"
definition ur_clock :: "'a \<Rightarrow> bool \<Rightarrow> 'a ultra_ram \<Rightarrow> 'a ultra_ram" where "ur_clock = br_clock"

section \<open>\<^verbatim>\<open>ht_mrd_ultra_ram\<close>\<close>

type_synonym 'a mrd_ultra_ram = "'a mrd_ram"

definition mru_new :: "'a mrd_ultra_ram \<Rightarrow> 'a mrd_ultra_ram" where "mru_new = mr_new"
definition mru_RdAddrIgnore :: "nat \<Rightarrow> nat \<Rightarrow> u64 \<Rightarrow> u64 \<Rightarrow> 'a mrd_ultra_ram \<Rightarrow> 'a mrd_ultra_ram" where "mru_RdAddrIgnore = mr_RdAddrIgnore"
definition mru_read_addr :: "nat \<Rightarrow> nat \<Rightarrow> u64 \<Rightarrow> u64 \<Rightarrow> 'a mrd_ultra_ram \<Rightarrow> 'a mrd_ultra_ram option" where "mru_read_addr = mr_read_addr"
definition mru_write_addr :: "nat \<Rightarrow> nat \<Rightarrow> nat \<Rightarrow> u64 \<Rightarrow> u64 \<Rightarrow> u64 \<Rightarrow> 'a mrd_ultra_ram \<Rightarrow> 'a mrd_ultra_ram option" where "mru_write_addr = mr_write_addr"
definition mru_read_mem_debug :: "nat \<Rightarrow> nat \<Rightarrow> nat \<Rightarrow> u64 \<Rightarrow> u64 \<Rightarrow> u64 \<Rightarrow> 'a mrd_ultra_ram \<Rightarrow> 'a option" where "mru_read_mem_debug = mr_read_mem_debug"
definition mru_mem_out :: "'a \<Rightarrow> u64 \<Rightarrow> 'a mrd_ultra_ram \<Rightarrow> 'a" where "mru_mem_out = mr_mem_out"
definition mru_read_mem :: "nat \<Rightarrow> bool \<Rightarrow> 'a \<Rightarrow> u64 \<Rightarrow> 'a mrd_ultra_ram \<Rightarrow> 'a option" where "mru_read_mem = mr_read_mem"
definition mru_write_mem_ref :: "('a \<Rightarrow> 'a) \<Rightarrow> 'a mrd_ultra_ram \<Rightarrow> 'a mrd_ultra_ram option" where "mru_write_mem_ref = mr_write_mem_ref"
definition mru_write_mem :: "'a \<Rightarrow> 'a mrd_ultra_ram \<Rightarrow> 'a mrd_ultra_ram option" where "mru_write_mem = mr_write_mem"
definition mru_write_mem_debug :: "nat \<Rightarrow> nat \<Rightarrow> nat \<Rightarrow> u64 \<Rightarrow> u64 \<Rightarrow> u64 \<Rightarrow> 'a \<Rightarrow> 'a mrd_ultra_ram \<Rightarrow> 'a mrd_ultra_ram option" where "mru_write_mem_debug = mr_write_mem_debug"
definition mru_read_clock :: "nat \<Rightarrow> 'a \<Rightarrow> bool \<Rightarrow> 'a mrd_ultra_ram \<Rightarrow> 'a mrd_ultra_ram" where "mru_read_clock = mr_read_clock"
definition mru_write_clock :: "bool \<Rightarrow> 'a mrd_ultra_ram \<Rightarrow> 'a mrd_ultra_ram" where "mru_write_clock = mr_write_clock"
definition mru_clock :: "nat \<Rightarrow> 'a \<Rightarrow> bool \<Rightarrow> 'a mrd_ultra_ram \<Rightarrow> 'a mrd_ultra_ram" where "mru_clock = mr_clock"

section \<open>\<^verbatim>\<open>ht_mwr_ultra_ram\<close>\<close>

type_synonym 'a mwr_ultra_ram = "'a mwr_ram"

definition mwu_new :: "'a mwr_ultra_ram \<Rightarrow> 'a mwr_ultra_ram" where "mwu_new = mw_new"
definition mwu_RdAddrIgnore :: "nat \<Rightarrow> nat \<Rightarrow> nat \<Rightarrow> u64 \<Rightarrow> u64 \<Rightarrow> u64 \<Rightarrow> 'a mwr_ultra_ram \<Rightarrow> 'a mwr_ultra_ram option" where "mwu_RdAddrIgnore = mw_RdAddrIgnore"
definition mwu_read_addr :: "nat \<Rightarrow> nat \<Rightarrow> nat \<Rightarrow> u64 \<Rightarrow> u64 \<Rightarrow> u64 \<Rightarrow> 'a mwr_ultra_ram \<Rightarrow> 'a mwr_ultra_ram option" where "mwu_read_addr = mw_read_addr"
definition mwu_write_addr :: "nat \<Rightarrow> nat \<Rightarrow> nat \<Rightarrow> u64 \<Rightarrow> u64 \<Rightarrow> 'a::zero mwr_ultra_ram \<Rightarrow> 'a mwr_ultra_ram option" where "mwu_write_addr = mw_write_addr"
definition mwu_read_mem_debug :: "nat \<Rightarrow> nat \<Rightarrow> nat \<Rightarrow> u64 \<Rightarrow> u64 \<Rightarrow> u64 \<Rightarrow> 'a mwr_ultra_ram \<Rightarrow> 'a option" where "mwu_read_mem_debug = mw_read_mem_debug"
definition mwu_mem_out :: "'a \<Rightarrow> 'a mwr_ultra_ram \<Rightarrow> 'a" where "mwu_mem_out = mw_mem_out"
definition mwu_read_mem :: "bool \<Rightarrow> 'a \<Rightarrow> 'a mwr_ultra_ram \<Rightarrow> 'a option" where "mwu_read_mem = mw_read_mem"
definition mwu_write_mem :: "nat \<Rightarrow> u64 \<Rightarrow> 'a \<Rightarrow> 'a mwr_ultra_ram \<Rightarrow> 'a mwr_ultra_ram option" where "mwu_write_mem = mw_write_mem"
definition mwu_write_mem_debug :: "nat \<Rightarrow> nat \<Rightarrow> nat \<Rightarrow> u64 \<Rightarrow> u64 \<Rightarrow> u64 \<Rightarrow> 'a \<Rightarrow> 'a mwr_ultra_ram \<Rightarrow> 'a mwr_ultra_ram option" where "mwu_write_mem_debug = mw_write_mem_debug"
definition mwu_read_clock :: "'a \<Rightarrow> bool \<Rightarrow> 'a mwr_ultra_ram \<Rightarrow> 'a mwr_ultra_ram" where "mwu_read_clock = mw_read_clock"
definition mwu_write_clock :: "nat \<Rightarrow> bool \<Rightarrow> 'a mwr_ultra_ram \<Rightarrow> 'a mwr_ultra_ram" where "mwu_write_clock = mw_write_clock"
definition mwu_clock :: "nat \<Rightarrow> 'a \<Rightarrow> bool \<Rightarrow> 'a mwr_ultra_ram \<Rightarrow> 'a mwr_ultra_ram" where "mwu_clock = mw_clock"

end
