(* ===== verification/HifMsg.thy ===== *)
theory HifMsg
  imports OhtPrelude
begin

text \<open>
  The two containers the host interface is made of: the 64-bit control message of
  \<^verbatim>\<open>ht_lib/host/HtCtrlMsg.h\<close>, a union of the word with the bit fields valid, type and data,
  and the ring buffer \<^verbatim>\<open>CQueue\<close> of \<^verbatim>\<open>ht_lib/host/HtPlatform.h\<close>.
\<close>

section \<open>Control messages\<close>

text \<open>
  The bit fields are laid out from the least significant bit, as the hardware side and the
  compilers used for the tool set have it: \<^verbatim>\<open>m_valid\<close> bit 0, \<^verbatim>\<open>m_msgType\<close> bits 1 to 7,
  \<^verbatim>\<open>m_msgData\<close> bits 8 to 63. The constructor's parameter \<^verbatim>\<open>msgType\<close> is a \<^verbatim>\<open>uint8_t\<close>.
\<close>

type_synonym ctrl_msg = u64

definition CHtCtrlMsg :: "u8 \<Rightarrow> u64 \<Rightarrow> ctrl_msg" where
  "CHtCtrlMsg msgType msgData =
     1 OR push_bit 1 (ucast msgType AND mask 7) OR push_bit 8 (msgData AND mask 56)"

definition IsValid :: "ctrl_msg \<Rightarrow> bool" where
  "IsValid m = (m AND mask 1 = 1)"

definition GetMsgType :: "ctrl_msg \<Rightarrow> u8" where
  "GetMsgType m = ucast (drop_bit 1 m AND mask 7)"

definition GetMsgData :: "ctrl_msg \<Rightarrow> u64" where
  "GetMsgData m = drop_bit 8 m AND mask 56"

definition msg_Clear :: "ctrl_msg \<Rightarrow> ctrl_msg" where
  "msg_Clear m = 0"

lemma IsValid_0 [simp]: "\<not> IsValid 0"
  by (simp add: IsValid_def)

lemma bit_CHtCtrlMsg:
  "bit (CHtCtrlMsg t d) n \<longleftrightarrow> n = 0 \<or> (0 < n \<and> n < 8 \<and> bit t (n - 1)) \<or> (8 \<le> n \<and> n < 64 \<and> bit d (n - 8))"
  unfolding CHtCtrlMsg_def
  by (simp only: bit_or_iff bit_and_iff bit_push_bit_iff bit_mask_iff bit_1_iff bit_ucast_iff) auto

lemma IsValid_bit: "IsValid m \<longleftrightarrow> bit m 0"
  by (simp add: IsValid_def and_one_eq bit_0 odd_iff_mod_2_eq_one)

lemma IsValid_msg [simp]: "IsValid (CHtCtrlMsg t d)"
  by (simp add: IsValid_bit bit_CHtCtrlMsg)

lemma GetMsgType_msg: "GetMsgType (CHtCtrlMsg t d) = t AND mask 7"
  by (rule bit_eqI) (auto simp: GetMsgType_def bit_CHtCtrlMsg bit_simps)

lemma GetMsgData_msg: "GetMsgData (CHtCtrlMsg t d) = d AND mask 56"
  by (rule bit_eqI) (auto simp: GetMsgData_def bit_CHtCtrlMsg bit_simps)

lemma and_mask_id: "unat x < 2 ^ k \<Longrightarrow> x AND mask k = (x :: 'a::len word)"
  by (simp add: word_unat_eq_iff unat_and_mask)

section \<open>The queue interface\<close>

text \<open>
  A bounded queue as its client uses it: \<open>push\<close> when it is not full, \<open>pop\<close> and \<open>front\<close> when
  it is not empty. \<open>None\<close> is a call that does not return: a failed assertion, or a wait that
  only another thread can end.
\<close>

locale seq_queue =
  fixes push :: "'a \<Rightarrow> 'q \<Rightarrow> 'q option"
    and pop :: "'q \<Rightarrow> 'q option"
    and front :: "'q \<Rightarrow> 'a option"
    and is_empty :: "'q \<Rightarrow> bool"
    and is_full :: "'q \<Rightarrow> bool"
    and entries :: "'q \<Rightarrow> 'a list"
    and cap :: "'q \<Rightarrow> nat"
    and inv :: "'q \<Rightarrow> bool"
  assumes push_ok: "inv q \<Longrightarrow> \<not> is_full q \<Longrightarrow>
      \<exists>q'. push x q = Some q' \<and> inv q' \<and> entries q' = entries q @ [x] \<and> cap q' = cap q"
    and pop_ok: "inv q \<Longrightarrow> \<not> is_empty q \<Longrightarrow>
      \<exists>q'. pop q = Some q' \<and> inv q' \<and> entries q' = tl (entries q) \<and> cap q' = cap q"
    and front_ok: "inv q \<Longrightarrow> \<not> is_empty q \<Longrightarrow> front q = Some (hd (entries q))"
    and empty_ok: "inv q \<Longrightarrow> is_empty q \<longleftrightarrow> entries q = []"
    and full_ok: "inv q \<Longrightarrow> is_full q \<longleftrightarrow> length (entries q) = cap q"
    and cap_ok: "inv q \<Longrightarrow> length (entries q) \<le> cap q"

text \<open>Iterated calls.\<close>

fun push_all :: "('a \<Rightarrow> 'q \<Rightarrow> 'q option) \<Rightarrow> 'a list \<Rightarrow> 'q \<Rightarrow> 'q option" where
  "push_all push [] q = Some q"
| "push_all push (x # xs) q = do { q' \<leftarrow> push x q; push_all push xs q' }"

fun pop_many :: "('q \<Rightarrow> 'a option) \<Rightarrow> ('q \<Rightarrow> 'q option) \<Rightarrow> nat \<Rightarrow> 'q \<Rightarrow> ('a list \<times> 'q) option" where
  "pop_many front pop 0 q = Some ([], q)"
| "pop_many front pop (Suc n) q = do {
     x \<leftarrow> front q;
     q' \<leftarrow> pop q;
     (xs, q'') \<leftarrow> pop_many front pop n q';
     Some (x # xs, q'')
   }"

context seq_queue
begin

lemma push_all_ok:
  assumes "inv q" "length (entries q) + length xs \<le> cap q"
  shows "\<exists>q'. push_all push xs q = Some q' \<and> inv q' \<and> entries q' = entries q @ xs \<and> cap q' = cap q"
  using assms
proof (induction xs arbitrary: q)
  case (Cons x xs)
  then have "\<not> is_full q" by (auto simp: full_ok)
  from push_ok [OF Cons.prems(1) this, of x] obtain q1
    where q1: "push x q = Some q1" "inv q1" "entries q1 = entries q @ [x]" "cap q1 = cap q" by blast
  moreover have "length (entries q1) + length xs \<le> cap q1" using q1 Cons.prems(2) by simp
  ultimately obtain q2 where "push_all push xs q1 = Some q2" "inv q2" "entries q2 = entries q1 @ xs" "cap q2 = cap q1"
    using Cons.IH by blast
  with q1 show ?case by simp
qed simp

lemma pop_many_ok:
  assumes "inv q" "n \<le> length (entries q)"
  shows "\<exists>q'. pop_many front pop n q = Some (take n (entries q), q') \<and> inv q' \<and>
    entries q' = drop n (entries q) \<and> cap q' = cap q"
  using assms
proof (induction n arbitrary: q)
  case (Suc n)
  then have ne: "\<not> is_empty q" by (auto simp: empty_ok)
  from pop_ok [OF Suc.prems(1) ne] obtain q1
    where q1: "pop q = Some q1" "inv q1" "entries q1 = tl (entries q)" "cap q1 = cap q" by blast
  have "n \<le> length (entries q1)" using q1(3) Suc.prems(2) by simp
  from Suc.IH [OF q1(2) this] obtain q2 where
    q2: "pop_many front pop n q1 = Some (take n (entries q1), q2)" "inv q2"
    "entries q2 = drop n (entries q1)" "cap q2 = cap q1" by blast
  have "entries q \<noteq> []" using Suc.prems(2) by auto
  then have "take (Suc n) (entries q) = hd (entries q) # take n (entries q1)"
    "drop (Suc n) (entries q) = drop n (entries q1)"
    by (simp_all add: q1(3) take_Suc drop_Suc)
  with q1 q2 front_ok [OF Suc.prems(1) ne] show ?case by simp
qed simp

end

section \<open>CQueue\<close>

text \<open>
  Indices stay below \<open>S\<close>, so they are naturals; \<^verbatim>\<open>m_Cnt\<close> is the \<^verbatim>\<open>unsigned int\<close> the atomic
  operations change. A waiting loop on the queue's own state is \<open>None\<close>.
\<close>

record 'a cqueue =
  cq_que :: "nat \<Rightarrow> 'a"
  cq_S :: nat
  cq_Cnt :: u32
  cq_wrIdx :: nat
  cq_rdIdx :: nat

definition cq_new :: "(nat \<Rightarrow> 'a) \<Rightarrow> nat \<Rightarrow> 'a cqueue" where
  "cq_new que S = \<lparr>cq_que = que, cq_S = S, cq_Cnt = 0, cq_wrIdx = 0, cq_rdIdx = 0\<rparr>"

definition cq_Size :: "'a cqueue \<Rightarrow> int" where
  "cq_Size q = sint (cq_Cnt q)"

definition cq_Space :: "'a cqueue \<Rightarrow> int" where
  "cq_Space q = int (cq_S q) - 1 - cq_Size q"

definition cq_SpaceN :: "'a cqueue \<Rightarrow> int" where
  "cq_SpaceN q = min (int (cq_S q) - 1 - cq_Size q) (int (cq_S q) - int (cq_wrIdx q))"

definition cq_IsEmpty :: "'a cqueue \<Rightarrow> bool" where
  "cq_IsEmpty q = (cq_rdIdx q = cq_wrIdx q)"

definition cq_Empty :: "'a cqueue \<Rightarrow> bool" where
  "cq_Empty q = (cq_rdIdx q = cq_wrIdx q)"

definition cq_Front_off :: "nat \<Rightarrow> 'a cqueue \<Rightarrow> 'a option" where
  "cq_Front_off off q = do { ensure (\<not> cq_IsEmpty q); Some (cq_que q ((cq_rdIdx q + off) mod cq_S q)) }"

abbreviation cq_Front :: "'a cqueue \<Rightarrow> 'a option" where
  "cq_Front \<equiv> cq_Front_off 0"

fun cq_read :: "nat \<Rightarrow> nat \<Rightarrow> 'a cqueue \<Rightarrow> 'a list" where
  "cq_read r 0 q = []"
| "cq_read r (Suc num) q = cq_que q r # cq_read ((r + 1) mod cq_S q) num q"

definition cq_FrontN :: "nat \<Rightarrow> 'a cqueue \<Rightarrow> 'a list option" where
  "cq_FrontN num q = do { ensure (\<not> cq_IsEmpty q); Some (cq_read (cq_rdIdx q) num q) }"

definition cq_Pop :: "'a cqueue \<Rightarrow> 'a cqueue option" where
  "cq_Pop q = do {
     ensure (\<not> cq_IsEmpty q);
     Some (q\<lparr>cq_rdIdx := (cq_rdIdx q + 1) mod cq_S q, cq_Cnt := cq_Cnt q - 1\<rparr>)
   }"

definition cq_PopN :: "nat \<Rightarrow> 'a cqueue \<Rightarrow> 'a cqueue option" where
  "cq_PopN num q = do {
     ensure (\<not> cq_IsEmpty q);
     Some (q\<lparr>cq_rdIdx := ((\<lambda>r. (r + 1) mod cq_S q) ^^ num) (cq_rdIdx q), cq_Cnt := cq_Cnt q - of_nat num\<rparr>)
   }"

definition cq_IsFull :: "'a cqueue \<Rightarrow> bool" where
  "cq_IsFull q = ((cq_wrIdx q + 1) mod cq_S q = cq_rdIdx q)"

definition cq_Push :: "'a \<Rightarrow> 'a cqueue \<Rightarrow> 'a cqueue option" where
  "cq_Push item q = do {
     ensure (\<not> cq_IsFull q);
     Some (q\<lparr>cq_que := (cq_que q)(cq_wrIdx q := item),
            cq_wrIdx := (cq_wrIdx q + 1) mod cq_S q, cq_Cnt := cq_Cnt q + 1\<rparr>)
   }"

fun cq_store :: "'a list \<Rightarrow> 'a cqueue \<Rightarrow> 'a cqueue" where
  "cq_store [] q = q"
| "cq_store (x # xs) q =
     cq_store xs (q\<lparr>cq_que := (cq_que q)(cq_wrIdx q := x), cq_wrIdx := (cq_wrIdx q + 1) mod cq_S q\<rparr>)"

definition cq_PushN :: "'a list \<Rightarrow> 'a cqueue \<Rightarrow> 'a cqueue" where
  "cq_PushN items q = (let q' = cq_store items q in q'\<lparr>cq_Cnt := cq_Cnt q' + of_nat (length items)\<rparr>)"

definition cq_GetEntry :: "nat \<Rightarrow> 'a cqueue \<Rightarrow> 'a" where
  "cq_GetEntry idx q = cq_que q idx"

definition cq_count :: "'a cqueue \<Rightarrow> nat" where
  "cq_count q = ring_dist (cq_S q) (cq_wrIdx q) (cq_rdIdx q)"

definition cq_entries :: "'a cqueue \<Rightarrow> 'a list" where
  "cq_entries q = ring_list (cq_S q) (cq_que q) (cq_rdIdx q) (cq_count q)"

definition cq_cap :: "'a cqueue \<Rightarrow> nat" where
  "cq_cap q = cq_S q - 1"

definition cq_inv :: "'a cqueue \<Rightarrow> bool" where
  "cq_inv q \<longleftrightarrow> 1 < cq_S q \<and> cq_S q < 2 ^ 31 \<and> cq_wrIdx q < cq_S q \<and> cq_rdIdx q < cq_S q \<and>
     unat (cq_Cnt q) = cq_count q"

lemma cq_new_inv: "1 < S \<Longrightarrow> S < 2 ^ 31 \<Longrightarrow> cq_inv (cq_new que S) \<and> cq_entries (cq_new que S) = []"
  by (simp add: cq_inv_def cq_new_def cq_count_def cq_entries_def)

lemma length_cq_entries [simp]: "length (cq_entries q) = cq_count q"
  by (simp add: cq_entries_def)

lemma cq_count_lt: "cq_inv q \<Longrightarrow> cq_count q < cq_S q"
  by (simp add: cq_inv_def cq_count_def ring_dist_lt)

lemma cq_IsEmpty_entries: "cq_inv q \<Longrightarrow> cq_IsEmpty q \<longleftrightarrow> cq_entries q = []"
  by (auto simp: cq_IsEmpty_def cq_inv_def cq_entries_def cq_count_def ring_list_def ring_dist_0_iff)

lemma cq_IsFull_count:
  assumes "cq_inv q"
  shows "cq_IsFull q \<longleftrightarrow> cq_count q = cq_S q - 1"
proof (cases "cq_wrIdx q + 1 = cq_S q")
  case True
  with assms show ?thesis by (auto simp: cq_inv_def cq_IsFull_def cq_count_def ring_dist_def split: if_splits)
next
  case False
  with assms show ?thesis by (auto simp: cq_inv_def cq_IsFull_def cq_count_def ring_dist_def split: if_splits)
qed

lemma unat_Suc_word: "unat (x :: u32) < 2 ^ 31 \<Longrightarrow> unat (x + 1) = Suc (unat x)"
  by (subst unat_add_lem [THEN iffD1]) auto

lemma unat_pred_word: "0 < unat (x :: u32) \<Longrightarrow> unat (x - 1) = unat x - 1"
  by (metis unat_minus_one unat_0 less_numeral_extra(3))

lemma cq_Push_ok:
  assumes inv: "cq_inv q" and "\<not> cq_IsFull q"
  shows "\<exists>q'. cq_Push x q = Some q' \<and> cq_inv q' \<and> cq_entries q' = cq_entries q @ [x] \<and> cq_cap q' = cq_cap q"
proof -
  note i = inv [unfolded cq_inv_def]
  have c: "cq_count q + 1 < cq_S q" using cq_IsFull_count [OF inv] cq_count_lt [OF inv] assms(2) by linarith
  then have d: "ring_dist (cq_S q) (Suc (cq_wrIdx q) mod cq_S q) (cq_rdIdx q) = Suc (cq_count q)"
    using i by (simp add: cq_count_def ring_dist_inc_wr)
  have w: "(cq_rdIdx q + cq_count q) mod cq_S q = cq_wrIdx q"
    using i by (simp add: cq_count_def ring_dist_add)
  have "cq_count q < 2 ^ 31" using c i by linarith
  then have "unat (cq_Cnt q + 1) = Suc (cq_count q)" using i by (simp add: unat_Suc_word)
  moreover have "ring_list (cq_S q) ((cq_que q)(cq_wrIdx q := x)) (cq_rdIdx q) (Suc (cq_count q)) =
      cq_entries q @ [x]"
    using ring_list_push [of "cq_count q" "cq_S q" "cq_que q" "cq_rdIdx q" x] c by (simp add: w cq_entries_def)
  ultimately show ?thesis
    using assms(2) i d by (simp add: cq_Push_def cq_inv_def cq_entries_def cq_cap_def cq_count_def)
qed

lemma cq_Pop_ok:
  assumes inv: "cq_inv q" and "\<not> cq_IsEmpty q"
  shows "\<exists>q'. cq_Pop q = Some q' \<and> cq_inv q' \<and> cq_entries q' = tl (cq_entries q) \<and> cq_cap q' = cq_cap q"
proof -
  note i = inv [unfolded cq_inv_def]
  have c: "0 < cq_count q" using cq_IsEmpty_entries [OF inv] assms(2) by (metis length_cq_entries length_greater_0_conv)
  then have d: "ring_dist (cq_S q) (cq_wrIdx q) (Suc (cq_rdIdx q) mod cq_S q) = cq_count q - 1"
    using i by (simp add: cq_count_def ring_dist_inc_rd)
  have "unat (cq_Cnt q - 1) = cq_count q - 1" using i c by (simp add: unat_pred_word)
  moreover have "ring_list (cq_S q) (cq_que q) (Suc (cq_rdIdx q)) (cq_count q - 1) = tl (cq_entries q)"
    using c by (simp add: cq_entries_def ring_list_tl)
  ultimately show ?thesis
    using assms(2) i d by (simp add: cq_Pop_def cq_inv_def cq_entries_def cq_cap_def cq_count_def)
qed

lemma cq_Front_ok: "cq_inv q \<Longrightarrow> \<not> cq_IsEmpty q \<Longrightarrow> cq_Front q = Some (hd (cq_entries q))"
  using cq_IsEmpty_entries [of q] length_greater_0_conv [of "cq_entries q"]
  by (simp add: cq_Front_off_def cq_entries_def ring_list_hd del: length_greater_0_conv)

interpretation cq: seq_queue cq_Push cq_Pop cq_Front cq_IsEmpty cq_IsFull cq_entries cq_cap cq_inv
proof unfold_locales
  fix q :: "'a cqueue"
  assume inv: "cq_inv q"
  show "cq_IsFull q \<longleftrightarrow> length (cq_entries q) = cq_cap q"
    using cq_IsFull_count [OF inv] by (simp add: cq_cap_def)
  show "length (cq_entries q) \<le> cq_cap q"
    using cq_count_lt [OF inv] by (simp add: cq_cap_def)
qed (simp_all add: cq_Push_ok cq_Pop_ok cq_Front_ok cq_IsEmpty_entries)

text \<open>\<^verbatim>\<open>Size()\<close> counts the entries.\<close>

lemma cq_Size_entries:
  assumes "cq_inv p"
  shows "cq_Size p = int (length (cq_entries p))"
proof -
  have "unat (cq_Cnt p) < 2 ^ 31" using assms cq_count_lt [OF assms] by (simp add: cq_inv_def)
  then have "uint (cq_Cnt p) < 2 ^ 31" unfolding uint_nat by (metis of_nat_less_iff of_nat_numeral of_nat_power)
  then have "sint (cq_Cnt p) = uint (cq_Cnt p)"
    using signed_take_bit_int_eq_self [of 31 "uint (cq_Cnt p)"] uint_ge_0 [of "cq_Cnt p"]
    unfolding sint_uint by simp
  moreover have "uint (cq_Cnt p) = int (cq_count p)" using assms unfolding cq_inv_def by (metis uint_nat)
  ultimately show ?thesis by (simp add: cq_Size_def)
qed

text \<open>The calls on several items are the calls on one item, iterated.\<close>

lemma cq_Push_entry: "cq_entries (q\<lparr>cq_Cnt := c\<rparr>) = cq_entries q"
  by (simp add: cq_entries_def cq_count_def)

lemma cq_store_frame:
  "cq_store items (q\<lparr>cq_Cnt := c\<rparr>) = (cq_store items q)\<lparr>cq_Cnt := c\<rparr>"
proof (induction items arbitrary: q)
  case (Cons x items)
  from Cons.IH [of "q\<lparr>cq_que := (cq_que q)(cq_wrIdx q := x), cq_wrIdx := (cq_wrIdx q + 1) mod cq_S q\<rparr>"]
  show ?case by (cases q) simp
qed simp

lemma cq_PushN_all:
  assumes "cq_inv q" "length (cq_entries q) + length items \<le> cq_cap q"
  shows "push_all cq_Push items q = Some (cq_PushN items q)"
  using assms
proof (induction items arbitrary: q)
  case Nil
  then show ?case by (simp add: cq_PushN_def)
next
  case (Cons x items)
  then have nf: "\<not> cq_IsFull q" using cq.full_ok [OF Cons.prems(1)] by auto
  obtain q1 where q1: "cq_Push x q = Some q1" "cq_inv q1" "cq_entries q1 = cq_entries q @ [x]" "cq_cap q1 = cq_cap q"
    using cq_Push_ok [OF Cons.prems(1) nf] by blast
  have "push_all cq_Push items q1 = Some (cq_PushN items q1)"
    using Cons.IH [OF q1(2)] q1(3,4) Cons.prems(2) by (simp del: length_cq_entries)
  moreover have "q1 = (q\<lparr>cq_que := (cq_que q)(cq_wrIdx q := x), cq_wrIdx := (cq_wrIdx q + 1) mod cq_S q\<rparr>)\<lparr>cq_Cnt := cq_Cnt q + 1\<rparr>"
    using q1(1) nf by (simp add: cq_Push_def)
  moreover have "cq_Cnt (cq_store items p) = cq_Cnt p" for p :: "'a cqueue"
    by (induction items arbitrary: p) simp_all
  ultimately show ?case
    by (simp add: q1(1) cq_PushN_def cq_store_frame Let_def add.assoc add.commute)
qed

lemma cq_FrontN_entries:
  assumes "cq_inv q" "0 < num" "num \<le> length (cq_entries q)"
  shows "cq_FrontN num q = Some (take num (cq_entries q))"
proof -
  have read: "cq_read r n q = ring_list (cq_S q) (cq_que q) r n" if "r < cq_S q" for r n
    using that by (induction n arbitrary: r) (simp_all add: ring_list_Suc)
  have "cq_entries q \<noteq> []" using assms(2,3) by (auto simp del: length_cq_entries)
  then have "\<not> cq_IsEmpty q" using cq_IsEmpty_entries [OF assms(1)] by simp
  then show ?thesis
    using assms by (simp add: cq_FrontN_def read cq_inv_def) (simp add: cq_entries_def ring_list_take)
qed

text \<open>
  C36: A control message delivers the 7 bits of type and the 56 bits of data it was built from,
  is valid, and is invalid once cleared; the type and data of a message determine it.
\<close>

theorem ctrl_msg_roundtrip:
  "IsValid (CHtCtrlMsg t d) \<and> \<not> IsValid (msg_Clear m) \<and>
   GetMsgType (CHtCtrlMsg t d) = t AND mask 7 \<and> GetMsgData (CHtCtrlMsg t d) = d AND mask 56 \<and>
   (m = CHtCtrlMsg (GetMsgType m) (GetMsgData m) \<longleftrightarrow> IsValid m)"
proof -
  have "CHtCtrlMsg (GetMsgType m) (GetMsgData m) = m" if "IsValid m"
  proof (rule bit_eqI)
    fix n
    assume "possible_bit TYPE(u64) n"
    then show "bit (CHtCtrlMsg (GetMsgType m) (GetMsgData m)) n = bit m n"
      using that
      by (cases "n < 8"; cases n)
        (auto simp: IsValid_bit bit_CHtCtrlMsg GetMsgType_def GetMsgData_def bit_simps not_less)
  qed
  then show ?thesis
    by (metis IsValid_msg IsValid_0 msg_Clear_def GetMsgType_msg GetMsgData_msg)
qed

text \<open>
  C37: \<^verbatim>\<open>CQueue\<close> is a queue of \<open>S - 1\<close> items for its single producer and single consumer: a batch
  pushed into free space is returned by \<^verbatim>\<open>Front\<close>/\<^verbatim>\<open>Pop\<close> in order after what the queue held,
  nothing waits, \<^verbatim>\<open>Size()\<close> and \<^verbatim>\<open>Space()\<close> count it, and \<^verbatim>\<open>PushN\<close> is the iterated \<^verbatim>\<open>Push\<close>.
\<close>

theorem cqueue_fifo:
  assumes "cq_inv q" "int (length items) \<le> cq_Space q"
  shows "\<exists>q'. push_all cq_Push items q = Some (cq_PushN items q) \<and>
    pop_many cq_Front cq_Pop (length (cq_entries q) + length items) (cq_PushN items q) = Some (cq_entries q @ items, q') \<and>
    cq_IsEmpty q' \<and> cq_Size q' = 0 \<and> cq_Size (cq_PushN items q) = cq_Size q + int (length items) \<and>
    cq_Space q' = int (cq_S q) - 1"
proof -
  note Size = cq_Size_entries
  have room: "length (cq_entries q) + length items \<le> cq_cap q"
    using assms(2) cq.cap_ok [OF assms(1)] by (simp add: cq_Space_def Size [OF assms(1)] cq_cap_def)
  from cq.push_all_ok [OF assms(1) room] cq_PushN_all [OF assms(1) room]
  obtain p where p: "push_all cq_Push items q = Some p" "p = cq_PushN items q" "cq_inv p"
    "cq_entries p = cq_entries q @ items" "cq_cap p = cq_cap q" by auto
  have "length (cq_entries q) + length items \<le> length (cq_entries p)"
    by (simp add: p(4) del: length_cq_entries)
  from cq.pop_many_ok [OF p(3) this] p(4)
  obtain r where r: "pop_many cq_Front cq_Pop (length (cq_entries q) + length items) p = Some (cq_entries q @ items, r)"
    "cq_inv r" "cq_entries r = []" "cq_cap r = cq_cap p" by (auto simp del: length_cq_entries)
  have "cq_S r = cq_S q" using r(2,4) p(5) assms(1) by (auto simp: cq_cap_def cq_inv_def)
  then show ?thesis
    using p r Size [OF p(3)] Size [OF r(2)] Size [OF assms(1)] cq_IsEmpty_entries [OF r(2)]
    by (auto simp: cq_Space_def simp del: length_cq_entries)
qed

theorem cqueue_fifo_witness:
  "\<exists>q'. push_all cq_Push [1, 2, 3] (cq_new (\<lambda>_. 0::nat) 4) = Some (cq_PushN [1, 2, 3] (cq_new (\<lambda>_. 0::nat) 4)) \<and>
    pop_many cq_Front cq_Pop (length (cq_entries (cq_new (\<lambda>_. 0::nat) 4)) + length [1, 2, 3::nat])
      (cq_PushN [1, 2, 3] (cq_new (\<lambda>_. 0::nat) 4)) = Some (cq_entries (cq_new (\<lambda>_. 0::nat) 4) @ [1, 2, 3], q') \<and>
    cq_IsEmpty q' \<and> cq_Size q' = 0 \<and>
    cq_Size (cq_PushN [1, 2, 3] (cq_new (\<lambda>_. 0::nat) 4)) = cq_Size (cq_new (\<lambda>_. 0::nat) 4) + int (length [1, 2, 3::nat]) \<and>
    cq_Space q' = int (cq_S (cq_new (\<lambda>_. 0::nat) 4)) - 1"
  by (rule cqueue_fifo) (simp_all add: cq_new_inv cq_Space_def cq_Size_def, simp add: cq_new_def)

end
