(* ===== verification/HifEnd.thy ===== *)
theory HifEnd
  imports HifMsg
begin

text \<open>
  One side of the host interface. The host's \<^verbatim>\<open>CHtUnitLib\<close> (\<^verbatim>\<open>ht_lib/host/HtHifLib.cpp\<close>) and the
  coprocessor model's \<^verbatim>\<open>CHtModelUnitLib\<close> (\<^verbatim>\<open>ht_lib/host/HtModelLib.cpp\<close>) share a pair of control
  rings and two sets of data blocks; each side writes one ring and one set and reads the other.
  The routines that move messages and blocks are written twice in the source, with \<open>In\<close> and
  \<open>Out\<close> exchanged; they are modelled once here, for a side that transmits (\<open>tx\<close>) and receives
  (\<open>rx\<close>), with the two command codes as arguments, and named after the source per side in the
  theories HostUnit and ModelUnit.

  Correspondence of the members (host / model):
  \<open>ep_lock\<close> is m_inLock / m_outLock, \<open>ep_ctlWrIdx\<close> m_ctlInWrIdx / m_outCtlWrIdx,
  \<open>ep_ctlRdIdx\<close> m_outCtlRdIdx / m_inCtlRdIdx, \<open>ep_msgQue\<close> m_outMsgQue / m_inMsgQue,
  \<open>ep_txAvail\<close> m_inBlkAvailCnt / m_outBlkAvailCnt, \<open>ep_txWrIdx\<close> m_inBlkWrIdx / m_outBlkWrIdx,
  \<open>ep_txBlkIdx\<close> m_inBlkIdx / m_outBlkIdx, \<open>ep_txBase\<close> and \<open>ep_txOff\<close> the base and the offset of
  m_pInBlk / m_pOutBlk, \<open>ep_rxDataSize\<close> m_outBlkDataSize / m_inBlkDataSize, and so on.
  The shared memory is part of the record: \<open>ep_txq\<close> and \<open>ep_rxq\<close> are the rings this side writes
  and reads, \<open>ep_heap\<close> maps the base address of a memory region and a quadword offset to the
  quadword. The cached slot pointers (m_pOutCtlMsg, m_pInCtlMsg) are the slot of \<open>ep_ctlRdIdx\<close>.

  Calls run to completion one at a time: the lock serialises them in the source. \<open>None\<close> is a call
  that does not return: a failed assertion, a lock taken twice, or a wait for a ring slot that
  only the other side can free. The HT_AVL_TEST instrumentation is off in every build of the
  repository and is not modelled.
\<close>

section \<open>Parameters\<close>

text \<open>
  \<^verbatim>\<open>CHtHifParams\<close> of \<^verbatim>\<open>ht_lib/host/HtHif.h\<close>, without the pointers to the personality's name and
  the huge page. The widths are log2 of a size in bytes or of a count.
\<close>

record hif_params =
  par_ctlTimerUSec :: u32
  par_iBlkTimerUSec :: u32
  par_oBlkTimerUSec :: u32
  par_ctlQueW :: nat
  par_iBlkSizeW :: nat
  par_iBlkCntW :: nat
  par_oBlkSizeW :: nat
  par_oBlkCntW :: nat
  par_appPersMemSize :: u64
  par_appUnitMemSize :: u64
  par_numaSetCnt :: int

definition CHtHifParams :: hif_params where
  "CHtHifParams = \<lparr>par_ctlTimerUSec = 10, par_iBlkTimerUSec = 1000, par_oBlkTimerUSec = 1000,
     par_ctlQueW = 9, par_iBlkSizeW = 16, par_iBlkCntW = 4, par_oBlkSizeW = 16, par_oBlkCntW = 4,
     par_appPersMemSize = 0, par_appUnitMemSize = 0, par_numaSetCnt = 0\<rparr>"

section \<open>Commands\<close>

abbreviation HIF_CMD_CTL_PARAM :: u8 where "HIF_CMD_CTL_PARAM \<equiv> 0"
abbreviation HIF_CMD_IBLK_ADR :: u8 where "HIF_CMD_IBLK_ADR \<equiv> 1"
abbreviation HIF_CMD_OBLK_ADR :: u8 where "HIF_CMD_OBLK_ADR \<equiv> 2"
abbreviation HIF_CMD_IBLK_PARAM :: u8 where "HIF_CMD_IBLK_PARAM \<equiv> 3"
abbreviation HIF_CMD_OBLK_PARAM :: u8 where "HIF_CMD_OBLK_PARAM \<equiv> 4"
abbreviation HIF_CMD_IBLK_RDY :: u8 where "HIF_CMD_IBLK_RDY \<equiv> 5"
abbreviation HIF_CMD_OBLK_AVL :: u8 where "HIF_CMD_OBLK_AVL \<equiv> 6"
abbreviation HIF_CMD_OBLK_FLSH_ADR :: u8 where "HIF_CMD_OBLK_FLSH_ADR \<equiv> 7"
abbreviation HIF_CMD_OBLK_RDY :: u8 where "HIF_CMD_OBLK_RDY \<equiv> 8"
abbreviation HIF_CMD_IBLK_AVL :: u8 where "HIF_CMD_IBLK_AVL \<equiv> 9"
abbreviation HIF_CMD_ASSERT :: u8 where "HIF_CMD_ASSERT \<equiv> 10"
abbreviation HIF_CMD_ASSERT_COLL :: u8 where "HIF_CMD_ASSERT_COLL \<equiv> 11"

abbreviation HIF_DQ_NULL :: u64 where "HIF_DQ_NULL \<equiv> 1"
abbreviation HIF_DQ_CALL :: u64 where "HIF_DQ_CALL \<equiv> 6"
abbreviation HIF_DQ_HALT :: u64 where "HIF_DQ_HALT \<equiv> 7"

datatype recv_type = eRecvIdle | eRecvBusy | eRecvHalt | eRecvCall | eRecvReturn | eRecvHostData
  | eRecvHostMsg | eRecvHostDataMarker

section \<open>The side's state\<close>

record endpoint =
  ep_lock :: bool
  ep_ctlQueMask :: u32
  ep_ctlWrIdx :: u32
  ep_ctlRdIdx :: u32
  ep_msgQue :: "ctrl_msg cqueue"
  ep_loopCnt :: u32
  ep_txAvail :: int
  ep_txWrIdx :: nat
  ep_txBlkIdx :: u32
  ep_txSize :: nat
  ep_txMask :: u32
  ep_txBase :: u64
  ep_txOff :: nat
  ep_rxDataSize :: nat
  ep_rxRdIdx :: nat
  ep_rxBlkIdx :: u32
  ep_rxSize :: nat
  ep_rxMask :: u32
  ep_rxBase :: u64
  ep_rxOff :: nat
  ep_txq :: "nat \<Rightarrow> ctrl_msg"
  ep_rxq :: "nat \<Rightarrow> ctrl_msg"
  ep_heap :: "u64 \<Rightarrow> nat \<Rightarrow> u64"

text \<open>\<^verbatim>\<open>memcpy\<close> to and from a data block.\<close>

definition heap_store :: "u64 \<Rightarrow> nat \<Rightarrow> u64 list \<Rightarrow> (u64 \<Rightarrow> nat \<Rightarrow> u64) \<Rightarrow> u64 \<Rightarrow> nat \<Rightarrow> u64" where
  "heap_store base off data h =
     h(base := (\<lambda>i. if off \<le> i \<and> i < off + length data then data ! (i - off) else h base i))"

definition heap_load :: "u64 \<Rightarrow> nat \<Rightarrow> nat \<Rightarrow> (u64 \<Rightarrow> nat \<Rightarrow> u64) \<Rightarrow> u64 list" where
  "heap_load base off n h = map (\<lambda>i. h base (off + i)) [0..<n]"

section \<open>Locks, messages and blocks\<close>

text \<open>LockInBlk / LockOutBlk and their unlock.\<close>

definition ep_Lock :: "bool \<Rightarrow> 'z endpoint_scheme \<Rightarrow> 'z endpoint_scheme option" where
  "ep_Lock bLock s =
     (if bLock then do { ensure (\<not> ep_lock s); Some (s\<lparr>ep_lock := True\<rparr>) }
      else do { ensure (ep_lock s); Some s })"

definition ep_Unlock :: "bool \<Rightarrow> 'z endpoint_scheme \<Rightarrow> 'z endpoint_scheme" where
  "ep_Unlock bUnlock s = (if bUnlock then s\<lparr>ep_lock := False\<rparr> else s)"

text \<open>The slot of a free-running index.\<close>

definition ctl_slot :: "'z endpoint_scheme \<Rightarrow> u32 \<Rightarrow> nat" where
  "ctl_slot s idx = unat (idx AND ep_ctlQueMask s)"

definition ep_SendMsgInternal :: "u8 \<Rightarrow> u64 \<Rightarrow> bool \<Rightarrow> 'z endpoint_scheme \<Rightarrow> 'z endpoint_scheme option" where
  "ep_SendMsgInternal msgType msgData bLock s = do {
     s \<leftarrow> ep_Lock bLock s;
     let slot = ctl_slot s (ep_ctlWrIdx s);
     let s = s\<lparr>ep_ctlWrIdx := ep_ctlWrIdx s + 1\<rparr>;
     let s = ep_Unlock bLock s;
     ensure (\<not> IsValid (ep_txq s slot));
     Some (s\<lparr>ep_txq := (ep_txq s)(slot := CHtCtrlMsg msgType msgData)\<rparr>)
   }"

text \<open>NextInBlk / NextOutBlk of the transmitting side.\<close>

definition ep_NextTxBlk :: "'z endpoint_scheme \<Rightarrow> 'z endpoint_scheme option" where
  "ep_NextTxBlk s = do {
     ensure (ep_lock s);
     ensure (ep_txAvail s > 0);
     let idx = ep_txBlkIdx s + 1;
     Some (s\<lparr>ep_txAvail := ep_txAvail s - 1, ep_txWrIdx := 0, ep_txBlkIdx := idx,
            ep_txOff := unat (idx AND ep_txMask s) * ep_txSize s\<rparr>)
   }"

text \<open>FlushInBlk / FlushOutBlk; \<open>rdy\<close> is the side's block-ready command.\<close>

definition ep_FlushBlk :: "u8 \<Rightarrow> bool \<Rightarrow> u64 \<Rightarrow> 'z endpoint_scheme \<Rightarrow> 'z endpoint_scheme option" where
  "ep_FlushBlk rdy bLock ctl s = do {
     s \<leftarrow> ep_Lock bLock s;
     if ep_txWrIdx s = 0 \<and> ctl = 0 then Some (ep_Unlock bLock s)
     else do {
       let size' = push_bit 3 (of_nat (ep_txWrIdx s)) OR ctl;
       s \<leftarrow> ep_NextTxBlk s;
       s \<leftarrow> ep_SendMsgInternal rdy size' False s;
       Some (ep_Unlock bLock s)
     }
   }"

text \<open>NextOutBlk / NextInBlk of the receiving side; \<open>avl\<close> is its block-available command.\<close>

definition ep_NextRxBlk :: "u8 \<Rightarrow> bool \<Rightarrow> 'z endpoint_scheme \<Rightarrow> 'z endpoint_scheme option" where
  "ep_NextRxBlk avl bLock s = do {
     s \<leftarrow> ep_Lock bLock s;
     s \<leftarrow> ep_SendMsgInternal avl (scast (ep_rxBlkIdx s)) False s;
     let idx = ep_rxBlkIdx s + 1;
     let s = s\<lparr>ep_rxBlkIdx := idx, ep_rxOff := unat (idx AND ep_rxMask s) * ep_rxSize s, ep_rxRdIdx := 0\<rparr>;
     Some (ep_Unlock bLock s)
   }"

text \<open>NextOutMsgQue / NextInMsgQue.\<close>

definition ep_NextMsgQue :: "'z endpoint_scheme \<Rightarrow> 'z endpoint_scheme option" where
  "ep_NextMsgQue s = do {
     q \<leftarrow> cq_Pop (ep_msgQue s);
     Some (s\<lparr>ep_msgQue := q, ep_loopCnt := 0\<rparr>)
   }"

text \<open>NextOutMsg / NextInMsg: frees the ring's slot.\<close>

definition ep_NextMsg :: "'z endpoint_scheme \<Rightarrow> 'z endpoint_scheme option" where
  "ep_NextMsg s = do {
     let slot = ctl_slot s (ep_ctlRdIdx s);
     ensure (IsValid (ep_rxq s slot));
     Some (s\<lparr>ep_rxq := (ep_rxq s)(slot := msg_Clear (ep_rxq s slot)), ep_ctlRdIdx := ep_ctlRdIdx s + 1\<rparr>)
   }"

text \<open>QueOutMsgs / QueInMsgs; \<open>avl\<close> is the peer's block-available command.\<close>

partial_function (option) ep_QueMsgs :: "u8 \<Rightarrow> 'z endpoint_scheme \<Rightarrow> 'z endpoint_scheme option" where
  "ep_QueMsgs avl s =
     (let ctrlMsg = ep_rxq s (ctl_slot s (ep_ctlRdIdx s)) in
      if \<not> IsValid ctrlMsg \<or> cq_IsFull (ep_msgQue s) then Some s
      else do {
        s \<leftarrow> (if GetMsgType ctrlMsg = avl then do {
                s \<leftarrow> ep_Lock True s;
                let s = s\<lparr>ep_txAvail := ep_txAvail s + 1\<rparr>;
                Some (ep_Unlock True s)
              } else do {
                q \<leftarrow> cq_Push ctrlMsg (ep_msgQue s);
                Some (s\<lparr>ep_msgQue := q\<rparr>)
              });
        s \<leftarrow> ep_NextMsg s;
        ep_QueMsgs avl s
      })"

text \<open>
  The loop of SendDataInternal: the number of quadwords sent, and whether the loop ended by its
  condition (or by the early return when no block is available, which has released the lock).
\<close>

partial_function (option) ep_SendLoop ::
  "u8 \<Rightarrow> u8 \<Rightarrow> u64 list \<Rightarrow> nat \<Rightarrow> 'z endpoint_scheme \<Rightarrow> (nat \<times> bool \<times> 'z endpoint_scheme) option" where
  "ep_SendLoop rdy avl data sentCnt s =
     (if length data \<le> sentCnt then Some (sentCnt, True, s)
      else do {
        (none, s) \<leftarrow> (if ep_txAvail s = 0 then do {
            let s = ep_Unlock True s;
            s \<leftarrow> ep_QueMsgs avl s;
            s \<leftarrow> ep_Lock True s;
            if ep_txAvail s = 0 then Some (True, ep_Unlock True s) else Some (False, s)
          } else Some (False, s));
        if none then Some (sentCnt, False, s)
        else do {
          ensure (ep_txAvail s > 0);
          let cnt = min (length data - sentCnt) (ep_txSize s - ep_txWrIdx s);
          let s = s\<lparr>ep_heap := heap_store (ep_txBase s) (ep_txOff s + ep_txWrIdx s)
                                   (take cnt (drop sentCnt data)) (ep_heap s)\<rparr>;
          let s = s\<lparr>ep_txWrIdx := ep_txWrIdx s + cnt\<rparr>;
          ensure (ep_txWrIdx s \<le> ep_txSize s);
          s \<leftarrow> (if ep_txWrIdx s = ep_txSize s then ep_FlushBlk rdy False 0 s else Some s);
          ep_SendLoop rdy avl data (sentCnt + cnt) s
        }
      })"

definition ep_SendData ::
  "u8 \<Rightarrow> u8 \<Rightarrow> u64 list \<Rightarrow> bool \<Rightarrow> 'z endpoint_scheme \<Rightarrow> (nat \<times> bool \<times> 'z endpoint_scheme) option" where
  "ep_SendData rdy avl data bLock s = do {
     s \<leftarrow> ep_Lock bLock s;
     (sentCnt, fin, s) \<leftarrow> ep_SendLoop rdy avl data 0 s;
     Some (sentCnt, fin, if fin then ep_Unlock bLock s else s)
   }"

text \<open>SendHostMsg of either side.\<close>

definition ep_SendHostMsg :: "u8 \<Rightarrow> u8 \<Rightarrow> u64 \<Rightarrow> 'z endpoint_scheme \<Rightarrow> 'z endpoint_scheme option" where
  "ep_SendHostMsg rdy msgType msgData s = do {
     s \<leftarrow> ep_Lock True s;
     s \<leftarrow> ep_FlushBlk rdy False 0 s;
     s \<leftarrow> ep_SendMsgInternal msgType msgData False s;
     Some (ep_Unlock True s)
   }"

text \<open>SendHostHalt and SendHostDataMarker: a block that carries only the control code.\<close>

definition ep_SendCtl :: "u8 \<Rightarrow> u8 \<Rightarrow> u64 \<Rightarrow> 'z endpoint_scheme \<Rightarrow> (bool \<times> 'z endpoint_scheme) option" where
  "ep_SendCtl rdy avl ctl s = do {
     s \<leftarrow> ep_Lock True s;
     s \<leftarrow> ep_FlushBlk rdy False 0 s;
     (none, s) \<leftarrow> (if ep_txAvail s < 1 then do {
         let s = ep_Unlock True s;
         s \<leftarrow> ep_QueMsgs avl s;
         s \<leftarrow> ep_Lock True s;
         if ep_txAvail s < 1 then Some (True, ep_Unlock True s) else Some (False, s)
       } else Some (False, s));
     if none then Some (False, s)
     else do {
       s \<leftarrow> ep_FlushBlk rdy False ctl s;
       Some (True, ep_Unlock True s)
     }
   }"

text \<open>InBlkTimer / OutBlkTimer: the periodic flush.\<close>

definition ep_BlkTimer :: "u8 \<Rightarrow> 'z endpoint_scheme \<Rightarrow> 'z endpoint_scheme option" where
  "ep_BlkTimer rdy s = do {
     s \<leftarrow> ep_Lock True s;
     s \<leftarrow> ep_FlushBlk rdy False 0 s;
     Some (ep_Unlock True s)
   }"

text \<open>\<^verbatim>\<open>(int)(msgData >> 3)\<close>: the size a block-ready message carries.\<close>

definition dq_words :: "u64 \<Rightarrow> nat" where
  "dq_words msgData = unat (ucast (drop_bit 3 msgData) :: u32)"

text \<open>The counter of unserved polls; at 1000 the source prints a warning.\<close>

definition ep_CountPoll :: "'z endpoint_scheme \<Rightarrow> 'z endpoint_scheme" where
  "ep_CountPoll s = (if ep_loopCnt s \<le> 1000 then s\<lparr>ep_loopCnt := ep_loopCnt s + 1\<rparr> else s)"

text \<open>A sequence of calls of SendMsgInternal.\<close>

fun ep_SendMsgs :: "(u8 \<times> u64) list \<Rightarrow> 'z endpoint_scheme \<Rightarrow> 'z endpoint_scheme option" where
  "ep_SendMsgs [] s = Some s"
| "ep_SendMsgs ((t, d) # ms) s = do { s \<leftarrow> ep_SendMsgInternal t d False s; ep_SendMsgs ms s }"

end
