(* ===== verification/HostUnit.thy ===== *)
theory HostUnit
  imports HifEnd
begin

text \<open>
  The host's unit, \<^verbatim>\<open>CHtUnitLib\<close> of \<^verbatim>\<open>ht_lib/host/HtHifLib.cpp\<close> and \<^verbatim>\<open>HtHifLib.h\<close>: the user API
  that sends messages, data, markers, calls and the halt to the coprocessor and receives messages,
  data, markers and returns from it. Argument lists are lists of quadwords; a receive buffer is the
  list of the quadwords stored into it. The application's \<^verbatim>\<open>RecvCallback\<close> is the argument \<open>cb\<close>.
  The debug print-outs are not modelled.
\<close>

record hif_monitor =
  mon_callCnt :: u32
  mon_rtnCnt :: u32
  mon_ihmCnt :: u32
  mon_ohmCnt :: u32
  mon_ohdBytes :: u64
  mon_ihdBytes :: u64

definition mon_Clear :: hif_monitor where
  "mon_Clear = \<lparr>mon_callCnt = 0, mon_rtnCnt = 0, mon_ihmCnt = 0, mon_ohmCnt = 0, mon_ohdBytes = 0, mon_ihdBytes = 0\<rparr>"

definition mon_add :: "hif_monitor \<Rightarrow> hif_monitor \<Rightarrow> hif_monitor" where
  "mon_add a b = \<lparr>mon_callCnt = mon_callCnt a + mon_callCnt b, mon_rtnCnt = mon_rtnCnt a + mon_rtnCnt b,
     mon_ihmCnt = mon_ihmCnt a + mon_ihmCnt b, mon_ohmCnt = mon_ohmCnt a + mon_ohmCnt b,
     mon_ohdBytes = mon_ohdBytes a + mon_ohdBytes b, mon_ihdBytes = mon_ihdBytes a + mon_ihdBytes b\<rparr>"

record host_unit = endpoint +
  hu_unitId :: nat
  hu_bUsingCallback :: bool
  hu_bFree :: bool
  hu_recvRtnArgc :: nat
  hu_monitor :: hif_monitor

definition hu_mon :: "(hif_monitor \<Rightarrow> hif_monitor) \<Rightarrow> host_unit \<Rightarrow> host_unit" where
  "hu_mon f s = s\<lparr>hu_monitor := f (hu_monitor s)\<rparr>"

abbreviation IncCallCnt :: "host_unit \<Rightarrow> host_unit" where
  "IncCallCnt \<equiv> hu_mon (\<lambda>m. m\<lparr>mon_callCnt := mon_callCnt m + 1\<rparr>)"
abbreviation IncRtnCnt :: "host_unit \<Rightarrow> host_unit" where
  "IncRtnCnt \<equiv> hu_mon (\<lambda>m. m\<lparr>mon_rtnCnt := mon_rtnCnt m + 1\<rparr>)"
abbreviation IncIhmCnt :: "host_unit \<Rightarrow> host_unit" where
  "IncIhmCnt \<equiv> hu_mon (\<lambda>m. m\<lparr>mon_ihmCnt := mon_ihmCnt m + 1\<rparr>)"
abbreviation IncOhmCnt :: "host_unit \<Rightarrow> host_unit" where
  "IncOhmCnt \<equiv> hu_mon (\<lambda>m. m\<lparr>mon_ohmCnt := mon_ohmCnt m + 1\<rparr>)"
abbreviation IncOhdBytes :: "nat \<Rightarrow> host_unit \<Rightarrow> host_unit" where
  "IncOhdBytes n \<equiv> hu_mon (\<lambda>m. m\<lparr>mon_ohdBytes := mon_ohdBytes m + of_nat n\<rparr>)"
abbreviation IncIhdBytes :: "nat \<Rightarrow> host_unit \<Rightarrow> host_unit" where
  "IncIhdBytes n \<equiv> hu_mon (\<lambda>m. m\<lparr>mon_ihdBytes := mon_ihdBytes m + of_nat n\<rparr>)"

section \<open>The shared routines, by their names on the host\<close>

definition hu_FlushInBlk :: "bool \<Rightarrow> u64 \<Rightarrow> host_unit \<Rightarrow> host_unit option" where
  "hu_FlushInBlk = ep_FlushBlk HIF_CMD_IBLK_RDY"

definition hu_NextOutBlk :: "bool \<Rightarrow> host_unit \<Rightarrow> host_unit option" where
  "hu_NextOutBlk = ep_NextRxBlk HIF_CMD_OBLK_AVL"

definition hu_QueOutMsgs :: "host_unit \<Rightarrow> host_unit option" where
  "hu_QueOutMsgs = ep_QueMsgs HIF_CMD_IBLK_AVL"

definition hu_InBlkTimer :: "host_unit \<Rightarrow> host_unit option" where
  "hu_InBlkTimer = ep_BlkTimer HIF_CMD_IBLK_RDY"

definition hu_FlushHostData :: "host_unit \<Rightarrow> host_unit option" where
  "hu_FlushHostData = hu_FlushInBlk True 0"

section \<open>Construction\<close>

text \<open>
  The constructor. Its sources of values outside the class are arguments: the unit's frequency,
  whether the machine needs flush lines, and the bases of the regions of \<^verbatim>\<open>CHtHifMem\<close>; \<open>raw\<close> holds
  what is not initialised. The first messages it sends are listed by \<open>hu_init_msgs\<close>.
\<close>

definition hu_init_msgs :: "hif_params \<Rightarrow> u32 \<Rightarrow> bool \<Rightarrow> u64 \<Rightarrow> u64 \<Rightarrow> u64 \<Rightarrow> (u8 \<times> u64) list" where
  "hu_init_msgs par mhz needFlush inBase outBase flushBase =
     (let outBlkTimerClks = par_oBlkTimerUSec par * mhz;
          ctlTimerClks = par_ctlTimerUSec par * mhz
      in [(HIF_CMD_IBLK_ADR, inBase),
          (HIF_CMD_OBLK_ADR, outBase),
          (HIF_CMD_IBLK_PARAM, of_nat (par_iBlkSizeW par) OR push_bit 8 (of_nat (par_iBlkCntW par))),
          (HIF_CMD_OBLK_PARAM, of_nat (par_oBlkSizeW par) OR push_bit 8 (of_nat (par_oBlkCntW par)) OR
             push_bit 16 (scast outBlkTimerClks))] @
         map (\<lambda>i. (HIF_CMD_OBLK_AVL, ucast (of_nat i - 16 :: u32))) [0..<2 ^ par_oBlkCntW par] @
         [(HIF_CMD_CTL_PARAM, scast ctlTimerClks)] @
         (if needFlush then [(HIF_CMD_OBLK_FLSH_ADR, flushBase)] else []))"

definition hu_new ::
  "hif_params \<Rightarrow> u32 \<Rightarrow> bool \<Rightarrow> u64 \<Rightarrow> u64 \<Rightarrow> u64 \<Rightarrow> nat \<Rightarrow> (nat \<Rightarrow> ctrl_msg) \<Rightarrow> host_unit \<Rightarrow> host_unit option" where
  "hu_new par mhz needFlush inBase outBase flushBase unitId que raw = do {
     let ctlQueSize = 2 ^ par_ctlQueW par;
     let s = raw\<lparr>hu_unitId := unitId, ep_ctlQueMask := of_nat (ctlQueSize - 1),
       hu_bUsingCallback := False, hu_bFree := False, ep_lock := False\<rparr>;
     ensure ((2 ^ par_iBlkSizeW par - 1) AND 2 ^ par_iBlkSizeW par = (0 :: nat));
     ensure ((2 ^ par_iBlkCntW par - 1) AND 2 ^ par_iBlkCntW par = (0 :: nat));
     ensure ((2 ^ par_oBlkSizeW par - 1) AND 2 ^ par_oBlkSizeW par = (0 :: nat));
     ensure ((2 ^ par_oBlkCntW par - 1) AND 2 ^ par_oBlkCntW par = (0 :: nat));
     ensure (2 ^ par_oBlkCntW par > (1 :: nat));
     let s = s\<lparr>ep_ctlWrIdx := 0, ep_ctlRdIdx := 0,
       ep_txAvail := 2 ^ par_iBlkCntW par, ep_txWrIdx := 0, ep_txBlkIdx := 0,
       ep_txSize := 2 ^ par_iBlkSizeW par div 8, ep_txMask := of_nat (2 ^ par_iBlkCntW par - 1),
       ep_rxDataSize := 0, ep_rxRdIdx := 0, ep_rxBlkIdx := 0,
       ep_rxSize := 2 ^ par_oBlkSizeW par div 8, ep_rxMask := of_nat (2 ^ par_oBlkCntW par - 1),
       hu_recvRtnArgc := 0,
       ep_txBase := inBase, ep_txOff := 0, ep_rxBase := outBase, ep_rxOff := 0,
       ep_msgQue := cq_new que ctlQueSize, hu_monitor := mon_Clear\<rparr>;
     ensure (sint (par_oBlkTimerUSec par * mhz) < 2 ^ 28);
     ensure (sint (par_ctlTimerUSec par * mhz) < 2 ^ 16);
     s \<leftarrow> ep_Lock True s;
     s \<leftarrow> ep_SendMsgs (hu_init_msgs par mhz needFlush inBase outBase flushBase) s;
     Some (ep_Unlock True s)
   }"

section \<open>Sending\<close>

definition hu_SendHostMsg :: "u8 \<Rightarrow> u64 \<Rightarrow> host_unit \<Rightarrow> host_unit option" where
  "hu_SendHostMsg msgType msgData s = do {
     ensure (msgType > 15);
     s \<leftarrow> ep_SendHostMsg HIF_CMD_IBLK_RDY msgType msgData s;
     Some (IncIhmCnt s)
   }"

definition hu_SendDataInternal :: "u64 list \<Rightarrow> bool \<Rightarrow> host_unit \<Rightarrow> (nat \<times> host_unit) option" where
  "hu_SendDataInternal data bLock s = do {
     (sentCnt, fin, s) \<leftarrow> ep_SendData HIF_CMD_IBLK_RDY HIF_CMD_IBLK_AVL data bLock s;
     Some (sentCnt, if fin then IncIhdBytes (sentCnt * 8) s else s)
   }"

definition hu_SendHostData :: "u64 list \<Rightarrow> host_unit \<Rightarrow> (nat \<times> host_unit) option" where
  "hu_SendHostData data s = hu_SendDataInternal data True s"

definition hu_SendHostHalt :: "host_unit \<Rightarrow> (bool \<times> host_unit) option" where
  "hu_SendHostHalt = ep_SendCtl HIF_CMD_IBLK_RDY HIF_CMD_IBLK_AVL HIF_DQ_HALT"

definition hu_SendHostDataMarker :: "host_unit \<Rightarrow> (bool \<times> host_unit) option" where
  "hu_SendHostDataMarker = ep_SendCtl HIF_CMD_IBLK_RDY HIF_CMD_IBLK_AVL HIF_DQ_NULL"

text \<open>
  SendCall. The argument widths \<^verbatim>\<open>pArgw\<close> only sum up to the number of quadwords, the length
  of \<open>argv\<close>. The source's \<^verbatim>\<open>while\<close> runs its body at most once.
\<close>

definition hu_SendCall :: "u64 list \<Rightarrow> host_unit \<Rightarrow> (bool \<times> host_unit) option" where
  "hu_SendCall argv s = do {
     s \<leftarrow> ep_Lock True s;
     s \<leftarrow> hu_FlushInBlk False 0 s;
     (none, s) \<leftarrow> (if ep_txAvail s < 2 then do {
         let s = ep_Unlock True s;
         s \<leftarrow> hu_QueOutMsgs s;
         s \<leftarrow> ep_Lock True s;
         if ep_txAvail s < 2 then Some (True, ep_Unlock True s) else Some (False, s)
       } else Some (False, s));
     if none then Some (False, s)
     else do {
       s \<leftarrow> ep_NextTxBlk s;
       let qwCnt = length argv;
       (cnt, s) \<leftarrow> hu_SendDataInternal argv False s;
       ensure (cnt = qwCnt);
       let size' = push_bit 3 (of_nat qwCnt) OR HIF_DQ_CALL;
       s \<leftarrow> ep_SendMsgInternal HIF_CMD_IBLK_RDY size' False s;
       s \<leftarrow> hu_FlushInBlk False 0 s;
       ensure (ep_txAvail s \<ge> 0);
       Some (True, ep_Unlock True (IncCallCnt s))
     }
   }"

section \<open>Receiving\<close>

text \<open>
  The loop of MsgLoop, after QueOutMsgs; \<open>usecb\<close> is \<^verbatim>\<open>bUseCb && m_bUsingCallback\<close>. A callback may
  do anything to the unit and the loop then looks again.
\<close>

partial_function (option) hu_MsgScan ::
  "(recv_type \<Rightarrow> host_unit \<Rightarrow> host_unit option) \<Rightarrow> bool \<Rightarrow> host_unit \<Rightarrow> (recv_type \<times> host_unit) option" where
  "hu_MsgScan cb bUseCb s =
     (if cq_Empty (ep_msgQue s) then Some (eRecvIdle, s)
      else do {
        ctrlMsg \<leftarrow> cq_Front (ep_msgQue s);
        let msgType = GetMsgType ctrlMsg;
        let msgData = GetMsgData ctrlMsg;
        let usecb = (bUseCb \<and> hu_bUsingCallback s);
        if msgType = HIF_CMD_ASSERT \<or> msgType = HIF_CMD_ASSERT_COLL then do {
          s \<leftarrow> ep_NextMsgQue s;
          hu_MsgScan cb bUseCb s
        } else if msgType = HIF_CMD_OBLK_RDY then
          if msgData AND 7 = HIF_DQ_NULL then do {
            ensure (msgData AND NOT 7 = 0);
            if usecb then do { s \<leftarrow> cb eRecvHostDataMarker s; hu_MsgScan cb bUseCb s }
            else Some (eRecvHostDataMarker, ep_CountPoll s)
          } else if msgData AND 7 = 0 then do {
            let s = (if ep_rxDataSize s = 0 then s\<lparr>ep_rxDataSize := dq_words msgData\<rparr> else s);
            let r = (if hu_recvRtnArgc s > 0 then eRecvReturn else eRecvHostData);
            if usecb then do { s \<leftarrow> cb r s; hu_MsgScan cb bUseCb s }
            else Some (r, ep_CountPoll s)
          } else if msgData AND 7 = HIF_DQ_CALL then
            if dq_words msgData = 0 \<or> cq_Size (ep_msgQue s) \<ge> 2 then
              if usecb then do { s \<leftarrow> cb eRecvReturn s; hu_MsgScan cb bUseCb s }
              else Some (eRecvReturn, ep_CountPoll s)
            else Some (eRecvIdle, s)
          else if msgData AND 7 = HIF_DQ_HALT then do {
            s \<leftarrow> ep_NextMsgQue s;
            s \<leftarrow> hu_NextOutBlk True s;
            Some (eRecvHalt, ep_CountPoll s)
          } else None
        else if msgType \<ge> 16 then
          if usecb then do { s \<leftarrow> cb eRecvHostMsg s; hu_MsgScan cb bUseCb s }
          else Some (eRecvHostMsg, ep_CountPoll s)
        else None
      })"

definition hu_MsgLoop ::
  "(recv_type \<Rightarrow> host_unit \<Rightarrow> host_unit option) \<Rightarrow> bool \<Rightarrow> host_unit \<Rightarrow> (recv_type \<times> host_unit) option" where
  "hu_MsgLoop cb bUseCb s = do { s \<leftarrow> hu_QueOutMsgs s; hu_MsgScan cb bUseCb s }"

abbreviation no_cb :: "recv_type \<Rightarrow> 'z \<Rightarrow> 'z option" where
  "no_cb \<equiv> (\<lambda>_ s. Some s)"

text \<open>\<^verbatim>\<open>MsgLoop()\<close> without callbacks, as the receive routines call it.\<close>

abbreviation hu_Poll :: "host_unit \<Rightarrow> (recv_type \<times> host_unit) option" where
  "hu_Poll \<equiv> hu_MsgLoop no_cb False"

definition hu_RecvPoll ::
  "(recv_type \<Rightarrow> host_unit \<Rightarrow> host_unit option) \<Rightarrow> bool \<Rightarrow> host_unit \<Rightarrow> (recv_type \<times> host_unit) option" where
  "hu_RecvPoll cb bUseCb s = hu_MsgLoop cb bUseCb s"

definition hu_RecvMsgInternal :: "host_unit \<Rightarrow> ((u8 \<times> u64) option \<times> host_unit) option" where
  "hu_RecvMsgInternal s = do {
     (recvType, s) \<leftarrow> hu_Poll s;
     if recvType \<noteq> eRecvHostMsg then Some (None, s)
     else do {
       m \<leftarrow> cq_Front (ep_msgQue s);
       s \<leftarrow> ep_NextMsgQue s;
       Some (Some (GetMsgType m, GetMsgData m), IncOhmCnt s)
     }
   }"

definition hu_RecvHostMsg :: "host_unit \<Rightarrow> ((u8 \<times> u64) option \<times> host_unit) option" where
  "hu_RecvHostMsg s = hu_RecvMsgInternal s"

definition hu_RecvReturn :: "nat \<Rightarrow> host_unit \<Rightarrow> (u64 list option \<times> host_unit) option" where
  "hu_RecvReturn argc s = do {
     (recvType, s) \<leftarrow> hu_Poll s;
     if recvType \<noteq> eRecvReturn then Some (None, s)
     else do {
       s \<leftarrow> (if hu_recvRtnArgc s = 0 then do {
             m \<leftarrow> cq_Front (ep_msgQue s);
             ensure (GetMsgType m = HIF_CMD_OBLK_RDY \<and> GetMsgData m AND 7 = HIF_DQ_CALL);
             let s = s\<lparr>hu_recvRtnArgc := dq_words (GetMsgData m)\<rparr>;
             ensure (argc \<ge> hu_recvRtnArgc s);
             s \<leftarrow> ep_NextMsgQue s;
             hu_NextOutBlk True s
           } else Some s);
       if hu_recvRtnArgc s = 0 then Some (Some [], IncRtnCnt s)
       else do {
         m \<leftarrow> cq_Front (ep_msgQue s);
         if GetMsgType m \<noteq> HIF_CMD_OBLK_RDY then Some (None, s)
         else do {
           ensure (GetMsgData m AND 7 = 0);
           ensure (of_nat (hu_recvRtnArgc s) AND 255 = drop_bit 3 (GetMsgData m) AND 255);
           let argv = heap_load (ep_rxBase s) (unat (ep_rxBlkIdx s AND ep_rxMask s) * ep_rxSize s) argc (ep_heap s);
           s \<leftarrow> ep_NextMsgQue s;
           s \<leftarrow> hu_NextOutBlk True s;
           Some (Some argv, IncRtnCnt (s\<lparr>hu_recvRtnArgc := 0\<rparr>))
         }
       }
     }
   }"

definition hu_HaltLoop :: "host_unit \<Rightarrow> host_unit option" where
  "hu_HaltLoop s = do {
     (r, s) \<leftarrow> hu_Poll s;
     case r of
       eRecvIdle \<Rightarrow> Some s
     | eRecvHalt \<Rightarrow> Some s
     | eRecvReturn \<Rightarrow> do { s \<leftarrow> ep_NextMsgQue s; hu_NextOutBlk True s }
     | eRecvHostData \<Rightarrow> do { s \<leftarrow> ep_NextMsgQue s; hu_NextOutBlk True s }
     | eRecvHostMsg \<Rightarrow> ep_NextMsgQue s
     | _ \<Rightarrow> None
   }"

definition hu_PeekHostData :: "host_unit \<Rightarrow> (u64 option \<times> host_unit) option" where
  "hu_PeekHostData s = do {
     (r, s) \<leftarrow> (if ep_rxDataSize s = 0 then hu_Poll s else Some (eRecvHostData, s));
     if r \<noteq> eRecvHostData then Some (None, s)
     else do {
       ensure (ep_rxDataSize s > 0);
       Some (Some (ep_heap s (ep_rxBase s) (ep_rxOff s + ep_rxRdIdx s)), s)
     }
   }"

definition hu_RecvHostDataMarker :: "host_unit \<Rightarrow> (bool \<times> host_unit) option" where
  "hu_RecvHostDataMarker s =
     (if hu_recvRtnArgc s > 0 \<or> ep_rxDataSize s > 0 then Some (False, s)
      else do {
        (r, s) \<leftarrow> hu_Poll s;
        if r \<noteq> eRecvHostDataMarker then Some (False, s)
        else do { s \<leftarrow> ep_NextMsgQue s; s \<leftarrow> hu_NextOutBlk True s; Some (True, s) }
      })"

text \<open>The loop of RecvHostData; \<open>rcvd\<close> is what has been stored so far.\<close>

partial_function (option) hu_RecvLoop ::
  "nat \<Rightarrow> u64 list \<Rightarrow> host_unit \<Rightarrow> (u64 list \<times> host_unit) option" where
  "hu_RecvLoop qwCnt rcvd s =
     (if qwCnt \<le> length rcvd then Some (rcvd, s)
      else do {
        (r, s) \<leftarrow> (if ep_rxDataSize s > 0 then Some (eRecvHostData, s) else hu_Poll s);
        if r \<noteq> eRecvHostData then Some (rcvd, s)
        else do {
          let cnt = min (ep_rxDataSize s) (qwCnt - length rcvd);
          let data = heap_load (ep_rxBase s) (ep_rxOff s + ep_rxRdIdx s) cnt (ep_heap s);
          let s = s\<lparr>ep_rxRdIdx := ep_rxRdIdx s + cnt, ep_rxDataSize := ep_rxDataSize s - cnt\<rparr>;
          s \<leftarrow> (if ep_rxDataSize s = 0 then do { s \<leftarrow> ep_NextMsgQue s; hu_NextOutBlk True s }
                else Some (s\<lparr>ep_loopCnt := 0\<rparr>));
          hu_RecvLoop qwCnt (rcvd @ data) s
        }
      })"

definition hu_RecvHostData :: "nat \<Rightarrow> host_unit \<Rightarrow> (u64 list \<times> host_unit) option" where
  "hu_RecvHostData qwCnt s =
     (if hu_recvRtnArgc s > 0 then Some ([], s)
      else do {
        (rcvd, s) \<leftarrow> hu_RecvLoop qwCnt [] s;
        Some (rcvd, IncOhdBytes (length rcvd * 8) s)
      })"

end
