(* ===== verification/HifLink.thy ===== *)
theory HifLink
  imports HifEnd
begin

text \<open>
  The two sides together. A direction of the link carries control messages through a ring and
  data through blocks; the facts here are stated for a sender \<open>a\<close> and a receiver \<open>b\<close>, and used in
  both directions. The abstract content of a direction is a sequence of events, what has been
  sent and not yet been received; every operation of the sender appends to it, every operation
  of the receiver takes from its front, and nothing else changes it.
\<close>

section \<open>The control ring\<close>

definition ring_size :: "'z endpoint_scheme \<Rightarrow> nat" where
  "ring_size s = unat (ep_ctlQueMask s) + 1"

text \<open>A ring that holds exactly the messages \<open>ms\<close>, from the reader's slot on.\<close>

definition ring_holds :: "nat \<Rightarrow> (nat \<Rightarrow> ctrl_msg) \<Rightarrow> nat \<Rightarrow> ctrl_msg list \<Rightarrow> bool" where
  "ring_holds n q rd ms \<longleftrightarrow> length ms \<le> n \<and>
     (\<forall>i < n. if i < length ms then q ((rd + i) mod n) = ms ! i \<and> IsValid (ms ! i)
              else \<not> IsValid (q ((rd + i) mod n)))"

definition ctl_msgs :: "'z endpoint_scheme \<Rightarrow> ctrl_msg list" where
  "ctl_msgs s = takeWhile IsValid (ring_list (ring_size s) (ep_rxq s) (unat (ep_ctlRdIdx s)) (ring_size s))"

lemma ring_holds_takeWhile:
  assumes "ring_holds n q rd ms"
  shows "takeWhile IsValid (ring_list n q rd n) = ms"
proof -
  let ?l = "ring_list n q rd n"
  have "takeWhile IsValid ?l = take (length ms) ?l"
    using assms by (intro takeWhile_eq_take_P_nth) (auto simp: ring_holds_def)
  also have "\<dots> = ms"
    using assms by (intro nth_equalityI) (auto simp: ring_holds_def)
  finally show ?thesis .
qed

lemma ring_holds_empty: "(\<forall>i. \<not> IsValid (q i)) \<Longrightarrow> ring_holds n q rd []"
  by (simp add: ring_holds_def)

lemma ring_holds_mod [simp]: "ring_holds n q (rd mod n) ms = ring_holds n q rd ms"
  by (simp add: ring_holds_def mod_add_left_eq)

lemma ring_holds_hd:
  assumes "ring_holds n q rd ms" "0 < n"
  shows "IsValid (q (rd mod n)) \<longleftrightarrow> ms \<noteq> []" and "ms \<noteq> [] \<Longrightarrow> q (rd mod n) = hd ms"
  using assms(1) [unfolded ring_holds_def, THEN conjunct2, THEN spec, of 0] assms(2)
  by (auto simp: hd_conv_nth split: if_splits)

lemma ring_holds_room:
  assumes "ring_holds n q rd ms" "0 < n"
  shows "IsValid (q ((rd + length ms) mod n)) \<longleftrightarrow> length ms = n"
proof (cases "length ms = n")
  case True
  with assms show ?thesis by (auto simp: ring_holds_def)
next
  case False
  with assms show ?thesis by (auto simp: ring_holds_def)
qed

lemma ring_holds_push:
  assumes h: "ring_holds n q rd ms" and room: "length ms < n" and v: "IsValid m"
  shows "ring_holds n (q((rd + length ms) mod n := m)) rd (ms @ [m])"
  unfolding ring_holds_def
proof (intro conjI allI impI)
  show "length (ms @ [m]) \<le> n" using room by simp
  fix i
  assume i: "i < n"
  have ne: "(rd + i) mod n \<noteq> (rd + length ms) mod n" if "i \<noteq> length ms"
  proof (cases "i < length ms")
    case True
    then show ?thesis using room by (intro ring_slot_neq) auto
  next
    case False
    then have "(rd + length ms) mod n \<noteq> (rd + i) mod n" using that i by (intro ring_slot_neq) auto
    then show ?thesis by simp
  qed
  show "if i < length (ms @ [m]) then (q((rd + length ms) mod n := m)) ((rd + i) mod n) = (ms @ [m]) ! i \<and> IsValid ((ms @ [m]) ! i)
        else \<not> IsValid ((q((rd + length ms) mod n := m)) ((rd + i) mod n))"
    using h i v ne by (cases "i = length ms") (auto simp: ring_holds_def nth_append)
qed

lemma ring_holds_pop:
  assumes h: "ring_holds n q rd (m # ms)"
  shows "ring_holds n (q(rd mod n := msg_Clear (q (rd mod n)))) (Suc rd) ms"
  unfolding ring_holds_def
proof (intro conjI allI impI)
  have n: "Suc (length ms) \<le> n" using h by (simp add: ring_holds_def)
  then show "length ms \<le> n" by simp
  fix i
  assume i: "i < n"
  show "if i < length ms then (q(rd mod n := msg_Clear (q (rd mod n)))) ((Suc rd + i) mod n) = ms ! i \<and> IsValid (ms ! i)
        else \<not> IsValid ((q(rd mod n := msg_Clear (q (rd mod n)))) ((Suc rd + i) mod n))"
  proof (cases "Suc i = n")
    case True
    then have "(Suc rd + i) mod n = (rd + n) mod n" by (metis add_Suc add_Suc_right)
    then have "(Suc rd + i) mod n = rd mod n" by simp
    then show ?thesis using True n by (simp add: msg_Clear_def)
  next
    case False
    then have "(rd + 0) mod n \<noteq> (rd + Suc i) mod n" using i by (intro ring_slot_neq) auto
    moreover have "Suc i < n" using i False by simp
    then have "if Suc i < length (m # ms) then q ((rd + Suc i) mod n) = (m # ms) ! Suc i \<and> IsValid ((m # ms) ! Suc i)
      else \<not> IsValid (q ((rd + Suc i) mod n))"
      using h unfolding ring_holds_def by blast
    ultimately show ?thesis by (auto split: if_splits)
  qed
qed

section \<open>Events\<close>

datatype event = EData u64 | EMark | ECall nat | EHalt | EMsg u8 u64

text \<open>The block-ready message of \<open>n\<close> quadwords with control code \<open>c\<close>.\<close>

definition blk_msg :: "u8 \<Rightarrow> nat \<Rightarrow> u64 \<Rightarrow> ctrl_msg" where
  "blk_msg rdy n c = CHtCtrlMsg rdy (push_bit 3 (of_nat n) OR c)"

definition dq_code :: "ctrl_msg \<Rightarrow> u64" where
  "dq_code m = GetMsgData m AND 7"

text \<open>The events of a block, given the block's first quadwords.\<close>

definition blk_events :: "u64 \<Rightarrow> (nat \<Rightarrow> u64 list) \<Rightarrow> event list" where
  "blk_events d words =
     (if d AND 7 = 0 then map EData (words (dq_words d))
      else if d AND 7 = HIF_DQ_NULL then [EMark]
      else if d AND 7 = HIF_DQ_CALL then [ECall (dq_words d)]
      else [EHalt])"

text \<open>The events of a sequence of messages; block-ready messages use the blocks \<open>k, k + 1, \<dots>\<close>.\<close>

fun decode :: "u8 \<Rightarrow> (nat \<Rightarrow> nat \<Rightarrow> u64 list) \<Rightarrow> nat \<Rightarrow> ctrl_msg list \<Rightarrow> event list" where
  "decode rdy blk k [] = []"
| "decode rdy blk k (m # ms) =
     (if GetMsgType m = rdy then blk_events (GetMsgData m) (blk k) @ decode rdy blk (Suc k) ms
      else if GetMsgType m \<ge> 16 then EMsg (GetMsgType m) (GetMsgData m) # decode rdy blk k ms
      else decode rdy blk k ms)"

definition count_type :: "u8 \<Rightarrow> ctrl_msg list \<Rightarrow> nat" where
  "count_type t ms = length (filter (\<lambda>m. GetMsgType m = t) ms)"

lemma count_type_simps [simp]:
  "count_type t [] = 0"
  "count_type t (m # ms) = of_bool (GetMsgType m = t) + count_type t ms"
  "count_type t (ms @ ns) = count_type t ms + count_type t ns"
  by (simp_all add: count_type_def)

lemma decode_append:
  "decode rdy blk k (ms @ ns) = decode rdy blk k ms @ decode rdy blk (k + count_type rdy ms) ns"
  by (induction ms arbitrary: k) auto

text \<open>Only the blocks that are in flight, and in them only the words announced, are read.\<close>

lemma decode_cong:
  assumes "\<And>j n. k \<le> j \<Longrightarrow> j < k + count_type rdy ms \<Longrightarrow> n \<le> sz \<Longrightarrow> blk j n = blk' j n"
    and "\<And>m. m \<in> set ms \<Longrightarrow> GetMsgType m = rdy \<Longrightarrow> GetMsgData m AND 7 = 0 \<Longrightarrow> dq_words (GetMsgData m) \<le> sz"
  shows "decode rdy blk k ms = decode rdy blk' k ms"
  using assms
proof (induction ms arbitrary: k)
  case (Cons m ms)
  have IH: "decode rdy blk k' ms = decode rdy blk' k' ms"
    if "k' = k + of_bool (GetMsgType m = rdy)" for k'
    by (rule Cons.IH) (use Cons.prems that in auto)
  then show ?case using Cons.prems by (auto simp: blk_events_def)
qed simp

lemma mask_3: "(7 :: u64) = mask 3"
  by (simp add: mask_eq_exp_minus_1)

lemma of_nat_bit_high:
  assumes "n < 2 ^ k" "bit (of_nat n :: u64) i"
  shows "i < k"
proof (rule ccontr)
  assume "\<not> i < k"
  then have "(2::nat) ^ k \<le> 2 ^ i" by (intro power_increasing) auto
  then have "n div 2 ^ i = 0" using assms(1) by (intro div_less) linarith
  moreover have "bit n i" using assms(2) by (simp add: bit_simps)
  ultimately show False by (simp add: bit_iff_odd)
qed

lemma blk_msg_fields:
  assumes "rdy < 16" "n < 2 ^ 29" "c AND mask 3 = c"
  shows "GetMsgType (blk_msg rdy n c) = rdy"
    and "GetMsgData (blk_msg rdy n c) = push_bit 3 (of_nat n) OR c"
    and "GetMsgData (blk_msg rdy n c) AND 7 = c"
    and "dq_words (GetMsgData (blk_msg rdy n c)) = n"
    and "drop_bit 3 (GetMsgData (blk_msg rdy n c)) = of_nat n"
proof -
  have c: "\<not> bit c i" if "3 \<le> i" for i
    using assms(3) that by (metis bit_and_iff bit_mask_iff leD)
  have n: "\<not> bit (of_nat n :: u64) i" if "29 \<le> i" for i
    using of_nat_bit_high [OF assms(2)] that by (meson leD)
  have "rdy AND mask 7 = rdy"
    using assms(1) by (intro and_mask_id) (simp add: word_less_nat_alt)
  then show "GetMsgType (blk_msg rdy n c) = rdy" by (simp add: blk_msg_def GetMsgType_msg)
  note bits = bit_and_iff bit_or_iff bit_push_bit_iff bit_drop_bit_eq bit_mask_iff comp_def
  have d: "(push_bit 3 (of_nat n) OR c) AND mask 56 = (push_bit 3 (of_nat n) OR c :: u64)"
    by (rule bit_eqI, simp only: bits) (auto simp: c n not_less intro: ccontr)
  then show data: "GetMsgData (blk_msg rdy n c) = push_bit 3 (of_nat n) OR c"
    by (simp add: blk_msg_def GetMsgData_msg)
  show "GetMsgData (blk_msg rdy n c) AND 7 = c"
    unfolding data mask_3 by (rule bit_eqI, simp only: bits) (use c not_less in auto)
  have drop: "drop_bit 3 (push_bit 3 (of_nat n) OR c) = (of_nat n :: u64)"
  proof (rule bit_eqI, simp only: bits)
    fix i
    show "3 \<le> 3 + i \<and> possible_bit TYPE(u64) (3 + i) \<and> bit (of_nat n :: u64) (3 + i - 3) \<or> bit c (3 + i) \<longleftrightarrow>
        bit (of_nat n :: u64) i"
      by (cases "i < 29") (simp_all add: c n)
  qed
  then show "drop_bit 3 (GetMsgData (blk_msg rdy n c)) = of_nat n" by (simp add: data)
  show "dq_words (GetMsgData (blk_msg rdy n c)) = n"
    using assms(2) unfolding data dq_words_def drop by (simp add: unsigned_ucast_eq take_bit_eq_mod unat_of_nat)
qed

section \<open>The link\<close>

text \<open>
  A direction of the link: the sender's block-ready command, the receiver's block-available
  command, log2 of the number of blocks, the size of a block in quadwords and its blocks' base.
\<close>

record direction =
  d_rdy :: u8
  d_avl :: u8
  d_cw :: nat
  d_sz :: nat
  d_base :: u64

definition flight :: "'z endpoint_scheme \<Rightarrow> ctrl_msg list" where
  "flight s = cq_entries (ep_msgQue s) @ ctl_msgs s"

definition ring_ok :: "'y endpoint_scheme \<Rightarrow> 'z endpoint_scheme \<Rightarrow> bool" where
  "ring_ok a b \<longleftrightarrow> (\<exists>w \<le> 31. ep_ctlQueMask a = mask w \<and> ep_ctlQueMask b = mask w) \<and>
     ep_rxq b = ep_txq a \<and>
     ring_holds (ring_size b) (ep_rxq b) (unat (ep_ctlRdIdx b)) (ctl_msgs b) \<and>
     ep_ctlWrIdx a = ep_ctlRdIdx b + of_nat (length (ctl_msgs b))"

text \<open>The messages a sender puts on the link, and how they follow each other.\<close>

definition msg_ok :: "direction \<Rightarrow> direction \<Rightarrow> ctrl_msg \<Rightarrow> bool" where
  "msg_ok D E m \<longleftrightarrow> GetMsgType m = d_avl E \<or> GetMsgType m \<ge> 16 \<or>
     (\<exists>n c. m = blk_msg (d_rdy D) n c \<and>
        (c = 0 \<and> 0 < n \<and> n \<le> d_sz D \<or> (c = HIF_DQ_NULL \<or> c = HIF_DQ_HALT) \<and> n = 0 \<or> c = HIF_DQ_CALL \<and> n < d_sz D))"

fun wf_msgs :: "direction \<Rightarrow> direction \<Rightarrow> ctrl_msg list \<Rightarrow> bool" where
  "wf_msgs D E [] = True"
| "wf_msgs D E (m # ms) =
     (msg_ok D E m \<and>
      (\<forall>n. 0 < n \<and> n < d_sz D \<and> m = blk_msg (d_rdy D) n HIF_DQ_CALL \<longrightarrow> (\<exists>ns. ms = blk_msg (d_rdy D) n 0 # ns)) \<and>
      wf_msgs D E ms)"

definition geo :: "direction \<Rightarrow> 'y endpoint_scheme \<Rightarrow> 'z endpoint_scheme \<Rightarrow> bool" where
  "geo D a b \<longleftrightarrow>
     ep_txMask a = mask (d_cw D) \<and> ep_rxMask b = mask (d_cw D) \<and>
     ep_txSize a = d_sz D \<and> ep_rxSize b = d_sz D \<and> ep_txBase a = d_base D \<and> ep_rxBase b = d_base D \<and>
     ep_txOff a = unat (ep_txBlkIdx a) mod 2 ^ d_cw D * d_sz D \<and>
     ep_rxOff b = unat (ep_rxBlkIdx b) mod 2 ^ d_cw D * d_sz D"

text \<open>Every block is free at the sender, announced and not yet freed, or on its way back.\<close>

definition credit :: "direction \<Rightarrow> 'y endpoint_scheme \<Rightarrow> 'z endpoint_scheme \<Rightarrow> bool" where
  "credit D a b \<longleftrightarrow>
     ep_txBlkIdx a = ep_rxBlkIdx b + of_nat (count_type (d_rdy D) (flight b)) \<and>
     0 \<le> ep_txAvail a \<and>
     ep_txAvail a + int (count_type (d_rdy D) (flight b)) + int (count_type (d_avl D) (ctl_msgs a)) = 2 ^ d_cw D \<and>
     ep_txWrIdx a \<le> d_sz D \<and> (0 < ep_txWrIdx a \<longrightarrow> 0 < ep_txAvail a)"

text \<open>A partly read block is the one announced by the message at the front of the queue.\<close>

definition cursor :: "direction \<Rightarrow> ctrl_msg list \<Rightarrow> nat \<Rightarrow> nat \<Rightarrow> bool" where
  "cursor D queue rdIdx dataSize \<longleftrightarrow>
     (if dataSize = 0 then rdIdx = 0
      else \<exists>ms. queue = blk_msg (d_rdy D) (rdIdx + dataSize) 0 # ms \<and> rdIdx + dataSize \<le> d_sz D)"

text \<open>The queue a ring is emptied into holds at least a call and its arguments.\<close>

definition que_ok :: "ctrl_msg cqueue \<Rightarrow> bool" where
  "que_ok q \<longleftrightarrow> cq_inv q \<and> 2 \<le> cq_cap q"

lemma que_ok_inv: "que_ok q \<Longrightarrow> cq_inv q"
  by (simp add: que_ok_def)

lemma que_Push_ok:
  "que_ok q \<Longrightarrow> \<not> cq_IsFull q \<Longrightarrow> \<exists>q'. cq_Push x q = Some q' \<and> que_ok q' \<and> cq_entries q' = cq_entries q @ [x]"
  unfolding que_ok_def using cq_Push_ok [of q x] by fastforce

lemma que_Pop_ok:
  "que_ok q \<Longrightarrow> \<not> cq_IsEmpty q \<Longrightarrow> \<exists>q'. cq_Pop q = Some q' \<and> que_ok q' \<and> cq_entries q' = tl (cq_entries q)"
  unfolding que_ok_def using cq_Pop_ok [of q] by fastforce

definition chan :: "direction \<Rightarrow> direction \<Rightarrow> 'y endpoint_scheme \<Rightarrow> 'z endpoint_scheme \<Rightarrow> bool" where
  "chan D E a b \<longleftrightarrow>
     ring_ok a b \<and> que_ok (ep_msgQue b) \<and> count_type (d_avl D) (cq_entries (ep_msgQue a)) = 0 \<and>
     geo D a b \<and> credit D a b \<and> wf_msgs D E (flight b) \<and>
     cursor D (cq_entries (ep_msgQue b)) (ep_rxRdIdx b) (ep_rxDataSize b)"

definition codes_ok :: "direction \<Rightarrow> direction \<Rightarrow> bool" where
  "codes_ok D E \<longleftrightarrow> distinct [d_rdy D, d_avl D, d_rdy E, d_avl E] \<and>
     d_rdy D < 10 \<and> d_avl D < 10 \<and> d_rdy E < 10 \<and> d_avl E < 10 \<and>
     d_cw D \<le> 6 \<and> d_cw E \<le> 6 \<and> 0 < d_sz D \<and> 0 < d_sz E \<and> d_sz D \<le> 2 ^ 22 \<and> d_sz E \<le> 2 ^ 22 \<and>
     d_base D \<noteq> d_base E"

definition link :: "direction \<Rightarrow> direction \<Rightarrow> 'y endpoint_scheme \<Rightarrow> 'z endpoint_scheme \<Rightarrow> bool" where
  "link D E a b \<longleftrightarrow> codes_ok D E \<and> chan D E a b \<and> chan E D b a \<and> ep_heap b = ep_heap a"

text \<open>What the other side sees after an operation of one side.\<close>

definition see :: "'y endpoint_scheme \<Rightarrow> 'z endpoint_scheme \<Rightarrow> 'z endpoint_scheme" where
  "see a b = b\<lparr>ep_txq := ep_rxq a, ep_rxq := ep_txq a, ep_heap := ep_heap a\<rparr>"

text \<open>What is sent and not yet received.\<close>

definition blk_words :: "direction \<Rightarrow> (u64 \<Rightarrow> nat \<Rightarrow> u64) \<Rightarrow> nat \<Rightarrow> nat \<Rightarrow> u64 list" where
  "blk_words D h k n = heap_load (d_base D) (k mod 2 ^ d_cw D * d_sz D) n h"

definition arrived :: "direction \<Rightarrow> 'z endpoint_scheme \<Rightarrow> event list" where
  "arrived D b = drop (ep_rxRdIdx b) (decode (d_rdy D) (blk_words D (ep_heap b)) (unat (ep_rxBlkIdx b)) (flight b))"

definition staged :: "'z endpoint_scheme \<Rightarrow> event list" where
  "staged a = map EData (heap_load (ep_txBase a) (ep_txOff a) (ep_txWrIdx a) (ep_heap a))"

definition pend :: "direction \<Rightarrow> 'y endpoint_scheme \<Rightarrow> 'z endpoint_scheme \<Rightarrow> event list" where
  "pend D a b = arrived D b @ staged a"

lemma see_simps [simp]:
  "ep_txq (see a b) = ep_rxq a" "ep_rxq (see a b) = ep_txq a" "ep_heap (see a b) = ep_heap a"
  "ep_lock (see a b) = ep_lock b" "ep_ctlQueMask (see a b) = ep_ctlQueMask b"
  "ep_ctlWrIdx (see a b) = ep_ctlWrIdx b" "ep_ctlRdIdx (see a b) = ep_ctlRdIdx b"
  "ep_msgQue (see a b) = ep_msgQue b" "ep_txAvail (see a b) = ep_txAvail b"
  "ep_txWrIdx (see a b) = ep_txWrIdx b" "ep_txBlkIdx (see a b) = ep_txBlkIdx b"
  "ep_txSize (see a b) = ep_txSize b" "ep_txMask (see a b) = ep_txMask b" "ep_txBase (see a b) = ep_txBase b"
  "ep_txOff (see a b) = ep_txOff b" "ep_rxDataSize (see a b) = ep_rxDataSize b"
  "ep_rxRdIdx (see a b) = ep_rxRdIdx b" "ep_rxBlkIdx (see a b) = ep_rxBlkIdx b"
  "ep_rxSize (see a b) = ep_rxSize b" "ep_rxMask (see a b) = ep_rxMask b" "ep_rxBase (see a b) = ep_rxBase b"
  "ep_rxOff (see a b) = ep_rxOff b"
  by (simp_all add: see_def)

lemma link_see: "link D E a b \<Longrightarrow> see a b = b"
  by (simp add: link_def chan_def ring_ok_def see_def)

lemma see_see [simp]: "see a (see c b) = see a b"
  by (simp add: see_def)

lemma link_sym: "link D E a b \<longleftrightarrow> link E D b a"
  by (auto simp: link_def codes_ok_def)

text \<open>The members no invariant is about.\<close>

lemma link_frame:
  "link D E (a\<lparr>ep_lock := l\<rparr>) b = link D E a b"
  "link D E (a\<lparr>ep_loopCnt := c\<rparr>) b = link D E a b"
  by (simp_all add: link_def chan_def ring_ok_def ring_size_def geo_def credit_def flight_def ctl_msgs_def)

lemma pend_frame:
  "pend D (a\<lparr>ep_lock := l\<rparr>) b = pend D a b" "pend D a (b\<lparr>ep_lock := l\<rparr>) = pend D a b"
  "pend D (a\<lparr>ep_loopCnt := c\<rparr>) b = pend D a b" "pend D a (b\<lparr>ep_loopCnt := c\<rparr>) = pend D a b"
  by (simp_all add: pend_def arrived_def staged_def flight_def ctl_msgs_def ring_size_def)

section \<open>Ring operations of a side\<close>

lemma ring_size_mask: "w \<le> 31 \<Longrightarrow> ep_ctlQueMask s = mask w \<Longrightarrow> ring_size s = 2 ^ w"
proof -
  assume w: "w \<le> 31" "ep_ctlQueMask s = mask w"
  have "unat (push_bit w 1 :: u32) = 2 ^ w" using w(1) by (intro unat_push_bit_one) simp
  then have "unat (push_bit w 1 - 1 :: u32) = 2 ^ w - 1"
    by (metis unat_minus_one unat_0 power_not_zero zero_neq_numeral)
  then show ?thesis by (simp only: ring_size_def w(2) mask_eq_push_bit_minus_one) simp
qed

lemma ctl_slot_mod: "w \<le> 31 \<Longrightarrow> ep_ctlQueMask s = mask w \<Longrightarrow> ctl_slot s idx = unat idx mod ring_size s"
  by (simp add: ctl_slot_def unat_and_mask ring_size_mask)

lemma ctl_msgsI: "ring_holds (ring_size s) (ep_rxq s) (unat (ep_ctlRdIdx s)) ms \<Longrightarrow> ctl_msgs s = ms"
  by (simp add: ctl_msgs_def ring_holds_takeWhile)

lemma ctl_msgs_cong:
  "ep_rxq b' = ep_rxq b \<Longrightarrow> ep_ctlRdIdx b' = ep_ctlRdIdx b \<Longrightarrow> ep_ctlQueMask b' = ep_ctlQueMask b \<Longrightarrow>
   ctl_msgs b' = ctl_msgs b"
  by (simp add: ctl_msgs_def ring_size_def)

lemma ring_ok_cong:
  assumes "ring_ok a b" "ep_ctlQueMask a' = ep_ctlQueMask a" "ep_ctlWrIdx a' = ep_ctlWrIdx a" "ep_txq a' = ep_txq a"
    "ep_ctlQueMask b' = ep_ctlQueMask b" "ep_ctlRdIdx b' = ep_ctlRdIdx b" "ep_rxq b' = ep_rxq b"
  shows "ring_ok a' b'"
proof -
  have same: "ctl_msgs b' = ctl_msgs b" "ring_size b' = ring_size b"
    using assms by (auto intro: ctl_msgs_cong simp: ring_size_def)
  show ?thesis using assms(1) unfolding ring_ok_def assms(2-7) same .
qed

lemma ring_ok_qs: "ring_ok a b \<Longrightarrow> ep_rxq b = ep_txq a"
  by (simp add: ring_ok_def)

text \<open>The reader's slot.\<close>

lemma ring_ok_read:
  assumes "ring_ok a b"
  shows "IsValid (ep_rxq b (ctl_slot b (ep_ctlRdIdx b))) \<longleftrightarrow> ctl_msgs b \<noteq> []"
    and "ctl_msgs b \<noteq> [] \<Longrightarrow> ep_rxq b (ctl_slot b (ep_ctlRdIdx b)) = hd (ctl_msgs b)"
  using assms ring_holds_hd [of "ring_size b" "ep_rxq b" "unat (ep_ctlRdIdx b)" "ctl_msgs b"]
  by (auto simp: ring_ok_def ctl_slot_mod ring_size_mask)

lemma ring_ok_wr_slot:
  assumes "ring_ok a b"
  shows "ctl_slot a (ep_ctlWrIdx a) = (unat (ep_ctlRdIdx b) + length (ctl_msgs b)) mod ring_size b"
proof -
  obtain w where w: "w \<le> 31" "ep_ctlQueMask a = mask w" "ep_ctlQueMask b = mask w"
    "ep_ctlWrIdx a = ep_ctlRdIdx b + of_nat (length (ctl_msgs b))"
    using assms by (auto simp: ring_ok_def)
  have "(2::nat) ^ w dvd 2 ^ 32" using w(1) by (intro le_imp_power_dvd) simp
  then have "unat (ep_ctlRdIdx b + of_nat (length (ctl_msgs b))) mod 2 ^ w =
      (unat (ep_ctlRdIdx b) + length (ctl_msgs b)) mod 2 ^ w"
    by (simp only: unat_word_ariths) (simp add: unat_of_nat mod_mod_cancel mod_add_right_eq)
  then show ?thesis using w by (simp add: ctl_slot_mod ring_size_mask)
qed

text \<open>The writer's slot is free exactly when the ring has room.\<close>

lemma ring_ok_room:
  assumes "ring_ok a b"
  shows "IsValid (ep_txq a (ctl_slot a (ep_ctlWrIdx a))) \<longleftrightarrow> length (ctl_msgs b) = ring_size b"
proof -
  have "0 < ring_size b" by (simp add: ring_size_def)
  moreover have "ep_txq a = ep_rxq b" "ring_holds (ring_size b) (ep_rxq b) (unat (ep_ctlRdIdx b)) (ctl_msgs b)"
    using assms unfolding ring_ok_def by metis+
  ultimately show ?thesis unfolding ring_ok_wr_slot [OF assms] by (simp add: ring_holds_room)
qed

lemma ring_ok_len: "ring_ok a b \<Longrightarrow> length (ctl_msgs b) \<le> ring_size b"
  by (simp add: ring_ok_def ring_holds_def)

lemma ctl_msgs_see [simp]:
  "ring_size (see a b) = ring_size b"
  by (simp add: ring_size_def)


text \<open>Writing the free slot appends a message; the other ring is not touched.\<close>

definition put_msg :: "ctrl_msg \<Rightarrow> 'z endpoint_scheme \<Rightarrow> 'z endpoint_scheme" where
  "put_msg m a = a\<lparr>ep_ctlWrIdx := ep_ctlWrIdx a + 1, ep_txq := (ep_txq a)(ctl_slot a (ep_ctlWrIdx a) := m)\<rparr>"

lemma SendMsgInternal_put:
  assumes "ring_ok a b" "ep_lock a"
  shows "ep_SendMsgInternal t d False a =
    (if length (ctl_msgs b) < ring_size b then Some (put_msg (CHtCtrlMsg t d) a) else None)"
  using ring_ok_room [OF assms(1)] ring_ok_len [OF assms(1)] assms(2)
  by (auto simp: ep_SendMsgInternal_def ep_Lock_def ep_Unlock_def put_msg_def)

lemma put_msg_ring:
  assumes "ring_ok a b" "IsValid m" "length (ctl_msgs b) < ring_size b"
  shows "ring_ok (put_msg m a) (see (put_msg m a) b)"
    and "ctl_msgs (see (put_msg m a) b) = ctl_msgs b @ [m]"
proof -
  obtain w where w: "w \<le> 31" "ep_ctlQueMask a = mask w" "ep_ctlQueMask b = mask w"
    and wr: "ep_ctlWrIdx a = ep_ctlRdIdx b + of_nat (length (ctl_msgs b))" and q: "ep_rxq b = ep_txq a"
    and h: "ring_holds (ring_size b) (ep_rxq b) (unat (ep_ctlRdIdx b)) (ctl_msgs b)"
    using assms(1) by (auto simp: ring_ok_def)
  let ?b = "see (put_msg m a) b"
  have "ep_rxq ?b = (ep_rxq b)((unat (ep_ctlRdIdx b) + length (ctl_msgs b)) mod ring_size b := m)"
    by (simp only: see_simps put_msg_def ring_ok_wr_slot [OF assms(1)] q) simp
  then have h': "ring_holds (ring_size ?b) (ep_rxq ?b) (unat (ep_ctlRdIdx ?b)) (ctl_msgs b @ [m])"
    using ring_holds_push [OF h assms(3,2)] by simp
  then show ms: "ctl_msgs ?b = ctl_msgs b @ [m]" by (rule ctl_msgsI)
  show "ring_ok (put_msg m a) ?b"
    using w wr h' unfolding ring_ok_def ms by (auto simp: put_msg_def)
qed

lemma put_msg_ring_back:
  assumes "ring_ok b a"
  shows "ring_ok (see (put_msg m a) b) (put_msg m a)" "ctl_msgs (put_msg m a) = ctl_msgs a"
  using assms by (auto simp: ring_ok_def put_msg_def ctl_msgs_def ring_size_def)

text \<open>Clearing the read slot takes the first message off the ring.\<close>

definition drop_msg :: "'z endpoint_scheme \<Rightarrow> 'z endpoint_scheme" where
  "drop_msg b = b\<lparr>ep_rxq := (ep_rxq b)(ctl_slot b (ep_ctlRdIdx b) := msg_Clear (ep_rxq b (ctl_slot b (ep_ctlRdIdx b)))),
     ep_ctlRdIdx := ep_ctlRdIdx b + 1\<rparr>"

lemma NextMsg_drop:
  assumes "ring_ok a b" "ctl_msgs b \<noteq> []"
  shows "ep_NextMsg b = Some (drop_msg b)"
  using ring_ok_read [OF assms(1)] assms(2) by (simp add: ep_NextMsg_def drop_msg_def)

lemma drop_msg_ring:
  assumes "ring_ok a b" "ctl_msgs b \<noteq> []"
  shows "ring_ok (see (drop_msg b) a) (drop_msg b)" and "ctl_msgs (drop_msg b) = tl (ctl_msgs b)"
proof -
  obtain w where w: "w \<le> 31" "ep_ctlQueMask a = mask w" "ep_ctlQueMask b = mask w"
    and wr: "ep_ctlWrIdx a = ep_ctlRdIdx b + of_nat (length (ctl_msgs b))" and q: "ep_rxq b = ep_txq a"
    and h: "ring_holds (ring_size b) (ep_rxq b) (unat (ep_ctlRdIdx b)) (ctl_msgs b)"
    using assms(1) by (auto simp: ring_ok_def)
  let ?b = "drop_msg b"
  obtain m ms where ms: "ctl_msgs b = m # ms" using assms(2) by (cases "ctl_msgs b") auto
  have n: "ring_size ?b = ring_size b" by (simp add: ring_size_def drop_msg_def)
  have "unat (ep_ctlRdIdx ?b) mod ring_size b = Suc (unat (ep_ctlRdIdx b)) mod ring_size b"
    using w by (simp add: drop_msg_def ring_size_mask unat_add_one_mod_pow)
  moreover have "ring_holds (ring_size b) (ep_rxq ?b) (Suc (unat (ep_ctlRdIdx b))) ms"
    using ring_holds_pop [OF h [unfolded ms]] w by (simp add: drop_msg_def ctl_slot_mod)
  ultimately have h': "ring_holds (ring_size ?b) (ep_rxq ?b) (unat (ep_ctlRdIdx ?b)) ms"
    unfolding n by (metis ring_holds_mod)
  then show t: "ctl_msgs ?b = tl (ctl_msgs b)" by (simp add: ctl_msgsI ms)
  show "ring_ok (see ?b a) ?b"
    using w wr h' ms t unfolding ring_ok_def by (auto simp: drop_msg_def see_def)
qed

lemma drop_msg_ring_back:
  assumes "ring_ok b a"
  shows "ring_ok (drop_msg b) (see (drop_msg b) a)" "ctl_msgs (see (drop_msg b) a) = ctl_msgs a"
  using assms by (auto simp: ring_ok_def drop_msg_def ctl_msgs_def ring_size_def)

end
