(* ===== verification/HifChan.thy ===== *)
theory HifChan
  imports HifLink
begin

text \<open>
  The operations of a side keep the link's invariant and change its content as they should:
  messages are queued, blocks are filled, announced, read and freed. Each lemma is about one
  step of the side \<open>a\<close> whose peer is \<open>b\<close>, direction \<open>D\<close> leading from \<open>a\<close> to \<open>b\<close> and \<open>E\<close> back.
\<close>

lemma put_msg_simps [simp]:
  "ep_lock (put_msg m a) = ep_lock a" "ep_ctlQueMask (put_msg m a) = ep_ctlQueMask a"
  "ep_ctlRdIdx (put_msg m a) = ep_ctlRdIdx a" "ep_msgQue (put_msg m a) = ep_msgQue a"
  "ep_txAvail (put_msg m a) = ep_txAvail a" "ep_txWrIdx (put_msg m a) = ep_txWrIdx a"
  "ep_txBlkIdx (put_msg m a) = ep_txBlkIdx a" "ep_txSize (put_msg m a) = ep_txSize a"
  "ep_txMask (put_msg m a) = ep_txMask a" "ep_txBase (put_msg m a) = ep_txBase a"
  "ep_txOff (put_msg m a) = ep_txOff a" "ep_rxDataSize (put_msg m a) = ep_rxDataSize a"
  "ep_rxRdIdx (put_msg m a) = ep_rxRdIdx a" "ep_rxBlkIdx (put_msg m a) = ep_rxBlkIdx a"
  "ep_rxSize (put_msg m a) = ep_rxSize a" "ep_rxMask (put_msg m a) = ep_rxMask a"
  "ep_rxBase (put_msg m a) = ep_rxBase a" "ep_rxOff (put_msg m a) = ep_rxOff a"
  "ep_rxq (put_msg m a) = ep_rxq a" "ep_heap (put_msg m a) = ep_heap a"
  "ring_size (put_msg m a) = ring_size a"
  by (simp_all add: put_msg_def ring_size_def)

lemma drop_msg_simps [simp]:
  "ep_lock (drop_msg a) = ep_lock a" "ep_ctlQueMask (drop_msg a) = ep_ctlQueMask a"
  "ep_ctlWrIdx (drop_msg a) = ep_ctlWrIdx a" "ep_msgQue (drop_msg a) = ep_msgQue a"
  "ep_txAvail (drop_msg a) = ep_txAvail a" "ep_txWrIdx (drop_msg a) = ep_txWrIdx a"
  "ep_txBlkIdx (drop_msg a) = ep_txBlkIdx a" "ep_txSize (drop_msg a) = ep_txSize a"
  "ep_txMask (drop_msg a) = ep_txMask a" "ep_txBase (drop_msg a) = ep_txBase a"
  "ep_txOff (drop_msg a) = ep_txOff a" "ep_rxDataSize (drop_msg a) = ep_rxDataSize a"
  "ep_rxRdIdx (drop_msg a) = ep_rxRdIdx a" "ep_rxBlkIdx (drop_msg a) = ep_rxBlkIdx a"
  "ep_rxSize (drop_msg a) = ep_rxSize a" "ep_rxMask (drop_msg a) = ep_rxMask a"
  "ep_rxBase (drop_msg a) = ep_rxBase a" "ep_rxOff (drop_msg a) = ep_rxOff a"
  "ep_txq (drop_msg a) = ep_txq a" "ep_heap (drop_msg a) = ep_heap a"
  "ring_size (drop_msg a) = ring_size a"
  by (simp_all add: drop_msg_def ring_size_def)

lemma codes_lt:
  assumes "codes_ok D E"
  shows "d_rdy D < 16" "d_avl D < 16" "d_rdy E < 16" "d_avl E < 16"
    "d_rdy D \<noteq> d_avl D" "d_rdy D \<noteq> d_rdy E" "d_rdy D \<noteq> d_avl E" "d_avl D \<noteq> d_rdy E" "d_avl D \<noteq> d_avl E"
    "d_rdy E \<noteq> d_avl E" "d_rdy E \<noteq> d_rdy D" "d_avl E \<noteq> d_rdy D"
proof -
  have "(10 :: u8) < 16" by simp
  then show "d_rdy D < 16" "d_avl D < 16" "d_rdy E < 16" "d_avl E < 16"
    using assms unfolding codes_ok_def by (metis order.strict_trans)+
qed (use assms in \<open>auto simp: codes_ok_def\<close>)

text \<open>A message that announces no block and is not for the user can go.\<close>

lemma wf_msgs_remove:
  "wf_msgs D E (ms @ m # ns) \<Longrightarrow> GetMsgType m \<noteq> d_rdy D \<Longrightarrow> d_rdy D < 16 \<Longrightarrow> d_sz D \<le> 2 ^ 22 \<Longrightarrow> wf_msgs D E (ms @ ns)"
proof (induction ms)
  case (Cons x ms)
  have "ms = [] \<Longrightarrow> 0 < n \<Longrightarrow> n < d_sz D \<Longrightarrow> x \<noteq> blk_msg (d_rdy D) n HIF_DQ_CALL" for n
    using Cons.prems blk_msg_fields(1) [of "d_rdy D" n 0] by auto
  with Cons show ?case by (cases ms) auto
qed simp

lemma wf_msgs_append:
  "wf_msgs D E (ms @ ns) \<Longrightarrow> wf_msgs D E ns"
  by (induction ms) auto

lemma decode_remove:
  "GetMsgType m \<noteq> rdy \<Longrightarrow> GetMsgType m < 16 \<Longrightarrow> decode rdy blk k (ms @ m # ns) = decode rdy blk k (ms @ ns)"
  by (induction ms arbitrary: k) (auto simp: not_le)

lemma link_ring_ok: "link D E a b \<Longrightarrow> ring_ok a b" "link D E a b \<Longrightarrow> ring_ok b a"
  by (simp_all add: link_def chan_def)

text \<open>
  A step of \<open>a\<close> that keeps the invariant, sends the events \<open>xs\<close> and receives the events \<open>ys\<close>.
\<close>

definition moves ::
  "direction \<Rightarrow> direction \<Rightarrow> 'y endpoint_scheme \<Rightarrow> 'z endpoint_scheme \<Rightarrow> 'y endpoint_scheme \<Rightarrow>
   event list \<Rightarrow> event list \<Rightarrow> bool" where
  "moves D E a b a' xs ys \<longleftrightarrow> link D E a' (see a' b) \<and>
     pend D a' (see a' b) = pend D a b @ xs \<and> pend E b a = ys @ pend E (see a' b) a'"

lemma moves_refl: "link D E a b \<Longrightarrow> moves D E a b a [] []"
  by (simp add: moves_def link_see)

lemma moves_trans:
  "moves D E a b a' xs ys \<Longrightarrow> moves D E a' (see a' b) a'' xs' ys' \<Longrightarrow> moves D E a b a'' (xs @ xs') (ys @ ys')"
  by (simp add: moves_def)

lemma moves_link: "moves D E a b a' xs ys \<Longrightarrow> link D E a' (see a' b)"
  by (simp add: moves_def)

lemma moves_frame:
  "moves D E a b (a'\<lparr>ep_lock := l\<rparr>) xs ys = moves D E a b a' xs ys"
  "moves D E a b (a'\<lparr>ep_loopCnt := c\<rparr>) xs ys = moves D E a b a' xs ys"
  "moves D E (a\<lparr>ep_lock := l\<rparr>) b a' xs ys = moves D E a b a' xs ys"
  by (simp_all add: moves_def link_frame pend_frame see_def)

text \<open>Absorbing a freed block, and queueing any other message.\<close>

lemma link_absorb:
  assumes l: "link D E a b" and ms: "ctl_msgs a = m # ms" and m: "GetMsgType m = d_avl D"
  defines "a' \<equiv> (drop_msg a)\<lparr>ep_txAvail := ep_txAvail a + 1\<rparr>"
  shows "moves D E a b a' [] []" "ctl_msgs a' = ms" "ctl_msgs (see a' b) = ctl_msgs b"
proof -
  note ring = link_ring_ok [OF l]
  have see: "see a' b = see (drop_msg a) b" by (simp add: see_def a'_def)
  have ctl: "ctl_msgs (drop_msg a) = ms" "ctl_msgs (see (drop_msg a) b) = ctl_msgs b"
    using drop_msg_ring(2) [OF ring(2)] drop_msg_ring_back(2) [OF ring(1)] by (simp_all add: ms)
  have r: "ring_ok (drop_msg a) (see (drop_msg a) b)" "ring_ok (see (drop_msg a) b) (drop_msg a)"
    using drop_msg_ring(1) [OF ring(2)] drop_msg_ring_back(1) [OF ring(1)] by (simp_all add: ms)
  have ctl': "ctl_msgs a' = ctl_msgs (drop_msg a)" by (simp add: a'_def ctl_msgs_def ring_size_def)
  show "ctl_msgs a' = ms" "ctl_msgs (see a' b) = ctl_msgs b" by (simp_all add: ctl ctl' see)
  have r': "ring_ok a' (see (drop_msg a) b)" "ring_ok (see (drop_msg a) b) a'"
    using r by (simp_all add: ring_ok_def ctl' ring_size_def) (simp_all add: a'_def)
  have c: "codes_ok D E" using l by (simp add: link_def)
  then have ne: "d_avl D \<noteq> d_rdy E" "d_rdy E \<noteq> d_avl D" "d_avl D < 16" "d_rdy E < 16"
    using codes_lt [OF c] by simp_all
  have wf: "wf_msgs E D (cq_entries (ep_msgQue a) @ ms)"
    using wf_msgs_remove [of E D "cq_entries (ep_msgQue a)" m ms] l m ne
    by (simp add: link_def chan_def flight_def ms codes_ok_def)
  have "chan D E a' (see (drop_msg a) b)"
    using l m by (simp add: link_def chan_def r' geo_def credit_def flight_def ctl ctl' ms)
      (simp add: a'_def)
  moreover have "chan E D (see (drop_msg a) b) a'"
    using l wf ne m by (simp add: link_def chan_def r' geo_def credit_def flight_def ctl ctl' ms)
      (simp add: a'_def)
  ultimately have 1: "link D E a' (see a' b)"
    using l by (simp add: link_def see) (simp add: a'_def)
  have 2: "pend D a' (see a' b) = pend D a b"
    using l by (simp add: pend_def arrived_def staged_def flight_def see ctl link_def) (simp add: a'_def)
  have 3: "pend E (see a' b) a' = pend E b a"
    using l m ne
    by (simp add: pend_def arrived_def staged_def flight_def see ctl ctl' ms link_def decode_remove) (simp add: a'_def)
  from 1 2 3 show "moves D E a b a' [] []" by (simp add: moves_def)
qed

lemma cursor_append: "cursor D queue rd n \<Longrightarrow> cursor D (queue @ rest) rd n"
  by (auto simp: cursor_def split: if_splits)

lemma link_queue:
  assumes l: "link D E a b" and ms: "ctl_msgs a = m # ms" and m: "GetMsgType m \<noteq> d_avl D"
    and q: "que_ok q" "cq_entries q = cq_entries (ep_msgQue a) @ [m]"
  defines "a' \<equiv> (drop_msg a)\<lparr>ep_msgQue := q\<rparr>"
  shows "moves D E a b a' [] []" "ctl_msgs a' = ms" "ctl_msgs (see a' b) = ctl_msgs b"
proof -
  note ring = link_ring_ok [OF l]
  have see: "see a' b = see (drop_msg a) b" by (simp add: see_def a'_def)
  have ctl: "ctl_msgs (drop_msg a) = ms" "ctl_msgs (see (drop_msg a) b) = ctl_msgs b"
    using drop_msg_ring(2) [OF ring(2)] drop_msg_ring_back(2) [OF ring(1)] by (simp_all add: ms)
  have r: "ring_ok (drop_msg a) (see (drop_msg a) b)" "ring_ok (see (drop_msg a) b) (drop_msg a)"
    using drop_msg_ring(1) [OF ring(2)] drop_msg_ring_back(1) [OF ring(1)] by (simp_all add: ms)
  have ctl': "ctl_msgs a' = ctl_msgs (drop_msg a)" by (simp add: a'_def ctl_msgs_def ring_size_def)
  show "ctl_msgs a' = ms" "ctl_msgs (see a' b) = ctl_msgs b" by (simp_all add: ctl ctl' see)
  have r': "ring_ok a' (see (drop_msg a) b)" "ring_ok (see (drop_msg a) b) a'"
    using r by (simp_all add: ring_ok_def ctl' ring_size_def) (simp_all add: a'_def)
  have fl: "flight a' = flight a" by (simp add: flight_def ctl ctl' ms) (simp add: a'_def q)
  have "chan D E a' (see (drop_msg a) b)"
    using l m by (simp add: link_def chan_def r' geo_def credit_def flight_def ctl ctl' ms)
      (simp add: a'_def q)
  moreover have "chan E D (see (drop_msg a) b) a'"
    using l by (simp add: link_def chan_def r' geo_def credit_def fl ctl)
      (simp add: a'_def q cursor_append)
  ultimately have 1: "link D E a' (see a' b)"
    using l by (simp add: link_def see) (simp add: a'_def)
  have 2: "pend D a' (see a' b) = pend D a b"
    using l by (simp add: pend_def arrived_def staged_def flight_def see ctl link_def) (simp add: a'_def)
  have 3: "pend E (see a' b) a' = pend E b a"
    using l by (simp add: pend_def arrived_def staged_def fl see link_def) (simp add: a'_def)
  from 1 2 3 show "moves D E a b a' [] []" by (simp add: moves_def)
qed

text \<open>QueOutMsgs / QueInMsgs: it ends, and only moves messages and credit.\<close>

definition que_frame :: "'z endpoint_scheme \<Rightarrow> 'z endpoint_scheme \<Rightarrow> bool" where
  "que_frame a a' \<longleftrightarrow>
     ep_lock a' = ep_lock a \<and> ep_ctlQueMask a' = ep_ctlQueMask a \<and>
     ep_ctlWrIdx a' = ep_ctlWrIdx a \<and> ep_loopCnt a' = ep_loopCnt a \<and>
     ep_txWrIdx a' = ep_txWrIdx a \<and> ep_txBlkIdx a' = ep_txBlkIdx a \<and> ep_txSize a' = ep_txSize a \<and>
     ep_txMask a' = ep_txMask a \<and> ep_txBase a' = ep_txBase a \<and> ep_txOff a' = ep_txOff a \<and>
     ep_rxDataSize a' = ep_rxDataSize a \<and> ep_rxRdIdx a' = ep_rxRdIdx a \<and>
     ep_rxBlkIdx a' = ep_rxBlkIdx a \<and> ep_rxSize a' = ep_rxSize a \<and> ep_rxMask a' = ep_rxMask a \<and>
     ep_rxBase a' = ep_rxBase a \<and> ep_rxOff a' = ep_rxOff a \<and> ep_txq a' = ep_txq a \<and>
     ep_heap a' = ep_heap a \<and> endpoint.more a' = endpoint.more a \<and> 
     ep_txAvail a \<le> ep_txAvail a' \<and> (\<exists>ms. cq_entries (ep_msgQue a') = cq_entries (ep_msgQue a) @ ms)"

lemma que_frame_refl: "que_frame a a"
  by (simp add: que_frame_def)

lemma que_frame_trans: "que_frame a b \<Longrightarrow> que_frame b c \<Longrightarrow> que_frame a c"
  unfolding que_frame_def by auto

lemma que_frame_same:
  assumes "que_frame a a'"
  shows "ep_lock a' = ep_lock a" "ep_ctlQueMask a' = ep_ctlQueMask a" "ep_ctlWrIdx a' = ep_ctlWrIdx a"
    "ep_loopCnt a' = ep_loopCnt a" "ep_txWrIdx a' = ep_txWrIdx a" "ep_txBlkIdx a' = ep_txBlkIdx a"
    "ep_txSize a' = ep_txSize a" "ep_txMask a' = ep_txMask a" "ep_txBase a' = ep_txBase a"
    "ep_txOff a' = ep_txOff a" "ep_rxDataSize a' = ep_rxDataSize a" "ep_rxRdIdx a' = ep_rxRdIdx a"
    "ep_rxBlkIdx a' = ep_rxBlkIdx a" "ep_rxSize a' = ep_rxSize a" "ep_rxMask a' = ep_rxMask a"
    "ep_rxBase a' = ep_rxBase a" "ep_rxOff a' = ep_rxOff a" "ep_txq a' = ep_txq a"
    "ep_heap a' = ep_heap a" "endpoint.more a' = endpoint.more a" 
    "ep_txAvail a \<le> ep_txAvail a'" "\<exists>ms. cq_entries (ep_msgQue a') = cq_entries (ep_msgQue a) @ ms"
  using assms by (simp_all add: que_frame_def)

lemma QueMsgs_stop:
  assumes "ring_ok b a" "ctl_msgs a = [] \<or> cq_IsFull (ep_msgQue a)"
  shows "ep_QueMsgs avl a = Some a"
  using ring_ok_read(1) [OF assms(1)] assms(2) by (auto simp: ep_QueMsgs.simps [of avl a])

lemma QueMsgs_absorb:
  assumes r: "ring_ok b a" and ms: "ctl_msgs a = m # ms" and lk: "\<not> ep_lock a"
    and f: "\<not> cq_IsFull (ep_msgQue a)" and m: "GetMsgType m = avl"
  shows "ep_QueMsgs avl a = ep_QueMsgs avl ((drop_msg a)\<lparr>ep_txAvail := ep_txAvail a + 1\<rparr>)"
proof -
  have hd: "ep_rxq a (ctl_slot a (ep_ctlRdIdx a)) = m" "IsValid m"
    using ring_ok_read [OF r] ms by auto
  have "a\<lparr>ep_txAvail := ep_txAvail a + 1, ep_lock := False\<rparr> = a\<lparr>ep_txAvail := ep_txAvail a + 1\<rparr>"
    using lk by (intro endpoint.equality) simp_all
  then have "ep_NextMsg (a\<lparr>ep_txAvail := ep_txAvail a + 1, ep_lock := False\<rparr>) = Some ((drop_msg a)\<lparr>ep_txAvail := ep_txAvail a + 1\<rparr>)"
    using hd by (simp add: ep_NextMsg_def ctl_slot_def drop_msg_def)
  then show ?thesis
    using f hd lk m by (simp add: ep_QueMsgs.simps [of avl a] Let_def ep_Lock_def ep_Unlock_def)
qed

lemma QueMsgs_queue:
  assumes r: "ring_ok b a" and ms: "ctl_msgs a = m # ms"
    and f: "\<not> cq_IsFull (ep_msgQue a)" and m: "GetMsgType m \<noteq> avl" and q: "cq_Push m (ep_msgQue a) = Some q"
  shows "ep_QueMsgs avl a = ep_QueMsgs avl ((drop_msg a)\<lparr>ep_msgQue := q\<rparr>)"
proof -
  have hd: "ep_rxq a (ctl_slot a (ep_ctlRdIdx a)) = m" "IsValid m"
    using ring_ok_read [OF r] ms by auto
  have "ep_NextMsg (a\<lparr>ep_msgQue := q\<rparr>) = Some ((drop_msg a)\<lparr>ep_msgQue := q\<rparr>)"
    using hd by (simp add: ep_NextMsg_def ctl_slot_def drop_msg_def)
  then show ?thesis using f hd q m by (simp add: ep_QueMsgs.simps [of avl a] Let_def)
qed

lemma QueMsgs_ok:
  assumes "link D E a b" "\<not> ep_lock a"
  shows "\<exists>a'. ep_QueMsgs (d_avl D) a = Some a' \<and> moves D E a b a' [] [] \<and>
    que_frame a a' \<and> ctl_msgs (see a' b) = ctl_msgs b \<and>
    (ctl_msgs a' = [] \<or> cq_IsFull (ep_msgQue a'))"
  using assms
proof (induction "ctl_msgs a" arbitrary: a b)
  case Nil
  with QueMsgs_stop [OF link_ring_ok(2) [OF Nil.prems(1)], of "d_avl D"] show ?case
    by (auto simp: link_see que_frame_refl moves_refl)
next
  case (Cons m ms)
  note ring = link_ring_ok(2) [OF Cons.prems(1)]
  have ms: "ctl_msgs a = m # ms" using Cons.hyps(2) by simp
  have qi: "que_ok (ep_msgQue a)" using Cons.prems(1) by (simp add: link_def chan_def)
  have rest: ?case if s: "ep_QueMsgs (d_avl D) a = ep_QueMsgs (d_avl D) x" "\<not> ep_lock x" "que_frame a x"
    "moves D E a b x [] []" "ctl_msgs x = ms" "ctl_msgs (see x b) = ctl_msgs b" for x
  proof -
    from Cons.hyps(1) [OF s(5) [symmetric] moves_link [OF s(4)] s(2)] obtain a' where
      "ep_QueMsgs (d_avl D) x = Some a'" "moves D E x (see x b) a' [] []" "que_frame x a'"
      "ctl_msgs (see a' b) = ctl_msgs (see x b)" "ctl_msgs a' = [] \<or> cq_IsFull (ep_msgQue a')" by auto
    then show ?thesis using s moves_trans [OF s(4)] que_frame_trans [of a x] by auto
  qed
  consider "cq_IsFull (ep_msgQue a)" | "\<not> cq_IsFull (ep_msgQue a)" "GetMsgType m = d_avl D"
    | "\<not> cq_IsFull (ep_msgQue a)" "GetMsgType m \<noteq> d_avl D" by blast
  then show ?case
  proof cases
    case 1
    with QueMsgs_stop [OF ring, of "d_avl D"] Cons.prems show ?thesis
      by (auto simp: link_see que_frame_refl moves_refl)
  next
    case 2
    note L = link_absorb [OF Cons.prems(1) ms 2(2)]
    show ?thesis
      by (rule rest [OF QueMsgs_absorb [OF ring ms Cons.prems(2) 2] _ _ L])
        (use Cons.prems in \<open>simp_all add: que_frame_def drop_msg_def\<close>)
  next
    case 3
    then obtain q where q: "cq_Push m (ep_msgQue a) = Some q" "que_ok q"
      "cq_entries q = cq_entries (ep_msgQue a) @ [m]"
      using que_Push_ok [OF qi] by blast
    note L = link_queue [OF Cons.prems(1) ms 3(2) q(2,3)]
    show ?thesis
      by (rule rest [OF QueMsgs_queue [OF ring ms 3 q(1)] _ _ L])
        (use Cons.prems q(3) in \<open>simp_all add: que_frame_def drop_msg_def\<close>)
  qed
qed

section \<open>Sending\<close>

lemma codes_ok_sym: "codes_ok D E \<Longrightarrow> codes_ok E D"
  by (auto simp: codes_ok_def)

lemma blk_msg_of:
  assumes "codes_ok D E" "n \<le> d_sz D" "c \<in> {0, 1, 6, 7}"
  shows "GetMsgType (blk_msg (d_rdy D) n c) = d_rdy D"
    and "GetMsgData (blk_msg (d_rdy D) n c) AND 7 = c"
    and "dq_words (GetMsgData (blk_msg (d_rdy D) n c)) = n"
    and "drop_bit 3 (GetMsgData (blk_msg (d_rdy D) n c)) = of_nat n"
proof -
  have "n < 2 ^ 29" using assms(1,2) by (simp add: codes_ok_def)
  moreover have "c AND mask 3 = c" unfolding mask_3 [symmetric] using assms(3) by auto
  ultimately show "GetMsgType (blk_msg (d_rdy D) n c) = d_rdy D"
    "GetMsgData (blk_msg (d_rdy D) n c) AND 7 = c"
    "dq_words (GetMsgData (blk_msg (d_rdy D) n c)) = n"
    "drop_bit 3 (GetMsgData (blk_msg (d_rdy D) n c)) = of_nat n"
    using blk_msg_fields [OF codes_lt(1) [OF assms(1)]] by blast+
qed

text \<open>The message list grows at the end.\<close>

lemma wf_msgs_snoc:
  assumes "wf_msgs D E ms" "msg_ok D E m"
    and "\<And>n. 0 < n \<Longrightarrow> n < d_sz D \<Longrightarrow> m \<noteq> blk_msg (d_rdy D) n HIF_DQ_CALL"
  shows "wf_msgs D E (ms @ [m])"
  using assms(1)
proof (induction ms)
  case (Cons x ms)
  then show ?case by (cases ms) (use assms in auto)
qed (use assms in auto)

lemma msg_ok_blk:
  "0 < n \<Longrightarrow> n \<le> d_sz D \<Longrightarrow> msg_ok D E (blk_msg (d_rdy D) n 0)"
  "msg_ok D E (blk_msg (d_rdy D) 0 HIF_DQ_NULL)"
  "msg_ok D E (blk_msg (d_rdy D) 0 HIF_DQ_HALT)"
  "n < d_sz D \<Longrightarrow> msg_ok D E (blk_msg (d_rdy D) n HIF_DQ_CALL)"
  unfolding msg_ok_def by blast+

lemma wf_msgs_call:
  assumes "wf_msgs D E ms" "codes_ok D E" "0 < n" "n < d_sz D"
  shows "wf_msgs D E (ms @ [blk_msg (d_rdy D) n HIF_DQ_CALL, blk_msg (d_rdy D) n 0])"
  using assms(1)
proof (induction ms)
  case Nil
  have f: "GetMsgData (blk_msg (d_rdy D) k HIF_DQ_CALL) AND 7 = HIF_DQ_CALL"
    "GetMsgData (blk_msg (d_rdy D) k 0) AND 7 = 0" "dq_words (GetMsgData (blk_msg (d_rdy D) k HIF_DQ_CALL)) = k"
    if "k < d_sz D" for k
    using that by (intro blk_msg_of [OF assms(2)]; simp)+
  have "k = n" if "k < d_sz D" "blk_msg (d_rdy D) n HIF_DQ_CALL = blk_msg (d_rdy D) k HIF_DQ_CALL" for k
    using f(3) [OF that(1)] f(3) [OF assms(4)] that(2) by simp
  moreover have "blk_msg (d_rdy D) n 0 \<noteq> blk_msg (d_rdy D) k HIF_DQ_CALL" if "k < d_sz D" for k
    using f(1) [OF that] f(2) [OF assms(4)] by auto
  ultimately show ?case
    using assms(3,4) msg_ok_blk(1) [of n D E] msg_ok_blk(4) [of n D E] by auto
next
  case (Cons x ms)
  then show ?case by (cases ms) auto
qed

lemma wf_data_bound:
  assumes "wf_msgs D E ms" "codes_ok D E" "m \<in> set ms" "GetMsgType m = d_rdy D" "GetMsgData m AND 7 = 0"
  shows "dq_words (GetMsgData m) \<le> d_sz D"
proof -
  have "msg_ok D E m" using assms(1,3) by (induction ms) auto
  then obtain n c where m: "m = blk_msg (d_rdy D) n c" "n \<le> d_sz D" "c \<in> {0, 1, 6, 7}"
    using assms(4) codes_lt [OF assms(2)] by (auto simp: msg_ok_def)
  then show ?thesis using blk_msg_of(3) [OF assms(2) m(2,3)] by simp
qed

text \<open>Messages that arrive behind what has arrived.\<close>

lemma arrived_grow:
  assumes c: "codes_ok D E" "cursor D (cq_entries (ep_msgQue b)) (ep_rxRdIdx b) (ep_rxDataSize b)"
    and "flight b' = flight b @ ms" "ep_rxRdIdx b' = ep_rxRdIdx b"
    "ep_rxBlkIdx b' = ep_rxBlkIdx b" "ep_heap b' = ep_heap b"
  shows "arrived D b' = arrived D b @
    decode (d_rdy D) (blk_words D (ep_heap b)) (unat (ep_rxBlkIdx b) + count_type (d_rdy D) (flight b)) ms"
proof -
  have "ep_rxRdIdx b \<le> length (decode (d_rdy D) (blk_words D (ep_heap b)) (unat (ep_rxBlkIdx b)) (flight b))"
  proof (cases "ep_rxDataSize b = 0")
    case False
    then obtain ms where ms: "cq_entries (ep_msgQue b) = blk_msg (d_rdy D) (ep_rxRdIdx b + ep_rxDataSize b) 0 # ms"
      "ep_rxRdIdx b + ep_rxDataSize b \<le> d_sz D"
      using c(2) by (auto simp: cursor_def)
    then show ?thesis
      using blk_msg_of(1-3) [OF c(1) ms(2), of 0]
      by (simp add: flight_def blk_events_def blk_words_def heap_load_def)
  qed (use c(2) in \<open>simp add: cursor_def\<close>)
  then show ?thesis using assms(3-) by (simp add: arrived_def decode_append)
qed

lemma arrived_append:
  assumes "link D E a b" "flight b' = flight b @ ms" "ep_rxRdIdx b' = ep_rxRdIdx b"
    "ep_rxBlkIdx b' = ep_rxBlkIdx b" "ep_heap b' = ep_heap b"
  shows "arrived D b' = arrived D b @
    decode (d_rdy D) (blk_words D (ep_heap b)) (unat (ep_rxBlkIdx b) + count_type (d_rdy D) (flight b)) ms"
  using assms arrived_grow [of D E b b' ms] by (simp add: link_def chan_def)

text \<open>A message for the user, when no data is staged.\<close>

lemma user_type: "16 \<le> t \<Longrightarrow> t < 128 \<Longrightarrow> GetMsgType (CHtCtrlMsg t d) = t"
  by (simp add: GetMsgType_msg and_mask_id word_less_nat_alt)

lemma link_user_msg:
  fixes d :: u64
  assumes l: "link D E a b" and room: "length (ctl_msgs b) < ring_size b" and t: "16 \<le> t" "t < 128"
    and st: "ep_txWrIdx a = 0"
  defines "a' \<equiv> put_msg (CHtCtrlMsg t d) a"
  shows "moves D E a b a' [EMsg t (d AND mask 56)] []" "ctl_msgs (see a' b) = ctl_msgs b @ [CHtCtrlMsg t d]"
    "ctl_msgs a' = ctl_msgs a"
proof -
  note ring = link_ring_ok [OF l]
  have r: "ring_ok a' (see a' b)" "ring_ok (see a' b) a'" "ctl_msgs a' = ctl_msgs a"
    "ctl_msgs (see a' b) = ctl_msgs b @ [CHtCtrlMsg t d]"
    using put_msg_ring [OF ring(1) IsValid_msg room] put_msg_ring_back [OF ring(2)] by (simp_all add: a'_def)
  then show "ctl_msgs (see a' b) = ctl_msgs b @ [CHtCtrlMsg t d]" "ctl_msgs a' = ctl_msgs a" by simp_all
  have c: "codes_ok D E" using l by (simp add: link_def)
  note lt = codes_lt [OF c]
  have ty: "GetMsgType (CHtCtrlMsg t d) = t" using t by (rule user_type)
  have ne: "t \<noteq> d_rdy D" "t \<noteq> d_avl D" "t \<noteq> d_avl E" "t \<noteq> d_rdy E" using t lt by auto
  have "CHtCtrlMsg t d \<noteq> blk_msg (d_rdy D) n HIF_DQ_CALL" if "n < d_sz D" for n
    using ty ne(1) blk_msg_of(1) [OF c, of n HIF_DQ_CALL] that by auto
  then have wf: "wf_msgs D E ((cq_entries (ep_msgQue b) @ ctl_msgs b) @ [CHtCtrlMsg t d])"
    using l t by (intro wf_msgs_snoc) (auto simp: link_def chan_def flight_def msg_ok_def ty)
  have "chan D E a' (see a' b)"
    using l wf ne ty by (simp add: link_def chan_def r geo_def credit_def flight_def) (simp add: a'_def)
  moreover have "chan E D (see a' b) a'"
    using l ne ty by (simp add: link_def chan_def r geo_def credit_def flight_def) (simp add: a'_def)
  ultimately have 1: "link D E a' (see a' b)"
    using l by (simp add: link_def)
  have 2: "pend D a' (see a' b) = pend D a b @ [EMsg t (d AND mask 56)]"
    using l t ne ty st arrived_append [OF l, of "see a' b" "[CHtCtrlMsg t d]"]
    by (simp add: pend_def staged_def flight_def r link_def GetMsgData_msg heap_load_def) (simp add: a'_def)
  have 3: "pend E (see a' b) a' = pend E b a"
    using l by (simp add: pend_def arrived_def staged_def flight_def r link_def) (simp add: a'_def)
  from 1 2 3 show "moves D E a b a' [EMsg t (d AND mask 56)] []" by (simp add: moves_def)
qed

text \<open>The block being filled is the one after the blocks in flight.\<close>

lemma link_tx_slot:
  assumes "link D E a b"
  shows "(unat (ep_rxBlkIdx b) + count_type (d_rdy D) (flight b)) mod 2 ^ d_cw D = unat (ep_txBlkIdx a) mod 2 ^ d_cw D"
proof -
  have e: "ep_txBlkIdx a = ep_rxBlkIdx b + of_nat (count_type (d_rdy D) (flight b))" and cw: "d_cw D \<le> 6"
    using assms by (simp_all add: link_def chan_def credit_def codes_ok_def)
  have "(2::nat) ^ d_cw D dvd 2 ^ 32" using cw by (intro le_imp_power_dvd) simp
  then show ?thesis
    unfolding e by (simp only: unat_word_ariths) (simp add: unat_of_nat mod_mod_cancel mod_add_right_eq)
qed

text \<open>Announcing a block: with the data staged in it, or with a control code.\<close>

definition next_blk :: "'z endpoint_scheme \<Rightarrow> 'z endpoint_scheme" where
  "next_blk a = a\<lparr>ep_txAvail := ep_txAvail a - 1, ep_txWrIdx := 0, ep_txBlkIdx := ep_txBlkIdx a + 1,
     ep_txOff := unat ((ep_txBlkIdx a + 1) AND ep_txMask a) * ep_txSize a\<rparr>"

lemma ring_ok_next_blk:
  "ring_ok (next_blk a) b = ring_ok a b" "ring_ok b (next_blk a) = ring_ok b a" "ctl_msgs (next_blk a) = ctl_msgs a"
  by (simp_all add: ring_ok_def next_blk_def ctl_msgs_def ring_size_def)

definition ctl_events :: "u64 \<Rightarrow> event list" where
  "ctl_events c = (if c = 0 then [] else if c = HIF_DQ_NULL then [EMark] else if c = HIF_DQ_CALL then [ECall 0] else [EHalt])"

lemma link_flush:
  assumes l: "link D E a b" and room: "length (ctl_msgs b) < ring_size b" and av: "0 < ep_txAvail a"
    and n: "n = ep_txWrIdx a" and c: "c = 0 \<and> 0 < n \<or> (c = HIF_DQ_NULL \<or> c = HIF_DQ_HALT \<or> c = HIF_DQ_CALL) \<and> n = 0"
  defines "a' \<equiv> put_msg (blk_msg (d_rdy D) n c) (next_blk a)"
  shows "moves D E a b a' (ctl_events c) []"
    "ctl_msgs (see a' b) = ctl_msgs b @ [blk_msg (d_rdy D) n c]" "ctl_msgs a' = ctl_msgs a"
proof -
  let ?m = "blk_msg (d_rdy D) n c"
  note ring = link_ring_ok [OF l, folded ring_ok_next_blk(1) [of a] ring_ok_next_blk(2) [of _ a]]
  have v: "IsValid ?m" by (simp add: blk_msg_def)
  have r: "ring_ok a' (see a' b)" "ring_ok (see a' b) a'" "ctl_msgs a' = ctl_msgs a" "ctl_msgs (see a' b) = ctl_msgs b @ [?m]"
    using put_msg_ring [OF ring(1) v room] put_msg_ring_back [OF ring(2)]
    by (simp_all add: a'_def ring_ok_next_blk)
  then show "ctl_msgs (see a' b) = ctl_msgs b @ [?m]" "ctl_msgs a' = ctl_msgs a" by simp_all
  have co: "codes_ok D E" using l by (simp add: link_def)
  note lt = codes_lt [OF co]
  have nsz: "n \<le> d_sz D" using l n by (simp add: link_def chan_def credit_def)
  have m: "GetMsgType ?m = d_rdy D" "GetMsgData ?m AND 7 = c" "dq_words (GetMsgData ?m) = n"
    using c by (intro blk_msg_of [OF co nsz]; auto)+
  have "?m \<noteq> blk_msg (d_rdy D) k HIF_DQ_CALL" if "0 < k" "k < d_sz D" for k
    using m(2,3) c blk_msg_of(2,3) [OF co, of k HIF_DQ_CALL] that by auto
  then have wf: "wf_msgs D E ((cq_entries (ep_msgQue b) @ ctl_msgs b) @ [?m])"
    using l c nsz msg_ok_blk(1) [of n D E] msg_ok_blk(2) [of D E] msg_ok_blk(3) [of D E] msg_ok_blk(4) [of 0 D E] co
    by (intro wf_msgs_snoc) (auto simp: link_def chan_def flight_def codes_ok_def)
  have "chan D E a' (see a' b)"
    using l wf lt m av n by (simp add: link_def chan_def r geo_def credit_def flight_def)
      (simp add: a'_def next_blk_def unat_and_mask)
  moreover have "chan E D (see a' b) a'"
    using l lt m by (simp add: link_def chan_def r geo_def credit_def flight_def) (simp add: a'_def next_blk_def)
  ultimately have 1: "link D E a' (see a' b)"
    using l by (simp add: link_def)
  have hp: "ep_heap a' = ep_heap a" "staged a' = []"
    by (simp_all add: a'_def next_blk_def staged_def heap_load_def)
  have "blk_words D (ep_heap a) (unat (ep_rxBlkIdx b) + count_type (d_rdy D) (flight b)) n =
      heap_load (ep_txBase a) (ep_txOff a) (ep_txWrIdx a) (ep_heap a)"
    using l link_tx_slot [OF l] n by (simp add: blk_words_def link_def chan_def geo_def)
  then have 2: "pend D a' (see a' b) = pend D a b @ (ctl_events c)"
    using l c m hp n arrived_append [OF l, of "see a' b" "[?m]"]
    by (auto simp: pend_def staged_def flight_def r link_def blk_events_def heap_load_def ctl_events_def)
  have 3: "pend E (see a' b) a' = pend E b a"
    using l hp(1) by (simp add: pend_def arrived_def staged_def flight_def r link_def) (simp add: a'_def next_blk_def)
  from 1 2 3 show "moves D E a b a' (ctl_events c) []"
    by (simp add: moves_def)
qed

text \<open>Filling the block: no block in flight, in either direction, is touched.\<close>

lemma heap_load_store_other: "base \<noteq> base' \<Longrightarrow> heap_load base off n (heap_store base' off' xs h) = heap_load base off n h"
  by (simp add: heap_load_def heap_store_def)

lemma heap_load_store_disjoint:
  "off + n \<le> off' \<or> off' + length xs \<le> off \<Longrightarrow> heap_load base off n (heap_store base off' xs h) = heap_load base off n h"
  by (auto simp: heap_load_def heap_store_def)

lemma heap_load_store_append:
  "heap_load base off (n + length xs) (heap_store base (off + n) xs h) = heap_load base off n h @ xs"
  by (rule nth_equalityI) (auto simp: heap_load_def heap_store_def nth_append)

lemma heap_load_store_same: "heap_load base off (length xs) (heap_store base off xs h) = xs"
  using heap_load_store_append [of base off 0 xs h] by (simp add: heap_load_def)

lemma blk_disjoint:
  assumes "(i :: nat) \<noteq> j" "n \<le> sz" "off + m \<le> sz"
  shows "i * sz + n \<le> j * sz + off \<or> j * sz + off + m \<le> i * sz"
proof (cases "i < j")
  case True
  then have "Suc i * sz \<le> j * sz" by (intro mult_right_mono) auto
  then show ?thesis using assms(2) by simp
next
  case False
  then have "Suc j * sz \<le> i * sz" using assms(1) by (intro mult_right_mono) auto
  then show ?thesis using assms(3) by simp
qed

lemma link_stage:
  assumes l: "link D E a b" and av: "0 < ep_txAvail a" and sz: "ep_txWrIdx a + length xs \<le> d_sz D"
  defines "a' \<equiv> a\<lparr>ep_heap := heap_store (ep_txBase a) (ep_txOff a + ep_txWrIdx a) xs (ep_heap a),
                  ep_txWrIdx := ep_txWrIdx a + length xs\<rparr>"
  shows "moves D E a b a' (map EData xs) []" "ctl_msgs (see a' b) = ctl_msgs b" "ctl_msgs a' = ctl_msgs a"
proof -
  note ring = link_ring_ok [OF l]
  have see: "ep_txq a' = ep_txq a" "ep_rxq a' = ep_rxq a" by (simp_all add: a'_def)
  have cm: "ctl_msgs (see a' b) = ctl_msgs b" "ctl_msgs a' = ctl_msgs a"
    by (intro ctl_msgs_cong; simp add: a'_def ring_ok_qs [OF ring(1)])+
  then show "ctl_msgs (see a' b) = ctl_msgs b" "ctl_msgs a' = ctl_msgs a" by simp_all
  have r: "ring_ok a' (see a' b)" "ring_ok (see a' b) a'"
    by (rule ring_ok_cong [OF ring(1)]; simp add: a'_def ring_ok_qs [OF ring(1)])
      (rule ring_ok_cong [OF ring(2)]; simp add: a'_def ring_ok_qs [OF ring(2)])
  have co: "codes_ok D E" using l by (simp add: link_def)
  let ?cnt = "count_type (d_rdy D) (flight b)" and ?rx = "unat (ep_rxBlkIdx b)"
  have cnt: "?cnt < 2 ^ d_cw D"
  proof -
    have "ep_txAvail a + int ?cnt + int (count_type (d_avl D) (ctl_msgs a)) = 2 ^ d_cw D"
      using l by (simp add: link_def chan_def credit_def)
    then have "int ?cnt < 2 ^ d_cw D" using av by linarith
    then show ?thesis by (metis of_nat_less_iff of_nat_numeral of_nat_power)
  qed
  have bD: "ep_txBase a = d_base D" "ep_txSize a = d_sz D"
    "ep_txOff a = unat (ep_txBlkIdx a) mod 2 ^ d_cw D * d_sz D"
    using l by (simp_all add: link_def chan_def geo_def)
  have blk: "blk_words D (ep_heap a') k n = blk_words D (ep_heap a) k n"
    if "?rx \<le> k" "k < ?rx + ?cnt" "n \<le> d_sz D" for k n
  proof -
    have "(0 + k) mod 2 ^ d_cw D \<noteq> (0 + (?rx + ?cnt)) mod 2 ^ d_cw D"
      using that cnt by (intro ring_slot_neq) auto
    then have "k mod 2 ^ d_cw D \<noteq> unat (ep_txBlkIdx a) mod 2 ^ d_cw D"
      using link_tx_slot [OF l] by simp
    from blk_disjoint [OF this that(3) sz] show ?thesis
      unfolding blk_words_def a'_def by (simp add: bD heap_load_store_disjoint)
  qed
  have arr: "arrived D (see a' b) = arrived D b"
  proof -
    have "decode (d_rdy D) (blk_words D (ep_heap a')) ?rx (flight b) = decode (d_rdy D) (blk_words D (ep_heap a)) ?rx (flight b)"
      by (rule decode_cong [where sz = "d_sz D"])
        (use blk wf_data_bound [OF _ co] l in \<open>auto simp: link_def chan_def\<close>)
    then show ?thesis using l by (simp add: arrived_def flight_def cm link_def)
  qed
  have other: "blk_words E (ep_heap a') = blk_words E (ep_heap a)"
    using co by (auto simp: fun_eq_iff blk_words_def a'_def bD codes_ok_def intro!: heap_load_store_other)
  have st: "staged a' = staged a @ map EData xs" "staged (see a' b) = staged b"
  proof -
    show "staged a' = staged a @ map EData xs"
      by (simp add: staged_def a'_def heap_load_store_append flip: map_append)
    have "ep_txBase b \<noteq> ep_txBase a" using l by (auto simp: link_def chan_def geo_def codes_ok_def)
    then show "staged (see a' b) = staged b"
      using l by (simp add: staged_def a'_def heap_load_store_other link_def)
  qed
  have "chan D E a' (see a' b)"
    using l sz av by (simp add: link_def chan_def r geo_def credit_def flight_def cm) (simp add: a'_def)
  moreover have "chan E D (see a' b) a'"
    using l by (simp add: link_def chan_def r geo_def credit_def flight_def cm) (simp add: a'_def)
  ultimately have "link D E a' (see a' b)" using l by (simp add: link_def)
  moreover have "arrived E a' = arrived E a"
    using other by (simp add: arrived_def flight_def cm) (simp add: a'_def)
  ultimately show "moves D E a b a' (map EData xs) []"
    by (simp add: moves_def pend_def arr st)
qed

end
