(* ===== verification/HifSend.thy ===== *)
theory HifSend
  imports HifChan
begin

text \<open>
  The transmitting operations of a side, at the level of the calls an application makes: data,
  messages, markers, the halt, calls with arguments, and the timer's flush. Each returns, given
  room in the control ring for the blocks it announces, keeps the link and appends exactly the
  events it reports as sent.
\<close>

section \<open>Room in the control ring\<close>

text \<open>
  Blocks bound the block messages in a ring; only user messages are not bounded. A ring that
  keeps the room of all blocks free of user messages never makes a sender of blocks wait.
\<close>

definition users :: "'z endpoint_scheme \<Rightarrow> nat" where
  "users s = length (filter (\<lambda>m. 16 \<le> GetMsgType m) (ctl_msgs s))"

definition roomy :: "direction \<Rightarrow> direction \<Rightarrow> nat \<Rightarrow> 'z endpoint_scheme \<Rightarrow> bool" where
  "roomy D E n b \<longleftrightarrow> users b + n + 2 ^ d_cw D + 2 ^ d_cw E \<le> ring_size b"

lemma msgs_by_type:
  assumes "wf_msgs D E ms" "codes_ok D E"
  shows "length ms = length (filter (\<lambda>m. 16 \<le> GetMsgType m) ms) + count_type (d_rdy D) ms + count_type (d_avl E) ms"
  using assms(1)
proof (induction ms)
  case (Cons m ms)
  have ty: "GetMsgType m = d_rdy D \<or> GetMsgType m = d_avl E \<or> 16 \<le> GetMsgType m"
    using Cons.prems codes_lt(1) [OF assms(2)] assms(2) blk_msg_of(1) [OF assms(2)]
    by (auto simp: msg_ok_def codes_ok_def)
  moreover have "\<not> 16 \<le> d_rdy D" "\<not> 16 \<le> d_avl E" "d_rdy D \<noteq> d_avl E"
    using codes_lt [OF assms(2)] by (auto simp: not_le)
  ultimately show ?case using Cons by auto
qed simp

lemma ring_len:
  assumes l: "link D E a b"
  shows "length (ctl_msgs b) + nat (ep_txAvail a) + count_type (d_rdy E) (flight a) \<le>
    users b + 2 ^ d_cw D + 2 ^ d_cw E"
proof -
  have wf: "wf_msgs D E (ctl_msgs b)" and co: "codes_ok D E"
    using l by (auto simp: link_def chan_def flight_def intro: wf_msgs_append)
  have len: "length (ctl_msgs b) = users b + count_type (d_rdy D) (ctl_msgs b) + count_type (d_avl E) (ctl_msgs b)"
    using msgs_by_type [OF wf co] by (simp add: users_def)
  have 1: "0 \<le> ep_txAvail a" "ep_txAvail a + int (count_type (d_rdy D) (ctl_msgs b)) \<le> 2 ^ d_cw D"
    using l by (simp_all add: link_def chan_def credit_def flight_def)
  have 2: "int (count_type (d_rdy E) (flight a)) + int (count_type (d_avl E) (ctl_msgs b)) \<le> 2 ^ d_cw E"
    using l by (simp add: link_def chan_def credit_def)
  have "int (nat (ep_txAvail a) + count_type (d_rdy D) (ctl_msgs b)) \<le> int (2 ^ d_cw D)"
    "int (count_type (d_rdy E) (flight a) + count_type (d_avl E) (ctl_msgs b)) \<le> int (2 ^ d_cw E)"
    using 1 2 by simp_all
  then show ?thesis unfolding len of_nat_le_iff by linarith
qed

lemma ring_room:
  assumes "link D E a b" "roomy D E 0 b" "0 < ep_txAvail a \<or> 0 < count_type (d_rdy E) (flight a)"
  shows "length (ctl_msgs b) < ring_size b"
  using ring_len [OF assms(1)] assms(2,3) by (auto simp: roomy_def)

lemma ring_room_user:
  assumes "link D E a b" "roomy D E (Suc n) b"
  shows "length (ctl_msgs b) < ring_size b"
  using ring_len [OF assms(1)] assms(2) by (auto simp: roomy_def)

section \<open>Steps\<close>

definition is_msg :: "event \<Rightarrow> bool" where
  "is_msg e = (case e of EMsg t d \<Rightarrow> True | _ \<Rightarrow> False)"

lemma is_msg_simps [simp]:
  "is_msg (EMsg t d)" "\<not> is_msg (EData w)" "\<not> is_msg EMark" "\<not> is_msg (ECall n)" "\<not> is_msg EHalt"
  by (simp_all add: is_msg_def)

text \<open>
  A move that touches nothing of the unit beyond the endpoint, nor the peer's room but for the
  user messages it sends.
\<close>

definition step ::
  "direction \<Rightarrow> direction \<Rightarrow> 'y endpoint_scheme \<Rightarrow> 'z endpoint_scheme \<Rightarrow> 'y endpoint_scheme \<Rightarrow>
   event list \<Rightarrow> event list \<Rightarrow> bool" where
  "step D E a b a' xs ys \<longleftrightarrow> moves D E a b a' xs ys \<and> endpoint.more a' = endpoint.more a \<and>
     users (see a' b) = users b + length (filter is_msg xs)"

lemma users_see_lock [simp]:
  "users (a\<lparr>ep_lock := l\<rparr>) = users a"
  by (simp add: users_def ctl_msgs_def ring_size_def)

lemma see_lock [simp]: "see (a\<lparr>ep_lock := l\<rparr>) b = see a b" "see (a\<lparr>ep_loopCnt := c\<rparr>) b = see a b"
  by (simp_all add: see_def)

lemma step_lock [simp]:
  "step D E a b (a'\<lparr>ep_lock := l\<rparr>) xs ys = step D E a b a' xs ys"
  "step D E a b (a'\<lparr>ep_loopCnt := c\<rparr>) xs ys = step D E a b a' xs ys"
  "step D E (a\<lparr>ep_lock := l\<rparr>) b a' xs ys = step D E a b a' xs ys"
  by (simp_all add: step_def moves_frame)

lemma step_refl: "link D E a b \<Longrightarrow> step D E a b a [] []"
  by (simp add: step_def moves_refl link_see)

lemma step_trans:
  "step D E a b a' xs ys \<Longrightarrow> step D E a' (see a' b) a'' xs' ys' \<Longrightarrow> step D E a b a'' (xs @ xs') (ys @ ys')"
  unfolding step_def using moves_trans by auto

lemma step_link: "step D E a b a' xs ys \<Longrightarrow> link D E a' (see a' b)"
  unfolding step_def by (blast intro: moves_link)

lemma step_roomy:
  "step D E a b a' xs ys \<Longrightarrow> roomy D E (n + length (filter is_msg xs)) b \<Longrightarrow> roomy D E n (see a' b)"
  by (simp add: step_def roomy_def)

lemma step_roomy0: "step D E a b a' (map EData xs) ys \<Longrightarrow> roomy D E n b \<Longrightarrow> roomy D E n (see a' b)"
  by (rule step_roomy) (auto simp: o_def)

lemma link_lock: "link D E (a\<lparr>ep_lock := l\<rparr>) b = link D E a b"
  by (rule link_frame)

section \<open>Announcing blocks\<close>

lemma NextTxBlk_next: "ep_lock a \<Longrightarrow> 0 < ep_txAvail a \<Longrightarrow> ep_NextTxBlk a = Some (next_blk a)"
  by (simp add: ep_NextTxBlk_def next_blk_def Let_def)

lemma next_blk_simps [simp]:
  "ep_lock (next_blk a) = ep_lock a" "ep_txWrIdx (next_blk a) = 0" "ep_txAvail (next_blk a) = ep_txAvail a - 1"
  "ep_msgQue (next_blk a) = ep_msgQue a" "endpoint.more (next_blk a) = endpoint.more a"
  "ep_txSize (next_blk a) = ep_txSize a" "ep_txMask (next_blk a) = ep_txMask a" "ep_txBase (next_blk a) = ep_txBase a"
  "ep_heap (next_blk a) = ep_heap a" "ep_txBlkIdx (next_blk a) = ep_txBlkIdx a + 1" "ep_rxDataSize (next_blk a) = ep_rxDataSize a"
  "ep_rxRdIdx (next_blk a) = ep_rxRdIdx a" "ep_rxBlkIdx (next_blk a) = ep_rxBlkIdx a" "ep_rxSize (next_blk a) = ep_rxSize a"
  "ep_rxMask (next_blk a) = ep_rxMask a" "ep_rxBase (next_blk a) = ep_rxBase a" "ep_rxOff (next_blk a) = ep_rxOff a"
  "ep_txq (next_blk a) = ep_txq a" "ep_rxq (next_blk a) = ep_rxq a" "ep_ctlWrIdx (next_blk a) = ep_ctlWrIdx a"
  "ep_ctlRdIdx (next_blk a) = ep_ctlRdIdx a" "ep_ctlQueMask (next_blk a) = ep_ctlQueMask a"
  "ring_size (next_blk a) = ring_size a"
  by (simp_all add: next_blk_def ring_size_def)

lemma put_msg_more [simp]: "endpoint.more (put_msg m a) = endpoint.more a"
  by (simp add: put_msg_def)

lemma users_blk:
  assumes "codes_ok D E" "ctl_msgs b' = ctl_msgs b @ [blk_msg (d_rdy D) n c]" "n \<le> d_sz D" "c \<in> {0, 1, 6, 7}"
  shows "users b' = users b"
  using assms blk_msg_of(1) [OF assms(1,3,4)] codes_lt(1) [OF assms(1)] by (simp add: users_def)

text \<open>FlushInBlk / FlushOutBlk with the lock held.\<close>

lemma FlushBlk_run:
  assumes l: "link D E a b" and lk: "ep_lock a" and rm: "roomy D E 0 b" and av: "0 < ep_txAvail a"
    and c: "c = 0 \<and> 0 < ep_txWrIdx a \<or> (c = HIF_DQ_NULL \<or> c = HIF_DQ_HALT \<or> c = HIF_DQ_CALL) \<and> ep_txWrIdx a = 0"
  shows "ep_FlushBlk (d_rdy D) False c a = Some (put_msg (blk_msg (d_rdy D) (ep_txWrIdx a) c) (next_blk a))"
    and "step D E a b (put_msg (blk_msg (d_rdy D) (ep_txWrIdx a) c) (next_blk a)) (ctl_events c) []"
proof -
  have room: "length (ctl_msgs b) < ring_size b" using ring_room [OF l rm] av by simp
  have r: "ring_ok (next_blk a) b" using link_ring_ok(1) [OF l] by (simp add: ring_ok_next_blk)
  show "ep_FlushBlk (d_rdy D) False c a = Some (put_msg (blk_msg (d_rdy D) (ep_txWrIdx a) c) (next_blk a))"
    using c lk av room SendMsgInternal_put [OF r]
    by (auto simp: ep_FlushBlk_def ep_Lock_def ep_Unlock_def NextTxBlk_next blk_msg_def Let_def)
  note F = link_flush [OF l room av refl c]
  have co: "codes_ok D E" and sz: "ep_txWrIdx a \<le> d_sz D" using l by (simp_all add: link_def chan_def credit_def)
  have "c \<in> {0, 1, 6, 7}" using c by auto
  then have "users (see (put_msg (blk_msg (d_rdy D) (ep_txWrIdx a) c) (next_blk a)) b) = users b"
    using users_blk [OF co F(2) sz] by simp
  then show "step D E a b (put_msg (blk_msg (d_rdy D) (ep_txWrIdx a) c) (next_blk a)) (ctl_events c) []"
    using F(1) by (simp add: step_def ctl_events_def)
qed

text \<open>Flushing the data staged, if any.\<close>

lemma flush_data:
  assumes l: "link D E a b" and lk: "ep_lock a" and rm: "roomy D E 0 b"
  shows "\<exists>a'. ep_FlushBlk (d_rdy D) False 0 a = Some a' \<and> step D E a b a' [] [] \<and> ep_lock a' \<and>
    ep_txWrIdx a' = 0 \<and> ep_txAvail a' = ep_txAvail a - of_bool (0 < ep_txWrIdx a) \<and> ep_msgQue a' = ep_msgQue a"
proof (cases "ep_txWrIdx a = 0")
  case True
  then show ?thesis using lk step_refl [OF l] by (simp add: ep_FlushBlk_def ep_Lock_def ep_Unlock_def)
next
  case False
  then have "0 < ep_txAvail a" using l by (simp add: link_def chan_def credit_def)
  from FlushBlk_run [OF l lk rm this, of 0] False lk show ?thesis by (simp add: ctl_events_def)
qed

text \<open>The retry when blocks are short: release the lock, take what has arrived, look again.\<close>

lemma que_again:
  assumes l: "link D E a b" and lk: "ep_lock a"
  shows "\<exists>a'. ep_QueMsgs (d_avl D) (a\<lparr>ep_lock := False\<rparr>) = Some a' \<and> \<not> ep_lock a' \<and>
    step D E a b a' [] [] \<and> ep_txWrIdx a' = ep_txWrIdx a \<and> ep_txAvail a \<le> ep_txAvail a' \<and>
    (ctl_msgs a' = [] \<or> cq_IsFull (ep_msgQue a'))"
proof -
  have "link D E (a\<lparr>ep_lock := False\<rparr>) b" using l by (simp add: link_lock)
  from QueMsgs_ok [OF this] obtain a' where a': "ep_QueMsgs (d_avl D) (a\<lparr>ep_lock := False\<rparr>) = Some a'"
    "moves D E (a\<lparr>ep_lock := False\<rparr>) b a' [] []" "que_frame (a\<lparr>ep_lock := False\<rparr>) a'"
    "ctl_msgs (see a' b) = ctl_msgs b" "ctl_msgs a' = [] \<or> cq_IsFull (ep_msgQue a')" by auto
  then show ?thesis
    using que_frame_same [OF a'(3)] by (auto simp: step_def users_def moves_frame)
qed

section \<open>Data\<close>

definition stage :: "u64 list \<Rightarrow> 'z endpoint_scheme \<Rightarrow> 'z endpoint_scheme" where
  "stage xs a = a\<lparr>ep_heap := heap_store (ep_txBase a) (ep_txOff a + ep_txWrIdx a) xs (ep_heap a),
                  ep_txWrIdx := ep_txWrIdx a + length xs\<rparr>"

lemma stage_simps [simp]:
  "ep_lock (stage xs a) = ep_lock a" "ep_txAvail (stage xs a) = ep_txAvail a"
  "ep_txWrIdx (stage xs a) = ep_txWrIdx a + length xs" "ep_txSize (stage xs a) = ep_txSize a"
  "endpoint.more (stage xs a) = endpoint.more a" "ep_msgQue (stage xs a) = ep_msgQue a"
  by (simp_all add: stage_def)

lemma stage_step:
  assumes "link D E a b" "0 < ep_txAvail a" "ep_txWrIdx a + length xs \<le> d_sz D"
  shows "step D E a b (stage xs a) (map EData xs) []"
  using link_stage [OF assms] by (simp add: step_def stage_def users_def o_def)

text \<open>No block is free and nothing that arrived can change it.\<close>

definition dry :: "'z endpoint_scheme \<Rightarrow> bool" where
  "dry a \<longleftrightarrow> ep_txAvail a = 0 \<and> (ctl_msgs a = [] \<or> cq_IsFull (ep_msgQue a))"

lemma link_avail: "link D E a b \<Longrightarrow> 0 \<le> ep_txAvail a"
  by (simp add: link_def chan_def credit_def)

lemma link_size: "link D E a b \<Longrightarrow> ep_txSize a = d_sz D"
  by (simp add: link_def chan_def geo_def)

text \<open>One turn of the loop with a free block, up to the recursive call.\<close>

lemma SendLoop_turn:
  assumes l: "link D E a b" and lk: "ep_lock a" and wr: "ep_txWrIdx a < d_sz D" and rm: "roomy D E 0 b"
    and k: "k < length data" and av: "0 < ep_txAvail a"
  shows "\<exists>n a'. k < n \<and> n \<le> length data \<and> ep_SendLoop (d_rdy D) (d_avl D) data k a = ep_SendLoop (d_rdy D) (d_avl D) data n a' \<and>
    step D E a b a' (map EData (take (n - k) (drop k data))) [] \<and> ep_lock a' \<and> ep_txWrIdx a' < d_sz D"
proof -
  let ?cnt = "min (length data - k) (d_sz D - ep_txWrIdx a)"
  let ?xs = "take ?cnt (drop k data)"
  have cnt: "0 < ?cnt" "length ?xs = ?cnt" "ep_txWrIdx a + ?cnt \<le> d_sz D" using k wr by auto
  note S = stage_step [OF l av, of ?xs, unfolded cnt(2), OF cnt(3)]
  have run: "ep_SendLoop (d_rdy D) (d_avl D) data k a =
      (if ep_txWrIdx a + ?cnt = d_sz D then ep_FlushBlk (d_rdy D) False 0 (stage ?xs a) else Some (stage ?xs a)) \<bind>
      (\<lambda>s. ep_SendLoop (d_rdy D) (d_avl D) data (k + ?cnt) s)"
    using k av cnt by (subst ep_SendLoop.simps) (simp add: link_size [OF l] Let_def stage_def cnt(2))
  show ?thesis
  proof (cases "ep_txWrIdx a + ?cnt = d_sz D")
    case True
    have "ep_txWrIdx (stage ?xs a) = ep_txWrIdx a + ?cnt" by (simp only: stage_simps cnt(2))
    then have w: "0 < ep_txWrIdx (stage ?xs a)" using cnt(1) by simp
    from flush_data [OF step_link [OF S] _ step_roomy0 [OF S rm]] w lk obtain a' where a':
      "ep_FlushBlk (d_rdy D) False 0 (stage ?xs a) = Some a'" "step D E (stage ?xs a) (see (stage ?xs a) b) a' [] []"
      "ep_lock a'" "ep_txWrIdx a' = 0" by auto
    from step_trans [OF S a'(2)] show ?thesis using run True a' cnt k wr
      by (intro exI [of _ "k + ?cnt"] exI [of _ a']) auto
  next
    case False
    then have "ep_txWrIdx a + ?cnt < d_sz D" using cnt(3) by simp
    then show ?thesis using run False S cnt(1,2) k lk
      by (intro exI [of _ "k + ?cnt"] exI [of _ "stage ?xs a"]) auto
  qed
qed

lemma SendLoop_ok:
  assumes "link D E a b" "ep_lock a" "ep_txWrIdx a < d_sz D" "roomy D E 0 b" "k \<le> length data"
  shows "\<exists>n fin a'. ep_SendLoop (d_rdy D) (d_avl D) data k a = Some (n, fin, a') \<and> k \<le> n \<and> n \<le> length data \<and>
    step D E a b a' (map EData (take (n - k) (drop k data))) [] \<and> ep_lock a' = fin \<and> ep_txWrIdx a' < d_sz D \<and>
    (if fin then n = length data else n < length data \<and> dry a')"
  using assms
proof (induction "length data - k" arbitrary: k a b rule: less_induct)
  case less
  consider "k = length data" | "k < length data" "0 < ep_txAvail a" | "k < length data" "ep_txAvail a = 0"
    using less.prems(5) link_avail [OF less.prems(1)] by linarith
  then show ?case
  proof cases
    case 1
    then show ?thesis using less.prems step_refl [OF less.prems(1)] by (subst ep_SendLoop.simps) auto
  next
    case 2
    from SendLoop_turn [OF less.prems(1-4) 2] obtain n a' where a': "k < n" "n \<le> length data"
      "ep_SendLoop (d_rdy D) (d_avl D) data k a = ep_SendLoop (d_rdy D) (d_avl D) data n a'"
      "step D E a b a' (map EData (take (n - k) (drop k data))) []" "ep_lock a'" "ep_txWrIdx a' < d_sz D" by blast
    have lt: "length data - n < length data - k" using a'(1,2) by simp
    from less.hyps [OF lt step_link [OF a'(4)] a'(5,6) step_roomy0 [OF a'(4) less.prems(4)] a'(2)]
    obtain m fin c where c: "ep_SendLoop (d_rdy D) (d_avl D) data n a' = Some (m, fin, c)" "n \<le> m" "m \<le> length data"
      "step D E a' (see a' b) c (map EData (take (m - n) (drop n data))) []" "ep_lock c = fin" "ep_txWrIdx c < d_sz D"
      "if fin then m = length data else m < length data \<and> dry c" by blast
    have "take (m - k) (drop k data) = take (n - k) (drop k data) @ take (m - n) (drop n data)"
      using a'(1) c(2) take_add [of "n - k" "m - n" "drop k data"] by simp
    then show ?thesis using step_trans [OF a'(4) c(4)] a' c by auto
  next
    case 3
    from que_again [OF less.prems(1,2)] obtain q where q: "ep_QueMsgs (d_avl D) (a\<lparr>ep_lock := False\<rparr>) = Some q"
      "\<not> ep_lock q" "step D E a b q [] []" "ep_txWrIdx q = ep_txWrIdx a" "ep_txAvail a \<le> ep_txAvail q"
      "ctl_msgs q = [] \<or> cq_IsFull (ep_msgQue q)" by auto
    show ?thesis
    proof (cases "ep_txAvail q = 0")
      case True
      then have "q\<lparr>ep_lock := False\<rparr> = q" using q(2) by simp
      then have "ep_SendLoop (d_rdy D) (d_avl D) data k a = Some (k, False, q)"
        using 3 q True by (subst ep_SendLoop.simps) (simp add: ep_Lock_def ep_Unlock_def Let_def)
      moreover have "dry q" using True q(6) by (simp add: dry_def)
      ultimately show ?thesis using 3 q less.prems(3) by auto
    next
      case False
      let ?q = "q\<lparr>ep_lock := True\<rparr>"
      have Q: "step D E a b ?q [] []" "ep_lock ?q" "ep_txWrIdx ?q < d_sz D" "0 < ep_txAvail ?q"
        using q False less.prems(3) link_avail [OF step_link [OF q(3)]] by simp_all
      have rm: "roomy D E 0 (see ?q b)" using step_roomy [OF Q(1), of 0] less.prems(4) by simp
      have "ep_SendLoop (d_rdy D) (d_avl D) data k a = ep_SendLoop (d_rdy D) (d_avl D) data k ?q"
        using 3 q False less.prems(3)
        by (simp add: ep_SendLoop.simps [of _ _ data k a] ep_SendLoop.simps [of _ _ data k ?q] ep_Lock_def ep_Unlock_def Let_def)
      moreover from SendLoop_turn [OF step_link [OF Q(1)] Q(2,3) rm 3(1) Q(4)] obtain n a' where a': "k < n" "n \<le> length data"
        "ep_SendLoop (d_rdy D) (d_avl D) data k ?q = ep_SendLoop (d_rdy D) (d_avl D) data n a'"
        "step D E ?q (see ?q b) a' (map EData (take (n - k) (drop k data))) []" "ep_lock a'" "ep_txWrIdx a' < d_sz D" by blast
      moreover have S: "step D E a b a' (map EData (take (n - k) (drop k data))) []"
        using step_trans [OF Q(1) a'(4)] by simp
      moreover have lt: "length data - n < length data - k" using a'(1,2) by simp
      moreover from less.hyps [OF lt step_link [OF S] a'(5,6) step_roomy0 [OF S less.prems(4)] a'(2)]
      obtain m fin c where c: "ep_SendLoop (d_rdy D) (d_avl D) data n a' = Some (m, fin, c)" "n \<le> m" "m \<le> length data"
        "step D E a' (see a' b) c (map EData (take (m - n) (drop n data))) []" "ep_lock c = fin" "ep_txWrIdx c < d_sz D"
        "if fin then m = length data else m < length data \<and> dry c" by blast
      moreover have "take (m - k) (drop k data) = take (n - k) (drop k data) @ take (m - n) (drop n data)"
        using a'(1) c(2) take_add [of "n - k" "m - n" "drop k data"] by simp
      ultimately show ?thesis using step_trans [OF S c(4)] by auto
    qed
  qed
qed

lemma dry_lock [simp]: "dry (a\<lparr>ep_lock := l\<rparr>) = dry a"
  by (simp add: dry_def ctl_msgs_def ring_size_def)

lemma SendData_ok:
  assumes "link D E a b" "\<not> ep_lock a" "ep_txWrIdx a < d_sz D" "roomy D E 0 b"
  shows "\<exists>n fin a'. ep_SendData (d_rdy D) (d_avl D) data True a = Some (n, fin, a') \<and> n \<le> length data \<and>
    step D E a b a' (map EData (take n data)) [] \<and> \<not> ep_lock a' \<and> ep_txWrIdx a' < d_sz D \<and>
    (if fin then n = length data else n < length data \<and> dry a')"
proof -
  have "link D E (a\<lparr>ep_lock := True\<rparr>) b" using assms(1) by (simp add: link_lock)
  from SendLoop_ok [OF this, of 0 data] assms obtain n fin a' where
    "ep_SendLoop (d_rdy D) (d_avl D) data 0 (a\<lparr>ep_lock := True\<rparr>) = Some (n, fin, a')" "n \<le> length data"
    "step D E a b a' (map EData (take n data)) []" "ep_lock a' = fin" "ep_txWrIdx a' < d_sz D"
    "if fin then n = length data else n < length data \<and> dry a'" by auto
  then show ?thesis using assms(2)
    by (cases fin) (auto simp: ep_SendData_def ep_Lock_def ep_Unlock_def)
qed

section \<open>Messages, markers and the timer\<close>

lemma step_trans1: "step D E a b a' [] [] \<Longrightarrow> step D E a' (see a' b) a'' xs ys \<Longrightarrow> step D E a b a'' xs ys"
  using step_trans [of D E a b a' "[]" "[]" a'' xs ys] by simp

lemma step_roomy1: "step D E a b a' [] ys \<Longrightarrow> roomy D E n b \<Longrightarrow> roomy D E n (see a' b)"
  using step_roomy [of D E a b a' "[]" ys n] by simp

lemma put_user_msg:
  assumes "link D E a b" "ep_lock a" "roomy D E (Suc 0) b" "16 \<le> t" "t < 128" "ep_txWrIdx a = 0"
  shows "ep_SendMsgInternal t d False a = Some (put_msg (CHtCtrlMsg t d) a)"
    and "step D E a b (put_msg (CHtCtrlMsg t d) a) [EMsg t (d AND mask 56)] []"
proof -
  note room = ring_room_user [OF assms(1,3)]
  show "ep_SendMsgInternal t d False a = Some (put_msg (CHtCtrlMsg t d) a)"
    using SendMsgInternal_put [OF link_ring_ok(1) [OF assms(1)] assms(2)] room by simp
  note M = link_user_msg [OF assms(1) room assms(4,5,6), of d]
  have "users (see (put_msg (CHtCtrlMsg t d) a) b) = Suc (users b)"
    using M(2) user_type [OF assms(4,5)] assms(4) by (simp add: users_def)
  then show "step D E a b (put_msg (CHtCtrlMsg t d) a) [EMsg t (d AND mask 56)] []"
    using M(1) by (simp add: step_def)
qed

lemma flush_locked:
  assumes "link D E a b" "\<not> ep_lock a" "roomy D E 0 b"
  shows "\<exists>a'. ep_FlushBlk (d_rdy D) False 0 (a\<lparr>ep_lock := True\<rparr>) = Some a' \<and> step D E a b a' [] [] \<and> ep_lock a' \<and>
    ep_txWrIdx a' = 0 \<and> ep_txAvail a' = ep_txAvail a - of_bool (0 < ep_txWrIdx a) \<and> ep_msgQue a' = ep_msgQue a"
  using flush_data [of D E "a\<lparr>ep_lock := True\<rparr>" b] assms by (simp add: link_lock)

lemma roomy_mono: "roomy D E m b \<Longrightarrow> n \<le> m \<Longrightarrow> roomy D E n b"
  by (simp add: roomy_def)

lemma SendHostMsg_ok:
  assumes "link D E a b" "\<not> ep_lock a" "roomy D E (Suc 0) b" "16 \<le> t" "t < 128"
  shows "\<exists>a'. ep_SendHostMsg (d_rdy D) t d a = Some a' \<and> step D E a b a' [EMsg t (d AND mask 56)] [] \<and>
    \<not> ep_lock a' \<and> ep_txWrIdx a' = 0"
proof -
  from flush_locked [OF assms(1,2) roomy_mono [OF assms(3)]] obtain q where q:
    "ep_FlushBlk (d_rdy D) False 0 (a\<lparr>ep_lock := True\<rparr>) = Some q" "step D E a b q [] []" "ep_lock q" "ep_txWrIdx q = 0" by auto
  note M = put_user_msg [OF step_link [OF q(2)] q(3) step_roomy1 [OF q(2) assms(3)] assms(4,5) q(4), of d]
  from step_trans1 [OF q(2) M(2)] show ?thesis
    using q M(1) assms(2) by (simp add: ep_SendHostMsg_def ep_Lock_def ep_Unlock_def)
qed

lemma BlkTimer_ok:
  assumes "link D E a b" "\<not> ep_lock a" "roomy D E 0 b"
  shows "\<exists>a'. ep_BlkTimer (d_rdy D) a = Some a' \<and> step D E a b a' [] [] \<and> \<not> ep_lock a' \<and> ep_txWrIdx a' = 0"
proof -
  from flush_locked [OF assms] obtain q where q:
    "ep_FlushBlk (d_rdy D) False 0 (a\<lparr>ep_lock := True\<rparr>) = Some q" "step D E a b q [] []" "ep_txWrIdx q = 0" by auto
  then show ?thesis using assms(2) by (simp add: ep_BlkTimer_def ep_Lock_def ep_Unlock_def)
qed

lemma FlushBlk_locking:
  assumes "\<not> ep_lock a"
  shows "ep_FlushBlk rdy True 0 a = ep_BlkTimer rdy a"
  using assms by (simp add: ep_BlkTimer_def ep_FlushBlk_def ep_Lock_def ep_Unlock_def Let_def)

text \<open>
  Waiting once for \<open>k\<close> free blocks with the lock held: it ends, with the blocks and the lock, or
  without either.
\<close>

definition wait_blks :: "u8 \<Rightarrow> int \<Rightarrow> 'z endpoint_scheme \<Rightarrow> (bool \<times> 'z endpoint_scheme) option" where
  "wait_blks avl k s = (if ep_txAvail s < k then do {
         let s = ep_Unlock True s;
         s \<leftarrow> ep_QueMsgs avl s;
         s \<leftarrow> ep_Lock True s;
         if ep_txAvail s < k then Some (True, ep_Unlock True s) else Some (False, s)
       } else Some (False, s))"

lemma wait_blks_ok:
  assumes l: "link D E a b" and lk: "ep_lock a" and wr: "ep_txWrIdx a = 0"
  shows "\<exists>none a'. wait_blks (d_avl D) k a = Some (none, a') \<and> step D E a b a' [] [] \<and> ep_lock a' = (\<not> none) \<and> ep_txWrIdx a' = 0 \<and>
    (if none then ep_txAvail a' < k \<and> (ctl_msgs a' = [] \<or> cq_IsFull (ep_msgQue a')) else k \<le> ep_txAvail a') \<and>
    (k \<le> ep_txAvail a \<longrightarrow> \<not> none)"
proof (cases "ep_txAvail a < k")
  case lt: True
  from que_again [OF l lk] obtain q where q: "ep_QueMsgs (d_avl D) (a\<lparr>ep_lock := False\<rparr>) = Some q"
    "\<not> ep_lock q" "step D E a b q [] []" "ep_txWrIdx q = ep_txWrIdx a" "ctl_msgs q = [] \<or> cq_IsFull (ep_msgQue q)" by auto
  have "q\<lparr>ep_lock := False\<rparr> = q" using q(2) by simp
  then have w: "wait_blks (d_avl D) k a =
      Some (if ep_txAvail q < k then (True, q) else (False, q\<lparr>ep_lock := True\<rparr>))"
    using lt q(1,2) by (simp add: wait_blks_def ep_Lock_def ep_Unlock_def Let_def)
  show ?thesis
  proof (cases "ep_txAvail q < k")
    case True
    then show ?thesis using w q wr lt by (intro exI [of _ True] exI [of _ q]) simp
  next
    case False
    then show ?thesis using w q wr lt by (intro exI [of _ False] exI [of _ "q\<lparr>ep_lock := True\<rparr>"]) simp
  qed
next
  case False
  then show ?thesis using assms step_refl [OF l] by (intro exI [of _ False] exI [of _ a]) (simp add: wait_blks_def)
qed

lemma SendCtl_alt:
  "ep_SendCtl rdy avl ctl s = do {
     s \<leftarrow> ep_Lock True s;
     s \<leftarrow> ep_FlushBlk rdy False 0 s;
     (none, s) \<leftarrow> wait_blks avl 1 s;
     if none then Some (False, s)
     else do { s \<leftarrow> ep_FlushBlk rdy False ctl s; Some (True, ep_Unlock True s) }
   }"
  by (simp add: ep_SendCtl_def wait_blks_def)

lemma SendCtl_ok:
  assumes l: "link D E a b" "\<not> ep_lock a" "roomy D E 0 b" and c: "c = HIF_DQ_NULL \<or> c = HIF_DQ_HALT"
  shows "\<exists>ok a'. ep_SendCtl (d_rdy D) (d_avl D) c a = Some (ok, a') \<and>
    step D E a b a' (if ok then ctl_events c else []) [] \<and> \<not> ep_lock a' \<and> ep_txWrIdx a' = 0 \<and> (ok \<or> dry a') \<and>
    (2 \<le> ep_txAvail a \<longrightarrow> ok)"
proof -
  from flush_locked [OF l] obtain q where q:
    "ep_FlushBlk (d_rdy D) False 0 (a\<lparr>ep_lock := True\<rparr>) = Some q" "step D E a b q [] []" "ep_lock q" "ep_txWrIdx q = 0"
    "ep_txAvail q = ep_txAvail a - of_bool (0 < ep_txWrIdx a)" by auto
  from wait_blks_ok [OF step_link [OF q(2)] q(3,4), of 1] obtain none r where r:
    "wait_blks (d_avl D) 1 q = Some (none, r)" "step D E q (see q b) r [] []" "ep_lock r = (\<not> none)" "ep_txWrIdx r = 0"
    "if none then ep_txAvail r < 1 \<and> (ctl_msgs r = [] \<or> cq_IsFull (ep_msgQue r)) else 1 \<le> ep_txAvail r"
    "1 \<le> ep_txAvail q \<longrightarrow> \<not> none" by blast
  have R: "step D E a b r [] []" using step_trans1 [OF q(2) r(2)] .
  have start: "ep_Lock True a = Some (a\<lparr>ep_lock := True\<rparr>)" using l(2) by (simp add: ep_Lock_def)
  show ?thesis
  proof (cases none)
    case True
    then have "dry r" using r(5) link_avail [OF step_link [OF R]] by (simp add: dry_def)
    moreover have "\<not> 2 \<le> ep_txAvail a" using r(6) True q(5) by (cases "0 < ep_txWrIdx a") auto
    ultimately show ?thesis using True q(1) r R by (intro exI [of _ False] exI [of _ r]) (simp add: SendCtl_alt start)
  next
    case False
    have rm: "roomy D E 0 (see r b)" using step_roomy1 [OF R l(3)] .
    have "0 < ep_txAvail r" "ep_lock r" using False r by simp_all
    note F = FlushBlk_run [OF step_link [OF R] this(2) rm this(1), of c]
    from step_trans1 [OF R F(2)] c r(4) show ?thesis
      using False q(1) r(1) F(1) by (auto simp: SendCtl_alt start ep_Unlock_def)
  qed
qed

section \<open>Calls\<close>

text \<open>
  A call with arguments takes two blocks: an empty one for the call and the next for the
  arguments, which are staged before the call is announced.
\<close>

definition call_msgs :: "direction \<Rightarrow> u64 list \<Rightarrow> 'z endpoint_scheme \<Rightarrow> 'z endpoint_scheme" where
  "call_msgs D argv a =
     put_msg (blk_msg (d_rdy D) (length argv) 0)
       (next_blk (put_msg (blk_msg (d_rdy D) (length argv) HIF_DQ_CALL) (stage argv (next_blk a))))"

lemma link_call:
  assumes l: "link D E a b" and room: "length (ctl_msgs b) + 1 < ring_size b" and av: "2 \<le> ep_txAvail a"
    and w: "ep_txWrIdx a = 0" and n: "argv \<noteq> []" "length argv < d_sz D"
  shows "moves D E a b (call_msgs D argv a) (ECall (length argv) # map EData argv) []"
    and "ctl_msgs (see (call_msgs D argv a) b) =
      ctl_msgs b @ [blk_msg (d_rdy D) (length argv) HIF_DQ_CALL, blk_msg (d_rdy D) (length argv) 0]"
proof -
  let ?n = "length argv" and ?c = "stage argv (next_blk a)" and ?a = "call_msgs D argv a"
  let ?m1 = "blk_msg (d_rdy D) ?n HIF_DQ_CALL" and ?m2 = "blk_msg (d_rdy D) ?n 0"
  let ?p = "put_msg ?m1 ?c"
  have st: "ep_ctlQueMask ?c = ep_ctlQueMask a" "ep_ctlWrIdx ?c = ep_ctlWrIdx a" "ep_ctlRdIdx ?c = ep_ctlRdIdx a"
    "ep_txq ?c = ep_txq a" "ep_rxq ?c = ep_rxq a" by (simp_all add: stage_def)
  note ring = link_ring_ok [OF l]
  have v: "IsValid ?m1" "IsValid ?m2" by (simp_all add: blk_msg_def)
  have r0: "ring_ok ?c b" "ring_ok b ?c"
    by (rule ring_ok_cong [OF ring(1)]; simp add: st) (rule ring_ok_cong [OF ring(2)]; simp add: st)
  have rm0: "length (ctl_msgs b) < ring_size b" using room by simp
  note P = put_msg_ring [OF r0(1) v(1) rm0] and B = put_msg_ring_back [OF r0(2), of ?m1]
  have r1: "ring_ok (next_blk ?p) (see ?p b)" "ring_ok (see ?p b) (next_blk ?p)"
    using P(1) B(1) by (simp_all add: ring_ok_next_blk)
  have "length (ctl_msgs (see ?p b)) < ring_size (see ?p b)" using P(2) room by simp
  note Q = put_msg_ring [OF r1(1) v(2) this] and C = put_msg_ring_back [OF r1(2), of ?m2]
  have a: "?a = put_msg ?m2 (next_blk ?p)" by (simp add: call_msgs_def)
  have r: "ring_ok ?a (see ?a b)" "ring_ok (see ?a b) ?a" "ctl_msgs (see ?a b) = ctl_msgs b @ [?m1, ?m2]"
    using Q C(1) P(2) by (simp_all add: a)
  then show "ctl_msgs (see ?a b) = ctl_msgs b @ [?m1, ?m2]" by simp
  have cm: "ctl_msgs ?a = ctl_msgs a"
    using C(2) B(2) ctl_msgs_cong [of ?c a] st by (simp add: a ring_ok_next_blk)
  have co: "codes_ok D E" using l by (simp add: link_def)
  note lt = codes_lt [OF co]
  have m: "GetMsgType ?m1 = d_rdy D" "GetMsgData ?m1 AND 7 = HIF_DQ_CALL" "dq_words (GetMsgData ?m1) = ?n"
    "GetMsgType ?m2 = d_rdy D" "GetMsgData ?m2 AND 7 = 0" "dq_words (GetMsgData ?m2) = ?n"
    using n by (intro blk_msg_of [OF co]; simp)+
  have wf: "wf_msgs D E ((cq_entries (ep_msgQue b) @ ctl_msgs b) @ [?m1, ?m2])"
    using l n by (intro wf_msgs_call [OF _ co]) (auto simp: link_def chan_def flight_def)
  have bD: "ep_txBase a = d_base D" "ep_txSize a = d_sz D" "ep_txMask a = mask (d_cw D)"
    using l by (simp_all add: link_def chan_def geo_def)
  let ?cnt = "count_type (d_rdy D) (flight b)" and ?rx = "unat (ep_rxBlkIdx b)" and ?k = "2 ^ d_cw D :: nat"
  have cnt: "?cnt + 1 < ?k"
  proof -
    have "ep_txAvail a + int ?cnt + int (count_type (d_avl D) (ctl_msgs a)) = 2 ^ d_cw D"
      using l by (simp add: link_def chan_def credit_def)
    then have "int (?cnt + 1) < int ?k" using av by simp
    then show ?thesis by (simp only: of_nat_less_iff)
  qed
  have slot: "unat (ep_txBlkIdx a + 1) mod ?k = (?rx + (?cnt + 1)) mod ?k"
    using link_tx_slot [OF l] co by (simp add: unat_add_one_mod_pow codes_ok_def) (metis mod_Suc_eq)
  have hp: "ep_heap ?a = heap_store (d_base D) ((?rx + (?cnt + 1)) mod ?k * d_sz D) argv (ep_heap a)"
    using slot by (simp add: a stage_def bD) (simp add: next_blk_def bD unat_and_mask)
  have blk: "blk_words D (ep_heap ?a) j i = blk_words D (ep_heap a) j i"
    if "?rx \<le> j" "j < ?rx + ?cnt" "i \<le> d_sz D" for j i
  proof -
    have "(0 + j) mod ?k \<noteq> (0 + (?rx + (?cnt + 1))) mod ?k"
      using that cnt by (intro ring_slot_neq) auto
    then have "j mod ?k \<noteq> (?rx + (?cnt + 1)) mod ?k" by simp
    from blk_disjoint [OF this that(3), of 0 ?n] n show ?thesis
      unfolding blk_words_def hp by (simp add: heap_load_store_disjoint)
  qed
  have old: "arrived D (b\<lparr>ep_heap := ep_heap ?a\<rparr>) = arrived D b"
  proof -
    have "decode (d_rdy D) (blk_words D (ep_heap ?a)) ?rx (flight b) = decode (d_rdy D) (blk_words D (ep_heap a)) ?rx (flight b)"
      by (rule decode_cong [where sz = "d_sz D"]) (use blk wf_data_bound [OF _ co] l in \<open>auto simp: link_def chan_def\<close>)
    then show ?thesis using l by (simp add: arrived_def flight_def ctl_msgs_def ring_size_def link_def)
  qed
  let ?b1 = "b\<lparr>ep_heap := ep_heap ?a\<rparr>"
  have b1: "flight ?b1 = flight b" by (simp add: flight_def ctl_msgs_def ring_size_def)
  have arr: "arrived D (see ?a b) = arrived D b @ ECall ?n # map EData argv"
  proof -
    have "arrived D (see ?a b) = arrived D ?b1 @
        decode (d_rdy D) (blk_words D (ep_heap ?a)) (?rx + ?cnt) [?m1, ?m2]"
      using l arrived_grow [OF co, of ?b1 "see ?a b" "[?m1, ?m2]"]
      by (simp add: b1 link_def chan_def) (simp add: flight_def r(3))
    moreover have "blk_words D (ep_heap ?a) (Suc (?rx + ?cnt)) ?n = argv"
      by (simp add: blk_words_def hp heap_load_store_same)
    ultimately show ?thesis by (simp add: old m blk_events_def)
  qed
  have other: "blk_words E (ep_heap ?a) = blk_words E (ep_heap a)"
    using co by (auto simp: fun_eq_iff blk_words_def hp codes_ok_def intro!: heap_load_store_other)
  have "ep_txBase b \<noteq> d_base D" using l by (auto simp: link_def chan_def geo_def codes_ok_def)
  then have st_b: "staged (see ?a b) = staged b"
    using l by (simp add: staged_def hp heap_load_store_other link_def)
  have st_a: "staged ?a = []" "staged a = []" using w by (simp_all add: staged_def heap_load_def a)
  have off: "ep_txOff ?a = unat (ep_txBlkIdx ?a) mod ?k * d_sz D"
    by (simp add: a next_blk_def stage_def bD unat_and_mask put_msg_def)
  have "chan D E ?a (see ?a b)"
    using l wf lt m av off by (simp add: link_def chan_def r geo_def credit_def flight_def cm)
      (simp add: a stage_def)
  moreover have "chan E D (see ?a b) ?a"
    using l lt m by (simp add: link_def chan_def r geo_def credit_def flight_def cm) (simp add: a stage_def)
  ultimately have "link D E ?a (see ?a b)" using l by (simp add: link_def)
  moreover have "arrived E ?a = arrived E a"
    using other by (simp add: arrived_def flight_def cm) (simp add: a stage_def)
  ultimately show "moves D E a b ?a (ECall ?n # map EData argv) []"
    by (simp add: moves_def pend_def arr st_a st_b)
qed

lemma stage_Nil [simp]: "stage [] a = a"
proof -
  have "heap_store base off [] h = h" for base off h by (intro ext) (auto simp: heap_store_def)
  then show ?thesis by (simp add: stage_def)
qed

definition call_state :: "direction \<Rightarrow> u64 list \<Rightarrow> 'z endpoint_scheme \<Rightarrow> 'z endpoint_scheme" where
  "call_state D argv a = (if argv = [] then put_msg (blk_msg (d_rdy D) 0 HIF_DQ_CALL) (next_blk a) else call_msgs D argv a)"

lemma SendData_short:
  assumes "ep_lock s" "ep_txWrIdx s = 0" "0 < ep_txAvail s" "length argv < ep_txSize s"
  shows "ep_SendData rdy avl argv False s = Some (length argv, True, stage argv s)"
proof -
  have fin: "ep_SendLoop rdy avl argv (length argv) t = Some (length argv, True, t)" for t :: "'a endpoint_scheme"
    by (subst ep_SendLoop.simps) simp
  show ?thesis
  proof (cases "argv = []")
    case True
    then show ?thesis using fin assms(1) by (simp add: ep_SendData_def ep_Lock_def ep_Unlock_def)
  next
    case False
    then have "ep_SendLoop rdy avl argv 0 s = Some (length argv, True, stage argv s)"
      using fin assms by (subst ep_SendLoop.simps) (simp add: Let_def stage_def)
    then show ?thesis using assms(1) by (simp add: ep_SendData_def ep_Lock_def ep_Unlock_def)
  qed
qed

text \<open>The body of SendCall and SendReturn, with the lock and two free blocks.\<close>

lemma call_run:
  assumes l: "link D E a b" and lk: "ep_lock a" and wr: "ep_txWrIdx a = 0" and rm: "roomy D E 0 b"
    and av: "2 \<le> ep_txAvail a" and n: "length argv < d_sz D"
  shows "ep_SendData (d_rdy D) (d_avl D) argv False (next_blk a) = Some (length argv, True, stage argv (next_blk a))"
    and "ep_SendMsgInternal (d_rdy D) (push_bit 3 (of_nat (length argv)) OR HIF_DQ_CALL) False (stage argv (next_blk a)) =
      Some (put_msg (blk_msg (d_rdy D) (length argv) HIF_DQ_CALL) (stage argv (next_blk a)))"
    and "ep_FlushBlk (d_rdy D) False 0 (put_msg (blk_msg (d_rdy D) (length argv) HIF_DQ_CALL) (stage argv (next_blk a))) =
      Some (call_state D argv a)"
    and "step D E a b (call_state D argv a) (ECall (length argv) # map EData argv) []"
    and "ep_lock (call_state D argv a)" "ep_txWrIdx (call_state D argv a) = 0" "0 \<le> ep_txAvail (call_state D argv a)"
proof -
  let ?m1 = "blk_msg (d_rdy D) (length argv) HIF_DQ_CALL" and ?c = "stage argv (next_blk a)"
  show "ep_SendData (d_rdy D) (d_avl D) argv False (next_blk a) = Some (length argv, True, ?c)"
    using lk av n by (intro SendData_short) (simp_all add: link_size [OF l])
  have room: "length (ctl_msgs b) + 1 < ring_size b"
    using ring_len [OF l] rm av by (simp add: roomy_def)
  have r0: "ring_ok ?c b" "ring_ok b ?c"
    by (rule ring_ok_cong [OF link_ring_ok(1) [OF l]]; simp add: stage_def)
      (rule ring_ok_cong [OF link_ring_ok(2) [OF l]]; simp add: stage_def)
  show "ep_SendMsgInternal (d_rdy D) (push_bit 3 (of_nat (length argv)) OR HIF_DQ_CALL) False ?c = Some (put_msg ?m1 ?c)"
    using SendMsgInternal_put [OF r0(1), of "d_rdy D"] lk room by (simp add: blk_msg_def)
  have v: "IsValid ?m1" by (simp add: blk_msg_def)
  have rm0: "length (ctl_msgs b) < ring_size b" using room by simp
  note P = put_msg_ring [OF r0(1) v rm0]
  have r1: "ring_ok (next_blk (put_msg ?m1 ?c)) (see (put_msg ?m1 ?c) b)" using P(1) by (simp add: ring_ok_next_blk)
  show "ep_FlushBlk (d_rdy D) False 0 (put_msg ?m1 ?c) = Some (call_state D argv a)"
    using lk av room SendMsgInternal_put [OF r1] P(2)
    by (auto simp: ep_FlushBlk_def ep_Lock_def ep_Unlock_def NextTxBlk_next Let_def call_state_def call_msgs_def blk_msg_def)
  show "step D E a b (call_state D argv a) (ECall (length argv) # map EData argv) []"
  proof (cases "argv = []")
    case True
    then show ?thesis
      using FlushBlk_run(2) [OF l lk rm, of HIF_DQ_CALL] av wr by (simp add: call_state_def ctl_events_def)
  next
    case False
    note C = link_call [OF l room av wr False n]
    have co: "codes_ok D E" using l by (simp add: link_def)
    have "users (see (call_msgs D argv a) b) = users b"
      using C(2) blk_msg_of(1) [OF co, of "length argv"] codes_lt(1) [OF co] n by (simp add: users_def)
    then show ?thesis using False C(1) by (simp add: step_def call_state_def o_def) (simp add: call_msgs_def)
  qed
  show "ep_lock (call_state D argv a)" "ep_txWrIdx (call_state D argv a) = 0" "0 \<le> ep_txAvail (call_state D argv a)"
    using lk av by (simp_all add: call_state_def call_msgs_def)
qed

end
