(* ===== verification/HifRecv.thy ===== *)
theory HifRecv
  imports HifSend
begin

text \<open>
  The receiving steps of a side \<open>a\<close>: taking a user message, opening a data block, reading part of
  it, and consuming a block with its message, which returns the block to the peer. Direction \<open>E\<close>
  leads to \<open>a\<close>.
\<close>

text \<open>What the queue's front can be.\<close>

lemma queue_front:
  assumes l: "link D E a b" and q: "cq_entries (ep_msgQue a) = m # rest"
  shows "16 \<le> GetMsgType m \<or> (\<exists>n c. m = blk_msg (d_rdy E) n c \<and>
     (c = 0 \<and> 0 < n \<and> n \<le> d_sz E \<or> (c = HIF_DQ_NULL \<or> c = HIF_DQ_HALT) \<and> n = 0 \<or> c = HIF_DQ_CALL \<and> n < d_sz E))"
proof -
  have "count_type (d_avl D) (cq_entries (ep_msgQue a)) = 0" "wf_msgs E D (flight a)"
    using l by (simp_all add: link_def chan_def)
  then have "GetMsgType m \<noteq> d_avl D" "msg_ok E D m"
    unfolding flight_def q by auto
  then show ?thesis unfolding msg_ok_def by blast
qed

text \<open>The arguments of a call follow it.\<close>

lemma queue_call:
  assumes l: "link D E a b" and q: "cq_entries (ep_msgQue a) = blk_msg (d_rdy E) n HIF_DQ_CALL # rest"
    and n: "0 < n" "n < d_sz E" and r: "rest \<noteq> []"
  shows "hd rest = blk_msg (d_rdy E) n 0"
proof -
  have "wf_msgs E D (blk_msg (d_rdy E) n HIF_DQ_CALL # (rest @ ctl_msgs a))"
    using l q by (simp add: link_def chan_def flight_def)
  then have "\<exists>ns. rest @ ctl_msgs a = blk_msg (d_rdy E) n 0 # ns" using n by simp
  then show ?thesis using r by (cases rest) auto
qed

lemma link_cursor: "link D E a b \<Longrightarrow> cursor E (cq_entries (ep_msgQue a)) (ep_rxRdIdx a) (ep_rxDataSize a)"
  by (simp add: link_def chan_def)

lemma cursor_data:
  assumes "cursor E queue rd n" "codes_ok D E" "queue = m # rest" "0 < n"
  shows "m = blk_msg (d_rdy E) (rd + n) 0" "rd + n \<le> d_sz E"
  using assms by (auto simp: cursor_def split: if_splits)

lemma cursor_none:
  assumes l: "link D E a b" and q: "cq_entries (ep_msgQue a) = m # rest"
    and m: "GetMsgType m \<noteq> d_rdy E \<or> GetMsgData m AND 7 \<noteq> 0"
  shows "ep_rxDataSize a = 0" "ep_rxRdIdx a = 0"
proof -
  have co: "codes_ok E D" using l by (simp add: link_def codes_ok_sym)
  show "ep_rxDataSize a = 0"
  proof (rule ccontr)
    assume "ep_rxDataSize a \<noteq> 0"
    then have "m = blk_msg (d_rdy E) (ep_rxRdIdx a + ep_rxDataSize a) 0" "ep_rxRdIdx a + ep_rxDataSize a \<le> d_sz E"
      using link_cursor [OF l] q by (auto simp: cursor_def)
    then show False using m blk_msg_of(1,2) [OF co, of _ 0] by auto
  qed
  then show "ep_rxRdIdx a = 0" using link_cursor [OF l] by (simp add: cursor_def)
qed

section \<open>Steps\<close>

text \<open>A user message.\<close>

lemma link_take_msg:
  assumes l: "link D E a b" and q: "cq_entries (ep_msgQue a) = m # rest" and m: "16 \<le> GetMsgType m"
    and q': "que_ok q" "cq_entries q = rest"
  shows "step D E a b (a\<lparr>ep_msgQue := q\<rparr>) [] [EMsg (GetMsgType m) (GetMsgData m)]"
proof -
  let ?a = "a\<lparr>ep_msgQue := q\<rparr>"
  have co: "codes_ok D E" using l by (simp add: link_def)
  note lt = codes_lt [OF co]
  have ne: "GetMsgType m \<noteq> d_rdy E" "GetMsgType m \<noteq> d_avl D" using m lt by auto
  have cm: "ctl_msgs ?a = ctl_msgs a" "ctl_msgs (see ?a b) = ctl_msgs b"
    using link_see [OF l] by (simp_all add: ctl_msgs_def ring_size_def see_def)
  have see: "see ?a b = b" using link_see [OF l] by (simp add: see_def)
  have r: "ring_ok ?a b" "ring_ok b ?a"
    by (rule ring_ok_cong [OF link_ring_ok(1) [OF l]]; simp) (rule ring_ok_cong [OF link_ring_ok(2) [OF l]]; simp)
  note cur = cursor_none [OF l q disjI1 [OF ne(1)]]
  have f: "flight a = m # flight ?a" by (simp add: flight_def cm q q')
  have "cursor E rest 0 0" by (simp add: cursor_def)
  then have "link D E ?a b"
    using l ne cur f q q' by (simp add: link_def chan_def r geo_def credit_def cm)
  moreover have "pend D ?a b = pend D a b"
    by (simp add: pend_def staged_def)
  moreover have "pend E b a = EMsg (GetMsgType m) (GetMsgData m) # pend E b ?a"
    using cur f ne m by (simp add: pend_def arrived_def)
  ultimately show ?thesis by (simp add: step_def moves_def see)
qed

text \<open>Opening a data block, and reading a part of it that is not the rest.\<close>

definition read_part :: "nat \<Rightarrow> 'z endpoint_scheme \<Rightarrow> 'z endpoint_scheme" where
  "read_part n a = a\<lparr>ep_rxRdIdx := ep_rxRdIdx a + n, ep_rxDataSize := ep_rxDataSize a - n\<rparr>"

lemma decode_data:
  assumes "codes_ok E D" "n \<le> d_sz E"
  shows "decode (d_rdy E) blk k (blk_msg (d_rdy E) n 0 # ms) = map EData (blk k n) @ decode (d_rdy E) blk (Suc k) ms"
  using blk_msg_of(1-3) [OF assms, of 0] by (simp add: blk_events_def)

lemma heap_load_add: "heap_load base off (m + n) h = heap_load base off m h @ heap_load base (off + m) n h"
  by (rule nth_equalityI) (auto simp: heap_load_def nth_append)

lemma length_heap_load [simp]: "length (heap_load base off n h) = n"
  by (simp add: heap_load_def)

lemma rx_move:
  fixes a :: "'y endpoint_scheme"
  assumes l: "link D E a b" and q: "cq_entries (ep_msgQue a) = blk_msg (d_rdy E) (rd' + n') 0 # rest"
    and n: "0 < n'" "rd' + n' \<le> d_sz E" and rd: "ep_rxRdIdx a \<le> rd'"
  defines "a' \<equiv> a\<lparr>ep_rxRdIdx := rd', ep_rxDataSize := n'\<rparr>"
  shows "step D E a b a' [] (map EData (heap_load (ep_rxBase a) (ep_rxOff a + ep_rxRdIdx a) (rd' - ep_rxRdIdx a) (ep_heap a)))"
proof -
  have co: "codes_ok E D" using l by (simp add: link_def codes_ok_sym)
  have cm: "ctl_msgs a' = ctl_msgs a" by (simp add: a'_def ctl_msgs_def ring_size_def)
  have see: "see a' b = b" using link_see [OF l] by (simp add: see_def a'_def)
  have r: "ring_ok a' b" "ring_ok b a'"
    by (rule ring_ok_cong [OF link_ring_ok(1) [OF l]]; simp add: a'_def)
      (rule ring_ok_cong [OF link_ring_ok(2) [OF l]]; simp add: a'_def)
  have f: "flight a' = flight a" by (simp add: flight_def cm) (simp add: a'_def)
  have "cursor E (cq_entries (ep_msgQue a)) rd' n'" using n q by (simp add: cursor_def)
  then have "link D E a' b"
    using l by (simp add: link_def chan_def r geo_def credit_def cm f) (simp add: a'_def)
  moreover have "pend D a' b = pend D a b"
    by (simp add: pend_def staged_def) (simp add: a'_def)
  moreover have "pend E b a = map EData (heap_load (ep_rxBase a) (ep_rxOff a + ep_rxRdIdx a) (rd' - ep_rxRdIdx a) (ep_heap a)) @ pend E b a'"
  proof -
    let ?k = "unat (ep_rxBlkIdx a)" and ?i = "ep_rxRdIdx a"
    have loc: "ep_rxBase a = d_base E" "ep_rxOff a = ?k mod 2 ^ d_cw E * d_sz E"
      using l by (simp_all add: link_def chan_def geo_def)
    have w: "blk_words E (ep_heap a) ?k (rd' + n') =
        heap_load (d_base E) (ep_rxOff a) ?i (ep_heap a) @
        heap_load (d_base E) (ep_rxOff a + ?i) (rd' - ?i) (ep_heap a) @
        heap_load (d_base E) (ep_rxOff a + rd') n' (ep_heap a)"
      using rd heap_load_add [of "d_base E" "ep_rxOff a" ?i "rd' - ?i + n'" "ep_heap a"]
        heap_load_add [of "d_base E" "ep_rxOff a + ?i" "rd' - ?i" n' "ep_heap a"]
      by (simp add: blk_words_def loc(2))
    have "decode (d_rdy E) (blk_words E (ep_heap a)) ?k (flight a) =
        map EData (blk_words E (ep_heap a) ?k (rd' + n')) @
        decode (d_rdy E) (blk_words E (ep_heap a)) (Suc ?k) (rest @ ctl_msgs a)"
      by (simp only: flight_def q append_Cons decode_data [OF co n(2)])
    then show ?thesis
      using rd by (simp add: pend_def arrived_def f w loc(1)) (simp add: a'_def w)
  qed
  moreover have "users (see a' b) = users b" "endpoint.more a' = endpoint.more a"
    by (simp add: see) (simp add: a'_def)
  ultimately show ?thesis by (simp add: step_def moves_def see)
qed

text \<open>Consuming a block: its message is dropped and the block goes back to the peer.\<close>

definition front_events :: "direction \<Rightarrow> 'z endpoint_scheme \<Rightarrow> nat \<Rightarrow> u64 \<Rightarrow> event list" where
  "front_events E a n c =
     (if c = 0 then map EData (heap_load (ep_rxBase a) (ep_rxOff a + ep_rxRdIdx a) (n - ep_rxRdIdx a) (ep_heap a))
      else if c = HIF_DQ_NULL then [EMark] else if c = HIF_DQ_CALL then [ECall n] else [EHalt])"

definition consume :: "direction \<Rightarrow> ctrl_msg cqueue \<Rightarrow> 'z endpoint_scheme \<Rightarrow> 'z endpoint_scheme" where
  "consume E q a = (put_msg (CHtCtrlMsg (d_avl E) (scast (ep_rxBlkIdx a))) a)\<lparr>ep_msgQue := q,
     ep_rxBlkIdx := ep_rxBlkIdx a + 1, ep_rxOff := unat ((ep_rxBlkIdx a + 1) AND ep_rxMask a) * ep_rxSize a,
     ep_rxRdIdx := 0, ep_rxDataSize := 0\<rparr>"

lemma decode_shift: "(\<And>j. blk (k + j) = blk (k' + j)) \<Longrightarrow> decode rdy blk k ms = decode rdy blk k' ms"
proof (induction ms arbitrary: k k')
  case (Cons m ms)
  have "blk (Suc k + j) = blk (Suc k' + j)" for j using Cons.prems [of "Suc j"] by simp
  from Cons.IH [OF this] Cons.IH [OF Cons.prems] Cons.prems [of 0] show ?case by simp
qed simp

lemma link_consume:
  assumes l: "link D E a b" and q: "cq_entries (ep_msgQue a) = blk_msg (d_rdy E) n c # rest"
    and room: "length (ctl_msgs b) < ring_size b" and q': "que_ok q" "cq_entries q = rest"
    and nc: "n \<le> d_sz E" "c \<in> {0, 1, 6, 7}" "c \<noteq> 0 \<longrightarrow> c = HIF_DQ_CALL \<or> n = 0"
  shows "step D E a b (consume E q a) [] (front_events E a n c)"
proof -
  let ?a = "consume E q a" and ?m = "CHtCtrlMsg (d_avl E) (scast (ep_rxBlkIdx a))" and ?f = "blk_msg (d_rdy E) n c"
  note ring = link_ring_ok [OF l]
  have s: "ep_ctlQueMask ?a = ep_ctlQueMask a" "ep_ctlRdIdx ?a = ep_ctlRdIdx a" "ep_rxq ?a = ep_rxq a"
    "ep_ctlQueMask ?a = ep_ctlQueMask (put_msg ?m a)" "ep_ctlWrIdx ?a = ep_ctlWrIdx (put_msg ?m a)"
    "ep_ctlRdIdx ?a = ep_ctlRdIdx (put_msg ?m a)" "ep_rxq ?a = ep_rxq (put_msg ?m a)" "ep_txq ?a = ep_txq (put_msg ?m a)"
    by (simp_all add: consume_def)
  have see: "see ?a b = see (put_msg ?m a) b" by (simp add: see_def consume_def)
  note P = put_msg_ring [OF ring(1) IsValid_msg room] and B = put_msg_ring_back [OF ring(2)]
  have r: "ring_ok ?a (see ?a b)" "ring_ok (see ?a b) ?a" unfolding see
    by (rule ring_ok_cong [OF P(1)]; simp add: s) (rule ring_ok_cong [OF B(1)]; simp add: s)
  have cm: "ctl_msgs (see ?a b) = ctl_msgs b @ [?m]" "ctl_msgs ?a = ctl_msgs a"
    unfolding see by (rule P(2), rule ctl_msgs_cong) (simp_all add: s)
  have co: "codes_ok D E" and co': "codes_ok E D" using l by (simp_all add: link_def codes_ok_sym)
  note lt = codes_lt [OF co]
  have "d_avl E AND mask 7 = d_avl E" using lt by (intro and_mask_id) (simp add: word_less_nat_alt)
  then have tm: "GetMsgType ?m = d_avl E" by (simp add: GetMsgType_msg)
  have f: "GetMsgType ?f = d_rdy E" "GetMsgData ?f AND 7 = c" "dq_words (GetMsgData ?f) = n"
    using blk_msg_of(1-3) [OF co' nc(1,2)] by simp_all
  have fl: "flight a = ?f # flight ?a" by (simp add: flight_def q cm) (simp add: consume_def q')
  have flb: "flight (see ?a b) = flight b @ [?m]" by (simp add: flight_def cm)
  have "?m \<noteq> blk_msg (d_rdy D) k HIF_DQ_CALL" if "k < d_sz D" for k
    using tm lt blk_msg_of(1) [OF co, of k HIF_DQ_CALL] that by auto
  then have wf: "wf_msgs D E (flight b @ [?m])"
    using l tm by (intro wf_msgs_snoc) (auto simp: link_def chan_def msg_ok_def)
  have "count_type (d_avl D) (cq_entries (ep_msgQue a)) = 0" using l by (simp add: link_def chan_def)
  then have z: "count_type (d_avl D) rest = 0" by (simp add: q)
  have off: "ep_rxOff ?a = unat (ep_rxBlkIdx ?a) mod 2 ^ d_cw E * d_sz E"
    using l by (simp add: consume_def link_def chan_def geo_def unat_and_mask)
  have cur: "cursor E (cq_entries (ep_msgQue ?a)) (ep_rxRdIdx ?a) (ep_rxDataSize ?a)"
    by (simp add: cursor_def consume_def)
  have same: "ep_heap ?a = ep_heap a" "ep_txAvail ?a = ep_txAvail a" "ep_msgQue ?a = q" "ep_rxBlkIdx ?a = ep_rxBlkIdx a + 1"
    "ep_rxMask ?a = ep_rxMask a" "ep_rxSize ?a = ep_rxSize a" "ep_rxBase ?a = ep_rxBase a" "ep_txMask ?a = ep_txMask a"
    "ep_txSize ?a = ep_txSize a" "ep_txBase ?a = ep_txBase a" "ep_txOff ?a = ep_txOff a" "ep_txBlkIdx ?a = ep_txBlkIdx a"
    "ep_txWrIdx ?a = ep_txWrIdx a" "ep_rxRdIdx ?a = 0" "endpoint.more ?a = endpoint.more a" by (simp_all add: consume_def)
  have "chan D E ?a (see ?a b)"
    using l wf lt tm by (simp add: link_def chan_def r geo_def credit_def flb cm same q' z)
  moreover have "chan E D (see ?a b) ?a"
    using l fl tm f lt off cur by (simp add: link_def chan_def r geo_def credit_def cm same q')
  ultimately have 1: "link D E ?a (see ?a b)" using l by (simp add: link_def same)
  have 2: "pend D ?a (see ?a b) = pend D a b"
    using l lt(4,12) tm arrived_append [OF l, of "see ?a b" "[?m]"]
    by (simp add: pend_def staged_def flb link_def same not_le)
  have 3: "pend E b a = front_events E a n c @ pend E (see ?a b) ?a"
  proof -
    let ?k = "unat (ep_rxBlkIdx a)" and ?w = "blk_words E (ep_heap a)"
    have w: "?w (Suc ?k + j) = ?w (unat (ep_rxBlkIdx a + 1) + j)" for j
    proof -
      have "unat (ep_rxBlkIdx a + 1) mod 2 ^ d_cw E = Suc ?k mod 2 ^ d_cw E"
        using co by (simp add: unat_add_one_mod_pow codes_ok_def)
      then have "(unat (ep_rxBlkIdx a + 1) + j) mod 2 ^ d_cw E = (Suc ?k + j) mod 2 ^ d_cw E"
        by (metis mod_add_left_eq)
      then show ?thesis by (simp add: fun_eq_iff blk_words_def)
    qed
    have rest: "decode (d_rdy E) ?w (Suc ?k) (flight ?a) = arrived E ?a"
      using decode_shift [OF w] by (simp add: arrived_def same)
    have loc: "ep_rxBase a = d_base E" "ep_rxOff a = ?k mod 2 ^ d_cw E * d_sz E"
      using l by (simp_all add: link_def chan_def geo_def)
    have "arrived E a = front_events E a n c @ arrived E ?a"
    proof (cases "c = 0")
      case True
      have rd: "ep_rxRdIdx a \<le> n"
      proof (cases "ep_rxDataSize a = 0")
        case True
        then show ?thesis using link_cursor [OF l] by (simp add: cursor_def)
      next
        case False
        then have e: "?f = blk_msg (d_rdy E) (ep_rxRdIdx a + ep_rxDataSize a) 0" "ep_rxRdIdx a + ep_rxDataSize a \<le> d_sz E"
          using link_cursor [OF l] q by (auto simp: cursor_def)
        have "dq_words (GetMsgData ?f) = ep_rxRdIdx a + ep_rxDataSize a"
          unfolding e(1) by (rule blk_msg_of(3) [OF co' e(2)]) simp
        then show ?thesis unfolding f(3) by simp
      qed
      have "drop (ep_rxRdIdx a) (?w ?k n) = heap_load (ep_rxBase a) (ep_rxOff a + ep_rxRdIdx a) (n - ep_rxRdIdx a) (ep_heap a)"
        using rd heap_load_add [of "d_base E" "ep_rxOff a" "ep_rxRdIdx a" "n - ep_rxRdIdx a" "ep_heap a"]
        by (simp add: blk_words_def loc)
      then show ?thesis
        using True f rest rd by (simp add: arrived_def fl blk_events_def front_events_def drop_map blk_words_def)
    next
      case False
      then have "ep_rxRdIdx a = 0" using cursor_none(2) [OF l q] f by simp
      then show ?thesis
        using False f rest nc by (auto simp: arrived_def fl blk_events_def front_events_def)
    qed
    then show ?thesis using l by (simp add: pend_def staged_def link_def same)
  qed
  have "users (see ?a b) = users b"
    using tm lt(4) by (simp add: users_def cm)
  with 1 2 3 show ?thesis by (simp add: step_def moves_def same)
qed

section \<open>The calls\<close>

lemma NextMsgQue_run:
  assumes "que_ok (ep_msgQue a)" "cq_entries (ep_msgQue a) = m # rest"
  shows "\<exists>q. que_ok q \<and> cq_entries q = rest \<and> ep_NextMsgQue a = Some (a\<lparr>ep_msgQue := q, ep_loopCnt := 0\<rparr>)"
proof -
  have "\<not> cq_IsEmpty (ep_msgQue a)" using cq_IsEmpty_entries [OF que_ok_inv [OF assms(1)]] assms(2) by simp
  from que_Pop_ok [OF assms(1) this] assms(2) show ?thesis by (auto simp: ep_NextMsgQue_def)
qed

lemma queue_ok: "link D E a b \<Longrightarrow> que_ok (ep_msgQue a)"
  by (simp add: link_def chan_def)

lemma queue_inv: "link D E a b \<Longrightarrow> cq_inv (ep_msgQue a)"
  by (rule que_ok_inv [OF queue_ok])

lemma queue_Front:
  assumes "link D E a b" "cq_entries (ep_msgQue a) = m # rest"
  shows "cq_Front (ep_msgQue a) = Some m" "\<not> cq_Empty (ep_msgQue a)"
  using cq_Front_ok [OF queue_inv [OF assms(1)]] cq_IsEmpty_entries [OF queue_inv [OF assms(1)]] assms(2)
  by (simp_all add: cq_Empty_def cq_IsEmpty_def)

lemma queue_Empty: "link D E a b \<Longrightarrow> cq_Empty (ep_msgQue a) \<longleftrightarrow> cq_entries (ep_msgQue a) = []"
  using cq_IsEmpty_entries [OF queue_inv] by (simp add: cq_Empty_def cq_IsEmpty_def)

text \<open>What stays as it is on the transmitting half and in the unit.\<close>

definition rx_only :: "'z endpoint_scheme \<Rightarrow> 'z endpoint_scheme \<Rightarrow> bool" where
  "rx_only a a' \<longleftrightarrow> ep_lock a' = ep_lock a \<and> ep_txWrIdx a' = ep_txWrIdx a \<and> endpoint.more a' = endpoint.more a"

lemma take_msg_run:
  assumes l: "link D E a b" and q: "cq_entries (ep_msgQue a) = m # rest" and m: "16 \<le> GetMsgType m"
  shows "\<exists>a'. ep_NextMsgQue a = Some a' \<and> step D E a b a' [] [EMsg (GetMsgType m) (GetMsgData m)] \<and> rx_only a a'"
proof -
  from NextMsgQue_run [OF queue_ok [OF l] q] obtain p where p: "que_ok p" "cq_entries p = rest"
    "ep_NextMsgQue a = Some (a\<lparr>ep_msgQue := p, ep_loopCnt := 0\<rparr>)" by blast
  from link_take_msg [OF l q m p(1,2)] p(3) show ?thesis by (simp add: rx_only_def)
qed

lemma front_blk_count:
  assumes "link D E a b" "cq_entries (ep_msgQue a) = blk_msg (d_rdy E) n c # rest" "n \<le> d_sz E" "c \<in> {0, 1, 6, 7}"
  shows "0 < count_type (d_rdy E) (flight a)"
  using assms(2) blk_msg_of(1) [OF codes_ok_sym [of D E] assms(3,4)] assms(1) by (simp add: flight_def link_def)

lemma consume_run:
  assumes l: "link D E a b" and lk: "\<not> ep_lock a" and q: "cq_entries (ep_msgQue a) = blk_msg (d_rdy E) n c # rest"
    and rm: "roomy D E 0 b" and nc: "n \<le> d_sz E" "c \<in> {0, 1, 6, 7}" "c \<noteq> 0 \<longrightarrow> c = HIF_DQ_CALL \<or> n = 0"
  shows "\<exists>a'. ep_NextMsgQue (a\<lparr>ep_rxRdIdx := i, ep_rxDataSize := 0\<rparr>) \<bind> ep_NextRxBlk (d_avl E) True = Some a' \<and>
    step D E a b a' [] (front_events E a n c) \<and> rx_only a a' \<and>
    cq_entries (ep_msgQue a') = rest \<and> ep_rxDataSize a' = 0 \<and> ep_txAvail a' = ep_txAvail a"
proof -
  let ?x = "a\<lparr>ep_rxRdIdx := i, ep_rxDataSize := 0\<rparr>"
  from NextMsgQue_run [of ?x] queue_ok [OF l] q obtain p where p: "que_ok p" "cq_entries p = rest"
    "ep_NextMsgQue ?x = Some (?x\<lparr>ep_msgQue := p, ep_loopCnt := 0\<rparr>)" by auto
  have room: "length (ctl_msgs b) < ring_size b"
    using ring_room [OF l rm] front_blk_count [OF l q nc(1,2)] by simp
  let ?y = "?x\<lparr>ep_msgQue := p, ep_loopCnt := 0, ep_lock := True\<rparr>" and ?m = "CHtCtrlMsg (d_avl E) (scast (ep_rxBlkIdx a))"
  have "ring_ok ?y b" by (rule ring_ok_cong [OF link_ring_ok(1) [OF l]]) simp_all
  from SendMsgInternal_put [OF this] room
  have put: "ep_SendMsgInternal (d_avl E) (scast (ep_rxBlkIdx a)) False ?y = Some (put_msg ?m ?y)" by simp
  have "ep_NextRxBlk (d_avl E) True (?x\<lparr>ep_msgQue := p, ep_loopCnt := 0\<rparr>) = Some ((consume E p a)\<lparr>ep_loopCnt := 0\<rparr>)"
    using put lk unfolding ep_NextRxBlk_def
    by (simp add: ep_Lock_def ep_Unlock_def Let_def) (intro endpoint.equality; simp add: consume_def put_msg_def ctl_slot_def)
  then show ?thesis
    using p link_consume [OF l q room p(1,2) nc] by (simp add: rx_only_def consume_def)
qed

text \<open>The same when no data block is open.\<close>

lemma consume_run':
  assumes l: "link D E a b" and lk: "\<not> ep_lock a" and q: "cq_entries (ep_msgQue a) = blk_msg (d_rdy E) n c # rest"
    and rm: "roomy D E 0 b" and nc: "n \<le> d_sz E" "c \<in> {0, 1, 6, 7}" "c \<noteq> 0 \<longrightarrow> c = HIF_DQ_CALL \<or> n = 0"
    and ds: "ep_rxDataSize a = 0"
  shows "\<exists>a1 a'. ep_NextMsgQue a = Some a1 \<and> ep_NextRxBlk (d_avl E) True a1 = Some a' \<and>
    step D E a b a' [] (front_events E a n c) \<and> rx_only a a' \<and>
    cq_entries (ep_msgQue a') = rest \<and> ep_rxDataSize a' = 0 \<and> ep_txAvail a' = ep_txAvail a"
proof -
  have "a\<lparr>ep_rxRdIdx := ep_rxRdIdx a, ep_rxDataSize := 0\<rparr> = a" using ds by simp
  then show ?thesis
    using consume_run [OF l lk q rm nc, of "ep_rxRdIdx a"] by (auto simp: bind_eq_Some_conv)
qed

section \<open>Polling\<close>

lemma que_run:
  assumes "link D E a b" "\<not> ep_lock a"
  shows "\<exists>q. ep_QueMsgs (d_avl D) a = Some q \<and> step D E a b q [] [] \<and> rx_only a q \<and>
    ep_rxDataSize q = ep_rxDataSize a \<and> ep_rxRdIdx q = ep_rxRdIdx a \<and> ep_txAvail a \<le> ep_txAvail q \<and>
    (ctl_msgs q = [] \<or> cq_IsFull (ep_msgQue q))"
proof -
  from QueMsgs_ok [OF assms] obtain q where q: "ep_QueMsgs (d_avl D) a = Some q"
    "moves D E a b q [] []" "que_frame a q" "ctl_msgs (see q b) = ctl_msgs b" "ctl_msgs q = [] \<or> cq_IsFull (ep_msgQue q)" by auto
  then show ?thesis using que_frame_same [OF q(3)] by (auto simp: step_def users_def rx_only_def)
qed

text \<open>
  What MsgLoop returns says what the front of the queue is; \<open>callr\<close> is the side's name for a call
  from the other side (a return, for the host).
\<close>

definition poll_says :: "recv_type \<Rightarrow> direction \<Rightarrow> recv_type \<Rightarrow> event list \<Rightarrow> 'z endpoint_scheme \<Rightarrow> bool" where
  "poll_says callr E r ys a \<longleftrightarrow>
     (if r = eRecvHalt then ys = [EHalt]
      else ys = [] \<and>
        (r = eRecvIdle \<and> (cq_entries (ep_msgQue a) = [] \<or>
            (\<exists>n. 0 < n \<and> n < d_sz E \<and> cq_entries (ep_msgQue a) = [blk_msg (d_rdy E) n HIF_DQ_CALL])) \<or>
         r = eRecvHostMsg \<and> (\<exists>m rest. cq_entries (ep_msgQue a) = m # rest \<and> 16 \<le> GetMsgType m) \<or>
         r = eRecvHostData \<and> 0 < ep_rxDataSize a \<or>
         r = eRecvHostDataMarker \<and> (\<exists>rest. cq_entries (ep_msgQue a) = blk_msg (d_rdy E) 0 HIF_DQ_NULL # rest) \<or>
         r = callr \<and> (\<exists>n rest. n < d_sz E \<and> cq_entries (ep_msgQue a) = blk_msg (d_rdy E) n HIF_DQ_CALL # rest \<and>
            (0 < n \<longrightarrow> (\<exists>rest'. rest = blk_msg (d_rdy E) n 0 # rest')))))"

text \<open>The kinds of front, with the tests MsgLoop makes on it.\<close>

lemma front_cases:
  assumes l: "link D E a b" and q: "cq_entries (ep_msgQue a) = m # rest"
  obtains (user) "16 \<le> GetMsgType m" "GetMsgType m \<noteq> d_rdy E"
  | (data) n where "m = blk_msg (d_rdy E) n 0" "0 < n" "n \<le> d_sz E" "GetMsgType m = d_rdy E" "GetMsgData m AND 7 = 0"
      "dq_words (GetMsgData m) = n"
  | (mark) "m = blk_msg (d_rdy E) 0 HIF_DQ_NULL" "GetMsgType m = d_rdy E" "GetMsgData m = HIF_DQ_NULL"
  | (halt) "m = blk_msg (d_rdy E) 0 HIF_DQ_HALT" "GetMsgType m = d_rdy E" "GetMsgData m = HIF_DQ_HALT"
  | (call) n where "m = blk_msg (d_rdy E) n HIF_DQ_CALL" "n < d_sz E" "GetMsgType m = d_rdy E"
      "GetMsgData m AND 7 = HIF_DQ_CALL" "dq_words (GetMsgData m) = n"
proof -
  have co: "codes_ok E D" using l by (simp add: link_def codes_ok_sym)
  have zero: "GetMsgData (blk_msg (d_rdy E) 0 c) = c" if "c \<in> {1, 7}" for c
  proof -
    have "c AND mask 3 = c" unfolding mask_3 [symmetric] using that by auto
    then show ?thesis using blk_msg_fields(2) [OF codes_lt(1) [OF co], of 0 c] by simp
  qed
  have ty: "16 \<le> GetMsgType m \<Longrightarrow> GetMsgType m \<noteq> d_rdy E" using codes_lt(1) [OF co] by auto
  from queue_front [OF l q] consider "16 \<le> GetMsgType m"
    | n where "m = blk_msg (d_rdy E) n 0" "0 < n" "n \<le> d_sz E"
    | "m = blk_msg (d_rdy E) 0 HIF_DQ_NULL" | "m = blk_msg (d_rdy E) 0 HIF_DQ_HALT"
    | n where "m = blk_msg (d_rdy E) n HIF_DQ_CALL" "n < d_sz E" by blast
  then show ?thesis
  proof cases
    case 1
    then show ?thesis using user ty by blast
  next
    case (2 n)
    then show ?thesis using data blk_msg_of(1-3) [OF co 2(3), of 0] by blast
  next
    case 3
    then show ?thesis using mark zero [of 1] blk_msg_of(1) [OF co, of 0 1] by simp
  next
    case 4
    then show ?thesis using halt zero [of 7] blk_msg_of(1) [OF co, of 0 7] by simp
  next
    case (5 n)
    then show ?thesis using call blk_msg_of(1-3) [OF co, of n HIF_DQ_CALL] by simp
  qed
qed

text \<open>An idle poll after the ring was emptied has missed nothing that was announced.\<close>

definition idle_says :: "recv_type \<Rightarrow> 'z endpoint_scheme \<Rightarrow> bool" where
  "idle_says r a \<longleftrightarrow> (r = eRecvIdle \<longrightarrow> flight a = [])"

lemma idle_flight:
  assumes l: "link D E a b" and c: "ctl_msgs a = [] \<or> cq_IsFull (ep_msgQue a)" and p: "poll_says callr E eRecvIdle [] a"
    and callr: "callr \<noteq> eRecvIdle"
  shows "flight a = []"
proof -
  have q: "cq_inv (ep_msgQue a)" "2 \<le> cq_cap (ep_msgQue a)" using queue_ok [OF l] by (simp_all add: que_ok_def)
  have "cq_entries (ep_msgQue a) = [] \<or> (\<exists>n. 0 < n \<and> n < d_sz E \<and> cq_entries (ep_msgQue a) = [blk_msg (d_rdy E) n HIF_DQ_CALL])"
    using p callr by (auto simp: poll_says_def)
  then have "length (cq_entries (ep_msgQue a)) < cq_cap (ep_msgQue a)" using q(2) by (auto simp del: length_cq_entries)
  then have "\<not> cq_IsFull (ep_msgQue a)" using cq.full_ok [OF q(1)] by (simp del: length_cq_entries)
  then have nil: "ctl_msgs a = []" using c by simp
  have "\<nexists>n. 0 < n \<and> n < d_sz E \<and> cq_entries (ep_msgQue a) = [blk_msg (d_rdy E) n HIF_DQ_CALL]"
    using l nil by (auto simp: link_def chan_def flight_def)
  then have "cq_entries (ep_msgQue a) = []" using \<open>cq_entries (ep_msgQue a) = [] \<or> _\<close> by blast
  then show ?thesis using nil by (simp add: flight_def)
qed

lemma queue_size: "link D E a b \<Longrightarrow> cq_Size (ep_msgQue a) = int (length (cq_entries (ep_msgQue a)))"
  by (rule cq_Size_entries) (rule queue_inv)

lemma CountPoll_simps [simp]:
  "step D E a b (ep_CountPoll a') xs ys = step D E a b a' xs ys" "rx_only a (ep_CountPoll a') = rx_only a a'"
  "ep_msgQue (ep_CountPoll a) = ep_msgQue a" "ep_rxDataSize (ep_CountPoll a) = ep_rxDataSize a"
  "poll_says callr E r ys (ep_CountPoll a) = poll_says callr E r ys a"
  by (simp_all add: ep_CountPoll_def rx_only_def poll_says_def)

lemma rx_only_trans: "rx_only a b \<Longrightarrow> rx_only b c \<Longrightarrow> rx_only a c"
  by (simp add: rx_only_def)

text \<open>The open block, once MsgLoop has seen its message.\<close>

definition open_data :: "nat \<Rightarrow> 'z endpoint_scheme \<Rightarrow> 'z endpoint_scheme" where
  "open_data n a = (if ep_rxDataSize a = 0 then a\<lparr>ep_rxDataSize := n\<rparr> else a)"

lemma open_data_step:
  assumes l: "link D E a b" and q: "cq_entries (ep_msgQue a) = blk_msg (d_rdy E) n 0 # rest" and n: "0 < n" "n \<le> d_sz E"
  shows "step D E a b (open_data n a) [] []" "rx_only a (open_data n a)" "0 < ep_rxDataSize (open_data n a)"
proof -
  show "step D E a b (open_data n a) [] []"
  proof (cases "ep_rxDataSize a = 0")
    case True
    then have rd: "ep_rxRdIdx a = 0" using link_cursor [OF l] by (simp add: cursor_def)
    then have e: "a\<lparr>ep_rxRdIdx := 0, ep_rxDataSize := n\<rparr> = a\<lparr>ep_rxDataSize := n\<rparr>" by simp
    have "step D E a b (a\<lparr>ep_rxRdIdx := 0, ep_rxDataSize := n\<rparr>) [] []"
      using rx_move [OF l, of 0 n rest] q n rd by (simp add: heap_load_def)
    then show ?thesis unfolding e using True by (simp add: open_data_def)
  qed (simp add: open_data_def step_refl [OF l])
qed (use n in \<open>simp_all add: rx_only_def open_data_def\<close>)

text \<open>Reading \<open>cnt\<close> quadwords of the open block: the whole rest of it frees the block.\<close>

lemma open_front:
  assumes "link D E a b" "0 < ep_rxDataSize a"
  obtains rest where "cq_entries (ep_msgQue a) = blk_msg (d_rdy E) (ep_rxRdIdx a + ep_rxDataSize a) 0 # rest"
    "ep_rxRdIdx a + ep_rxDataSize a \<le> d_sz E"
  using link_cursor [OF assms(1)] assms(2) by (auto simp: cursor_def)

lemma recv_some:
  assumes l: "link D E a b" and n: "0 < cnt" "cnt < ep_rxDataSize a"
  shows "step D E a b (read_part cnt a) [] (map EData (heap_load (ep_rxBase a) (ep_rxOff a + ep_rxRdIdx a) cnt (ep_heap a)))"
    and "rx_only a (read_part cnt a)"
proof -
  obtain rest where f: "cq_entries (ep_msgQue a) = blk_msg (d_rdy E) (ep_rxRdIdx a + ep_rxDataSize a) 0 # rest"
    "ep_rxRdIdx a + ep_rxDataSize a \<le> d_sz E" using open_front [OF l] n by auto
  then show "step D E a b (read_part cnt a) [] (map EData (heap_load (ep_rxBase a) (ep_rxOff a + ep_rxRdIdx a) cnt (ep_heap a)))"
    using rx_move [OF l, of "ep_rxRdIdx a + cnt" "ep_rxDataSize a - cnt" rest] n by (simp add: read_part_def)
  show "rx_only a (read_part cnt a)" by (simp add: rx_only_def read_part_def)
qed

lemma recv_all:
  assumes l: "link D E a b" and lk: "\<not> ep_lock a" and rm: "roomy D E 0 b" and n: "0 < ep_rxDataSize a"
  shows "\<exists>a1 a'. ep_NextMsgQue (read_part (ep_rxDataSize a) a) = Some a1 \<and> ep_NextRxBlk (d_avl E) True a1 = Some a' \<and>
    step D E a b a' [] (map EData (heap_load (ep_rxBase a) (ep_rxOff a + ep_rxRdIdx a) (ep_rxDataSize a) (ep_heap a))) \<and>
    rx_only a a' \<and> ep_txAvail a' = ep_txAvail a"
proof -
  obtain rest where f: "cq_entries (ep_msgQue a) = blk_msg (d_rdy E) (ep_rxRdIdx a + ep_rxDataSize a) 0 # rest"
    "ep_rxRdIdx a + ep_rxDataSize a \<le> d_sz E" using open_front [OF l n] by auto
  from consume_run [OF l lk f(1) rm f(2), of "ep_rxRdIdx a + ep_rxDataSize a"] show ?thesis
    by (auto simp: read_part_def front_events_def bind_eq_Some_conv)
qed

text \<open>The next quadword of an open block is the next event.\<close>

lemma open_pend:
  assumes l: "link D E a b" and n: "0 < ep_rxDataSize a"
  shows "\<exists>zs. pend E c a = EData (ep_heap a (ep_rxBase a) (ep_rxOff a + ep_rxRdIdx a)) # zs"
proof -
  let ?k = "unat (ep_rxBlkIdx a)" and ?n = "ep_rxRdIdx a + ep_rxDataSize a" and ?w = "blk_words E (ep_heap a)"
  obtain rest where f: "cq_entries (ep_msgQue a) = blk_msg (d_rdy E) ?n 0 # rest" "?n \<le> d_sz E"
    by (rule open_front [OF l n])
  have co: "codes_ok E D" using l by (simp add: link_def codes_ok_sym)
  have loc: "ep_rxBase a = d_base E" "ep_rxOff a = ?k mod 2 ^ d_cw E * d_sz E"
    using l by (simp_all add: link_def chan_def geo_def)
  have "decode (d_rdy E) ?w ?k (flight a) = map EData (?w ?k ?n) @ decode (d_rdy E) ?w (Suc ?k) (rest @ ctl_msgs a)"
    by (simp only: flight_def f append_Cons decode_data [OF co f(2)])
  then have "arrived E a = map EData (heap_load (d_base E) (ep_rxOff a + ep_rxRdIdx a) (ep_rxDataSize a) (ep_heap a)) @
      decode (d_rdy E) ?w (Suc ?k) (rest @ ctl_msgs a)"
    using heap_load_add [of "d_base E" "ep_rxOff a" "ep_rxRdIdx a" "ep_rxDataSize a" "ep_heap a"]
    by (simp add: arrived_def blk_words_def loc)
  then show ?thesis using n by (simp add: pend_def loc heap_load_def upt_conv_Cons)
qed

text \<open>A call at the front, and its arguments.\<close>

lemma call_front:
  assumes l: "link D E a b" and q: "cq_entries (ep_msgQue a) = blk_msg (d_rdy E) n HIF_DQ_CALL # rest" and n: "n < d_sz E"
  shows "\<exists>zs. pend E c a = ECall n # zs" and "ep_rxDataSize a = 0"
    and "GetMsgType (blk_msg (d_rdy E) n HIF_DQ_CALL) = d_rdy E" "GetMsgData (blk_msg (d_rdy E) n HIF_DQ_CALL) AND 7 = HIF_DQ_CALL"
    "dq_words (GetMsgData (blk_msg (d_rdy E) n HIF_DQ_CALL)) = n" "drop_bit 3 (GetMsgData (blk_msg (d_rdy E) n HIF_DQ_CALL)) = of_nat n"
proof -
  have co: "codes_ok E D" using l by (simp add: link_def codes_ok_sym)
  show m: "GetMsgType (blk_msg (d_rdy E) n HIF_DQ_CALL) = d_rdy E" "GetMsgData (blk_msg (d_rdy E) n HIF_DQ_CALL) AND 7 = HIF_DQ_CALL"
    "dq_words (GetMsgData (blk_msg (d_rdy E) n HIF_DQ_CALL)) = n" "drop_bit 3 (GetMsgData (blk_msg (d_rdy E) n HIF_DQ_CALL)) = of_nat n"
    using n by (intro blk_msg_of [OF co]; simp)+
  show "ep_rxDataSize a = 0" by (rule cursor_none(1) [OF l q]) (simp add: m)
  have "ep_rxRdIdx a = 0" by (rule cursor_none(2) [OF l q]) (simp add: m)
  then show "\<exists>zs. pend E c a = ECall n # zs" by (simp add: pend_def arrived_def flight_def q m blk_events_def)
qed

lemma args_front:
  assumes l: "link D E a b" and q: "cq_entries (ep_msgQue a) = blk_msg (d_rdy E) n 0 # rest" and n: "n < d_sz E"
    and ds: "ep_rxDataSize a = 0" and argc: "n \<le> argc"
  shows "front_events E a n 0 = map EData (take n (heap_load (ep_rxBase a) (unat (ep_rxBlkIdx a AND ep_rxMask a) * ep_rxSize a) argc (ep_heap a)))"
    and "GetMsgType (blk_msg (d_rdy E) n 0) = d_rdy E" "GetMsgData (blk_msg (d_rdy E) n 0) AND 7 = 0"
    "drop_bit 3 (GetMsgData (blk_msg (d_rdy E) n 0)) = of_nat n"
proof -
  have co: "codes_ok E D" using l by (simp add: link_def codes_ok_sym)
  show "GetMsgType (blk_msg (d_rdy E) n 0) = d_rdy E" "GetMsgData (blk_msg (d_rdy E) n 0) AND 7 = 0"
    "drop_bit 3 (GetMsgData (blk_msg (d_rdy E) n 0)) = of_nat n"
    using n by (intro blk_msg_of [OF co]; simp)+
  have rd: "ep_rxRdIdx a = 0" using link_cursor [OF l] ds by (simp add: cursor_def)
  have "ep_rxOff a = unat (ep_rxBlkIdx a AND ep_rxMask a) * ep_rxSize a"
    using l by (simp add: link_def chan_def geo_def unat_and_mask)
  moreover have "take n (heap_load base off argc h) = heap_load base off n h" for base off and h :: "u64 \<Rightarrow> nat \<Rightarrow> u64"
    using argc heap_load_add [of base off n "argc - n" h] by simp
  ultimately show "front_events E a n 0 =
      map EData (take n (heap_load (ep_rxBase a) (unat (ep_rxBlkIdx a AND ep_rxMask a) * ep_rxSize a) argc (ep_heap a)))"
    by (simp add: front_events_def rd)
qed

section \<open>Moves of a unit\<close>

text \<open>A move of the endpoint with its effect on the peer's room; the rest of the unit may change.\<close>

definition acts ::
  "direction \<Rightarrow> direction \<Rightarrow> 'y endpoint_scheme \<Rightarrow> 'z endpoint_scheme \<Rightarrow> 'y endpoint_scheme \<Rightarrow>
   event list \<Rightarrow> event list \<Rightarrow> bool" where
  "acts D E a b a' xs ys \<longleftrightarrow> moves D E a b a' xs ys \<and> users (see a' b) = users b + length (filter is_msg xs)"

lemma acts_trans:
  "acts D E a b a' xs ys \<Longrightarrow> acts D E a' (see a' b) a'' xs' ys' \<Longrightarrow> acts D E a b a'' (xs @ xs') (ys @ ys')"
  unfolding acts_def using moves_trans by auto

lemma step_acts: "step D E a b a' xs ys \<Longrightarrow> acts D E a b a' xs ys"
  by (simp add: step_def acts_def)

lemma acts_roomy:
  "acts D E a b a' xs ys \<Longrightarrow> roomy D E (n + length (filter is_msg xs)) b \<Longrightarrow> roomy D E n (see a' b)"
  by (simp add: acts_def roomy_def)

text \<open>A call that reports nothing has received nothing, or the halt.\<close>

definition quiet :: "event list \<Rightarrow> bool" where
  "quiet ys \<longleftrightarrow> ys = [] \<or> ys = [EHalt]"

lemma poll_quiet: "poll_says callr E r ys a \<Longrightarrow> quiet ys"
  by (auto simp: poll_says_def quiet_def split: if_splits)

definition open_words :: "nat \<Rightarrow> 'z endpoint_scheme \<Rightarrow> u64 list" where
  "open_words cnt a = heap_load (ep_rxBase a) (ep_rxOff a + ep_rxRdIdx a) cnt (ep_heap a)"


end
