(* ===== verification/HostLink.thy ===== *)
theory HostLink
  imports HostUnit HifRecv
begin

text \<open>
  The host unit's calls on a link to a coprocessor: each returns, keeps the unit ready for the next
  call, and sends and receives exactly the events its results report.
\<close>

section \<open>Steps of the host\<close>

definition host_dirs :: "direction \<Rightarrow> direction \<Rightarrow> bool" where
  "host_dirs D E \<longleftrightarrow> d_rdy D = HIF_CMD_IBLK_RDY \<and> d_avl D = HIF_CMD_IBLK_AVL \<and>
     d_rdy E = HIF_CMD_OBLK_RDY \<and> d_avl E = HIF_CMD_OBLK_AVL"

definition host_ok :: "direction \<Rightarrow> direction \<Rightarrow> host_unit \<Rightarrow> 'z endpoint_scheme \<Rightarrow> bool" where
  "host_ok D E a b \<longleftrightarrow> link D E a b \<and> host_dirs D E \<and> \<not> ep_lock a \<and> ep_txWrIdx a < d_sz D \<and> hu_recvRtnArgc a = 0"

definition host_step ::
  "direction \<Rightarrow> direction \<Rightarrow> host_unit \<Rightarrow> 'z endpoint_scheme \<Rightarrow> host_unit \<Rightarrow> event list \<Rightarrow> event list \<Rightarrow> bool" where
  "host_step D E a b a' xs ys \<longleftrightarrow> acts D E a b a' xs ys \<and> host_ok D E a' (see a' b) \<and>
     hu_bUsingCallback a' = hu_bUsingCallback a"

lemma host_step_trans:
  "host_step D E a b a' xs ys \<Longrightarrow> host_step D E a' (see a' b) a'' xs' ys' \<Longrightarrow>
   host_step D E a b a'' (xs @ xs') (ys @ ys')"
  unfolding host_step_def using acts_trans by fastforce

lemma host_more:
  assumes "endpoint.more (a' :: host_unit) = endpoint.more (a :: host_unit)"
  shows "hu_recvRtnArgc a' = hu_recvRtnArgc a" "hu_bUsingCallback a' = hu_bUsingCallback a"
  using assms by (cases a; cases a'; simp)+

lemma step_host:
  assumes "step D E a b a' xs ys" "host_ok D E a b" "\<not> ep_lock a'" "ep_txWrIdx a' < d_sz D"
  shows "host_step D E a b a' xs ys"
  using assms host_more [of a' a] step_link [OF assms(1)]
  by (simp add: host_step_def host_ok_def step_acts) (simp add: step_def)

lemma host_link: "host_ok D E a b \<Longrightarrow> link D E a b"
  by (simp add: host_ok_def)

lemma host_codes:
  "host_ok D E a b \<Longrightarrow> HIF_CMD_IBLK_RDY = d_rdy D" "host_ok D E a b \<Longrightarrow> HIF_CMD_IBLK_AVL = d_avl D"
  "host_ok D E a b \<Longrightarrow> HIF_CMD_OBLK_RDY = d_rdy E" "host_ok D E a b \<Longrightarrow> HIF_CMD_OBLK_AVL = d_avl E"
  by (simp_all add: host_ok_def host_dirs_def)

lemma host_size: "host_ok D E a b \<Longrightarrow> 0 < d_sz D"
  by (simp add: host_ok_def)

lemma host_mon_simps [simp]:
  "ep_lock (hu_mon f a) = ep_lock a" "ep_txWrIdx (hu_mon f a) = ep_txWrIdx a" "ep_txAvail (hu_mon f a) = ep_txAvail a"
  "ep_msgQue (hu_mon f a) = ep_msgQue a" "hu_recvRtnArgc (hu_mon f a) = hu_recvRtnArgc a"
  "hu_bUsingCallback (hu_mon f a) = hu_bUsingCallback a" "see (hu_mon f a) b = see a b"
  "ctl_msgs (hu_mon f a) = ctl_msgs a" "dry (hu_mon f a) = dry a" "ep_rxDataSize (hu_mon f a) = ep_rxDataSize a"
  by (simp_all add: hu_mon_def see_def ctl_msgs_def ring_size_def dry_def)

lemma link_mon [simp]: "link D E (hu_mon f a) b = link D E a b"
proof -
  have c: "ctl_msgs (hu_mon f a) = ctl_msgs a" by simp
  have r: "ring_ok (hu_mon f a) b = ring_ok a b" "ring_ok b (hu_mon f a) = ring_ok b a"
    by (simp_all add: ring_ok_def ring_size_def) (simp_all add: hu_mon_def)
  show ?thesis
    by (simp add: link_def chan_def geo_def credit_def flight_def r) (simp add: hu_mon_def)
qed

lemma pend_mon [simp]: "pend D (hu_mon f a) b = pend D a b" "pend D b (hu_mon f a) = pend D b a"
  by (simp_all add: pend_def arrived_def staged_def flight_def) (simp_all add: hu_mon_def)

lemma host_ok_mon [simp]: "host_ok D E (hu_mon f a) b = host_ok D E a b"
  by (simp add: host_ok_def)

lemma host_step_mon [simp]: "host_step D E a b (hu_mon f a') xs ys = host_step D E a b a' xs ys"
  by (simp add: host_step_def acts_def moves_def)

lemma host_ok_see: "host_ok D E a b \<Longrightarrow> see a b = b"
  unfolding host_ok_def by (blast intro: link_see)

section \<open>Sending\<close>

lemma host_SendHostData:
  assumes h: "host_ok D E a b" and rm: "roomy D E 0 b"
  shows "\<exists>n a'. hu_SendHostData data a = Some (n, a') \<and> n \<le> length data \<and>
    host_step D E a b a' (map EData (take n data)) [] \<and> (n = length data \<or> dry a')"
proof -
  from SendData_ok [OF host_link [OF h] _ _ rm, of data] h obtain n fin a' where
    a': "ep_SendData (d_rdy D) (d_avl D) data True a = Some (n, fin, a')" "n \<le> length data"
    "step D E a b a' (map EData (take n data)) []" "\<not> ep_lock a'" "ep_txWrIdx a' < d_sz D"
    "if fin then n = length data else n < length data \<and> dry a'" by (auto simp: host_ok_def)
  from step_host [OF a'(3) h a'(4,5)] a'(1,2,6) show ?thesis
    by (cases fin) (simp_all add: hu_SendHostData_def hu_SendDataInternal_def host_codes [OF h])
qed

lemma host_SendHostMsg:
  assumes h: "host_ok D E a b" and rm: "roomy D E (Suc 0) b" and t: "16 \<le> t" "t < 128"
  shows "\<exists>a'. hu_SendHostMsg t d a = Some a' \<and> host_step D E a b a' [EMsg t (d AND mask 56)] []"
proof -
  from SendHostMsg_ok [OF host_link [OF h] _ rm t, of d] h obtain a' where
    a': "ep_SendHostMsg (d_rdy D) t d a = Some a'" "step D E a b a' [EMsg t (d AND mask 56)] []"
    "\<not> ep_lock a'" "ep_txWrIdx a' = 0" by (auto simp: host_ok_def)
  have "15 < t" using t(1) by (simp add: word_less_nat_alt word_le_nat_alt)
  with step_host [OF a'(2) h a'(3)] a'(1,4) host_size [OF h] show ?thesis
    by (simp add: hu_SendHostMsg_def host_codes [OF h])
qed

lemma host_SendCtl:
  assumes h: "host_ok D E a b" and rm: "roomy D E 0 b" and c: "c = HIF_DQ_NULL \<or> c = HIF_DQ_HALT"
  shows "\<exists>ok a'. ep_SendCtl HIF_CMD_IBLK_RDY HIF_CMD_IBLK_AVL c a = Some (ok, a') \<and>
    host_step D E a b a' (if ok then ctl_events c else []) [] \<and> (ok \<or> dry a')"
proof -
  from SendCtl_ok [OF host_link [OF h] _ rm c] h obtain ok a' where
    a': "ep_SendCtl (d_rdy D) (d_avl D) c a = Some (ok, a')" "step D E a b a' (if ok then ctl_events c else []) []"
    "\<not> ep_lock a'" "ep_txWrIdx a' = 0" "ok \<or> dry a'" by (auto simp: host_ok_def)
  from step_host [OF a'(2) h a'(3)] a'(1,4,5) host_size [OF h] show ?thesis
    by (simp add: host_codes [OF h])
qed

lemma host_Timer:
  assumes h: "host_ok D E a b" and rm: "roomy D E 0 b"
  shows "\<exists>a'. hu_InBlkTimer a = Some a' \<and> hu_FlushHostData a = Some a' \<and> host_step D E a b a' [] []"
proof -
  have lk: "\<not> ep_lock a" using h by (simp add: host_ok_def)
  from BlkTimer_ok [OF host_link [OF h] lk rm] obtain a' where
    a': "ep_BlkTimer (d_rdy D) a = Some a'" "step D E a b a' [] []" "\<not> ep_lock a'" "ep_txWrIdx a' = 0" by blast
  from step_host [OF a'(2) h a'(3)] a'(1,4) host_size [OF h] show ?thesis
    by (simp add: hu_InBlkTimer_def hu_FlushHostData_def hu_FlushInBlk_def FlushBlk_locking [OF lk] host_codes [OF h])
qed

lemma host_mon_call: "stage argv (next_blk (hu_mon f a)) = hu_mon f (stage argv (next_blk a))"
  by (simp add: stage_def next_blk_def hu_mon_def)

lemma acts_mon: "acts D E (hu_mon f a) b a' xs ys = acts D E a b a' xs ys"
  "acts D E a b (hu_mon f a') xs ys = acts D E a b a' xs ys"
  by (simp_all add: acts_def moves_def)

lemma SendCall_alt:
  "hu_SendCall argv s = do {
     s \<leftarrow> ep_Lock True s;
     s \<leftarrow> hu_FlushInBlk False 0 s;
     (none, s) \<leftarrow> wait_blks HIF_CMD_IBLK_AVL 2 s;
     if none then Some (False, s)
     else do {
       s \<leftarrow> ep_NextTxBlk s;
       let qwCnt = length argv;
       (cnt, s) \<leftarrow> hu_SendDataInternal argv False s;
       ensure (cnt = qwCnt);
       let size' = push_bit 3 (of_nat qwCnt) OR HIF_DQ_CALL;
       s \<leftarrow> ep_SendMsgInternal HIF_CMD_IBLK_RDY size' False s;
       s \<leftarrow> hu_FlushInBlk False 0 s;
       ensure (ep_txAvail s \<ge> 0);
       Some (True, ep_Unlock True (IncCallCnt s))
     }
   }"
  unfolding hu_SendCall_def wait_blks_def hu_QueOutMsgs_def ..

lemma host_SendCall:
  assumes h: "host_ok D E a b" and rm: "roomy D E 0 b" and n: "length argv < d_sz D"
  shows "\<exists>ok a'. hu_SendCall argv a = Some (ok, a') \<and>
    host_step D E a b a' (if ok then ECall (length argv) # map EData argv else []) [] \<and> (ok \<or> ep_txAvail a' < 2)"
proof -
  note codes = host_codes [OF h]
  have lk: "\<not> ep_lock a" using h by (simp add: host_ok_def)
  from flush_locked [OF host_link [OF h] lk rm] obtain q where q:
    "ep_FlushBlk (d_rdy D) False 0 (a\<lparr>ep_lock := True\<rparr>) = Some q" "step D E a b q [] []" "ep_lock q" "ep_txWrIdx q = 0" by auto
  from wait_blks_ok [OF step_link [OF q(2)] q(3,4), of 2] obtain none r where r:
    "wait_blks (d_avl D) 2 q = Some (none, r)" "step D E q (see q b) r [] []" "ep_lock r = (\<not> none)" "ep_txWrIdx r = 0"
    "if none then ep_txAvail r < 2 \<and> (ctl_msgs r = [] \<or> cq_IsFull (ep_msgQue r)) else 2 \<le> ep_txAvail r" by blast
  have R: "step D E a b r [] []" using step_trans1 [OF q(2) r(2)] .
  have start: "ep_Lock True a = Some (a\<lparr>ep_lock := True\<rparr>)" using lk by (simp add: ep_Lock_def)
  show ?thesis
  proof (cases none)
    case True
    then show ?thesis using q(1) r R step_host [OF R h] host_size [OF h]
      by (intro exI [of _ False] exI [of _ r]) (simp add: SendCall_alt start hu_FlushInBlk_def codes)
  next
    case False
    let ?f = "\<lambda>m. m\<lparr>mon_ihdBytes := mon_ihdBytes m + of_nat (length argv * 8)\<rparr>"
    let ?r = "hu_mon ?f r" and ?b = "see r b"
    have L: "link D E ?r ?b" using step_link [OF R] by simp
    have rm': "roomy D E 0 ?b" using step_roomy1 [OF R rm] .
    have pre: "ep_lock ?r" "ep_txWrIdx ?r = 0" "2 \<le> ep_txAvail ?r" using False r by simp_all
    note C = call_run [OF L pre(1,2) rm' pre(3) n]
    let ?c = "call_state D argv ?r"
    have "ep_SendData (d_rdy D) (d_avl D) argv False (next_blk r) = Some (length argv, True, stage argv (next_blk r))"
      using call_run(1) [OF step_link [OF R] _ _ rm' _ n] pre by simp
    then have data: "hu_SendDataInternal argv False (next_blk r) = Some (length argv, stage argv (next_blk ?r))"
      by (simp add: hu_SendDataInternal_def codes host_mon_call)
    have nx: "ep_NextTxBlk r = Some (next_blk r)" using False r by (intro NextTxBlk_next) simp_all
    have run: "hu_SendCall argv a = Some (True, IncCallCnt ?c\<lparr>ep_lock := False\<rparr>)"
      using False q(1) r(1) nx data C(2,3,7)
      by (simp add: SendCall_alt start hu_FlushInBlk_def codes ep_Unlock_def Let_def)
    have "acts D E a b (IncCallCnt ?c) (ECall (length argv) # map EData argv) []"
      using acts_trans [OF step_acts [OF R]] step_acts [OF C(4)] by (simp add: acts_mon)
    moreover have "endpoint.more ?c = endpoint.more ?r" using C(4) by (simp add: step_def)
    then have "hu_recvRtnArgc ?c = hu_recvRtnArgc a" "hu_bUsingCallback ?c = hu_bUsingCallback a"
      using host_more [of ?c ?r] host_more [of r a] R by (simp_all add: step_def)
    moreover have "link D E ?c (see ?c b)" using step_link [OF C(4)] by simp
    ultimately show ?thesis using run h C(6)
      by (intro exI [of _ True] exI [of _ "IncCallCnt ?c\<lparr>ep_lock := False\<rparr>"])
        (simp add: host_step_def host_ok_def acts_def moves_frame link_lock codes_ok_def)
  qed
qed

section \<open>Polling\<close>

lemma rx_host:
  assumes "step D E a b a' xs ys" "host_ok D E a b" "rx_only a a'"
  shows "host_step D E a b a' xs ys"
  using assms by (intro step_host) (auto simp: rx_only_def host_ok_def)

text \<open>MsgLoop's look at the front, with the messages queued.\<close>

lemma host_scan:
  assumes h: "host_ok D E a b" and rm: "roomy D E 0 b"
  shows "\<exists>r a' ys. hu_MsgScan no_cb False a = Some (r, a') \<and> step D E a b a' [] ys \<and> rx_only a a' \<and>
    poll_says eRecvReturn E r ys a' \<and> (r = eRecvIdle \<longrightarrow> a' = a)"
proof -
  note codes = host_codes [OF h] and l = host_link [OF h]
  have lk: "\<not> ep_lock a" "hu_recvRtnArgc a = 0" using h by (simp_all add: host_ok_def)
  have ty: "d_rdy E \<noteq> HIF_CMD_ASSERT" "d_rdy E \<noteq> HIF_CMD_ASSERT_COLL" using h by (simp_all add: host_ok_def host_dirs_def)
  have rx: "rx_only a a" "step D E a b a [] []" by (simp_all add: rx_only_def step_refl [OF l])
  note scan = hu_MsgScan.simps [of no_cb False a]
  show ?thesis
  proof (cases "cq_entries (ep_msgQue a)")
    case Nil
    then show ?thesis using rx scan queue_Empty [OF l] by (simp add: poll_says_def)
  next
    case (Cons m rest)
    note F = queue_Front [OF l Cons]
    from l Cons show ?thesis
    proof (cases rule: front_cases)
      case user
      then have "GetMsgType m \<noteq> HIF_CMD_ASSERT" "GetMsgType m \<noteq> HIF_CMD_ASSERT_COLL" by auto
      with user F Cons rx show ?thesis
        by (simp add: scan codes) (simp add: poll_says_def)
    next
      case (data n)
      note O = open_data_step [OF l Cons [unfolded data(1)] data(2,3)]
      have "hu_MsgScan no_cb False a = Some (eRecvHostData, ep_CountPoll (open_data n a))"
        using data F lk ty by (simp add: scan codes open_data_def)
      then show ?thesis using O by (simp add: poll_says_def)
    next
      case mark
      have "hu_MsgScan no_cb False a = Some (eRecvHostDataMarker, ep_CountPoll a)"
        using mark F lk ty by (simp add: scan codes)
      then show ?thesis using rx Cons mark by (simp add: poll_says_def)
    next
      case halt
      have ds: "ep_rxDataSize a = 0" using cursor_none(1) [OF l Cons] halt by simp
      from consume_run' [OF l lk(1) Cons [unfolded halt(1)] rm _ _ _ ds] obtain a1 a' where c:
        "ep_NextMsgQue a = Some a1" "ep_NextRxBlk (d_avl E) True a1 = Some a'"
        "step D E a b a' [] (front_events E a 0 HIF_DQ_HALT)" "rx_only a a'" by auto
      have "hu_MsgScan no_cb False a = Some (eRecvHalt, ep_CountPoll a')"
        using halt F lk ty c by (simp add: scan codes hu_NextOutBlk_def)
      then show ?thesis using c by (simp add: poll_says_def front_events_def)
    next
      case (call n)
      show ?thesis
      proof (cases "n = 0 \<or> rest \<noteq> []")
        case True
        then have "n = 0 \<or> 2 \<le> cq_Size (ep_msgQue a)"
          using queue_size [OF l] Cons by (cases rest) (auto simp del: length_cq_entries)
        then have "hu_MsgScan no_cb False a = Some (eRecvReturn, ep_CountPoll a)"
          using call F lk ty by (auto simp: scan codes)
        moreover have "0 < n \<longrightarrow> (\<exists>rest'. rest = blk_msg (d_rdy E) n 0 # rest')"
          using True queue_call [OF l Cons [unfolded call(1)]] call(2) by (cases rest) auto
        ultimately show ?thesis using rx Cons call by (auto simp: poll_says_def)
      next
        case False
        then have "cq_Size (ep_msgQue a) = 1" "0 < n"
          using queue_size [OF l] Cons by (auto simp del: length_cq_entries)
        then have "hu_MsgScan no_cb False a = Some (eRecvIdle, a)"
          using call F lk ty by (simp add: scan codes)
        then show ?thesis using rx Cons call False by (auto simp: poll_says_def)
      qed
    qed
  qed
qed

lemma host_poll:
  assumes h: "host_ok D E a b" and rm: "roomy D E 0 b"
  shows "\<exists>r a' ys. hu_Poll a = Some (r, a') \<and> host_step D E a b a' [] ys \<and> poll_says eRecvReturn E r ys a' \<and>
    idle_says r a'"
proof -
  from que_run [OF host_link [OF h]] h obtain q where q: "ep_QueMsgs (d_avl D) a = Some q" "step D E a b q [] []" "rx_only a q"
    "ctl_msgs q = [] \<or> cq_IsFull (ep_msgQue q)" by (auto simp: host_ok_def)
  have hq: "host_step D E a b q [] []" using rx_host [OF q(2) h q(3)] .
  then have h': "host_ok D E q (see q b)" by (simp add: host_step_def)
  from host_scan [OF h' step_roomy1 [OF q(2) rm]] obtain r a' ys where r:
    "hu_MsgScan no_cb False q = Some (r, a')" "step D E q (see q b) a' [] ys" "rx_only q a'" "poll_says eRecvReturn E r ys a'"
    "r = eRecvIdle \<longrightarrow> a' = q" by blast
  have "idle_says r a'"
    using idle_flight [OF host_link [OF h'] q(4), of eRecvReturn] r(4,5) by (auto simp: idle_says_def poll_says_def)
  with host_step_trans [OF hq rx_host [OF r(2) h' r(3)]] r(1,4) q(1) show ?thesis
    by (auto simp: hu_MsgLoop_def hu_QueOutMsgs_def host_codes [OF h])
qed

section \<open>Receiving\<close>

lemma host_step_ok: "host_step D E a b a' xs ys \<Longrightarrow> host_ok D E a' (see a' b)"
  by (simp add: host_step_def)

lemma host_step_roomy: "host_step D E a b a' [] ys \<Longrightarrow> roomy D E n b \<Longrightarrow> roomy D E n (see a' b)"
  using acts_roomy [of D E a b a' "[]" ys n] by (simp add: host_step_def)

lemma host_step_then:
  "host_step D E a b q [] [] \<Longrightarrow> host_step D E q (see q b) a' xs ys \<Longrightarrow> host_step D E a b a' xs ys"
  using host_step_trans [of D E a b q "[]" "[]" a' xs ys] by simp

lemma host_RecvHostMsg:
  assumes h: "host_ok D E a b" and rm: "roomy D E 0 b"
  shows "\<exists>res a' ys. hu_RecvHostMsg a = Some (res, a') \<and> host_step D E a b a' [] ys \<and>
    (case res of Some (t, d) \<Rightarrow> ys = [EMsg t d] | None \<Rightarrow> quiet ys)"
proof -
  from host_poll [OF h rm] obtain r q ys where q: "hu_Poll a = Some (r, q)" "host_step D E a b q [] ys"
    "poll_says eRecvReturn E r ys q" by blast
  show ?thesis
  proof (cases "r = eRecvHostMsg")
    case False
    then have "hu_RecvHostMsg a = Some (None, q)" using q(1) by (simp add: hu_RecvHostMsg_def hu_RecvMsgInternal_def)
    then show ?thesis using q(2) poll_quiet [OF q(3)] by auto
  next
    case True
    then obtain m rest where m: "ys = []" "cq_entries (ep_msgQue q) = m # rest" "16 \<le> GetMsgType m"
      using q(3) by (auto simp: poll_says_def)
    note h' = host_step_ok [OF q(2)]
    from take_msg_run [OF host_link [OF h'] m(2,3)] obtain a' where a': "ep_NextMsgQue q = Some a'"
      "step D E q (see q b) a' [] [EMsg (GetMsgType m) (GetMsgData m)]" "rx_only q a'" by blast
    have S: "host_step D E a b a' [] [EMsg (GetMsgType m) (GetMsgData m)]"
      by (rule host_step_then [OF q(2) [unfolded m(1)] rx_host [OF a'(2) h' a'(3)]])
    have "hu_RecvHostMsg a = Some (Some (GetMsgType m, GetMsgData m), IncOhmCnt a')"
      using True q(1) a'(1) queue_Front [OF host_link [OF h'] m(2)]
      by (simp add: hu_RecvHostMsg_def hu_RecvMsgInternal_def)
    then show ?thesis using S by fastforce
  qed
qed

lemma host_RecvHostDataMarker:
  assumes h: "host_ok D E a b" and rm: "roomy D E 0 b"
  shows "\<exists>res a' ys. hu_RecvHostDataMarker a = Some (res, a') \<and> host_step D E a b a' [] ys \<and>
    (if res then ys = [EMark] else quiet ys)"
proof (cases "0 < ep_rxDataSize a")
  case True
  then have "hu_RecvHostDataMarker a = Some (False, a)" by (simp add: hu_RecvHostDataMarker_def)
  moreover have "host_step D E a b a [] []"
    using rx_host [OF step_refl [OF host_link [OF h]] h] by (simp add: rx_only_def)
  ultimately show ?thesis by (auto simp: quiet_def)
next
  case False
  from host_poll [OF h rm] obtain r q ys where q: "hu_Poll a = Some (r, q)" "host_step D E a b q [] ys"
    "poll_says eRecvReturn E r ys q" by blast
  have z: "hu_recvRtnArgc a = 0" using h by (simp add: host_ok_def)
  show ?thesis
  proof (cases "r = eRecvHostDataMarker")
    case False
    with \<open>\<not> 0 < ep_rxDataSize a\<close> z have "hu_RecvHostDataMarker a = Some (False, q)"
      using q(1) by (simp add: hu_RecvHostDataMarker_def)
    then show ?thesis using q(2) poll_quiet [OF q(3)] by auto
  next
    case True
    then obtain rest where m: "ys = []" "cq_entries (ep_msgQue q) = blk_msg (d_rdy E) 0 HIF_DQ_NULL # rest"
      using q(3) by (auto simp: poll_says_def)
    note h' = host_step_ok [OF q(2)]
    have lk: "\<not> ep_lock q" and co: "codes_ok E D" using h' by (auto simp: host_ok_def link_def codes_ok_sym)
    have ds: "ep_rxDataSize q = 0"
      using cursor_none(1) [OF host_link [OF h'] m(2)] blk_msg_of(2) [OF co, of 0 HIF_DQ_NULL] by simp
    from consume_run' [OF host_link [OF h'] lk m(2) host_step_roomy [OF q(2) rm] _ _ _ ds] obtain a1 a' where
      a': "ep_NextMsgQue q = Some a1" "ep_NextRxBlk (d_avl E) True a1 = Some a'"
      "step D E q (see q b) a' [] [EMark]" "rx_only q a'" by (auto simp: front_events_def)
    have "host_step D E a b a' [] [EMark]"
      by (rule host_step_then [OF q(2) [unfolded m(1)] rx_host [OF a'(3) h' a'(4)]])
    moreover have "hu_RecvHostDataMarker a = Some (True, a')"
      using True \<open>\<not> 0 < ep_rxDataSize a\<close> z q(1) a'(1,2)
      by (simp add: hu_RecvHostDataMarker_def hu_NextOutBlk_def host_codes [OF h])
    ultimately show ?thesis by auto
  qed
qed

text \<open>One turn of the loop of RecvHostData on an open block.\<close>

definition host_finish :: "host_unit \<Rightarrow> host_unit option" where
  "host_finish s = (if ep_rxDataSize s = 0 then do { s \<leftarrow> ep_NextMsgQue s; hu_NextOutBlk True s }
     else Some (s\<lparr>ep_loopCnt := 0\<rparr>))"

lemma RecvLoop_open:
  assumes "length rcvd < qwCnt" "(if 0 < ep_rxDataSize a then Some (eRecvHostData, a) else hu_Poll a) = Some (eRecvHostData, q)"
    "min (ep_rxDataSize q) (qwCnt - length rcvd) = cnt"
  shows "hu_RecvLoop qwCnt rcvd a = host_finish (read_part cnt q) \<bind> hu_RecvLoop qwCnt (rcvd @ open_words cnt q)"
proof -
  have "ep_rxDataSize q \<le> cnt \<longleftrightarrow> ep_rxDataSize q \<le> qwCnt - length rcvd" using assms(3) by auto
  then show ?thesis
    by (subst hu_RecvLoop.simps, subst assms(2))
      (use assms(1) in \<open>simp add: assms(3) Let_def read_part_def host_finish_def open_words_def\<close>)
qed

lemma host_recv_turn:
  assumes h: "host_ok D E a b" and rm: "roomy D E 0 b" and n: "0 < cnt" "cnt \<le> ep_rxDataSize a"
  shows "\<exists>a'. host_finish (read_part cnt a) = Some a' \<and> host_step D E a b a' [] (map EData (open_words cnt a))"
proof (cases "cnt = ep_rxDataSize a")
  case True
  have lk: "\<not> ep_lock a" using h by (simp add: host_ok_def)
  have ds: "0 < ep_rxDataSize a" using n by simp
  from recv_all [OF host_link [OF h] lk rm ds] obtain a1 a' where
    "ep_NextMsgQue (read_part cnt a) = Some a1" "ep_NextRxBlk (d_avl E) True a1 = Some a'"
    "step D E a b a' [] (map EData (open_words cnt a))" "rx_only a a'" unfolding True open_words_def by blast
  moreover have "ep_rxDataSize (read_part cnt a) = 0" by (simp add: True read_part_def)
  ultimately show ?thesis using rx_host [of D E a b a'] h
    by (simp add: host_finish_def hu_NextOutBlk_def host_codes [OF h])
next
  case False
  then have lt: "cnt < ep_rxDataSize a" using n by simp
  note S = recv_some [OF host_link [OF h] n(1) lt]
  have "host_step D E a b ((read_part cnt a)\<lparr>ep_loopCnt := 0\<rparr>) [] (map EData (open_words cnt a))"
    using rx_host [of D E a b "(read_part cnt a)\<lparr>ep_loopCnt := 0\<rparr>"] S h by (simp add: rx_only_def open_words_def)
  moreover have "ep_rxDataSize (read_part cnt a) \<noteq> 0" using lt by (simp add: read_part_def)
  ultimately show ?thesis by (simp add: host_finish_def)
qed

lemma host_RecvLoop:
  assumes "host_ok D E a b" "roomy D E 0 b" "length rcvd \<le> qwCnt"
  shows "\<exists>data a' ys. hu_RecvLoop qwCnt rcvd a = Some (rcvd @ data, a') \<and> length (rcvd @ data) \<le> qwCnt \<and>
    host_step D E a b a' [] (map EData data @ ys) \<and> quiet ys"
  using assms
proof (induction "qwCnt - length rcvd" arbitrary: rcvd a b rule: less_induct)
  case less
  note loop = hu_RecvLoop.simps [of qwCnt rcvd a]
  have refl: "host_step D E a b a [] []"
    using rx_host [OF step_refl [OF host_link [OF less.prems(1)]] less.prems(1)] by (simp add: rx_only_def)
  have go: "\<exists>data a' ys. hu_RecvLoop qwCnt rcvd a = Some (rcvd @ data, a') \<and> length (rcvd @ data) \<le> qwCnt \<and>
      host_step D E a b a' [] (map EData data @ ys) \<and> quiet ys"
    if p: "(if ep_rxDataSize a > 0 then Some (eRecvHostData, a) else hu_Poll a) = Some (eRecvHostData, q)"
      "host_step D E a b q [] []" "0 < ep_rxDataSize q" "length rcvd < qwCnt" for q
  proof -
    note h' = host_step_ok [OF p(2)] and rm' = host_step_roomy [OF p(2) less.prems(2)]
    define cnt where "cnt = min (ep_rxDataSize q) (qwCnt - length rcvd)"
    let ?data = "open_words cnt q"
    have c: "0 < cnt" "cnt \<le> ep_rxDataSize q" "length ?data = cnt" "length (rcvd @ ?data) \<le> qwCnt"
      using p(3,4) by (simp_all add: cnt_def open_words_def)
    from host_recv_turn [OF h' rm' c(1,2)] obtain a' where d: "host_finish (read_part cnt q) = Some a'"
      "host_step D E q (see q b) a' [] (map EData ?data)" by blast
    have run: "hu_RecvLoop qwCnt rcvd a = hu_RecvLoop qwCnt (rcvd @ ?data) a'"
      using RecvLoop_open [OF p(4,1) cnt_def [symmetric]] d(1) by simp
    note S = host_step_then [OF p(2) d(2)]
    have lt: "qwCnt - length (rcvd @ ?data) < qwCnt - length rcvd" using c(1,3) p(4) by simp
    from less.hyps [OF lt host_step_ok [OF S] host_step_roomy [OF S less.prems(2)] c(4)]
    obtain rest c ys where "hu_RecvLoop qwCnt (rcvd @ ?data) a' = Some ((rcvd @ ?data) @ rest, c)"
      "length ((rcvd @ ?data) @ rest) \<le> qwCnt" "host_step D E a' (see a' b) c [] (map EData rest @ ys)" "quiet ys" by blast
    then show ?thesis using run host_step_trans [OF S, of c "[]" "map EData rest @ ys"]
      by (intro exI [of _ "?data @ rest"] exI [of _ c] exI [of _ ys]) simp
  qed
  show ?case
  proof (cases "qwCnt \<le> length rcvd")
    case True
    then have "hu_RecvLoop qwCnt rcvd a = Some (rcvd @ [], a)" by (simp add: loop)
    then show ?thesis using refl less.prems(3)
      by (intro exI [of _ "[]"] exI [of _ a]) (auto simp: quiet_def)
  next
    case False
    then have n: "length rcvd < qwCnt" by simp
    show ?thesis
    proof (cases "0 < ep_rxDataSize a")
      case True
      then show ?thesis using go [of a] refl n by simp
    next
      case ds: False
      from host_poll [OF less.prems(1,2)] obtain r q ys where q: "hu_Poll a = Some (r, q)" "host_step D E a b q [] ys"
        "poll_says eRecvReturn E r ys q" by blast
      show ?thesis
      proof (cases "r = eRecvHostData")
        case True
        then have "ys = []" "0 < ep_rxDataSize q" using q(3) by (auto simp: poll_says_def)
        then show ?thesis using go [of q] ds q True n by simp
      next
        case False
        then have "hu_RecvLoop qwCnt rcvd a = Some (rcvd @ [], q)" using ds n q(1) by (simp add: loop)
        then show ?thesis using q(2) less.prems(3) poll_quiet [OF q(3)]
          by (intro exI [of _ "[]"] exI [of _ q] exI [of _ ys]) auto
      qed
    qed
  qed
qed

lemma host_RecvHostData:
  assumes h: "host_ok D E a b" and rm: "roomy D E 0 b"
  shows "\<exists>data a' ys. hu_RecvHostData qwCnt a = Some (data, a') \<and> length data \<le> qwCnt \<and>
    host_step D E a b a' [] (map EData data @ ys) \<and> quiet ys"
proof -
  from host_RecvLoop [OF h rm, of "[]" qwCnt] h show ?thesis
    by (fastforce simp: hu_RecvHostData_def host_ok_def)
qed

text \<open>A peeked quadword is the next one received.\<close>

lemma host_PeekHostData:
  assumes h: "host_ok D E a b" and rm: "roomy D E 0 b"
  shows "\<exists>res a' ys. hu_PeekHostData a = Some (res, a') \<and> host_step D E a b a' [] ys \<and>
    (case res of Some w \<Rightarrow> ys = [] \<and> (\<exists>zs. pend E (see a' b) a' = EData w # zs) | None \<Rightarrow> quiet ys)"
proof -
  have look: "\<exists>zs. pend E (see q b) q = EData (ep_heap q (ep_rxBase q) (ep_rxOff q + ep_rxRdIdx q)) # zs"
    if hq: "host_ok D E q (see q b)" "0 < ep_rxDataSize q" for q
    by (rule open_pend [OF host_link [OF hq(1)] hq(2)])
  have refl: "host_step D E a b a [] []"
    using rx_host [OF step_refl [OF host_link [OF h]] h] by (simp add: rx_only_def)
  show ?thesis
  proof (cases "ep_rxDataSize a = 0")
    case False
    then show ?thesis using refl look [OF host_step_ok [OF refl]] by (auto simp: hu_PeekHostData_def)
  next
    case True
    from host_poll [OF h rm] obtain r q ys where q: "hu_Poll a = Some (r, q)" "host_step D E a b q [] ys"
      "poll_says eRecvReturn E r ys q" by blast
    show ?thesis
    proof (cases "r = eRecvHostData")
      case r: True
      then have "ys = []" "0 < ep_rxDataSize q" using q(3) by (auto simp: poll_says_def)
      then show ?thesis using q r True look [OF host_step_ok [OF q(2)]] by (auto simp: hu_PeekHostData_def)
    next
      case False
      then show ?thesis using q True poll_quiet [OF q(3)] by (auto simp: hu_PeekHostData_def)
    qed
  qed
qed

section \<open>Returns\<close>

lemma rtn_simps [simp]:
  "ep_lock (a\<lparr>hu_recvRtnArgc := n\<rparr>) = ep_lock a" "see (a\<lparr>hu_recvRtnArgc := n\<rparr>) b = see a b"
  "ctl_msgs (a\<lparr>hu_recvRtnArgc := n\<rparr>) = ctl_msgs a"
  by (simp_all add: see_def ctl_msgs_def ring_size_def)

lemma link_rtn [simp]: "link D E (a\<lparr>hu_recvRtnArgc := n\<rparr>) b = link D E a b"
proof -
  have c: "ctl_msgs (a\<lparr>hu_recvRtnArgc := n\<rparr>) = ctl_msgs a" by simp
  have r: "ring_ok (a\<lparr>hu_recvRtnArgc := n\<rparr>) b = ring_ok a b" "ring_ok b (a\<lparr>hu_recvRtnArgc := n\<rparr>) = ring_ok b a"
    by (simp_all add: ring_ok_def ring_size_def)
  show ?thesis by (simp add: link_def chan_def geo_def credit_def flight_def r)
qed

lemma pend_rtn [simp]: "pend D (a\<lparr>hu_recvRtnArgc := n\<rparr>) b = pend D a b" "pend D b (a\<lparr>hu_recvRtnArgc := n\<rparr>) = pend D b a"
  by (simp_all add: pend_def arrived_def staged_def flight_def)

lemma acts_rtn [simp]: "acts D E a b (a'\<lparr>hu_recvRtnArgc := n\<rparr>) xs ys = acts D E a b a' xs ys"
  "acts D E (a\<lparr>hu_recvRtnArgc := n\<rparr>) b a'' xs ys = acts D E a b a'' xs ys"
  by (simp_all add: acts_def moves_def)

lemma host_RecvReturn:
  assumes h: "host_ok D E a b" and rm: "roomy D E 0 b" and argc: "\<And>n zs. pend E b a = ECall n # zs \<Longrightarrow> n \<le> argc"
  shows "\<exists>res a' ys. hu_RecvReturn argc a = Some (res, a') \<and> host_step D E a b a' [] ys \<and>
    (case res of Some argv \<Rightarrow> \<exists>n \<le> argc. ys = ECall n # map EData (take n argv) \<and> (0 < n \<longrightarrow> length argv = argc) \<and> (n = 0 \<longrightarrow> argv = [])
     | None \<Rightarrow> quiet ys)"
proof -
  note codes = host_codes [OF h]
  from host_poll [OF h rm] obtain r q ys where q: "hu_Poll a = Some (r, q)" "host_step D E a b q [] ys"
    "poll_says eRecvReturn E r ys q" by blast
  show ?thesis
  proof (cases "r = eRecvReturn")
    case False
    then have "hu_RecvReturn argc a = Some (None, q)" using q(1) by (simp add: hu_RecvReturn_def)
    then show ?thesis using q(2) poll_quiet [OF q(3)] by auto
  next
    case True
    then obtain n rest where m: "ys = []" "n < d_sz E" "cq_entries (ep_msgQue q) = blk_msg (d_rdy E) n HIF_DQ_CALL # rest"
      and args: "0 < n \<longrightarrow> (\<exists>rest'. rest = blk_msg (d_rdy E) n 0 # rest')" using q(3) by (auto simp: poll_says_def)
    note h' = host_step_ok [OF q(2)]
    note C = call_front [OF host_link [OF h'] m(3,2)]
    have rtn: "hu_recvRtnArgc q = 0" and lk: "\<not> ep_lock q" using h' by (simp_all add: host_ok_def)
    have rmq: "roomy D E 0 (see q b)" using host_step_roomy [OF q(2) rm] .
    have "pend E b a = pend E (see q b) q" using q(2) m(1) by (simp add: host_step_def acts_def moves_def)
    then have n: "n \<le> argc" using C(1) argc by metis
    let ?q = "q\<lparr>hu_recvRtnArgc := n\<rparr>"
    have L: "link D E ?q (see q b)" using host_link [OF h'] by simp
    have Q: "\<not> ep_lock ?q" "cq_entries (ep_msgQue ?q) = blk_msg (d_rdy E) n HIF_DQ_CALL # rest" "ep_rxDataSize ?q = 0"
      using lk m(3) C(2) by simp_all
    have nsz: "n \<le> d_sz E" using m(2) by simp
    from consume_run' [OF L Q(1,2) rmq nsz _ _ Q(3)] obtain a1 a2 where c1:
      "ep_NextMsgQue ?q = Some a1" "ep_NextRxBlk (d_avl E) True a1 = Some a2"
      "step D E ?q (see q b) a2 [] [ECall n]" "rx_only ?q a2" "cq_entries (ep_msgQue a2) = rest" "ep_rxDataSize a2 = 0"
      by (auto simp: front_events_def)
    have more2: "hu_recvRtnArgc a2 = n" "hu_bUsingCallback a2 = hu_bUsingCallback q"
      using host_more [of a2 ?q] c1(4) by (simp_all add: rx_only_def)
    have "acts D E a b a2 ([] @ []) ([] @ [ECall n])"
      by (rule acts_trans [of D E a b q]) (use q(2) m(1) step_acts [OF c1(3)] in \<open>simp_all add: host_step_def\<close>)
    then have A2: "acts D E a b a2 [] [ECall n]" by simp
    have first: "hu_RecvReturn argc a =
        (if n = 0 then Some (Some [], IncRtnCnt a2)
         else do {
           m \<leftarrow> cq_Front (ep_msgQue a2);
           if GetMsgType m \<noteq> HIF_CMD_OBLK_RDY then Some (None, a2)
           else do {
             ensure (GetMsgData m AND 7 = 0);
             ensure (of_nat (hu_recvRtnArgc a2) AND 255 = drop_bit 3 (GetMsgData m) AND 255);
             let argv = heap_load (ep_rxBase a2) (unat (ep_rxBlkIdx a2 AND ep_rxMask a2) * ep_rxSize a2) argc (ep_heap a2);
             s \<leftarrow> ep_NextMsgQue a2;
             s \<leftarrow> hu_NextOutBlk True s;
             Some (Some argv, IncRtnCnt (s\<lparr>hu_recvRtnArgc := 0\<rparr>))
           }
         })"
      using True q(1) rtn queue_Front(1) [OF host_link [OF h'] m(3)] C(3-5) n c1(1,2) more2
      by (simp add: hu_RecvReturn_def codes hu_NextOutBlk_def)
    have ok: "\<not> ep_lock a2" "ep_txWrIdx a2 < d_sz D" "hu_bUsingCallback q = hu_bUsingCallback a" "host_dirs D E"
      using c1(4) h' q(2) by (simp_all add: rx_only_def host_ok_def host_step_def)
    show ?thesis
    proof (cases "n = 0")
      case True
      have "host_step D E a b a2 [] [ECall 0]"
        using A2 True ok more2 by (simp add: host_step_def host_ok_def) (simp add: acts_def moves_def)
      then show ?thesis using first True by (intro exI [of _ "Some []"] exI [of _ "IncRtnCnt a2"]) auto
    next
      case False
      then obtain rest' where rest: "cq_entries (ep_msgQue a2) = blk_msg (d_rdy E) n 0 # rest'" using args c1(5) by auto
      have L2: "link D E a2 (see a2 b)" using A2 by (simp add: acts_def moves_def)
      note G = args_front [OF L2 rest m(2) c1(6) n]
      have rm2: "roomy D E 0 (see a2 b)" using acts_roomy [OF A2, of 0] rm by simp
      from consume_run' [OF L2 ok(1) rest rm2 nsz _ _ c1(6)] obtain a3 a4 where c2:
        "ep_NextMsgQue a2 = Some a3" "ep_NextRxBlk (d_avl E) True a3 = Some a4"
        "step D E a2 (see a2 b) a4 [] (front_events E a2 n 0)" "rx_only a2 a4" by auto
      let ?argv = "heap_load (ep_rxBase a2) (unat (ep_rxBlkIdx a2 AND ep_rxMask a2) * ep_rxSize a2) argc (ep_heap a2)"
      have "hu_RecvReturn argc a = Some (Some ?argv, IncRtnCnt (a4\<lparr>hu_recvRtnArgc := 0\<rparr>))"
        using first False queue_Front(1) [OF L2 rest] G(2-4) c2(1,2) more2(1) by (simp add: codes hu_NextOutBlk_def)
      moreover have "acts D E a b (a4\<lparr>hu_recvRtnArgc := 0\<rparr>) [] (ECall n # map EData (take n ?argv))"
        using acts_trans [OF A2 step_acts [OF c2(3)]] G(1) by simp
      then have "host_step D E a b (a4\<lparr>hu_recvRtnArgc := 0\<rparr>) [] (ECall n # map EData (take n ?argv))"
        using c2(4) ok more2 host_more(2) [of a4 a2]
        by (simp add: host_step_def host_ok_def rx_only_def) (simp add: acts_def moves_def)
      ultimately show ?thesis using n False
        by (intro exI [of _ "Some ?argv"] exI [of _ "IncRtnCnt (a4\<lparr>hu_recvRtnArgc := 0\<rparr>)"]) auto
    qed
  qed
qed

end
