(* ===== verification/ModelUnit.thy ===== *)
theory ModelUnit
  imports HifEnd
begin

text \<open>
  The coprocessor model's unit, \<^verbatim>\<open>CHtModelUnitLib\<close> of \<^verbatim>\<open>ht_lib/host/HtModelLib.cpp\<close>: the
  other end of the host interface, used when an application runs against a software model. It
  learns the block geometry from the host's first messages. The application's
  \<^verbatim>\<open>RecvCallback\<close> is the argument \<open>cb\<close>; the flush timer thread is the operation
  \<open>mu_OutBlkTimer\<close>, its start is not state of the unit.
\<close>

record model_unit = endpoint +
  mu_unitId :: nat
  mu_bUsingCallback :: bool
  mu_bFree :: bool
  mu_bHaltSeen :: bool
  mu_inBlkSizeW :: u32
  mu_inBlkCntW :: u32
  mu_outBlkSizeW :: u32
  mu_outBlkCntW :: u32
  mu_outBlkTimerClks :: u32
  mu_ctlTimerClks :: u32

section \<open>The shared routines, by their names in the model\<close>

definition mu_FlushOutBlk :: "bool \<Rightarrow> u64 \<Rightarrow> model_unit \<Rightarrow> model_unit option" where
  "mu_FlushOutBlk = ep_FlushBlk HIF_CMD_OBLK_RDY"

definition mu_NextOutBlk :: "model_unit \<Rightarrow> model_unit option" where
  "mu_NextOutBlk = ep_NextTxBlk"

definition mu_NextInBlk :: "bool \<Rightarrow> model_unit \<Rightarrow> model_unit option" where
  "mu_NextInBlk = ep_NextRxBlk HIF_CMD_IBLK_AVL"

definition mu_QueInMsgs :: "model_unit \<Rightarrow> model_unit option" where
  "mu_QueInMsgs = ep_QueMsgs HIF_CMD_OBLK_AVL"

definition mu_NextInMsg :: "model_unit \<Rightarrow> model_unit option" where
  "mu_NextInMsg = ep_NextMsg"

definition mu_SendMsgInternal :: "u8 \<Rightarrow> u64 \<Rightarrow> bool \<Rightarrow> model_unit \<Rightarrow> model_unit option" where
  "mu_SendMsgInternal = ep_SendMsgInternal"

definition mu_OutBlkTimer :: "model_unit \<Rightarrow> model_unit option" where
  "mu_OutBlkTimer = ep_BlkTimer HIF_CMD_OBLK_RDY"

definition mu_FlushHostData :: "model_unit \<Rightarrow> model_unit option" where
  "mu_FlushHostData = mu_FlushOutBlk True 0"

section \<open>Construction\<close>

text \<open>
  The constructor; the queue's storage and what is not initialised (the block sizes and masks
  among it) come from the arguments. The control rings always have \<open>MODEL_HIF_CTL_QUE_CNT\<close> slots.
\<close>

definition MODEL_HIF_CTL_QUE_CNT :: nat where
  "MODEL_HIF_CTL_QUE_CNT = 2 ^ 9"

definition mu_new :: "nat \<Rightarrow> (nat \<Rightarrow> ctrl_msg) \<Rightarrow> model_unit \<Rightarrow> model_unit" where
  "mu_new unitId que raw = raw\<lparr>mu_unitId := unitId, mu_bFree := False, mu_bHaltSeen := False, ep_lock := False,
     ep_msgQue := cq_new que MODEL_HIF_CTL_QUE_CNT, mu_bUsingCallback := False,
     ep_ctlQueMask := of_nat (MODEL_HIF_CTL_QUE_CNT - 1),
     ep_rxBlkIdx := 0, ep_txBlkIdx := 0, ep_ctlRdIdx := 0, ep_rxRdIdx := 0, ep_ctlWrIdx := 0,
     ep_txWrIdx := 0, ep_txAvail := 0, ep_rxDataSize := 0,
     ep_rxBase := 0, ep_rxOff := 0, ep_txBase := 0, ep_txOff := 0\<rparr>"

section \<open>Sending\<close>

definition mu_SendHostMsg :: "u8 \<Rightarrow> u64 \<Rightarrow> model_unit \<Rightarrow> model_unit option" where
  "mu_SendHostMsg = ep_SendHostMsg HIF_CMD_OBLK_RDY"

definition mu_SendDataInternal :: "u64 list \<Rightarrow> bool \<Rightarrow> model_unit \<Rightarrow> (nat \<times> model_unit) option" where
  "mu_SendDataInternal data bLock s = do {
     (sentCnt, fin, s) \<leftarrow> ep_SendData HIF_CMD_OBLK_RDY HIF_CMD_OBLK_AVL data bLock s;
     Some (sentCnt, s)
   }"

definition mu_SendHostData :: "u64 list \<Rightarrow> model_unit \<Rightarrow> (nat \<times> model_unit) option" where
  "mu_SendHostData data s = mu_SendDataInternal data True s"

definition mu_SendHostHalt :: "model_unit \<Rightarrow> (bool \<times> model_unit) option" where
  "mu_SendHostHalt = ep_SendCtl HIF_CMD_OBLK_RDY HIF_CMD_OBLK_AVL HIF_DQ_HALT"

definition mu_SendHostDataMarker :: "model_unit \<Rightarrow> (bool \<times> model_unit) option" where
  "mu_SendHostDataMarker = ep_SendCtl HIF_CMD_OBLK_RDY HIF_CMD_OBLK_AVL HIF_DQ_NULL"

definition mu_SendReturn :: "u64 list \<Rightarrow> model_unit \<Rightarrow> (bool \<times> model_unit) option" where
  "mu_SendReturn argv s = do {
     s \<leftarrow> ep_Lock True s;
     s \<leftarrow> mu_FlushOutBlk False 0 s;
     (none, s) \<leftarrow> (if ep_txAvail s < 2 then do {
         let s = ep_Unlock True s;
         s \<leftarrow> mu_QueInMsgs s;
         s \<leftarrow> ep_Lock True s;
         if ep_txAvail s < 2 then Some (True, ep_Unlock True s) else Some (False, s)
       } else Some (False, s));
     if none then Some (False, s)
     else do {
       s \<leftarrow> mu_NextOutBlk s;
       (cnt, s) \<leftarrow> mu_SendDataInternal argv False s;
       ensure (cnt = length argv);
       let size' = push_bit 3 (of_nat (length argv)) OR HIF_DQ_CALL;
       s \<leftarrow> mu_SendMsgInternal HIF_CMD_OBLK_RDY size' False s;
       s \<leftarrow> mu_FlushOutBlk False 0 s;
       ensure (ep_txAvail s \<ge> 0);
       Some (True, ep_Unlock True s)
     }
   }"

section \<open>Receiving\<close>

text \<open>On a halt the model answers with its own: \<^verbatim>\<open>while (!SendHostHalt()) QueInMsgs();\<close>\<close>

partial_function (option) mu_HaltReply :: "model_unit \<Rightarrow> model_unit option" where
  "mu_HaltReply s = do {
     (ok, s) \<leftarrow> mu_SendHostHalt s;
     if ok then Some s else do { s \<leftarrow> mu_QueInMsgs s; mu_HaltReply s }
   }"

text \<open>
  The host's configuration messages; the result is \<open>None\<close> for any other message, for which
  MsgLoop goes on.
\<close>

definition mu_Config :: "u8 \<Rightarrow> u64 \<Rightarrow> model_unit \<Rightarrow> model_unit option" where
  "mu_Config msgType msgData s =
     (if msgType = HIF_CMD_IBLK_ADR then Some (s\<lparr>ep_rxBase := msgData, ep_rxOff := 0\<rparr>)
      else if msgType = HIF_CMD_OBLK_ADR then Some (s\<lparr>ep_txBase := msgData, ep_txOff := 0\<rparr>)
      else if msgType = HIF_CMD_IBLK_PARAM then
        Some (let s = s\<lparr>mu_inBlkSizeW := ucast msgData AND 255, mu_inBlkCntW := ucast (drop_bit 8 msgData) AND 255\<rparr>
              in s\<lparr>ep_rxSize := 2 ^ (unat (mu_inBlkSizeW s) - 3), ep_rxMask := push_bit (unat (mu_inBlkCntW s)) 1 - 1\<rparr>)
      else if msgType = HIF_CMD_OBLK_PARAM then
        Some (let s = s\<lparr>mu_outBlkSizeW := ucast msgData AND 255, mu_outBlkCntW := ucast (drop_bit 8 msgData) AND 255,
                        mu_outBlkTimerClks := ucast (drop_bit 16 msgData)\<rparr>
              in s\<lparr>ep_txSize := 2 ^ (unat (mu_outBlkSizeW s) - 3), ep_txMask := push_bit (unat (mu_outBlkCntW s)) 1 - 1\<rparr>)
      else if msgType = HIF_CMD_CTL_PARAM then Some (s\<lparr>mu_ctlTimerClks := ucast msgData\<rparr>)
      else if msgType = HIF_CMD_OBLK_FLSH_ADR then Some s
      else None)"

text \<open>The loop of MsgLoop, after QueInMsgs.\<close>

partial_function (option) mu_MsgScan ::
  "(recv_type \<Rightarrow> model_unit \<Rightarrow> model_unit option) \<Rightarrow> bool \<Rightarrow> bool \<Rightarrow> bool \<Rightarrow> model_unit \<Rightarrow>
   (recv_type \<times> model_unit) option" where
  "mu_MsgScan cb bUseCbCall bUseCbMsg bUseCbData s =
     (if cq_Empty (ep_msgQue s) then Some (eRecvIdle, s)
      else do {
        ctrlMsg \<leftarrow> cq_Front (ep_msgQue s);
        let msgType = GetMsgType ctrlMsg;
        let msgData = GetMsgData ctrlMsg;
        case mu_Config msgType msgData s of
          Some s \<Rightarrow> do {
            s \<leftarrow> ep_NextMsgQue s;
            mu_MsgScan cb bUseCbCall bUseCbMsg bUseCbData s
          }
        | None \<Rightarrow>
            if msgType = HIF_CMD_IBLK_RDY then
              if msgData AND 7 = HIF_DQ_NULL then do {
                ensure (msgData AND NOT 7 = 0);
                if bUseCbData \<and> mu_bUsingCallback s then do {
                  s \<leftarrow> cb eRecvHostDataMarker s;
                  mu_MsgScan cb bUseCbCall bUseCbMsg bUseCbData s
                } else Some (eRecvHostDataMarker, ep_CountPoll s)
              } else if msgData AND 7 = 0 then do {
                let s = (if ep_rxDataSize s = 0 then s\<lparr>ep_rxDataSize := dq_words msgData\<rparr> else s);
                if bUseCbData \<and> mu_bUsingCallback s then do {
                  s \<leftarrow> cb eRecvHostData s;
                  mu_MsgScan cb bUseCbCall bUseCbMsg bUseCbData s
                } else Some (eRecvHostData, ep_CountPoll s)
              } else if msgData AND 7 = HIF_DQ_CALL then
                if dq_words msgData = 0 \<or> cq_Size (ep_msgQue s) \<ge> 2 then
                  if bUseCbCall \<and> mu_bUsingCallback s then do {
                    s \<leftarrow> cb eRecvCall s;
                    mu_MsgScan cb bUseCbCall bUseCbMsg bUseCbData s
                  } else Some (eRecvCall, ep_CountPoll s)
                else Some (eRecvIdle, s)
              else if msgData AND 7 = HIF_DQ_HALT then do {
                s \<leftarrow> ep_NextMsgQue s;
                s \<leftarrow> mu_NextInBlk True s;
                s \<leftarrow> mu_HaltReply s;
                Some (eRecvHalt, ep_CountPoll (s\<lparr>mu_bHaltSeen := True\<rparr>))
              } else None
            else if msgType \<ge> 16 then
              if bUseCbMsg \<and> mu_bUsingCallback s then do {
                s \<leftarrow> cb eRecvHostMsg s;
                mu_MsgScan cb bUseCbCall bUseCbMsg bUseCbData s
              } else Some (eRecvHostMsg, ep_CountPoll s)
            else None
      })"

definition mu_MsgLoop ::
  "(recv_type \<Rightarrow> model_unit \<Rightarrow> model_unit option) \<Rightarrow> bool \<Rightarrow> bool \<Rightarrow> bool \<Rightarrow> model_unit \<Rightarrow>
   (recv_type \<times> model_unit) option" where
  "mu_MsgLoop cb bUseCbCall bUseCbMsg bUseCbData s =
     (if mu_bHaltSeen s then Some (eRecvHalt, s)
      else do { s \<leftarrow> mu_QueInMsgs s; mu_MsgScan cb bUseCbCall bUseCbMsg bUseCbData s })"

definition mu_RecvPoll ::
  "(recv_type \<Rightarrow> model_unit \<Rightarrow> model_unit option) \<Rightarrow> bool \<Rightarrow> bool \<Rightarrow> bool \<Rightarrow> model_unit \<Rightarrow>
   (recv_type \<times> model_unit) option" where
  "mu_RecvPoll = mu_MsgLoop"

definition mu_RecvMsgInternal ::
  "(recv_type \<Rightarrow> model_unit \<Rightarrow> model_unit option) \<Rightarrow> model_unit \<Rightarrow> ((u8 \<times> u64) option \<times> model_unit) option" where
  "mu_RecvMsgInternal cb s = do {
     (recvType, s) \<leftarrow> mu_MsgLoop cb False False False s;
     if recvType \<noteq> eRecvHostMsg then Some (None, s)
     else do {
       m \<leftarrow> cq_Front (ep_msgQue s);
       s \<leftarrow> ep_NextMsgQue s;
       Some (Some (GetMsgType m, GetMsgData m), s)
     }
   }"

definition mu_RecvHostMsg ::
  "(recv_type \<Rightarrow> model_unit \<Rightarrow> model_unit option) \<Rightarrow> model_unit \<Rightarrow> ((u8 \<times> u64) option \<times> model_unit) option" where
  "mu_RecvHostMsg cb s = mu_RecvMsgInternal cb s"

text \<open>RecvCall; \<open>argc\<close> is the size of the caller's buffer, which the source never changes.\<close>

definition mu_RecvCall ::
  "(recv_type \<Rightarrow> model_unit \<Rightarrow> model_unit option) \<Rightarrow> nat \<Rightarrow> model_unit \<Rightarrow> (u64 list option \<times> model_unit) option" where
  "mu_RecvCall cb argc s = do {
     (recvType, s) \<leftarrow> mu_MsgLoop cb False True True s;
     if recvType \<noteq> eRecvCall then Some (None, s)
     else do {
       m \<leftarrow> cq_Front (ep_msgQue s);
       ensure (GetMsgType m = HIF_CMD_IBLK_RDY \<and> GetMsgData m AND 7 = HIF_DQ_CALL);
       let recv_argc = dq_words (GetMsgData m);
       ensure (argc \<ge> recv_argc);
       s \<leftarrow> ep_NextMsgQue s;
       s \<leftarrow> mu_NextInBlk True s;
       if recv_argc > 0 then do {
         m2 \<leftarrow> cq_Front (ep_msgQue s);
         ensure (GetMsgType m2 = HIF_CMD_IBLK_RDY \<and> GetMsgData m2 AND 7 = 0);
         ensure (drop_bit 3 (GetMsgData m) AND 255 = drop_bit 3 (GetMsgData m2) AND 255);
         let argv = heap_load (ep_rxBase s) (unat (ep_rxBlkIdx s AND ep_rxMask s) * ep_rxSize s) argc (ep_heap s);
         s \<leftarrow> ep_NextMsgQue s;
         s \<leftarrow> mu_NextInBlk True s;
         Some (Some argv, s)
       } else Some (Some [], s)
     }
   }"

definition mu_PeekHostData ::
  "(recv_type \<Rightarrow> model_unit \<Rightarrow> model_unit option) \<Rightarrow> model_unit \<Rightarrow> (u64 option \<times> model_unit) option" where
  "mu_PeekHostData cb s = do {
     (r, s) \<leftarrow> (if ep_rxDataSize s = 0 then mu_MsgLoop cb True True False s else Some (eRecvHostData, s));
     if r \<noteq> eRecvHostData then Some (None, s)
     else do {
       ensure (ep_rxDataSize s > 0);
       Some (Some (ep_heap s (ep_rxBase s) (ep_rxOff s + ep_rxRdIdx s)), s)
     }
   }"

definition mu_RecvHostDataMarker ::
  "(recv_type \<Rightarrow> model_unit \<Rightarrow> model_unit option) \<Rightarrow> model_unit \<Rightarrow> (bool \<times> model_unit) option" where
  "mu_RecvHostDataMarker cb s =
     (if ep_rxDataSize s > 0 then Some (False, s)
      else do {
        (r, s) \<leftarrow> mu_MsgLoop cb True True False s;
        if r \<noteq> eRecvHostDataMarker then Some (False, s)
        else do { s \<leftarrow> ep_NextMsgQue s; s \<leftarrow> mu_NextInBlk True s; Some (True, s) }
      })"

partial_function (option) mu_RecvLoop ::
  "(recv_type \<Rightarrow> model_unit \<Rightarrow> model_unit option) \<Rightarrow> nat \<Rightarrow> u64 list \<Rightarrow> model_unit \<Rightarrow>
   (u64 list \<times> model_unit) option" where
  "mu_RecvLoop cb qwCnt rcvd s =
     (if qwCnt \<le> length rcvd then Some (rcvd, s)
      else do {
        (r, s) \<leftarrow> (if ep_rxDataSize s > 0 then Some (eRecvHostData, s) else mu_MsgLoop cb True True False s);
        if r \<noteq> eRecvHostData then Some (rcvd, s)
        else do {
          let cnt = min (ep_rxDataSize s) (qwCnt - length rcvd);
          let data = heap_load (ep_rxBase s) (ep_rxOff s + ep_rxRdIdx s) cnt (ep_heap s);
          let s = s\<lparr>ep_rxRdIdx := ep_rxRdIdx s + cnt, ep_rxDataSize := ep_rxDataSize s - cnt\<rparr>;
          s \<leftarrow> (if ep_rxDataSize s = 0 then do { s \<leftarrow> ep_NextMsgQue s; mu_NextInBlk True s } else Some s);
          mu_RecvLoop cb qwCnt (rcvd @ data) s
        }
      })"

definition mu_RecvHostData ::
  "(recv_type \<Rightarrow> model_unit \<Rightarrow> model_unit option) \<Rightarrow> nat \<Rightarrow> model_unit \<Rightarrow> (u64 list \<times> model_unit) option" where
  "mu_RecvHostData cb qwCnt s = mu_RecvLoop cb qwCnt [] s"

end
