(* ===== verification/ModelLink.thy ===== *)
theory ModelLink
  imports ModelUnit HifRecv
begin

text \<open>
  The coprocessor model's calls on a configured link to the host, the mirror of HostLink: direction
  \<open>D\<close> leads to the host, \<open>E\<close> from it. A poll that meets the host's halt answers it with the model's
  own, so receiving a halt sends one.
\<close>

section \<open>Steps of the model\<close>

definition model_dirs :: "direction \<Rightarrow> direction \<Rightarrow> bool" where
  "model_dirs D E \<longleftrightarrow> d_rdy D = HIF_CMD_OBLK_RDY \<and> d_avl D = HIF_CMD_OBLK_AVL \<and>
     d_rdy E = HIF_CMD_IBLK_RDY \<and> d_avl E = HIF_CMD_IBLK_AVL"

definition model_ok :: "direction \<Rightarrow> direction \<Rightarrow> model_unit \<Rightarrow> 'z endpoint_scheme \<Rightarrow> bool" where
  "model_ok D E a b \<longleftrightarrow> link D E a b \<and> model_dirs D E \<and> \<not> ep_lock a \<and> ep_txWrIdx a < d_sz D \<and> \<not> mu_bUsingCallback a"

definition model_step ::
  "direction \<Rightarrow> direction \<Rightarrow> model_unit \<Rightarrow> 'z endpoint_scheme \<Rightarrow> model_unit \<Rightarrow> event list \<Rightarrow> event list \<Rightarrow> bool" where
  "model_step D E a b a' xs ys \<longleftrightarrow> acts D E a b a' xs ys \<and> model_ok D E a' (see a' b) \<and>
     (mu_bHaltSeen a' \<longleftrightarrow> mu_bHaltSeen a \<or> EHalt \<in> set ys)"

lemma model_step_trans:
  "model_step D E a b a' xs ys \<Longrightarrow> model_step D E a' (see a' b) a'' xs' ys' \<Longrightarrow>
   model_step D E a b a'' (xs @ xs') (ys @ ys')"
  unfolding model_step_def using acts_trans by fastforce

lemma model_more:
  assumes "endpoint.more (a' :: model_unit) = endpoint.more (a :: model_unit)"
  shows "mu_bUsingCallback a' = mu_bUsingCallback a" "mu_bHaltSeen a' = mu_bHaltSeen a"
  using assms by (cases a; cases a'; simp)+

lemma step_model:
  assumes "step D E a b a' xs ys" "model_ok D E a b" "\<not> ep_lock a'" "ep_txWrIdx a' < d_sz D" "EHalt \<notin> set ys"
  shows "model_step D E a b a' xs ys"
  using assms model_more [of a' a] step_link [OF assms(1)]
  by (simp add: model_step_def model_ok_def step_acts) (simp add: step_def)

lemma rx_model:
  assumes "step D E a b a' xs ys" "model_ok D E a b" "rx_only a a'" "EHalt \<notin> set ys"
  shows "model_step D E a b a' xs ys"
  using assms by (intro step_model) (auto simp: rx_only_def model_ok_def)

lemma model_link: "model_ok D E a b \<Longrightarrow> link D E a b"
  by (simp add: model_ok_def)

lemma model_codes:
  "model_ok D E a b \<Longrightarrow> HIF_CMD_OBLK_RDY = d_rdy D" "model_ok D E a b \<Longrightarrow> HIF_CMD_OBLK_AVL = d_avl D"
  "model_ok D E a b \<Longrightarrow> HIF_CMD_IBLK_RDY = d_rdy E" "model_ok D E a b \<Longrightarrow> HIF_CMD_IBLK_AVL = d_avl E"
  by (simp_all add: model_ok_def model_dirs_def)

lemma model_size: "model_ok D E a b \<Longrightarrow> 0 < d_sz D"
  by (simp add: model_ok_def)

lemma model_step_ok: "model_step D E a b a' xs ys \<Longrightarrow> model_ok D E a' (see a' b)"
  by (simp add: model_step_def)

lemma model_step_roomy: "model_step D E a b a' [] ys \<Longrightarrow> roomy D E n b \<Longrightarrow> roomy D E n (see a' b)"
  using acts_roomy [of D E a b a' "[]" ys n] by (simp add: model_step_def)

lemma model_step_then:
  "model_step D E a b q [] [] \<Longrightarrow> model_step D E q (see q b) a' xs ys \<Longrightarrow> model_step D E a b a' xs ys"
  using model_step_trans [of D E a b q "[]" "[]" a' xs ys] by simp

lemma model_refl: "model_ok D E a b \<Longrightarrow> model_step D E a b a [] []"
  using rx_model [OF step_refl [OF model_link]] by (simp add: rx_only_def)

text \<open>The halt flag is not part of the endpoint.\<close>

lemma seen_simps [simp]:
  "see (a\<lparr>mu_bHaltSeen := h\<rparr>) b = see a b" "ctl_msgs (a\<lparr>mu_bHaltSeen := h\<rparr>) = ctl_msgs a"
  by (simp_all add: see_def ctl_msgs_def ring_size_def)

lemma link_seen [simp]: "link D E (a\<lparr>mu_bHaltSeen := h\<rparr>) b = link D E a b"
proof -
  have r: "ring_ok (a\<lparr>mu_bHaltSeen := h\<rparr>) b = ring_ok a b" "ring_ok b (a\<lparr>mu_bHaltSeen := h\<rparr>) = ring_ok b a"
    by (simp_all add: ring_ok_def ring_size_def)
  show ?thesis by (simp add: link_def chan_def geo_def credit_def flight_def r)
qed

lemma pend_seen [simp]: "pend D (a\<lparr>mu_bHaltSeen := h\<rparr>) b = pend D a b" "pend D b (a\<lparr>mu_bHaltSeen := h\<rparr>) = pend D b a"
  by (simp_all add: pend_def arrived_def staged_def flight_def)

lemma acts_seen [simp]: "acts D E a b (a'\<lparr>mu_bHaltSeen := h\<rparr>) xs ys = acts D E a b a' xs ys"
  by (simp add: acts_def moves_def)

lemma seen_count [simp]:
  "acts D E a b (ep_CountPoll a') xs ys = acts D E a b a' xs ys"
  "see (ep_CountPoll a) b = see a b" "link D E (ep_CountPoll a) b = link D E a b"
  by (simp_all add: ep_CountPoll_def acts_def moves_frame link_frame see_def)

section \<open>Sending\<close>

lemma model_SendHostData:
  assumes h: "model_ok D E a b" and rm: "roomy D E 0 b"
  shows "\<exists>n a'. mu_SendHostData data a = Some (n, a') \<and> n \<le> length data \<and>
    model_step D E a b a' (map EData (take n data)) [] \<and> (n = length data \<or> dry a')"
proof -
  from SendData_ok [OF model_link [OF h] _ _ rm, of data] h obtain n fin a' where
    a': "ep_SendData (d_rdy D) (d_avl D) data True a = Some (n, fin, a')" "n \<le> length data"
    "step D E a b a' (map EData (take n data)) []" "\<not> ep_lock a'" "ep_txWrIdx a' < d_sz D"
    "if fin then n = length data else n < length data \<and> dry a'" by (auto simp: model_ok_def)
  from step_model [OF a'(3) h a'(4,5)] a'(1,2,6) show ?thesis
    by (cases fin) (simp_all add: mu_SendHostData_def mu_SendDataInternal_def model_codes [OF h])
qed

lemma model_SendHostMsg:
  assumes h: "model_ok D E a b" and rm: "roomy D E (Suc 0) b" and t: "16 \<le> t" "t < 128"
  shows "\<exists>a'. mu_SendHostMsg t d a = Some a' \<and> model_step D E a b a' [EMsg t (d AND mask 56)] []"
proof -
  from SendHostMsg_ok [OF model_link [OF h] _ rm t, of d] h obtain a' where
    a': "ep_SendHostMsg (d_rdy D) t d a = Some a'" "step D E a b a' [EMsg t (d AND mask 56)] []"
    "\<not> ep_lock a'" "ep_txWrIdx a' = 0" by (auto simp: model_ok_def)
  with step_model [OF a'(2) h a'(3)] a'(1,4) model_size [OF h] show ?thesis
    by (simp add: mu_SendHostMsg_def model_codes [OF h])
qed

lemma model_SendCtl:
  assumes h: "model_ok D E a b" and rm: "roomy D E 0 b" and c: "c = HIF_DQ_NULL \<or> c = HIF_DQ_HALT"
  shows "\<exists>ok a'. ep_SendCtl HIF_CMD_OBLK_RDY HIF_CMD_OBLK_AVL c a = Some (ok, a') \<and>
    model_step D E a b a' (if ok then ctl_events c else []) [] \<and> (ok \<or> dry a') \<and> (2 \<le> ep_txAvail a \<longrightarrow> ok)"
proof -
  from SendCtl_ok [OF model_link [OF h] _ rm c] h obtain ok a' where
    a': "ep_SendCtl (d_rdy D) (d_avl D) c a = Some (ok, a')" "step D E a b a' (if ok then ctl_events c else []) []"
    "\<not> ep_lock a'" "ep_txWrIdx a' = 0" "ok \<or> dry a'" "2 \<le> ep_txAvail a \<longrightarrow> ok" by (auto simp: model_ok_def)
  from step_model [OF a'(2) h a'(3)] a'(1,4-6) model_size [OF h] show ?thesis
    by (simp add: model_codes [OF h])
qed

lemma model_Timer:
  assumes h: "model_ok D E a b" and rm: "roomy D E 0 b"
  shows "\<exists>a'. mu_OutBlkTimer a = Some a' \<and> mu_FlushHostData a = Some a' \<and> model_step D E a b a' [] []"
proof -
  have lk: "\<not> ep_lock a" using h by (simp add: model_ok_def)
  from BlkTimer_ok [OF model_link [OF h] lk rm] obtain a' where
    a': "ep_BlkTimer (d_rdy D) a = Some a'" "step D E a b a' [] []" "\<not> ep_lock a'" "ep_txWrIdx a' = 0" by blast
  from step_model [OF a'(2) h a'(3)] a'(1,4) model_size [OF h] show ?thesis
    by (simp add: mu_OutBlkTimer_def mu_FlushHostData_def mu_FlushOutBlk_def FlushBlk_locking [OF lk] model_codes [OF h])
qed

lemma SendReturn_alt:
  "mu_SendReturn argv s = do {
     s \<leftarrow> ep_Lock True s;
     s \<leftarrow> mu_FlushOutBlk False 0 s;
     (none, s) \<leftarrow> wait_blks HIF_CMD_OBLK_AVL 2 s;
     if none then Some (False, s)
     else do {
       s \<leftarrow> mu_NextOutBlk s;
       (cnt, s) \<leftarrow> mu_SendDataInternal argv False s;
       ensure (cnt = length argv);
       let size' = push_bit 3 (of_nat (length argv)) OR HIF_DQ_CALL;
       s \<leftarrow> mu_SendMsgInternal HIF_CMD_OBLK_RDY size' False s;
       s \<leftarrow> mu_FlushOutBlk False 0 s;
       ensure (ep_txAvail s \<ge> 0);
       Some (True, ep_Unlock True s)
     }
   }"
  unfolding mu_SendReturn_def wait_blks_def mu_QueInMsgs_def ..

lemma model_SendReturn:
  assumes h: "model_ok D E a b" and rm: "roomy D E 0 b" and n: "length argv < d_sz D"
  shows "\<exists>ok a'. mu_SendReturn argv a = Some (ok, a') \<and>
    model_step D E a b a' (if ok then ECall (length argv) # map EData argv else []) [] \<and> (ok \<or> ep_txAvail a' < 2)"
proof -
  note codes = model_codes [OF h]
  have lk: "\<not> ep_lock a" using h by (simp add: model_ok_def)
  from flush_locked [OF model_link [OF h] lk rm] obtain q where q:
    "ep_FlushBlk (d_rdy D) False 0 (a\<lparr>ep_lock := True\<rparr>) = Some q" "step D E a b q [] []" "ep_lock q" "ep_txWrIdx q = 0" by auto
  from wait_blks_ok [OF step_link [OF q(2)] q(3,4), of 2] obtain none r where r:
    "wait_blks (d_avl D) 2 q = Some (none, r)" "step D E q (see q b) r [] []" "ep_lock r = (\<not> none)" "ep_txWrIdx r = 0"
    "if none then ep_txAvail r < 2 \<and> (ctl_msgs r = [] \<or> cq_IsFull (ep_msgQue r)) else 2 \<le> ep_txAvail r" by blast
  have R: "step D E a b r [] []" using step_trans1 [OF q(2) r(2)] .
  have start: "ep_Lock True a = Some (a\<lparr>ep_lock := True\<rparr>)" using lk by (simp add: ep_Lock_def)
  show ?thesis
  proof (cases none)
    case True
    then show ?thesis using q(1) r R step_model [OF R h] model_size [OF h]
      by (intro exI [of _ False] exI [of _ r]) (simp add: SendReturn_alt start mu_FlushOutBlk_def codes)
  next
    case False
    have rm': "roomy D E 0 (see r b)" using step_roomy1 [OF R rm] .
    have pre: "ep_lock r" "ep_txWrIdx r = 0" "2 \<le> ep_txAvail r" using False r by simp_all
    note C = call_run [OF step_link [OF R] pre(1,2) rm' pre(3) n]
    have nx: "ep_NextTxBlk r = Some (next_blk r)" using pre by (intro NextTxBlk_next) simp_all
    have run: "mu_SendReturn argv a = Some (True, (call_state D argv r)\<lparr>ep_lock := False\<rparr>)"
      using False q(1) r(1) nx C(1-3,7)
      by (simp add: SendReturn_alt start mu_FlushOutBlk_def mu_NextOutBlk_def mu_SendDataInternal_def mu_SendMsgInternal_def
          codes ep_Unlock_def Let_def)
    have "step D E a b ((call_state D argv r)\<lparr>ep_lock := False\<rparr>) (ECall (length argv) # map EData argv) []"
      using step_trans1 [OF R C(4)] by simp
    from step_model [OF this h] C(6) model_size [OF h] run show ?thesis
      by (intro exI [of _ True] exI [of _ "(call_state D argv r)\<lparr>ep_lock := False\<rparr>"]) simp
  qed
qed

section \<open>Polling\<close>

lemma Config_none: "t = HIF_CMD_IBLK_RDY \<or> 16 \<le> t \<Longrightarrow> mu_Config t d s = None"
  by (auto simp: mu_Config_def word_le_nat_alt)

text \<open>The halt is answered at once when a block is free after the flush.\<close>

lemma model_HaltReply:
  assumes h: "model_ok D E a b" and rm: "roomy D E 0 b" and av: "2 \<le> ep_txAvail a"
  shows "\<exists>a'. mu_HaltReply a = Some a' \<and> model_step D E a b a' [EHalt] []"
proof -
  from model_SendCtl [OF h rm, of HIF_DQ_HALT] av obtain a' where
    "ep_SendCtl HIF_CMD_OBLK_RDY HIF_CMD_OBLK_AVL HIF_DQ_HALT a = Some (True, a')" "model_step D E a b a' [EHalt] []"
    by (auto simp: ctl_events_def)
  then show ?thesis
    by (subst mu_HaltReply.simps) (simp add: mu_SendHostHalt_def)
qed

definition echo :: "event list \<Rightarrow> event list" where
  "echo ys = (if EHalt \<in> set ys then [EHalt] else [])"

lemma echo_simps [simp]: "echo [] = []" "echo [EHalt] = [EHalt]" "filter is_msg (echo ys) = []"
  by (simp_all add: echo_def)

lemma echo_quiet: "EHalt \<notin> set xs \<Longrightarrow> echo (xs @ ys) = echo ys"
  by (simp add: echo_def)

lemma model_echo_roomy: "model_step D E a b a' (echo ys) ys \<Longrightarrow> roomy D E n b \<Longrightarrow> roomy D E n (see a' b)"
  using acts_roomy [of D E a b a' "echo ys" ys n] by (simp add: model_step_def)

text \<open>A halt on its way needs two free blocks: one for what is staged, one for the answer.\<close>

definition can_reply :: "direction \<Rightarrow> 'y endpoint_scheme \<Rightarrow> 'z endpoint_scheme \<Rightarrow> bool" where
  "can_reply E a b \<longleftrightarrow> EHalt \<in> set (pend E b a) \<longrightarrow> 2 \<le> ep_txAvail a"

lemma model_scan:
  assumes h: "model_ok D E a b" and rm: "roomy D E 0 b" and hs: "\<not> mu_bHaltSeen a" and av: "can_reply E a b"
  shows "\<exists>r a' ys. mu_MsgScan cb f1 f2 f3 a = Some (r, a') \<and> model_step D E a b a' (echo ys) ys \<and> poll_says eRecvCall E r ys a' \<and>
    (r \<noteq> eRecvHalt \<longrightarrow> ep_txAvail a' = ep_txAvail a) \<and> (r = eRecvIdle \<longrightarrow> a' = a)"
proof -
  note codes = model_codes [OF h] and l = model_link [OF h]
  have lk: "\<not> ep_lock a" "\<not> mu_bUsingCallback a" using h by (simp_all add: model_ok_def)
  have ty: "d_rdy E = HIF_CMD_IBLK_RDY" using h by (simp add: model_ok_def model_dirs_def)
  have count: "model_step D E a b (ep_CountPoll x) xs ys = model_step D E a b x xs ys" for x xs ys
    by (simp add: model_step_def model_ok_def) (auto simp: ep_CountPoll_def)
  have avail [simp]: "ep_txAvail (ep_CountPoll x) = ep_txAvail x" "ep_txAvail (open_data n x) = ep_txAvail x" for x :: model_unit and n
    by (simp_all add: ep_CountPoll_def open_data_def)
  note refl = model_refl [OF h]
  note scan = mu_MsgScan.simps [of cb f1 f2 f3 a]
  show ?thesis
  proof (cases "cq_entries (ep_msgQue a)")
    case Nil
    then show ?thesis using refl scan queue_Empty [OF l]
      by (intro exI [of _ eRecvIdle] exI [of _ a] exI [of _ "[]"]) (simp add: poll_says_def)
  next
    case (Cons m rest)
    note F = queue_Front [OF l Cons]
    from l Cons show ?thesis
    proof (cases rule: front_cases)
      case user
      then have "mu_MsgScan cb f1 f2 f3 a = Some (eRecvHostMsg, ep_CountPoll a)"
        using F lk by (simp add: scan Config_none ty)
      then show ?thesis using refl Cons user
        by (intro exI [of _ eRecvHostMsg] exI [of _ "ep_CountPoll a"] exI [of _ "[]"]) (simp add: count, simp add: poll_says_def)
    next
      case (data n)
      note O = open_data_step [OF l Cons [unfolded data(1)] data(2,3)]
      have "mu_MsgScan cb f1 f2 f3 a = Some (eRecvHostData, ep_CountPoll (open_data n a))"
        using data F lk by (simp add: scan Config_none ty open_data_def)
      then show ?thesis using rx_model [OF O(1) h O(2)] O(3)
        by (intro exI [of _ eRecvHostData] exI [of _ "ep_CountPoll (open_data n a)"] exI [of _ "[]"]) (simp add: count, simp add: poll_says_def)
    next
      case mark
      have "mu_MsgScan cb f1 f2 f3 a = Some (eRecvHostDataMarker, ep_CountPoll a)"
        using mark F lk by (simp add: scan Config_none ty)
      then show ?thesis using refl Cons mark
        by (intro exI [of _ eRecvHostDataMarker] exI [of _ "ep_CountPoll a"] exI [of _ "[]"]) (simp add: count, simp add: poll_says_def)
    next
      case halt
      have ds: "ep_rxDataSize a = 0" using cursor_none(1) [OF l Cons] halt by simp
      from consume_run' [OF l lk(1) Cons [unfolded halt(1)] rm _ _ _ ds] obtain a1 a2 where c:
        "ep_NextMsgQue a = Some a1" "ep_NextRxBlk (d_avl E) True a1 = Some a2" "step D E a b a2 [] [EHalt]" "rx_only a a2"
        "ep_txAvail a2 = ep_txAvail a" by (auto simp: front_events_def)
      have "pend E b a = [EHalt] @ pend E (see a2 b) a2" using c(3) by (simp add: step_def moves_def)
      then have av2: "2 \<le> ep_txAvail a2" using av c(5) by (simp add: can_reply_def)
      have ok2: "model_ok D E a2 (see a2 b)"
        using h c(4) model_more [of a2 a] step_link [OF c(3)] by (simp add: model_ok_def rx_only_def)
      from model_HaltReply [OF ok2 step_roomy1 [OF c(3) rm] av2] obtain a3 where c3:
        "mu_HaltReply a2 = Some a3" "model_step D E a2 (see a2 b) a3 [EHalt] []" by blast
      let ?a = "a3\<lparr>mu_bHaltSeen := True\<rparr>"
      have "mu_MsgScan cb f1 f2 f3 a = Some (eRecvHalt, ep_CountPoll ?a)"
        using halt F c(1,2) c3(1) by (simp add: scan Config_none ty mu_NextInBlk_def codes(4))
      moreover have "acts D E a b a3 [EHalt] [EHalt]"
        using acts_trans [OF step_acts [OF c(3)]] c3(2) by (fastforce simp: model_step_def)
      then have "model_step D E a b ?a [EHalt] [EHalt]"
        using c3(2) by (simp add: model_step_def model_ok_def)
      ultimately show ?thesis
        by (intro exI [of _ eRecvHalt] exI [of _ "ep_CountPoll ?a"] exI [of _ "[EHalt]"]) (simp add: count, simp add: poll_says_def)
    next
      case (call n)
      show ?thesis
      proof (cases "n = 0 \<or> rest \<noteq> []")
        case True
        then have "n = 0 \<or> 2 \<le> cq_Size (ep_msgQue a)"
          using queue_size [OF l] Cons by (cases rest) (auto simp del: length_cq_entries)
        then have "mu_MsgScan cb f1 f2 f3 a = Some (eRecvCall, ep_CountPoll a)"
          using call F lk by (auto simp: scan Config_none ty)
        moreover have "0 < n \<longrightarrow> (\<exists>rest'. rest = blk_msg (d_rdy E) n 0 # rest')"
          using True queue_call [OF l Cons [unfolded call(1)]] call(2) by (cases rest) auto
        then have "\<exists>n rest. n < d_sz E \<and> cq_entries (ep_msgQue a) = blk_msg (d_rdy E) n HIF_DQ_CALL # rest \<and>
            (0 < n \<longrightarrow> (\<exists>rest'. rest = blk_msg (d_rdy E) n 0 # rest'))"
          using Cons call(1,2) by (intro exI [of _ n] exI [of _ rest]) simp
        then have "poll_says eRecvCall E eRecvCall [] a" by (simp add: poll_says_def)
        ultimately show ?thesis using refl
          by (intro exI [of _ eRecvCall] exI [of _ "ep_CountPoll a"] exI [of _ "[]"]) (simp add: count)
      next
        case False
        then have "cq_Size (ep_msgQue a) = 1" "0 < n"
          using queue_size [OF l] Cons by (auto simp del: length_cq_entries)
        then have "mu_MsgScan cb f1 f2 f3 a = Some (eRecvIdle, a)"
          using call F lk by (simp add: scan Config_none ty)
        moreover have "poll_says eRecvCall E eRecvIdle [] a"
          using Cons call(1,2) False unfolding poll_says_def by auto
        ultimately show ?thesis using refl
          by (intro exI [of _ eRecvIdle] exI [of _ a] exI [of _ "[]"]) simp
      qed
    qed
  qed
qed

text \<open>Once the halt has been seen a poll reports it again and does nothing.\<close>

definition model_says :: "model_unit \<Rightarrow> direction \<Rightarrow> recv_type \<Rightarrow> event list \<Rightarrow> model_unit \<Rightarrow> bool" where
  "model_says a E r ys a' \<longleftrightarrow> (if mu_bHaltSeen a then r = eRecvHalt \<and> ys = [] \<and> a' = a else poll_says eRecvCall E r ys a')"

lemma model_poll:
  assumes h: "model_ok D E a b" and rm: "roomy D E 0 b" and av: "can_reply E a b"
  shows "\<exists>r a' ys. mu_MsgLoop cb f1 f2 f3 a = Some (r, a') \<and> model_step D E a b a' (echo ys) ys \<and> model_says a E r ys a' \<and>
    (r \<noteq> eRecvHalt \<longrightarrow> can_reply E a' (see a' b)) \<and> idle_says r a'"
proof (cases "mu_bHaltSeen a")
  case True
  then show ?thesis using model_refl [OF h]
    by (intro exI [of _ eRecvHalt] exI [of _ a] exI [of _ "[]"]) (simp add: mu_MsgLoop_def model_says_def idle_says_def)
next
  case False
  from que_run [OF model_link [OF h]] h obtain q where q: "ep_QueMsgs (d_avl D) a = Some q" "step D E a b q [] []" "rx_only a q"
    "ep_txAvail a \<le> ep_txAvail q" "ctl_msgs q = [] \<or> cq_IsFull (ep_msgQue q)" by (auto simp: model_ok_def)
  have hq: "model_step D E a b q [] []" using rx_model [OF q(2) h q(3)] by simp
  then have h': "model_ok D E q (see q b)" "\<not> mu_bHaltSeen q" using False by (simp_all add: model_step_def)
  have "pend E b a = pend E (see q b) q" using q(2) by (simp add: step_def moves_def)
  then have av': "can_reply E q (see q b)" using av q(4) by (auto simp: can_reply_def)
  from model_scan [OF h'(1) step_roomy1 [OF q(2) rm] h'(2) av'] obtain r a' ys where r:
    "mu_MsgScan cb f1 f2 f3 q = Some (r, a')" "model_step D E q (see q b) a' (echo ys) ys" "poll_says eRecvCall E r ys a'"
    "r \<noteq> eRecvHalt \<longrightarrow> ep_txAvail a' = ep_txAvail q" "r = eRecvIdle \<longrightarrow> a' = q" by blast
  have "idle_says r a'"
    using idle_flight [OF model_link [OF h'(1)] q(5), of eRecvCall] r(3,5) by (auto simp: idle_says_def poll_says_def)
  have "can_reply E a' (see a' b)" if "r \<noteq> eRecvHalt"
  proof -
    have "ys = []" using r(3) that by (simp add: poll_says_def)
    then have "pend E (see q b) q = pend E (see a' b) a'" using r(2) by (simp add: model_step_def acts_def moves_def)
    then show ?thesis using av' r(4) that by (simp add: can_reply_def)
  qed
  with model_step_then [OF hq r(2)] r(1,3) q(1) False \<open>idle_says r a'\<close> show ?thesis
    by (intro exI [of _ r] exI [of _ a'] exI [of _ ys])
      (simp add: mu_MsgLoop_def mu_QueInMsgs_def model_codes [OF h] model_says_def)
qed

section \<open>Receiving\<close>

lemma model_says_quiet: "model_says a E r ys a' \<Longrightarrow> quiet ys"
  by (cases "mu_bHaltSeen a") (auto simp: model_says_def quiet_def dest: poll_quiet [unfolded quiet_def])

lemma model_says_other:
  "model_says a E r ys a' \<Longrightarrow> r \<noteq> eRecvHalt \<Longrightarrow> ys = [] \<and> poll_says eRecvCall E r [] a'"
  by (auto simp: model_says_def poll_says_def split: if_splits)

lemma model_RecvHostMsg:
  assumes h: "model_ok D E a b" and rm: "roomy D E 0 b" and av: "can_reply E a b"
  shows "\<exists>res a' ys. mu_RecvHostMsg cb a = Some (res, a') \<and> model_step D E a b a' (echo ys) ys \<and>
    (case res of Some (t, d) \<Rightarrow> ys = [EMsg t d] | None \<Rightarrow> quiet ys)"
proof -
  from model_poll [OF h rm av, of cb False False False] obtain r q ys where q: "mu_MsgLoop cb False False False a = Some (r, q)"
    "model_step D E a b q (echo ys) ys" "model_says a E r ys q" by blast
  show ?thesis
  proof (cases "r = eRecvHostMsg")
    case False
    then have "mu_RecvHostMsg cb a = Some (None, q)" using q(1) by (simp add: mu_RecvHostMsg_def mu_RecvMsgInternal_def)
    then show ?thesis using q(2) model_says_quiet [OF q(3)] by auto
  next
    case True
    then obtain m rest where m: "ys = []" "cq_entries (ep_msgQue q) = m # rest" "16 \<le> GetMsgType m"
      using model_says_other [OF q(3)] by (auto simp: poll_says_def)
    have hq: "model_step D E a b q [] []" using q(2) m(1) by simp
    note h' = model_step_ok [OF hq]
    from take_msg_run [OF model_link [OF h'] m(2,3)] obtain a' where a': "ep_NextMsgQue q = Some a'"
      "step D E q (see q b) a' [] [EMsg (GetMsgType m) (GetMsgData m)]" "rx_only q a'" by blast
    have S: "model_step D E a b a' [] [EMsg (GetMsgType m) (GetMsgData m)]"
      by (rule model_step_then [OF hq rx_model [OF a'(2) h' a'(3)]]) simp
    have "mu_RecvHostMsg cb a = Some (Some (GetMsgType m, GetMsgData m), a')"
      using True q(1) a'(1) queue_Front [OF model_link [OF h'] m(2)]
      by (simp add: mu_RecvHostMsg_def mu_RecvMsgInternal_def)
    then show ?thesis using S
      by (intro exI [of _ "Some (GetMsgType m, GetMsgData m)"] exI [of _ a'] exI [of _ "[EMsg (GetMsgType m) (GetMsgData m)]"])
        (simp add: echo_def)
  qed
qed

lemma model_RecvHostDataMarker:
  assumes h: "model_ok D E a b" and rm: "roomy D E 0 b" and av: "can_reply E a b"
  shows "\<exists>res a' ys. mu_RecvHostDataMarker cb a = Some (res, a') \<and> model_step D E a b a' (echo ys) ys \<and>
    (if res then ys = [EMark] else quiet ys)"
proof (cases "0 < ep_rxDataSize a")
  case True
  then have "mu_RecvHostDataMarker cb a = Some (False, a)" by (simp add: mu_RecvHostDataMarker_def)
  then show ?thesis using model_refl [OF h]
    by (intro exI [of _ False] exI [of _ a] exI [of _ "[]"]) (simp add: quiet_def)
next
  case ds0: False
  from model_poll [OF h rm av, of cb True True False] obtain r q ys where q: "mu_MsgLoop cb True True False a = Some (r, q)"
    "model_step D E a b q (echo ys) ys" "model_says a E r ys q" by blast
  show ?thesis
  proof (cases "r = eRecvHostDataMarker")
    case False
    with ds0 have "mu_RecvHostDataMarker cb a = Some (False, q)" using q(1) by (simp add: mu_RecvHostDataMarker_def)
    then show ?thesis using q(2) model_says_quiet [OF q(3)] by auto
  next
    case True
    then obtain rest where m: "ys = []" "cq_entries (ep_msgQue q) = blk_msg (d_rdy E) 0 HIF_DQ_NULL # rest"
      using model_says_other [OF q(3)] by (auto simp: poll_says_def)
    have hq: "model_step D E a b q [] []" using q(2) m(1) by simp
    note h' = model_step_ok [OF hq]
    have lk: "\<not> ep_lock q" and co: "codes_ok E D" using h' by (auto simp: model_ok_def link_def codes_ok_sym)
    have ds: "ep_rxDataSize q = 0"
      using cursor_none(1) [OF model_link [OF h'] m(2)] blk_msg_of(2) [OF co, of 0 HIF_DQ_NULL] by simp
    from consume_run' [OF model_link [OF h'] lk m(2) model_step_roomy [OF hq rm] _ _ _ ds] obtain a1 a' where
      a': "ep_NextMsgQue q = Some a1" "ep_NextRxBlk (d_avl E) True a1 = Some a'"
      "step D E q (see q b) a' [] [EMark]" "rx_only q a'" by (auto simp: front_events_def)
    have "model_step D E a b a' [] [EMark]"
      by (rule model_step_then [OF hq rx_model [OF a'(3) h' a'(4)]]) simp
    moreover have "mu_RecvHostDataMarker cb a = Some (True, a')"
      using True ds0 q(1) a'(1,2) by (simp add: mu_RecvHostDataMarker_def mu_NextInBlk_def model_codes(4) [OF h])
    ultimately show ?thesis
      by (intro exI [of _ True] exI [of _ a'] exI [of _ "[EMark]"]) (simp add: echo_def)
  qed
qed

definition model_finish :: "model_unit \<Rightarrow> model_unit option" where
  "model_finish s = (if ep_rxDataSize s = 0 then do { s \<leftarrow> ep_NextMsgQue s; mu_NextInBlk True s } else Some s)"

lemma mu_RecvLoop_open:
  assumes "length rcvd < qwCnt" "(if 0 < ep_rxDataSize a then Some (eRecvHostData, a) else mu_MsgLoop cb True True False a) = Some (eRecvHostData, q)"
    "min (ep_rxDataSize q) (qwCnt - length rcvd) = cnt"
  shows "mu_RecvLoop cb qwCnt rcvd a = model_finish (read_part cnt q) \<bind> mu_RecvLoop cb qwCnt (rcvd @ open_words cnt q)"
proof -
  have "ep_rxDataSize q \<le> cnt \<longleftrightarrow> ep_rxDataSize q \<le> qwCnt - length rcvd" using assms(3) by auto
  then show ?thesis
    by (subst mu_RecvLoop.simps, subst assms(2))
      (use assms(1) in \<open>simp add: assms(3) Let_def read_part_def model_finish_def open_words_def\<close>)
qed

lemma model_recv_turn:
  assumes h: "model_ok D E a b" and rm: "roomy D E 0 b" and av: "can_reply E a b" and n: "0 < cnt" "cnt \<le> ep_rxDataSize a"
  shows "\<exists>a'. model_finish (read_part cnt a) = Some a' \<and> model_step D E a b a' [] (map EData (open_words cnt a)) \<and> can_reply E a' (see a' b)"
proof -
  have ds: "0 < ep_rxDataSize a" and lk: "\<not> ep_lock a" using n h by (simp_all add: model_ok_def)
  have nh: "EHalt \<notin> set (map EData (open_words cnt a))" by auto
  have "\<exists>a'. model_finish (read_part cnt a) = Some a' \<and> step D E a b a' [] (map EData (open_words cnt a)) \<and> rx_only a a' \<and>
      ep_txAvail a' = ep_txAvail a"
  proof (cases "cnt = ep_rxDataSize a")
    case True
    from recv_all [OF model_link [OF h] lk rm ds] obtain a1 a' where
      "ep_NextMsgQue (read_part cnt a) = Some a1" "ep_NextRxBlk (d_avl E) True a1 = Some a'"
      "step D E a b a' [] (map EData (open_words cnt a))" "rx_only a a'" "ep_txAvail a' = ep_txAvail a" unfolding True open_words_def by blast
    moreover have "ep_rxDataSize (read_part cnt a) = 0" by (simp add: True read_part_def)
    ultimately show ?thesis by (simp add: model_finish_def mu_NextInBlk_def model_codes(4) [OF h])
  next
    case False
    then have lt: "cnt < ep_rxDataSize a" using n by simp
    have "ep_rxDataSize (read_part cnt a) \<noteq> 0" "ep_txAvail (read_part cnt a) = ep_txAvail a" using lt by (simp_all add: read_part_def)
    then show ?thesis using recv_some [OF model_link [OF h] n(1) lt] by (simp add: model_finish_def open_words_def)
  qed
  then obtain a' where a': "model_finish (read_part cnt a) = Some a'" "step D E a b a' [] (map EData (open_words cnt a))"
    "rx_only a a'" "ep_txAvail a' = ep_txAvail a" by blast
  have "pend E b a = map EData (open_words cnt a) @ pend E (see a' b) a'" using a'(2) by (simp add: step_def moves_def)
  then have "can_reply E a' (see a' b)" using av a'(4) by (simp add: can_reply_def)
  then show ?thesis using a'(1) rx_model [OF a'(2) h a'(3) nh] by blast
qed

lemma model_RecvLoop:
  assumes "model_ok D E a b" "roomy D E 0 b" "can_reply E a b" "length rcvd \<le> qwCnt"
  shows "\<exists>data a' ys. mu_RecvLoop cb qwCnt rcvd a = Some (rcvd @ data, a') \<and> length (rcvd @ data) \<le> qwCnt \<and>
    model_step D E a b a' (echo ys) (map EData data @ ys) \<and> quiet ys"
  using assms
proof (induction "qwCnt - length rcvd" arbitrary: rcvd a b rule: less_induct)
  case less
  note loop = mu_RecvLoop.simps [of cb qwCnt rcvd a] and refl = model_refl [OF less.prems(1)]
  have go: "\<exists>data a' ys. mu_RecvLoop cb qwCnt rcvd a = Some (rcvd @ data, a') \<and> length (rcvd @ data) \<le> qwCnt \<and>
      model_step D E a b a' (echo ys) (map EData data @ ys) \<and> quiet ys"
    if p: "(if ep_rxDataSize a > 0 then Some (eRecvHostData, a) else mu_MsgLoop cb True True False a) = Some (eRecvHostData, q)"
      "model_step D E a b q [] []" "0 < ep_rxDataSize q" "length rcvd < qwCnt" "can_reply E q (see q b)" for q
  proof -
    note h' = model_step_ok [OF p(2)] and rm' = model_step_roomy [OF p(2) less.prems(2)]
    define cnt where "cnt = min (ep_rxDataSize q) (qwCnt - length rcvd)"
    let ?data = "open_words cnt q"
    have c: "0 < cnt" "cnt \<le> ep_rxDataSize q" "length ?data = cnt" "length (rcvd @ ?data) \<le> qwCnt"
      using p(3,4) by (simp_all add: cnt_def open_words_def)
    from model_recv_turn [OF h' rm' p(5) c(1,2)] obtain a' where d: "model_finish (read_part cnt q) = Some a'"
      "model_step D E q (see q b) a' [] (map EData ?data)" "can_reply E a' (see a' b)" by auto
    have run: "mu_RecvLoop cb qwCnt rcvd a = mu_RecvLoop cb qwCnt (rcvd @ ?data) a'"
      using mu_RecvLoop_open [OF p(4,1) cnt_def [symmetric]] d(1) by simp
    note S = model_step_then [OF p(2) d(2)]
    have lt: "qwCnt - length (rcvd @ ?data) < qwCnt - length rcvd" using c(1,3) p(4) by simp
    from less.hyps [OF lt model_step_ok [OF S] model_step_roomy [OF S less.prems(2)] d(3) c(4)]
    obtain rest z ys where "mu_RecvLoop cb qwCnt (rcvd @ ?data) a' = Some ((rcvd @ ?data) @ rest, z)"
      "length ((rcvd @ ?data) @ rest) \<le> qwCnt" "model_step D E a' (see a' b) z (echo ys) (map EData rest @ ys)" "quiet ys" by blast
    then show ?thesis using run model_step_trans [OF S, of z "echo ys" "map EData rest @ ys"]
      by (intro exI [of _ "?data @ rest"] exI [of _ z] exI [of _ ys]) simp
  qed
  show ?case
  proof (cases "qwCnt \<le> length rcvd")
    case True
    then have "mu_RecvLoop cb qwCnt rcvd a = Some (rcvd @ [], a)" by (simp add: loop)
    then show ?thesis using refl less.prems(4)
      by (intro exI [of _ "[]"] exI [of _ a] exI [of _ "[]"]) (simp add: quiet_def)
  next
    case False
    then have n: "length rcvd < qwCnt" by simp
    show ?thesis
    proof (cases "0 < ep_rxDataSize a")
      case True
      then show ?thesis using go [of a] refl n less.prems(3) link_see [OF model_link [OF less.prems(1)]] by simp
    next
      case ds: False
      from model_poll [OF less.prems(1-3), of cb True True False] obtain r q ys where
        q: "mu_MsgLoop cb True True False a = Some (r, q)" "model_step D E a b q (echo ys) ys" "model_says a E r ys q"
        "r \<noteq> eRecvHalt \<longrightarrow> can_reply E q (see q b)" by blast
      show ?thesis
      proof (cases "r = eRecvHostData")
        case True
        then have "ys = []" "0 < ep_rxDataSize q" using model_says_other [OF q(3)] by (auto simp: poll_says_def)
        then show ?thesis using go [of q] ds q True n by simp
      next
        case False
        then have "mu_RecvLoop cb qwCnt rcvd a = Some (rcvd @ [], q)" using ds n q(1) by (simp add: loop)
        then show ?thesis using q(2) less.prems(4) model_says_quiet [OF q(3)]
          by (intro exI [of _ "[]"] exI [of _ q] exI [of _ ys]) simp
      qed
    qed
  qed
qed

lemma model_RecvHostData:
  assumes "model_ok D E a b" "roomy D E 0 b" "can_reply E a b"
  shows "\<exists>data a' ys. mu_RecvHostData cb qwCnt a = Some (data, a') \<and> length data \<le> qwCnt \<and>
    model_step D E a b a' (echo ys) (map EData data @ ys) \<and> quiet ys"
  using model_RecvLoop [OF assms, of "[]" qwCnt cb] by (simp add: mu_RecvHostData_def)

lemma model_PeekHostData:
  assumes h: "model_ok D E a b" and rm: "roomy D E 0 b" and av: "can_reply E a b"
  shows "\<exists>res a' ys. mu_PeekHostData cb a = Some (res, a') \<and> model_step D E a b a' (echo ys) ys \<and>
    (case res of Some w \<Rightarrow> ys = [] \<and> (\<exists>zs. pend E (see a' b) a' = EData w # zs) | None \<Rightarrow> quiet ys)"
proof (cases "ep_rxDataSize a = 0")
  case False
  then show ?thesis using model_refl [OF h] open_pend [OF model_link [OF h], of "see a b"]
    by (intro exI [of _ "Some (ep_heap a (ep_rxBase a) (ep_rxOff a + ep_rxRdIdx a))"] exI [of _ a] exI [of _ "[]"])
      (simp add: mu_PeekHostData_def)
next
  case True
  from model_poll [OF h rm av, of cb True True False] obtain r q ys where q: "mu_MsgLoop cb True True False a = Some (r, q)"
    "model_step D E a b q (echo ys) ys" "model_says a E r ys q" by blast
  show ?thesis
  proof (cases "r = eRecvHostData")
    case r: True
    then have d: "ys = []" "0 < ep_rxDataSize q" using model_says_other [OF q(3)] by (auto simp: poll_says_def)
    then show ?thesis using q(1,2) r True open_pend [OF model_link [OF model_step_ok [OF q(2)]] d(2), of "see q b"]
      by (intro exI [of _ "Some (ep_heap q (ep_rxBase q) (ep_rxOff q + ep_rxRdIdx q))"] exI [of _ q] exI [of _ "[]"])
        (simp add: mu_PeekHostData_def)
  next
    case False
    then show ?thesis using q True model_says_quiet [OF q(3)]
      by (intro exI [of _ None] exI [of _ q] exI [of _ ys]) (simp add: mu_PeekHostData_def)
  qed
qed

section \<open>Calls\<close>

lemma model_RecvCall:
  assumes h: "model_ok D E a b" and rm: "roomy D E 0 b" and av: "can_reply E a b"
    and argc: "\<And>n zs. pend E b a = ECall n # zs \<Longrightarrow> n \<le> argc"
  shows "\<exists>res a' ys. mu_RecvCall cb argc a = Some (res, a') \<and> model_step D E a b a' (echo ys) ys \<and>
    (case res of Some argv \<Rightarrow> \<exists>n \<le> argc. ys = ECall n # map EData (take n argv) \<and> (0 < n \<longrightarrow> length argv = argc) \<and> (n = 0 \<longrightarrow> argv = [])
     | None \<Rightarrow> quiet ys)"
proof -
  note codes = model_codes(4) [OF h]
  have ty: "d_rdy E = HIF_CMD_IBLK_RDY" using h by (simp add: model_ok_def model_dirs_def)
  from model_poll [OF h rm av, of cb False True True] obtain r q ys where q: "mu_MsgLoop cb False True True a = Some (r, q)"
    "model_step D E a b q (echo ys) ys" "model_says a E r ys q" by blast
  show ?thesis
  proof (cases "r = eRecvCall")
    case False
    then have "mu_RecvCall cb argc a = Some (None, q)" using q(1) by (simp add: mu_RecvCall_def)
    then show ?thesis using q(2) model_says_quiet [OF q(3)]
      by (intro exI [of _ None] exI [of _ q] exI [of _ ys]) simp
  next
    case True
    then obtain n rest where m: "ys = []" "n < d_sz E" "cq_entries (ep_msgQue q) = blk_msg (d_rdy E) n HIF_DQ_CALL # rest"
      and args: "0 < n \<longrightarrow> (\<exists>rest'. rest = blk_msg (d_rdy E) n 0 # rest')"
      using model_says_other [OF q(3)] by (auto simp: poll_says_def)
    have hq: "model_step D E a b q [] []" using q(2) m(1) by simp
    note h' = model_step_ok [OF hq]
    note C = call_front [OF model_link [OF h'] m(3,2)]
    have lk: "\<not> ep_lock q" using h' by (simp add: model_ok_def)
    have rmq: "roomy D E 0 (see q b)" using model_step_roomy [OF hq rm] .
    have "pend E b a = pend E (see q b) q" using hq by (simp add: model_step_def acts_def moves_def)
    then have n: "n \<le> argc" using C(1) argc by metis
    have nsz: "n \<le> d_sz E" using m(2) by simp
    from consume_run' [OF model_link [OF h'] lk m(3) rmq nsz _ _ C(2)] obtain a1 a2 where c1:
      "ep_NextMsgQue q = Some a1" "ep_NextRxBlk (d_avl E) True a1 = Some a2"
      "step D E q (see q b) a2 [] [ECall n]" "rx_only q a2" "cq_entries (ep_msgQue a2) = rest" "ep_rxDataSize a2 = 0"
      by (auto simp: front_events_def)
    have S2: "model_step D E a b a2 [] [ECall n]"
      by (rule model_step_then [OF hq rx_model [OF c1(3) h' c1(4)]]) simp
    note h2 = model_step_ok [OF S2] and rm2 = model_step_roomy [OF S2 rm]
    let ?m = "blk_msg (d_rdy E) n HIF_DQ_CALL"
    let ?argv = "heap_load (ep_rxBase a2) (unat (ep_rxBlkIdx a2 AND ep_rxMask a2) * ep_rxSize a2) argc (ep_heap a2)"
    have first: "mu_RecvCall cb argc a =
        (if n > 0 then do {
           m2 \<leftarrow> cq_Front (ep_msgQue a2);
           ensure (GetMsgType m2 = HIF_CMD_IBLK_RDY \<and> GetMsgData m2 AND 7 = 0);
           ensure (drop_bit 3 (GetMsgData ?m) AND 255 = drop_bit 3 (GetMsgData m2) AND 255);
           s \<leftarrow> ep_NextMsgQue a2;
           s \<leftarrow> mu_NextInBlk True s;
           Some (Some ?argv, s)
         } else Some (Some [], a2))"
      using True q(1) queue_Front(1) [OF model_link [OF h'] m(3)] C(3-5) n c1(1,2)
      by (simp add: mu_RecvCall_def codes ty mu_NextInBlk_def Let_def)
    show ?thesis
    proof (cases "n = 0")
      case True
      then show ?thesis using first S2
        by (intro exI [of _ "Some []"] exI [of _ a2] exI [of _ "[ECall 0]"]) (simp add: echo_def)
    next
      case False
      then obtain rest' where rest: "cq_entries (ep_msgQue a2) = blk_msg (d_rdy E) n 0 # rest'" using args c1(5) by auto
      note G = args_front [OF model_link [OF h2] rest m(2) c1(6) n]
      have lk2: "\<not> ep_lock a2" using h2 by (simp add: model_ok_def)
      from consume_run' [OF model_link [OF h2] lk2 rest rm2 nsz _ _ c1(6)] obtain a3 a4 where c2:
        "ep_NextMsgQue a2 = Some a3" "ep_NextRxBlk (d_avl E) True a3 = Some a4"
        "step D E a2 (see a2 b) a4 [] (front_events E a2 n 0)" "rx_only a2 a4" by auto
      have run: "mu_RecvCall cb argc a = Some (Some ?argv, a4)"
        using first False queue_Front(1) [OF model_link [OF h2] rest] G(2-4) C(6) c2(1,2)
        by (simp add: codes ty mu_NextInBlk_def)
      have "model_step D E a2 (see a2 b) a4 [] (map EData (take n ?argv))"
        using rx_model [OF c2(3) h2 c2(4)] unfolding G(1) by auto
      from model_step_trans [OF S2 this] run n False show ?thesis
        by (intro exI [of _ "Some ?argv"] exI [of _ a4] exI [of _ "ECall n # map EData (take n ?argv)"])
          (auto simp: echo_def)
    qed
  qed
qed

end
