(* ===== verification/HifBoot.thy ===== *)
theory HifBoot
  imports HostLink ModelLink
begin

text \<open>
  Bringing the link up: the host's constructor writes its configuration and the output blocks'
  credit into the control ring, and the model's first poll reads them. From then on the two sides
  are linked, with every block free and nothing pending.
\<close>

section \<open>Rings before there is a link\<close>

lemma see_unit [simp]:
  "mu_bHaltSeen (see a m) = mu_bHaltSeen m" "mu_bUsingCallback (see a m) = mu_bUsingCallback m"
  "hu_recvRtnArgc (see a h) = hu_recvRtnArgc h" "hu_bUsingCallback (see a h) = hu_bUsingCallback h"
  by (simp_all add: see_def)

lemma see_same: "ring_ok a b \<Longrightarrow> ring_ok b a \<Longrightarrow> ep_heap b = ep_heap a \<Longrightarrow> see a b = b"
  by (simp add: ring_ok_def see_def)

lemma SendMsgs_run:
  assumes "ring_ok a b" "ring_ok b a" "ep_lock a" "length (ctl_msgs b) + length ms \<le> ring_size b" "ep_heap b = ep_heap a"
  shows "\<exists>a'. ep_SendMsgs ms a = Some a' \<and> ring_ok a' (see a' b) \<and> ring_ok (see a' b) a' \<and>
    ctl_msgs (see a' b) = ctl_msgs b @ map (\<lambda>(t, d). CHtCtrlMsg t d) ms \<and> ctl_msgs a' = ctl_msgs a \<and>
    (\<exists>w q. a' = a\<lparr>ep_ctlWrIdx := w, ep_txq := q\<rparr>)"
  using assms
proof (induction ms arbitrary: a b)
  case Nil
  then have "see a b = b" by (intro see_same)
  moreover have "\<exists>w q. a = a\<lparr>ep_ctlWrIdx := w, ep_txq := q\<rparr>"
    by (intro exI [of _ "ep_ctlWrIdx a"] exI [of _ "ep_txq a"]) simp
  ultimately show ?case using Nil by simp
next
  case (Cons m ms)
  obtain t d where m: "m = (t, d)" by (cases m)
  let ?m = "CHtCtrlMsg t d"
  let ?a = "put_msg ?m a"
  let ?b = "see ?a b"
  have v: "IsValid ?m" by simp
  have room: "length (ctl_msgs b) < ring_size b" using Cons.prems(4) by simp
  note P = put_msg_ring [OF Cons.prems(1) v room] put_msg_ring_back [OF Cons.prems(2), of ?m]
  have "ep_SendMsgInternal t d False a = Some ?a"
    using SendMsgInternal_put [OF Cons.prems(1,3)] room by simp
  moreover have "length (ctl_msgs ?b) + length ms \<le> ring_size ?b" using Cons.prems(4) P(2) by simp
  from Cons.IH [OF P(1) P(3) _ this] Cons.prems(3) obtain a' w q where "ep_SendMsgs ms ?a = Some a'"
    "ring_ok a' (see a' b)" "ring_ok (see a' b) a'" "ctl_msgs (see a' b) = ctl_msgs ?b @ map (\<lambda>(t, d). CHtCtrlMsg t d) ms"
    "ctl_msgs a' = ctl_msgs a" "a' = ?a\<lparr>ep_ctlWrIdx := w, ep_txq := q\<rparr>" using P(4) by auto
  moreover have "?a\<lparr>ep_ctlWrIdx := w, ep_txq := q\<rparr> = a\<lparr>ep_ctlWrIdx := w, ep_txq := q\<rparr>" by (simp add: put_msg_def)
  ultimately show ?case using P(2) m by auto
qed

text \<open>The queueing of a whole ring, by the types of its messages alone.\<close>

lemma QueMsgs_all:
  assumes "ring_ok b a" "ring_ok a b" "\<not> ep_lock a" "que_ok (ep_msgQue a)"
    "length (cq_entries (ep_msgQue a)) + length (ctl_msgs a) \<le> cq_cap (ep_msgQue a)" "ep_heap b = ep_heap a"
  shows "\<exists>r x q a'. ep_QueMsgs avl a = Some a' \<and> ring_ok (see a' b) a' \<and> ring_ok a' (see a' b) \<and>
    ctl_msgs a' = [] \<and> ctl_msgs (see a' b) = ctl_msgs b \<and> que_ok q \<and>
    cq_entries q = cq_entries (ep_msgQue a) @ filter (\<lambda>m. GetMsgType m \<noteq> avl) (ctl_msgs a) \<and>
    a' = a\<lparr>ep_ctlRdIdx := r, ep_rxq := x, ep_msgQue := q, ep_txAvail := ep_txAvail a + int (count_type avl (ctl_msgs a))\<rparr>"
  using assms
proof (induction "ctl_msgs a" arbitrary: a b)
  case Nil
  have nil: "ctl_msgs a = []" using Nil.hyps by simp
  then have run: "ep_QueMsgs avl a = Some a" by (intro QueMsgs_stop [OF Nil.prems(1)]) simp
  have "see a b = b" using Nil.prems by (intro see_same)
  then show ?case using Nil.prems run nil
    by (intro exI [of _ "ep_ctlRdIdx a"] exI [of _ "ep_rxq a"] exI [of _ "ep_msgQue a"] exI [of _ a]) simp
next
  case (Cons m ms)
  have ms: "ctl_msgs a = m # ms" using Cons.hyps(2) by simp
  have qi: "cq_inv (ep_msgQue a)" using Cons.prems(4) by (simp add: que_ok_def)
  have f: "\<not> cq_IsFull (ep_msgQue a)"
    using cq.full_ok [OF qi] Cons.prems(5) ms by (simp del: length_cq_entries)
  note D = drop_msg_ring [OF Cons.prems(1)] drop_msg_ring_back [OF Cons.prems(2)]
  have D: "ring_ok (see (drop_msg a) b) (drop_msg a)" "ctl_msgs (drop_msg a) = ms"
    "ring_ok (drop_msg a) (see (drop_msg a) b)" "ctl_msgs (see (drop_msg a) b) = ctl_msgs b" using D ms by simp_all
  show ?case
  proof (cases "GetMsgType m = avl")
    case True
    let ?x = "(drop_msg a)\<lparr>ep_txAvail := ep_txAvail a + 1\<rparr>"
    have s: "ring_ok (see ?x b) ?x" "ring_ok ?x (see ?x b)" "ctl_msgs ?x = ms" "ctl_msgs (see ?x b) = ctl_msgs b"
      using D by (simp_all add: ring_ok_def ctl_msgs_def ring_size_def see_def)
    have "length (cq_entries (ep_msgQue ?x)) + length (ctl_msgs ?x) \<le> cq_cap (ep_msgQue ?x)"
      using Cons.prems(5) ms s(3) by simp
    from Cons.hyps(1) [OF s(3) [symmetric] s(1,2) _ _ this] Cons.prems(3,4) obtain r x q a' where
      "ep_QueMsgs avl ?x = Some a'" "ring_ok (see a' b) a'" "ring_ok a' (see a' b)" "ctl_msgs a' = []"
      "ctl_msgs (see a' b) = ctl_msgs b" "que_ok q"
      "cq_entries q = cq_entries (ep_msgQue a) @ filter (\<lambda>m. GetMsgType m \<noteq> avl) ms"
      "a' = ?x\<lparr>ep_ctlRdIdx := r, ep_rxq := x, ep_msgQue := q, ep_txAvail := ep_txAvail ?x + int (count_type avl ms)\<rparr>"
      using s(3,4) by auto
    moreover note QueMsgs_absorb [OF Cons.prems(1) ms Cons.prems(3) f True]
    ultimately show ?thesis using True
      by (intro exI [of _ r] exI [of _ x] exI [of _ q] exI [of _ a']) (simp add: ms drop_msg_def)
  next
    case False
    obtain p where p: "cq_Push m (ep_msgQue a) = Some p" "que_ok p" "cq_entries p = cq_entries (ep_msgQue a) @ [m]"
      "cq_cap p = cq_cap (ep_msgQue a)" using cq_Push_ok [OF qi f, of m] Cons.prems(4) by (auto simp: que_ok_def)
    let ?x = "(drop_msg a)\<lparr>ep_msgQue := p\<rparr>"
    have s: "ring_ok (see ?x b) ?x" "ring_ok ?x (see ?x b)" "ctl_msgs ?x = ms" "ctl_msgs (see ?x b) = ctl_msgs b"
      using D by (simp_all add: ring_ok_def ctl_msgs_def ring_size_def see_def)
    have "length (cq_entries (ep_msgQue ?x)) + length (ctl_msgs ?x) \<le> cq_cap (ep_msgQue ?x)"
      using Cons.prems(5) ms s(3) p by (simp del: length_cq_entries)
    from Cons.hyps(1) [OF s(3) [symmetric] s(1,2) _ _ this] Cons.prems(3) p(2) obtain r x q a' where
      "ep_QueMsgs avl ?x = Some a'" "ring_ok (see a' b) a'" "ring_ok a' (see a' b)" "ctl_msgs a' = []"
      "ctl_msgs (see a' b) = ctl_msgs b" "que_ok q"
      "cq_entries q = cq_entries p @ filter (\<lambda>m. GetMsgType m \<noteq> avl) ms"
      "a' = ?x\<lparr>ep_ctlRdIdx := r, ep_rxq := x, ep_msgQue := q, ep_txAvail := ep_txAvail a + int (count_type avl ms)\<rparr>"
      using s(3,4) by auto
    moreover note QueMsgs_queue [OF Cons.prems(1) ms f False p(1)]
    ultimately show ?thesis using False p(3)
      by (intro exI [of _ r] exI [of _ x] exI [of _ q] exI [of _ a']) (simp add: ms drop_msg_def)
  qed
qed

section \<open>Configuration messages\<close>

fun configs :: "ctrl_msg list \<Rightarrow> model_unit \<Rightarrow> model_unit option" where
  "configs [] s = Some s"
| "configs (m # ms) s = do { s \<leftarrow> mu_Config (GetMsgType m) (GetMsgData m) s; configs ms s }"

lemma Config_frame:
  "mu_Config t d (s\<lparr>ep_msgQue := q, ep_loopCnt := c\<rparr>) = map_option (\<lambda>s. s\<lparr>ep_msgQue := q, ep_loopCnt := c\<rparr>) (mu_Config t d s)"
  by (simp add: mu_Config_def Let_def)

lemma configs_frame:
  "configs ms (s\<lparr>ep_msgQue := q, ep_loopCnt := c\<rparr>) = map_option (\<lambda>s. s\<lparr>ep_msgQue := q, ep_loopCnt := c\<rparr>) (configs ms s)"
  by (induction ms arbitrary: s) (auto simp: Config_frame split: option.splits bind_splits)

text \<open>MsgLoop takes all of them from the queue and is then idle.\<close>

lemma scan_configs:
  assumes "que_ok (ep_msgQue s)" "cq_entries (ep_msgQue s) = ms" "configs ms s = Some s'"
  shows "\<exists>q c. mu_MsgScan cb f1 f2 f3 s = Some (eRecvIdle, s'\<lparr>ep_msgQue := q, ep_loopCnt := c\<rparr>) \<and> que_ok q \<and> cq_entries q = []"
  using assms
proof (induction ms arbitrary: s s')
  case Nil
  then have "cq_Empty (ep_msgQue s)" using cq_IsEmpty_entries [OF que_ok_inv] by (simp add: cq_Empty_def cq_IsEmpty_def)
  then have "mu_MsgScan cb f1 f2 f3 s = Some (eRecvIdle, s)" by (simp add: mu_MsgScan.simps [of cb f1 f2 f3 s])
  then show ?case using Nil by (intro exI [of _ "ep_msgQue s"] exI [of _ "ep_loopCnt s"]) simp
next
  case (Cons m ms)
  note inv = que_ok_inv [OF Cons.prems(1)]
  have ne: "\<not> cq_IsEmpty (ep_msgQue s)" using cq_IsEmpty_entries [OF inv] Cons.prems(2) by simp
  then have front: "cq_Front (ep_msgQue s) = Some m" "\<not> cq_Empty (ep_msgQue s)"
    using cq_Front_ok [OF inv] Cons.prems(2) by (simp_all add: cq_Empty_def cq_IsEmpty_def)
  from Cons.prems(3) obtain x where x: "mu_Config (GetMsgType m) (GetMsgData m) s = Some x" "configs ms x = Some s'"
    by (auto simp: bind_eq_Some_conv)
  have same: "ep_msgQue x = ep_msgQue s" using x(1) by (auto simp: mu_Config_def Let_def split: if_splits)
  from NextMsgQue_run [of x m ms] Cons.prems(1,2) same obtain q where q: "que_ok q" "cq_entries q = ms"
    "ep_NextMsgQue x = Some (x\<lparr>ep_msgQue := q, ep_loopCnt := 0\<rparr>)" by auto
  have "mu_MsgScan cb f1 f2 f3 s = mu_MsgScan cb f1 f2 f3 (x\<lparr>ep_msgQue := q, ep_loopCnt := 0\<rparr>)"
    using front x(1) q(3) by (simp add: mu_MsgScan.simps [of cb f1 f2 f3 s])
  moreover have "configs ms (x\<lparr>ep_msgQue := q, ep_loopCnt := 0\<rparr>) = Some (s'\<lparr>ep_msgQue := q, ep_loopCnt := 0\<rparr>)"
    using x(2) by (simp add: configs_frame)
  ultimately show ?case
    using Cons.IH [of "x\<lparr>ep_msgQue := q, ep_loopCnt := 0\<rparr>" "s'\<lparr>ep_msgQue := q, ep_loopCnt := 0\<rparr>"] q(1,2) by simp
qed

section \<open>The boot\<close>

lemma blk_size:
  assumes "3 \<le> w" "w \<le> 25"
  shows "0 < (2::nat) ^ w div 8" "(2::nat) ^ w div 8 \<le> 2 ^ 22"
proof -
  have "(2::nat) ^ 3 \<le> 2 ^ w" "(2::nat) ^ w \<le> 2 ^ 25" using assms by (intro power_increasing; simp)+
  then show "0 < (2::nat) ^ w div 8" "(2::nat) ^ w div 8 \<le> 2 ^ 22" by simp_all
qed

definition in_dir :: "hif_params \<Rightarrow> u64 \<Rightarrow> direction" where
  "in_dir par base = \<lparr>d_rdy = HIF_CMD_IBLK_RDY, d_avl = HIF_CMD_IBLK_AVL, d_cw = par_iBlkCntW par,
     d_sz = 2 ^ par_iBlkSizeW par div 8, d_base = base\<rparr>"

definition out_dir :: "hif_params \<Rightarrow> u64 \<Rightarrow> direction" where
  "out_dir par base = \<lparr>d_rdy = HIF_CMD_OBLK_RDY, d_avl = HIF_CMD_OBLK_AVL, d_cw = par_oBlkCntW par,
     d_sz = 2 ^ par_oBlkSizeW par div 8, d_base = base\<rparr>"

text \<open>
  The sizes the link works with: the model's control ring has 512 slots whatever the host's
  parameter, a message carries 56 bits of an address, and the constructor checks the timers.
\<close>

definition par_ok :: "hif_params \<Rightarrow> u32 \<Rightarrow> u64 \<Rightarrow> u64 \<Rightarrow> bool" where
  "par_ok par mhz inBase outBase \<longleftrightarrow> par_ctlQueW par = 9 \<and>
     3 \<le> par_iBlkSizeW par \<and> par_iBlkSizeW par \<le> 25 \<and> par_iBlkCntW par \<le> 6 \<and>
     3 \<le> par_oBlkSizeW par \<and> par_oBlkSizeW par \<le> 25 \<and> 0 < par_oBlkCntW par \<and> par_oBlkCntW par \<le> 6 \<and>
     inBase < 2 ^ 56 \<and> outBase < 2 ^ 56 \<and> inBase \<noteq> outBase \<and>
     sint (par_oBlkTimerUSec par * mhz) < 2 ^ 28 \<and> sint (par_ctlTimerUSec par * mhz) < 2 ^ 16"

lemma pow_and: "(2 ^ w - 1) AND 2 ^ w = (0 :: nat)"
proof -
  have "(2 ^ w - 1) AND 2 ^ w = (2 ^ w AND mask w :: nat)" by (simp add: mask_nat_def and.commute)
  also have "\<dots> = 0" by (simp add: take_bit_eq_mask [symmetric] take_bit_eq_mod)
  finally show ?thesis .
qed

text \<open>The host at the moment its first messages go out.\<close>

definition hu_blank :: "hif_params \<Rightarrow> u64 \<Rightarrow> u64 \<Rightarrow> nat \<Rightarrow> (nat \<Rightarrow> ctrl_msg) \<Rightarrow> host_unit \<Rightarrow> host_unit" where
  "hu_blank par inBase outBase unitId que raw = raw\<lparr>hu_unitId := unitId, ep_ctlQueMask := of_nat (2 ^ par_ctlQueW par - 1),
     hu_bUsingCallback := False, hu_bFree := False, ep_lock := False, ep_ctlWrIdx := 0, ep_ctlRdIdx := 0,
       ep_txAvail := 2 ^ par_iBlkCntW par, ep_txWrIdx := 0, ep_txBlkIdx := 0,
       ep_txSize := 2 ^ par_iBlkSizeW par div 8, ep_txMask := of_nat (2 ^ par_iBlkCntW par - 1),
       ep_rxDataSize := 0, ep_rxRdIdx := 0, ep_rxBlkIdx := 0,
       ep_rxSize := 2 ^ par_oBlkSizeW par div 8, ep_rxMask := of_nat (2 ^ par_oBlkCntW par - 1),
       hu_recvRtnArgc := 0,
       ep_txBase := inBase, ep_txOff := 0, ep_rxBase := outBase, ep_rxOff := 0,
       ep_msgQue := cq_new que (2 ^ par_ctlQueW par), hu_monitor := mon_Clear, ep_lock := True\<rparr>"

lemma hu_new_alt:
  assumes "par_ok par mhz inBase outBase"
  shows "hu_new par mhz nf inBase outBase fb unitId que raw = do {
    s \<leftarrow> ep_SendMsgs (hu_init_msgs par mhz nf inBase outBase fb) (hu_blank par inBase outBase unitId que raw);
    Some (s\<lparr>ep_lock := False\<rparr>) }"
proof -
  have c: "(1::nat) < 2 ^ par_oBlkCntW par" using assms by (intro one_less_power) (simp_all add: par_ok_def)
  have t: "sint (par_oBlkTimerUSec par * mhz) < 2 ^ 28" "sint (par_ctlTimerUSec par * mhz) < 2 ^ 16"
    using assms by (simp_all only: par_ok_def)
  show ?thesis
    using t unfolding hu_new_def Let_def pow_and
    by (simp only: c simp_thms if_True option.simps bind.simps ep_Lock_def hu_blank_def) (simp add: ep_Unlock_def)
qed

definition boot_msgs :: "hif_params \<Rightarrow> u32 \<Rightarrow> bool \<Rightarrow> u64 \<Rightarrow> u64 \<Rightarrow> u64 \<Rightarrow> (u8 \<times> u64) list" where
  "boot_msgs par mhz nf inBase outBase fb = filter (\<lambda>(t, d). t \<noteq> HIF_CMD_OBLK_AVL) (hu_init_msgs par mhz nf inBase outBase fb)"

lemma cmd_type: "t < 16 \<Longrightarrow> GetMsgType (CHtCtrlMsg t d) = t"
  by (simp add: GetMsgType_msg, intro and_mask_id) (simp add: word_less_nat_alt)

lemma init_types: "(t, d) \<in> set (hu_init_msgs par mhz nf inBase outBase fb) \<Longrightarrow> t < 16"
  by (auto simp: hu_init_msgs_def Let_def split: if_splits)

lemma boot_filter:
  "filter (\<lambda>m. GetMsgType m \<noteq> HIF_CMD_OBLK_AVL) (map (\<lambda>(t, d). CHtCtrlMsg t d) (hu_init_msgs par mhz nf inBase outBase fb)) =
    map (\<lambda>(t, d). CHtCtrlMsg t d) (boot_msgs par mhz nf inBase outBase fb)"
proof -
  have "map (\<lambda>(t, d). CHtCtrlMsg t d) (filter (\<lambda>(t, d). t \<noteq> HIF_CMD_OBLK_AVL) l) =
      filter (\<lambda>m. GetMsgType m \<noteq> HIF_CMD_OBLK_AVL) (map (\<lambda>(t, d). CHtCtrlMsg t d) l)"
    if "\<forall>m \<in> set l. fst m < 16" for l :: "(u8 \<times> u64) list"
    using that by (induction l) (auto simp: cmd_type)
  moreover have "\<forall>m \<in> set (hu_init_msgs par mhz nf inBase outBase fb). fst m < 16" using init_types by fastforce
  ultimately show ?thesis unfolding boot_msgs_def by metis
qed

lemma boot_count:
  "count_type HIF_CMD_OBLK_AVL (map (\<lambda>(t, d). CHtCtrlMsg t d) (hu_init_msgs par mhz nf inBase outBase fb)) = 2 ^ par_oBlkCntW par"
proof -
  have "count_type HIF_CMD_OBLK_AVL (map ((\<lambda>(t, d). CHtCtrlMsg t d) \<circ> (\<lambda>i. (HIF_CMD_OBLK_AVL, f i))) l) = length l"
    for f :: "nat \<Rightarrow> u64" and l
    by (induction l) (simp_all add: cmd_type)
  then show ?thesis by (simp add: hu_init_msgs_def Let_def cmd_type)
qed

lemma init_length: "par_ok par mhz inBase outBase \<Longrightarrow> length (hu_init_msgs par mhz nf inBase outBase fb) \<le> 2 ^ 6 + 6"
proof -
  assume "par_ok par mhz inBase outBase"
  then have "(2 :: nat) ^ par_oBlkCntW par \<le> 2 ^ 6" by (intro power_increasing) (simp_all add: par_ok_def)
  then show ?thesis by (simp add: hu_init_msgs_def Let_def)
qed

lemma par_field:
  assumes "w < 256" "k < 256"
  shows "ucast (GetMsgData (CHtCtrlMsg t (of_nat w OR push_bit 8 (of_nat k) OR push_bit 16 x))) AND 255 = (of_nat w :: u32)"
    and "ucast (drop_bit 8 (GetMsgData (CHtCtrlMsg t (of_nat w OR push_bit 8 (of_nat k) OR push_bit 16 x)))) AND 255 = (of_nat k :: u32)"
proof -
  have m: "(255 :: u32) = mask 8" by (simp add: mask_eq_exp_minus_1)
  have b: "i < 8" if "bit n i" "n < 256" for n i :: nat
  proof (rule ccontr)
    assume "\<not> i < 8"
    then have "(2::nat) ^ 8 \<le> 2 ^ i" by (intro power_increasing) auto
    then have "n div 2 ^ i = 0" using that(2) by (auto intro!: div_less)
    then show False using that(1) by (simp add: bit_iff_odd)
  qed
  show "ucast (GetMsgData (CHtCtrlMsg t (of_nat w OR push_bit 8 (of_nat k) OR push_bit 16 x))) AND 255 = (of_nat w :: u32)"
    unfolding m GetMsgData_msg by (rule bit_word_eqI) (use assms in \<open>auto simp: bit_simps dest: b\<close>)
  show "ucast (drop_bit 8 (GetMsgData (CHtCtrlMsg t (of_nat w OR push_bit 8 (of_nat k) OR push_bit 16 x)))) AND 255 = (of_nat k :: u32)"
    unfolding m GetMsgData_msg by (rule bit_word_eqI) (use assms in \<open>auto simp: bit_simps dest: b\<close>)
qed


text \<open>What the model has learnt from them.\<close>

lemma boot_configs:
  assumes p: "par_ok par mhz inBase outBase"
  shows "\<exists>i1 i2 o1 o2 o3 c. configs (map (\<lambda>(t, d). CHtCtrlMsg t d) (boot_msgs par mhz nf inBase outBase fb)) s =
    Some (s\<lparr>ep_rxBase := inBase, ep_rxOff := 0, ep_txBase := outBase, ep_txOff := 0,
      mu_inBlkSizeW := i1, mu_inBlkCntW := i2, ep_rxSize := 2 ^ par_iBlkSizeW par div 8, ep_rxMask := mask (par_iBlkCntW par),
      mu_outBlkSizeW := o1, mu_outBlkCntW := o2, mu_outBlkTimerClks := o3,
      ep_txSize := 2 ^ par_oBlkSizeW par div 8, ep_txMask := mask (par_oBlkCntW par), mu_ctlTimerClks := c\<rparr>)"
proof -
  have ad: "GetMsgData (CHtCtrlMsg t inBase) = inBase" "GetMsgData (CHtCtrlMsg t outBase) = outBase" for t
    using p by (simp_all add: par_ok_def GetMsgData_msg and_mask_id word_less_nat_alt)
  have lt: "par_iBlkSizeW par < 256" "par_iBlkCntW par < 256" "par_oBlkSizeW par < 256" "par_oBlkCntW par < 256"
    using p by (simp_all add: par_ok_def)
  note I = par_field [OF lt(1,2), of _ 0, simplified] and O = par_field [OF lt(3,4)]
  have nat: "unat (of_nat w :: u32) = w" if "w < 256" for w using that by (simp add: unat_of_nat)
  have sz: "2 ^ par_iBlkSizeW par div 8 = (2 :: nat) ^ (par_iBlkSizeW par - 3)" "2 ^ par_oBlkSizeW par div 8 = (2 :: nat) ^ (par_oBlkSizeW par - 3)"
    using p power_diff [of "2::nat" 3 "par_iBlkSizeW par"] power_diff [of "2::nat" 3 "par_oBlkSizeW par"] by (simp_all add: par_ok_def)
  have ms: "boot_msgs par mhz nf inBase outBase fb = [(HIF_CMD_IBLK_ADR, inBase), (HIF_CMD_OBLK_ADR, outBase),
      (HIF_CMD_IBLK_PARAM, of_nat (par_iBlkSizeW par) OR push_bit 8 (of_nat (par_iBlkCntW par))),
      (HIF_CMD_OBLK_PARAM, of_nat (par_oBlkSizeW par) OR push_bit 8 (of_nat (par_oBlkCntW par)) OR
         push_bit 16 (scast (par_oBlkTimerUSec par * mhz))), (HIF_CMD_CTL_PARAM, scast (par_ctlTimerUSec par * mhz))] @
      (if nf then [(HIF_CMD_OBLK_FLSH_ADR, fb)] else [])"
    by (simp add: boot_msgs_def hu_init_msgs_def Let_def filter_map comp_def)
  show ?thesis
    unfolding ms by (cases nf) (simp_all add: cmd_type mu_Config_def ad Let_def I O nat lt sz mask_eq_push_bit_minus_one, (intro exI, rule refl)+)
qed


definition rings_clear :: "'z endpoint_scheme \<Rightarrow> bool" where
  "rings_clear raw \<longleftrightarrow> (\<forall>i. \<not> IsValid (ep_txq raw i) \<and> \<not> IsValid (ep_rxq raw i))"

text \<open>Both constructors and the model's first poll.\<close>

definition hif_boot ::
  "hif_params \<Rightarrow> u32 \<Rightarrow> bool \<Rightarrow> u64 \<Rightarrow> u64 \<Rightarrow> u64 \<Rightarrow> (nat \<Rightarrow> ctrl_msg) \<Rightarrow> host_unit \<Rightarrow> (nat \<Rightarrow> ctrl_msg) \<Rightarrow> model_unit \<Rightarrow>
   (host_unit \<times> model_unit) option" where
  "hif_boot par mhz needFlush inBase outBase flushBase que raw mque mraw = do {
     h \<leftarrow> hu_new par mhz needFlush inBase outBase flushBase 0 que raw;
     (r, m) \<leftarrow> mu_RecvPoll no_cb True True True (see h (mu_new 0 mque mraw));
     Some (see m h, m)
   }"

lemma of_nat_mask: "of_nat (2 ^ w - 1) = (mask w :: 'a :: len word)"
  using of_nat_mask_eq [of w] by (simp add: mask_nat_def)

lemma blank_rings:
  assumes p: "par_ok par mhz inBase outBase" and clear: "rings_clear raw"
    and a: "a = hu_blank par inBase outBase unitId que raw" and b: "b = see a (mu_new 0 mque mraw)"
  shows "ring_ok a b" "ring_ok b a" "ctl_msgs a = []" "ctl_msgs b = []" "ring_size a = 512" "ring_size b = 512"
proof -
  have m: "ep_ctlQueMask a = mask 9" "ep_ctlQueMask b = mask 9"
    using p of_nat_mask [of 9] by (simp_all add: a b hu_blank_def mu_new_def par_ok_def MODEL_HIF_CTL_QUE_CNT_def)
  then show "ring_size a = 512" "ring_size b = 512" using ring_size_mask [of 9 b] ring_size_mask [of 9 a] by simp_all
  have q: "ep_rxq b = ep_txq a" "ep_rxq a = ep_txq b" by (simp_all add: b)
  have hb: "ring_holds n (ep_txq a) rd []" and ha: "ring_holds n (ep_txq b) rd []" for n rd
    using clear by (simp_all add: ring_holds_def rings_clear_def a b hu_blank_def)
  show c: "ctl_msgs a = []" "ctl_msgs b = []"
    by (rule ctl_msgsI, simp only: q ha) (rule ctl_msgsI, simp only: q hb)
  have i: "ep_ctlWrIdx a = 0" "ep_ctlRdIdx a = 0" "ep_ctlWrIdx b = 0" "ep_ctlRdIdx b = 0"
    by (simp_all add: a b hu_blank_def mu_new_def)
  have "\<exists>w \<le> 31. mask 9 = (mask w :: u32)" by (intro exI [of _ 9]) simp
  then show "ring_ok a b" "ring_ok b a" by (simp_all add: ring_ok_def c i ha hb q m)
qed

text \<open>The constructor of any unit gets through.\<close>

lemma hu_new_runs:
  assumes p: "par_ok par mhz inBase outBase" and clear: "rings_clear raw"
  shows "\<exists>h. hu_new par mhz nf inBase outBase fb unitId que raw = Some h \<and> hu_unitId h = unitId \<and> \<not> hu_bFree h \<and> \<not> ep_lock h"
proof -
  let ?a = "hu_blank par inBase outBase unitId que raw"
  let ?b = "see ?a (mu_new 0 (\<lambda>_. undefined) undefined)"
  let ?ms = "hu_init_msgs par mhz nf inBase outBase fb"
  have B: "ring_ok ?a ?b" "ring_ok ?b ?a" "ctl_msgs ?a = []" "ctl_msgs ?b = []" "ring_size ?a = 512" "ring_size ?b = 512"
    by (rule blank_rings [OF p clear refl refl])+
  have lk: "ep_lock ?a" and hp: "ep_heap ?b = ep_heap ?a" by (simp_all add: hu_blank_def)
  have "length (ctl_msgs ?b) + length ?ms \<le> ring_size ?b" using init_length [OF p, of nf fb] B by simp
  from SendMsgs_run [OF B(1,2) lk this hp] obtain w q where "ep_SendMsgs ?ms ?a = Some (?a\<lparr>ep_ctlWrIdx := w, ep_txq := q\<rparr>)" by auto
  then show ?thesis by (simp add: hu_new_alt [OF p]) (simp add: hu_blank_def)
qed

lemma boot_run:
  assumes p: "par_ok par mhz inBase outBase" and clear: "rings_clear raw"
  shows "\<exists>h m. hif_boot par mhz nf inBase outBase fb que raw mque mraw = Some (h, m) \<and>
    host_ok (in_dir par inBase) (out_dir par outBase) h m \<and> model_ok (out_dir par outBase) (in_dir par inBase) m h \<and>
    pend (in_dir par inBase) h m = [] \<and> pend (out_dir par outBase) m h = [] \<and> \<not> mu_bHaltSeen m \<and>
    ring_size h = 512 \<and> ring_size m = 512 \<and>
    ep_txAvail h = 2 ^ par_iBlkCntW par \<and> ep_txAvail m = 2 ^ par_oBlkCntW par"
proof -
  let ?a = "hu_blank par inBase outBase 0 que raw"
  let ?b = "see ?a (mu_new 0 mque mraw)"
  let ?ms = "hu_init_msgs par mhz nf inBase outBase fb"
  have B: "ring_ok ?a ?b" "ring_ok ?b ?a" "ctl_msgs ?a = []" "ctl_msgs ?b = []" "ring_size ?a = 512" "ring_size ?b = 512"
    by (rule blank_rings [OF p clear refl refl])+
  have lk: "ep_lock ?a" and hp: "ep_heap ?b = ep_heap ?a" by (simp_all add: hu_blank_def)
  have "length (ctl_msgs ?b) + length ?ms \<le> ring_size ?b" using init_length [OF p, of nf fb] B by simp
  from SendMsgs_run [OF B(1,2) lk this hp] obtain x w q where x: "ep_SendMsgs ?ms ?a = Some x" "ring_ok x (see x ?b)" "ring_ok (see x ?b) x"
    "ctl_msgs (see x ?b) = map (\<lambda>(t, d). CHtCtrlMsg t d) ?ms" "ctl_msgs x = []" "x = ?a\<lparr>ep_ctlWrIdx := w, ep_txq := q\<rparr>"
    using B(3,4) by auto
  let ?h = "x\<lparr>ep_lock := False\<rparr>"
  have new: "hu_new par mhz nf inBase outBase fb 0 que raw = Some ?h" using x(1) by (simp add: hu_new_alt [OF p])
  let ?m0 = "see ?h (mu_new 0 mque mraw)"
  have m0: "?m0 = see x ?b" by (simp add: see_def)
  have q0: "ep_msgQue ?m0 = cq_new mque 512" by (simp add: mu_new_def MODEL_HIF_CTL_QUE_CNT_def)
  have qok: "que_ok (ep_msgQue ?m0)" "cq_entries (ep_msgQue ?m0) = []" "cq_cap (ep_msgQue ?m0) = 511"
    using cq_new_inv [of 512 mque] unfolding q0 que_ok_def by (simp_all add: cq_cap_def cq_new_def)
  have r0: "ring_ok ?h ?m0" "ring_ok ?m0 ?h" "ctl_msgs ?m0 = map (\<lambda>(t, d). CHtCtrlMsg t d) ?ms" "ctl_msgs ?h = []"
    using x(2-5) unfolding m0 by (simp_all add: ring_ok_def ctl_msgs_def ring_size_def)
  have "length (cq_entries (ep_msgQue ?m0)) + length (ctl_msgs ?m0) \<le> cq_cap (ep_msgQue ?m0)"
    using qok(2,3) r0(3) init_length [OF p, of nf fb] by simp
  from QueMsgs_all [OF r0(1,2) _ qok(1) this, of HIF_CMD_OBLK_AVL] obtain i y u m1 where m1:
    "ep_QueMsgs HIF_CMD_OBLK_AVL ?m0 = Some m1" "ring_ok (see m1 ?h) m1" "ring_ok m1 (see m1 ?h)" "ctl_msgs m1 = []"
    "ctl_msgs (see m1 ?h) = []" "que_ok u" "cq_entries u = map (\<lambda>(t, d). CHtCtrlMsg t d) (boot_msgs par mhz nf inBase outBase fb)"
    "m1 = ?m0\<lparr>ep_ctlRdIdx := i, ep_rxq := y, ep_msgQue := u, ep_txAvail := 2 ^ par_oBlkCntW par\<rparr>"
    unfolding r0(3,4) boot_filter boot_count qok(2) by (auto simp: mu_new_def)
  from boot_configs [OF p, of nf fb m1] obtain i1 i2 o1 o2 o3 c where cf:
    "configs (map (\<lambda>(t, d). CHtCtrlMsg t d) (boot_msgs par mhz nf inBase outBase fb)) m1 =
      Some (m1\<lparr>ep_rxBase := inBase, ep_rxOff := 0, ep_txBase := outBase, ep_txOff := 0,
      mu_inBlkSizeW := i1, mu_inBlkCntW := i2, ep_rxSize := 2 ^ par_iBlkSizeW par div 8, ep_rxMask := mask (par_iBlkCntW par),
      mu_outBlkSizeW := o1, mu_outBlkCntW := o2, mu_outBlkTimerClks := o3,
      ep_txSize := 2 ^ par_oBlkSizeW par div 8, ep_txMask := mask (par_oBlkCntW par), mu_ctlTimerClks := c\<rparr>)" (is "_ = Some ?cfg") by blast
  have "que_ok (ep_msgQue m1)" "cq_entries (ep_msgQue m1) = map (\<lambda>(t, d). CHtCtrlMsg t d) (boot_msgs par mhz nf inBase outBase fb)"
    using m1(6-8) by simp_all
  from scan_configs [OF this cf, of no_cb True True True] obtain v l where v:
    "mu_MsgScan no_cb True True True m1 = Some (eRecvIdle, ?cfg\<lparr>ep_msgQue := v, ep_loopCnt := l\<rparr>)" "que_ok v" "cq_entries v = []" by blast
  let ?m2 = "?cfg\<lparr>ep_msgQue := v, ep_loopCnt := l\<rparr>"
  let ?h2 = "see ?m2 ?h" and ?D = "in_dir par inBase" and ?E = "out_dir par outBase"
  have "mu_RecvPoll no_cb True True True ?m0 = Some (eRecvIdle, ?m2)"
    using m1(1) v(1) by (simp add: mu_RecvPoll_def mu_MsgLoop_def mu_QueInMsgs_def) (simp add: mu_new_def)
  then have boot: "hif_boot par mhz nf inBase outBase fb que raw mque mraw = Some (?h2, ?m2)"
    by (simp add: hif_boot_def new)
  have h2: "?h2 = see m1 ?h" by (simp add: see_def)
  have c2: "ctl_msgs ?m2 = []" "ctl_msgs ?h2 = []" using m1(4,5) unfolding h2 by (simp_all add: ctl_msgs_def ring_size_def)
  have r2: "ring_ok ?h2 ?m2" "ring_ok ?m2 ?h2"
    unfolding h2 by (rule ring_ok_cong [OF m1(2)] ring_ok_cong [OF m1(3)]; simp)+
  note b = par_ok_def [of par mhz inBase outBase, THEN iffD1, OF p]
  have sz: "0 < (2::nat) ^ par_iBlkSizeW par div 8" "0 < (2::nat) ^ par_oBlkSizeW par div 8"
    "(2::nat) ^ par_iBlkSizeW par div 8 \<le> 2 ^ 22" "(2::nat) ^ par_oBlkSizeW par div 8 \<le> 2 ^ 22"
    using b by (intro blk_size; simp)+
  have co: "codes_ok ?D ?E" "codes_ok ?E ?D"
    using b sz by (auto simp: codes_ok_def in_dir_def out_dir_def)
  have hq: "que_ok (ep_msgQue ?h2)" "cq_entries (ep_msgQue ?h2) = []"
    using cq_new_inv [of 512 que] b by (simp_all add: x(6) hu_blank_def que_ok_def cq_cap_def cq_new_def)
  define H where "H = ?h2"
  define M where "M = ?m2"
  note c2 = c2 [folded H_def M_def] and r2 = r2 [folded H_def M_def] and hq = hq [folded H_def]
  have qM: "que_ok (ep_msgQue M)" "cq_entries (ep_msgQue M) = []" using v(2,3) by (simp_all add: M_def)
  have fl: "flight H = []" "flight M = []" using c2 hq qM by (simp_all add: flight_def del: length_cq_entries)
  have fH: "ep_txMask H = mask (par_iBlkCntW par)" "ep_rxMask H = mask (par_oBlkCntW par)" "ep_txSize H = 2 ^ par_iBlkSizeW par div 8"
    "ep_rxSize H = 2 ^ par_oBlkSizeW par div 8" "ep_txBase H = inBase" "ep_rxBase H = outBase" "ep_txOff H = 0" "ep_rxOff H = 0"
    "ep_txBlkIdx H = 0" "ep_rxBlkIdx H = 0" "ep_txAvail H = 2 ^ par_iBlkCntW par" "ep_txWrIdx H = 0" "ep_rxDataSize H = 0"
    "ep_rxRdIdx H = 0" "\<not> ep_lock H" "hu_recvRtnArgc H = 0"
    unfolding H_def by (simp_all only: x(6) hu_blank_def see_simps see_unit of_nat_mask) simp_all
  have fM: "ep_txMask M = mask (par_oBlkCntW par)" "ep_rxMask M = mask (par_iBlkCntW par)" "ep_txSize M = 2 ^ par_oBlkSizeW par div 8"
    "ep_rxSize M = 2 ^ par_iBlkSizeW par div 8" "ep_txBase M = outBase" "ep_rxBase M = inBase" "ep_txOff M = 0" "ep_rxOff M = 0"
    "ep_txBlkIdx M = 0" "ep_rxBlkIdx M = 0" "ep_txAvail M = 2 ^ par_oBlkCntW par" "ep_txWrIdx M = 0" "ep_rxDataSize M = 0"
    "ep_rxRdIdx M = 0" "\<not> ep_lock M" "\<not> mu_bUsingCallback M" "\<not> mu_bHaltSeen M"
    by (simp_all add: M_def m1(8)) (simp_all add: mu_new_def)
  have fD: "d_cw ?D = par_iBlkCntW par" "d_sz ?D = 2 ^ par_iBlkSizeW par div 8" "d_base ?D = inBase"
    "d_cw ?E = par_oBlkCntW par" "d_sz ?E = 2 ^ par_oBlkSizeW par div 8" "d_base ?E = outBase"
    by (simp_all add: in_dir_def out_dir_def)
  have "chan ?D ?E H M" "chan ?E ?D M H"
    using r2 qM hq c2 by (simp_all add: chan_def geo_def credit_def fl cursor_def fH fM fD del: length_cq_entries)
  moreover have "ep_heap M = ep_heap H" by (simp add: H_def M_def)
  ultimately have l: "link ?D ?E H M" "link ?E ?D M H" using co by (simp_all add: link_def)
  have "host_ok ?D ?E H M" "model_ok ?E ?D M H"
    using l sz by (simp_all add: host_ok_def host_dirs_def model_ok_def model_dirs_def fH fM fD) (simp_all add: in_dir_def out_dir_def)
  moreover have "pend ?D H M = []" "pend ?E M H = []"
    by (simp_all add: pend_def arrived_def fl staged_def fH fM heap_load_def)
  moreover have "ring_size H = 512" "ring_size M = 512" using B(5,6) by (simp_all add: ring_size_def x(6) m1(8) H_def M_def)
  ultimately show ?thesis using boot [folded H_def M_def] fM(11,17) fH(11) by blast
qed

text \<open>
  C6: After the host's constructor, the model's constructor and the model's first poll the two sides are linked: the model has
  learnt the block sizes, counts and addresses the host chose, every block is free at its sender, nothing is
  pending in either direction, and no lock is held. The control queues have the default width 9, the only one the model end has, the other
  parameters and the timers are in range, the block memories lie below 2^56 and apart, and the rings hold no valid message, as the cleared memory does;
  the other members that the constructors leave and the data blocks are arbitrary.
\<close>

theorem boot_links:
  assumes "par_ok par mhz inBase outBase" "rings_clear raw"
  shows "\<exists>h m. hif_boot par mhz nf inBase outBase fb que raw mque mraw = Some (h, m) \<and>
    host_ok (in_dir par inBase) (out_dir par outBase) h m \<and> model_ok (out_dir par outBase) (in_dir par inBase) m h \<and>
    ep_txAvail h = 2 ^ par_iBlkCntW par \<and> ep_txAvail m = 2 ^ par_oBlkCntW par \<and>
    pend (in_dir par inBase) h m = [] \<and> pend (out_dir par outBase) m h = []"
  using boot_run [OF assms, of nf fb que mque mraw] by blast

text \<open>Zeroed units, as instances of uninitialised ones.\<close>

definition zero_host :: host_unit where
  "zero_host = \<lparr>ep_lock = False, ep_ctlQueMask = 0, ep_ctlWrIdx = 0, ep_ctlRdIdx = 0, ep_msgQue = cq_new (\<lambda>_. 0) 2, ep_loopCnt = 0,
     ep_txAvail = 0, ep_txWrIdx = 0, ep_txBlkIdx = 0, ep_txSize = 0, ep_txMask = 0, ep_txBase = 0, ep_txOff = 0,
     ep_rxDataSize = 0, ep_rxRdIdx = 0, ep_rxBlkIdx = 0, ep_rxSize = 0, ep_rxMask = 0, ep_rxBase = 0, ep_rxOff = 0,
     ep_txq = (\<lambda>_. 0), ep_rxq = (\<lambda>_. 0), ep_heap = (\<lambda>_ _. 0),
     hu_unitId = 0, hu_bUsingCallback = False, hu_bFree = False, hu_recvRtnArgc = 0, hu_monitor = mon_Clear\<rparr>"

definition zero_model :: model_unit where
  "zero_model = \<lparr>ep_lock = False, ep_ctlQueMask = 0, ep_ctlWrIdx = 0, ep_ctlRdIdx = 0, ep_msgQue = cq_new (\<lambda>_. 0) 2, ep_loopCnt = 0,
     ep_txAvail = 0, ep_txWrIdx = 0, ep_txBlkIdx = 0, ep_txSize = 0, ep_txMask = 0, ep_txBase = 0, ep_txOff = 0,
     ep_rxDataSize = 0, ep_rxRdIdx = 0, ep_rxBlkIdx = 0, ep_rxSize = 0, ep_rxMask = 0, ep_rxBase = 0, ep_rxOff = 0,
     ep_txq = (\<lambda>_. 0), ep_rxq = (\<lambda>_. 0), ep_heap = (\<lambda>_ _. 0),
     mu_unitId = 0, mu_bUsingCallback = False, mu_bFree = False, mu_bHaltSeen = False, mu_inBlkSizeW = 0, mu_inBlkCntW = 0,
     mu_outBlkSizeW = 0, mu_outBlkCntW = 0, mu_outBlkTimerClks = 0, mu_ctlTimerClks = 0\<rparr>"

text \<open>The default parameters, at 100 MHz.\<close>

lemma default_par_ok: "par_ok CHtHifParams 100 4096 8192"
  by (simp add: par_ok_def CHtHifParams_def)

lemma zero_clear: "rings_clear zero_host"
  by (simp add: rings_clear_def zero_host_def)

theorem boot_links_witness:
  "\<exists>h m. hif_boot CHtHifParams 100 False 4096 8192 0 (\<lambda>_. 0) zero_host (\<lambda>_. 0) zero_model = Some (h, m) \<and>
    host_ok (in_dir CHtHifParams 4096) (out_dir CHtHifParams 8192) h m"
  using boot_links [OF default_par_ok zero_clear] by blast

end
