(* ===== verification/HifSystem.thy ===== *)
theory HifSystem
  imports HifBoot
begin

text \<open>
  Host and coprocessor model as one system: applications on both sides make calls in any order,
  each call runs to completion under its unit's lock, and what a call reports as sent or received
  is logged. The states a booted system can reach keep the link, deliver what is sent exactly once
  and in order, and never leave an admissible call stuck.
\<close>

section \<open>Calls and what they report\<close>

datatype host_call = HSendMsg u8 u64 | HSendData "u64 list" | HSendMarker | HSendHalt | HSendCall "u64 list"
  | HFlush | HTimer | HPoll | HRecvMsg | HRecvData nat | HPeek | HRecvMarker | HRecvReturn nat

datatype model_call = MSendMsg u8 u64 | MSendData "u64 list" | MSendMarker | MSendHalt | MSendReturn "u64 list"
  | MFlush | MTimer | MPoll | MRecvMsg | MRecvData nat | MPeek | MRecvMarker | MRecvCall nat

text \<open>
  The events a call's result tells the application: sent and received. A message carries 56 bits
  of its data. The halt is not among them: a receive call may meet it and report nothing.
\<close>

definition got_msg :: "(u8 \<times> u64) option \<Rightarrow> event list" where
  "got_msg res = (case res of Some (t, d) \<Rightarrow> [EMsg t d] | None \<Rightarrow> [])"

definition got_call :: "u64 list option \<Rightarrow> event list" where
  "got_call res = (case res of Some argv \<Rightarrow> ECall (length argv) # map EData argv | None \<Rightarrow> [])"

fun host_exec :: "host_call \<Rightarrow> host_unit \<Rightarrow> (event list \<times> event list \<times> host_unit) option" where
  "host_exec (HSendMsg t d) s = do { s \<leftarrow> hu_SendHostMsg t d s; Some ([EMsg t (d AND mask 56)], [], s) }"
| "host_exec (HSendData data) s = do { (n, s) \<leftarrow> hu_SendHostData data s; Some (map EData (take n data), [], s) }"
| "host_exec HSendMarker s = do { (ok, s) \<leftarrow> hu_SendHostDataMarker s; Some (if ok then [EMark] else [], [], s) }"
| "host_exec HSendHalt s = do { (ok, s) \<leftarrow> hu_SendHostHalt s; Some ([], [], s) }"
| "host_exec (HSendCall argv) s = do { (ok, s) \<leftarrow> hu_SendCall argv s; Some (if ok then got_call (Some argv) else [], [], s) }"
| "host_exec HFlush s = do { s \<leftarrow> hu_FlushHostData s; Some ([], [], s) }"
| "host_exec HTimer s = do { s \<leftarrow> hu_InBlkTimer s; Some ([], [], s) }"
| "host_exec HPoll s = do { (r, s) \<leftarrow> hu_RecvPoll no_cb False s; Some ([], [], s) }"
| "host_exec HRecvMsg s = do { (res, s) \<leftarrow> hu_RecvHostMsg s; Some ([], got_msg res, s) }"
| "host_exec (HRecvData n) s = do { (data, s) \<leftarrow> hu_RecvHostData n s; Some ([], map EData data, s) }"
| "host_exec HPeek s = do { (res, s) \<leftarrow> hu_PeekHostData s; Some ([], [], s) }"
| "host_exec HRecvMarker s = do { (ok, s) \<leftarrow> hu_RecvHostDataMarker s; Some ([], if ok then [EMark] else [], s) }"
| "host_exec (HRecvReturn argc) s = do { (res, s) \<leftarrow> hu_RecvReturn argc s; Some ([], got_call res, s) }"

fun model_exec :: "model_call \<Rightarrow> model_unit \<Rightarrow> (event list \<times> event list \<times> model_unit) option" where
  "model_exec (MSendMsg t d) s = do { s \<leftarrow> mu_SendHostMsg t d s; Some ([EMsg t (d AND mask 56)], [], s) }"
| "model_exec (MSendData data) s = do { (n, s) \<leftarrow> mu_SendHostData data s; Some (map EData (take n data), [], s) }"
| "model_exec MSendMarker s = do { (ok, s) \<leftarrow> mu_SendHostDataMarker s; Some (if ok then [EMark] else [], [], s) }"
| "model_exec MSendHalt s = do { (ok, s) \<leftarrow> mu_SendHostHalt s; Some ([], [], s) }"
| "model_exec (MSendReturn argv) s = do { (ok, s) \<leftarrow> mu_SendReturn argv s; Some (if ok then got_call (Some argv) else [], [], s) }"
| "model_exec MFlush s = do { s \<leftarrow> mu_FlushHostData s; Some ([], [], s) }"
| "model_exec MTimer s = do { s \<leftarrow> mu_OutBlkTimer s; Some ([], [], s) }"
| "model_exec MPoll s = do { (r, s) \<leftarrow> mu_RecvPoll no_cb True True True s; Some ([], [], s) }"
| "model_exec MRecvMsg s = do { (res, s) \<leftarrow> mu_RecvHostMsg no_cb s; Some ([], got_msg res, s) }"
| "model_exec (MRecvData n) s = do { (data, s) \<leftarrow> mu_RecvHostData no_cb n s; Some ([], map EData data, s) }"
| "model_exec MPeek s = do { (res, s) \<leftarrow> mu_PeekHostData no_cb s; Some ([], [], s) }"
| "model_exec MRecvMarker s = do { (ok, s) \<leftarrow> mu_RecvHostDataMarker no_cb s; Some ([], if ok then [EMark] else [], s) }"
| "model_exec (MRecvCall argc) s = do { (res, s) \<leftarrow> mu_RecvCall no_cb argc s; Some ([], got_call res, s) }"

section \<open>The room for messages\<close>

text \<open>
  The user messages sent and not yet received, with those still to come, leave the ring room for
  every block's announcement.
\<close>

definition msgs_in :: "event list \<Rightarrow> nat" where
  "msgs_in xs = length (filter is_msg xs)"

lemma msgs_in_simps [simp]:
  "msgs_in [] = 0" "msgs_in (x # xs) = of_bool (is_msg x) + msgs_in xs" "msgs_in (xs @ ys) = msgs_in xs + msgs_in ys"
  "msgs_in (map EData ws) = 0"
  by (simp_all add: msgs_in_def)

definition window :: "direction \<Rightarrow> direction \<Rightarrow> nat \<Rightarrow> 'y endpoint_scheme \<Rightarrow> 'z endpoint_scheme \<Rightarrow> bool" where
  "window D E n a b \<longleftrightarrow> msgs_in (pend D a b) + n + 2 ^ d_cw D + 2 ^ d_cw E \<le> ring_size b"

lemma decode_msgs:
  assumes "wf_msgs D E ms" "codes_ok D E"
  shows "length (filter (\<lambda>m. 16 \<le> GetMsgType m) ms) = msgs_in (decode (d_rdy D) blk k ms)"
  using assms(1)
proof (induction ms arbitrary: k)
  case (Cons m ms)
  have "msgs_in (blk_events d w) = 0" for d w by (simp add: blk_events_def)
  moreover have "GetMsgType m = d_rdy D \<Longrightarrow> \<not> 16 \<le> GetMsgType m" using codes_lt(1) [OF assms(2)] by auto
  ultimately show ?case using Cons by auto
qed simp

lemma arrived_msgs:
  assumes l: "link D E a b"
  shows "users b \<le> msgs_in (arrived D b)"
proof -
  have co: "codes_ok D E" and wf: "wf_msgs D E (flight b)" and cu: "cursor D (cq_entries (ep_msgQue b)) (ep_rxRdIdx b) (ep_rxDataSize b)"
    using l by (simp_all add: link_def chan_def)
  let ?d = "decode (d_rdy D) (blk_words D (ep_heap b)) (unat (ep_rxBlkIdx b)) (flight b)"
  have "msgs_in (take (ep_rxRdIdx b) ?d) = 0"
  proof (cases "ep_rxDataSize b = 0")
    case True
    then show ?thesis using cu by (simp add: cursor_def)
  next
    case False
    then obtain ms where "cq_entries (ep_msgQue b) = blk_msg (d_rdy D) (ep_rxRdIdx b + ep_rxDataSize b) 0 # ms"
      "ep_rxRdIdx b + ep_rxDataSize b \<le> d_sz D" using cu by (auto simp: cursor_def)
    then have "?d = map EData (blk_words D (ep_heap b) (unat (ep_rxBlkIdx b)) (ep_rxRdIdx b + ep_rxDataSize b)) @
        decode (d_rdy D) (blk_words D (ep_heap b)) (Suc (unat (ep_rxBlkIdx b))) (ms @ ctl_msgs b)"
      using decode_data [OF co] by (simp add: flight_def)
    then show ?thesis by (simp add: blk_words_def take_map)
  qed
  moreover have "msgs_in ?d = msgs_in (take (ep_rxRdIdx b) ?d) + msgs_in (drop (ep_rxRdIdx b) ?d)"
    by (metis msgs_in_simps(3) append_take_drop_id)
  ultimately have "msgs_in (arrived D b) = length (filter (\<lambda>m. 16 \<le> GetMsgType m) (flight b))"
    using decode_msgs [OF wf co] by (simp add: arrived_def)
  then show ?thesis by (simp add: flight_def users_def)
qed

lemma window_roomy: "link D E a b \<Longrightarrow> window D E n a b \<Longrightarrow> roomy D E n b"
  using arrived_msgs [of D E a b] by (simp add: window_def roomy_def pend_def)


section \<open>One call\<close>

definition payload :: "event list \<Rightarrow> event list" where
  "payload xs = filter (\<lambda>e. e \<noteq> EHalt) xs"

lemma payload_simps [simp]:
  "payload [] = []" "payload (xs @ ys) = payload xs @ payload ys" "payload (map EData ws) = map EData ws"
  "payload (EHalt # xs) = payload xs" "e \<noteq> EHalt \<Longrightarrow> payload (e # xs) = e # payload xs" "payload (echo ys) = []"
  by (simp_all add: payload_def echo_def)

lemma payload_quiet [simp]: "quiet ys \<Longrightarrow> payload ys = []"
  by (auto simp: quiet_def)

lemma payload_ctl [simp]: "payload (ctl_events HIF_DQ_NULL) = [EMark]" "payload (ctl_events HIF_DQ_HALT) = []"
  by (simp_all add: ctl_events_def)

lemma msgs_ctl [simp]: "msgs_in (ctl_events HIF_DQ_NULL) = 0" "msgs_in (ctl_events HIF_DQ_HALT) = 0" "msgs_in (echo ys) = 0"
  by (simp_all add: ctl_events_def msgs_in_def)

text \<open>
  What the application owes: user message types are 16 to 127 and leave room, a call's arguments
  fit in a block, and a receive buffer for arguments has the size of the arguments it gets.
\<close>

definition argc_ok :: "nat \<Rightarrow> event list \<Rightarrow> bool" where
  "argc_ok argc es = (case es of ECall n # _ \<Rightarrow> n = 0 \<or> n = argc | _ \<Rightarrow> True)"

fun host_adm :: "direction \<Rightarrow> direction \<Rightarrow> host_call \<Rightarrow> host_unit \<Rightarrow> model_unit \<Rightarrow> bool" where
  "host_adm D E (HSendMsg t d) h m \<longleftrightarrow> 16 \<le> t \<and> t < 128 \<and> window D E 1 h m"
| "host_adm D E (HSendCall argv) h m \<longleftrightarrow> length argv < d_sz D"
| "host_adm D E (HRecvReturn argc) h m \<longleftrightarrow> argc_ok argc (pend E m h)"
| "host_adm D E _ h m \<longleftrightarrow> True"

fun model_receives :: "model_call \<Rightarrow> bool" where
  "model_receives (MRecvCall n) = True"
| "model_receives (MRecvData n) = True"
| "model_receives c = (c = MPoll \<or> c = MRecvMsg \<or> c = MPeek \<or> c = MRecvMarker)"

text \<open>The model's receive calls answer a halt, which needs two free blocks.\<close>

fun model_adm :: "direction \<Rightarrow> direction \<Rightarrow> model_call \<Rightarrow> host_unit \<Rightarrow> model_unit \<Rightarrow> bool" where
  "model_adm D E (MSendMsg t d) h m \<longleftrightarrow> 16 \<le> t \<and> t < 128 \<and> window E D 1 m h"
| "model_adm D E (MSendReturn argv) h m \<longleftrightarrow> length argv < d_sz E"
| "model_adm D E (MRecvCall argc) h m \<longleftrightarrow> argc_ok argc (pend D h m) \<and> can_reply D m h"
| "model_adm D E c h m \<longleftrightarrow> (model_receives c \<longrightarrow> can_reply D m h)"

lemma argc_bound: "argc_ok argc es \<Longrightarrow> es = ECall n # zs \<Longrightarrow> n \<le> argc"
  by (auto simp: argc_ok_def)

lemma got_call_payload:
  assumes "case res of Some argv \<Rightarrow> \<exists>n \<le> argc. ys = ECall n # map EData (take n argv) \<and> (0 < n \<longrightarrow> length argv = argc) \<and> (n = 0 \<longrightarrow> argv = [])
     | None \<Rightarrow> quiet ys"
    and "argc_ok argc (ys @ zs)"
  shows "payload ys = got_call res"
  using assms by (cases res) (auto simp: got_call_def argc_ok_def)

lemma host_exec_run:
  assumes h: "host_ok D E h m" and w: "window D E 0 h m" and adm: "host_adm D E c h m"
  shows "\<exists>us vs h'. host_exec c h = Some (payload us, payload vs, h') \<and> host_step D E h m h' us vs \<and>
    (msgs_in us = 0 \<or> window D E (msgs_in us) h m)"
proof -
  have rm: "roomy D E 0 m" using window_roomy [OF host_link [OF h] w] .
  have ctl: ?thesis if "c = HSendMarker \<and> k = HIF_DQ_NULL \<or> c = HSendHalt \<and> k = HIF_DQ_HALT" for k
  proof -
    from host_SendCtl [OF h rm, of k] that obtain ok h' where
      "ep_SendCtl HIF_CMD_IBLK_RDY HIF_CMD_IBLK_AVL k h = Some (ok, h')"
      "host_step D E h m h' (if ok then ctl_events k else []) []" by blast
    then show ?thesis using that
      by (intro exI [of _ "if ok then ctl_events k else []"] exI [of _ "[]"] exI [of _ h'])
        (auto simp: hu_SendHostHalt_def hu_SendHostDataMarker_def)
  qed
  show ?thesis
  proof (cases c)
    case (HSendMsg t d)
    then have rm1: "roomy D E (Suc 0) m" and t: "16 \<le> t" "t < 128" and w1: "window D E 1 h m"
      using adm window_roomy [OF host_link [OF h], of 1] by simp_all
    from host_SendHostMsg [OF h rm1 t, of d] obtain h' where "hu_SendHostMsg t d h = Some h'"
      "host_step D E h m h' [EMsg t (d AND mask 56)] []" by blast
    then show ?thesis using w1 HSendMsg
      by (intro exI [of _ "[EMsg t (d AND mask 56)]"] exI [of _ "[]"] exI [of _ h']) simp
  next
    case (HSendData data)
    from host_SendHostData [OF h rm, of data] obtain n h' where "hu_SendHostData data h = Some (n, h')"
      "host_step D E h m h' (map EData (take n data)) []" by blast
    then show ?thesis using HSendData by (intro exI [of _ "map EData (take n data)"] exI [of _ "[]"] exI [of _ h']) simp
  next
    case (HSendCall argv)
    with host_SendCall [OF h rm, of argv] adm obtain ok h' where "hu_SendCall argv h = Some (ok, h')"
      "host_step D E h m h' (if ok then ECall (length argv) # map EData argv else []) []" by auto
    then show ?thesis using HSendCall
      by (intro exI [of _ "if ok then ECall (length argv) # map EData argv else []"] exI [of _ "[]"] exI [of _ h'])
        (simp add: got_call_def)
  next
    case HFlush
    with host_Timer [OF h rm] show ?thesis
      by (intro exI [of _ "[]"]) fastforce
  next
    case HTimer
    with host_Timer [OF h rm] show ?thesis
      by (intro exI [of _ "[]"]) fastforce
  next
    case HPoll
    from host_poll [OF h rm] obtain r h' ys where "hu_Poll h = Some (r, h')" "host_step D E h m h' [] ys" "quiet ys"
      using poll_quiet by blast
    then show ?thesis using HPoll by (intro exI [of _ "[]"] exI [of _ ys] exI [of _ h']) (simp add: hu_RecvPoll_def)
  next
    case HRecvMsg
    from host_RecvHostMsg [OF h rm] obtain res h' ys where "hu_RecvHostMsg h = Some (res, h')" "host_step D E h m h' [] ys"
      "case res of Some (t, d) \<Rightarrow> ys = [EMsg t d] | None \<Rightarrow> quiet ys" by blast
    then show ?thesis using HRecvMsg
      by (intro exI [of _ "[]"] exI [of _ ys] exI [of _ h']) (auto simp: got_msg_def split: option.splits)
  next
    case (HRecvData n)
    from host_RecvHostData [OF h rm, of n] obtain ws h' ys where "hu_RecvHostData n h = Some (ws, h')"
      "host_step D E h m h' [] (map EData ws @ ys)" "quiet ys" by blast
    then show ?thesis using HRecvData by (intro exI [of _ "[]"] exI [of _ "map EData ws @ ys"] exI [of _ h']) simp
  next
    case HPeek
    from host_PeekHostData [OF h rm] obtain res h' ys where "hu_PeekHostData h = Some (res, h')" "host_step D E h m h' [] ys"
      "quiet ys" by (auto simp: quiet_def split: option.splits)
    then show ?thesis using HPeek by (intro exI [of _ "[]"] exI [of _ ys] exI [of _ h']) simp
  next
    case HRecvMarker
    from host_RecvHostDataMarker [OF h rm] obtain ok h' ys where "hu_RecvHostDataMarker h = Some (ok, h')"
      "host_step D E h m h' [] ys" "if ok then ys = [EMark] else quiet ys" by blast
    then show ?thesis using HRecvMarker by (intro exI [of _ "[]"] exI [of _ ys] exI [of _ h']) (simp split: if_splits)
  next
    case (HRecvReturn argc)
    then have ok: "argc_ok argc (pend E m h)" using adm by simp
    have b: "n \<le> argc" if "pend E m h = ECall n # zs" for n zs using argc_bound [OF ok that] .
    from host_RecvReturn [OF h rm, of argc] b obtain res h' ys where r: "hu_RecvReturn argc h = Some (res, h')"
      "host_step D E h m h' [] ys" and y: "case res of Some argv \<Rightarrow> \<exists>n \<le> argc. ys = ECall n # map EData (take n argv) \<and>
        (0 < n \<longrightarrow> length argv = argc) \<and> (n = 0 \<longrightarrow> argv = []) | None \<Rightarrow> quiet ys" by blast
    have "pend E m h = ys @ pend E (see h' m) h'" using r(2) by (simp add: host_step_def acts_def moves_def)
    then have "payload ys = got_call res" using got_call_payload [OF y] ok by simp
    then show ?thesis using HRecvReturn r by (intro exI [of _ "[]"] exI [of _ ys] exI [of _ h']) simp
  qed (use ctl in blast)+
qed

text \<open>The model's calls; those that receive send a halt back for one received.\<close>

lemma model_exec_run:
  assumes h: "model_ok E D m h" and w: "window E D 0 m h" and adm: "model_adm D E c h m"
  shows "\<exists>us vs m'. model_exec c m = Some (payload us, payload vs, m') \<and> model_step E D m h m' us vs \<and>
    (msgs_in us = 0 \<or> window E D (msgs_in us) m h)"
proof -
  have rm: "roomy E D 0 h" using window_roomy [OF model_link [OF h] w] .
  have ctl: ?thesis if "c = MSendMarker \<and> k = HIF_DQ_NULL \<or> c = MSendHalt \<and> k = HIF_DQ_HALT" for k
  proof -
    from model_SendCtl [OF h rm, of k] that obtain ok m' where
      "ep_SendCtl HIF_CMD_OBLK_RDY HIF_CMD_OBLK_AVL k m = Some (ok, m')"
      "model_step E D m h m' (if ok then ctl_events k else []) []" by blast
    then show ?thesis using that
      by (intro exI [of _ "if ok then ctl_events k else []"] exI [of _ "[]"] exI [of _ m'])
        (auto simp: mu_SendHostHalt_def mu_SendHostDataMarker_def)
  qed
  have rcv: ?thesis if "model_exec c m = Some ([], payload vs, m')" "model_step E D m h m' (echo ys) vs" for vs m' ys
    using that by (intro exI [of _ "echo ys"] exI [of _ vs] exI [of _ m']) simp
  show ?thesis
  proof (cases c)
    case (MSendMsg t d)
    then have rm1: "roomy E D (Suc 0) h" and t: "16 \<le> t" "t < 128" and w1: "window E D 1 m h"
      using adm window_roomy [OF model_link [OF h], of 1] by simp_all
    from model_SendHostMsg [OF h rm1 t, of d] obtain m' where "mu_SendHostMsg t d m = Some m'"
      "model_step E D m h m' [EMsg t (d AND mask 56)] []" by blast
    then show ?thesis using w1 MSendMsg
      by (intro exI [of _ "[EMsg t (d AND mask 56)]"] exI [of _ "[]"] exI [of _ m']) simp
  next
    case (MSendData data)
    from model_SendHostData [OF h rm, of data] obtain n m' where "mu_SendHostData data m = Some (n, m')"
      "model_step E D m h m' (map EData (take n data)) []" by blast
    then show ?thesis using MSendData by (intro exI [of _ "map EData (take n data)"] exI [of _ "[]"] exI [of _ m']) simp
  next
    case (MSendReturn argv)
    with model_SendReturn [OF h rm, of argv] adm obtain ok m' where "mu_SendReturn argv m = Some (ok, m')"
      "model_step E D m h m' (if ok then ECall (length argv) # map EData argv else []) []" by auto
    then show ?thesis using MSendReturn
      by (intro exI [of _ "if ok then ECall (length argv) # map EData argv else []"] exI [of _ "[]"] exI [of _ m'])
        (simp add: got_call_def)
  next
    case MFlush
    with model_Timer [OF h rm] show ?thesis
      by (intro exI [of _ "[]"]) fastforce
  next
    case MTimer
    with model_Timer [OF h rm] show ?thesis
      by (intro exI [of _ "[]"]) fastforce
  next
    case MPoll
    then have av: "can_reply D m h" using adm by simp
    from model_poll [OF h rm av] obtain r m' ys where "mu_MsgLoop no_cb True True True m = Some (r, m')"
      "model_step E D m h m' (echo ys) ys" "quiet ys" using model_says_quiet by blast
    then show ?thesis using MPoll by (intro rcv [of ys m' ys]) (simp_all add: mu_RecvPoll_def)
  next
    case MRecvMsg
    then have av: "can_reply D m h" using adm by simp
    from model_RecvHostMsg [OF h rm av] obtain res m' ys where "mu_RecvHostMsg no_cb m = Some (res, m')"
      "model_step E D m h m' (echo ys) ys" "case res of Some (t, d) \<Rightarrow> ys = [EMsg t d] | None \<Rightarrow> quiet ys" by blast
    then show ?thesis using MRecvMsg by (intro rcv [of ys m' ys]) (auto simp: got_msg_def split: option.splits)
  next
    case (MRecvData n)
    then have av: "can_reply D m h" using adm by simp
    from model_RecvHostData [OF h rm av] obtain ws m' ys where "mu_RecvHostData no_cb n m = Some (ws, m')"
      "model_step E D m h m' (echo ys) (map EData ws @ ys)" "quiet ys" by blast
    then show ?thesis using MRecvData by (intro rcv [of "map EData ws @ ys" m' ys]) simp_all
  next
    case MPeek
    then have av: "can_reply D m h" using adm by simp
    from model_PeekHostData [OF h rm av, of no_cb] obtain res m' ys where "mu_PeekHostData no_cb m = Some (res, m')"
      "model_step E D m h m' (echo ys) ys" and p: "case res of Some w \<Rightarrow> ys = [] \<and> (\<exists>zs. pend D (see m' h) m' = EData w # zs) | None \<Rightarrow> quiet ys" by blast
    moreover from p have "quiet ys" by (auto simp: quiet_def split: option.splits)
    ultimately show ?thesis using MPeek by (intro rcv [of ys m' ys]) simp_all
  next
    case MRecvMarker
    then have av: "can_reply D m h" using adm by simp
    from model_RecvHostDataMarker [OF h rm av] obtain ok m' ys where "mu_RecvHostDataMarker no_cb m = Some (ok, m')"
      "model_step E D m h m' (echo ys) ys" "if ok then ys = [EMark] else quiet ys" by blast
    then show ?thesis using MRecvMarker by (intro rcv [of ys m' ys]) (simp_all split: if_splits)
  next
    case (MRecvCall argc)
    then have ok: "argc_ok argc (pend D h m)" and av: "can_reply D m h" using adm by simp_all
    have b: "n \<le> argc" if "pend D h m = ECall n # zs" for n zs using argc_bound [OF ok that] .
    from model_RecvCall [OF h rm av, of argc no_cb] b obtain res m' ys where r: "mu_RecvCall no_cb argc m = Some (res, m')"
      "model_step E D m h m' (echo ys) ys" and y: "case res of Some argv \<Rightarrow> \<exists>n \<le> argc. ys = ECall n # map EData (take n argv) \<and>
        (0 < n \<longrightarrow> length argv = argc) \<and> (n = 0 \<longrightarrow> argv = []) | None \<Rightarrow> quiet ys" by blast
    have "pend D h m = ys @ pend D (see m' h) m'" using r(2) by (simp add: model_step_def acts_def moves_def)
    then have "payload ys = got_call res" using got_call_payload [OF y] ok by simp
    then show ?thesis using MRecvCall r by (intro rcv [of ys m' ys]) simp_all
  qed (use ctl in blast)+
qed

section \<open>The system\<close>

record hif_system =
  sys_host :: host_unit
  sys_model :: model_unit
  host_sent :: "event list"
  host_rcvd :: "event list"
  model_sent :: "event list"
  model_rcvd :: "event list"

text \<open>Both rings and all blocks are shared: what one side writes the other sees.\<close>

definition host_acts :: "event list \<Rightarrow> event list \<Rightarrow> host_unit \<Rightarrow> hif_system \<Rightarrow> hif_system" where
  "host_acts xs ys h s = s\<lparr>sys_host := h, sys_model := see h (sys_model s),
     host_sent := host_sent s @ xs, host_rcvd := host_rcvd s @ ys\<rparr>"

definition model_acts :: "event list \<Rightarrow> event list \<Rightarrow> model_unit \<Rightarrow> hif_system \<Rightarrow> hif_system" where
  "model_acts xs ys m s = s\<lparr>sys_model := m, sys_host := see m (sys_host s),
     model_sent := model_sent s @ xs, model_rcvd := model_rcvd s @ ys\<rparr>"

inductive reach :: "direction \<Rightarrow> direction \<Rightarrow> hif_system \<Rightarrow> bool" where
  boot: "par_ok par mhz inBase outBase \<Longrightarrow> rings_clear raw \<Longrightarrow>
    hif_boot par mhz needFlush inBase outBase flushBase que raw mque mraw = Some (h, m) \<Longrightarrow>
    reach (in_dir par inBase) (out_dir par outBase)
      \<lparr>sys_host = h, sys_model = m, host_sent = [], host_rcvd = [], model_sent = [], model_rcvd = []\<rparr>"
| host: "reach D E s \<Longrightarrow> host_adm D E c (sys_host s) (sys_model s) \<Longrightarrow> host_exec c (sys_host s) = Some (xs, ys, h) \<Longrightarrow>
    reach D E (host_acts xs ys h s)"
| model: "reach D E s \<Longrightarrow> model_adm D E c (sys_host s) (sys_model s) \<Longrightarrow> model_exec c (sys_model s) = Some (xs, ys, m) \<Longrightarrow>
    reach D E (model_acts xs ys m s)"

definition sys_ok :: "direction \<Rightarrow> direction \<Rightarrow> hif_system \<Rightarrow> bool" where
  "sys_ok D E s \<longleftrightarrow> host_ok D E (sys_host s) (sys_model s) \<and> model_ok E D (sys_model s) (sys_host s) \<and>
     window D E 0 (sys_host s) (sys_model s) \<and> window E D 0 (sys_model s) (sys_host s) \<and>
     host_sent s = model_rcvd s @ payload (pend D (sys_host s) (sys_model s)) \<and>
     model_sent s = host_rcvd s @ payload (pend E (sys_model s) (sys_host s))"

text \<open>A step of one side keeps the other side ready and the windows open.\<close>

lemma window_acts:
  assumes a: "acts D E a b a' us vs" and l: "link D E a b" and w: "window D E 0 a b" "window E D 0 b a"
    and us: "msgs_in us = 0 \<or> window D E (msgs_in us) a b"
  shows "window D E 0 a' (see a' b)" "window E D 0 (see a' b) a'"
proof -
  have p: "pend D a' (see a' b) = pend D a b @ us" "pend E b a = vs @ pend E (see a' b) a'" and l': "link D E a' (see a' b)"
    using a by (simp_all add: acts_def moves_def)
  have "ep_ctlQueMask a = ep_ctlQueMask b" "ep_ctlQueMask a' = ep_ctlQueMask (see a' b)"
    using link_ring_ok(1) [OF l] link_ring_ok(1) [OF l'] by (auto simp: ring_ok_def)
  then have r: "ring_size a' = ring_size a" by (simp add: ring_size_def)
  show "window D E 0 a' (see a' b)" using p(1) w(1) us by (auto simp: window_def)
  show "window E D 0 (see a' b) a'" using p(2) w(2) r by (simp add: window_def)
qed

lemma sys_host_acts:
  assumes s: "sys_ok D E s" and st: "host_step D E (sys_host s) (sys_model s) h us vs"
    and us: "msgs_in us = 0 \<or> window D E (msgs_in us) (sys_host s) (sys_model s)"
  shows "sys_ok D E (host_acts (payload us) (payload vs) h s)"
proof -
  let ?m = "see h (sys_model s)"
  have a: "acts D E (sys_host s) (sys_model s) h us vs" and ok: "host_ok D E h ?m" using st by (simp_all add: host_step_def)
  have l: "link D E (sys_host s) (sys_model s)" and w: "window D E 0 (sys_host s) (sys_model s)" "window E D 0 (sys_model s) (sys_host s)"
    using s by (simp_all add: sys_ok_def host_ok_def)
  have "model_ok E D ?m h"
    using s host_link [OF ok] by (simp add: sys_ok_def model_ok_def link_sym [of D E])
  moreover have "pend D h ?m = pend D (sys_host s) (sys_model s) @ us" "pend E (sys_model s) (sys_host s) = vs @ pend E ?m h"
    using a by (simp_all add: acts_def moves_def)
  ultimately show ?thesis
    using s ok window_acts [OF a l w us] by (simp add: sys_ok_def host_acts_def)
qed

lemma sys_model_acts:
  assumes s: "sys_ok D E s" and st: "model_step E D (sys_model s) (sys_host s) m us vs"
    and us: "msgs_in us = 0 \<or> window E D (msgs_in us) (sys_model s) (sys_host s)"
  shows "sys_ok D E (model_acts (payload us) (payload vs) m s)"
proof -
  let ?h = "see m (sys_host s)"
  have a: "acts E D (sys_model s) (sys_host s) m us vs" and ok: "model_ok E D m ?h" using st by (simp_all add: model_step_def)
  have l: "link E D (sys_model s) (sys_host s)" and w: "window E D 0 (sys_model s) (sys_host s)" "window D E 0 (sys_host s) (sys_model s)"
    using s by (simp_all add: sys_ok_def model_ok_def)
  have "host_ok D E ?h m"
    using s model_link [OF ok] by (simp add: sys_ok_def host_ok_def link_sym [of E D])
  moreover have "pend E m ?h = pend E (sys_model s) (sys_host s) @ us" "pend D (sys_host s) (sys_model s) = vs @ pend D ?h m"
    using a by (simp_all add: acts_def moves_def)
  ultimately show ?thesis
    using s ok window_acts [OF a l w us] by (simp add: sys_ok_def model_acts_def)
qed

lemma boot_window: "par_ok par mhz inBase outBase \<Longrightarrow> (2::nat) ^ par_iBlkCntW par + 2 ^ par_oBlkCntW par \<le> 512"
proof -
  assume p: "par_ok par mhz inBase outBase"
  have "(2::nat) ^ par_iBlkCntW par \<le> 2 ^ 6" "(2::nat) ^ par_oBlkCntW par \<le> 2 ^ 6"
    using p by (intro power_increasing; simp add: par_ok_def)+
  then show ?thesis by simp
qed

lemma reach_ok: "reach D E s \<Longrightarrow> sys_ok D E s"
proof (induction rule: reach.induct)
  case (boot par mhz inBase outBase raw needFlush flushBase que mque mraw h m)
  from boot_run [OF boot(1,2), of needFlush flushBase que mque mraw] boot(3) boot_window [OF boot(1)]
  show ?case by (auto simp: sys_ok_def window_def in_dir_def out_dir_def)
next
  case (host D E s c xs ys h)
  then have ok: "host_ok D E (sys_host s) (sys_model s)" "window D E 0 (sys_host s) (sys_model s)" by (simp_all add: sys_ok_def)
  from host_exec_run [OF ok host.hyps(2)] host.hyps(3) obtain us vs where
    "xs = payload us" "ys = payload vs" "host_step D E (sys_host s) (sys_model s) h us vs"
    "msgs_in us = 0 \<or> window D E (msgs_in us) (sys_host s) (sys_model s)" by auto
  then show ?case using sys_host_acts [OF host.IH] by simp
next
  case (model D E s c xs ys m)
  then have ok: "model_ok E D (sys_model s) (sys_host s)" "window E D 0 (sys_model s) (sys_host s)" by (simp_all add: sys_ok_def)
  from model_exec_run [OF ok model.hyps(2)] model.hyps(3) obtain us vs where
    "xs = payload us" "ys = payload vs" "model_step E D (sys_model s) (sys_host s) m us vs"
    "msgs_in us = 0 \<or> window E D (msgs_in us) (sys_model s) (sys_host s)" by auto
  then show ?case using sys_model_acts [OF model.IH] by simp
qed

section \<open>What a poll tells\<close>

definition recv_kind :: "recv_type \<Rightarrow> event \<Rightarrow> recv_type" where
  "recv_kind callr e = (case e of EData w \<Rightarrow> eRecvHostData | EMark \<Rightarrow> eRecvHostDataMarker | ECall n \<Rightarrow> callr
     | EHalt \<Rightarrow> eRecvHalt | EMsg t d \<Rightarrow> eRecvHostMsg)"

lemma front_pend:
  assumes l: "link D E a b" and q: "cq_entries (ep_msgQue a) = m # rest" and nd: "\<not> (GetMsgType m = d_rdy E \<and> GetMsgData m AND 7 = 0)"
  shows "\<exists>zs. pend E b a = (if GetMsgType m = d_rdy E then blk_events (GetMsgData m) (blk_words E (ep_heap a) (unat (ep_rxBlkIdx a)))
      else if 16 \<le> GetMsgType m then [EMsg (GetMsgType m) (GetMsgData m)] else []) @ zs"
proof -
  have "ep_rxRdIdx a = 0" using nd by (intro cursor_none(2) [OF l q]) blast
  then show ?thesis by (simp add: pend_def arrived_def flight_def q)
qed

lemma poll_first:
  assumes l: "link D E a b" and p: "poll_says callr E r ys a" and i: "idle_says r a" and callr: "callr = eRecvCall \<or> callr = eRecvReturn"
  shows "if r = eRecvIdle then ys = [] \<and> arrived E a = [] else \<exists>e zs. ys @ pend E b a = e # zs \<and> recv_kind callr e = r"
proof -
  have co: "codes_ok E D" using l by (simp add: link_def codes_ok_sym)
  consider "r = eRecvIdle" "ys = []" | "r = eRecvHalt" "ys = [EHalt]"
    | m rest where "r = eRecvHostMsg" "ys = []" "cq_entries (ep_msgQue a) = m # rest" "16 \<le> GetMsgType m"
    | "r = eRecvHostData" "ys = []" "0 < ep_rxDataSize a"
    | rest where "r = eRecvHostDataMarker" "ys = []" "cq_entries (ep_msgQue a) = blk_msg (d_rdy E) 0 HIF_DQ_NULL # rest"
    | n rest where "r = callr" "ys = []" "n < d_sz E" "cq_entries (ep_msgQue a) = blk_msg (d_rdy E) n HIF_DQ_CALL # rest"
    using p by (auto simp: poll_says_def split: if_splits)
  then show ?thesis
  proof cases
    case 1
    then show ?thesis using i by (simp add: idle_says_def arrived_def)
  next
    case 2
    then show ?thesis by (simp add: recv_kind_def)
  next
    case (3 m rest)
    moreover have "GetMsgType m \<noteq> d_rdy E" using 3(4) codes_lt(1) [OF co] by auto
    ultimately show ?thesis using front_pend [OF l 3(3)] by (auto simp: recv_kind_def)
  next
    case 4
    then show ?thesis using open_pend [OF l, of b] by (auto simp: recv_kind_def)
  next
    case (5 rest)
    note B = blk_msg_of(1,2) [OF co, of 0 HIF_DQ_NULL, simplified]
    show ?thesis using front_pend [OF l 5(3)] 5 B by (auto simp: recv_kind_def blk_events_def)
  next
    case (6 n rest)
    then show ?thesis using call_front(1) [OF l 6(4,3), of b] callr by (auto simp: recv_kind_def)
  qed
qed

lemma host_poll_first:
  assumes h: "host_ok D E a b" and rm: "roomy D E 0 b"
  shows "\<exists>r a'. hu_RecvPoll no_cb False a = Some (r, a') \<and> host_step D E a b a' [] (if r = eRecvHalt then [EHalt] else []) \<and>
    (if r = eRecvIdle then arrived E a' = [] else \<exists>e zs. pend E b a = e # zs \<and> recv_kind eRecvReturn e = r)"
proof -
  from host_poll [OF h rm] obtain r a' ys where p: "hu_Poll a = Some (r, a')" "host_step D E a b a' [] ys"
    "poll_says eRecvReturn E r ys a'" "idle_says r a'" by blast
  have "pend E b a = ys @ pend E (see a' b) a'" using p(2) by (simp add: host_step_def acts_def moves_def)
  moreover have "ys = (if r = eRecvHalt then [EHalt] else [])" using p(3) by (simp add: poll_says_def split: if_splits)
  ultimately show ?thesis using poll_first [OF host_link [OF host_step_ok [OF p(2)]] p(3,4)] p(1,2)
    by (intro exI [of _ r] exI [of _ a'], cases "r = eRecvHalt") (auto simp: hu_RecvPoll_def recv_kind_def)
qed






section \<open>The properties of the system\<close>

text \<open>A reachable state with a message on its way, for the witnesses.\<close>

abbreviation "sampD \<equiv> in_dir CHtHifParams 4096"
abbreviation "sampE \<equiv> out_dir CHtHifParams 8192"

lemma samp_boot:
  obtains s where "reach sampD sampE s" "pend sampD (sys_host s) (sys_model s) = []" "pend sampE (sys_model s) (sys_host s) = []"
    "\<not> mu_bHaltSeen (sys_model s)" "ep_txAvail (sys_host s) = 16" "ep_txAvail (sys_model s) = 16"
    "ring_size (sys_model s) = 512" "host_sent s = []" "model_rcvd s = []"
proof -
  from boot_run [OF default_par_ok zero_clear, of False 0 "\<lambda>_. 0" "\<lambda>_. 0" zero_model] obtain h m where b:
    "hif_boot CHtHifParams 100 False 4096 8192 0 (\<lambda>_. 0) zero_host (\<lambda>_. 0) zero_model = Some (h, m)"
    "pend sampD h m = []" "pend sampE m h = []" "\<not> mu_bHaltSeen m" "ring_size m = 512"
    "ep_txAvail h = 2 ^ par_iBlkCntW CHtHifParams" "ep_txAvail m = 2 ^ par_oBlkCntW CHtHifParams" by blast
  show ?thesis
    by (rule that, rule reach.boot [OF default_par_ok zero_clear b(1)]) (use b in \<open>simp_all add: CHtHifParams_def\<close>)
qed

lemma samp_sent:
  obtains s where "reach sampD sampE s" "host_sent s = [EMsg 16 5]" "model_rcvd s = []"
proof -
  obtain s where s: "reach sampD sampE s" "pend sampD (sys_host s) (sys_model s) = []" "ring_size (sys_model s) = 512"
    "host_sent s = []" "model_rcvd s = []" by (rule samp_boot)
  have ok: "host_ok sampD sampE (sys_host s) (sys_model s)" "window sampD sampE 0 (sys_host s) (sys_model s)"
    using reach_ok [OF s(1)] by (simp_all add: sys_ok_def)
  have adm: "host_adm sampD sampE (HSendMsg 16 5) (sys_host s) (sys_model s)"
    using s(2,3) by (simp add: window_def in_dir_def out_dir_def CHtHifParams_def)
  from host_exec_run [OF ok adm] obtain ys h where e: "host_exec (HSendMsg 16 5) (sys_host s) = Some ([EMsg 16 (5 AND mask 56)], ys, h)"
    by (auto simp: bind_eq_Some_conv)
  have "(5 :: u64) AND mask 56 = 5" by (intro and_mask_id) simp
  with reach.host [OF s(1) adm e] s(4,5) show ?thesis
    by (intro that [of "host_acts [EMsg 16 (5 AND mask 56)] ys h s"]) (simp_all add: host_acts_def)
qed

text \<open>
  C1: Exactly-once delivery in order, in both directions, over every interleaving of admissible calls of the
  two applications and the two flush timers: what the host's calls have reported as sent is what the model's
  calls have reported as received followed by what is still on its way, and the same from the model to the host.
  Nothing is lost, repeated, reordered or altered.
\<close>

theorem reach_delivers:
  assumes "reach D E s"
  shows "host_sent s = model_rcvd s @ payload (pend D (sys_host s) (sys_model s)) \<and>
    model_sent s = host_rcvd s @ payload (pend E (sys_model s) (sys_host s))"
  using reach_ok [OF assms] by (simp add: sys_ok_def)

theorem reach_delivers_witness:
  "\<exists>s. reach sampD sampE s \<and> host_sent s = [EMsg 16 5] \<and> payload (pend sampD (sys_host s) (sys_model s)) = [EMsg 16 5]"
proof -
  obtain s where s: "reach sampD sampE s" "host_sent s = [EMsg 16 5]" "model_rcvd s = []" by (rule samp_sent)
  with reach_delivers [OF s(1)] show ?thesis by auto
qed

text \<open>
  C2: No admissible call is ever stuck. In every reachable state each call of the host's and of the model's API
  returns, and the state it leads to is reachable again: no assertion fails, no lock is taken twice, no
  call waits for a ring slot or loops for ever.
\<close>

theorem calls_return:
  assumes "reach D E s"
  shows "(host_adm D E c (sys_host s) (sys_model s) \<longrightarrow>
      (\<exists>xs ys h. host_exec c (sys_host s) = Some (xs, ys, h) \<and> reach D E (host_acts xs ys h s))) \<and>
    (model_adm D E c' (sys_host s) (sys_model s) \<longrightarrow>
      (\<exists>xs ys m. model_exec c' (sys_model s) = Some (xs, ys, m) \<and> reach D E (model_acts xs ys m s)))"
proof -
  have ok: "host_ok D E (sys_host s) (sys_model s)" "window D E 0 (sys_host s) (sys_model s)"
    "model_ok E D (sys_model s) (sys_host s)" "window E D 0 (sys_model s) (sys_host s)"
    using reach_ok [OF assms] by (simp_all add: sys_ok_def)
  show ?thesis
    using host_exec_run [OF ok(1,2), of c] model_exec_run [OF ok(3,4), of c'] reach.host [OF assms] reach.model [OF assms] by blast
qed

theorem calls_return_witness:
  "\<exists>s xs ys h. reach sampD sampE s \<and> host_exec (HSendCall [1, 2, 3]) (sys_host s) = Some (xs, ys, h) \<and>
    reach sampD sampE (host_acts xs ys h s)"
proof -
  obtain s where s: "reach sampD sampE s" by (rule samp_sent)
  have "host_adm sampD sampE (HSendCall [1, 2, 3]) (sys_host s) (sys_model s)"
    by (simp add: in_dir_def CHtHifParams_def)
  with calls_return [OF s, of "HSendCall [1, 2, 3]" MFlush] s show ?thesis by blast
qed

text \<open>
  C3: The accounting of data blocks, in both directions and in every reachable state: each of the \<open>2 ^ d_cw\<close> blocks is free at its
  sender, announced and not yet freed by the receiver, or freed with the news on its way back; a partly filled block is
  free and not full; and between calls both locks are released.
\<close>

theorem blocks_conserved:
  assumes "reach D E s"
  shows "0 \<le> ep_txAvail (sys_host s) \<and> 0 \<le> ep_txAvail (sys_model s) \<and>
    ep_txAvail (sys_host s) + int (count_type HIF_CMD_IBLK_RDY (flight (sys_model s))) +
      int (count_type HIF_CMD_IBLK_AVL (ctl_msgs (sys_host s))) = 2 ^ d_cw D \<and>
    ep_txAvail (sys_model s) + int (count_type HIF_CMD_OBLK_RDY (flight (sys_host s))) +
      int (count_type HIF_CMD_OBLK_AVL (ctl_msgs (sys_model s))) = 2 ^ d_cw E \<and>
    ep_txWrIdx (sys_host s) < ep_txSize (sys_host s) \<and> ep_txWrIdx (sys_model s) < ep_txSize (sys_model s) \<and>
    (ep_txAvail (sys_host s) = 0 \<longrightarrow> ep_txWrIdx (sys_host s) = 0) \<and> (ep_txAvail (sys_model s) = 0 \<longrightarrow> ep_txWrIdx (sys_model s) = 0) \<and>
    \<not> ep_lock (sys_host s) \<and> \<not> ep_lock (sys_model s)"
proof -
  let ?h = "sys_host s" and ?m = "sys_model s"
  have ok: "host_ok D E ?h ?m" "model_ok E D ?m ?h"
    using reach_ok [OF assms] by (simp_all only: sys_ok_def)
  have dirs: "host_dirs D E" and links: "link D E ?h ?m" and lock: "\<not> ep_lock ?h" "\<not> ep_lock ?m" and fill: "ep_txWrIdx ?h < d_sz D" "ep_txWrIdx ?m < d_sz E"
    using ok unfolding host_ok_def model_ok_def by blast+
  have chans: "credit D ?h ?m" "credit E ?m ?h" "geo D ?h ?m" "geo E ?m ?h"
    using links unfolding link_def chan_def by blast+
  have sizes: "ep_txSize ?h = d_sz D" "ep_txSize ?m = d_sz E"
    using chans(3,4) by (simp_all only: geo_def)
  have "0 \<le> ep_txAvail ?h \<and> ep_txAvail ?h + int (count_type HIF_CMD_IBLK_RDY (flight ?m)) + int (count_type HIF_CMD_IBLK_AVL (ctl_msgs ?h)) = 2 ^ d_cw D \<and>
      (ep_txAvail ?h = 0 \<longrightarrow> ep_txWrIdx ?h = 0)"
    using chans(1) dirs unfolding credit_def host_dirs_def by auto
  moreover have "0 \<le> ep_txAvail ?m \<and> ep_txAvail ?m + int (count_type HIF_CMD_OBLK_RDY (flight ?h)) + int (count_type HIF_CMD_OBLK_AVL (ctl_msgs ?m)) = 2 ^ d_cw E \<and>
      (ep_txAvail ?m = 0 \<longrightarrow> ep_txWrIdx ?m = 0)"
    using chans(2) dirs unfolding credit_def host_dirs_def by auto
  ultimately show ?thesis
    using lock fill unfolding sizes by blast
qed

theorem blocks_conserved_witness:
  "\<exists>s. reach sampD sampE s \<and> ep_txAvail (sys_host s) + int (count_type HIF_CMD_IBLK_RDY (flight (sys_model s))) +
      int (count_type HIF_CMD_IBLK_AVL (ctl_msgs (sys_host s))) = 16"
proof -
  obtain s where s: "reach sampD sampE s" by (rule samp_sent)
  with blocks_conserved [OF s] show ?thesis by (auto simp: in_dir_def CHtHifParams_def)
qed

text \<open>
  C5: The typing of what is in flight to the host, in every reachable state: each control message is the return of
  an input block, a user message, or the announcement of an output block whose code is data, marker, call or
  halt and whose size fits the code. So the assertion MsgLoop ends in for an unknown message never fails, on either side.
\<close>

theorem msgs_typed:
  assumes "reach D E s" "msg \<in> set (flight (sys_host s))"
  shows "GetMsgType msg = HIF_CMD_IBLK_AVL \<or> 16 \<le> GetMsgType msg \<or>
    (GetMsgType msg = HIF_CMD_OBLK_RDY \<and>
      (let c = GetMsgData msg AND 7; n = dq_words (GetMsgData msg) in
        c = 0 \<and> 0 < n \<and> n \<le> ep_rxSize (sys_host s) \<or> (c = HIF_DQ_NULL \<or> c = HIF_DQ_HALT) \<and> n = 0 \<or>
        c = HIF_DQ_CALL \<and> n < ep_rxSize (sys_host s)))"
proof -
  have l: "link D E (sys_host s) (sys_model s)" and d: "host_dirs D E"
    using reach_ok [OF assms(1)] by (simp_all add: sys_ok_def host_ok_def)
  then have co: "codes_ok E D" and wf: "wf_msgs E D (flight (sys_host s))" and sz: "ep_rxSize (sys_host s) = d_sz E"
    by (simp_all add: link_def chan_def geo_def codes_ok_sym)
  have "msg_ok E D msg" if "wf_msgs E D ms" "msg \<in> set ms" for ms using that by (induction ms) auto
  then have "msg_ok E D msg" using wf assms(2) .
  then consider "GetMsgType msg = d_avl D" | "16 \<le> GetMsgType msg"
    | n c where "msg = blk_msg (d_rdy E) n c" "n \<le> d_sz E" "c \<in> {0, 1, 6, 7}"
      "c = 0 \<and> 0 < n \<or> (c = HIF_DQ_NULL \<or> c = HIF_DQ_HALT) \<and> n = 0 \<or> c = HIF_DQ_CALL \<and> n < d_sz E"
    unfolding msg_ok_def by fastforce
  then show ?thesis
  proof cases
    case (3 n c)
    with blk_msg_of(1-3) [OF co 3(2,3)] d sz show ?thesis by (auto simp: host_dirs_def Let_def)
  qed (use d in \<open>simp_all add: host_dirs_def\<close>)
qed

theorem msgs_typed_witness:
  "\<exists>s. reach sampD sampE s \<and> (\<forall>msg \<in> set (flight (sys_host s)). GetMsgType msg = HIF_CMD_IBLK_AVL \<or>
     16 \<le> GetMsgType msg \<or> GetMsgType msg = HIF_CMD_OBLK_RDY)"
proof -
  obtain s where s: "reach sampD sampE s" by (rule samp_sent)
  with msgs_typed [OF s] show ?thesis by blast
qed

text \<open>
  A poll misses nothing. In every reachable state the host's RecvPoll returns the kind of the first event
  that is on its way (a halt is taken by the poll itself, everything else is left for the receive call), and it returns
  idle only when the model has announced nothing that is not yet received, so that at most quadwords staged in the model's
  unflushed block are pending.
\<close>

theorem poll_tells_next:
  assumes "reach D E s"
  shows "\<exists>r h. hu_RecvPoll no_cb False (sys_host s) = Some (r, h) \<and>
    pend E (sys_model s) (sys_host s) = (if r = eRecvHalt then [EHalt] else []) @ pend E (see h (sys_model s)) h \<and>
    (if r = eRecvIdle then pend E (sys_model s) (sys_host s) = staged (sys_model s)
     else \<exists>e es. pend E (sys_model s) (sys_host s) = e # es \<and> recv_kind eRecvReturn e = r)"
proof -
  have h: "host_ok D E (sys_host s) (sys_model s)" "window D E 0 (sys_host s) (sys_model s)"
    using reach_ok [OF assms] by (simp_all add: sys_ok_def)
  from host_poll_first [OF h(1) window_roomy [OF host_link [OF h(1)] h(2)]] obtain r h' where r:
    "hu_RecvPoll no_cb False (sys_host s) = Some (r, h')"
    "host_step D E (sys_host s) (sys_model s) h' [] (if r = eRecvHalt then [EHalt] else [])"
    "if r = eRecvIdle then arrived E h' = [] else \<exists>e es. pend E (sys_model s) (sys_host s) = e # es \<and> recv_kind eRecvReturn e = r" by blast
  have l: "link D E (sys_host s) (sys_model s)" "link D E h' (see h' (sys_model s))"
    using h(1) host_step_ok [OF r(2)] by (simp_all add: host_ok_def)
  have p: "pend E (sys_model s) (sys_host s) = (if r = eRecvHalt then [EHalt] else []) @ pend E (see h' (sys_model s)) h'"
    using r(2) by (simp add: host_step_def acts_def moves_def)
  have "pend E (sys_model s) (sys_host s) = staged (sys_model s)" if i: "r = eRecvIdle"
  proof -
    have a: "pend E (sys_model s) (sys_host s) = staged (see h' (sys_model s))" using p r(3) i by (simp add: pend_def)
    have "length (arrived E (sys_host s) @ staged (sys_model s)) = length (staged (sys_model s))"
      using a unfolding pend_def by (simp add: staged_def heap_load_def)
    then show ?thesis by (simp add: pend_def)
  qed
  then show ?thesis using r(1,3) p by (intro exI [of _ r] exI [of _ h']) auto
qed

theorem poll_tells_next_witness:
  "\<exists>s r h. reach sampD sampE s \<and> hu_RecvPoll no_cb False (sys_host s) = Some (r, h)"
proof -
  obtain s where s: "reach sampD sampE s" by (rule samp_sent)
  with poll_tells_next [OF s] show ?thesis by blast
qed




text \<open>
  C7: What SendHostData accepts. In every reachable state it returns, reports a count that is at most the length of the data,
  exactly that prefix of the data is appended to what is on its way to the model, and it falls short of the whole only when
  no block is free, and either no message is left in the ring that could tell of a freed block or the host's own queue of messages, into which it would have
  to move the messages of the ring, is full.
\<close>

theorem send_data_prefix:
  assumes "reach D E s"
  shows "\<exists>n h. hu_SendHostData data (sys_host s) = Some (n, h) \<and> n \<le> length data \<and>
    pend D h (see h (sys_model s)) = pend D (sys_host s) (sys_model s) @ map EData (take n data) \<and>
    (n < length data \<longrightarrow> ep_txAvail h = 0 \<and> (ctl_msgs h = [] \<or> cq_IsFull (ep_msgQue h)))"
proof -
  have h: "host_ok D E (sys_host s) (sys_model s)" "window D E 0 (sys_host s) (sys_model s)"
    using reach_ok [OF assms] by (simp_all add: sys_ok_def)
  from host_SendHostData [OF h(1) window_roomy [OF host_link [OF h(1)] h(2)], of data] obtain n h' where
    "hu_SendHostData data (sys_host s) = Some (n, h')" "n \<le> length data"
    "host_step D E (sys_host s) (sys_model s) h' (map EData (take n data)) []" "n = length data \<or> dry h'" by blast
  then show ?thesis by (intro exI [of _ n] exI [of _ h']) (auto simp: host_step_def acts_def moves_def dry_def)
qed

theorem send_data_prefix_witness:
  "\<exists>s n h. reach sampD sampE s \<and> hu_SendHostData [7, 8, 9] (sys_host s) = Some (n, h) \<and> n \<le> 3"
proof -
  obtain s where s: "reach sampD sampE s" by (rule samp_sent)
  with send_data_prefix [OF s, of "[7, 8, 9]"] show ?thesis by fastforce
qed

end
