(* ===== verification/UnitMap.thy ===== *)
theory UnitMap
  imports HifEnd
begin

text \<open>
  The map between unit numbers and the pairs of application engine and unit within the engine:
  \<^verbatim>\<open>CHtHifUnitMap\<close> of \<^verbatim>\<open>ht_lib/host/HtHifLib.h\<close> and its initialisation in the constructor of
  \<^verbatim>\<open>CHtHifLib\<close> (\<^verbatim>\<open>HtHifLib.cpp\<close>), with the constructor's parameter checks. An assertion that fails
  is \<open>None\<close>; an array is a function on its indices, which the assertions keep in range.
\<close>

section \<open>The map\<close>

abbreviation HT_HIF_AE_CNT_MAX :: nat where "HT_HIF_AE_CNT_MAX \<equiv> 4"
abbreviation HT_HIF_AU_CNT_MAX :: nat where "HT_HIF_AU_CNT_MAX \<equiv> 16"
abbreviation HT_HIF_UNIT_CNT_MAX :: nat where "HT_HIF_UNIT_CNT_MAX \<equiv> 64"

record unit_map =
  um_aeCnt :: nat
  um_unitCnt :: nat
  um_maxUnitId :: nat
  um_auCnt :: "nat \<Rightarrow> nat"
  um_aeAuMap :: "nat \<Rightarrow> nat \<times> nat"
  um_unitMap :: "nat \<Rightarrow> nat \<Rightarrow> nat"
  um_numaSet :: "nat \<Rightarrow> nat"

definition um_new :: unit_map where
  "um_new = \<lparr>um_aeCnt = 0, um_unitCnt = 0, um_maxUnitId = 0, um_auCnt = (\<lambda>_. 0), um_aeAuMap = (\<lambda>_. (0, 0)),
     um_unitMap = (\<lambda>_ _. 0), um_numaSet = (\<lambda>_. 0)\<rparr>"

definition um_SetAeCnt :: "nat \<Rightarrow> unit_map \<Rightarrow> unit_map option" where
  "um_SetAeCnt aeCnt m = do { ensure (aeCnt \<le> HT_HIF_AE_CNT_MAX); Some (m\<lparr>um_aeCnt := aeCnt\<rparr>) }"

definition um_SetAuCnt :: "nat \<Rightarrow> nat \<Rightarrow> unit_map \<Rightarrow> unit_map option" where
  "um_SetAuCnt aeId auCnt m = do {
     ensure (aeId < um_aeCnt m);
     ensure (auCnt \<le> HT_HIF_AU_CNT_MAX);
     Some (m\<lparr>um_auCnt := (um_auCnt m)(aeId := auCnt)\<rparr>)
   }"

definition um_Insert :: "nat \<Rightarrow> nat \<Rightarrow> nat \<Rightarrow> nat \<Rightarrow> unit_map \<Rightarrow> unit_map option" where
  "um_Insert unitId aeId auId numaSet m = do {
     ensure (unitId < HT_HIF_UNIT_CNT_MAX);
     ensure (aeId < HT_HIF_AE_CNT_MAX);
     ensure (auId < HT_HIF_AU_CNT_MAX);
     Some (m\<lparr>um_unitCnt := um_unitCnt m + 1,
             um_maxUnitId := max (um_maxUnitId m) unitId,
             um_unitMap := (um_unitMap m)(aeId := (um_unitMap m aeId)(auId := unitId)),
             um_aeAuMap := (um_aeAuMap m)(unitId := (aeId, auId)),
             um_numaSet := (um_numaSet m)(unitId := numaSet)\<rparr>)
   }"

definition um_FindAeAu :: "nat \<Rightarrow> unit_map \<Rightarrow> (nat \<times> nat) option" where
  "um_FindAeAu unitId m = do { ensure (unitId < HT_HIF_UNIT_CNT_MAX); Some (um_aeAuMap m unitId) }"

definition um_FindUnitId :: "nat \<Rightarrow> nat \<Rightarrow> unit_map \<Rightarrow> nat option" where
  "um_FindUnitId ae au m = do { ensure (ae < um_aeCnt m); ensure (au < HT_HIF_AU_CNT_MAX); Some (um_unitMap m ae au) }"

definition um_GetAuCnt :: "nat \<Rightarrow> unit_map \<Rightarrow> nat" where
  "um_GetAuCnt aeId m = um_auCnt m aeId"

definition um_GetNumaSet :: "nat \<Rightarrow> unit_map \<Rightarrow> nat" where
  "um_GetNumaSet unitId m = um_numaSet m unitId"

section \<open>The constructor's checks and loops\<close>

datatype ht_error_code = eHtBadHostAlloc | eHtBadCoprocAlloc | eHtBadHtHifParam | eHtBadDispatch

type_synonym ht_exception = "ht_error_code \<times> string"

text \<open>What the constructor checks of the parameters; the result is the number of NUMA sets.\<close>

definition check_params :: "hif_params \<Rightarrow> ht_exception + nat" where
  "check_params par =
     (let numaSetCnt = max (par_numaSetCnt par) 1 in
      if numaSetCnt \<noteq> 1 \<and> numaSetCnt \<noteq> 2 \<and> numaSetCnt \<noteq> 4 then
        Inl (eHtBadHtHifParam, ''bad HtHifParam parameter, m_numaSetCnt only supports 1, 2 or 4'')
      else if par_ctlQueW par < 9 \<or> par_ctlQueW par > 25 then
        Inl (eHtBadHtHifParam, ''bad HtHifParam parameter, m_ctlQueW cannot support values less than 9 or greater than 25'')
      else if par_iBlkSizeW par < 16 \<or> par_iBlkSizeW par > 25 then
        Inl (eHtBadHtHifParam, ''bad HtHifParam parameter, m_iBlkSizeW cannot support values less than 16 or greater than 25'')
      else if par_iBlkCntW par < 4 \<or> par_iBlkCntW par > 6 then
        Inl (eHtBadHtHifParam, ''bad HtHifParam parameter, m_iBlkCntW cannot support values less than 4 or greater than 6'')
      else if par_oBlkSizeW par < 16 \<or> par_oBlkSizeW par > 25 then
        Inl (eHtBadHtHifParam, ''bad HtHifParam parameter, m_oBlkSizeW cannot support values less than 16 or greater than 25'')
      else if par_oBlkCntW par < 4 \<or> par_oBlkCntW par > 6 then
        Inl (eHtBadHtHifParam, ''bad HtHifParam parameter, m_oBlkCntW cannot support values less than 4 or greater than 6'')
      else Inr (nat numaSetCnt))"

text \<open>
  The counts of engines, frequency, ABI and units: from the driver's answer \<open>appEngineCnt\<close> in
  the run and Verilog modes, else from the build's constants (\<open>aeConst\<close>, and \<open>unitConst\<close> for
  \<^verbatim>\<open>GetUnitCnt()\<close>).
\<close>

datatype app_mode = eAppRun | eAppSysc | eAppVsim | eAppModel

definition cp_counts :: "app_mode \<Rightarrow> u64 \<Rightarrow> nat \<Rightarrow> nat \<Rightarrow> (nat \<times> nat \<times> nat \<times> nat) option" where
  "cp_counts appMode appEngineCnt aeConst unitConst =
     (if appMode = eAppRun \<or> appMode = eAppVsim then do {
        let aeCnt = unat (drop_bit 32 appEngineCnt AND 0xf);
        let aeCnt = (if aeCnt = 0 \<or> appMode = eAppVsim then aeConst else aeCnt);
        let unitMhz = unat (drop_bit 16 appEngineCnt AND 0xffff);
        let abi = unat (drop_bit 8 appEngineCnt AND 0xff);
        let auCnt = unat (appEngineCnt AND 0xff);
        ensure (auCnt > 0);
        ensure (aeCnt \<le> HT_HIF_AE_CNT_MAX);
        Some (aeCnt, unitMhz, abi, auCnt)
      } else do {
        ensure (aeConst \<le> HT_HIF_AE_CNT_MAX);
        Some (aeConst, 150, 0, unitConst)
      })"

text \<open>The loops over units of an engine and engines, and the counts set after them.\<close>

fun um_insert_all :: "nat \<Rightarrow> nat \<Rightarrow> (nat \<times> nat) list \<Rightarrow> unit_map \<Rightarrow> unit_map option" where
  "um_insert_all numaSetCnt unitId [] m = Some m"
| "um_insert_all numaSetCnt unitId ((auId, aeId) # rest) m = do {
     m \<leftarrow> um_Insert unitId aeId auId (aeId mod numaSetCnt) m;
     um_insert_all numaSetCnt (unitId + 1) rest m
   }"

fun um_set_counts :: "nat \<Rightarrow> nat list \<Rightarrow> unit_map \<Rightarrow> unit_map option" where
  "um_set_counts auCnt [] m = Some m"
| "um_set_counts auCnt (aeId # rest) m = do { m \<leftarrow> um_SetAuCnt aeId auCnt m; um_set_counts auCnt rest m }"

definition um_init :: "nat \<Rightarrow> nat \<Rightarrow> nat \<Rightarrow> unit_map option" where
  "um_init aeCnt auCnt numaSetCnt = do {
     m \<leftarrow> um_insert_all numaSetCnt 0 [(auId, aeId). auId \<leftarrow> [0..<auCnt], aeId \<leftarrow> [0..<aeCnt]] um_new;
     m \<leftarrow> um_SetAeCnt aeCnt m;
     um_set_counts auCnt [0..<aeCnt] m
   }"

section \<open>The map is a bijection\<close>

lemma insert_all_run:
  assumes "\<And>k. k < length ps \<Longrightarrow> unitId + k < 64 \<and> snd (ps ! k) < 4 \<and> fst (ps ! k) < 16" "distinct ps"
  shows "\<exists>m'. um_insert_all numaSetCnt unitId ps m = Some m' \<and> um_unitCnt m' = um_unitCnt m + length ps \<and>
    um_aeCnt m' = um_aeCnt m \<and> um_auCnt m' = um_auCnt m \<and>
    (\<forall>k < length ps. um_aeAuMap m' (unitId + k) = (snd (ps ! k), fst (ps ! k)) \<and>
       um_unitMap m' (snd (ps ! k)) (fst (ps ! k)) = unitId + k \<and> um_numaSet m' (unitId + k) = snd (ps ! k) mod numaSetCnt) \<and>
    (\<forall>j. j < unitId \<or> unitId + length ps \<le> j \<longrightarrow> um_aeAuMap m' j = um_aeAuMap m j \<and> um_numaSet m' j = um_numaSet m j) \<and>
    (\<forall>ae au. (au, ae) \<notin> set ps \<longrightarrow> um_unitMap m' ae au = um_unitMap m ae au)"
  using assms
proof (induction ps arbitrary: unitId m)
  case (Cons p ps)
  obtain au ae where p: "p = (au, ae)" by (cases p)
  let ?m = "m\<lparr>um_unitCnt := um_unitCnt m + 1, um_maxUnitId := max (um_maxUnitId m) unitId,
     um_unitMap := (um_unitMap m)(ae := (um_unitMap m ae)(au := unitId)),
     um_aeAuMap := (um_aeAuMap m)(unitId := (ae, au)), um_numaSet := (um_numaSet m)(unitId := ae mod numaSetCnt)\<rparr>"
  have one: "um_Insert unitId ae au (ae mod numaSetCnt) m = Some ?m"
    using Cons.prems(1) [of 0] by (simp add: um_Insert_def p)
  have "Suc unitId + k < 64 \<and> snd (ps ! k) < 4 \<and> fst (ps ! k) < 16" if "k < length ps" for k
    using Cons.prems(1) [of "Suc k"] that by simp
  from Cons.IH [of "Suc unitId" ?m, OF this] Cons.prems(2) obtain m' where
    m': "um_insert_all numaSetCnt (Suc unitId) ps ?m = Some m'" "um_unitCnt m' = um_unitCnt m + Suc (length ps)"
    "um_aeCnt m' = um_aeCnt m" "um_auCnt m' = um_auCnt m"
    "\<forall>k < length ps. um_aeAuMap m' (Suc unitId + k) = (snd (ps ! k), fst (ps ! k)) \<and>
       um_unitMap m' (snd (ps ! k)) (fst (ps ! k)) = Suc unitId + k \<and> um_numaSet m' (Suc unitId + k) = snd (ps ! k) mod numaSetCnt"
    "\<forall>j. j < Suc unitId \<or> Suc unitId + length ps \<le> j \<longrightarrow> um_aeAuMap m' j = um_aeAuMap ?m j \<and> um_numaSet m' j = um_numaSet ?m j"
    "\<forall>ae au. (au, ae) \<notin> set ps \<longrightarrow> um_unitMap m' ae au = um_unitMap ?m ae au" by auto
  have k: "um_aeAuMap m' (unitId + k) = (snd ((p # ps) ! k), fst ((p # ps) ! k)) \<and>
       um_unitMap m' (snd ((p # ps) ! k)) (fst ((p # ps) ! k)) = unitId + k \<and>
       um_numaSet m' (unitId + k) = snd ((p # ps) ! k) mod numaSetCnt" if "k < length (p # ps)" for k
    using m'(5-7) that Cons.prems(2) by (cases k) (auto simp: p)
  then show ?case using one m'(1-4,6,7)
    by (intro exI [of _ m']) (auto simp: p)
qed simp

lemma set_counts_run:
  "\<forall>a \<in> set as. a < um_aeCnt m \<Longrightarrow> auCnt \<le> 16 \<Longrightarrow>
    \<exists>c. um_set_counts auCnt as m = Some (m\<lparr>um_auCnt := c\<rparr>) \<and> (\<forall>a. c a = (if a \<in> set as then auCnt else um_auCnt m a))"
proof (induction as arbitrary: m)
  case Nil
  then show ?case by (intro exI [of _ "um_auCnt m"]) simp
next
  case (Cons a as)
  let ?m = "m\<lparr>um_auCnt := (um_auCnt m)(a := auCnt)\<rparr>"
  from Cons.IH [of ?m] Cons.prems obtain c where c: "um_set_counts auCnt as ?m = Some (m\<lparr>um_auCnt := c\<rparr>)"
    "\<forall>b. c b = (if b \<in> set as then auCnt else um_auCnt ?m b)" by auto
  have "um_set_counts auCnt (a # as) m = Some (m\<lparr>um_auCnt := c\<rparr>)"
    using c(1) Cons.prems by (simp add: um_SetAuCnt_def)
  moreover have "\<forall>b. c b = (if b \<in> set (a # as) then auCnt else um_auCnt m b)" using c(2) by simp
  ultimately show ?case by blast
qed

lemma unit_grid:
  "length [(au, ae). au \<leftarrow> [0..<n], ae \<leftarrow> [0..<c]] = n * c"
  "k < n * c \<Longrightarrow> [(au, ae). au \<leftarrow> [0..<n], ae \<leftarrow> [0..<c]] ! k = (k div c, k mod c)"
  "distinct [(au, ae). au \<leftarrow> [0..<n], ae \<leftarrow> [0..<c]]"
proof -
  show len: "length [(au, ae). au \<leftarrow> [0..<n], ae \<leftarrow> [0..<c]] = n * c" for n by (induction n) simp_all
  show "distinct [(au, ae). au \<leftarrow> [0..<n], ae \<leftarrow> [0..<c]]"
    by (induction n) (auto simp: distinct_map inj_on_def)
  show "[(au, ae). au \<leftarrow> [0..<n], ae \<leftarrow> [0..<c]] ! k = (k div c, k mod c)" if "k < n * c"
    using that
  proof (induction n)
    case (Suc n)
    show ?case
    proof (cases "k < n * c")
      case True
      then show ?thesis using Suc.IH len [of n] by (simp add: nth_append)
    next
      case False
      then obtain r where r: "k = n * c + r" "r < c" using Suc.prems by (auto simp: not_less le_iff_add)
      have "k div c = n" "k mod c = r" using r by simp_all
      then show ?thesis using False r len [of n] by (simp add: nth_append)
    qed
  qed simp
qed

lemma unit_map_ok:
  assumes "0 < aeCnt" "aeCnt \<le> 4" "auCnt \<le> 16"
  shows "\<exists>m. um_init aeCnt auCnt numaSetCnt = Some m \<and> um_unitCnt m = aeCnt * auCnt \<and> um_aeCnt m = aeCnt \<and>
    (\<forall>unitId < aeCnt * auCnt. um_FindAeAu unitId m = Some (unitId mod aeCnt, unitId div aeCnt) \<and>
       um_FindUnitId (unitId mod aeCnt) (unitId div aeCnt) m = Some unitId \<and>
       um_GetNumaSet unitId m = unitId mod aeCnt mod numaSetCnt) \<and>
    (\<forall>ae < aeCnt. um_GetAuCnt ae m = auCnt \<and>
       (\<forall>au < auCnt. \<exists>unitId < aeCnt * auCnt. um_FindUnitId ae au m = Some unitId \<and> um_FindAeAu unitId m = Some (ae, au)))"
proof -
  let ?ps = "[(au, ae). au \<leftarrow> [0..<auCnt], ae \<leftarrow> [0..<aeCnt]]"
  note G = unit_grid [where n = auCnt and c = aeCnt]
  have cnt: "aeCnt * auCnt \<le> 64" using mult_le_mono [OF assms(2,3)] by simp
  have div: "k div aeCnt < auCnt" if "k < auCnt * aeCnt" for k
    using that assms(1) by (simp add: less_mult_imp_div_less)
  have "0 + k < 64 \<and> snd (?ps ! k) < 4 \<and> fst (?ps ! k) < 16" if "k < length ?ps" for k
  proof -
    have k: "k < auCnt * aeCnt" using that G(1) by simp
    then have "k < 64" using cnt by (simp add: mult.commute)
    moreover have "k mod aeCnt < 4" using mod_less_divisor [OF assms(1), of k] assms(2) by linarith
    ultimately show ?thesis using G(2) [OF k] div [OF k] assms(3) by simp
  qed
  from insert_all_run [OF this G(3), of numaSetCnt um_new] obtain m where
    m: "um_insert_all numaSetCnt 0 ?ps um_new = Some m" "um_unitCnt m = auCnt * aeCnt" and
    f: "\<forall>k < length ?ps. um_aeAuMap m k = (snd (?ps ! k), fst (?ps ! k)) \<and>
       um_unitMap m (snd (?ps ! k)) (fst (?ps ! k)) = k \<and> um_numaSet m k = snd (?ps ! k) mod numaSetCnt"
    using G(1) by (auto simp: um_new_def)
  have at: "um_aeAuMap m k = (k mod aeCnt, k div aeCnt) \<and> um_unitMap m (k mod aeCnt) (k div aeCnt) = k \<and>
      um_numaSet m k = k mod aeCnt mod numaSetCnt" if "k < auCnt * aeCnt" for k
  proof -
    have "k < length ?ps" using that G(1) by simp
    from f [rule_format, OF this] show ?thesis unfolding G(2) [OF that] fst_conv snd_conv .
  qed
  let ?m = "m\<lparr>um_aeCnt := aeCnt\<rparr>"
  from set_counts_run [of "[0..<aeCnt]" ?m auCnt] assms(3) obtain c where
    c: "um_set_counts auCnt [0..<aeCnt] ?m = Some (?m\<lparr>um_auCnt := c\<rparr>)" "\<forall>a. c a = (if a < aeCnt then auCnt else um_auCnt m a)" by auto
  let ?r = "?m\<lparr>um_auCnt := c\<rparr>"
  have run: "um_init aeCnt auCnt numaSetCnt = Some ?r"
    using m(1) c(1) assms(2) by (simp add: um_init_def um_SetAeCnt_def)
  have unit: "um_FindAeAu k ?r = Some (k mod aeCnt, k div aeCnt) \<and> um_FindUnitId (k mod aeCnt) (k div aeCnt) ?r = Some k \<and>
      um_GetNumaSet k ?r = k mod aeCnt mod numaSetCnt" if "k < aeCnt * auCnt" for k
  proof -
    have k: "k < auCnt * aeCnt" using that by (simp add: mult.commute)
    have "k < 64" using that cnt by simp
    then show ?thesis using at [OF k] div [OF k] assms by (simp add: um_FindAeAu_def um_FindUnitId_def um_GetNumaSet_def)
  qed
  have pair: "\<exists>unitId < aeCnt * auCnt. um_FindUnitId ae au ?r = Some unitId \<and> um_FindAeAu unitId ?r = Some (ae, au)"
    if "ae < aeCnt" "au < auCnt" for ae au
  proof -
    let ?k = "au * aeCnt + ae"
    have "Suc au * aeCnt \<le> auCnt * aeCnt" using that(2) by (intro mult_le_mono1) simp
    then have "?k < aeCnt * auCnt" using that(1) by (simp add: mult.commute)
    with unit [OF this] that(1) show ?thesis by (intro exI [of _ ?k]) simp
  qed
  show ?thesis using run unit pair m(2) c(2) by (intro exI [of _ ?r]) (simp add: um_GetAuCnt_def mult.commute)
qed

text \<open>
  C14: The unit map the constructor builds is a bijection. With at most 4 engines and at most 16 units in each, no assertion
  fails, the map counts all units, FindAeAu and FindUnitId are inverse to each other, consecutive unit numbers go round the engines,
  and the NUMA set of a unit is that of its engine.
\<close>

theorem unit_map_bijective:
  assumes "0 < aeCnt" "aeCnt \<le> 4" "auCnt \<le> 16"
  shows "\<exists>m. um_init aeCnt auCnt numaSetCnt = Some m \<and> um_unitCnt m = aeCnt * auCnt \<and> um_aeCnt m = aeCnt \<and>
    (\<forall>unitId < aeCnt * auCnt. um_FindAeAu unitId m = Some (unitId mod aeCnt, unitId div aeCnt) \<and>
       um_FindUnitId (unitId mod aeCnt) (unitId div aeCnt) m = Some unitId \<and>
       um_GetNumaSet unitId m = unitId mod aeCnt mod numaSetCnt) \<and>
    (\<forall>ae < aeCnt. um_GetAuCnt ae m = auCnt \<and>
       (\<forall>au < auCnt. \<exists>unitId < aeCnt * auCnt. um_FindUnitId ae au m = Some unitId \<and> um_FindAeAu unitId m = Some (ae, au)))"
  by (rule unit_map_ok [OF assms])

theorem unit_map_bijective_witness:
  "\<exists>m. um_init 4 16 2 = Some m \<and> um_unitCnt m = 64 \<and> um_FindAeAu 7 m = Some (3, 1) \<and> um_FindUnitId 3 1 m = Some 7 \<and>
    um_GetNumaSet 7 m = 1"
proof -
  from unit_map_bijective [of 4 16 2] obtain m where m: "um_init 4 16 2 = Some m" "um_unitCnt m = 64"
    "\<forall>unitId < 64. um_FindAeAu unitId m = Some (unitId mod 4, unitId div 4) \<and>
       um_FindUnitId (unitId mod 4) (unitId div 4) m = Some unitId \<and> um_GetNumaSet unitId m = unitId mod 4 mod 2" by auto
  from m(3) [rule_format, of 7] m(1,2) show ?thesis by simp
qed

text \<open>
  What the constructor accepts. It throws exactly when a parameter is out of range, always with the parameter error, and an
  accepted parameter set has 1, 2 or 4 NUMA sets, fits the link's limits and gives blocks of a power of two of quadwords.
\<close>

lemma check_params_exact:
  "case check_params par of
     Inl (code, msg) \<Rightarrow> code = eHtBadHtHifParam \<and>
       \<not> (par_numaSetCnt par \<in> {..1} \<union> {2, 4} \<and> par_ctlQueW par \<in> {9..25} \<and> par_iBlkSizeW par \<in> {16..25} \<and>
          par_iBlkCntW par \<in> {4..6} \<and> par_oBlkSizeW par \<in> {16..25} \<and> par_oBlkCntW par \<in> {4..6})
   | Inr n \<Rightarrow> n \<in> {1, 2, 4} \<and> int n = max (par_numaSetCnt par) 1 \<and> par_ctlQueW par \<in> {9..25} \<and> par_iBlkSizeW par \<in> {16..25} \<and>
       par_iBlkCntW par \<in> {4..6} \<and> par_oBlkSizeW par \<in> {16..25} \<and> par_oBlkCntW par \<in> {4..6}"
  by (auto simp: check_params_def Let_def)

end
