(* ===== verification/HifMem.thy ===== *)
theory HifMem
  imports UnitMap "HOL-Library.Multiset"
begin

text \<open>
  The host memory shared with the coprocessor: \<^verbatim>\<open>CHtHifMem\<close> of \<^verbatim>\<open>ht_lib/host/HtHifLib.cpp\<close> and
  \<^verbatim>\<open>HtHifLib.h\<close>. One allocation holds a region per purpose; the regions are sorted, laid out one after
  the other, and cleared when their address is first asked for. The allocator is the argument
  \<open>alloc\<close> (a null or failed mapping is \<open>None\<close>), an exception is \<open>Inl\<close>, a failed assertion \<open>None\<close>. Region names are only
  printed and are left out; the bit-field \<^verbatim>\<open>m_size\<close> is the low part of \<^verbatim>\<open>m_sortKey\<close>, as the build's compilers lay it out.
\<close>

section \<open>Regions\<close>

record mem_region =
  rg_sortKey :: u64
  rg_offset :: u64
  rg_bCleared :: u8

definition rg_new :: mem_region where
  "rg_new = \<lparr>rg_sortKey = 0, rg_offset = 0, rg_bCleared = 0\<rparr>"

definition InitRegion :: "u64 \<Rightarrow> u8 \<Rightarrow> mem_region \<Rightarrow> mem_region" where
  "InitRegion size' numaSet r = r\<lparr>rg_sortKey := (size' AND mask 56) OR push_bit 56 (ucast numaSet)\<rparr>"

definition SetMemOffset :: "u64 \<Rightarrow> mem_region \<Rightarrow> mem_region" where
  "SetMemOffset offset r = r\<lparr>rg_offset := offset AND mask 56\<rparr>"

definition GetMemSize :: "mem_region \<Rightarrow> u64" where
  "GetMemSize r = rg_sortKey r AND mask 56"

definition GetNumaSet :: "mem_region \<Rightarrow> u8" where
  "GetNumaSet r = ucast (drop_bit 56 (rg_sortKey r))"

definition GetMemBase :: "u64 \<Rightarrow> mem_region \<Rightarrow> u64" where
  "GetMemBase memBase r = memBase + rg_offset r"

text \<open>The exchange sort of the region pointers; \<open>p\<close> lists the regions' indices.\<close>

definition sort_step :: "(nat \<Rightarrow> u64) \<Rightarrow> nat \<Rightarrow> nat \<Rightarrow> nat list \<Rightarrow> nat list" where
  "sort_step key i j p = (if key (p ! i) < key (p ! j) then p[i := p ! j, j := p ! i] else p)"

definition sort_row :: "(nat \<Rightarrow> u64) \<Rightarrow> nat \<Rightarrow> nat list \<Rightarrow> nat list" where
  "sort_row key i p = fold (sort_step key i) [i + 1..<length p] p"

definition sort_regions :: "(nat \<Rightarrow> u64) \<Rightarrow> nat list \<Rightarrow> nat list" where
  "sort_regions key p = fold (sort_row key) [0..<length p] p"

text \<open>The offsets, in the sorted order; a change of the NUMA set starts a new 2 MB page.\<close>

definition align_2M :: "u64 \<Rightarrow> u64" where
  "align_2M offset = (offset + 0x200000 - 1) AND NOT 0x1fffff"

fun place_regions :: "nat list \<Rightarrow> mem_region list \<Rightarrow> u64 \<Rightarrow> u8 \<Rightarrow> mem_region list \<times> u64" where
  "place_regions [] rs offset prevNumaSet = (rs, offset)"
| "place_regions (k # ks) rs offset prevNumaSet =
     (let r = rs ! k;
          offset = (if GetNumaSet r \<noteq> prevNumaSet then align_2M offset else offset);
          rs = rs[k := SetMemOffset offset r]
      in place_regions ks rs (offset + GetMemSize r) (GetNumaSet r))"

section \<open>The sort\<close>

lemma sort_step_mset: "i < length p \<Longrightarrow> j < length p \<Longrightarrow> mset (sort_step key i j p) = mset p"
  by (simp add: sort_step_def mset_swap)

lemma sort_step_length [simp]: "length (sort_step key i j p) = length p"
  by (simp add: sort_step_def)

text \<open>Descending up to \<open>i\<close>: what comes before \<open>i\<close> is not exceeded by anything behind it.\<close>

definition sorted_to :: "(nat \<Rightarrow> u64) \<Rightarrow> nat \<Rightarrow> nat list \<Rightarrow> bool" where
  "sorted_to key i p \<longleftrightarrow> (\<forall>k l. k < i \<longrightarrow> k < l \<longrightarrow> l < length p \<longrightarrow> key (p ! l) \<le> key (p ! k))"

lemma sort_step_sorted:
  assumes "sorted_to key i p" "i < j" "j < length p"
  shows "sorted_to key i (sort_step key i j p)"
  unfolding sorted_to_def
proof (intro allI impI)
  fix k l
  assume k: "k < i" "k < l" "l < length (sort_step key i j p)"
  let ?l = "if l = i then j else if l = j then i else l"
  have "key (p ! l) \<le> key (p ! k)" "key (p ! ?l) \<le> key (p ! k)"
    using assms k by (auto simp: sorted_to_def)
  then show "key (sort_step key i j p ! l) \<le> key (sort_step key i j p ! k)"
    using assms k by (auto simp: sort_step_def nth_list_update)
qed

lemma sort_steps_run:
  assumes "sorted_to key i p" "i < a" "b \<le> length p" "\<forall>l. i < l \<and> l < a \<longrightarrow> key (p ! l) \<le> key (p ! i)" "a \<le> b"
  shows "let q = fold (sort_step key i) [a..<b] p in
    sorted_to key i q \<and> mset q = mset p \<and> length q = length p \<and> (\<forall>l. i < l \<and> l < b \<longrightarrow> key (q ! l) \<le> key (q ! i))"
  using assms
proof (induction "b - a" arbitrary: a p)
  case (Suc n)
  then have a: "a < b" "[a..<b] = a # [Suc a..<b]" by (simp_all add: upt_conv_Cons)
  let ?p = "sort_step key i a p"
  have 1: "sorted_to key i ?p" using Suc.prems a by (intro sort_step_sorted) simp_all
  have 2: "\<forall>l. i < l \<and> l < Suc a \<longrightarrow> key (?p ! l) \<le> key (?p ! i)"
    using Suc.prems a by (fastforce simp: sort_step_def nth_list_update less_Suc_eq)
  have "mset ?p = mset p" using Suc.prems a by (intro sort_step_mset) simp_all
  moreover have "n = b - Suc a" "i < Suc a" "b \<le> length ?p" "Suc a \<le> b" using Suc a by simp_all
  moreover note Suc.hyps(1) [of "Suc a" ?p, OF \<open>n = b - Suc a\<close> 1 \<open>i < Suc a\<close> \<open>b \<le> length ?p\<close> 2 \<open>Suc a \<le> b\<close>]
  ultimately show ?case unfolding a(2) by (simp add: Let_def)
qed (auto simp: Let_def)

lemma sort_row_run:
  assumes "sorted_to key i p" "i < length p"
  shows "sorted_to key (Suc i) (sort_row key i p)" "mset (sort_row key i p) = mset p" "length (sort_row key i p) = length p"
proof -
  have "\<forall>l. i < l \<and> l < Suc i \<longrightarrow> key (p ! l) \<le> key (p ! i)" by auto
  from sort_steps_run [OF assms(1) _ order_refl this] assms(2) have q: "sorted_to key i (sort_row key i p)"
    "mset (sort_row key i p) = mset p" "length (sort_row key i p) = length p"
    "\<forall>l. i < l \<and> l < length p \<longrightarrow> key (sort_row key i p ! l) \<le> key (sort_row key i p ! i)"
    by (simp_all add: sort_row_def Let_def)
  then show "sorted_to key (Suc i) (sort_row key i p)" by (auto simp: sorted_to_def less_Suc_eq)
  show "mset (sort_row key i p) = mset p" "length (sort_row key i p) = length p" by (rule q(2), rule q(3))
qed

lemma sort_rows_run:
  "n \<le> length p \<Longrightarrow> let q = fold (sort_row key) [0..<n] p in sorted_to key n q \<and> mset q = mset p \<and> length q = length p"
proof (induction n)
  case (Suc n)
  then show ?case using sort_row_run [of key n "fold (sort_row key) [0..<n] p"] by (simp add: Let_def)
qed (simp add: sorted_to_def)

lemma sort_regions_ok:
  "mset (sort_regions key p) = mset p" "length (sort_regions key p) = length p"
  "\<And>k l. k < l \<Longrightarrow> l < length p \<Longrightarrow> key (sort_regions key p ! l) \<le> key (sort_regions key p ! k)"
  using sort_rows_run [of "length p" p key] by (auto simp: sort_regions_def Let_def sorted_to_def)

text \<open>A permutation in descending order of the key: by NUMA set and, within a set, by size.\<close>

lemma region_sort:
  "mset (sort_regions key p) = mset p \<and> sorted (rev (map key (sort_regions key p)))"
proof -
  let ?q = "sort_regions key p"
  have "sorted (rev (map key ?q))"
    unfolding sorted_rev_iff_nth_mono using sort_regions_ok(2,3) [where key = key and p = p]
    by (auto simp: le_less)
  then show ?thesis using sort_regions_ok(1) by blast
qed

section \<open>The layout\<close>

definition up2M :: "nat \<Rightarrow> nat" where
  "up2M n = (n + (2 ^ 21 - 1)) div 2 ^ 21 * 2 ^ 21"

lemma up2M: "n \<le> up2M n" "up2M n < n + 2 ^ 21" "2 ^ 21 dvd up2M n"
proof -
  have "up2M n + (n + (2 ^ 21 - 1)) mod 2 ^ 21 = n + (2 ^ 21 - 1)" by (simp only: up2M_def div_mult_mod_eq)
  moreover have "(n + (2 ^ 21 - 1)) mod 2 ^ 21 < (2 ^ 21 :: nat)" by (rule mod_less_divisor) simp
  ultimately show "n \<le> up2M n" "up2M n < n + 2 ^ 21" by linarith+
  show "2 ^ 21 dvd up2M n" unfolding up2M_def by (rule dvd_triv_right)
qed

lemma unat_align_2M: "unat offset + 2 ^ 21 < 2 ^ 64 \<Longrightarrow> unat (align_2M offset) = up2M (unat offset)"
proof -
  assume b: "unat offset + 2 ^ 21 < 2 ^ 64"
  have m: "(0x1fffff :: u64) = mask 21" by (simp add: mask_eq_exp_minus_1)
  have e: "offset + 0x200000 - 1 = offset + 0x1fffff" by simp
  have "unat (offset + 0x1fffff) = unat offset + 0x1fffff" using b by (simp add: unat_word_ariths)
  then have "unat (offset + 0x200000 - 1) = unat offset + (2 ^ 21 - 1)" unfolding e by (simp only:) simp
  then show ?thesis unfolding align_2M_def m unat_and_not_mask up2M_def by simp
qed

lemma SetMemOffset_simps [simp]:
  "GetMemSize (SetMemOffset x r) = GetMemSize r" "GetNumaSet (SetMemOffset x r) = GetNumaSet r"
  "rg_sortKey (SetMemOffset x r) = rg_sortKey r" "rg_bCleared (SetMemOffset x r) = rg_bCleared r"
  by (simp_all add: SetMemOffset_def GetMemSize_def GetNumaSet_def)

lemma unat_SetMemOffset: "unat x < 2 ^ 56 \<Longrightarrow> unat (rg_offset (SetMemOffset x r)) = unat x"
  by (simp add: SetMemOffset_def unat_and_mask)

definition rg_start :: "mem_region \<Rightarrow> nat" where
  "rg_start r = unat (rg_offset r)"

definition rg_end :: "mem_region \<Rightarrow> nat" where
  "rg_end r = unat (rg_offset r) + unat (GetMemSize r)"

text \<open>Room for all regions, with an alignment gap before each.\<close>

definition mem_need :: "mem_region list \<Rightarrow> nat list \<Rightarrow> nat" where
  "mem_need rs ks = (\<Sum>k\<leftarrow>ks. unat (GetMemSize (rs ! k)) + 2 ^ 21)"

text \<open>
  What the placing loop establishes from \<open>offset\<close> on: nothing else changes, the regions follow each other,
  a new NUMA set starts on a 2 MB page, and page alignment is kept as long as the sizes allow it.
\<close>

lemma place_regions_run:
  assumes "distinct ks" "\<forall>k \<in> set ks. k < length rs" "unat offset + mem_need rs ks < 2 ^ 56"
  shows "\<exists>rs' offset'. place_regions ks rs offset prev = (rs', offset') \<and> length rs' = length rs \<and>
    unat offset \<le> unat offset' \<and> unat offset' \<le> unat offset + mem_need rs ks \<and>
    (\<forall>k. k \<notin> set ks \<longrightarrow> rs' ! k = rs ! k) \<and>
    (\<forall>k < length rs. rg_sortKey (rs' ! k) = rg_sortKey (rs ! k) \<and> rg_bCleared (rs' ! k) = rg_bCleared (rs ! k)) \<and>
    (\<forall>k \<in> set ks. unat offset \<le> rg_start (rs' ! k) \<and> rg_end (rs' ! k) \<le> unat offset') \<and>
    (\<forall>a b. a < b \<longrightarrow> b < length ks \<longrightarrow> rg_end (rs' ! (ks ! a)) \<le> rg_start (rs' ! (ks ! b))) \<and>
    (\<forall>k \<in> set ks. GetNumaSet (rs ! k) \<noteq> prev \<longrightarrow> up2M (unat offset) \<le> rg_start (rs' ! k)) \<and>
    (\<forall>a b. a < b \<longrightarrow> b < length ks \<longrightarrow> GetNumaSet (rs ! (ks ! a)) \<noteq> GetNumaSet (rs ! (ks ! b)) \<longrightarrow>
       up2M (rg_end (rs' ! (ks ! a))) \<le> rg_start (rs' ! (ks ! b))) \<and>
    (4096 dvd unat offset \<and> (\<forall>a b. a < b \<longrightarrow> b < length ks \<longrightarrow> 4096 dvd unat (GetMemSize (rs ! (ks ! a))) \<or> GetMemSize (rs ! (ks ! b)) = 0) \<longrightarrow>
       (\<forall>k \<in> set ks. GetMemSize (rs ! k) = 0 \<or> 4096 dvd rg_start (rs' ! k)))"
  using assms
proof (induction ks arbitrary: rs offset prev)
  case (Cons k ks)
  let ?r = "rs ! k"
  define x where "x = (if GetNumaSet ?r \<noteq> prev then align_2M offset else offset)"
  define rs1 where "rs1 = rs[k := SetMemOffset x ?r]"
  define y where "y = x + GetMemSize ?r"
  have need: "unat offset + unat (GetMemSize ?r) + 2 ^ 21 + mem_need rs ks < 2 ^ 56" using Cons.prems(3) by (simp add: mem_need_def)
  have x: "unat x = (if GetNumaSet ?r \<noteq> prev then up2M (unat offset) else unat offset)"
    using need by (simp add: x_def unat_align_2M)
  have xb: "unat offset \<le> unat x" "unat x \<le> unat offset + 2 ^ 21" using up2M(1,2) [of "unat offset"] by (simp_all add: x)
  have y: "unat y = unat x + unat (GetMemSize ?r)" using need xb by (simp add: y_def unat_word_ariths)
  have step: "place_regions (k # ks) rs offset prev = place_regions ks rs1 y (GetNumaSet ?r)"
    by (simp add: x_def rs1_def y_def Let_def)
  have ks: "distinct ks" "k \<notin> set ks" "k < length rs" "\<forall>k \<in> set ks. k < length rs1" using Cons.prems(1,2) by (simp_all add: rs1_def)
  have same: "rs1 ! j = rs ! j" if "j \<noteq> k" for j using that by (simp add: rs1_def)
  have same_ks: "rs1 ! j = rs ! j" if "j \<in> set ks" for j using that ks(2) same by metis
  have nd: "mem_need rs1 ks = mem_need rs ks" unfolding mem_need_def using same_ks by (intro arg_cong [of _ _ sum_list] map_cong) simp_all
  have "unat y + mem_need rs1 ks < 2 ^ 56" using need xb y nd by linarith
  note IH = Cons.IH [OF ks(1,4) this, of "GetNumaSet ?r"]
  obtain rs' off' where R: "place_regions ks rs1 y (GetNumaSet ?r) = (rs', off')"
    "length rs' = length rs1" "unat y \<le> unat off'" "unat off' \<le> unat y + mem_need rs1 ks"
    "\<forall>k. k \<notin> set ks \<longrightarrow> rs' ! k = rs1 ! k"
    "\<forall>k < length rs1. rg_sortKey (rs' ! k) = rg_sortKey (rs1 ! k) \<and> rg_bCleared (rs' ! k) = rg_bCleared (rs1 ! k)"
    "\<forall>k \<in> set ks. unat y \<le> rg_start (rs' ! k) \<and> rg_end (rs' ! k) \<le> unat off'"
    "\<forall>a b. a < b \<longrightarrow> b < length ks \<longrightarrow> rg_end (rs' ! (ks ! a)) \<le> rg_start (rs' ! (ks ! b))"
    "\<forall>j \<in> set ks. GetNumaSet (rs1 ! j) \<noteq> GetNumaSet ?r \<longrightarrow> up2M (unat y) \<le> rg_start (rs' ! j)"
    "\<forall>a b. a < b \<longrightarrow> b < length ks \<longrightarrow> GetNumaSet (rs1 ! (ks ! a)) \<noteq> GetNumaSet (rs1 ! (ks ! b)) \<longrightarrow>
       up2M (rg_end (rs' ! (ks ! a))) \<le> rg_start (rs' ! (ks ! b))"
    "4096 dvd unat y \<and> (\<forall>a b. a < b \<longrightarrow> b < length ks \<longrightarrow> 4096 dvd unat (GetMemSize (rs1 ! (ks ! a))) \<or> GetMemSize (rs1 ! (ks ! b)) = 0) \<longrightarrow>
       (\<forall>k \<in> set ks. GetMemSize (rs1 ! k) = 0 \<or> 4096 dvd rg_start (rs' ! k))"
    using IH by (elim exE conjE) (rule that; assumption)
  have k: "rs' ! k = SetMemOffset x ?r" using R(5) ks(2,3) by (simp add: rs1_def)
  have start: "rg_start (rs' ! k) = unat x" "rg_end (rs' ! k) = unat y"
    using need xb y by (simp_all add: k rg_start_def rg_end_def unat_SetMemOffset)
  have atks: "ks ! b \<in> set ks" if "b < length ks" for b using that by simp
  have c1: "\<forall>j. j \<notin> set (k # ks) \<longrightarrow> rs' ! j = rs ! j" using R(5) same by simp
  have c2: "\<forall>j < length rs. rg_sortKey (rs' ! j) = rg_sortKey (rs ! j) \<and> rg_bCleared (rs' ! j) = rg_bCleared (rs ! j)"
  proof (intro allI impI)
    fix j
    assume "j < length rs"
    then show "rg_sortKey (rs' ! j) = rg_sortKey (rs ! j) \<and> rg_bCleared (rs' ! j) = rg_bCleared (rs ! j)"
      using R(6) k same [of j] by (cases "j = k") (simp_all add: rs1_def)
  qed
  have c3: "\<forall>j \<in> set (k # ks). unat offset \<le> rg_start (rs' ! j) \<and> rg_end (rs' ! j) \<le> unat off'"
    using R(3,7) start xb y by auto
  have c4: "rg_end (rs' ! ((k # ks) ! a)) \<le> rg_start (rs' ! ((k # ks) ! b))" if ab: "a < b" "b < length (k # ks)" for a b
  proof -
    obtain b' where b: "b = Suc b'" "b' < length ks" using ab by (cases b) auto
    show ?thesis using R(7,8) start b ab(1) atks [OF b(2)] by (cases a) auto
  qed
  have c5: "\<forall>j \<in> set (k # ks). GetNumaSet (rs ! j) \<noteq> prev \<longrightarrow> up2M (unat offset) \<le> rg_start (rs' ! j)"
  proof (intro ballI impI)
    fix j
    assume j: "j \<in> set (k # ks)" "GetNumaSet (rs ! j) \<noteq> prev"
    have mono: "up2M (unat offset) \<le> up2M (unat y)" unfolding up2M_def using xb(1) y by (intro mult_le_mono1 div_le_mono) simp
    show "up2M (unat offset) \<le> rg_start (rs' ! j)"
    proof (cases "j = k")
      case True
      then show ?thesis using start j x by simp
    next
      case False
      then have jk: "j \<in> set ks" using j by simp
      show ?thesis
      proof (cases "GetNumaSet ?r = prev")
        case True
        then have "GetNumaSet (rs1 ! j) \<noteq> GetNumaSet ?r" using j same_ks [OF jk] by simp
        then have "up2M (unat y) \<le> rg_start (rs' ! j)" using R(9) jk by blast
        then show ?thesis using mono by (rule order_trans [rotated])
      next
        case False
        then have "up2M (unat offset) \<le> unat y" using x y by simp
        moreover have "unat y \<le> rg_start (rs' ! j)" using R(7) jk by blast
        ultimately show ?thesis by (rule order_trans)
      qed
    qed
  qed
  have c6: "up2M (rg_end (rs' ! ((k # ks) ! a))) \<le> rg_start (rs' ! ((k # ks) ! b))"
    if ab: "a < b" "b < length (k # ks)" "GetNumaSet (rs ! ((k # ks) ! a)) \<noteq> GetNumaSet (rs ! ((k # ks) ! b))" for a b
  proof -
    obtain b' where b: "b = Suc b'" "b' < length ks" using ab by (cases b) auto
    show ?thesis
    proof (cases a)
      case 0
      then have "GetNumaSet (rs1 ! (ks ! b')) \<noteq> GetNumaSet ?r" using ab(3) b same_ks [OF atks [OF b(2)]] by simp
      then show ?thesis using R(9) atks [OF b(2)] start 0 b by simp
    next
      case (Suc a')
      then have "GetNumaSet (rs1 ! (ks ! a')) \<noteq> GetNumaSet (rs1 ! (ks ! b'))"
        using ab b same_ks [OF atks [OF b(2)]] same_ks [OF atks [of a']] by simp
      then show ?thesis using R(10) b Suc ab(1) by simp
    qed
  qed
  have c7: "GetMemSize (rs ! j) = 0 \<or> 4096 dvd rg_start (rs' ! j)"
    if h: "4096 dvd unat offset" "\<And>a b. a < b \<Longrightarrow> b < length (k # ks) \<Longrightarrow> 4096 dvd unat (GetMemSize (rs ! ((k # ks) ! a))) \<or> GetMemSize (rs ! ((k # ks) ! b)) = 0"
      and j: "j \<in> set (k # ks)" for j
  proof -
    have "(4096 :: nat) dvd 2 ^ 21" by simp
    then have dx: "4096 dvd unat x" using h(1) up2M(3) [of "unat offset"] x by (auto intro: dvd_trans)
    show ?thesis
    proof (cases "j = k")
      case True
      then show ?thesis using dx start by simp
    next
      case False
      then have jk: "j \<in> set ks" using j by simp
      then obtain b where b: "b < length ks" "j = ks ! b" by (metis in_set_conv_nth)
      show ?thesis
      proof (cases "4096 dvd unat (GetMemSize ?r)")
        case True
        have "4096 dvd unat (GetMemSize (rs1 ! (ks ! c))) \<or> GetMemSize (rs1 ! (ks ! d)) = 0" if "c < d" "d < length ks" for c d
          using h(2) [of "Suc c" "Suc d"] that same_ks [OF atks [of c]] same_ks [OF atks [of d]] by simp
        then have "\<forall>j \<in> set ks. GetMemSize (rs1 ! j) = 0 \<or> 4096 dvd rg_start (rs' ! j)" using R(11) dx y True by simp
        then show ?thesis using jk same_ks [OF jk] by metis
      next
        case False
        then show ?thesis using h(2) [of 0 "Suc b"] b by simp
      qed
    qed
  qed
  have "unat offset \<le> unat off'" "unat off' \<le> unat offset + mem_need rs (k # ks)"
    using R(3,4) xb y nd by (simp_all add: mem_need_def)
  then show ?case unfolding step
    using R(1,2) c1 c2 c3 c4 c5 c6 c7 by (intro exI [of _ rs'] exI [of _ off'] conjI) (simp_all add: rs1_def)
next
  case Nil
  then show ?case by (intro exI [of _ rs] exI [of _ offset]) (simp add: mem_need_def)
qed

section \<open>Allocation\<close>

record hif_mem =
  hm_aeCnt :: nat
  hm_regions :: "mem_region list"
  hm_memSize :: u64
  hm_ctlQueMemSize :: u32
  hm_ctlInQueMemSize :: u32
  hm_ctlOutQueMemSize :: u32
  hm_inBlkMemSize :: u64
  hm_outBlkMemSize :: u64
  hm_appUnitMemSize :: u64
  hm_unitMemSize :: u32
  hm_flushLinesMemSize :: u32
  hm_base :: u64
  hm_bHuge :: bool
  hm_bytes :: "u64 \<Rightarrow> u8"

definition round_page :: "u64 \<Rightarrow> u64" where
  "round_page x = (x + 0xfff) AND NOT 0xfff"

text \<open>The size of one unit's control queues, in \<^verbatim>\<open>uint32_t\<close>; a message is 8 bytes.\<close>

definition ctl_half_size :: "hif_params \<Rightarrow> u32" where
  "ctl_half_size par = push_bit (par_ctlQueW par) 1 * 8"

text \<open>The engines' control queue regions: the product with the number of units is 32 bits wide.\<close>

fun ctl_regions :: "unit_map \<Rightarrow> u32 \<Rightarrow> nat list \<Rightarrow> mem_region list option" where
  "ctl_regions m ctlQueMemSize [] = Some []"
| "ctl_regions m ctlQueMemSize (aeId # rest) = do {
     unitId \<leftarrow> um_FindUnitId aeId 0 m;
     rs \<leftarrow> ctl_regions m ctlQueMemSize rest;
     Some (InitRegion (ucast (ctlQueMemSize * of_nat (um_GetAuCnt aeId m))) (of_nat (um_GetNumaSet unitId m)) rg_new # rs)
   }"

definition unit_regions :: "unit_map \<Rightarrow> u64 \<Rightarrow> u64 \<Rightarrow> u64 \<Rightarrow> u32 \<Rightarrow> nat \<Rightarrow> mem_region list" where
  "unit_regions m inBlk outBlk appUnit unitMem unitId =
     (let numaSet = of_nat (um_GetNumaSet unitId m) in
      [InitRegion inBlk numaSet rg_new, InitRegion outBlk numaSet rg_new,
       InitRegion appUnit numaSet rg_new, InitRegion (ucast unitMem) numaSet rg_new])"

definition hif_regions :: "hif_params \<Rightarrow> unit_map \<Rightarrow> nat \<Rightarrow> u64 \<Rightarrow> mem_region list option" where
  "hif_regions par m unitCnt unitSize = do {
     let iBlk = 2 ^ par_iBlkSizeW par * 2 ^ par_iBlkCntW par;
     let oBlk = 2 ^ par_oBlkSizeW par * 2 ^ par_oBlkCntW par;
     ctl \<leftarrow> ctl_regions m (ctl_half_size par + ctl_half_size par) [0..<um_aeCnt m];
     Some ([InitRegion (round_page (par_appPersMemSize par)) 0 rg_new, InitRegion (64 * 8) 0 rg_new] @ ctl @
       concat (map (unit_regions m iBlk oBlk (round_page (par_appUnitMemSize par)) (ucast (round_page unitSize))) [0..<unitCnt]))
   }"

definition place_all :: "mem_region list \<Rightarrow> mem_region list \<times> u64" where
  "place_all rs = place_regions (sort_regions (\<lambda>k. rg_sortKey (rs ! k)) [0..<length rs]) rs 0 255"

abbreviation HUGE_PAGE_SIZE :: u64 where "HUGE_PAGE_SIZE \<equiv> 0x40000000"

definition AllocHifMem ::
  "hif_params \<Rightarrow> unit_map \<Rightarrow> nat \<Rightarrow> u64 \<Rightarrow> bool \<Rightarrow> (bool \<Rightarrow> u64 \<Rightarrow> u64 option) \<Rightarrow> (u64 \<Rightarrow> u8) \<Rightarrow> (ht_exception + hif_mem) option" where
  "AllocHifMem par m unitCnt unitSize huge alloc bytes = do {
     rs \<leftarrow> hif_regions par m unitCnt unitSize;
     let (rs, offset) = place_all rs;
     let memSize = align_2M offset;
     if huge \<and> memSize > HUGE_PAGE_SIZE then
       Some (Inl (eHtBadHostAlloc, ''HostMemAllocHuge is currently limited to a single 1GB page''))
     else case alloc huge memSize of
       None \<Rightarrow> Some (Inl (eHtBadHostAlloc, ''unable to alloc host memory''))
     | Some base \<Rightarrow> Some (Inr \<lparr>hm_aeCnt = um_aeCnt m, hm_regions = rs, hm_memSize = memSize,
         hm_ctlQueMemSize = ctl_half_size par + ctl_half_size par,
         hm_ctlInQueMemSize = ctl_half_size par, hm_ctlOutQueMemSize = ctl_half_size par,
         hm_inBlkMemSize = 2 ^ par_iBlkSizeW par * 2 ^ par_iBlkCntW par,
         hm_outBlkMemSize = 2 ^ par_oBlkSizeW par * 2 ^ par_oBlkCntW par,
         hm_appUnitMemSize = round_page (par_appUnitMemSize par),
         hm_unitMemSize = ucast (round_page unitSize),
         hm_flushLinesMemSize = 64 * 8, hm_base = base, hm_bHuge = huge, hm_bytes = bytes\<rparr>)
   }"

section \<open>Clearing and bases\<close>

abbreviation HT_HIF_MEM_BLK_IN :: nat where "HT_HIF_MEM_BLK_IN \<equiv> 0"
abbreviation HT_HIF_MEM_BLK_OUT :: nat where "HT_HIF_MEM_BLK_OUT \<equiv> 1"
abbreviation HT_HIF_MEM_APP_UNIT :: nat where "HT_HIF_MEM_APP_UNIT \<equiv> 2"
abbreviation HT_HIF_MEM_UNIT :: nat where "HT_HIF_MEM_UNIT \<equiv> 3"
abbreviation HT_HIF_MEM_REGIONS :: nat where "HT_HIF_MEM_REGIONS \<equiv> 4"

text \<open>\<^verbatim>\<open>memset(base, 0, size)\<close>; the addresses of a region do not wrap.\<close>

definition zero_bytes :: "u64 \<Rightarrow> u64 \<Rightarrow> (u64 \<Rightarrow> u8) \<Rightarrow> u64 \<Rightarrow> u8" where
  "zero_bytes base size' mem = (\<lambda>a. if base \<le> a \<and> a - base < size' then 0 else mem a)"

definition ClearMemRegion :: "nat \<Rightarrow> hif_mem \<Rightarrow> hif_mem" where
  "ClearMemRegion region s =
     (let r = hm_regions s ! region in
      if rg_bCleared r \<noteq> 0 then s
      else s\<lparr>hm_bytes := zero_bytes (GetMemBase (hm_base s) r) (GetMemSize r) (hm_bytes s),
             hm_regions := (hm_regions s)[region := r\<lparr>rg_bCleared := 1\<rparr>]\<rparr>)"

definition InitHifMemory :: "hif_mem \<Rightarrow> hif_mem" where
  "InitHifMemory s = fold ClearMemRegion [0..<length (hm_regions s)] s"

definition region_base :: "nat \<Rightarrow> u64 \<Rightarrow> hif_mem \<Rightarrow> u64 \<times> hif_mem" where
  "region_base region regionOffset s =
     (let s = ClearMemRegion region s in (GetMemBase (hm_base s) (hm_regions s ! region) + regionOffset, s))"

definition GetAppPersMemBase :: "hif_mem \<Rightarrow> u64 \<times> hif_mem" where
  "GetAppPersMemBase s = region_base 0 0 s"

definition GetFlushLinesBase :: "hif_mem \<Rightarrow> u64 \<times> hif_mem" where
  "GetFlushLinesBase s = region_base 1 0 s"

definition GetCtlQueMemBase :: "nat \<Rightarrow> hif_mem \<Rightarrow> u64 \<times> hif_mem" where
  "GetCtlQueMemBase aeIdx s = region_base (2 + aeIdx) 0 s"

definition GetCtlInQueMemBase :: "unit_map \<Rightarrow> nat \<Rightarrow> hif_mem \<Rightarrow> (u64 \<times> hif_mem) option" where
  "GetCtlInQueMemBase m unitId s = do {
     (ae, au) \<leftarrow> um_FindAeAu unitId m;
     Some (region_base (2 + ae) (ucast (hm_ctlQueMemSize s * of_nat au)) s)
   }"

definition GetCtlOutQueMemBase :: "unit_map \<Rightarrow> nat \<Rightarrow> hif_mem \<Rightarrow> (u64 \<times> hif_mem) option" where
  "GetCtlOutQueMemBase m unitId s = do {
     (ae, au) \<leftarrow> um_FindAeAu unitId m;
     Some (region_base (2 + ae) (ucast (hm_ctlQueMemSize s * of_nat au + hm_ctlInQueMemSize s)) s)
   }"

definition unit_region :: "nat \<Rightarrow> nat \<Rightarrow> hif_mem \<Rightarrow> nat" where
  "unit_region unitId which s = 2 + hm_aeCnt s + unitId * HT_HIF_MEM_REGIONS + which"

definition GetInBlkBase :: "nat \<Rightarrow> hif_mem \<Rightarrow> u64 \<times> hif_mem" where
  "GetInBlkBase unitId s = region_base (unit_region unitId HT_HIF_MEM_BLK_IN s) 0 s"

definition GetOutBlkBase :: "nat \<Rightarrow> hif_mem \<Rightarrow> u64 \<times> hif_mem" where
  "GetOutBlkBase unitId s = region_base (unit_region unitId HT_HIF_MEM_BLK_OUT s) 0 s"

definition GetAppUnitMemBase :: "nat \<Rightarrow> hif_mem \<Rightarrow> u64 \<times> hif_mem" where
  "GetAppUnitMemBase unitId s = region_base (unit_region unitId HT_HIF_MEM_APP_UNIT s) 0 s"

definition GetUnitMemBase :: "nat \<Rightarrow> hif_mem \<Rightarrow> u64 \<times> hif_mem" where
  "GetUnitMemBase unitId s = region_base (unit_region unitId HT_HIF_MEM_UNIT s) 0 s"

text \<open>The argument the coprocessor is dispatched with, per engine: the queues' base and their width.\<close>

definition dispatch_arg :: "hif_params \<Rightarrow> nat \<Rightarrow> hif_mem \<Rightarrow> u64 \<times> hif_mem" where
  "dispatch_arg par aeIdx s =
     (let (base, s) = GetCtlQueMemBase aeIdx s
      in ((base AND 0xFFFFFFFFFFFF) OR (push_bit 48 (of_nat (par_ctlQueW par)) AND 0xFFFF000000000000), s))"

section \<open>The regions of an allocation\<close>

lemma mem_need_perm:
  assumes "mset ks = mset ls"
  shows "mem_need rs ks = mem_need rs ls"
proof -
  have "mset (map f ks) = mset (map f ls)" for f :: "nat \<Rightarrow> nat" using assms by simp
  then show ?thesis unfolding mem_need_def by (metis sum_mset_sum_list)
qed

text \<open>The layout of any list of regions that fits in the 56-bit offset.\<close>

lemma place_all_run:
  assumes "mem_need rs [0..<length rs] < 2 ^ 56"
  shows "\<exists>rs' offset. place_all rs = (rs', offset) \<and> length rs' = length rs \<and> unat offset \<le> mem_need rs [0..<length rs] \<and>
    (\<forall>k < length rs. rg_sortKey (rs' ! k) = rg_sortKey (rs ! k) \<and> rg_bCleared (rs' ! k) = rg_bCleared (rs ! k)) \<and>
    (\<forall>k < length rs. rg_end (rs' ! k) \<le> unat offset) \<and>
    (\<forall>i < length rs. \<forall>j < length rs. i \<noteq> j \<longrightarrow> rg_end (rs' ! i) \<le> rg_start (rs' ! j) \<or> rg_end (rs' ! j) \<le> rg_start (rs' ! i)) \<and>
    (\<forall>i < length rs. \<forall>j < length rs. GetNumaSet (rs ! i) \<noteq> GetNumaSet (rs ! j) \<longrightarrow>
       up2M (rg_end (rs' ! i)) \<le> rg_start (rs' ! j) \<or> up2M (rg_end (rs' ! j)) \<le> rg_start (rs' ! i)) \<and>
    ((\<forall>i < length rs. \<forall>j < length rs. i \<noteq> j \<longrightarrow> rg_sortKey (rs ! j) \<le> rg_sortKey (rs ! i) \<longrightarrow>
        4096 dvd unat (GetMemSize (rs ! i)) \<or> GetMemSize (rs ! j) = 0) \<longrightarrow>
       (\<forall>k < length rs. GetMemSize (rs ! k) = 0 \<or> 4096 dvd rg_start (rs' ! k)))"
proof -
  define key where "key k = rg_sortKey (rs ! k)" for k
  define ks where "ks = sort_regions key [0..<length rs]"
  have m: "mset ks = mset [0..<length rs]" and n: "length ks = length rs"
    and so: "\<And>a b. a < b \<Longrightarrow> b < length rs \<Longrightarrow> key (ks ! b) \<le> key (ks ! a)"
    using sort_regions_ok [where key = key and p = "[0..<length rs]"] by (simp_all add: ks_def)
  have ds: "distinct ks" "set ks = {0..<length rs}"
    using m mset_eq_imp_distinct_iff [OF m] mset_eq_setD [OF m] by simp_all
  have need: "unat (0 :: u64) + mem_need rs ks < 2 ^ 56" using assms mem_need_perm [OF m] by simp
  have "\<forall>k \<in> set ks. k < length rs" using ds by simp
  note P = place_regions_run [OF ds(1) this need, of 255]
  obtain rs' off where R: "place_regions ks rs 0 255 = (rs', off)" "length rs' = length rs" "unat off \<le> unat (0 :: u64) + mem_need rs ks"
    "\<forall>k < length rs. rg_sortKey (rs' ! k) = rg_sortKey (rs ! k) \<and> rg_bCleared (rs' ! k) = rg_bCleared (rs ! k)"
    "\<forall>k \<in> set ks. unat (0 :: u64) \<le> rg_start (rs' ! k) \<and> rg_end (rs' ! k) \<le> unat off"
    "\<forall>a b. a < b \<longrightarrow> b < length ks \<longrightarrow> rg_end (rs' ! (ks ! a)) \<le> rg_start (rs' ! (ks ! b))"
    "\<forall>a b. a < b \<longrightarrow> b < length ks \<longrightarrow> GetNumaSet (rs ! (ks ! a)) \<noteq> GetNumaSet (rs ! (ks ! b)) \<longrightarrow>
       up2M (rg_end (rs' ! (ks ! a))) \<le> rg_start (rs' ! (ks ! b))"
    "4096 dvd unat (0 :: u64) \<and> (\<forall>a b. a < b \<longrightarrow> b < length ks \<longrightarrow> 4096 dvd unat (GetMemSize (rs ! (ks ! a))) \<or> GetMemSize (rs ! (ks ! b)) = 0) \<longrightarrow>
       (\<forall>k \<in> set ks. GetMemSize (rs ! k) = 0 \<or> 4096 dvd rg_start (rs' ! k))"
    using P by (elim exE conjE) (rule that; assumption)
  have pos: "\<exists>a < length ks. ks ! a = i" if "i < length rs" for i
    using that ds(2) by (metis atLeastLessThan_iff in_set_conv_nth zero_le)
  have two: "rg_end (rs' ! i) \<le> rg_start (rs' ! j) \<or> rg_end (rs' ! j) \<le> rg_start (rs' ! i)" if ij: "i < length rs" "j < length rs" "i \<noteq> j" for i j
  proof -
    from pos ij obtain a b where "a < length ks" "ks ! a = i" "b < length ks" "ks ! b = j" by metis
    then show ?thesis using R(6) ij(3) by (cases a b rule: linorder_cases) auto
  qed
  have numa: "up2M (rg_end (rs' ! i)) \<le> rg_start (rs' ! j) \<or> up2M (rg_end (rs' ! j)) \<le> rg_start (rs' ! i)"
    if ij: "i < length rs" "j < length rs" "GetNumaSet (rs ! i) \<noteq> GetNumaSet (rs ! j)" for i j
  proof -
    from pos ij obtain a b where "a < length ks" "ks ! a = i" "b < length ks" "ks ! b = j" by metis
    then show ?thesis using R(7) ij(3) by (cases a b rule: linorder_cases) auto
  qed
  have al: "GetMemSize (rs ! k) = 0 \<or> 4096 dvd rg_start (rs' ! k)" if h: "\<forall>i < length rs. \<forall>j < length rs. i \<noteq> j \<longrightarrow> rg_sortKey (rs ! j) \<le> rg_sortKey (rs ! i) \<longrightarrow>
        4096 dvd unat (GetMemSize (rs ! i)) \<or> GetMemSize (rs ! j) = 0" and k: "k < length rs" for k
  proof -
    have "4096 dvd unat (GetMemSize (rs ! (ks ! a))) \<or> GetMemSize (rs ! (ks ! b)) = 0" if ab: "a < b" "b < length ks" for a b
    proof -
      have "ks ! a \<noteq> ks ! b" using ab ds(1) by (simp add: nth_eq_iff_index_eq)
      moreover have "ks ! a < length rs" "ks ! b < length rs" using ab ds(2) nth_mem [of a ks] nth_mem [of b ks] by auto
      ultimately show ?thesis using h so [of a b] ab n by (simp add: key_def)
    qed
    then show ?thesis using R(8) k ds(2) by simp
  qed
  have "place_all rs = (rs', off)" using R(1) by (simp add: place_all_def ks_def key_def [abs_def])
  then show ?thesis using R(2-5) two numa al ds(2) mem_need_perm [OF m, of rs]
    by (intro exI [of _ rs'] exI [of _ off] conjI) simp_all
qed

section \<open>Page sizes\<close>

definition paged :: "mem_region \<Rightarrow> bool" where
  "paged r \<longleftrightarrow> 4096 dvd unat (GetMemSize r)"

lemma paged_Init:
  assumes "4096 dvd unat size'"
  shows "paged (InitRegion size' numaSet r)"
proof -
  have "GetMemSize (InitRegion size' numaSet r) = size' AND mask 56"
    unfolding GetMemSize_def InitRegion_def by (rule bit_word_eqI) (auto simp: bit_simps)
  then have "unat (GetMemSize (InitRegion size' numaSet r)) = unat size' mod 2 ^ 56" by (simp add: unat_and_mask)
  moreover have "(4096::nat) dvd 2 ^ 56" by simp
  ultimately show ?thesis using assms by (simp add: paged_def dvd_mod)
qed

lemma unat_u64_u32: "unat (ucast (x :: u32) :: u64) = unat x"
  using unsigned_less [of x, where 'a = nat] by (simp add: unsigned_ucast_eq take_bit_nat_eq_self)

lemma unat_u32_u64: "unat (ucast (x :: u64) :: u32) = unat x mod 2 ^ 32"
  by (simp add: unsigned_ucast_eq take_bit_eq_mod)

lemma page_mod: "4096 dvd n \<Longrightarrow> 12 \<le> k \<Longrightarrow> (4096 :: nat) dvd n mod 2 ^ k"
proof -
  assume a: "4096 dvd n" "12 \<le> k"
  have "(2::nat) ^ 12 dvd 2 ^ k" using a(2) by (rule le_imp_power_dvd)
  then show ?thesis using a(1) by (simp add: dvd_mod)
qed

lemma page_round: "4096 dvd unat (round_page x)"
proof -
  have m: "(0xfff :: u64) = mask 12" by (simp add: mask_eq_exp_minus_1)
  show ?thesis unfolding round_page_def m unat_and_not_mask by simp
qed

lemma page_pow: "12 \<le> a \<Longrightarrow> 4096 dvd unat (2 ^ a * x :: u64)"
proof -
  assume a: "12 \<le> a"
  have "(2::nat) ^ 12 dvd 2 ^ a" using a by (rule le_imp_power_dvd)
  then have "4096 dvd 2 ^ a * unat x" by simp
  moreover have "(2 ^ a * x :: u64) = of_nat (2 ^ a * unat x)" by simp
  then have "unat (2 ^ a * x :: u64) = 2 ^ a * unat x mod 2 ^ 64" by (simp only: unat_of_nat) simp
  ultimately show ?thesis using page_mod [of _ 64] by simp
qed

lemma unat_ctl_half: "unat (ctl_half_size par) = 2 ^ (par_ctlQueW par + 3) mod 2 ^ 32"
proof -
  have "ctl_half_size par = of_nat (2 ^ (par_ctlQueW par + 3))"
    by (simp add: ctl_half_size_def push_bit_eq_mult power_add)
  then show ?thesis by (simp only: unat_of_nat) simp
qed

lemma page_ctl:
  assumes "9 \<le> par_ctlQueW par"
  shows "4096 dvd unat ((ctl_half_size par + ctl_half_size par) * of_nat n)"
proof -
  have "(ctl_half_size par + ctl_half_size par) * of_nat n = of_nat (2 ^ (par_ctlQueW par + 4) * n)"
    by (simp add: ctl_half_size_def push_bit_eq_mult power_add)
  then have e: "unat ((ctl_half_size par + ctl_half_size par) * of_nat n) = 2 ^ (par_ctlQueW par + 4) * n mod 2 ^ 32"
    by (simp only: unat_of_nat) simp
  have "(2::nat) ^ 12 dvd 2 ^ (par_ctlQueW par + 4)" using assms by (intro le_imp_power_dvd) simp
  then have "4096 dvd 2 ^ (par_ctlQueW par + 4) * n" by simp
  then show ?thesis unfolding e by (rule page_mod) simp
qed

lemma ctl_regions_paged:
  "ctl_regions m (ctl_half_size par + ctl_half_size par) as = Some rs \<Longrightarrow> 9 \<le> par_ctlQueW par \<Longrightarrow> r \<in> set rs \<Longrightarrow> paged r"
proof (induction as arbitrary: rs)
  case (Cons a as)
  then show ?case
    by (auto simp: bind_eq_Some_conv unat_u64_u32 intro!: paged_Init page_ctl [unfolded mult_2 [symmetric]])
qed simp

lemma hif_regions_paged:
  assumes "hif_regions par m unitCnt unitSize = Some rs" "9 \<le> par_ctlQueW par" "16 \<le> par_iBlkSizeW par" "16 \<le> par_oBlkSizeW par"
  shows "\<exists>r rest. rs = r # InitRegion (64 * 8) 0 rg_new # rest \<and> (\<forall>x \<in> set (r # rest). paged x)"
proof -
  from assms(1) obtain ctl where c: "ctl_regions m (ctl_half_size par + ctl_half_size par) [0..<um_aeCnt m] = Some ctl"
    and rs: "rs = [InitRegion (round_page (par_appPersMemSize par)) 0 rg_new, InitRegion (64 * 8) 0 rg_new] @ ctl @
       concat (map (unit_regions m (2 ^ par_iBlkSizeW par * 2 ^ par_iBlkCntW par) (2 ^ par_oBlkSizeW par * 2 ^ par_oBlkCntW par)
         (round_page (par_appUnitMemSize par)) (ucast (round_page unitSize))) [0..<unitCnt])"
    unfolding hif_regions_def by (auto simp: Let_def bind_eq_Some_conv)
  have w: "4096 dvd unat (ucast (ucast (round_page unitSize) :: u32) :: u64)"
    unfolding unat_u64_u32 unat_u32_u64 by (rule page_mod [OF page_round]) simp
  have "paged x" if "x \<in> set (unit_regions m (2 ^ par_iBlkSizeW par * 2 ^ par_iBlkCntW par) (2 ^ par_oBlkSizeW par * 2 ^ par_oBlkCntW par)
         (round_page (par_appUnitMemSize par)) (ucast (round_page unitSize)) u)" for x u
    using that assms(3,4) unfolding unit_regions_def Let_def
    by (auto intro!: paged_Init page_pow page_round w)
  moreover have "paged (InitRegion (round_page (par_appPersMemSize par)) 0 rg_new)" by (intro paged_Init page_round)
  ultimately show ?thesis using ctl_regions_paged [OF c assms(2)] by (auto simp: rs)
qed

text \<open>Placing changes offsets only.\<close>

lemma place_regions_keys:
  "place_regions ks rs offset prev = (rs', offset') \<Longrightarrow> map rg_sortKey rs' = map rg_sortKey rs"
proof (induction ks arbitrary: rs offset prev)
  case (Cons k ks)
  from Cons.prems obtain x prev' y where "place_regions ks (rs[k := SetMemOffset x (rs ! k)]) y prev' = (rs', offset')"
    by (auto simp: Let_def split: if_splits)
  from Cons.IH [OF this] show ?case by (simp add: map_update) (metis list_update_id map_update)
qed simp

lemma place_regions_cleared:
  "place_regions ks rs offset prev = (rs', offset') \<Longrightarrow> map rg_bCleared rs' = map rg_bCleared rs"
proof (induction ks arbitrary: rs offset prev)
  case (Cons k ks)
  from Cons.prems obtain x prev' y where "place_regions ks (rs[k := SetMemOffset x (rs ! k)]) y prev' = (rs', offset')"
    by (auto simp: Let_def split: if_splits)
  from Cons.IH [OF this] show ?case by (simp add: map_update) (metis list_update_id map_update)
qed simp

lemma keys_sizes: "map rg_sortKey rs = map rg_sortKey rs' \<Longrightarrow> map GetMemSize rs = map GetMemSize rs'"
proof -
  assume a: "map rg_sortKey rs = map rg_sortKey rs'"
  have e: "map GetMemSize xs = map (\<lambda>x. x AND mask 56) (map rg_sortKey xs)" for xs by (simp add: GetMemSize_def)
  show ?thesis unfolding e a ..
qed

lemma mem_need_all: "mem_need rs [0..<length rs] = (\<Sum>r\<leftarrow>rs. unat (GetMemSize r) + 2 ^ 21)"
proof -
  have "map (\<lambda>k. unat (GetMemSize (rs ! k)) + 2 ^ 21) [0..<length rs] = map (\<lambda>r. unat (GetMemSize r) + 2 ^ 21) (map ((!) rs) [0..<length rs])"
    by simp
  then show ?thesis unfolding mem_need_def map_nth by (simp only:)
qed

text \<open>The flush lines are the one region that is not a number of pages; only empty regions have a smaller key.\<close>

lemma hif_regions_order:
  assumes R: "hif_regions par m unitCnt unitSize = Some rs" "9 \<le> par_ctlQueW par" "16 \<le> par_iBlkSizeW par" "16 \<le> par_oBlkSizeW par"
    and ij: "i < length rs" "j < length rs" "i \<noteq> j" "rg_sortKey (rs ! j) \<le> rg_sortKey (rs ! i)"
  shows "4096 dvd unat (GetMemSize (rs ! i)) \<or> GetMemSize (rs ! j) = 0"
proof (cases "paged (rs ! i)")
  case False
  obtain r rest where rs: "rs = r # InitRegion (64 * 8) 0 rg_new # rest" and pg: "\<forall>x \<in> set (r # rest). paged x"
    using hif_regions_paged [OF R] by blast
  have at: "k = 1 \<or> paged (rs ! k)" if "k < length rs" for k
  proof (cases k)
    case (Suc k')
    then show ?thesis using that pg by (cases k') (simp_all add: rs)
  qed (use pg in \<open>simp add: rs\<close>)
  have i: "i = 1" and j: "paged (rs ! j)" using at [OF ij(1)] at [OF ij(2)] False ij(3) by auto
  have k512: "rg_sortKey (rs ! i) = 512" by (simp add: i rs InitRegion_def mask_eq_exp_minus_1)
  have "rg_sortKey (rs ! j) AND mask 56 \<le> rg_sortKey (rs ! j)" by (rule word_and_le2)
  then have "GetMemSize (rs ! j) \<le> 512" using ij(4) k512 unfolding GetMemSize_def by simp
  then have "unat (GetMemSize (rs ! j)) \<le> 512" by (simp add: word_le_nat_alt)
  moreover have "4096 dvd unat (GetMemSize (rs ! j))" using j by (simp add: paged_def)
  ultimately have "unat (GetMemSize (rs ! j)) = 0" using dvd_imp_le by fastforce
  then show ?thesis by (simp add: unat_eq_0)
qed (simp add: paged_def)

lemma alloc_layout:
  assumes par: "check_params par = Inr numaSetCnt"
    and alloc: "AllocHifMem par m unitCnt unitSize huge alloc bytes = Some (Inr s)"
    and fits: "(\<Sum>r\<leftarrow>hm_regions s. unat (GetMemSize r) + 2 ^ 21) < 2 ^ 56"
  shows "let rs = hm_regions s; n = length rs in
    (\<forall>i < n. rg_end (rs ! i) \<le> unat (hm_memSize s)) \<and> 2 ^ 21 dvd unat (hm_memSize s) \<and>
    (\<forall>i < n. \<forall>j < n. i \<noteq> j \<longrightarrow> rg_end (rs ! i) \<le> rg_start (rs ! j) \<or> rg_end (rs ! j) \<le> rg_start (rs ! i)) \<and>
    (\<forall>i < n. \<forall>j < n. GetNumaSet (rs ! i) \<noteq> GetNumaSet (rs ! j) \<longrightarrow>
       up2M (rg_end (rs ! i)) \<le> rg_start (rs ! j) \<or> up2M (rg_end (rs ! j)) \<le> rg_start (rs ! i)) \<and>
    (\<forall>i < n. GetMemSize (rs ! i) = 0 \<or> 4096 dvd rg_start (rs ! i))"
proof -
  have w: "9 \<le> par_ctlQueW par" "16 \<le> par_iBlkSizeW par" "16 \<le> par_oBlkSizeW par"
    using par by (auto simp: check_params_def Let_def split: if_splits)
  from alloc obtain rs0 where r0: "hif_regions par m unitCnt unitSize = Some rs0"
    unfolding AllocHifMem_def Let_def by (cases "hif_regions par m unitCnt unitSize") simp_all
  obtain rs off where r1: "place_all rs0 = (rs, off)" by (cases "place_all rs0")
  from alloc have s: "hm_regions s = rs" "hm_memSize s = align_2M off"
    by (auto simp: AllocHifMem_def Let_def r0 r1 split: if_splits option.splits)
  have keys: "map rg_sortKey rs = map rg_sortKey rs0" using r1 unfolding place_all_def by (rule place_regions_keys)
  have need: "mem_need rs0 [0..<length rs0] = mem_need rs [0..<length rs]"
    unfolding mem_need_all using arg_cong [OF keys_sizes [OF keys], of "\<lambda>l. sum_list (map (\<lambda>x. unat x + 2 ^ 21) l)"] by (simp add: comp_def)
  have len: "length rs = length rs0" using keys by (rule map_eq_imp_length_eq)
  have numa: "GetNumaSet (rs ! k) = GetNumaSet (rs0 ! k)" "GetMemSize (rs ! k) = GetMemSize (rs0 ! k)" if "k < length rs0" for k
  proof -
    have "rg_sortKey (rs ! k) = rg_sortKey (rs0 ! k)" using arg_cong [OF keys, of "\<lambda>l. l ! k"] that len by simp
    then show "GetNumaSet (rs ! k) = GetNumaSet (rs0 ! k)" "GetMemSize (rs ! k) = GetMemSize (rs0 ! k)"
      by (simp_all add: GetNumaSet_def GetMemSize_def)
  qed
  have fit: "mem_need rs [0..<length rs] < 2 ^ 56" using fits unfolding mem_need_all s(1) .
  note P = place_all_run [of rs0, unfolded r1 need, OF fit]
  have P: "unat off \<le> mem_need rs [0..<length rs]" "\<forall>k < length rs0. rg_end (rs ! k) \<le> unat off"
    "\<forall>i < length rs0. \<forall>j < length rs0. i \<noteq> j \<longrightarrow> rg_end (rs ! i) \<le> rg_start (rs ! j) \<or> rg_end (rs ! j) \<le> rg_start (rs ! i)"
    "\<forall>i < length rs0. \<forall>j < length rs0. GetNumaSet (rs0 ! i) \<noteq> GetNumaSet (rs0 ! j) \<longrightarrow>
       up2M (rg_end (rs ! i)) \<le> rg_start (rs ! j) \<or> up2M (rg_end (rs ! j)) \<le> rg_start (rs ! i)"
    "\<forall>k < length rs0. GetMemSize (rs0 ! k) = 0 \<or> 4096 dvd rg_start (rs ! k)"
    using P hif_regions_order [OF r0 w] by auto
  have up: "unat (hm_memSize s) = up2M (unat off)" unfolding s(2) using P(1) fit by (intro unat_align_2M) simp
  have "\<forall>i < length rs. rg_end (rs ! i) \<le> unat (hm_memSize s)" using P(2) up2M(1) [of "unat off"] by (auto simp: up len intro: le_trans)
  moreover have "2 ^ 21 dvd unat (hm_memSize s)" unfolding up by (rule up2M(3))
  ultimately show ?thesis unfolding Let_def s(1) using P(3-5) numa by (simp add: len)
qed

text \<open>
  C10: The layout of the memory shared with the coprocessor. For accepted parameters and region sizes that fit the 56-bit offset field,
  every region lies inside the allocation, whose size is a multiple of 2 MB; no two regions overlap; the regions of different NUMA
  sets never share a 2 MB page; and every non-empty region starts on a 4096-byte page.
\<close>

theorem hif_layout:
  assumes par: "check_params par = Inr numaSetCnt"
    and alloc: "AllocHifMem par m unitCnt unitSize huge alloc bytes = Some (Inr s)"
    and fits: "(\<Sum>r\<leftarrow>hm_regions s. unat (GetMemSize r) + 2 ^ 21) < 2 ^ 56"
  shows "let rs = hm_regions s; n = length rs in
    (\<forall>i < n. rg_end (rs ! i) \<le> unat (hm_memSize s)) \<and> 2 ^ 21 dvd unat (hm_memSize s) \<and>
    (\<forall>i < n. \<forall>j < n. i \<noteq> j \<longrightarrow> rg_end (rs ! i) \<le> rg_start (rs ! j) \<or> rg_end (rs ! j) \<le> rg_start (rs ! i)) \<and>
    (\<forall>i < n. \<forall>j < n. GetNumaSet (rs ! i) \<noteq> GetNumaSet (rs ! j) \<longrightarrow>
       up2M (rg_end (rs ! i)) \<le> rg_start (rs ! j) \<or> up2M (rg_end (rs ! j)) \<le> rg_start (rs ! i)) \<and>
    (\<forall>i < n. GetMemSize (rs ! i) = 0 \<or> 4096 dvd rg_start (rs ! i))"
  by (rule alloc_layout [OF par alloc fits])

text \<open>An allocation that succeeds, and the sizes of its regions: those that were asked for.\<close>

lemma alloc_regions:
  assumes "AllocHifMem par m unitCnt unitSize huge alloc bytes = Some (Inr s)"
  obtains rs0 where "hif_regions par m unitCnt unitSize = Some rs0"
    "map rg_sortKey (hm_regions s) = map rg_sortKey rs0" "map rg_bCleared (hm_regions s) = map rg_bCleared rs0"
    "hm_bytes s = bytes" "hm_ctlQueMemSize s = ctl_half_size par + ctl_half_size par" "hm_ctlInQueMemSize s = ctl_half_size par"
    "hm_aeCnt s = um_aeCnt m"
proof -
  from assms obtain rs0 where r0: "hif_regions par m unitCnt unitSize = Some rs0"
    unfolding AllocHifMem_def Let_def by (cases "hif_regions par m unitCnt unitSize") simp_all
  obtain rs off where r1: "place_all rs0 = (rs, off)" by (cases "place_all rs0")
  from assms have s: "hm_regions s = rs" "hm_bytes s = bytes" "hm_ctlQueMemSize s = ctl_half_size par + ctl_half_size par"
    "hm_ctlInQueMemSize s = ctl_half_size par" "hm_aeCnt s = um_aeCnt m"
    by (auto simp: AllocHifMem_def Let_def r0 r1 split: if_splits option.splits)
  have "map rg_sortKey rs = map rg_sortKey rs0" "map rg_bCleared rs = map rg_bCleared rs0"
    using r1 unfolding place_all_def by (rule place_regions_keys, rule place_regions_cleared)
  with r0 s that show ?thesis by simp
qed

text \<open>A sample: the default parameters, one engine with one unit, an allocation at 4 MB.\<close>

definition samp_map :: unit_map where
  "samp_map = um_new\<lparr>um_aeCnt := 1, um_unitCnt := 1, um_auCnt := (\<lambda>_. 0)(0 := 1)\<rparr>"

definition samp_mem :: "(ht_exception + hif_mem) option" where
  "samp_mem = AllocHifMem CHtHifParams samp_map 1 5000 False (\<lambda>_ _. Some 0x400000) (\<lambda>_. 170)"

lemma samp_regions:
  "hif_regions CHtHifParams samp_map 1 5000 = Some (map (\<lambda>z. InitRegion z 0 rg_new) [0, 512, 0x2000, 0x100000, 0x100000, 0, 0x2000])"
  by (simp add: hif_regions_def samp_map_def um_new_def um_FindUnitId_def um_GetNumaSet_def um_GetAuCnt_def ctl_half_size_def
      CHtHifParams_def unit_regions_def round_page_def Let_def)

definition samp_place :: "mem_region list" where
  "samp_place = map (\<lambda>(z, x). \<lparr>rg_sortKey = z, rg_offset = x, rg_bCleared = 0\<rparr>) [(0, 0x204200), (512, 0x204000), (0x2000, 0x200000),
     (0x100000, 0), (0x100000, 0x100000), (0, 0x204200), (0x2000, 0x202000)]"

definition samp_state :: hif_mem where
  "samp_state = \<lparr>hm_aeCnt = 1, hm_regions = samp_place, hm_memSize = 0x400000, hm_ctlQueMemSize = 0x2000, hm_ctlInQueMemSize = 0x1000,
     hm_ctlOutQueMemSize = 0x1000, hm_inBlkMemSize = 0x100000, hm_outBlkMemSize = 0x100000, hm_appUnitMemSize = 0, hm_unitMemSize = 0x2000,
     hm_flushLinesMemSize = 512, hm_base = 0x400000, hm_bHuge = False, hm_bytes = (\<lambda>_. 170)\<rparr>"

lemma samp_placed:
  "place_all (map (\<lambda>z. InitRegion z 0 rg_new) [0, 512, 0x2000, 0x100000, 0x100000, 0, 0x2000]) = (samp_place, 0x204200)"
  by code_simp

lemma samp_alloc: "samp_mem = Some (Inr samp_state)"
  unfolding samp_mem_def AllocHifMem_def samp_regions Option.bind.bind_lunit Let_def samp_placed
  by (simp add: samp_placed samp_state_def align_2M_def samp_map_def um_new_def CHtHifParams_def ctl_half_size_def round_page_def)

lemma samp_params: "check_params CHtHifParams = Inr 1"
  by (simp add: check_params_def CHtHifParams_def)

lemma samp_fits: "(\<Sum>r\<leftarrow>hm_regions samp_state. unat (GetMemSize r) + 2 ^ 21) < 2 ^ 56"
  by (simp add: samp_state_def samp_place_def GetMemSize_def mask_eq_exp_minus_1)

theorem hif_layout_witness:
  "rg_end (hm_regions samp_state ! 1) \<le> unat (hm_memSize samp_state) \<and> 2 ^ 21 dvd unat (hm_memSize samp_state) \<and>
    (rg_end (hm_regions samp_state ! 1) \<le> rg_start (hm_regions samp_state ! 2) \<or>
     rg_end (hm_regions samp_state ! 2) \<le> rg_start (hm_regions samp_state ! 1))"
proof -
  have n: "1 < length (hm_regions samp_state)" "2 < length (hm_regions samp_state)" "(1::nat) \<noteq> 2"
    by (simp_all add: samp_state_def samp_place_def)
  from hif_layout [OF samp_params samp_alloc [unfolded samp_mem_def] samp_fits] n show ?thesis unfolding Let_def by blast
qed

end
