(* ===== verification/HifMemUse.thy ===== *)
theory HifMemUse
  imports HifMem
begin

text \<open>
  How the regions of the shared memory are used: each is cleared the first time its address is asked for, by whichever of
  \<^verbatim>\<open>Get*Base\<close> and \<^verbatim>\<open>InitHifMemory\<close> comes first, and the control queues of an engine's units share one region.
\<close>

section \<open>Addresses of a region\<close>

definition addr_in :: "hif_mem \<Rightarrow> nat \<Rightarrow> u64 \<Rightarrow> bool" where
  "addr_in s i a \<longleftrightarrow> i < length (hm_regions s) \<and>
     unat (hm_base s) + rg_start (hm_regions s ! i) \<le> unat a \<and> unat a < unat (hm_base s) + rg_end (hm_regions s ! i)"

text \<open>The regions lie in the allocation, which does not wrap, and do not overlap.\<close>

definition mem_geo :: "hif_mem \<Rightarrow> bool" where
  "mem_geo s \<longleftrightarrow> (\<forall>i < length (hm_regions s). unat (hm_base s) + rg_end (hm_regions s ! i) < 2 ^ 64) \<and>
     (\<forall>i < length (hm_regions s). \<forall>j < length (hm_regions s). i \<noteq> j \<longrightarrow>
        rg_end (hm_regions s ! i) \<le> rg_start (hm_regions s ! j) \<or> rg_end (hm_regions s ! j) \<le> rg_start (hm_regions s ! i))"

definition cleared :: "hif_mem \<Rightarrow> nat \<Rightarrow> bool" where
  "cleared s i \<longleftrightarrow> i < length (hm_regions s) \<and> rg_bCleared (hm_regions s ! i) \<noteq> 0"

lemma addr_in_unique: "mem_geo s \<Longrightarrow> addr_in s i a \<Longrightarrow> addr_in s j a \<Longrightarrow> i = j"
  by (rule ccontr) (fastforce simp: mem_geo_def addr_in_def)

lemma unat_GetMemBase:
  "mem_geo s \<Longrightarrow> i < length (hm_regions s) \<Longrightarrow>
     unat (GetMemBase (hm_base s) (hm_regions s ! i)) = unat (hm_base s) + rg_start (hm_regions s ! i)"
proof -
  assume g: "mem_geo s" "i < length (hm_regions s)"
  then have "unat (hm_base s) + rg_end (hm_regions s ! i) < 2 ^ 64" by (simp add: mem_geo_def)
  then show ?thesis by (simp add: GetMemBase_def rg_start_def rg_end_def unat_word_ariths)
qed

lemma zero_bytes_addr:
  assumes "mem_geo s" "i < length (hm_regions s)"
  shows "zero_bytes (GetMemBase (hm_base s) (hm_regions s ! i)) (GetMemSize (hm_regions s ! i)) mem a = (if addr_in s i a then 0 else mem a)"
proof -
  let ?r = "hm_regions s ! i" and ?b = "GetMemBase (hm_base s) (hm_regions s ! i)"
  have b: "unat ?b = unat (hm_base s) + rg_start ?r" by (rule unat_GetMemBase [OF assms])
  have "?b \<le> a \<and> a - ?b < GetMemSize ?r \<longleftrightarrow> unat ?b \<le> unat a \<and> unat a - unat ?b < unat (GetMemSize ?r)"
    by (auto simp: word_le_nat_alt word_less_nat_alt unat_sub)
  also have "\<dots> \<longleftrightarrow> addr_in s i a" unfolding addr_in_def using assms(2) b by (auto simp: rg_end_def rg_start_def)
  finally show ?thesis unfolding zero_bytes_def by simp
qed

lemma Clear_simps [simp]:
  "hm_base (ClearMemRegion i s) = hm_base s" "length (hm_regions (ClearMemRegion i s)) = length (hm_regions s)"
  "hm_aeCnt (ClearMemRegion i s) = hm_aeCnt s" "hm_ctlQueMemSize (ClearMemRegion i s) = hm_ctlQueMemSize s"
  "hm_ctlInQueMemSize (ClearMemRegion i s) = hm_ctlInQueMemSize s"
  by (simp_all add: ClearMemRegion_def Let_def)

lemma Clear_region:
  "rg_offset (hm_regions (ClearMemRegion i s) ! j) = rg_offset (hm_regions s ! j)"
  "rg_sortKey (hm_regions (ClearMemRegion i s) ! j) = rg_sortKey (hm_regions s ! j)"
  by (cases "i < length (hm_regions s)"; simp add: ClearMemRegion_def Let_def nth_list_update list_update_beyond)+

lemma Clear_size [simp]: "GetMemSize (hm_regions (ClearMemRegion i s) ! j) = GetMemSize (hm_regions s ! j)"
  by (simp add: GetMemSize_def Clear_region)

lemma Clear_place [simp]:
  "rg_start (hm_regions (ClearMemRegion i s) ! j) = rg_start (hm_regions s ! j)"
  "rg_end (hm_regions (ClearMemRegion i s) ! j) = rg_end (hm_regions s ! j)"
  by (simp_all add: rg_start_def rg_end_def Clear_region)

lemma Clear_base [simp]: "GetMemBase b (hm_regions (ClearMemRegion i s) ! j) = GetMemBase b (hm_regions s ! j)"
  by (simp add: GetMemBase_def Clear_region)

lemma Clear_geo [simp]: "mem_geo (ClearMemRegion i s) = mem_geo s" "addr_in (ClearMemRegion i s) j a = addr_in s j a"
  by (simp_all add: mem_geo_def addr_in_def)

lemma Clear_cleared: "i < length (hm_regions s) \<Longrightarrow> cleared (ClearMemRegion i s) j \<longleftrightarrow> j = i \<or> cleared s j"
  by (auto simp: cleared_def ClearMemRegion_def Let_def nth_list_update)

lemma Clear_bytes:
  "mem_geo s \<Longrightarrow> i < length (hm_regions s) \<Longrightarrow>
    hm_bytes (ClearMemRegion i s) a = (if \<not> cleared s i \<and> addr_in s i a then 0 else hm_bytes s a)"
  by (simp add: ClearMemRegion_def Let_def cleared_def zero_bytes_addr)

section \<open>Clearing, against the stores of the program\<close>

text \<open>
  What happens to the memory: a base is asked for, everything is initialised for the dispatch, a byte is stored. A store is only to
  a region whose base was handed out. \<open>stored\<close> is the byte last stored to an address, or 0.
\<close>

datatype mem_event = eGet nat | eInit | eStore u64 u8

definition mem_step :: "mem_event \<Rightarrow> hif_mem \<Rightarrow> hif_mem" where
  "mem_step e s = (case e of eGet i \<Rightarrow> snd (region_base i 0 s) | eInit \<Rightarrow> InitHifMemory s
     | eStore a v \<Rightarrow> s\<lparr>hm_bytes := (hm_bytes s)(a := v)\<rparr>)"

definition mem_allowed :: "mem_event \<Rightarrow> hif_mem \<Rightarrow> bool" where
  "mem_allowed e s \<longleftrightarrow> (case e of eGet i \<Rightarrow> i < length (hm_regions s) | eInit \<Rightarrow> True
     | eStore a v \<Rightarrow> (\<exists>i < length (hm_regions s). cleared s i \<and> addr_in s i a))"

fun mem_run :: "mem_event list \<Rightarrow> hif_mem \<Rightarrow> hif_mem option" where
  "mem_run [] s = Some s"
| "mem_run (e # es) s = (if mem_allowed e s then mem_run es (mem_step e s) else None)"

definition stored1 :: "mem_event \<Rightarrow> (u64 \<Rightarrow> u8) \<Rightarrow> u64 \<Rightarrow> u8" where
  "stored1 e f = (case e of eStore a v \<Rightarrow> f(a := v) | _ \<Rightarrow> f)"

definition stored :: "mem_event list \<Rightarrow> u64 \<Rightarrow> u8" where
  "stored es = fold stored1 es (\<lambda>_. 0)"

definition mem_shows :: "(u64 \<Rightarrow> u8) \<Rightarrow> hif_mem \<Rightarrow> bool" where
  "mem_shows f s \<longleftrightarrow> (\<forall>i < length (hm_regions s). \<forall>a. addr_in s i a \<longrightarrow> (if cleared s i then hm_bytes s a else 0) = f a)"

lemma clear_shows:
  assumes "mem_geo s" "mem_shows f s" "i < length (hm_regions s)"
  shows "mem_shows f (ClearMemRegion i s)"
  unfolding mem_shows_def
proof (intro allI impI)
  fix j a
  assume j: "j < length (hm_regions (ClearMemRegion i s))" "addr_in (ClearMemRegion i s) j a"
  then have jf: "(if cleared s j then hm_bytes s a else 0) = f a" using assms(2) by (simp add: mem_shows_def)
  show "(if cleared (ClearMemRegion i s) j then hm_bytes (ClearMemRegion i s) a else 0) = f a"
  proof (cases "j = i")
    case True
    then show ?thesis using jf j assms by (auto simp: Clear_cleared Clear_bytes)
  next
    case False
    then have "\<not> addr_in s i a" using addr_in_unique [OF assms(1)] j(2) by auto
    then show ?thesis using False jf assms by (auto simp: Clear_cleared Clear_bytes split: if_splits)
  qed
qed

lemma init_shows:
  "mem_geo s \<Longrightarrow> mem_shows f s \<Longrightarrow> n \<le> length (hm_regions s) \<Longrightarrow>
    let t = fold ClearMemRegion [0..<n] s in mem_geo t \<and> mem_shows f t \<and> length (hm_regions t) = length (hm_regions s)"
proof (induction n)
  case (Suc n)
  then show ?case using clear_shows [of "fold ClearMemRegion [0..<n] s" f n] by (simp add: Let_def)
qed simp

lemma store_shows:
  assumes "mem_geo s" "mem_shows f s" "cleared s i" "addr_in s i a"
  shows "mem_shows (f(a := v)) (s\<lparr>hm_bytes := (hm_bytes s)(a := v)\<rparr>)"
  unfolding mem_shows_def
proof (intro allI impI)
  fix j b
  let ?s = "s\<lparr>hm_bytes := (hm_bytes s)(a := v)\<rparr>"
  have eq: "addr_in ?s j b = addr_in s j b" "cleared ?s j = cleared s j" for j b by (simp_all add: addr_in_def cleared_def)
  assume j: "j < length (hm_regions ?s)" "addr_in ?s j b"
  then have jf: "(if cleared s j then hm_bytes s b else 0) = f b" using assms(2) by (simp add: mem_shows_def eq)
  show "(if cleared ?s j then hm_bytes ?s b else 0) = (f(a := v)) b"
  proof (cases "b = a")
    case True
    then have "j = i" using addr_in_unique [OF assms(1)] j(2) assms(4) eq(1) by blast
    then show ?thesis using True assms(3) by (simp add: eq)
  qed (use jf in \<open>auto simp: eq split: if_splits\<close>)
qed

lemma mem_run_shows:
  "mem_geo s \<Longrightarrow> mem_shows f s \<Longrightarrow> mem_run es s = Some t \<Longrightarrow> mem_shows (fold stored1 es f) t \<and> length (hm_regions t) = length (hm_regions s)"
proof (induction es arbitrary: s f)
  case (Cons e es)
  have al: "mem_allowed e s" and run: "mem_run es (mem_step e s) = Some t" using Cons.prems(3) by (simp_all split: if_splits)
  have "mem_geo (mem_step e s) \<and> mem_shows (stored1 e f) (mem_step e s) \<and> length (hm_regions (mem_step e s)) = length (hm_regions s)"
  proof (cases e)
    case (eGet i)
    then show ?thesis using al Cons.prems clear_shows [of s f i]
      by (simp add: mem_step_def region_base_def mem_allowed_def stored1_def Let_def)
  next
    case eInit
    then show ?thesis using Cons.prems init_shows [of s f "length (hm_regions s)"]
      by (simp add: mem_step_def InitHifMemory_def stored1_def Let_def)
  next
    case (eStore a v)
    then obtain i where "cleared s i" "addr_in s i a" using al by (auto simp: mem_allowed_def)
    moreover have "mem_geo (s\<lparr>hm_bytes := (hm_bytes s)(a := v)\<rparr>) = mem_geo s" by (simp add: mem_geo_def)
    ultimately show ?thesis using eStore Cons.prems store_shows [of s f i a v] by (simp add: mem_step_def stored1_def)
  qed
  with Cons.IH [OF _ _ run, of "stored1 e f"] show ?case by simp
qed simp

lemma alloc_geo:
  assumes par: "check_params par = Inr numaSetCnt"
    and alloc: "AllocHifMem par m unitCnt unitSize huge alloc bytes = Some (Inr s)"
    and fits: "(\<Sum>r\<leftarrow>hm_regions s. unat (GetMemSize r) + 2 ^ 21) < 2 ^ 56"
    and base: "unat (hm_base s) + unat (hm_memSize s) < 2 ^ 64"
  shows "mem_geo s"
proof -
  have L: "\<forall>i < length (hm_regions s). rg_end (hm_regions s ! i) \<le> unat (hm_memSize s)"
    "\<forall>i < length (hm_regions s). \<forall>j < length (hm_regions s). i \<noteq> j \<longrightarrow>
        rg_end (hm_regions s ! i) \<le> rg_start (hm_regions s ! j) \<or> rg_end (hm_regions s ! j) \<le> rg_start (hm_regions s ! i)"
    using alloc_layout [OF par alloc fits] by (auto simp: Let_def)
  have "unat (hm_base s) + rg_end (hm_regions s ! i) < 2 ^ 64" if "i < length (hm_regions s)" for i
    using L(1) [rule_format, OF that] base by linarith
  with L(2) show ?thesis by (simp add: mem_geo_def)
qed

lemma unit_regions_new: "r \<in> set (unit_regions m a b c d u) \<Longrightarrow> rg_bCleared r = 0"
  by (auto simp: unit_regions_def Let_def InitRegion_def rg_new_def)

lemma ctl_regions_new: "ctl_regions m z as = Some rs \<Longrightarrow> \<forall>r \<in> set rs. rg_bCleared r = 0"
  by (induction as arbitrary: rs) (auto simp: bind_eq_Some_conv InitRegion_def rg_new_def)

lemma hif_regions_new:
  assumes "hif_regions par m unitCnt unitSize = Some rs" "r \<in> set rs"
  shows "rg_bCleared r = 0"
proof -
  define f where "f = unit_regions m (2 ^ par_iBlkSizeW par * 2 ^ par_iBlkCntW par) (2 ^ par_oBlkSizeW par * 2 ^ par_oBlkCntW par)
         (round_page (par_appUnitMemSize par)) (ucast (round_page unitSize))"
  from assms(1) obtain ctl where c: "ctl_regions m (ctl_half_size par + ctl_half_size par) [0..<um_aeCnt m] = Some ctl"
    and rs: "rs = [InitRegion (round_page (par_appPersMemSize par)) 0 rg_new, InitRegion (64 * 8) 0 rg_new] @ ctl @ concat (map f [0..<unitCnt])"
    unfolding hif_regions_def Let_def f_def by (auto simp: bind_eq_Some_conv)
  have "rg_bCleared (InitRegion x y rg_new) = 0" for x y by (simp add: InitRegion_def rg_new_def)
  moreover have "rg_bCleared r = 0" if "r \<in> set (f u)" for u using that unfolding f_def by (rule unit_regions_new)
  ultimately show ?thesis using assms(2) ctl_regions_new [OF c] by (auto simp: rs)
qed

lemma alloc_uncleared:
  assumes "AllocHifMem par m unitCnt unitSize huge alloc bytes = Some (Inr s)" "i < length (hm_regions s)"
  shows "rg_bCleared (hm_regions s ! i) = 0"
proof (rule alloc_regions [OF assms(1)])
  fix rs0
  assume r: "hif_regions par m unitCnt unitSize = Some rs0" and e: "map rg_bCleared (hm_regions s) = map rg_bCleared rs0"
  have "i < length rs0" using map_eq_imp_length_eq [OF e] assms(2) by simp
  then show ?thesis using arg_cong [OF e, of "\<lambda>l. l ! i"] hif_regions_new [OF r, of "rs0 ! i"] assms(2) by simp
qed

text \<open>
  C11: Memory handed out is zeroed once and never again. Whatever the memory held when it was allocated, and in whatever order bases are asked
  for, the regions are initialised for a dispatch and bytes are stored to regions already handed out, every byte of a region
  that was handed out holds the last value stored to it, or zero if none was.
\<close>

theorem regions_zeroed_once:
  assumes "check_params par = Inr numaSetCnt"
    and "AllocHifMem par m unitCnt unitSize huge alloc bytes = Some (Inr s)"
    and "(\<Sum>r\<leftarrow>hm_regions s. unat (GetMemSize r) + 2 ^ 21) < 2 ^ 56"
    and "unat (hm_base s) + unat (hm_memSize s) < 2 ^ 64"
    and "mem_run es s = Some t" "cleared t i" "addr_in t i a"
  shows "hm_bytes t a = stored es a"
proof -
  have "mem_shows (\<lambda>_. 0) s" using alloc_uncleared [OF assms(2)] by (simp add: mem_shows_def cleared_def)
  from mem_run_shows [OF alloc_geo [OF assms(1-4)] this assms(5)] have "mem_shows (stored es) t" by (simp add: stored_def)
  then show ?thesis using assms(6,7) by (auto simp: mem_shows_def cleared_def)
qed

lemma Init_length [simp]: "length (hm_regions (InitHifMemory s)) = length (hm_regions s)"
proof -
  have "length (hm_regions (fold ClearMemRegion js s)) = length (hm_regions s)" for js by (induction js arbitrary: s) simp_all
  then show ?thesis by (simp add: InitHifMemory_def)
qed

text \<open>The states of a run keep the regions' places, and a cleared region stays cleared.\<close>

lemma keeps [simp]:
  "cleared (s\<lparr>hm_bytes := f\<rparr>) i = cleared s i" "addr_in (s\<lparr>hm_bytes := f\<rparr>) i a = addr_in s i a"
  "addr_in (InitHifMemory s) i a = addr_in s i a"
proof -
  show "cleared (s\<lparr>hm_bytes := f\<rparr>) i = cleared s i" "addr_in (s\<lparr>hm_bytes := f\<rparr>) i a = addr_in s i a"
    by (simp_all add: cleared_def addr_in_def)
  have "addr_in (fold ClearMemRegion js s) i a = addr_in s i a" for js by (induction js arbitrary: s) simp_all
  then show "addr_in (InitHifMemory s) i a = addr_in s i a" by (simp add: InitHifMemory_def)
qed

lemma cleared_keeps:
  "cleared s i \<Longrightarrow> cleared (ClearMemRegion j s) i" "cleared s i \<Longrightarrow> cleared (InitHifMemory s) i"
proof -
  show clear: "cleared (ClearMemRegion j s) i" if "cleared s i" for j s
    using that by (cases "j < length (hm_regions s)") (simp_all add: Clear_cleared, simp add: ClearMemRegion_def cleared_def Let_def list_update_beyond)
  have "cleared (fold ClearMemRegion js s) i" if "cleared s i" for js
    using that by (induction js arbitrary: s) (simp_all add: clear)
  then show "cleared s i \<Longrightarrow> cleared (InitHifMemory s) i" by (simp add: InitHifMemory_def)
qed

lemma store_allowed: "cleared s i \<Longrightarrow> addr_in s i a \<Longrightarrow> mem_allowed (eStore a v) s"
  by (auto simp: mem_allowed_def addr_in_def)

theorem regions_zeroed_once_witness:
  "\<exists>t. mem_run [eGet 3, eStore 0x400005 7, eStore 0x400006 8, eInit, eStore 0x400005 9, eGet 3] samp_state = Some t \<and>
    hm_bytes t 0x400005 = 9 \<and> hm_bytes t 0x400006 = 8 \<and> hm_bytes t 0x400007 = 0"
proof -
  let ?es = "[eGet 3, eStore 0x400005 7, eStore 0x400006 8, eInit, eStore 0x400005 9, eGet 3]"
  have base: "unat (hm_base samp_state) + unat (hm_memSize samp_state) < 2 ^ 64" by (simp add: samp_state_def)
  obtain t where t: "mem_run ?es samp_state = Some t" "cleared t 3" "\<forall>a \<in> {0x400005, 0x400006, 0x400007}. addr_in t 3 a"
  proof -
    let ?A = "{0x400005, 0x400006, 0x400007 :: u64}"
    define s1 where "s1 = ClearMemRegion 3 samp_state"
    define s2 where "s2 = mem_step (eStore 0x400006 8) (mem_step (eStore 0x400005 7) s1)"
    define s3 where "s3 = mem_step (eStore 0x400005 9) (InitHifMemory s2)"
    have 0: "length (hm_regions samp_state) = 7" "\<forall>a \<in> ?A. addr_in samp_state 3 a"
      by (simp_all add: samp_state_def samp_place_def addr_in_def rg_start_def rg_end_def GetMemSize_def mask_eq_exp_minus_1)
    have 1: "cleared s1 3" "\<forall>a \<in> ?A. addr_in s1 3 a" "length (hm_regions s1) = 7"
      using 0 by (simp_all add: s1_def Clear_cleared)
    have 2: "cleared s2 3" "\<forall>a \<in> ?A. addr_in s2 3 a" "length (hm_regions s2) = 7"
      using 1 by (simp_all add: s2_def mem_step_def)
    have i: "cleared (InitHifMemory s2) 3" "\<forall>a \<in> ?A. addr_in (InitHifMemory s2) 3 a"
      using cleared_keeps(2) [OF 2(1)] 2(2) by simp_all
    have 3: "cleared s3 3" "\<forall>a \<in> ?A. addr_in s3 3 a" "length (hm_regions s3) = 7"
      using i 2(3) by (simp_all add: s3_def mem_step_def)
    have "mem_allowed (eGet 3) samp_state" "mem_step (eGet 3) samp_state = s1" "mem_allowed (eStore 0x400005 7) s1"
      "mem_allowed (eStore 0x400006 8) (mem_step (eStore 0x400005 7) s1)" "mem_allowed eInit s2" "mem_step eInit s2 = InitHifMemory s2"
      "mem_allowed (eStore 0x400005 9) (InitHifMemory s2)" "mem_allowed (eGet 3) s3" "mem_step (eGet 3) s3 = ClearMemRegion 3 s3"
      using 1 2 i 3 store_allowed [where i = 3] by (simp_all add: mem_step_def)
        (simp_all add: 0 mem_allowed_def region_base_def Let_def s1_def)
    then have "mem_run ?es samp_state = Some (ClearMemRegion 3 s3)" by (simp add: s2_def [symmetric] s3_def [symmetric])
    with that [of "ClearMemRegion 3 s3"] 3 cleared_keeps(1) show ?thesis by simp
  qed
  note R = regions_zeroed_once [OF samp_params samp_alloc [unfolded samp_mem_def] samp_fits base t(1,2)]
  show ?thesis using R [of "0x400005"] R [of "0x400006"] R [of "0x400007"] t by (intro exI [of _ t]) (simp add: stored_def stored1_def)
qed

section \<open>The control queues\<close>

lemma ctl_regions_nth:
  "ctl_regions m z as = Some rs \<Longrightarrow> length rs = length as \<and>
    (\<forall>k < length as. \<exists>u. rs ! k = InitRegion (ucast (z * of_nat (um_GetAuCnt (as ! k) m))) u rg_new)"
proof (induction as arbitrary: rs)
  case (Cons a as)
  from Cons.prems obtain u rs' where rs: "rs = InitRegion (ucast (z * of_nat (um_GetAuCnt a m))) u rg_new # rs'" "ctl_regions m z as = Some rs'"
    by (auto simp: bind_eq_Some_conv)
  show ?case using Cons.IH [OF rs(2)] by (auto simp: rs(1) nth_Cons split: nat.splits)
qed simp

lemma GetMemSize_Init: "unat size' < 2 ^ 56 \<Longrightarrow> GetMemSize (InitRegion size' numaSet r) = size'"
proof -
  assume a: "unat size' < 2 ^ 56"
  have "GetMemSize (InitRegion size' numaSet r) = size' AND mask 56"
    unfolding GetMemSize_def InitRegion_def by (rule bit_word_eqI) (auto simp: bit_simps)
  then have "unat (GetMemSize (InitRegion size' numaSet r)) = unat size'" using a by (simp add: unat_and_mask)
  then show ?thesis by (simp add: word_unat_eq_iff)
qed

lemma unat_ctl_mult:
  "2 ^ (par_ctlQueW par + 4) * n < 2 ^ 32 \<Longrightarrow>
    unat ((ctl_half_size par + ctl_half_size par) * of_nat n) = 2 ^ (par_ctlQueW par + 4) * n"
proof -
  assume a: "2 ^ (par_ctlQueW par + 4) * n < 2 ^ 32"
  have "(ctl_half_size par + ctl_half_size par) * of_nat n = of_nat (2 ^ (par_ctlQueW par + 4) * n)"
    by (simp add: ctl_half_size_def push_bit_eq_mult power_add)
  then show ?thesis using a by (simp only: unat_of_nat) simp
qed

lemma ctl_region_size:
  assumes "AllocHifMem par m unitCnt unitSize huge alloc bytes = Some (Inr s)" "ae < um_aeCnt m"
    "2 ^ (par_ctlQueW par + 4) * um_GetAuCnt ae m < 2 ^ 32"
  shows "2 + ae < length (hm_regions s)" "unat (GetMemSize (hm_regions s ! (2 + ae))) = 2 ^ (par_ctlQueW par + 4) * um_GetAuCnt ae m"
proof -
  obtain rs0 where r0: "hif_regions par m unitCnt unitSize = Some rs0" and e: "map rg_sortKey (hm_regions s) = map rg_sortKey rs0"
    using alloc_regions [OF assms(1)] by metis
  from r0 obtain ctl rest where c: "ctl_regions m (ctl_half_size par + ctl_half_size par) [0..<um_aeCnt m] = Some ctl"
    and rs: "rs0 = InitRegion (round_page (par_appPersMemSize par)) 0 rg_new # InitRegion (64 * 8) 0 rg_new # ctl @ rest"
    unfolding hif_regions_def Let_def by (auto simp: bind_eq_Some_conv)
  from ctl_regions_nth [OF c] assms(2) obtain u where
    at: "rs0 ! (2 + ae) = InitRegion (ucast ((ctl_half_size par + ctl_half_size par) * of_nat (um_GetAuCnt ae m))) u rg_new"
    and l: "2 + ae < length rs0" by (auto simp: rs nth_append)
  show "2 + ae < length (hm_regions s)" using l map_eq_imp_length_eq [OF e] by simp
  have "GetMemSize (hm_regions s ! (2 + ae)) = GetMemSize (rs0 ! (2 + ae))"
    using arg_cong [OF keys_sizes [OF e], of "\<lambda>x. x ! (2 + ae)"] l map_eq_imp_length_eq [OF e] by simp
  also have "unat \<dots> = 2 ^ (par_ctlQueW par + 4) * um_GetAuCnt ae m"
    unfolding at using assms(3) by (subst GetMemSize_Init) (simp_all only: unat_u64_u32 unat_ctl_mult, simp_all)
  finally show "unat (GetMemSize (hm_regions s ! (2 + ae))) = 2 ^ (par_ctlQueW par + 4) * um_GetAuCnt ae m" .
qed

text \<open>Where a unit's queues lie: in its engine's region, at a multiple of the size of one pair of queues.\<close>

definition ctl_base :: "hif_params \<Rightarrow> nat \<Rightarrow> hif_mem \<Rightarrow> nat \<Rightarrow> nat" where
  "ctl_base par aeCnt s u = unat (fst (GetCtlQueMemBase (u mod aeCnt) s)) + 2 ^ (par_ctlQueW par + 4) * (u div aeCnt)"

lemma ctl_queues_run:
  assumes geo: "mem_geo s" and size: "\<And>ae. ae < aeCnt \<Longrightarrow> 2 + ae < length (hm_regions s)"
      "\<And>ae. ae < aeCnt \<Longrightarrow> unat (GetMemSize (hm_regions s ! (2 + ae))) = 2 ^ (par_ctlQueW par + 4) * auCnt"
    and que: "hm_ctlQueMemSize s = ctl_half_size par + ctl_half_size par" "hm_ctlInQueMemSize s = ctl_half_size par"
    and small: "2 ^ (par_ctlQueW par + 4) * auCnt < 2 ^ 32"
    and u: "um_FindAeAu u m = Some (u mod aeCnt, u div aeCnt)" "0 < aeCnt" "u < aeCnt * auCnt"
  shows "\<exists>ia sa oa sb. GetCtlInQueMemBase m u s = Some (ia, sa) \<and> GetCtlOutQueMemBase m u s = Some (oa, sb) \<and>
      unat ia = ctl_base par aeCnt s u \<and> unat oa = ctl_base par aeCnt s u + 2 ^ (par_ctlQueW par + 3)"
    and "(\<forall>a. ctl_base par aeCnt s u \<le> unat a \<and> unat a < ctl_base par aeCnt s u + 2 ^ (par_ctlQueW par + 4) \<longrightarrow> addr_in s (2 + u mod aeCnt) a)"
proof -
  let ?Q = "2 ^ (par_ctlQueW par + 4) :: nat" and ?ae = "u mod aeCnt" and ?au = "u div aeCnt"
  let ?r = "hm_regions s ! (2 + ?ae)"
  have ae: "?ae < aeCnt" and au: "?au < auCnt" using u(2,3) by (simp_all add: less_mult_imp_div_less mult.commute)
  have le: "?Q * ?au + ?Q \<le> ?Q * auCnt" using mult_le_mono2 [of "Suc ?au" auCnt ?Q] au by (simp add: add.commute)
  have half: "2 ^ (par_ctlQueW par + 3) + 2 ^ (par_ctlQueW par + 3) = ?Q" by (simp add: power_add)
  have end_le: "unat (hm_base s) + rg_end ?r < 2 ^ 64" using geo size(1) [OF ae] by (simp add: mem_geo_def)
  have rs: "rg_end ?r = rg_start ?r + ?Q * auCnt" using size(2) [OF ae] by (simp add: rg_end_def rg_start_def)
  have base: "unat (GetMemBase (hm_base s) ?r) = unat (hm_base s) + rg_start ?r" by (rule unat_GetMemBase [OF geo size(1) [OF ae]])
  have cb: "ctl_base par aeCnt s u = unat (hm_base s) + rg_start ?r + ?Q * ?au"
    using base by (simp add: ctl_base_def GetCtlQueMemBase_def region_base_def Let_def)
  have q: "unat (hm_ctlQueMemSize s * of_nat ?au) = ?Q * ?au"
    unfolding que using le small by (intro unat_ctl_mult) linarith
  have h: "unat (hm_ctlInQueMemSize s) = 2 ^ (par_ctlQueW par + 3)"
  proof -
    have "?Q \<le> ?Q * auCnt" using le by linarith
    then have "(2 ^ (par_ctlQueW par + 3) :: nat) < 2 ^ 32" using small half by linarith
    then show ?thesis unfolding que unat_ctl_half by simp
  qed
  have qh: "unat (hm_ctlQueMemSize s * of_nat ?au + hm_ctlInQueMemSize s) = ?Q * ?au + 2 ^ (par_ctlQueW par + 3)"
  proof -
    have "unat (hm_ctlQueMemSize s * of_nat ?au) + unat (hm_ctlInQueMemSize s) < 2 ^ 32" unfolding q h using le small half by linarith
    then show ?thesis by (subst unat_plus_simple [THEN iffD1]) (simp_all add: q h no_olen_add_nat)
  qed
  have ga: "unat (GetMemBase (hm_base s) ?r + ucast x) = unat (hm_base s) + rg_start ?r + unat x" if "unat x < ?Q * auCnt" for x :: u32
  proof -
    have "unat (GetMemBase (hm_base s) ?r) + unat (ucast x :: u64) < 2 ^ 64" using that end_le rs base unfolding unat_u64_u32 by linarith
    then have "unat (GetMemBase (hm_base s) ?r + ucast x) = unat (GetMemBase (hm_base s) ?r) + unat (ucast x :: u64)"
      by (subst unat_word_ariths) simp
    then show ?thesis unfolding base unat_u64_u32 .
  qed
  have pos: "(0::nat) < 2 ^ (par_ctlQueW par + 3)" by simp
  have "unat (GetMemBase (hm_base s) ?r + ucast (hm_ctlQueMemSize s * of_nat ?au)) = ctl_base par aeCnt s u"
    using ga [of "hm_ctlQueMemSize s * of_nat ?au"] le half pos unfolding q cb by linarith
  moreover have "unat (GetMemBase (hm_base s) ?r + ucast (hm_ctlQueMemSize s * of_nat ?au + hm_ctlInQueMemSize s)) = ctl_base par aeCnt s u + 2 ^ (par_ctlQueW par + 3)"
    using ga [of "hm_ctlQueMemSize s * of_nat ?au + hm_ctlInQueMemSize s"] le half pos unfolding qh cb by linarith
  ultimately show "\<exists>ia sa oa sb. GetCtlInQueMemBase m u s = Some (ia, sa) \<and> GetCtlOutQueMemBase m u s = Some (oa, sb) \<and>
      unat ia = ctl_base par aeCnt s u \<and> unat oa = ctl_base par aeCnt s u + 2 ^ (par_ctlQueW par + 3)"
    using u(1) by (simp add: GetCtlInQueMemBase_def GetCtlOutQueMemBase_def region_base_def Let_def)
  show "\<forall>a. ctl_base par aeCnt s u \<le> unat a \<and> unat a < ctl_base par aeCnt s u + ?Q \<longrightarrow> addr_in s (2 + ?ae) a"
    unfolding addr_in_def using size(1) [OF ae] cb rs le by auto
qed

lemma ctl_base_disjoint:
  assumes in_u: "\<And>u. u < n \<Longrightarrow> \<forall>a. ctl_base par c s u \<le> unat a \<and> unat a < ctl_base par c s u + 2 ^ (par_ctlQueW par + 4) \<longrightarrow> addr_in s (2 + u mod c) a"
    and geo: "mem_geo s" and u: "u < n" "v < n" "u \<noteq> v"
  shows "\<not> (ctl_base par c s u \<le> unat (a :: u64) \<and> unat a < ctl_base par c s u + 2 ^ (par_ctlQueW par + 4) \<and>
    ctl_base par c s v \<le> unat a \<and> unat a < ctl_base par c s v + 2 ^ (par_ctlQueW par + 4))"
proof
  let ?Q = "2 ^ (par_ctlQueW par + 4) :: nat"
  assume a: "ctl_base par c s u \<le> unat a \<and> unat a < ctl_base par c s u + ?Q \<and> ctl_base par c s v \<le> unat a \<and> unat a < ctl_base par c s v + ?Q"
  have "2 + u mod c = 2 + v mod c"
    by (rule addr_in_unique [OF geo in_u [OF u(1), rule_format, of a] in_u [OF u(2), rule_format, of a]]) (rule conjI; use a in blast)+
  then have m: "u mod c = v mod c" by linarith
  then have d: "u div c \<noteq> v div c" using u(3) by (metis div_mult_mod_eq)
  have "?Q * (x + 1) \<le> ?Q * y" if "x < y" for x y using that by (intro mult_le_mono2) simp
  then have "?Q * (u div c) + ?Q \<le> ?Q * (v div c) \<or> ?Q * (v div c) + ?Q \<le> ?Q * (u div c)" using d
    by (cases "u div c < v div c") (simp_all add: add.commute)
  then show False using a unfolding ctl_base_def m by linarith
qed

text \<open>
  The control queues of the units do not overlap. For an accepted configuration whose queues of one engine take less than 4 GB, the in queue of every
  unit is followed by its out queue, each of the size the parameters ask for, both inside the region of the unit's engine; no address belongs to the
  queues of two units.
\<close>

theorem ctl_queues_apart:
  assumes "check_params par = Inr numaSetCnt"
    and "AllocHifMem par m unitCnt unitSize huge alloc bytes = Some (Inr s)"
    and "(\<Sum>r\<leftarrow>hm_regions s. unat (GetMemSize r) + 2 ^ 21) < 2 ^ 56"
    and "unat (hm_base s) + unat (hm_memSize s) < 2 ^ 64"
    and "um_init aeCnt auCnt numaSetCnt = Some m" "0 < aeCnt" "aeCnt \<le> 4" "auCnt \<le> 16"
    and "2 ^ (par_ctlQueW par + 4) * auCnt < 2 ^ 32"
  shows "\<forall>u < aeCnt * auCnt. (\<exists>ia sa oa sb. GetCtlInQueMemBase m u s = Some (ia, sa) \<and> GetCtlOutQueMemBase m u s = Some (oa, sb) \<and>
      unat ia = ctl_base par aeCnt s u \<and> unat oa = ctl_base par aeCnt s u + 2 ^ (par_ctlQueW par + 3)) \<and>
    (\<forall>a. ctl_base par aeCnt s u \<le> unat a \<and> unat a < ctl_base par aeCnt s u + 2 ^ (par_ctlQueW par + 4) \<longrightarrow> addr_in s (2 + u mod aeCnt) a) \<and>
    (\<forall>v < aeCnt * auCnt. \<forall>a :: u64. u \<noteq> v \<longrightarrow> \<not> (ctl_base par aeCnt s u \<le> unat a \<and> unat a < ctl_base par aeCnt s u + 2 ^ (par_ctlQueW par + 4) \<and>
       ctl_base par aeCnt s v \<le> unat a \<and> unat a < ctl_base par aeCnt s v + 2 ^ (par_ctlQueW par + 4)))"
proof -
  have geo: "mem_geo s" by (rule alloc_geo [OF assms(1-4)])
  obtain que: "hm_ctlQueMemSize s = ctl_half_size par + ctl_half_size par" "hm_ctlInQueMemSize s = ctl_half_size par"
    by (rule alloc_regions [OF assms(2)])
  have M: "um_aeCnt m = aeCnt" "\<And>ae. ae < aeCnt \<Longrightarrow> um_GetAuCnt ae m = auCnt"
    "\<And>u. u < aeCnt * auCnt \<Longrightarrow> um_FindAeAu u m = Some (u mod aeCnt, u div aeCnt)"
    using unit_map_ok [OF assms(6-8), of numaSetCnt] assms(5) by auto
  have size: "2 + ae < length (hm_regions s)" "unat (GetMemSize (hm_regions s ! (2 + ae))) = 2 ^ (par_ctlQueW par + 4) * auCnt" if "ae < aeCnt" for ae
    using ctl_region_size [OF assms(2), of ae] that assms(9) by (simp_all add: M)
  note at = ctl_queues_run [OF geo _ _ que assms(9) M(3) assms(6)]
  have run: "\<exists>ia sa oa sb. GetCtlInQueMemBase m u s = Some (ia, sa) \<and> GetCtlOutQueMemBase m u s = Some (oa, sb) \<and>
      unat ia = ctl_base par aeCnt s u \<and> unat oa = ctl_base par aeCnt s u + 2 ^ (par_ctlQueW par + 3)"
    "\<forall>a. ctl_base par aeCnt s u \<le> unat a \<and> unat a < ctl_base par aeCnt s u + 2 ^ (par_ctlQueW par + 4) \<longrightarrow> addr_in s (2 + u mod aeCnt) a"
    if "u < aeCnt * auCnt" for u
    by (rule at(1) [OF _ _ that that]; rule size; assumption) (rule at(2) [OF _ _ that that]; rule size; assumption)
  show ?thesis
  proof (intro allI impI conjI)
    fix u v a
    assume u: "u < aeCnt * auCnt"
    show "\<exists>ia sa oa sb. GetCtlInQueMemBase m u s = Some (ia, sa) \<and> GetCtlOutQueMemBase m u s = Some (oa, sb) \<and>
      unat ia = ctl_base par aeCnt s u \<and> unat oa = ctl_base par aeCnt s u + 2 ^ (par_ctlQueW par + 3)" by (rule run(1) [OF u])
    show "addr_in s (2 + u mod aeCnt) a" if "ctl_base par aeCnt s u \<le> unat a \<and> unat a < ctl_base par aeCnt s u + 2 ^ (par_ctlQueW par + 4)"
      by (rule run(2) [OF u, rule_format, OF that])
    show "\<not> (ctl_base par aeCnt s u \<le> unat a \<and> unat a < ctl_base par aeCnt s u + 2 ^ (par_ctlQueW par + 4) \<and>
       ctl_base par aeCnt s v \<le> unat a \<and> unat a < ctl_base par aeCnt s v + 2 ^ (par_ctlQueW par + 4))" if "v < aeCnt * auCnt" "u \<noteq> v"
      by (rule ctl_base_disjoint [OF run(2) geo u that])
  qed
qed

lemma samp_map_init: "um_init 1 1 1 = Some samp_map"
proof -
  have "um_init 1 1 1 = Some (samp_map\<lparr>um_aeAuMap := (\<lambda>_. (0, 0))(0 := (0, 0)), um_unitMap := (\<lambda>_ _. 0)(0 := (\<lambda>_. 0)(0 := 0)),
      um_numaSet := (\<lambda>_. 0)(0 := 0)\<rparr>)"
    by (simp add: um_init_def um_Insert_def um_new_def um_SetAeCnt_def um_SetAuCnt_def samp_map_def)
  then show ?thesis by (simp add: samp_map_def um_new_def fun_eq_iff)
qed

theorem ctl_queues_apart_witness:
  "\<exists>ia sa oa sb. GetCtlInQueMemBase samp_map 0 samp_state = Some (ia, sa) \<and> GetCtlOutQueMemBase samp_map 0 samp_state = Some (oa, sb) \<and>
     unat ia = ctl_base CHtHifParams 1 samp_state 0 \<and> unat oa = ctl_base CHtHifParams 1 samp_state 0 + 4096"
proof -
  have "2 ^ (par_ctlQueW CHtHifParams + 4) * 1 < (2::nat) ^ 32" "unat (hm_base samp_state) + unat (hm_memSize samp_state) < 2 ^ 64"
    "2 ^ (par_ctlQueW CHtHifParams + 3) = (4096::nat)"
    by (simp_all add: CHtHifParams_def samp_state_def)
  with ctl_queues_apart [OF samp_params samp_alloc [unfolded samp_mem_def] samp_fits _ samp_map_init] show ?thesis by simp
qed

text \<open>
  The bound is needed: the size of an engine's queues is computed in 32 bits, so the largest accepted queues for 8 units of an engine
  ask for a region of no bytes.
\<close>

lemma ctl_region_wraps:
  "par_ctlQueW par = 25 \<Longrightarrow> (ctl_half_size par + ctl_half_size par) * of_nat 8 = 0"
  by (simp add: ctl_half_size_def)

end
