(* ===== verification/HifLib.thy ===== *)
theory HifLib
  imports HifMemUse HifBoot
begin

text \<open>
  The host interface object, \<^verbatim>\<open>CHtHifLib\<close> of \<^verbatim>\<open>ht_lib/host/HtHifLib.cpp\<close> and \<^verbatim>\<open>HtHifLib.h\<close>: its constructor, the start of the coprocessor
  as far as it concerns the shared memory, and the pool of units the application allocates from. A unit is a \<open>host_unit\<close>; \<open>raw u\<close> is what
  the memory of unit \<open>u\<close> and its control queues hold when its constructor starts, \<open>que\<close> the storage of its message queue, neither initialised by it.
  The applications' unit objects are numbers. \<^verbatim>\<open>exit(1)\<close> and exceptions are \<open>Inl\<close>, a failed assertion or a null pointer that is followed \<open>None\<close>.
  The spin lock around the pool is free when a call starts: operations of the pool run one after the other.
\<close>

record hif_lib =
  lib_par :: hif_params
  lib_mhz :: u32
  lib_needFlush :: bool
  lib_aeCnt :: nat
  lib_auCnt :: nat
  lib_map :: unit_map
  lib_mem :: hif_mem
  lib_units :: "nat \<Rightarrow> host_unit option"
  lib_owner :: "nat \<Rightarrow> nat"
  lib_bDispatched :: bool
  lib_bBusy :: bool
  lib_args :: "nat \<Rightarrow> u64"

definition lib_GetUnitCnt :: "hif_lib \<Rightarrow> nat" where
  "lib_GetUnitCnt s = lib_aeCnt s * lib_auCnt s"

section \<open>Units\<close>

text \<open>The constructor of unit \<open>unitId\<close>, with the regions it asks for in the order it does.\<close>

definition lib_new_unit :: "(nat \<Rightarrow> host_unit) \<Rightarrow> (nat \<Rightarrow> ctrl_msg) \<Rightarrow> nat \<Rightarrow> hif_lib \<Rightarrow> hif_lib option" where
  "lib_new_unit raw que unitId s = do {
     let (unitMem, mem) = GetUnitMemBase unitId (lib_mem s);
     let (inBase, mem) = GetInBlkBase unitId mem;
     let (outBase, mem) = GetOutBlkBase unitId mem;
     (ctlIn, mem) \<leftarrow> GetCtlInQueMemBase (lib_map s) unitId mem;
     (ctlOut, mem) \<leftarrow> GetCtlOutQueMemBase (lib_map s) unitId mem;
     let (flushBase, mem) = (if lib_needFlush s then GetFlushLinesBase mem else (0, mem));
     h \<leftarrow> hu_new (lib_par s) (lib_mhz s) (lib_needFlush s) inBase outBase flushBase unitId que (raw unitId);
     Some (s\<lparr>lib_mem := mem, lib_units := (lib_units s)(unitId := Some h)\<rparr>)
   }"

definition lib_InitUnit :: "(nat \<Rightarrow> host_unit) \<Rightarrow> (nat \<Rightarrow> ctrl_msg) \<Rightarrow> nat \<Rightarrow> hif_lib \<Rightarrow> hif_lib option" where
  "lib_InitUnit raw que unitId s = do {
     ensure (unitId < lib_GetUnitCnt s);
     if lib_units s unitId = None then lib_new_unit raw que unitId s else Some s
   }"

text \<open>The search of AllocUnit; the result is the unit found, or none.\<close>

fun lib_find :: "(nat \<Rightarrow> host_unit) \<Rightarrow> (nat \<Rightarrow> ctrl_msg) \<Rightarrow> nat \<Rightarrow> nat \<Rightarrow> nat list \<Rightarrow> hif_lib \<Rightarrow> (nat option \<times> hif_lib) option" where
  "lib_find raw que owner numaSet [] s = Some (None, s)"
| "lib_find raw que owner numaSet (unitId # rest) s =
     (if um_GetNumaSet unitId (lib_map s) \<noteq> numaSet then lib_find raw que owner numaSet rest s
      else case lib_units s unitId of
        None \<Rightarrow> do {
          s \<leftarrow> lib_InitUnit raw que unitId s;
          Some (Some unitId, s\<lparr>lib_owner := (lib_owner s)(unitId := owner)\<rparr>)
        }
      | Some h \<Rightarrow>
          if hu_bFree h then Some (Some unitId, s\<lparr>lib_units := (lib_units s)(unitId := Some (h\<lparr>hu_bFree := False\<rparr>)),
            lib_owner := (lib_owner s)(unitId := owner)\<rparr>)
          else lib_find raw que owner numaSet rest s)"

definition lib_AllocUnit ::
  "(nat \<Rightarrow> host_unit) \<Rightarrow> (nat \<Rightarrow> ctrl_msg) \<Rightarrow> nat \<Rightarrow> int \<Rightarrow> hif_lib \<Rightarrow> (string + nat option \<times> hif_lib) option" where
  "lib_AllocUnit raw que owner numaSet s =
     (if (numaSet < 0) \<noteq> (par_numaSetCnt (lib_par s) = 0) \<or> numaSet \<ge> par_numaSetCnt (lib_par s) then
        (if par_numaSetCnt (lib_par s) > 0 then
           Some (Inl ''Error: AllocUnit() numaSet not specified but htHifParams.m_numaSetCnt > 0'')
         else if numaSet \<ge> 0 then
           Some (Inl ''Error: AllocUnit() numaSet specified but htHifParams.m_numaSetCnt == 0'')
         else Some (Inl ''Error: AllocUnit() numaSet is greater than htHifParams.m_numaSetCnt''))
      else do {
        (u, s) \<leftarrow> lib_find raw que owner (nat numaSet) [0..<um_unitCnt (lib_map s)] s;
        Some (Inr (u, s))
      })"

definition lib_FreeUnit :: "nat \<Rightarrow> hif_lib \<Rightarrow> hif_lib option" where
  "lib_FreeUnit unitId s = do {
     h \<leftarrow> lib_units s unitId;
     Some (s\<lparr>lib_units := (lib_units s)(unitId := Some (h\<lparr>hu_bFree := True\<rparr>))\<rparr>)
   }"

fun lib_free_all :: "nat list \<Rightarrow> hif_lib \<Rightarrow> hif_lib option" where
  "lib_free_all [] s = Some s"
| "lib_free_all (unitId # rest) s = do { s \<leftarrow> lib_FreeUnit unitId s; lib_free_all rest s }"

definition lib_FreeAllUnits :: "hif_lib \<Rightarrow> hif_lib option" where
  "lib_FreeAllUnits s = lib_free_all [0..<lib_GetUnitCnt s] s"

fun lib_send_all :: "(nat \<Rightarrow> host_unit) \<Rightarrow> (nat \<Rightarrow> ctrl_msg) \<Rightarrow> u8 \<Rightarrow> u64 \<Rightarrow> nat list \<Rightarrow> hif_lib \<Rightarrow> hif_lib option" where
  "lib_send_all raw que msgType msgData [] s = Some s"
| "lib_send_all raw que msgType msgData (i # rest) s = do {
     s \<leftarrow> lib_InitUnit raw que i s;
     h \<leftarrow> lib_units s i;
     h \<leftarrow> hu_SendHostMsg msgType msgData h;
     lib_send_all raw que msgType msgData rest (s\<lparr>lib_units := (lib_units s)(i := Some h)\<rparr>)
   }"

definition lib_SendAllHostMsg :: "(nat \<Rightarrow> host_unit) \<Rightarrow> (nat \<Rightarrow> ctrl_msg) \<Rightarrow> u8 \<Rightarrow> u64 \<Rightarrow> hif_lib \<Rightarrow> hif_lib option" where
  "lib_SendAllHostMsg raw que msgType msgData s = lib_send_all raw que msgType msgData [0..<lib_GetUnitCnt s] s"

section \<open>Start\<close>

fun lib_set_args :: "nat list \<Rightarrow> hif_lib \<Rightarrow> hif_lib" where
  "lib_set_args [] s = s"
| "lib_set_args (aeIdx # rest) s =
     (let (arg, mem) = dispatch_arg (lib_par s) aeIdx (lib_mem s)
      in lib_set_args rest (s\<lparr>lib_mem := mem, lib_args := (lib_args s)(aeIdx := arg)\<rparr>))"

definition lib_DispatchCoproc :: "hif_lib \<Rightarrow> hif_lib" where
  "lib_DispatchCoproc s =
     (let s = s\<lparr>lib_mem := InitHifMemory (lib_mem s)\<rparr>;
          s = lib_set_args [0..<lib_aeCnt s] s
      in s\<lparr>lib_bBusy := True, lib_bDispatched := True\<rparr>)"

definition lib_StartCoproc :: "hif_lib \<Rightarrow> hif_lib" where
  "lib_StartCoproc s = (if \<not> lib_bDispatched s then lib_DispatchCoproc s else s)"

text \<open>
  The constructor. What it learns of the machine is an argument: the application's mode, the driver's count, the
  build's constants, whether flush lines are needed, the size of a unit object; the allocator; and the memory's
  first contents.
\<close>

definition lib_new ::
  "hif_params \<Rightarrow> app_mode \<Rightarrow> u64 \<Rightarrow> nat \<Rightarrow> nat \<Rightarrow> bool \<Rightarrow> u64 \<Rightarrow> bool \<Rightarrow> (bool \<Rightarrow> u64 \<Rightarrow> u64 option) \<Rightarrow> (u64 \<Rightarrow> u8) \<Rightarrow>
   (ht_exception + hif_lib) option" where
  "lib_new par appMode appEngineCnt aeConst unitConst needFlush unitSize huge alloc bytes = do {
     (aeCnt, unitMhz, abi, auCnt) \<leftarrow> cp_counts appMode appEngineCnt aeConst unitConst;
     case check_params par of
       Inl e \<Rightarrow> Some (Inl e)
     | Inr numaSetCnt \<Rightarrow> do {
         m \<leftarrow> um_init aeCnt auCnt numaSetCnt;
         r \<leftarrow> AllocHifMem par m (um_unitCnt m) unitSize huge alloc bytes;
         case r of
           Inl e \<Rightarrow> Some (Inl e)
         | Inr mem \<Rightarrow>
             let s = \<lparr>lib_par = par, lib_mhz = of_nat unitMhz, lib_needFlush = needFlush, lib_aeCnt = aeCnt, lib_auCnt = auCnt,
               lib_map = m, lib_mem = mem, lib_units = (\<lambda>_. None), lib_owner = (\<lambda>_. 0), lib_bDispatched = False, lib_bBusy = False,
               lib_args = (\<lambda>_. 0)\<rparr>
             in Some (Inr (if par_numaSetCnt par = 0 then lib_DispatchCoproc s else s))
       }
   }"

section \<open>The pool\<close>

definition lib_free :: "hif_lib \<Rightarrow> nat \<Rightarrow> bool" where
  "lib_free s u \<longleftrightarrow> (case lib_units s u of None \<Rightarrow> True | Some h \<Rightarrow> hu_bFree h)"

definition lib_ok :: "hif_lib \<Rightarrow> bool" where
  "lib_ok s \<longleftrightarrow> um_unitCnt (lib_map s) = lib_GetUnitCnt s \<and>
     (\<forall>u < lib_GetUnitCnt s. um_FindAeAu u (lib_map s) \<noteq> None \<and>
        par_ok (lib_par s) (lib_mhz s) (fst (GetInBlkBase u (lib_mem s))) (fst (GetOutBlkBase u (lib_mem s))))"

lemma region_base_simp [simp]:
  "region_base i x s = (GetMemBase (hm_base s) (hm_regions s ! i) + x, ClearMemRegion i s)"
  by (simp add: region_base_def Let_def)

lemma blk_base:
  "fst (GetInBlkBase u s) = GetMemBase (hm_base s) (hm_regions s ! unit_region u HT_HIF_MEM_BLK_IN s)"
  "fst (GetOutBlkBase u s) = GetMemBase (hm_base s) (hm_regions s ! unit_region u HT_HIF_MEM_BLK_OUT s)"
  by (simp_all add: GetInBlkBase_def GetOutBlkBase_def)

lemma unit_region_Clear [simp]: "unit_region u w (ClearMemRegion i s) = unit_region u w s"
  by (simp add: unit_region_def)

text \<open>The states of the memory an operation may leave: some more regions are cleared.\<close>

definition mem_after :: "hif_mem \<Rightarrow> hif_mem \<Rightarrow> bool" where
  "mem_after s t \<longleftrightarrow> (\<exists>js. t = fold ClearMemRegion js s)"

lemma mem_after_refl [simp]: "mem_after s s"
  unfolding mem_after_def by (rule exI [of _ "[]"]) simp

lemma mem_after_Clear: "mem_after s t \<Longrightarrow> mem_after s (ClearMemRegion i t)"
  unfolding mem_after_def
proof (elim exE)
  fix js
  assume "t = fold ClearMemRegion js s"
  then show "\<exists>js. ClearMemRegion i t = fold ClearMemRegion js s" by (intro exI [of _ "js @ [i]"]) simp
qed

lemma mem_after_same:
  "mem_after s t \<Longrightarrow> fst (GetInBlkBase u t) = fst (GetInBlkBase u s) \<and> fst (GetOutBlkBase u t) = fst (GetOutBlkBase u s) \<and>
     fst (GetCtlQueMemBase ae t) = fst (GetCtlQueMemBase ae s)"
  unfolding mem_after_def
proof (elim exE)
  fix js
  assume t: "t = fold ClearMemRegion js s"
  show ?thesis unfolding t by (induction js arbitrary: s) (simp_all add: blk_base GetCtlQueMemBase_def)
qed

lemma new_unit_run:
  assumes ok: "lib_ok s" and clear: "rings_clear (raw u)" and u: "u < lib_GetUnitCnt s"
  shows "\<exists>h mem. lib_new_unit raw que u s = Some (s\<lparr>lib_mem := mem, lib_units := (lib_units s)(u := Some h)\<rparr>) \<and>
    mem_after (lib_mem s) mem \<and> hu_unitId h = u \<and> \<not> hu_bFree h"
proof -
  let ?in = "fst (GetInBlkBase u (lib_mem s))" and ?out = "fst (GetOutBlkBase u (lib_mem s))"
  from ok u obtain ae au where ae: "um_FindAeAu u (lib_map s) = Some (ae, au)"
    and p: "par_ok (lib_par s) (lib_mhz s) ?in ?out" by (auto simp: lib_ok_def)
  define fb where "fb = (if lib_needFlush s then GetMemBase (hm_base (lib_mem s)) (hm_regions (lib_mem s) ! 1) else 0)"
  from hu_new_runs [OF p clear, of "lib_needFlush s" fb u que] obtain h where
    h: "hu_new (lib_par s) (lib_mhz s) (lib_needFlush s) ?in ?out fb u que (raw u) = Some h" "hu_unitId h = u" "\<not> hu_bFree h" by blast
  define m5 where "m5 = ClearMemRegion (2 + ae) (ClearMemRegion (2 + ae) (ClearMemRegion (unit_region u HT_HIF_MEM_BLK_OUT (lib_mem s))
    (ClearMemRegion (unit_region u HT_HIF_MEM_BLK_IN (lib_mem s)) (ClearMemRegion (unit_region u HT_HIF_MEM_UNIT (lib_mem s)) (lib_mem s)))))"
  let ?mem = "if lib_needFlush s then ClearMemRegion 1 m5 else m5"
  have "lib_new_unit raw que u s = Some (s\<lparr>lib_mem := ?mem, lib_units := (lib_units s)(u := Some h)\<rparr>)"
    using ae h(1) unfolding lib_new_unit_def Let_def blk_base fb_def m5_def
    by (cases "lib_needFlush s") (simp_all add: GetUnitMemBase_def GetInBlkBase_def GetOutBlkBase_def GetCtlInQueMemBase_def
        GetCtlOutQueMemBase_def GetFlushLinesBase_def)
  moreover have "mem_after (lib_mem s) ?mem" by (cases "lib_needFlush s") (simp_all add: m5_def mem_after_Clear)
  ultimately show ?thesis using h(2,3) by blast
qed

lemma lib_ok_cong:
  "lib_ok s \<Longrightarrow> mem_after (lib_mem s) (lib_mem t) \<Longrightarrow> lib_map t = lib_map s \<Longrightarrow> lib_aeCnt t = lib_aeCnt s \<Longrightarrow> lib_auCnt t = lib_auCnt s \<Longrightarrow>
    lib_par t = lib_par s \<Longrightarrow> lib_mhz t = lib_mhz s \<Longrightarrow> lib_ok t"
  by (simp add: lib_ok_def lib_GetUnitCnt_def mem_after_same)

lemma find_run:
  assumes ok: "lib_ok s" and clear: "\<And>u. rings_clear (raw u)" and us: "\<forall>u \<in> set us. u < lib_GetUnitCnt s"
  shows "\<exists>r t. lib_find raw que owner numaSet us s = Some (r, t) \<and> lib_ok t \<and> (case r of
      None \<Rightarrow> t = s \<and> (\<forall>u \<in> set us. um_GetNumaSet u (lib_map s) = numaSet \<longrightarrow> \<not> lib_free s u)
    | Some u \<Rightarrow> (\<exists>p q. us = p @ u # q \<and> (\<forall>v \<in> set p. um_GetNumaSet v (lib_map s) = numaSet \<longrightarrow> \<not> lib_free s v)) \<and>
        um_GetNumaSet u (lib_map s) = numaSet \<and> lib_free s u \<and> \<not> lib_free t u \<and> lib_units t u \<noteq> None \<and> lib_owner t u = owner \<and>
        (\<forall>v. v \<noteq> u \<longrightarrow> lib_units t v = lib_units s v \<and> lib_owner t v = lib_owner s v))"
  using us
proof (induction us)
  case Nil
  then show ?case using ok by simp
next
  case (Cons u us)
  show ?case
  proof (cases "um_GetNumaSet u (lib_map s) = numaSet \<and> lib_free s u")
    case False
    have e: "lib_find raw que owner numaSet (u # us) s = lib_find raw que owner numaSet us s"
      using False by (auto simp: lib_free_def split: option.splits)
    from Cons obtain r t where R: "lib_find raw que owner numaSet us s = Some (r, t)" "lib_ok t" "case r of
      None \<Rightarrow> t = s \<and> (\<forall>u \<in> set us. um_GetNumaSet u (lib_map s) = numaSet \<longrightarrow> \<not> lib_free s u)
    | Some u \<Rightarrow> (\<exists>p q. us = p @ u # q \<and> (\<forall>v \<in> set p. um_GetNumaSet v (lib_map s) = numaSet \<longrightarrow> \<not> lib_free s v)) \<and>
        um_GetNumaSet u (lib_map s) = numaSet \<and> lib_free s u \<and> \<not> lib_free t u \<and> lib_units t u \<noteq> None \<and> lib_owner t u = owner \<and>
        (\<forall>v. v \<noteq> u \<longrightarrow> lib_units t v = lib_units s v \<and> lib_owner t v = lib_owner s v)" by auto
    show ?thesis
    proof (cases r)
      case None
      then show ?thesis using R e False by (intro exI [of _ r] exI [of _ t]) auto
    next
      case (Some v)
      then obtain p q where "us = p @ v # q" "\<forall>v \<in> set p. um_GetNumaSet v (lib_map s) = numaSet \<longrightarrow> \<not> lib_free s v" using R(3) by auto
      then have "\<exists>p q. u # us = p @ v # q \<and> (\<forall>v \<in> set p. um_GetNumaSet v (lib_map s) = numaSet \<longrightarrow> \<not> lib_free s v)"
        using False by (intro exI [of _ "u # p"] exI [of _ q]) auto
      then show ?thesis using R e Some by (intro exI [of _ r] exI [of _ t]) simp
    qed
  next
    case True
    have here: "\<exists>p q. u # us = p @ u # q \<and> (\<forall>v \<in> set p. um_GetNumaSet v (lib_map s) = numaSet \<longrightarrow> \<not> lib_free s v)"
      by (intro exI [of _ "[]"] exI [of _ us]) simp
    show ?thesis
    proof (cases "lib_units s u")
      case None
      have u: "u < lib_GetUnitCnt s" using Cons.prems by simp
      from new_unit_run [where raw = raw and que = que, OF ok clear u] obtain h mem where
        h: "lib_new_unit raw que u s = Some (s\<lparr>lib_mem := mem, lib_units := (lib_units s)(u := Some h)\<rparr>)"
        "mem_after (lib_mem s) mem" "\<not> hu_bFree h" by blast
      let ?t = "s\<lparr>lib_mem := mem, lib_units := (lib_units s)(u := Some h), lib_owner := (lib_owner s)(u := owner)\<rparr>"
      have "lib_find raw que owner numaSet (u # us) s = Some (Some u, ?t)"
        using True None h(1) u by (simp add: lib_InitUnit_def)
      moreover have "lib_ok ?t" by (rule lib_ok_cong [OF ok]) (simp_all add: h(2))
      ultimately show ?thesis using True here h(3) by (intro exI [of _ "Some u"] exI [of _ ?t]) (simp add: lib_free_def)
    next
      case (Some h)
      let ?t = "s\<lparr>lib_units := (lib_units s)(u := Some (h\<lparr>hu_bFree := False\<rparr>)), lib_owner := (lib_owner s)(u := owner)\<rparr>"
      have "lib_find raw que owner numaSet (u # us) s = Some (Some u, ?t)"
        using True Some by (simp add: lib_free_def)
      moreover have "lib_ok ?t" by (rule lib_ok_cong [OF ok]) simp_all
      ultimately show ?thesis using True here by (intro exI [of _ "Some u"] exI [of _ ?t]) (simp add: lib_free_def)
    qed
  qed
qed

lemma upt_split: "[0..<n] = p @ u # q \<Longrightarrow> p = [0..<u] \<and> u < n"
proof -
  assume a: "[0..<n] = p @ u # q"
  have n: "n = length p + Suc (length q)" using arg_cong [OF a, of length] by simp
  have "[0..<n] ! length p = u" unfolding a by simp
  then have u: "u = length p" using n nth_upt [of 0 "length p" n] by simp
  have "p = take (length p) [0..<n]" unfolding a by simp
  then show ?thesis using n u by (simp add: take_upt)
qed

text \<open>
  C9: Allocating a unit. With a NUMA set given exactly when the parameters have NUMA sets, AllocUnit returns the least unit of that
  set that is free or was never constructed, marks it used and owned by the caller and leaves every other unit as it was; it returns none
  exactly when all units of the set are in use, and then changes nothing. Any other call ends the program.
\<close>

theorem alloc_unit_least:
  assumes "lib_ok s" "\<And>u. rings_clear (raw u)"
  shows "if (if par_numaSetCnt (lib_par s) = 0 then numaSet < 0 else 0 \<le> numaSet \<and> numaSet < par_numaSetCnt (lib_par s)) then
      \<exists>r t. lib_AllocUnit raw que owner numaSet s = Some (Inr (r, t)) \<and> lib_ok t \<and> (case r of
        None \<Rightarrow> t = s \<and> (\<forall>u < lib_GetUnitCnt s. um_GetNumaSet u (lib_map s) = nat numaSet \<longrightarrow> \<not> lib_free s u)
      | Some u \<Rightarrow> u < lib_GetUnitCnt s \<and> um_GetNumaSet u (lib_map s) = nat numaSet \<and> lib_free s u \<and>
          (\<forall>v < u. um_GetNumaSet v (lib_map s) = nat numaSet \<longrightarrow> \<not> lib_free s v) \<and>
          \<not> lib_free t u \<and> lib_units t u \<noteq> None \<and> lib_owner t u = owner \<and>
          (\<forall>v. v \<noteq> u \<longrightarrow> lib_units t v = lib_units s v \<and> lib_owner t v = lib_owner s v))
    else \<exists>msg. lib_AllocUnit raw que owner numaSet s = Some (Inl msg)"
proof -
  let ?us = "[0..<lib_GetUnitCnt s]"
  have cnt: "um_unitCnt (lib_map s) = lib_GetUnitCnt s" using assms(1) by (simp add: lib_ok_def)
  from find_run [where raw = raw and que = que and owner = owner and numaSet = "nat numaSet" and us = ?us, OF assms] obtain r t where
    R: "lib_find raw que owner (nat numaSet) ?us s = Some (r, t)" "lib_ok t" "case r of
      None \<Rightarrow> t = s \<and> (\<forall>u \<in> set ?us. um_GetNumaSet u (lib_map s) = nat numaSet \<longrightarrow> \<not> lib_free s u)
    | Some u \<Rightarrow> (\<exists>p q. ?us = p @ u # q \<and> (\<forall>v \<in> set p. um_GetNumaSet v (lib_map s) = nat numaSet \<longrightarrow> \<not> lib_free s v)) \<and>
        um_GetNumaSet u (lib_map s) = nat numaSet \<and> lib_free s u \<and> \<not> lib_free t u \<and> lib_units t u \<noteq> None \<and> lib_owner t u = owner \<and>
        (\<forall>v. v \<noteq> u \<longrightarrow> lib_units t v = lib_units s v \<and> lib_owner t v = lib_owner s v)" by auto
  have first: "u < lib_GetUnitCnt s \<and> (\<forall>v < u. um_GetNumaSet v (lib_map s) = nat numaSet \<longrightarrow> \<not> lib_free s v)" if "r = Some u" for u
  proof -
    from R(3) that obtain p q where "?us = p @ u # q" "\<forall>v \<in> set p. um_GetNumaSet v (lib_map s) = nat numaSet \<longrightarrow> \<not> lib_free s v" by auto
    with upt_split [of "lib_GetUnitCnt s" p u q] show ?thesis by auto
  qed
  show ?thesis
  proof (cases "if par_numaSetCnt (lib_par s) = 0 then numaSet < 0 else 0 \<le> numaSet \<and> numaSet < par_numaSetCnt (lib_par s)")
    case True
    then have "lib_AllocUnit raw que owner numaSet s = Some (Inr (r, t))"
      using R(1) by (auto simp: lib_AllocUnit_def cnt split: if_splits)
    then show ?thesis using True R(2,3) first by (cases r) auto
  qed (auto simp: lib_AllocUnit_def split: if_splits)
qed

section \<open>The object after its constructor\<close>

lemma nth_concat4:
  assumes "\<And>u. length (f u) = 4" "w < 4"
  shows "u < n \<Longrightarrow> concat (map f [0..<n]) ! (u * 4 + w) = f u ! w \<and> u * 4 + w < length (concat (map f [0..<n]))"
proof (induction n)
  case (Suc n)
  have l: "length (concat (map f [0..<n])) = n * 4" for n using assms(1) by (induction n) simp_all
  show ?case
  proof (cases "u < n")
    case True
    then show ?thesis using Suc.IH l [of n] assms by (simp add: nth_append)
  next
    case False
    then show ?thesis using Suc.prems l [of n] assms by (simp add: nth_append less_Suc_eq)
  qed
qed simp

text \<open>The two block regions of a unit are there and not empty.\<close>

lemma blk_region_size:
  assumes "AllocHifMem par m unitCnt unitSize huge alloc bytes = Some (Inr s)" "u < unitCnt" "w < 2"
    and par: "check_params par = Inr numaSetCnt"
  shows "unit_region u w s < length (hm_regions s)" "GetMemSize (hm_regions s ! unit_region u w s) \<noteq> 0"
proof -
  define iB where "iB = (2 ^ par_iBlkSizeW par * 2 ^ par_iBlkCntW par :: u64)"
  define oB where "oB = (2 ^ par_oBlkSizeW par * 2 ^ par_oBlkCntW par :: u64)"
  define f where "f = unit_regions m iB oB (round_page (par_appUnitMemSize par)) (ucast (round_page unitSize))"
  obtain rs0 where r0: "hif_regions par m unitCnt unitSize = Some rs0" and e: "map rg_sortKey (hm_regions s) = map rg_sortKey rs0"
    and ae: "hm_aeCnt s = um_aeCnt m" by (rule alloc_regions [OF assms(1)])
  from r0 obtain ctl where c: "ctl_regions m (ctl_half_size par + ctl_half_size par) [0..<um_aeCnt m] = Some ctl"
    and rs: "rs0 = InitRegion (round_page (par_appPersMemSize par)) 0 rg_new # InitRegion (64 * 8) 0 rg_new # ctl @ concat (map f [0..<unitCnt])"
    unfolding hif_regions_def Let_def f_def iB_def oB_def by (auto simp: bind_eq_Some_conv)
  have lc: "length ctl = um_aeCnt m" using ctl_regions_nth [OF c] by simp
  have f4: "length (f u) = 4" for u by (simp add: f_def unit_regions_def Let_def)
  have k: "unit_region u w s = 2 + length ctl + (u * 4 + w)" by (simp add: unit_region_def ae lc)
  have nc: "concat (map f [0..<unitCnt]) ! (u * 4 + w) = f u ! w" "u * 4 + w < length (concat (map f [0..<unitCnt]))"
    using nth_concat4 [where f = f, OF f4, of w u unitCnt] assms(2,3) by simp_all
  have at: "rs0 ! unit_region u w s = f u ! w" and lt: "unit_region u w s < length rs0"
    using nc unfolding k by (simp_all add: rs nth_append)
  show "unit_region u w s < length (hm_regions s)" using lt map_eq_imp_length_eq [OF e] by simp
  have b: "16 \<le> par_iBlkSizeW par" "par_iBlkSizeW par \<le> 25" "par_iBlkCntW par \<le> 6" "16 \<le> par_oBlkSizeW par" "par_oBlkSizeW par \<le> 25" "par_oBlkCntW par \<le> 6"
    using check_params_exact [of par] unfolding par by simp_all
  have pw: "unat (2 ^ a * 2 ^ c :: u64) = 2 ^ (a + c) \<and> (2::nat) ^ (a + c) \<le> 2 ^ 31" if "a \<le> 25" "c \<le> 6" for a c
  proof -
    have le: "(2::nat) ^ (a + c) \<le> 2 ^ 31" using that by (intro power_increasing) simp_all
    have "(2 ^ a * 2 ^ c :: u64) = of_nat (2 ^ (a + c))" by (simp add: power_add)
    then have "unat (2 ^ a * 2 ^ c :: u64) = 2 ^ (a + c) mod 2 ^ 64" by (simp only: unat_of_nat) simp
    then show ?thesis using le by simp
  qed
  have sz: "GetMemSize (InitRegion x n rg_new) \<noteq> 0" if "unat x = 2 ^ k" "(2::nat) ^ k \<le> 2 ^ 31" for x n k
  proof -
    have "GetMemSize (InitRegion x n rg_new) = x" using that by (intro GetMemSize_Init) simp
    then show ?thesis using that(1) by (metis power_not_zero unat_0 zero_neq_numeral)
  qed
  have "GetMemSize (InitRegion iB n rg_new) \<noteq> 0" "GetMemSize (InitRegion oB n rg_new) \<noteq> 0" for n
    using sz [OF pw [OF b(2,3), THEN conjunct1] pw [OF b(2,3), THEN conjunct2]] sz [OF pw [OF b(5,6), THEN conjunct1] pw [OF b(5,6), THEN conjunct2]]
    unfolding iB_def oB_def by blast+
  then have "GetMemSize (f u ! w) \<noteq> 0"
    using assms(3) unfolding f_def unit_regions_def Let_def by (cases w) simp_all
  moreover have "GetMemSize (hm_regions s ! unit_region u w s) = GetMemSize (rs0 ! unit_region u w s)"
    using arg_cong [OF keys_sizes [OF e], of "\<lambda>x. x ! unit_region u w s"] lt map_eq_imp_length_eq [OF e] by simp
  ultimately show "GetMemSize (hm_regions s ! unit_region u w s) \<noteq> 0" using at by simp
qed

lemma region_start_less: "GetMemSize r \<noteq> 0 \<Longrightarrow> rg_start r < rg_end r"
  by (simp add: rg_start_def rg_end_def unat_gt_0)

lemma blk_bases_ok:
  assumes par: "check_params par = Inr numaSetCnt" and alloc: "AllocHifMem par m unitCnt unitSize huge alloc bytes = Some (Inr s)"
    and fits: "(\<Sum>r\<leftarrow>hm_regions s. unat (GetMemSize r) + 2 ^ 21) < 2 ^ 56" and base: "unat (hm_base s) + unat (hm_memSize s) < 2 ^ 48"
    and u: "u < unitCnt"
  shows "fst (GetInBlkBase u s) < 2 ^ 56" "fst (GetOutBlkBase u s) < 2 ^ 56" "fst (GetInBlkBase u s) \<noteq> fst (GetOutBlkBase u s)"
proof -
  have geo: "mem_geo s" using base by (intro alloc_geo [OF par alloc fits]) simp
  have L: "\<forall>i < length (hm_regions s). rg_end (hm_regions s ! i) \<le> unat (hm_memSize s)"
    using alloc_layout [OF par alloc fits] by (auto simp: Let_def)
  note s0 = blk_region_size [OF alloc u _ par, of 0] and s1 = blk_region_size [OF alloc u _ par, of 1]
  let ?r0 = "hm_regions s ! unit_region u 0 s" and ?r1 = "hm_regions s ! unit_region u 1 s"
  have b: "unat (GetMemBase (hm_base s) ?r0) = unat (hm_base s) + rg_start ?r0" "unat (GetMemBase (hm_base s) ?r1) = unat (hm_base s) + rg_start ?r1"
    by (rule unat_GetMemBase [OF geo s0(1)] unat_GetMemBase [OF geo s1(1)]; simp)+
  have st: "rg_start ?r0 < rg_end ?r0" "rg_start ?r1 < rg_end ?r1" using s0(2) s1(2) by (simp_all add: region_start_less)
  have "rg_end ?r0 \<le> unat (hm_memSize s)" "rg_end ?r1 \<le> unat (hm_memSize s)"
    using L s0(1) s1(1) by simp_all
  then show "fst (GetInBlkBase u s) < 2 ^ 56" "fst (GetOutBlkBase u s) < 2 ^ 56"
    using b st base unfolding blk_base word_less_nat_alt by simp_all
  have "rg_end ?r0 \<le> rg_start ?r1 \<or> rg_end ?r1 \<le> rg_start ?r0"
    using geo s0(1) s1(1) unfolding mem_geo_def by (simp add: unit_region_def)
  then have "rg_start ?r0 \<noteq> rg_start ?r1" using st by linarith
  then show "fst (GetInBlkBase u s) \<noteq> fst (GetOutBlkBase u s)" using b unfolding blk_base by (metis add_left_cancel)
qed

text \<open>What the dispatch leaves: the memory initialised, and every engine's argument set.\<close>

lemma set_args_run:
  "lib_set_args as s = s\<lparr>lib_mem := fold ClearMemRegion (map ((+) 2) as) (lib_mem s),
     lib_args := (\<lambda>a. if a \<in> set as then fst (dispatch_arg (lib_par s) a (lib_mem s)) else lib_args s a)\<rparr>"
proof (induction as arbitrary: s)
  case (Cons a as)
  have keep: "fst (dispatch_arg par b (ClearMemRegion c mem)) = fst (dispatch_arg par b mem)" for par b c mem
    by (simp add: dispatch_arg_def GetCtlQueMemBase_def)
  have step: "lib_set_args (a # as) s = lib_set_args as (s\<lparr>lib_mem := ClearMemRegion (2 + a) (lib_mem s),
      lib_args := (lib_args s)(a := fst (dispatch_arg (lib_par s) a (lib_mem s)))\<rparr>)"
    by (simp add: dispatch_arg_def GetCtlQueMemBase_def)
  have m: "map ((+) 2) (a # as) = (2 + a) # map ((+) 2) as" by (rule list.map(2))
  show ?case unfolding step Cons.IH m by (rule hif_lib.equality) (simp_all add: keep fun_eq_iff)
qed simp

lemma dispatch_run:
  "lib_DispatchCoproc s = s\<lparr>lib_mem := fold ClearMemRegion (map ((+) 2) [0..<lib_aeCnt s]) (InitHifMemory (lib_mem s)),
     lib_args := (\<lambda>a. if a < lib_aeCnt s then fst (dispatch_arg (lib_par s) a (lib_mem s)) else lib_args s a),
     lib_bBusy := True, lib_bDispatched := True\<rparr>"
proof -
  have keep: "fst (dispatch_arg par b (fold ClearMemRegion js mem)) = fst (dispatch_arg par b mem)" for par b js mem
    by (induction js arbitrary: mem) (simp_all add: dispatch_arg_def GetCtlQueMemBase_def)
  show ?thesis unfolding lib_DispatchCoproc_def Let_def set_args_run by (rule hif_lib.equality) (simp_all add: InitHifMemory_def keep fun_eq_iff)
qed

lemma fold_clears:
  "cleared s j \<Longrightarrow> cleared (fold ClearMemRegion is s) j"
  by (induction "is" arbitrary: s) (simp_all add: cleared_keeps)

lemma Init_cleared: "j < length (hm_regions s) \<Longrightarrow> cleared (InitHifMemory s) j"
proof -
  have "length (hm_regions (fold ClearMemRegion js s)) = length (hm_regions s)" for js s by (induction js arbitrary: s) simp_all
  then have "j < n \<Longrightarrow> n \<le> length (hm_regions s) \<Longrightarrow> cleared (fold ClearMemRegion [0..<n] s) j" for n
    by (induction n) (auto simp: Clear_cleared less_Suc_eq)
  then show "j < length (hm_regions s) \<Longrightarrow> cleared (InitHifMemory s) j" by (simp add: InitHifMemory_def)
qed

lemma unat_disp_or:
  assumes "unat (a :: u64) < 2 ^ 48" "w < 2 ^ 15"
  shows "unat ((a AND 0xFFFFFFFFFFFF) OR (push_bit 48 (of_nat w) AND 0xFFFF000000000000)) = unat a + w * 2 ^ 48"
proof -
  have m: "(0xFFFFFFFFFFFF :: u64) = mask 48" "(0xFFFF000000000000 :: u64) = push_bit 48 (mask 16)"
    by (simp_all add: mask_eq_exp_minus_1 push_bit_eq_mult)
  have a: "a AND mask 48 = a" using assms(1) by (intro and_mask_id) simp
  have w: "of_nat w AND mask 16 = (of_nat w :: u64)" using assms(2) by (intro and_mask_id) (simp add: unat_of_nat)
  have p: "push_bit 48 (of_nat w) AND push_bit 48 (mask 16) = push_bit 48 (of_nat w :: u64)"
    unfolding push_bit_and [symmetric] w ..
  have "a AND push_bit 48 (of_nat w) = 0"
  proof (rule bit_word_eqI)
    fix n
    show "bit (a AND push_bit 48 (of_nat w)) n = bit (0 :: u64) n"
      by (subst a [symmetric]) (auto simp: bit_simps)
  qed
  then have "a OR push_bit 48 (of_nat w) = a + push_bit 48 (of_nat w)" by (simp add: disjunctive_add_eq_or)
  moreover have "unat (push_bit 48 (of_nat w) :: u64) = w * 2 ^ 48"
  proof -
    have "(push_bit 48 (of_nat w) :: u64) = of_nat (w * 2 ^ 48)" by (simp add: push_bit_eq_mult)
    then show ?thesis using assms(2) by (simp only: unat_of_nat) simp
  qed
  ultimately show ?thesis unfolding m a p using assms by (simp add: unat_word_ariths)
qed

lemma mem_after_Init: "mem_after s t \<Longrightarrow> mem_after s (InitHifMemory t)"
proof -
  have "mem_after s t \<Longrightarrow> mem_after s (fold ClearMemRegion js t)" for js t
    by (induction js arbitrary: t) (simp_all add: mem_after_Clear)
  then show "mem_after s t \<Longrightarrow> mem_after s (InitHifMemory t)" by (simp add: InitHifMemory_def)
qed

lemma mem_after_fold: "mem_after s t \<Longrightarrow> mem_after s (fold ClearMemRegion js t)"
  by (induction js arbitrary: t) (simp_all add: mem_after_Clear)

lemma lib_new_shape:
  assumes "lib_new par mode cnt aeConst unitConst nf unitSize huge alloc bytes = Some (Inr s)"
    and "cp_counts mode cnt aeConst unitConst = Some (aeCnt, mhz, abi, auCnt)" "0 < aeCnt" "auCnt \<le> 16"
  obtains n m mem s0 where "check_params par = Inr n" "um_init aeCnt auCnt n = Some m"
    "AllocHifMem par m (aeCnt * auCnt) unitSize huge alloc bytes = Some (Inr mem)"
    "lib_par s0 = par" "lib_mhz s0 = of_nat mhz" "lib_aeCnt s0 = aeCnt" "lib_auCnt s0 = auCnt" "lib_map s0 = m" "lib_mem s0 = mem"
    "lib_units s0 = (\<lambda>_. None)" "\<not> lib_bDispatched s0" "s = (if par_numaSetCnt par = 0 then lib_DispatchCoproc s0 else s0)"
    "um_unitCnt m = aeCnt * auCnt" "\<forall>u < aeCnt * auCnt. um_FindAeAu u m = Some (u mod aeCnt, u div aeCnt)" "um_aeCnt m = aeCnt"
proof -
  have ae: "aeCnt \<le> 4" using assms(2) by (auto simp: cp_counts_def Let_def split: if_splits)
  from assms(1,2) obtain n where n: "check_params par = Inr n" by (cases "check_params par") (simp_all add: lib_new_def)
  from unit_map_ok [OF assms(3) ae assms(4), of n] obtain m where m: "um_init aeCnt auCnt n = Some m" "um_unitCnt m = aeCnt * auCnt"
    "\<forall>u < aeCnt * auCnt. um_FindAeAu u m = Some (u mod aeCnt, u div aeCnt)" "um_aeCnt m = aeCnt" by auto
  let ?a = "AllocHifMem par m (aeCnt * auCnt) unitSize huge alloc bytes"
  obtain mem where mem: "?a = Some (Inr mem)"
  proof (cases ?a)
    case (Some r)
    then show ?thesis using assms(1,2) n m that by (cases r) (simp_all add: lib_new_def)
  qed (use assms(1,2) n m in \<open>simp add: lib_new_def\<close>)
  let ?s0 = "\<lparr>lib_par = par, lib_mhz = of_nat mhz, lib_needFlush = nf, lib_aeCnt = aeCnt, lib_auCnt = auCnt,
     lib_map = m, lib_mem = mem, lib_units = (\<lambda>_. None), lib_owner = (\<lambda>_. 0), lib_bDispatched = False, lib_bBusy = False,
     lib_args = (\<lambda>_. 0)\<rparr>"
  have "s = (if par_numaSetCnt par = 0 then lib_DispatchCoproc ?s0 else ?s0)"
    using assms(1,2) n m mem by (simp add: lib_new_def Let_def)
  from that [OF n m(1) mem _ _ _ _ _ _ _ _ this m(2,3,4)] show ?thesis by simp
qed

text \<open>Memory facts that clearing does not change.\<close>

lemma fold_Clear_same:
  "map GetMemSize (hm_regions (fold ClearMemRegion js s)) = map GetMemSize (hm_regions s)"
  "hm_memSize (fold ClearMemRegion js s) = hm_memSize s" "hm_base (fold ClearMemRegion js s) = hm_base s"
  "addr_in (fold ClearMemRegion js s) i a = addr_in s i a"
proof -
  have "map GetMemSize (hm_regions (ClearMemRegion k s)) = map GetMemSize (hm_regions s)" for k s
    by (rule nth_equalityI) simp_all
  moreover have "hm_memSize (ClearMemRegion k s) = hm_memSize s" for k s by (simp add: ClearMemRegion_def Let_def)
  ultimately show "map GetMemSize (hm_regions (fold ClearMemRegion js s)) = map GetMemSize (hm_regions s)"
    "hm_memSize (fold ClearMemRegion js s) = hm_memSize s" "hm_base (fold ClearMemRegion js s) = hm_base s"
    "addr_in (fold ClearMemRegion js s) i a = addr_in s i a"
    by (induction js arbitrary: s) simp_all
qed

text \<open>After the initialisation clearing does nothing, and every region is zero.\<close>

lemma fold_Clear_id:
  "\<forall>j \<in> set js. cleared s j \<Longrightarrow> fold ClearMemRegion js s = s"
  by (induction js arbitrary: s) (simp_all add: ClearMemRegion_def cleared_def Let_def)

lemma Init_zero:
  assumes "mem_geo s" "\<And>i. i < length (hm_regions s) \<Longrightarrow> rg_bCleared (hm_regions s ! i) = 0" "addr_in s i a"
  shows "hm_bytes (InitHifMemory s) a = 0"
proof -
  have "mem_shows (\<lambda>_. 0) s" using assms(2) by (simp add: mem_shows_def cleared_def)
  from init_shows [OF assms(1) this order_refl] have "mem_shows (\<lambda>_. 0) (InitHifMemory s)" by (simp add: InitHifMemory_def Let_def)
  moreover have "i < length (hm_regions s)" using assms(3) by (simp add: addr_in_def)
  ultimately show ?thesis using Init_cleared [of i s] assms(3) unfolding mem_shows_def by (metis Init_length keeps(3))
qed

lemma constructor_ok:
  assumes new: "lib_new par mode cnt aeConst unitConst nf unitSize huge alloc bytes = Some (Inr s)"
    and cp: "cp_counts mode cnt aeConst unitConst = Some (aeCnt, mhz, abi, auCnt)" "0 < aeCnt" "auCnt \<le> 16"
    and fits: "(\<Sum>r\<leftarrow>hm_regions (lib_mem s). unat (GetMemSize r) + 2 ^ 21) < 2 ^ 56"
    and base: "unat (hm_base (lib_mem s)) + unat (hm_memSize (lib_mem s)) < 2 ^ 48"
    and w: "par_ctlQueW par = 9"
    and clks: "sint (par_oBlkTimerUSec par * of_nat mhz) < 2 ^ 28" "sint (par_ctlTimerUSec par * of_nat mhz) < 2 ^ 16"
  shows "lib_ok s \<and> lib_GetUnitCnt s = aeCnt * auCnt \<and> (\<forall>u. lib_free s u) \<and>
    (lib_bDispatched s \<longleftrightarrow> par_numaSetCnt par = 0) \<and>
    (lib_bDispatched s \<longrightarrow> (\<forall>i a. addr_in (lib_mem s) i a \<longrightarrow> hm_bytes (lib_mem s) a = 0) \<and>
      (\<forall>ae < aeCnt. unat (lib_args s ae) = unat (fst (GetCtlQueMemBase ae (lib_mem s))) + 9 * 2 ^ 48))"
proof -
  from lib_new_shape [OF new cp] obtain n m mem s0 where S: "check_params par = Inr n" "um_init aeCnt auCnt n = Some m"
    "AllocHifMem par m (aeCnt * auCnt) unitSize huge alloc bytes = Some (Inr mem)"
    "lib_par s0 = par" "lib_mhz s0 = of_nat mhz" "lib_aeCnt s0 = aeCnt" "lib_auCnt s0 = auCnt" "lib_map s0 = m" "lib_mem s0 = mem"
    "lib_units s0 = (\<lambda>_. None)" "\<not> lib_bDispatched s0" "s = (if par_numaSetCnt par = 0 then lib_DispatchCoproc s0 else s0)"
    "um_unitCnt m = aeCnt * auCnt" "\<forall>u < aeCnt * auCnt. um_FindAeAu u m = Some (u mod aeCnt, u div aeCnt)" "um_aeCnt m = aeCnt" by metis
  have s_same: "lib_par s = par" "lib_mhz s = of_nat mhz" "lib_aeCnt s = aeCnt" "lib_auCnt s = auCnt" "lib_map s = m" "lib_units s = (\<lambda>_. None)"
    "lib_bDispatched s \<longleftrightarrow> par_numaSetCnt par = 0" using S by (simp_all add: dispatch_run)
  obtain js where js: "lib_mem s = fold ClearMemRegion js mem"
  proof (cases "par_numaSetCnt par = 0")
    case True
    then have "lib_mem s = fold ClearMemRegion ([0..<length (hm_regions mem)] @ map ((+) 2) [0..<aeCnt]) mem"
      by (simp add: S(4-12) dispatch_run InitHifMemory_def)
    then show ?thesis using that by blast
  qed (use that [of "[]"] S(9,12) in simp)
  note same = fold_Clear_same [of js mem, folded js]
  have fit: "(\<Sum>r\<leftarrow>hm_regions mem. unat (GetMemSize r) + 2 ^ 21) < 2 ^ 56"
    using fits arg_cong [OF same(1), of "\<lambda>l. sum_list (map (\<lambda>x. unat x + 2 ^ 21) l)"] by (simp add: comp_def)
  have bs: "unat (hm_base mem) + unat (hm_memSize mem) < 2 ^ 48" using base unfolding same(2,3) .
  have geo: "mem_geo mem" using bs by (intro alloc_geo [OF S(1,3) fit]) simp
  have after: "mem_after mem (lib_mem s)" unfolding mem_after_def using js by blast
  have p: "par_ok par (of_nat mhz) (fst (GetInBlkBase u mem)) (fst (GetOutBlkBase u mem))" if "u < aeCnt * auCnt" for u
    using blk_bases_ok [OF S(1,3) fit bs that] check_params_exact [of par] clks unfolding S(1) par_ok_def by (simp add: w)
  have ok: "lib_ok s" using p S(13,14) unfolding lib_ok_def lib_GetUnitCnt_def s_same
    by (simp add: mem_after_same [OF after])
  have ctl_len: "2 + ae < length (hm_regions mem)" if "ae < aeCnt" for ae
  proof -
    have "aeCnt \<le> 4" using cp(1) by (auto simp: cp_counts_def Let_def split: if_splits)
    from unit_map_ok [OF cp(2) this cp(3), of n] S(2) that have "um_GetAuCnt ae m = auCnt" by auto
    then show ?thesis using ctl_region_size(1) [OF S(3), of ae] that cp(3) by (simp add: S(15) w)
  qed
  have zero: "hm_bytes (lib_mem s) a = 0" if d: "lib_bDispatched s" and i: "addr_in (lib_mem s) i a" for i a
  proof -
    have "cleared (InitHifMemory mem) (2 + ae)" if "ae < aeCnt" for ae using ctl_len [OF that] by (rule Init_cleared)
    then have "\<forall>j \<in> set (map ((+) 2) [0..<aeCnt]). cleared (InitHifMemory mem) j" by auto
    from fold_Clear_id [OF this] have "lib_mem s = InitHifMemory mem"
      using d s_same(7) by (simp only: S(12) if_True dispatch_run) (simp add: S(6,9))
    moreover have "addr_in mem i a" using i unfolding same(4) .
    ultimately show ?thesis using Init_zero [OF geo alloc_uncleared [OF S(3)]] by simp
  qed
  have arg: "unat (lib_args s ae) = unat (fst (GetCtlQueMemBase ae (lib_mem s))) + 9 * 2 ^ 48" if d: "lib_bDispatched s" and ae: "ae < aeCnt" for ae
  proof -
    have "lib_args s ae = fst (dispatch_arg par ae mem)" using d s_same(7) ae by (simp add: S(4-12) dispatch_run)
    moreover have "unat (fst (GetCtlQueMemBase ae mem)) < 2 ^ 48"
    proof -
      have i: "2 + ae < length (hm_regions mem)" using ctl_len [OF ae] .
      have "rg_end (hm_regions mem ! (2 + ae)) \<le> unat (hm_memSize mem)"
        using alloc_layout [OF S(1,3) fit] i by (auto simp: Let_def)
      then show ?thesis using unat_GetMemBase [OF geo i] bs by (simp add: GetCtlQueMemBase_def rg_start_def rg_end_def)
    qed
    ultimately show ?thesis using unat_disp_or [of "fst (GetCtlQueMemBase ae mem)" 9] unfolding mem_after_same [OF after, THEN conjunct2, THEN conjunct2]
      by (cases "GetCtlQueMemBase ae mem") (simp add: dispatch_arg_def w)
  qed
  show ?thesis using ok zero arg s_same(6,7) by (simp add: lib_GetUnitCnt_def s_same lib_free_def)
qed

text \<open>
  C8: What the constructor leaves. When it returns an object, for control queues of the default width 9, an
  allocation that ends below 2^48, regions that fit into 56 bits and timers in range, its units are all free and every one can be constructed; without NUMA sets
  the coprocessor is dispatched, with every region zeroed, and the argument of each engine is the address of its queues with the width, 9, above bit 48; with NUMA
  sets the dispatch waits for StartCoproc.
\<close>

theorem constructor_ready:
  assumes new: "lib_new par mode cnt aeConst unitConst nf unitSize huge alloc bytes = Some (Inr s)"
    and cp: "cp_counts mode cnt aeConst unitConst = Some (aeCnt, mhz, abi, auCnt)" "0 < aeCnt" "auCnt \<le> 16"
    and fits: "(\<Sum>r\<leftarrow>hm_regions (lib_mem s). unat (GetMemSize r) + 2 ^ 21) < 2 ^ 56"
    and base: "unat (hm_base (lib_mem s)) + unat (hm_memSize (lib_mem s)) < 2 ^ 48"
    and w: "par_ctlQueW par = 9"
    and clks: "sint (par_oBlkTimerUSec par * of_nat mhz) < 2 ^ 28" "sint (par_ctlTimerUSec par * of_nat mhz) < 2 ^ 16"
  shows "lib_ok s \<and> lib_GetUnitCnt s = aeCnt * auCnt \<and> (\<forall>u. lib_free s u) \<and>
    (lib_bDispatched s \<longleftrightarrow> par_numaSetCnt par = 0) \<and>
    (lib_bDispatched s \<longrightarrow> (\<forall>i a. addr_in (lib_mem s) i a \<longrightarrow> hm_bytes (lib_mem s) a = 0) \<and>
      (\<forall>ae < aeCnt. unat (lib_args s ae) = unat (fst (GetCtlQueMemBase ae (lib_mem s))) + 9 * 2 ^ 48))"
  by (rule constructor_ok [OF assms])

text \<open>A sample: the object of a model build with one engine of one unit.\<close>

definition samp_lib :: hif_lib where
  "samp_lib = lib_DispatchCoproc \<lparr>lib_par = CHtHifParams, lib_mhz = 150, lib_needFlush = False, lib_aeCnt = 1, lib_auCnt = 1,
     lib_map = samp_map, lib_mem = samp_state, lib_units = (\<lambda>_. None), lib_owner = (\<lambda>_. 0), lib_bDispatched = False,
     lib_bBusy = False, lib_args = (\<lambda>_. 0)\<rparr>"

lemma samp_lib_new:
  "lib_new CHtHifParams eAppModel 0 1 1 False 5000 False (\<lambda>_ _. Some 0x400000) (\<lambda>_. 170) = Some (Inr samp_lib)"
proof -
  have "cp_counts eAppModel 0 1 1 = Some (1, 150, 0, 1)" by (simp add: cp_counts_def)
  moreover have "um_unitCnt samp_map = 1" "par_numaSetCnt CHtHifParams = 0" by (simp_all add: samp_map_def CHtHifParams_def)
  ultimately show ?thesis using samp_params samp_map_init samp_alloc by (simp add: lib_new_def samp_mem_def samp_lib_def)
qed

lemma samp_lib_pre:
  "cp_counts eAppModel 0 1 1 = Some (1, 150, 0, 1)" "(0::nat) < 1" "(1::nat) \<le> 16"
  "(\<Sum>r\<leftarrow>hm_regions (lib_mem samp_lib). unat (GetMemSize r) + 2 ^ 21) < 2 ^ 56"
  "unat (hm_base (lib_mem samp_lib)) + unat (hm_memSize (lib_mem samp_lib)) < 2 ^ 48" "par_ctlQueW CHtHifParams = 9"
  "sint (par_oBlkTimerUSec CHtHifParams * of_nat 150) < 2 ^ 28" "sint (par_ctlTimerUSec CHtHifParams * of_nat 150) < 2 ^ 16"
proof -
  obtain js where js: "lib_mem samp_lib = fold ClearMemRegion js samp_state"
  proof
    show "lib_mem samp_lib = fold ClearMemRegion ([0..<length (hm_regions samp_state)] @ map ((+) 2) [0..<1]) samp_state"
      unfolding samp_lib_def dispatch_run by (simp add: InitHifMemory_def)
  qed
  note same = fold_Clear_same [of js samp_state, folded js]
  show "(\<Sum>r\<leftarrow>hm_regions (lib_mem samp_lib). unat (GetMemSize r) + 2 ^ 21) < 2 ^ 56"
    using samp_fits arg_cong [OF same(1), of "\<lambda>l. sum_list (map (\<lambda>x. unat x + 2 ^ 21) l)"] by (simp add: comp_def)
  show "unat (hm_base (lib_mem samp_lib)) + unat (hm_memSize (lib_mem samp_lib)) < 2 ^ 48"
    unfolding same(2,3) by (simp add: samp_state_def)
qed (simp_all add: cp_counts_def CHtHifParams_def)

theorem constructor_ready_witness:
  "lib_ok samp_lib \<and> lib_bDispatched samp_lib \<and>
    unat (lib_args samp_lib 0) = unat (fst (GetCtlQueMemBase 0 (lib_mem samp_lib))) + 9 * 2 ^ 48"
proof -
  have "par_numaSetCnt CHtHifParams = 0" by (simp add: CHtHifParams_def)
  with constructor_ready [OF samp_lib_new samp_lib_pre] show ?thesis by simp
qed

theorem alloc_unit_least_witness:
  "\<exists>t. lib_AllocUnit (\<lambda>_. zero_host) (\<lambda>_. 0) 77 (- 1) samp_lib = Some (Inr (Some 0, t)) \<and> lib_owner t 0 = 77 \<and> \<not> lib_free t 0"
proof -
  have ok: "lib_ok samp_lib" "lib_GetUnitCnt samp_lib = 1" "\<forall>u. lib_free samp_lib u"
    using constructor_ok [OF samp_lib_new samp_lib_pre] by simp_all
  have par: "lib_par samp_lib = CHtHifParams" "lib_map samp_lib = samp_map" by (simp_all add: samp_lib_def dispatch_run)
  have n: "par_numaSetCnt (lib_par samp_lib) = 0" "um_GetNumaSet 0 (lib_map samp_lib) = 0"
    by (simp_all add: par CHtHifParams_def samp_map_def um_new_def um_GetNumaSet_def)
  note A = alloc_unit_least [where raw = "\<lambda>_. zero_host" and que = "\<lambda>_. 0" and owner = 77 and numaSet = "- 1", OF ok(1) zero_clear]
  from A n(1) obtain r t where R: "lib_AllocUnit (\<lambda>_. zero_host) (\<lambda>_. 0) 77 (- 1) samp_lib = Some (Inr (r, t))" and
    C: "case r of None \<Rightarrow> t = samp_lib \<and> (\<forall>u < lib_GetUnitCnt samp_lib. um_GetNumaSet u (lib_map samp_lib) = nat (- 1) \<longrightarrow> \<not> lib_free samp_lib u)
      | Some u \<Rightarrow> u < lib_GetUnitCnt samp_lib \<and> um_GetNumaSet u (lib_map samp_lib) = nat (- 1) \<and> lib_free samp_lib u \<and>
          (\<forall>v < u. um_GetNumaSet v (lib_map samp_lib) = nat (- 1) \<longrightarrow> \<not> lib_free samp_lib v) \<and>
          \<not> lib_free t u \<and> lib_units t u \<noteq> None \<and> lib_owner t u = 77 \<and>
          (\<forall>v. v \<noteq> u \<longrightarrow> lib_units t v = lib_units samp_lib v \<and> lib_owner t v = lib_owner samp_lib v)" by auto
  have "r = Some 0" using C ok(2,3) n(2) by (cases r) auto
  then show ?thesis using R C by (intro exI [of _ t]) simp
qed

end
