(* ===== verification/ExprEval.thy ===== *)
theory ExprEval
  imports CIntegers
begin

text \<open>
  What the tool set's constant expression evaluators share: the tokens (\<^verbatim>\<open>EToken\<close> of \<^verbatim>\<open>htl/Lex.h\<close>; the private \<^verbatim>\<open>EToken2\<close> of the
  preprocessors names the same tokens \<^verbatim>\<open>tk_*\<close>), the characters, the arithmetic on \<^verbatim>\<open>int\<close>, and the operand and operator stacks. The
  evaluators differ in their precedence table, in their treatment of equal precedences and in the operators they apply: these are the
  parameters of the locale \<open>stack_eval\<close>, in which the stacks are related to the value of an expression.
\<close>

section \<open>Tokens and characters\<close>

datatype etoken = eTkIdent | eTkLParen | eTkRParen | eTkError | eTkBang | eTkNumInt | eTkNumHex | eTkExprEnd | eTkPlus
  | eTkMinus | eTkSlash | eTkAsterisk | eTkPercent | eTkEqualEqual | eTkVbar | eTkVbarVbar | eTkCarot | eTkAmpersand
  | eTkAmpersandAmpersand | eTkBangEqual | eTkLess | eTkGreater | eTkGreaterEqual | eTkLessEqual | eTkLessLess | eTkGreaterGreater
  | eTkExprBegin | eTkUnaryPlus | eTkUnaryMinus | eTkTilda | eTkLBrack | eTkRBrack | eTkColon | eTkQuestion

definition binary :: "etoken \<Rightarrow> bool" where
  "binary tk \<longleftrightarrow> tk \<in> {eTkPlus, eTkMinus, eTkSlash, eTkAsterisk, eTkPercent, eTkEqualEqual, eTkVbar, eTkVbarVbar, eTkCarot, eTkAmpersand,
     eTkAmpersandAmpersand, eTkBangEqual, eTkLess, eTkGreater, eTkGreaterEqual, eTkLessEqual, eTkLessLess, eTkGreaterGreater}"

abbreviation char_code :: "char \<Rightarrow> nat" where
  "char_code \<equiv> of_char"

definition is_blank :: "char \<Rightarrow> bool" where
  "is_blank c \<longleftrightarrow> c = CHR '' '' \<or> c = CHR 0x09"

definition is_digit :: "char \<Rightarrow> bool" where
  "is_digit c \<longleftrightarrow> 48 \<le> char_code c \<and> char_code c \<le> 57"

definition is_alpha :: "char \<Rightarrow> bool" where
  "is_alpha c \<longleftrightarrow> 65 \<le> char_code c \<and> char_code c \<le> 90 \<or> 97 \<le> char_code c \<and> char_code c \<le> 122"

definition is_xdigit :: "char \<Rightarrow> bool" where
  "is_xdigit c \<longleftrightarrow> is_digit c \<or> 65 \<le> char_code c \<and> char_code c \<le> 70 \<or> 97 \<le> char_code c \<and> char_code c \<le> 102"

definition is_name :: "char \<Rightarrow> bool" where
  "is_name c \<longleftrightarrow> is_alpha c \<or> is_digit c \<or> c = CHR ''_''"

definition SkipSpace :: "string \<Rightarrow> string" where
  "SkipSpace = dropWhile is_blank"

definition next_is :: "char \<Rightarrow> string \<Rightarrow> bool" where
  "next_is c p \<longleftrightarrow> p \<noteq> [] \<and> hd p = c"

text \<open>
  The operator cases of the switch in GetNextToken, the same in all three lexers: the token and the text behind it. \<open>c\<close> is the
  first character, \<open>p\<close> the text after it.
\<close>

definition op_token :: "char \<Rightarrow> string \<Rightarrow> (etoken \<times> string) option" where
  "op_token c p =
     (if c = CHR ''!'' then if next_is (CHR ''='') p then Some (eTkBangEqual, tl p) else Some (eTkBang, p)
      else if c = CHR ''|'' then if next_is (CHR ''|'') p then Some (eTkVbarVbar, tl p) else Some (eTkVbar, p)
      else if c = CHR ''&'' then if next_is (CHR ''&'') p then Some (eTkAmpersandAmpersand, tl p) else Some (eTkAmpersand, p)
      else if c = CHR ''('' then Some (eTkLParen, p)
      else if c = CHR '')'' then Some (eTkRParen, p)
      else if c = CHR ''+'' then Some (eTkPlus, p)
      else if c = CHR ''-'' then Some (eTkMinus, p)
      else if c = CHR ''/'' then Some (eTkSlash, p)
      else if c = CHR ''*'' then Some (eTkAsterisk, p)
      else if c = CHR ''%'' then Some (eTkPercent, p)
      else if c = CHR ''^'' then Some (eTkCarot, p)
      else if c = CHR ''~'' then Some (eTkTilda, p)
      else if c = CHR ''<'' then
        if next_is (CHR ''<'') p then Some (eTkLessLess, tl p)
        else if next_is (CHR ''='') p then Some (eTkLessEqual, tl p) else Some (eTkLess, p)
      else if c = CHR ''>'' then
        if next_is (CHR ''>'') p then Some (eTkGreaterGreater, tl p)
        else if next_is (CHR ''='') p then Some (eTkGreaterEqual, tl p) else Some (eTkGreater, p)
      else None)"

text \<open>The state of a lexer: the last token, its text and the error messages so far.\<close>

record lexer =
  lx_tk :: etoken
  lx_str :: string
  lx_errs :: "string list"

definition lx_error :: "string \<Rightarrow> 'a lexer_scheme \<Rightarrow> 'a lexer_scheme" where
  "lx_error msg s = s\<lparr>lx_errs := lx_errs s @ [msg]\<rparr>"

definition quoted :: "string \<Rightarrow> string" where
  "quoted m = CHR 0x27 # m @ [CHR 0x27]"

text \<open>GetTokenValue: the loops over the digits of a decimal and of a hexadecimal number, both in \<^verbatim>\<open>unsigned int\<close>; the test keeps the value
  below \<open>2 ^ 32\<close>.\<close>

fun int_digits :: "string \<Rightarrow> nat \<Rightarrow> nat option" where
  "int_digits [] v = Some v"
| "int_digits (c # cs) v = (if v \<ge> 0xffffffff div 10 then None else int_digits cs (v * 10 + (char_code c - 48)))"

definition hex_digit :: "char \<Rightarrow> nat" where
  "hex_digit c = (if is_digit c then char_code c - 48 else if char_code c \<le> 70 then char_code c - 65 + 10 else char_code c - 97 + 10)"

fun hex_digits :: "string \<Rightarrow> nat \<Rightarrow> nat option" where
  "hex_digits [] v = Some v"
| "hex_digits (c # cs) v =
     (if v \<ge> 0xffffffff div 16 then None else hex_digits cs (if is_xdigit c then v * 16 + hex_digit c else v))"

definition token_value :: "string \<Rightarrow> 'a lexer_scheme \<Rightarrow> (int \<times> 'a lexer_scheme) option" where
  "token_value msg s =
     (if lx_tk s = eTkNumInt \<or> lx_tk s = eTkNumHex then
        (case (if lx_tk s = eTkNumInt then int_digits (lx_str s) 0 else hex_digits (lx_str s) 0) of
           None \<Rightarrow> Some (0, lx_error msg s)
         | Some v \<Rightarrow> Some (c_wrap CS32 (int v), s))
      else None)"

definition GetTokenValue :: "'a lexer_scheme \<Rightarrow> (int \<times> 'a lexer_scheme) option" where
  "GetTokenValue = token_value ''integer too large''"

text \<open>
  A position in a text: the characters before the terminating null, or past it. Reading past it is undefined. The text of an expression
  holds no null character.
\<close>

type_synonym cursor = "string option"

text \<open>
  The results of the recursive evaluators: \<open>None\<close> when the recursion is deeper than the fuel, \<open>Some None\<close> when the run stops (a failed
  assertion, a trap, undefined behaviour), else \<open>Some (Some x)\<close>.
\<close>

definition after :: "'a option option \<Rightarrow> ('a \<Rightarrow> 'b option option) \<Rightarrow> 'b option option" where
  "after r f = (case r of None \<Rightarrow> None | Some None \<Rightarrow> Some None | Some (Some x) \<Rightarrow> f x)"

lemma after_simps [simp]: "after None f = None" "after (Some None) f = Some None" "after (Some (Some x)) f = f x"
  by (simp_all add: after_def)

section \<open>Arithmetic\<close>

text \<open>The binary operators on \<^verbatim>\<open>int\<close>; \<^verbatim>\<open>&&\<close> and \<^verbatim>\<open>||\<close> have both operands already evaluated.\<close>

fun bin_value :: "etoken \<Rightarrow> int \<Rightarrow> int \<Rightarrow> int option" where
  "bin_value eTkPlus a b = c_add CS32 a b"
| "bin_value eTkMinus a b = c_sub CS32 a b"
| "bin_value eTkSlash a b = c_div CS32 a b"
| "bin_value eTkAsterisk a b = c_mul CS32 a b"
| "bin_value eTkPercent a b = c_mod CS32 a b"
| "bin_value eTkVbar a b = c_or CS32 a b"
| "bin_value eTkCarot a b = c_xor CS32 a b"
| "bin_value eTkAmpersand a b = c_and CS32 a b"
| "bin_value eTkLessLess a b = c_shl CS32 a b"
| "bin_value eTkGreaterGreater a b = c_shr CS32 a b"
| "bin_value eTkEqualEqual a b = Some (c_bool (a = b))"
| "bin_value eTkVbarVbar a b = Some (c_bool (a \<noteq> 0 \<or> b \<noteq> 0))"
| "bin_value eTkAmpersandAmpersand a b = Some (c_bool (a \<noteq> 0 \<and> b \<noteq> 0))"
| "bin_value eTkBangEqual a b = Some (c_bool (a \<noteq> b))"
| "bin_value eTkLess a b = Some (c_bool (a < b))"
| "bin_value eTkGreater a b = Some (c_bool (a > b))"
| "bin_value eTkGreaterEqual a b = Some (c_bool (a \<ge> b))"
| "bin_value eTkLessEqual a b = Some (c_bool (a \<le> b))"
| "bin_value _ a b = None"

fun un_value :: "etoken \<Rightarrow> int \<Rightarrow> int option" where
  "un_value eTkUnaryPlus a = Some a"
| "un_value eTkUnaryMinus a = Some (c_wrap CS32 (- a))"
| "un_value eTkTilda a = Some (NOT a)"
| "un_value eTkBang a = Some (c_bool (a = 0))"
| "un_value _ a = None"

section \<open>The stacks\<close>

text \<open>
  EvaluateExpression: both stacks have their top at the head. While the operator on top binds no looser than the new one it is
  popped and applied; the bottom marker ends the expression. \<open>None\<close> is a failed assertion, a trap or an access to an empty stack.
\<close>

fun eval_stacks :: "(etoken \<Rightarrow> nat option) \<Rightarrow> (etoken \<Rightarrow> bool) \<Rightarrow> (etoken \<Rightarrow> int list \<Rightarrow> int list option) \<Rightarrow>
    etoken \<Rightarrow> int list \<Rightarrow> etoken list \<Rightarrow> (int list \<times> etoken list) option" where
  "eval_stacks prec lr app tk os [] = None"
| "eval_stacks prec lr app tk os (stackTk # ops) = do {
     tkPrec \<leftarrow> prec tk;
     stackPrec \<leftarrow> prec stackTk;
     if tkPrec > stackPrec \<or> tkPrec = stackPrec \<and> lr tk then
       if stackTk = eTkExprBegin then do { ensure (length os = 1 \<and> ops = []); Some (os, ops) }
       else do { os \<leftarrow> app stackTk os; eval_stacks prec lr app tk os ops }
     else Some (os, tk # stackTk # ops)
   }"

section \<open>Expressions\<close>

text \<open>
  An expression with its blanks: a number in decimal or hexadecimal with its suffix, an identifier, the \<^verbatim>\<open>defined\<close> test,
  parentheses, negation, a binary operator, the conditional.
\<close>

datatype expr =
    XInt string string string
  | XHex string string string
  | XName string string
  | XDefined string string string string string
  | XParen string expr string
  | XNot string expr
  | XBin expr string etoken expr
  | XCond expr string expr string expr

fun spell :: "etoken \<Rightarrow> string" where
  "spell eTkPlus = ''+''" | "spell eTkMinus = ''-''" | "spell eTkSlash = ''/''" | "spell eTkAsterisk = ''*''"
| "spell eTkPercent = ''%''" | "spell eTkEqualEqual = ''==''" | "spell eTkVbar = ''|''" | "spell eTkVbarVbar = ''||''"
| "spell eTkCarot = ''^''" | "spell eTkAmpersand = ''&''" | "spell eTkAmpersandAmpersand = ''&&''" | "spell eTkBangEqual = ''!=''"
| "spell eTkLess = ''<''" | "spell eTkGreater = ''>''" | "spell eTkGreaterEqual = ''>=''" | "spell eTkLessEqual = ''<=''"
| "spell eTkLessLess = ''<<''" | "spell eTkGreaterGreater = ''>>''" | "spell _ = []"

fun unparse :: "expr \<Rightarrow> string" where
  "unparse (XInt b ds sf) = b @ ds @ sf"
| "unparse (XHex b hs sf) = b @ ''0x'' @ hs @ sf"
| "unparse (XName b n) = b @ n"
| "unparse (XDefined b b1 b2 n b3) = b @ ''defined'' @ b1 @ ''('' @ b2 @ n @ b3 @ '')''"
| "unparse (XParen b e b') = b @ ''('' @ unparse e @ b' @ '')''"
| "unparse (XNot b e) = b @ ''!'' @ unparse e"
| "unparse (XBin l b op r) = unparse l @ b @ spell op @ unparse r"
| "unparse (XCond c b x b' y) = unparse c @ b @ ''?'' @ unparse x @ b' @ '':'' @ unparse y"

text \<open>The precedence of a binary operator in C, with 4 the tightest; a primary has 0, negation 3, the conditional 14.\<close>

fun c_prec :: "etoken \<Rightarrow> nat" where
  "c_prec eTkAsterisk = 4" | "c_prec eTkSlash = 4" | "c_prec eTkPercent = 4" | "c_prec eTkPlus = 5" | "c_prec eTkMinus = 5"
| "c_prec eTkLessLess = 6" | "c_prec eTkGreaterGreater = 6" | "c_prec eTkLess = 7" | "c_prec eTkLessEqual = 7"
| "c_prec eTkGreater = 7" | "c_prec eTkGreaterEqual = 7" | "c_prec eTkEqualEqual = 8" | "c_prec eTkBangEqual = 8"
| "c_prec eTkAmpersand = 9" | "c_prec eTkCarot = 10" | "c_prec eTkVbar = 11" | "c_prec eTkAmpersandAmpersand = 12"
| "c_prec eTkVbarVbar = 13" | "c_prec _ = 0"

fun xprec :: "expr \<Rightarrow> nat" where
  "xprec (XNot _ _) = 3" | "xprec (XBin _ _ op _) = c_prec op" | "xprec (XCond _ _ _ _ _) = 14" | "xprec _ = 0"

text \<open>
  The expressions of a grammar in which operators of one precedence group to the left if \<open>left\<close> holds of it, else to the right.
  A negation is applied to a primary; the evaluators accept no other.
\<close>

fun grouped :: "(nat \<Rightarrow> bool) \<Rightarrow> expr \<Rightarrow> bool" where
  "grouped left (XParen b e b') = grouped left e"
| "grouped left (XNot b e) \<longleftrightarrow> grouped left e \<and> xprec e = 0"
| "grouped left (XBin l b op r) \<longleftrightarrow> binary op \<and> grouped left l \<and> grouped left r \<and>
     (xprec l < c_prec op \<or> xprec l = c_prec op \<and> left (c_prec op)) \<and>
     (xprec r < c_prec op \<or> xprec r = c_prec op \<and> \<not> left (c_prec op))"
| "grouped left (XCond c b x b' y) \<longleftrightarrow> grouped left c \<and> grouped left x \<and> grouped left y \<and> xprec c < 14"
| "grouped left _ = True"

section \<open>The stacks and the value of an expression\<close>

text \<open>
  What an evaluator provides. \<open>op_prec\<close> is its table, \<open>left\<close> says at which precedences operators group to the left;
  \<open>app\<close> applies the operator on top of the stack.
\<close>

locale stack_eval =
  fixes op_prec :: "etoken \<Rightarrow> nat option" and lr :: "etoken \<Rightarrow> bool" and app :: "etoken \<Rightarrow> int list \<Rightarrow> int list option"
    and left :: "nat \<Rightarrow> bool"
  assumes prec_binary: "binary op \<Longrightarrow> op_prec op = Some (c_prec op)"
    and prec_bang: "op_prec eTkBang = Some 3" and prec_begin: "op_prec eTkExprBegin = Some 17" and prec_end: "op_prec eTkExprEnd = Some 18"
    and lr_binary: "binary op \<Longrightarrow> lr op = left (c_prec op)" and lr_bang: "\<not> lr eTkBang" and left_bang: "\<not> left 3"
    and app_binary: "binary op \<Longrightarrow> bin_value op a b = Some v \<Longrightarrow> app op (b # a # os) = Some (v # os)"
    and app_bang: "app eTkBang (a # os) = Some (c_bool (a = 0) # os)"
begin

definition eval where
  "eval = eval_stacks op_prec lr app"

text \<open>\<open>closes tk p\<close>: the token \<open>tk\<close> ends an operand of precedence \<open>p\<close>. \<open>fits p ops\<close>: an operator of precedence \<open>p\<close> is pushed on \<open>ops\<close>.\<close>

definition closes :: "etoken \<Rightarrow> nat \<Rightarrow> bool" where
  "closes tk p \<longleftrightarrow> (\<exists>q. op_prec tk = Some q \<and> (p < q \<or> p = q \<and> lr tk))"

definition fits :: "nat \<Rightarrow> etoken list \<Rightarrow> bool" where
  "fits p ops \<longleftrightarrow> (\<exists>s r q. ops = s # r \<and> op_prec s = Some q \<and> (p < q \<or> p = q \<and> \<not> left p))"

text \<open>\<open>stands os' ops' v p os ops\<close>: for every token that closes an operand of precedence \<open>p\<close>, the stacks \<open>os'\<close>, \<open>ops'\<close> are as good as the
  operand's value \<open>v\<close> on \<open>os\<close>, \<open>ops\<close>.\<close>

definition stands :: "int list \<Rightarrow> etoken list \<Rightarrow> int \<Rightarrow> nat \<Rightarrow> int list \<Rightarrow> etoken list \<Rightarrow> bool" where
  "stands os' ops' v p os ops \<longleftrightarrow> (\<forall>tk. closes tk p \<longrightarrow> eval tk os' ops' = eval tk (v # os) ops)"

lemma stands_prim: "stands (v # os) ops v p os ops"
  by (simp add: stands_def)

lemma c_prec_bounds: "binary op \<Longrightarrow> 4 \<le> c_prec op \<and> c_prec op \<le> 13"
  by (auto simp: binary_def)

lemma eval_push:
  assumes "op_prec tk = Some p" "lr tk = left p" "fits p ops"
  shows "eval tk os ops = Some (os, tk # ops)"
  using assms by (auto simp: fits_def eval_def)

lemma eval_pop:
  assumes "closes tk p" "op_prec op = Some p" "op \<noteq> eTkExprBegin" "app op os = Some os'"
  shows "eval tk os (op # ops) = eval tk os' ops"
  using assms by (auto simp: closes_def eval_def)

lemma closes_mono:
  assumes "closes tk p" "q < p \<or> q = p"
  shows "closes tk q"
  using assms by (auto simp: closes_def)

lemma closes_end [simp]: "p < 18 \<Longrightarrow> closes eTkExprEnd p"
  by (simp add: closes_def prec_end)

lemma fits_begin [simp]: "p < 17 \<Longrightarrow> fits p [eTkExprBegin]"
  by (simp add: fits_def prec_begin)

lemma fits_less: "fits p ops \<Longrightarrow> q < p \<or> q = p \<Longrightarrow> fits q ops"
  by (auto simp: fits_def)

text \<open>The end of an expression.\<close>

lemma stands_end:
  assumes "stands os' ops' v p [] [eTkExprBegin]" "p < 18"
  shows "eval eTkExprEnd os' ops' = Some ([v], [])"
proof -
  have "eval eTkExprEnd os' ops' = eval eTkExprEnd [v] [eTkExprBegin]" using assms by (simp add: stands_def)
  then show ?thesis by (simp add: eval_def prec_end prec_begin)
qed

text \<open>Negation: after its operand the operator is on the stack, and whatever closes the negation applies it.\<close>

lemma stands_bang:
  assumes "stands os' ops' v 0 os (eTkBang # ops)"
  shows "stands os' ops' (c_bool (v = 0)) 3 os ops"
  unfolding stands_def
proof (intro allI impI)
  fix tk
  assume c: "closes tk 3"
  then have "closes tk 0" by (auto simp: closes_def)
  with assms have "eval tk os' ops' = eval tk (v # os) (eTkBang # ops)" by (simp add: stands_def)
  also have "\<dots> = eval tk (c_bool (v = 0) # os) ops"
    by (rule eval_pop [OF c prec_bang _ app_bang]) simp
  finally show "eval tk os' ops' = eval tk (c_bool (v = 0) # os) ops" .
qed

lemma fits_bang: "fits 3 ops \<Longrightarrow> eval eTkBang os ops = Some (os, eTkBang # ops)"
  by (rule eval_push) (simp_all add: prec_bang lr_bang left_bang)

lemma fits_over_bang: "fits 0 (eTkBang # ops)"
  by (simp add: fits_def prec_bang)

text \<open>A binary operator, between its operands and after them.\<close>

lemma stands_left:
  assumes "binary op" "stands os' ops' a q os ops" "q < c_prec op \<or> q = c_prec op \<and> left (c_prec op)" "fits (c_prec op) ops"
  shows "eval op os' ops' = Some (a # os, op # ops)"
proof -
  have "closes op q" using assms(1,3) by (auto simp: closes_def prec_binary lr_binary)
  with assms(2) have "eval op os' ops' = eval op (a # os) ops" by (simp add: stands_def)
  also have "\<dots> = Some (a # os, op # ops)" by (rule eval_push [OF _ _ assms(4)]) (simp_all add: assms(1) prec_binary lr_binary)
  finally show ?thesis .
qed

lemma fits_left:
  assumes "fits p ops" "q < p \<or> q = p \<and> left p"
  shows "fits q ops"
  using assms by (auto simp: fits_def)

lemma fits_right:
  assumes "binary op" "q < c_prec op \<or> q = c_prec op \<and> \<not> left (c_prec op)"
  shows "fits q (op # ops)"
  using assms by (auto simp: fits_def prec_binary)

lemma stands_right:
  assumes "binary op" "stands os' ops' b q (a # os) (op # ops)" "q \<le> c_prec op" "bin_value op a b = Some v"
  shows "stands os' ops' v (c_prec op) os ops"
  unfolding stands_def
proof (intro allI impI)
  fix tk
  assume c: "closes tk (c_prec op)"
  then have "closes tk q" using assms(3) by (intro closes_mono [OF c]) auto
  with assms(2) have "eval tk os' ops' = eval tk (b # a # os) (op # ops)" by (simp add: stands_def)
  also have "\<dots> = eval tk (v # os) ops"
    using assms(1) by (intro eval_pop [OF c]) (auto simp: prec_binary app_binary [OF assms(1,4)] binary_def)
  finally show "eval tk os' ops' = eval tk (v # os) ops" .
qed

end

text \<open>An evaluator that also has the conditional operator, the loosest, which groups to the right.\<close>

locale cond_eval = stack_eval +
  assumes prec_question: "op_prec eTkQuestion = Some 14" and lr_question: "\<not> lr eTkQuestion" and left_question: "\<not> left 14"
    and app_question: "app eTkQuestion (c # b # a # os) = Some ((if a \<noteq> 0 then b else c) # os)"
begin

lemma stands_cond:
  assumes "stands os' ops' a q os ops" "q < 14" "fits 14 ops"
  shows "eval eTkQuestion os' ops' = Some (a # os, eTkQuestion # ops)"
proof -
  have "closes eTkQuestion q" using assms(2) by (simp add: closes_def prec_question)
  with assms(1) have "eval eTkQuestion os' ops' = eval eTkQuestion (a # os) ops" by (simp add: stands_def)
  also have "\<dots> = Some (a # os, eTkQuestion # ops)"
    by (rule eval_push [OF _ _ assms(3)]) (simp_all add: prec_question lr_question left_question)
  finally show ?thesis .
qed

lemma fits_else: "q \<le> 14 \<Longrightarrow> fits q (eTkQuestion # ops)"
  using left_question by (auto simp: fits_def prec_question le_less)

lemma stands_else:
  assumes "stands os' ops' c q (b # a # os) (eTkQuestion # ops)" "q \<le> 14"
  shows "stands os' ops' (if a \<noteq> 0 then b else c) 14 os ops"
  unfolding stands_def
proof (intro allI impI)
  fix tk
  assume cl: "closes tk 14"
  then have "closes tk q" using assms(2) by (intro closes_mono [OF cl]) auto
  with assms(1) have "eval tk os' ops' = eval tk (c # b # a # os) (eTkQuestion # ops)" by (simp add: stands_def)
  also have "\<dots> = eval tk ((if a \<noteq> 0 then b else c) # os) ops"
    by (rule eval_pop [OF cl prec_question _ app_question]) simp
  finally show "eval tk os' ops' = eval tk ((if a \<noteq> 0 then b else c) # os) ops" .
qed

end

lemma xprec_bound: "grouped left e \<Longrightarrow> xprec e \<le> 14"
  by (cases e) (auto simp: binary_def)

section \<open>Spelling\<close>

abbreviation blanks :: "string \<Rightarrow> bool" where
  "blanks \<equiv> list_all is_blank"

text \<open>What may stand behind a number or a name, and behind an operator.\<close>

definition follow :: "string \<Rightarrow> bool" where
  "follow r \<longleftrightarrow> r = [] \<or> \<not> is_name (hd r)"

definition op_follow :: "string \<Rightarrow> bool" where
  "op_follow r \<longleftrightarrow> r = [] \<or> hd r \<notin> {CHR ''='', CHR ''|'', CHR ''&'', CHR ''<'', CHR ''>''}"

definition suffix_char :: "char \<Rightarrow> bool" where
  "suffix_char c \<longleftrightarrow> c \<in> {CHR ''u'', CHR ''U'', CHR ''l'', CHR ''L''}"

fun lexical :: "expr \<Rightarrow> bool" where
  "lexical (XInt b ds sf) \<longleftrightarrow> blanks b \<and> ds \<noteq> [] \<and> list_all is_digit ds \<and> list_all suffix_char sf"
| "lexical (XHex b hs sf) \<longleftrightarrow> blanks b \<and> list_all is_xdigit hs \<and> list_all suffix_char sf"
| "lexical (XName b n) \<longleftrightarrow> blanks b \<and> n \<noteq> [] \<and> (is_alpha (hd n) \<or> hd n = CHR ''_'') \<and> list_all is_name n"
| "lexical (XDefined b b1 b2 n b3) \<longleftrightarrow> blanks b \<and> blanks b1 \<and> blanks b2 \<and> blanks b3 \<and>
     n \<noteq> [] \<and> (is_alpha (hd n) \<or> hd n = CHR ''_'') \<and> list_all is_name n"
| "lexical (XParen b e b') \<longleftrightarrow> blanks b \<and> lexical e \<and> blanks b'"
| "lexical (XNot b e) \<longleftrightarrow> blanks b \<and> lexical e"
| "lexical (XBin l b op r) \<longleftrightarrow> lexical l \<and> blanks b \<and> lexical r"
| "lexical (XCond c b x b' y) \<longleftrightarrow> lexical c \<and> blanks b \<and> lexical x \<and> blanks b' \<and> lexical y"

lemma skip_blanks [simp]: "blanks b \<Longrightarrow> SkipSpace (b @ r) = SkipSpace r"
  by (induction b) (simp_all add: SkipSpace_def)

lemma skip_blanks_only [simp]: "blanks b \<Longrightarrow> SkipSpace b = []"
  using skip_blanks [of b "[]"] by (simp add: SkipSpace_def)

lemma skip_Cons: "\<not> is_blank c \<Longrightarrow> SkipSpace (c # r) = c # r"
  by (simp add: SkipSpace_def)

lemma skip_skip [simp]: "SkipSpace (SkipSpace p) = SkipSpace p"
  by (simp add: SkipSpace_def)

lemma not_blank: "is_name c \<Longrightarrow> \<not> is_blank c" "is_digit c \<Longrightarrow> \<not> is_blank c" "is_alpha c \<Longrightarrow> \<not> is_blank c"
  by (auto simp: is_name_def is_digit_def is_alpha_def is_blank_def)

lemma follow_blanks: "blanks b \<Longrightarrow> \<not> is_name c \<Longrightarrow> follow (b @ c # r)"
  by (cases b) (auto simp: follow_def is_name_def is_digit_def is_alpha_def is_blank_def)

lemma follow_blanks_only: "blanks b \<Longrightarrow> follow b"
  by (cases b) (auto simp: follow_def is_name_def is_digit_def is_alpha_def is_blank_def)

lemma spell_Cons: "binary op \<Longrightarrow> \<exists>c cs. spell op = c # cs \<and> \<not> is_blank c \<and> \<not> is_name c"
  by (auto simp: binary_def is_blank_def is_name_def is_digit_def is_alpha_def)

lemma follow_op: "blanks b \<Longrightarrow> binary op \<Longrightarrow> follow (b @ spell op @ r)"
  using spell_Cons [of op] follow_blanks by fastforce

text \<open>An operator's characters are read as that operator.\<close>

lemma op_token_spell:
  assumes "binary op" "op \<noteq> eTkEqualEqual" "op_follow r"
  shows "op_token (hd (spell op)) (tl (spell op) @ r) = Some (op, r)"
proof -
  have "next_is c r = False" if "c \<in> {CHR ''='', CHR ''|'', CHR ''&'', CHR ''<'', CHR ''>''}" for c
    using assms(3) that by (auto simp: next_is_def op_follow_def)
  then have n: "next_is (CHR ''='') r = False" "next_is (CHR ''|'') r = False" "next_is (CHR ''&'') r = False"
    "next_is (CHR ''<'') r = False" "next_is (CHR ''>'') r = False" by simp_all
  have y: "next_is c (c # r)" for c by (simp add: next_is_def)
  have e: "next_is (CHR ''<'') (CHR ''='' # r) = False" "next_is (CHR ''>'') (CHR ''='' # r) = False" by (simp_all add: next_is_def)
  show ?thesis using assms(1,2) by (cases op) (simp_all add: binary_def op_token_def n y e)
qed

lemma name_code: "is_name c \<Longrightarrow> c \<notin> {CHR ''!'', CHR ''|'', CHR ''&'', CHR ''('', CHR '')'', CHR ''+'', CHR ''-'', CHR ''/'', CHR ''*'', CHR ''%'',
    CHR ''^'', CHR ''~'', CHR ''<'', CHR ''>'', CHR ''='', CHR ''?'', CHR '':'', CHR ''['', CHR '']'', CHR '' ''}"
  by (auto simp: is_name_def is_digit_def is_alpha_def)

lemma op_token_other:
  "is_name c \<Longrightarrow> op_token c p = None" "op_token (CHR ''='') p = None" "op_token (CHR ''?'') p = None" "op_token (CHR '':'') p = None"
  using name_code [of c] by (simp_all add: op_token_def)

lemma op_follow_blanks: "blanks b \<Longrightarrow> b \<noteq> [] \<or> op_follow r \<Longrightarrow> op_follow (b @ r)"
  by (cases b) (auto simp: op_follow_def is_blank_def)

lemma op_follow_name: "is_name c \<Longrightarrow> op_follow (c # r)"
  by (auto simp: op_follow_def is_name_def is_digit_def is_alpha_def)

lemma op_follow_mark: "op_follow (CHR ''('' # r)" "op_follow (CHR ''!'' # r)" "op_follow (CHR ''d'' # r)" "op_follow (CHR ''0'' # r)"
  by (simp_all add: op_follow_def)

lemma op_follow_unparse: "lexical e \<Longrightarrow> op_follow (unparse e @ r)"
proof (induction e arbitrary: r)
  case (XInt b ds sf)
  then obtain c cs where "ds = c # cs" "is_name c" by (cases ds) (simp_all add: is_name_def)
  then show ?case using XInt by (simp add: op_follow_blanks op_follow_name)
next
  case (XName b n)
  then obtain c cs where "n = c # cs" "is_name c" by (cases n) simp_all
  then show ?case using XName by (simp add: op_follow_blanks op_follow_name)
qed (simp_all add: op_follow_blanks op_follow_mark)

text \<open>Reading a run of characters of one kind.\<close>

lemma span_run:
  assumes "list_all P xs" "r = [] \<or> \<not> P (hd r)"
  shows "takeWhile P (xs @ r) = xs" "dropWhile P (xs @ r) = r"
  using assms by (induction xs) (cases r; auto)+

lemma suffix_not: "suffix_char c \<Longrightarrow> \<not> is_xdigit c \<and> is_name c"
  by (auto simp: suffix_char_def is_xdigit_def is_digit_def is_name_def is_alpha_def)

lemma xdigit_name: "is_xdigit c \<Longrightarrow> is_name c" "is_digit c \<Longrightarrow> is_xdigit c"
  by (auto simp: is_xdigit_def is_digit_def is_name_def is_alpha_def)

lemma follow_suffix:
  "list_all suffix_char sf \<Longrightarrow> follow r \<Longrightarrow> sf @ r = [] \<or> \<not> is_xdigit (hd (sf @ r)) \<and> \<not> is_digit (hd (sf @ r))"
  using suffix_not xdigit_name by (cases sf) (auto simp: follow_def)

lemma name_start:
  assumes "is_alpha c \<or> c = CHR ''_''"
  shows "is_name c" "op_token c p = None" "\<not> is_blank c" "c \<notin> {CHR ''['', CHR '']'', CHR ''='', CHR ''?'', CHR '':''}"
proof -
  show n: "is_name c" using assms by (auto simp: is_name_def)
  show "op_token c p = None" "\<not> is_blank c" "c \<notin> {CHR ''['', CHR '']'', CHR ''='', CHR ''?'', CHR '':''}"
    using name_code [OF n] op_token_other(1) [OF n] not_blank(1) [OF n] by simp_all
qed

lemma digit_start:
  assumes "is_digit c"
  shows "op_token c p = None" "\<not> is_blank c" "c \<notin> {CHR ''['', CHR '']'', CHR ''='', CHR ''?'', CHR '':''}" "\<not> (is_alpha c \<or> c = CHR ''_'')"
proof -
  have n: "is_name c" using assms by (simp add: is_name_def)
  show "op_token c p = None" "\<not> is_blank c" "c \<notin> {CHR ''['', CHR '']'', CHR ''='', CHR ''?'', CHR '':''}"
    using name_code [OF n] op_token_other(1) [OF n] not_blank(1) [OF n] by simp_all
  show "\<not> (is_alpha c \<or> c = CHR ''_'')" using assms by (auto simp: is_alpha_def is_digit_def)
qed

text \<open>The value of a number.\<close>

definition dec_value :: "string \<Rightarrow> nat" where
  "dec_value ds = foldl (\<lambda>v c. v * 10 + (char_code c - 48)) 0 ds"

definition hex_value :: "string \<Rightarrow> nat" where
  "hex_value hs = foldl (\<lambda>v c. v * 16 + hex_digit c) 0 hs"

lemma int_digits_run:
  "int_digits ds v = (if foldl (\<lambda>v c. v * 10 + (char_code c - 48)) v ds div 10 < 429496729 \<or> ds = []
     then Some (foldl (\<lambda>v c. v * 10 + (char_code c - 48)) v ds) else None)" if "list_all is_digit ds"
  using that
proof (induction ds arbitrary: v)
  case (Cons c ds)
  have mono: "v \<le> foldl (\<lambda>v c. v * 10 + (char_code c - 48)) v ds" for v ds
  proof (induction ds arbitrary: v)
    case (Cons a ds)
    have "v \<le> v * 10 + (char_code a - 48)" by simp
    also have "\<dots> \<le> foldl (\<lambda>v c. v * 10 + (char_code c - 48)) (v * 10 + (char_code a - 48)) ds" by (rule Cons.IH)
    finally show ?case by simp
  qed simp
  have c: "char_code c - 48 < 10" using Cons.prems by (auto simp: is_digit_def)
  let ?w = "v * 10 + (char_code c - 48)"
  have w: "?w div 10 = v" using c by simp
  show ?case
  proof (cases "v \<ge> 429496729")
    case True
    have "?w div 10 \<le> foldl (\<lambda>v c. v * 10 + (char_code c - 48)) ?w ds div 10" by (intro div_le_mono mono)
    then show ?thesis using True w by simp
  next
    case False
    then show ?thesis using Cons.IH [of ?w] Cons.prems w by (cases ds) auto
  qed
qed simp

lemma hex_digits_run:
  "hex_digits hs v = (if foldl (\<lambda>v c. v * 16 + hex_digit c) v hs div 16 < 268435455 \<or> hs = []
     then Some (foldl (\<lambda>v c. v * 16 + hex_digit c) v hs) else None)" if "list_all is_xdigit hs"
  using that
proof (induction hs arbitrary: v)
  case (Cons c hs)
  have mono: "v \<le> foldl (\<lambda>v c. v * 16 + hex_digit c) v hs" for v hs
  proof (induction hs arbitrary: v)
    case (Cons a hs)
    have "v \<le> v * 16 + hex_digit a" by simp
    also have "\<dots> \<le> foldl (\<lambda>v c. v * 16 + hex_digit c) (v * 16 + hex_digit a) hs" by (rule Cons.IH)
    finally show ?case by simp
  qed simp
  have c: "hex_digit c < 16" using Cons.prems by (auto simp: is_xdigit_def hex_digit_def is_digit_def)
  let ?w = "v * 16 + hex_digit c"
  have w: "?w div 16 = v" using c by simp
  show ?case
  proof (cases "v \<ge> 268435455")
    case True
    have "?w div 16 \<le> foldl (\<lambda>v c. v * 16 + hex_digit c) ?w hs div 16" by (intro div_le_mono mono)
    then show ?thesis using True w by simp
  next
    case False
    then show ?thesis using Cons.IH [of ?w] Cons.prems w by (cases hs) auto
  qed
qed simp

lemma int_digits_value: "list_all is_digit ds \<Longrightarrow> ds \<noteq> [] \<Longrightarrow> int_digits ds 0 = (if dec_value ds < 4294967290 then Some (dec_value ds) else None)"
  unfolding dec_value_def by (subst int_digits_run) auto

lemma hex_digits_value: "list_all is_xdigit hs \<Longrightarrow> hex_digits (''0x'' @ hs) 0 = (if hex_value hs < 4294967280 then Some (hex_value hs) else None)"
proof -
  assume a: "list_all is_xdigit hs"
  have z: "is_xdigit (CHR ''0'')" "\<not> is_xdigit (CHR ''x'')" "hex_digit (CHR ''0'') = 0"
    by (simp_all add: is_xdigit_def is_digit_def hex_digit_def)
  have "hex_digits (''0x'' @ hs) 0 = hex_digits hs 0" by (simp add: z)
  also have "\<dots> = (if hex_value hs < 4294967280 then Some (hex_value hs) else None)"
    unfolding hex_value_def by (subst hex_digits_run [OF a]) auto
  finally show ?thesis .
qed

end
