(* ===== verification/DefineExpr.thy ===== *)
theory DefineExpr
  imports ExprEval
begin

text \<open>
  The constant expressions of a design description: \<^verbatim>\<open>CDefineTable\<close> of \<^verbatim>\<open>src/htl/FindStringValue.cpp\<close> and \<^verbatim>\<open>DsnInfo.h\<close>, which gives the widths and
  depths of an HTD file their values. The references \<^verbatim>\<open>rtnValue\<close> and \<^verbatim>\<open>bRtnIsSigned\<close> are part of the result; line information only goes into messages
  and is left out.
\<close>

section \<open>The table\<close>

record cdefine =
  df_name :: string
  df_paramList :: "string list"
  df_value :: string
  df_scope :: string
  df_modName :: string
  df_bPreDefined :: bool
  df_bHasParamList :: bool

text \<open>Insert: a name is kept once per scope; the second component collects the messages.\<close>

definition df_Insert :: "cdefine \<Rightarrow> cdefine list \<times> string list \<Rightarrow> cdefine list \<times> string list" where
  "df_Insert d s = (let (defs, errs) = s in
     case find (\<lambda>e. df_name e = df_name d \<and> df_scope e = df_scope d) defs of
       Some e \<Rightarrow> (defs, if df_value e \<noteq> df_value d then errs @ [''Redundant AddDefine name with different values ('' @ df_name d @ '')''] else errs)
     | None \<Rightarrow> (defs @ [d], errs))"

definition FindStringInTable :: "cdefine list \<Rightarrow> string \<Rightarrow> string option" where
  "FindStringInTable defs name = map_option df_value (find (\<lambda>e. df_name e = name) defs)"

section \<open>Tokens\<close>

record def_lexer = lexer +
  lx_signed :: bool

text \<open>SkipTypeSuffix: the text behind the suffix, and \<^verbatim>\<open>m_bIsSigned\<close>.\<close>

fun SkipTypeSuffix :: "string \<Rightarrow> bool \<Rightarrow> string \<times> bool" where
  "SkipTypeSuffix [] sg = ([], sg)"
| "SkipTypeSuffix (c # p) sg =
     (if c = CHR ''u'' \<or> c = CHR ''U'' then SkipTypeSuffix p False
      else if c = CHR ''l'' \<or> c = CHR ''L'' then SkipTypeSuffix p sg
      else (c # p, sg))"

text \<open>GetNextToken returns the token, the position behind it and the lexer; on an error the last token stays in the lexer.\<close>

definition GetNextToken :: "cursor \<Rightarrow> def_lexer \<Rightarrow> (etoken \<times> cursor \<times> def_lexer) option" where
  "GetNextToken pos s = (case pos of None \<Rightarrow> None | Some txt \<Rightarrow> Some (
     let ret = (\<lambda>tk p. (tk, Some p, s\<lparr>lx_tk := tk\<rparr>)) in
     case SkipSpace txt of [] \<Rightarrow> (eTkExprEnd, None, s\<lparr>lx_tk := eTkExprEnd\<rparr>)
     | c # p \<Rightarrow> (case op_token c p of Some (tk, q) \<Rightarrow> ret tk q
       | None \<Rightarrow>
         if c = CHR ''['' then ret eTkLBrack p
         else if c = CHR '']'' then ret eTkRBrack p
         else if c = CHR ''='' then
           (if next_is (CHR ''='') p then ret eTkEqualEqual (tl p)
            else (eTkError, if p = [] then None else Some (tl p), s))
         else if c = CHR ''?'' then ret eTkQuestion p
         else if c = CHR '':'' then ret eTkColon p
         else if is_alpha c \<or> c = CHR ''_'' then
           (eTkIdent, Some (dropWhile is_name p), s\<lparr>lx_tk := eTkIdent, lx_str := c # takeWhile is_name p\<rparr>)
         else if is_digit c then
           (if c = CHR ''0'' \<and> next_is (CHR ''x'') p then
              let hs = takeWhile is_xdigit (tl p); (q, sg) = SkipTypeSuffix (dropWhile is_xdigit (tl p)) False
              in (eTkNumHex, Some q, s\<lparr>lx_tk := eTkNumHex, lx_str := ''0x'' @ hs, lx_signed := sg\<rparr>)
            else
              let ds = c # takeWhile is_digit p; (q, sg) = SkipTypeSuffix (dropWhile is_digit p) True
              in (eTkNumInt, Some q, s\<lparr>lx_tk := eTkNumInt, lx_str := ds, lx_signed := sg\<rparr>))
         else (eTkError, Some (c # p), lx_error ''unknown preprocess token type'' s))))"

section \<open>Evaluation\<close>

fun GetTokenPrec :: "etoken \<Rightarrow> nat option" where
  "GetTokenPrec eTkUnaryPlus = Some 3" | "GetTokenPrec eTkUnaryMinus = Some 3" | "GetTokenPrec eTkTilda = Some 3" | "GetTokenPrec eTkBang = Some 3"
| "GetTokenPrec eTkAsterisk = Some 4" | "GetTokenPrec eTkSlash = Some 4" | "GetTokenPrec eTkPercent = Some 4"
| "GetTokenPrec eTkPlus = Some 5" | "GetTokenPrec eTkMinus = Some 5"
| "GetTokenPrec eTkLessLess = Some 6" | "GetTokenPrec eTkGreaterGreater = Some 6"
| "GetTokenPrec eTkLess = Some 7" | "GetTokenPrec eTkLessEqual = Some 7" | "GetTokenPrec eTkGreater = Some 7" | "GetTokenPrec eTkGreaterEqual = Some 7"
| "GetTokenPrec eTkEqualEqual = Some 8" | "GetTokenPrec eTkBangEqual = Some 8"
| "GetTokenPrec eTkAmpersand = Some 9" | "GetTokenPrec eTkCarot = Some 10" | "GetTokenPrec eTkVbar = Some 11"
| "GetTokenPrec eTkAmpersandAmpersand = Some 12" | "GetTokenPrec eTkVbarVbar = Some 13" | "GetTokenPrec eTkQuestion = Some 14"
| "GetTokenPrec eTkExprBegin = Some 17" | "GetTokenPrec eTkExprEnd = Some 18"
| "GetTokenPrec _ = None"

text \<open>The precedence \<^verbatim>\<open>CLex\<close> gives a token: the table of its constructor, for the operators that occur here.\<close>

fun lex_prec :: "etoken \<Rightarrow> int" where
  "lex_prec eTkUnaryPlus = 3" | "lex_prec eTkUnaryMinus = 3" | "lex_prec eTkTilda = 3" | "lex_prec eTkBang = 3"
| "lex_prec eTkAsterisk = 4" | "lex_prec eTkSlash = 4" | "lex_prec eTkPercent = 4" | "lex_prec eTkPlus = 5" | "lex_prec eTkMinus = 5"
| "lex_prec eTkLessLess = 6" | "lex_prec eTkGreaterGreater = 6"
| "lex_prec eTkLess = 7" | "lex_prec eTkLessEqual = 7" | "lex_prec eTkGreater = 7" | "lex_prec eTkGreaterEqual = 7"
| "lex_prec eTkEqualEqual = 8" | "lex_prec eTkBangEqual = 8" | "lex_prec eTkAmpersand = 9" | "lex_prec eTkCarot = 10"
| "lex_prec eTkVbar = 11" | "lex_prec eTkAmpersandAmpersand = 12" | "lex_prec eTkVbarVbar = 13" | "lex_prec eTkQuestion = 14"
| "lex_prec eTkExprBegin = 17" | "lex_prec eTkExprEnd = 18" | "lex_prec _ = - 1"

definition IsTokenAssocLR :: "etoken \<Rightarrow> bool" where
  "IsTokenAssocLR tk \<longleftrightarrow> lex_prec tk \<noteq> 3 \<and> lex_prec tk \<noteq> 14 \<and> lex_prec tk \<noteq> 15"

definition def_apply :: "etoken \<Rightarrow> int list \<Rightarrow> int list option" where
  "def_apply stackTk os =
     (if stackTk \<in> {eTkUnaryPlus, eTkUnaryMinus, eTkTilda, eTkBang} then
        (case os of op1 # os \<Rightarrow> map_option (\<lambda>rslt. rslt # os) (un_value stackTk op1) | _ \<Rightarrow> None)
      else if stackTk = eTkQuestion then
        (case os of op3 # op2 # op1 # os \<Rightarrow> Some ((if op1 \<noteq> 0 then op2 else op3) # os) | _ \<Rightarrow> None)
      else
        (case os of op2 # op1 # os \<Rightarrow> map_option (\<lambda>rslt. rslt # os) (bin_value stackTk op1 op2) | _ \<Rightarrow> None))"

definition EvaluateExpression :: "etoken \<Rightarrow> int list \<Rightarrow> etoken list \<Rightarrow> (int list \<times> etoken list) option" where
  "EvaluateExpression = eval_stacks GetTokenPrec IsTokenAssocLR def_apply"

text \<open>
  ParseExpression returns its value and signedness, or \<open>None\<close> for \<^verbatim>\<open>false\<close>, with the position and the lexer it leaves. It is split where the loop turns
  from an operand to an operator; \<open>n\<close> bounds the nesting and the number of operands.
\<close>

type_synonym def_result = "((int \<times> bool) option \<times> cursor \<times> def_lexer) option option"

definition def_fail :: "string \<Rightarrow> cursor \<Rightarrow> def_lexer \<Rightarrow> def_result" where
  "def_fail msg pos s = Some (Some (None, pos, lx_error msg s))"

definition def_bang :: "cursor \<Rightarrow> def_lexer \<Rightarrow> int list \<Rightarrow> etoken list \<Rightarrow> (etoken \<times> cursor \<times> def_lexer \<times> int list \<times> etoken list) option" where
  "def_bang pos s os ops =
     (if lx_tk s = eTkBang then do {
        (os, ops) \<leftarrow> EvaluateExpression eTkBang os ops;
        (tk, pos, s) \<leftarrow> GetNextToken pos s;
        Some (tk, pos, s, os, ops)
      } else Some (lx_tk s, pos, s, os, ops))"

type_synonym def_parser = "cursor \<Rightarrow> def_lexer \<Rightarrow> int list \<Rightarrow> etoken list \<Rightarrow> bool \<Rightarrow> def_result"

text \<open>A call of ParseExpression, and the part of its loop from the token behind an operand on; \<open>rec\<close> is the loop.\<close>

definition def_nested :: "def_parser \<Rightarrow> cursor \<Rightarrow> def_lexer \<Rightarrow> def_result" where
  "def_nested rec pos s = (case pos of None \<Rightarrow> Some None
     | Some txt \<Rightarrow> rec (Some (SkipSpace txt)) s [] [eTkExprBegin] True)"

definition def_operator :: "def_parser \<Rightarrow> def_parser" where
  "def_operator rec pos s os ops sg =
     (case GetNextToken pos s of None \<Rightarrow> Some None | Some (tk, pos, s) \<Rightarrow>
      if tk \<in> {eTkExprEnd, eTkRParen, eTkRBrack, eTkColon} then
        (case EvaluateExpression eTkExprEnd os ops of
           Some ([v], []) \<Rightarrow> Some (Some (Some (v, sg), pos, s))
         | _ \<Rightarrow> Some None)
      else if binary tk then
        (case EvaluateExpression tk os ops of None \<Rightarrow> Some None | Some (os, ops) \<Rightarrow>
         case GetNextToken pos s of None \<Rightarrow> Some None | Some (_, pos, s) \<Rightarrow> rec pos s os ops sg)
      else if tk = eTkQuestion then
        (case EvaluateExpression tk os ops of None \<Rightarrow> Some None | Some (os, ops) \<Rightarrow>
         case GetNextToken pos s of None \<Rightarrow> Some None | Some (_, pos, s) \<Rightarrow>
           after (def_nested rec pos s) (\<lambda>(r, pos, s). case r of None \<Rightarrow> Some (Some (None, pos, s))
             | Some (v, sg1) \<Rightarrow>
                 if lx_tk s \<noteq> eTkColon then def_fail (''expected a '' @ quoted '':'') pos s
                 else (case GetNextToken pos s of None \<Rightarrow> Some None
                   | Some (_, pos, s) \<Rightarrow> rec pos s (v # os) ops (sg \<and> sg1))))
      else def_fail ''Unknown operator type'' pos s)"

definition def_step :: "cdefine list \<Rightarrow> def_parser \<Rightarrow> def_parser" where
  "def_step defs rec pos s os ops sg =
     (case def_bang pos s os ops of None \<Rightarrow> Some None | Some (tk, pos, s, os, ops) \<Rightarrow>
      if tk = eTkError then Some (Some (None, pos, s))
      else if tk = eTkNumInt \<or> tk = eTkNumHex then
        (case GetTokenValue s of None \<Rightarrow> Some None
         | Some (v, s) \<Rightarrow> def_operator rec pos s (v # os) ops (sg \<and> lx_signed s))
      else if lx_tk s = eTkIdent then
        (case FindStringInTable defs (lx_str s) of
           None \<Rightarrow> def_fail (lx_str s @ '' is undefined'') pos s
         | Some strValue \<Rightarrow> (case GetNextToken (Some strValue) s of None \<Rightarrow> Some None | Some (_, pValueStr, s) \<Rightarrow>
             after (def_nested rec pValueStr s) (\<lambda>(r, _, s). case r of None \<Rightarrow> Some (Some (None, pos, s))
               | Some (v, sg1) \<Rightarrow> def_operator rec pos s (v # os) ops (sg \<and> sg1))))
      else if lx_tk s = eTkLParen then
        (case GetNextToken pos s of None \<Rightarrow> Some None | Some (_, pos, s) \<Rightarrow>
           after (def_nested rec pos s) (\<lambda>(r, pos, s). case r of None \<Rightarrow> Some (Some (None, pos, s))
             | Some (v, sg1) \<Rightarrow>
                 if lx_tk s \<noteq> eTkRParen then def_fail (''expected '' @ quoted '')'') pos s
                 else def_operator rec pos s (v # os) ops (sg \<and> sg1)))
      else def_fail ''expected an operand'' pos s)"

primrec def_operand :: "cdefine list \<Rightarrow> nat \<Rightarrow> def_parser" where
  "def_operand defs 0 = (\<lambda>pos s os ops sg. None)"
| "def_operand defs (Suc n) = def_step defs (def_operand defs n)"

definition ParseExpression :: "cdefine list \<Rightarrow> nat \<Rightarrow> cursor \<Rightarrow> def_lexer \<Rightarrow> def_result" where
  "ParseExpression defs n = def_nested (def_operand defs n)"

text \<open>FindStringValue: the first token, then the expression.\<close>

definition FindStringValue :: "cdefine list \<Rightarrow> nat \<Rightarrow> cursor \<Rightarrow> def_lexer \<Rightarrow> def_result" where
  "FindStringValue defs n pos s =
     (case GetNextToken pos s of None \<Rightarrow> Some None | Some (_, pos, s) \<Rightarrow> ParseExpression defs n pos s)"

declare def_step_def [simp]

section \<open>Reading the tokens of an expression\<close>

interpretation def_eval: cond_eval GetTokenPrec IsTokenAssocLR def_apply "\<lambda>p. p \<noteq> 3 \<and> p \<noteq> 14"
  rewrites "stack_eval.eval GetTokenPrec IsTokenAssocLR def_apply = EvaluateExpression"
proof -
  show c: "cond_eval GetTokenPrec IsTokenAssocLR def_apply (\<lambda>p. p \<noteq> 3 \<and> p \<noteq> 14)"
    by unfold_locales (auto simp: binary_def IsTokenAssocLR_def def_apply_def)
  show "stack_eval.eval GetTokenPrec IsTokenAssocLR def_apply = EvaluateExpression"
    unfolding stack_eval.eval_def [OF cond_eval.axioms(1) [OF c]] EvaluateExpression_def ..
qed

abbreviation c_grouped :: "expr \<Rightarrow> bool" where
  "c_grouped \<equiv> grouped (\<lambda>p. p \<noteq> 3 \<and> p \<noteq> 14)"

lemma next_end: "blanks b \<Longrightarrow> GetNextToken (Some b) s = Some (eTkExprEnd, None, s\<lparr>lx_tk := eTkExprEnd\<rparr>)"
  by (simp add: GetNextToken_def Let_def)

lemma next_mark:
  assumes "blanks b"
  shows "GetNextToken (Some (b @ CHR ''('' # r)) s = Some (eTkLParen, Some r, s\<lparr>lx_tk := eTkLParen\<rparr>)"
    "GetNextToken (Some (b @ CHR '')'' # r)) s = Some (eTkRParen, Some r, s\<lparr>lx_tk := eTkRParen\<rparr>)"
    "GetNextToken (Some (b @ CHR ''?'' # r)) s = Some (eTkQuestion, Some r, s\<lparr>lx_tk := eTkQuestion\<rparr>)"
    "GetNextToken (Some (b @ CHR '':'' # r)) s = Some (eTkColon, Some r, s\<lparr>lx_tk := eTkColon\<rparr>)"
  using assms by (simp_all add: GetNextToken_def Let_def skip_Cons is_blank_def op_token_other op_token_def)

lemma next_bang:
  "blanks b \<Longrightarrow> op_follow r \<Longrightarrow> GetNextToken (Some (b @ CHR ''!'' # r)) s = Some (eTkBang, Some r, s\<lparr>lx_tk := eTkBang\<rparr>)"
  by (auto simp: GetNextToken_def Let_def skip_Cons is_blank_def op_token_def next_is_def op_follow_def)

lemma next_op:
  assumes "blanks b" "binary op" "op_follow r"
  shows "GetNextToken (Some (b @ spell op @ r)) s = Some (op, Some r, s\<lparr>lx_tk := op\<rparr>)"
proof (cases "op = eTkEqualEqual")
  case True
  then show ?thesis using assms(1) by (simp add: GetNextToken_def Let_def skip_Cons is_blank_def op_token_other next_is_def)
next
  case False
  obtain c cs where c: "spell op = c # cs" "\<not> is_blank c" using spell_Cons [OF assms(2)] by blast
  then show ?thesis using op_token_spell [OF assms(2) False assms(3)] assms(1) by (simp add: GetNextToken_def Let_def skip_Cons)
qed

lemma next_name:
  assumes "blanks b" "n \<noteq> []" "is_alpha (hd n) \<or> hd n = CHR ''_''" "list_all is_name n" "follow r"
  shows "GetNextToken (Some (b @ n @ r)) s = Some (eTkIdent, Some r, s\<lparr>lx_tk := eTkIdent, lx_str := n\<rparr>)"
proof -
  obtain c cs where n: "n = c # cs" using assms(2) by (cases n) simp_all
  note st = name_start [of c]
  have "takeWhile is_name (cs @ r) = cs" "dropWhile is_name (cs @ r) = r"
    using span_run [of is_name cs r] assms(4,5) by (simp_all add: n follow_def)
  then show ?thesis using st assms(1,3) by (simp add: GetNextToken_def Let_def n skip_Cons)
qed

lemma suffix_run:
  "list_all suffix_char sf \<Longrightarrow> follow r \<Longrightarrow> SkipTypeSuffix (sf @ r) sg = (r, sg \<and> list_all (\<lambda>c. c \<noteq> CHR ''u'' \<and> c \<noteq> CHR ''U'') sf)"
proof (induction sf arbitrary: sg)
  case Nil
  then have "r = [] \<or> hd r \<notin> {CHR ''u'', CHR ''U'', CHR ''l'', CHR ''L''}" by (auto simp: follow_def is_name_def is_alpha_def)
  then show ?case by (cases r) simp_all
qed (auto simp: suffix_char_def)

lemma next_int:
  assumes "blanks b" "ds \<noteq> []" "list_all is_digit ds" "list_all suffix_char sf" "follow r"
  shows "GetNextToken (Some (b @ ds @ sf @ r)) s =
    Some (eTkNumInt, Some r, s\<lparr>lx_tk := eTkNumInt, lx_str := ds, lx_signed := list_all (\<lambda>c. c \<noteq> CHR ''u'' \<and> c \<noteq> CHR ''U'') sf\<rparr>)"
proof -
  obtain c cs where n: "ds = c # cs" using assms(2) by (cases ds) simp_all
  have c: "is_digit c" "list_all is_digit cs" using assms(3) by (simp_all add: n)
  have h: "sf @ r = [] \<or> \<not> is_xdigit (hd (sf @ r)) \<and> \<not> is_digit (hd (sf @ r))" by (rule follow_suffix [OF assms(4,5)])
  have "takeWhile is_digit (cs @ sf @ r) = cs" "dropWhile is_digit (cs @ sf @ r) = sf @ r"
    using span_run [of is_digit cs "sf @ r"] c(2) h by auto
  moreover have "\<not> next_is (CHR ''x'') (cs @ sf @ r)"
  proof (cases cs)
    case Nil
    have "r \<noteq> [] \<Longrightarrow> hd r \<noteq> CHR ''x''" using assms(5) by (auto simp: follow_def is_name_def is_alpha_def)
    then show ?thesis using assms(4) Nil by (cases sf) (auto simp: next_is_def suffix_char_def)
  qed (use c(2) in \<open>auto simp: next_is_def is_digit_def\<close>)
  ultimately show ?thesis using assms(1) digit_start [OF c(1)] c(1) suffix_run [OF assms(4,5)]
    by (simp add: GetNextToken_def Let_def n skip_Cons)
qed

lemma next_hex:
  assumes "blanks b" "list_all is_xdigit hs" "list_all suffix_char sf" "follow r"
  shows "GetNextToken (Some (b @ ''0x'' @ hs @ sf @ r)) s =
    Some (eTkNumHex, Some r, s\<lparr>lx_tk := eTkNumHex, lx_str := ''0x'' @ hs, lx_signed := False\<rparr>)"
proof -
  have h: "sf @ r = [] \<or> \<not> is_xdigit (hd (sf @ r)) \<and> \<not> is_digit (hd (sf @ r))" by (rule follow_suffix [OF assms(3,4)])
  have "takeWhile is_xdigit (hs @ sf @ r) = hs" "dropWhile is_xdigit (hs @ sf @ r) = sf @ r"
    using span_run [of is_xdigit hs "sf @ r"] assms(2) h by auto
  moreover have z: "is_digit (CHR ''0'')" by (simp add: is_digit_def)
  ultimately show ?thesis using assms(1) digit_start [OF z] suffix_run [OF assms(3,4)]
    by (simp add: GetNextToken_def Let_def skip_Cons z next_is_def)
qed

lemma next_skip [simp]: "GetNextToken (Some (SkipSpace p)) s = GetNextToken (Some p) s"
  by (simp add: GetNextToken_def)

section \<open>The value of an expression\<close>

text \<open>
  The reference: the value and the signedness of an expression. \<open>env\<close> gives the expressions of the defined names. Both operands of a binary
  operator and all three of a conditional have a value; a value is signed when every number in it is.
\<close>

definition no_u :: "string \<Rightarrow> bool" where
  "no_u sf \<longleftrightarrow> list_all (\<lambda>c. c \<noteq> CHR ''u'' \<and> c \<noteq> CHR ''U'') sf"

inductive def_value :: "(string \<Rightarrow> expr option) \<Rightarrow> expr \<Rightarrow> int \<Rightarrow> bool \<Rightarrow> bool" for env where
  int: "dec_value ds < 4294967290 \<Longrightarrow> def_value env (XInt b ds sf) (c_wrap CS32 (int (dec_value ds))) (no_u sf)"
| hex: "hex_value hs < 4294967280 \<Longrightarrow> def_value env (XHex b hs sf) (c_wrap CS32 (int (hex_value hs))) False"
| name: "env n = Some e \<Longrightarrow> def_value env e v sg \<Longrightarrow> def_value env (XName b n) v sg"
| paren: "def_value env e v sg \<Longrightarrow> def_value env (XParen b e b') v sg"
| neg: "def_value env e v sg \<Longrightarrow> def_value env (XNot b e) (c_bool (v = 0)) sg"
| bin: "def_value env l a sa \<Longrightarrow> def_value env r c sc \<Longrightarrow> bin_value op a c = Some v \<Longrightarrow> def_value env (XBin l b op r) v (sa \<and> sc)"
| cond: "def_value env i a sa \<Longrightarrow> def_value env x c sc \<Longrightarrow> def_value env y d sd \<Longrightarrow>
    def_value env (XCond i b x b' y) (if a \<noteq> 0 then c else d) (sa \<and> sc \<and> sd)"

text \<open>The table holds the texts of the names' expressions.\<close>

definition def_table :: "cdefine list \<Rightarrow> (string \<Rightarrow> expr option) \<Rightarrow> bool" where
  "def_table defs env \<longleftrightarrow> (\<forall>n e. env n = Some e \<longrightarrow> c_grouped e \<and> lexical e \<and>
     (\<exists>b. blanks b \<and> FindStringInTable defs n = Some (unparse e @ b)))"

text \<open>
  \<open>def_reads\<close>: from the first token of \<open>e\<close> on the loop reaches the token behind \<open>e\<close> with stacks that stand for its value. The position may be
  taken before or after the blanks, as ParseExpression skips them.
\<close>

definition at_pos :: "cursor \<Rightarrow> cursor \<Rightarrow> bool" where
  "at_pos pos p \<longleftrightarrow> p = pos \<or> p = map_option SkipSpace pos"

definition def_reads :: "cdefine list \<Rightarrow> expr \<Rightarrow> int \<Rightarrow> bool \<Rightarrow> string \<Rightarrow> def_lexer \<Rightarrow> int list \<Rightarrow> etoken list \<Rightarrow> bool" where
  "def_reads defs e v sg r s os ops \<longleftrightarrow> (\<exists>tk pos s1 k j s2 os' ops'.
     GetNextToken (Some (unparse e @ r)) s = Some (tk, Some pos, s1) \<and> lx_tk s1 = tk \<and> (xprec e = 0 \<longrightarrow> tk \<noteq> eTkBang) \<and> tk \<noteq> eTkError \<and> 0 < k \<and>
     (\<forall>n sg0 p. at_pos (Some pos) p \<longrightarrow> def_operand defs (n + k) p s1 os ops sg0 = def_operator (def_operand defs (n + j)) (Some r) s2 os' ops' (sg0 \<and> sg)) \<and>
     lx_errs s2 = lx_errs s \<and> def_eval.stands os' ops' v (xprec e) os ops)"

lemma def_readsI:
  assumes "GetNextToken (Some (unparse e @ r)) s = Some (tk, Some pos, s1)" "lx_tk s1 = tk" "xprec e = 0 \<Longrightarrow> tk \<noteq> eTkBang" "tk \<noteq> eTkError" "0 < k"
    and "\<And>n sg0 p. at_pos (Some pos) p \<Longrightarrow> def_operand defs (n + k) p s1 os ops sg0 = def_operator (def_operand defs (n + j)) (Some r) s2 os' ops' (sg0 \<and> sg)"
    and "lx_errs s2 = lx_errs s" "def_eval.stands os' ops' v (xprec e) os ops"
  shows "def_reads defs e v sg r s os ops"
  unfolding def_reads_def
  by (intro exI [of _ tk] exI [of _ pos] exI [of _ s1] exI [of _ k] exI [of _ j] exI [of _ s2] exI [of _ os'] exI [of _ ops'] conjI allI impI; (rule assms; assumption?))

lemma at_pos_next: "at_pos (Some pos) p \<Longrightarrow> GetNextToken p s = GetNextToken (Some pos) s"
  by (auto simp: at_pos_def)

lemma operator_at: "at_pos (Some pos) p \<Longrightarrow> def_operator rec p s os ops sg = def_operator rec (Some pos) s os ops sg"
  unfolding def_operator_def by (simp only: at_pos_next)

text \<open>A parsed operand behind which ends an expression: the result of the call.\<close>

lemma def_nested_run:
  assumes reads: "def_reads defs e v sg r s [] [eTkExprBegin]" and le: "xprec e \<le> 14"
    and t: "\<And>s. GetNextToken (Some r) s = Some (t, p, s\<lparr>lx_tk := t\<rparr>)" "t \<in> {eTkExprEnd, eTkRParen, eTkRBrack, eTkColon}"
  obtains tk pos s1 k s3 where "GetNextToken (Some (unparse e @ r)) s = Some (tk, Some pos, s1)" "lx_errs s3 = lx_errs s" "lx_tk s3 = t"
    "\<And>n. def_nested (def_operand defs (n + k)) (Some pos) s1 = Some (Some (Some (v, sg), p, s3))"
proof -
  from reads obtain tk pos s1 k j s2 os' ops' where R: "GetNextToken (Some (unparse e @ r)) s = Some (tk, Some pos, s1)"
    "\<And>n sg0 q. at_pos (Some pos) q \<Longrightarrow> def_operand defs (n + k) q s1 [] [eTkExprBegin] sg0 = def_operator (def_operand defs (n + j)) (Some r) s2 os' ops' (sg0 \<and> sg)"
    "lx_errs s2 = lx_errs s" "def_eval.stands os' ops' v (xprec e) [] [eTkExprBegin]" unfolding def_reads_def by blast
  have "EvaluateExpression eTkExprEnd os' ops' = Some ([v], [])" by (rule def_eval.stands_end [OF R(4)]) (use le in linarith)
  then have "def_nested (def_operand defs (n + k)) (Some pos) s1 = Some (Some (Some (v, sg), p, s2\<lparr>lx_tk := t\<rparr>))" for n
    using t(2) by (simp add: def_nested_def R(2) at_pos_def def_operator_def t(1))
  then show thesis using R(1,3) by (intro that [of tk pos s1 "s2\<lparr>lx_tk := t\<rparr>" k]) simp_all
qed

text \<open>A number, read as one token.\<close>

lemma def_reads_number:
  assumes nx: "GetNextToken (Some (unparse e @ r)) s = Some (tk, Some r, s1)" "lx_tk s1 = tk" "lx_errs s1 = lx_errs s"
    and tk: "tk = eTkNumInt \<or> tk = eTkNumHex" and v: "GetTokenValue s1 = Some (v, s1)" and sg: "lx_signed s1 = sg"
    and e: "xprec e = 0"
  shows "def_reads defs e v sg r s os ops"
proof (rule def_readsI [of _ _ _ tk r s1 1 _ _ _ 0 s1 "v # os" ops])
  show "def_operand defs (n + 1) p s1 os ops sg0 = def_operator (def_operand defs (n + 0)) (Some r) s1 (v # os) ops (sg0 \<and> sg)"
    if "at_pos (Some r) p" for n sg0 p
    using tk nx(2) by (auto simp: def_bang_def v sg operator_at [OF that])
  show "def_eval.stands (v # os) ops v (xprec e) os ops" by (simp add: e def_eval.stands_prim)
qed (use assms in auto)

text \<open>A nested expression, between parentheses or in a macro.\<close>

lemma def_bang_primary: "lx_tk s = tk \<Longrightarrow> tk \<noteq> eTkBang \<Longrightarrow> def_bang pos s os ops = Some (tk, pos, s, os, ops)"
  by (simp add: def_bang_def)

lemma def_reads_paren:
  assumes reads: "\<And>s. def_reads defs e v sg (b' @ CHR '')'' # r) s [] [eTkExprBegin]" and b: "blanks b" "blanks b'" and le: "xprec e \<le> 14"
  shows "def_reads defs (XParen b e b') v sg r s os ops"
proof -
  obtain s1 where s1: "s1 = s\<lparr>lx_tk := eTkLParen\<rparr>" by blast
  have tk1: "lx_tk s1 = eTkLParen" by (simp add: s1)
  obtain tk pos s2 k s3 where
    R: "GetNextToken (Some (unparse e @ b' @ CHR '')'' # r)) s1 = Some (tk, Some pos, s2)" "lx_errs s3 = lx_errs s1" "lx_tk s3 = eTkRParen"
      "\<And>n. def_nested (def_operand defs (n + k)) (Some pos) s2 = Some (Some (Some (v, sg), Some r, s3))"
    by (rule def_nested_run [OF reads [of s1] le next_mark(2) [OF b(2)]]) (simp, rule that)
  show ?thesis
  proof (rule def_readsI [of _ _ _ eTkLParen "unparse e @ b' @ CHR '')'' # r" s1 "Suc k" _ _ _ k s3 "v # os" ops])
    show "def_operand defs (n + Suc k) p s1 os ops sg0 = def_operator (def_operand defs (n + k)) (Some r) s3 (v # os) ops (sg0 \<and> sg)"
      if "at_pos (Some (unparse e @ b' @ CHR '')'' # r)) p" for n sg0 p
      using R by (simp add: def_bang_primary [OF tk1] at_pos_next [OF that] tk1)
    show "def_eval.stands (v # os) ops v (xprec (XParen b e b')) os ops" by (simp add: def_eval.stands_prim)
  qed (use b R(2) in \<open>simp_all add: next_mark(1) s1\<close>)
qed

lemma def_reads_name:
  assumes reads: "\<And>s. def_reads defs e v sg b' s [] [eTkExprBegin]" and lex: "lexical (XName b n)" "follow r" and b: "blanks b'" and le: "xprec e \<le> 14"
    and defs: "FindStringInTable defs n = Some (unparse e @ b')"
  shows "def_reads defs (XName b n) v sg r s os ops"
proof -
  obtain s1 where s1: "s1 = s\<lparr>lx_tk := eTkIdent, lx_str := n\<rparr>" by blast
  have tk1: "lx_tk s1 = eTkIdent" "lx_str s1 = n" by (simp_all add: s1)
  obtain tk pos s2 k s3 where
    R: "GetNextToken (Some (unparse e @ b')) s1 = Some (tk, Some pos, s2)" "lx_errs s3 = lx_errs s1" "lx_tk s3 = eTkExprEnd"
      "\<And>n. def_nested (def_operand defs (n + k)) (Some pos) s2 = Some (Some (Some (v, sg), None, s3))"
    by (rule def_nested_run [OF reads [of s1] le next_end [OF b]]) (simp, rule that)
  show ?thesis
  proof (rule def_readsI [of _ _ _ eTkIdent r s1 "Suc k" _ _ _ k s3 "v # os" ops])
    show "def_operand defs (n + Suc k) p s1 os ops sg0 = def_operator (def_operand defs (n + k)) (Some r) s3 (v # os) ops (sg0 \<and> sg)"
      if "at_pos (Some r) p" for n sg0 p
      using R defs by (simp add: def_bang_primary [OF tk1(1)] operator_at [OF that] tk1)
    show "GetNextToken (Some (unparse (XName b n) @ r)) s = Some (eTkIdent, Some r, s1)"
      using lex next_name [of b n r s] by (simp add: s1)
    show "def_eval.stands (v # os) ops v (xprec (XName b n)) os ops" by (simp add: def_eval.stands_prim)
  qed (use R(2) in \<open>simp_all add: s1\<close>)
qed

text \<open>Negation: the loop goes on as if at its operand, with the operator on the stack.\<close>

lemma def_operand_cong:
  "def_bang p s os ops = def_bang p' s' os' ops' \<Longrightarrow> def_operand defs (Suc n) p s os ops sg = def_operand defs (Suc n) p' s' os' ops' sg"
  by simp

lemma def_reads_not:
  assumes reads: "\<And>s. def_reads defs e v sg r s os (eTkBang # ops)" and e: "xprec e = 0" "lexical e" and b: "blanks b" and fit: "def_eval.fits 3 ops"
  shows "def_reads defs (XNot b e) (c_bool (v = 0)) sg r s os ops"
proof -
  obtain s1 where s1: "s1 = s\<lparr>lx_tk := eTkBang\<rparr>" by blast
  have tk1: "lx_tk s1 = eTkBang" by (simp add: s1)
  from reads [of s1] e(1) obtain tk pos s2 k j s3 os' ops' where R: "GetNextToken (Some (unparse e @ r)) s1 = Some (tk, Some pos, s2)"
    "lx_tk s2 = tk" "tk \<noteq> eTkBang" "0 < k"
    "\<And>n sg0 p. at_pos (Some pos) p \<Longrightarrow> def_operand defs (n + k) p s2 os (eTkBang # ops) sg0 = def_operator (def_operand defs (n + j)) (Some r) s3 os' ops' (sg0 \<and> sg)"
    "lx_errs s3 = lx_errs s1" "def_eval.stands os' ops' v 0 os (eTkBang # ops)" unfolding def_reads_def by auto
  from R(4) obtain m where m: "k = Suc m" by (cases k) simp_all
  show ?thesis
  proof (rule def_readsI [of _ _ _ eTkBang "unparse e @ r" s1 k _ _ _ j s3 os' ops'])
    show "def_operand defs (n + k) p s1 os ops sg0 = def_operator (def_operand defs (n + j)) (Some r) s3 os' ops' (sg0 \<and> sg)"
      if "at_pos (Some (unparse e @ r)) p" for n sg0 p
    proof -
      have "def_bang p s1 os ops = def_bang (Some pos) s2 os (eTkBang # ops)"
        using R(1-3) by (simp add: def_bang_def at_pos_next [OF that] def_eval.fits_bang [OF fit] tk1)
      then have "def_operand defs (n + k) p s1 os ops sg0 = def_operand defs (n + k) (Some pos) s2 os (eTkBang # ops) sg0"
        unfolding m add_Suc_right by (rule def_operand_cong)
      then show ?thesis by (simp add: R(5) at_pos_def)
    qed
    show "def_eval.stands os' ops' (c_bool (v = 0)) (xprec (XNot b e)) os ops" using def_eval.stands_bang [OF R(7)] by simp
    show "GetNextToken (Some (unparse (XNot b e) @ r)) s = Some (eTkBang, Some (unparse e @ r), s1)"
      using next_bang [OF b op_follow_unparse [OF e(2)]] by (simp add: s1)
  qed (use R in \<open>simp_all add: s1\<close>)
qed

text \<open>A binary operator.\<close>

lemma def_reads_bin:
  assumes rl: "def_reads defs l a sa (b @ spell op @ unparse y @ r) s os ops" and ry: "\<And>s. def_reads defs y c sc r s (a # os) (op # ops)"
    and op: "binary op" "blanks b" "lexical y" and fit: "def_eval.fits (c_prec op) ops" and v: "bin_value op a c = Some v"
    and l: "xprec l < c_prec op \<or> xprec l = c_prec op \<and> c_prec op \<noteq> 3 \<and> c_prec op \<noteq> 14" and y: "xprec y \<le> c_prec op"
  shows "def_reads defs (XBin l b op y) v (sa \<and> sc) r s os ops"
proof -
  let ?r = "b @ spell op @ unparse y @ r"
  from rl obtain tk pos s1 k j s2 os' ops' where L: "GetNextToken (Some (unparse l @ ?r)) s = Some (tk, Some pos, s1)" "lx_tk s1 = tk" "tk \<noteq> eTkError" "0 < k"
    "\<And>n sg0 p. at_pos (Some pos) p \<Longrightarrow> def_operand defs (n + k) p s1 os ops sg0 = def_operator (def_operand defs (n + j)) (Some ?r) s2 os' ops' (sg0 \<and> sa)"
    "lx_errs s2 = lx_errs s" "def_eval.stands os' ops' a (xprec l) os ops" unfolding def_reads_def by blast
  obtain s3 where s3: "s3 = s2\<lparr>lx_tk := op\<rparr>" by blast
  from ry [of s3] obtain tk' pos' s4 k' j' s5 os'' ops'' where Y: "GetNextToken (Some (unparse y @ r)) s3 = Some (tk', Some pos', s4)" "0 < k'"
    "\<And>n sg0 p. at_pos (Some pos') p \<Longrightarrow> def_operand defs (n + k') p s4 (a # os) (op # ops) sg0 = def_operator (def_operand defs (n + j')) (Some r) s5 os'' ops'' (sg0 \<and> sc)"
    "lx_errs s5 = lx_errs s3" "def_eval.stands os'' ops'' c (xprec y) (a # os) (op # ops)" unfolding def_reads_def by blast
  have ev: "EvaluateExpression op os' ops' = Some (a # os, op # ops)" by (rule def_eval.stands_left [OF op(1) L(7) l fit])
  have nop: "op \<notin> {eTkExprEnd, eTkRParen, eTkRBrack, eTkColon}" using op(1) by (auto simp: binary_def)
  have step: "def_operator rec (Some ?r) s2 os' ops' sg0 = rec (Some pos') s4 (a # os) (op # ops) sg0" for rec sg0
    using nop op(1) by (simp add: def_operator_def next_op [OF op(2,1) op_follow_unparse [OF op(3)]] ev Y(1) flip: s3)
  show ?thesis
  proof (rule def_readsI [of _ _ _ tk pos s1 "k + k'" _ _ _ "j + j'" s5 os'' ops''])
    show "def_operand defs (n + (k + k')) p s1 os ops sg0 = def_operator (def_operand defs (n + (j + j'))) (Some r) s5 os'' ops'' (sg0 \<and> sa \<and> sc)"
      if "at_pos (Some pos) p" for n sg0 p
      using L(5) [OF that, of "n + k'" sg0] Y(3) [of "Some pos'" "n + j" "sg0 \<and> sa"] by (simp add: step at_pos_def ac_simps)
    show "def_eval.stands os'' ops'' v (xprec (XBin l b op y)) os ops" using def_eval.stands_right [OF op(1) Y(5) y v] by simp
    show "GetNextToken (Some (unparse (XBin l b op y) @ r)) s = Some (tk, Some pos, s1)" using L(1) by simp
  qed (use L Y op(1) in \<open>auto simp: s3 binary_def\<close>)
qed

text \<open>The conditional.\<close>

lemma def_reads_cond:
  assumes ri: "def_reads defs i a sa (b @ CHR ''?'' # unparse x @ b' @ CHR '':'' # unparse y @ r) s os ops"
    and rx: "\<And>s. def_reads defs x c sc (b' @ CHR '':'' # unparse y @ r) s [] [eTkExprBegin]"
    and ry: "\<And>s. def_reads defs y d sd r s (c # a # os) (eTkQuestion # ops)"
    and b: "blanks b" "blanks b'" and fit: "def_eval.fits 14 ops" and le: "xprec i < 14" "xprec x \<le> 14" "xprec y \<le> 14"
  shows "def_reads defs (XCond i b x b' y) (if a \<noteq> 0 then c else d) (sa \<and> sc \<and> sd) r s os ops"
proof -
  let ?ry = "b' @ CHR '':'' # unparse y @ r"
  let ?r = "b @ CHR ''?'' # unparse x @ ?ry"
  from ri obtain tk pos s1 k j s2 os' ops' where I: "GetNextToken (Some (unparse i @ ?r)) s = Some (tk, Some pos, s1)" "lx_tk s1 = tk" "tk \<noteq> eTkError" "0 < k"
    "\<And>n sg0 p. at_pos (Some pos) p \<Longrightarrow> def_operand defs (n + k) p s1 os ops sg0 = def_operator (def_operand defs (n + j)) (Some ?r) s2 os' ops' (sg0 \<and> sa)"
    "lx_errs s2 = lx_errs s" "def_eval.stands os' ops' a (xprec i) os ops" unfolding def_reads_def by blast
  obtain s3 where s3: "s3 = s2\<lparr>lx_tk := eTkQuestion\<rparr>" by blast
  obtain tkx posx s4 kx s5 where X: "GetNextToken (Some (unparse x @ ?ry)) s3 = Some (tkx, Some posx, s4)" "lx_errs s5 = lx_errs s3" "lx_tk s5 = eTkColon"
      "\<And>n. def_nested (def_operand defs (n + kx)) (Some posx) s4 = Some (Some (Some (c, sc), Some (unparse y @ r), s5))"
    by (rule def_nested_run [OF rx [of s3] le(2) next_mark(4) [OF b(2)]]) (simp, rule that)
  from ry [of s5] obtain tk' pos' s6 k' j' s7 os'' ops'' where Y: "GetNextToken (Some (unparse y @ r)) s5 = Some (tk', Some pos', s6)" "0 < k'"
    "\<And>n sg0 p. at_pos (Some pos') p \<Longrightarrow> def_operand defs (n + k') p s6 (c # a # os) (eTkQuestion # ops) sg0 = def_operator (def_operand defs (n + j')) (Some r) s7 os'' ops'' (sg0 \<and> sd)"
    "lx_errs s7 = lx_errs s5" "def_eval.stands os'' ops'' d (xprec y) (c # a # os) (eTkQuestion # ops)" unfolding def_reads_def by blast
  have ev: "EvaluateExpression eTkQuestion os' ops' = Some (a # os, eTkQuestion # ops)" by (rule def_eval.stands_cond [OF I(7) le(1) fit])
  have step: "def_operator (def_operand defs (n + kx)) (Some ?r) s2 os' ops' sg0 = def_operand defs (n + kx) (Some pos') s6 (c # a # os) (eTkQuestion # ops) (sg0 \<and> sc)" for n sg0
    by (simp add: def_operator_def binary_def next_mark(3) [OF b(1)] ev X Y(1) flip: s3)
  show ?thesis
  proof (rule def_readsI [of _ _ _ tk pos s1 "k + kx + k'" _ _ _ "j + kx + j'" s7 os'' ops''])
    show "def_operand defs (n + (k + kx + k')) p s1 os ops sg0 = def_operator (def_operand defs (n + (j + kx + j'))) (Some r) s7 os'' ops'' (sg0 \<and> sa \<and> sc \<and> sd)"
      if "at_pos (Some pos) p" for n sg0 p
      using I(5) [OF that, of "n + kx + k'" sg0] step [of "n + k' + j"] Y(3) [of "Some pos'" "n + kx + j" "(sg0 \<and> sa) \<and> sc"] by (simp add: at_pos_def ac_simps)
    show "def_eval.stands os'' ops'' (if a \<noteq> 0 then c else d) (xprec (XCond i b x b' y)) os ops" using def_eval.stands_else [OF Y(5) le(3)] by simp
    show "GetNextToken (Some (unparse (XCond i b x b' y) @ r)) s = Some (tk, Some pos, s1)" using I(1) by simp
  qed (use I X Y in \<open>auto simp: s3\<close>)
qed

text \<open>Every expression with a value is read.\<close>

lemma def_value_reads:
  assumes "def_value env e v sg" "def_table defs env"
  shows "c_grouped e \<Longrightarrow> lexical e \<Longrightarrow> follow r \<Longrightarrow> def_eval.fits (xprec e) ops \<Longrightarrow> def_reads defs e v sg r s os ops"
  using assms(1)
proof (induction arbitrary: r s os ops rule: def_value.induct)
  case (int ds b sf)
  then have "GetNextToken (Some (unparse (XInt b ds sf) @ r)) s = Some (eTkNumInt, Some r, s\<lparr>lx_tk := eTkNumInt, lx_str := ds, lx_signed := no_u sf\<rparr>)"
    using next_int [of b ds sf r s] by (simp add: no_u_def)
  then show ?case by (rule def_reads_number) (use int in \<open>simp_all add: GetTokenValue_def token_value_def int_digits_value\<close>)
next
  case (hex hs b sf)
  then have "GetNextToken (Some (unparse (XHex b hs sf) @ r)) s = Some (eTkNumHex, Some r, s\<lparr>lx_tk := eTkNumHex, lx_str := ''0x'' @ hs, lx_signed := False\<rparr>)"
    using next_hex [of b hs sf r s] by simp
  then show ?case by (rule def_reads_number) (use hex hex_digits_value [of hs] in \<open>simp_all add: GetTokenValue_def token_value_def\<close>)
next
  case (name n e v sg b)
  then obtain b' where d: "c_grouped e" "lexical e" "blanks b'" "FindStringInTable defs n = Some (unparse e @ b')"
    using assms(2) unfolding def_table_def by blast
  have le: "xprec e \<le> 14" by (rule xprec_bound [OF d(1)])
  show ?case
    by (rule def_reads_name [OF name.IH [OF d(1,2) follow_blanks_only [OF d(3)]] name.prems(2,3) d(3) le d(4)]) (use le in simp)
next
  case (paren e v sg b b')
  then have g: "c_grouped e" "lexical e" "blanks b" "blanks b'" by simp_all
  have le: "xprec e \<le> 14" by (rule xprec_bound [OF g(1)])
  show ?case by (rule def_reads_paren [OF paren.IH [OF g(1,2)] g(3,4) le]) (use le in \<open>simp_all add: follow_blanks g is_name_def is_alpha_def is_digit_def\<close>)
next
  case (neg e v sg b)
  then show ?case by (intro def_reads_not neg.IH) (simp_all add: def_eval.fits_over_bang)
next
  case (bin l a sa y c sc op v b)
  then have g: "binary op" "c_grouped l" "c_grouped y" "lexical l" "blanks b" "lexical y" "def_eval.fits (c_prec op) ops"
    "xprec l < c_prec op \<or> xprec l = c_prec op \<and> c_prec op \<noteq> 3 \<and> c_prec op \<noteq> 14"
    "xprec y < c_prec op \<or> xprec y = c_prec op \<and> \<not> (c_prec op \<noteq> 3 \<and> c_prec op \<noteq> 14)" by simp_all
  show ?case
    by (rule def_reads_bin [OF bin.IH(1) bin.IH(2) g(1,5,6,7) bin.hyps(3) g(8)])
      (use g bin.prems(3) in \<open>auto simp: follow_op intro: def_eval.fits_left def_eval.fits_right\<close>)
next
  case (cond i a sa x c sc y d sd b b')
  then have g: "c_grouped i" "c_grouped x" "c_grouped y" "lexical i" "lexical x" "lexical y" "blanks b" "blanks b'" "xprec i < 14" "def_eval.fits 14 ops"
    by simp_all
  have le: "xprec x \<le> 14" "xprec y \<le> 14" using g(2,3) by (simp_all add: xprec_bound)
  have n: "\<not> is_name (CHR ''?'')" "\<not> is_name (CHR '':'')" by (simp_all add: is_name_def is_alpha_def is_digit_def)
  show ?case
  proof (rule def_reads_cond [OF cond.IH(1) cond.IH(2) cond.IH(3) g(7,8,10,9) le])
    show "def_eval.fits (xprec i) ops" using g(9,10) by (intro def_eval.fits_left [OF g(10)]) simp
    show "def_eval.fits (xprec y) (eTkQuestion # ops)" for ops by (rule def_eval.fits_else [OF le(2)])
    show "def_eval.fits (xprec x) [eTkExprBegin]" using le by simp
  qed (use g n cond.prems(3) in \<open>simp_all add: follow_blanks\<close>)
qed

section \<open>When the recursion ends\<close>

text \<open>Texts without a character the lexer does not know; \<open>P\<close> holds of their names.\<close>

inductive clean :: "(string \<Rightarrow> bool) \<Rightarrow> cursor \<Rightarrow> bool" for P where
  past: "clean P None"
| token: "GetNextToken (Some t) s = Some (tk, q, s') \<Longrightarrow> tk \<noteq> eTkError \<Longrightarrow> (tk = eTkIdent \<longrightarrow> P (lx_str s')) \<Longrightarrow> clean P q \<Longrightarrow> clean P (Some t)"

inductive_cases clean_Some: "clean P (Some t)"

definition plen :: "cursor \<Rightarrow> nat" where
  "plen pos = (case pos of None \<Rightarrow> 0 | Some t \<Rightarrow> Suc (length t))"

lemma suffix_len: "length (fst (SkipTypeSuffix p sg)) \<le> length p"
  by (induction p sg rule: SkipTypeSuffix.induct) auto

lemma op_token_len: "op_token c p = Some (tk, q) \<Longrightarrow> length q \<le> length p \<and> tk \<noteq> eTkError \<and> tk \<noteq> eTkIdent"
  by (auto simp: op_token_def split: if_splits)

lemma drop_len: "length (dropWhile P p) \<le> length p"
  by (rule length_dropWhile_le)

text \<open>A token other than an error takes characters, and becomes the lexer's last token; the state before it does not matter.\<close>

lemma token_cases:
  assumes "GetNextToken pos s = Some (tk, q, s1)" "tk \<noteq> eTkError"
  shows "plen q < plen pos \<and> lx_tk s1 = tk \<and> (\<forall>s'. \<exists>s2. GetNextToken pos s' = Some (tk, q, s2) \<and> (tk = eTkIdent \<longrightarrow> lx_str s2 = lx_str s1))"
proof -
  obtain t where t: "pos = Some t" using assms(1) by (cases pos) (simp_all add: GetNextToken_def)
  have l: "length (SkipSpace t) \<le> length t" by (simp add: SkipSpace_def drop_len)
  show ?thesis
  proof (cases "SkipSpace t")
    case (Cons c p)
    have d: "length (dropWhile is_name p) \<le> length p" "length (dropWhile is_digit p) \<le> length p" "length (dropWhile is_xdigit (tl p)) \<le> length p"
      using drop_len [of is_xdigit "tl p"] drop_len [of _ p] by simp_all
    obtain q1 b1 q2 b2 where sf: "SkipTypeSuffix (dropWhile is_digit p) True = (q1, b1)" "SkipTypeSuffix (dropWhile is_xdigit (tl p)) False = (q2, b2)"
      by fastforce
    have sl: "length q1 \<le> length p" "length q2 \<le> length p"
      using suffix_len [of "dropWhile is_digit p" True] suffix_len [of "dropWhile is_xdigit (tl p)" False] d by (simp_all add: sf)
    note simps = GetNextToken_def t Cons Let_def plen_def
    show ?thesis
    proof (cases "op_token c p")
      case None
      consider (mark) "c \<in> {CHR ''['', CHR '']'', CHR ''?'', CHR '':''}" | (eq) "c = CHR ''=''" | (name) "is_alpha c \<or> c = CHR ''_''"
        | (hex) "is_digit c" "c = CHR ''0'' \<and> next_is (CHR ''x'') p" | (int) "is_digit c" "\<not> (c = CHR ''0'' \<and> next_is (CHR ''x'') p)"
        | (other) "c \<notin> {CHR ''['', CHR '']'', CHR ''?'', CHR '':''}" "c \<noteq> CHR ''=''" "\<not> (is_alpha c \<or> c = CHR ''_'')" "\<not> is_digit c"
        by satx
      then show ?thesis
      proof cases
        case mark
        then show ?thesis using assms l None by (elim insertE emptyE) (simp_all add: simps, auto)
      next
        case eq
        then show ?thesis using assms l None by (cases "next_is (CHR ''='') p") (simp_all add: simps, auto)
      next
        case name
        then show ?thesis using assms l d name_start(4) [OF name] by (simp add: simps None) auto
      next
        case hex
        then show ?thesis using assms l sf sl None digit_start(3,4) [OF hex(1)] by (auto simp: simps)
      next
        case int
        then show ?thesis using assms l sf sl digit_start(3,4) [OF int(1)] by (simp add: simps None) auto
      next
        case other
        then show ?thesis using assms by (simp add: simps None)
      qed
    next
      case (Some x)
      then show ?thesis using assms l op_token_len [of c p "fst x" "snd x"] by (cases x) (auto simp: simps)
    qed
  qed (use assms in \<open>auto simp: GetNextToken_def t Let_def plen_def\<close>)
qed

definition name_ok :: "(string \<Rightarrow> bool) \<Rightarrow> def_lexer \<Rightarrow> bool" where
  "name_ok P s \<longleftrightarrow> (lx_tk s = eTkIdent \<longrightarrow> P (lx_str s))"

lemma clean_token:
  assumes "clean P pos" "GetNextToken pos s = Some (tk, q, s1)"
  shows "clean P q \<and> plen q < plen pos \<and> tk \<noteq> eTkError \<and> lx_tk s1 = tk \<and> name_ok P s1"
  using assms(1)
proof cases
  case past
  then show ?thesis using assms(2) by (simp add: GetNextToken_def)
next
  case (token t s' tk' q' s1')
  from token_cases [OF token(2,3)] obtain s2 where "GetNextToken (Some t) s = Some (tk', q', s2)" "tk' = eTkIdent \<Longrightarrow> lx_str s2 = lx_str s1'"
    by blast
  then have "tk' = tk" "q' = q" "tk = eTkIdent \<Longrightarrow> lx_str s1 = lx_str s1'" using assms(2) token(1) by simp_all
  then show ?thesis using token token_cases [OF assms(2)] by (simp add: name_ok_def)
qed

lemma clean_skip: "clean P (Some t) \<Longrightarrow> clean P (Some (SkipSpace t)) \<and> plen (Some (SkipSpace t)) \<le> plen (Some t)"
  by (auto elim!: clean_Some intro: clean.token simp: plen_def) (auto simp: SkipSpace_def drop_len intro!: clean.token)

text \<open>Where a call leaves the position: not before the one it was given.\<close>

definition ahead :: "(string \<Rightarrow> bool) \<Rightarrow> cursor \<Rightarrow> def_result \<Rightarrow> bool" where
  "ahead P pos res \<longleftrightarrow> (\<forall>r q s. res = Some (Some (r, q, s)) \<longrightarrow> clean P q \<and> plen q \<le> plen pos)"

lemma ahead_intros: "ahead P pos None" "ahead P pos (Some None)" "clean P q \<Longrightarrow> plen q \<le> plen pos \<Longrightarrow> ahead P pos (Some (Some (r, q, s)))"
    "clean P q \<Longrightarrow> plen q \<le> plen pos \<Longrightarrow> ahead P pos (def_fail m q s)"
  by (simp_all add: ahead_def def_fail_def)

lemma ahead_after:
  assumes "ahead P q res" "\<And>r p s. clean P p \<Longrightarrow> plen p \<le> plen q \<Longrightarrow> ahead P pos (f (r, p, s))"
  shows "ahead P pos (after res f)"
  using assms by (fastforce simp: ahead_def after_def split: option.splits)

lemma ahead_token:
  assumes "clean P q" "\<And>tk p s'. clean P p \<Longrightarrow> plen p < plen q \<Longrightarrow> ahead P pos (f tk p s')"
  shows "ahead P pos (case GetNextToken q s of None \<Rightarrow> Some None | Some (tk, p, s') \<Rightarrow> f tk p s')"
  using assms clean_token [OF assms(1)] by (auto simp: ahead_intros split: option.split)

lemma ahead_nested:
  assumes "clean P pos" "\<And>q s. clean P q \<Longrightarrow> ahead P q (rec q s [] [eTkExprBegin] True)"
  shows "ahead P pos (def_nested rec pos s)"
proof (cases pos)
  case (Some t)
  have c: "clean P (Some (SkipSpace t))" "plen (Some (SkipSpace t)) \<le> plen pos" using clean_skip assms(1) by (simp_all add: Some)
  have "ahead P (Some (SkipSpace t)) (rec (Some (SkipSpace t)) s [] [eTkExprBegin] True)" by (rule assms(2) [OF c(1)])
  then show ?thesis using c(2) by (auto simp: def_nested_def Some ahead_def)
qed (simp add: def_nested_def ahead_intros)

lemma ahead_mono: "ahead P q res \<Longrightarrow> plen q \<le> plen pos \<Longrightarrow> ahead P pos res"
  by (auto simp: ahead_def)

lemma ahead_cases:
  "(r = None \<Longrightarrow> ahead P pos A) \<Longrightarrow> (\<And>v b. r = Some (v, b) \<Longrightarrow> ahead P pos (f v b)) \<Longrightarrow> ahead P pos (case r of None \<Rightarrow> A | Some (v, b) \<Rightarrow> f v b)"
  "(c \<Longrightarrow> ahead P pos A) \<Longrightarrow> (\<not> c \<Longrightarrow> ahead P pos B) \<Longrightarrow> ahead P pos (if c then A else B)"
  "(\<And>x. o1 = Some x \<Longrightarrow> ahead P pos (g x)) \<Longrightarrow> (o1 = None \<Longrightarrow> ahead P pos A) \<Longrightarrow> ahead P pos (case o1 of None \<Rightarrow> A | Some x \<Rightarrow> g x)"
  by (simp_all split: option.split)

lemma ahead_operator:
  assumes "clean P pos" and rec: "\<And>q s os ops sg. clean P q \<Longrightarrow> ahead P q (rec q s os ops sg)"
  shows "ahead P pos (def_operator rec pos s os ops sg)"
proof -
  have go: "ahead P pos (case GetNextToken q s of None \<Rightarrow> Some None | Some (uu, q', s) \<Rightarrow> rec q' s os ops sg)"
    if "clean P q" "plen q < plen pos" for q s os ops sg
    by (rule ahead_token [OF that(1)], rule ahead_mono [OF rec]) (use that in auto)
  show ?thesis
    unfolding def_operator_def
    apply (rule ahead_token [OF assms(1)])
    apply (rule ahead_cases(2))
    subgoal by (auto intro!: ahead_intros split: option.split list.split)
    apply (rule ahead_cases(2))
    subgoal by (rule ahead_cases(1), rule ahead_intros, rule go)
    apply (rule ahead_cases(2))
    subgoal
      apply (rule ahead_cases(1), rule ahead_intros)
      apply (rule ahead_token, assumption, rule ahead_after, rule ahead_nested, assumption, rule rec, assumption)
      subgoal by (simp only: prod.case, rule ahead_cases(1), rule ahead_intros, assumption, simp, rule ahead_cases(2), rule ahead_intros, assumption,
          simp, rule go) simp_all
      done
    subgoal by (rule ahead_intros) auto
    done
qed

lemma bang_clean:
  assumes "clean P pos" "def_bang pos s os ops = Some (tk, q, s', os', ops')"
  shows "clean P q \<and> plen q \<le> plen pos \<and> (name_ok P s \<longrightarrow> name_ok P s')"
  using assms by (auto simp: def_bang_def bind_eq_Some_conv split: if_splits dest!: clean_token [OF assms(1)])

lemma value_state: "GetTokenValue s = Some (v, s') \<Longrightarrow> lx_tk s' = lx_tk s \<and> lx_str s' = lx_str s"
  by (auto simp: GetTokenValue_def token_value_def lx_error_def split: if_splits option.splits)

lemma ahead_step:
  assumes "clean P pos" and rec: "\<And>q s os ops sg. clean P q \<Longrightarrow> ahead P q (rec q s os ops sg)"
  shows "ahead P pos (def_step defs rec pos s os ops sg)"
proof -
  have op: "ahead P pos (def_operator rec q s os ops sg)" if "clean P q" "plen q \<le> plen pos" for q s os ops sg
    by (rule ahead_mono [OF ahead_operator [OF that(1) rec] that(2)])
  have inner: "ahead P pos (after res (\<lambda>(r, _, s). case r of None \<Rightarrow> Some (Some (None, q, s)) | Some (v, sg1) \<Rightarrow> def_operator rec q s (v # os) ops (sg \<and> sg1)))"
    if "clean P q" "plen q \<le> plen pos" for res q os ops
    using that op [OF that] by (auto simp: after_def intro!: ahead_intros split: option.split)
  have opt: "ahead P pos (case GetTokenValue s of None \<Rightarrow> Some None | Some (v, s) \<Rightarrow> def_operator rec q s (v # os) ops (sg \<and> lx_signed s))"
    if "clean P q" "plen q \<le> plen pos" for s q os ops
    using op [OF that] by (auto intro!: ahead_intros split: option.split)
  have name: "ahead P pos (case FindStringInTable defs (lx_str s) of None \<Rightarrow> def_fail (lx_str s @ '' is undefined'') q s
       | Some strValue \<Rightarrow> (case GetNextToken (Some strValue) s of None \<Rightarrow> Some None | Some (_, pValueStr, s) \<Rightarrow>
             after (def_nested rec pValueStr s) (\<lambda>(r, _, s). case r of None \<Rightarrow> Some (Some (None, q, s))
               | Some (v, sg1) \<Rightarrow> def_operator rec q s (v # os) ops (sg \<and> sg1))))"
    if "clean P q" "plen q \<le> plen pos" for s q os ops
    using that inner [OF that] by (auto intro!: ahead_intros split: option.split)
  have paren: "ahead P pos (case GetNextToken q s of None \<Rightarrow> Some None | Some (_, pos, s) \<Rightarrow>
           after (def_nested rec pos s) (\<lambda>(r, pos, s). case r of None \<Rightarrow> Some (Some (None, pos, s))
             | Some (v, sg1) \<Rightarrow>
                 if lx_tk s \<noteq> eTkRParen then def_fail (''expected '' @ quoted '')'') pos s
                 else def_operator rec pos s (v # os) ops (sg \<and> sg1)))"
    if q: "clean P q" "plen q \<le> plen pos" for s q os ops
    by (rule ahead_token [OF q(1)], rule ahead_after, rule ahead_nested, assumption, rule rec, assumption, simp only: prod.case,
        rule ahead_cases(1), rule ahead_intros, assumption, use q in simp, rule ahead_cases(2), rule ahead_intros, assumption, use q in simp, rule op)
      (use q in simp_all)
  show ?thesis
  proof (cases "def_bang pos s os ops")
    case (Some x)
    obtain tk q s' os' ops' where x: "x = (tk, q, s', os', ops')" by (cases x) auto
    note q = bang_clean [OF assms(1) Some [unfolded x]]
    show ?thesis unfolding def_step_def Some x option.case prod.case using q
      by (intro ahead_cases(2) opt name paren ahead_intros) simp_all
  qed (simp add: ahead_intros)
qed

lemma ahead_operand: "clean P q \<Longrightarrow> ahead P q (def_operand defs n q s os ops sg)"
proof (induction n arbitrary: q s os ops sg)
  case (Suc n)
  show ?case unfolding def_operand.simps by (rule ahead_step [OF Suc.prems Suc.IH])
qed (simp add: ahead_intros)

text \<open>With enough fuel the result is there, and stays.\<close>

definition ends :: "(nat \<Rightarrow> 'a option) \<Rightarrow> bool" where
  "ends F \<longleftrightarrow> (\<exists>k r. \<forall>n. F (n + k) = Some r)"

lemma ends_const [simp]: "ends (\<lambda>n. Some r)"
  by (simp add: ends_def)

lemma ends_fail [simp]: "ends (\<lambda>n. def_fail m p s)"
  by (simp add: ends_def def_fail_def)

lemma ends_Suc: "ends (\<lambda>n. F (Suc n)) \<Longrightarrow> ends F"
  unfolding ends_def by (metis add_Suc_right)

lemma ends_after:
  assumes "ends F" "\<And>x m. F m = Some (Some x) \<Longrightarrow> ends (f x)"
  shows "ends (\<lambda>n. after (F n) (\<lambda>x. f x n))"
proof -
  obtain k r where F: "\<And>n. F (n + k) = Some r" using assms(1) unfolding ends_def by blast
  show ?thesis
  proof (cases r)
    case None
    then show ?thesis unfolding ends_def by (intro exI [of _ k]) (simp add: F)
  next
    case (Some x)
    then obtain k' r' where f: "\<And>n. f x (n + k') = Some r'" using assms(2) [of "0 + k" x] F [of 0] unfolding ends_def by auto
    have "after (F (n + (k + k'))) (\<lambda>x. f x (n + (k + k'))) = Some r'" for n
      using F [of "n + k'"] f [of "n + k"] Some by (simp add: ac_simps)
    then show ?thesis unfolding ends_def by blast
  qed
qed

lemma ends_token:
  assumes "clean P q" "\<And>tk p s'. clean P p \<Longrightarrow> plen p < plen q \<Longrightarrow> name_ok P s' \<Longrightarrow> ends (\<lambda>n. f n tk p s')"
  shows "ends (\<lambda>n. case GetNextToken q s of None \<Rightarrow> Some None | Some (tk, p, s') \<Rightarrow> f n tk p s')"
proof (cases "GetNextToken q s")
  case (Some x)
  obtain tk p s' where x: "x = (tk, p, s')" by (cases x) auto
  show ?thesis using assms(2) clean_token [OF assms(1) Some [unfolded x]] by (simp add: Some x)
qed simp

lemma ends_case:
  "(r = None \<Longrightarrow> ends A) \<Longrightarrow> (\<And>v b. r = Some (v, b) \<Longrightarrow> ends (\<lambda>n. f n v b)) \<Longrightarrow> ends (\<lambda>n. case r of None \<Rightarrow> A n | Some (v, b) \<Rightarrow> f n v b)"
  by (cases r) auto

lemma ends_if: "(c \<Longrightarrow> ends A) \<Longrightarrow> (\<not> c \<Longrightarrow> ends B) \<Longrightarrow> ends (\<lambda>n. if c then A n else B n)"
  by (cases c) simp_all

lemma ends_stop: "r \<noteq> None \<Longrightarrow> ends (\<lambda>n. r)"
  by (auto simp: ends_def)

text \<open>\<open>later P N F\<close>: from every position with less than \<open>N\<close> characters left the loop ends.\<close>

definition later :: "cdefine list \<Rightarrow> (string \<Rightarrow> bool) \<Rightarrow> nat \<Rightarrow> bool" where
  "later defs P N \<longleftrightarrow> (\<forall>q s os ops sg. plen q < N \<longrightarrow> clean P q \<longrightarrow> name_ok P s \<longrightarrow> ends (\<lambda>n. def_operand defs n q s os ops sg))"

lemma laterD: "later defs P N \<Longrightarrow> plen q < N \<Longrightarrow> clean P q \<Longrightarrow> name_ok P s \<Longrightarrow> ends (\<lambda>n. def_operand defs n q s os ops sg)"
  by (simp add: later_def)

lemma ends_nested:
  assumes "later defs P N" "clean P q" "plen q < N" "name_ok P s"
  shows "ends (\<lambda>n. def_nested (def_operand defs n) q s)"
proof (cases q)
  case (Some t)
  show ?thesis unfolding def_nested_def Some option.case
    by (rule laterD [OF assms(1)]) (use clean_skip [of P t] assms(2-) in \<open>auto simp: Some\<close>)
qed (simp add: def_nested_def)

lemma ends_go:
  assumes "later defs P N" "clean P q" "plen q < N"
  shows "ends (\<lambda>n. case GetNextToken q s of None \<Rightarrow> Some None | Some (uu, q', s) \<Rightarrow> def_operand defs n q' s os ops sg)"
  by (rule ends_token [OF assms(2)], rule laterD [OF assms(1)]) (use assms(3) in auto)

text \<open>A call's result, with where it leaves the position.\<close>

lemma ends_then:
  assumes "later defs P N" "clean P q" "plen q < N" "name_ok P s"
    and "\<And>r p s. clean P p \<Longrightarrow> plen p \<le> plen q \<Longrightarrow> ends (f (r, p, s))"
  shows "ends (\<lambda>n. after (def_nested (def_operand defs n) q s) (\<lambda>x. f x n))"
proof (rule ends_after [OF ends_nested [OF assms(1-4)]])
  fix x m
  assume m: "def_nested (def_operand defs m) q s = Some (Some x)"
  obtain r p s' where x: "x = (r, p, s')" by (cases x) auto
  have "ahead P q (def_nested (def_operand defs m) q s)" by (rule ahead_nested [OF assms(2)]) (rule ahead_operand)
  then show "ends (f x)" using m assms(5) by (simp add: ahead_def x)
qed

lemma ends_operator:
  assumes l: "later defs P N" and "clean P pos" "plen pos \<le> N"
  shows "ends (\<lambda>n. def_operator (def_operand defs n) pos s os ops sg)"
  unfolding def_operator_def
  apply (rule ends_token [OF assms(2)])
  apply (rule ends_if)
  subgoal by (rule ends_stop) (auto split: option.split list.split)
  apply (rule ends_if)
  subgoal by (rule ends_case, simp, rule ends_go [OF l], assumption, use assms(3) in simp)
  apply (rule ends_if)
  subgoal
    apply (rule ends_case, simp)
    apply (rule ends_token, assumption)
    apply (rule ends_then [OF l], assumption, use assms(3) in simp, assumption)
    apply (simp only: prod.case)
    apply (rule ends_case, simp)
    apply (rule ends_if, simp)
    by (rule ends_go [OF l], assumption) (use assms(3) in simp)
  by simp

lemma ends_step:
  assumes l: "later defs P N" and "clean P pos" "plen pos \<le> N" "name_ok P s"
    and macro: "\<And>name t s tk p s'. P name \<Longrightarrow> FindStringInTable defs name = Some t \<Longrightarrow> GetNextToken (Some t) s = Some (tk, p, s') \<Longrightarrow>
      ends (\<lambda>n. def_nested (def_operand defs n) p s')"
  shows "ends (\<lambda>n. def_step defs (def_operand defs n) pos s os ops sg)"
proof (cases "def_bang pos s os ops")
  case (Some x)
  obtain tk q s' os' ops' where x: "x = (tk, q, s', os', ops')" by (cases x) auto
  note q = bang_clean [OF assms(2) Some [unfolded x]]
  have le: "plen q \<le> N" and cl: "clean P q" and nm: "name_ok P s'" using q assms(3,4) by simp_all
  note op = ends_operator [OF l cl le]
  show ?thesis unfolding def_step_def Some x option.case prod.case
    apply (rule ends_if, simp)
    apply (rule ends_if)
    subgoal by (rule ends_case, simp, rule op)
    apply (rule ends_if)
    subgoal
    proof (cases "FindStringInTable defs (lx_str s')")
      case (Some t)
      assume "lx_tk s' = eTkIdent"
      then have P: "P (lx_str s')" using nm by (simp add: name_ok_def)
      show ?thesis
      proof (cases "GetNextToken (Some t) s'")
        case (Some y)
        obtain tk' p s'' where y: "y = (tk', p, s'')" by (cases y) auto
        have "ends (\<lambda>n. def_nested (def_operand defs n) p s'')"
          by (rule macro [OF P \<open>FindStringInTable defs (lx_str s') = Some t\<close> Some [unfolded y]])
        then show ?thesis unfolding \<open>FindStringInTable defs (lx_str s') = Some t\<close> Some y option.case prod.case
          by (rule ends_after, simp only: split_paired_all prod.case) (rule ends_case, simp, rule op)
      qed (simp add: \<open>FindStringInTable defs (lx_str s') = Some t\<close>)
    qed simp
    apply (rule ends_if)
    subgoal
      apply (rule ends_token [OF cl], rule ends_then [OF l], assumption, use le in simp, assumption)
      apply (simp only: prod.case)
      apply (rule ends_case, simp)
      apply (rule ends_if, simp)
      by (rule ends_operator [OF l], assumption) (use le in simp)
    by simp
qed simp

text \<open>\<open>rank\<close> orders the names: the text of a name holds names of a lower rank only.\<close>

definition def_ranked :: "cdefine list \<Rightarrow> (string \<Rightarrow> nat) \<Rightarrow> bool" where
  "def_ranked defs rank \<longleftrightarrow> (\<forall>name t. FindStringInTable defs name = Some t \<longrightarrow> clean (\<lambda>m. rank m < rank name) (Some t))"

lemma clean_later: "def_ranked defs rank \<Longrightarrow> later defs (\<lambda>m. rank m < R) N"
proof (induction R arbitrary: N rule: less_induct)
  case (less R N)
  show ?case
  proof (induction N)
    case (Suc N)
    show ?case unfolding later_def
    proof (intro allI impI)
      fix q s os ops sg
      assume q: "plen q < Suc N" "clean (\<lambda>m. rank m < R) q" "name_ok (\<lambda>m. rank m < R) s"
      show "ends (\<lambda>n. def_operand defs n q s os ops sg)"
      proof (rule ends_Suc, unfold def_operand.simps, rule ends_step [where N = N, OF Suc.IH q(2) _ q(3)])
        fix name t s tk p s'
        assume m: "rank name < R" "FindStringInTable defs name = Some t" "GetNextToken (Some t) s = Some (tk, p, s')"
        then have "clean (\<lambda>m. rank m < rank name) (Some t)" using less.prems by (simp add: def_ranked_def)
        from clean_token [OF this m(3)] show "ends (\<lambda>n. def_nested (def_operand defs n) p s')"
          by (intro ends_nested [OF less.IH [OF m(1) less.prems, of "plen (Some t)"]]) auto
      next
        show "plen q \<le> N" using q(1) by simp
      qed
    qed
  qed (simp add: later_def)
qed

section \<open>When it does not\<close>

text \<open>A character no case of GetNextToken takes; the lexer keeps its last token and the position.\<close>

definition unknown_char :: "char \<Rightarrow> bool" where
  "unknown_char c \<longleftrightarrow> c \<notin> {CHR ''['', CHR '']'', CHR ''='', CHR ''?'', CHR '':''} \<and> \<not> is_name c \<and> \<not> is_blank c \<and> (\<forall>p. op_token c p = None)"

lemma next_unknown:
  assumes "blanks b" "unknown_char c"
  shows "\<exists>m. GetNextToken (Some (b @ c # r)) s = Some (eTkError, Some (c # r), lx_error m s)"
  using assms by (auto simp: GetNextToken_def Let_def unknown_char_def skip_Cons is_name_def)

text \<open>At such a character, with \<^verbatim>\<open>(\<close> or a macro's name as the last token, every call makes the same call again.\<close>

lemma paren_loop:
  assumes "unknown_char c" "blanks b"
  shows "lx_tk s = eTkLParen \<Longrightarrow> def_operand defs n (Some (b @ c # r)) s os ops sg = None"
  using assms(2)
proof (induction n arbitrary: b s os ops sg)
  case (Suc n)
  obtain m where m: "GetNextToken (Some (b @ c # r)) s = Some (eTkError, Some (c # r), lx_error m s)" using next_unknown [OF Suc.prems(2) assms(1)] by blast
  have "def_operand defs n (Some (c # r)) (lx_error m s) [] [eTkExprBegin] True = None"
    using Suc.IH [of "lx_error m s" "[]"] Suc.prems(1) by (simp add: lx_error_def)
  moreover have "SkipSpace (c # r) = c # r" using assms(1) by (simp add: unknown_char_def skip_Cons)
  ultimately show ?case using Suc.prems(1) m by (simp add: def_bang_primary def_nested_def)
qed simp

lemma macro_loop:
  assumes "FindStringInTable defs name = Some t" "\<And>s. \<exists>tk pos s'. GetNextToken (Some t) s = Some (tk, Some pos, s') \<and>
    (lx_tk s = eTkIdent \<longrightarrow> lx_str s = name \<longrightarrow> lx_tk s' = eTkIdent \<and> lx_str s' = name)"
  shows "lx_tk s = eTkIdent \<Longrightarrow> lx_str s = name \<Longrightarrow> def_operand defs n p s os ops sg = None"
proof (induction n arbitrary: p s os ops sg)
  case (Suc n)
  obtain tk pos s' where g: "GetNextToken (Some t) s = Some (tk, Some pos, s')" "lx_tk s' = eTkIdent" "lx_str s' = name"
    using assms(2) [of s] Suc.prems by blast
  show ?case using Suc.prems g assms(1) Suc.IH [OF g(2,3)] by (simp add: def_bang_primary def_nested_def)
qed simp

text \<open>A macro's text and a text of one of these kinds.\<close>

definition stuck_text :: "string \<Rightarrow> string \<Rightarrow> bool" where
  "stuck_text name t \<longleftrightarrow> (\<exists>c b' r'. t = b' @ c # r' \<and> blanks b' \<and> unknown_char c) \<or> (\<exists>b' r'. t = b' @ name @ r' \<and> blanks b' \<and> follow r')"

definition def_loops :: "cdefine list \<Rightarrow> string \<Rightarrow> bool" where
  "def_loops defs txt \<longleftrightarrow>
     (\<exists>b b' c r. txt = b @ CHR ''('' # b' @ c # r \<and> blanks b \<and> blanks b' \<and> unknown_char c) \<or>
     (\<exists>b name r t. txt = b @ name @ r \<and> lexical (XName b name) \<and> follow r \<and> FindStringInTable defs name = Some t \<and> stuck_text name t)"

section \<open>Properties\<close>

lemma find_value_run:
  assumes "def_value env e v sg" "def_table defs env" "c_grouped e" "lexical e" "blanks b"
  shows "\<exists>k s'. lx_errs s' = lx_errs s \<and> (\<forall>n. FindStringValue defs (n + k) (Some (unparse e @ b)) s = Some (Some (Some (v, sg), None, s')))"
proof -
  have le: "xprec e \<le> 14" by (rule xprec_bound [OF assms(3)])
  have "def_reads defs e v sg b s [] [eTkExprBegin]"
    by (rule def_value_reads [OF assms(1-4) follow_blanks_only [OF assms(5)]]) (use le in simp)
  then obtain tk pos s1 k s3 where "GetNextToken (Some (unparse e @ b)) s = Some (tk, Some pos, s1)"
    "lx_errs s3 = lx_errs s" "\<And>n. def_nested (def_operand defs (n + k)) (Some pos) s1 = Some (Some (Some (v, sg), None, s3))"
    by (rule def_nested_run [OF _ le next_end [OF assms(5)]]) (simp, rule that)
  then show ?thesis by (intro exI [of _ k] exI [of _ s3]) (simp add: FindStringValue_def ParseExpression_def)
qed

text \<open>
  C19: the value of a constant expression. The text of an expression is parsed as C groups it: the unary and binary operators by their precedence,
  equal binary precedences to the left, the conditional last and to the right, macro names standing for the values of their own texts; when the expression
  has a value (\<open>def_value\<close>: 32-bit integers that wrap, decimal and hexadecimal numbers below the limits of the reader, every operand evaluated, also those of
  \<^verbatim>\<open>&&\<close>, \<^verbatim>\<open>||\<close> and \<^verbatim>\<open>?:\<close> that C does not evaluate), the result is that value and the signedness of the expression, no message is added, and
  the fuel is enough from some bound on.
\<close>

theorem define_value:
  assumes "def_value env e v sg" "def_table defs env" "c_grouped e" "lexical e" "blanks b"
  shows "\<exists>k s'. lx_errs s' = lx_errs s \<and> (\<forall>n. FindStringValue defs (n + k) (Some (unparse e @ b)) s = Some (Some (Some (v, sg), None, s')))"
  by (rule find_value_run [OF assms])

lemma define_value_witness:
  "\<exists>k s'. lx_errs s' = [] \<and> (\<forall>n. FindStringValue [\<lparr>df_name = ''W'', df_paramList = [], df_value = ''0u'', df_scope = ''unit'', df_modName = [],
       df_bPreDefined = False, df_bHasParamList = False\<rparr>] (n + k) (Some ''10-5 - 3*!W '') \<lparr>lx_tk = eTkExprBegin, lx_str = [], lx_errs = [], lx_signed = False\<rparr>
     = Some (Some (Some (2, False), None, s')))"
proof -
  let ?d = "\<lparr>df_name = ''W'', df_paramList = [], df_value = ''0u'', df_scope = ''unit'', df_modName = [], df_bPreDefined = False, df_bHasParamList = False\<rparr>"
  let ?env = "[''W'' \<mapsto> XInt [] ''0'' ''u'']"
  let ?e = "XBin (XBin (XInt [] ''10'' []) [] eTkMinus (XInt [] ''5'' [])) '' '' eTkMinus (XBin (XInt '' '' ''3'' []) [] eTkAsterisk (XNot [] (XName [] ''W'')))"
  have num: "def_value ?env (XInt b ds sf) v sg" if "dec_value ds < 4294967290" "v = c_wrap CS32 (int (dec_value ds))" "sg = no_u sf" for b ds sf v sg
    unfolding that(2,3) by (rule def_value.int [OF that(1)])
  have "def_value ?env (XInt [] ''0'' ''u'') 0 False" by (rule num) (simp_all add: dec_value_def no_u_def)
  then have "def_value ?env (XNot [] (XName [] ''W'')) (c_bool ((0::int) = 0)) False" by (intro def_value.neg def_value.name) simp_all
  moreover have "def_value ?env (XInt '' '' ''3'' []) 3 True" "def_value ?env (XInt [] ''10'' []) 10 True" "def_value ?env (XInt [] ''5'' []) 5 True"
    by (rule num; simp add: dec_value_def no_u_def)+
  ultimately have v: "def_value ?env ?e 2 False"
    using def_value.bin [of ?env _ 10 True _ 5 True eTkMinus 5] def_value.bin [of ?env _ 5 True _ 3 False eTkMinus 2] def_value.bin [of ?env _ 3 True _ 1 False eTkAsterisk 3]
    by (simp add: c_sub_def c_mul_def)
  have t: "def_table [?d] ?env" by (auto simp: def_table_def FindStringInTable_def suffix_char_def is_digit_def)
  have l: "c_grouped ?e" "lexical ?e" by (auto simp: binary_def is_blank_def is_digit_def is_alpha_def is_name_def)
  show ?thesis using define_value [OF v t l, of "'' ''" "\<lparr>lx_tk = eTkExprBegin, lx_str = [], lx_errs = [], lx_signed = False\<rparr>"]
    by (simp add: is_blank_def)
qed

text \<open>
  C20: when the evaluation ends. If the lexer knows every character of the text and of the macros' texts, and the names in a macro's text
  have a lower rank than the macro, the evaluation has a result for all fuels from some bound on, whatever the text means.
\<close>

theorem define_ends:
  assumes "def_ranked defs rank" "clean (\<lambda>m. rank m < R) (Some txt)"
  shows "\<exists>k r. \<forall>n. FindStringValue defs (n + k) (Some txt) s = Some r"
proof -
  have "ends (\<lambda>n. FindStringValue defs n (Some txt) s)"
    unfolding FindStringValue_def ParseExpression_def
    by (rule ends_token [OF assms(2)], rule ends_nested [OF clean_later [OF assms(1)], where N = "plen (Some txt)"])
  then show ?thesis by (simp add: ends_def)
qed

lemma find_value_loops:
  shows "unknown_char c \<Longrightarrow> blanks b \<Longrightarrow> blanks b' \<Longrightarrow> FindStringValue defs n (Some (b @ CHR ''('' # b' @ c # r)) s = None"
    and "FindStringInTable defs name = Some t \<Longrightarrow> lexical (XName b name) \<Longrightarrow> follow r \<Longrightarrow>
      stuck_text name t \<Longrightarrow> FindStringValue defs n (Some (b @ name @ r)) s = None"
proof -
  assume u: "unknown_char c" "blanks b" "blanks b'"
  have "SkipSpace (b' @ c # r) = c # r" using u by (simp add: unknown_char_def skip_Cons)
  then show "FindStringValue defs n (Some (b @ CHR ''('' # b' @ c # r)) s = None"
    using paren_loop [OF u(1), of "[]" "s\<lparr>lx_tk := eTkLParen\<rparr>"]
    by (simp add: FindStringValue_def ParseExpression_def next_mark(1) [OF u(2)] def_nested_def)
next
  assume d: "FindStringInTable defs name = Some t" "lexical (XName b name)" "follow r" "stuck_text name t"
  have nx: "GetNextToken (Some (b @ name @ r)) s = Some (eTkIdent, Some r, s\<lparr>lx_tk := eTkIdent, lx_str := name\<rparr>)"
    if "blanks b" "follow r" for b r s using next_name [of b name r s] d(2) that by simp
  have "\<exists>tk pos s'. GetNextToken (Some t) s = Some (tk, Some pos, s') \<and> (lx_tk s = eTkIdent \<longrightarrow> lx_str s = name \<longrightarrow> lx_tk s' = eTkIdent \<and> lx_str s' = name)" for s
    using d(4) unfolding stuck_text_def
  proof (elim disjE exE conjE)
    fix c b' r'
    assume t: "t = b' @ c # r'" "blanks b'" "unknown_char c"
    from next_unknown [OF t(2,3), of r' s] obtain m where "GetNextToken (Some t) s = Some (eTkError, Some (c # r'), lx_error m s)" unfolding t(1) by blast
    then show ?thesis by (simp add: lx_error_def)
  next
    fix b' r'
    assume t: "t = b' @ name @ r'" "blanks b'" "follow r'"
    show ?thesis unfolding t(1) nx [OF t(2,3)] by simp
  qed
  from macro_loop [OF d(1) this] show "FindStringValue defs n (Some (b @ name @ r)) s = None"
    using nx [of b r s] d(2,3) by (simp add: FindStringValue_def ParseExpression_def def_nested_def)
qed

lemma define_ends_witness:
  "\<exists>k r. \<forall>n. FindStringValue [\<lparr>df_name = ''W'', df_paramList = [], df_value = ''2*V'', df_scope = ''unit'', df_modName = [],
       df_bPreDefined = False, df_bHasParamList = False\<rparr>] (n + k) (Some ''W-(1 '') \<lparr>lx_tk = eTkExprBegin, lx_str = [], lx_errs = [], lx_signed = False\<rparr>
     = Some r"
proof (rule define_ends)
  let ?rank = "\<lambda>n. if n = ''W'' then 1 else 0 :: nat"
  have step: "clean P (Some t)" if "GetNextToken (Some t) \<lparr>lx_tk = eTkExprBegin, lx_str = [], lx_errs = [], lx_signed = False\<rparr> = Some x"
    "fst x \<noteq> eTkError" "fst x = eTkIdent \<longrightarrow> P (lx_str (snd (snd x)))" "clean P (fst (snd x))" for P t x
    by (rule clean.token [of t _ "fst x" "fst (snd x)" "snd (snd x)"]) (use that in simp_all)
  note tokens = GetNextToken_def op_token_def SkipSpace_def is_blank_def is_alpha_def is_digit_def is_name_def next_is_def Let_def
  show "def_ranked [\<lparr>df_name = ''W'', df_paramList = [], df_value = ''2*V'', df_scope = ''unit'', df_modName = [],
       df_bPreDefined = False, df_bHasParamList = False\<rparr>] ?rank"
    unfolding def_ranked_def FindStringInTable_def by (auto split: if_splits) (rule step, simp add: tokens, simp, simp, simp add: clean.past)+
  show "clean (\<lambda>m. ?rank m < 2) (Some ''W-(1 '')"
    by (rule step, simp add: tokens, simp, simp, simp add: clean.past)+
qed

text \<open>
  C21: texts whose evaluation does not end. A left parenthesis before a character the lexer does not know, a macro whose text starts with such
  a character, and a macro whose text starts with its own name: in each case there is no result for any fuel, the recursion of ParseExpression
  has no bound.
\<close>

theorem define_diverges:
  assumes "def_loops defs txt"
  shows "FindStringValue defs n (Some txt) s = None"
  using assms unfolding def_loops_def by (elim disjE exE conjE) (simp_all only: find_value_loops)

lemma define_diverges_witness:
  "\<forall>n. FindStringValue [] n (Some ''(@1)'') \<lparr>lx_tk = eTkExprBegin, lx_str = [], lx_errs = [], lx_signed = False\<rparr> = None"
proof (intro allI define_diverges)
  have "unknown_char (CHR ''@'')" by (simp add: unknown_char_def op_token_def is_name_def is_alpha_def is_digit_def is_blank_def)
  then have "''(@1)'' = [] @ CHR ''('' # [] @ CHR ''@'' # ''1)'' \<and> blanks [] \<and> blanks [] \<and> unknown_char (CHR ''@'')" by simp
  then show "def_loops [] ''(@1)''" unfolding def_loops_def by blast
qed

text \<open>
  The value of a number. A decimal number is exact up to 4294967289 and a hexadecimal one up to 0xffffffef, reduced to \<^verbatim>\<open>int\<close>; from
  4294967290 and from 0xfffffff0 on, where the value would still fit in 32 bits, it is an error with the value 0.
\<close>

theorem literal_value:
  assumes "lx_tk s = eTkNumInt \<and> lx_str s \<noteq> [] \<and> list_all is_digit (lx_str s) \<and> v = dec_value (lx_str s) \<and> bound = 4294967290 \<or>
    lx_tk s = eTkNumHex \<and> lx_str s = ''0x'' @ hs \<and> list_all is_xdigit hs \<and> v = hex_value hs \<and> bound = 4294967280"
  shows "GetTokenValue s = Some (if v < bound then (c_wrap CS32 (int v), s) else (0, lx_error ''integer too large'' s))"
  using assms by (elim disjE) (clarsimp simp: GetTokenValue_def token_value_def int_digits_value hex_digits_value [simplified])+

lemma literal_value_witness:
  "GetTokenValue \<lparr>lx_tk = eTkNumInt, lx_str = ''4294967289'', lx_errs = []\<rparr> = Some (- 7, \<lparr>lx_tk = eTkNumInt, lx_str = ''4294967289'', lx_errs = []\<rparr>) \<and>
    GetTokenValue \<lparr>lx_tk = eTkNumHex, lx_str = ''0xFfffffF0'', lx_errs = []\<rparr>
      = Some (0, \<lparr>lx_tk = eTkNumHex, lx_str = ''0xFfffffF0'', lx_errs = [''integer too large'']\<rparr>)"
  using literal_value [of "\<lparr>lx_tk = eTkNumInt, lx_str = ''4294967289'', lx_errs = []\<rparr>" 4294967289 4294967290 "[]"]
    literal_value [of "\<lparr>lx_tk = eTkNumHex, lx_str = ''0xFfffffF0'', lx_errs = []\<rparr>" 4294967280 4294967280 "''FfffffF0''"]
  by (simp add: dec_value_def hex_value_def is_digit_def is_xdigit_def hex_digit_def lx_error_def)

end
