(* ===== verification/PreExpr.thy ===== *)
theory PreExpr
  imports ExprEval
begin

text \<open>
  The \<^verbatim>\<open>#if\<close> expressions of the preprocessors: \<^verbatim>\<open>ParseExpression\<close> of the two classes \<^verbatim>\<open>CPreProcess\<close>, in \<^verbatim>\<open>src/htl/PreProcess.cpp\<close> (the tool
  \<open>Htl\<close>) and in \<^verbatim>\<open>src/Htfe/HtfePreProcess.cpp\<close> (\<open>Htfe\<close>). The two are copies that differ in a message and in a flag for messages; a definition
  named \<^verbatim>\<open>htfe_\<close> is the second copy. They share the lexer's and the stacks' definitions with \<open>ExprEval\<close>.
\<close>

datatype tool = Htl | Htfe

section \<open>Macros\<close>

text \<open>A parameter has a name and the index of its argument.\<close>

record cmacro =
  mc_expansion :: string
  mc_params :: "(string \<times> nat) list"
  mc_bIsNew :: bool
  mc_bParenReqd :: bool
  mc_bIsFromIncludeFile :: bool

type_synonym macro_tbl = "string \<Rightarrow> cmacro option"

section \<open>Tokens\<close>

text \<open>GetNextToken; \<open>b\<close> asks for a message. On an error the last token stays in the lexer.\<close>

definition pp_GetNextToken :: "bool \<Rightarrow> cursor \<Rightarrow> lexer \<Rightarrow> (etoken \<times> cursor \<times> lexer) option" where
  "pp_GetNextToken b pos s = (case pos of None \<Rightarrow> None | Some txt \<Rightarrow> Some (
     let ret = (\<lambda>tk p. (tk, Some p, s\<lparr>lx_tk := tk\<rparr>)) in
     case SkipSpace txt of [] \<Rightarrow> (eTkExprEnd, None, s\<lparr>lx_tk := eTkExprEnd\<rparr>)
     | c # p \<Rightarrow> (case op_token c p of Some (tk, q) \<Rightarrow> ret tk q
       | None \<Rightarrow>
         if c = CHR ''='' then
           (if next_is (CHR ''='') p then ret eTkEqualEqual (tl p)
            else (eTkError, if p = [] then None else Some (tl p), s))
         else if is_alpha c \<or> c = CHR ''_'' then
           (eTkIdent, Some (dropWhile is_name p), s\<lparr>lx_tk := eTkIdent, lx_str := c # takeWhile is_name p\<rparr>)
         else if is_digit c then
           (if c = CHR ''0'' \<and> next_is (CHR ''x'') p then
              (eTkNumHex, Some (dropWhile is_xdigit (tl p)), s\<lparr>lx_tk := eTkNumHex, lx_str := ''0x'' @ takeWhile is_xdigit (tl p)\<rparr>)
            else (eTkNumInt, Some (dropWhile is_digit p), s\<lparr>lx_tk := eTkNumInt, lx_str := c # takeWhile is_digit p\<rparr>))
         else (eTkError, Some (c # p), if b then lx_error ''unknown preprocess token type'' s else s))))"

definition pp_GetTokenValue :: "tool \<Rightarrow> lexer \<Rightarrow> (int \<times> lexer) option" where
  "pp_GetTokenValue h s = token_value (case h of Htl \<Rightarrow> ''integer too large'' | Htfe \<Rightarrow> ''integer too large, ('' @ lx_str s @ '')'') s"

section \<open>Evaluation\<close>

fun pp_GetTokenPrec :: "etoken \<Rightarrow> nat option" where
  "pp_GetTokenPrec eTkUnaryPlus = Some 3" | "pp_GetTokenPrec eTkUnaryMinus = Some 3" | "pp_GetTokenPrec eTkTilda = Some 3" | "pp_GetTokenPrec eTkBang = Some 3"
| "pp_GetTokenPrec eTkAsterisk = Some 4" | "pp_GetTokenPrec eTkSlash = Some 4" | "pp_GetTokenPrec eTkPercent = Some 4"
| "pp_GetTokenPrec eTkPlus = Some 5" | "pp_GetTokenPrec eTkMinus = Some 5"
| "pp_GetTokenPrec eTkLessLess = Some 6" | "pp_GetTokenPrec eTkGreaterGreater = Some 6"
| "pp_GetTokenPrec eTkLess = Some 7" | "pp_GetTokenPrec eTkLessEqual = Some 7" | "pp_GetTokenPrec eTkGreater = Some 7" | "pp_GetTokenPrec eTkGreaterEqual = Some 7"
| "pp_GetTokenPrec eTkEqualEqual = Some 8" | "pp_GetTokenPrec eTkBangEqual = Some 8"
| "pp_GetTokenPrec eTkAmpersand = Some 9" | "pp_GetTokenPrec eTkCarot = Some 10" | "pp_GetTokenPrec eTkVbar = Some 11"
| "pp_GetTokenPrec eTkAmpersandAmpersand = Some 12" | "pp_GetTokenPrec eTkVbarVbar = Some 13"
| "pp_GetTokenPrec eTkExprBegin = Some 17" | "pp_GetTokenPrec eTkExprEnd = Some 18"
| "pp_GetTokenPrec _ = None"

definition pp_apply :: "etoken \<Rightarrow> int list \<Rightarrow> int list option" where
  "pp_apply stackTk os =
     (if stackTk \<in> {eTkUnaryPlus, eTkUnaryMinus, eTkTilda, eTkBang} then
        (case os of op1 # os \<Rightarrow> map_option (\<lambda>rslt. rslt # os) (un_value stackTk op1) | _ \<Rightarrow> None)
      else
        (case os of op2 # op1 # os \<Rightarrow> map_option (\<lambda>rslt. rslt # os) (bin_value stackTk op1 op2) | _ \<Rightarrow> None))"

text \<open>The test for equal precedences is commented out in the code: an operator is never popped by one of its own precedence.\<close>

definition pp_EvaluateExpression :: "etoken \<Rightarrow> int list \<Rightarrow> etoken list \<Rightarrow> (int list \<times> etoken list) option" where
  "pp_EvaluateExpression = eval_stacks pp_GetTokenPrec (\<lambda>tk. False) pp_apply"

text \<open>
  ParseExpression returns its value, or \<open>None\<close> for \<^verbatim>\<open>false\<close>, with the position and the lexer it leaves. It is split where the loop turns from an
  operand to an operator; \<open>n\<close> bounds the nesting and the number of operands. A call without its last argument has \<^verbatim>\<open>bErrMsg\<close> true.
\<close>

type_synonym pp_result = "(int option \<times> cursor \<times> lexer) option option"

type_synonym pp_parser = "bool \<Rightarrow> cursor \<Rightarrow> lexer \<Rightarrow> int list \<Rightarrow> etoken list \<Rightarrow> pp_result"

definition pp_fail :: "bool \<Rightarrow> string \<Rightarrow> cursor \<Rightarrow> lexer \<Rightarrow> pp_result" where
  "pp_fail b msg pos s = Some (Some (None, pos, if b then lx_error msg s else s))"

definition pp_bang :: "cursor \<Rightarrow> lexer \<Rightarrow> int list \<Rightarrow> etoken list \<Rightarrow> (etoken \<times> cursor \<times> lexer \<times> int list \<times> etoken list) option" where
  "pp_bang pos s os ops =
     (if lx_tk s = eTkBang then do {
        (os, ops) \<leftarrow> pp_EvaluateExpression eTkBang os ops;
        (tk, pos, s) \<leftarrow> pp_GetNextToken True pos s;
        Some (tk, pos, s, os, ops)
      } else Some (lx_tk s, pos, s, os, ops))"

definition pp_nested :: "pp_parser \<Rightarrow> bool \<Rightarrow> cursor \<Rightarrow> lexer \<Rightarrow> pp_result" where
  "pp_nested rec b pos s = (case pos of None \<Rightarrow> Some None
     | Some txt \<Rightarrow> rec b (Some (SkipSpace txt)) s [] [eTkExprBegin])"

definition pp_operator :: "pp_parser \<Rightarrow> pp_parser" where
  "pp_operator rec b pos s os ops =
     (case pp_GetNextToken True pos s of None \<Rightarrow> Some None | Some (tk, pos, s) \<Rightarrow>
      if tk \<in> {eTkExprEnd, eTkRParen} then
        (case pp_EvaluateExpression eTkExprEnd os ops of
           Some ([v], []) \<Rightarrow> Some (Some (Some v, pos, s))
         | _ \<Rightarrow> Some None)
      else if binary tk then
        (case pp_EvaluateExpression tk os ops of None \<Rightarrow> Some None | Some (os, ops) \<Rightarrow>
         case pp_GetNextToken True pos s of None \<Rightarrow> Some None | Some (_, pos, s) \<Rightarrow> rec b pos s os ops)
      else pp_fail b ''Unknown operator type'' pos s)"

text \<open>The \<^verbatim>\<open>defined\<close> test, from the token behind it on.\<close>

definition pp_defined :: "macro_tbl \<Rightarrow> cursor \<Rightarrow> lexer \<Rightarrow> pp_result" where
  "pp_defined macs pos s =
     (case pp_GetNextToken True pos s of None \<Rightarrow> Some None | Some (tk, pos, s) \<Rightarrow>
      if tk \<noteq> eTkLParen then pp_fail True (''expected '' @ quoted ''('') pos s
      else (case pp_GetNextToken True pos s of None \<Rightarrow> Some None | Some (tk, pos, s) \<Rightarrow>
        if tk \<noteq> eTkIdent then pp_fail True ''expected an identifier'' pos s
        else (case pp_GetNextToken True pos s of None \<Rightarrow> Some None | Some (tk, pos, s) \<Rightarrow>
          if tk \<noteq> eTkRParen then pp_fail True (''expected a '' @ quoted '')'') pos s
          else Some (Some (Some (c_bool (macs (lx_str s) \<noteq> None)), pos, s)))))"

definition pp_step :: "tool \<Rightarrow> macro_tbl \<Rightarrow> pp_parser \<Rightarrow> pp_parser" where
  "pp_step h macs rec b pos s os ops =
     (case pp_bang pos s os ops of None \<Rightarrow> Some None | Some (tk, pos, s, os, ops) \<Rightarrow>
      if tk = eTkError then Some (Some (None, pos, s))
      else if tk = eTkNumInt \<or> tk = eTkNumHex then
        (case pp_GetTokenValue h s of None \<Rightarrow> Some None | Some (v, s) \<Rightarrow> pp_operator rec b pos s (v # os) ops)
      else if lx_tk s = eTkIdent then
        (if lx_str s = ''defined'' then
           after (pp_defined macs pos s) (\<lambda>(r, pos, s). case r of None \<Rightarrow> Some (Some (None, pos, s)) | Some v \<Rightarrow> pp_operator rec b pos s (v # os) ops)
         else (case macs (lx_str s) of
           None \<Rightarrow> pp_operator rec b pos s (0 # os) ops
         | Some pMacro \<Rightarrow> (case pp_GetNextToken True (Some (mc_expansion pMacro)) s of None \<Rightarrow> Some None | Some (_, pValueStr, s) \<Rightarrow>
             after (pp_nested rec True pValueStr s) (\<lambda>(r, _, s). case r of None \<Rightarrow> Some (Some (None, pos, s))
               | Some v \<Rightarrow> pp_operator rec b pos s (v # os) ops))))
      else if lx_tk s = eTkLParen then
        (case pp_GetNextToken True pos s of None \<Rightarrow> Some None | Some (_, pos, s) \<Rightarrow>
           after (pp_nested rec True pos s) (\<lambda>(r, pos, s). case r of None \<Rightarrow> Some (Some (None, pos, s))
             | Some v \<Rightarrow>
                 if lx_tk s \<noteq> eTkRParen then pp_fail True (''expected '' @ quoted '')'') pos s
                 else pp_operator rec b pos s (v # os) ops))
      else pp_fail b ''expected an operand'' pos s)"

primrec pp_operand :: "tool \<Rightarrow> macro_tbl \<Rightarrow> nat \<Rightarrow> pp_parser" where
  "pp_operand h macs 0 = (\<lambda>b pos s os ops. None)"
| "pp_operand h macs (Suc n) = pp_step h macs (pp_operand h macs n)"

definition pp_ParseExpression :: "tool \<Rightarrow> macro_tbl \<Rightarrow> nat \<Rightarrow> bool \<Rightarrow> cursor \<Rightarrow> lexer \<Rightarrow> pp_result" where
  "pp_ParseExpression h macs n = pp_nested (pp_operand h macs n)"

text \<open>PreProcessIf: whether the lines are skipped; not on an error. The text behind the first return is not reached.\<close>

definition PreProcessIf :: "tool \<Rightarrow> macro_tbl \<Rightarrow> nat \<Rightarrow> cursor \<Rightarrow> lexer \<Rightarrow> (bool \<times> lexer) option option" where
  "PreProcessIf h macs n pos s =
     (case pp_GetNextToken True pos s of None \<Rightarrow> Some None | Some (_, pos, s) \<Rightarrow>
        after (pp_ParseExpression h macs n True pos s) (\<lambda>(r, _, s). Some (Some (case r of None \<Rightarrow> False | Some rtnValue \<Rightarrow> rtnValue = 0, s))))"

text \<open>The second copy.\<close>

definition htfe_GetNextToken :: "cursor \<Rightarrow> lexer \<Rightarrow> (etoken \<times> cursor \<times> lexer) option" where
  "htfe_GetNextToken = pp_GetNextToken True"

definition htfe_GetTokenValue :: "lexer \<Rightarrow> (int \<times> lexer) option" where
  "htfe_GetTokenValue = pp_GetTokenValue Htfe"

definition htfe_GetTokenPrec :: "etoken \<Rightarrow> nat option" where
  "htfe_GetTokenPrec = pp_GetTokenPrec"

definition htfe_EvaluateExpression :: "etoken \<Rightarrow> int list \<Rightarrow> etoken list \<Rightarrow> (int list \<times> etoken list) option" where
  "htfe_EvaluateExpression = pp_EvaluateExpression"

definition htfe_ParseExpression :: "macro_tbl \<Rightarrow> nat \<Rightarrow> cursor \<Rightarrow> lexer \<Rightarrow> pp_result" where
  "htfe_ParseExpression macs n = pp_ParseExpression Htfe macs n True"

declare pp_step_def [simp]

section \<open>Reading the tokens of an expression\<close>

interpretation pp_eval: stack_eval pp_GetTokenPrec "\<lambda>tk. False" pp_apply "\<lambda>p. False"
  rewrites "stack_eval.eval pp_GetTokenPrec (\<lambda>tk. False) pp_apply = pp_EvaluateExpression"
proof -
  show c: "stack_eval pp_GetTokenPrec (\<lambda>tk. False) pp_apply (\<lambda>p. False)"
    by unfold_locales (auto simp: binary_def pp_apply_def)
  show "stack_eval.eval pp_GetTokenPrec (\<lambda>tk. False) pp_apply = pp_EvaluateExpression"
    unfolding stack_eval.eval_def [OF c] pp_EvaluateExpression_def ..
qed

abbreviation right_grouped :: "expr \<Rightarrow> bool" where
  "right_grouped \<equiv> grouped (\<lambda>p. False)"

lemma pp_next_end: "blanks b \<Longrightarrow> pp_GetNextToken m (Some b) s = Some (eTkExprEnd, None, s\<lparr>lx_tk := eTkExprEnd\<rparr>)"
  by (simp add: pp_GetNextToken_def Let_def)

lemma pp_next_mark:
  assumes "blanks b"
  shows "pp_GetNextToken m (Some (b @ CHR ''('' # r)) s = Some (eTkLParen, Some r, s\<lparr>lx_tk := eTkLParen\<rparr>)"
    "pp_GetNextToken m (Some (b @ CHR '')'' # r)) s = Some (eTkRParen, Some r, s\<lparr>lx_tk := eTkRParen\<rparr>)"
  using assms by (simp_all add: pp_GetNextToken_def Let_def skip_Cons is_blank_def op_token_other op_token_def)

lemma pp_next_bang:
  "blanks b \<Longrightarrow> op_follow r \<Longrightarrow> pp_GetNextToken m (Some (b @ CHR ''!'' # r)) s = Some (eTkBang, Some r, s\<lparr>lx_tk := eTkBang\<rparr>)"
  by (auto simp: pp_GetNextToken_def Let_def skip_Cons is_blank_def op_token_def next_is_def op_follow_def)

lemma pp_next_op:
  assumes "blanks b" "binary op" "op_follow r"
  shows "pp_GetNextToken m (Some (b @ spell op @ r)) s = Some (op, Some r, s\<lparr>lx_tk := op\<rparr>)"
proof (cases "op = eTkEqualEqual")
  case True
  then show ?thesis using assms(1) by (simp add: pp_GetNextToken_def Let_def skip_Cons is_blank_def op_token_other next_is_def)
next
  case False
  obtain c cs where c: "spell op = c # cs" "\<not> is_blank c" using spell_Cons [OF assms(2)] by blast
  then show ?thesis using op_token_spell [OF assms(2) False assms(3)] assms(1) by (simp add: pp_GetNextToken_def Let_def skip_Cons)
qed

lemma pp_next_name:
  assumes "blanks b" "n \<noteq> []" "is_alpha (hd n) \<or> hd n = CHR ''_''" "list_all is_name n" "follow r"
  shows "pp_GetNextToken m (Some (b @ n @ r)) s = Some (eTkIdent, Some r, s\<lparr>lx_tk := eTkIdent, lx_str := n\<rparr>)"
proof -
  obtain c cs where n: "n = c # cs" using assms(2) by (cases n) simp_all
  note st = name_start [of c]
  have "takeWhile is_name (cs @ r) = cs" "dropWhile is_name (cs @ r) = r"
    using span_run [of is_name cs r] assms(4,5) by (simp_all add: n follow_def)
  then show ?thesis using st assms(1,3) by (simp add: pp_GetNextToken_def Let_def n skip_Cons)
qed

text \<open>A number; no suffix is read.\<close>

lemma follow_digits: "follow r \<Longrightarrow> r = [] \<or> \<not> is_xdigit (hd r) \<and> \<not> is_digit (hd r)"
  using follow_suffix [of "[]" r] by simp

lemma pp_next_int:
  assumes "blanks b" "ds \<noteq> []" "list_all is_digit ds" "follow r"
  shows "pp_GetNextToken m (Some (b @ ds @ r)) s = Some (eTkNumInt, Some r, s\<lparr>lx_tk := eTkNumInt, lx_str := ds\<rparr>)"
proof -
  obtain c cs where n: "ds = c # cs" using assms(2) by (cases ds) simp_all
  have c: "is_digit c" "list_all is_digit cs" using assms(3) by (simp_all add: n)
  have "takeWhile is_digit (cs @ r) = cs" "dropWhile is_digit (cs @ r) = r"
    using span_run [of is_digit cs r] c(2) follow_digits [OF assms(4)] by auto
  moreover have "\<not> next_is (CHR ''x'') (cs @ r)"
  proof (cases cs)
    case Nil
    have "r \<noteq> [] \<Longrightarrow> hd r \<noteq> CHR ''x''" using assms(4) by (auto simp: follow_def is_name_def is_alpha_def)
    then show ?thesis using Nil by (auto simp: next_is_def)
  qed (use c(2) in \<open>auto simp: next_is_def is_digit_def\<close>)
  ultimately show ?thesis using assms(1) digit_start [OF c(1)] c(1) by (simp add: pp_GetNextToken_def Let_def n skip_Cons)
qed

lemma pp_next_hex:
  assumes "blanks b" "list_all is_xdigit hs" "follow r"
  shows "pp_GetNextToken m (Some (b @ ''0x'' @ hs @ r)) s = Some (eTkNumHex, Some r, s\<lparr>lx_tk := eTkNumHex, lx_str := ''0x'' @ hs\<rparr>)"
proof -
  have "takeWhile is_xdigit (hs @ r) = hs" "dropWhile is_xdigit (hs @ r) = r"
    using span_run [of is_xdigit hs r] assms(2) follow_digits [OF assms(3)] by auto
  moreover have z: "is_digit (CHR ''0'')" by (simp add: is_digit_def)
  ultimately show ?thesis using assms(1) digit_start [OF z] by (simp add: pp_GetNextToken_def Let_def skip_Cons z next_is_def)
qed

lemma pp_next_skip [simp]: "pp_GetNextToken m (Some (SkipSpace p)) s = pp_GetNextToken m (Some p) s"
  by (simp add: pp_GetNextToken_def)

section \<open>The value of an expression\<close>

text \<open>
  The reference: \<open>env\<close> gives the expressions of macros whose text is one. A name without a macro is 0.
\<close>

inductive pp_value :: "macro_tbl \<Rightarrow> (string \<Rightarrow> expr option) \<Rightarrow> expr \<Rightarrow> int \<Rightarrow> bool" for macs env where
  int: "dec_value ds < 4294967290 \<Longrightarrow> pp_value macs env (XInt b ds []) (c_wrap CS32 (int (dec_value ds)))"
| hex: "hex_value hs < 4294967280 \<Longrightarrow> pp_value macs env (XHex b hs []) (c_wrap CS32 (int (hex_value hs)))"
| undefined: "n \<noteq> ''defined'' \<Longrightarrow> macs n = None \<Longrightarrow> pp_value macs env (XName b n) 0"
| name: "n \<noteq> ''defined'' \<Longrightarrow> env n = Some e \<Longrightarrow> pp_value macs env e v \<Longrightarrow> pp_value macs env (XName b n) v"
| defined: "pp_value macs env (XDefined b b1 b2 n b3) (c_bool (macs n \<noteq> None))"
| paren: "pp_value macs env e v \<Longrightarrow> pp_value macs env (XParen b e b') v"
| neg: "pp_value macs env e v \<Longrightarrow> pp_value macs env (XNot b e) (c_bool (v = 0))"
| bin: "pp_value macs env l a \<Longrightarrow> pp_value macs env r c \<Longrightarrow> bin_value op a c = Some v \<Longrightarrow> pp_value macs env (XBin l b op r) v"

definition pp_table :: "macro_tbl \<Rightarrow> (string \<Rightarrow> expr option) \<Rightarrow> bool" where
  "pp_table macs env \<longleftrightarrow> (\<forall>n e. env n = Some e \<longrightarrow> right_grouped e \<and> lexical e \<and>
     (\<exists>b m. blanks b \<and> macs n = Some m \<and> mc_expansion m = unparse e @ b))"

text \<open>\<open>pp_reads\<close>: from the first token of \<open>e\<close> on the loop reaches the token behind \<open>e\<close> with stacks that stand for its value.\<close>

definition pp_reads :: "tool \<Rightarrow> macro_tbl \<Rightarrow> expr \<Rightarrow> int \<Rightarrow> string \<Rightarrow> lexer \<Rightarrow> int list \<Rightarrow> etoken list \<Rightarrow> bool" where
  "pp_reads h macs e v r s os ops \<longleftrightarrow> (\<exists>tk pos s1 k j s2 os' ops'.
     (\<forall>m. pp_GetNextToken m (Some (unparse e @ r)) s = Some (tk, Some pos, s1)) \<and> lx_tk s1 = tk \<and> (xprec e = 0 \<longrightarrow> tk \<noteq> eTkBang) \<and> tk \<noteq> eTkError \<and> 0 < k \<and>
     (\<forall>n m p. p = Some pos \<or> p = Some (SkipSpace pos) \<longrightarrow>
        pp_operand h macs (n + k) m p s1 os ops = pp_operator (pp_operand h macs (n + j)) m (Some r) s2 os' ops') \<and>
     lx_errs s2 = lx_errs s \<and> pp_eval.stands os' ops' v (xprec e) os ops)"

lemma pp_readsI:
  assumes "\<And>m. pp_GetNextToken m (Some (unparse e @ r)) s = Some (tk, Some pos, s1)" "lx_tk s1 = tk" "xprec e = 0 \<Longrightarrow> tk \<noteq> eTkBang" "tk \<noteq> eTkError" "0 < k"
    and "\<And>n m p. p = Some pos \<or> p = Some (SkipSpace pos) \<Longrightarrow>
      pp_operand h macs (n + k) m p s1 os ops = pp_operator (pp_operand h macs (n + j)) m (Some r) s2 os' ops'"
    and "lx_errs s2 = lx_errs s" "pp_eval.stands os' ops' v (xprec e) os ops"
  shows "pp_reads h macs e v r s os ops"
  unfolding pp_reads_def
  by (intro exI [of _ tk] exI [of _ pos] exI [of _ s1] exI [of _ k] exI [of _ j] exI [of _ s2] exI [of _ os'] exI [of _ ops'] conjI allI impI;
      (rule assms; assumption?))

lemma pp_readsE:
  assumes "pp_reads h macs e v r s os ops"
  obtains tk pos s1 k j s2 os' ops' where "\<And>m. pp_GetNextToken m (Some (unparse e @ r)) s = Some (tk, Some pos, s1)" "lx_tk s1 = tk"
    "xprec e = 0 \<longrightarrow> tk \<noteq> eTkBang" "tk \<noteq> eTkError" "0 < k"
    "\<And>n m p. p = Some pos \<or> p = Some (SkipSpace pos) \<Longrightarrow>
      pp_operand h macs (n + k) m p s1 os ops = pp_operator (pp_operand h macs (n + j)) m (Some r) s2 os' ops'"
    "lx_errs s2 = lx_errs s" "pp_eval.stands os' ops' v (xprec e) os ops"
  using assms unfolding pp_reads_def by (elim exE conjE) (rule that; iprover)

lemma pp_next_at: "p = Some pos \<or> p = Some (SkipSpace pos) \<Longrightarrow> pp_GetNextToken m p s = pp_GetNextToken m (Some pos) s"
  by auto

lemma pp_operator_at: "p = Some pos \<or> p = Some (SkipSpace pos) \<Longrightarrow> pp_operator rec m p s os ops = pp_operator rec m (Some pos) s os ops"
  unfolding pp_operator_def by (simp only: pp_next_at)

lemma pp_nested_run:
  assumes reads: "pp_reads h macs e v r s [] [eTkExprBegin]" and le: "xprec e \<le> 14"
    and t: "\<And>s m. pp_GetNextToken m (Some r) s = Some (t, p, s\<lparr>lx_tk := t\<rparr>)" "t \<in> {eTkExprEnd, eTkRParen}"
  obtains tk pos s1 k s3 where "\<And>m. pp_GetNextToken m (Some (unparse e @ r)) s = Some (tk, Some pos, s1)" "lx_errs s3 = lx_errs s" "lx_tk s3 = t"
    "\<And>n m. pp_nested (pp_operand h macs (n + k)) m (Some pos) s1 = Some (Some (Some v, p, s3))"
proof (rule pp_readsE [OF reads])
  fix tk pos s1 k j s2 os' ops'
  assume R: "\<And>m. pp_GetNextToken m (Some (unparse e @ r)) s = Some (tk, Some pos, s1)"
    "\<And>n m p. p = Some pos \<or> p = Some (SkipSpace pos) \<Longrightarrow>
      pp_operand h macs (n + k) m p s1 [] [eTkExprBegin] = pp_operator (pp_operand h macs (n + j)) m (Some r) s2 os' ops'"
    "lx_errs s2 = lx_errs s" "pp_eval.stands os' ops' v (xprec e) [] [eTkExprBegin]"
  have "pp_EvaluateExpression eTkExprEnd os' ops' = Some ([v], [])" by (rule pp_eval.stands_end [OF R(4)]) (use le in linarith)
  then have "pp_nested (pp_operand h macs (n + k)) m (Some pos) s1 = Some (Some (Some v, p, s2\<lparr>lx_tk := t\<rparr>))" for n m
    using t(2) by (simp add: pp_nested_def R(2) pp_operator_def t(1))
  then show thesis using R(1,3) by (intro that [of tk pos s1 "s2\<lparr>lx_tk := t\<rparr>" k]) simp_all
qed

lemma pp_bang_primary: "lx_tk s = tk \<Longrightarrow> tk \<noteq> eTkBang \<Longrightarrow> pp_bang pos s os ops = Some (tk, pos, s, os, ops)"
  by (simp add: pp_bang_def)

text \<open>A primary read as one token, and one that is read by \<open>pp_defined\<close> or by a call of ParseExpression.\<close>

lemma pp_reads_number:
  assumes nx: "\<And>m. pp_GetNextToken m (Some (unparse e @ r)) s = Some (tk, Some r, s1)" "lx_tk s1 = tk" "lx_errs s1 = lx_errs s"
    and tk: "tk = eTkNumInt \<or> tk = eTkNumHex" and v: "pp_GetTokenValue h s1 = Some (v, s1)" and e: "xprec e = 0"
  shows "pp_reads h macs e v r s os ops"
proof (rule pp_readsI [of _ _ _ tk r s1 1 _ _ _ _ 0 s1 "v # os" ops])
  show "pp_operand h macs (n + 1) m p s1 os ops = pp_operator (pp_operand h macs (n + 0)) m (Some r) s1 (v # os) ops"
    if "p = Some r \<or> p = Some (SkipSpace r)" for n m p
    using tk nx(2) by (auto simp: pp_bang_def v pp_operator_at [OF that])
  show "pp_eval.stands (v # os) ops v (xprec e) os ops" by (simp add: e pp_eval.stands_prim)
qed (use assms in auto)

lemma pp_reads_paren:
  assumes reads: "\<And>s. pp_reads h macs e v (b' @ CHR '')'' # r) s [] [eTkExprBegin]" and b: "blanks b" "blanks b'" and le: "xprec e \<le> 14"
  shows "pp_reads h macs (XParen b e b') v r s os ops"
proof -
  obtain s1 where s1: "s1 = s\<lparr>lx_tk := eTkLParen\<rparr>" by blast
  have tk1: "lx_tk s1 = eTkLParen" by (simp add: s1)
  obtain tk pos s2 k s3 where
    R: "\<And>m. pp_GetNextToken m (Some (unparse e @ b' @ CHR '')'' # r)) s1 = Some (tk, Some pos, s2)" "lx_errs s3 = lx_errs s1" "lx_tk s3 = eTkRParen"
      "\<And>n m. pp_nested (pp_operand h macs (n + k)) m (Some pos) s2 = Some (Some (Some v, Some r, s3))"
    by (rule pp_nested_run [OF reads [of s1] le pp_next_mark(2) [OF b(2)]]) (simp, rule that)
  show ?thesis
  proof (rule pp_readsI [of _ _ _ eTkLParen "unparse e @ b' @ CHR '')'' # r" s1 "Suc k" _ _ _ _ k s3 "v # os" ops])
    show "pp_operand h macs (n + Suc k) m p s1 os ops = pp_operator (pp_operand h macs (n + k)) m (Some r) s3 (v # os) ops"
      if "p = Some (unparse e @ b' @ CHR '')'' # r) \<or> p = Some (SkipSpace (unparse e @ b' @ CHR '')'' # r))" for n m p
      using R by (simp add: pp_bang_primary [OF tk1] pp_next_at [OF that] tk1)
    show "pp_eval.stands (v # os) ops v (xprec (XParen b e b')) os ops" by (simp add: pp_eval.stands_prim)
  qed (use b R(2) in \<open>simp_all add: pp_next_mark(1) s1\<close>)
qed

text \<open>A name whose operand does not depend on a nested call: an undefined name and the \<^verbatim>\<open>defined\<close> test.\<close>

lemma pp_reads_name0:
  assumes nx: "\<And>m. pp_GetNextToken m (Some (unparse e @ r)) s = Some (eTkIdent, Some pos, s1)" and s1: "s1 = s\<lparr>lx_tk := eTkIdent, lx_str := n\<rparr>"
    and e: "xprec e = 0" and errs: "lx_errs s2 = lx_errs s"
    and v: "if n = ''defined'' then \<forall>p. p = Some pos \<or> p = Some (SkipSpace pos) \<longrightarrow> pp_defined macs p s1 = Some (Some (Some v, Some r, s2))
        else macs n = None \<and> v = 0 \<and> pos = r \<and> s2 = s1"
  shows "pp_reads h macs e v r s os ops"
proof (rule pp_readsI [OF nx, of 1 _ _ _ _ 0 s2 "v # os" ops])
  have tk1: "lx_tk s1 = eTkIdent" "lx_str s1 = n" by (simp_all add: s1)
  show "pp_operand h macs (n + 1) m p s1 os ops = pp_operator (pp_operand h macs (n + 0)) m (Some r) s2 (v # os) ops"
    if p: "p = Some pos \<or> p = Some (SkipSpace pos)" for n m p
  proof -
    have "pos = r \<Longrightarrow> pp_operator rec m p s os ops = pp_operator rec m (Some r) s os ops" for rec m s os ops using pp_operator_at [OF p] by simp
    then show ?thesis using v p by (auto simp: pp_bang_primary [OF tk1(1)] tk1 split: if_splits)
  qed
  show "pp_eval.stands (v # os) ops v (xprec e) os ops" by (simp add: e pp_eval.stands_prim)
qed (use assms in \<open>simp_all add: s1\<close>)

lemma pp_defined_at: "p = Some pos \<or> p = Some (SkipSpace pos) \<Longrightarrow> pp_defined macs p s = pp_defined macs (Some pos) s"
  unfolding pp_defined_def by (simp only: pp_next_at)

lemma pp_reads_defined:
  assumes "lexical (XDefined b b1 b2 n b3)"
  shows "pp_reads h macs (XDefined b b1 b2 n b3) (c_bool (macs n \<noteq> None)) r s os ops"
proof -
  let ?t = "b1 @ ''('' @ b2 @ n @ b3 @ '')'' @ r"
  obtain s1 where s1: "s1 = s\<lparr>lx_tk := eTkIdent, lx_str := ''defined''\<rparr>" by blast
  have f: "follow (b1 @ CHR ''('' # q)" "follow (b3 @ CHR '')'' # q)" for q
    using assms by (auto intro!: follow_blanks simp: is_name_def is_alpha_def is_digit_def)
  have d: "list_all is_name ''defined''" "is_alpha (CHR ''d'')" by (simp_all add: is_name_def is_alpha_def)
  have nx: "pp_GetNextToken m (Some (unparse (XDefined b b1 b2 n b3) @ r)) s = Some (eTkIdent, Some ?t, s1)" for m
    using pp_next_name [of b "''defined''" ?t m s] assms f(1) d by (simp add: s1)
  have "\<exists>s2. lx_errs s2 = lx_errs s \<and> pp_defined macs (Some ?t) s1 = Some (Some (Some (c_bool (macs n \<noteq> None)), Some r, s2))"
    using assms pp_next_name [of b2 n "b3 @ CHR '')'' # r"] f(2) by (simp add: pp_defined_def pp_next_mark s1)
  then obtain s2 where s2: "lx_errs s2 = lx_errs s" "pp_defined macs (Some ?t) s1 = Some (Some (Some (c_bool (macs n \<noteq> None)), Some r, s2))" by blast
  show ?thesis by (rule pp_reads_name0 [OF nx s1 _ s2(1)]) (use s2(2) in \<open>simp_all add: pp_defined_at\<close>)
qed

lemma pp_reads_undefined:
  assumes "lexical (XName b n)" "follow r" "n \<noteq> ''defined''" "macs n = None"
  shows "pp_reads h macs (XName b n) 0 r s os ops"
proof -
  obtain s1 where s1: "s1 = s\<lparr>lx_tk := eTkIdent, lx_str := n\<rparr>" by blast
  have nx: "pp_GetNextToken m (Some (unparse (XName b n) @ r)) s = Some (eTkIdent, Some r, s1)" for m
    using pp_next_name [of b n r m s] assms by (simp add: s1)
  show ?thesis by (rule pp_reads_name0 [OF nx s1, of s1]) (use assms in \<open>simp_all add: s1\<close>)
qed

lemma pp_reads_name:
  assumes reads: "\<And>s. pp_reads h macs e v b' s [] [eTkExprBegin]" and lex: "lexical (XName b n)" "follow r" "n \<noteq> ''defined''"
    and b: "blanks b'" and le: "xprec e \<le> 14" and macs: "macs n = Some mc" "mc_expansion mc = unparse e @ b'"
  shows "pp_reads h macs (XName b n) v r s os ops"
proof -
  obtain s1 where s1: "s1 = s\<lparr>lx_tk := eTkIdent, lx_str := n\<rparr>" by blast
  have tk1: "lx_tk s1 = eTkIdent" "lx_str s1 = n" by (simp_all add: s1)
  obtain tk pos s2 k s3 where
    R: "\<And>m. pp_GetNextToken m (Some (unparse e @ b')) s1 = Some (tk, Some pos, s2)" "lx_errs s3 = lx_errs s1" "lx_tk s3 = eTkExprEnd"
      "\<And>n m. pp_nested (pp_operand h macs (n + k)) m (Some pos) s2 = Some (Some (Some v, None, s3))"
    by (rule pp_nested_run [OF reads [of s1] le pp_next_end [OF b]]) (simp, rule that)
  show ?thesis
  proof (rule pp_readsI [of _ _ _ eTkIdent r s1 "Suc k" _ _ _ _ k s3 "v # os" ops])
    show "pp_operand h macs (n + Suc k) m p s1 os ops = pp_operator (pp_operand h macs (n + k)) m (Some r) s3 (v # os) ops"
      if "p = Some r \<or> p = Some (SkipSpace r)" for n m p
      using R macs lex(3) by (simp add: pp_bang_primary [OF tk1(1)] pp_operator_at [OF that] tk1)
    show "pp_GetNextToken m (Some (unparse (XName b n) @ r)) s = Some (eTkIdent, Some r, s1)" for m
      using lex pp_next_name [of b n r m s] by (simp add: s1)
    show "pp_eval.stands (v # os) ops v (xprec (XName b n)) os ops" by (simp add: pp_eval.stands_prim)
  qed (use R(2) in \<open>simp_all add: s1\<close>)
qed

lemma pp_operand_cong:
  "pp_bang p s os ops = pp_bang p' s' os' ops' \<Longrightarrow> pp_operand h macs (Suc n) m p s os ops = pp_operand h macs (Suc n) m p' s' os' ops'"
  by simp

lemma pp_reads_not:
  assumes reads: "\<And>s. pp_reads h macs e v r s os (eTkBang # ops)" and e: "xprec e = 0" "lexical e" and b: "blanks b" and fit: "pp_eval.fits 3 ops"
  shows "pp_reads h macs (XNot b e) (c_bool (v = 0)) r s os ops"
proof -
  obtain s1 where s1: "s1 = s\<lparr>lx_tk := eTkBang\<rparr>" by blast
  have tk1: "lx_tk s1 = eTkBang" by (simp add: s1)
  obtain tk pos s2 k j s3 os' ops' where R: "\<And>m. pp_GetNextToken m (Some (unparse e @ r)) s1 = Some (tk, Some pos, s2)"
    "lx_tk s2 = tk" "xprec e = 0 \<longrightarrow> tk \<noteq> eTkBang" "tk \<noteq> eTkError" "0 < k"
    "\<And>n m p. p = Some pos \<or> p = Some (SkipSpace pos) \<Longrightarrow>
      pp_operand h macs (n + k) m p s2 os (eTkBang # ops) = pp_operator (pp_operand h macs (n + j)) m (Some r) s3 os' ops'"
    "lx_errs s3 = lx_errs s1" "pp_eval.stands os' ops' v (xprec e) os (eTkBang # ops)" by (rule pp_readsE [OF reads [of s1]]) (rule that)
  from R(5) obtain i where i: "k = Suc i" by (cases k) simp_all
  show ?thesis
  proof (rule pp_readsI [of _ _ _ eTkBang "unparse e @ r" s1 k _ _ _ _ j s3 os' ops'])
    show "pp_operand h macs (n + k) m p s1 os ops = pp_operator (pp_operand h macs (n + j)) m (Some r) s3 os' ops'"
      if "p = Some (unparse e @ r) \<or> p = Some (SkipSpace (unparse e @ r))" for n m p
    proof -
      have "pp_bang p s1 os ops = pp_bang (Some pos) s2 os (eTkBang # ops)"
        using R(1-3) e(1) by (simp add: pp_bang_def pp_next_at [OF that] pp_eval.fits_bang [OF fit] tk1)
      then have "pp_operand h macs (n + k) m p s1 os ops = pp_operand h macs (n + k) m (Some pos) s2 os (eTkBang # ops)"
        unfolding i add_Suc_right by (rule pp_operand_cong)
      then show ?thesis by (simp add: R(6))
    qed
    show "pp_eval.stands os' ops' (c_bool (v = 0)) (xprec (XNot b e)) os ops" using pp_eval.stands_bang [of os' ops' v os ops] R(8) e(1) by simp
    show "pp_GetNextToken m (Some (unparse (XNot b e) @ r)) s = Some (eTkBang, Some (unparse e @ r), s1)" for m
      using pp_next_bang [OF b op_follow_unparse [OF e(2)]] by (simp add: s1)
  qed (use R in \<open>simp_all add: s1\<close>)
qed

lemma pp_reads_bin:
  assumes rl: "pp_reads h macs l a (b @ spell op @ unparse y @ r) s os ops" and ry: "\<And>s. pp_reads h macs y c r s (a # os) (op # ops)"
    and op: "binary op" "blanks b" "lexical y" and fit: "pp_eval.fits (c_prec op) ops" and v: "bin_value op a c = Some v"
    and l: "xprec l < c_prec op" and y: "xprec y \<le> c_prec op"
  shows "pp_reads h macs (XBin l b op y) v r s os ops"
proof -
  let ?r = "b @ spell op @ unparse y @ r"
  obtain tk pos s1 k j s2 os' ops' where L: "\<And>m. pp_GetNextToken m (Some (unparse l @ ?r)) s = Some (tk, Some pos, s1)" "lx_tk s1 = tk"
    "xprec l = 0 \<longrightarrow> tk \<noteq> eTkBang" "tk \<noteq> eTkError" "0 < k"
    "\<And>n m p. p = Some pos \<or> p = Some (SkipSpace pos) \<Longrightarrow> pp_operand h macs (n + k) m p s1 os ops = pp_operator (pp_operand h macs (n + j)) m (Some ?r) s2 os' ops'"
    "lx_errs s2 = lx_errs s" "pp_eval.stands os' ops' a (xprec l) os ops" by (rule pp_readsE [OF rl]) (rule that)
  obtain s3 where s3: "s3 = s2\<lparr>lx_tk := op\<rparr>" by blast
  obtain tk' pos' s4 k' j' s5 os'' ops'' where Y: "\<And>m. pp_GetNextToken m (Some (unparse y @ r)) s3 = Some (tk', Some pos', s4)" "lx_tk s4 = tk'"
    "xprec y = 0 \<longrightarrow> tk' \<noteq> eTkBang" "tk' \<noteq> eTkError" "0 < k'"
    "\<And>n m p. p = Some pos' \<or> p = Some (SkipSpace pos') \<Longrightarrow>
      pp_operand h macs (n + k') m p s4 (a # os) (op # ops) = pp_operator (pp_operand h macs (n + j')) m (Some r) s5 os'' ops''"
    "lx_errs s5 = lx_errs s3" "pp_eval.stands os'' ops'' c (xprec y) (a # os) (op # ops)" by (rule pp_readsE [OF ry [of s3]]) (rule that)
  have ev: "pp_EvaluateExpression op os' ops' = Some (a # os, op # ops)" by (rule pp_eval.stands_left [OF op(1) L(8) _ fit]) (use l in simp)
  have nop: "op \<notin> {eTkExprEnd, eTkRParen}" using op(1) by (auto simp: binary_def)
  have step: "pp_operator rec m (Some ?r) s2 os' ops' = rec m (Some pos') s4 (a # os) (op # ops)" for rec m
    using nop op(1) by (simp add: pp_operator_def pp_next_op [OF op(2,1) op_follow_unparse [OF op(3)]] ev Y(1) flip: s3)
  show ?thesis
  proof (rule pp_readsI [of _ _ _ tk pos s1 "k + k'" _ _ _ _ "j + j'" s5 os'' ops''])
    show "pp_operand h macs (n + (k + k')) m p s1 os ops = pp_operator (pp_operand h macs (n + (j + j'))) m (Some r) s5 os'' ops''"
      if "p = Some pos \<or> p = Some (SkipSpace pos)" for n m p
      using L(6) [OF that, of "n + k'" m] Y(6) [of "Some pos'" "n + j" m] by (simp add: step ac_simps)
    show "pp_eval.stands os'' ops'' v (xprec (XBin l b op y)) os ops" using pp_eval.stands_right [OF op(1) Y(8) y v] by simp
    show "pp_GetNextToken m (Some (unparse (XBin l b op y) @ r)) s = Some (tk, Some pos, s1)" for m using L(1) by simp
  qed (use L Y op(1) in \<open>auto simp: s3 binary_def\<close>)
qed

text \<open>Every expression with a value is read.\<close>

lemma pp_value_reads:
  assumes "pp_value macs env e v" "pp_table macs env"
  shows "right_grouped e \<Longrightarrow> lexical e \<Longrightarrow> follow r \<Longrightarrow> pp_eval.fits (xprec e) ops \<Longrightarrow> pp_reads h macs e v r s os ops"
  using assms(1)
proof (induction arbitrary: r s os ops rule: pp_value.induct)
  case (int ds b)
  then have "pp_GetNextToken m (Some (unparse (XInt b ds []) @ r)) s = Some (eTkNumInt, Some r, s\<lparr>lx_tk := eTkNumInt, lx_str := ds\<rparr>)" for m
    using pp_next_int [of b ds r m s] by simp
  then show ?case by (rule pp_reads_number) (use int in \<open>simp_all add: pp_GetTokenValue_def token_value_def int_digits_value\<close>)
next
  case (hex hs b)
  then have "pp_GetNextToken m (Some (unparse (XHex b hs []) @ r)) s = Some (eTkNumHex, Some r, s\<lparr>lx_tk := eTkNumHex, lx_str := ''0x'' @ hs\<rparr>)" for m
    using pp_next_hex [of b hs r m s] by simp
  then show ?case by (rule pp_reads_number) (use hex hex_digits_value [of hs] in \<open>simp_all add: pp_GetTokenValue_def token_value_def\<close>)
next
  case (undefined n b)
  then show ?case by (intro pp_reads_undefined)
next
  case (name n e v b)
  then obtain b' m where d: "right_grouped e" "lexical e" "blanks b'" "macs n = Some m" "mc_expansion m = unparse e @ b'"
    using assms(2) unfolding pp_table_def by blast
  have le: "xprec e \<le> 14" by (rule xprec_bound [OF d(1)])
  show ?case
    by (rule pp_reads_name [OF name.IH [OF d(1,2) follow_blanks_only [OF d(3)]] name.prems(2,3) name.hyps(1) d(3) le d(4,5)]) (use le in simp)
next
  case (defined b b1 b2 n b3)
  then show ?case by (intro pp_reads_defined)
next
  case (paren e v b b')
  then have g: "right_grouped e" "lexical e" "blanks b" "blanks b'" by simp_all
  have le: "xprec e \<le> 14" by (rule xprec_bound [OF g(1)])
  show ?case by (rule pp_reads_paren [OF paren.IH [OF g(1,2)] g(3,4) le]) (use le in \<open>simp_all add: follow_blanks g is_name_def is_alpha_def is_digit_def\<close>)
next
  case (neg e v b)
  then show ?case by (intro pp_reads_not neg.IH) (simp_all add: pp_eval.fits_over_bang)
next
  case (bin l a y c op v b)
  then have g: "binary op" "right_grouped l" "right_grouped y" "lexical l" "blanks b" "lexical y" "pp_eval.fits (c_prec op) ops"
    "xprec l < c_prec op" "xprec y < c_prec op \<or> xprec y = c_prec op \<and> \<not> False" by simp_all
  show ?case
    by (rule pp_reads_bin [OF bin.IH(1) bin.IH(2) g(1,5,6,7) bin.hyps(3) g(8)])
      (use g bin.prems(3) in \<open>auto simp: follow_op intro: pp_eval.fits_left pp_eval.fits_right\<close>)
qed

section \<open>Properties\<close>

lemma if_run:
  assumes "pp_value macs env e v" "pp_table macs env" "right_grouped e" "lexical e" "blanks b"
  shows "\<exists>k s'. lx_errs s' = lx_errs s \<and> (\<forall>n. PreProcessIf h macs (n + k) (Some (unparse e @ b)) s = Some (Some (v = 0, s')))"
proof -
  have le: "xprec e \<le> 14" by (rule xprec_bound [OF assms(3)])
  have "pp_reads h macs e v b s [] [eTkExprBegin]"
    by (rule pp_value_reads [OF assms(1-4) follow_blanks_only [OF assms(5)]]) (use le in simp)
  then obtain tk pos s1 k s3 where "\<And>m. pp_GetNextToken m (Some (unparse e @ b)) s = Some (tk, Some pos, s1)"
    "lx_errs s3 = lx_errs s" "\<And>n m. pp_nested (pp_operand h macs (n + k)) m (Some pos) s1 = Some (Some (Some v, None, s3))"
    by (rule pp_nested_run [OF _ le pp_next_end [OF assms(5)]]) (simp, rule that)
  then show ?thesis by (intro exI [of _ k] exI [of _ s3]) (simp add: PreProcessIf_def pp_ParseExpression_def)
qed

text \<open>
  C22: the value of an \<^verbatim>\<open>#if\<close> expression, in both preprocessors. The text of an expression in which operators of equal precedence group to the
  right is evaluated to the value of that grouping, not of the grouping of C, in 32-bit integers that wrap, over the operands and operators the code has:
  decimal and hexadecimal numbers, names, \<^verbatim>\<open>defined()\<close>, parentheses, \<^verbatim>\<open>!\<close> and the binary operators, all of whose operands are evaluated;
  the lines are skipped if the value is 0. No message is added, and the fuel is enough from some bound on.
\<close>

theorem pp_value_right:
  assumes "pp_value macs env e v" "pp_table macs env" "right_grouped e" "lexical e" "blanks b"
  shows "\<exists>k s'. lx_errs s' = lx_errs s \<and> (\<forall>n. PreProcessIf h macs (n + k) (Some (unparse e @ b)) s = Some (Some (v = 0, s')))"
  by (rule if_run [OF assms])

text \<open>10 - 5 - 5 groups as 10 - (5 - 5), so its lines are kept.\<close>

lemma pp_value_right_witness:
  "\<exists>k s'. lx_errs s' = [] \<and> (\<forall>n. PreProcessIf Htl Map.empty (n + k) (Some ''10-5-5'') \<lparr>lx_tk = eTkExprBegin, lx_str = [], lx_errs = []\<rparr>
     = Some (Some (False, s')))"
proof -
  let ?e = "XBin (XInt [] ''10'' []) [] eTkMinus (XBin (XInt [] ''5'' []) [] eTkMinus (XInt [] ''5'' []))"
  have num: "pp_value Map.empty Map.empty (XInt b ds []) v" if "dec_value ds < 4294967290" "v = c_wrap CS32 (int (dec_value ds))" for b ds v
    unfolding that(2) by (rule pp_value.int [OF that(1)])
  have n: "pp_value Map.empty Map.empty (XInt [] ''10'' []) 10" "pp_value Map.empty Map.empty (XInt [] ''5'' []) 5"
    by (rule num; simp add: dec_value_def)+
  have v: "pp_value Map.empty Map.empty ?e 10"
    by (rule pp_value.bin [OF n(1) pp_value.bin [OF n(2) n(2), of _ 0]]) (simp_all add: c_sub_def)
  have l: "right_grouped ?e" "lexical ?e" by (simp_all add: binary_def is_digit_def)
  show ?thesis using pp_value_right [OF v _ l, of "[]" "\<lparr>lx_tk = eTkExprBegin, lx_str = [], lx_errs = []\<rparr>" Htl]
    by (simp add: pp_table_def)
qed

end
