(* ===== verification/PreRead.thy ===== *)
theory PreRead
  imports OhtPrelude
begin

text \<open>
  Reading lines in the preprocessors: \<^verbatim>\<open>GetLineFromFile\<close> and \<^verbatim>\<open>GetLineWithCommentsStripped\<close> of \<^verbatim>\<open>src/htl/PreProcess.cpp\<close> and its copy
  \<^verbatim>\<open>src/Htfe/HtfePreProcess.cpp\<close>, and \<^verbatim>\<open>CLinePos\<close> of their headers, which says where in the file a character of the line stood. The two copies of
  these functions are equal but for the name of a function.
\<close>

section \<open>Positions\<close>

text \<open>CLinePos: the offset of the line in the file, and a list of positions in the line with the characters taken out (or, negative, put in) there.\<close>

record line_pos =
  lp_baseOffset :: int
  lp_deltaList :: "(int \<times> int) list"

definition lp_SetBaseOffset :: "int \<Rightarrow> line_pos \<Rightarrow> line_pos" where
  "lp_SetBaseOffset off lp = lp\<lparr>lp_baseOffset := off, lp_deltaList := []\<rparr>"

text \<open>The loops of Delete and Insert: the new entry stands before the first entry not before \<open>pos\<close>; every entry not before \<open>pos\<close> moves.\<close>

definition lp_shift :: "int \<Rightarrow> int \<Rightarrow> int \<Rightarrow> (int \<times> int) list \<Rightarrow> (int \<times> int) list" where
  "lp_shift pos by delta ds = takeWhile (\<lambda>d. fst d < pos) ds @ (pos, delta) #
     map (\<lambda>d. if fst d < pos then d else (fst d + by, snd d)) (dropWhile (\<lambda>d. fst d < pos) ds)"

definition lp_Delete :: "int \<Rightarrow> int \<Rightarrow> line_pos \<Rightarrow> line_pos" where
  "lp_Delete pos len lp = lp\<lparr>lp_deltaList := lp_shift pos (- len) len (lp_deltaList lp)\<rparr>"

definition lp_Insert :: "int \<Rightarrow> int \<Rightarrow> line_pos \<Rightarrow> line_pos" where
  "lp_Insert pos len lp = lp\<lparr>lp_deltaList := lp_shift pos len (- len) (lp_deltaList lp)\<rparr>"

fun lp_deltas :: "int \<Rightarrow> (int \<times> int) list \<Rightarrow> int" where
  "lp_deltas pos [] = 0"
| "lp_deltas pos ((p, d) # ds) = (if pos \<ge> p then d + lp_deltas pos ds else 0)"

definition lp_GetFileOffset :: "line_pos \<Rightarrow> int \<Rightarrow> int" where
  "lp_GetFileOffset lp pos = lp_baseOffset lp + pos + lp_deltas pos (lp_deltaList lp)"

definition lp_IsInFile :: "line_pos \<Rightarrow> int \<Rightarrow> bool" where
  "lp_IsInFile lp pos \<longleftrightarrow> \<not> list_ex (\<lambda>(p, d). p \<le> pos \<and> pos < p - d) (lp_deltaList lp)"

section \<open>The file\<close>

text \<open>
  The state of the reader: the line buffer, the bytes between \<^verbatim>\<open>m_pRdBufPos\<close> and \<^verbatim>\<open>m_pRdBufEnd\<close>, the results of the reads still to come
  (\<open>None\<close> an error, the empty text the end of the file), \<^verbatim>\<open>m_fileRdOffset\<close>, the line number, \<^verbatim>\<open>m_bInComment\<close> and the messages.
\<close>

record rd_state =
  rd_line :: string
  rd_linePos :: line_pos
  rd_buf :: string
  rd_reads :: "string option list"
  rd_off :: int
  rd_lineNum :: int
  rd_bInComment :: bool
  rd_errs :: "string list"

definition rd_error :: "string \<Rightarrow> rd_state \<Rightarrow> rd_state" where
  "rd_error m s = s\<lparr>rd_errs := rd_errs s @ [m]\<rparr>"

definition next_read :: "string option list \<Rightarrow> string option \<times> string option list" where
  "next_read rs = (case rs of [] \<Rightarrow> (Some [], []) | r # rs \<Rightarrow> (r, rs))"

text \<open>
  The copy loop, up to the end of the line: \<open>seg\<close> holds the characters from \<^verbatim>\<open>pInitPos\<close> to \<^verbatim>\<open>pPos\<close>, \<open>buf\<close> those from \<^verbatim>\<open>pPos\<close> on. It returns \<open>seg\<close> and the
  state, or the state after a read error, where the buffer is still at the position saved last.
\<close>

function copy_line :: "string \<Rightarrow> string \<Rightarrow> rd_state \<Rightarrow> rd_state + string \<times> string \<times> rd_state" where
  "copy_line buf seg s = (case buf of
     [] \<Rightarrow> (let s = s\<lparr>rd_line := rd_line s @ seg\<rparr> in case rd_reads s of
         [] \<Rightarrow> Inr ([], [], s\<lparr>rd_off := rd_off s + int (length seg), rd_buf := []\<rparr>)
       | None # rs \<Rightarrow> Inl (rd_error ''File read error'' (s\<lparr>rd_reads := rs\<rparr>))
       | Some c # rs \<Rightarrow> (let s = s\<lparr>rd_reads := rs, rd_off := rd_off s + int (length seg), rd_buf := c\<rparr> in
           if c = [] then Inr ([], [], s) else copy_line c [] s))
   | c # buf' \<Rightarrow>
       if c = CHR 0x0A then Inr (seg, buf, s)
       else if c = CHR 0x0D then
         (let line = rd_line s @ seg in
          copy_line buf' [] (s\<lparr>rd_line := line, rd_off := rd_off s + int (length seg) + 1, rd_linePos := lp_Delete (int (length line)) 1 (rd_linePos s)\<rparr>))
       else copy_line buf' (seg @ [c]) s)"
  by pat_completeness auto

termination
  by (relation "measures [\<lambda>(buf, seg, s). length (rd_reads s), \<lambda>(buf, seg, s). length buf]") auto

definition GetLineFromFile :: "bool \<Rightarrow> rd_state \<Rightarrow> bool \<times> rd_state" where
  "GetLineFromFile bAppendLine s = (
     let s = (if bAppendLine then s else s\<lparr>rd_line := [], rd_linePos := lp_SetBaseOffset (rd_off s) (rd_linePos s)\<rparr>);
         (r, rs) = (if rd_buf s = [] then next_read (rd_reads s) else (Some (rd_buf s), rd_reads s)) in
     case r of None \<Rightarrow> (False, s\<lparr>rd_reads := rs\<rparr>) | Some buf \<Rightarrow>
       (let s = s\<lparr>rd_reads := rs, rd_buf := buf\<rparr> in
        if buf = [] then (False, s)
        else case copy_line buf [] s of Inl s \<Rightarrow> (False, s)
          | Inr (seg, buf, s) \<Rightarrow>
              (let line = rd_line s @ seg; off = rd_off s + int (length seg); nl = (buf \<noteq> []) in
               (True, s\<lparr>rd_lineNum := rd_lineNum s + 1, rd_line := line, rd_buf := tl buf, rd_off := off + (if nl then 1 else 0),
                  rd_linePos := if nl then lp_Delete (int (length line)) 1 (rd_linePos s) else rd_linePos s\<rparr>))))"

section \<open>Continuations and comments\<close>

text \<open>The loop that joins a line that ends in a backslash with the next one; \<open>n\<close> bounds the lines. It returns false at the end of the file.\<close>

primrec join_lines :: "nat \<Rightarrow> bool \<Rightarrow> rd_state \<Rightarrow> (bool \<times> bool \<times> rd_state) option" where
  "join_lines 0 bContinue s = None"
| "join_lines (Suc n) bContinue s = (
     let (ok, s) = GetLineFromFile (bContinue \<or> rd_bInComment s) s in
     if \<not> ok \<and> \<not> bContinue then Some (False, bContinue, s)
     else
       let s = (if ok then s else rd_error ''File ended with continuation'' s) in
       if rd_line s \<noteq> [] \<and> last (rd_line s) = CHR 0x5C then
         let line = butlast (rd_line s) in
         join_lines n True (s\<lparr>rd_line := line, rd_linePos := lp_Delete (int (length line)) 1 (rd_linePos s)\<rparr>)
       else Some (True, bContinue, s))"

definition find_from :: "char \<Rightarrow> string \<Rightarrow> nat \<Rightarrow> nat option" where
  "find_from c line i = find (\<lambda>j. line ! j = c) [i..<length line]"

definition char_at :: "string \<Rightarrow> nat \<Rightarrow> char" where
  "char_at line i = (if i < length line then line ! i else CHR 0x00)"

definition blank_out :: "nat \<Rightarrow> nat \<Rightarrow> string \<Rightarrow> string" where
  "blank_out i j line = map (\<lambda>k. if i \<le> k \<and> k < j then CHR '' '' else line ! k) [0..<length line]"

text \<open>
  One pass of the comment scan: \<^verbatim>\<open>scanPos\<close>, \<^verbatim>\<open>commentPos\<close>, the line and \<^verbatim>\<open>m_bInComment\<close>. \<open>scan_code\<close> is its first half, where a double slash ends
  the scan (\<open>None\<close>), \<open>scan_comment\<close> its second half.
\<close>

definition scan_code :: "string \<Rightarrow> nat \<times> nat \<times> bool \<Rightarrow> nat + nat \<times> nat \<times> bool" where
  "scan_code line st = (case st of (scanPos, commentPos, inC) \<Rightarrow>
     if inC then Inr st else
       (case find_from (CHR ''/'') line scanPos of
          None \<Rightarrow> Inr (length line, commentPos, False)
        | Some p \<Rightarrow>
            if char_at line (p + 1) = CHR ''/'' then Inl p
            else if char_at line (p + 1) = CHR ''*'' then Inr (p + 2, p, True)
            else Inr (p + 1, commentPos, False)))"

definition scan_comment :: "string \<Rightarrow> nat \<times> nat \<times> bool \<Rightarrow> string \<times> nat \<times> nat \<times> bool" where
  "scan_comment line st = (case st of (scanPos, commentPos, inC) \<Rightarrow>
     if \<not> inC then (line, st) else
       (case find_from (CHR ''*'') line scanPos of
          None \<Rightarrow> (line, length line, commentPos, True)
        | Some p \<Rightarrow>
            if p = length line - 1 then (line, length line, commentPos, True)
            else if char_at line (p + 1) = CHR ''/'' then (blank_out commentPos (p + 2) line, p + 2, commentPos, False)
            else (line, p + 1, commentPos, True)))"

lemma find_from_Some: "find_from c line i = Some p \<Longrightarrow> i \<le> p \<and> p < length line \<and> line ! p = c"
  by (auto simp: find_from_def find_Some_iff)

lemma blank_out_length [simp]: "length (blank_out i j line) = length line"
  by (simp add: blank_out_def)

function scan_line :: "string \<Rightarrow> nat \<times> nat \<times> bool \<Rightarrow> line_pos \<Rightarrow> string \<times> (nat \<times> nat \<times> bool) \<times> line_pos" where
  "scan_line line st lp = (case scan_code line st of
     Inl p \<Rightarrow> (take p line @ '' '', (p, fst (snd st), False), lp_Delete (int (p + 1)) (int (length line - p - 1)) lp)
   | Inr st' \<Rightarrow> (let (line', st'') = scan_comment line st' in
       if fst st'' < length line' then scan_line line' st'' lp else (line', st'', lp)))"
  by pat_completeness auto

termination
proof (relation "measure (\<lambda>(line, st, lp). length line - fst st)", simp)
  fix line st lp st' x line' st''
  assume c: "scan_code line st = Inr st'" "x = scan_comment line st'" "(line', st'') = x" "fst st'' < length line'"
  obtain i cp inC where st: "st = (i, cp, inC)" by (cases st) auto
  obtain i' cp' inC' where st': "st' = (i', cp', inC')" by (cases st') auto
  have len: "length line' = length line" using c(2,3) by (auto simp: scan_comment_def st' split: if_splits option.splits)
  have 1: "i < i' \<or> i' = length line \<or> i' = i \<and> inC'" using c(1) find_from_Some [of "CHR ''/''" line i]
    by (auto simp: scan_code_def st st' split: if_splits option.splits)
  have 2: "i' < fst st'' \<or> fst st'' = length line \<or> fst st'' = i' \<and> \<not> inC'" using c(2,3) find_from_Some [of "CHR ''*''" line i']
    by (auto simp: scan_comment_def st' split: if_splits option.splits)
  show "((line', st'', lp), line, st, lp) \<in> measure (\<lambda>(line, st, lp). length line - fst st)"
    using 1 2 c(4) by (auto simp: len st)
qed

text \<open>GetLineWithCommentsStripped; \<open>n\<close> bounds the lines read. \<^verbatim>\<open>scanPos\<close> and \<^verbatim>\<open>commentPos\<close> stay when a comment goes on in the next line.\<close>

primrec strip_loop :: "nat \<Rightarrow> bool \<Rightarrow> nat \<Rightarrow> nat \<Rightarrow> rd_state \<Rightarrow> (bool \<times> rd_state) option" where
  "strip_loop 0 bContinue scanPos commentPos s = None"
| "strip_loop (Suc n) bContinue scanPos commentPos s =
     (case join_lines n bContinue s of None \<Rightarrow> None
      | Some (ok, bContinue, s) \<Rightarrow>
          if \<not> ok then Some (False, s)
          else (case scan_line (rd_line s) (scanPos, commentPos, rd_bInComment s) (rd_linePos s) of (line, (scanPos, commentPos, inC), lp) \<Rightarrow>
            let s = s\<lparr>rd_line := line, rd_linePos := lp, rd_bInComment := inC\<rparr> in
            if inC then strip_loop n bContinue scanPos commentPos s else Some (True, s)))"

definition GetLineWithCommentsStripped :: "nat \<Rightarrow> bool \<Rightarrow> rd_state \<Rightarrow> (bool \<times> rd_state) option" where
  "GetLineWithCommentsStripped n bContinue s = strip_loop n bContinue 0 0 s"

text \<open>The second copy.\<close>

definition htfe_lp_Delete :: "int \<Rightarrow> int \<Rightarrow> line_pos \<Rightarrow> line_pos" where
  "htfe_lp_Delete = lp_Delete"

definition htfe_lp_Insert :: "int \<Rightarrow> int \<Rightarrow> line_pos \<Rightarrow> line_pos" where
  "htfe_lp_Insert = lp_Insert"

definition htfe_lp_GetInputFileOffset :: "line_pos \<Rightarrow> int \<Rightarrow> int" where
  "htfe_lp_GetInputFileOffset = lp_GetFileOffset"

definition htfe_lp_IsInFile :: "line_pos \<Rightarrow> int \<Rightarrow> bool" where
  "htfe_lp_IsInFile = lp_IsInFile"

definition htfe_GetLineFromFile :: "bool \<Rightarrow> rd_state \<Rightarrow> bool \<times> rd_state" where
  "htfe_GetLineFromFile = GetLineFromFile"

definition htfe_GetLineWithCommentsStripped :: "nat \<Rightarrow> bool \<Rightarrow> rd_state \<Rightarrow> (bool \<times> rd_state) option" where
  "htfe_GetLineWithCommentsStripped = GetLineWithCommentsStripped"

declare copy_line.simps [simp del] scan_line.simps [simp del]

section \<open>A line is the file's next line\<close>

text \<open>The bytes still to be read, however the reads cut them up.\<close>

definition rd_bytes :: "rd_state \<Rightarrow> string" where
  "rd_bytes s = rd_buf s @ concat (map the (rd_reads s))"

definition good_reads :: "rd_state \<Rightarrow> bool" where
  "good_reads s \<longleftrightarrow> list_all (\<lambda>r. r \<noteq> None \<and> r \<noteq> Some []) (rd_reads s)"

definition line_part :: "string \<Rightarrow> string" where
  "line_part = takeWhile (\<lambda>c. c \<noteq> CHR 0x0A)"

definition no_cr :: "string \<Rightarrow> string" where
  "no_cr = filter (\<lambda>c. c \<noteq> CHR 0x0D)"

lemma copy_line_Cons:
  "copy_line (c # buf) seg s =
     (if c = CHR 0x0A then Inr (seg, c # buf, s)
      else if c = CHR 0x0D then copy_line buf [] (s\<lparr>rd_line := rd_line s @ seg, rd_off := rd_off s + int (length seg) + 1,
        rd_linePos := lp_Delete (int (length (rd_line s @ seg))) 1 (rd_linePos s)\<rparr>)
      else copy_line buf (seg @ [c]) s)"
  by (subst copy_line.simps) (simp add: Let_def)

lemma copy_line_run:
  assumes "list_all (\<lambda>r. r \<noteq> None \<and> r \<noteq> Some []) (rd_reads s)" "list_all (\<lambda>c. c \<noteq> CHR 0x0D) seg"
  shows "\<exists>seg' buf' s'. copy_line buf seg s = Inr (seg', buf', s') \<and> good_reads s' \<and>
    rd_line s' @ seg' = rd_line s @ seg @ no_cr (line_part (buf @ concat (map the (rd_reads s)))) \<and>
    buf' @ concat (map the (rd_reads s')) = drop (length (line_part (buf @ concat (map the (rd_reads s))))) (buf @ concat (map the (rd_reads s))) \<and>
    (buf' = [] \<longrightarrow> rd_reads s' = []) \<and> (buf' \<noteq> [] \<longrightarrow> hd buf' = CHR 0x0A) \<and>
    rd_off s' + int (length seg') = rd_off s + int (length seg) + int (length (line_part (buf @ concat (map the (rd_reads s))))) \<and>
    rd_lineNum s' = rd_lineNum s \<and> rd_bInComment s' = rd_bInComment s \<and> rd_errs s' = rd_errs s"
  using assms
proof (induction buf seg s rule: copy_line.induct)
  case (1 buf seg s)
  show ?case
  proof (cases buf)
    case Nil
    show ?thesis
    proof (cases "rd_reads s")
      case Nil
      then have "copy_line buf seg s = Inr ([], [], s\<lparr>rd_line := rd_line s @ seg, rd_off := rd_off s + int (length seg), rd_buf := []\<rparr>)"
        using \<open>buf = []\<close> by (simp add: copy_line.simps [of "[]"])
      then show ?thesis using \<open>buf = []\<close> Nil by (simp add: good_reads_def line_part_def no_cr_def)
    next
      case (Cons r rs)
      then obtain c where c: "r = Some c" "c \<noteq> []" using "1.prems"(1) by (cases r) auto
      let ?s = "s\<lparr>rd_line := rd_line s @ seg, rd_reads := rs, rd_off := rd_off s + int (length seg), rd_buf := c\<rparr>"
      have "copy_line buf seg s = copy_line c [] ?s" using Nil Cons c by (simp add: copy_line.simps [of "[]"])
      then show ?thesis using "1.IH"(1) [OF Nil refl _ c(1) refl c(2), of rs] "1.prems" c Nil Cons by simp
    qed
  next
    case (Cons x buf')
    consider (nl) "x = CHR 0x0A" | (cr) "x = CHR 0x0D" | (other) "x \<noteq> CHR 0x0A" "x \<noteq> CHR 0x0D" by blast
    then show ?thesis
    proof cases
      case nl
      then have "copy_line buf seg s = Inr (seg, x # buf', s)" by (simp add: copy_line_Cons Cons)
      then show ?thesis using "1.prems" nl by (simp add: Cons line_part_def no_cr_def good_reads_def)
    next
      case cr
      let ?s = "s\<lparr>rd_line := rd_line s @ seg, rd_off := rd_off s + int (length seg) + 1, rd_linePos := lp_Delete (int (length (rd_line s @ seg))) 1 (rd_linePos s)\<rparr>"
      have "copy_line buf seg s = copy_line buf' [] ?s" using cr by (simp add: copy_line_Cons Cons)
      then show ?thesis using "1.IH"(2) [OF Cons _ cr refl] "1.prems" cr by (simp add: Cons line_part_def no_cr_def ac_simps)
    next
      case other
      then have "copy_line buf seg s = copy_line buf' (seg @ [x]) s" by (simp add: copy_line_Cons Cons)
      then show ?thesis using "1.IH"(3) [OF Cons other] "1.prems" other by (simp add: Cons line_part_def no_cr_def ac_simps)
    qed
  qed
qed

text \<open>The first read of a line, when the file has not ended.\<close>

lemma first_read:
  assumes "good_reads s" "rd_bytes s \<noteq> []"
  obtains buf rs where "(if rd_buf s = [] then next_read (rd_reads s) else (Some (rd_buf s), rd_reads s)) = (Some buf, rs)" "buf \<noteq> []"
    "buf @ concat (map the rs) = rd_bytes s" "list_all (\<lambda>r. r \<noteq> None \<and> r \<noteq> Some []) rs"
proof (cases "rd_buf s = []")
  case True
  then obtain c cs where "rd_reads s = Some c # cs" "c \<noteq> []" using assms
    by (cases "rd_reads s") (auto simp: good_reads_def rd_bytes_def)
  then show thesis using True assms(1) by (intro that [of c cs]) (simp_all add: next_read_def rd_bytes_def good_reads_def)
next
  case False
  then show thesis using assms(1) by (intro that [of "rd_buf s" "rd_reads s"]) (simp_all add: rd_bytes_def good_reads_def)
qed

text \<open>The next line: what stands before the line feed without the carriage returns; the file is left behind the line feed.\<close>

lemma next_line:
  assumes g: "good_reads s" and ne: "rd_bytes s \<noteq> []"
  shows "\<exists>s'. GetLineFromFile app s = (True, s') \<and> good_reads s' \<and>
    rd_line s' = (if app then rd_line s else []) @ no_cr (line_part (rd_bytes s)) \<and>
    rd_bytes s' = drop (Suc (length (line_part (rd_bytes s)))) (rd_bytes s) \<and>
    rd_off s' = rd_off s + int (length (rd_bytes s) - length (rd_bytes s')) \<and>
    rd_lineNum s' = rd_lineNum s + 1 \<and> rd_bInComment s' = rd_bInComment s \<and> rd_errs s' = rd_errs s"
proof -
  obtain buf rs where rd: "(if rd_buf s = [] then next_read (rd_reads s) else (Some (rd_buf s), rd_reads s)) = (Some buf, rs)" "buf \<noteq> []"
    "buf @ concat (map the rs) = rd_bytes s" "list_all (\<lambda>r. r \<noteq> None \<and> r \<noteq> Some []) rs"
    by (rule first_read [OF assms])
  let ?l = "line_part (rd_bytes s)"
  obtain s0 where s0: "s0 = (if app then s else s\<lparr>rd_line := [], rd_linePos := lp_SetBaseOffset (rd_off s) (rd_linePos s)\<rparr>)" by blast
  have s0f: "rd_off s0 = rd_off s" "rd_lineNum s0 = rd_lineNum s" "rd_bInComment s0 = rd_bInComment s" "rd_errs s0 = rd_errs s"
    "rd_line s0 = (if app then rd_line s else [])" "rd_buf s0 = rd_buf s" "rd_reads s0 = rd_reads s" by (simp_all add: s0)
  let ?s1 = "s0\<lparr>rd_reads := rs, rd_buf := buf\<rparr>"
  from copy_line_run [of ?s1 "[]" buf] obtain seg buf' s' where
    C: "copy_line buf [] ?s1 = Inr (seg, buf', s')" "good_reads s'" "rd_line s' @ seg = (if app then rd_line s else []) @ no_cr ?l"
      "buf' @ concat (map the (rd_reads s')) = drop (length ?l) (rd_bytes s)" "buf' = [] \<longrightarrow> rd_reads s' = []" "buf' \<noteq> [] \<longrightarrow> hd buf' = CHR 0x0A"
      "rd_off s' + int (length seg) = rd_off s + int (length ?l)" "rd_lineNum s' = rd_lineNum s" "rd_bInComment s' = rd_bInComment s" "rd_errs s' = rd_errs s"
    using rd(3,4) s0f by auto
  let ?line = "rd_line s' @ seg"
  let ?s2 = "s'\<lparr>rd_lineNum := rd_lineNum s' + 1, rd_line := ?line, rd_buf := tl buf', rd_off := rd_off s' + int (length seg) + (if buf' \<noteq> [] then 1 else 0),
      rd_linePos := if buf' \<noteq> [] then lp_Delete (int (length ?line)) 1 (rd_linePos s') else rd_linePos s'\<rparr>"
  have eq: "GetLineFromFile app s = (True, ?s2)"
    unfolding GetLineFromFile_def Let_def s0 [symmetric] s0f rd(1) prod.case option.case by (simp add: rd(2) C(1))
  have len: "length ?l \<le> length (rd_bytes s)" by (simp add: line_part_def length_takeWhile_le)
  have bytes: "rd_bytes ?s2 = drop (Suc (length ?l)) (rd_bytes s)"
  proof (cases buf')
    case Nil
    then have "length (rd_bytes s) \<le> length ?l" using C(4,5) by simp
    then show ?thesis using Nil C(5) by (simp add: rd_bytes_def)
  next
    case (Cons c cs)
    then have "cs @ concat (map the (rd_reads s')) = tl (drop (length ?l) (rd_bytes s))" using C(4) by (simp flip: C(4))
    moreover have "tl (drop n xs) = drop (Suc n) xs" for n and xs :: string by (simp add: drop_Suc tl_drop)
    moreover have "rd_bytes ?s2 = tl buf' @ concat (map the (rd_reads s'))" by (simp add: rd_bytes_def)
    ultimately show ?thesis using Cons by simp
  qed
  have off: "rd_off ?s2 = rd_off s + int (length (rd_bytes s) - length (rd_bytes ?s2))"
  proof -
    have l: "length buf' + length (concat (map the (rd_reads s'))) = length (rd_bytes s) - length ?l" using arg_cong [OF C(4), of length] by simp
    show ?thesis unfolding bytes using C(5,7) l len by (cases buf') auto
  qed
  show ?thesis unfolding eq
    by (rule exI [of _ ?s2]) (use C(2,3,8-) bytes off in \<open>simp add: good_reads_def\<close>)
qed

lemma end_of_file: "good_reads s \<Longrightarrow> rd_bytes s = [] \<Longrightarrow> fst (GetLineFromFile app s) = False"
  by (cases "rd_reads s") (auto simp: GetLineFromFile_def rd_bytes_def good_reads_def next_read_def Let_def)

section \<open>Where a character of the line stood\<close>

text \<open>
  \<open>placed F line lp off\<close>: in the file \<open>F\<close>, read up to \<open>off\<close>, every character of the line but the blanks put in for a comment stands at the offset
  CLinePos gives, and the next character read will be placed right.
\<close>

definition placed :: "string \<Rightarrow> string \<Rightarrow> line_pos \<Rightarrow> int \<Rightarrow> bool" where
  "placed F line lp off \<longleftrightarrow>
     (\<forall>q < length line. line ! q = CHR '' '' \<or>
        0 \<le> lp_GetFileOffset lp (int q) \<and> lp_GetFileOffset lp (int q) < int (length F) \<and> F ! nat (lp_GetFileOffset lp (int q)) = line ! q) \<and>
     list_all (\<lambda>d. fst d \<le> int (length line)) (lp_deltaList lp) \<and>
     lp_baseOffset lp + int (length line) + sum_list (map snd (lp_deltaList lp)) = off"

lemma deltas_all: "list_all (\<lambda>d. fst d \<le> pos) ds \<Longrightarrow> lp_deltas pos ds = sum_list (map snd ds)"
  by (induction ds) auto

lemma deltas_shift: "q < pos \<Longrightarrow> lp_deltas q (lp_shift pos by' delta ds) = lp_deltas q ds"
proof (induction ds)
  case (Cons d ds)
  then show ?case by (cases d) (auto simp: lp_shift_def)
qed (simp add: lp_shift_def)

lemma sum_shift: "sum_list (map snd (lp_shift pos by' delta ds)) = delta + sum_list (map snd ds)"
proof -
  have "map snd (map (\<lambda>d. if fst d < pos then d else (fst d + by', snd d)) ds') = map snd ds'" for ds' :: "(int \<times> int) list"
    by (induction ds') auto
  moreover have "sum_list (map snd ds) = sum_list (map snd (takeWhile (\<lambda>d. fst d < pos) ds)) + sum_list (map snd (dropWhile (\<lambda>d. fst d < pos) ds))"
    by (subst takeWhile_dropWhile_id [of "\<lambda>d. fst d < pos" ds, symmetric]) (simp only: map_append sum_list_append)
  ultimately show ?thesis by (simp add: lp_shift_def del: map_map)
qed

lemma shift_le:
  assumes "list_all (\<lambda>d. fst d \<le> b) ds" "b + by' \<le> pos"
  shows "list_all (\<lambda>d. fst d \<le> pos) (lp_shift pos by' delta ds)"
  using assms by (fastforce simp: lp_shift_def list_all_iff dest: set_takeWhileD set_dropWhileD)

lemma placed_append:
  assumes "placed F line lp off" "0 \<le> off" "drop (nat off) F = seg @ rest"
  shows "placed F (line @ seg) lp (off + int (length seg))"
proof -
  have all: "list_all (\<lambda>d. fst d \<le> int (length line)) (lp_deltaList lp)" and sum: "lp_baseOffset lp + int (length line) + sum_list (map snd (lp_deltaList lp)) = off"
    using assms(1) by (simp_all add: placed_def)
  have len: "length F = nat off + length seg + length rest \<or> seg = []"
    using arg_cong [OF assms(3), of length] by (cases seg) auto
  have "lp_GetFileOffset lp (int (length line + i)) = off + int i \<and> F ! nat (off + int i) = seg ! i \<and> off + int i < int (length F)" if i: "i < length seg" for i
  proof -
    have "list_all (\<lambda>d. fst d \<le> int (length line + i)) (lp_deltaList lp)" using all by (auto simp: list_all_iff)
    then have "lp_GetFileOffset lp (int (length line + i)) = off + int i" using deltas_all sum by (simp add: lp_GetFileOffset_def)
    moreover have "F ! nat (off + int i) = seg ! i"
    proof -
      have "F ! (nat off + i) = drop (nat off) F ! i" using len i by (subst nth_drop) auto
      then show ?thesis using i assms(2,3) by (simp add: nat_add_distrib nth_append)
    qed
    ultimately show ?thesis using len i assms(2) by auto
  qed
  then have new: "lp_GetFileOffset lp (int q) = off + int (q - length line) \<and> F ! nat (off + int (q - length line)) = seg ! (q - length line) \<and>
      off + int (q - length line) < int (length F)" if "length line \<le> q" "q < length line + length seg" for q
    using that by (metis add_diff_inverse_nat leD nat_add_left_cancel_less)
  show ?thesis unfolding placed_def
  proof (intro conjI allI impI)
    fix q
    assume q: "q < length (line @ seg)"
    show "(line @ seg) ! q = CHR '' '' \<or> 0 \<le> lp_GetFileOffset lp (int q) \<and> lp_GetFileOffset lp (int q) < int (length F) \<and>
        F ! nat (lp_GetFileOffset lp (int q)) = (line @ seg) ! q"
    proof (cases "q < length line")
      case True
      then show ?thesis using assms(1) by (simp add: placed_def nth_append)
    next
      case False
      then show ?thesis using new [of q] q assms(2) by (simp add: nth_append)
    qed
  qed (use all sum in \<open>auto simp: list_all_iff\<close>)
qed

lemma placed_delete:
  assumes "placed F line lp off" "k \<le> length line" "0 \<le> e"
  shows "placed F (take k line) (lp_Delete (int k) (int (length line - k) + e) lp) (off + e)"
proof -
  have "lp_GetFileOffset (lp_Delete (int k) (int (length line - k) + e) lp) (int q) = lp_GetFileOffset lp (int q)" if "q < k" for q
    using deltas_shift [of "int q" "int k"] that by (simp add: lp_GetFileOffset_def lp_Delete_def)
  moreover have "list_all (\<lambda>d. fst d \<le> int k) (lp_deltaList (lp_Delete (int k) (int (length line - k) + e) lp))"
    unfolding lp_Delete_def using shift_le [of "int (length line)" "lp_deltaList lp" "- (int (length line - k) + e)" "int k"] assms by (simp add: placed_def)
  ultimately show ?thesis using assms by (simp add: placed_def lp_Delete_def sum_shift)
qed

lemma placed_blank:
  assumes "placed F line lp off" "length line' = length line" "\<And>q. q < length line \<Longrightarrow> line' ! q = CHR '' '' \<or> line' ! q = line ! q"
  shows "placed F line' lp off"
  unfolding placed_def using assms by (metis placed_def)

text \<open>The state: also the bytes still to be read are those behind \<^verbatim>\<open>m_fileRdOffset\<close>.\<close>

definition tracks :: "string \<Rightarrow> rd_state \<Rightarrow> bool" where
  "tracks F s \<longleftrightarrow> good_reads s \<and> 0 \<le> rd_off s \<and> drop (nat (rd_off s)) F = rd_bytes s \<and> placed F (rd_line s) (rd_linePos s) (rd_off s)"

lemma drop_more: "drop (nat o1) F = xs @ ys \<Longrightarrow> 0 \<le> o1 \<Longrightarrow> drop (nat (o1 + int (length xs))) F = ys"
  by (metis append_eq_conv_conj drop_drop nat_add_distrib nat_int of_nat_0_le_iff add.commute)

lemma copy_line_tracks:
  assumes "copy_line buf seg s = Inr (seg', buf', s')" "good_reads s" "0 \<le> rd_off s"
    "drop (nat (rd_off s)) F = seg @ buf @ concat (map the (rd_reads s))" "placed F (rd_line s) (rd_linePos s) (rd_off s)"
  shows "good_reads s' \<and> 0 \<le> rd_off s' \<and> drop (nat (rd_off s')) F = seg' @ buf' @ concat (map the (rd_reads s')) \<and>
    placed F (rd_line s') (rd_linePos s') (rd_off s') \<and> (buf' = [] \<or> hd buf' = CHR 0x0A)"
  using assms
proof (induction buf seg s rule: copy_line.induct)
  case (1 buf seg s)
  note app = placed_append [OF "1.prems"(5,3)]
  show ?case
  proof (cases buf)
    case Nil
    have d: "drop (nat (rd_off s + int (length seg))) F = concat (map the (rd_reads s))" by (rule drop_more) (use "1.prems" Nil in auto)
    show ?thesis
    proof (cases "rd_reads s")
      case e: Nil
      then have "seg' = [] \<and> buf' = [] \<and> s' = s\<lparr>rd_line := rd_line s @ seg, rd_off := rd_off s + int (length seg), rd_buf := []\<rparr>"
        using "1.prems"(1) Nil by (simp add: copy_line.simps [of "[]"])
      then show ?thesis using "1.prems" app d e by (simp add: good_reads_def)
    next
      case (Cons r rs)
      then obtain c where c: "r = Some c" "c \<noteq> []" using "1.prems"(2) by (cases r) (auto simp: good_reads_def)
      let ?s = "s\<lparr>rd_line := rd_line s @ seg, rd_reads := rs, rd_off := rd_off s + int (length seg), rd_buf := c\<rparr>"
      have "copy_line buf seg s = copy_line c [] ?s" using Nil Cons c by (simp add: copy_line.simps [of "[]"])
      then show ?thesis using "1.IH"(1) [OF Nil refl _ c(1) refl c(2), of rs] "1.prems" app d c Nil Cons by (simp add: good_reads_def)
    qed
  next
    case (Cons x xs)
    consider (nl) "x = CHR 0x0A" | (cr) "x = CHR 0x0D" | (other) "x \<noteq> CHR 0x0A" "x \<noteq> CHR 0x0D" by blast
    then show ?thesis
    proof cases
      case nl
      then have "seg' = seg \<and> buf' = buf \<and> s' = s" using "1.prems"(1) by (simp add: copy_line_Cons Cons)
      then show ?thesis using "1.prems" nl Cons by simp
    next
      case cr
      let ?l = "rd_line s @ seg"
      let ?s = "s\<lparr>rd_line := ?l, rd_off := rd_off s + int (length seg) + 1, rd_linePos := lp_Delete (int (length ?l)) 1 (rd_linePos s)\<rparr>"
      have eq: "copy_line buf seg s = copy_line xs [] ?s" using cr by (simp add: copy_line_Cons Cons)
      have "drop (nat (rd_off s + int (length (seg @ [x])))) F = xs @ concat (map the (rd_reads s))" by (rule drop_more) (use "1.prems" Cons in auto)
      then have d: "drop (nat (rd_off s + int (length seg) + 1)) F = xs @ concat (map the (rd_reads s))" by (simp add: ac_simps)
      have "placed F (take (length ?l) ?l) (lp_Delete (int (length ?l)) (int (length ?l - length ?l) + 1) (rd_linePos s)) (rd_off s + int (length seg) + 1)"
        by (rule placed_delete [OF app]) (use "1.prems" in auto)
      then have p: "placed F ?l (lp_Delete (int (length ?l)) 1 (rd_linePos s)) (rd_off s + int (length seg) + 1)" by simp
      show ?thesis by (rule "1.IH"(2) [OF Cons _ cr refl]) (use eq "1.prems" d p cr in \<open>auto simp: good_reads_def\<close>)
    next
      case other
      then have eq: "copy_line buf seg s = copy_line xs (seg @ [x]) s" by (simp add: copy_line_Cons Cons)
      show ?thesis by (rule "1.IH"(3) [OF Cons other]) (use eq "1.prems" Cons in auto)
    qed
  qed
qed

lemma from_file_tracks:
  assumes "GetLineFromFile app s = (ok, s')" "tracks F s"
  shows "tracks F s'"
proof (cases "rd_bytes s = []")
  case True
  then have "rd_buf s = []" "rd_reads s = []" using assms(2) by (cases "rd_reads s"; auto simp: tracks_def rd_bytes_def good_reads_def)+
  then show ?thesis using assms by (cases app) (auto simp: GetLineFromFile_def next_read_def Let_def tracks_def rd_bytes_def good_reads_def placed_def lp_SetBaseOffset_def)
next
  case False
  obtain buf rs where rd: "(if rd_buf s = [] then next_read (rd_reads s) else (Some (rd_buf s), rd_reads s)) = (Some buf, rs)" "buf \<noteq> []"
    "buf @ concat (map the rs) = rd_bytes s" "list_all (\<lambda>r. r \<noteq> None \<and> r \<noteq> Some []) rs"
    using first_read [of s] assms(2) False unfolding tracks_def by blast
  obtain s0 where s0: "s0 = (if app then s else s\<lparr>rd_line := [], rd_linePos := lp_SetBaseOffset (rd_off s) (rd_linePos s)\<rparr>)" by blast
  have s0f: "rd_off s0 = rd_off s" "rd_buf s0 = rd_buf s" "rd_reads s0 = rd_reads s" "placed F (rd_line s0) (rd_linePos s0) (rd_off s0)"
    using assms(2) by (simp_all add: s0 tracks_def placed_def lp_SetBaseOffset_def)
  let ?s1 = "s0\<lparr>rd_reads := rs, rd_buf := buf\<rparr>"
  have g1: "list_all (\<lambda>r. r \<noteq> None \<and> r \<noteq> Some []) (rd_reads ?s1)" using rd(4) by simp
  from copy_line_run [OF g1, of "[]" buf] obtain seg buf' s2 where C: "copy_line buf [] ?s1 = Inr (seg, buf', s2)" by auto
  from copy_line_tracks [OF C, of F] have T: "good_reads s2" "0 \<le> rd_off s2" "drop (nat (rd_off s2)) F = seg @ buf' @ concat (map the (rd_reads s2))"
    "placed F (rd_line s2) (rd_linePos s2) (rd_off s2)"
    using assms(2) rd(3,4) s0f by (auto simp: tracks_def good_reads_def)
  let ?line = "rd_line s2 @ seg"
  let ?off = "rd_off s2 + int (length seg)"
  have s': "s' = s2\<lparr>rd_lineNum := rd_lineNum s2 + 1, rd_line := ?line, rd_buf := tl buf', rd_off := ?off + (if buf' \<noteq> [] then 1 else 0),
      rd_linePos := if buf' \<noteq> [] then lp_Delete (int (length ?line)) 1 (rd_linePos s2) else rd_linePos s2\<rparr>"
    using assms(1) unfolding GetLineFromFile_def Let_def s0 [symmetric] s0f rd(1) prod.case option.case by (simp add: rd(2) C)
  have p: "placed F ?line (rd_linePos s2) ?off" by (rule placed_append [OF T(4,2,3)])
  have d: "drop (nat ?off) F = buf' @ concat (map the (rd_reads s2))" by (rule drop_more [OF T(3,2)])
  show ?thesis
  proof (cases buf')
    case Nil
    then show ?thesis using T p d by (simp add: s' tracks_def good_reads_def rd_bytes_def)
  next
    case (Cons c cs)
    have "placed F (take (length ?line) ?line) (lp_Delete (int (length ?line)) (int (length ?line - length ?line) + 1) (rd_linePos s2)) (?off + 1)"
      by (rule placed_delete [OF p]) simp_all
    moreover have "drop (nat (?off + int (length [c]))) F = cs @ concat (map the (rd_reads s2))" by (rule drop_more) (use d T(2) Cons in auto)
    ultimately show ?thesis using T by (simp add: s' Cons tracks_def good_reads_def rd_bytes_def)
  qed
qed

lemma join_tracks: "join_lines n b s = Some (ok, b', s') \<Longrightarrow> tracks F s \<Longrightarrow> tracks F s'"
proof (induction n arbitrary: b s)
  case (Suc n)
  obtain ok1 s1 where g: "GetLineFromFile (b \<or> rd_bInComment s) s = (ok1, s1)" by fastforce
  have t1: "tracks F s1" by (rule from_file_tracks [OF g Suc.prems(2)])
  show ?case
  proof (cases "\<not> ok1 \<and> \<not> b")
    case True
    then show ?thesis using Suc.prems(1) t1 g by auto
  next
    case False
    obtain s2 where s2: "s2 = (if ok1 then s1 else rd_error ''File ended with continuation'' s1)" by blast
    have t2: "tracks F s2" using t1 by (simp add: s2 tracks_def rd_error_def good_reads_def rd_bytes_def)
    let ?line = "butlast (rd_line s2)"
    let ?s3 = "s2\<lparr>rd_line := ?line, rd_linePos := lp_Delete (int (length ?line)) 1 (rd_linePos s2)\<rparr>"
    show ?thesis
    proof (cases "rd_line s2 \<noteq> [] \<and> last (rd_line s2) = CHR 0x5C")
      case True
      then have "int (length (rd_line s2) - length ?line) = 1" by (cases "rd_line s2") auto
      moreover have "placed F (take (length ?line) (rd_line s2)) (lp_Delete (int (length ?line)) (int (length (rd_line s2) - length ?line) + 0) (rd_linePos s2)) (rd_off s2 + 0)"
        by (rule placed_delete) (use t2 in \<open>simp_all add: tracks_def\<close>)
      ultimately have "tracks F ?s3" using t2 by (simp add: tracks_def good_reads_def rd_bytes_def butlast_conv_take)
      then have "tracks F ?s3 \<and> join_lines n True ?s3 = Some (ok, b', s')"
        using Suc.prems(1) False True unfolding join_lines.simps g Let_def prod.case s2 [symmetric] by simp
      then show ?thesis using Suc.IH by blast
    next
      case nl: False
      then have "s' = s2" using Suc.prems(1) False unfolding join_lines.simps g Let_def prod.case s2 [symmetric] by (simp del: de_Morgan_conj)
      then show ?thesis using t2 by simp
    qed
  qed
qed simp

lemma scan_placed: "placed F line lp off \<Longrightarrow> scan_line line st lp = (line', st', lp') \<Longrightarrow> placed F line' lp' off"
proof (induction line st lp rule: scan_line.induct)
  case (1 line st lp)
  show ?case
  proof (cases "scan_code line st")
    case (Inl p)
    then have p: "p < length line" using find_from_Some [of "CHR ''/''" line] by (cases st) (auto simp: scan_code_def split: if_splits option.splits)
    have "placed F (take (p + 1) line) (lp_Delete (int (p + 1)) (int (length line - (p + 1)) + 0) lp) (off + 0)"
      by (rule placed_delete) (use "1.prems"(1) p in auto)
    then have "placed F (take p line @ '' '') (lp_Delete (int (p + 1)) (int (length line - (p + 1)) + 0) lp) (off + 0)"
      by (rule placed_blank) (use p in \<open>auto simp: nth_append less_Suc_eq\<close>)
    then show ?thesis using "1.prems"(2) p by (simp add: scan_line.simps [of line] Inl)
  next
    case (Inr st1)
    obtain line1 st2 where c: "scan_comment line st1 = (line1, st2)" by (cases "scan_comment line st1")
    have "placed F line1 lp off"
      by (rule placed_blank [OF "1.prems"(1)]) (use c in \<open>auto simp: scan_comment_def blank_out_def split: if_splits option.splits prod.splits\<close>)
    then show ?thesis using "1.IH" [OF Inr] "1.prems"(2) c by (auto simp: scan_line.simps [of line] Inr split: if_splits)
  qed
qed

lemma strip_tracks: "strip_loop n b i j s = Some (ok, s') \<Longrightarrow> tracks F s \<Longrightarrow> tracks F s'"
proof (induction n arbitrary: b i j s)
  case (Suc n)
  then obtain ok1 b1 s1 where g: "join_lines n b s = Some (ok1, b1, s1)" by (auto split: option.splits)
  have t1: "tracks F s1" by (rule join_tracks [OF g Suc.prems(2)])
  obtain line i1 j1 inC lp where c: "scan_line (rd_line s1) (i, j, rd_bInComment s1) (rd_linePos s1) = (line, (i1, j1, inC), lp)"
    using prod.exhaust by metis
  have "placed F line lp (rd_off s1)" by (rule scan_placed [OF _ c]) (use t1 in \<open>simp add: tracks_def\<close>)
  then have "tracks F (s1\<lparr>rd_line := line, rd_linePos := lp, rd_bInComment := inC\<rparr>)" using t1 by (simp add: tracks_def good_reads_def rd_bytes_def)
  then show ?case using Suc.IH [of b1 i1 j1 "s1\<lparr>rd_line := line, rd_linePos := lp, rd_bInComment := inC\<rparr>"] Suc.prems(1) t1
    by (auto simp: g c Let_def split: if_splits)
qed simp

section \<open>What the comment scan computes\<close>

text \<open>The reference: a comment becomes blanks, a double slash ends the line with one; the flag says whether a comment is open.\<close>

fun uncomment :: "bool \<Rightarrow> string \<Rightarrow> string \<times> bool" where
  "uncomment inC [] = ([], inC)"
| "uncomment inC (c # r) =
     (if inC then
        if c = CHR ''*'' \<and> char_at r 0 = CHR ''/'' then apfst ((@) ''  '') (uncomment False (tl r))
        else apfst (Cons (CHR '' '')) (uncomment True r)
      else if c = CHR ''/'' \<and> char_at r 0 = CHR ''/'' then ('' '', False)
      else if c = CHR ''/'' \<and> char_at r 0 = CHR ''*'' then apfst ((@) ''  '') (uncomment True (tl r))
      else apfst (Cons c) (uncomment False r))"

text \<open>The next line without comments: lines are appended while a comment is open.\<close>

fun stripped :: "bool \<Rightarrow> string list \<Rightarrow> (string \<times> string list) option" where
  "stripped inC [] = None"
| "stripped inC (l # ls) = (let (t, b) = uncomment inC l in
     if b then map_option (apfst ((@) t)) (stripped True ls) else Some (t, ls))"

lemma uncomment_skip: "CHR ''/'' \<notin> set xs \<Longrightarrow> uncomment False (xs @ ys) = apfst ((@) xs) (uncomment False ys)"
  by (induction xs) (auto simp: apfst_def map_prod_def split: prod.split)

lemma uncomment_blank: "CHR ''*'' \<notin> set xs \<Longrightarrow> uncomment True (xs @ ys) = apfst ((@) (replicate (length xs) (CHR '' ''))) (uncomment True ys)"
  by (induction xs) (auto simp: apfst_def map_prod_def split: prod.split)

text \<open>What a state of the scan stands for.\<close>

definition scan_wf :: "string \<Rightarrow> nat \<times> nat \<times> bool \<Rightarrow> bool" where
  "scan_wf line st = (case st of (i, j, inC) \<Rightarrow> i \<le> length line \<and> (inC \<longrightarrow> j \<le> i))"

definition scan_sem :: "string \<Rightarrow> nat \<times> nat \<times> bool \<Rightarrow> string \<times> bool" where
  "scan_sem line st = (case st of (i, j, inC) \<Rightarrow>
     apfst ((@) (if inC then take j line @ replicate (i - j) (CHR '' '') else take i line)) (uncomment inC (drop i line)))"

lemma find_split:
  assumes "find_from c line i = Some p"
  shows "drop i line = drop i (take p line) @ c # drop (Suc p) line" "c \<notin> set (drop i (take p line))" "i \<le> p" "p < length line"
    "char_at (drop (Suc p) line) 0 = char_at line (p + 1)" "take i line @ drop i (take p line) = take p line"
proof -
  note f = find_from_Some [OF assms]
  show "i \<le> p" "p < length line" using f by auto
  have "drop i line = drop i (take p line @ drop p line)" by simp
  also have "\<dots> = drop i (take p line) @ drop p line" using f by (subst drop_append) (simp add: min_def)
  also have "drop p line = c # drop (Suc p) line" using f Cons_nth_drop_Suc [of p line] by simp
  finally show "drop i line = drop i (take p line) @ c # drop (Suc p) line" .
  show "char_at (drop (Suc p) line) 0 = char_at line (p + 1)" by (simp add: char_at_def)
  show "take i line @ drop i (take p line) = take p line" using f append_take_drop_id [of i "take p line"] by (simp add: min_def)
  have "\<forall>k. i \<le> k \<and> k < p \<longrightarrow> line ! k \<noteq> c"
  proof (intro allI impI)
    fix k
    assume k: "i \<le> k \<and> k < p"
    obtain m where m: "m < length [i..<length line]" "[i..<length line] ! m = p" "\<forall>j<m. line ! ([i..<length line] ! j) \<noteq> c"
      using assms unfolding find_from_def find_Some_iff by auto
    then show "line ! k \<noteq> c" using k f by (auto dest!: spec [of _ "k - i"])
  qed
  then show "c \<notin> set (drop i (take p line))" using f by (auto simp: in_set_conv_nth)
qed

lemma find_none: "find_from c line i = None \<Longrightarrow> c \<notin> set (drop i line)"
  by (auto simp: find_from_def find_None_iff in_set_conv_nth)

lemma tl_drop_Suc: "tl (drop n xs) = drop (Suc n) xs"
  by (simp add: drop_Suc tl_drop)

lemma scan_code_sem:
  assumes "scan_wf line st"
  shows "case scan_code line st of Inl p \<Rightarrow> p < length line \<and> scan_sem line st = (take p line @ '' '', False)
    | Inr st' \<Rightarrow> scan_wf line st' \<and> scan_sem line st' = scan_sem line st"
proof -
  obtain i j inC where st: "st = (i, j, inC)" by (cases st) auto
  show ?thesis
  proof (cases inC)
    case True
    then show ?thesis using assms by (simp add: scan_code_def st)
  next
    case f: False
    show ?thesis
    proof (cases "find_from (CHR ''/'') line i")
      case None
      have "uncomment False (drop i line) = (drop i line, False)" using uncomment_skip [OF find_none [OF None], of "[]"] by (simp add: apfst_def map_prod_def)
      then show ?thesis using f None by (simp add: scan_code_def st scan_wf_def scan_sem_def)
    next
      case (Some p)
      note sp = find_split [OF Some]
      have u: "apfst ((@) (take i line)) (uncomment False (drop i line)) = apfst ((@) (take p line)) (uncomment False (CHR ''/'' # drop (Suc p) line))"
        unfolding sp(1) uncomment_skip [OF sp(2)] by (subst sp(6) [symmetric]) (simp add: apfst_def map_prod_def split: prod.split)
      have t1: "take p line @ [CHR ''/''] = take (Suc p) line" using find_from_Some [OF Some] by (simp add: take_Suc_conv_app_nth)
      have "char_at line (p + 1) = CHR ''*'' \<Longrightarrow> p + 2 \<le> length line" by (auto simp: char_at_def split: if_splits)
      moreover have "replicate 2 (CHR '' '') = ''  ''" by (simp add: numeral_2_eq_2)
      ultimately show ?thesis using f Some sp(4,5) u t1
        by (auto simp: scan_code_def st scan_wf_def scan_sem_def tl_drop_Suc apfst_def map_prod_def split: prod.split)
    qed
  qed
qed

lemma scan_comment_sem:
  assumes "scan_wf line st" "scan_comment line st = (line', st')"
  shows "length line' = length line \<and> scan_wf line' st' \<and> scan_sem line' st' = scan_sem line st"
proof -
  obtain i j inC where st: "st = (i, j, inC)" by (cases st) auto
  have b: "replicate n (CHR '' '') @ replicate m (CHR '' '') = replicate (n + m) (CHR '' '')" for n m by (simp add: replicate_add)
  show ?thesis
  proof (cases inC)
    case False
    then show ?thesis using assms by (simp add: scan_comment_def st)
  next
    case c: True
    have wf: "i \<le> length line" "j \<le> i" using assms(1) c by (simp_all add: scan_wf_def st)
    show ?thesis
    proof (cases "find_from (CHR ''*'') line i")
      case None
      have "uncomment True (drop i line) = (replicate (length line - i) (CHR '' ''), True)"
        using uncomment_blank [OF find_none [OF None], of "[]"] by (simp add: apfst_def map_prod_def)
      then show ?thesis using c None wf assms(2) by (auto simp: scan_comment_def st scan_wf_def scan_sem_def b)
    next
      case (Some p)
      note sp = find_split [OF Some]
      let ?b = "\<lambda>n. replicate n (CHR '' '')"
      have u: "apfst ((@) (take j line @ ?b (i - j))) (uncomment True (drop i line)) = apfst ((@) (take j line @ ?b (p - j))) (uncomment True (CHR ''*'' # drop (Suc p) line))"
        unfolding sp(1) uncomment_blank [OF sp(2)] using sp(3,4) wf by (simp add: apfst_def map_prod_def min_def b split: prod.split)
      have s: "?b n @ CHR '' '' # xs = ?b (Suc n) @ xs" for n xs by (simp add: replicate_app_Cons_same)
      consider (last) "p = length line - 1" | (close) "p \<noteq> length line - 1" "char_at line (p + 1) = CHR ''/''"
        | (go) "p \<noteq> length line - 1" "char_at line (p + 1) \<noteq> CHR ''/''" by blast
      then show ?thesis
      proof cases
        case last
        have "drop (Suc p) line = []" "?b (length line - j) = CHR '' '' # ?b (length line - Suc j)"
          using sp(3,4) last wf by (simp_all add: Suc_diff_Suc flip: replicate_Suc)
        then show ?thesis using c Some wf assms(2) last sp(3,4) u
          by (auto simp: scan_comment_def st scan_wf_def scan_sem_def char_at_def apfst_def map_prod_def s Suc_diff_le)
      next
        case go
        then show ?thesis using c Some wf assms(2) sp(3,4,5) u
          by (auto simp: scan_comment_def st scan_wf_def scan_sem_def apfst_def map_prod_def s Suc_diff_le split: prod.split)
      next
        case close
        then have p2: "p + 2 \<le> length line" using sp(4) by auto
        have "take (p + 2) (blank_out j (p + 2) line) = take j line @ ?b (p + 2 - j)"
          using wf sp(3) p2 by (intro nth_equalityI) (auto simp: blank_out_def nth_append)
        moreover have "drop (p + 2) (blank_out j (p + 2) line) = drop (p + 2) line"
          using p2 by (intro nth_equalityI) (auto simp: blank_out_def)
        ultimately show ?thesis using c Some wf assms(2) close sp(3,4,5) u p2
          by (auto simp: scan_comment_def st scan_wf_def scan_sem_def apfst_def map_prod_def s Suc_diff_le tl_drop_Suc split: prod.split)
      qed
    qed
  qed
qed

text \<open>At the end of the scan the line is the reference's, or, in an open comment, stands for it.\<close>

lemma scan_line_sem:
  "scan_wf line st \<Longrightarrow> scan_line line st lp = (line', (i', j', inC'), lp') \<Longrightarrow>
    inC' = snd (scan_sem line st) \<and> (if inC' then i' = length line' \<and> scan_wf line' (i', j', True) \<and> scan_sem line' (i', j', True) = scan_sem line st
      else line' = fst (scan_sem line st))"
proof (induction line st lp rule: scan_line.induct)
  case (1 line st lp)
  note code = scan_code_sem [OF "1.prems"(1)]
  show ?case
  proof (cases "scan_code line st")
    case (Inl p)
    then show ?thesis using code "1.prems"(2) by (auto simp: scan_line.simps [of line])
  next
    case (Inr st1)
    obtain line1 i2 j2 b2 where c: "scan_comment line st1 = (line1, (i2, j2, b2))" using prod.exhaust by metis
    from scan_comment_sem [OF _ c] code Inr
    have w: "scan_wf line1 (i2, j2, b2)" "scan_sem line1 (i2, j2, b2) = scan_sem line st" by auto
    show ?thesis
    proof (cases "i2 < length line1")
      case True
      then show ?thesis using "1.IH" [OF Inr c [symmetric] refl] "1.prems"(2) w c by (auto simp: scan_line.simps [of line] Inr split: if_splits)
    next
      case False
      then have e: "line' = line1" "i' = i2" "j' = j2" "inC' = b2" "i2 = length line1" using "1.prems"(2) c w(1)
        by (auto simp: scan_line.simps [of line] Inr scan_wf_def)
      have "scan_sem line1 (i2, j2, b2) = (if b2 then take j2 line1 @ replicate (length line1 - j2) (CHR '' '') else line1, b2)"
        by (simp add: scan_sem_def e(5))
      then have "scan_sem line st = (if b2 then take j2 line1 @ replicate (length line1 - j2) (CHR '' '') else line1, b2)" using w(2) by simp
      then show ?thesis using w e by (cases b2) auto
    qed
  qed
qed

text \<open>Lines without a carriage return, a line feed or a backslash at the end, as the bytes of a file.\<close>

definition plain_line :: "string \<Rightarrow> bool" where
  "plain_line l \<longleftrightarrow> list_all (\<lambda>c. c \<noteq> CHR 0x0A \<and> c \<noteq> CHR 0x0D) l \<and> (l = [] \<or> last l \<noteq> CHR 0x5C)"

definition file_bytes :: "string list \<Rightarrow> string" where
  "file_bytes ls = concat (map (\<lambda>l. l @ [CHR 0x0A]) ls)"

lemma line_part_Cons:
  assumes "list_all (\<lambda>c. c \<noteq> CHR 0x0A) l"
  shows "line_part (l @ CHR 0x0A # r) = l"
  using assms unfolding line_part_def by (induction l) auto

lemma join_plain:
  assumes "good_reads s" "rd_bytes s = file_bytes (l # ls)" "plain_line l" "rd_bInComment s \<longrightarrow> rd_line s = [] \<or> last (rd_line s) \<noteq> CHR 0x5C"
  shows "\<exists>s'. join_lines (Suc n) False s = Some (True, False, s') \<and> good_reads s' \<and> rd_bytes s' = file_bytes ls \<and>
    rd_line s' = (if rd_bInComment s then rd_line s else []) @ l \<and> rd_bInComment s' = rd_bInComment s \<and> rd_errs s' = rd_errs s"
proof -
  have l: "line_part (rd_bytes s) = l" "no_cr l = l" "rd_bytes s \<noteq> []" "drop (Suc (length l)) (rd_bytes s) = file_bytes ls"
    using assms(3) line_part_Cons [of l] by (auto simp: assms(2) file_bytes_def plain_line_def no_cr_def list_all_iff filter_id_conv)
  from next_line [OF assms(1) l(3), of "rd_bInComment s"] obtain s' where g: "GetLineFromFile (rd_bInComment s) s = (True, s')" "good_reads s'"
    "rd_line s' = (if rd_bInComment s then rd_line s else []) @ l" "rd_bytes s' = file_bytes ls" "rd_bInComment s' = rd_bInComment s" "rd_errs s' = rd_errs s"
    unfolding l by blast
  have "\<not> (rd_line s' \<noteq> [] \<and> last (rd_line s') = CHR 0x5C)"
    using assms(3,4) by (auto simp: g(3) plain_line_def last_append)
  then have "join_lines (Suc n) False s = Some (True, False, s')" using g(1) by (auto simp: Let_def)
  then show ?thesis using g(2-) by blast
qed

lemma scan_last:
  assumes "scan_line line st lp = (line', (i', j', inC'), lp')" "line = [] \<or> last line \<noteq> CHR 0x5C" "inC'"
  shows "line' = [] \<or> last line' \<noteq> CHR 0x5C"
  using assms
proof (induction line st lp rule: scan_line.induct)
  case (1 line st lp)
  show ?case
  proof (cases "scan_code line st")
    case (Inl p)
    then show ?thesis using "1.prems" by (simp add: scan_line.simps [of line])
  next
    case (Inr st1)
    obtain line1 i2 j2 b2 where c: "scan_comment line st1 = (line1, (i2, j2, b2))" using prod.exhaust by metis
    have l1: "length line1 = length line" "\<forall>q < length line. line1 ! q = CHR '' '' \<or> line1 ! q = line ! q"
      using c by (cases st1; auto simp: scan_comment_def blank_out_def split: if_splits option.splits)+
    have "line1 = [] \<or> last line1 \<noteq> CHR 0x5C"
    proof (cases "line = []")
      case False
      then have "last line1 = CHR '' '' \<or> last line1 = last line" using l1 by (metis last_conv_nth length_0_conv diff_less length_greater_0_conv zero_less_one)
      then show ?thesis using "1.prems"(2) False by auto
    qed (use l1 in simp)
    then show ?thesis using "1.IH" [OF Inr c [symmetric] refl] "1.prems"(1,3) c by (auto simp: scan_line.simps [of line] Inr split: if_splits)
  qed
qed

lemma strip_plain:
  assumes "stripped (rd_bInComment s) ls = Some (t, rest)" "good_reads s" "rd_bytes s = file_bytes ls" "list_all plain_line ls"
    and "if rd_bInComment s then i = length (rd_line s) \<and> j \<le> i \<and> (rd_line s = [] \<or> last (rd_line s) \<noteq> CHR 0x5C) \<and>
      pre = take j (rd_line s) @ replicate (i - j) (CHR '' '') else i = 0 \<and> pre = []"
  shows "\<exists>s'. strip_loop (n + Suc (length ls)) False i j s = Some (True, s') \<and> rd_line s' = pre @ t \<and> rd_bytes s' = file_bytes rest \<and>
    good_reads s' \<and> \<not> rd_bInComment s' \<and> rd_errs s' = rd_errs s"
  using assms
proof (induction ls arbitrary: s i j pre t)
  case (Cons l ls)
  obtain u b where u: "uncomment (rd_bInComment s) l = (u, b)" by fastforce
  from join_plain [OF Cons.prems(2,3), of "n + length ls"] Cons.prems(4,5) obtain s1 where
    J: "join_lines (Suc (n + length ls)) False s = Some (True, False, s1)" "good_reads s1" "rd_bytes s1 = file_bytes ls"
      "rd_line s1 = (if rd_bInComment s then rd_line s else []) @ l" "rd_bInComment s1 = rd_bInComment s" "rd_errs s1 = rd_errs s" by (auto split: if_splits)
  obtain line i1 j1 inC lp where c: "scan_line (rd_line s1) (i, j, rd_bInComment s1) (rd_linePos s1) = (line, (i1, j1, inC), lp)"
    using prod.exhaust by metis
  have wf: "scan_wf (rd_line s1) (i, j, rd_bInComment s1)" using Cons.prems(5) J(4,5) by (auto simp: scan_wf_def split: if_splits)
  have sem: "scan_sem (rd_line s1) (i, j, rd_bInComment s1) = (pre @ u, b)" using Cons.prems(5) J(4,5) u
    by (auto simp: scan_sem_def split: if_splits)
  note sl = scan_line_sem [OF wf c, unfolded sem]
  let ?s2 = "s1\<lparr>rd_line := line, rd_linePos := lp, rd_bInComment := inC\<rparr>"
  have step: "strip_loop (n + Suc (length (l # ls))) False i j s = (if inC then strip_loop (n + Suc (length ls)) False i1 j1 ?s2 else Some (True, ?s2))"
    using J(1) c by (simp add: Let_def)
  show ?case
  proof (cases b)
    case True
    then obtain t' where t': "stripped True ls = Some (t', rest)" "t = u @ t'" using Cons.prems(1) u by (auto simp: Let_def)
    have inC: "inC" "i1 = length line" "scan_wf line (i1, j1, True)" "scan_sem line (i1, j1, True) = (pre @ u, True)" using sl True by auto
    have "rd_line s1 = [] \<or> last (rd_line s1) \<noteq> CHR 0x5C"
      using Cons.prems(4,5) J(4) by (auto simp: plain_line_def last_append split: if_splits)
    then have ll: "line = [] \<or> last line \<noteq> CHR 0x5C" by (rule scan_last [OF c _ inC(1)])
    have "\<exists>s'. strip_loop (n + Suc (length ls)) False i1 j1 ?s2 = Some (True, s') \<and> rd_line s' = (pre @ u) @ t' \<and> rd_bytes s' = file_bytes rest \<and>
        good_reads s' \<and> \<not> rd_bInComment s' \<and> rd_errs s' = rd_errs ?s2"
    proof (rule Cons.IH)
      show "if rd_bInComment ?s2 then i1 = length (rd_line ?s2) \<and> j1 \<le> i1 \<and> (rd_line ?s2 = [] \<or> last (rd_line ?s2) \<noteq> CHR 0x5C) \<and>
          pre @ u = take j1 (rd_line ?s2) @ replicate (i1 - j1) (CHR '' '') else i1 = 0 \<and> pre @ u = []"
        using inC ll by (simp add: scan_wf_def scan_sem_def)
    qed (use t' J inC(1) Cons.prems(4) in \<open>simp_all add: good_reads_def rd_bytes_def\<close>)
    then show ?thesis using step inC(1) J t'(2) by simp
  next
    case False
    then have "\<not> inC" "line = pre @ u" "t = u" "rest = ls" using sl Cons.prems(1) u by (auto simp: Let_def)
    then show ?thesis using step J by (simp add: good_reads_def rd_bytes_def)
  qed
qed simp

lemma rd_error_fields [simp]:
  "rd_line (rd_error m s) = rd_line s" "rd_linePos (rd_error m s) = rd_linePos s" "rd_buf (rd_error m s) = rd_buf s" "rd_reads (rd_error m s) = rd_reads s"
  "rd_bInComment (rd_error m s) = rd_bInComment s"
  by (simp_all add: rd_error_def)

text \<open>A comment still open at the end of the file, on a line that was continued: the loop does not end.\<close>

lemma open_comment_hangs:
  "good_reads s \<Longrightarrow> rd_bytes s = [] \<Longrightarrow> rd_bInComment s \<Longrightarrow> rd_line s = [] \<or> last (rd_line s) \<noteq> CHR 0x5C \<Longrightarrow>
    strip_loop n True (length (rd_line s)) j s = None"
proof (induction n arbitrary: s)
  case (Suc n)
  show ?case
  proof (cases n)
    case (Suc m)
    have e: "rd_buf s = []" "rd_reads s = []" using Suc.prems(1,2) by (cases "rd_reads s"; auto simp: rd_bytes_def good_reads_def)+
    let ?s = "rd_error ''File ended with continuation'' (s\<lparr>rd_buf := []\<rparr>)"
    have upd: "s\<lparr>rd_reads := [], rd_buf := []\<rparr> = s\<lparr>rd_buf := []\<rparr>" by (rule rd_state.equality) (simp_all add: e)
    have "GetLineFromFile True s = (False, s\<lparr>rd_buf := []\<rparr>)" using e upd by (simp add: GetLineFromFile_def next_read_def)
    then have "join_lines n True s = Some (True, True, ?s)" using Suc.prems(4) Suc by (auto simp: Let_def)
    moreover have "find_from (CHR ''*'') (rd_line s) (length (rd_line s)) = None" by (simp add: find_from_def)
    then have "scan_line (rd_line s) (length (rd_line s), j, True) lp = (rd_line s, (length (rd_line s), j, True), lp)" for lp
      by (simp add: scan_line.simps [of "rd_line s"] scan_code_def scan_comment_def)
    moreover have upd2: "?s\<lparr>rd_line := rd_line s, rd_linePos := rd_linePos s, rd_bInComment := True\<rparr> = ?s"
      by (rule rd_state.equality) (simp_all add: rd_error_def Suc.prems(3))
    ultimately have "strip_loop (Suc n) True (length (rd_line s)) j s = strip_loop n True (length (rd_line s)) j ?s" by (simp add: Let_def Suc.prems(3) upd2)
    then show ?thesis using Suc.prems Suc.IH [of ?s] e by (simp add: good_reads_def rd_bytes_def del: strip_loop.simps)
  qed simp
qed simp

section \<open>Properties\<close>

text \<open>
  C17: the line the preprocessors work on. For a file of lines without continuations, cut up into reads in any way, the next line returned is the
  reference's: comments replaced by blanks of their length, a line comment by one blank, the lines of an open comment joined; the file is left at
  the line behind, and no message is added. The fuel is one more than the lines left.
\<close>

theorem strip_comments:
  assumes "stripped False ls = Some (t, rest)" "good_reads s" "rd_bytes s = file_bytes ls" "list_all plain_line ls" "\<not> rd_bInComment s"
  shows "\<exists>s'. GetLineWithCommentsStripped (n + Suc (length ls)) False s = Some (True, s') \<and> rd_line s' = t \<and> rd_bytes s' = file_bytes rest \<and>
    good_reads s' \<and> \<not> rd_bInComment s' \<and> rd_errs s' = rd_errs s"
  using strip_plain [of s ls t rest 0 0 "[]" n] assms by (simp add: GetLineWithCommentsStripped_def del: strip_loop.simps)

lemma strip_comments_witness:
  "\<exists>s'. GetLineWithCommentsStripped (Suc (Suc (Suc (Suc 0)))) False \<lparr>rd_line = [], rd_linePos = \<lparr>lp_baseOffset = 0, lp_deltaList = []\<rparr>, rd_buf = [],
       rd_reads = [Some ''a/* b'', Some [CHR 0x0A, CHR ''*''], Some [CHR ''/'', CHR ''c'', CHR 0x0A], Some [CHR ''d'', CHR 0x0A]], rd_off = 0, rd_lineNum = 0,
       rd_bInComment = False, rd_errs = []\<rparr> = Some (True, s') \<and> rd_line s' = ''a      c'' \<and> rd_bytes s' = [CHR ''d'', CHR 0x0A]"
  using strip_comments [of "[''a/* b'', ''*/c'', ''d'']" "''a      c''" "[''d'']" "\<lparr>rd_line = [], rd_linePos = \<lparr>lp_baseOffset = 0, lp_deltaList = []\<rparr>, rd_buf = [],
       rd_reads = [Some ''a/* b'', Some [CHR 0x0A, CHR ''*''], Some [CHR ''/'', CHR ''c'', CHR 0x0A], Some [CHR ''d'', CHR 0x0A]], rd_off = 0, rd_lineNum = 0,
       rd_bInComment = False, rd_errs = []\<rparr>" 0]
  by (simp add: char_at_def good_reads_def rd_bytes_def file_bytes_def plain_line_def del: strip_loop.simps) blast

text \<open>
  C18: the position of a character. Whatever lines were joined, comments stripped and carriage returns dropped, a character of the line other than a
  blank is the byte of the file at the offset CLinePos gives for it, and the reader's own offset stays that of the bytes still to be read.
\<close>

theorem line_offsets:
  assumes "GetLineWithCommentsStripped n b s = Some (ok, s')" "tracks F s" "q < length (rd_line s')" "rd_line s' ! q \<noteq> CHR '' ''"
  shows "tracks F s' \<and> 0 \<le> lp_GetFileOffset (rd_linePos s') (int q) \<and> lp_GetFileOffset (rd_linePos s') (int q) < int (length F) \<and>
    F ! nat (lp_GetFileOffset (rd_linePos s') (int q)) = rd_line s' ! q"
proof -
  have t: "tracks F s'" by (rule strip_tracks [OF assms(1) [unfolded GetLineWithCommentsStripped_def] assms(2)])
  then have "placed F (rd_line s') (rd_linePos s') (rd_off s')" by (simp add: tracks_def)
  then show ?thesis using t assms(3,4) unfolding placed_def by blast
qed

lemma line_offsets_witness:
  "\<exists>s'. GetLineWithCommentsStripped (Suc (Suc (Suc 0))) False \<lparr>rd_line = [], rd_linePos = \<lparr>lp_baseOffset = 0, lp_deltaList = []\<rparr>, rd_buf = [],
       rd_reads = [Some ''x /* y'', Some [CHR 0x0D, CHR 0x0A], Some ''z*/ w''], rd_off = 0, rd_lineNum = 0, rd_bInComment = False, rd_errs = []\<rparr> = Some (True, s') \<and>
     (''x /* y'' @ [CHR 0x0D, CHR 0x0A] @ ''z*/ w'') ! nat (lp_GetFileOffset (rd_linePos s') 10) = CHR ''w''"
proof -
  let ?s = "\<lparr>rd_line = [], rd_linePos = \<lparr>lp_baseOffset = 0, lp_deltaList = []\<rparr>, rd_buf = [],
       rd_reads = [Some ''x /* y'', Some [CHR 0x0D, CHR 0x0A], Some ''z*/ w''], rd_off = 0, rd_lineNum = 0, rd_bInComment = False, rd_errs = []\<rparr>"
  let ?F = "''x /* y'' @ [CHR 0x0D, CHR 0x0A] @ ''z*/ w''"
  let ?s' = "\<lparr>rd_line = ''x         w'', rd_linePos = \<lparr>lp_baseOffset = 0, lp_deltaList = [(6, 1), (5, 1)]\<rparr>, rd_buf = [], rd_reads = [], rd_off = 13, rd_lineNum = 2,
       rd_bInComment = False, rd_errs = []\<rparr>"
  have run: "GetLineWithCommentsStripped (Suc (Suc (Suc 0))) False ?s = Some (True, ?s')" by code_simp
  have "tracks ?F ?s" by (simp add: tracks_def good_reads_def rd_bytes_def placed_def)
  from line_offsets [OF run this, of 10] show ?thesis by (intro exI [of _ ?s'] conjI run) simp
qed

end
