(* ===== verification/PreMacro.thy ===== *)
theory PreMacro
  imports PreExpr PreRead
begin

text \<open>
  The macros of the two preprocessors: \<^verbatim>\<open>PreProcessDefine\<close>, \<^verbatim>\<open>PreProcessUndef\<close>, \<^verbatim>\<open>PerformMacroExpansion\<close> and \<^verbatim>\<open>ExpandMacro\<close> of
  \<^verbatim>\<open>src/htl/PreProcess.cpp\<close> and \<^verbatim>\<open>src/Htfe/HtfePreProcess.cpp\<close>, with the macro classes of their headers. A position in a line is an index; the character at the
  length of the line is the null character, and a read behind it stops the run; the lines and the macros' texts hold no other null character. \<open>n\<close> is the fuel: the results are as in \<open>ExprEval\<close>.
\<close>

section \<open>The macro table\<close>

definition new_macro :: cmacro where
  "new_macro = \<lparr>mc_expansion = [], mc_params = [], mc_bIsNew = True, mc_bParenReqd = False, mc_bIsFromIncludeFile = True\<rparr>"

text \<open>Insert keeps an entry there is.\<close>

definition macro_Insert :: "string \<Rightarrow> string \<Rightarrow> macro_tbl \<Rightarrow> macro_tbl" where
  "macro_Insert name value macs = (case macs name of Some m \<Rightarrow> macs | None \<Rightarrow> macs(name \<mapsto> new_macro\<lparr>mc_expansion := value\<rparr>))"

text \<open>The second copy's InsertPreProcessorName takes \<^verbatim>\<open>name=value\<close>, and sets the expansion of an entry there is.\<close>

definition htfe_InsertPreProcessorName :: "string \<Rightarrow> macro_tbl \<Rightarrow> macro_tbl" where
  "htfe_InsertPreProcessorName str macs = (let name = takeWhile (\<lambda>c. c \<noteq> CHR ''='') str; value = tl (dropWhile (\<lambda>c. c \<noteq> CHR ''='') str) in
     macs(name \<mapsto> (case macs name of None \<Rightarrow> new_macro | Some m \<Rightarrow> m)\<lparr>mc_expansion := value\<rparr>))"

definition macro_Remove :: "string \<Rightarrow> macro_tbl \<Rightarrow> macro_tbl" where
  "macro_Remove name macs = macs(name := None)"

definition FindParamId :: "cmacro \<Rightarrow> string \<Rightarrow> nat option" where
  "FindParamId m name = map_option snd (find (\<lambda>p. fst p = name) (mc_params m))"

definition InsertParam :: "string \<Rightarrow> nat \<Rightarrow> cmacro \<Rightarrow> cmacro option" where
  "InsertParam name paramId m = (if FindParamId m name \<noteq> None then None else Some (m\<lparr>mc_params := mc_params m @ [(name, paramId)]\<rparr>))"

definition IsVariadicArg :: "tool \<Rightarrow> cmacro \<Rightarrow> nat \<Rightarrow> bool" where
  "IsVariadicArg h m argId \<longleftrightarrow> h = Htfe \<and> FindParamId m ''__VA_ARGS__'' \<noteq> None \<and> argId + 1 = length (mc_params m)"

section \<open>Scanning\<close>

definition skip_at :: "string \<Rightarrow> nat \<Rightarrow> nat" where
  "skip_at line pos = pos + length (takeWhile is_blank (drop pos line))"

definition name_start_char :: "char \<Rightarrow> bool" where
  "name_start_char c \<longleftrightarrow> c = CHR ''_'' \<or> is_alpha c"

text \<open>ParseIdentifier: the identifier, empty when there is none, and the text behind it.\<close>

definition ParseIdentifier :: "string \<Rightarrow> string \<times> string" where
  "ParseIdentifier p = (if p = [] \<or> \<not> name_start_char (hd p) then ([], p) else (takeWhile is_name p, dropWhile is_name p))"

definition ParseString :: "string \<Rightarrow> string \<times> string" where
  "ParseString p = (case p of [] \<Rightarrow> ([], [])
     | c # q \<Rightarrow> if c \<noteq> CHR 0x22 then ([], q)
       else (case dropWhile (\<lambda>c. c \<noteq> CHR 0x22) q of [] \<Rightarrow> ([], []) | _ # r \<Rightarrow> (takeWhile (\<lambda>c. c \<noteq> CHR 0x22) q, r)))"

section \<open>Expansion\<close>

text \<open>ExpandMacro: the parameters' names in the expansion are replaced; what is put in is not looked at again.\<close>

function ExpandMacro :: "cmacro \<Rightarrow> string list \<Rightarrow> string \<Rightarrow> string option" where
  "ExpandMacro m argList [] = Some []"
| "ExpandMacro m argList (c # p) =
     (if \<not> name_start_char c then map_option (Cons c) (ExpandMacro m argList p)
      else let identifier = takeWhile is_name (c # p) in
        do { r \<leftarrow> ExpandMacro m argList (dropWhile is_name p);
             case FindParamId m identifier of None \<Rightarrow> Some (identifier @ r)
             | Some paramId \<Rightarrow> (if paramId < length argList then Some (argList ! paramId @ r) else None) })"
  by pat_completeness auto

termination
  by (relation "measure (\<lambda>(m, a, p). length p)") (auto simp: le_imp_less_Suc length_dropWhile_le)

text \<open>The loop to the end of an argument; at the end of the line another line is appended, and its first character is stepped over.\<close>

primrec arg_scan :: "nat \<Rightarrow> bool \<Rightarrow> nat \<Rightarrow> nat \<Rightarrow> rd_state \<Rightarrow> (nat \<times> rd_state) option option" where
  "arg_scan 0 bVariadicArg pos parenLvl s = None"
| "arg_scan (Suc n) bVariadicArg pos parenLvl s =
     (if pos > length (rd_line s) then Some None
      else let c = char_at (rd_line s) pos in
        if parenLvl > 0 \<or> ((bVariadicArg \<or> c \<noteq> CHR '','') \<and> c \<noteq> CHR '')'') then
          if c = CHR 0x00 then
            (case GetLineWithCommentsStripped n True s of None \<Rightarrow> None | Some (_, s) \<Rightarrow> arg_scan n bVariadicArg (pos + 1) parenLvl s)
          else if c = CHR ''('' then arg_scan n bVariadicArg (pos + 1) (parenLvl + 1) s
          else if c = CHR '')'' then arg_scan n bVariadicArg (pos + 1) (parenLvl - 1) s
          else arg_scan n bVariadicArg (pos + 1) parenLvl s
        else Some (Some (pos, s)))"

text \<open>The loop that takes the blanks before the end off; its second test reads the character at the end itself.\<close>

fun arg_trim :: "string \<Rightarrow> nat \<Rightarrow> nat \<Rightarrow> nat" where
  "arg_trim line start 0 = 0"
| "arg_trim line start (Suc pos) =
     (if Suc pos > start \<and> (char_at line pos = CHR '' '' \<or> char_at line (Suc pos) = CHR 0x09) then arg_trim line start pos else Suc pos)"

text \<open>The argument list, from behind the left parenthesis or a comma on. \<open>Inl\<close> is the argument error.\<close>

primrec arg_list :: "nat \<Rightarrow> tool \<Rightarrow> cmacro \<Rightarrow> nat \<Rightarrow> string list \<Rightarrow> rd_state \<Rightarrow> (rd_state + nat \<times> string list \<times> rd_state) option option" where
  "arg_list 0 h m pos argList s = None"
| "arg_list (Suc n) h m pos argList s =
     (let start = skip_at (rd_line s) pos in
      after (arg_scan n (IsVariadicArg h m (length argList)) start 0 s) (\<lambda>(pos, s).
        let line = rd_line s; pos = arg_trim line start pos;
            argList = (if pos \<noteq> start then argList @ [take (pos - start) (drop start line)] else argList);
            pos = skip_at line pos in
        if char_at line pos = CHR '','' then arg_list n h m (skip_at line (pos + 1)) argList s
        else if char_at line pos \<noteq> CHR '')'' \<or> length argList \<noteq> length (mc_params m) then Some (Some (Inl (rd_error ''Macro argument error'' s)))
        else Some (Some (Inr (pos + 1, argList, s)))))"

text \<open>\<^verbatim>\<open>sprintf("%d", n)\<close> for a line number.\<close>

fun dec_digits :: "nat \<Rightarrow> string" where
  "dec_digits n = (if n < 10 then [char_of (48 + n)] else dec_digits (n div 10) @ [char_of (48 + n mod 10)])"

declare dec_digits.simps [simp del]

text \<open>The replacement in the line, with the two updates of CLinePos.\<close>

definition replace_in_line :: "nat \<Rightarrow> nat \<Rightarrow> string \<Rightarrow> rd_state \<Rightarrow> rd_state" where
  "replace_in_line startPos endPos expansion s = s\<lparr>rd_line := take startPos (rd_line s) @ expansion @ drop endPos (rd_line s),
     rd_linePos := lp_Insert (int startPos) (int (length expansion)) (lp_Delete (int startPos) (int (endPos - startPos)) (rd_linePos s))\<rparr>"

text \<open>
  PerformMacroExpansion. After a replacement the scan goes on at its start. The second copy stops the run when an expansion at one place comes up again:
  \<open>prev\<close> is its list of expansions with their place.
\<close>

definition recursion_check :: "tool \<Rightarrow> nat \<Rightarrow> string \<Rightarrow> string list \<times> nat option \<Rightarrow> (string list \<times> nat option) option" where
  "recursion_check h startPos expansion prev =
     (if h = Htl then Some prev
      else if Some startPos \<noteq> snd prev then Some ([], Some startPos)
      else if expansion \<in> set (fst prev) then None
      else Some (fst prev @ [expansion], snd prev))"

primrec expand_loop :: "nat \<Rightarrow> tool \<Rightarrow> macro_tbl \<Rightarrow> nat \<Rightarrow> string list \<times> nat option \<Rightarrow> rd_state \<Rightarrow> rd_state option option" where
  "expand_loop 0 h macs pos prev s = None"
| "expand_loop (Suc n) h macs pos prev s =
     (if pos \<ge> length (rd_line s) then Some (Some s)
      else if \<not> name_start_char (rd_line s ! pos) then expand_loop n h macs (pos + 1) prev s
      else let identifier = takeWhile is_name (drop pos (rd_line s)); endPos = pos + length identifier in
        (case macs identifier of None \<Rightarrow> expand_loop n h macs endPos prev s
         | Some pMacro \<Rightarrow>
             let p = skip_at (rd_line s) endPos in
             if char_at (rd_line s) p \<noteq> CHR ''('' \<and> mc_bParenReqd pMacro then expand_loop n h macs p prev s
             else let expansion = (if identifier = ''__LINE__'' then dec_digits (nat (rd_lineNum s)) else mc_expansion pMacro);
                  replace = (\<lambda>endPos expansion s. (case recursion_check h pos expansion prev of None \<Rightarrow> Some None
                      | Some prev \<Rightarrow> expand_loop n h macs pos prev (replace_in_line pos endPos expansion s))) in
               if mc_bParenReqd pMacro then
                 after (arg_list n h pMacro (p + 1) [] s) (\<lambda>r. case r of Inl s \<Rightarrow> Some (Some s)
                   | Inr (endPos, argList, s) \<Rightarrow> (case ExpandMacro pMacro argList expansion of None \<Rightarrow> Some None
                       | Some expansion \<Rightarrow> replace endPos expansion s))
               else replace endPos expansion s))"

definition PerformMacroExpansion :: "nat \<Rightarrow> tool \<Rightarrow> macro_tbl \<Rightarrow> rd_state \<Rightarrow> rd_state option option" where
  "PerformMacroExpansion n h macs s = expand_loop n h macs 0 ([], None) s"

end
