(* ===== verification/PreLines.thy ===== *)
theory PreLines
  imports PreMacro
begin

text \<open>
  The directives and the files of the two preprocessors: \<^verbatim>\<open>GetLine\<close>, \<^verbatim>\<open>Open\<close>, \<^verbatim>\<open>Close\<close> and the \<^verbatim>\<open>PreProcess\<close> functions of
  \<^verbatim>\<open>src/htl/PreProcess.cpp\<close> and \<^verbatim>\<open>src/Htfe/HtfePreProcess.cpp\<close>. The files of the system, the random numbers and the command line are arguments.
  A run that stops (a fatal message, a failed assertion, an access outside of an array) is the inner \<open>None\<close>.
\<close>

section \<open>The state\<close>

text \<open>One entry of the three vectors of the conditional directives, which grow and shrink together; the innermost is the head.\<close>

record cond =
  cd_bSkip :: bool
  cd_bElse :: bool
  cd_bToEndif :: bool

text \<open>A file below the current one.\<close>

record pp_file =
  pf_buf :: string
  pf_reads :: "string option list"
  pf_off :: int
  pf_lineNum :: int
  pf_conds :: "cond list"
  pf_path :: string

text \<open>
  The reader has the current file, when one is open, and the line; then the conditional state and the path of the current file, the files below,
  the macros, the lexer of the expressions, \<^verbatim>\<open>m_bSkipLines\<close>, the lists of \<^verbatim>\<open>#pragma once\<close> files and of includes, messages, the printed text and the
  random numbers to come.
\<close>

record pp_state =
  pp_rd :: rd_state
  pp_open :: bool
  pp_conds :: "cond list"
  pp_path :: string
  pp_below :: "pp_file list"
  pp_macs :: macro_tbl
  pp_lex :: lexer
  pp_bSkipLines :: bool
  pp_once :: "string list"
  pp_includes :: "(string \<times> string) list"
  pp_msgs :: "string list"
  pp_out :: string
  pp_rand :: "nat \<Rightarrow> nat"

text \<open>
  What is outside: opening a file gives the results of its reads, or nothing; \<^verbatim>\<open>realpath\<close>; the include directories; the file name to replace; the
  numbers a seed gives.
\<close>

record pp_env =
  en_open :: "string \<Rightarrow> string option list option"
  en_realpath :: "string \<Rightarrow> string"
  en_dirs :: "string list"
  en_intercept :: string
  en_replace :: string
  en_seed :: "int \<Rightarrow> nat \<Rightarrow> nat"

definition pp_error :: "string \<Rightarrow> pp_state \<Rightarrow> pp_state" where
  "pp_error m s = s\<lparr>pp_msgs := pp_msgs s @ [m]\<rparr>"

definition new_cond :: cond where
  "new_cond = \<lparr>cd_bSkip = False, cd_bElse = False, cd_bToEndif = False\<rparr>"

section \<open>Files\<close>

definition pp_push :: "string \<Rightarrow> string option list \<Rightarrow> pp_state \<Rightarrow> pp_state" where
  "pp_push path reads s = (let r = pp_rd s in
     s\<lparr>pp_below := (if pp_open s then \<lparr>pf_buf = rd_buf r, pf_reads = rd_reads r, pf_off = rd_off r, pf_lineNum = rd_lineNum r, pf_conds = pp_conds s,
           pf_path = pp_path s\<rparr> # pp_below s else []),
       pp_open := True, pp_path := path, pp_conds := [new_cond], pp_rd := r\<lparr>rd_buf := [], rd_reads := reads, rd_off := 0, rd_lineNum := 0\<rparr>\<rparr>)"

text \<open>Open; the file stack has 32 entries, and nothing tests for its end.\<close>

definition pp_Open :: "pp_env \<Rightarrow> string \<Rightarrow> bool \<Rightarrow> pp_state \<Rightarrow> (bool \<times> pp_state) option" where
  "pp_Open env name bProcessOnce s = (
     let fileName = (if name = en_intercept env then en_replace env else name); fullPathName = en_realpath env fileName in
     if pp_open s \<and> bProcessOnce \<and> fullPathName \<in> set (pp_once s) then Some (True, s)
     else if pp_open s \<and> length (pp_below s) + 1 \<ge> 32 then None
     else (case en_open env fileName of None \<Rightarrow> Some (False, s) | Some reads \<Rightarrow> Some (True, pp_push fullPathName reads s)))"

definition pp_Close :: "pp_state \<Rightarrow> pp_state" where
  "pp_Close s = (case pp_below s of [] \<Rightarrow> s\<lparr>pp_open := False\<rparr>
     | f # fs \<Rightarrow> s\<lparr>pp_below := fs, pp_path := pf_path f, pp_conds := pf_conds f,
         pp_rd := (pp_rd s)\<lparr>rd_buf := pf_buf f, rd_reads := pf_reads f, rd_off := pf_off f, rd_lineNum := pf_lineNum f\<rparr>\<rparr>)"

section \<open>Directives\<close>

datatype EDirective = dir_noMatch | dir_define | dir_include | dir_if | dir_ifdef | dir_ifndef | dir_undef | dir_elif | dir_else | dir_endif | dir_pragma

definition directive :: "string \<Rightarrow> EDirective" where
  "directive name =
     (if name = ''define'' then dir_define else if name = ''undef'' then dir_undef else if name = ''include'' then dir_include
      else if name = ''pragma'' then dir_pragma else if name = ''if'' then dir_if else if name = ''else'' then dir_else
      else if name = ''elif'' then dir_elif else if name = ''endif'' then dir_endif else if name = ''ifdef'' then dir_ifdef
      else if name = ''ifndef'' then dir_ifndef else dir_noMatch)"

definition hd_is :: "char \<Rightarrow> string \<Rightarrow> bool" where
  "hd_is c p \<longleftrightarrow> p \<noteq> [] \<and> hd p = c"

subsection \<open>Define and undef\<close>

text \<open>The parameter list, from the character before a parameter on; the macro in the table is changed up to an error (\<open>Inl\<close>).\<close>

lemma parse_identifier_len: "ParseIdentifier p = (name, q) \<Longrightarrow> length q \<le> length p \<and> (name \<noteq> [] \<longrightarrow> length q < length p)"
proof -
  assume a: "ParseIdentifier p = (name, q)"
  show ?thesis
  proof (cases "p = [] \<or> \<not> name_start_char (hd p)")
    case False
    then obtain c r where p: "p = c # r" "is_name c" by (cases p) (auto simp: name_start_char_def is_name_def)
    then show ?thesis using a False length_dropWhile_le [of is_name r] by (auto simp: ParseIdentifier_def)
  qed (use a in \<open>simp add: ParseIdentifier_def\<close>)
qed

lemma skip_space_len: "length (SkipSpace p) \<le> length p"
  by (simp add: SkipSpace_def length_dropWhile_le)

function def_params :: "tool \<Rightarrow> nat \<Rightarrow> string \<Rightarrow> cmacro \<Rightarrow> cmacro \<times> (string + string)" where
  "def_params h paramId p m = (
     let p = SkipSpace (tl p) in
     if hd_is (CHR '')'') p then (m, Inr (tl p))
     else if h = Htfe \<and> take 3 p = ''...'' \<and> \<not> hd_is (CHR '')'') (SkipSpace (drop 3 p)) then (m, Inl ''variadic macro argument must be last argument'')
     else let (paramName, p) = (if h = Htfe \<and> take 3 p = ''...'' then (''__VA_ARGS__'', SkipSpace (drop 3 p)) else ParseIdentifier p) in
       if paramName = [] then (m, Inl ''Parameter name error'')
       else (case InsertParam paramName (case h of Htl \<Rightarrow> length (mc_params m) | Htfe \<Rightarrow> paramId) m of
           None \<Rightarrow> (m, Inl (''Macro has redundant parameter name '' @ quoted paramName))
         | Some m \<Rightarrow> (let p = SkipSpace p in
             if hd_is (CHR '','') p then def_params h (paramId + 1) p m
             else if hd_is (CHR '')'') p then (m, Inr (tl p))
             else (m, Inl ''Parameter list error''))))"
  by pat_completeness auto

termination
proof (relation "measure (\<lambda>(h, k, p, m). length p)", simp)
  fix h k p m p1 name q x m' p2
  assume a: "p1 = SkipSpace (tl p)" "x = (if h = Htfe \<and> take 3 p1 = ''...'' then (''__VA_ARGS__'', SkipSpace (drop 3 p1)) else ParseIdentifier p1)" "(name, q) = x"
    "name \<noteq> []" "p2 = SkipSpace q" "hd_is (CHR '','') p2"
  have "length q < length p1"
  proof (cases "h = Htfe \<and> take 3 p1 = ''...''")
    case True
    then have "p1 \<noteq> []" by auto
    then show ?thesis using True a(2,3) skip_space_len [of "drop 3 p1"] by (cases p1) (auto simp: le_imp_less_Suc intro: le_trans)
  next
    case False
    then have "ParseIdentifier p1 = (name, q)" using a(2,3) by auto
    then show ?thesis using a(4) parse_identifier_len [of p1 name q] by simp
  qed
  then show "((h, k + 1, p2, m'), h, k, p, m) \<in> measure (\<lambda>(h, k, p, m). length p)"
    using a(1,5) skip_space_len [of q] skip_space_len [of "tl p"] by simp
qed

definition rstrip :: "string \<Rightarrow> string" where
  "rstrip p = rev (dropWhile is_blank (rev p))"

fun hex_string :: "nat \<Rightarrow> string" where
  "hex_string n = (let d = (if n mod 16 < 10 then char_of (48 + n mod 16) else char_of (87 + n mod 16)) in if n < 16 then [d] else hex_string (n div 16) @ [d])"

declare hex_string.simps [simp del]

text \<open>The first occurrence of a text is replaced.\<close>

fun replace_first :: "string \<Rightarrow> string \<Rightarrow> string \<Rightarrow> string option" where
  "replace_first old new [] = (if old = [] then Some new else None)"
| "replace_first old new (c # p) =
     (if take (length old) (c # p) = old then Some (new @ drop (length old) (c # p)) else map_option (Cons c) (replace_first old new p))"

text \<open>
  PreProcessDefine, from behind the directive on. The changes of the macro stand in the table also after an error. Its parts: the text of the
  expansion, with a blank behind one that starts with a digit and a random number put in; the new seed; the end.
\<close>

definition define_expansion :: "tool \<Rightarrow> string \<Rightarrow> pp_state \<Rightarrow> string \<times> pp_state" where
  "define_expansion h p s = (
     let expansion = rstrip p @ (if p \<noteq> [] \<and> is_digit (hd p) then '' '' else []) in
     case (if h = Htl then replace_first ''__RANDOM__'' (''0x'' @ hex_string (pp_rand s 0)) expansion else None) of
       None \<Rightarrow> (expansion, s)
     | Some expansion \<Rightarrow> (expansion, s\<lparr>pp_rand := \<lambda>i. pp_rand s (i + 1)\<rparr>))"

definition define_seed :: "nat \<Rightarrow> tool \<Rightarrow> pp_env \<Rightarrow> string \<Rightarrow> string \<Rightarrow> pp_state \<Rightarrow> pp_state option option" where
  "define_seed n h env defineName p s =
     (if h = Htl \<and> defineName = ''__SEED__'' then
        (case pp_GetNextToken True (Some p) (pp_lex s) of None \<Rightarrow> Some None
         | Some (_, pos, lx) \<Rightarrow> after (pp_ParseExpression h (pp_macs s) n True pos lx) (\<lambda>(r, _, lx). Some (Some (
             case r of None \<Rightarrow> pp_error ''#define of __SEED__ must have constant expression'' (s\<lparr>pp_lex := lx\<rparr>)
             | Some seed \<Rightarrow> s\<lparr>pp_lex := lx, pp_rand := en_seed env seed\<rparr>))))
      else Some (Some s))"

definition define_end :: "tool \<Rightarrow> string \<Rightarrow> string \<Rightarrow> cmacro \<Rightarrow> pp_state \<Rightarrow> pp_state" where
  "define_end h defineName expansion m s = s\<lparr>pp_macs := (pp_macs s)(defineName \<mapsto>
     m\<lparr>mc_expansion := expansion, mc_bIsNew := False, mc_bIsFromIncludeFile := (if h = Htl then pp_below s \<noteq> [] else mc_bIsFromIncludeFile m)\<rparr>)\<rparr>"

definition PreProcessDefine :: "nat \<Rightarrow> tool \<Rightarrow> pp_env \<Rightarrow> string \<Rightarrow> pp_state \<Rightarrow> pp_state option option" where
  "PreProcessDefine n h env p s = (
     let (defineName, p) = ParseIdentifier (SkipSpace p) in
     if defineName = [] then Some (Some (pp_error ''Missing define name'' s))
     else
       let macs = macro_Insert defineName [] (pp_macs s); m = the (macs defineName);
           s = (if mc_bIsNew m then s else pp_error ''     Original definition'' (pp_error (''Redefinition of '' @ defineName) s));
           (m, r) = (if hd_is (CHR ''('') p then def_params h 0 p (m\<lparr>mc_bParenReqd := True\<rparr>) else (m, Inr p));
           s = s\<lparr>pp_macs := macs(defineName \<mapsto> m)\<rparr> in
       (case r of Inl msg \<Rightarrow> Some (Some (pp_error msg s))
        | Inr p \<Rightarrow>
            let p = SkipSpace p; (expansion, s) = define_expansion h p s in
            after (define_seed n h env defineName p s) (\<lambda>s. Some (Some (define_end h defineName expansion m s)))))"

definition PreProcessUndef :: "string \<Rightarrow> pp_state \<Rightarrow> pp_state" where
  "PreProcessUndef p s = (let (undefName, p) = ParseIdentifier (SkipSpace p) in
     if undefName = [] then pp_error ''Missing undef name'' s else s\<lparr>pp_macs := macro_Remove undefName (pp_macs s)\<rparr>)"

subsection \<open>Include and pragma\<close>

text \<open>The directories are tried in their order, then the name itself; only the first copy lists the includes of the outermost file.\<close>

definition list_include :: "tool \<Rightarrow> pp_env \<Rightarrow> string \<Rightarrow> pp_state \<Rightarrow> pp_state" where
  "list_include h env pathName s =
     (if h = Htl \<and> length (pp_below s) = 1 then s\<lparr>pp_includes := pp_includes s @ [(en_realpath env pathName, pathName)]\<rparr> else s)"

fun try_dirs :: "tool \<Rightarrow> pp_env \<Rightarrow> string list \<Rightarrow> string \<Rightarrow> pp_state \<Rightarrow> (bool \<times> pp_state) option" where
  "try_dirs h env [] fileName s = Some (False, s)"
| "try_dirs h env (dir # dirs) fileName s = (case pp_Open env (dir @ fileName) True s of None \<Rightarrow> None
     | Some (ok, s) \<Rightarrow> if ok then Some (True, list_include h env (dir @ fileName) s) else try_dirs h env dirs fileName s)"

definition PreProcessInclude :: "tool \<Rightarrow> pp_env \<Rightarrow> string \<Rightarrow> pp_state \<Rightarrow> pp_state option" where
  "PreProcessInclude h env p s = (
     let p = SkipSpace p in
     if hd_is (CHR ''<'') p then Some s
     else if \<not> hd_is (CHR 0x22) p then Some (pp_error ''Include file error'' s)
     else let (fileName, p) = ParseString p in
       if fileName = [] then Some (pp_error ''Include file error'' s)
       else (case try_dirs h env (en_dirs env) fileName s of None \<Rightarrow> None
         | Some (True, s) \<Rightarrow> Some s
         | Some (False, s) \<Rightarrow> (case pp_Open env fileName True s of None \<Rightarrow> None
             | Some (True, s) \<Rightarrow> Some (list_include h env fileName s)
             | Some (False, s) \<Rightarrow> if h = Htl then None else Some (pp_error (''Could not open file '' @ quoted fileName) s))))"

text \<open>The text in quotes of a message: what is printed and the text behind; an escape at the end is read past.\<close>

fun message_text :: "string \<Rightarrow> (string \<times> string) option" where
  "message_text [] = Some ([], [])"
| "message_text (c # p) =
     (if c = CHR 0x22 then Some ([], p)
      else if c = CHR 0x0A then Some ([], p)
      else if c = CHR 0x5C then (case p of [] \<Rightarrow> None
        | d # q \<Rightarrow> map_option (apfst ((@) (if d = CHR ''n'' then [CHR 0x0A] else []))) (message_text q))
      else map_option (apfst (Cons c)) (message_text p))"

primrec pragma_message :: "nat \<Rightarrow> string \<Rightarrow> pp_state \<Rightarrow> pp_state option option" where
  "pragma_message 0 p s = None"
| "pragma_message (Suc n) p s = (let p = SkipSpace p in
     if p = [] then Some (Some (s\<lparr>pp_out := pp_out s @ [CHR 0x0A]\<rparr>))
     else if hd p = CHR 0x22 then (case message_text (tl p) of None \<Rightarrow> Some None
       | Some (t, p) \<Rightarrow> pragma_message n p (s\<lparr>pp_out := pp_out s @ t\<rparr>))
     else let (name, p) = ParseIdentifier p in
       (case pp_macs s name of None \<Rightarrow> Some (Some (s\<lparr>pp_out := pp_out s @ [CHR 0x0A]\<rparr>))
        | Some m \<Rightarrow> (case pp_GetNextToken False (Some (mc_expansion m)) (pp_lex s) of None \<Rightarrow> Some None
            | Some (_, pos, lx) \<Rightarrow> after (pp_ParseExpression Htl (pp_macs s) n False pos lx) (\<lambda>(r, _, lx).
                pragma_message n p (s\<lparr>pp_lex := lx, pp_out := pp_out s @ (case r of None \<Rightarrow> mc_expansion m
                  | Some v \<Rightarrow> ''0x'' @ hex_string (nat (take_bit 32 v)))\<rparr>)))))"

subsection \<open>Conditionals\<close>

definition PreProcessIfdef :: "string \<Rightarrow> pp_state \<Rightarrow> bool \<times> pp_state" where
  "PreProcessIfdef p s = (let (identifier, p) = ParseIdentifier (SkipSpace p) in
     if identifier = [] \<or> SkipSpace p \<noteq> [] then (False, pp_error ''Unknown #ifdef directive format'' s)
     else (pp_macs s identifier = None, s))"

definition PreProcessIfndef :: "string \<Rightarrow> pp_state \<Rightarrow> bool \<times> pp_state" where
  "PreProcessIfndef p s = (let (identifier, p) = ParseIdentifier (SkipSpace p) in
     if identifier = [] \<or> SkipSpace p \<noteq> [] then (False, pp_error ''Unknown #ifmdef directive format'' s)
     else (pp_macs s identifier \<noteq> None, s))"

definition pp_if :: "nat \<Rightarrow> tool \<Rightarrow> string \<Rightarrow> pp_state \<Rightarrow> (bool \<times> pp_state) option option" where
  "pp_if n h p s = after (PreProcessIf h (pp_macs s) n (Some p) (pp_lex s)) (\<lambda>(b, lx). Some (Some (b, s\<lparr>pp_lex := lx\<rparr>)))"

text \<open>The end of a conditional directive: \<open>skip\<close> is the value of its condition.\<close>

definition push_cond :: "bool \<times> pp_state \<Rightarrow> pp_state" where
  "push_cond x = (case x of (skip, s) \<Rightarrow> let b = (pp_bSkipLines s \<or> skip) in
     s\<lparr>pp_bSkipLines := b, pp_conds := \<lparr>cd_bSkip = b, cd_bElse = False, cd_bToEndif = \<not> b\<rparr> # pp_conds s\<rparr>)"

definition set_cond :: "cond \<Rightarrow> pp_state \<Rightarrow> pp_state" where
  "set_cond c s = s\<lparr>pp_conds := c # tl (pp_conds s)\<rparr>"

text \<open>A directive line ends the call (\<open>Ret\<close>) or the loop goes on (\<open>Again\<close>).\<close>

datatype step_result = Again pp_state | Ret pp_state

text \<open>The switch when lines are not skipped; \<open>p\<close> is the text behind the directive's name.\<close>

definition active_directive :: "nat \<Rightarrow> tool \<Rightarrow> pp_env \<Rightarrow> string \<Rightarrow> string \<Rightarrow> pp_state \<Rightarrow> step_result option option" where
  "active_directive n h env name p s = (
     let go = (\<lambda>s. Some (Some (Again s))); cur = hd (pp_conds s) in
     case directive name of
       dir_define \<Rightarrow> after (PreProcessDefine n h env p s) go
     | dir_undef \<Rightarrow> go (PreProcessUndef p s)
     | dir_include \<Rightarrow> (case PreProcessInclude h env p s of None \<Rightarrow> Some None | Some s \<Rightarrow> go s)
     | dir_if \<Rightarrow> after (pp_if n h p s) (\<lambda>x. go (push_cond x))
     | dir_ifdef \<Rightarrow> go (push_cond (PreProcessIfdef p s))
     | dir_ifndef \<Rightarrow> go (push_cond (PreProcessIfndef p s))
     | dir_else \<Rightarrow> go (if length (pp_conds s) \<le> 1 \<or> cd_bElse cur then pp_error ''Unexpected #else directive'' s
         else set_cond \<lparr>cd_bSkip = True, cd_bElse = True, cd_bToEndif = True\<rparr> (s\<lparr>pp_bSkipLines := True\<rparr>))
     | dir_elif \<Rightarrow> go (if length (pp_conds s) \<le> 1 \<or> cd_bElse cur then pp_error ''Unexpected #elif directive'' s
         else set_cond \<lparr>cd_bSkip = True, cd_bElse = False, cd_bToEndif = True\<rparr> (s\<lparr>pp_bSkipLines := True\<rparr>))
     | dir_endif \<Rightarrow> go (if length (pp_conds s) \<le> 1 then pp_error ''Unexpected #endif directive'' s else s\<lparr>pp_conds := tl (pp_conds s)\<rparr>)
     | dir_pragma \<Rightarrow> (let (pragmaName, p) = ParseIdentifier (SkipSpace p) in
         if pragmaName = ''once'' then go (s\<lparr>pp_once := pp_once s @ [pp_path s]\<rparr>)
         else if h = Htl \<and> pragmaName = ''htl'' then Some (Some (Ret (s\<lparr>pp_rd := (pp_rd s)\<lparr>rd_line := rd_line (pp_rd s) @ ''#''\<rparr>\<rparr>)))
         else if h = Htl \<and> pragmaName = ''message'' then after (pragma_message n p s) go
         else go s)
     | dir_noMatch \<Rightarrow> Some (Some (Ret (pp_error ''Unknown preprocessing directive'' s))))"

text \<open>The switch when lines are skipped.\<close>

definition skipped_directive :: "nat \<Rightarrow> tool \<Rightarrow> string \<Rightarrow> string \<Rightarrow> pp_state \<Rightarrow> pp_state option option" where
  "skipped_directive n h name p s = (
     let go = (\<lambda>s. Some (Some s)) in
     case pp_conds s of [] \<Rightarrow> Some None | cur # below \<Rightarrow>
     (case directive name of
       dir_if \<Rightarrow> go (s\<lparr>pp_conds := \<lparr>cd_bSkip = True, cd_bElse = False, cd_bToEndif = True\<rparr> # pp_conds s\<rparr>)
     | dir_ifdef \<Rightarrow> go (s\<lparr>pp_conds := \<lparr>cd_bSkip = True, cd_bElse = False, cd_bToEndif = True\<rparr> # pp_conds s\<rparr>)
     | dir_ifndef \<Rightarrow> go (s\<lparr>pp_conds := \<lparr>cd_bSkip = True, cd_bElse = False, cd_bToEndif = True\<rparr> # pp_conds s\<rparr>)
     | dir_else \<Rightarrow>
         (case below of [] \<Rightarrow> Some None | outer # _ \<Rightarrow>
           let s = (if cd_bElse cur then pp_error ''Unexpected #else directive'' s else s) in
           go (if \<not> cd_bSkip outer \<and> \<not> cd_bToEndif cur
             then set_cond (cur\<lparr>cd_bElse := True, cd_bSkip := False\<rparr>) (s\<lparr>pp_bSkipLines := False\<rparr>)
             else set_cond (cur\<lparr>cd_bElse := True\<rparr>) s))
     | dir_elif \<Rightarrow>
         (case below of [] \<Rightarrow> Some None | outer # _ \<Rightarrow>
           let s = (if cd_bElse cur then pp_error ''Unexpected #elif directive'' s else s) in
           if \<not> cd_bSkip outer \<and> \<not> cd_bToEndif cur
             then after (pp_if n h p s) (\<lambda>(skip, s). go (set_cond \<lparr>cd_bSkip = skip, cd_bElse = False, cd_bToEndif = \<not> skip\<rparr> (s\<lparr>pp_bSkipLines := skip\<rparr>)))
             else go s)
     | dir_endif \<Rightarrow> (case below of [] \<Rightarrow> Some None | outer # _ \<Rightarrow> go (s\<lparr>pp_conds := below, pp_bSkipLines := cd_bSkip outer\<rparr>))
     | _ \<Rightarrow> go s))"

section \<open>GetLine\<close>

text \<open>One pass of the loop: a line is read; \<open>Ret\<close> with the flag of the result, or the loop goes on.\<close>

definition end_of_file_step :: "pp_state \<Rightarrow> pp_state" where
  "end_of_file_step s = (let s = (if length (pp_conds s) \<noteq> 1 then (pp_error ''EOF - Expected #endif'' s)\<lparr>pp_conds := [last (pp_conds s)]\<rparr> else s) in pp_Close s)"

definition expand_line :: "nat \<Rightarrow> tool \<Rightarrow> pp_state \<Rightarrow> pp_state option option" where
  "expand_line n h s = after (PerformMacroExpansion n h (pp_macs s) (pp_rd s)) (\<lambda>r. Some (Some (s\<lparr>pp_rd := r\<rparr>)))"

text \<open>A line without its comments: text or a directive.\<close>

definition line_step :: "nat \<Rightarrow> tool \<Rightarrow> pp_env \<Rightarrow> pp_state \<Rightarrow> step_result option option" where
  "line_step n h env s = (
     let line = SkipSpace (rd_line (pp_rd s)) in
     if \<not> hd_is (CHR ''#'') line then
       (if pp_bSkipLines s then Some (Some (Again s)) else after (expand_line n h s) (\<lambda>s. Some (Some (Ret s))))
     else let p = SkipSpace (tl line) in
       if p = [] then Some (Some (Again s))
       else let (name, p) = ParseIdentifier p in
         if \<not> pp_bSkipLines s then active_directive n h env name p s
         else after (skipped_directive n h name p s) (\<lambda>s. Some (Some (Again s))))"

primrec pp_GetLine :: "nat \<Rightarrow> tool \<Rightarrow> pp_env \<Rightarrow> pp_state \<Rightarrow> (bool \<times> pp_state) option option" where
  "pp_GetLine 0 h env s = None"
| "pp_GetLine (Suc n) h env s =
     (case GetLineWithCommentsStripped n False (pp_rd s) of None \<Rightarrow> None
      | Some (ok, r) \<Rightarrow> let s = s\<lparr>pp_rd := r\<rparr> in
          if \<not> ok then (let s = end_of_file_step s in if pp_open s then pp_GetLine n h env s else Some (Some (False, s)))
          else after (line_step n h env s) (\<lambda>x. case x of Again s \<Rightarrow> pp_GetLine n h env s | Ret s \<Rightarrow> Some (Some (True, s))))"

text \<open>The constructor's macros; Reopen starts the first file again.\<close>

definition initial_macros :: "tool \<Rightarrow> nat \<Rightarrow> macro_tbl" where
  "initial_macros h seed = (let macs = macro_Insert ''__LINE__'' [] (macro_Insert ''_HTV'' [] Map.empty) in
     case h of Htl \<Rightarrow> macro_Insert ''__SEED__'' (''0x'' @ hex_string seed) macs | Htfe \<Rightarrow> macs)"

definition pp_initial :: "tool \<Rightarrow> nat \<Rightarrow> (nat \<Rightarrow> nat) \<Rightarrow> pp_state" where
  "pp_initial h seed rand = \<lparr>pp_rd = \<lparr>rd_line = [], rd_linePos = \<lparr>lp_baseOffset = 0, lp_deltaList = []\<rparr>, rd_buf = [], rd_reads = [], rd_off = 0,
       rd_lineNum = 0, rd_bInComment = False, rd_errs = []\<rparr>, pp_open = False, pp_conds = [], pp_path = [], pp_below = [],
     pp_macs = initial_macros h seed, pp_lex = \<lparr>lx_tk = eTkExprBegin, lx_str = [], lx_errs = []\<rparr>, pp_bSkipLines = False, pp_once = [],
     pp_includes = [], pp_msgs = [], pp_out = [], pp_rand = rand\<rparr>"

definition pp_Reopen :: "pp_env \<Rightarrow> string \<Rightarrow> pp_state \<Rightarrow> bool \<times> pp_state" where
  "pp_Reopen env path s = (let s = s\<lparr>pp_below := [], pp_bSkipLines := False, pp_rd := (pp_rd s)\<lparr>rd_bInComment := False\<rparr>, pp_path := path\<rparr> in
     case en_open env path of None \<Rightarrow> (False, s)
     | Some reads \<Rightarrow> (True, s\<lparr>pp_open := True, pp_conds := [new_cond],
         pp_rd := (pp_rd s)\<lparr>rd_buf := [], rd_reads := reads, rd_off := 0, rd_lineNum := 0\<rparr>\<rparr>))"

text \<open>The second copy.\<close>

definition htfe_PreProcessDefine :: "nat \<Rightarrow> pp_env \<Rightarrow> string \<Rightarrow> pp_state \<Rightarrow> pp_state option option" where
  "htfe_PreProcessDefine n = PreProcessDefine n Htfe"

definition htfe_PreProcessUndef :: "string \<Rightarrow> pp_state \<Rightarrow> pp_state" where
  "htfe_PreProcessUndef = PreProcessUndef"

definition htfe_PreProcessInclude :: "pp_env \<Rightarrow> string \<Rightarrow> pp_state \<Rightarrow> pp_state option" where
  "htfe_PreProcessInclude = PreProcessInclude Htfe"

definition htfe_PreProcessIf :: "nat \<Rightarrow> string \<Rightarrow> pp_state \<Rightarrow> (bool \<times> pp_state) option option" where
  "htfe_PreProcessIf n = pp_if n Htfe"

definition htfe_PreProcessIfdef :: "string \<Rightarrow> pp_state \<Rightarrow> bool \<times> pp_state" where
  "htfe_PreProcessIfdef = PreProcessIfdef"

definition htfe_PreProcessIfndef :: "string \<Rightarrow> pp_state \<Rightarrow> bool \<times> pp_state" where
  "htfe_PreProcessIfndef = PreProcessIfndef"

definition htfe_Open :: "pp_env \<Rightarrow> string \<Rightarrow> bool \<Rightarrow> pp_state \<Rightarrow> (bool \<times> pp_state) option" where
  "htfe_Open = pp_Open"

definition htfe_Reopen :: "pp_env \<Rightarrow> string \<Rightarrow> pp_state \<Rightarrow> bool \<times> pp_state" where
  "htfe_Reopen = pp_Reopen"

definition htfe_Close :: "pp_state \<Rightarrow> pp_state" where
  "htfe_Close = pp_Close"

definition htfe_GetLine :: "nat \<Rightarrow> pp_env \<Rightarrow> pp_state \<Rightarrow> (bool \<times> pp_state) option option" where
  "htfe_GetLine n = pp_GetLine n Htfe"

definition htfe_PerformMacroExpansion :: "nat \<Rightarrow> macro_tbl \<Rightarrow> rd_state \<Rightarrow> rd_state option option" where
  "htfe_PerformMacroExpansion n = PerformMacroExpansion n Htfe"

definition htfe_ExpandMacro :: "cmacro \<Rightarrow> string list \<Rightarrow> string \<Rightarrow> string option" where
  "htfe_ExpandMacro = ExpandMacro"

end
