(* ===== verification/PreExpand.thy ===== *)
theory PreExpand
  imports PreLines
begin

text \<open>Macros without parameters: the loop of \<^verbatim>\<open>PerformMacroExpansion\<close> against the full expansion of a text.\<close>

section \<open>Object-like macros\<close>

text \<open>The identifiers of a text in the scan's sense, and the reference: every identifier's expansion, expanded in turn to the depth \<open>d\<close>.\<close>

function idents :: "string \<Rightarrow> string list" where
  "idents [] = []"
| "idents (c # p) = (if \<not> name_start_char c then idents p else takeWhile is_name (c # p) # idents (dropWhile is_name p))"
  by pat_completeness auto

termination
  by (relation "measure length") (auto simp: le_imp_less_Suc length_dropWhile_le)

text \<open>The text a macro stands for in the line of number \<open>ln\<close>.\<close>

definition expansion_of :: "int \<Rightarrow> string \<Rightarrow> cmacro \<Rightarrow> string" where
  "expansion_of ln name m = (if name = ''__LINE__'' then dec_digits (nat ln) else mc_expansion m)"

function full_expand :: "int \<Rightarrow> macro_tbl \<Rightarrow> nat \<Rightarrow> string \<Rightarrow> string" where
  "full_expand ln macs d [] = []"
| "full_expand ln macs d (c # p) =
     (if \<not> name_start_char c then c # full_expand ln macs d p
      else let identifier = takeWhile is_name (c # p) in
        (case d of 0 \<Rightarrow> identifier | Suc d' \<Rightarrow> (case macs identifier of None \<Rightarrow> identifier | Some m \<Rightarrow> full_expand ln macs d' (expansion_of ln identifier m))) @
        full_expand ln macs d (dropWhile is_name p))"
  by pat_completeness auto

termination
  by (relation "measures [\<lambda>(ln, macs, d, p). d, \<lambda>(ln, macs, d, p). length p]") (auto simp: le_imp_less_Suc length_dropWhile_le)

text \<open>A rank that falls from a macro to those its expansion names; the macro of the line number names none.\<close>

definition ranked :: "(string \<Rightarrow> nat) \<Rightarrow> macro_tbl \<Rightarrow> bool" where
  "ranked rank macs \<longleftrightarrow> (\<forall>name m. macs name = Some m \<longrightarrow> \<not> mc_bParenReqd m \<and>
     (name = ''__LINE__'' \<or> (\<forall>i \<in> set (idents (mc_expansion m)). i \<in> dom macs \<longrightarrow> rank i < rank name)))"

lemma digits_no_names: "\<forall>c \<in> set (dec_digits n). \<not> name_start_char c"
proof (induction n rule: dec_digits.induct)
  case (1 n)
  have d: "\<not> name_start_char (char_of (48 + k))" if "k < 10" for k :: nat
  proof -
    have c: "char_code (char_of (48 + k)) = 48 + k"
      using that by simp
    have "char_of (48 + k) \<noteq> CHR ''_''"
    proof
      assume "char_of (48 + k) = CHR ''_''"
      then have "char_code (char_of (48 + k)) = char_code (CHR ''_'')"
        by simp
      then show False
        using c that by simp
    qed
    then show ?thesis
      using c that by (simp add: name_start_char_def is_alpha_def)
  qed
  show ?case
  proof (cases "n < 10")
    case True
    then have "dec_digits n = [char_of (48 + n)]"
      by (subst dec_digits.simps) simp
    then show ?thesis
      using d [OF True] by simp
  next
    case False
    then have "dec_digits n = dec_digits (n div 10) @ [char_of (48 + n mod 10)]"
      by (subst dec_digits.simps) simp
    then show ?thesis
      using 1 [OF False] d [of "n mod 10"] by (simp add: ball_Un)
  qed
qed

lemma idents_none: "\<forall>c \<in> set p. \<not> name_start_char c \<Longrightarrow> idents p = []"
  by (induction p) simp_all

lemma ranked_expansion:
  "ranked rank macs \<Longrightarrow> macs name = Some m \<Longrightarrow> i \<in> set (idents (expansion_of ln name m)) \<Longrightarrow> i \<in> dom macs \<Longrightarrow> rank i < rank name"
  using idents_none [OF digits_no_names] unfolding ranked_def expansion_of_def by (cases "name = ''__LINE__''") (simp_all, blast)

text \<open>The first identifier of a text, when the text starts with one.\<close>

definition head_ident :: "string \<Rightarrow> string option" where
  "head_ident p = (if p \<noteq> [] \<and> name_start_char (hd p) then Some (takeWhile is_name p) else None)"

text \<open>The list of the second copy does not hold an expansion again: the first identifiers of those at this place have no smaller rank.\<close>

definition fresh_at :: "(string \<Rightarrow> nat) \<Rightarrow> macro_tbl \<Rightarrow> nat \<Rightarrow> string option \<Rightarrow> string list \<times> nat option \<Rightarrow> bool" where
  "fresh_at rank macs pos cur prev \<longleftrightarrow> (case snd prev of None \<Rightarrow> True | Some q \<Rightarrow> q \<le> pos \<and>
     (q = pos \<longrightarrow> (case cur of None \<Rightarrow> True | Some i \<Rightarrow> i \<in> dom macs \<longrightarrow>
       (\<forall>e \<in> set (fst prev). \<exists>j. head_ident e = Some j \<and> j \<in> dom macs \<and> rank i \<le> rank j))))"

lemma is_name_start: "name_start_char c \<Longrightarrow> is_name c"
  by (auto simp: name_start_char_def is_name_def)

lemma fresh_check:
  assumes "fresh_at rank macs pos (Some i) prev" "macs i = Some m" "ranked rank macs"
  shows "\<exists>prev'. recursion_check h pos (expansion_of ln i m) prev = Some prev' \<and> (snd prev' = Some pos \<or> prev' = prev) \<and>
    (h = Htfe \<longrightarrow> fresh_at rank macs pos (head_ident (expansion_of ln i m)) prev')"
proof (cases "h = Htl")
  case True
  then show ?thesis by (simp add: recursion_check_def)
next
  case False
  have r: "rank j < rank i" if "head_ident (expansion_of ln i m) = Some j" "j \<in> dom macs" for j
  proof -
    have "j \<in> set (idents (expansion_of ln i m))" using that(1) by (cases "expansion_of ln i m") (auto simp: head_ident_def split: if_splits)
    then show ?thesis using ranked_expansion [OF assms(3,2)] that(2) by blast
  qed
  have h: "h = Htfe" using False by (cases h) auto
  show ?thesis
  proof (cases "Some pos = snd prev")
    case True
    have e: "\<exists>j. head_ident e = Some j \<and> j \<in> dom macs \<and> rank i \<le> rank j" if "e \<in> set (fst prev)" for e
      using assms(1,2) True that by (cases prev) (auto simp: fresh_at_def)
    have "expansion_of ln i m \<notin> set (fst prev)" using e r by fastforce
    moreover have "fresh_at rank macs pos (head_ident (expansion_of ln i m)) (fst prev @ [expansion_of ln i m], snd prev)"
      using e r True by (cases "snd prev") (fastforce simp: fresh_at_def split: option.split)+
    ultimately show ?thesis using True h by (simp add: recursion_check_def)
  next
    case False
    then show ?thesis using h by (auto simp: recursion_check_def fresh_at_def split: option.split)
  qed
qed


lemma takeWhile_stop: "r = [] \<or> \<not> P (hd r) \<Longrightarrow> takeWhile P (t @ r) = takeWhile P t"
  by (induction t) (auto simp: takeWhile_eq_Nil_iff)

lemma dropWhile_hd: "dropWhile P xs = [] \<or> \<not> P (hd (dropWhile P xs))"
  using hd_dropWhile by blast

text \<open>What a step leaves but for the line: the position list of the line aside.\<close>

definition same_read :: "rd_state \<Rightarrow> rd_state \<Rightarrow> bool" where
  "same_read s s' \<longleftrightarrow> s'\<lparr>rd_line := rd_line s, rd_linePos := rd_linePos s\<rparr> = s"

lemma same_read_refl: "same_read s s"
  by (simp add: same_read_def)

lemma same_read_trans: "same_read s s' \<Longrightarrow> same_read s' s'' \<Longrightarrow> same_read s s''"
  by (cases s; cases s'; cases s'') (simp add: same_read_def)

lemma same_read_line: "same_read s s' \<Longrightarrow> rd_lineNum s' = rd_lineNum s"
  by (cases s; cases s') (simp add: same_read_def)

lemma same_read_replace: "same_read s (replace_in_line a b x s)"
  by (simp add: same_read_def replace_in_line_def)

text \<open>The loop replaces the text up to \<open>r\<close> by \<open>x\<close> and stands behind it.\<close>

definition runs_to :: "tool \<Rightarrow> macro_tbl \<Rightarrow> (string \<Rightarrow> nat) \<Rightarrow> nat \<Rightarrow> string list \<times> nat option \<Rightarrow> rd_state \<Rightarrow> string \<Rightarrow> string \<Rightarrow> bool" where
  "runs_to h macs rank pos prev s x r \<longleftrightarrow> (\<exists>k prev' s'. (\<forall>n. expand_loop (n + k) h macs pos prev s = expand_loop n h macs (pos + length x) prev' s') \<and>
     rd_line s' = take pos (rd_line s) @ x @ r \<and> same_read s s' \<and> (h = Htfe \<longrightarrow> fresh_at rank macs (pos + length x) None prev'))"

lemma fresh_later: "fresh_at rank macs pos cur prev \<Longrightarrow> fresh_at rank macs (pos + n) None prev"
  by (auto simp: fresh_at_def split: option.splits)

lemma fresh_next: "fresh_at rank macs pos cur prev \<Longrightarrow> fresh_at rank macs (Suc (pos + n)) cur' prev"
  by (auto simp: fresh_at_def split: option.splits)

lemma runs_trans:
  assumes "runs_to h macs rank pos prev s x r0" "pos \<le> length (rd_line s)"
    "\<And>prev' s'. rd_line s' = take pos (rd_line s) @ x @ r0 \<Longrightarrow> same_read s s' \<Longrightarrow> (h = Htfe \<Longrightarrow> fresh_at rank macs (pos + length x) None prev') \<Longrightarrow>
      runs_to h macs rank (pos + length x) prev' s' y r"
  shows "runs_to h macs rank pos prev s (x @ y) r"
proof -
  obtain k prev' s' where 1: "\<And>n. expand_loop (n + k) h macs pos prev s = expand_loop n h macs (pos + length x) prev' s'"
    "rd_line s' = take pos (rd_line s) @ x @ r0" "same_read s s'" "h = Htfe \<Longrightarrow> fresh_at rank macs (pos + length x) None prev'"
    using assms(1) unfolding runs_to_def by blast
  obtain k' prev'' s'' where 2: "\<And>n. expand_loop (n + k') h macs (pos + length x) prev' s' = expand_loop n h macs (pos + length x + length y) prev'' s''"
    "rd_line s'' = take (pos + length x) (rd_line s') @ y @ r" "same_read s' s''" "h = Htfe \<Longrightarrow> fresh_at rank macs (pos + length x + length y) None prev''"
    using assms(3) [OF 1(2,3,4)] unfolding runs_to_def by blast
  have "expand_loop (n + (k' + k)) h macs pos prev s = expand_loop n h macs (pos + length (x @ y)) prev'' s''" for n
    using 1(1) [of "n + k'"] 2(1) [of n] by (simp add: ac_simps)
  moreover have "rd_line s'' = take pos (rd_line s) @ (x @ y) @ r" using assms(2) by (simp add: 2(2) 1(2))
  ultimately show ?thesis unfolding runs_to_def using same_read_trans [OF 1(3) 2(3)] 2(4)
    by (intro exI [of _ "k' + k"] exI [of _ prev''] exI [of _ s'']) (simp add: ac_simps)
qed

lemma runs_over:
  assumes "\<And>n. expand_loop (Suc n) h macs pos prev s = expand_loop n h macs (pos + length x) prev s" "drop pos (rd_line s) = x @ u" "pos \<le> length (rd_line s)"
    "runs_to h macs rank (pos + length x) prev s y r"
  shows "runs_to h macs rank pos prev s (x @ y) r"
proof -
  obtain k prev' s' where 1: "\<And>n. expand_loop (n + k) h macs (pos + length x) prev s = expand_loop n h macs (pos + length x + length y) prev' s'"
    "rd_line s' = take (pos + length x) (rd_line s) @ y @ r" "same_read s s'" "h = Htfe \<Longrightarrow> fresh_at rank macs (pos + length x + length y) None prev'"
    using assms(4) unfolding runs_to_def by blast
  have "expand_loop (n + Suc k) h macs pos prev s = expand_loop n h macs (pos + length (x @ y)) prev' s'" for n
    using assms(1) [of "n + k"] 1(1) [of n] by (simp add: ac_simps del: expand_loop.simps)
  moreover have "rd_line s' = take pos (rd_line s) @ (x @ y) @ r" using assms(2) by (simp add: 1(2) take_add)
  ultimately show ?thesis unfolding runs_to_def using 1(3,4) by (intro exI [of _ "Suc k"] exI [of _ prev'] exI [of _ s']) (simp add: ac_simps)
qed

lemma runs_replace:
  assumes "\<And>n. expand_loop (Suc n) h macs pos prev s = expand_loop n h macs pos prev0 s0" "rd_line s0 = take pos (rd_line s) @ x0" "same_read s s0"
    "pos \<le> length (rd_line s)" "runs_to h macs rank pos prev0 s0 x r"
  shows "runs_to h macs rank pos prev s x r"
proof -
  obtain k prev' s' where 1: "\<And>n. expand_loop (n + k) h macs pos prev0 s0 = expand_loop n h macs (pos + length x) prev' s'"
    "rd_line s' = take pos (rd_line s0) @ x @ r" "same_read s0 s'" "h = Htfe \<Longrightarrow> fresh_at rank macs (pos + length x) None prev'"
    using assms(5) unfolding runs_to_def by blast
  show ?thesis unfolding runs_to_def using 1 assms(1-4) same_read_trans [OF assms(3) 1(3)]
    by (intro exI [of _ "Suc k"] exI [of _ prev'] exI [of _ s']) (simp del: expand_loop.simps)
qed

lemma head_after: "head_ident (dropWhile is_name p) = None"
  using dropWhile_hd [of is_name p] is_name_start by (auto simp: head_ident_def)

lemma loop_skip:
  assumes "pos < length (rd_line s)" "name_start_char (rd_line s ! pos)" "takeWhile is_name (drop pos (rd_line s)) = i" "macs i = None"
  shows "expand_loop (Suc n) h macs pos prev s = expand_loop n h macs (pos + length i) prev s"
  using assms by (simp add: Let_def)

lemma loop_replace:
  assumes "pos < length (rd_line s)" "name_start_char (rd_line s ! pos)" "takeWhile is_name (drop pos (rd_line s)) = i" "macs i = Some m"
    "\<not> mc_bParenReqd m" "recursion_check h pos (expansion_of (rd_lineNum s) i m) prev = Some prev0"
  shows "expand_loop (Suc n) h macs pos prev s = expand_loop n h macs pos prev0 (replace_in_line pos (pos + length i) (expansion_of (rd_lineNum s) i m) s)"
  using assms by (simp add: Let_def expansion_of_def)

lemma expand_text:
  "\<lbrakk>ranked rank macs; \<And>i. i \<in> set (idents t) \<Longrightarrow> i \<in> dom macs \<Longrightarrow> rank i < d; r = [] \<or> \<not> is_name (hd r); drop pos (rd_line s) = t @ r; pos \<le> length (rd_line s);
     rd_lineNum s = ln; h = Htfe \<Longrightarrow> fresh_at rank macs pos (head_ident t) prev\<rbrakk> \<Longrightarrow> runs_to h macs rank pos prev s (full_expand ln macs d t) r"
proof (induction ln macs d t arbitrary: pos s prev r rule: full_expand.induct)
  case (1 ln macs d)
  have "rd_line s = take pos (rd_line s) @ r" using 1(4) by (metis append_take_drop_id append_Nil)
  moreover have "h = Htfe \<Longrightarrow> fresh_at rank macs pos None prev" using fresh_later [OF 1(7), of 0] by simp
  ultimately show ?case using same_read_refl unfolding runs_to_def by (intro exI [of _ 0] exI [of _ prev] exI [of _ s]) simp
next
  case (2 ln macs d c p)
  have at: "pos < length (rd_line s)" "rd_line s ! pos = c" using "2.prems"(4) by (metis append_Cons drop_eq_Nil leI list.distinct(1), metis append_Cons hd_drop_conv_nth drop_eq_Nil leI list.distinct(1) list.sel(1))
  show ?case
  proof (cases "name_start_char c")
    case False
    have 1: "runs_to h macs rank (pos + length [c]) prev s (full_expand ln macs d p) r"
    proof (rule "2.IH"(1) [OF _ "2.prems"(1) _ "2.prems"(3)])
      show "\<not> name_start_char c" by (rule False)
      show "rank i < d" if "i \<in> set (idents p)" "i \<in> dom macs" for i using False "2.prems"(2) that by simp
      show "drop (pos + length [c]) (rd_line s) = p @ r" "pos + length [c] \<le> length (rd_line s)" using "2.prems"(4) at(1) by (simp_all add: tl_drop_Suc [symmetric])
      show "rd_lineNum s = ln" by (rule "2.prems"(6))
      show "h = Htfe \<Longrightarrow> fresh_at rank macs (pos + length [c]) (head_ident p) prev" using fresh_next [OF "2.prems"(7), of 0] by simp
    qed
    have "runs_to h macs rank pos prev s ([c] @ full_expand ln macs d p) r"
      by (rule runs_over [where u = "p @ r", OF _ _ "2.prems"(5) 1]) (use at False "2.prems"(4) in simp_all)
    then show ?thesis using False by simp
  next
    case True
    let ?id = "takeWhile is_name (c # p)" and ?q = "dropWhile is_name p"
    have w: "c # p = ?id @ ?q" using True is_name_start by simp
    have n: "is_name c" using True by (rule is_name_start)
    have qr: "?q @ r = [] \<or> \<not> is_name (hd (?q @ r))" using "2.prems"(3) dropWhile_hd [of is_name p] by (cases "dropWhile is_name p") (simp_all add: n del: dropWhile_eq_Nil_conv)
    have id: "takeWhile is_name (drop pos (rd_line s)) = ?id" using "2.prems"(4) takeWhile_stop [of r is_name "c # p"] "2.prems"(3) by simp
    have ranks: "rank i < d" if "i \<in> set (idents ?q)" "i \<in> dom macs" for i using True n "2.prems"(2) that by simp
    have len: "pos + length ?id \<le> length (rd_line s)"
      using arg_cong [OF "2.prems"(4), of length] "2.prems"(5) w [THEN arg_cong, of length] by (simp del: takeWhile.simps dropWhile.simps)
    have rest: "drop (pos + length ?id) (rd_line s) = ?q @ r" using "2.prems"(4) w by (metis append.assoc append_eq_conv_conj drop_drop add.commute)
    show ?thesis
    proof (cases "macs ?id")
      case None
      have 1: "runs_to h macs rank (pos + length ?id) prev s (full_expand ln macs d ?q) r"
      proof (rule "2.IH"(3) [OF _ refl "2.prems"(1) ranks "2.prems"(3) rest len "2.prems"(6)])
        show "\<not> \<not> name_start_char c" using True by simp
        show "h = Htfe \<Longrightarrow> fresh_at rank macs (pos + length ?id) (head_ident ?q) prev" using fresh_later [OF "2.prems"(7)] by (simp add: head_after)
      qed
      have "runs_to h macs rank pos prev s (?id @ full_expand ln macs d ?q) r"
      proof (rule runs_over [OF _ _ "2.prems"(5) 1])
        show "expand_loop (Suc n) h macs pos prev s = expand_loop n h macs (pos + length ?id) prev s" for n
          by (rule loop_skip [where macs = macs, OF at(1) _ id None]) (simp add: at(2) True)
        show "drop pos (rd_line s) = ?id @ ?q @ r" using "2.prems"(4) w by (metis append.assoc)
      qed
      then show ?thesis using True None by (cases d) simp_all
    next
      case (Some m)
      let ?x = "expansion_of ln ?id m" and ?s0 = "replace_in_line pos (pos + length ?id) (expansion_of ln ?id m) s"
      have m: "\<not> mc_bParenReqd m" "\<And>i. i \<in> set (idents ?x) \<Longrightarrow> i \<in> dom macs \<Longrightarrow> rank i < rank ?id"
        using "2.prems"(1) Some ranked_expansion [OF "2.prems"(1) Some] unfolding ranked_def by blast+
      have "rank ?id < d" using "2.prems"(2) [of ?id] Some True n by (simp add: domI)
      then obtain d' where d: "d = Suc d'" "rank ?id \<le> d'" by (cases d) auto
      have "fresh_at rank macs pos (Some ?id) prev" if "h = Htfe" using "2.prems"(7) [OF that] True by (simp add: head_ident_def)
      then obtain prev0 where p0: "recursion_check h pos ?x prev = Some prev0" "h = Htfe \<Longrightarrow> fresh_at rank macs pos (head_ident ?x) prev0"
        using fresh_check [OF _ Some "2.prems"(1), of pos prev h ln] by (cases h) (auto simp: recursion_check_def)
      have line0: "rd_line ?s0 = take pos (rd_line s) @ ?x @ ?q @ r" using rest by (simp add: replace_in_line_def)
      have 0: "runs_to h macs rank pos prev0 ?s0 (full_expand ln macs d' ?x) (?q @ r)"
      proof (rule "2.IH"(2) [OF _ refl d(1) Some "2.prems"(1)])
        show "\<not> \<not> name_start_char c" using True by simp
        show "rank i < d'" if "i \<in> set (idents ?x)" "i \<in> dom macs" for i using m(2) [OF that] d(2) by simp
        show "drop pos (rd_line ?s0) = ?x @ ?q @ r" "pos \<le> length (rd_line ?s0)" using "2.prems"(5) line0 by simp_all
        show "rd_lineNum ?s0 = ln" using "2.prems"(6) by (simp add: replace_in_line_def)
      qed (use qr p0(2) in auto)
      have 1: "runs_to h macs rank pos prev s (full_expand ln macs d' ?x) (?q @ r)"
      proof (rule runs_replace [OF _ line0 same_read_replace "2.prems"(5) 0])
        show "expand_loop (Suc n) h macs pos prev s = expand_loop n h macs pos prev0 ?s0" for n
          by (rule loop_replace [where macs = macs, OF at(1) _ id Some m(1) p0(1) [folded "2.prems"(6)], unfolded "2.prems"(6)]) (simp add: at(2) True)
      qed
      have "runs_to h macs rank pos prev s (full_expand ln macs d' ?x @ full_expand ln macs d ?q) r"
      proof (rule runs_trans [OF 1 "2.prems"(5)])
        fix prev' and s' :: rd_state assume s': "rd_line s' = take pos (rd_line s) @ full_expand ln macs d' ?x @ ?q @ r" "same_read s s'" and
          f: "h = Htfe \<Longrightarrow> fresh_at rank macs (pos + length (full_expand ln macs d' ?x)) None prev'"
        show "runs_to h macs rank (pos + length (full_expand ln macs d' ?x)) prev' s' (full_expand ln macs d ?q) r"
        proof (rule "2.IH"(3) [OF _ refl "2.prems"(1) ranks "2.prems"(3)])
          show "\<not> \<not> name_start_char c" using True by simp
          show "rd_lineNum s' = ln" using same_read_line [OF s'(2)] "2.prems"(6) by simp
        qed (use s' f "2.prems"(5) in \<open>simp_all add: head_after\<close>)
      qed
      then show ?thesis using True Some by (simp add: d(1))
    qed
  qed
qed

lemma line_expanded:
  assumes "ranked rank macs" "\<And>i. i \<in> set (idents (rd_line s)) \<Longrightarrow> i \<in> dom macs \<Longrightarrow> rank i < d"
  shows "\<exists>k s'. (\<forall>n. PerformMacroExpansion (n + k) h macs s = Some (Some s')) \<and> rd_line s' = full_expand (rd_lineNum s) macs d (rd_line s) \<and> same_read s s'"
proof -
  let ?x = "full_expand (rd_lineNum s) macs d (rd_line s)"
  have "runs_to h macs rank 0 ([], None) s ?x []" by (rule expand_text [OF assms]) (simp_all add: fresh_at_def)
  then obtain k prev' s' where 1: "\<And>n. expand_loop (n + k) h macs 0 ([], None) s = expand_loop n h macs (0 + length ?x) prev' s'"
    "rd_line s' = ?x" "same_read s s'" unfolding runs_to_def by auto
  have "PerformMacroExpansion (n + Suc k) h macs s = Some (Some s')" for n
    using 1(1) [of "Suc n"] by (simp add: PerformMacroExpansion_def 1(2))
  then show ?thesis using 1(2,3) by blast
qed

text \<open>A macro that names itself at its start: the first copy never returns, the second one stops with a message.\<close>

lemma self_macro:
  assumes "macs i = Some m" "\<not> mc_bParenReqd m" "i \<noteq> ''__LINE__''" "mc_expansion m = i @ x" "i \<noteq> []" "name_start_char (hd i)" "list_all is_name i"
    "x = [] \<or> \<not> is_name (hd x)" "rd_line s = i @ r" "r = [] \<or> \<not> is_name (hd r)"
  shows "PerformMacroExpansion n Htl macs s = None" "PerformMacroExpansion (Suc (Suc (Suc n))) Htfe macs s = Some None"
proof -
  have id: "takeWhile is_name (i @ y) = i" if "y = [] \<or> \<not> is_name (hd y)" for y
    using assms(7) takeWhile_stop [where P = is_name, OF that, of i] by (simp add: list_all_iff takeWhile_eq_all_conv)
  have c: "name_start_char ((i @ y) ! 0)" for y using assms(5,6) by (cases i) auto
  have step: "expand_loop (Suc n) h macs 0 prev s = expand_loop n h macs 0 prev0 (replace_in_line 0 (length i) (i @ x) s)"
    if "rd_line s = i @ y" "y = [] \<or> \<not> is_name (hd y)" "recursion_check h 0 (i @ x) prev = Some prev0" for n h prev prev0 s y
    using loop_replace [of 0 s i macs m h prev prev0 n] assms(1-5) c id that by simp
  have hd: "x @ y = [] \<or> \<not> is_name (hd (x @ y))" if "y = [] \<or> \<not> is_name (hd y)" for y using that assms(8) by (cases x) auto
  have l: "rd_line (replace_in_line 0 (length i) (i @ x) s) = i @ x @ y" if "rd_line s = i @ y" for s y using that by (simp add: replace_in_line_def)
  have never: "expand_loop n Htl macs 0 prev s = None" if "rd_line s = i @ y" "y = [] \<or> \<not> is_name (hd y)" for n prev s y
    using that
  proof (induction n arbitrary: s y)
    case (Suc n)
    show ?case using step [OF Suc.prems, of Htl prev prev n] Suc.IH [OF l [OF Suc.prems(1)] hd [OF Suc.prems(2)]]
      by (simp add: recursion_check_def del: expand_loop.simps)
  qed simp
  show "PerformMacroExpansion n Htl macs s = None" unfolding PerformMacroExpansion_def by (rule never [OF assms(9,10)])
  let ?s = "replace_in_line 0 (length i) (i @ x) s"
  have 1: "expand_loop (Suc (Suc (Suc n))) Htfe macs 0 ([], None) s = expand_loop (Suc (Suc n)) Htfe macs 0 ([], Some 0) ?s"
    by (rule step [OF assms(9,10)]) (simp add: recursion_check_def)
  have 2: "expand_loop (Suc (Suc n)) Htfe macs 0 ([], Some 0) ?s = expand_loop (Suc n) Htfe macs 0 ([i @ x], Some 0) (replace_in_line 0 (length i) (i @ x) ?s)"
    by (rule step [OF l [OF assms(9)] hd [OF assms(10)]]) (simp add: recursion_check_def)
  have 3: "expand_loop (Suc n) Htfe macs 0 ([i @ x], Some 0) t = Some None" if "rd_line t = i @ y" "y = [] \<or> \<not> is_name (hd y)" for t y
    using that assms(1-5) c [of y] id [OF that(2)] by (simp add: recursion_check_def)
  show "PerformMacroExpansion (Suc (Suc (Suc n))) Htfe macs s = Some None"
    unfolding PerformMacroExpansion_def 1 2 by (rule 3 [OF l [OF l [OF assms(9)]] hd [OF hd [OF assms(10)]]])
qed

text \<open>The table of the second copy's constructor with two more macros, for the example.\<close>

lemma sample_table: "initial_macros Htfe 0 = [''_HTV'' \<mapsto> new_macro\<lparr>mc_expansion := []\<rparr>, ''__LINE__'' \<mapsto> new_macro\<lparr>mc_expansion := []\<rparr>]"
  by (simp add: initial_macros_def macro_Insert_def)

lemma sample_ranked:
  "ranked (\<lambda>i. if i = ''A'' then 1 else 0 :: nat) ((initial_macros Htfe 0)(''A'' \<mapsto> new_macro\<lparr>mc_expansion := ''B+__LINE__''\<rparr>, ''B'' \<mapsto> new_macro\<lparr>mc_expansion := ''(2)''\<rparr>))"
proof -
  have i: "idents ''B+__LINE__'' = [''B'', ''__LINE__'']" "idents ''(2)'' = []" by code_simp+
  show ?thesis unfolding sample_table ranked_def
  proof (intro allI impI)
    fix name x
    assume a: "([''_HTV'' \<mapsto> new_macro\<lparr>mc_expansion := []\<rparr>, ''__LINE__'' \<mapsto> new_macro\<lparr>mc_expansion := []\<rparr>, ''A'' \<mapsto> new_macro\<lparr>mc_expansion := ''B+__LINE__''\<rparr>, ''B'' \<mapsto> new_macro\<lparr>mc_expansion := ''(2)''\<rparr>]) name = Some x"
    then consider "name = ''_HTV''" "x = new_macro\<lparr>mc_expansion := []\<rparr>" | "name = ''__LINE__''" "x = new_macro\<lparr>mc_expansion := []\<rparr>" |
      "name = ''A''" "x = new_macro\<lparr>mc_expansion := ''B+__LINE__''\<rparr>" | "name = ''B''" "x = new_macro\<lparr>mc_expansion := ''(2)''\<rparr>"
      by (simp only: fun_upd_apply option.inject split: if_splits) blast
    then show "\<not> mc_bParenReqd x \<and> (name = ''__LINE__'' \<or> (\<forall>i\<in>set (idents (mc_expansion x)).
        i \<in> dom [''_HTV'' \<mapsto> new_macro\<lparr>mc_expansion := []\<rparr>, ''__LINE__'' \<mapsto> new_macro\<lparr>mc_expansion := []\<rparr>, ''A'' \<mapsto> new_macro\<lparr>mc_expansion := ''B+__LINE__''\<rparr>, ''B'' \<mapsto> new_macro\<lparr>mc_expansion := ''(2)''\<rparr>] \<longrightarrow> (if i = ''A'' then 1 else 0) < (if name = ''A'' then 1 else 0 :: nat)))"
      by cases (simp_all add: i new_macro_def del: idents.simps, simp)
  qed
qed

section \<open>Properties\<close>

text \<open>
  C16: macro expansion. When no macro of the table takes parameters and none reaches itself (a rank falls along the expansions), both copies return, the line
  is the reference's full expansion, in which every identifier stands for the full expansion of its macro's text and \<^verbatim>\<open>__LINE__\<close>, which the constructor puts
  into every table, for the number of the line, and nothing else of the reader changes but the position list; the second copy's test for recursion
  does not stop it.
\<close>

theorem macro_expansion:
  assumes "ranked rank macs" "\<And>i. i \<in> set (idents (rd_line s)) \<Longrightarrow> i \<in> dom macs \<Longrightarrow> rank i < d"
  shows "\<exists>k s'. (\<forall>n. PerformMacroExpansion (n + k) h macs s = Some (Some s')) \<and> rd_line s' = full_expand (rd_lineNum s) macs d (rd_line s) \<and> same_read s s'"
  by (rule line_expanded [OF assms])

lemma macro_expansion_witness:
  "\<exists>k s'. (\<forall>n. PerformMacroExpansion (n + k) Htfe ((initial_macros Htfe 0)(''A'' \<mapsto> new_macro\<lparr>mc_expansion := ''B+__LINE__''\<rparr>, ''B'' \<mapsto> new_macro\<lparr>mc_expansion := ''(2)''\<rparr>))
       \<lparr>rd_line = ''A*C'', rd_linePos = \<lparr>lp_baseOffset = 0, lp_deltaList = []\<rparr>, rd_buf = [], rd_reads = [], rd_off = 3, rd_lineNum = 17, rd_bInComment = False, rd_errs = []\<rparr> =
       Some (Some s')) \<and> rd_line s' = ''(2)+17*C''"
proof -
  let ?macs = "(initial_macros Htfe 0)(''A'' \<mapsto> new_macro\<lparr>mc_expansion := ''B+__LINE__''\<rparr>, ''B'' \<mapsto> new_macro\<lparr>mc_expansion := ''(2)''\<rparr>)"
  let ?s = "\<lparr>rd_line = ''A*C'', rd_linePos = \<lparr>lp_baseOffset = 0, lp_deltaList = []\<rparr>, rd_buf = [], rd_reads = [], rd_off = 3, rd_lineNum = 17,
    rd_bInComment = False, rd_errs = []\<rparr>"
  have i: "idents ''A*C'' = [''A'', ''C'']" by code_simp
  have x: "full_expand 17 ?macs 2 ''A*C'' = ''(2)+17*C''"  by code_simp
  have "\<exists>k s'. (\<forall>n. PerformMacroExpansion (n + k) Htfe ?macs ?s = Some (Some s')) \<and> rd_line s' = full_expand (rd_lineNum ?s) ?macs 2 (rd_line ?s) \<and> same_read ?s s'"
    by (rule macro_expansion [OF sample_ranked]) (simp add: i del: idents.simps)
  then show ?thesis unfolding rd_state.simps x by blast
qed

end
