(* ===== verification/PreCond.thy ===== *)
theory PreCond
  imports PreLines
begin

text \<open>
  The conditional directives of the preprocessors against a reference that reads the same lines group by group, and the result of repeated calls of
  \<^verbatim>\<open>GetLine\<close>. The reference knows no stacks and no flag for skipped lines: the groups are in the derivation.
\<close>

section \<open>The reference\<close>

text \<open>With enough fuel.\<close>

definition ev :: "(nat \<Rightarrow> bool) \<Rightarrow> bool" where
  "ev P \<longleftrightarrow> (\<exists>k. \<forall>n. P (n + k))"

lemma ev_conj: "ev P \<Longrightarrow> ev Q \<Longrightarrow> ev (\<lambda>n. P n \<and> Q n)"
  unfolding ev_def by (metis add.assoc add.commute)

lemma ev_mono: "ev P \<Longrightarrow> (\<And>n. P n \<Longrightarrow> Q n) \<Longrightarrow> ev Q"
  unfolding ev_def by blast

lemma ev_Suc: "ev (\<lambda>n. P (Suc n)) \<Longrightarrow> ev P"
  unfolding ev_def by (metis add_Suc_right)

text \<open>The name of a line's directive and the text behind the name; no directive stands for text and for the null directive.\<close>

definition line_directive :: "string \<Rightarrow> (string \<times> string) option" where
  "line_directive l = (let line = SkipSpace l in
     if \<not> hd_is (CHR ''#'') line \<or> SkipSpace (tl line) = [] then None else Some (ParseIdentifier (SkipSpace (tl line))))"

definition dir_of :: "string \<Rightarrow> EDirective option" where
  "dir_of l = map_option (\<lambda>(name, p). directive name) (line_directive l)"

definition opens :: "string \<Rightarrow> bool" where
  "opens l \<longleftrightarrow> dir_of l \<in> {Some dir_if, Some dir_ifdef, Some dir_ifndef}"

text \<open>A line that is neither a conditional directive nor an include.\<close>

definition plain_dir :: "string \<Rightarrow> bool" where
  "plain_dir l \<longleftrightarrow> dir_of l \<in> {None, Some dir_define, Some dir_undef, Some dir_pragma, Some dir_noMatch}"

text \<open>Lines whose conditional directives are nested rightly, and the branches behind the first group of a conditional.\<close>

inductive balanced :: "string list \<Rightarrow> bool" and branches :: "string list \<Rightarrow> bool" where
  b_nil: "balanced []"
| b_line: "plain_dir l \<or> dir_of l = Some dir_include \<Longrightarrow> balanced ls \<Longrightarrow> balanced (l # ls)"
| b_cond: "opens l \<Longrightarrow> balanced b \<Longrightarrow> branches bs \<Longrightarrow> dir_of l' = Some dir_endif \<Longrightarrow> balanced ls \<Longrightarrow> balanced (l # b @ bs @ l' # ls)"
| br_nil: "branches []"
| br_elif: "dir_of l = Some dir_elif \<Longrightarrow> balanced b \<Longrightarrow> branches bs \<Longrightarrow> branches (l # b @ bs)"
| br_else: "dir_of l = Some dir_else \<Longrightarrow> balanced b \<Longrightarrow> branches (l # b)"

text \<open>Reading a line, and reading lines without looking at them.\<close>

definition reads :: "pp_state \<Rightarrow> string \<Rightarrow> pp_state \<Rightarrow> bool" where
  "reads s l s' \<longleftrightarrow> (\<exists>r. ev (\<lambda>n. GetLineWithCommentsStripped n False (pp_rd s) = Some (True, r)) \<and> rd_line r = l \<and> s' = s\<lparr>pp_rd := r\<rparr>)"

fun skips :: "string list \<Rightarrow> pp_state \<Rightarrow> pp_state \<Rightarrow> bool" where
  "skips [] s s' \<longleftrightarrow> s' = s"
| "skips (l # ls) s s' \<longleftrightarrow> (\<exists>s1. reads s l s1 \<and> skips ls s1 s')"

text \<open>The condition of a line: whether its group is skipped.\<close>

definition condition :: "tool \<Rightarrow> string \<Rightarrow> pp_state \<Rightarrow> bool \<Rightarrow> pp_state \<Rightarrow> bool" where
  "condition h l s skip s' \<longleftrightarrow> (\<exists>name p. line_directive l = Some (name, p) \<and>
     (case directive name of
        dir_ifdef \<Rightarrow> PreProcessIfdef p s = (skip, s')
      | dir_ifndef \<Rightarrow> PreProcessIfndef p s = (skip, s')
      | _ \<Rightarrow> ev (\<lambda>n. pp_if n h p s = Some (Some (skip, s')))))"

definition line_result :: "tool \<Rightarrow> pp_env \<Rightarrow> pp_state \<Rightarrow> step_result \<Rightarrow> bool" where
  "line_result h env s r \<longleftrightarrow> ev (\<lambda>n. line_step n h env (s\<lparr>pp_bSkipLines := False\<rparr>) = Some (Some r))"

text \<open>
  \<open>exec\<close> runs lines and collects those that are returned. Of a conditional, the group of the first condition that holds is run, else the one behind
  \<^verbatim>\<open>#else\<close>; \<open>chain\<close> looks for it.
\<close>

inductive exec :: "tool \<Rightarrow> pp_env \<Rightarrow> string list \<Rightarrow> pp_state \<Rightarrow> string list \<Rightarrow> pp_state \<Rightarrow> bool"
  and chain :: "tool \<Rightarrow> pp_env \<Rightarrow> string list \<Rightarrow> pp_state \<Rightarrow> string list \<Rightarrow> pp_state \<Rightarrow> bool" for h env where
  e_nil: "exec h env [] s [] s"
| e_again: "plain_dir l \<Longrightarrow> reads s l s1 \<Longrightarrow> line_result h env s1 (Again s2) \<Longrightarrow> exec h env ls s2 outs s3 \<Longrightarrow> exec h env (l # ls) s outs s3"
| e_ret: "plain_dir l \<Longrightarrow> reads s l s1 \<Longrightarrow> line_result h env s1 (Ret s2) \<Longrightarrow> exec h env ls s2 outs s3 \<Longrightarrow>
    exec h env (l # ls) s (rd_line (pp_rd s2) # outs) s3"
| e_true: "opens l \<Longrightarrow> reads s l s1 \<Longrightarrow> condition h l s1 False s2 \<Longrightarrow> exec h env b s2 outs s3 \<Longrightarrow> branches bs \<Longrightarrow> skips bs s3 s4 \<Longrightarrow>
    dir_of l' = Some dir_endif \<Longrightarrow> reads s4 l' s5 \<Longrightarrow> exec h env ls s5 outs' s6 \<Longrightarrow> exec h env (l # b @ bs @ l' # ls) s (outs @ outs') s6"
| e_false: "opens l \<Longrightarrow> reads s l s1 \<Longrightarrow> condition h l s1 True s2 \<Longrightarrow> balanced b \<Longrightarrow> skips b s2 s3 \<Longrightarrow> chain h env bs s3 outs s4 \<Longrightarrow>
    dir_of l' = Some dir_endif \<Longrightarrow> reads s4 l' s5 \<Longrightarrow> exec h env ls s5 outs' s6 \<Longrightarrow> exec h env (l # b @ bs @ l' # ls) s (outs @ outs') s6"
| c_nil: "chain h env [] s [] s"
| c_else: "dir_of l = Some dir_else \<Longrightarrow> reads s l s1 \<Longrightarrow> exec h env b s1 outs s2 \<Longrightarrow> chain h env (l # b) s outs s2"
| c_true: "dir_of l = Some dir_elif \<Longrightarrow> reads s l s1 \<Longrightarrow> condition h l s1 False s2 \<Longrightarrow> exec h env b s2 outs s3 \<Longrightarrow> branches bs \<Longrightarrow> skips bs s3 s4 \<Longrightarrow>
    chain h env (l # b @ bs) s outs s4"
| c_false: "dir_of l = Some dir_elif \<Longrightarrow> reads s l s1 \<Longrightarrow> condition h l s1 True s2 \<Longrightarrow> balanced b \<Longrightarrow> skips b s2 s3 \<Longrightarrow> chain h env bs s3 outs s4 \<Longrightarrow>
    chain h env (l # b @ bs) s outs s4"

text \<open>Successive calls of GetLine: the lines they return, up to the call that returns false.\<close>

inductive lines_of :: "tool \<Rightarrow> pp_env \<Rightarrow> pp_state \<Rightarrow> string list \<Rightarrow> pp_state \<Rightarrow> bool" for h env where
  last: "ev (\<lambda>n. pp_GetLine n h env s = Some (Some (False, s'))) \<Longrightarrow> lines_of h env s [] s'"
| line: "ev (\<lambda>n. pp_GetLine n h env s = Some (Some (True, s1))) \<Longrightarrow> lines_of h env s1 outs s' \<Longrightarrow> lines_of h env s (rd_line (pp_rd s1) # outs) s'"

section \<open>The steps of GetLine\<close>

definition with_cond :: "cond list \<Rightarrow> bool \<Rightarrow> pp_state \<Rightarrow> pp_state" where
  "with_cond c b s = s\<lparr>pp_conds := c, pp_bSkipLines := b\<rparr>"

lemma with_cond_fields [simp]: "pp_conds (with_cond c b s) = c" "pp_bSkipLines (with_cond c b s) = b" "pp_rd (with_cond c b s) = pp_rd s"
  "pp_macs (with_cond c b s) = pp_macs s" "pp_lex (with_cond c b s) = pp_lex s" "pp_below (with_cond c b s) = pp_below s" "pp_out (with_cond c b s) = pp_out s"
  "pp_once (with_cond c b s) = pp_once s" "pp_path (with_cond c b s) = pp_path s" "pp_msgs (with_cond c b s) = pp_msgs s" "pp_rand (with_cond c b s) = pp_rand s"
  by (simp_all add: with_cond_def)

lemma with_cond_upd [simp]:
  "(with_cond c b s)\<lparr>pp_rd := r\<rparr> = with_cond c b (s\<lparr>pp_rd := r\<rparr>)" "(with_cond c b s)\<lparr>pp_macs := m\<rparr> = with_cond c b (s\<lparr>pp_macs := m\<rparr>)"
  "(with_cond c b s)\<lparr>pp_lex := x\<rparr> = with_cond c b (s\<lparr>pp_lex := x\<rparr>)" "(with_cond c b s)\<lparr>pp_once := p\<rparr> = with_cond c b (s\<lparr>pp_once := p\<rparr>)"
  "(with_cond c b s)\<lparr>pp_out := t\<rparr> = with_cond c b (s\<lparr>pp_out := t\<rparr>)" "(with_cond c b s)\<lparr>pp_rand := f\<rparr> = with_cond c b (s\<lparr>pp_rand := f\<rparr>)"
  "(with_cond c b s)\<lparr>pp_msgs := ms\<rparr> = with_cond c b (s\<lparr>pp_msgs := ms\<rparr>)" "(with_cond c b s)\<lparr>pp_conds := c'\<rparr> = with_cond c' b s"
  "(with_cond c b s)\<lparr>pp_bSkipLines := b'\<rparr> = with_cond c b' s" "with_cond c b (with_cond c' b' s) = with_cond c b s"
  "pp_error msg (with_cond c b s) = with_cond c b (pp_error msg s)"
  by (simp_all add: with_cond_def pp_error_def)

lemma reads_with: "reads s l s' \<Longrightarrow> reads (with_cond c b s) l (with_cond c b s')"
  unfolding reads_def by auto

lemma step_again:
  assumes "reads s l s1" "ev (\<lambda>n. line_step n h env s1 = Some (Some (Again s2)))" "lines_of h env s2 outs s'"
  shows "lines_of h env s outs s'"
proof -
  obtain r where r: "ev (\<lambda>n. GetLineWithCommentsStripped n False (pp_rd s) = Some (True, r))" "s1 = s\<lparr>pp_rd := r\<rparr>"
    using assms(1) unfolding reads_def by blast
  have go: "ev (\<lambda>n. pp_GetLine n h env s = x)" if "ev (\<lambda>n. pp_GetLine n h env s2 = x)" for x
    by (rule ev_Suc, rule ev_mono [OF ev_conj [OF r(1) ev_conj [OF assms(2) that]]]) (simp add: r(2))
  from assms(3) show ?thesis
    by cases (auto intro: lines_of.intros go)
qed

lemma step_ret:
  assumes "reads s l s1" "ev (\<lambda>n. line_step n h env s1 = Some (Some (Ret s2)))" "lines_of h env s2 outs s'"
  shows "lines_of h env s (rd_line (pp_rd s2) # outs) s'"
proof -
  obtain r where r: "ev (\<lambda>n. GetLineWithCommentsStripped n False (pp_rd s) = Some (True, r))" "s1 = s\<lparr>pp_rd := r\<rparr>"
    using assms(1) unfolding reads_def by blast
  show ?thesis
    by (rule lines_of.line [OF _ assms(3)], rule ev_Suc, rule ev_mono [OF ev_conj [OF r(1) assms(2)]]) (simp add: r(2))
qed

text \<open>The step on a line, by its directive.\<close>

lemma line_step_dir:
  "line_step n h env s = (case line_directive (rd_line (pp_rd s)) of
     None \<Rightarrow> if pp_bSkipLines s \<or> hd_is (CHR ''#'') (SkipSpace (rd_line (pp_rd s))) then Some (Some (Again s)) else after (expand_line n h s) (\<lambda>s. Some (Some (Ret s)))
   | Some (name, p) \<Rightarrow> if \<not> pp_bSkipLines s then active_directive n h env name p s else after (skipped_directive n h name p s) (\<lambda>s. Some (Some (Again s))))"
  by (auto simp: line_step_def line_directive_def Let_def split: prod.splits)

lemma reads_line: "reads s l s' \<Longrightarrow> rd_line (pp_rd s') = l"
  by (auto simp: reads_def)

section \<open>Lines that leave the conditional state alone\<close>

definition map_res :: "('a \<Rightarrow> 'b) \<Rightarrow> 'a option option \<Rightarrow> 'b option option" where
  "map_res f = map_option (map_option f)"

lemma map_res_simps [simp]: "map_res f None = None" "map_res f (Some None) = Some None" "map_res f (Some (Some x)) = Some (Some (f x))"
  by (simp_all add: map_res_def)

lemma map_res_after: "map_res f (after r g) = after r (\<lambda>x. map_res f (g x))"
  by (auto simp: after_def split: option.split)

lemma after_map_res: "after (map_res f r) g = after r (\<lambda>x. g (f x))"
  by (auto simp: after_def map_res_def split: option.split)

lemma with_expand: "expand_line n h (with_cond c b s) = map_res (with_cond c b) (expand_line n h s)"
  by (simp add: expand_line_def map_res_after)

lemma with_undef: "PreProcessUndef p (with_cond c b s) = with_cond c b (PreProcessUndef p s)"
  by (simp add: PreProcessUndef_def Let_def split: prod.split)

lemma with_expansion: "define_expansion h p (with_cond c b s) = map_prod id (with_cond c b) (define_expansion h p s)"
  by (simp add: define_expansion_def Let_def split: option.split)

lemma with_seed: "define_seed n h env name p (with_cond c b s) = map_res (with_cond c b) (define_seed n h env name p s)"
  by (auto simp: define_seed_def map_res_after intro!: arg_cong2 [where f = after] ext split: option.split)

lemma with_end: "define_end h name e m (with_cond c b s) = with_cond c b (define_end h name e m s)"
  by (simp add: define_end_def)

lemma with_define: "PreProcessDefine n h env p (with_cond c b s) = map_res (with_cond c b) (PreProcessDefine n h env p s)"
proof -
  obtain name q where n: "ParseIdentifier (SkipSpace p) = (name, q)" by fastforce
  let ?macs = "macro_Insert name [] (pp_macs s)"
  obtain m r where d: "(if hd_is (CHR ''('') q then def_params h 0 q ((the (?macs name))\<lparr>mc_bParenReqd := True\<rparr>) else (the (?macs name), Inr q)) = (m, r)"
    by fastforce
  let ?s = "if mc_bIsNew (the (?macs name)) then s else pp_error ''     Original definition'' (pp_error (''Redefinition of '' @ name) s)"
  have w: "(if mc_bIsNew (the (?macs name)) then with_cond c b s else pp_error ''     Original definition'' (pp_error (''Redefinition of '' @ name) (with_cond c b s))) =
    with_cond c b ?s" by simp
  show ?thesis
    unfolding PreProcessDefine_def n prod.case Let_def with_cond_fields d w
    by (auto simp: with_expansion with_seed with_end map_res_after after_map_res split: prod.split sum.split)
qed

lemma with_message: "pragma_message n p (with_cond c b s) = map_res (with_cond c b) (pragma_message n p s)"
proof (induction n arbitrary: p s)
  case (Suc n)
  show ?case by (auto simp: Suc.IH Let_def map_res_after intro!: arg_cong2 [where f = after] ext split: prod.split option.split)
qed simp

fun step_with :: "cond list \<Rightarrow> step_result \<Rightarrow> step_result" where
  "step_with c (Again s) = Again (with_cond c False s)"
| "step_with c (Ret s) = Ret (with_cond c False s)"

lemma with_active:
  assumes "directive name \<in> {dir_define, dir_undef, dir_pragma, dir_noMatch}"
  shows "active_directive n h env name p (with_cond c b s) = map_res (\<lambda>r. case r of Again s \<Rightarrow> Again (with_cond c b s) | Ret s \<Rightarrow> Ret (with_cond c b s))
    (active_directive n h env name p s)"
  using assms by (auto simp: active_directive_def Let_def with_define with_undef with_message map_res_after after_map_res split: prod.split)

lemma step_with_alt: "step_with c = (\<lambda>r. case r of Again s \<Rightarrow> Again (with_cond c False s) | Ret s \<Rightarrow> Ret (with_cond c False s))"
  by (rule ext) (simp split: step_result.split)

lemma plain_step:
  assumes "plain_dir (rd_line (pp_rd s))"
  shows "line_step n h env (with_cond c False s) = map_res (step_with c) (line_step n h env (s\<lparr>pp_bSkipLines := False\<rparr>))"
proof -
  let ?t = "s\<lparr>pp_bSkipLines := False\<rparr>"
  have w: "with_cond c False s = with_cond c False ?t" by (simp add: with_cond_def)
  show ?thesis
  proof (cases "line_directive (rd_line (pp_rd s))")
    case None
    then show ?thesis unfolding w by (simp add: line_step_dir with_expand map_res_after after_map_res)
  next
    case (Some x)
    obtain name p where x: "x = (name, p)" by (cases x) auto
    have d: "directive name \<in> {dir_define, dir_undef, dir_pragma, dir_noMatch}" using assms by (auto simp: plain_dir_def dir_of_def Some x)
    show ?thesis unfolding w step_with_alt by (simp add: line_step_dir Some x with_active [OF d])
  qed
qed

text \<open>A plain line when lines are skipped.\<close>

lemma plain_skip:
  assumes "plain_dir (rd_line (pp_rd s)) \<or> dir_of (rd_line (pp_rd s)) = Some dir_include" "c \<noteq> []"
  shows "line_step n h env (with_cond c True s) = Some (Some (Again (with_cond c True s)))"
  using assms by (cases "line_directive (rd_line (pp_rd s))")
    (auto simp: line_step_dir plain_dir_def dir_of_def skipped_directive_def split: list.split)

section \<open>The stacks follow the groups\<close>

text \<open>A condition does not depend on the conditional state.\<close>

lemma with_if: "pp_if n h p (with_cond c b s) = map_res (map_prod id (with_cond c b)) (pp_if n h p s)"
  by (auto simp: pp_if_def map_res_after intro!: arg_cong2 [where f = after] ext)

lemma with_ifdef: "PreProcessIfdef p (with_cond c b s) = map_prod id (with_cond c b) (PreProcessIfdef p s)"
  "PreProcessIfndef p (with_cond c b s) = map_prod id (with_cond c b) (PreProcessIfndef p s)"
  by (simp_all add: PreProcessIfdef_def PreProcessIfndef_def Let_def split: prod.split)

lemma condition_with:
  assumes "condition h l s skip s'"
  shows "condition h l (with_cond c b s) skip (with_cond c b s')"
proof -
  obtain name p where l: "line_directive l = Some (name, p)" and
    r: "case directive name of dir_ifdef \<Rightarrow> PreProcessIfdef p s = (skip, s') | dir_ifndef \<Rightarrow> PreProcessIfndef p s = (skip, s')
      | _ \<Rightarrow> ev (\<lambda>n. pp_if n h p s = Some (Some (skip, s')))" using assms unfolding condition_def by blast
  have "ev (\<lambda>n. pp_if n h p (with_cond c b s) = Some (Some (skip, with_cond c b s')))" if "ev (\<lambda>n. pp_if n h p s = Some (Some (skip, s')))"
    by (rule ev_mono [OF that]) (simp add: with_if)
  then show ?thesis unfolding condition_def l using r by (auto simp: with_ifdef split: EDirective.splits)
qed

text \<open>Skipped lines: the stack is the same behind them, and behind branches but for its top's flag for \<^verbatim>\<open>#else\<close>.\<close>

definition skip_top :: "bool \<Rightarrow> cond" where
  "skip_top els = \<lparr>cd_bSkip = True, cd_bElse = els, cd_bToEndif = True\<rparr>"

lemma skip_step:
  assumes "rd_line (pp_rd s) = l" "c \<noteq> []"
  shows "opens l \<Longrightarrow> line_step n h env (with_cond c True s) = Some (Some (Again (with_cond (skip_top False # c) True s)))"
    "dir_of l = Some dir_endif \<Longrightarrow> line_step n h env (with_cond (x # c) True s) = Some (Some (Again (with_cond c (cd_bSkip (hd c)) s)))"
    "dir_of l = Some dir_elif \<Longrightarrow> line_step n h env (with_cond (skip_top False # c) True s) = Some (Some (Again (with_cond (skip_top False # c) True s)))"
    "dir_of l = Some dir_else \<Longrightarrow> line_step n h env (with_cond (skip_top False # c) True s) = Some (Some (Again (with_cond (skip_top True # c) True s)))"
  using assms by (auto simp: opens_def dir_of_def line_step_dir skipped_directive_def skip_top_def Let_def set_cond_def split: list.split)

lemma ev_const: "(\<And>n. P n) \<Longrightarrow> ev P"
  by (simp add: ev_def)

lemma skips_append: "skips (ls @ ls') s s' \<longleftrightarrow> (\<exists>s1. skips ls s s1 \<and> skips ls' s1 s')"
  by (induction ls arbitrary: s) auto

lemma step_over:
  assumes "reads s l s1" "\<And>n. line_step n h env (with_cond c b s1) = Some (Some (Again (with_cond c' b' s1)))" "lines_of h env (with_cond c' b' s1) outs z"
  shows "lines_of h env (with_cond c b s) outs z"
  by (rule step_again [OF reads_with [OF assms(1)] ev_const [OF assms(2)] assms(3)])

lemma skip_lines:
  "balanced ls \<Longrightarrow> skips ls s s' \<Longrightarrow> c \<noteq> [] \<Longrightarrow> cd_bSkip (hd c) \<Longrightarrow> lines_of h env (with_cond c True s') outs z \<Longrightarrow>
    lines_of h env (with_cond c True s) outs z"
  "branches ls \<Longrightarrow> skips ls s s' \<Longrightarrow> c \<noteq> [] \<Longrightarrow> (\<And>els. lines_of h env (with_cond (skip_top els # c) True s') outs z) \<Longrightarrow>
    lines_of h env (with_cond (skip_top False # c) True s) outs z"
proof (induction arbitrary: s s' c outs and s s' c outs rule: balanced_branches.inducts)
  case (b_line l ls)
  then obtain s1 where s1: "reads s l s1" "skips ls s1 s'" by auto
  then show ?case using b_line.hyps(1) b_line.IH [OF s1(2) b_line.prems(2-4)] b_line.prems(2) reads_line [OF s1(1)]
    by (intro step_over [OF s1(1) plain_skip]) auto
next
  case (b_cond l b bs l' ls)
  then obtain s1 s2 s3 s4 where s: "reads s l s1" "skips b s1 s2" "skips bs s2 s3" "reads s3 l' s4" "skips ls s4 s'" by (auto simp: skips_append)
  have k: "cd_bSkip (hd (skip_top False # c))" by (simp add: skip_top_def)
  have 1: "lines_of h env (with_cond c True s4) outs z" by (rule b_cond.IH(3) [OF s(5) b_cond.prems(2-4)])
  have 2: "lines_of h env (with_cond (skip_top els # c) True s3) outs z" for els
    using 1 b_cond.prems(2,3) by (intro step_over [OF s(4) skip_step(2) [OF reads_line [OF s(4)] b_cond.prems(2) b_cond.hyps(4)]]) simp
  have 3: "lines_of h env (with_cond (skip_top False # c) True s2) outs z" by (rule b_cond.IH(2) [OF s(3) b_cond.prems(2) 2])
  have 4: "lines_of h env (with_cond (skip_top False # c) True s1) outs z" by (rule b_cond.IH(1) [OF s(2) _ k 3]) simp
  show ?case by (rule step_over [OF s(1) skip_step(1) [OF reads_line [OF s(1)] b_cond.prems(2) b_cond.hyps(1)] 4])
next
  case (br_elif l b bs)
  then obtain s1 s2 where s: "reads s l s1" "skips b s1 s2" "skips bs s2 s'" by (auto simp: skips_append)
  have k: "cd_bSkip (hd (skip_top False # c))" by (simp add: skip_top_def)
  have 1: "lines_of h env (with_cond (skip_top False # c) True s2) outs z" by (rule br_elif.IH(2) [OF s(3) br_elif.prems(2,3)])
  have 2: "lines_of h env (with_cond (skip_top False # c) True s1) outs z" by (rule br_elif.IH(1) [OF s(2) _ k 1]) simp
  show ?case by (rule step_over [OF s(1) skip_step(3) [OF reads_line [OF s(1)] br_elif.prems(2) br_elif.hyps(1)] 2])
next
  case (br_else l b)
  then obtain s1 where s: "reads s l s1" "skips b s1 s'" by auto
  have k: "cd_bSkip (hd (skip_top True # c))" by (simp add: skip_top_def)
  have 1: "lines_of h env (with_cond (skip_top True # c) True s1) outs z" by (rule br_else.IH [OF s(2) _ k br_else.prems(3)]) simp
  show ?case by (rule step_over [OF s(1) skip_step(4) [OF reads_line [OF s(1)] br_else.prems(2) br_else.hyps(1)] 1])
qed simp_all

text \<open>The entry of a condition that is just evaluated, and the steps when lines are not skipped.\<close>

definition cond_top :: "bool \<Rightarrow> cond" where
  "cond_top skip = \<lparr>cd_bSkip = skip, cd_bElse = False, cd_bToEndif = \<not> skip\<rparr>"

lemma open_step:
  assumes "reads s l s1" "opens l" "condition h l s1 skip s2"
  shows "ev (\<lambda>n. line_step n h env (with_cond c False s1) = Some (Some (Again (with_cond (cond_top skip # c) skip s2))))"
proof -
  note w = condition_with [OF assms(3), of c False]
  obtain name p where l: "line_directive l = Some (name, p)" and
    r: "case directive name of dir_ifdef \<Rightarrow> PreProcessIfdef p (with_cond c False s1) = (skip, with_cond c False s2)
      | dir_ifndef \<Rightarrow> PreProcessIfndef p (with_cond c False s1) = (skip, with_cond c False s2)
      | _ \<Rightarrow> ev (\<lambda>n. pp_if n h p (with_cond c False s1) = Some (Some (skip, with_cond c False s2)))" using w unfolding condition_def by blast
  have d: "directive name \<in> {dir_if, dir_ifdef, dir_ifndef}" using assms(2) by (auto simp: opens_def dir_of_def l)
  note step = line_step_dir active_directive_def reads_line [OF assms(1)] l push_cond_def cond_top_def
  consider (if1) "directive name = dir_if" | (ifdef) "directive name = dir_ifdef" | (ifndef) "directive name = dir_ifndef" using d by blast
  then show ?thesis
  proof cases
    case if1
    then have "ev (\<lambda>n. pp_if n h p (with_cond c False s1) = Some (Some (skip, with_cond c False s2)))" using r by simp
    then show ?thesis by (rule ev_mono) (simp add: step if1)
  next
    case ifdef
    then show ?thesis using r by (intro ev_const) (simp add: step)
  next
    case ifndef
    then show ?thesis using r by (intro ev_const) (simp add: step)
  qed
qed

lemma elif_step:
  assumes "reads s l s1" "dir_of l = Some dir_elif" "condition h l s1 skip s2" "c \<noteq> []" "\<not> cd_bSkip (hd c)"
  shows "ev (\<lambda>n. line_step n h env (with_cond (cond_top True # c) True s1) = Some (Some (Again (with_cond (cond_top skip # c) skip s2))))"
proof -
  obtain name p where l: "line_directive l = Some (name, p)" "directive name = dir_elif" using assms(2) by (auto simp: dir_of_def)
  then have "ev (\<lambda>n. pp_if n h p s1 = Some (Some (skip, s2)))" using assms(3) by (auto simp: condition_def)
  then show ?thesis
    by (rule ev_mono) (use assms(4,5) in \<open>auto simp: line_step_dir reads_line [OF assms(1)] l skipped_directive_def cond_top_def Let_def with_if set_cond_def split: list.split\<close>)
qed

lemma active_step:
  assumes "rd_line (pp_rd s) = l" "c \<noteq> []"
  shows "dir_of l = Some dir_endif \<Longrightarrow> line_step n h env (with_cond (x # c) False s) = Some (Some (Again (with_cond c False s)))"
    "dir_of l = Some dir_elif \<Longrightarrow> line_step n h env (with_cond (cond_top False # c) False s) = Some (Some (Again (with_cond (skip_top False # c) True s)))"
    "dir_of l = Some dir_else \<Longrightarrow> line_step n h env (with_cond (cond_top False # c) False s) = Some (Some (Again (with_cond (skip_top True # c) True s)))"
    "dir_of l = Some dir_else \<Longrightarrow> \<not> cd_bSkip (hd c) \<Longrightarrow> line_step n h env (with_cond (cond_top True # c) True s) =
      Some (Some (Again (with_cond (\<lparr>cd_bSkip = False, cd_bElse = True, cd_bToEndif = False\<rparr> # c) False s)))"
  using assms by (auto simp: dir_of_def line_step_dir active_directive_def skipped_directive_def skip_top_def cond_top_def Let_def set_cond_def split: list.split)

text \<open>Behind a group that was run the other branches are skipped; the end pops the entry whatever it is.\<close>

lemma endif_over:
  assumes "reads s l s1" "dir_of l = Some dir_endif" "c \<noteq> []" "\<not> cd_bSkip (hd c)" "lines_of h env (with_cond c False s1) outs z"
  shows "lines_of h env (with_cond (x # c) b s) outs z"
proof (cases b)
  case True
  have "lines_of h env (with_cond c (cd_bSkip (hd c)) s1) outs z" using assms(4,5) by simp
  then show ?thesis using step_over [OF assms(1) skip_step(2) [OF reads_line [OF assms(1)] assms(3,2)]] True by simp
next
  case False
  then show ?thesis using step_over [OF assms(1) active_step(1) [OF reads_line [OF assms(1)] assms(3,2)] assms(5)] by simp
qed

lemma rest_over:
  assumes "branches bs" "skips bs s s'" "c \<noteq> []" "\<And>x b. lines_of h env (with_cond (x # c) b s') outs z"
  shows "lines_of h env (with_cond (cond_top False # c) False s) outs z"
  using assms(1)
proof cases
  case br_nil
  then show ?thesis using assms(2,4) by simp
next
  case (br_elif l b bs')
  then obtain s1 s2 where s: "reads s l s1" "skips b s1 s2" "skips bs' s2 s'" using assms(2) by (auto simp: skips_append)
  have 1: "lines_of h env (with_cond (skip_top False # c) True s2) outs z" by (rule skip_lines(2) [OF br_elif(4) s(3) assms(3)]) (rule assms(4))
  have 2: "lines_of h env (with_cond (skip_top False # c) True s1) outs z" by (rule skip_lines(1) [OF br_elif(3) s(2) _ _ 1]) (simp_all add: skip_top_def)
  show ?thesis by (rule step_over [OF s(1) active_step(2) [OF reads_line [OF s(1)] assms(3) br_elif(2)] 2])
next
  case (br_else l b)
  then obtain s1 where s: "reads s l s1" "skips b s1 s'" using assms(2) by auto
  have "lines_of h env (with_cond (skip_top True # c) True s1) outs z" by (rule skip_lines(1) [OF br_else(3) s(2) _ _ assms(4)]) (simp_all add: skip_top_def)
  then show ?thesis by (rule step_over [OF s(1) active_step(3) [OF reads_line [OF s(1)] assms(3) br_else(2)]])
qed

text \<open>The lines the reference runs are the lines GetLine returns.\<close>

lemma exec_lines:
  "exec h env ls s outs s' \<Longrightarrow> c \<noteq> [] \<Longrightarrow> \<not> cd_bSkip (hd c) \<Longrightarrow> lines_of h env (with_cond c False s') outs' z \<Longrightarrow>
    lines_of h env (with_cond c False s) (outs @ outs') z"
  "chain h env bs s outs s' \<Longrightarrow> c \<noteq> [] \<Longrightarrow> \<not> cd_bSkip (hd c) \<Longrightarrow> (\<And>x b. lines_of h env (with_cond (x # c) b s') outs' z) \<Longrightarrow>
    lines_of h env (with_cond (cond_top True # c) True s) (outs @ outs') z"
proof (induction arbitrary: c outs' and c outs' rule: exec_chain.inducts)
  case (e_nil s)
  then show ?case by simp
next
  case (e_again l s s1 s2 ls outs s3)
  note 1 = e_again.IH(3) [OF e_again.prems]
  have p: "plain_dir (rd_line (pp_rd s1))" using e_again.hyps(1) reads_line [OF e_again.hyps(2)] by simp
  have "ev (\<lambda>n. line_step n h env (with_cond c False s1) = Some (Some (Again (with_cond c False s2))))"
    using e_again.IH(1) unfolding line_result_def by (rule ev_mono) (simp add: plain_step [OF p])
  then show ?case by (rule step_again [OF reads_with [OF e_again.hyps(2)] _ 1])
next
  case (e_ret l s s1 s2 ls outs s3)
  note 1 = e_ret.IH(3) [OF e_ret.prems]
  have p: "plain_dir (rd_line (pp_rd s1))" using e_ret.hyps(1) reads_line [OF e_ret.hyps(2)] by simp
  have "ev (\<lambda>n. line_step n h env (with_cond c False s1) = Some (Some (Ret (with_cond c False s2))))"
    using e_ret.IH(1) unfolding line_result_def by (rule ev_mono) (simp add: plain_step [OF p])
  from step_ret [OF reads_with [OF e_ret.hyps(2)] this 1] show ?case by simp
next
  case (e_true l s s1 s2 b outs s3 bs s4 l' s5 ls outs2 s6)
  have 1: "lines_of h env (with_cond c False s5) (outs2 @ outs') z" by (rule e_true.IH(5) [OF e_true.prems])
  have 2: "lines_of h env (with_cond (x # c) b s4) (outs2 @ outs') z" for x b
    by (rule endif_over [OF e_true.hyps(6,5) e_true.prems(1,2) 1])
  have 3: "lines_of h env (with_cond (cond_top False # c) False s3) (outs2 @ outs') z" by (rule rest_over [OF e_true.hyps(3,4) e_true.prems(1) 2])
  have 4: "lines_of h env (with_cond (cond_top False # c) False s2) (outs @ outs2 @ outs') z" by (rule e_true.IH(3) [OF _ _ 3]) (simp_all add: cond_top_def)
  from step_again [OF reads_with [OF e_true.hyps(2)] open_step [OF e_true.hyps(2,1) e_true.IH(1)] 4] show ?case by simp
next
  case (e_false l s s1 s2 b s3 bs outs s4 l' s5 ls outs2 s6)
  have 1: "lines_of h env (with_cond c False s5) (outs2 @ outs') z" by (rule e_false.IH(5) [OF e_false.prems])
  have 2: "lines_of h env (with_cond (x # c) b s4) (outs2 @ outs') z" for x b
    by (rule endif_over [OF e_false.hyps(6,5) e_false.prems(1,2) 1])
  have 3: "lines_of h env (with_cond (cond_top True # c) True s3) (outs @ outs2 @ outs') z" by (rule e_false.IH(3) [OF e_false.prems(1,2) 2])
  have 4: "lines_of h env (with_cond (cond_top True # c) True s2) (outs @ outs2 @ outs') z"
    by (rule skip_lines(1) [OF e_false.hyps(3,4) _ _ 3]) (simp_all add: cond_top_def)
  from step_again [OF reads_with [OF e_false.hyps(2)] open_step [OF e_false.hyps(2,1) e_false.IH(1)] 4] show ?case by simp
next
  case (c_nil s)
  then show ?case by simp
next
  case (c_else l s s1 b outs s2)
  let ?c = "\<lparr>cd_bSkip = False, cd_bElse = True, cd_bToEndif = False\<rparr>"
  have 1: "lines_of h env (with_cond (?c # c) False s1) (outs @ outs') z" by (rule c_else.IH(2) [OF _ _ c_else.prems(3)]) simp_all
  show ?case by (rule step_over [OF c_else.hyps(2) active_step(4) [OF reads_line [OF c_else.hyps(2)] c_else.prems(1) c_else.hyps(1) c_else.prems(2)] 1])
next
  case (c_true l s s1 s2 b outs s3 bs s4)
  have 1: "lines_of h env (with_cond (cond_top False # c) False s3) outs' z" by (rule rest_over [OF c_true.hyps(3,4) c_true.prems(1,3)])
  have 2: "lines_of h env (with_cond (cond_top False # c) False s2) (outs @ outs') z" by (rule c_true.IH(3) [OF _ _ 1]) (simp_all add: cond_top_def)
  show ?case by (rule step_again [OF reads_with [OF c_true.hyps(2)] elif_step [OF c_true.hyps(2,1) c_true.IH(1) c_true.prems(1,2)] 2])
next
  case (c_false l s s1 s2 b s3 bs outs s4)
  have 1: "lines_of h env (with_cond (cond_top True # c) True s3) (outs @ outs') z" by (rule c_false.IH(3) [OF c_false.prems])
  have 2: "lines_of h env (with_cond (cond_top True # c) True s2) (outs @ outs') z"
    by (rule skip_lines(1) [OF c_false.hyps(3,4) _ _ 1]) (simp_all add: cond_top_def)
  show ?case by (rule step_again [OF reads_with [OF c_false.hyps(2)] elif_step [OF c_false.hyps(2,1) c_false.IH(1) c_false.prems(1,2)] 2])
qed


section \<open>Properties\<close>

text \<open>
  C15: conditional compilation. When the reference, which runs of every conditional only the group of the first condition that holds, else the one
  behind the else directive, and knows no stack, runs lines of the current file from a state in which lines are not skipped, then the calls of GetLine
  return the lines it collects, and after them what the calls return from the state it ends in, with the conditional stack as it was.
\<close>

theorem conditional_lines:
  assumes "exec h env ls s outs s1" "pp_conds s \<noteq> []" "\<not> cd_bSkip (hd (pp_conds s))" "\<not> pp_bSkipLines s"
    "lines_of h env (with_cond (pp_conds s) False s1) rest z"
  shows "lines_of h env s (outs @ rest) z"
proof -
  have "with_cond (pp_conds s) False s = s" using assms(4) by (simp add: with_cond_def)
  then show ?thesis using exec_lines(1) [OF assms(1-3,5)] by simp
qed

text \<open>A file of five lines, at the line \<open>k\<close>.\<close>

definition cond_file :: "string list" where
  "cond_file = [''#ifdef X'', ''a'', ''#else'', ''b'', ''#endif'']"

definition cond_state :: "nat \<Rightarrow> string \<Rightarrow> pp_state" where
  "cond_state k line = (pp_initial Htl 0 (\<lambda>_. 0))\<lparr>pp_open := True, pp_conds := [new_cond], pp_macs := Map.empty,
     pp_rd := \<lparr>rd_line = line, rd_linePos = \<lparr>lp_baseOffset = int (length (concat (map (\<lambda>l. l @ [CHR 0x0A]) (take (k - 1) cond_file)))),
         lp_deltaList = (if k = 0 then [] else [(int (length (cond_file ! (k - 1))), 1)])\<rparr>,
       rd_buf = concat (map (\<lambda>l. l @ [CHR 0x0A]) (drop k cond_file)), rd_reads = [], rd_off = int (length (concat (map (\<lambda>l. l @ [CHR 0x0A]) (take k cond_file)))),
       rd_lineNum = int k, rd_bInComment = False, rd_errs = []\<rparr>\<rparr>"

lemma cond_reads:
  assumes "k < 5" 
  shows "reads (cond_state k l) (cond_file ! k) (cond_state (k + 1) (cond_file ! k))"
proof -
  have "GetLineWithCommentsStripped (n + 2) False (pp_rd (cond_state k l)) = Some (True, pp_rd (cond_state (k + 1) (cond_file ! k)))" for n
  proof -
    consider "k = 0" | "k = 1" | "k = 2" | "k = 3" | "k = 4" using assms by linarith
    then show ?thesis
      by cases (simp_all add: cond_state_def cond_file_def GetLineWithCommentsStripped_def GetLineFromFile_def scan_code_def scan_comment_def find_from_def
         lp_SetBaseOffset_def lp_Delete_def lp_shift_def copy_line.simps scan_line.simps char_at_def Let_def eval_nat_numeral)
  qed
  then have "ev (\<lambda>n. GetLineWithCommentsStripped n False (pp_rd (cond_state k l)) = Some (True, pp_rd (cond_state (k + 1) (cond_file ! k))))"
    unfolding ev_def by blast
  then show ?thesis unfolding reads_def by (intro exI [of _ "pp_rd (cond_state (k + 1) (cond_file ! k))"]) (simp add: cond_state_def)
qed

definition cond_env :: pp_env where
  "cond_env = \<lparr>en_open = (\<lambda>_. None), en_realpath = id, en_dirs = [], en_intercept = [], en_replace = [], en_seed = (\<lambda>_ _. 0)\<rparr>"

lemma conditional_lines_witness:
  "lines_of Htl cond_env (cond_state 0 []) [''b''] ((cond_state 5 ''#endif'')\<lparr>pp_open := False, pp_rd := (pp_rd (cond_state 5 ''#endif''))\<lparr>rd_line := [],
      rd_linePos := \<lparr>lp_baseOffset = 26, lp_deltaList = []\<rparr>\<rparr>\<rparr>)"
proof -
  let ?f = "\<lambda>k. cond_state k (cond_file ! (k - 1))"
  let ?z = "(cond_state 5 ''#endif'')\<lparr>pp_open := False, pp_rd := (pp_rd (cond_state 5 ''#endif''))\<lparr>rd_line := [],
      rd_linePos := \<lparr>lp_baseOffset = 26, lp_deltaList = []\<rparr>\<rparr>\<rparr>"
  have r: "reads (cond_state 0 []) ''#ifdef X'' (?f 1)" "reads (?f 1) ''a'' (?f 2)" "reads (?f 2) ''#else'' (?f 3)" "reads (?f 3) ''b'' (?f 4)"
    "reads (?f 4) ''#endif'' (?f 5)"
    using cond_reads [of 0 "[]"] cond_reads [of 1 "''#ifdef X''"] cond_reads [of 2 "''a''"] cond_reads [of 3 "''#else''"] cond_reads [of 4 "''b''"]
    by (simp_all add: cond_file_def eval_nat_numeral)
  have d: "opens ''#ifdef X''" "plain_dir ''a''" "dir_of ''#else'' = Some dir_else" "plain_dir ''b''" "dir_of ''#endif'' = Some dir_endif"
    by code_simp+
  have c: "condition Htl ''#ifdef X'' (?f 1) True (?f 1)"
    unfolding condition_def by (intro exI [of _ "''ifdef''"] exI [of _ "'' X''"] conjI)
      (code_simp, simp add: directive_def PreProcessIfdef_def cond_state_def SkipSpace_def ParseIdentifier_def name_start_char_def is_name_def is_alpha_def is_blank_def)
  have b: "line_result Htl cond_env (?f 4) (Ret (?f 4))"
    unfolding line_result_def ev_def by (intro exI [of _ 2]) (simp add: line_step_dir line_directive_def cond_state_def cond_file_def pp_initial_def hd_is_def
      expand_line_def PerformMacroExpansion_def after_def SkipSpace_def is_blank_def name_start_char_def is_name_def is_alpha_def eval_nat_numeral)
  have a: "balanced [''a'']" by (intro b_line b_nil disjI1 d)
  have e: "exec Htl cond_env [''b''] (?f 3) [''b''] (?f 4)" using e_ret [OF d(4) r(4) b e_nil] by (simp add: cond_state_def cond_file_def eval_nat_numeral)
  have x: "exec Htl cond_env cond_file (cond_state 0 []) ([''b''] @ []) (?f 5)"
    using e_false [OF d(1) r(1) c a _ c_else [OF d(3) r(3) e] d(5) r(5) e_nil] r(2) by (simp add: cond_file_def)
  have z: "lines_of Htl cond_env (with_cond (pp_conds (cond_state 0 [])) False (?f 5)) [] ?z"
    by (rule lines_of.last, unfold ev_def, intro exI [of _ 3]) (simp add: cond_state_def cond_file_def pp_initial_def GetLineWithCommentsStripped_def
      GetLineFromFile_def next_read_def lp_SetBaseOffset_def end_of_file_step_def pp_Close_def with_cond_def eval_nat_numeral)
  show ?thesis using conditional_lines [OF x _ _ _ z] by (simp add: cond_state_def new_cond_def pp_initial_def)
qed

end
