(* ===== verification/HtlLex.thy ===== *)
theory HtlLex
  imports PreCond
begin

text \<open>
  The lexer of \<^verbatim>\<open>htl\<close>, \<^verbatim>\<open>CLex\<close> of \<^verbatim>\<open>htl/Lex.cpp\<close>, over the lines of its base class \<^verbatim>\<open>CPreProcess\<close> (\<open>PreLines\<close>). The theorem says that the
  tokens of lines that are written as tokens, blanks and comments come back one by one, and then the end of the file.
\<close>

section \<open>State\<close>

datatype EToken = TkIdent | TkEqual | TkPeriod | TkLParen | TkRParen | TkString | TkInteger | TkComma | TkSemi
  | TkError | TkBang | TkNumInt | TkNumHex | TkExprEnd | TkPlus | TkMinus | TkSlash | TkAsterisk | TkPercent
  | TkEqualEqual | TkVbar | TkVbarVbar | TkCarot | TkAmpersand | TkAmpersandAmpersand | TkBangEqual | TkLess
  | TkGreater | TkGreaterEqual | TkLessEqual | TkLessLess | TkGreaterGreater | TkExprBegin | TkUnaryPlus
  | TkUnaryMinus | TkTilda | TkPound | TkLBrack | TkRBrack | TkColon | TkBoolean | TkIntRange | TkIntList | TkQuestion
  | TkLBrace | TkRBrace | TkFTick | TkBTick | TkEof | TkUnknown

text \<open>
  \<^verbatim>\<open>m_pLine\<close> is the text from the position on; \<^verbatim>\<open>m_lineBuf\<close> only is its storage. The text ends at its end or at a null character; \<open>peek\<close> is the
  character at the position.
\<close>

record lex_state =
  ls_pp :: pp_state
  ls_pLine :: string
  ls_string :: string
  ls_tk :: EToken

definition peek :: "string \<Rightarrow> char" where
  "peek p = (case p of [] \<Rightarrow> CHR 0x00 | c # _ \<Rightarrow> c)"

definition lx_ParseMsg :: "string \<Rightarrow> lex_state \<Rightarrow> lex_state" where
  "lx_ParseMsg m s = s\<lparr>ls_pp := pp_error m (ls_pp s)\<rparr>"

section \<open>Lines\<close>

definition line_end :: "string \<Rightarrow> bool" where
  "line_end p \<longleftrightarrow> take 2 p = ''//'' \<or> peek p \<in> {CHR 0x0D, CHR 0x0A, CHR 0x00}"

text \<open>The next line that has text; the fuel bounds the lines.\<close>

primrec GetNextLine :: "nat \<Rightarrow> pp_env \<Rightarrow> lex_state \<Rightarrow> (bool \<times> lex_state) option option" where
  "GetNextLine 0 env s = None"
| "GetNextLine (Suc n) env s = after (pp_GetLine n Htl env (ls_pp s)) (\<lambda>(ok, p).
     let s = s\<lparr>ls_pp := p\<rparr> in
     if \<not> ok then Some (Some (False, s))
     else let s = s\<lparr>ls_pLine := SkipSpace (rd_line (pp_rd p))\<rparr> in
       if line_end (ls_pLine s) then GetNextLine n env s else Some (Some (True, s)))"

section \<open>Tokens\<close>

text \<open>The cases of one character that set \<^verbatim>\<open>m_tk\<close>.\<close>

definition char_token :: "char \<Rightarrow> EToken option" where
  "char_token c = map_of [(CHR ''('', TkLParen), (CHR '')'', TkRParen), (CHR ''='', TkEqual), (CHR '','', TkComma), (CHR '';'', TkSemi), (CHR ''.'', TkPeriod),
     (CHR ''#'', TkPound), (CHR ''['', TkLBrack), (CHR '']'', TkRBrack), (CHR ''{'', TkLBrace), (CHR ''}'', TkRBrace), (CHR ''-'', TkMinus), (CHR ''+'', TkPlus),
     (CHR ''*'', TkAsterisk), (CHR ''%'', TkPercent), (CHR ''<'', TkLess), (CHR ''>'', TkGreater), (CHR '':'', TkColon), (CHR ''?'', TkQuestion),
     (CHR ''|'', TkVbar), (CHR ''&'', TkAmpersand), (CHR ''^'', TkCarot), (CHR ''/'', TkSlash)] c"

text \<open>
  The switch behind the blanks, where no line ends. The two ticks leave \<^verbatim>\<open>m_tk\<close> as it is. An unknown character is a fatal error, which ends the program.
\<close>

definition scan_token :: "lex_state \<Rightarrow> (EToken \<times> lex_state) option" where
  "scan_token s = (let p = ls_pLine s; c = peek p; digits = takeWhile is_digit p; behind = dropWhile is_digit p in
     case char_token c of Some tk \<Rightarrow> Some (tk, s\<lparr>ls_pLine := tl p, ls_tk := tk\<rparr>)
     | None \<Rightarrow>
       if c = CHR 0x27 then Some (TkFTick, s\<lparr>ls_pLine := tl p\<rparr>)
       else if c = CHR 0x60 then Some (TkBTick, s\<lparr>ls_pLine := tl p\<rparr>)
       else if is_digit c \<and> \<not> is_alpha (peek behind) \<and> peek behind \<noteq> CHR ''_'' then
         Some (TkInteger, s\<lparr>ls_pLine := behind, ls_string := digits, ls_tk := TkInteger\<rparr>)
       else if is_name c then Some (TkIdent, s\<lparr>ls_pLine := dropWhile is_name p, ls_string := takeWhile is_name p, ls_tk := TkIdent\<rparr>)
       else if c = CHR 0x22 then
         (let text = takeWhile (\<lambda>c. c \<noteq> CHR 0x22 \<and> c \<noteq> CHR 0x00) (tl p); rest = dropWhile (\<lambda>c. c \<noteq> CHR 0x22 \<and> c \<noteq> CHR 0x00) (tl p);
              s = (if peek rest \<noteq> CHR 0x22 then lx_ParseMsg ''Expected a closing quote for string'' s else s) in
          Some (TkString, s\<lparr>ls_pLine := (if peek rest \<noteq> CHR 0x00 then tl rest else rest), ls_string := text, ls_tk := TkString\<rparr>))
       else None)"

text \<open>At the end of a line the call recurs behind \<^verbatim>\<open>GetNextLine\<close> and assigns its result.\<close>

primrec GetNextTk :: "nat \<Rightarrow> pp_env \<Rightarrow> lex_state \<Rightarrow> (EToken \<times> lex_state) option option" where
  "GetNextTk 0 env s = None"
| "GetNextTk (Suc n) env s =
     (if ls_tk s = TkEof then Some (Some (TkEof, s))
      else let s = s\<lparr>ls_pLine := SkipSpace (ls_pLine s)\<rparr> in
        if line_end (ls_pLine s) then after (GetNextLine n env s) (\<lambda>(ok, s).
          if ok then after (GetNextTk n env s) (\<lambda>(tk, s). Some (Some (tk, s\<lparr>ls_tk := tk\<rparr>)))
          else Some (Some (TkEof, s\<lparr>ls_tk := TkEof\<rparr>)))
        else Some (scan_token s))"

text \<open>\<^verbatim>\<open>atoi\<close> of an integer token; it is undefined when the value is no \<^verbatim>\<open>int\<close>.\<close>

definition GetTkInteger :: "lex_state \<Rightarrow> int option" where
  "GetTkInteger s = (let v = int (dec_value (takeWhile is_digit (ls_string s))) in if v < 2 ^ 31 then Some v else None)"

section \<open>Opening and closing\<close>

definition LexOpen :: "nat \<Rightarrow> pp_env \<Rightarrow> string \<Rightarrow> lex_state \<Rightarrow> (bool \<times> lex_state) option option" where
  "LexOpen n env fileName s = (let s = s\<lparr>ls_pLine := [], ls_tk := TkUnknown\<rparr> in
     case pp_Open env fileName False (ls_pp s) of None \<Rightarrow> Some None
     | Some (bOpened, p) \<Rightarrow> let s = s\<lparr>ls_pp := p\<rparr> in
         if bOpened then after (GetNextTk n env s) (\<lambda>(tk, s). Some (Some (True, s))) else Some (Some (False, s)))"

definition LexClose :: "lex_state \<Rightarrow> lex_state" where
  "LexClose s = s\<lparr>ls_pp := pp_Close (ls_pp s)\<rparr>"

section \<open>Text of an expression\<close>

definition is_space :: "char \<Rightarrow> bool" where
  "is_space c \<longleftrightarrow> c = CHR '' '' \<or> 9 \<le> char_code c \<and> char_code c \<le> 13"

text \<open>The scan of one line: what it passes, the open parentheses, and the text where it ends, when it ends in the line.\<close>

fun scan_expr :: "char \<Rightarrow> nat \<Rightarrow> string \<Rightarrow> string \<times> nat \<times> string option" where
  "scan_expr termCh k [] = ([], k, None)"
| "scan_expr termCh k (c # cs) =
     (if c = CHR 0x00 then ([], k, None)
      else if c = CHR '')'' \<and> k = 0 then ([], k, Some (c # cs))
      else let k = (if c = CHR ''('' then k + 1 else if c = CHR '')'' then k - 1 else k) in
        if c = termCh \<and> k = 0 then ([], k, Some (c # cs))
        else (case scan_expr termCh k cs of (x, r) \<Rightarrow> (c # x, r)))"

fun scan_quoted :: "string \<Rightarrow> string \<times> string option" where
  "scan_quoted [] = ([], None)"
| "scan_quoted (c # cs) =
     (if c = CHR 0x22 then ([c], Some cs)
      else if c = CHR 0x00 then ([], None)
      else (case scan_quoted cs of (x, r) \<Rightarrow> (c # x, r)))"

text \<open>The loop over the lines; the end of the file is a fatal error.\<close>

primrec expr_lines :: "nat \<Rightarrow> pp_env \<Rightarrow> bool \<Rightarrow> char \<Rightarrow> nat \<Rightarrow> string \<Rightarrow> string \<Rightarrow> lex_state \<Rightarrow> (string \<times> lex_state) option option" where
  "expr_lines 0 env quote termCh k paramStr p s = None"
| "expr_lines (Suc n) env quote termCh k paramStr p s =
     (case (if quote then (case scan_quoted p of (x, r) \<Rightarrow> (x, k, r)) else scan_expr termCh k p) of
        (x, k, Some rest) \<Rightarrow> Some (Some (paramStr @ x, s\<lparr>ls_pLine := rest\<rparr>))
      | (x, k, None) \<Rightarrow> after (GetNextLine n env s) (\<lambda>(ok, s).
          if ok then expr_lines n env quote termCh k (paramStr @ x @ '' '') (ls_pLine s) s else Some None))"

definition GetExprStr :: "nat \<Rightarrow> pp_env \<Rightarrow> char \<Rightarrow> lex_state \<Rightarrow> (string \<times> lex_state) option option" where
  "GetExprStr n env termCh s = (let p = dropWhile is_space (ls_pLine s) in
     if peek p = CHR 0x22 then expr_lines n env True termCh 0 [CHR 0x22] (tl p) s else expr_lines n env False termCh 0 [] p s)"

section \<open>Lines as tokens\<close>

text \<open>How a token with its string is written.\<close>

definition token_text :: "EToken \<Rightarrow> string \<Rightarrow> string \<Rightarrow> bool" where
  "token_text tk str x \<longleftrightarrow>
     (if tk = TkIdent then x = str \<and> list_all is_name x \<and> \<not> list_all is_digit x
      else if tk = TkInteger then x = str \<and> x \<noteq> [] \<and> list_all is_digit x
      else if tk = TkString then x = [CHR 0x22] @ str @ [CHR 0x22] \<and> list_all (\<lambda>c. c \<noteq> CHR 0x22 \<and> c \<noteq> CHR 0x00) str
      else \<exists>c. x = [c] \<and> char_token c = Some tk)"

text \<open>What may stand behind it, and lines: tokens with blanks between them, then the end of the line or a comment.\<close>

definition apart :: "EToken \<Rightarrow> string \<Rightarrow> bool" where
  "apart tk r \<longleftrightarrow> (tk \<in> {TkIdent, TkInteger} \<longrightarrow> \<not> is_name (peek r)) \<and> (tk = TkSlash \<longrightarrow> peek r \<noteq> CHR ''/'')"

inductive line_text :: "(EToken \<times> string) list \<Rightarrow> string \<Rightarrow> bool" where
  line_done: "list_all is_blank b \<Longrightarrow> line_end r \<Longrightarrow> line_text [] (b @ r)"
| line_token: "list_all is_blank b \<Longrightarrow> token_text tk str x \<Longrightarrow> apart tk r \<Longrightarrow> line_text ts r \<Longrightarrow> line_text ((tk, str) # ts) (b @ x @ r)"

inductive_cases line_textE: "line_text ts l"

text \<open>Successive calls of GetNextTk.\<close>

fun tokens_read :: "pp_env \<Rightarrow> lex_state \<Rightarrow> (EToken \<times> string) list \<Rightarrow> lex_state \<Rightarrow> bool" where
  "tokens_read env s [] s' \<longleftrightarrow> s' = s"
| "tokens_read env s ((tk, str) # ts) s' \<longleftrightarrow> (\<exists>s1. ev (\<lambda>n. GetNextTk n env s = Some (Some (tk, s1))) \<and> ls_tk s1 = tk \<and>
     (tk \<in> {TkIdent, TkInteger, TkString} \<longrightarrow> ls_string s1 = str) \<and> tokens_read env s1 ts s')"

lemma peek_simps [simp]: "peek [] = CHR 0x00" "peek (c # p) = c"
  by (simp_all add: peek_def)

lemma char_token_facts:
  assumes "char_token c = Some tk"
  shows "\<not> is_blank c" "c \<notin> {CHR 0x0D, CHR 0x0A, CHR 0x00}" "c = CHR ''/'' \<longleftrightarrow> tk = TkSlash" "tk \<notin> {TkEof, TkIdent, TkInteger, TkString}" "\<not> is_name c"
  using assms by (auto simp: char_token_def is_blank_def is_name_def is_alpha_def is_digit_def split: if_splits)

lemma class_facts: "\<not> is_name (CHR 0x00)" "\<not> is_digit (CHR 0x00)" "\<not> is_alpha (CHR 0x00)" "is_digit c \<Longrightarrow> is_name c" "is_alpha c \<Longrightarrow> is_name c"
  "is_name c \<Longrightarrow> \<not> is_blank c" "is_name c \<Longrightarrow> c \<notin> {CHR 0x27, CHR 0x60, CHR 0x22, CHR 0x2F, CHR 0x0D, CHR 0x0A, CHR 0x00}"
  "is_name c \<longleftrightarrow> is_alpha c \<or> is_digit c \<or> c = CHR ''_''"
  by (auto simp: is_name_def is_alpha_def is_digit_def is_blank_def)

lemma name_no_token: "is_name c \<Longrightarrow> char_token c = None"
  using char_token_facts(5) by (cases "char_token c") auto

lemma token_start:
  assumes "token_text tk str x" "apart tk r"
  shows "x \<noteq> []" "\<not> is_blank (hd x)" "\<not> line_end (x @ r)"
proof -
  show "x \<noteq> []"
    using assms(1) by (auto simp: token_text_def split: if_splits)
  then obtain c y where x: "x = c # y"
    by (cases x) auto
  have c: "is_name c \<or> c = CHR 0x22 \<or> y = [] \<and> char_token c = Some tk"
    using assms(1) unfolding x by (auto simp: token_text_def class_facts(4) split: if_splits)
  show "\<not> is_blank (hd x)"
    using c class_facts(6) char_token_facts(1) by (auto simp: x is_blank_def)
  show "\<not> line_end (x @ r)"
  proof (cases "c = CHR ''/''")
    case True
    then have "y = []" "tk = TkSlash"
      using c class_facts(7) [of c] char_token_facts(3) by auto
    then have "peek r \<noteq> CHR ''/''"
      using assms(2) by (simp add: apart_def)
    then show ?thesis
      using True \<open>y = []\<close> by (cases r) (auto simp: line_end_def x)
  next
    case False
    then show ?thesis
      using c class_facts(7) [of c] char_token_facts(2) by (auto simp: line_end_def x numeral_2_eq_2)
  qed
qed

lemma lex_skip_blanks: "list_all is_blank b \<Longrightarrow> SkipSpace (b @ p) = SkipSpace p"
  by (induction b) (simp_all add: SkipSpace_def)

lemma skip_done: "p = [] \<or> \<not> is_blank (hd p) \<Longrightarrow> SkipSpace p = p"
  by (cases p) (auto simp: SkipSpace_def)

lemma take_all: "list_all P x \<Longrightarrow> r = [] \<or> \<not> P (hd r) \<Longrightarrow> takeWhile P (x @ r) = x \<and> dropWhile P (x @ r) = r"
  by (induction x) (cases r; simp)+

lemma peek_not: "\<not> P (CHR 0x00) \<Longrightarrow> \<not> P (peek r) \<Longrightarrow> r = [] \<or> \<not> P (hd r)"
  by (cases r) auto

text \<open>A token is scanned as it was written.\<close>

lemma scan_token_text:
  assumes "token_text tk str x" "apart tk r" "ls_pLine s = x @ r"
  obtains s1 where "scan_token s = Some (tk, s1)" "ls_pLine s1 = r" "ls_tk s1 = tk" "tk \<in> {TkIdent, TkInteger, TkString} \<longrightarrow> ls_string s1 = str" "ls_pp s1 = ls_pp s"
    "tk \<noteq> TkEof"
proof -
  consider (ident) "tk = TkIdent" | (int) "tk = TkInteger" | (string) "tk = TkString" | (char) "tk \<notin> {TkIdent, TkInteger, TkString}"
    by auto
  then show ?thesis
  proof cases
    case ident
    then have x: "x = str" "list_all is_name x" "\<not> list_all is_digit x" "\<not> is_name (peek r)"
      using assms(1,2) by (auto simp: token_text_def apart_def)
    obtain c y where c: "x = c # y" "is_name c"
      using x(2,3) by (cases x) auto
    have tk: "takeWhile is_name (x @ r) = x \<and> dropWhile is_name (x @ r) = r"
      using take_all [OF x(2)] peek_not [of is_name, OF class_facts(1) x(4)] by blast
    have "is_digit c \<Longrightarrow> is_alpha (peek (dropWhile is_digit (x @ r))) \<or> peek (dropWhile is_digit (x @ r)) = CHR ''_''"
    proof -
      obtain d z where z: "dropWhile is_digit x = d # z"
        using x(3) by (cases "dropWhile is_digit x") (auto simp: dropWhile_eq_Nil_conv list_all_iff)
      then have "d \<in> set x" "\<not> is_digit d"
        using set_dropWhileD [of d is_digit x] hd_dropWhile [of is_digit x] by fastforce+
      moreover have "dropWhile is_digit (x @ r) = (d # z) @ r"
        using x(3) dropWhile_append1 [of _ x is_digit r] z by (auto simp: list_all_iff)
      ultimately show ?thesis
        using x(2) class_facts(8) [of d] by (auto simp: list_all_iff)
    qed
    then have "scan_token s = Some (TkIdent, s\<lparr>ls_pLine := r, ls_string := x, ls_tk := TkIdent\<rparr>)"
      using tk c name_no_token [of c] class_facts(7) [of c] by (auto simp: scan_token_def assms(3) Let_def)
    then show ?thesis
      by (rule that [of "s\<lparr>ls_pLine := r, ls_string := x, ls_tk := TkIdent\<rparr>", unfolded ident]) (simp_all add: x(1) ident)
  next
    case int
    then have x: "x = str" "x \<noteq> []" "list_all is_digit x" "\<not> is_name (peek r)"
      using assms(1,2) by (auto simp: token_text_def apart_def)
    obtain c y where c: "x = c # y" "is_digit c"
      using x(2,3) by (cases x) auto
    have nd: "\<not> is_digit (peek r)" "\<not> is_alpha (peek r)" "peek r \<noteq> CHR ''_''"
      using x(4) class_facts(8) [of "peek r"] by auto
    have tk: "takeWhile is_digit (x @ r) = x \<and> dropWhile is_digit (x @ r) = r"
      using take_all [OF x(3)] peek_not [of is_digit, OF class_facts(2) nd(1)] by blast
    have "scan_token s = Some (TkInteger, s\<lparr>ls_pLine := r, ls_string := x, ls_tk := TkInteger\<rparr>)"
      using tk c nd name_no_token [of c] class_facts(7) [of c] class_facts(4) [OF c(2)] by (auto simp: scan_token_def assms(3) Let_def)
    then show ?thesis
      by (rule that [of "s\<lparr>ls_pLine := r, ls_string := x, ls_tk := TkInteger\<rparr>", unfolded int]) (simp_all add: x(1) int)
  next
    case string
    then have x: "x = [CHR 0x22] @ str @ [CHR 0x22]" "list_all (\<lambda>c. c \<noteq> CHR 0x22 \<and> c \<noteq> CHR 0x00) str"
      using assms(1) by (simp_all add: token_text_def)
    have tk: "takeWhile (\<lambda>c. c \<noteq> CHR 0x22 \<and> c \<noteq> CHR 0x00) (str @ CHR 0x22 # r) = str \<and> dropWhile (\<lambda>c. c \<noteq> CHR 0x22 \<and> c \<noteq> CHR 0x00) (str @ CHR 0x22 # r) = CHR 0x22 # r"
      by (rule take_all [OF x(2)]) simp
    have "scan_token s = Some (TkString, s\<lparr>ls_pLine := r, ls_string := str, ls_tk := TkString\<rparr>)"
      using tk by (simp add: scan_token_def assms(3) x(1) char_token_def is_digit_def is_name_def is_alpha_def Let_def)
    then show ?thesis
      by (rule that [of "s\<lparr>ls_pLine := r, ls_string := str, ls_tk := TkString\<rparr>", unfolded string]) (simp_all add: string)
  next
    case char
    then obtain c where c: "x = [c]" "char_token c = Some tk"
      using assms(1) by (auto simp: token_text_def split: if_splits)
    then have "scan_token s = Some (tk, s\<lparr>ls_pLine := r, ls_tk := tk\<rparr>)"
      by (simp add: scan_token_def assms(3) Let_def)
    then show ?thesis
      by (rule that) (use c(2) char char_token_facts(4) in auto)
  qed
qed

lemma token_step:
  assumes "line_text ((tk, str) # ts) (ls_pLine s)" "ls_tk s \<noteq> TkEof"
  obtains s1 where "\<forall>n. GetNextTk (Suc n) env s = Some (Some (tk, s1))" "line_text ts (ls_pLine s1)" "ls_tk s1 = tk"
    "tk \<in> {TkIdent, TkInteger, TkString} \<longrightarrow> ls_string s1 = str" "ls_pp s1 = ls_pp s" "tk \<noteq> TkEof"
proof -
  obtain b x r where l: "ls_pLine s = b @ x @ r" "list_all is_blank b" "token_text tk str x" "apart tk r" "line_text ts r"
    using assms(1) by (auto elim: line_textE)
  have skip: "SkipSpace (b @ x @ r) = x @ r"
    using token_start(1,2) [OF l(3,4)] by (simp add: lex_skip_blanks [OF l(2)] skip_done)
  obtain s1 where s1: "scan_token (s\<lparr>ls_pLine := x @ r\<rparr>) = Some (tk, s1)" "ls_pLine s1 = r" "ls_tk s1 = tk"
      "tk \<in> {TkIdent, TkInteger, TkString} \<longrightarrow> ls_string s1 = str" "ls_pp s1 = ls_pp (s\<lparr>ls_pLine := x @ r\<rparr>)" "tk \<noteq> TkEof"
    by (rule scan_token_text [OF l(3,4), of "s\<lparr>ls_pLine := x @ r\<rparr>"]) simp_all
  show ?thesis
    by (rule that [of s1]) (use s1 l skip token_start(3) [OF l(3,4)] assms(2) in simp_all)
qed

lemma skip_line: "line_text [] l \<Longrightarrow> line_end (SkipSpace l)"
proof (erule line_textE)
  fix b r
  assume "l = b @ r" "list_all is_blank b" "line_end r"
  moreover from \<open>line_end r\<close> have "SkipSpace r = r"
    by (intro skip_done) (auto simp: line_end_def is_blank_def neq_Nil_conv)
  ultimately show ?thesis
    by (simp add: lex_skip_blanks)
qed simp_all

lemma text_line: "line_text (t # ts) l \<Longrightarrow> \<not> line_end (SkipSpace l) \<and> line_text (t # ts) (SkipSpace l)"
proof (erule line_textE)
  fix b tk str x r ts'
  assume l: "t # ts = (tk, str) # ts'" "l = b @ x @ r" "list_all is_blank b" "token_text tk str x" "apart tk r" "line_text ts' r"
  have "SkipSpace l = x @ r"
    using token_start(1,2) [OF l(4,5)] by (simp add: l(2) lex_skip_blanks [OF l(3)] skip_done)
  then show ?thesis
    using l token_start(3) [OF l(4,5)] line_token [of "[]", OF _ l(4-6)] by simp
qed simp_all

text \<open>The next line with tokens, or the end of the file.\<close>

lemma lex_next_line:
  assumes "lines_of Htl env q ls p" "list_all2 line_text tss ls" "ls_pp s = q"
  shows "(\<exists>s1. concat tss = [] \<and> ev (\<lambda>n. GetNextLine n env s = Some (Some (False, s1))) \<and> ls_pp s1 = p) \<or>
    (\<exists>s1 t ts tss' ls'. concat tss = (t # ts) @ concat tss' \<and> ev (\<lambda>n. GetNextLine n env s = Some (Some (True, s1))) \<and> ls_tk s1 = ls_tk s \<and>
      line_text (t # ts) (ls_pLine s1) \<and> lines_of Htl env (ls_pp s1) ls' p \<and> list_all2 line_text tss' ls')"
  using assms
proof (induction arbitrary: tss s rule: lines_of.induct)
  case (last q p)
  have "ev (\<lambda>n. GetNextLine (Suc n) env s = Some (Some (False, s\<lparr>ls_pp := p\<rparr>)))"
    by (rule ev_mono [OF last(1)]) (simp add: last(3))
  from ev_Suc [OF this] show ?case
    using last(2) by (auto intro!: exI [of _ "s\<lparr>ls_pp := p\<rparr>"])
next
  case (line q q1 outs p)
  obtain ts tss1 where ts: "tss = ts # tss1" "line_text ts (rd_line (pp_rd q1))" "list_all2 line_text tss1 outs"
    using line(4) by (auto simp: list_all2_Cons2)
  let ?s = "s\<lparr>ls_pp := q1, ls_pLine := SkipSpace (rd_line (pp_rd q1))\<rparr>"
  show ?case
  proof (cases ts)
    case Nil
    have go: "ev (\<lambda>n. GetNextLine n env s = r)" if "ev (\<lambda>n. GetNextLine n env ?s = r)" for r
    proof -
      have "ev (\<lambda>n. GetNextLine (Suc n) env s = r)"
        by (rule ev_mono [OF ev_conj [OF line(1) that]]) (use skip_line ts(2) Nil line(5) in \<open>simp add: Let_def\<close>)
      then show ?thesis
        by (rule ev_Suc)
    qed
    have "concat tss = concat tss1"
      by (simp add: ts(1) Nil)
    then show ?thesis
      using line(3) [OF ts(3), of ?s] go by (simp, blast)
  next
    case (Cons t ts')
    have "ev (\<lambda>n. GetNextLine (Suc n) env s = Some (Some (True, ?s)))"
      by (rule ev_mono [OF line(1)]) (use text_line ts(2) Cons line(5) in \<open>simp add: Let_def\<close>)
    from ev_Suc [OF this] have "ev (\<lambda>n. GetNextLine n env s = Some (Some (True, ?s)))" .
    moreover have "line_text (t # ts') (ls_pLine ?s)"
      using text_line ts(2) Cons by simp
    ultimately show ?thesis
      using ts(1,3) Cons line(2) by (intro disjI2 exI [of _ ?s] exI [of _ t] exI [of _ ts'] exI [of _ tss1] exI [of _ outs]) simp
  qed
qed

lemma tokens_read_lines:
  assumes "u = ts @ concat tss" "lines_of Htl env (ls_pp s) ls p" "list_all2 line_text tss ls" "line_text ts (ls_pLine s)" "ls_tk s \<noteq> TkEof"
  shows "\<exists>s1 s2. tokens_read env s u s1 \<and> ev (\<lambda>n. GetNextTk n env s1 = Some (Some (TkEof, s2))) \<and> ls_tk s2 = TkEof \<and> ls_pp s2 = p"
  using assms
proof (induction u arbitrary: s ts tss ls)
  case Nil
  then have "ts = []" "concat tss = []"
    by simp_all
  then obtain s1 where s1: "ev (\<lambda>n. GetNextLine n env (s\<lparr>ls_pLine := SkipSpace (ls_pLine s)\<rparr>) = Some (Some (False, s1)))" "ls_pp s1 = p"
    using lex_next_line [OF Nil(2,3), of "s\<lparr>ls_pLine := SkipSpace (ls_pLine s)\<rparr>"] that unfolding \<open>concat tss = []\<close> by simp blast
  have "ev (\<lambda>n. GetNextTk (Suc n) env s = Some (Some (TkEof, s1\<lparr>ls_tk := TkEof\<rparr>)))"
    by (rule ev_mono [OF s1(1)]) (use Nil(4,5) skip_line \<open>ts = []\<close> in simp)
  from ev_Suc [OF this] show ?case
    using s1(2) by (intro exI [of _ s] exI [of _ "s1\<lparr>ls_tk := TkEof\<rparr>"]) simp
next
  case (Cons t u)
  obtain tk str where t: "t = (tk, str)"
    by (cases t)
  show ?case
  proof (cases ts)
    case (Cons t1 ts1)
    then have "ts = (tk, str) # ts1" "u = ts1 @ concat tss"
      using Cons.prems(1) t by simp_all
    with Cons.prems(4) have l: "line_text ((tk, str) # ts1) (ls_pLine s)"
      by simp
    obtain s1 where s1: "\<forall>n. GetNextTk (Suc n) env s = Some (Some (tk, s1))" "line_text ts1 (ls_pLine s1)" "ls_tk s1 = tk"
        "tk \<in> {TkIdent, TkInteger, TkString} \<longrightarrow> ls_string s1 = str" "ls_pp s1 = ls_pp s" "tk \<noteq> TkEof"
      by (rule token_step [OF l Cons.prems(5), of env])
    have "ev (\<lambda>n. GetNextTk n env s = Some (Some (tk, s1)))"
      by (rule ev_Suc) (simp add: ev_def s1(1) del: GetNextTk.simps)
    moreover have "\<exists>s2 s3. tokens_read env s1 u s2 \<and> ev (\<lambda>n. GetNextTk n env s2 = Some (Some (TkEof, s3))) \<and> ls_tk s3 = TkEof \<and> ls_pp s3 = p"
      by (rule Cons.IH [OF \<open>u = ts1 @ concat tss\<close> _ Cons.prems(3) s1(2)]) (use Cons.prems(2) s1(3,5,6) in simp_all)
    ultimately show ?thesis
      using s1(3,4) t by fastforce
  next
    case Nil
    let ?s = "s\<lparr>ls_pLine := SkipSpace (ls_pLine s)\<rparr>"
    have c: "concat tss = t # u"
      using Cons.prems(1) Nil by simp
    obtain s1 t1 ts1 tss1 ls1 where n: "t # u = (t1 # ts1) @ concat tss1" "ev (\<lambda>n. GetNextLine n env ?s = Some (Some (True, s1)))" "ls_tk s1 = ls_tk ?s"
        "line_text (t1 # ts1) (ls_pLine s1)" "lines_of Htl env (ls_pp s1) ls1 p" "list_all2 line_text tss1 ls1"
      using lex_next_line [OF Cons.prems(2,3), of ?s] unfolding c by auto
    have u: "t1 = (tk, str)" "u = ts1 @ concat tss1"
      using n(1) t by simp_all
    have ne: "ls_tk s1 \<noteq> TkEof"
      using n(3) Cons.prems(5) by simp
    obtain s2 where s2: "\<forall>n. GetNextTk (Suc n) env s1 = Some (Some (tk, s2))" "line_text ts1 (ls_pLine s2)" "ls_tk s2 = tk"
        "tk \<in> {TkIdent, TkInteger, TkString} \<longrightarrow> ls_string s2 = str" "ls_pp s2 = ls_pp s1" "tk \<noteq> TkEof"
      by (rule token_step [OF n(4) [unfolded u(1)] ne, of env])
    have e1: "ev (\<lambda>n. GetNextTk n env s1 = Some (Some (tk, s2)))"
      by (rule ev_Suc) (simp add: ev_def s2(1) del: GetNextTk.simps)
    have "s2\<lparr>ls_tk := tk\<rparr> = s2"
      using s2(3) by simp
    then have "ev (\<lambda>n. GetNextTk (Suc n) env s = Some (Some (tk, s2)))"
      by (intro ev_mono [OF ev_conj [OF n(2) e1]]) (use Cons.prems(4,5) skip_line Nil in simp)
    from ev_Suc [OF this] have "ev (\<lambda>n. GetNextTk n env s = Some (Some (tk, s2)))" .
    moreover have "\<exists>s3 s4. tokens_read env s2 u s3 \<and> ev (\<lambda>n. GetNextTk n env s3 = Some (Some (TkEof, s4))) \<and> ls_tk s4 = TkEof \<and> ls_pp s4 = p"
      by (rule Cons.IH [OF u(2) _ n(6) s2(2)]) (use n(5) s2(3,5,6) in simp_all)
    ultimately show ?thesis
      using s2(3,4) t by fastforce
  qed
qed

text \<open>
  C38: The lexer reads what was written: when the preprocessor returns lines that are written as tokens (identifiers, integers, strings, characters) with any
  blanks between them and comments or line ends behind them, the calls of GetNextTk return these tokens in order over all lines, each with its string,
  then the end of the file, and from then on always the end of the file.
\<close>

theorem lexer_reads:
  assumes "lines_of Htl env (ls_pp s) ls p" "list_all2 line_text tss ls" "line_text ts (ls_pLine s)" "ls_tk s \<noteq> TkEof"
  shows "\<exists>s1 s2. tokens_read env s (ts @ concat tss) s1 \<and> ev (\<lambda>n. GetNextTk n env s1 = Some (Some (TkEof, s2))) \<and>
    (\<forall>n. GetNextTk (Suc n) env s2 = Some (Some (TkEof, s2))) \<and> ls_pp s2 = p"
proof -
  from tokens_read_lines [OF refl assms(1-4)] obtain s1 s2 where r: "tokens_read env s (ts @ concat tss) s1"
      "ev (\<lambda>n. GetNextTk n env s1 = Some (Some (TkEof, s2)))" "ls_tk s2 = TkEof" "ls_pp s2 = p"
    by blast
  show ?thesis
    by (intro exI [of _ s1] exI [of _ s2] conjI r(1,2,4)) (simp add: r(3))
qed

text \<open>Two lines, the first already at the lexer.\<close>

definition lex_example :: lex_state where
  "lex_example = \<lparr>ls_pp = (cond_state 0 [])\<lparr>pp_rd := (pp_rd (cond_state 0 []))\<lparr>rd_buf := ''ab=3;'' @ [CHR 0x0A]\<rparr>\<rparr>, ls_pLine = ''( 12ab'', ls_string = [], ls_tk = TkUnknown\<rparr>"

lemma lex_example_lines: "\<exists>p. lines_of Htl cond_env (ls_pp lex_example) [''ab=3;''] p"
proof -
  let ?q = "(ls_pp lex_example)\<lparr>pp_rd := \<lparr>rd_line = ''ab=3;'', rd_linePos = \<lparr>lp_baseOffset = 0, lp_deltaList = [(5, 1)]\<rparr>, rd_buf = [], rd_reads = [],
    rd_off = 6, rd_lineNum = 1, rd_bInComment = False, rd_errs = []\<rparr>\<rparr>"
  let ?p = "?q\<lparr>pp_open := False, pp_rd := (pp_rd ?q)\<lparr>rd_line := [], rd_linePos := \<lparr>lp_baseOffset = 6, lp_deltaList = []\<rparr>\<rparr>\<rparr>"
  note defs = lex_example_def cond_state_def cond_file_def pp_initial_def GetLineWithCommentsStripped_def GetLineFromFile_def lp_SetBaseOffset_def Let_def eval_nat_numeral
  have 1: "pp_GetLine (n + 9) Htl cond_env (ls_pp lex_example) = Some (Some (True, ?q))" for n
    by (simp add: defs scan_code_def scan_comment_def find_from_def lp_Delete_def lp_shift_def copy_line.simps scan_line.simps char_at_def line_step_def hd_is_def
        expand_line_def PerformMacroExpansion_def SkipSpace_def is_blank_def skip_at_def name_start_char_def is_name_def is_alpha_def is_digit_def)
  have 2: "pp_GetLine (n + 9) Htl cond_env ?q = Some (Some (False, ?p))" for n
    by (simp add: defs next_read_def end_of_file_step_def pp_Close_def new_cond_def)
  have r: "ev (\<lambda>n. pp_GetLine n Htl cond_env (ls_pp lex_example) = Some (Some (True, ?q)))" "ev (\<lambda>n. pp_GetLine n Htl cond_env ?q = Some (Some (False, ?p)))"
    unfolding ev_def by (rule exI [of _ 9], use 1 in blast, rule exI [of _ 9], use 2 in blast)
  show ?thesis
    using lines_of.line [OF r(1) lines_of.last [OF r(2)]] by auto
qed

lemma lexer_reads_witness:
  "\<exists>s1 s2. tokens_read cond_env lex_example [(TkLParen, []), (TkIdent, ''12ab''), (TkIdent, ''ab''), (TkEqual, []), (TkInteger, ''3''), (TkSemi, [])] s1 \<and>
    ev (\<lambda>n. GetNextTk n cond_env s1 = Some (Some (TkEof, s2)))"
proof -
  obtain p where p: "lines_of Htl cond_env (ls_pp lex_example) [''ab=3;''] p"
    using lex_example_lines by blast
  note facts = token_text_def apart_def char_token_def is_name_def is_alpha_def is_digit_def line_end_def is_blank_def
  have end_line: "line_text [] []"
    using line_done [of "[]" "[]"] by (simp add: line_end_def)
  have "line_text [(TkIdent, ''12ab'')] ('' '' @ ''12ab'' @ [])"
    by (rule line_token [OF _ _ _ end_line]) (simp_all add: facts)
  then have "line_text [(TkLParen, []), (TkIdent, ''12ab'')] ([] @ ''('' @ '' 12ab'')"
    by (intro line_token) (simp_all add: facts)
  then have a: "line_text [(TkLParen, []), (TkIdent, ''12ab'')] ''( 12ab''"
    by simp
  have "line_text [(TkSemi, [])] ([] @ '';'' @ [])"
    by (rule line_token [OF _ _ _ end_line]) (simp_all add: facts)
  then have "line_text [(TkInteger, ''3''), (TkSemi, [])] ([] @ ''3'' @ '';'')"
    by (intro line_token) (simp_all add: facts)
  then have "line_text [(TkEqual, []), (TkInteger, ''3''), (TkSemi, [])] ([] @ ''='' @ ''3;'')"
    by (intro line_token) (simp_all add: facts)
  then have "line_text [(TkIdent, ''ab''), (TkEqual, []), (TkInteger, ''3''), (TkSemi, [])] ([] @ ''ab'' @ ''=3;'')"
    by (intro line_token) (simp_all add: facts)
  then have b: "line_text [(TkIdent, ''ab''), (TkEqual, []), (TkInteger, ''3''), (TkSemi, [])] ''ab=3;''"
    by simp
  have "list_all2 line_text [[(TkIdent, ''ab''), (TkEqual, []), (TkInteger, ''3''), (TkSemi, [])]] [''ab=3;'']"
      "line_text [(TkLParen, []), (TkIdent, ''12ab'')] (ls_pLine lex_example)" "ls_tk lex_example \<noteq> TkEof"
    using a b by (simp_all add: lex_example_def)
  from lexer_reads [OF p this] show ?thesis
    by (simp only: concat.simps append.simps) blast
qed

end
