(* ===== verification/HtiPath.thy ===== *)
theory HtiPath
  imports HtlLex
begin

text \<open>
  Units and paths in the instance file of \<^verbatim>\<open>htl\<close> (\<^verbatim>\<open>HtiFile.cpp\<close>): the syntax of a message interface, its match with the instances of a module, and the parameters
  that are collected for a module instance. The theorem says that the parts of a path are read as they were written. Line numbers of messages are left out;
  the strings hold no null character.
\<close>

section \<open>Numbers\<close>

text \<open>\<^verbatim>\<open>strtol\<close> at base 10: the value, which stays within \<^verbatim>\<open>long\<close>, and the text behind it; without digits nothing is read.\<close>

definition c_long :: "int \<Rightarrow> int" where
  "c_long v = max (- (2 ^ 63)) (min (2 ^ 63 - 1) v)"

definition c_strtol :: "string \<Rightarrow> int \<times> string" where
  "c_strtol p = (let q = dropWhile is_space p; neg = (peek q = CHR ''-''); q = (if peek q = CHR ''-'' \<or> peek q = CHR ''+'' then tl q else q);
       v = int (dec_value (takeWhile is_digit q)) in
     if is_digit (peek q) then (c_long (if neg then - v else v), dropWhile is_digit q) else (0, p))"

section \<open>Message interface paths\<close>

record msg_path =
  mp_unitName :: string
  mp_instPath :: string
  mp_bInBound :: bool
  mp_unitIdx :: int
  mp_replIdx :: int
  mp_msgIntfName :: string
  mp_msgIntfIdx :: "int list"

text \<open>The unit and its index; the read behind the end of the string is undefined.\<close>

definition parse_unit :: "string \<Rightarrow> (string \<times> int \<times> string list) option" where
  "parse_unit msgUnit = (let name = takeWhile (\<lambda>c. c \<noteq> CHR ''['') msgUnit in
     case dropWhile (\<lambda>c. c \<noteq> CHR ''['') msgUnit of
       [] \<Rightarrow> Some (name, - 1, [])
     | _ # p \<Rightarrow> (case c_strtol p of (v, e) \<Rightarrow>
         if e = [] then None
         else Some (name, c_wrap CS32 v, (if e = p \<or> hd e \<noteq> CHR '']'' then [''illegal unit index syntax''] else []) @
           (if tl e \<noteq> [] then [''illegal unit index syntax''] else []))))"

text \<open>
  The path is read from its end; \<open>r\<close> is the rest from \<^verbatim>\<open>strIdx\<close> on backwards, so that \<^verbatim>\<open>pPath[strIdx]\<close> is its head, and undefined for an empty rest. The
  pointers that are compared behind \<^verbatim>\<open>strtol\<close> are never equal: one is in the string of the unit, and for the replication index behind the name.
\<close>

definition char_back :: "string \<Rightarrow> char option" where
  "char_back r = (case r of [] \<Rightarrow> None | c # _ \<Rightarrow> Some c)"

definition path_index :: "string \<Rightarrow> (int \<times> string) option option" where
  "path_index r = (let r = tl r; v = c_wrap CS32 (fst (c_strtol (rev (takeWhile is_digit r)))); r = dropWhile is_digit r in
     case char_back r of None \<Rightarrow> None
     | Some c \<Rightarrow> Some (if c \<noteq> CHR ''['' then None else Some (v, tl r)))"

text \<open>An index at the end, when there is one; \<open>Inl\<close> is the return behind a message.\<close>

definition opt_index :: "int \<Rightarrow> string \<Rightarrow> (unit + int \<times> string) option" where
  "opt_index none r = (case char_back r of None \<Rightarrow> None
     | Some c \<Rightarrow> if c \<noteq> CHR '']'' then Some (Inr (none, r))
         else (case path_index r of None \<Rightarrow> None | Some None \<Rightarrow> Some (Inl ()) | Some (Some x) \<Rightarrow> Some (Inr x)))"

definition idx_list :: "int \<Rightarrow> int list" where
  "idx_list i = (if 0 \<le> i then [i] else [])"

text \<open>The module path behind the name; \<open>p\<close> has what was read before.\<close>

definition parse_module :: "string \<Rightarrow> msg_path \<Rightarrow> string list \<Rightarrow> (msg_path \<times> string list) option" where
  "parse_module r p errs = (case opt_index 0 r of None \<Rightarrow> None
     | Some (Inl _) \<Rightarrow> Some (p, errs @ [''illegal syntax for module replication index''])
     | Some (Inr (replIdx, r)) \<Rightarrow> let p = p\<lparr>mp_replIdx := replIdx\<rparr> in
         if length r = 1 then Some (p, errs @ [''illegal syntax for module path'']) else Some (p\<lparr>mp_instPath := rev r\<rparr>, errs))"

definition parse_name :: "string \<Rightarrow> msg_path \<Rightarrow> string list \<Rightarrow> (msg_path \<times> string list) option" where
  "parse_name r p errs = (let p = p\<lparr>mp_msgIntfName := rev (takeWhile (\<lambda>c. c \<noteq> CHR ''/'') r)\<rparr> in
     case dropWhile (\<lambda>c. c \<noteq> CHR ''/'') r of [] \<Rightarrow> None | _ # r \<Rightarrow> parse_module r p errs)"

text \<open>The constructor; \<open>raw\<close> has what the storage of \<^verbatim>\<open>m_replIdx\<close> holds.\<close>

definition CMsgIntfPath :: "int \<Rightarrow> string \<Rightarrow> string \<Rightarrow> bool \<Rightarrow> (msg_path \<times> string list) option" where
  "CMsgIntfPath raw msgUnit msgPath bInBound = (case parse_unit msgUnit of None \<Rightarrow> None
     | Some (unitName, unitIdx, errs) \<Rightarrow>
         let p = \<lparr>mp_unitName = unitName, mp_instPath = [], mp_bInBound = bInBound, mp_unitIdx = unitIdx, mp_replIdx = raw, mp_msgIntfName = [], mp_msgIntfIdx = []\<rparr>;
             bad = Some (p, errs @ [''illegal syntax for message interface index'']) in
         (case opt_index (- 1) (rev msgPath) of None \<Rightarrow> None
          | Some (Inl _) \<Rightarrow> bad
          | Some (Inr (idx2, r)) \<Rightarrow>
              (case opt_index (- 1) r of None \<Rightarrow> None
               | Some (Inl _) \<Rightarrow> bad
               | Some (Inr (idx1, r)) \<Rightarrow> parse_name r (p\<lparr>mp_msgIntfIdx := idx_list idx1 @ idx_list idx2\<rparr>) errs)))"

section \<open>Matching\<close>

text \<open>
  A path of an instance is a unit, a colon and the path in the unit. The search over the paths of an instance: \<open>None\<close> when one before the match has
  another form.
\<close>

fun paths_match :: "msg_path \<Rightarrow> string list \<Rightarrow> bool option" where
  "paths_match info [] = Some False"
| "paths_match info (modPath # paths) =
     (let unitName = takeWhile (\<lambda>c. c \<noteq> CHR '':'') modPath; rest = dropWhile (\<lambda>c. c \<noteq> CHR '':'') modPath in
      if take 2 rest \<noteq> '':/'' then None
      else if mp_unitName info \<noteq> [] \<and> mp_unitName info \<noteq> unitName then paths_match info paths
      else if mp_instPath info \<noteq> tl rest then paths_match info paths
      else Some True)"

text \<open>IsMatch returns the match and \<^verbatim>\<open>bError\<close>.\<close>

definition IsMatch :: "msg_path \<Rightarrow> string list \<Rightarrow> string \<Rightarrow> bool \<Rightarrow> bool \<times> bool" where
  "IsMatch info modPaths msgName bInBound =
     (if mp_msgIntfName info \<noteq> msgName \<or> bInBound \<noteq> mp_bInBound info then (False, False)
      else case paths_match info modPaths of None \<Rightarrow> (False, True) | Some b \<Rightarrow> (b, False))"

text \<open>The search over the instances and their replications: the result, \<^verbatim>\<open>instIdx\<close>, and whether a path has another form.\<close>

fun repl_match :: "msg_path \<Rightarrow> string list list \<Rightarrow> bool option" where
  "repl_match info [] = Some False"
| "repl_match info (paths # repls) = (case paths_match info paths of None \<Rightarrow> None | Some True \<Rightarrow> Some True | Some False \<Rightarrow> repl_match info repls)"

fun inst_match :: "msg_path \<Rightarrow> nat \<Rightarrow> string list list list \<Rightarrow> bool \<times> nat \<times> bool" where
  "inst_match info instIdx [] = (False, instIdx, False)"
| "inst_match info instIdx (repls # insts) =
     (case repl_match info repls of None \<Rightarrow> (False, instIdx, True) | Some True \<Rightarrow> (True, instIdx, False) | Some False \<Rightarrow> inst_match info (instIdx + 1) insts)"

text \<open>
  The two tests of a module's interface, of which the name, the direction and (for messages) \<^verbatim>\<open>m_bAutoConn\<close> matter: the result, \<^verbatim>\<open>instIdx\<close>, which is not set by the
  first return, and the messages. \<open>bErrMsg\<close> is the static flag of the hint.
\<close>

definition IsMsgPathMatch :: "msg_path \<Rightarrow> string \<Rightarrow> bool \<Rightarrow> bool \<Rightarrow> string list list list \<Rightarrow> bool \<Rightarrow> bool \<times> nat option \<times> string list \<times> bool" where
  "IsMsgPathMatch info name bInBound bAutoConn insts bErrMsg =
     (if mp_msgIntfName info \<noteq> name \<or> \<not> bInBound \<and> mp_bInBound info then (False, None, [], bErrMsg)
      else case inst_match info 0 insts of (found, instIdx, bad) \<Rightarrow>
        if bad then (False, Some instIdx, [''Invalid module path syntax''], bErrMsg)
        else if found \<and> bAutoConn then
          (True, Some instIdx, ''message interface match to interface with auto connect enabled'' #
             (if bErrMsg then [''use AddMsgIntf(autoConn=false) to allow HTI connection''] else []), False)
        else (found, Some instIdx, [], bErrMsg))"

definition IsUioPathMatch :: "msg_path \<Rightarrow> string \<Rightarrow> bool \<Rightarrow> string list list list \<Rightarrow> bool \<times> nat option \<times> string list" where
  "IsUioPathMatch info name bInbound insts =
     (if mp_msgIntfName info \<noteq> name \<or> \<not> bInbound \<and> mp_bInBound info then (False, None, [])
      else case inst_match info 0 insts of (found, instIdx, bad) \<Rightarrow>
        if bad then (False, Some instIdx, [''Invalid module path syntax'']) else (found, Some instIdx, []))"

section \<open>Parameters of a module instance\<close>

record mod_inst_params =
  mi_unitName :: string
  mi_modPath :: string
  mi_memPortList :: "int list"
  mi_modInstName :: string
  mi_replCnt :: int
  mi_paramPairList :: "(string \<times> string) list"
  mi_wasUsed :: bool

record instance_params =
  ip_memPortList :: "int list"
  ip_modInstName :: string
  ip_bExplicitRepl :: bool
  ip_replCnt :: int
  ip_paramPairList :: "(string \<times> string) list"

text \<open>What one entry for the path does.\<close>

definition merge_params :: "mod_inst_params \<Rightarrow> instance_params \<times> string list \<Rightarrow> instance_params \<times> string list" where
  "merge_params i s = (case s of (m, errs) \<Rightarrow>
     let (m, errs) = (if ip_memPortList m = [] then (m\<lparr>ip_memPortList := mi_memPortList i\<rparr>, errs)
           else (m, errs @ [''Instance file specified memPort for module path multiple times'']));
         (m, errs) = (if ip_replCnt m < 0 then (m\<lparr>ip_bExplicitRepl := True, ip_replCnt := mi_replCnt i\<rparr>, errs)
           else if 0 \<le> mi_replCnt i then (m, errs @ [''Instance file specified replCnt for module path multiple times''])
           else (m, errs))
     in (m\<lparr>ip_modInstName := mi_modInstName i, ip_paramPairList := ip_paramPairList m @ mi_paramPairList i\<rparr>, errs))"

definition is_for :: "string \<Rightarrow> mod_inst_params \<Rightarrow> bool" where
  "is_for modPath i \<longleftrightarrow> mi_unitName i @ '':'' @ mi_modPath i = modPath"

definition GetModInstParams :: "string \<Rightarrow> instance_params \<Rightarrow> mod_inst_params list \<Rightarrow> instance_params \<times> string list \<times> mod_inst_params list" where
  "GetModInstParams modPath m ls = (case fold merge_params (filter (is_for modPath) ls) (m, []) of (m, errs) \<Rightarrow>
     (if ip_replCnt m < 0 then m\<lparr>ip_replCnt := 1\<rparr> else m, errs, map (\<lambda>i. if is_for modPath i then i\<lparr>mi_wasUsed := True\<rparr> else i) ls))"

definition CheckModInstParamsUsed :: "mod_inst_params list \<Rightarrow> string list" where
  "CheckModInstParamsUsed ls = map (\<lambda>i. ''AddModInstParams with unit='' @ mi_unitName i @ '', modPath='' @ mi_modPath i @ '' was not used'') (filter (\<lambda>i. \<not> mi_wasUsed i) ls)"

section \<open>A path is read as it was written\<close>

definition index_text :: "nat \<Rightarrow> string" where
  "index_text n = ''['' @ dec_digits n @ '']''"

lemma digits_of: "list_all is_digit (dec_digits n) \<and> dec_digits n \<noteq> [] \<and> dec_value (dec_digits n) = n"
proof (induction n rule: dec_digits.induct)
  case (1 n)
  have d: "char_code (char_of (48 + k) :: char) = 48 + k" if "k < 10" for k :: nat
    using that by simp
  show ?case
  proof (cases "n < 10")
    case True
    then show ?thesis
      by (subst (1 2 3) dec_digits.simps) (simp add: is_digit_def dec_value_def)
  next
    case False
    with 1 have IH: "list_all is_digit (dec_digits (n div 10))" "dec_digits (n div 10) \<noteq> []" "dec_value (dec_digits (n div 10)) = n div 10"
      by blast+
    have "n mod 10 < 10"
      by simp
    with False IH show ?thesis
      by (subst (1 2 3) dec_digits.simps) (simp add: is_digit_def dec_value_def)
  qed
qed

lemma digit_facts: "is_digit c \<Longrightarrow> \<not> is_space c \<and> c \<notin> {CHR ''-'', CHR ''+'', CHR '']'', CHR ''['', CHR 0x00}"
  by (auto simp: is_digit_def is_space_def)

lemma strtol_digits:
  assumes "n < 2 ^ 31" "r = [] \<or> \<not> is_digit (hd r)"
  shows "c_strtol (dec_digits n @ r) = (int n, r)"
proof -
  note d = digits_of [of n]
  obtain c ds where c: "dec_digits n = c # ds" "is_digit c"
    using d by (cases "dec_digits n") auto
  have t: "takeWhile is_digit (dec_digits n @ r) = dec_digits n \<and> dropWhile is_digit (dec_digits n @ r) = r"
    using take_all d assms(2) by blast
  have "dropWhile is_space (dec_digits n @ r) = dec_digits n @ r" "peek (dec_digits n @ r) = c"
    using c digit_facts by simp_all
  moreover have "c_long (int n) = int n"
    using assms(1) by (simp add: c_long_def)
  ultimately show ?thesis
    using t d c digit_facts [OF c(2)] by (simp add: c_strtol_def Let_def)
qed

lemma wrap_small: "n < 2 ^ 31 \<Longrightarrow> c_wrap CS32 (int n) = int n"
  by (simp add: signed_take_bit_int_eq_self)

lemma index_read:
  assumes "n < 2 ^ 31"
  shows "opt_index none (rev (p @ index_text n)) = Some (Inr (int n, rev p))"
proof -
  note d = digits_of [of n]
  have "list_all is_digit (rev (dec_digits n))"
    using d by (simp add: list_all_iff)
  then have t: "takeWhile is_digit (rev (dec_digits n) @ CHR ''['' # rev p) = rev (dec_digits n) \<and> dropWhile is_digit (rev (dec_digits n) @ CHR ''['' # rev p) = CHR ''['' # rev p"
    by (intro take_all) (simp_all add: is_digit_def)
  have "c_strtol (dec_digits n) = (int n, [])"
    using strtol_digits [OF assms, of "[]"] by simp
  then show ?thesis
    using t by (simp add: opt_index_def path_index_def index_text_def char_back_def Let_def wrap_small [OF assms] del: c_wrap.simps)
qed

lemma no_index: "p \<noteq> [] \<Longrightarrow> last p \<noteq> CHR '']'' \<Longrightarrow> opt_index none (rev p) = Some (Inr (none, rev p))"
  by (cases p rule: rev_cases) (simp_all add: opt_index_def char_back_def)

lemma unit_read: "CHR ''['' \<notin> set u \<Longrightarrow> parse_unit u = Some (u, - 1, [])"
proof -
  assume "CHR ''['' \<notin> set u"
  then have "takeWhile (\<lambda>c. c \<noteq> CHR ''['') u = u" "dropWhile (\<lambda>c. c \<noteq> CHR ''['') u = []"
    by (auto simp: takeWhile_eq_all_conv)
  then show ?thesis
    unfolding parse_unit_def Let_def by (simp only: list.case)
qed

lemma unit_index_read:
  assumes "CHR ''['' \<notin> set u" "i < 2 ^ 31"
  shows "parse_unit (u @ index_text i) = Some (u, int i, [])"
proof -
  have "list_all (\<lambda>c. c \<noteq> CHR ''['') u"
    using assms(1) by (auto simp: list_all_iff)
  then have t: "takeWhile (\<lambda>c. c \<noteq> CHR ''['') (u @ index_text i) = u \<and> dropWhile (\<lambda>c. c \<noteq> CHR ''['') (u @ index_text i) = index_text i"
    by (intro take_all) (simp_all add: index_text_def)
  have "c_strtol (dec_digits i @ '']'') = (int i, '']'')"
    by (rule strtol_digits [OF assms(2)]) (simp add: is_digit_def)
  moreover have "dec_digits i \<noteq> []"
    using digits_of by blast
  ultimately show ?thesis
    using t by (auto simp: parse_unit_def index_text_def wrap_small [OF assms(2)] simp del: c_wrap.simps)
qed

lemma module_read:
  assumes "2 \<le> length m" "last m \<noteq> CHR '']''" "case ri of None \<Rightarrow> True | Some n \<Rightarrow> n < 2 ^ 31"
  shows "parse_module (rev (m @ (case ri of None \<Rightarrow> [] | Some n \<Rightarrow> index_text n))) p errs =
    Some (p\<lparr>mp_replIdx := (case ri of None \<Rightarrow> 0 | Some n \<Rightarrow> int n), mp_instPath := m\<rparr>, errs)"
proof -
  have "opt_index 0 (rev (m @ (case ri of None \<Rightarrow> [] | Some n \<Rightarrow> index_text n))) = Some (Inr ((case ri of None \<Rightarrow> 0 | Some n \<Rightarrow> int n), rev m))"
  proof (cases ri)
    case None
    have "m \<noteq> []"
      using assms(1) by auto
    from no_index [OF this assms(2)] None show ?thesis
      by simp
  next
    case (Some n)
    then show ?thesis
      using index_read [of n 0 m] assms(3) by simp
  qed
  then show ?thesis
    using assms(1) by (simp add: parse_module_def)
qed

lemma name_read:
  assumes "CHR ''/'' \<notin> set name"
  shows "parse_name (rev (m @ ''/'' @ name)) p errs = parse_module (rev m) (p\<lparr>mp_msgIntfName := name\<rparr>) errs"
proof -
  have "list_all (\<lambda>c. c \<noteq> CHR ''/'') (rev name)"
    using assms by (auto simp: list_all_iff)
  then have "takeWhile (\<lambda>c. c \<noteq> CHR ''/'') (rev name @ CHR ''/'' # rev m) = rev name \<and> dropWhile (\<lambda>c. c \<noteq> CHR ''/'') (rev name @ CHR ''/'' # rev m) = CHR ''/'' # rev m"
    by (intro take_all) simp_all
  then show ?thesis
    by (simp add: parse_name_def)
qed

text \<open>The indexes of the interface, at most two.\<close>

lemma indexes_read:
  assumes "q \<noteq> []" "last q \<noteq> CHR '']''" "list_all (\<lambda>n. n < 2 ^ 31) ns" "length ns \<le> 2"
  obtains i1 i2 r where "opt_index (- 1) (rev (q @ concat (map index_text ns))) = Some (Inr (i2, r))" "opt_index (- 1) r = Some (Inr (i1, rev q))"
    "idx_list i1 @ idx_list i2 = map int ns"
proof -
  note n = no_index [OF assms(1,2), of "- 1"]
  consider "ns = []" | a where "ns = [a]" | a b where "ns = [a, b]"
    using assms(4) by (cases ns; cases "tl ns"; cases "tl (tl ns)") auto
  then show ?thesis
  proof cases
    case 1
    then show ?thesis
      using that [of "- 1" "rev q" "- 1"] n by (simp add: idx_list_def)
  next
    case (2 a)
    then show ?thesis
      using that [of "int a" "rev q" "- 1"] n index_read [of a "- 1" q] assms(3) by (simp add: idx_list_def)
  next
    case (3 a b)
    have "opt_index (- 1) (rev ((q @ index_text a) @ index_text b)) = Some (Inr (int b, rev (q @ index_text a)))"
        "opt_index (- 1) (rev (q @ index_text a)) = Some (Inr (int a, rev q))"
      using index_read [of b "- 1" "q @ index_text a"] index_read [of a "- 1" q] assms(3) 3 by simp_all
    then show ?thesis
      using that [of "int b" "rev (q @ index_text a)" "int a"] 3 by (simp add: idx_list_def)
  qed
qed

text \<open>
  C39: the path of a message interface is read as it was written: a unit with or without an index, the path of a module with or without a replication index,
  the name of the interface and up to two indexes are the parts that the constructor finds, without a message; no other part of the storage is left.
\<close>

theorem path_roundtrip:
  assumes "CHR ''['' \<notin> set u" "case ui of None \<Rightarrow> True | Some n \<Rightarrow> n < 2 ^ 31" "2 \<le> length m" "last m \<noteq> CHR '']''"
    "case ri of None \<Rightarrow> True | Some n \<Rightarrow> n < 2 ^ 31" "CHR ''/'' \<notin> set name" "name \<noteq> []" "last name \<noteq> CHR '']''"
    "list_all (\<lambda>n. n < 2 ^ 31) ns" "length ns \<le> 2"
  shows "CMsgIntfPath raw (u @ (case ui of None \<Rightarrow> [] | Some n \<Rightarrow> index_text n))
      (m @ (case ri of None \<Rightarrow> [] | Some n \<Rightarrow> index_text n) @ ''/'' @ name @ concat (map index_text ns)) bInBound =
    Some (\<lparr>mp_unitName = u, mp_instPath = m, mp_bInBound = bInBound, mp_unitIdx = (case ui of None \<Rightarrow> - 1 | Some n \<Rightarrow> int n),
      mp_replIdx = (case ri of None \<Rightarrow> 0 | Some n \<Rightarrow> int n), mp_msgIntfName = name, mp_msgIntfIdx = map int ns\<rparr>, [])"
proof -
  let ?m = "m @ (case ri of None \<Rightarrow> [] | Some n \<Rightarrow> index_text n)"
  have u: "parse_unit (u @ (case ui of None \<Rightarrow> [] | Some n \<Rightarrow> index_text n)) = Some (u, (case ui of None \<Rightarrow> - 1 | Some n \<Rightarrow> int n), [])"
    using unit_read [OF assms(1)] unit_index_read [OF assms(1)] assms(2) by (cases ui) simp_all
  have q: "?m @ ''/'' @ name \<noteq> []" "last (?m @ ''/'' @ name) \<noteq> CHR '']''"
    using assms(7,8) by simp_all
  obtain i1 i2 r where r: "opt_index (- 1) (rev ((?m @ ''/'' @ name) @ concat (map index_text ns))) = Some (Inr (i2, r))"
      "opt_index (- 1) r = Some (Inr (i1, rev (?m @ ''/'' @ name)))" "idx_list i1 @ idx_list i2 = map int ns"
    by (rule indexes_read [OF q assms(9,10)])
  have path: "m @ (case ri of None \<Rightarrow> [] | Some n \<Rightarrow> index_text n) @ ''/'' @ name @ concat (map index_text ns) = (?m @ ''/'' @ name) @ concat (map index_text ns)"
    by simp
  show ?thesis
    unfolding path CMsgIntfPath_def u r(1) option.case prod.case sum.case Let_def r(2) r(3) name_read [OF assms(6)] module_read [OF assms(3-5)] by simp
qed

lemma path_roundtrip_witness:
  "CMsgIntfPath 7 ''Au[3]'' ''/ctl/add[1]/link[0][12]'' True =
    Some (\<lparr>mp_unitName = ''Au'', mp_instPath = ''/ctl/add'', mp_bInBound = True, mp_unitIdx = 3, mp_replIdx = 1, mp_msgIntfName = ''link'', mp_msgIntfIdx = [0, 12]\<rparr>, [])"
proof -
  have "dec_digits 0 = ''0''" "dec_digits 1 = ''1''" "dec_digits 3 = ''3''" "dec_digits 12 = ''12''"
    by (simp_all add: dec_digits.simps char_of_def bit_iff_odd)
  then show ?thesis
    using path_roundtrip [of "''Au''" "Some 3" "''/ctl/add''" "Some 1" "''link''" "[0, 12]" 7 True] by (simp add: index_text_def)
qed

text \<open>
  An empty index is taken as 0, because the pointer behind the number is not compared with its start; a path without a module, and an empty path, read
  the character before the string.
\<close>

lemma path_errors:
  "CMsgIntfPath raw [] ''/a/x[]'' b = Some (\<lparr>mp_unitName = [], mp_instPath = ''/a'', mp_bInBound = b, mp_unitIdx = - 1, mp_replIdx = 0, mp_msgIntfName = ''x'',
     mp_msgIntfIdx = [0]\<rparr>, [])"
  "CMsgIntfPath raw [] ''/x'' b = None" "CMsgIntfPath raw [] [] b = None"
  by (simp_all add: CMsgIntfPath_def parse_unit_def opt_index_def path_index_def parse_name_def parse_module_def char_back_def c_strtol_def idx_list_def is_digit_def
      c_long_def)

text \<open>Two entries for one instance are always reported, since every entry has a replication count.\<close>

lemma merge_reports:
  assumes "filter (is_for modPath) ls = i # j # is" "\<forall>x\<in>set ls. 0 \<le> mi_replCnt x"
  shows "fst (snd (GetModInstParams modPath m ls)) \<noteq> []"
proof -
  have more: "\<exists>more. snd (fold merge_params xs (m, errs)) = errs @ more" for xs m errs
  proof (induction xs arbitrary: m errs)
    case (Cons x xs)
    have "\<exists>m' more. merge_params x (m, errs) = (m', errs @ more)"
      by (simp add: merge_params_def)
    then obtain m' more where "merge_params x (m, errs) = (m', errs @ more)"
      by blast
    then show ?case
      using Cons [of m' "errs @ more"] by auto
  qed simp
  have "set (i # j # is) \<subseteq> set ls"
    using assms(1) by (metis filter_is_subset)
  then have "0 \<le> mi_replCnt i" "0 \<le> mi_replCnt j"
    using assms(2) by auto
  then have "snd (merge_params j (merge_params i (m, []))) \<noteq> []"
    by (simp add: merge_params_def)
  then obtain m2 e where "merge_params j (merge_params i (m, [])) = (m2, e)" "e \<noteq> []"
    by (cases "merge_params j (merge_params i (m, []))") simp
  then show ?thesis
    using more [of "is" m2 e] by (auto simp: GetModInstParams_def assms(1) split: prod.splits)
qed

end
