(* ===== verification/MemTrace.thy ===== *)
theory MemTrace
  imports CIntegers
begin

text \<open>
  \<^verbatim>\<open>CMemTrace\<close> of \<^verbatim>\<open>ht_lib/sysc/HtMemTrace.h\<close>: the map of the address ranges that were allocated for the coprocessor, and the trace file of memory requests
  with its table of source lines.
\<close>

section \<open>Address ranges\<close>

record addr_range =
  ar_base :: u64
  ar_size :: u64

abbreviation ar_end :: "addr_range \<Rightarrow> u64" where
  "ar_end r \<equiv> ar_base r + ar_size r"

text \<open>AddrRangeCmp, the order of the \<^verbatim>\<open>map\<close>; a map is the list of its entries in that order.\<close>

definition range_less :: "addr_range \<Rightarrow> addr_range \<Rightarrow> bool" where
  "range_less a b \<longleftrightarrow> ar_end a \<le> ar_base b"

type_synonym range_map = "(addr_range \<times> bool) list"

text \<open>The \<^verbatim>\<open>insert\<close> of the map: nothing when there is an entry that is neither before nor behind the new one.\<close>

definition map_insert :: "addr_range \<times> bool \<Rightarrow> range_map \<Rightarrow> range_map" where
  "map_insert x m = (let before = takeWhile (\<lambda>y. range_less (fst y) (fst x)) m; behind = dropWhile (\<lambda>y. range_less (fst y) (fst x)) m in
     if behind \<noteq> [] \<and> \<not> range_less (fst x) (fst (hd behind)) then m else before @ x # behind)"

text \<open>The loop of Insert over the entries: those that stay and the range that is inserted.\<close>

fun merge_ranges :: "u64 \<Rightarrow> u64 \<Rightarrow> range_map \<Rightarrow> range_map \<times> u64 \<times> u64" where
  "merge_ranges b e [] = ([], b, e)"
| "merge_ranges b e (x # m) =
     (if e < ar_base (fst x) then (x # m, b, e)
      else if ar_end (fst x) < b then (case merge_ranges b e m of (m, r) \<Rightarrow> (x # m, r))
      else merge_ranges (min b (ar_base (fst x))) (max e (ar_end (fst x))) m)"

definition range_Insert :: "u64 \<Rightarrow> u64 \<Rightarrow> bool \<Rightarrow> range_map \<Rightarrow> range_map" where
  "range_Insert base sz bCoproc m = (case merge_ranges base (base + sz) m of (m, b, e) \<Rightarrow> map_insert (\<lparr>ar_base = b, ar_size = e - b\<rparr>, bCoproc) m)"

text \<open>Find: \<^verbatim>\<open>lower_bound\<close> of an empty range at the address.\<close>

definition range_Find :: "u64 \<Rightarrow> range_map \<Rightarrow> bool option" where
  "range_Find addr m = (case dropWhile (\<lambda>x. range_less (fst x) \<lparr>ar_base = addr, ar_size = 0\<rparr>) m of [] \<Rightarrow> None
     | x # _ \<Rightarrow> if ar_base (fst x) \<le> addr \<and> addr < ar_end (fst x) then Some (snd x) else None)"

text \<open>SetAddressRange and the two tests; the flag for validation is kept with the map. \<^verbatim>\<open>low\<close> is an \<^verbatim>\<open>int\<close> below 64.\<close>

record range_state =
  rs_map :: range_map
  rs_bValidation :: bool

definition align_range :: "u64 \<Rightarrow> u64 \<Rightarrow> u64 \<times> u64" where
  "align_range base sz = (let low = base AND 0x3f in (base - low, (sz + low + 0x3f) AND NOT 0x3f))"

definition SetAddressRange :: "u64 \<Rightarrow> u64 \<Rightarrow> bool \<Rightarrow> bool \<Rightarrow> range_state \<Rightarrow> range_state" where
  "SetAddressRange base sz bCoproc bValidation s = (case align_range base sz of (base, sz) \<Rightarrow>
     \<lparr>rs_map = range_Insert base sz bCoproc (rs_map s), rs_bValidation = (rs_bValidation s \<or> bValidation)\<rparr>)"

definition IsValidAddress :: "u64 \<Rightarrow> range_state \<Rightarrow> bool option" where
  "IsValidAddress addr s = range_Find addr (rs_map s)"

definition IsAddressValidationEnabled :: "range_state \<Rightarrow> bool" where
  "IsAddressValidationEnabled s = rs_bValidation s"

text \<open>Entries are kept non-empty, in order and apart, so that the order of the map is a strict order on them.\<close>

definition ranges_ok :: "range_map \<Rightarrow> bool" where
  "ranges_ok m \<longleftrightarrow> sorted_wrt (\<lambda>x y. ar_end (fst x) < ar_base (fst y)) m \<and> (\<forall>x\<in>set m. ar_base (fst x) < ar_end (fst x))"

definition in_range :: "u64 \<Rightarrow> addr_range \<times> bool \<Rightarrow> bool" where
  "in_range a x \<longleftrightarrow> ar_base (fst x) \<le> a \<and> a < ar_end (fst x)"

definition touches :: "u64 \<Rightarrow> u64 \<Rightarrow> addr_range \<times> bool \<Rightarrow> bool" where
  "touches b e x \<longleftrightarrow> ar_base (fst x) \<le> e \<and> b \<le> ar_end (fst x)"

lemma ranges_ok_simps [simp]:
  "ranges_ok []"
  "ranges_ok (x # m) \<longleftrightarrow> ar_base (fst x) < ar_end (fst x) \<and> (\<forall>y\<in>set m. ar_end (fst x) < ar_base (fst y)) \<and> ranges_ok m"
  by (auto simp: ranges_ok_def)

lemma ranges_okD: "ranges_ok m \<Longrightarrow> x \<in> set m \<Longrightarrow> ar_base (fst x) < ar_end (fst x)"
  by (simp add: ranges_ok_def)

lemma merge_ranges_cases [consumes 1, case_names before behind met]:
  assumes "merge_ranges b e (y # m) = (m', b', e')"
  obtains "e < ar_base (fst y)" "m' = y # m" "b' = b" "e' = e"
    | m1 where "\<not> e < ar_base (fst y)" "ar_end (fst y) < b" "m' = y # m1" "merge_ranges b e m = (m1, b', e')"
    | "\<not> e < ar_base (fst y)" "\<not> ar_end (fst y) < b" "merge_ranges (min b (ar_base (fst y))) (max e (ar_end (fst y))) m = (m', b', e')"
  using assms that by (auto split: if_splits prod.splits)

declare merge_ranges.simps(2) [simp del]

lemma merge_ranges_bounds: "merge_ranges b e m = (m', b', e') \<Longrightarrow> b' \<le> b \<and> e \<le> e'"
proof (induction b e m arbitrary: m' b' e' rule: merge_ranges.induct)
  case (2 b e y m)
  from 2(3) show ?case
  proof (cases rule: merge_ranges_cases)
    case (behind m1)
    then show ?thesis
      using 2(1) by blast
  next
    case met
    then show ?thesis
      using 2(2) [OF met] by simp
  qed simp
qed simp

lemma merge_ranges_low:
  "merge_ranges b e m = (m', b', e') \<Longrightarrow> l < b \<Longrightarrow> (\<forall>y\<in>set m. l < ar_base (fst y)) \<Longrightarrow> l < b'"
proof (induction b e m arbitrary: m' b' e' rule: merge_ranges.induct)
  case (2 b e y m)
  from 2(3) show ?case
  proof (cases rule: merge_ranges_cases)
    case (behind m1)
    then show ?thesis
      using 2 by simp
  next
    case met
    then show ?thesis
      using 2(2) [OF met] 2(4,5) by simp
  qed (use 2 in simp)
qed simp

lemma touches_skip:
  assumes "e < ar_base (fst y)" "\<forall>x\<in>set m. ar_end (fst y) < ar_base (fst x)" "x \<in> set m" "ar_base (fst y) < ar_end (fst y)"
  shows "\<not> touches b e x"
proof -
  have "ar_end (fst y) < ar_base (fst x)"
    using assms(2,3) by blast
  then have "e < ar_base (fst x)"
    using assms(1,4) by order
  then show ?thesis
    by (simp add: touches_def not_le)
qed

lemma touches_widen:
  assumes "ar_end (fst y) < ar_base (fst x)" "ar_base (fst x) < ar_end (fst x)" "b \<le> ar_end (fst y)"
  shows "touches (min b (ar_base (fst y))) (max e (ar_end (fst y))) x \<longleftrightarrow> touches b e x"
proof -
  have "b \<le> ar_end (fst x)"
    using assms by order
  then have "min b (ar_base (fst y)) \<le> ar_end (fst x)"
    by (simp add: min_le_iff_disj)
  moreover have "\<not> ar_base (fst x) \<le> ar_end (fst y)"
    using assms(1) by order
  ultimately show ?thesis
    using \<open>b \<le> ar_end (fst x)\<close> by (simp add: touches_def le_max_iff_disj)
qed

lemma met_less: "(b::u64) < e \<Longrightarrow> min b l < max e h"
  by (simp add: min_less_iff_disj less_max_iff_disj)

lemma merge_ranges_kept:
  "merge_ranges b e m = (m', b', e') \<Longrightarrow> ranges_ok m \<Longrightarrow> b < e \<Longrightarrow> set m' = {x \<in> set m. \<not> touches b e x}"
proof (induction b e m arbitrary: m' b' e' rule: merge_ranges.induct)
  case (2 b e y m)
  from 2(3) show ?case
  proof (cases rule: merge_ranges_cases)
    case before
    have "\<not> touches b e y"
      using before(1) by (simp add: touches_def not_le)
    moreover have "\<not> touches b e x" if "x \<in> set m" for x
      using touches_skip [OF before(1) _ that] 2(4) by simp
    ultimately show ?thesis
      using before(2) by auto
  next
    case (behind m1)
    moreover have "\<not> touches b e y"
      using behind by (simp add: touches_def not_le)
    ultimately show ?thesis
      using 2 by auto
  next
    case met
    have "touches (min b (ar_base (fst y))) (max e (ar_end (fst y))) x \<longleftrightarrow> touches b e x" if "x \<in> set m" for x
      using touches_widen [of y x b e] that 2(4) met ranges_okD [of m x] by (simp add: not_less)
    moreover have "touches b e y"
      using met by (simp add: touches_def not_less)
    ultimately show ?thesis
      using 2(2) [OF met] 2(4) met_less [OF 2(5)] by auto
  qed
qed simp

lemma merge_ranges_sorted:
  "merge_ranges b e m = (m', b', e') \<Longrightarrow> ranges_ok m \<Longrightarrow> b < e \<Longrightarrow> ranges_ok m'"
proof (induction b e m arbitrary: m' b' e' rule: merge_ranges.induct)
  case (2 b e y m)
  from 2(3) show ?case
  proof (cases rule: merge_ranges_cases)
    case (behind m1)
    moreover have "set m1 \<subseteq> set m"
      using merge_ranges_kept [OF behind(4)] 2(4,5) by auto
    ultimately show ?thesis
      using 2(1) [OF behind(1,2,4)] 2(4,5) by auto
  next
    case met
    then show ?thesis
      using 2(2) [OF met] 2(4) met_less [OF 2(5)] by simp
  qed (use 2 in simp)
qed simp

lemma merge_ranges_apart:
  "merge_ranges b e m = (m', b', e') \<Longrightarrow> ranges_ok m \<Longrightarrow> b < e \<Longrightarrow> x \<in> set m' \<Longrightarrow> ar_end (fst x) < b' \<or> e' < ar_base (fst x)"
proof (induction b e m arbitrary: m' b' e' rule: merge_ranges.induct)
  case (2 b e y m)
  from 2(3) show ?case
  proof (cases rule: merge_ranges_cases)
    case before
    have "e < ar_base (fst z)" if "z \<in> set m" for z
    proof -
      have "ar_base (fst y) < ar_end (fst y)" "ar_end (fst y) < ar_base (fst z)"
        using that 2(4) by simp_all
      then show ?thesis
        using before(1) by order
    qed
    then show ?thesis
      using before(1,2,4) 2(6) by (metis set_ConsD)
  next
    case (behind m1)
    have "ar_end (fst y) < b'"
      using merge_ranges_low [OF behind(4), of "ar_end (fst y)"] behind(2) 2(4) by simp
    then show ?thesis
      using behind(3) 2(1) [OF behind(1,2,4)] 2(4-6) by auto
  next
    case met
    then show ?thesis
      using 2(2) [OF met] 2(4,6) met_less [OF 2(5)] by simp
  qed
qed simp

lemma met_cover:
  fixes a b e l h :: u64
  assumes "b < e" "l < h" "\<not> e < l" "\<not> h < b"
  shows "min b l \<le> a \<and> a < max e h \<longleftrightarrow> b \<le> a \<and> a < e \<or> l \<le> a \<and> a < h"
  using assms by (auto simp: min_le_iff_disj less_max_iff_disj)

lemma merge_ranges_cover:
  "merge_ranges b e m = (m', b', e') \<Longrightarrow> ranges_ok m \<Longrightarrow> b < e \<Longrightarrow>
     (\<exists>x\<in>set m'. in_range a x) \<or> b' \<le> a \<and> a < e' \<longleftrightarrow> (\<exists>x\<in>set m. in_range a x) \<or> b \<le> a \<and> a < e"
proof (induction b e m arbitrary: m' b' e' rule: merge_ranges.induct)
  case (2 b e y m)
  from 2(3) show ?case
  proof (cases rule: merge_ranges_cases)
    case (behind m1)
    then show ?thesis
      using 2(1) [OF behind(1,2,4)] 2(4,5) by auto
  next
    case met
    have "in_range a y \<longleftrightarrow> ar_base (fst y) \<le> a \<and> a < ar_end (fst y)" "ar_base (fst y) < ar_end (fst y)"
      using 2(4) by (simp_all add: in_range_def)
    then show ?thesis
      using 2(2) [OF met] 2(4) met_less [OF 2(5)] met_cover [OF 2(5) _ met(1,2), of a] by auto
  qed simp
qed simp

lemma range_Find_Cons:
  "range_Find a (x # m) = (if ar_end (fst x) \<le> a then range_Find a m else if ar_base (fst x) \<le> a then Some (snd x) else None)"
  by (auto simp: range_Find_def range_less_def)

lemma range_Find_iff: "ranges_ok m \<Longrightarrow> range_Find a m = Some f \<longleftrightarrow> (\<exists>x\<in>set m. in_range a x \<and> snd x = f)"
proof (induction m)
  case (Cons x m)
  have "\<not> in_range a y" if "y \<in> set m" "\<not> ar_end (fst x) \<le> a" for y
  proof -
    have "ar_end (fst x) < ar_base (fst y)"
      using Cons.prems that(1) by simp
    then have "a < ar_base (fst y)"
      using that(2) by order
    then show ?thesis
      by (simp add: in_range_def not_le)
  qed
  moreover have "in_range a x \<longleftrightarrow> ar_base (fst x) \<le> a \<and> \<not> ar_end (fst x) \<le> a"
    by (simp add: in_range_def not_le)
  ultimately show ?case
    using Cons by (auto simp: range_Find_Cons)
qed (simp add: range_Find_def)

lemma map_insert_Cons:
  "ar_end (fst y) \<le> ar_base (fst x) \<Longrightarrow> map_insert x (y # m) = y # map_insert x m"
  "\<not> ar_end (fst y) \<le> ar_base (fst x) \<Longrightarrow> ar_end (fst x) \<le> ar_base (fst y) \<Longrightarrow> map_insert x (y # m) = x # y # m"
  by (auto simp: map_insert_def range_less_def Let_def)

lemma map_insert_apart:
  "ranges_ok m \<Longrightarrow> ar_base (fst n) < ar_end (fst n) \<Longrightarrow> \<forall>x\<in>set m. ar_end (fst x) < ar_base (fst n) \<or> ar_end (fst n) < ar_base (fst x) \<Longrightarrow>
     ranges_ok (map_insert n m) \<and> set (map_insert n m) = insert n (set m)"
proof (induction m)
  case (Cons x m)
  then consider "ar_end (fst x) < ar_base (fst n)" | "ar_end (fst n) < ar_base (fst x)"
    by auto
  then show ?case
  proof cases
    case 1
    then show ?thesis
      using Cons by (auto simp: map_insert_Cons(1))
  next
    case 2
    have x: "ar_base (fst x) < ar_end (fst x)"
      using Cons.prems by simp
    have "ar_end (fst n) < ar_base (fst y)" if "y \<in> set m" for y
    proof -
      have "ar_end (fst x) < ar_base (fst y)"
        using Cons.prems that by simp
      then show ?thesis
        using 2 x by order
    qed
    moreover have "\<not> ar_end (fst x) \<le> ar_base (fst n)"
      using 2 x Cons.prems(2) by order
    ultimately show ?thesis
      using Cons.prems 2 x by (auto simp: map_insert_Cons(2))
  qed
qed (simp add: map_insert_def)

text \<open>Insert: the ranges that touch the new one are replaced, with it, by one range.\<close>

lemma range_Insert_result:
  assumes "ranges_ok m" "b < b + sz"
  obtains n where "ranges_ok (range_Insert b sz f m)" "set (range_Insert b sz f m) = insert (n, f) {x \<in> set m. \<not> touches b (b + sz) x}"
    "ar_base n \<le> b" "b + sz \<le> ar_end n"
    "\<And>a. (\<exists>x\<in>set (range_Insert b sz f m). in_range a x) \<longleftrightarrow> (\<exists>x\<in>set m. in_range a x) \<or> b \<le> a \<and> a < b + sz"
proof -
  obtain m' b' e' where r: "merge_ranges b (b + sz) m = (m', b', e')"
    by (cases "merge_ranges b (b + sz) m")
  let ?n = "\<lparr>ar_base = b', ar_size = e' - b'\<rparr>"
  have w: "b' \<le> b" "b + sz \<le> e'"
    using merge_ranges_bounds [OF r] by simp_all
  have "b' < e'"
    using w assms(2) by order
  then have "ranges_ok (map_insert (?n, f) m') \<and> set (map_insert (?n, f) m') = insert (?n, f) (set m')"
    using map_insert_apart [OF merge_ranges_sorted [OF r assms], of "(?n, f)"] merge_ranges_apart [OF r assms] by simp
  moreover have "range_Insert b sz f m = map_insert (?n, f) m'"
    by (simp add: range_Insert_def r)
  moreover have "in_range a (?n, f) \<longleftrightarrow> b' \<le> a \<and> a < e'" for a
    by (simp add: in_range_def)
  moreover have "(\<exists>x\<in>set (range_Insert b sz f m). in_range a x) \<longleftrightarrow> (\<exists>x\<in>set m. in_range a x) \<or> b \<le> a \<and> a < b + sz" for a
    using merge_ranges_cover [OF r assms, of a] calculation by auto
  ultimately show ?thesis
    using that [of ?n] merge_ranges_kept [OF r assms] w by simp
qed

text \<open>The lines of 64 bytes that a range meets.\<close>

definition range_lines :: "u64 \<Rightarrow> u64 \<Rightarrow> nat set" where
  "range_lines base sz = {unat base div 64 .. (unat base + unat sz - 1) div 64}"

lemma line_bounds: "0 < t \<Longrightarrow> 64 * q \<le> a \<and> a < (t + 63) div 64 * 64 \<longleftrightarrow> q \<le> a div 64 \<and> a div 64 \<le> (t - 1) div 64" for t :: nat
  by (cases t) (auto simp: less_eq_div_iff_mult_less_eq div_less_iff_less_mult less_Suc_eq_le [symmetric] mult.commute div_add_self1)

lemma align_range_lines:
  assumes "0 < unat sz" "unat base + unat sz + 126 \<le> 2 ^ 64" "align_range base sz = (b, n)"
  shows "b < b + n" "b \<le> a \<and> a < b + n \<longleftrightarrow> unat a div 64 \<in> range_lines base sz"
proof -
  let ?x = "sz + (base AND 0x3f) + 0x3f"
  have k: "(0x3f :: u64) = mask 6"
    by (simp add: mask_eq_exp_minus_1)
  have low: "unat (base AND 0x3f) = unat base mod 64"
    by (simp only: k take_bit_eq_mask [symmetric] unsigned_take_bit_eq) (simp add: take_bit_eq_mod)
  have "base AND 0x3f \<le> base"
    by (simp add: word_le_nat_alt low)
  then have "unat b = unat base - unat base mod 64"
    using assms(3) by (auto simp: align_range_def Let_def unat_sub low)
  then have ub: "unat b = 64 * (unat base div 64)"
    by (simp add: minus_mod_eq_mult_div)
  have x: "unat ?x = unat sz + unat base mod 64 + 63"
    using assms(2) mod_less_eq_dividend [of "unat base" 64] mod_less_divisor [of 64 "unat base"] by (simp add: unat_word_ariths low) 
  have "n = ?x AND NOT (mask 6)"
    using assms(3) by (auto simp: align_range_def Let_def k)
  then have un: "unat n = (unat sz + unat base mod 64 + 63) div 64 * 64"
    by (simp only: unat_and_not_mask x) simp
  have "unat base = 64 * (unat base div 64) + unat base mod 64"
    by simp
  then have e: "unat base + unat sz + 63 = (unat sz + unat base mod 64 + 63) + 64 * (unat base div 64)"
    by linarith
  have "(unat base + unat sz + 63) div 64 = unat base div 64 + (unat sz + unat base mod 64 + 63) div 64"
    unfolding e by (rule div_mult_self2) simp
  then have un_ub: "unat b + unat n = (unat base + unat sz + 63) div 64 * 64"
    using ub un by (simp add: algebra_simps)
  moreover have "(unat base + unat sz + 63) div 64 * 64 < 2 ^ 64"
    using assms(2) by linarith
  ultimately have ue: "unat (b + n) = (unat base + unat sz + 63) div 64 * 64"
    by (simp add: unat_word_ariths)
  show "b < b + n"
    using assms(1) ub ue by (simp add: word_less_nat_alt)
  show "b \<le> a \<and> a < b + n \<longleftrightarrow> unat a div 64 \<in> range_lines base sz"
    using assms(1) ub ue line_bounds [of "unat base + unat sz" "unat base div 64" "unat a"] by (simp add: word_less_nat_alt word_le_nat_alt range_lines_def)
qed

text \<open>A sequence of calls; a call is its base, its size and its flag.\<close>

definition set_ranges :: "(u64 \<times> u64 \<times> bool) list \<Rightarrow> bool \<Rightarrow> range_state" where
  "set_ranges cs v = fold (\<lambda>(base, sz, f). SetAddressRange base sz f v) cs \<lparr>rs_map = [], rs_bValidation = False\<rparr>"

definition range_call_ok :: "u64 \<times> u64 \<times> bool \<Rightarrow> bool" where
  "range_call_ok c = (case c of (base, sz, f) \<Rightarrow> sz \<noteq> 0 \<and> unat base + unat sz + 126 \<le> 2 ^ 64)"

lemma SetAddressRange_result:
  assumes "ranges_ok (rs_map s)" "range_call_ok (base, sz, f)"
  shows "ranges_ok (rs_map (SetAddressRange base sz f v s))"
    "IsValidAddress a (SetAddressRange base sz f v s) \<noteq> None \<longleftrightarrow> IsValidAddress a s \<noteq> None \<or> unat a div 64 \<in> range_lines base sz"
    "unat a div 64 \<in> range_lines base sz \<Longrightarrow> IsValidAddress a (SetAddressRange base sz f v s) = Some f"
    "IsValidAddress a (SetAddressRange base sz f v s) = Some g \<Longrightarrow> g = f \<or> IsValidAddress a s = Some g"
proof -
  obtain b n where bn: "align_range base sz = (b, n)"
    by (cases "align_range base sz")
  have sz: "0 < unat sz" "unat base + unat sz + 126 \<le> 2 ^ 64"
    using assms(2) by (simp_all add: range_call_ok_def unat_gt_0)
  note al = align_range_lines [OF sz bn]
  obtain r where r: "ranges_ok (range_Insert b n f (rs_map s))"
      "set (range_Insert b n f (rs_map s)) = insert (r, f) {x \<in> set (rs_map s). \<not> touches b (b + n) x}" "ar_base r \<le> b" "b + n \<le> ar_end r"
      "\<And>a. (\<exists>x\<in>set (range_Insert b n f (rs_map s)). in_range a x) \<longleftrightarrow> (\<exists>x\<in>set (rs_map s). in_range a x) \<or> b \<le> a \<and> a < b + n"
    by (rule range_Insert_result [OF assms(1) al(1), where f = f]) (rule that)
  have s': "rs_map (SetAddressRange base sz f v s) = range_Insert b n f (rs_map s)"
    by (simp add: SetAddressRange_def bn)
  have iff: "range_Find a m \<noteq> None \<longleftrightarrow> (\<exists>x\<in>set m. in_range a x)" if "ranges_ok m" for a m
    by (auto simp: range_Find_iff [OF that])
  show "ranges_ok (rs_map (SetAddressRange base sz f v s))"
    by (simp add: s' r(1))
  show "IsValidAddress a (SetAddressRange base sz f v s) \<noteq> None \<longleftrightarrow> IsValidAddress a s \<noteq> None \<or> unat a div 64 \<in> range_lines base sz"
    unfolding IsValidAddress_def s' iff [OF r(1)] iff [OF assms(1)] r(5) al(2) ..
  show "IsValidAddress a (SetAddressRange base sz f v s) = Some f" if "unat a div 64 \<in> range_lines base sz"
  proof -
    have "b \<le> a" "a < b + n"
      using al(2) [of a] that by simp_all
    then have "ar_base r \<le> a" "a < ar_end r"
      using r(3,4) by order+
    then have "in_range a (r, f)"
      by (simp add: in_range_def)
    then show ?thesis
      by (auto simp: IsValidAddress_def s' range_Find_iff [OF r(1)] r(2))
  qed
  show "g = f \<or> IsValidAddress a s = Some g" if "IsValidAddress a (SetAddressRange base sz f v s) = Some g"
    using that by (auto simp: IsValidAddress_def s' range_Find_iff [OF r(1)] range_Find_iff [OF assms(1)] r(2))
qed

lemma set_ranges_snoc: "set_ranges (cs @ [(base, sz, f)]) v = SetAddressRange base sz f v (set_ranges cs v)"
  by (simp add: set_ranges_def)

lemma set_ranges_ok: "\<forall>c\<in>set cs. range_call_ok c \<Longrightarrow> ranges_ok (rs_map (set_ranges cs v))"
proof (induction cs rule: rev_induct)
  case (snoc c cs)
  then show ?case
    by (cases c) (simp add: set_ranges_snoc SetAddressRange_result(1))
qed (simp add: set_ranges_def)

lemma set_ranges_induct [consumes 1, case_names none call]:
  assumes "\<forall>c\<in>set cs. range_call_ok c" "P []"
    "\<And>cs base sz f. \<forall>c\<in>set cs. range_call_ok c \<Longrightarrow> range_call_ok (base, sz, f) \<Longrightarrow> P cs \<Longrightarrow> P (cs @ [(base, sz, f)])"
  shows "P cs"
  using assms(1)
proof (induction cs rule: rev_induct)
  case (snoc c cs)
  then show ?case
    using assms(3) [of cs "fst c" "fst (snd c)" "snd (snd c)"] by simp
qed (simp add: assms(2))

text \<open>
  C26: After any sequence of calls of SetAddressRange with non-empty ranges that do not wrap, IsValidAddress accepts an address exactly when its line of 64
  bytes meets the range of one of the calls, the flag it gives is the one of some call, and within the range of the last call it is the flag of that call.
\<close>

theorem addr_ranges:
  assumes "\<forall>c\<in>set cs. range_call_ok c"
  shows "(IsValidAddress a (set_ranges cs v) \<noteq> None \<longleftrightarrow> (\<exists>c\<in>set cs. unat a div 64 \<in> range_lines (fst c) (fst (snd c)))) \<and>
    (\<forall>g. IsValidAddress a (set_ranges cs v) = Some g \<longrightarrow> g \<in> (snd \<circ> snd) ` set cs) \<and>
    (cs \<noteq> [] \<and> unat a div 64 \<in> range_lines (fst (last cs)) (fst (snd (last cs))) \<longrightarrow> IsValidAddress a (set_ranges cs v) = Some (snd (snd (last cs))))"
  using assms
proof (induction rule: set_ranges_induct)
  case none
  show ?case
    by (simp add: set_ranges_def IsValidAddress_def range_Find_def)
next
  case (call cs base sz f)
  note r = SetAddressRange_result [OF set_ranges_ok [OF call(1)] call(2), where v = v]
  show ?case
  proof (intro conjI allI impI)
    show "IsValidAddress a (set_ranges (cs @ [(base, sz, f)]) v) \<noteq> None \<longleftrightarrow>
        (\<exists>c\<in>set (cs @ [(base, sz, f)]). unat a div 64 \<in> range_lines (fst c) (fst (snd c)))"
      unfolding set_ranges_snoc r(2) using call(3) by auto
    show "g \<in> (snd \<circ> snd) ` set (cs @ [(base, sz, f)])" if "IsValidAddress a (set_ranges (cs @ [(base, sz, f)]) v) = Some g" for g
      using r(4) [OF that [unfolded set_ranges_snoc]] call(3) by auto
  qed (use r(3) [of a] in \<open>simp add: set_ranges_snoc\<close>)
qed

text \<open>Ranges that only touch become one range, with the flag of the later call for all of it.\<close>

lemma addr_ranges_witness:
  "IsValidAddress 0x1000 (set_ranges [(0x1008, 0x30, False), (0x2000, 0x40, False), (0x1040, 0x40, True)] True) = Some True \<and>
   IsValidAddress 0x2000 (set_ranges [(0x1008, 0x30, False), (0x2000, 0x40, False), (0x1040, 0x40, True)] True) = Some False \<and>
   IsValidAddress 0x1050 (set_ranges [(0x1008, 0x30, False), (0x2000, 0x40, False), (0x1040, 0x40, True)] True) = Some True \<and>
   IsValidAddress 0x1080 (set_ranges [(0x1008, 0x30, False), (0x2000, 0x40, False), (0x1040, 0x40, True)] True) = None"
proof -
  let ?cs = "[(0x1008, 0x30, False), (0x2000, 0x40, False), (0x1040, 0x40, True)] :: (u64 \<times> u64 \<times> bool) list"
  have ok: "\<forall>c\<in>set ?cs. range_call_ok c"
    by (simp add: range_call_ok_def)
  have "IsValidAddress 0x1080 (set_ranges ?cs True) = None" "IsValidAddress 0x1050 (set_ranges ?cs True) = Some True"
    using addr_ranges [OF ok, where a = "0x1080" and v = True] addr_ranges [OF ok, where a = "0x1050" and v = True] by (simp_all add: range_lines_def)
  then show ?thesis
    by (simp add: set_ranges_def SetAddressRange_def align_range_def range_Insert_def merge_ranges.simps map_insert_def range_less_def IsValidAddress_def range_Find_def)
qed

section \<open>Bytes\<close>

definition le_bytes :: "nat \<Rightarrow> u64 \<Rightarrow> u8 list" where
  "le_bytes n w = map (\<lambda>i. ucast (drop_bit (8 * i) w)) [0..<n]"

fun le_word :: "u8 list \<Rightarrow> u64" where
  "le_word [] = 0"
| "le_word (b # bs) = ucast b OR push_bit 8 (le_word bs)"

text \<open>A structure of bit fields, the first field lowest.\<close>

fun pack :: "(nat \<times> u64) list \<Rightarrow> u64" where
  "pack [] = 0"
| "pack ((k, v) # fs) = take_bit k v OR push_bit k (pack fs)"

fun unpack :: "nat list \<Rightarrow> u64 \<Rightarrow> u64 list" where
  "unpack [] x = []"
| "unpack (k # ks) x = take_bit k x # unpack ks (drop_bit k x)"

section \<open>The trace file\<close>

text \<open>
  A request to write, and one that was read. A file name is a pointer; \<open>name\<close> gives the bytes before the terminating zero.
\<close>

record trace_req =
  tq_ae :: int
  tq_unit :: int
  tq_op :: int
  tq_host :: int
  tq_file :: nat
  tq_line :: u32
  tq_start :: u64
  tq_comp :: u64
  tq_addr :: u64

record trace_out =
  to_ae :: u64
  to_unit :: u64
  to_mc :: u64
  to_bank :: u64
  to_op :: u64
  to_src :: u64
  to_host :: u64
  to_start :: u64
  to_comp :: u64
  to_addr :: u64

record trace_hdr =
  th_magic :: u32
  th_version :: u32
  th_memReqCount :: u64
  th_fileLineOffset :: u64
  th_fileLineCount :: u64

definition hdr_bytes :: "trace_hdr \<Rightarrow> u8 list" where
  "hdr_bytes h = le_bytes 4 (ucast (th_magic h)) @ le_bytes 4 (ucast (th_version h)) @ le_bytes 8 (th_memReqCount h) @
     le_bytes 8 (th_fileLineOffset h) @ le_bytes 8 (th_fileLineCount h)"

definition hdr_size :: nat where "hdr_size = 32"

definition hdr_of :: "u8 list \<Rightarrow> trace_hdr" where
  "hdr_of bs = \<lparr>th_magic = ucast (le_word (take 4 bs)), th_version = ucast (le_word (take 4 (drop 4 bs))), th_memReqCount = le_word (take 8 (drop 8 bs)),
     th_fileLineOffset = le_word (take 8 (drop 16 bs)), th_fileLineCount = le_word (take 8 (drop 24 bs))\<rparr>"

definition MEM_TRACE_MAGIC :: u32 where "MEM_TRACE_MAGIC = 0x13579BDF"
definition MEM_TRACE_VERSION :: u32 where "MEM_TRACE_VERSION = 2"
definition MAX_FILE_LINE_SIZE :: nat where "MAX_FILE_LINE_SIZE = 256"

text \<open>
  The writer: the file so far, which only grows, the table of lines with the chains of its hash table, newest entry first. The reader: the file and the
  position in it, the table. Opening does not set the two other fields of the header: \<open>h0\<close> is what the object held. The six bits above the fields of a
  record are not set either and are zero here; the reader does not look at them.
\<close>

record trace_writer =
  tw_file :: "u8 list"
  tw_hdr :: trace_hdr
  tw_prevStart :: u64
  tw_prevAddr :: u64
  tw_lines :: "(nat \<times> u32) list"
  tw_hash :: "u32 \<Rightarrow> nat list"

record trace_reader =
  rt_file :: "u8 list"
  rt_pos :: nat
  rt_hdr :: trace_hdr
  rt_reqIdx :: u64
  rt_prevStart :: u64
  rt_prevAddr :: u64
  rt_lines :: "(u8 list \<times> u32) list"

definition trace_OpenWrite :: "trace_hdr \<Rightarrow> trace_writer" where
  "trace_OpenWrite h0 = (let h = h0\<lparr>th_magic := MEM_TRACE_MAGIC, th_version := MEM_TRACE_VERSION, th_memReqCount := 0\<rparr> in
     \<lparr>tw_file = hdr_bytes h, tw_hdr = h, tw_prevStart = 0, tw_prevAddr = 0, tw_lines = [], tw_hash = (\<lambda>_. [])\<rparr>)"

definition LookupSrc :: "nat \<Rightarrow> u32 \<Rightarrow> trace_writer \<Rightarrow> nat \<times> trace_writer" where
  "LookupSrc file line s = (case find (\<lambda>i. tw_lines s ! i = (file, line)) (tw_hash s (line AND 0xff)) of
       Some i \<Rightarrow> (i, s)
     | None \<Rightarrow> if length (tw_lines s) = MAX_FILE_LINE_SIZE then (MAX_FILE_LINE_SIZE - 1, s)
         else (length (tw_lines s), s\<lparr>tw_lines := tw_lines s @ [(file, line)],
           tw_hash := (tw_hash s)(line AND 0xff := length (tw_lines s) # tw_hash s (line AND 0xff))\<rparr>))"

definition CprsInt :: "u64 \<Rightarrow> nat" where
  "CprsInt w = (if w < 2 ^ 8 then 0 else if w < 2 ^ 16 then 1 else if w < 2 ^ 32 then 2 else 3)"

definition fmt_widths :: "nat list" where
  "fmt_widths = [2, 4, 8, 1, 3, 7, 1, 2, 1, 2, 2, 1]"

definition trace_mc :: "u64 \<Rightarrow> u64" where
  "trace_mc addr = drop_bit 6 addr AND 7"

definition trace_bank :: "u64 \<Rightarrow> u64" where
  "trace_bank addr = (drop_bit 6 addr AND 0x78) OR (drop_bit 3 addr AND 7)"

text \<open>The magnitude and the sign bit of a difference.\<close>

definition sign_mag :: "int \<Rightarrow> u64 \<times> u64" where
  "sign_mag d = (word_of_int \<bar>d\<bar>, if d < 0 then 1 else 0)"

definition WriteReq :: "trace_req \<Rightarrow> trace_writer \<Rightarrow> trace_writer" where
  "WriteReq q s = (
     let (src, s) = LookupSrc (tq_file q) (tq_line q) s;
         startDelta = c_quot (sint (tq_start q - tw_prevStart s)) 1000;
         prevStart = tw_prevStart s + word_of_int (startDelta * 1000);
         (startMag, startSign) = sign_mag startDelta;
         compDelta = (tq_comp q - tq_start q) div 1000;
         addrDelta = sint (drop_bit 13 (tq_addr q) - tw_prevAddr s);
         (addrMag, addrSign) = sign_mag addrDelta;
         fmt = pack (zip fmt_widths [word_of_int (tq_ae q), word_of_int (tq_unit q), of_nat src, word_of_int (tq_host q), trace_mc (tq_addr q),
           trace_bank (tq_addr q), word_of_int (tq_op q), of_nat (CprsInt startMag), startSign, of_nat (CprsInt compDelta), of_nat (CprsInt addrMag), addrSign])
     in s\<lparr>tw_file := tw_file s @ le_bytes 5 fmt @ le_bytes (2 ^ CprsInt startMag) startMag @ le_bytes (2 ^ CprsInt compDelta) compDelta @
            le_bytes (2 ^ CprsInt addrMag) addrMag,
          tw_hdr := (tw_hdr s)\<lparr>th_memReqCount := th_memReqCount (tw_hdr s) + 1\<rparr>,
          tw_prevStart := prevStart, tw_prevAddr := tw_prevAddr s + word_of_int addrDelta\<rparr>)"

text \<open>Close appends the table and writes the header again; a name is cut to 256 bytes by \<^verbatim>\<open>strnlen\<close>.\<close>

definition line_bytes :: "(nat \<Rightarrow> u8 list) \<Rightarrow> nat \<times> u32 \<Rightarrow> u8 list" where
  "line_bytes name x = (let text = name (fst x) @ [0]; len = min 256 (length (name (fst x))) + 1 in
     le_bytes 4 (ucast (snd x)) @ le_bytes 4 (of_nat len) @ take len text)"

definition trace_Close :: "(nat \<Rightarrow> u8 list) \<Rightarrow> trace_writer \<Rightarrow> u8 list" where
  "trace_Close name s = (
     let h = (tw_hdr s)\<lparr>th_fileLineCount := of_nat (length (tw_lines s)), th_fileLineOffset := of_nat (length (tw_file s))\<rparr>;
         file = tw_file s @ concat (map (line_bytes name) (tw_lines s))
     in hdr_bytes h @ drop hdr_size file)"

text \<open>The table is read into an array of 256 entries; more stop the run. A name ends at its zero.\<close>

primrec read_lines :: "nat \<Rightarrow> u8 list \<Rightarrow> (u8 list \<times> u32) list" where
  "read_lines 0 bs = []"
| "read_lines (Suc n) bs = (let len = unat (le_word (take 4 (drop 4 bs))) in
     (takeWhile (\<lambda>b. b \<noteq> 0) (take len (drop 8 bs)), ucast (le_word (take 4 bs))) # read_lines n (drop (8 + len) bs))"

definition trace_OpenRead :: "u8 list \<Rightarrow> trace_reader option" where
  "trace_OpenRead file = do {
     let h = hdr_of file;
     ensure (th_magic h = MEM_TRACE_MAGIC);
     ensure (unat (th_fileLineCount h) \<le> MAX_FILE_LINE_SIZE);
     Some \<lparr>rt_file = file, rt_pos = hdr_size, rt_hdr = h, rt_reqIdx = 0, rt_prevStart = 0, rt_prevAddr = 0,
       rt_lines = read_lines (unat (th_fileLineCount h)) (drop (unat (th_fileLineOffset h)) file)\<rparr>
   }"

definition ReadReq :: "trace_reader \<Rightarrow> trace_out option \<times> trace_reader" where
  "ReadReq s = (
     let s' = s\<lparr>rt_reqIdx := rt_reqIdx s + 1\<rparr>; bs = drop (rt_pos s) (rt_file s) in
     if rt_reqIdx s = th_memReqCount (rt_hdr s) then (None, s')
     else if length bs < 5 then (None, s'\<lparr>rt_pos := length (rt_file s)\<rparr>)
     else (case unpack fmt_widths (le_word (take 5 bs)) of
       [ae, unit, src, host, mc, bank, op, startSize, startSign, compSize, addrSize, addrSign] \<Rightarrow>
         (let n1 = 2 ^ unat startSize; n2 = 2 ^ unat compSize; n3 = 2 ^ unat addrSize; bs = drop 5 bs;
              startMag = le_word (take n1 bs); compDelta = le_word (take n2 (drop n1 bs)); addrMag = le_word (take n3 (drop (n1 + n2) bs));
              startDelta = (if startSign \<noteq> 0 then - startMag else startMag); addrDelta = (if addrSign \<noteq> 0 then - addrMag else addrMag);
              start = rt_prevStart s + startDelta; pa = rt_prevAddr s + addrDelta
          in (Some \<lparr>to_ae = ae, to_unit = unit, to_mc = mc, to_bank = bank, to_op = op, to_src = src, to_host = host, to_start = start, to_comp = start + compDelta,
                to_addr = push_bit 13 pa OR (push_bit 6 bank AND 0x1fc0) OR push_bit 6 mc OR (push_bit 3 bank AND 0x38)\<rparr>,
              s'\<lparr>rt_pos := min (length (rt_file s)) (rt_pos s + 5 + n1 + n2 + n3), rt_prevStart := start, rt_prevAddr := pa\<rparr>))
     | _ \<Rightarrow> (None, s')))"

definition LookupFileLine :: "u64 \<Rightarrow> trace_reader \<Rightarrow> (u8 list \<times> u32) option" where
  "LookupFileLine src s = (if src < th_fileLineCount (rt_hdr s) then Some (rt_lines s ! unat src) else None)"

definition GetMemReqCount :: "trace_reader \<Rightarrow> u64" where
  "GetMemReqCount s = th_memReqCount (rt_hdr s)"

section \<open>Writing and reading back\<close>

lemma length_le_bytes [simp]: "length (le_bytes n w) = n"
  by (simp add: le_bytes_def)

lemma le_word_bytes: "le_word (map (\<lambda>i. ucast (drop_bit (8 * i) w)) [k..<k + n]) = take_bit (8 * n) (drop_bit (8 * k) w)" for w :: u64
proof (induction n arbitrary: k)
  case (Suc n)
  have "[k..<k + Suc n] = k # [Suc k..<Suc k + n]"
    by (simp add: upt_rec)
  then have "le_word (map (\<lambda>i. ucast (drop_bit (8 * i) w)) [k..<k + Suc n]) =
      ucast (ucast (drop_bit (8 * k) w) :: u8) OR push_bit 8 (take_bit (8 * n) (drop_bit (8 * Suc k) w))"
    using Suc.IH [of "Suc k"] by simp
  also have "\<dots> = take_bit (8 * Suc n) (drop_bit (8 * k) w)"
    by (rule bit_word_eqI) (auto simp: bit_simps ac_simps)
  finally show ?case .
qed simp

lemma le_word_le_bytes [simp]: "le_word (le_bytes n w) = take_bit (8 * n) w"
  using le_word_bytes [of w 0 n] by (simp add: le_bytes_def)

lemma unpack_pack:
  "length ks = length vs \<Longrightarrow> sum_list ks \<le> n \<Longrightarrow> n \<le> 64 \<Longrightarrow> unpack ks (take_bit n (pack (zip ks vs))) = map2 take_bit ks vs"
proof (induction ks arbitrary: vs n)
  case (Cons k ks)
  then obtain v ws where vs: "vs = v # ws" "length ks = length ws"
    by (cases vs) auto
  have "take_bit k (take_bit n (take_bit k v OR push_bit k (pack (zip ks ws)))) = take_bit k v"
    using Cons.prems(2) by (intro bit_word_eqI) (auto simp: bit_simps)
  moreover have "drop_bit k (take_bit n (take_bit k v OR push_bit k (pack (zip ks ws)))) = take_bit (n - k) (pack (zip ks ws))"
    using Cons.prems(2,3) by (intro bit_word_eqI) (auto simp: bit_simps)
  ultimately show ?case
    using Cons.IH [of ws "n - k"] Cons.prems vs by simp
qed simp

lemma take_bit_below: "unat w < 2 ^ n \<Longrightarrow> take_bit n w = w" for w :: u64
  by (simp add: word_unat_eq_iff unsigned_take_bit_eq take_bit_nat_eq_self_iff)

lemma CprsInt_fits: "take_bit (8 * 2 ^ CprsInt w) w = w" "CprsInt w < 4"
  using take_bit_below [of w 8] take_bit_below [of w 16] take_bit_below [of w 32] by (auto simp: CprsInt_def take_bit_word_eq_self word_less_nat_alt)

lemma CprsInt_bytes: "2 ^ CprsInt w \<le> (8::nat)"
  by (simp add: CprsInt_def)

lemma sign_mag_read:
  assumes "sign_mag d = (m, sg)"
  shows "(if take_bit 1 sg \<noteq> 0 then - m else m) = word_of_int d"
  using assms by (auto simp: sign_mag_def split: if_splits)

lemma unat_CprsInt [simp]: "unat (take_bit 2 (of_nat (CprsInt w)) :: u64) = CprsInt w"
  using CprsInt_fits(2) [of w] by (simp add: unsigned_take_bit_eq take_bit_nat_eq_self unat_of_nat)

text \<open>The bytes of one record.\<close>

definition rec_bytes :: "u64 list \<Rightarrow> int \<Rightarrow> u64 \<Rightarrow> int \<Rightarrow> u8 list" where
  "rec_bytes vs sd cd ad = (let (a, sa) = sign_mag sd; (d, sdd) = sign_mag ad in
     le_bytes 5 (pack (zip fmt_widths (vs @ [of_nat (CprsInt a), sa, of_nat (CprsInt cd), of_nat (CprsInt d), sdd]))) @
     le_bytes (2 ^ CprsInt a) a @ le_bytes (2 ^ CprsInt cd) cd @ le_bytes (2 ^ CprsInt d) d)"

lemma rec_bytes_length: "length (rec_bytes vs sd c ad) \<le> 29"
  using CprsInt_bytes [of "fst (sign_mag sd)"] CprsInt_bytes [of c] CprsInt_bytes [of "fst (sign_mag ad)"]
  by (auto simp: rec_bytes_def split: prod.splits)

lemma ReadReq_rec:
  assumes "drop (rt_pos r) (rt_file r) = rec_bytes [ae, unit, src, host, mc, bank, op] sd c ad @ rest" "rt_reqIdx r \<noteq> th_memReqCount (rt_hdr r)"
  shows "ReadReq r = (Some \<lparr>to_ae = take_bit 2 ae, to_unit = take_bit 4 unit, to_mc = take_bit 3 mc, to_bank = take_bit 7 bank, to_op = take_bit 1 op, to_src = take_bit 8 src,
      to_host = take_bit 1 host, to_start = rt_prevStart r + word_of_int sd, to_comp = rt_prevStart r + word_of_int sd + c,
      to_addr = push_bit 13 (rt_prevAddr r + word_of_int ad) OR (push_bit 6 (take_bit 7 bank) AND 0x1fc0) OR push_bit 6 (take_bit 3 mc) OR (push_bit 3 (take_bit 7 bank) AND 0x38)\<rparr>,
    r\<lparr>rt_pos := length (rt_file r) - length rest, rt_reqIdx := rt_reqIdx r + 1, rt_prevStart := rt_prevStart r + word_of_int sd,
      rt_prevAddr := rt_prevAddr r + word_of_int ad\<rparr>)"
proof -
  obtain m1 s1 m2 s2 where sm: "sign_mag sd = (m1, s1)" "sign_mag ad = (m2, s2)"
    by (metis surj_pair)
  let ?vs = "[ae, unit, src, host, mc, bank, op, of_nat (CprsInt m1), s1, of_nat (CprsInt c), of_nat (CprsInt m2), s2]"
  have f: "unpack fmt_widths (take_bit 40 (pack (zip fmt_widths ?vs))) = map2 take_bit fmt_widths ?vs"
    by (rule unpack_pack) (simp_all add: fmt_widths_def)
  have l: "length (drop (rt_pos r) (rt_file r)) = 5 + 2 ^ CprsInt m1 + 2 ^ CprsInt c + 2 ^ CprsInt m2 + length rest"
    by (simp add: assms(1) rec_bytes_def sm)
  have p: "min (length (rt_file r)) (rt_pos r + 5 + 2 ^ CprsInt m1 + 2 ^ CprsInt c + 2 ^ CprsInt m2) = length (rt_file r) - length rest"
    using l by auto
  let ?bs = "drop (rt_pos r) (rt_file r)"
  have t: "take 5 ?bs = le_bytes 5 (pack (zip fmt_widths ?vs))"
    "drop 5 ?bs = le_bytes (2 ^ CprsInt m1) m1 @ le_bytes (2 ^ CprsInt c) c @ le_bytes (2 ^ CprsInt m2) m2 @ rest"
    by (simp_all add: assms(1) rec_bytes_def sm)
  have u: "unpack fmt_widths (le_word (take 5 ?bs)) =
      [take_bit 2 ae, take_bit 4 unit, take_bit 8 src, take_bit 1 host, take_bit 3 mc, take_bit 7 bank, take_bit 1 op, take_bit 2 (of_nat (CprsInt m1)),
       take_bit 1 s1, take_bit 2 (of_nat (CprsInt c)), take_bit 2 (of_nat (CprsInt m2)), take_bit 1 s2]"
    unfolding t(1) le_word_le_bytes using f by (simp add: fmt_widths_def)
  have m: "le_word (take (2 ^ CprsInt m1) (drop 5 ?bs)) = m1" "le_word (take (2 ^ CprsInt c) (drop (2 ^ CprsInt m1) (drop 5 ?bs))) = c"
    "le_word (take (2 ^ CprsInt m2) (drop (2 ^ CprsInt m1 + 2 ^ CprsInt c) (drop 5 ?bs))) = m2"
    unfolding t(2) by (simp_all add: CprsInt_fits(1))
  show ?thesis
    unfolding ReadReq_def Let_def u list.case unat_CprsInt m sign_mag_read [OF sm(1)] sign_mag_read [OF sm(2)] using assms(2) p l by simp
qed

text \<open>One request: what the writer appends.\<close>

definition req_rec :: "trace_req \<Rightarrow> trace_writer \<Rightarrow> u8 list" where
  "req_rec q s = rec_bytes [word_of_int (tq_ae q), word_of_int (tq_unit q), of_nat (fst (LookupSrc (tq_file q) (tq_line q) s)), word_of_int (tq_host q), trace_mc (tq_addr q),
     trace_bank (tq_addr q), word_of_int (tq_op q)] (c_quot (sint (tq_start q - tw_prevStart s)) 1000) ((tq_comp q - tq_start q) div 1000)
     (sint (drop_bit 13 (tq_addr q) - tw_prevAddr s))"

lemma LookupSrc_frame [simp]:
  "tw_file (snd (LookupSrc f l s)) = tw_file s" "tw_hdr (snd (LookupSrc f l s)) = tw_hdr s"
  "tw_prevStart (snd (LookupSrc f l s)) = tw_prevStart s" "tw_prevAddr (snd (LookupSrc f l s)) = tw_prevAddr s"
  by (simp_all add: LookupSrc_def split: option.splits)

lemma WriteReq_simps [simp]:
  "tw_file (WriteReq q s) = tw_file s @ req_rec q s"
  "th_memReqCount (tw_hdr (WriteReq q s)) = th_memReqCount (tw_hdr s) + 1"
  "th_magic (tw_hdr (WriteReq q s)) = th_magic (tw_hdr s)"
  "th_version (tw_hdr (WriteReq q s)) = th_version (tw_hdr s)"
  "tw_prevStart (WriteReq q s) = tw_prevStart s + word_of_int (c_quot (sint (tq_start q - tw_prevStart s)) 1000 * 1000)"
  "tw_prevAddr (WriteReq q s) = drop_bit 13 (tq_addr q)"
  "tw_lines (WriteReq q s) = tw_lines (snd (LookupSrc (tq_file q) (tq_line q) s))"
  "tw_hash (WriteReq q s) = tw_hash (snd (LookupSrc (tq_file q) (tq_line q) s))"
  by (simp_all add: WriteReq_def req_rec_def rec_bytes_def Let_def case_prod_beta)

text \<open>The table of lines: the chains hold the places of the lines with their hash, and lines stay where they are.\<close>

definition lines_ok :: "trace_writer \<Rightarrow> bool" where
  "lines_ok s \<longleftrightarrow> (\<forall>h i. i \<in> set (tw_hash s h) \<longleftrightarrow> i < length (tw_lines s) \<and> snd (tw_lines s ! i) AND 0xff = h) \<and> distinct (tw_lines s)"

lemma LookupSrc_result:
  assumes "lines_ok s" "length (tw_lines s) < MAX_FILE_LINE_SIZE \<or> (f, l) \<in> set (tw_lines s)"
  shows "lines_ok (snd (LookupSrc f l s)) \<and> tw_lines (snd (LookupSrc f l s)) ! fst (LookupSrc f l s) = (f, l) \<and>
    fst (LookupSrc f l s) < length (tw_lines (snd (LookupSrc f l s))) \<and>
    tw_lines (snd (LookupSrc f l s)) = (if (f, l) \<in> set (tw_lines s) then tw_lines s else tw_lines s @ [(f, l)])"
proof (cases "find (\<lambda>i. tw_lines s ! i = (f, l)) (tw_hash s (l AND 0xff))")
  case None
  have "(f, l) \<notin> set (tw_lines s)"
  proof
    assume "(f, l) \<in> set (tw_lines s)"
    then obtain i where "i < length (tw_lines s)" "tw_lines s ! i = (f, l)"
      by (auto simp: in_set_conv_nth)
    moreover from this have "i \<in> set (tw_hash s (l AND 0xff))"
      using assms(1) by (simp add: lines_ok_def)
    ultimately show False
      using None by (auto simp: find_None_iff)
  qed
  moreover have "i \<in> set (tw_hash s h) \<longleftrightarrow> i < length (tw_lines s) \<and> snd (tw_lines s ! i) AND 0xff = h" for h i
    using assms(1) by (simp add: lines_ok_def)
  ultimately show ?thesis
    using assms by (auto simp: LookupSrc_def None lines_ok_def nth_append less_Suc_eq)
next
  case (Some i)
  then have "i \<in> set (tw_hash s (l AND 0xff))" "tw_lines s ! i = (f, l)"
    by (auto simp: find_Some_iff)
  then show ?thesis
    using assms(1) by (auto simp: LookupSrc_def Some lines_ok_def in_set_conv_nth)
qed

text \<open>What is read for a request that was written; \<open>now\<close> is the time of the reader, in ns.\<close>

definition read_of :: "trace_req \<Rightarrow> nat \<Rightarrow> u64 \<Rightarrow> trace_out" where
  "read_of q i now = \<lparr>to_ae = take_bit 2 (word_of_int (tq_ae q)), to_unit = take_bit 4 (word_of_int (tq_unit q)), to_mc = trace_mc (tq_addr q),
     to_bank = trace_bank (tq_addr q), to_op = take_bit 1 (word_of_int (tq_op q)), to_src = of_nat i, to_host = take_bit 1 (word_of_int (tq_host q)),
     to_start = now, to_comp = now + (tq_comp q - tq_start q) div 1000, to_addr = (tq_addr q AND NOT 7) OR push_bit 3 (tq_addr q AND 0x38)\<rparr>"

lemma trace_masks: "(0x1fc0 :: u64) = push_bit 6 (mask 7)" "(0x78 :: u64) = push_bit 3 (mask 4)" "(0x38 :: u64) = push_bit 3 (mask 3)" "(7 :: u64) = mask 3"
  by (simp_all add: mask_eq_exp_minus_1)

lemma read_addr:
  "push_bit 13 (drop_bit 13 a) OR (push_bit 6 (trace_bank a) AND 0x1fc0) OR push_bit 6 (trace_mc a) OR (push_bit 3 (trace_bank a) AND 0x38)
     = (a AND NOT 7) OR push_bit 3 (a AND 0x38)"
proof (rule bit_word_eqI)
  fix n
  assume "n < LENGTH(64)"
  then consider "n < 3" | "3 \<le> n" "n < 6" | "6 \<le> n" "n < 9" | "9 \<le> n" "n < 13" | "13 \<le> n" "n < 64"
    by fastforce
  then show "bit (push_bit 13 (drop_bit 13 a) OR (push_bit 6 (trace_bank a) AND 0x1fc0) OR push_bit 6 (trace_mc a) OR (push_bit 3 (trace_bank a) AND 0x38)) n =
      bit ((a AND NOT 7) OR push_bit 3 (a AND 0x38)) n"
    unfolding trace_bank_def trace_mc_def trace_masks
    by cases (simp_all add: bit_simps less_diff_conv2 disj_commute)
qed

lemma trace_bank_bits: "take_bit 7 (trace_bank a) = trace_bank a" "take_bit 3 (trace_mc a) = trace_mc a"
  unfolding trace_bank_def trace_mc_def trace_masks by (rule bit_word_eqI, auto simp: bit_simps)+

text \<open>The times: the writer counts in ps and drops less than 1 ns, the reader counts in ns.\<close>

lemma sint_word_of_int_u64: "- (2 ^ 63) \<le> k \<Longrightarrow> k < 2 ^ 63 \<Longrightarrow> sint (word_of_int k :: u64) = k"
  by (simp add: sint_sbintrunc' signed_take_bit_int_eq_self)

lemma int_below: "a < 2 ^ k \<Longrightarrow> int a < 2 ^ k"
  by (metis of_nat_less_iff of_nat_numeral of_nat_power)

lemma sint_diff:
  fixes t w :: u64
  assumes "unat w < 2 ^ 63" "unat t < 2 ^ 63"
  shows "sint (t - w) = int (unat t) - int (unat w)"
proof -
  have e: "t - w = word_of_int (int (unat t) - int (unat w))"
    by simp
  show ?thesis
    unfolding e by (rule sint_word_of_int_u64) (use int_below [OF assms(1)] int_below [OF assms(2)] in linarith)+
qed

lemma unat_word_of_int: "0 \<le> k \<Longrightarrow> k < 2 ^ 64 \<Longrightarrow> unat (word_of_int k :: u64) = nat k"
  by (simp add: unsigned_of_int take_bit_int_eq_self)

lemma c_quot_near:
  "0 \<le> x \<Longrightarrow> 0 \<le> c_quot x 1000 \<and> c_quot x 1000 * 1000 \<le> x \<and> x - c_quot x 1000 * 1000 < 1000"
  "x < 0 \<Longrightarrow> c_quot x 1000 \<le> 0 \<and> x \<le> c_quot x 1000 * 1000 \<and> c_quot x 1000 * 1000 - x < 1000"
proof -
  have "0 \<le> \<bar>x\<bar> div 1000" "\<bar>x\<bar> div 1000 * 1000 \<le> \<bar>x\<bar>" "\<bar>x\<bar> - \<bar>x\<bar> div 1000 * 1000 < 1000"
    by linarith+
  then show "0 \<le> x \<Longrightarrow> 0 \<le> c_quot x 1000 \<and> c_quot x 1000 * 1000 \<le> x \<and> x - c_quot x 1000 * 1000 < 1000"
    "x < 0 \<Longrightarrow> c_quot x 1000 \<le> 0 \<and> x \<le> c_quot x 1000 * 1000 \<and> c_quot x 1000 * 1000 - x < 1000"
    by (auto simp: c_quot_def sgn_if)
qed

lemma unat_plus_int: "0 \<le> int (unat w) + k \<Longrightarrow> int (unat w) + k < 2 ^ 63 \<Longrightarrow> int (unat (w + word_of_int k)) = int (unat w) + k" for w :: u64
  using unat_word_of_int [of "int (unat w) + k"] by simp

lemma start_step:
  fixes w r t :: u64
  assumes "unat w = 1000 * unat r" "unat w < 2 ^ 63" "unat t < 2 ^ 63" "d = c_quot (sint (t - w)) 1000"
  shows "unat (w + word_of_int (d * 1000)) = 1000 * unat (r + word_of_int d) \<and> unat (w + word_of_int (d * 1000)) < 2 ^ 63 \<and>
    \<bar>int (unat t) - int (1000 * unat (r + word_of_int d))\<bar> < 1000"
proof -
  let ?x = "int (unat t) - int (unat w)"
  have d: "d = c_quot ?x 1000"
    using assms(4) sint_diff [OF assms(2,3)] by simp
  have t: "int (unat w) < 2 ^ 63" "int (unat t) < 2 ^ 63"
    by (rule int_below [OF assms(2)], rule int_below [OF assms(3)])
  have b: "0 \<le> int (unat w) + d * 1000" "int (unat w) + d * 1000 < 2 ^ 63" "\<bar>int (unat t) - (int (unat w) + d * 1000)\<bar> < 1000"
    using c_quot_near [of ?x, folded d] t by (cases "0 \<le> ?x"; linarith)+
  have w: "int (unat w) = 1000 * int (unat r)"
    using assms(1) by simp
  have u: "int (unat (w + word_of_int (d * 1000))) = int (unat w) + d * 1000" "int (unat (r + word_of_int d)) = int (unat r) + d"
    by (rule unat_plus_int, use b w in linarith, use b w in linarith)+
  have "unat (w + word_of_int (d * 1000)) < 2 ^ 63"
    using b(2) unfolding u(1) [symmetric] by (metis of_nat_less_iff of_nat_numeral of_nat_power)
  moreover have "int (unat (w + word_of_int (d * 1000))) = int (1000 * unat (r + word_of_int d))" 
    using u w by simp
  moreover have "\<bar>int (unat t) - int (1000 * unat (r + word_of_int d))\<bar> < 1000"
    using b(3) u(1) calculation(2) by linarith
  ultimately show ?thesis
    by (simp only: of_nat_eq_iff)
qed

text \<open>Reading until there is no more, at most \<open>n\<close> times.\<close>

primrec trace_reads :: "nat \<Rightarrow> trace_reader \<Rightarrow> trace_out list \<times> trace_reader" where
  "trace_reads 0 r = ([], r)"
| "trace_reads (Suc n) r = (case ReadReq r of (None, r') \<Rightarrow> ([], r') | (Some v, r') \<Rightarrow> (case trace_reads n r' of (vs, r'') \<Rightarrow> (v # vs, r'')))"

primrec trace_recs :: "trace_req list \<Rightarrow> trace_writer \<Rightarrow> u8 list" where
  "trace_recs [] s = []"
| "trace_recs (q # qs) s = req_rec q s @ trace_recs qs (WriteReq q s)"

lemma fold_WriteReq_file: "tw_file (fold WriteReq qs s) = tw_file s @ trace_recs qs s"
  by (induction qs arbitrary: s) simp_all

text \<open>What is read matches what was written: the record, the place of the source line in the table, the time to less than 1 ns.\<close>

definition read_matches :: "(nat \<times> u32) list \<Rightarrow> trace_req \<Rightarrow> trace_out \<Rightarrow> bool" where
  "read_matches ls q v \<longleftrightarrow> v = read_of q (unat (to_src v)) (to_start v) \<and> unat (to_src v) < length ls \<and> ls ! unat (to_src v) = (tq_file q, tq_line q) \<and>
     \<bar>int (unat (tq_start q)) - int (1000 * unat (to_start v))\<bar> < 1000"

definition req_line :: "trace_req \<Rightarrow> nat \<times> u32" where
  "req_line q = (tq_file q, tq_line q)"

lemma WriteReq_lines:
  assumes "lines_ok s" "card (insert (req_line q) (set (tw_lines s))) \<le> 256"
  shows "lines_ok (WriteReq q s)" "set (tw_lines (WriteReq q s)) = insert (req_line q) (set (tw_lines s))"
    "\<exists>ls. tw_lines (WriteReq q s) = tw_lines s @ ls" "tw_lines (WriteReq q s) ! fst (LookupSrc (tq_file q) (tq_line q) s) = req_line q"
    "fst (LookupSrc (tq_file q) (tq_line q) s) < length (tw_lines (WriteReq q s))"
    "length (tw_lines (WriteReq q s)) \<le> 256"
proof -
  have c: "length (tw_lines s) = card (set (tw_lines s))"
    using assms(1) by (simp add: lines_ok_def distinct_card)
  have room: "length (tw_lines s) < MAX_FILE_LINE_SIZE \<or> (tq_file q, tq_line q) \<in> set (tw_lines s)"
    using assms(2) by (auto simp: c req_line_def MAX_FILE_LINE_SIZE_def card_insert_if)
  note r = LookupSrc_result [OF assms(1) room]
  have "lines_ok (WriteReq q s) \<longleftrightarrow> lines_ok (snd (LookupSrc (tq_file q) (tq_line q) s))"
    by (simp add: lines_ok_def)
  then show "lines_ok (WriteReq q s)"
    using r by blast
  show "set (tw_lines (WriteReq q s)) = insert (req_line q) (set (tw_lines s))" "\<exists>ls. tw_lines (WriteReq q s) = tw_lines s @ ls"
    "tw_lines (WriteReq q s) ! fst (LookupSrc (tq_file q) (tq_line q) s) = req_line q"
    "fst (LookupSrc (tq_file q) (tq_line q) s) < length (tw_lines (WriteReq q s))"
    using r by (auto simp: req_line_def)
  show "length (tw_lines (WriteReq q s)) \<le> 256"
    using r assms(2) by (auto simp: c req_line_def card_insert_if split: if_splits)
qed

lemma fold_WriteReq_lines:
  "lines_ok s \<Longrightarrow> card (set (tw_lines s) \<union> req_line ` set qs) \<le> 256 \<Longrightarrow>
     lines_ok (fold WriteReq qs s) \<and> (\<exists>ls. tw_lines (fold WriteReq qs s) = tw_lines s @ ls) \<and> set (tw_lines (fold WriteReq qs s)) = set (tw_lines s) \<union> req_line ` set qs"
proof (induction qs arbitrary: s)
  case (Cons q qs)
  have "card (insert (req_line q) (set (tw_lines s))) \<le> card (set (tw_lines s) \<union> req_line ` set (q # qs))"
    by (rule card_mono) auto
  then have c: "card (insert (req_line q) (set (tw_lines s))) \<le> 256"
    using Cons.prems(2) by linarith
  note w = WriteReq_lines [OF Cons.prems(1) c]
  have "set (tw_lines (WriteReq q s)) \<union> req_line ` set qs = set (tw_lines s) \<union> req_line ` set (q # qs)"
    using w(2) by auto
  then show ?case
    using Cons.IH [OF w(1)] Cons.prems(2) w(3) by auto
qed simp

lemma drop_suffix: "drop p xs = ys @ zs \<Longrightarrow> drop (length xs - length zs) xs = zs"
  by (metis add_diff_cancel_right' append.assoc append_eq_conv_conj append_take_drop_id length_append)

lemma ReadReq_req:
  assumes "lines_ok s" "card (insert (req_line q) (set (tw_lines s))) \<le> 256" "unat (tq_start q) < 2 ^ 63"
    and "unat (tw_prevStart s) = 1000 * unat (rt_prevStart r)" "unat (tw_prevStart s) < 2 ^ 63" "tw_prevAddr s = rt_prevAddr r"
    and "drop (rt_pos r) (rt_file r) = req_rec q s @ rest" "rt_reqIdx r \<noteq> th_memReqCount (rt_hdr r)"
  obtains v r' where "ReadReq r = (Some v, r')" "v = read_of q (fst (LookupSrc (tq_file q) (tq_line q) s)) (to_start v)" "\<bar>int (unat (tq_start q)) - int (1000 * unat (to_start v))\<bar> < 1000"
    "unat (tw_prevStart (WriteReq q s)) = 1000 * unat (rt_prevStart r')" "unat (tw_prevStart (WriteReq q s)) < 2 ^ 63" "tw_prevAddr (WriteReq q s) = rt_prevAddr r'"
    "drop (rt_pos r') (rt_file r') = rest" "rt_reqIdx r' = rt_reqIdx r + 1" "rt_hdr r' = rt_hdr r" "rt_lines r' = rt_lines r" "rt_file r' = rt_file r"
proof -
  let ?d = "c_quot (sint (tq_start q - tw_prevStart s)) 1000"
  let ?i = "fst (LookupSrc (tq_file q) (tq_line q) s)"
  have i: "take_bit 8 (of_nat ?i) = (of_nat ?i :: u64)"
    using WriteReq_lines(5,6) [OF assms(1,2)] by (simp add: take_bit_below unat_of_nat)
  have st: "unat (tw_prevStart s + word_of_int (?d * 1000)) = 1000 * unat (rt_prevStart r + word_of_int ?d) \<and> unat (tw_prevStart s + word_of_int (?d * 1000)) < 2 ^ 63 \<and>
    \<bar>int (unat (tq_start q)) - int (1000 * unat (rt_prevStart r + word_of_int ?d))\<bar> < 1000"
    by (rule start_step [OF assms(4,5,3)]) simp
  have e: "drop (length (rt_file r) - length rest) (rt_file r) = rest"
    by (rule drop_suffix [OF assms(7)])
  show ?thesis
    by (rule that [OF ReadReq_rec [OF assms(7) [unfolded req_rec_def] assms(8)]])
      (use st e assms(6) in \<open>simp_all add: read_of_def i trace_bank_bits read_addr [simplified]\<close>)
qed

lemma trace_sim:
  "lines_ok s \<Longrightarrow> card (set (tw_lines s) \<union> req_line ` set qs) \<le> 256 \<Longrightarrow> (\<forall>q\<in>set qs. unat (tq_start q) < 2 ^ 63) \<Longrightarrow>
   unat (tw_prevStart s) = 1000 * unat (rt_prevStart r) \<Longrightarrow> unat (tw_prevStart s) < 2 ^ 63 \<Longrightarrow> tw_prevAddr s = rt_prevAddr r \<Longrightarrow>
   drop (rt_pos r) (rt_file r) = trace_recs qs s @ rest \<Longrightarrow> unat (rt_reqIdx r) + length qs = unat (th_memReqCount (rt_hdr r)) \<Longrightarrow>
   \<exists>vs r'. trace_reads (Suc (length qs)) r = (vs, r') \<and> list_all2 (read_matches (tw_lines (fold WriteReq qs s))) qs vs \<and> rt_hdr r' = rt_hdr r \<and> rt_lines r' = rt_lines r"
proof (induction qs arbitrary: s r)
  case Nil
  then have "rt_reqIdx r = th_memReqCount (rt_hdr r)"
    by (simp add: word_unat_eq_iff)
  then show ?case
    by (simp add: ReadReq_def Let_def)
next
  case (Cons q qs)
  have "card (insert (req_line q) (set (tw_lines s))) \<le> card (set (tw_lines s) \<union> req_line ` set (q # qs))"
    by (rule card_mono) auto
  then have c: "card (insert (req_line q) (set (tw_lines s))) \<le> 256"
    using Cons.prems(2) by linarith
  note w = WriteReq_lines [OF Cons.prems(1) c]
  have more: "rt_reqIdx r \<noteq> th_memReqCount (rt_hdr r)"
    using Cons.prems(8) by auto
  have rest: "drop (rt_pos r) (rt_file r) = req_rec q s @ (trace_recs qs (WriteReq q s) @ rest)"
    using Cons.prems(7) by simp
  have q: "unat (tq_start q) < 2 ^ 63"
    using Cons.prems(3) by simp
  obtain v r1 where r1: "ReadReq r = (Some v, r1)" "v = read_of q (fst (LookupSrc (tq_file q) (tq_line q) s)) (to_start v)"
      "\<bar>int (unat (tq_start q)) - int (1000 * unat (to_start v))\<bar> < 1000"
      "unat (tw_prevStart (WriteReq q s)) = 1000 * unat (rt_prevStart r1)" "unat (tw_prevStart (WriteReq q s)) < 2 ^ 63" "tw_prevAddr (WriteReq q s) = rt_prevAddr r1"
      "drop (rt_pos r1) (rt_file r1) = trace_recs qs (WriteReq q s) @ rest" "rt_reqIdx r1 = rt_reqIdx r + 1" "rt_hdr r1 = rt_hdr r" "rt_lines r1 = rt_lines r" "rt_file r1 = rt_file r"
    by (rule ReadReq_req [OF Cons.prems(1) c q Cons.prems(4-6) rest more])
  have c': "card (set (tw_lines (WriteReq q s)) \<union> req_line ` set qs) \<le> 256"
    using Cons.prems(2) w(2) by simp
  have "unat (th_memReqCount (rt_hdr r)) < 2 ^ LENGTH(64)"
    by (rule unsigned_less)
  then have "unat (rt_reqIdx r) + 1 < 2 ^ 64"
    using Cons.prems(8) by simp
  then have n: "unat (rt_reqIdx r1) + length qs = unat (th_memReqCount (rt_hdr r1))"
    using Cons.prems(8) by (simp add: r1(8,9) unat_word_ariths)
  obtain vs r' where ih: "trace_reads (Suc (length qs)) r1 = (vs, r')" "list_all2 (read_matches (tw_lines (fold WriteReq qs (WriteReq q s)))) qs vs"
      "rt_hdr r' = rt_hdr r1" "rt_lines r' = rt_lines r1"
    using Cons.IH [OF w(1) c' _ r1(4-7) n] Cons.prems(3) by auto
  obtain ls where ls: "tw_lines (fold WriteReq qs (WriteReq q s)) = tw_lines (WriteReq q s) @ ls"
    using fold_WriteReq_lines [OF w(1) c'] by blast
  let ?i = "fst (LookupSrc (tq_file q) (tq_line q) s)"
  have "to_src v = of_nat ?i"
    by (subst r1(2)) (simp add: read_of_def)
  then have "unat (to_src v) = ?i"
    using w(5,6) by (simp add: unat_of_nat take_bit_nat_eq_self)
  then have "read_matches (tw_lines (fold WriteReq qs (WriteReq q s))) q v"
    using r1(2,3) w(4,5) ls by (simp add: read_matches_def nth_append req_line_def)
  then show ?case
    using r1(1,9,10) ih by simp
qed

definition name_ok :: "u8 list \<Rightarrow> bool" where
  "name_ok t \<longleftrightarrow> 0 \<notin> set t \<and> length t \<le> 256"

lemma ucast_up_down: "ucast (ucast w :: u64) = w" for w :: u32
  by (rule bit_word_eqI) (auto simp: bit_simps)

lemma take_bit_ucast: "take_bit 32 (ucast w :: u64) = ucast w" for w :: u32
  by (rule bit_word_eqI) (auto simp: bit_simps dest: bit_imp_le_length)

lemma hdr_of_bytes: "hdr_of (hdr_bytes h @ bs) = h" "length (hdr_bytes h) = 32"
  by (simp_all add: hdr_of_def hdr_bytes_def take_bit_word_eq_self take_bit_ucast ucast_up_down)

lemma takeWhile_zero: "(0 :: u8) \<notin> set t \<Longrightarrow> takeWhile (\<lambda>b. b \<noteq> 0) (t @ [0]) = t"
  by (induction t) auto

lemma read_line_bytes:
  assumes "name_ok (name (fst x))"
  shows "read_lines (Suc n) (line_bytes name x @ bs) = (name (fst x), snd x) # read_lines n bs"
proof -
  let ?len = "length (name (fst x)) + 1"
  have b: "line_bytes name x = le_bytes 4 (ucast (snd x)) @ le_bytes 4 (of_nat ?len) @ name (fst x) @ [0]"
    using assms by (simp add: line_bytes_def name_ok_def)
  have "unat (take_bit 32 (of_nat ?len :: u64)) = ?len"
    using assms by (simp add: unsigned_take_bit_eq name_ok_def unat_of_nat take_bit_nat_eq_self del: of_nat_add of_nat_Suc)
  moreover have "takeWhile (\<lambda>b. b \<noteq> 0) (name (fst x) @ [0]) = name (fst x)"
    using assms by (intro takeWhile_zero) (simp add: name_ok_def)
  ultimately show ?thesis
    by (simp add: b take_bit_ucast ucast_up_down del: of_nat_add of_nat_Suc)
qed

lemma read_lines_bytes:
  "\<forall>x\<in>set ls. name_ok (name (fst x)) \<Longrightarrow> read_lines (length ls) (concat (map (line_bytes name) ls) @ bs) = map (\<lambda>x. (name (fst x), snd x)) ls"
  by (induction ls) (simp_all add: read_line_bytes del: read_lines.simps(2))

lemma trace_recs_length: "length (trace_recs qs s) \<le> 29 * length qs"
proof (induction qs arbitrary: s)
  case (Cons q qs)
  have "length (req_rec q s) \<le> 29"
    by (simp only: req_rec_def rec_bytes_length)
  then show ?case
    using Cons [of "WriteReq q s"] by simp
qed simp

lemma fold_WriteReq_hdr:
  "th_magic (tw_hdr (fold WriteReq qs s)) = th_magic (tw_hdr s)"
  "th_memReqCount (tw_hdr (fold WriteReq qs s)) = th_memReqCount (tw_hdr s) + of_nat (length qs)"
  by (induction qs arbitrary: s) simp_all

text \<open>
  C27: The trace file is read back: after requests from at most 256 places of the source (the size of the table; see \<open>LookupSrc\<close> for more), with start times
  below 2^63 and file names of at most 256 bytes without a null, are written and the file is closed and opened again, ReadReq gives them in their order and then no
  more, each with its fields cut to their widths, its start to less than 1 ns (the reader counts in ns), the time it took, its address with the three low
  bits cleared and bits 3 to 5 or'ed into bits 6 to 8, and a source index for which LookupFileLine gives the file name and the line of the request.
\<close>

theorem trace_roundtrip:
  assumes "\<forall>q\<in>set qs. unat (tq_start q) < 2 ^ 63 \<and> name_ok (name (tq_file q))" "card (req_line ` set qs) \<le> 256" "length qs < 2 ^ 58"
  shows "\<exists>r vs r'. trace_OpenRead (trace_Close name (fold WriteReq qs (trace_OpenWrite h0))) = Some r \<and> GetMemReqCount r = of_nat (length qs) \<and>
    trace_reads (Suc (length qs)) r = (vs, r') \<and>
    list_all2 (\<lambda>q v. v = read_of q (unat (to_src v)) (to_start v) \<and> \<bar>int (unat (tq_start q)) - int (1000 * unat (to_start v))\<bar> < 1000 \<and>
      LookupFileLine (to_src v) r' = Some (name (tq_file q), tq_line q)) qs vs"
proof -
  let ?init = "trace_OpenWrite h0"
  let ?s = "fold WriteReq qs ?init"
  let ?h = "(tw_hdr ?s)\<lparr>th_fileLineCount := of_nat (length (tw_lines ?s)), th_fileLineOffset := of_nat (length (tw_file ?s))\<rparr>"
  let ?table = "concat (map (line_bytes name) (tw_lines ?s))"
  have s0: "tw_lines ?init = []" "tw_prevStart ?init = 0" "tw_prevAddr ?init = 0" "tw_file ?init = hdr_bytes (tw_hdr ?init)" "th_magic (tw_hdr ?init) = MEM_TRACE_MAGIC"
      "th_memReqCount (tw_hdr ?init) = 0" "lines_ok ?init"
    by (simp_all add: trace_OpenWrite_def Let_def lines_ok_def)
  have bytes: "trace_Close name ?s = hdr_bytes ?h @ trace_recs qs ?init @ ?table"
    by (simp add: trace_Close_def Let_def fold_WriteReq_file s0(4) hdr_size_def hdr_of_bytes(2))
  have lines: "lines_ok ?s" "set (tw_lines ?s) = req_line ` set qs"
    using fold_WriteReq_lines [OF s0(7), of qs] assms(2) by (simp_all add: s0(1))
  then have count: "length (tw_lines ?s) \<le> 256"
    using assms(2) by (metis distinct_card lines_ok_def)
  have offset: "length (tw_file ?s) < 2 ^ 64"
    using trace_recs_length [of qs ?init] assms(3) by (simp add: fold_WriteReq_file s0(4) hdr_of_bytes(2))
  have nameok: "\<forall>x\<in>set (tw_lines ?s). name_ok (name (fst x))"
    using assms(1) by (auto simp: lines(2) req_line_def)
  have dropped: "drop (length (tw_file ?s)) (trace_Close name ?s) = ?table"
    by (simp add: bytes fold_WriteReq_file s0(4) hdr_of_bytes(2))
  obtain r where r: "trace_OpenRead (trace_Close name ?s) = Some r" "rt_hdr r = ?h" "rt_file r = trace_Close name ?s" "rt_pos r = 32" "rt_reqIdx r = 0"
      "rt_prevStart r = 0" "rt_prevAddr r = 0" "rt_lines r = map (\<lambda>x. (name (fst x), snd x)) (tw_lines ?s)"
  proof
    show "trace_OpenRead (trace_Close name ?s) = Some \<lparr>rt_file = trace_Close name ?s, rt_pos = 32, rt_hdr = ?h, rt_reqIdx = 0, rt_prevStart = 0, rt_prevAddr = 0,
        rt_lines = map (\<lambda>x. (name (fst x), snd x)) (tw_lines ?s)\<rparr>"
    proof -
      have "unat (of_nat (length (tw_lines ?s)) :: u64) = length (tw_lines ?s)" "unat (of_nat (length (tw_file ?s)) :: u64) = length (tw_file ?s)"
        using count offset by (simp_all add: unat_of_nat)
      moreover have "hdr_of (trace_Close name ?s) = ?h"
        by (simp only: bytes hdr_of_bytes(1))
      ultimately show ?thesis
        using count read_lines_bytes [OF nameok, of "[]"]
        by (simp add: trace_OpenRead_def Let_def fold_WriteReq_hdr s0(5) dropped MAX_FILE_LINE_SIZE_def hdr_size_def)
    qed
  qed simp_all
  obtain vs r' where v: "trace_reads (Suc (length qs)) r = (vs, r')" "list_all2 (read_matches (tw_lines ?s)) qs vs" "rt_hdr r' = rt_hdr r" "rt_lines r' = rt_lines r"
  proof -
    have "unat (rt_reqIdx r) + length qs = unat (th_memReqCount (rt_hdr r))"
      using assms(3) by (simp add: r(2,5) fold_WriteReq_hdr s0(6) unat_of_nat)
    moreover have "drop (rt_pos r) (rt_file r) = trace_recs qs ?init @ ?table"
      by (simp add: r(3,4) bytes hdr_of_bytes(2))
    ultimately show ?thesis
      using trace_sim [OF s0(7), of qs r ?table] assms(1,2) that by (auto simp: s0 r)
  qed
  have "LookupFileLine (to_src v) r' = Some (name (tq_file q), tq_line q)" if "read_matches (tw_lines ?s) q v" for q v
  proof -
    have "unat (to_src v) < length (tw_lines ?s)" "tw_lines ?s ! unat (to_src v) = (tq_file q, tq_line q)"
      using that by (simp_all add: read_matches_def)
    moreover from this have "to_src v < of_nat (length (tw_lines ?s))"
      using count by (simp add: word_less_nat_alt unat_of_nat)
    ultimately show ?thesis
      by (simp add: LookupFileLine_def v(3,4) r(2,8))
  qed
  then have "list_all2 (\<lambda>q v. v = read_of q (unat (to_src v)) (to_start v) \<and> \<bar>int (unat (tq_start q)) - int (1000 * unat (to_start v))\<bar> < 1000 \<and>
      LookupFileLine (to_src v) r' = Some (name (tq_file q), tq_line q)) qs vs"
    using v(2) by (auto simp: read_matches_def elim!: list_all2_mono)
  then show ?thesis
    using r(1,2) v(1) by (auto simp: GetMemReqCount_def fold_WriteReq_hdr s0(6))
qed

lemma trace_roundtrip_witness:
  "\<exists>r vs r'. trace_OpenRead (trace_Close (\<lambda>f. if f = 0 then [0x61, 0x62] else [0x63])
      (fold WriteReq [\<lparr>tq_ae = 1, tq_unit = 3, tq_op = 1, tq_host = 0, tq_file = 0, tq_line = 12, tq_start = 5500, tq_comp = 705500, tq_addr = 0x123458\<rparr>,
        \<lparr>tq_ae = 0, tq_unit = 2, tq_op = 0, tq_host = 1, tq_file = 1, tq_line = 12, tq_start = 4400, tq_comp = 9400, tq_addr = 0x40\<rparr>]
        (trace_OpenWrite \<lparr>th_magic = 0, th_version = 0, th_memReqCount = 7, th_fileLineOffset = 5, th_fileLineCount = 9\<rparr>))) = Some r \<and>
    GetMemReqCount r = 2 \<and> trace_reads 3 r = (vs, r') \<and> length vs = 2 \<and> LookupFileLine (to_src (vs ! 1)) r' = Some ([0x63], 12)"
proof -
  let ?qs = "[\<lparr>tq_ae = 1, tq_unit = 3, tq_op = 1, tq_host = 0, tq_file = 0, tq_line = 12, tq_start = 5500, tq_comp = 705500, tq_addr = 0x123458\<rparr>,
        \<lparr>tq_ae = 0, tq_unit = 2, tq_op = 0, tq_host = 1, tq_file = 1, tq_line = 12, tq_start = 4400, tq_comp = 9400, tq_addr = 0x40\<rparr>]"
  let ?name = "\<lambda>f. if f = (0 :: nat) then [0x61, 0x62] else [0x63]"
  have "\<forall>q\<in>set ?qs. unat (tq_start q) < 2 ^ 63 \<and> name_ok (?name (tq_file q))" "card (req_line ` set ?qs) \<le> 256" "length ?qs < 2 ^ 58"
    by (simp_all add: name_ok_def card_insert_if)
  from trace_roundtrip [OF this, of "\<lparr>th_magic = 0, th_version = 0, th_memReqCount = 7, th_fileLineOffset = 5, th_fileLineCount = 9\<rparr>"]
  show ?thesis
    by (force simp: list_all2_Cons1 numeral_3_eq_3)
qed

end
