(* ===== verification/MtRand.thy ===== *)
theory MtRand
  imports OhtPrelude
begin

text \<open>
  The random numbers of the tool set: the class \<^verbatim>\<open>MTRand_int32\<close> of \<^verbatim>\<open>src/htl/MtRand.cpp\<close>, its copy with a lock in \<^verbatim>\<open>ht_lib/sysc/mtrand.cpp\<close>, and
  \<^verbatim>\<open>__CnyMTRand\<close> of \<^verbatim>\<open>HtPlatform.cpp\<close>, which the memory model draws from. The class works on \<^verbatim>\<open>unsigned long\<close> of 64 bits with masks; the reference is
  the recurrence on 32 bits.
\<close>

section \<open>The generator\<close>

abbreviation mt_n :: nat where "mt_n \<equiv> 624"
abbreviation mt_m :: nat where "mt_m \<equiv> 397"

record mt_rand =
  mt_state :: "nat \<Rightarrow> u64"
  mt_p :: nat
  mt_init :: bool

definition twiddle :: "u64 \<Rightarrow> u64 \<Rightarrow> u64" where
  "twiddle u v = drop_bit 1 ((u AND 0x80000000) OR (v AND 0x7FFFFFFF)) XOR (if v AND 1 \<noteq> 0 then 0x9908B0DF else 0)"

text \<open>A loop \<open>for (i = a; i < b; ++i)\<close> over the state.\<close>

definition mt_for :: "nat \<Rightarrow> nat \<Rightarrow> (nat \<Rightarrow> (nat \<Rightarrow> u64) \<Rightarrow> (nat \<Rightarrow> u64)) \<Rightarrow> (nat \<Rightarrow> u64) \<Rightarrow> nat \<Rightarrow> u64" where
  "mt_for a b f st = fold f [a..<b] st"

definition gen_state :: "mt_rand \<Rightarrow> mt_rand" where
  "gen_state r = (
     let st = mt_for 0 (mt_n - mt_m) (\<lambda>i st. st(i := st (i + mt_m) XOR twiddle (st i) (st (i + 1)))) (mt_state r);
         st = mt_for (mt_n - mt_m) (mt_n - 1) (\<lambda>i st. st(i := st (i + mt_m - mt_n) XOR twiddle (st i) (st (i + 1)))) st;
         st = st(mt_n - 1 := st (mt_m - 1) XOR twiddle (st (mt_n - 1)) (st 0))
     in r\<lparr>mt_state := st, mt_p := 0\<rparr>)"

definition mt_seed :: "u64 \<Rightarrow> mt_rand \<Rightarrow> mt_rand" where
  "mt_seed s r = (
     let st = (mt_state r)(0 := s AND 0xFFFFFFFF);
         st = mt_for 1 mt_n (\<lambda>i st. st(i := (1812433253 * (st (i - 1) XOR drop_bit 30 (st (i - 1))) + of_nat i) AND 0xFFFFFFFF)) st
     in r\<lparr>mt_state := st, mt_p := mt_n\<rparr>)"

text \<open>The seed from an array. A pass of the first loop is given \<open>i\<close> and \<open>j\<close>, one of the second loop \<open>i\<close>; an array of no entries traps.\<close>

definition mt_wrap :: "nat \<times> (nat \<Rightarrow> u64) \<Rightarrow> nat \<times> (nat \<Rightarrow> u64)" where
  "mt_wrap x = (case x of (i, st) \<Rightarrow> if i + 1 = mt_n then (1, st(0 := st (mt_n - 1))) else (i + 1, st))"

definition mt_seed_array :: "u64 list \<Rightarrow> mt_rand \<Rightarrow> mt_rand option" where
  "mt_seed_array arr r = (if arr = [] then None else Some (
     let r = mt_seed 19650218 r; size = length arr;
         pass1 = (\<lambda>(i, j, st). let st = st(i := (((st i XOR ((st (i - 1) XOR drop_bit 30 (st (i - 1))) * 1664525)) + arr ! j + of_nat j) AND 0xFFFFFFFF));
           (i, st) = mt_wrap (i, st) in (i, (j + 1) mod size, st));
         (i, j, st) = (pass1 ^^ max mt_n size) (1, 0, mt_state r);
         pass2 = (\<lambda>(i, st). mt_wrap (i, st(i := ((st i XOR ((st (i - 1) XOR drop_bit 30 (st (i - 1))) * 1566083941)) - of_nat i) AND 0xFFFFFFFF)));
         (i, st) = (pass2 ^^ (mt_n - 1)) (i, st)
     in r\<lparr>mt_state := st(0 := 0x80000000), mt_p := mt_n\<rparr>))"

definition mt_temper :: "u64 \<Rightarrow> u64" where
  "mt_temper x = (
     let x = x XOR drop_bit 11 x;
         x = x XOR (push_bit 7 x AND 0x9D2C5680);
         x = x XOR (push_bit 15 x AND 0xEFC60000)
     in x XOR drop_bit 18 x)"

definition rand_int32 :: "mt_rand \<Rightarrow> u64 \<times> mt_rand" where
  "rand_int32 r = (
     let r = (if mt_p r = mt_n then gen_state r else r)
     in (mt_temper (mt_state r (mt_p r)), r\<lparr>mt_p := mt_p r + 1\<rparr>))"

text \<open>The constructors; the first copy's state is static, so the default one leaves a generator that was seeded as it is.\<close>

definition mt_new :: "mt_rand \<Rightarrow> mt_rand" where
  "mt_new r = (if mt_init r then r else mt_seed 5489 r)\<lparr>mt_init := True\<rparr>"

definition mt_new_seed :: "u64 \<Rightarrow> mt_rand \<Rightarrow> mt_rand" where
  "mt_new_seed s r = (mt_seed s r)\<lparr>mt_init := True\<rparr>"

section \<open>The copy with a lock\<close>

text \<open>A state per object and a spin lock; \<^verbatim>\<open>lock\<close> on a lock that is held by the caller itself would never return (\<open>None\<close>).\<close>

record mtx_rand = mt_rand +
  mt_lock :: bool

definition mtx_acquire :: "mtx_rand \<Rightarrow> mtx_rand option" where
  "mtx_acquire r = (if mt_lock r then None else Some (r\<lparr>mt_lock := True\<rparr>))"

definition mtx_release :: "mtx_rand \<Rightarrow> mtx_rand" where
  "mtx_release r = r\<lparr>mt_lock := False\<rparr>"

text \<open>The routines of the first copy on the fields they share.\<close>

definition mt_lift :: "(mt_rand \<Rightarrow> mt_rand) \<Rightarrow> mtx_rand \<Rightarrow> mtx_rand" where
  "mt_lift f r = mt_rand.extend (f (mt_rand.truncate r)) \<lparr>mt_lock = mt_lock r\<rparr>"

definition mtx_gen_state :: "mtx_rand \<Rightarrow> mtx_rand option" where
  "mtx_gen_state r = do { ensure (mt_lock r); Some (mt_lift gen_state r) }"

definition mtx_seed :: "u64 \<Rightarrow> bool \<Rightarrow> mtx_rand \<Rightarrow> mtx_rand option" where
  "mtx_seed s bLock r = do {
     r \<leftarrow> (if bLock then mtx_acquire r else Some r);
     ensure (mt_lock r);
     let r = mt_lift (mt_seed s) r;
     Some (if bLock then mtx_release r else r)
   }"

definition mtx_rand_int32 :: "mtx_rand \<Rightarrow> (u64 \<times> mtx_rand) option" where
  "mtx_rand_int32 r = do {
     r \<leftarrow> mtx_acquire r;
     r \<leftarrow> (if mt_p r = mt_n then mtx_gen_state r else Some r);
     let x = mt_state r (mt_p r);
     let r = mtx_release (r\<lparr>mt_p := mt_p r + 1\<rparr>);
     Some (mt_temper x, r)
   }"

text \<open>The constructor without a seed; \<open>raw\<close> is what the state holds before.\<close>

definition mtx_new :: "(nat \<Rightarrow> u64) \<Rightarrow> u64 \<Rightarrow> mtx_rand option" where
  "mtx_new raw s = do {
     let r = \<lparr>mt_state = raw(mt_n - 1 := 0), mt_p = 0, mt_init = False, mt_lock = False\<rparr>;
     r \<leftarrow> mtx_acquire r;
     r \<leftarrow> mtx_seed s False r;
     Some (mtx_release (r\<lparr>mt_init := True\<rparr>))
   }"

text \<open>64 bits from two calls; which of the two is made first is not specified.\<close>

definition mtx_rand_int64 :: "bool \<Rightarrow> mtx_rand \<Rightarrow> (u64 \<times> mtx_rand) option" where
  "mtx_rand_int64 left_first r = do {
     (a, r) \<leftarrow> mtx_rand_int32 r;
     (b, r) \<leftarrow> mtx_rand_int32 r;
     Some (if left_first then push_bit 32 a OR b else push_bit 32 b OR a, r)
   }"

text \<open>\<^verbatim>\<open>__CnyMTRand\<close>: the first call makes and seeds the generator; \<open>seed\<close> is the value of \<^verbatim>\<open>CNY_HTSEED\<close>, or none.\<close>

definition CnyMTRand :: "(nat \<Rightarrow> u64) \<Rightarrow> u64 option \<Rightarrow> mtx_rand option \<Rightarrow> (u32 \<times> mtx_rand) option" where
  "CnyMTRand raw seed g = do {
     r \<leftarrow> (case g of Some r \<Rightarrow> Some r | None \<Rightarrow> do {
       r \<leftarrow> mtx_new raw 5489;
       mtx_seed (case seed of None \<Rightarrow> 0xdeadbeef | Some s \<Rightarrow> s) True r
     });
     (x, r) \<leftarrow> mtx_rand_int32 r;
     Some (ucast x, r)
   }"


section \<open>The reference\<close>

text \<open>MT19937 on 32-bit words: the sequence from a seed, its seed values first, and the tempering.\<close>

definition mt_twist :: "u32 \<Rightarrow> u32" where
  "mt_twist y = drop_bit 1 y XOR (if bit y 0 then 0x9908B0DF else 0)"

function mt19937 :: "u32 \<Rightarrow> nat \<Rightarrow> u32" where
  "mt19937 s k =
     (if k = 0 then s
      else if k < mt_n then 1812433253 * (mt19937 s (k - 1) XOR drop_bit 30 (mt19937 s (k - 1))) + of_nat k
      else mt19937 s (k - mt_n + mt_m) XOR mt_twist ((mt19937 s (k - mt_n) AND 0x80000000) OR (mt19937 s (k - mt_n + 1) AND 0x7FFFFFFF)))"
  by pat_completeness auto

termination
  by (relation "measure snd") auto

declare mt19937.simps [simp del]

definition mt19937_out :: "u32 \<Rightarrow> u32" where
  "mt19937_out x = (
     let x = x XOR drop_bit 11 x;
         x = x XOR (push_bit 7 x AND 0x9D2C5680);
         x = x XOR (push_bit 15 x AND 0xEFC60000)
     in x XOR drop_bit 18 x)"

section \<open>The state follows the reference\<close>

abbreviation wide :: "u32 \<Rightarrow> u64" where "wide \<equiv> ucast"

lemma wide_drop: "drop_bit k (wide x) = wide (drop_bit k x)"
  by (rule bit_word_eqI) (auto simp: bit_simps dest: bit_imp_le_length)

lemma wide_logic: "wide x XOR wide y = wide (x XOR y)" "wide x AND wide y = wide (x AND y)" "wide x OR wide y = wide (x OR y)"
  by (rule bit_word_eqI, auto simp: bit_simps)+

lemma wide_push: "push_bit k (wide x) AND wide c = wide (push_bit k x AND c)"
  by (rule bit_word_eqI) (auto simp: bit_simps dest: bit_imp_le_length)

lemma wide_numerals: "0x80000000 = wide 0x80000000" "0x7FFFFFFF = wide 0x7FFFFFFF" "0x9908B0DF = wide 0x9908B0DF" "0x9D2C5680 = wide 0x9D2C5680"
  "0xEFC60000 = wide 0xEFC60000" "0 = wide 0" "1 = wide 1"
  by simp_all

lemma low_wide: "w AND 0xFFFFFFFF = wide (ucast w)"
proof -
  have m: "(0xFFFFFFFF :: u64) = mask 32" by (simp add: mask_eq_exp_minus_1)
  show ?thesis unfolding m by (rule bit_word_eqI) (auto simp: bit_simps)
qed

lemma twiddle_wide: "twiddle (wide u) (wide v) = wide (mt_twist ((u AND 0x80000000) OR (v AND 0x7FFFFFFF)))"
proof -
  have 1: "wide v AND 1 \<noteq> 0 \<longleftrightarrow> bit v 0"
    by (metis and_one_eq bit_0 bit_unsigned_iff even_iff_mod_2_eq_zero possible_bit_word zero_less_numeral len_num1 len_of_numeral_defs len_gt_0)
  have 2: "bit ((u AND 0x80000000) OR (v AND 0x7FFFFFFF)) 0 = bit v 0" by (simp only: bit_or_iff bit_and_iff) simp
  show ?thesis unfolding twiddle_def mt_twist_def 1 2
    by (simp only: wide_numerals wide_drop wide_logic if_distrib [of wide, symmetric])
qed

lemma temper_wide: "mt_temper (wide x) = wide (mt19937_out x)"
  unfolding mt_temper_def mt19937_out_def Let_def
  by (simp only: wide_numerals wide_drop wide_push wide_logic)

lemma low_of_int: "ucast (word_of_int k :: u64) = (word_of_int k :: u32)"
  by (simp add: unsigned_of_int word_of_int_eq_iff)

lemma mult_wide: "ucast (1812433253 * wide y + of_nat i) = (1812433253 * y + of_nat i :: u32)"
proof -
  have "1812433253 * wide y + of_nat i = (word_of_int (1812433253 * uint y + int i) :: u64)" by simp
  moreover have "(word_of_int (1812433253 * uint y + int i) :: u32) = 1812433253 * y + of_nat i" by simp
  ultimately show ?thesis using low_of_int by metis
qed

text \<open>What the loops leave: the entries they passed come from the new sequence.\<close>

lemma mt_for_rule:
  assumes "a \<le> b" "P a st" "\<And>i st. a \<le> i \<Longrightarrow> i < b \<Longrightarrow> P i st \<Longrightarrow> P (Suc i) (f i st)"
  shows "P b (mt_for a b f st)"
proof -
  have "P (a + k) (fold f [a..<a + k] st)" if "a + k \<le> b" for k
    using that by (induction k) (auto simp: assms(2,3))
  from this [of "b - a"] show ?thesis using assms(1) by (simp add: mt_for_def)
qed

definition mt_holds :: "u32 \<Rightarrow> nat \<Rightarrow> (nat \<Rightarrow> u64) \<Rightarrow> bool" where
  "mt_holds s j st \<longleftrightarrow> (\<forall>i < mt_n. st i = wide (mt19937 s (j + i)))"

lemma seed_holds: "mt_holds (ucast s) 0 (mt_state (mt_seed s r))"
proof -
  let ?P = "\<lambda>i st. \<forall>t < i. st t = wide (mt19937 (ucast s) t)"
  let ?st0 = "(mt_state r)(0 := s AND 0xFFFFFFFF)"
  have 0: "?P 1 ?st0" by (simp add: low_wide mt19937.simps [of _ 0])
  have "?P mt_n (mt_for 1 mt_n (\<lambda>i st. st(i := (1812433253 * (st (i - 1) XOR drop_bit 30 (st (i - 1))) + of_nat i) AND 0xFFFFFFFF)) ?st0)"
  proof (rule mt_for_rule [where P = ?P, OF _ 0])
    fix i st assume i: "1 \<le> i" "i < mt_n" "?P i st"
    have "(1812433253 * (st (i - 1) XOR drop_bit 30 (st (i - 1))) + of_nat i) AND 0xFFFFFFFF = wide (mt19937 (ucast s) i)"
      using i by (simp add: low_wide wide_drop wide_logic mult_wide mt19937.simps [of _ i])
    then show "?P (Suc i) (st(i := (1812433253 * (st (i - 1) XOR drop_bit 30 (st (i - 1))) + of_nat i) AND 0xFFFFFFFF))" using i(3) by (auto simp: less_Suc_eq)
  qed simp
  then show ?thesis by (simp add: mt_holds_def mt_seed_def Let_def)
qed

lemma mt19937_next: "mt19937 s (mt_n + k) = mt19937 s (k + mt_m) XOR mt_twist ((mt19937 s k AND 0x80000000) OR (mt19937 s (k + 1) AND 0x7FFFFFFF))"
  by (subst mt19937.simps) simp

lemma gen_holds:
  assumes "mt_holds s j (mt_state r)"
  shows "mt_holds s (j + mt_n) (mt_state (gen_state r))"
proof -
  let ?x = "\<lambda>k. wide (mt19937 s k)"
  let ?P = "\<lambda>i st. (\<forall>t < i. st t = ?x (j + mt_n + t)) \<and> (\<forall>t. i \<le> t \<longrightarrow> t < mt_n \<longrightarrow> st t = ?x (j + t))"
  have step: "?x (j + mt_n + i) = ?x (j + i + mt_m) XOR twiddle (?x (j + i)) (?x (j + i + 1))" for i
    using mt19937_next [of s "j + i"] by (simp add: twiddle_wide wide_logic ac_simps)
  let ?f1 = "\<lambda>i st. st(i := st (i + mt_m) XOR twiddle (st i) (st (i + 1)))" and ?f2 = "\<lambda>i st. st(i := st (i + mt_m - mt_n) XOR twiddle (st i) (st (i + 1)))"
  have 0: "?P 0 (mt_state r)" using assms by (simp add: mt_holds_def)
  have 1: "?P (mt_n - mt_m) (mt_for 0 (mt_n - mt_m) ?f1 (mt_state r))"
  proof (rule mt_for_rule [where P = ?P, OF _ 0])
    fix i st assume i: "i < mt_n - mt_m" "?P i st"
    show "?P (Suc i) (?f1 i st)" using i step [of i] by (auto simp: less_Suc_eq ac_simps)
  qed simp
  have 2: "?P (mt_n - 1) (mt_for (mt_n - mt_m) (mt_n - 1) ?f2 (mt_for 0 (mt_n - mt_m) ?f1 (mt_state r)))"
  proof (rule mt_for_rule [where P = ?P, OF _ 1])
    fix i st assume i: "mt_n - mt_m \<le> i" "i < mt_n - 1" "?P i st"
    have e: "st (i + mt_m - mt_n) = ?x (j + i + mt_m)" using i by (simp add: ac_simps)
    show "?P (Suc i) (?f2 i st)" using i(2,3) step [of i] e by (auto simp: less_Suc_eq ac_simps)
  qed simp
  let ?st = "mt_for (mt_n - mt_m) (mt_n - 1) ?f2 (mt_for 0 (mt_n - mt_m) ?f1 (mt_state r))"
  have 3: "?P mt_n (?st(mt_n - 1 := ?st (mt_m - 1) XOR twiddle (?st (mt_n - 1)) (?st 0)))"
    using 2 step [of "mt_n - 1"] by (auto simp: less_Suc_eq ac_simps)
  then show ?thesis by (simp add: mt_holds_def gen_state_def Let_def ac_simps)
qed

lemma low_of_wide [simp]: "ucast (wide x) = x"
  by (rule bit_word_eqI) (auto simp: bit_simps)

text \<open>The generator stands before the number \<open>j\<close> of the sequence.\<close>

definition mt_at :: "u32 \<Rightarrow> nat \<Rightarrow> mt_rand \<Rightarrow> bool" where
  "mt_at s j r \<longleftrightarrow> mt_p r \<le> mt_n \<and> mt_p r \<le> j \<and> mt_holds s (j - mt_p r) (mt_state r)"

lemma seed_at: "mt_at (ucast s) mt_n (mt_seed s r)"
  using seed_holds [of s r] by (simp add: mt_at_def mt_seed_def Let_def)

lemma rand_at:
  assumes "mt_at s j r" "rand_int32 r = (x, r')"
  shows "x = wide (mt19937_out (mt19937 s j)) \<and> mt_at s (Suc j) r'"
proof -
  let ?r = "if mt_p r = mt_n then gen_state r else r"
  have "mt_at s j ?r" using assms(1) gen_holds [of s "j - mt_n" r] by (auto simp: mt_at_def gen_state_def Let_def)
  moreover have p: "mt_p ?r < mt_n" using assms(1) by (auto simp: mt_at_def gen_state_def Let_def)
  ultimately have "mt_state ?r (mt_p ?r) = wide (mt19937 s j)" "mt_at s (Suc j) (?r\<lparr>mt_p := mt_p ?r + 1\<rparr>)"
    by (auto simp: mt_at_def mt_holds_def)
  then show ?thesis using assms(2) by (auto simp: rand_int32_def Let_def temper_wide)
qed

primrec mt_outputs :: "nat \<Rightarrow> mt_rand \<Rightarrow> u64 list" where
  "mt_outputs 0 r = []"
| "mt_outputs (Suc k) r = (case rand_int32 r of (x, r) \<Rightarrow> x # mt_outputs k r)"

lemma outputs_at: "mt_at s j r \<Longrightarrow> mt_outputs k r = map (\<lambda>i. wide (mt19937_out (mt19937 s i))) [j..<j + k]"
proof (induction k arbitrary: j r)
  case (Suc k)
  obtain x r' where x: "rand_int32 r = (x, r')" by fastforce
  show ?case using rand_at [OF Suc.prems x] Suc.IH [of "Suc j" r'] by (simp add: x upt_conv_Cons del: upt_Suc)
qed simp

text \<open>The copy makes the same steps and has the lock free after each call.\<close>

lemma mt_lift_fields [simp]: "mt_rand.truncate (mt_lift f r) = f (mt_rand.truncate r)" "mt_lock (mt_lift f r) = mt_lock r"
  by (cases r; simp add: mt_lift_def mt_rand.defs)+

lemma mtx_rand_run:
  assumes "\<not> mt_lock r" "rand_int32 (mt_rand.truncate r) = (x, t)"
  shows "\<exists>r'. mtx_rand_int32 r = Some (x, r') \<and> mt_rand.truncate r' = t \<and> \<not> mt_lock r'"
  using assms by (cases r) (auto simp: mtx_rand_int32_def mtx_acquire_def mtx_release_def mtx_gen_state_def mt_lift_def rand_int32_def Let_def mt_rand.defs
    gen_state_def split: if_splits)

lemma mtx_seed_run: "\<exists>r'. mtx_seed s True r = Some r' \<and> mt_rand.truncate r' = mt_seed s (mt_rand.truncate r) \<and> \<not> mt_lock r'" if "\<not> mt_lock r"
  using that by (cases r) (auto simp: mtx_seed_def mtx_acquire_def mtx_release_def mt_lift_def mt_seed_def Let_def mt_rand.defs)

lemma mtx_new_run: "\<exists>r'. mtx_new raw s = Some r' \<and> \<not> mt_lock r'"
  by (auto simp: mtx_new_def mtx_seed_def mtx_acquire_def mtx_release_def Let_def)

definition cny_at :: "u32 \<Rightarrow> nat \<Rightarrow> mtx_rand option \<Rightarrow> bool" where
  "cny_at s j g \<longleftrightarrow> (case g of None \<Rightarrow> j = mt_n | Some r \<Rightarrow> \<not> mt_lock r \<and> mt_at s j (mt_rand.truncate r))"

definition cny_seed :: "u64 option \<Rightarrow> u32" where
  "cny_seed seed = (case seed of None \<Rightarrow> 0xdeadbeef | Some s \<Rightarrow> ucast s)"

lemma cny_step:
  assumes "cny_at (cny_seed seed) j g"
  shows "\<exists>r. CnyMTRand raw seed g = Some (mt19937_out (mt19937 (cny_seed seed) j), r) \<and> cny_at (cny_seed seed) (Suc j) (Some r)"
proof -
  let ?s = "case seed of None \<Rightarrow> 0xdeadbeef | Some s \<Rightarrow> s"
  have s: "cny_seed seed = ucast ?s" by (simp add: cny_seed_def split: option.split)
  obtain r where r: "(case g of Some r \<Rightarrow> Some r | None \<Rightarrow> do { r \<leftarrow> mtx_new raw 5489; mtx_seed ?s True r }) = Some r"
    "\<not> mt_lock r" "mt_at (cny_seed seed) j (mt_rand.truncate r)"
  proof (cases g)
    case None
    obtain r0 where r0: "mtx_new raw 5489 = Some r0" "\<not> mt_lock r0" using mtx_new_run by blast
    obtain r' where "mtx_seed ?s True r0 = Some r'" "mt_rand.truncate r' = mt_seed ?s (mt_rand.truncate r0)" "\<not> mt_lock r'" using mtx_seed_run [OF r0(2)] by blast
    then show ?thesis using None r0(1) assms that seed_at [of ?s] by (simp add: cny_at_def s)
  next
    case (Some r)
    then show ?thesis using assms that by (simp add: cny_at_def)
  qed
  obtain x t where x: "rand_int32 (mt_rand.truncate r) = (x, t)" by fastforce
  obtain r' where "mtx_rand_int32 r = Some (x, r')" "mt_rand.truncate r' = t" "\<not> mt_lock r'" using mtx_rand_run [OF r(2) x] by blast
  then show ?thesis using rand_at [OF r(3) x] r(1) by (auto simp: CnyMTRand_def cny_at_def cong: option.case_cong)
qed

primrec cny_outputs :: "(nat \<Rightarrow> u64) \<Rightarrow> u64 option \<Rightarrow> nat \<Rightarrow> mtx_rand option \<Rightarrow> u32 list option" where
  "cny_outputs raw seed 0 g = Some []"
| "cny_outputs raw seed (Suc k) g = do { (x, r) \<leftarrow> CnyMTRand raw seed g; xs \<leftarrow> cny_outputs raw seed k (Some r); Some (x # xs) }"

lemma cny_outputs_at: "cny_at (cny_seed seed) j g \<Longrightarrow> cny_outputs raw seed k g = Some (map (\<lambda>i. mt19937_out (mt19937 (cny_seed seed) i)) [j..<j + k])"
proof (induction k arbitrary: j g)
  case (Suc k)
  obtain r where r: "CnyMTRand raw seed g = Some (mt19937_out (mt19937 (cny_seed seed) j), r)" "cny_at (cny_seed seed) (Suc j) (Some r)"
    using cny_step [OF Suc.prems] by blast
  show ?case using Suc.IH [OF r(2)] by (simp add: r(1) upt_conv_Cons del: upt_Suc)
qed simp

section \<open>Properties\<close>

text \<open>
  C40: the random numbers. After a seed the calls return the tempered MT19937 sequence from its entry 624 on, although the state is kept in 64-bit words and
  renewed in place; and so does the memory model's source from its first call on, whatever the storage held, with the lock never found taken.
\<close>

theorem mt_stream:
  "mt_outputs k (mt_seed s r) = map (\<lambda>i. ucast (mt19937_out (mt19937 (ucast s) i))) [mt_n..<mt_n + k] \<and>
   cny_outputs raw seed k None = Some (map (\<lambda>i. mt19937_out (mt19937 (cny_seed seed) i)) [mt_n..<mt_n + k])"
  by (intro conjI outputs_at [OF seed_at] cny_outputs_at) (simp add: cny_at_def)

end
