(* ===== verification/SyscMon.thy ===== *)
theory SyscMon
  imports OhtPrelude
begin

text \<open>
  The counters of the SystemC monitor, \<^verbatim>\<open>CSyscMon\<close> of \<^verbatim>\<open>ht_lib/sysc/SyscMonLib.cpp\<close>: one record per module and the totals of the memory model. The printing of
  the report is not modelled. \<^verbatim>\<open>Int64\<close> values are words that are compared as signed. The monitor is \<open>None\<close> once its destructor has run; a call then
  does nothing.
\<close>

section \<open>State\<close>

record mon_mod =
  mm_pathName :: string
  mm_memPortCnt :: nat
  mm_modInstrW :: nat
  mm_htValidCnt :: u64
  mm_htInstrValidCnt :: "u64 list"
  mm_htRetryCnt :: u64
  mm_htInstrRetryCnt :: "u64 list"
  mm_readMemCnt :: "u64 list"
  mm_read64MemCnt :: "u64 list"
  mm_readMemBytes :: "u64 list"
  mm_writeMemCnt :: "u64 list"
  mm_write64MemCnt :: "u64 list"
  mm_writeMemBytes :: "u64 list"
  mm_maxActiveCnt :: u64
  mm_availableCnt :: u64
  mm_activeSum :: u64
  mm_activeClks :: u64
  mm_runningSum :: u64

record mon_lib =
  ml_modList :: "mon_mod list"
  ml_minMemClks :: "bool \<Rightarrow> u64"
  ml_maxMemClks :: "bool \<Rightarrow> u64"
  ml_totalMemClks :: "bool \<Rightarrow> u64"
  ml_totalMemOps :: "bool \<Rightarrow> u64"
  ml_totalMemReads :: "bool \<Rightarrow> u64"
  ml_totalMemWrites :: "bool \<Rightarrow> u64"
  ml_totalMemRead64s :: "bool \<Rightarrow> u64"
  ml_totalMemWrite64s :: "bool \<Rightarrow> u64"
  ml_totalMemReadBytes :: "bool \<Rightarrow> u64"
  ml_totalMemWriteBytes :: "bool \<Rightarrow> u64"

type_synonym sysc_mon = "mon_lib option"

text \<open>The name of a module: the index of its SystemC path, from the last bracket on, is appended.\<close>

definition mod_pathName :: "string \<Rightarrow> string option \<Rightarrow> string" where
  "mod_pathName pathName syscPath = (case syscPath of None \<Rightarrow> pathName
     | Some p \<Rightarrow> if 1 < length p \<and> last p = CHR '']'' then
         (let k = length (takeWhile (\<lambda>c. c \<noteq> CHR ''['') (rev p)); pos = length p - 1 - min k (length p - 1) in
          if 0 < sint (word_of_nat (of_char (p ! pos)) :: 8 word) then pathName @ drop pos p else pathName)
       else pathName)"

definition mon_mod_new :: "string \<Rightarrow> string option \<Rightarrow> nat \<Rightarrow> nat \<Rightarrow> nat \<Rightarrow> mon_mod" where
  "mon_mod_new pathName syscPath htIdW instrW ports =
     \<lparr>mm_pathName = mod_pathName pathName syscPath, mm_memPortCnt = ports, mm_modInstrW = instrW,
      mm_htValidCnt = 0, mm_htInstrValidCnt = replicate (2 ^ instrW) 0, mm_htRetryCnt = 0, mm_htInstrRetryCnt = replicate (2 ^ instrW) 0,
      mm_readMemCnt = replicate ports 0, mm_read64MemCnt = replicate ports 0, mm_readMemBytes = replicate ports 0,
      mm_writeMemCnt = replicate ports 0, mm_write64MemCnt = replicate ports 0, mm_writeMemBytes = replicate ports 0,
      mm_maxActiveCnt = 0, mm_availableCnt = 2 ^ htIdW, mm_activeSum = 0, mm_activeClks = 0, mm_runningSum = 0\<rparr>"

definition RegisterModule :: "string \<Rightarrow> string option \<Rightarrow> nat \<Rightarrow> nat \<Rightarrow> nat \<Rightarrow> mon_lib \<Rightarrow> nat \<times> mon_lib" where
  "RegisterModule pathName syscPath htIdW instrW ports s =
     (length (ml_modList s), s\<lparr>ml_modList := ml_modList s @ [mon_mod_new pathName syscPath htIdW instrW ports]\<rparr>)"

definition mon_lib_new :: mon_lib where
  "mon_lib_new = \<lparr>ml_modList = [], ml_minMemClks = (\<lambda>_. 0x7fffffffffffffff), ml_maxMemClks = (\<lambda>_. 0), ml_totalMemClks = (\<lambda>_. 0), ml_totalMemOps = (\<lambda>_. 0),
     ml_totalMemReads = (\<lambda>_. 0), ml_totalMemWrites = (\<lambda>_. 0), ml_totalMemRead64s = (\<lambda>_. 0), ml_totalMemWrite64s = (\<lambda>_. 0),
     ml_totalMemReadBytes = (\<lambda>_. 0), ml_totalMemWriteBytes = (\<lambda>_. 0)\<rparr>"

definition CSyscMon_new :: sysc_mon where
  "CSyscMon_new = Some (snd (RegisterModule ''HIF'' None 0 0 1 mon_lib_new))"

section \<open>The counters of a module\<close>

text \<open>
  An update of module \<open>modId\<close>; the \<^verbatim>\<open>assert\<close> on it stops the run, and so does (undefined in the code) an index behind the end of a vector.
\<close>

definition mon_update :: "nat \<Rightarrow> (mon_mod \<Rightarrow> mon_mod option) \<Rightarrow> sysc_mon \<Rightarrow> sysc_mon option" where
  "mon_update modId f s = (case s of None \<Rightarrow> Some None
     | Some l \<Rightarrow> do {
         ensure (modId < length (ml_modList l));
         m \<leftarrow> f (ml_modList l ! modId);
         Some (Some (l\<lparr>ml_modList := (ml_modList l)[modId := m]\<rparr>))
       })"

definition bump :: "nat \<Rightarrow> u64 \<Rightarrow> u64 list \<Rightarrow> u64 list option" where
  "bump i n xs = (if i < length xs then Some (xs[i := xs ! i + n]) else None)"

definition UpdateValidInstrCnt :: "nat \<Rightarrow> nat \<Rightarrow> sysc_mon \<Rightarrow> sysc_mon option" where
  "UpdateValidInstrCnt modId htInstr = mon_update modId (\<lambda>m. do {
     xs \<leftarrow> bump htInstr 1 (mm_htInstrValidCnt m);
     Some (m\<lparr>mm_htValidCnt := mm_htValidCnt m + 1, mm_htInstrValidCnt := xs\<rparr>)
   })"

definition UpdateRetryInstrCnt :: "nat \<Rightarrow> nat \<Rightarrow> sysc_mon \<Rightarrow> sysc_mon option" where
  "UpdateRetryInstrCnt modId htInstr = mon_update modId (\<lambda>m. do {
     xs \<leftarrow> bump htInstr 1 (mm_htInstrRetryCnt m);
     Some (m\<lparr>mm_htRetryCnt := mm_htRetryCnt m + 1, mm_htInstrRetryCnt := xs\<rparr>)
   })"

definition UpdateModuleMemReadBytes :: "nat \<Rightarrow> nat \<Rightarrow> u64 \<Rightarrow> sysc_mon \<Rightarrow> sysc_mon option" where
  "UpdateModuleMemReadBytes modId portId bytes = mon_update modId (\<lambda>m. map_option (\<lambda>xs. m\<lparr>mm_readMemBytes := xs\<rparr>) (bump portId bytes (mm_readMemBytes m)))"

definition UpdateModuleMemReads :: "nat \<Rightarrow> nat \<Rightarrow> u64 \<Rightarrow> sysc_mon \<Rightarrow> sysc_mon option" where
  "UpdateModuleMemReads modId portId cnt = mon_update modId (\<lambda>m. map_option (\<lambda>xs. m\<lparr>mm_readMemCnt := xs\<rparr>) (bump portId cnt (mm_readMemCnt m)))"

definition UpdateModuleMemRead64s :: "nat \<Rightarrow> nat \<Rightarrow> u64 \<Rightarrow> sysc_mon \<Rightarrow> sysc_mon option" where
  "UpdateModuleMemRead64s modId portId cnt = mon_update modId (\<lambda>m. map_option (\<lambda>xs. m\<lparr>mm_read64MemCnt := xs\<rparr>) (bump portId cnt (mm_read64MemCnt m)))"

definition UpdateModuleMemWriteBytes :: "nat \<Rightarrow> nat \<Rightarrow> u64 \<Rightarrow> sysc_mon \<Rightarrow> sysc_mon option" where
  "UpdateModuleMemWriteBytes modId portId bytes = mon_update modId (\<lambda>m. map_option (\<lambda>xs. m\<lparr>mm_writeMemBytes := xs\<rparr>) (bump portId bytes (mm_writeMemBytes m)))"

definition UpdateModuleMemWrites :: "nat \<Rightarrow> nat \<Rightarrow> u64 \<Rightarrow> sysc_mon \<Rightarrow> sysc_mon option" where
  "UpdateModuleMemWrites modId portId cnt = mon_update modId (\<lambda>m. map_option (\<lambda>xs. m\<lparr>mm_writeMemCnt := xs\<rparr>) (bump portId cnt (mm_writeMemCnt m)))"

definition UpdateModuleMemWrite64s :: "nat \<Rightarrow> nat \<Rightarrow> u64 \<Rightarrow> sysc_mon \<Rightarrow> sysc_mon option" where
  "UpdateModuleMemWrite64s modId portId cnt = mon_update modId (\<lambda>m. map_option (\<lambda>xs. m\<lparr>mm_write64MemCnt := xs\<rparr>) (bump portId cnt (mm_write64MemCnt m)))"

definition UpdateActiveClks :: "nat \<Rightarrow> u64 \<Rightarrow> sysc_mon \<Rightarrow> sysc_mon option" where
  "UpdateActiveClks modId cnt = mon_update modId (\<lambda>m. Some (m\<lparr>mm_activeClks := mm_activeClks m + cnt\<rparr>))"

definition UpdateActiveCnt :: "nat \<Rightarrow> u32 \<Rightarrow> sysc_mon \<Rightarrow> sysc_mon option" where
  "UpdateActiveCnt modId activeCnt = mon_update modId (\<lambda>m. Some (m\<lparr>
     mm_maxActiveCnt := (if sint (mm_maxActiveCnt m) < sint (ucast activeCnt :: u64) then ucast activeCnt else mm_maxActiveCnt m),
     mm_activeSum := mm_activeSum m + ucast activeCnt,
     mm_activeClks := mm_activeClks m + 1\<rparr>))"

definition UpdateRunningCnt :: "nat \<Rightarrow> u32 \<Rightarrow> sysc_mon \<Rightarrow> sysc_mon option" where
  "UpdateRunningCnt modId runningCnt = mon_update modId (\<lambda>m. Some (m\<lparr>mm_runningSum := mm_runningSum m + ucast runningCnt\<rparr>))"

section \<open>The totals\<close>

definition UpdateMemReqClocks :: "bool \<Rightarrow> u64 \<Rightarrow> sysc_mon \<Rightarrow> sysc_mon" where
  "UpdateMemReqClocks bHost reqClocks = map_option (\<lambda>l. l\<lparr>
     ml_minMemClks := (if sint reqClocks < sint (ml_minMemClks l bHost) then (ml_minMemClks l)(bHost := reqClocks) else ml_minMemClks l),
     ml_maxMemClks := (if sint (ml_maxMemClks l bHost) < sint reqClocks then (ml_maxMemClks l)(bHost := reqClocks) else ml_maxMemClks l),
     ml_totalMemClks := (ml_totalMemClks l)(bHost := ml_totalMemClks l bHost + reqClocks),
     ml_totalMemOps := (ml_totalMemOps l)(bHost := ml_totalMemOps l bHost + 1)\<rparr>)"

definition UpdateTotalMemReadBytes :: "bool \<Rightarrow> u64 \<Rightarrow> sysc_mon \<Rightarrow> sysc_mon" where
  "UpdateTotalMemReadBytes bHost bytes = map_option (\<lambda>l. l\<lparr>ml_totalMemReadBytes := (ml_totalMemReadBytes l)(bHost := ml_totalMemReadBytes l bHost + bytes)\<rparr>)"

definition UpdateTotalMemRead64s :: "bool \<Rightarrow> u64 \<Rightarrow> sysc_mon \<Rightarrow> sysc_mon" where
  "UpdateTotalMemRead64s bHost cnt = map_option (\<lambda>l. l\<lparr>ml_totalMemRead64s := (ml_totalMemRead64s l)(bHost := ml_totalMemRead64s l bHost + cnt)\<rparr>)"

definition UpdateTotalMemReads :: "bool \<Rightarrow> u64 \<Rightarrow> sysc_mon \<Rightarrow> sysc_mon" where
  "UpdateTotalMemReads bHost cnt = map_option (\<lambda>l. l\<lparr>ml_totalMemReads := (ml_totalMemReads l)(bHost := ml_totalMemReads l bHost + cnt)\<rparr>)"

definition UpdateTotalMemWriteBytes :: "bool \<Rightarrow> u64 \<Rightarrow> sysc_mon \<Rightarrow> sysc_mon" where
  "UpdateTotalMemWriteBytes bHost bytes = map_option (\<lambda>l. l\<lparr>ml_totalMemWriteBytes := (ml_totalMemWriteBytes l)(bHost := ml_totalMemWriteBytes l bHost + bytes)\<rparr>)"

definition UpdateTotalMemWrite64s :: "bool \<Rightarrow> u64 \<Rightarrow> sysc_mon \<Rightarrow> sysc_mon" where
  "UpdateTotalMemWrite64s bHost cnt = map_option (\<lambda>l. l\<lparr>ml_totalMemWrite64s := (ml_totalMemWrite64s l)(bHost := ml_totalMemWrite64s l bHost + cnt)\<rparr>)"

definition UpdateTotalMemWrites :: "bool \<Rightarrow> u64 \<Rightarrow> sysc_mon \<Rightarrow> sysc_mon" where
  "UpdateTotalMemWrites bHost cnt = map_option (\<lambda>l. l\<lparr>ml_totalMemWrites := (ml_totalMemWrites l)(bHost := ml_totalMemWrites l bHost + cnt)\<rparr>)"

section \<open>What the counters hold\<close>

text \<open>The calls that change the counters of a module, and a run of them.\<close>

datatype mod_call = CValid nat | CRetry nat | CActive u32 | CRunning u32 | CClks u64

primrec mod_apply :: "nat \<Rightarrow> mod_call \<Rightarrow> sysc_mon \<Rightarrow> sysc_mon option" where
  "mod_apply k (CValid i) = UpdateValidInstrCnt k i"
| "mod_apply k (CRetry i) = UpdateRetryInstrCnt k i"
| "mod_apply k (CActive n) = UpdateActiveCnt k n"
| "mod_apply k (CRunning n) = UpdateRunningCnt k n"
| "mod_apply k (CClks n) = UpdateActiveClks k n"

primrec mod_calls :: "nat \<Rightarrow> mod_call list \<Rightarrow> sysc_mon \<Rightarrow> sysc_mon option" where
  "mod_calls k [] s = Some s"
| "mod_calls k (c # cs) s = do { s \<leftarrow> mod_apply k c s; mod_calls k cs s }"

text \<open>The count of a module's instructions is the sum of the counts per instruction, and the largest active count is one that was seen.\<close>

definition mod_sums :: "mon_mod \<Rightarrow> bool" where
  "mod_sums m \<longleftrightarrow> mm_htValidCnt m = sum_list (mm_htInstrValidCnt m) \<and> mm_htRetryCnt m = sum_list (mm_htInstrRetryCnt m) \<and>
     length (mm_htInstrValidCnt m) = 2 ^ mm_modInstrW m \<and> length (mm_htInstrRetryCnt m) = 2 ^ mm_modInstrW m"

lemma sum_list_add_at: "i < length xs \<Longrightarrow> sum_list (xs[i := xs ! i + n]) = sum_list xs + n" for n :: u64
proof (induction xs arbitrary: i)
  case (Cons x xs)
  then show ?case
    by (cases i) (simp_all add: ac_simps)
qed simp

lemma bump_sum: "bump i n xs = Some ys \<Longrightarrow> sum_list ys = sum_list xs + n \<and> length ys = length xs"
  by (auto simp: bump_def sum_list_add_at split: if_splits)

lemma mod_apply_sums:
  assumes "mod_apply k c (Some l) = Some (Some l')" "\<forall>m\<in>set (ml_modList l). mod_sums m"
  shows "\<forall>m\<in>set (ml_modList l'). mod_sums m"
  using assms
  by (cases c) (auto simp: UpdateValidInstrCnt_def UpdateRetryInstrCnt_def UpdateActiveCnt_def UpdateRunningCnt_def UpdateActiveClks_def mon_update_def mod_sums_def
      split: Option.bind_splits dest!: bump_sum subsetD [OF set_update_subset_insert])

lemma mod_apply_present: "mod_apply k c (Some l) = Some s \<Longrightarrow> \<exists>l'. s = Some l'"
  by (cases c) (auto simp: UpdateValidInstrCnt_def UpdateRetryInstrCnt_def UpdateActiveCnt_def UpdateRunningCnt_def UpdateActiveClks_def mon_update_def
      split: Option.bind_splits)

lemma mod_new_sums: "mod_sums (mon_mod_new pathName syscPath htIdW instrW ports)"
  by (simp add: mod_sums_def mon_mod_new_def sum_list_replicate)

lemma mod_calls_sums:
  "mod_calls k cs (Some l) = Some (Some l') \<Longrightarrow> (\<forall>m\<in>set (ml_modList l). mod_sums m) \<Longrightarrow> (\<forall>m\<in>set (ml_modList l'). mod_sums m)"
proof (induction cs arbitrary: l)
  case (Cons c cs)
  then obtain s1 where s1: "mod_apply k c (Some l) = Some s1" "mod_calls k cs s1 = Some (Some l')"
    by (auto split: Option.bind_splits)
  moreover obtain l1 where "s1 = Some l1"
    using mod_apply_present [OF s1(1)] by blast
  ultimately show ?case
    using Cons.IH mod_apply_sums Cons.prems(2) by blast
qed simp

end
