(* ===== verification/SyscMem.thy ===== *)
theory SyscMem
  imports MemTrace MtRand SyscMon "HOL-Library.Multiset"
begin

text \<open>
  The memory of the SystemC simulation, \<^verbatim>\<open>CSyscMemLib\<close> of \<^verbatim>\<open>ht_lib/sysc/SyscMemLib.cpp\<close>, with its requests kept in slots: one call is one clock. Requests are
  collected word by word, wait for the latency of their memory, move to one of 32 slots for reads or for writes, and are served from a slot drawn at
  random, one word per clock. The dump of the traffic and the texts of the messages are not modelled.
\<close>

section \<open>Requests\<close>

text \<open>\<^verbatim>\<open>CMemRdWrReqIntf\<close>; the type and the size have two bits.\<close>

record mem_req =
  mr_data :: u64
  mr_addr :: u64
  mr_tid :: u32
  mr_type :: "2 word"
  mr_host :: bool
  mr_size :: "2 word"
  mr_line :: u32
  mr_file :: nat
  mr_time :: u64
  mr_orderChk :: bool

definition MEM_REQ_RD :: "2 word" where "MEM_REQ_RD = 0"
definition MEM_REQ_WR :: "2 word" where "MEM_REQ_WR = 1"
definition MEM_REQ_SET_BIT_63 :: "2 word" where "MEM_REQ_SET_BIT_63 = 3"

abbreviation qw_bits :: "u32 \<Rightarrow> nat" where
  "qw_bits tid \<equiv> unat (tid AND 7)"

text \<open>The bytes that a request of a type stands for: none for the unused type, which stops the run.\<close>

definition chk_size :: "mem_req \<Rightarrow> u64 option" where
  "chk_size r = (if mr_type r = MEM_REQ_RD \<or> mr_type r = MEM_REQ_WR then Some (of_nat ((qw_bits (mr_tid r) + 1) * 8))
     else if mr_type r = MEM_REQ_SET_BIT_63 then Some 8 else None)"

definition order_conflict :: "mem_req \<Rightarrow> mem_req \<Rightarrow> bool" where
  "order_conflict n q \<longleftrightarrow> (let bNewRead = mr_type n = MEM_REQ_RD; bNewWrite = mr_type n = MEM_REQ_WR; bNewAtomic = mr_type n = MEM_REQ_SET_BIT_63;
       bQueRead = mr_type q = MEM_REQ_RD; bQueWrite = mr_type q = MEM_REQ_WR; bQueAtomic = mr_type q = MEM_REQ_SET_BIT_63 in
     bNewRead \<and> bQueWrite \<or> bNewWrite \<and> bQueRead \<or> bNewAtomic \<and> (bQueRead \<or> bQueWrite) \<or> (bNewRead \<or> bNewWrite) \<and> bQueAtomic)"

text \<open>\<^verbatim>\<open>CheckMemReqOrdering\<close>: the state is the counter of errors, which all memories share, and the pairs that were reported.\<close>

type_synonym order_log = "nat \<times> (mem_req \<times> mem_req) list"

definition CheckMemReqOrdering :: "mem_req \<Rightarrow> mem_req \<Rightarrow> order_log \<Rightarrow> order_log option" where
  "CheckMemReqOrdering newReq queReq s = (case s of (errorCnt, out) \<Rightarrow>
     if \<not> mr_orderChk newReq \<or> \<not> mr_orderChk queReq \<or> 5 < errorCnt then Some s
     else do {
       newSize \<leftarrow> chk_size newReq;
       queSize \<leftarrow> chk_size queReq;
       let newStart = mr_addr newReq; let newEnd = newStart + newSize;
       let queStart = mr_addr queReq; let queEnd = queStart + queSize;
       Some (if queEnd \<le> newStart \<or> newEnd \<le> queStart then s
         else if order_conflict newReq queReq then (errorCnt + 1, out @ [(newReq, queReq)])
         else s)
     })"

primrec check_all :: "mem_req \<Rightarrow> mem_req list \<Rightarrow> order_log \<Rightarrow> order_log option" where
  "check_all n [] s = Some s"
| "check_all n (q # qs) s = do { s \<leftarrow> CheckMemReqOrdering n q s; check_all n qs s }"

section \<open>Memory\<close>

text \<open>Bytes at addresses; a load and a store of \<open>n\<close> bytes.\<close>

type_synonym byte_mem = "u64 \<Rightarrow> u8"

definition load :: "nat \<Rightarrow> u64 \<Rightarrow> byte_mem \<Rightarrow> u64" where
  "load n a m = le_word (map (\<lambda>i. m (a + of_nat i)) [0..<n])"

definition store :: "nat \<Rightarrow> u64 \<Rightarrow> u64 \<Rightarrow> byte_mem \<Rightarrow> byte_mem" where
  "store n a v m = (\<lambda>x. if x - a < of_nat n then le_bytes n v ! unat (x - a) else m x)"

definition size_bytes :: "2 word \<Rightarrow> nat" where
  "size_bytes sz = 2 ^ unat sz"

section \<open>State\<close>

text \<open>\<open>mc_raw\<close> is what the storage of a new request holds, the same for every one, \<open>mc_rawRnd\<close> and \<open>mc_seed\<close> belong to the random numbers.\<close>

record mem_cfg =
  mc_hc1 :: bool
  mc_hc2 :: bool
  mc_avgMemLatency :: "bool \<Rightarrow> int"
  mc_bMemReqRndFull :: bool
  mc_mangle :: u64
  mc_raw :: "u64 list"
  mc_rawRnd :: "nat \<Rightarrow> u64"
  mc_seed :: "u64 option"

record req_time =
  rq_req :: mem_req
  rq_time :: u64
  rq_host :: bool
  rq_reqQwCnt :: nat
  rq_data :: "u64 list"

record sysc_mem =
  sm_memReqQue :: "req_time list"
  sm_pReqTime :: "req_time option"
  sm_wrDataIdx :: nat
  sm_rdReqList :: "nat \<Rightarrow> req_time"
  sm_wrReqList :: "nat \<Rightarrow> req_time"
  sm_rdReqValid :: u32
  sm_wrReqValid :: u32
  sm_rdReqRr :: nat
  sm_wrReqRr :: nat
  sm_rdReqCnt :: nat
  sm_wrReqCnt :: nat
  sm_bRdReqHold :: bool
  sm_bWrReqHold :: bool
  sm_prevReqIdx :: nat
  sm_rdReqQwIdx :: nat
  sm_wrReqQwIdx :: nat
  sm_reqRndFullCnt :: nat
  sm_bReqRndFull :: bool
  \<comment> \<open>shared by all memories: the count of placement warnings, the ordering errors, the random numbers, the memory itself, the address ranges, the monitor\<close>
  sm_placementErrorCnt :: nat
  sm_order :: order_log
  sm_rnd :: "mtx_rand option"
  sm_mem :: byte_mem
  sm_ranges :: range_state
  sm_mon :: sysc_mon

record mem_in =
  mi_reset :: bool
  mi_now :: u64
  mi_reqRdy :: bool
  mi_req :: mem_req
  mi_rdRspFull :: bool
  mi_wrRspFull :: bool

record mem_out =
  mo_rdRsp :: "(u32 \<times> u64) option"
  mo_wrRspTid :: "u32 option"
  mo_reqFull :: bool

section \<open>A clock\<close>

abbreviation slot_cnt :: nat where "slot_cnt \<equiv> 32"

definition qw_store :: "nat \<Rightarrow> u64 \<Rightarrow> u64 list \<Rightarrow> u64 list option" where
  "qw_store i v xs = (if i < length xs then Some (xs[i := v]) else None)"

text \<open>Whether memory at an address is the host's, and the check that the address is valid.\<close>

definition addr_host :: "u64 \<Rightarrow> range_state \<Rightarrow> bool" where
  "addr_host a rs = (IsValidAddress a rs \<noteq> Some True)"

definition addr_fatal :: "u64 \<Rightarrow> range_state \<Rightarrow> bool" where
  "addr_fatal a rs = (IsAddressValidationEnabled rs \<and> IsValidAddress a rs = None)"

text \<open>The first word of a request.\<close>

definition new_req :: "mem_cfg \<Rightarrow> mem_req \<Rightarrow> u64 \<Rightarrow> sysc_mem \<Rightarrow> sysc_mem option" where
  "new_req c req now s = do {
     let host = addr_host (mr_addr req) (sm_ranges s);
     ensure (\<not> addr_fatal (mr_addr req) (sm_ranges s));
     let cnt = (if mc_hc1 c then 1 else qw_bits (mr_tid req) + 1);
     (data, i) \<leftarrow> (if mr_type req = MEM_REQ_WR then map_option (\<lambda>d. (d, sm_wrDataIdx s + 1)) (qw_store (sm_wrDataIdx s) (mr_data req) (mc_raw c))
       else Some (mc_raw c, sm_wrDataIdx s));
     let s = (if 1 < cnt \<and> host \<noteq> mr_host req then s\<lparr>sm_placementErrorCnt := sm_placementErrorCnt s + 1\<rparr> else s);
     ensure (\<not> (mc_hc2 c \<and> 1 < cnt \<and> (cnt \<noteq> 8 \<or> \<not> host)));
     ensure (mr_type req = MEM_REQ_RD \<and> mr_tid req AND 7 \<noteq> 0 \<longrightarrow> mr_tid req AND 7 = 7 \<and> mr_addr req AND 0x3f = 0);
     Some (s\<lparr>sm_pReqTime := Some \<lparr>rq_req = req, rq_time = now, rq_host = host, rq_reqQwCnt = cnt, rq_data = data\<rparr>, sm_wrDataIdx := i\<rparr>)
   }"

definition slots :: "u32 \<Rightarrow> (nat \<Rightarrow> req_time) \<Rightarrow> req_time list" where
  "slots valid list = map list (filter (bit valid) [0..<slot_cnt])"

text \<open>A request whose words are all there: it is checked against those that wait and moves to the queue.\<close>

definition queue_req :: "req_time \<Rightarrow> sysc_mem \<Rightarrow> sysc_mem option" where
  "queue_req p s = do {
     ord \<leftarrow> check_all (rq_req p) (map rq_req (sm_memReqQue s)) (sm_order s);
     ord \<leftarrow> (if mr_type (rq_req p) = MEM_REQ_WR then check_all (rq_req p) (map rq_req (slots (sm_rdReqValid s) (sm_rdReqList s))) ord else Some ord);
     ord \<leftarrow> (if mr_type (rq_req p) \<noteq> MEM_REQ_WR then check_all (rq_req p) (map rq_req (slots (sm_wrReqValid s) (sm_wrReqList s))) ord else Some ord);
     Some (s\<lparr>sm_order := ord, sm_memReqQue := sm_memReqQue s @ [p], sm_pReqTime := None, sm_wrDataIdx := 0\<rparr>)
   }"

text \<open>A word at the input.\<close>

definition take_req :: "mem_cfg \<Rightarrow> mem_in \<Rightarrow> sysc_mem \<Rightarrow> sysc_mem option" where
  "take_req c i s = (if \<not> mi_reqRdy i then Some s else do {
     s \<leftarrow> (case sm_pReqTime s of None \<Rightarrow> new_req c (mi_req i) (mi_now i) s
       | Some p \<Rightarrow> do {
           data \<leftarrow> qw_store (sm_wrDataIdx s) (mr_data (mi_req i)) (rq_data p);
           Some (s\<lparr>sm_pReqTime := Some (p\<lparr>rq_data := data\<rparr>), sm_wrDataIdx := sm_wrDataIdx s + 1\<rparr>)
         });
     p \<leftarrow> sm_pReqTime s;
     if mr_type (rq_req p) \<noteq> MEM_REQ_WR \<or> sm_wrDataIdx s = rq_reqQwCnt p then queue_req p s else Some s
   })"

text \<open>Whether the request at the front has waited long enough; a latency is in clocks of 10 ns and time in ps.\<close>

definition req_due :: "mem_cfg \<Rightarrow> u64 \<Rightarrow> req_time \<Rightarrow> bool" where
  "req_due c now p = (let lat = max 0 (if mr_host (rq_req p) then mc_avgMemLatency c True - 32 else mc_avgMemLatency c False - 63) in
     rq_time p + of_int (lat * 10) * 1000 < now)"

text \<open>The search for a free slot, from the one of the last insertion; the second value tells whether there is one.\<close>

fun find_slot :: "nat \<Rightarrow> u32 \<Rightarrow> nat \<Rightarrow> nat \<times> bool" where
  "find_slot 0 valid rr = (rr, False)"
| "find_slot (Suc n) valid rr = (if \<not> bit valid rr then (rr, True) else find_slot n valid ((rr + 1) mod slot_cnt))"

definition insert_req :: "mem_cfg \<Rightarrow> u64 \<Rightarrow> sysc_mem \<Rightarrow> sysc_mem" where
  "insert_req c now s = (case sm_memReqQue s of [] \<Rightarrow> s
     | p # ps \<Rightarrow> if \<not> req_due c now p then s
         else if mr_type (rq_req p) = MEM_REQ_WR then
           (case find_slot slot_cnt (sm_wrReqValid s) (sm_wrReqRr s) of (rr, found) \<Rightarrow>
             if found then s\<lparr>sm_wrReqRr := rr, sm_wrReqList := (sm_wrReqList s)(rr := p), sm_wrReqValid := set_bit rr (sm_wrReqValid s),
               sm_wrReqCnt := sm_wrReqCnt s + 1, sm_memReqQue := ps\<rparr> else s\<lparr>sm_wrReqRr := rr\<rparr>)
         else
           (case find_slot slot_cnt (sm_rdReqValid s) (sm_rdReqRr s) of (rr, found) \<Rightarrow>
             if found then s\<lparr>sm_rdReqRr := rr, sm_rdReqList := (sm_rdReqList s)(rr := p), sm_rdReqValid := set_bit rr (sm_rdReqValid s),
               sm_rdReqCnt := sm_rdReqCnt s + 1, sm_memReqQue := ps\<rparr> else s\<lparr>sm_rdReqRr := rr\<rparr>))"

definition pick_slot :: "mem_cfg \<Rightarrow> sysc_mem \<Rightarrow> (nat \<times> sysc_mem) option" where
  "pick_slot c s = (if sm_bRdReqHold s \<or> sm_bWrReqHold s then Some (sm_prevReqIdx s, s)
     else do {
       (x, r) \<leftarrow> CnyMTRand (mc_rawRnd c) (mc_seed c) (sm_rnd s);
       let idx = unat (x AND 31);
       Some (idx, s\<lparr>sm_rnd := Some r, sm_prevReqIdx := idx\<rparr>)
     })"

definition rsp_tid :: "u32 \<Rightarrow> nat \<Rightarrow> u32" where
  "rsp_tid tid k = (tid AND NOT 7) OR (of_nat k AND 7)"

definition req_clocks :: "u64 \<Rightarrow> u64 \<Rightarrow> u64" where
  "req_clocks now start = (now - start) div 10000"

definition serve_read :: "mem_cfg \<Rightarrow> mem_in \<Rightarrow> nat \<Rightarrow> sysc_mem \<Rightarrow> ((u32 \<times> u64) option \<times> sysc_mem) option" where
  "serve_read c i idx s =
     (if \<not> mi_rdRspFull i \<and> sm_rdReqCnt s \<noteq> 0 \<and> sm_wrReqCnt s \<noteq> slot_cnt \<and> bit (sm_rdReqValid s) idx then do {
       let p = sm_rdReqList s idx; let r = rq_req p; let k = sm_rdReqQwIdx s; let host = addr_host (mr_addr r) (sm_ranges s);
       let data = load (size_bytes (mr_size r)) ((mr_addr r + of_nat (8 * k)) XOR mc_mangle c) (sm_mem s);
       mem \<leftarrow> (if mr_type r = MEM_REQ_RD then Some (sm_mem s)
         else if mr_type r = MEM_REQ_SET_BIT_63 then Some (store 8 (mr_addr r XOR mc_mangle c) 0x8000000000000000 (sm_mem s)) else None);
       let mon = UpdateTotalMemReadBytes host 8 (UpdateMemReqClocks host (req_clocks (mi_now i) (rq_time p)) (sm_mon s));
       let mon = (if mr_tid r AND 7 \<noteq> 0 then UpdateTotalMemRead64s host (if k = 0 then 1 else 0) mon else UpdateTotalMemReads host 1 mon);
       let s = s\<lparr>sm_mem := mem, sm_mon := mon\<rparr>;
       Some (Some (rsp_tid (mr_tid r) k, data),
         if rq_reqQwCnt p = k + 1 then s\<lparr>sm_rdReqCnt := sm_rdReqCnt s - 1, sm_rdReqValid := unset_bit idx (sm_rdReqValid s), sm_rdReqQwIdx := 0, sm_bRdReqHold := False\<rparr>
         else s\<lparr>sm_rdReqQwIdx := k + 1, sm_bRdReqHold := True\<rparr>)
     } else Some (None, s))"

definition serve_write :: "mem_cfg \<Rightarrow> mem_in \<Rightarrow> nat \<Rightarrow> sysc_mem \<Rightarrow> (u32 option \<times> sysc_mem) option" where
  "serve_write c i idx s =
     (if \<not> mi_wrRspFull i \<and> sm_wrReqCnt s \<noteq> 0 \<and> bit (sm_wrReqValid s) idx then do {
       let p = sm_wrReqList s idx; let r = rq_req p; let k = sm_wrReqQwIdx s; let host = addr_host (mr_addr r) (sm_ranges s);
       let n = size_bytes (mr_size r);
       ensure (k < length (rq_data p));
       let mem = store n ((mr_addr r XOR mc_mangle c) + of_nat (8 * k)) (rq_data p ! k) (sm_mem s);
       let mon = UpdateTotalMemWriteBytes host (of_nat n) (UpdateMemReqClocks host (req_clocks (mi_now i) (rq_time p)) (sm_mon s));
       let mon = (if mr_tid r AND 7 \<noteq> 0 then UpdateTotalMemWrite64s host (if k = 0 then 1 else 0) mon else UpdateTotalMemWrites host 1 mon);
       let s = s\<lparr>sm_mem := mem, sm_mon := mon\<rparr>;
       Some (if k = 0 then Some (rsp_tid (mr_tid r) k) else None,
         if rq_reqQwCnt p = k + 1 then s\<lparr>sm_wrReqCnt := sm_wrReqCnt s - 1, sm_wrReqValid := unset_bit idx (sm_wrReqValid s), sm_wrReqQwIdx := 0, sm_bWrReqHold := False\<rparr>
         else s\<lparr>sm_wrReqQwIdx := k + 1, sm_bWrReqHold := True\<rparr>)
     } else Some (None, s))"

text \<open>Back pressure at random, when it is asked for.\<close>

definition rnd_full :: "mem_cfg \<Rightarrow> sysc_mem \<Rightarrow> (bool \<times> sysc_mem) option" where
  "rnd_full c s = (if \<not> mc_bMemReqRndFull c then Some (False, s)
     else if sm_reqRndFullCnt s = 0 then do {
       (x, r) \<leftarrow> CnyMTRand (mc_rawRnd c) (mc_seed c) (sm_rnd s);
       Some (\<not> sm_bReqRndFull s, s\<lparr>sm_rnd := Some r, sm_reqRndFullCnt := 2 + unat (x mod 400), sm_bReqRndFull := \<not> sm_bReqRndFull s\<rparr>)
     } else Some (sm_bReqRndFull s, s\<lparr>sm_reqRndFullCnt := sm_reqRndFullCnt s - 1\<rparr>))"

definition mem_reset :: "sysc_mem \<Rightarrow> sysc_mem" where
  "mem_reset s = s\<lparr>sm_rdReqValid := 0, sm_wrReqValid := 0, sm_rdReqRr := 0, sm_wrReqRr := 0, sm_rdReqCnt := 0, sm_wrReqCnt := 0, sm_bRdReqHold := False,
     sm_bWrReqHold := False, sm_prevReqIdx := 0, sm_rdReqQwIdx := 0, sm_wrReqQwIdx := 0\<rparr>"

definition SyscMemLib_slots :: "mem_cfg \<Rightarrow> mem_in \<Rightarrow> sysc_mem \<Rightarrow> (mem_out \<times> sysc_mem) option" where
  "SyscMemLib_slots c i s = do {
     s \<leftarrow> take_req c i s;
     (idx, s) \<leftarrow> pick_slot c (insert_req c (mi_now i) s);
     (rd, s) \<leftarrow> serve_read c i idx s;
     (wr, s) \<leftarrow> serve_write c i idx s;
     (full, s) \<leftarrow> rnd_full c s;
     Some (\<lparr>mo_rdRsp = rd, mo_wrRspTid = wr, mo_reqFull = full\<rparr>, if mi_reset i then mem_reset s else s)
   }"

text \<open>Construction; the flags of the holds and the index of the last slot are not set, \<open>s0\<close> is what the object and the shared state held.\<close>

definition CSyscMemLib_new :: "sysc_mem \<Rightarrow> sysc_mem" where
  "CSyscMemLib_new s0 = s0\<lparr>sm_memReqQue := [], sm_pReqTime := None, sm_wrDataIdx := 0, sm_rdReqValid := 0, sm_wrReqValid := 0, sm_rdReqRr := 0, sm_wrReqRr := 0,
     sm_rdReqCnt := 0, sm_wrReqCnt := 0, sm_rdReqQwIdx := 0, sm_wrReqQwIdx := 0, sm_reqRndFullCnt := 0, sm_bReqRndFull := False\<rparr>"

text \<open>Clocks, one after the other.\<close>

primrec mem_run :: "mem_cfg \<Rightarrow> mem_in list \<Rightarrow> sysc_mem \<Rightarrow> (mem_out list \<times> sysc_mem) option" where
  "mem_run c [] s = Some ([], s)"
| "mem_run c (i # is) s = do { (out, s) \<leftarrow> SyscMemLib_slots c i s; (outs, s) \<leftarrow> mem_run c is s; Some (out # outs, s) }"

section \<open>The order check\<close>

text \<open>The words the check takes a request to be about: whole words of 8 bytes, whatever the size of the request.\<close>

definition req_words :: "mem_req \<Rightarrow> nat set" where
  "req_words r = {unat (mr_addr r) ..< unat (mr_addr r) + (if mr_type r = MEM_REQ_SET_BIT_63 then 8 else 8 * (qw_bits (mr_tid r) + 1))}"

text \<open>The bytes that are loaded and stored when the request is served: \<open>mr_size\<close> of them at every word, and the whole first word by an atomic.\<close>

definition req_bytes :: "mem_req \<Rightarrow> nat set" where
  "req_bytes r = (\<Union>k\<le>qw_bits (mr_tid r). {unat (mr_addr r) + 8 * k ..< unat (mr_addr r) + 8 * k + size_bytes (mr_size r)}) \<union>
     (if mr_type r = MEM_REQ_SET_BIT_63 then {unat (mr_addr r) ..< unat (mr_addr r) + 8} else {})"

text \<open>An atomic that asks for one word, as the check takes it to.\<close>

definition atomic_word :: "mem_req \<Rightarrow> bool" where
  "atomic_word r \<longleftrightarrow> (mr_type r = MEM_REQ_SET_BIT_63 \<longrightarrow> qw_bits (mr_tid r) = 0)"

lemma size_bytes_le: "size_bytes sz \<le> 8" "0 < size_bytes sz"
proof -
  have "unat sz < 2 ^ LENGTH(2)"
    by (rule unsigned_less)
  then have "unat sz \<le> 3"
    by simp
  then have "(2::nat) ^ unat sz \<le> 2 ^ 3"
    by (intro power_increasing) simp_all
  then show "size_bytes sz \<le> 8" "0 < size_bytes sz"
    by (simp_all add: size_bytes_def)
qed

lemma bytes_in_words:
  assumes "atomic_word r"
  shows "req_bytes r \<subseteq> req_words r"
proof
  fix x
  assume "x \<in> req_bytes r"
  then consider k where "k \<le> qw_bits (mr_tid r)" "unat (mr_addr r) + 8 * k \<le> x" "x < unat (mr_addr r) + 8 * k + size_bytes (mr_size r)"
    | "mr_type r = MEM_REQ_SET_BIT_63" "unat (mr_addr r) \<le> x" "x < unat (mr_addr r) + 8"
    by (auto simp: req_bytes_def split: if_splits)
  then show "x \<in> req_words r"
  proof cases
    case 1
    then show ?thesis
      using size_bytes_le(1) [of "mr_size r"] assms by (auto simp: req_words_def atomic_word_def)
  next
    case 2
    then show ?thesis
      by (simp add: req_words_def)
  qed
qed

lemma full_words:
  assumes "atomic_word r" "mr_size r = 3"
  shows "req_bytes r = req_words r"
proof
  show "req_words r \<subseteq> req_bytes r"
  proof
    fix x
    assume x: "x \<in> req_words r"
    then have le: "unat (mr_addr r) \<le> x" "(x - unat (mr_addr r)) div 8 \<le> qw_bits (mr_tid r)"
      by (auto simp: req_words_def less_mult_imp_div_less less_Suc_eq_le [symmetric] split: if_splits)
    let ?k = "(x - unat (mr_addr r)) div 8"
    have "8 * ?k \<le> x - unat (mr_addr r)" "x - unat (mr_addr r) < 8 * ?k + 8"
      by simp_all
    then have "unat (mr_addr r) + 8 * ?k \<le> x" "x < unat (mr_addr r) + 8 * ?k + size_bytes (mr_size r)"
      using le(1) by (simp_all add: size_bytes_def assms(2))
    then show "x \<in> req_bytes r"
      using le(2) unfolding req_bytes_def by (intro UnI1 UN_I [of ?k]) simp_all
  qed
qed (rule bytes_in_words [OF assms(1)])

definition chk_type :: "mem_req \<Rightarrow> bool" where
  "chk_type r \<longleftrightarrow> mr_type r = MEM_REQ_RD \<or> mr_type r = MEM_REQ_WR \<or> mr_type r = MEM_REQ_SET_BIT_63"

lemma qw_bits_le: "qw_bits t \<le> 7"
proof -
  have "t AND 7 = take_bit 3 t"
    by (simp only: take_bit_eq_mask) (simp add: mask_eq_exp_minus_1)
  then have "qw_bits t = unat t mod 8"
    by (simp only: unsigned_take_bit_eq) (simp add: take_bit_eq_mod)
  then show ?thesis
    by simp
qed

lemma chk_size_bytes:
  assumes "chk_type r" "unat (mr_addr r) + 64 < 2 ^ 64"
  obtains n where "chk_size r = Some n" "req_words r = {unat (mr_addr r) ..< unat (mr_addr r + n)}" "mr_addr r < mr_addr r + n"
proof -
  have add: "unat (mr_addr r + of_nat k) = unat (mr_addr r) + k" if "k \<le> 64" for k
    using assms(2) that by (simp add: unat_word_ariths unat_of_nat)
  have k: "(qw_bits (mr_tid r) + 1) * 8 \<le> 64"
    using qw_bits_le [of "mr_tid r"] by simp
  show ?thesis
  proof (cases "mr_type r = MEM_REQ_SET_BIT_63")
    case True
    then show ?thesis
      using that [of 8] add [of 8] by (simp add: chk_size_def req_words_def MEM_REQ_RD_def MEM_REQ_WR_def MEM_REQ_SET_BIT_63_def word_less_nat_alt)
  next
    case False
    then have "chk_size r = Some (of_nat ((qw_bits (mr_tid r) + 1) * 8))"
      using assms(1) by (auto simp: chk_size_def chk_type_def)
    moreover have "req_words r = {unat (mr_addr r) ..< unat (mr_addr r) + (qw_bits (mr_tid r) + 1) * 8}"
      using False by (simp add: req_words_def mult.commute)
    ultimately show ?thesis
      using that [of "of_nat ((qw_bits (mr_tid r) + 1) * 8)"] add [OF k] by (simp only: word_less_nat_alt) simp
  qed
qed

lemma order_conflict_types: "chk_type n \<Longrightarrow> chk_type q \<Longrightarrow> order_conflict n q \<longleftrightarrow> mr_type n \<noteq> mr_type q"
  by (auto simp: order_conflict_def chk_type_def Let_def MEM_REQ_RD_def MEM_REQ_WR_def MEM_REQ_SET_BIT_63_def)

text \<open>
  C29: The order check: for two requests that ask for it, until six errors were reported, a pair is reported exactly when the requests are of different
  types (read, write, atomic) and the words of 8 bytes at which they ask for data have a byte in common. The check does not look at the size of a request:
  no two requests of different types with a byte in common that is loaded or stored are missed, when atomics ask for one word, and the report is exact for
  requests of the full size, while smaller ones may be reported that only share the word.
\<close>

theorem order_check_exact:
  assumes "mr_orderChk n" "mr_orderChk q" "errorCnt \<le> 5" "chk_type n" "chk_type q" "unat (mr_addr n) + 64 < 2 ^ 64" "unat (mr_addr q) + 64 < 2 ^ 64"
  shows "\<exists>reported. CheckMemReqOrdering n q (errorCnt, out) = Some (if reported then (errorCnt + 1, out @ [(n, q)]) else (errorCnt, out)) \<and>
    (reported \<longleftrightarrow> mr_type n \<noteq> mr_type q \<and> req_words n \<inter> req_words q \<noteq> {}) \<and>
    (atomic_word n \<and> atomic_word q \<and> mr_type n \<noteq> mr_type q \<and> req_bytes n \<inter> req_bytes q \<noteq> {} \<longrightarrow> reported) \<and>
    (atomic_word n \<and> atomic_word q \<and> mr_size n = 3 \<and> mr_size q = 3 \<longrightarrow> (reported \<longleftrightarrow> mr_type n \<noteq> mr_type q \<and> req_bytes n \<inter> req_bytes q \<noteq> {}))"
proof -
  obtain a where a: "chk_size n = Some a" "req_words n = {unat (mr_addr n) ..< unat (mr_addr n + a)}" "mr_addr n < mr_addr n + a"
    by (rule chk_size_bytes [OF assms(4,6)])
  obtain b where b: "chk_size q = Some b" "req_words q = {unat (mr_addr q) ..< unat (mr_addr q + b)}" "mr_addr q < mr_addr q + b"
    by (rule chk_size_bytes [OF assms(5,7)])
  have "req_words n \<inter> req_words q \<noteq> {} \<longleftrightarrow> \<not> (mr_addr q + b \<le> mr_addr n \<or> mr_addr n + a \<le> mr_addr q)"
    using a(2,3) b(2,3) by (auto simp: word_le_nat_alt word_less_nat_alt)
  then have run: "CheckMemReqOrdering n q (errorCnt, out) =
      Some (if mr_type n \<noteq> mr_type q \<and> req_words n \<inter> req_words q \<noteq> {} then (errorCnt + 1, out @ [(n, q)]) else (errorCnt, out))"
    using assms(1-3) order_conflict_types [OF assms(4,5)] a(1) b(1) by (auto simp: CheckMemReqOrdering_def Let_def)
  have "req_words n \<inter> req_words q \<noteq> {}" if "atomic_word n" "atomic_word q" "req_bytes n \<inter> req_bytes q \<noteq> {}"
    using bytes_in_words [OF that(1)] bytes_in_words [OF that(2)] that(3) by blast
  then show ?thesis
    using run full_words [of n] full_words [of q] by (intro exI [of _ "mr_type n \<noteq> mr_type q \<and> req_words n \<inter> req_words q \<noteq> {}"]) auto
qed

text \<open>A byte stored at 0x100 and a byte loaded from 0x104 share none and are reported.\<close>

definition chk_req :: "u32 \<Rightarrow> 2 word \<Rightarrow> 2 word \<Rightarrow> u64 \<Rightarrow> mem_req" where
  "chk_req tid ty sz a = \<lparr>mr_data = 0, mr_addr = a, mr_tid = tid, mr_type = ty, mr_host = False, mr_size = sz, mr_line = 4, mr_file = 0, mr_time = 20, mr_orderChk = True\<rparr>"

lemma order_check_small:
  "CheckMemReqOrdering (chk_req 0 MEM_REQ_RD 0 0x104) (chk_req 0 MEM_REQ_WR 0 0x100) (0, []) =
     Some (1, [(chk_req 0 MEM_REQ_RD 0 0x104, chk_req 0 MEM_REQ_WR 0 0x100)])"
  "req_bytes (chk_req 0 MEM_REQ_RD 0 0x104) \<inter> req_bytes (chk_req 0 MEM_REQ_WR 0 0x100) = {}"
  by (auto simp: CheckMemReqOrdering_def chk_req_def chk_size_def order_conflict_def req_bytes_def size_bytes_def
      MEM_REQ_RD_def MEM_REQ_WR_def MEM_REQ_SET_BIT_63_def Let_def)

lemma order_check_exact_witness:
  "CheckMemReqOrdering (chk_req 7 MEM_REQ_RD 3 0x100) (chk_req 0 MEM_REQ_WR 3 0x138) (5, []) =
     Some (6, [(chk_req 7 MEM_REQ_RD 3 0x100, chk_req 0 MEM_REQ_WR 3 0x138)])"
proof -
  have "req_words (chk_req 7 MEM_REQ_RD 3 0x100) \<inter> req_words (chk_req 0 MEM_REQ_WR 3 0x138) = {0x138 ..< 0x140}"
    by (auto simp: req_words_def chk_req_def MEM_REQ_RD_def MEM_REQ_WR_def MEM_REQ_SET_BIT_63_def)
  moreover have "mr_type (chk_req 7 MEM_REQ_RD 3 0x100) \<noteq> mr_type (chk_req 0 MEM_REQ_WR 3 0x138)"
    by (simp add: chk_req_def MEM_REQ_RD_def MEM_REQ_WR_def)
  moreover have "\<exists>reported. CheckMemReqOrdering (chk_req 7 MEM_REQ_RD 3 0x100) (chk_req 0 MEM_REQ_WR 3 0x138) (5, []) =
      Some (if reported then (5 + 1, [] @ [(chk_req 7 MEM_REQ_RD 3 0x100, chk_req 0 MEM_REQ_WR 3 0x138)]) else (5, [])) \<and>
    (reported \<longleftrightarrow> mr_type (chk_req 7 MEM_REQ_RD 3 0x100) \<noteq> mr_type (chk_req 0 MEM_REQ_WR 3 0x138) \<and>
      req_words (chk_req 7 MEM_REQ_RD 3 0x100) \<inter> req_words (chk_req 0 MEM_REQ_WR 3 0x138) \<noteq> {})"
    using order_check_exact [of "chk_req 7 MEM_REQ_RD 3 0x100" "chk_req 0 MEM_REQ_WR 3 0x138" 5 "[]"]
    by (simp add: chk_req_def chk_type_def)
  ultimately show ?thesis
    by auto
qed

section \<open>Requests are served once\<close>

text \<open>What the input says: the requests in their order, a write with its words. \<open>cur\<close> is a write whose words are still coming.\<close>

type_synonym mem_job = "mem_req \<times> u64 list"

definition req_cnt :: "mem_cfg \<Rightarrow> mem_req \<Rightarrow> nat" where
  "req_cnt c r = (if mc_hc1 c then 1 else qw_bits (mr_tid r) + 1)"

definition req_word :: "mem_cfg \<Rightarrow> mem_job option \<Rightarrow> mem_in \<Rightarrow> mem_job list \<times> mem_job option" where
  "req_word c cur i = (if \<not> mi_reqRdy i then ([], cur)
     else case cur of
       None \<Rightarrow> if mr_type (mi_req i) \<noteq> MEM_REQ_WR then ([(mi_req i, [])], None)
         else if req_cnt c (mi_req i) = 1 then ([(mi_req i, [mr_data (mi_req i)])], None) else ([], Some (mi_req i, [mr_data (mi_req i)]))
     | Some (r, ds) \<Rightarrow> if req_cnt c r = length ds + 1 then ([(r, ds @ [mr_data (mi_req i)])], None) else ([], Some (r, ds @ [mr_data (mi_req i)])))"

primrec requests :: "mem_cfg \<Rightarrow> mem_job option \<Rightarrow> mem_in list \<Rightarrow> mem_job list \<times> mem_job option" where
  "requests c cur [] = ([], cur)"
| "requests c cur (i # is) = (case req_word c cur i of (js, cur) \<Rightarrow> case requests c cur is of (js', cur) \<Rightarrow> (js @ js', cur))"

text \<open>What the state holds: requests that wait, and the words of the one that is being read.\<close>

definition job_of :: "req_time \<Rightarrow> mem_job" where
  "job_of p = (rq_req p, if mr_type (rq_req p) = MEM_REQ_WR then take (rq_reqQwCnt p) (rq_data p) else [])"

definition pending :: "sysc_mem \<Rightarrow> mem_job multiset" where
  "pending s = image_mset job_of (mset (sm_memReqQue s) + mset (slots (sm_rdReqValid s) (sm_rdReqList s)) + mset (slots (sm_wrReqValid s) (sm_wrReqList s)))"

definition collecting :: "sysc_mem \<Rightarrow> mem_job option" where
  "collecting s = map_option (\<lambda>p. (rq_req p, take (sm_wrDataIdx s) (rq_data p))) (sm_pReqTime s)"

definition rsp_tids :: "mem_cfg \<Rightarrow> mem_job \<Rightarrow> u32 list" where
  "rsp_tids c j = map (rsp_tid (mr_tid (fst j))) [0..<req_cnt c (fst j)]"

definition rd_partial :: "sysc_mem \<Rightarrow> u32 list" where
  "rd_partial s = map (rsp_tid (mr_tid (rq_req (sm_rdReqList s (sm_prevReqIdx s))))) [0..<sm_rdReqQwIdx s]"

definition wr_partial :: "sysc_mem \<Rightarrow> u32 list" where
  "wr_partial s = (if sm_wrReqQwIdx s = 0 then [] else [rsp_tid (mr_tid (rq_req (sm_wrReqList s (sm_prevReqIdx s)))) 0])"

definition req_good :: "mem_cfg \<Rightarrow> req_time \<Rightarrow> bool" where
  "req_good c p \<longleftrightarrow> rq_reqQwCnt p = req_cnt c (rq_req p) \<and> length (rq_data p) = 8"

text \<open>The invariant, for the reads and for the writes (\<open>w\<close>) apart: the slots in use hold good requests, and a request that is partly served is held.\<close>

definition side_inv :: "mem_cfg \<Rightarrow> bool \<Rightarrow> u32 \<Rightarrow> (nat \<Rightarrow> req_time) \<Rightarrow> nat \<Rightarrow> nat \<Rightarrow> bool \<Rightarrow> nat \<Rightarrow> nat \<Rightarrow> bool" where
  "side_inv c w valid list cnt rr hold prev qw \<longleftrightarrow>
     (\<forall>p\<in>set (slots valid list). req_good c p \<and> (mr_type (rq_req p) = MEM_REQ_WR \<longleftrightarrow> w)) \<and> cnt = length (slots valid list) \<and> rr < slot_cnt \<and>
     (hold \<longleftrightarrow> qw \<noteq> 0) \<and> (hold \<longrightarrow> prev < slot_cnt \<and> bit valid prev \<and> qw < rq_reqQwCnt (list prev))"

definition collect_inv :: "mem_cfg \<Rightarrow> req_time option \<Rightarrow> nat \<Rightarrow> bool" where
  "collect_inv c r k = (case r of None \<Rightarrow> k = 0 | Some p \<Rightarrow> req_good c p \<and> mr_type (rq_req p) = MEM_REQ_WR \<and> 0 < k \<and> k < rq_reqQwCnt p)"

definition mem_inv :: "mem_cfg \<Rightarrow> sysc_mem \<Rightarrow> bool" where
  "mem_inv c s \<longleftrightarrow> length (mc_raw c) = 8 \<and> (\<forall>p\<in>set (sm_memReqQue s). req_good c p) \<and>
     side_inv c False (sm_rdReqValid s) (sm_rdReqList s) (sm_rdReqCnt s) (sm_rdReqRr s) (sm_bRdReqHold s) (sm_prevReqIdx s) (sm_rdReqQwIdx s) \<and>
     side_inv c True (sm_wrReqValid s) (sm_wrReqList s) (sm_wrReqCnt s) (sm_wrReqRr s) (sm_bWrReqHold s) (sm_prevReqIdx s) (sm_wrReqQwIdx s) \<and>
     collect_inv c (sm_pReqTime s) (sm_wrDataIdx s)"

lemma mset_slots: "mset (slots v l) = image_mset l (mset_set {k. k < slot_cnt \<and> bit v k})"
proof -
  have "mset (filter (bit v) [0..<slot_cnt]) = mset_set {k. k < slot_cnt \<and> bit v k}"
    by (simp only: mset_filter mset_upt filter_mset_mset_set finite_atLeastLessThan) (rule arg_cong [where f = mset_set], auto)
  then show ?thesis
    by (simp add: slots_def)
qed

lemma set_slots: "p \<in> set (slots v l) \<longleftrightarrow> (\<exists>k. k < slot_cnt \<and> bit v k \<and> p = l k)"
  by (auto simp: slots_def)

lemma slots_set_bit:
  assumes "\<not> bit v k" "k < slot_cnt"
  shows "mset (slots (set_bit k v) (l(k := p))) = add_mset p (mset (slots v l))"
proof -
  have "{j. j < slot_cnt \<and> bit (set_bit k v) j} = insert k {j. j < slot_cnt \<and> bit v j}"
    using assms(2) by (auto simp: bit_simps)
  then have "mset (slots (set_bit k v) (l(k := p))) = add_mset p (image_mset (l(k := p)) (mset_set {j. j < slot_cnt \<and> bit v j}))"
    using assms(1) by (simp add: mset_slots)
  also have "image_mset (l(k := p)) (mset_set {j. j < slot_cnt \<and> bit v j}) = image_mset l (mset_set {j. j < slot_cnt \<and> bit v j})"
    using assms(1) by (intro image_mset_cong) auto
  finally show ?thesis
    unfolding mset_slots [of v l] .
qed

lemma slots_unset_bit:
  assumes "bit v k" "k < slot_cnt"
  shows "mset (slots v l) = add_mset (l k) (mset (slots (unset_bit k v) l))"
proof -
  have "{j. j < slot_cnt \<and> bit v j} = insert k {j. j < slot_cnt \<and> bit (unset_bit k v) j}" "k \<notin> {j. j < slot_cnt \<and> bit (unset_bit k v) j}"
    using assms by (auto simp: bit_simps)
  then show ?thesis
    by (simp add: mset_slots)
qed

lemma find_slot_result: "find_slot n v rr = (rr', found) \<Longrightarrow> rr < slot_cnt \<Longrightarrow> rr' < slot_cnt \<and> (found \<longrightarrow> \<not> bit v rr')"
proof (induction n arbitrary: rr)
  case (Suc n)
  then show ?case
    using Suc.IH [of "(rr + 1) mod slot_cnt"] by (cases "bit v rr") simp_all
qed simp

lemma side_insert:
  assumes "side_inv c w v l n rr hold prev qw" "find_slot slot_cnt v rr = (rr', True)" "req_good c p" "mr_type (rq_req p) = MEM_REQ_WR \<longleftrightarrow> w"
  shows "side_inv c w (set_bit rr' v) (l(rr' := p)) (n + 1) rr' hold prev qw"
    "mset (slots (set_bit rr' v) (l(rr' := p))) = add_mset p (mset (slots v l))" "hold \<Longrightarrow> (l(rr' := p)) prev = l prev"
proof -
  have rr: "rr' < slot_cnt" "\<not> bit v rr'"
    using find_slot_result [OF assms(2)] assms(1) by (simp_all add: side_inv_def)
  show m: "mset (slots (set_bit rr' v) (l(rr' := p))) = add_mset p (mset (slots v l))"
    by (rule slots_set_bit [OF rr(2,1)])
  show h: "(l(rr' := p)) prev = l prev" if hold
    using that assms(1) rr(2) by (auto simp: side_inv_def)
  have "set (slots (set_bit rr' v) (l(rr' := p))) = insert p (set (slots v l))"
    by (metis m set_mset_add_mset_insert set_mset_mset)
  moreover have "length (slots (set_bit rr' v) (l(rr' := p))) = Suc (length (slots v l))"
    by (metis m size_add_mset size_mset)
  ultimately show "side_inv c w (set_bit rr' v) (l(rr' := p)) (n + 1) rr' hold prev qw"
    using assms(1,3,4) rr h by (auto simp: side_inv_def bit_simps)
qed

lemma side_rr: "side_inv c w v l n rr hold prev qw \<Longrightarrow> find_slot slot_cnt v rr = (rr', found) \<Longrightarrow> side_inv c w v l n rr' hold prev qw"
  using find_slot_result [of slot_cnt v rr rr' found] by (simp add: side_inv_def)

lemma side_serve:
  assumes "side_inv c w v l n rr hold prev qw" "idx < slot_cnt" "bit v idx" "hold \<longrightarrow> prev = idx"
  shows "rq_reqQwCnt (l idx) = qw + 1 \<Longrightarrow> side_inv c w (unset_bit idx v) l (n - 1) rr False prev' 0"
    "rq_reqQwCnt (l idx) = qw + 1 \<Longrightarrow> mset (slots v l) = add_mset (l idx) (mset (slots (unset_bit idx v) l))"
    "rq_reqQwCnt (l idx) \<noteq> qw + 1 \<Longrightarrow> side_inv c w v l n rr True idx (qw + 1)"
    "qw < rq_reqQwCnt (l idx)" "req_good c (l idx)" "mr_type (rq_req (l idx)) = MEM_REQ_WR \<longleftrightarrow> w"
proof -
  have m: "mset (slots v l) = add_mset (l idx) (mset (slots (unset_bit idx v) l))"
    by (rule slots_unset_bit [OF assms(3,2)])
  then show "mset (slots v l) = add_mset (l idx) (mset (slots (unset_bit idx v) l))" .
  have s: "set (slots v l) = insert (l idx) (set (slots (unset_bit idx v) l))"
    by (metis m set_mset_add_mset_insert set_mset_mset)
  have n: "length (slots v l) = Suc (length (slots (unset_bit idx v) l))"
    by (metis m size_add_mset size_mset)
  show "side_inv c w (unset_bit idx v) l (n - 1) rr False prev' 0"
    using assms(1) s n by (auto simp: side_inv_def)
  show g: "req_good c (l idx)" "mr_type (rq_req (l idx)) = MEM_REQ_WR \<longleftrightarrow> w"
    using assms(1) s by (auto simp: side_inv_def)
  show q: "qw < rq_reqQwCnt (l idx)"
  proof (cases "qw = 0")
    case True
    then show ?thesis
      using g(1) by (simp add: req_good_def req_cnt_def)
  next
    case False
    then show ?thesis
      using assms(1,4) by (auto simp: side_inv_def)
  qed
  show "side_inv c w v l n rr True idx (qw + 1)" if "rq_reqQwCnt (l idx) \<noteq> qw + 1"
    using assms(1-3) q that by (auto simp: side_inv_def)
qed

lemma req_cnt_bounds: "0 < req_cnt c r" "req_cnt c r \<le> 8"
  using qw_bits_le [of "mr_tid r"] by (simp_all add: req_cnt_def)

lemma new_req_ok:
  assumes "mem_inv c s" "sm_pReqTime s = None" "new_req c req now s = Some s1"
  obtains p pe where "s1 = s\<lparr>sm_placementErrorCnt := pe, sm_pReqTime := Some p, sm_wrDataIdx := (if mr_type req = MEM_REQ_WR then 1 else 0)\<rparr>"
    "rq_req p = req" "req_good c p" "mr_type req = MEM_REQ_WR \<longrightarrow> take 1 (rq_data p) = [mr_data req]"
proof -
  have i: "sm_wrDataIdx s = 0" "length (mc_raw c) = 8"
    using assms(1,2) by (simp_all add: mem_inv_def collect_inv_def)
  then have t: "take (Suc 0) ((mc_raw c)[0 := v]) = [v]" for v
    by (cases "mc_raw c") simp_all
  let ?d = "if mr_type req = MEM_REQ_WR then (mc_raw c)[0 := mr_data req] else mc_raw c"
  let ?host = "addr_host (mr_addr req) (sm_ranges s)"
  let ?cnt = "req_cnt c req"
  let ?pe = "if 1 < ?cnt \<and> ?host \<noteq> mr_host req then sm_placementErrorCnt s + 1 else sm_placementErrorCnt s"
  let ?p = "\<lparr>rq_req = req, rq_time = now, rq_host = ?host, rq_reqQwCnt = ?cnt, rq_data = ?d\<rparr>"
  have w: "(if 1 < ?cnt \<and> ?host \<noteq> mr_host req then s\<lparr>sm_placementErrorCnt := sm_placementErrorCnt s + 1\<rparr> else s) = s\<lparr>sm_placementErrorCnt := ?pe\<rparr>"
    by simp
  have "s1 = s\<lparr>sm_placementErrorCnt := ?pe, sm_pReqTime := Some ?p, sm_wrDataIdx := (if mr_type req = MEM_REQ_WR then 1 else 0)\<rparr>"
    using assms(3) unfolding new_req_def Let_def req_cnt_def [symmetric] qw_store_def w
    by (cases "mr_type req = MEM_REQ_WR") (simp_all only: i if_True if_False, auto split: Option.bind_splits if_splits)
  moreover have "req_good c ?p"
    using i(2) by (simp add: req_good_def)
  ultimately show ?thesis
    by (intro that [of ?p ?pe]) (use t in simp_all)
qed

text \<open>A step of the input: \<open>js\<close> are the requests that are complete with this word.\<close>

definition same_slots :: "sysc_mem \<Rightarrow> sysc_mem \<Rightarrow> bool" where
  "same_slots s s' \<longleftrightarrow> sm_rdReqList s' = sm_rdReqList s \<and> sm_wrReqList s' = sm_wrReqList s \<and> sm_rdReqValid s' = sm_rdReqValid s \<and> sm_wrReqValid s' = sm_wrReqValid s \<and>
     sm_rdReqRr s' = sm_rdReqRr s \<and> sm_wrReqRr s' = sm_wrReqRr s \<and> sm_rdReqCnt s' = sm_rdReqCnt s \<and> sm_wrReqCnt s' = sm_wrReqCnt s \<and>
     sm_bRdReqHold s' = sm_bRdReqHold s \<and> sm_bWrReqHold s' = sm_bWrReqHold s \<and> sm_prevReqIdx s' = sm_prevReqIdx s \<and>
     sm_rdReqQwIdx s' = sm_rdReqQwIdx s \<and> sm_wrReqQwIdx s' = sm_wrReqQwIdx s"

lemma queue_req_ok:
  assumes "queue_req p s1 = Some s'"
  obtains ord where "s' = s1\<lparr>sm_order := ord, sm_memReqQue := sm_memReqQue s1 @ [p], sm_pReqTime := None, sm_wrDataIdx := 0\<rparr>"
  using assms by (auto simp: queue_req_def split: Option.bind_splits)

lemma take_req_ok:
  assumes "mem_inv c s" "take_req c i s = Some s'" "req_word c (collecting s) i = (js, cur)"
  shows "same_slots s s' \<and> mem_inv c s' \<and> pending s' = pending s + mset js \<and> collecting s' = cur"
proof (cases "mi_reqRdy i")
  case False
  then show ?thesis
    using assms by (simp add: take_req_def req_word_def same_slots_def)
next
  case rdy: True
  show ?thesis
  proof (cases "sm_pReqTime s")
    case None
    then obtain s1 where s1: "new_req c (mi_req i) (mi_now i) s = Some s1"
      using assms(2) rdy by (auto simp: take_req_def split: Option.bind_splits)
    obtain p pe where p: "s1 = s\<lparr>sm_placementErrorCnt := pe, sm_pReqTime := Some p, sm_wrDataIdx := (if mr_type (mi_req i) = MEM_REQ_WR then 1 else 0)\<rparr>"
        "rq_req p = mi_req i" "req_good c p" "mr_type (mi_req i) = MEM_REQ_WR \<longrightarrow> take 1 (rq_data p) = [mr_data (mi_req i)]"
      by (rule new_req_ok [OF assms(1) None s1])
    have cnt: "rq_reqQwCnt p = req_cnt c (mi_req i)"
      using p(2,3) by (simp add: req_good_def)
    show ?thesis
    proof (cases "mr_type (mi_req i) \<noteq> MEM_REQ_WR \<or> req_cnt c (mi_req i) = 1")
      case True
      then have "queue_req p s1 = Some s'"
        using assms(2) rdy None s1 p(1,2) cnt by (auto simp: take_req_def split: if_splits)
      then obtain ord where "s' = s1\<lparr>sm_order := ord, sm_memReqQue := sm_memReqQue s1 @ [p], sm_pReqTime := None, sm_wrDataIdx := 0\<rparr>"
        by (rule queue_req_ok)
      moreover have "job_of p = (mi_req i, if mr_type (mi_req i) = MEM_REQ_WR then [mr_data (mi_req i)] else [])"
        using True p(2,4) cnt by (auto simp: job_of_def)
      moreover have "js = [(mi_req i, if mr_type (mi_req i) = MEM_REQ_WR then [mr_data (mi_req i)] else [])]" "cur = None"
        using assms(3) rdy None True by (auto simp: req_word_def collecting_def split: if_splits)
      ultimately show ?thesis
        using assms(1) p(1,3) by (simp add: same_slots_def mem_inv_def collect_inv_def pending_def collecting_def)
    next
      case False
      then have "s' = s1"
        using assms(2) rdy None s1 p(1,2) cnt by (auto simp: take_req_def split: if_splits)
      moreover have "js = []" "cur = Some (mi_req i, [mr_data (mi_req i)])"
        using assms(3) rdy None False by (auto simp: req_word_def collecting_def split: if_splits)
      moreover have "1 < req_cnt c (mi_req i)"
        using False req_cnt_bounds(1) [of c "mi_req i"] by simp
      ultimately show ?thesis
        using assms(1) p cnt False by (simp add: same_slots_def mem_inv_def collect_inv_def pending_def collecting_def)
    qed
  next
    case (Some p)
    then have p: "req_good c p" "mr_type (rq_req p) = MEM_REQ_WR" "0 < sm_wrDataIdx s" "sm_wrDataIdx s < rq_reqQwCnt p"
      using assms(1) by (simp_all add: mem_inv_def collect_inv_def)
    have len: "length (rq_data p) = 8" and cnt: "rq_reqQwCnt p = req_cnt c (rq_req p)"
      using p(1) by (simp_all add: req_good_def)
    then have k: "sm_wrDataIdx s < length (rq_data p)"
      using p(4) req_cnt_bounds(2) [of c "rq_req p"] by simp
    let ?d = "mr_data (mi_req i)"
    let ?p = "p\<lparr>rq_data := (rq_data p)[sm_wrDataIdx s := ?d]\<rparr>"
    let ?s1 = "s\<lparr>sm_pReqTime := Some ?p, sm_wrDataIdx := sm_wrDataIdx s + 1\<rparr>"
    have tk: "take (Suc (sm_wrDataIdx s)) ((rq_data p)[sm_wrDataIdx s := ?d]) = take (sm_wrDataIdx s) (rq_data p) @ [?d]"
      using k by (simp add: take_Suc_conv_app_nth)
    have good: "req_good c ?p"
      using p(1) by (simp add: req_good_def)
    have step: "(if sm_wrDataIdx s + 1 = rq_reqQwCnt p then queue_req ?p ?s1 else Some ?s1) = Some s'"
      using assms(2) rdy Some k p(2) by (cases "sm_wrDataIdx s + 1 = rq_reqQwCnt p") (simp_all add: take_req_def qw_store_def)
    have coll: "collecting s = Some (rq_req p, take (sm_wrDataIdx s) (rq_data p))"
      by (simp add: collecting_def Some)
    have lk: "length (take (sm_wrDataIdx s) (rq_data p)) = sm_wrDataIdx s"
      using k by simp
    show ?thesis
    proof (cases "sm_wrDataIdx s + 1 = rq_reqQwCnt p")
      case True
      then have "queue_req ?p ?s1 = Some s'"
        using step by simp
      then obtain ord where "s' = ?s1\<lparr>sm_order := ord, sm_memReqQue := sm_memReqQue ?s1 @ [?p], sm_pReqTime := None, sm_wrDataIdx := 0\<rparr>"
        by (rule queue_req_ok)
      moreover have "job_of ?p = (rq_req p, take (sm_wrDataIdx s) (rq_data p) @ [?d])"
        using p(2) tk True by (simp add: job_of_def)
      moreover have "js = [(rq_req p, take (sm_wrDataIdx s) (rq_data p) @ [?d])]" "cur = None"
        using assms(3) rdy True cnt lk by (auto simp: req_word_def coll)
      ultimately show ?thesis
        using assms(1) good by (simp add: same_slots_def mem_inv_def collect_inv_def pending_def collecting_def)
    next
      case False
      then have "s' = ?s1"
        using step by simp
      moreover have "js = []" "cur = Some (rq_req p, take (sm_wrDataIdx s) (rq_data p) @ [?d])"
        using assms(3) rdy False cnt lk by (auto simp: req_word_def coll)
      ultimately show ?thesis
        using assms(1) good False p(2,4) tk by (simp add: same_slots_def mem_inv_def collect_inv_def pending_def collecting_def)
    qed
  qed
qed

lemma insert_req_ok:
  assumes "mem_inv c s"
  shows "mem_inv c (insert_req c now s) \<and> pending (insert_req c now s) = pending s \<and> collecting (insert_req c now s) = collecting s \<and>
    rd_partial (insert_req c now s) = rd_partial s \<and> wr_partial (insert_req c now s) = wr_partial s"
proof (cases "sm_memReqQue s")
  case Nil
  then show ?thesis
    using assms by (simp add: insert_req_def)
next
  case (Cons p ps)
  have good: "req_good c p" and rd: "side_inv c False (sm_rdReqValid s) (sm_rdReqList s) (sm_rdReqCnt s) (sm_rdReqRr s) (sm_bRdReqHold s) (sm_prevReqIdx s) (sm_rdReqQwIdx s)"
    and wr: "side_inv c True (sm_wrReqValid s) (sm_wrReqList s) (sm_wrReqCnt s) (sm_wrReqRr s) (sm_bWrReqHold s) (sm_prevReqIdx s) (sm_wrReqQwIdx s)"
    using assms Cons by (simp_all add: mem_inv_def)
  have hold: "sm_bRdReqHold s \<longleftrightarrow> sm_rdReqQwIdx s \<noteq> 0" "sm_bWrReqHold s \<longleftrightarrow> sm_wrReqQwIdx s \<noteq> 0"
    using rd wr by (simp_all add: side_inv_def)
  show ?thesis
  proof (cases "req_due c now p")
    case False
    then show ?thesis
      using assms Cons by (simp add: insert_req_def)
  next
    case due: True
    show ?thesis
    proof (cases "mr_type (rq_req p) = MEM_REQ_WR")
      case True
      obtain rr found where f: "find_slot slot_cnt (sm_wrReqValid s) (sm_wrReqRr s) = (rr, found)"
        by (metis surj_pair)
      show ?thesis
      proof (cases found)
        case False
        then show ?thesis
          using assms Cons due True f side_rr [OF wr f] by (simp add: insert_req_def mem_inv_def pending_def collecting_def rd_partial_def wr_partial_def)
      next
        case found: True
        have f': "find_slot slot_cnt (sm_wrReqValid s) (sm_wrReqRr s) = (rr, True)"
          using f found by simp
        note i = side_insert [OF wr f' good]
        show ?thesis
          using assms Cons due True f found i hold by (auto simp: insert_req_def mem_inv_def pending_def collecting_def rd_partial_def wr_partial_def)
      qed
    next
      case False
      obtain rr found where f: "find_slot slot_cnt (sm_rdReqValid s) (sm_rdReqRr s) = (rr, found)"
        by (metis surj_pair)
      show ?thesis
      proof (cases found)
        case notfound: False
        then show ?thesis
          using assms Cons due False f side_rr [OF rd f] by (simp add: insert_req_def mem_inv_def pending_def collecting_def rd_partial_def wr_partial_def)
      next
        case found: True
        have f': "find_slot slot_cnt (sm_rdReqValid s) (sm_rdReqRr s) = (rr, True)"
          using f found by simp
        note i = side_insert [OF rd f' good]
        show ?thesis
          using assms Cons due False f found i hold by (auto simp: insert_req_def mem_inv_def pending_def collecting_def rd_partial_def wr_partial_def)
      qed
    qed
  qed
qed

lemma pick_slot_ok:
  assumes "mem_inv c s" "pick_slot c s = Some (idx, s')"
  shows "mem_inv c s' \<and> pending s' = pending s \<and> collecting s' = collecting s \<and> rd_partial s' = rd_partial s \<and> wr_partial s' = wr_partial s \<and>
    idx < slot_cnt \<and> sm_prevReqIdx s' = idx"
proof (cases "sm_bRdReqHold s \<or> sm_bWrReqHold s")
  case True
  then show ?thesis
    using assms by (auto simp: pick_slot_def mem_inv_def side_inv_def)
next
  case False
  then obtain x r where x: "s' = s\<lparr>sm_rnd := r, sm_prevReqIdx := idx\<rparr>" "idx = unat (x AND 31 :: u32)"
    using assms(2) by (auto simp: pick_slot_def Let_def split: Option.bind_splits)
  have "x AND 31 \<le> 31"
    by (metis word_and_le1)
  then have "idx < slot_cnt"
    by (simp add: x(2) word_le_nat_alt)
  moreover have "sm_rdReqQwIdx s = 0" "sm_wrReqQwIdx s = 0"
    using assms(1) False by (auto simp: mem_inv_def side_inv_def)
  ultimately show ?thesis
    using assms(1) False x by (auto simp: mem_inv_def side_inv_def pending_def collecting_def rd_partial_def wr_partial_def)
qed

lemma serve_read_ok:
  assumes "mem_inv c s" "sm_prevReqIdx s = idx" "idx < slot_cnt" "serve_read c i idx s = Some (rd, s')"
  shows "\<exists>js. mem_inv c s' \<and> sm_prevReqIdx s' = idx \<and> collecting s' = collecting s \<and> wr_partial s' = wr_partial s \<and> pending s = pending s' + mset js \<and>
    (\<forall>j\<in>set js. mr_type (fst j) \<noteq> MEM_REQ_WR) \<and>
    rd_partial s @ (case rd of None \<Rightarrow> [] | Some r \<Rightarrow> [fst r]) = concat (map (rsp_tids c) js) @ rd_partial s'"
proof (cases "\<not> mi_rdRspFull i \<and> sm_rdReqCnt s \<noteq> 0 \<and> sm_wrReqCnt s \<noteq> slot_cnt \<and> bit (sm_rdReqValid s) idx")
  case False
  then show ?thesis
    using assms by (intro exI [of _ "[]"]) (auto simp: serve_read_def)
next
  case True
  let ?p = "sm_rdReqList s idx"
  let ?k = "sm_rdReqQwIdx s"
  have side: "side_inv c False (sm_rdReqValid s) (sm_rdReqList s) (sm_rdReqCnt s) (sm_rdReqRr s) (sm_bRdReqHold s) idx ?k"
    using assms(1,2) by (simp add: mem_inv_def)
  note v = side_serve [OF side assms(3) _ impI [OF refl]]
  have bit: "bit (sm_rdReqValid s) idx"
    using True by simp
  obtain mem mon data where s': "rd = Some (rsp_tid (mr_tid (rq_req ?p)) ?k, data)"
      "s' = (if rq_reqQwCnt ?p = ?k + 1 then s\<lparr>sm_mem := mem, sm_mon := mon, sm_rdReqCnt := sm_rdReqCnt s - 1, sm_rdReqValid := unset_bit idx (sm_rdReqValid s), sm_rdReqQwIdx := 0, sm_bRdReqHold := False\<rparr>
        else s\<lparr>sm_mem := mem, sm_mon := mon, sm_rdReqQwIdx := ?k + 1, sm_bRdReqHold := True\<rparr>)"
  proof (cases "mr_type (rq_req ?p) = MEM_REQ_RD \<or> mr_type (rq_req ?p) = MEM_REQ_SET_BIT_63")
    case False
    then show ?thesis
      using assms(4) True by (simp add: serve_read_def Let_def)
  next
    case type: True
    have "s' = (if rq_reqQwCnt ?p = ?k + 1 then s\<lparr>sm_mem := sm_mem s', sm_mon := sm_mon s', sm_rdReqCnt := sm_rdReqCnt s - 1, sm_rdReqValid := unset_bit idx (sm_rdReqValid s), sm_rdReqQwIdx := 0, sm_bRdReqHold := False\<rparr>
        else s\<lparr>sm_mem := sm_mem s', sm_mon := sm_mon s', sm_rdReqQwIdx := ?k + 1, sm_bRdReqHold := True\<rparr>)"
      and "\<exists>data. rd = Some (rsp_tid (mr_tid (rq_req ?p)) ?k, data)"
      using assms(4) type unfolding serve_read_def if_P [OF True] Let_def
      by (cases "rq_reqQwCnt ?p = ?k + 1"; cases "mr_type (rq_req ?p) = MEM_REQ_RD"; auto)+
    then show ?thesis
      using that by blast
  qed
  show ?thesis
  proof (cases "rq_reqQwCnt ?p = ?k + 1")
    case last: True
    have "rd_partial s @ [rsp_tid (mr_tid (rq_req ?p)) ?k] = rsp_tids c (job_of ?p)"
    proof -
      have "req_cnt c (rq_req ?p) = Suc ?k"
        using last v(5) [OF bit] by (simp add: req_good_def)
      then show ?thesis
        by (simp add: rd_partial_def assms(2) rsp_tids_def job_of_def)
    qed
    then show ?thesis
      using assms(1,2) s' last v [OF bit] by (intro exI [of _ "[job_of ?p]"]) (simp add: mem_inv_def collecting_def wr_partial_def pending_def rd_partial_def job_of_def)
  next
    case more: False
    then show ?thesis
      using assms(1,2) s' v [OF bit] by (intro exI [of _ "[]"]) (simp add: mem_inv_def collecting_def wr_partial_def pending_def rd_partial_def)
  qed
qed

lemma serve_write_ok:
  assumes "mem_inv c s" "sm_prevReqIdx s = idx" "idx < slot_cnt" "serve_write c i idx s = Some (wr, s')"
  shows "\<exists>js. mem_inv c s' \<and> sm_prevReqIdx s' = idx \<and> collecting s' = collecting s \<and> rd_partial s' = rd_partial s \<and> pending s = pending s' + mset js \<and>
    (\<forall>j\<in>set js. mr_type (fst j) = MEM_REQ_WR) \<and>
    wr_partial s @ (case wr of None \<Rightarrow> [] | Some t \<Rightarrow> [t]) = map (\<lambda>j. rsp_tid (mr_tid (fst j)) 0) js @ wr_partial s'"
proof (cases "\<not> mi_wrRspFull i \<and> sm_wrReqCnt s \<noteq> 0 \<and> bit (sm_wrReqValid s) idx")
  case False
  then show ?thesis
    using assms by (intro exI [of _ "[]"]) (auto simp: serve_write_def)
next
  case True
  let ?p = "sm_wrReqList s idx"
  let ?k = "sm_wrReqQwIdx s"
  have side: "side_inv c True (sm_wrReqValid s) (sm_wrReqList s) (sm_wrReqCnt s) (sm_wrReqRr s) (sm_bWrReqHold s) idx ?k"
    using assms(1,2) by (simp add: mem_inv_def)
  note v = side_serve [OF side assms(3) _ impI [OF refl]]
  have bit: "bit (sm_wrReqValid s) idx"
    using True by simp
  obtain mem mon where s': "wr = (if ?k = 0 then Some (rsp_tid (mr_tid (rq_req ?p)) 0) else None)"
      "s' = (if rq_reqQwCnt ?p = ?k + 1 then s\<lparr>sm_mem := mem, sm_mon := mon, sm_wrReqCnt := sm_wrReqCnt s - 1, sm_wrReqValid := unset_bit idx (sm_wrReqValid s), sm_wrReqQwIdx := 0, sm_bWrReqHold := False\<rparr>
        else s\<lparr>sm_mem := mem, sm_mon := mon, sm_wrReqQwIdx := ?k + 1, sm_bWrReqHold := True\<rparr>)"
    using assms(4) unfolding serve_write_def if_P [OF True] Let_def
    by (cases "rq_reqQwCnt ?p = ?k + 1"; cases "?k = 0") (auto intro: that split: Option.bind_splits)
  show ?thesis
  proof (cases "rq_reqQwCnt ?p = ?k + 1")
    case last: True
    then show ?thesis
      using assms(1,2) s' v [OF bit] by (intro exI [of _ "[job_of ?p]"]) (simp add: mem_inv_def collecting_def wr_partial_def pending_def rd_partial_def job_of_def)
  next
    case more: False
    then show ?thesis
      using assms(1,2) s' v [OF bit] by (intro exI [of _ "[]"]) (simp add: mem_inv_def collecting_def wr_partial_def pending_def rd_partial_def)
  qed
qed

lemma rnd_full_ok:
  assumes "rnd_full c s = Some (full, s')"
  obtains r k b where "s' = s\<lparr>sm_rnd := r, sm_reqRndFullCnt := k, sm_bReqRndFull := b\<rparr>"
proof -
  have "s' = s\<lparr>sm_rnd := sm_rnd s', sm_reqRndFullCnt := sm_reqRndFullCnt s', sm_bReqRndFull := sm_bReqRndFull s'\<rparr>"
    using assms by (auto simp: rnd_full_def split: if_splits Option.bind_splits)
  then show ?thesis
    by (rule that)
qed

lemma slots_step:
  assumes "mem_inv c s" "SyscMemLib_slots c i s = Some (out, s')" "\<not> mi_reset i" "req_word c (collecting s) i = (js, cur)"
  shows "\<exists>dr dw. mem_inv c s' \<and> collecting s' = cur \<and> pending s + mset js = pending s' + mset dr + mset dw \<and>
    (\<forall>j\<in>set dr. mr_type (fst j) \<noteq> MEM_REQ_WR) \<and> (\<forall>j\<in>set dw. mr_type (fst j) = MEM_REQ_WR) \<and>
    rd_partial s @ (case mo_rdRsp out of None \<Rightarrow> [] | Some r \<Rightarrow> [fst r]) = concat (map (rsp_tids c) dr) @ rd_partial s' \<and>
    wr_partial s @ (case mo_wrRspTid out of None \<Rightarrow> [] | Some t \<Rightarrow> [t]) = map (\<lambda>j. rsp_tid (mr_tid (fst j)) 0) dw @ wr_partial s'"
proof -
  obtain s1 idx s2 rd s3 wr s4 full s5 where r: "take_req c i s = Some s1" "pick_slot c (insert_req c (mi_now i) s1) = Some (idx, s2)"
      "serve_read c i idx s2 = Some (rd, s3)" "serve_write c i idx s3 = Some (wr, s4)" "rnd_full c s4 = Some (full, s5)"
      "out = \<lparr>mo_rdRsp = rd, mo_wrRspTid = wr, mo_reqFull = full\<rparr>" "s' = s5"
    using assms(2,3) by (auto simp: SyscMemLib_slots_def split: Option.bind_splits)
  have a: "same_slots s s1" "mem_inv c s1" "pending s1 = pending s + mset js" "collecting s1 = cur"
    using take_req_ok [OF assms(1) r(1) assms(4)] by blast+
  have p1: "rd_partial s1 = rd_partial s" "wr_partial s1 = wr_partial s"
    using a(1) by (simp_all add: same_slots_def rd_partial_def wr_partial_def)
  note b = insert_req_ok [OF a(2), of "mi_now i"]
  note d = pick_slot_ok [OF _ r(2)]
  have d: "mem_inv c s2" "pending s2 = pending s + mset js" "collecting s2 = cur" "rd_partial s2 = rd_partial s" "wr_partial s2 = wr_partial s"
      "idx < slot_cnt" "sm_prevReqIdx s2 = idx"
    using b d a p1 by simp_all
  obtain dr where e: "mem_inv c s3" "sm_prevReqIdx s3 = idx" "collecting s3 = cur" "wr_partial s3 = wr_partial s" "pending s2 = pending s3 + mset dr"
      "\<forall>j\<in>set dr. mr_type (fst j) \<noteq> MEM_REQ_WR" "rd_partial s2 @ (case rd of None \<Rightarrow> [] | Some r \<Rightarrow> [fst r]) = concat (map (rsp_tids c) dr) @ rd_partial s3"
    using serve_read_ok [OF d(1,7,6) r(3)] d by auto
  obtain dw where f: "mem_inv c s4" "sm_prevReqIdx s4 = idx" "collecting s4 = cur" "rd_partial s4 = rd_partial s3" "pending s3 = pending s4 + mset dw"
      "\<forall>j\<in>set dw. mr_type (fst j) = MEM_REQ_WR" "wr_partial s3 @ (case wr of None \<Rightarrow> [] | Some t \<Rightarrow> [t]) = map (\<lambda>j. rsp_tid (mr_tid (fst j)) 0) dw @ wr_partial s4"
    using serve_write_ok [OF e(1,2) d(6) r(4)] e by auto
  obtain q k b where g: "s5 = s4\<lparr>sm_rnd := q, sm_reqRndFullCnt := k, sm_bReqRndFull := b\<rparr>"
    by (rule rnd_full_ok [OF r(5)])
  have "mem_inv c s5" "collecting s5 = cur" "pending s5 = pending s4" "rd_partial s5 = rd_partial s4" "wr_partial s5 = wr_partial s4"
    using f(1,3) by (simp_all add: g mem_inv_def collecting_def pending_def rd_partial_def wr_partial_def)
  then show ?thesis
    using d e f r(6,7) by (intro exI [of _ dr] exI [of _ dw]) (simp add: ac_simps)
qed

text \<open>A clock returns when the input is legal: its checks are those of the code.\<close>

definition legal_in :: "mem_cfg \<Rightarrow> range_state \<Rightarrow> mem_in \<Rightarrow> bool" where
  "legal_in c rs i \<longleftrightarrow> (let r = mi_req i; host = addr_host (mr_addr r) rs in
     mi_reqRdy i \<longrightarrow> chk_type r \<and> \<not> addr_fatal (mr_addr r) rs \<and> \<not> (mc_hc2 c \<and> 1 < req_cnt c r \<and> (req_cnt c r \<noteq> 8 \<or> \<not> host)) \<and>
       (mr_type r = MEM_REQ_RD \<and> mr_tid r AND 7 \<noteq> 0 \<longrightarrow> mr_tid r AND 7 = 7 \<and> mr_addr r AND 0x3f = 0))"

definition types_ok :: "sysc_mem \<Rightarrow> bool" where
  "types_ok s \<longleftrightarrow> (\<forall>j\<in>#pending s. chk_type (fst j)) \<and> (\<forall>j. collecting s = Some j \<longrightarrow> chk_type (fst j))"

lemma check_all_runs: "chk_type r \<Longrightarrow> \<forall>q\<in>set qs. chk_type q \<Longrightarrow> \<exists>l'. check_all r qs l = Some l'"
proof (induction qs arbitrary: l)
  case (Cons q qs)
  have "\<exists>l'. CheckMemReqOrdering r q l = Some l'"
    using Cons.prems by (auto simp: CheckMemReqOrdering_def chk_size_def chk_type_def Let_def split: prod.splits)
  then show ?case
    using Cons by auto
qed simp

lemma pending_types:
  assumes "types_ok s"
  shows "p \<in> set (sm_memReqQue s) \<Longrightarrow> chk_type (rq_req p)" "p \<in> set (slots (sm_rdReqValid s) (sm_rdReqList s)) \<Longrightarrow> chk_type (rq_req p)"
    "p \<in> set (slots (sm_wrReqValid s) (sm_wrReqList s)) \<Longrightarrow> chk_type (rq_req p)"
proof -
  have "chk_type (fst (job_of p))" if "p \<in> set (sm_memReqQue s) \<or> p \<in> set (slots (sm_rdReqValid s) (sm_rdReqList s)) \<or> p \<in> set (slots (sm_wrReqValid s) (sm_wrReqList s))"
    using assms that by (auto simp: types_ok_def pending_def)
  then show "p \<in> set (sm_memReqQue s) \<Longrightarrow> chk_type (rq_req p)" "p \<in> set (slots (sm_rdReqValid s) (sm_rdReqList s)) \<Longrightarrow> chk_type (rq_req p)"
      "p \<in> set (slots (sm_wrReqValid s) (sm_wrReqList s)) \<Longrightarrow> chk_type (rq_req p)"
    by (simp_all add: job_of_def)
qed

lemma queue_req_runs:
  assumes "types_ok s" "chk_type (rq_req p)" "sm_memReqQue s1 = sm_memReqQue s" "same_slots s s1"
  shows "\<exists>s'. queue_req p s1 = Some s' \<and> sm_rnd s' = sm_rnd s1 \<and> sm_ranges s' = sm_ranges s1"
proof -
  have run: "\<exists>l'. check_all (rq_req p) (map rq_req qs) l = Some l'" if "\<forall>q\<in>set qs. chk_type (rq_req q)" for qs l
    using check_all_runs [OF assms(2), of "map rq_req qs" l] that by simp
  have q: "\<forall>q\<in>set (sm_memReqQue s1). chk_type (rq_req q)" "\<forall>q\<in>set (slots (sm_rdReqValid s1) (sm_rdReqList s1)). chk_type (rq_req q)"
    "\<forall>q\<in>set (slots (sm_wrReqValid s1) (sm_wrReqList s1)). chk_type (rq_req q)"
    using pending_types [OF assms(1)] assms(3,4) by (auto simp: same_slots_def)
  obtain l1 where l1: "check_all (rq_req p) (map rq_req (sm_memReqQue s1)) (sm_order s1) = Some l1"
    using run [OF q(1)] by blast
  obtain l2 where l2: "check_all (rq_req p) (map rq_req (slots (sm_rdReqValid s1) (sm_rdReqList s1))) l1 = Some l2"
    using run [OF q(2)] by blast
  obtain l3 where l3: "check_all (rq_req p) (map rq_req (slots (sm_wrReqValid s1) (sm_wrReqList s1))) l1 = Some l3"
    using run [OF q(3)] by blast
  show ?thesis
    by (cases "mr_type (rq_req p) = MEM_REQ_WR") (simp_all add: queue_req_def l1 l2 l3)
qed

lemma new_req_runs:
  assumes "mem_inv c s" "sm_pReqTime s = None" "legal_in c (sm_ranges s) i" "mi_reqRdy i"
  obtains s1 where "new_req c (mi_req i) now s = Some s1" "sm_rnd s1 = sm_rnd s" "sm_ranges s1 = sm_ranges s"
proof -
  have i: "sm_wrDataIdx s = 0" "length (mc_raw c) = 8"
    using assms(1,2) by (simp_all add: mem_inv_def collect_inv_def)
  have l: "\<not> addr_fatal (mr_addr (mi_req i)) (sm_ranges s)"
      "\<not> (mc_hc2 c \<and> 1 < req_cnt c (mi_req i) \<and> (req_cnt c (mi_req i) \<noteq> 8 \<or> \<not> addr_host (mr_addr (mi_req i)) (sm_ranges s)))"
      "mr_type (mi_req i) = MEM_REQ_RD \<and> mr_tid (mi_req i) AND 7 \<noteq> 0 \<longrightarrow> mr_tid (mi_req i) AND 7 = 7 \<and> mr_addr (mi_req i) AND 0x3f = 0"
    using assms(3,4) by (simp_all add: legal_in_def Let_def)
  have e: "ensure (\<not> addr_fatal (mr_addr (mi_req i)) (sm_ranges s)) = Some ()"
      "ensure (\<not> (mc_hc2 c \<and> 1 < req_cnt c (mi_req i) \<and> (req_cnt c (mi_req i) \<noteq> 8 \<or> \<not> addr_host (mr_addr (mi_req i)) (sm_ranges s)))) = Some ()"
      "ensure (mr_type (mi_req i) = MEM_REQ_RD \<and> mr_tid (mi_req i) AND 7 \<noteq> 0 \<longrightarrow> mr_tid (mi_req i) AND 7 = 7 \<and> mr_addr (mi_req i) AND 0x3f = 0) = Some ()"
    unfolding ensure_def by (rule if_P [OF l(1)], rule if_P [OF l(2)], rule if_P [OF l(3)])
  have "\<exists>s1. new_req c (mi_req i) now s = Some s1 \<and> sm_rnd s1 = sm_rnd s \<and> sm_ranges s1 = sm_ranges s"
    unfolding new_req_def Let_def req_cnt_def [symmetric] e qw_store_def using i
    by (cases "mr_type (mi_req i) = MEM_REQ_WR") simp_all
  then show ?thesis
    using that by blast
qed

lemma take_req_runs:
  assumes "mem_inv c s" "types_ok s" "legal_in c (sm_ranges s) i"
  shows "\<exists>s'. take_req c i s = Some s' \<and> sm_rnd s' = sm_rnd s \<and> sm_ranges s' = sm_ranges s"
proof (cases "mi_reqRdy i")
  case False
  then show ?thesis
    by (simp add: take_req_def)
next
  case rdy: True
  show ?thesis
  proof (cases "sm_pReqTime s")
    case None
    obtain s1 where s1: "new_req c (mi_req i) (mi_now i) s = Some s1" "sm_rnd s1 = sm_rnd s" "sm_ranges s1 = sm_ranges s"
      by (rule new_req_runs [OF assms(1) None assms(3) rdy])
    obtain p pe where p: "s1 = s\<lparr>sm_placementErrorCnt := pe, sm_pReqTime := Some p, sm_wrDataIdx := (if mr_type (mi_req i) = MEM_REQ_WR then 1 else 0)\<rparr>"
        "rq_req p = mi_req i" "req_good c p" "mr_type (mi_req i) = MEM_REQ_WR \<longrightarrow> take 1 (rq_data p) = [mr_data (mi_req i)]"
      by (rule new_req_ok [OF assms(1) None s1(1)])
    have "chk_type (rq_req p)"
      using assms(3) rdy by (simp add: legal_in_def Let_def p(2))
    then obtain s' where "queue_req p s1 = Some s'" "sm_rnd s' = sm_rnd s1" "sm_ranges s' = sm_ranges s1"
      using queue_req_runs [OF assms(2), of p s1] by (auto simp: p(1) same_slots_def)
    moreover have "sm_pReqTime s1 = Some p"
      by (simp add: p(1))
    ultimately show ?thesis
      using s1 rdy None by (simp add: take_req_def)
  next
    case (Some p)
    then have p: "req_good c p" "sm_wrDataIdx s < rq_reqQwCnt p"
      using assms(1) by (simp_all add: mem_inv_def collect_inv_def)
    then have k: "sm_wrDataIdx s < length (rq_data p)"
      using req_cnt_bounds(2) [of c "rq_req p"] by (simp add: req_good_def)
    let ?p = "p\<lparr>rq_data := (rq_data p)[sm_wrDataIdx s := mr_data (mi_req i)]\<rparr>"
    let ?s1 = "s\<lparr>sm_pReqTime := Some ?p, sm_wrDataIdx := sm_wrDataIdx s + 1\<rparr>"
    have "chk_type (rq_req ?p)"
      using assms(2) Some by (simp add: types_ok_def collecting_def)
    then obtain s' where "queue_req ?p ?s1 = Some s'" "sm_rnd s' = sm_rnd ?s1" "sm_ranges s' = sm_ranges ?s1"
      using queue_req_runs [OF assms(2), of ?p ?s1] by (auto simp: same_slots_def)
    then show ?thesis
      using k Some rdy by (simp add: take_req_def qw_store_def)
  qed
qed

lemma insert_req_frame [simp]: "sm_rnd (insert_req c now s) = sm_rnd s" "sm_ranges (insert_req c now s) = sm_ranges s"
  by (simp_all add: insert_req_def split: list.splits prod.splits)

lemma pick_slot_runs:
  assumes "cny_at (cny_seed (mc_seed c)) j (sm_rnd s)"
  shows "\<exists>idx s' j'. pick_slot c s = Some (idx, s') \<and> cny_at (cny_seed (mc_seed c)) j' (sm_rnd s') \<and> sm_ranges s' = sm_ranges s"
proof (cases "sm_bRdReqHold s \<or> sm_bWrReqHold s")
  case True
  then show ?thesis
    using assms by (auto simp: pick_slot_def)
next
  case False
  then show ?thesis
    using cny_step [OF assms, of "mc_rawRnd c"] by (auto simp: pick_slot_def Let_def)
qed

lemma rnd_full_runs:
  assumes "cny_at (cny_seed (mc_seed c)) j (sm_rnd s)"
  shows "\<exists>full s' j'. rnd_full c s = Some (full, s') \<and> cny_at (cny_seed (mc_seed c)) j' (sm_rnd s') \<and> sm_ranges s' = sm_ranges s"
proof (cases "mc_bMemReqRndFull c \<and> sm_reqRndFullCnt s = 0")
  case True
  then show ?thesis
    using cny_step [OF assms, of "mc_rawRnd c"] by (auto simp: rnd_full_def)
next
  case False
  then show ?thesis
    using assms by (auto simp: rnd_full_def)
qed

lemma serve_read_runs:
  assumes "mem_inv c s" "types_ok s" "idx < slot_cnt"
  shows "\<exists>rd s'. serve_read c i idx s = Some (rd, s') \<and> sm_rnd s' = sm_rnd s \<and> sm_ranges s' = sm_ranges s"
proof (cases "\<not> mi_rdRspFull i \<and> sm_rdReqCnt s \<noteq> 0 \<and> sm_wrReqCnt s \<noteq> slot_cnt \<and> bit (sm_rdReqValid s) idx")
  case False
  then show ?thesis
    by (auto simp: serve_read_def)
next
  case True
  then have "sm_rdReqList s idx \<in> set (slots (sm_rdReqValid s) (sm_rdReqList s))"
    using assms(3) by (auto simp: set_slots)
  then have "chk_type (rq_req (sm_rdReqList s idx))" "mr_type (rq_req (sm_rdReqList s idx)) \<noteq> MEM_REQ_WR"
    using pending_types(2) [OF assms(2)] assms(1) by (auto simp: mem_inv_def side_inv_def)
  then have "mr_type (rq_req (sm_rdReqList s idx)) = MEM_REQ_RD \<or> mr_type (rq_req (sm_rdReqList s idx)) = MEM_REQ_SET_BIT_63"
    by (auto simp: chk_type_def)
  then show ?thesis
    unfolding serve_read_def if_P [OF True] Let_def
    by (cases "rq_reqQwCnt (sm_rdReqList s idx) = sm_rdReqQwIdx s + 1"; cases "mr_type (rq_req (sm_rdReqList s idx)) = MEM_REQ_RD") simp_all
qed

lemma serve_write_runs:
  assumes "mem_inv c s" "sm_prevReqIdx s = idx" "idx < slot_cnt"
  shows "\<exists>wr s'. serve_write c i idx s = Some (wr, s') \<and> sm_rnd s' = sm_rnd s \<and> sm_ranges s' = sm_ranges s"
proof (cases "\<not> mi_wrRspFull i \<and> sm_wrReqCnt s \<noteq> 0 \<and> bit (sm_wrReqValid s) idx")
  case False
  then show ?thesis
    by (auto simp: serve_write_def)
next
  case True
  let ?p = "sm_wrReqList s idx"
  have side: "side_inv c True (sm_wrReqValid s) (sm_wrReqList s) (sm_wrReqCnt s) (sm_wrReqRr s) (sm_bWrReqHold s) idx (sm_wrReqQwIdx s)"
    using assms(1,2) by (simp add: mem_inv_def)
  have bit: "bit (sm_wrReqValid s) idx"
    using True by simp
  have "sm_wrReqQwIdx s < rq_reqQwCnt ?p" "req_good c ?p"
    using side_serve(4,5) [OF side assms(3) bit impI [OF refl]] by blast+
  then have k: "sm_wrReqQwIdx s < length (rq_data ?p)"
    using req_cnt_bounds(2) [of c "rq_req ?p"] by (simp add: req_good_def)
  then have e: "ensure (sm_wrReqQwIdx s < length (rq_data ?p)) = Some ()"
    by simp
  show ?thesis
    unfolding serve_write_def if_P [OF True] Let_def e
    by (cases "rq_reqQwCnt ?p = sm_wrReqQwIdx s + 1") simp_all
qed

lemma req_word_types:
  assumes "legal_in c rs i" "\<forall>j. cur = Some j \<longrightarrow> chk_type (fst j)" "req_word c cur i = (js, cur')"
  shows "(\<forall>j\<in>set js. chk_type (fst j)) \<and> (\<forall>j. cur' = Some j \<longrightarrow> chk_type (fst j))"
  using assms by (auto simp: req_word_def legal_in_def Let_def split: if_splits option.splits)

lemma types_okI:
  assumes "types_ok s" "legal_in c rs i" "req_word c (collecting s) i = (js, cur)" "collecting s' = cur" "pending s + mset js = pending s' + ms"
  shows "types_ok s'"
proof -
  have t: "\<forall>j\<in>#pending s. chk_type (fst j)" "\<forall>j. collecting s = Some j \<longrightarrow> chk_type (fst j)"
    using assms(1) unfolding types_ok_def by blast+
  have "\<forall>j\<in>set js. chk_type (fst j)" "\<forall>j. cur = Some j \<longrightarrow> chk_type (fst j)"
    using req_word_types [OF assms(2) t(2) assms(3)] by blast+
  moreover have "j \<in># pending s \<or> j \<in> set js" if "j \<in># pending s'" for j
    using that arg_cong [OF assms(5), of set_mset] by auto
  ultimately show ?thesis
    using t(1) unfolding types_ok_def assms(4) by blast
qed

lemma slots_runs:
  assumes "mem_inv c s" "types_ok s" "legal_in c (sm_ranges s) i" "cny_at (cny_seed (mc_seed c)) j (sm_rnd s)" "\<not> mi_reset i"
  obtains out s' j' where "SyscMemLib_slots c i s = Some (out, s')" "cny_at (cny_seed (mc_seed c)) j' (sm_rnd s')" "sm_ranges s' = sm_ranges s" "types_ok s'"
proof -
  obtain js cur where w: "req_word c (collecting s) i = (js, cur)"
    by (metis surj_pair)
  obtain s1 where s1: "take_req c i s = Some s1" "sm_rnd s1 = sm_rnd s" "sm_ranges s1 = sm_ranges s"
    using take_req_runs [OF assms(1-3)] by blast
  note a = take_req_ok [OF assms(1) s1(1) w]
  have t1: "types_ok s1"
    by (rule types_okI [OF assms(2,3) w, of _ "{#}"]) (use a in auto)
  have inv1: "mem_inv c s1"
    using a by blast
  note b = insert_req_ok [OF inv1, of "mi_now i"]
  obtain idx s2 j2 where s2: "pick_slot c (insert_req c (mi_now i) s1) = Some (idx, s2)" "cny_at (cny_seed (mc_seed c)) j2 (sm_rnd s2)" "sm_ranges s2 = sm_ranges s"
    using pick_slot_runs [of c j "insert_req c (mi_now i) s1"] assms(4) s1 by auto
  have d: "mem_inv c s2" "types_ok s2" "idx < slot_cnt" "sm_prevReqIdx s2 = idx"
    using pick_slot_ok [OF _ s2(1)] b t1 by (simp_all add: types_ok_def)
  obtain rd s3 where s3: "serve_read c i idx s2 = Some (rd, s3)" "sm_rnd s3 = sm_rnd s2" "sm_ranges s3 = sm_ranges s2"
    using serve_read_runs [OF d(1-3)] by blast
  have e: "mem_inv c s3" "sm_prevReqIdx s3 = idx"
    using serve_read_ok [OF d(1,4,3) s3(1)] by blast+
  obtain wr s4 where s4: "serve_write c i idx s3 = Some (wr, s4)" "sm_rnd s4 = sm_rnd s3" "sm_ranges s4 = sm_ranges s3"
    using serve_write_runs [OF e d(3)] by blast
  obtain full s5 j5 where s5: "rnd_full c s4 = Some (full, s5)" "cny_at (cny_seed (mc_seed c)) j5 (sm_rnd s5)" "sm_ranges s5 = sm_ranges s4"
    using rnd_full_runs [of c j2 s4] s2(2) s3(2) s4(2) by auto
  have run: "SyscMemLib_slots c i s = Some (\<lparr>mo_rdRsp = rd, mo_wrRspTid = wr, mo_reqFull = full\<rparr>, s5)"
    using assms(5) by (simp add: SyscMemLib_slots_def s1(1) s2(1) s3(1) s4(1) s5(1))
  obtain dr dw where "collecting s5 = cur" "pending s + mset js = pending s5 + (mset dr + mset dw)"
    using slots_step [OF assms(1) run assms(5) w] by (auto simp: ac_simps)
  then have "types_ok s5"
    by (rule types_okI [OF assms(2,3) w])
  then show ?thesis
    using that run s5(2,3) s2(3) s3(3) s4(3) by simp
qed

lemma mem_run_serves:
  "mem_inv c s \<Longrightarrow> types_ok s \<Longrightarrow> cny_at (cny_seed (mc_seed c)) j (sm_rnd s) \<Longrightarrow> \<forall>i\<in>set is. \<not> mi_reset i \<and> legal_in c (sm_ranges s) i \<Longrightarrow>
   \<exists>outs s' dr dw. mem_run c is s = Some (outs, s') \<and>
    pending s + mset (fst (requests c (collecting s) is)) = pending s' + mset dr + mset dw \<and> collecting s' = snd (requests c (collecting s) is) \<and>
    (\<forall>j\<in>set dr. mr_type (fst j) \<noteq> MEM_REQ_WR) \<and> (\<forall>j\<in>set dw. mr_type (fst j) = MEM_REQ_WR) \<and>
    rd_partial s @ map fst (List.map_filter mo_rdRsp outs) = concat (map (rsp_tids c) dr) @ rd_partial s' \<and>
    wr_partial s @ List.map_filter mo_wrRspTid outs = map (\<lambda>j. rsp_tid (mr_tid (fst j)) 0) dw @ wr_partial s'"
proof (induction "is" arbitrary: s j)
  case Nil
  show ?case
    by (rule exI [of _ "[]"], rule exI [of _ s], rule exI [of _ "[]"], rule exI [of _ "[]"]) (simp add: List.map_filter_def)
next
  case (Cons i "is")
  obtain js cur where w: "req_word c (collecting s) i = (js, cur)"
    by (metis surj_pair)
  have i: "\<not> mi_reset i" "legal_in c (sm_ranges s) i"
    using Cons.prems(4) by simp_all
  obtain out s1 j1 where s1: "SyscMemLib_slots c i s = Some (out, s1)" "cny_at (cny_seed (mc_seed c)) j1 (sm_rnd s1)" "sm_ranges s1 = sm_ranges s" "types_ok s1"
    by (rule slots_runs [OF Cons.prems(1,2) i(2) Cons.prems(3) i(1)])
  obtain dr dw where a: "mem_inv c s1" "collecting s1 = cur" "pending s + mset js = pending s1 + mset dr + mset dw"
      "\<forall>j\<in>set dr. mr_type (fst j) \<noteq> MEM_REQ_WR" "\<forall>j\<in>set dw. mr_type (fst j) = MEM_REQ_WR"
      "rd_partial s @ (case mo_rdRsp out of None \<Rightarrow> [] | Some r \<Rightarrow> [fst r]) = concat (map (rsp_tids c) dr) @ rd_partial s1"
      "wr_partial s @ (case mo_wrRspTid out of None \<Rightarrow> [] | Some t \<Rightarrow> [t]) = map (\<lambda>j. rsp_tid (mr_tid (fst j)) 0) dw @ wr_partial s1"
    using slots_step [OF Cons.prems(1) s1(1) i(1) w] by blast
  obtain outs s' dr' dw' where b: "mem_run c is s1 = Some (outs, s')"
      "pending s1 + mset (fst (requests c cur is)) = pending s' + mset dr' + mset dw'" "collecting s' = snd (requests c cur is)"
      "\<forall>j\<in>set dr'. mr_type (fst j) \<noteq> MEM_REQ_WR" "\<forall>j\<in>set dw'. mr_type (fst j) = MEM_REQ_WR"
      "rd_partial s1 @ map fst (List.map_filter mo_rdRsp outs) = concat (map (rsp_tids c) dr') @ rd_partial s'"
      "wr_partial s1 @ List.map_filter mo_wrRspTid outs = map (\<lambda>j. rsp_tid (mr_tid (fst j)) 0) dw' @ wr_partial s'"
    using Cons.IH [OF a(1) s1(4,2)] Cons.prems(4) s1(3) a(2) by auto
  have mf: "map fst (List.map_filter mo_rdRsp (out # outs)) = (case mo_rdRsp out of None \<Rightarrow> [] | Some r \<Rightarrow> [fst r]) @ map fst (List.map_filter mo_rdRsp outs)"
    "List.map_filter mo_wrRspTid (out # outs) = (case mo_wrRspTid out of None \<Rightarrow> [] | Some t \<Rightarrow> [t]) @ List.map_filter mo_wrRspTid outs"
    by (simp_all add: List.map_filter_def split: option.splits)
  have q: "fst (requests c (collecting s) (i # is)) = js @ fst (requests c cur is)" "snd (requests c (collecting s) (i # is)) = snd (requests c cur is)"
    by (simp_all add: w split: prod.splits)
  show ?case
  proof (intro exI conjI)
    show "mem_run c (i # is) s = Some (out # outs, s')"
      by (simp add: s1(1) b(1))
    show "pending s + mset (fst (requests c (collecting s) (i # is))) = pending s' + mset (dr @ dr') + mset (dw @ dw')"
    proof -
      have "pending s + mset (js @ fst (requests c cur is)) = pending s1 + mset (fst (requests c cur is)) + mset dr + mset dw"
        using a(3) by (simp add: ac_simps)
      then show ?thesis
        unfolding q b(2) by (simp add: ac_simps)
    qed
    show "rd_partial s @ map fst (List.map_filter mo_rdRsp (out # outs)) = concat (map (rsp_tids c) (dr @ dr')) @ rd_partial s'"
      unfolding mf append_assoc [symmetric] a(6) using b(6) by simp
    show "wr_partial s @ List.map_filter mo_wrRspTid (out # outs) = map (\<lambda>j. rsp_tid (mr_tid (fst j)) 0) (dw @ dw') @ wr_partial s'"
      unfolding mf append_assoc [symmetric] a(7) using b(7) by simp
  qed (use a b q in auto)
qed

text \<open>
  C12: The memory model serves every request once: from reset and for any legal input, it never stops, and what came in is what still waits and what was
  served. The read responses are those of the reads served, each with its words one after the other from the first on and none of another read between
  them, then those of the read that is held; there is one write response for each write served, then that of the write that is held.
\<close>

theorem memory_service:
  assumes "length (mc_raw c) = 8" "sm_rnd s0 = None" "\<forall>i\<in>set is. \<not> mi_reset i \<and> legal_in c (sm_ranges s0) i"
  shows "\<exists>outs s' dr dw. mem_run c is (mem_reset (CSyscMemLib_new s0)) = Some (outs, s') \<and>
    mset (fst (requests c None is)) = pending s' + mset dr + mset dw \<and> collecting s' = snd (requests c None is) \<and>
    (\<forall>j\<in>set dr. mr_type (fst j) \<noteq> MEM_REQ_WR) \<and> (\<forall>j\<in>set dw. mr_type (fst j) = MEM_REQ_WR) \<and>
    map fst (List.map_filter mo_rdRsp outs) = concat (map (rsp_tids c) dr) @ rd_partial s' \<and>
    List.map_filter mo_wrRspTid outs = map (\<lambda>j. rsp_tid (mr_tid (fst j)) 0) dw @ wr_partial s'"
proof -
  let ?s = "mem_reset (CSyscMemLib_new s0)"
  have s: "mem_inv c ?s" "types_ok ?s" "pending ?s = {#}" "collecting ?s = None" "rd_partial ?s = []" "wr_partial ?s = []" "sm_ranges ?s = sm_ranges s0"
      "cny_at (cny_seed (mc_seed c)) mt_n (sm_rnd ?s)"
    using assms(1,2) by (simp_all add: mem_inv_def side_inv_def collect_inv_def types_ok_def pending_def collecting_def rd_partial_def wr_partial_def mem_reset_def
        CSyscMemLib_new_def slots_def cny_at_def)
  show ?thesis
    using mem_run_serves [OF s(1,2,8), of "is"] assms(3) unfolding s(3-7) by simp
qed

text \<open>A write of two words and a read, and a clock much later at which one of them moves to its slot.\<close>

definition wit_req :: "2 word \<Rightarrow> u32 \<Rightarrow> u64 \<Rightarrow> u64 \<Rightarrow> mem_req" where
  "wit_req ty tid a d = \<lparr>mr_data = d, mr_addr = a, mr_tid = tid, mr_type = ty, mr_host = True, mr_size = 3, mr_line = 1, mr_file = 0, mr_time = 0, mr_orderChk = True\<rparr>"

definition wit_in :: "u64 \<Rightarrow> bool \<Rightarrow> mem_req \<Rightarrow> mem_in" where
  "wit_in now rdy r = \<lparr>mi_reset = False, mi_now = now, mi_reqRdy = rdy, mi_req = r, mi_rdRspFull = False, mi_wrRspFull = False\<rparr>"

definition wit_cfg :: mem_cfg where
  "wit_cfg = \<lparr>mc_hc1 = False, mc_hc2 = False, mc_avgMemLatency = (\<lambda>h. if h then 430 else 130), mc_bMemReqRndFull = True, mc_mangle = 0, mc_raw = replicate 8 7,
     mc_rawRnd = (\<lambda>_. 0), mc_seed = None\<rparr>"

definition wit_mem :: sysc_mem where
  "wit_mem = \<lparr>sm_memReqQue = [], sm_pReqTime = None, sm_wrDataIdx = 0,
     sm_rdReqList = (\<lambda>_. \<lparr>rq_req = wit_req 0 0 0 0, rq_time = 0, rq_host = False, rq_reqQwCnt = 0, rq_data = []\<rparr>),
     sm_wrReqList = (\<lambda>_. \<lparr>rq_req = wit_req 0 0 0 0, rq_time = 0, rq_host = False, rq_reqQwCnt = 0, rq_data = []\<rparr>),
     sm_rdReqValid = 5, sm_wrReqValid = 6, sm_rdReqRr = 40, sm_wrReqRr = 50, sm_rdReqCnt = 1, sm_wrReqCnt = 2, sm_bRdReqHold = True, sm_bWrReqHold = True,
     sm_prevReqIdx = 77, sm_rdReqQwIdx = 3, sm_wrReqQwIdx = 4, sm_reqRndFullCnt = 5, sm_bReqRndFull = True, sm_placementErrorCnt = 0, sm_order = (0, []),
     sm_rnd = None, sm_mem = (\<lambda>_. 0), sm_ranges = \<lparr>rs_map = [], rs_bValidation = False\<rparr>, sm_mon = CSyscMon_new\<rparr>"

lemma memory_service_witness:
  "\<exists>outs s' dr dw. mem_run wit_cfg [wit_in 0 True (wit_req 1 9 0x1000 1), wit_in 10000 True (wit_req 1 9 0x1000 2), wit_in 20000 True (wit_req 0 16 0x2000 0),
      wit_in 90000000 False (wit_req 0 0 0 0)] (mem_reset (CSyscMemLib_new wit_mem)) = Some (outs, s') \<and>
    {#(wit_req 1 9 0x1000 1, [1, 2]), (wit_req 0 16 0x2000 0, [])#} = pending s' + mset dr + mset dw \<and> collecting s' = None \<and>
    map fst (List.map_filter mo_rdRsp outs) = concat (map (rsp_tids wit_cfg) dr) @ rd_partial s'"
proof -
  let ?is = "[wit_in 0 True (wit_req 1 9 0x1000 1), wit_in 10000 True (wit_req 1 9 0x1000 2), wit_in 20000 True (wit_req 0 16 0x2000 0),
      wit_in 90000000 False (wit_req 0 0 0 0)]"
  have r: "requests wit_cfg None ?is = ([(wit_req 1 9 0x1000 1, [1, 2]), (wit_req 0 16 0x2000 0, [])], None)"
    by (simp add: req_word_def wit_in_def wit_req_def wit_cfg_def req_cnt_def MEM_REQ_WR_def)
  have "length (mc_raw wit_cfg) = 8" "sm_rnd wit_mem = None" "\<forall>i\<in>set ?is. \<not> mi_reset i \<and> legal_in wit_cfg (sm_ranges wit_mem) i"
    by (simp_all add: wit_cfg_def wit_mem_def wit_in_def wit_req_def legal_in_def chk_type_def addr_fatal_def IsAddressValidationEnabled_def
        MEM_REQ_RD_def MEM_REQ_WR_def Let_def)
  from memory_service [OF this] show ?thesis
    unfolding r by simp blast
qed

end
