(* ===== verification/SyscBank.thy ===== *)
theory SyscBank
  imports SyscMem
begin

text \<open>
  The memory of the SystemC simulation with its banks modelled, the other half of \<^verbatim>\<open>CSyscMemLib::SyscMemLib\<close>: every port keeps its requests, delays them
  and schedules them on a bank, or on the host interface; the queues of the banks are shared by all ports. One call is one clock of one port. The check
  for a hang is compiled out and not modelled.
\<close>

section \<open>State\<close>

text \<open>
  \<^verbatim>\<open>CBankReq\<close>; \<open>bq_seqNum\<close> tells the objects apart, so it stands for the pointer. Times are counts of ps; a simulation ends long before they reach the end of
  their 64 bits.
\<close>

record bank_req =
  bq_startTime :: nat
  bq_bankAvlTime :: nat
  bq_host :: bool
  bq_bank :: nat
  bq_seqNum :: nat
  bq_memReq :: mem_req
  bq_data :: "u64 list"
  bq_reqQwCnt :: nat

record bank_port =
  bp_bankReqQue :: "bank_req list"
  bp_hostReqQue :: "bank_req list"
  bp_bankBusyQue :: "bank_req list"
  bp_pNewReq :: "bank_req option"
  bp_wrDataIdx :: nat
  bp_rdReqQwIdx :: nat
  bp_wrReqQwIdx :: nat

text \<open>What the ports share; the trace is \<open>None\<close> while it is not open.\<close>

record bank_shared =
  bs_bankQue :: "nat \<Rightarrow> bank_req list"
  bs_seqNum :: nat
  bs_placementErrorCnt :: nat
  bs_order :: order_log
  bs_mem :: byte_mem
  bs_ranges :: range_state
  bs_mon :: sysc_mon
  bs_trace :: "trace_writer option"

definition BANK_CNT :: nat where "BANK_CNT = 1024"

definition bank_port_new :: bank_port where
  "bank_port_new = \<lparr>bp_bankReqQue = [], bp_hostReqQue = [], bp_bankBusyQue = [], bp_pNewReq = None, bp_wrDataIdx = 0, bp_rdReqQwIdx = 0, bp_wrReqQwIdx = 0\<rparr>"

definition bank_of :: "bool \<Rightarrow> u64 \<Rightarrow> nat" where
  "bank_of host a = (if host then BANK_CNT else unat (drop_bit 3 a AND 1023))"

section \<open>A clock of a port\<close>

text \<open>The first word of a request.\<close>

definition bank_new :: "mem_cfg \<Rightarrow> mem_req \<Rightarrow> nat \<Rightarrow> bank_port \<Rightarrow> bank_shared \<Rightarrow> (bank_port \<times> bank_shared) option" where
  "bank_new c req now p sh = do {
     let seq = bs_seqNum sh; let sh = sh\<lparr>bs_seqNum := seq + 1\<rparr>;
     ensure (\<not> addr_fatal (mr_addr req) (bs_ranges sh));
     let host = addr_host (mr_addr req) (bs_ranges sh);
     let cnt = (if mc_hc1 c then 1 else qw_bits (mr_tid req) + 1);
     (data, i) \<leftarrow> (if mr_type req = MEM_REQ_WR then map_option (\<lambda>d. (d, bp_wrDataIdx p + 1)) (qw_store (bp_wrDataIdx p) (mr_data req) (mc_raw c))
       else Some (mc_raw c, bp_wrDataIdx p));
     let sh = (if mr_tid req AND 7 \<noteq> 0 \<and> host \<noteq> mr_host req then sh\<lparr>bs_placementErrorCnt := bs_placementErrorCnt sh + 1\<rparr> else sh);
     ensure (\<not> (mc_hc2 c \<and> 1 < cnt \<and> (cnt \<noteq> 8 \<or> \<not> host)));
     ensure (mr_type req = MEM_REQ_RD \<and> mr_tid req AND 7 \<noteq> 0 \<longrightarrow> mr_tid req AND 7 = 7 \<and> mr_addr req AND 0x3f = 0);
     Some (p\<lparr>bp_pNewReq := Some \<lparr>bq_startTime = now, bq_bankAvlTime = 0, bq_host = host, bq_bank = bank_of host (mr_addr req), bq_seqNum = seq, bq_memReq = req,
       bq_data = data, bq_reqQwCnt = cnt\<rparr>, bp_wrDataIdx := i\<rparr>, sh)
   }"

text \<open>A request whose words are all there is checked and queued.\<close>

definition bank_queue :: "bank_req \<Rightarrow> bank_port \<Rightarrow> bank_shared \<Rightarrow> (bank_port \<times> bank_shared) option" where
  "bank_queue q p sh = do {
     ord \<leftarrow> check_all (bq_memReq q) (map bq_memReq (if bq_host q then bp_hostReqQue p else bp_bankReqQue p)) (bs_order sh);
     ord \<leftarrow> check_all (bq_memReq q) (map bq_memReq (bs_bankQue sh (bq_bank q))) ord;
     let p = (if bq_host q then p\<lparr>bp_hostReqQue := bp_hostReqQue p @ [q]\<rparr> else p\<lparr>bp_bankReqQue := bp_bankReqQue p @ [q]\<rparr>);
     Some (p\<lparr>bp_pNewReq := None, bp_wrDataIdx := 0\<rparr>, sh\<lparr>bs_order := ord\<rparr>)
   }"

definition bank_take :: "mem_cfg \<Rightarrow> mem_in \<Rightarrow> bank_port \<Rightarrow> bank_shared \<Rightarrow> (bank_port \<times> bank_shared) option" where
  "bank_take c i p sh = (if \<not> mi_reqRdy i then Some (p, sh) else do {
     (p, sh) \<leftarrow> (case bp_pNewReq p of None \<Rightarrow> bank_new c (mi_req i) (unat (mi_now i)) p sh
       | Some q \<Rightarrow> do {
           data \<leftarrow> qw_store (bp_wrDataIdx p) (mr_data (mi_req i)) (bq_data q);
           Some (p\<lparr>bp_pNewReq := Some (q\<lparr>bq_data := data\<rparr>), bp_wrDataIdx := bp_wrDataIdx p + 1\<rparr>, sh)
         });
     q \<leftarrow> bp_pNewReq p;
     if mr_type (bq_memReq q) \<noteq> MEM_REQ_WR \<or> bp_wrDataIdx p = bq_reqQwCnt q then bank_queue q p sh else Some (p, sh)
   })"

text \<open>
  The request that leaves the delay and how long it keeps its bank busy, in ps; the host's queue goes first. The times are those of the code:
  \<^verbatim>\<open>sc_time(1000 * 100/66, SC_NS)\<close> is 1515 ns, \<^verbatim>\<open>sc_time(25.6 * 100/66, SC_NS)\<close> is 38788 ps.
\<close>

definition bank_due :: "nat \<Rightarrow> bank_port \<Rightarrow> (bank_req \<times> nat \<times> bank_port) option" where
  "bank_due now p = (case bp_hostReqQue p of
       q # qs \<Rightarrow> if bq_startTime q + 1515000 \<le> now
         then Some (q, if 0 < qw_bits (mr_tid (bq_memReq q)) then 38788 else 17273, p\<lparr>bp_hostReqQue := qs\<rparr>)
         else (case bp_bankReqQue p of
             r # rs \<Rightarrow> if bq_startTime r + 606000 \<le> now then Some (r, if 0 < qw_bits (mr_tid (bq_memReq r)) then 1212000 else 151000, p\<lparr>bp_bankReqQue := rs\<rparr>) else None
           | [] \<Rightarrow> None)
     | [] \<Rightarrow> (case bp_bankReqQue p of
             r # rs \<Rightarrow> if bq_startTime r + 606000 \<le> now then Some (r, if 0 < qw_bits (mr_tid (bq_memReq r)) then 1212000 else 151000, p\<lparr>bp_bankReqQue := rs\<rparr>) else None
           | [] \<Rightarrow> None))"

text \<open>The order of a port's requests: the last to be available first; a later bank first when the times are the same.\<close>

definition avl_before :: "bank_req \<Rightarrow> bank_req \<Rightarrow> bool" where
  "avl_before a b \<longleftrightarrow> bq_bankAvlTime a < bq_bankAvlTime b \<or> bq_bankAvlTime a = bq_bankAvlTime b \<and> bq_bank a < bq_bank b"

definition busy_insert :: "bank_req \<Rightarrow> bank_req list \<Rightarrow> bank_req list" where
  "busy_insert q xs = takeWhile (\<lambda>x. \<not> avl_before x q) xs @ q # dropWhile (\<lambda>x. \<not> avl_before x q) xs"

definition bank_schedule :: "nat \<Rightarrow> bank_port \<Rightarrow> bank_shared \<Rightarrow> (bank_port \<times> bank_shared) option" where
  "bank_schedule now p sh = (case bank_due now p of None \<Rightarrow> Some (p, sh)
     | Some (q, busy, p) \<Rightarrow> do {
         let minBusyTime = now + busy;
         let que = bs_bankQue sh (bq_bank q);
         let q = q\<lparr>bq_bankAvlTime := (if que = [] then minBusyTime else max (bq_bankAvlTime (last que) + busy) minBusyTime)\<rparr>;
         t \<leftarrow> bs_trace sh;
         let t = WriteReq \<lparr>tq_ae = 0, tq_unit = 0, tq_op = uint (mr_type (bq_memReq q)), tq_host = of_bool (bq_host q), tq_file = mr_file (bq_memReq q), tq_line = mr_line (bq_memReq q),
           tq_start = of_nat (bq_startTime q) * 66 div 100, tq_comp = of_nat (bq_bankAvlTime q) * 66 div 100, tq_addr = mr_addr (bq_memReq q)\<rparr> t;
         Some (p\<lparr>bp_bankBusyQue := busy_insert q (bp_bankBusyQue p)\<rparr>, sh\<lparr>bs_bankQue := (bs_bankQue sh)(bq_bank q := que @ [q]), bs_trace := Some t\<rparr>)
       })"

text \<open>The end of a request whose words are served.\<close>

definition bank_pop :: "nat \<Rightarrow> bank_port \<Rightarrow> bank_shared \<Rightarrow> bank_port \<times> bank_shared" where
  "bank_pop b p sh = (p\<lparr>bp_bankBusyQue := butlast (bp_bankBusyQue p)\<rparr>, sh\<lparr>bs_bankQue := (bs_bankQue sh)(b := tl (bs_bankQue sh b))\<rparr>)"

definition bank_write :: "mem_cfg \<Rightarrow> mem_in \<Rightarrow> nat \<Rightarrow> bank_req \<Rightarrow> bank_port \<Rightarrow> bank_shared \<Rightarrow> (mem_out \<times> bank_port \<times> bank_shared) option" where
  "bank_write c i b q p sh = do {
     let r = bq_memReq q; let k = bp_wrReqQwIdx p; let n = size_bytes (mr_size r);
     ensure (k < length (bq_data q));
     let mem = store n ((mr_addr r XOR mc_mangle c) + of_nat (8 * k)) (bq_data q ! k) (bs_mem sh);
     let mon = UpdateTotalMemWriteBytes (mr_host r) (of_nat n) (UpdateMemReqClocks (mr_host r) (req_clocks (mi_now i) (of_nat (bq_startTime q))) (bs_mon sh));
     let mon = (if mr_tid r AND 7 \<noteq> 0 then UpdateTotalMemWrite64s (mr_host r) (if k = 0 then 1 else 0) mon else UpdateTotalMemWrites (mr_host r) 1 mon);
     let sh = sh\<lparr>bs_mem := mem, bs_mon := mon\<rparr>;
     Some (\<lparr>mo_rdRsp = None, mo_wrRspTid = (if k = 0 then Some (rsp_tid (mr_tid r) k) else None), mo_reqFull = False\<rparr>,
       if k + 1 = bq_reqQwCnt q then bank_pop b (p\<lparr>bp_wrReqQwIdx := 0\<rparr>) sh else (p\<lparr>bp_wrReqQwIdx := k + 1\<rparr>, sh))
   }"

definition bank_read :: "mem_cfg \<Rightarrow> mem_in \<Rightarrow> nat \<Rightarrow> bank_req \<Rightarrow> bank_port \<Rightarrow> bank_shared \<Rightarrow> (mem_out \<times> bank_port \<times> bank_shared) option" where
  "bank_read c i b q p sh = do {
     let r = bq_memReq q; let k = bp_rdReqQwIdx p;
     let data = load (size_bytes (mr_size r)) ((mr_addr r + of_nat (8 * k)) XOR mc_mangle c) (bs_mem sh);
     mem \<leftarrow> (if mr_type r = MEM_REQ_RD then Some (bs_mem sh)
       else if mr_type r = MEM_REQ_SET_BIT_63 then Some (store 8 ((mr_addr r XOR mc_mangle c) + of_nat (8 * k)) 0x8000000000000000 (bs_mem sh)) else None);
     let mon = UpdateTotalMemReadBytes (mr_host r) 8 (UpdateMemReqClocks (mr_host r) (req_clocks (mi_now i) (of_nat (bq_startTime q))) (bs_mon sh));
     let mon = (if mr_tid r AND 7 \<noteq> 0 then UpdateTotalMemRead64s (mr_host r) (if k = 0 then 1 else 0) mon else UpdateTotalMemReads (mr_host r) 1 mon);
     let sh = sh\<lparr>bs_mem := mem, bs_mon := mon\<rparr>;
     Some (\<lparr>mo_rdRsp = Some (rsp_tid (mr_tid r) k, data), mo_wrRspTid = None, mo_reqFull = False\<rparr>,
       if k + 1 = bq_reqQwCnt q then bank_pop b (p\<lparr>bp_rdReqQwIdx := 0\<rparr>) sh else (p\<lparr>bp_rdReqQwIdx := k + 1\<rparr>, sh))
   }"

definition bank_idle :: mem_out where
  "bank_idle = \<lparr>mo_rdRsp = None, mo_wrRspTid = None, mo_reqFull = False\<rparr>"

text \<open>The last request of the port is served when it is the first of its bank and its time has come.\<close>

definition bank_serve :: "mem_cfg \<Rightarrow> mem_in \<Rightarrow> bank_port \<Rightarrow> bank_shared \<Rightarrow> (mem_out \<times> bank_port \<times> bank_shared) option" where
  "bank_serve c i p sh = (if bp_bankBusyQue p = [] then Some (bank_idle, p, sh) else do {
     let a = last (bp_bankBusyQue p); let b = bank_of (bq_host a) (mr_addr (bq_memReq a));
     ensure (bs_bankQue sh b \<noteq> []);
     let q = hd (bs_bankQue sh b);
     if bq_seqNum q = bq_seqNum a \<and> bq_bankAvlTime q \<le> unat (mi_now i) then do {
       ensure (\<not> addr_fatal (mr_addr (bq_memReq q)) (bs_ranges sh));
       if mr_type (bq_memReq q) = MEM_REQ_WR then (if mi_wrRspFull i then Some (bank_idle, p, sh) else bank_write c i b q p sh)
       else (if mi_rdRspFull i then Some (bank_idle, p, sh) else bank_read c i b q p sh)
     } else Some (bank_idle, p, sh)
   })"

definition SyscMemLib_banks :: "mem_cfg \<Rightarrow> mem_in \<Rightarrow> bank_port \<Rightarrow> bank_shared \<Rightarrow> (mem_out \<times> bank_port \<times> bank_shared) option" where
  "SyscMemLib_banks c i p sh = do {
     (p, sh) \<leftarrow> bank_take c i p sh;
     (p, sh) \<leftarrow> bank_schedule (unat (mi_now i)) p sh;
     bank_serve c i p sh
   }"

section \<open>The ports together\<close>

text \<open>All clocks of all ports, from ports without requests; time does not go back, and a clock has legal input.\<close>

inductive bank_reach :: "mem_cfg \<Rightarrow> nat \<Rightarrow> (nat \<Rightarrow> bank_port) \<Rightarrow> bank_shared \<Rightarrow> bool" for c where
  start: "(\<forall>b. bs_bankQue sh b = []) \<Longrightarrow> bs_trace sh \<noteq> None \<Longrightarrow> bank_reach c 0 (\<lambda>_. bank_port_new) sh"
| clock: "bank_reach c t P sh \<Longrightarrow> t \<le> unat (mi_now i) \<Longrightarrow> legal_in c (bs_ranges sh) i \<Longrightarrow> SyscMemLib_banks c i (P k) sh = Some (out, p', sh') \<Longrightarrow>
    bank_reach c (unat (mi_now i)) (P(k := p')) sh'"

text \<open>The invariant: a port, then what the ports share.\<close>

definition port_reqs :: "bank_port \<Rightarrow> bank_req list" where
  "port_reqs p = (case bp_pNewReq p of None \<Rightarrow> [] | Some q \<Rightarrow> [q]) @ bp_bankReqQue p @ bp_hostReqQue p @ bp_bankBusyQue p"

definition seqs :: "bank_port \<Rightarrow> nat list" where
  "seqs p = map bq_seqNum (port_reqs p)"

definition req_fine :: "mem_cfg \<Rightarrow> range_state \<Rightarrow> bank_req \<Rightarrow> bool" where
  "req_fine c rs q \<longleftrightarrow> bq_bank q = bank_of (bq_host q) (mr_addr (bq_memReq q)) \<and> bq_reqQwCnt q = req_cnt c (bq_memReq q) \<and> length (bq_data q) = 8 \<and>
     chk_type (bq_memReq q) \<and> \<not> addr_fatal (mr_addr (bq_memReq q)) rs"

definition collect_fine :: "bank_req option \<Rightarrow> nat \<Rightarrow> bool" where
  "collect_fine r k = (case r of None \<Rightarrow> k = 0 | Some q \<Rightarrow> mr_type (bq_memReq q) = MEM_REQ_WR \<and> 0 < k \<and> k < bq_reqQwCnt q)"

text \<open>A request that is partly served is the last of its port and its time has come.\<close>

definition partial_fine :: "nat \<Rightarrow> bool \<Rightarrow> bank_req list \<Rightarrow> nat \<Rightarrow> bool" where
  "partial_fine t w busy k \<longleftrightarrow> (k \<noteq> 0 \<longrightarrow> busy \<noteq> [] \<and> (mr_type (bq_memReq (last busy)) = MEM_REQ_WR \<longleftrightarrow> w) \<and> k < bq_reqQwCnt (last busy) \<and> bq_bankAvlTime (last busy) \<le> t)"

definition port_ok :: "mem_cfg \<Rightarrow> range_state \<Rightarrow> nat \<Rightarrow> bank_port \<Rightarrow> bool" where
  "port_ok c rs t p \<longleftrightarrow> (\<forall>q\<in>set (port_reqs p). req_fine c rs q) \<and> distinct (seqs p) \<and> sorted_wrt (\<lambda>x y. avl_before y x) (bp_bankBusyQue p) \<and>
     collect_fine (bp_pNewReq p) (bp_wrDataIdx p) \<and> partial_fine t False (bp_bankBusyQue p) (bp_rdReqQwIdx p) \<and> partial_fine t True (bp_bankBusyQue p) (bp_wrReqQwIdx p)"

definition shared_ok :: "(nat \<Rightarrow> bank_port) \<Rightarrow> bank_shared \<Rightarrow> bool" where
  "shared_ok P sh \<longleftrightarrow> (\<forall>j k. j \<noteq> k \<longrightarrow> set (seqs (P j)) \<inter> set (seqs (P k)) = {}) \<and> (\<forall>k. \<forall>n\<in>set (seqs (P k)). n < bs_seqNum sh) \<and>
     (\<forall>b. sorted_wrt (\<lambda>x y. bq_bankAvlTime x < bq_bankAvlTime y) (bs_bankQue sh b)) \<and>
     (\<forall>b x. x \<in> set (bs_bankQue sh b) \<longleftrightarrow> bq_bank x = b \<and> (\<exists>k. x \<in> set (bp_bankBusyQue (P k)))) \<and> bs_trace sh \<noteq> None"

definition bank_inv :: "mem_cfg \<Rightarrow> nat \<Rightarrow> (nat \<Rightarrow> bank_port) \<Rightarrow> bank_shared \<Rightarrow> bool" where
  "bank_inv c t P sh \<longleftrightarrow> length (mc_raw c) = 8 \<and> (\<forall>k. port_ok c (bs_ranges sh) t (P k)) \<and> shared_ok P sh"

lemma ensure_holds: "b \<Longrightarrow> ensure b = Some ()"
  by simp

text \<open>A step that leaves the scheduled requests alone.\<close>

lemma shared_queued:
  assumes "shared_ok P sh" "bp_bankBusyQue p' = bp_bankBusyQue (P k)" "bs_bankQue sh' = bs_bankQue sh" "bs_trace sh' = bs_trace sh" "bs_seqNum sh \<le> bs_seqNum sh'"
    and "\<forall>n\<in>set (seqs p'). n \<in> set (seqs (P k)) \<or> bs_seqNum sh \<le> n \<and> n < bs_seqNum sh'"
  shows "shared_ok (P(k := p')) sh'"
proof -
  have old: "n < bs_seqNum sh" if "n \<in> set (seqs (P j))" for n j
    using assms(1) that by (auto simp: shared_ok_def)
  have "set (seqs p') \<inter> set (seqs (P j)) = {}" if "j \<noteq> k" for j
  proof -
    have "set (seqs (P k)) \<inter> set (seqs (P j)) = {}"
      using assms(1) that by (auto simp: shared_ok_def)
    then show ?thesis
      using assms(6) old [of _ j] by fastforce
  qed
  moreover have "n < bs_seqNum sh'" if "n \<in> set (seqs p')" for n
    using assms(5,6) old [of n k] that by fastforce
  moreover have "n < bs_seqNum sh'" if "n \<in> set (seqs (P j))" for n j
    using old [OF that] assms(5) by simp
  moreover have "(\<exists>j. x \<in> set (bp_bankBusyQue ((P(k := p')) j))) \<longleftrightarrow> (\<exists>j. x \<in> set (bp_bankBusyQue (P j)))" for x
    using assms(2) by (metis fun_upd_apply)
  ultimately show ?thesis
    using assms(1,3,4) unfolding shared_ok_def by (auto simp: Int_commute)
qed

lemma bank_new_ok:
  assumes "port_ok c (bs_ranges sh) t p" "length (mc_raw c) = 8" "legal_in c (bs_ranges sh) i" "mi_reqRdy i" "bp_pNewReq p = None"
  obtains q sh' where "bank_new c (mi_req i) now p sh = Some (p\<lparr>bp_pNewReq := Some q, bp_wrDataIdx := (if mr_type (mi_req i) = MEM_REQ_WR then 1 else 0)\<rparr>, sh')"
    "bq_memReq q = mi_req i" "bq_seqNum q = bs_seqNum sh" "req_fine c (bs_ranges sh) q"
    "bs_seqNum sh' = bs_seqNum sh + 1" "bs_bankQue sh' = bs_bankQue sh" "bs_trace sh' = bs_trace sh" "bs_ranges sh' = bs_ranges sh"
proof -
  have i: "bp_wrDataIdx p = 0"
    using assms(1,5) by (simp add: port_ok_def collect_fine_def)
  have l: "\<not> addr_fatal (mr_addr (mi_req i)) (bs_ranges sh)"
      "\<not> (mc_hc2 c \<and> 1 < req_cnt c (mi_req i) \<and> (req_cnt c (mi_req i) \<noteq> 8 \<or> \<not> addr_host (mr_addr (mi_req i)) (bs_ranges sh)))"
      "mr_type (mi_req i) = MEM_REQ_RD \<and> mr_tid (mi_req i) AND 7 \<noteq> 0 \<longrightarrow> mr_tid (mi_req i) AND 7 = 7 \<and> mr_addr (mi_req i) AND 0x3f = 0"
      "chk_type (mi_req i)"
    using assms(3,4) by (simp_all add: legal_in_def Let_def)
  let ?d = "if mr_type (mi_req i) = MEM_REQ_WR then (mc_raw c)[0 := mr_data (mi_req i)] else mc_raw c"
  let ?host = "addr_host (mr_addr (mi_req i)) (bs_ranges sh)"
  let ?q = "\<lparr>bq_startTime = now, bq_bankAvlTime = 0, bq_host = ?host, bq_bank = bank_of ?host (mr_addr (mi_req i)), bq_seqNum = bs_seqNum sh, bq_memReq = mi_req i,
       bq_data = ?d, bq_reqQwCnt = req_cnt c (mi_req i)\<rparr>"
  let ?sh = "sh\<lparr>bs_seqNum := bs_seqNum sh + 1, bs_placementErrorCnt :=
      (if mr_tid (mi_req i) AND 7 \<noteq> 0 \<and> ?host \<noteq> mr_host (mi_req i) then bs_placementErrorCnt sh + 1 else bs_placementErrorCnt sh)\<rparr>"
  have e: "ensure (\<not> addr_fatal (mr_addr (mi_req i)) (bs_ranges (sh\<lparr>bs_seqNum := bs_seqNum sh + 1\<rparr>))) = Some ()"
      "ensure (\<not> (mc_hc2 c \<and> 1 < req_cnt c (mi_req i) \<and> (req_cnt c (mi_req i) \<noteq> 8 \<or> \<not> ?host))) = Some ()"
      "ensure (mr_type (mi_req i) = MEM_REQ_RD \<and> mr_tid (mi_req i) AND 7 \<noteq> 0 \<longrightarrow> mr_tid (mi_req i) AND 7 = 7 \<and> mr_addr (mi_req i) AND 0x3f = 0) = Some ()"
    by (rule ensure_holds, use l(1) in simp, rule ensure_holds [OF l(2)], rule ensure_holds [OF l(3)])
  have r: "bs_ranges (sh\<lparr>bs_seqNum := bs_seqNum sh + 1\<rparr>) = bs_ranges sh"
    by simp
  have "bank_new c (mi_req i) now p sh = Some (p\<lparr>bp_pNewReq := Some ?q, bp_wrDataIdx := (if mr_type (mi_req i) = MEM_REQ_WR then 1 else 0)\<rparr>, ?sh)"
    unfolding bank_new_def Let_def req_cnt_def [symmetric] e r qw_store_def i using assms(2) l(1) e(2,3)
    by (cases "mr_type (mi_req i) = MEM_REQ_WR"; cases "mr_tid (mi_req i) AND 7 \<noteq> 0 \<and> ?host \<noteq> mr_host (mi_req i)") (simp_all only: i if_True if_False, simp_all)
  then show ?thesis
    by (rule that) (use assms(2) l in \<open>simp_all add: req_fine_def\<close>)
qed

text \<open>The parts of a port that the schedule is about.\<close>

definition same_busy :: "bank_port \<Rightarrow> bank_port \<Rightarrow> bool" where
  "same_busy p p' \<longleftrightarrow> bp_bankBusyQue p' = bp_bankBusyQue p \<and> bp_rdReqQwIdx p' = bp_rdReqQwIdx p \<and> bp_wrReqQwIdx p' = bp_wrReqQwIdx p"

lemma bank_queue_ok:
  assumes "bp_pNewReq p = Some q" "chk_type (bq_memReq q)" "\<forall>x\<in>set (port_reqs p). chk_type (bq_memReq x)" "\<forall>b. \<forall>x\<in>set (bs_bankQue sh b). chk_type (bq_memReq x)"
  obtains p' sh' where "bank_queue q p sh = Some (p', sh')" "same_busy p p'" "mset (port_reqs p') = mset (port_reqs p)" "bp_pNewReq p' = None" "bp_wrDataIdx p' = 0"
    "bs_bankQue sh' = bs_bankQue sh" "bs_trace sh' = bs_trace sh" "bs_ranges sh' = bs_ranges sh" "bs_seqNum sh' = bs_seqNum sh"
proof -
  obtain o1 where o1: "check_all (bq_memReq q) (map bq_memReq (if bq_host q then bp_hostReqQue p else bp_bankReqQue p)) (bs_order sh) = Some o1"
  proof -
    have "\<forall>x\<in>set (if bq_host q then bp_hostReqQue p else bp_bankReqQue p). chk_type (bq_memReq x)"
      using assms(3) by (auto simp: port_reqs_def)
    then show ?thesis
      using check_all_runs [OF assms(2), of "map bq_memReq (if bq_host q then bp_hostReqQue p else bp_bankReqQue p)" "bs_order sh"] that by (auto simp del: if_split)
  qed
  obtain o2 where o2: "check_all (bq_memReq q) (map bq_memReq (bs_bankQue sh (bq_bank q))) o1 = Some o2"
    using check_all_runs [OF assms(2), of "map bq_memReq (bs_bankQue sh (bq_bank q))" o1] assms(4) by auto
  let ?p = "(if bq_host q then p\<lparr>bp_hostReqQue := bp_hostReqQue p @ [q]\<rparr> else p\<lparr>bp_bankReqQue := bp_bankReqQue p @ [q]\<rparr>)\<lparr>bp_pNewReq := None, bp_wrDataIdx := 0\<rparr>"
  have "bank_queue q p sh = Some (?p, sh\<lparr>bs_order := o2\<rparr>)"
    by (simp add: bank_queue_def o1 o2 del: if_split)
  then show ?thesis
    by (rule that) (use assms(1) in \<open>simp_all add: same_busy_def port_reqs_def\<close>)
qed

lemma port_ok_mset:
  assumes "port_ok c rs t p" "same_busy p p'" "collect_fine (bp_pNewReq p') (bp_wrDataIdx p')" "mset (port_reqs p') = ms" "\<forall>q\<in>#ms. req_fine c rs q" "distinct (seqs p')"
  shows "port_ok c rs t p'"
proof -
  have "\<forall>q\<in>set (port_reqs p'). req_fine c rs q"
    using assms(4,5) by (metis set_mset_mset)
  then show ?thesis
    using assms(1,2,3,6) by (simp add: port_ok_def same_busy_def)
qed

lemma mset_seqs: "mset (seqs p) = image_mset bq_seqNum (mset (port_reqs p))"
  by (simp add: seqs_def)

lemma set_seqs: "set (seqs p) = bq_seqNum ` set_mset (mset (port_reqs p))"
  by (simp add: seqs_def)

lemma distinct_seqs: "distinct (seqs p) \<longleftrightarrow> (\<forall>n. count (mset (seqs p)) n = (if n \<in> set (seqs p) then 1 else 0))"
  by (rule distinct_count_atmost_1)

lemma distinct_seqs_mset: "mset (seqs p') = mset (seqs p) \<Longrightarrow> distinct (seqs p) \<Longrightarrow> distinct (seqs p')"
  by (metis mset_eq_imp_distinct_iff)

lemma distinct_seqs_add: "mset (seqs p') = add_mset n (mset (seqs p)) \<Longrightarrow> distinct (seqs p) \<Longrightarrow> n \<notin> set (seqs p) \<Longrightarrow> distinct (seqs p')"
  by (metis distinct.simps(2) mset.simps(2) mset_eq_imp_distinct_iff)

lemma bank_inv_queued:
  assumes "bank_inv c t P sh" "same_busy (P k) p'" "collect_fine (bp_pNewReq p') (bp_wrDataIdx p')" "mset (port_reqs p') = ms" "\<forall>q\<in>#ms. req_fine c (bs_ranges sh) q"
    and "image_mset bq_seqNum ms = mset (seqs (P k)) \<and> bs_seqNum sh' = bs_seqNum sh \<or>
      image_mset bq_seqNum ms = add_mset (bs_seqNum sh) (mset (seqs (P k))) \<and> bs_seqNum sh' = bs_seqNum sh + 1"
    and "bs_bankQue sh' = bs_bankQue sh" "bs_trace sh' = bs_trace sh" "bs_ranges sh' = bs_ranges sh"
  shows "bank_inv c t (P(k := p')) sh'"
proof -
  have ok: "port_ok c (bs_ranges sh) t (P k)" and sh: "shared_ok P sh"
    using assms(1) by (simp_all add: bank_inv_def)
  have old: "\<forall>n\<in>set (seqs (P k)). n < bs_seqNum sh" and d: "distinct (seqs (P k))"
    using sh ok by (simp_all add: shared_ok_def port_ok_def)
  have s: "mset (seqs p') = image_mset bq_seqNum ms"
    by (simp add: mset_seqs assms(4))
  then have d': "distinct (seqs p')"
    using assms(6) d old distinct_seqs_mset [of p' "P k"] distinct_seqs_add [of p' _ "P k"] by fastforce
  have "set (seqs p') = set (seqs (P k)) \<and> bs_seqNum sh' = bs_seqNum sh \<or> set (seqs p') = insert (bs_seqNum sh) (set (seqs (P k))) \<and> bs_seqNum sh' = bs_seqNum sh + 1"
    using assms(6) unfolding s [symmetric] by (metis set_mset_add_mset_insert set_mset_mset)
  then have "\<forall>n\<in>set (seqs p'). n \<in> set (seqs (P k)) \<or> bs_seqNum sh \<le> n \<and> n < bs_seqNum sh'" "bs_seqNum sh \<le> bs_seqNum sh'"
    by auto
  then have "shared_ok (P(k := p')) sh'"
    using shared_queued [OF sh _ assms(7,8)] assms(2) by (simp add: same_busy_def)
  moreover have "port_ok c (bs_ranges sh) t p'"
    by (rule port_ok_mset [OF ok assms(2-5) d'])
  ultimately show ?thesis
    using assms(1,9) by (simp add: bank_inv_def)
qed

lemma bank_take_ok:
  assumes "bank_inv c t P sh" "legal_in c (bs_ranges sh) i"
  obtains p' sh' where "bank_take c i (P k) sh = Some (p', sh')" "bank_inv c t (P(k := p')) sh'" "same_busy (P k) p'" "bs_bankQue sh' = bs_bankQue sh" "bs_ranges sh' = bs_ranges sh"
proof (cases "mi_reqRdy i")
  case False
  then show ?thesis
    using that [of "P k" sh] assms(1) by (simp add: bank_take_def same_busy_def)
next
  case rdy: True
  have ok: "port_ok c (bs_ranges sh) t (P j)" for j
    using assms(1) by (simp add: bank_inv_def)
  then have fine: "req_fine c (bs_ranges sh) q" if "q \<in> set (port_reqs (P j))" for q j
    using that by (auto simp: port_ok_def)
  have banks: "chk_type (bq_memReq x)" if "x \<in> set (bs_bankQue sh b)" for x b
  proof -
    obtain j where "x \<in> set (bp_bankBusyQue (P j))"
      using assms(1) \<open>x \<in> set (bs_bankQue sh b)\<close> by (auto simp: bank_inv_def shared_ok_def)
    then show ?thesis
      using fine [of x j] by (simp add: port_reqs_def req_fine_def)
  qed
  show ?thesis
  proof (cases "bp_pNewReq (P k)")
    case None
    have raw: "length (mc_raw c) = 8"
      using assms(1) by (simp add: bank_inv_def)
    let ?k1 = "if mr_type (mi_req i) = MEM_REQ_WR then 1 else 0 :: nat"
    obtain q sh1 where n: "bank_new c (mi_req i) (unat (mi_now i)) (P k) sh = Some ((P k)\<lparr>bp_pNewReq := Some q, bp_wrDataIdx := ?k1\<rparr>, sh1)"
        "bq_memReq q = mi_req i" "bq_seqNum q = bs_seqNum sh" "req_fine c (bs_ranges sh) q"
        "bs_seqNum sh1 = bs_seqNum sh + 1" "bs_bankQue sh1 = bs_bankQue sh" "bs_trace sh1 = bs_trace sh" "bs_ranges sh1 = bs_ranges sh"
      by (rule bank_new_ok [OF ok raw assms(2) rdy None])
    let ?p1 = "(P k)\<lparr>bp_pNewReq := Some q, bp_wrDataIdx := ?k1\<rparr>"
    have r1: "mset (port_reqs ?p1) = add_mset q (mset (port_reqs (P k)))"
      by (simp add: port_reqs_def None)
    have ms: "\<forall>x\<in>#add_mset q (mset (port_reqs (P k))). req_fine c (bs_ranges sh) x"
      using n(4) fine [of _ k] by auto
    have sq: "image_mset bq_seqNum (add_mset q (mset (port_reqs (P k)))) = add_mset (bs_seqNum sh) (mset (seqs (P k)))"
      by (simp add: seqs_def n(3))
    have cnt: "bq_reqQwCnt q = req_cnt c (mi_req i)" "chk_type (bq_memReq q)"
      using n(2,4) by (simp_all add: req_fine_def)
    show ?thesis
    proof (cases "mr_type (bq_memReq q) \<noteq> MEM_REQ_WR \<or> bp_wrDataIdx ?p1 = bq_reqQwCnt q")
      case True
      obtain p' sh' where b: "bank_queue q ?p1 sh1 = Some (p', sh')" "same_busy ?p1 p'" "mset (port_reqs p') = mset (port_reqs ?p1)" "bp_pNewReq p' = None" "bp_wrDataIdx p' = 0"
          "bs_bankQue sh' = bs_bankQue sh1" "bs_trace sh' = bs_trace sh1" "bs_ranges sh' = bs_ranges sh1" "bs_seqNum sh' = bs_seqNum sh1"
      proof (rule bank_queue_ok [of ?p1 q sh1])
        show "\<forall>x\<in>set (port_reqs ?p1). chk_type (bq_memReq x)"
          using ms unfolding r1 [symmetric] by (auto simp: req_fine_def)
      qed (use banks cnt n(6) in auto)
      have "bank_take c i (P k) sh = Some (p', sh')"
        using True by (simp add: bank_take_def rdy None n(1) b(1))
      moreover have "same_busy (P k) p'"
        using b(2) by (simp add: same_busy_def)
      moreover have "bank_inv c t (P(k := p')) sh'"
        by (rule bank_inv_queued [OF assms(1) \<open>same_busy (P k) p'\<close> _ _ ms]) (use b n r1 sq in \<open>simp_all add: collect_fine_def\<close>)
      ultimately show ?thesis
        using that b n by simp
    next
      case False
      then have "bank_take c i (P k) sh = Some (?p1, sh1)"
        by (simp add: bank_take_def rdy None n(1))
      moreover have "same_busy (P k) ?p1"
        by (simp add: same_busy_def)
      moreover have "collect_fine (bp_pNewReq ?p1) (bp_wrDataIdx ?p1)"
        using False cnt n(2) req_cnt_bounds(1) [of c "mi_req i"] by (simp add: collect_fine_def)
      moreover have "bank_inv c t (P(k := ?p1)) sh1"
        by (rule bank_inv_queued [OF assms(1) \<open>same_busy (P k) ?p1\<close> \<open>collect_fine (bp_pNewReq ?p1) (bp_wrDataIdx ?p1)\<close> r1 ms]) (use n sq in simp_all)
      ultimately show ?thesis
        using that n by simp
    qed
  next
    case (Some q)
    have f: "req_fine c (bs_ranges sh) q"
      by (rule fine [of q k]) (simp add: port_reqs_def Some)
    have col: "mr_type (bq_memReq q) = MEM_REQ_WR" "0 < bp_wrDataIdx (P k)" "bp_wrDataIdx (P k) < bq_reqQwCnt q"
      using ok [of k] by (simp_all add: port_ok_def collect_fine_def Some)
    then have len: "bp_wrDataIdx (P k) < length (bq_data q)"
      using f req_cnt_bounds(2) [of c "bq_memReq q"] by (simp add: req_fine_def)
    let ?q = "q\<lparr>bq_data := (bq_data q)[bp_wrDataIdx (P k) := mr_data (mi_req i)]\<rparr>"
    let ?p1 = "(P k)\<lparr>bp_pNewReq := Some ?q, bp_wrDataIdx := bp_wrDataIdx (P k) + 1\<rparr>"
    let ?rest = "mset (bp_bankReqQue (P k)) + mset (bp_hostReqQue (P k)) + mset (bp_bankBusyQue (P k))"
    have r1: "mset (port_reqs ?p1) = add_mset ?q ?rest" and r0: "mset (port_reqs (P k)) = add_mset q ?rest"
      by (simp_all add: port_reqs_def Some)
    have ms: "\<forall>x\<in>#add_mset ?q ?rest. req_fine c (bs_ranges sh) x"
    proof -
      have "\<forall>x\<in>#?rest. req_fine c (bs_ranges sh) x"
        using fine [of _ k] by (auto simp: port_reqs_def)
      moreover have "req_fine c (bs_ranges sh) ?q"
        using f by (simp add: req_fine_def)
      ultimately show ?thesis
        by simp
    qed
    have sq: "image_mset bq_seqNum (add_mset ?q ?rest) = mset (seqs (P k))"
      by (simp add: mset_seqs r0)
    have step: "bank_take c i (P k) sh = (if bp_wrDataIdx (P k) + 1 = bq_reqQwCnt q then bank_queue ?q ?p1 sh else Some (?p1, sh))"
      using len col(1) by (cases "bp_wrDataIdx (P k) + 1 = bq_reqQwCnt q") (simp_all add: bank_take_def rdy Some qw_store_def)
    show ?thesis
    proof (cases "bp_wrDataIdx (P k) + 1 = bq_reqQwCnt q")
      case True
      obtain p' sh' where b: "bank_queue ?q ?p1 sh = Some (p', sh')" "same_busy ?p1 p'" "mset (port_reqs p') = mset (port_reqs ?p1)" "bp_pNewReq p' = None" "bp_wrDataIdx p' = 0"
          "bs_bankQue sh' = bs_bankQue sh" "bs_trace sh' = bs_trace sh" "bs_ranges sh' = bs_ranges sh" "bs_seqNum sh' = bs_seqNum sh"
      proof (rule bank_queue_ok [of ?p1 ?q sh])
        show "\<forall>x\<in>set (port_reqs ?p1). chk_type (bq_memReq x)"
          using ms unfolding r1 [symmetric] by (auto simp: req_fine_def)
      qed (use banks f in \<open>auto simp: req_fine_def\<close>)
      have "same_busy (P k) p'"
        using b(2) by (simp add: same_busy_def)
      moreover have "bank_inv c t (P(k := p')) sh'"
        by (rule bank_inv_queued [OF assms(1) \<open>same_busy (P k) p'\<close> _ _ ms]) (use b r1 sq in \<open>simp_all add: collect_fine_def\<close>)
      ultimately show ?thesis
        using that b step True by simp
    next
      case False
      have "same_busy (P k) ?p1"
        by (simp add: same_busy_def)
      moreover have "collect_fine (bp_pNewReq ?p1) (bp_wrDataIdx ?p1)"
        using False col by (simp add: collect_fine_def)
      moreover have "bank_inv c t (P(k := ?p1)) sh"
        by (rule bank_inv_queued [OF assms(1) \<open>same_busy (P k) ?p1\<close> \<open>collect_fine (bp_pNewReq ?p1) (bp_wrDataIdx ?p1)\<close> r1 ms]) (use sq in simp_all)
      ultimately show ?thesis
        using that step False by simp
    qed
  qed
qed

section \<open>The schedule\<close>

lemma busy_insert_set [simp]: "set (busy_insert q xs) = insert q (set xs)" "mset (busy_insert q xs) = add_mset q (mset xs)"
proof -
  let ?P = "\<lambda>x. \<not> avl_before x q"
  have "mset (takeWhile ?P xs) + mset (dropWhile ?P xs) = mset xs"
    by (metis mset_append takeWhile_dropWhile_id)
  then show m: "mset (busy_insert q xs) = add_mset q (mset xs)"
    by (simp add: busy_insert_def)
  then show "set (busy_insert q xs) = insert q (set xs)"
    by (metis set_mset_add_mset_insert set_mset_mset)
qed

lemma avl_before_trans: "avl_before a b \<Longrightarrow> avl_before b c \<Longrightarrow> avl_before a c"
  by (auto simp: avl_before_def)

lemma busy_insert_Cons: "busy_insert q (x # xs) = (if avl_before x q then q # x # xs else x # busy_insert q xs)"
  by (simp add: busy_insert_def)

lemma busy_insert_sorted:
  "sorted_wrt (\<lambda>x y. avl_before y x) xs \<Longrightarrow> \<forall>x\<in>set xs. avl_before x q \<or> avl_before q x \<Longrightarrow> sorted_wrt (\<lambda>x y. avl_before y x) (busy_insert q xs)"
proof (induction xs)
  case (Cons x xs)
  then show ?case
    using avl_before_trans by (auto simp: busy_insert_Cons)
qed (simp add: busy_insert_def)

lemma busy_insert_last: "xs \<noteq> [] \<Longrightarrow> avl_before (last xs) q \<Longrightarrow> last (busy_insert q xs) = last xs"
proof (induction xs)
  case (Cons x xs)
  show ?case
  proof (cases "xs = []")
    case False
    have "busy_insert q xs \<noteq> []"
      by (simp add: busy_insert_def)
    then show ?thesis
      using Cons False by (simp add: busy_insert_Cons)
  qed (use Cons in \<open>simp add: busy_insert_Cons\<close>)
qed simp

lemma busy_insert_not_Nil [simp]: "busy_insert q xs \<noteq> []"
  by (simp add: busy_insert_def)

lemma bank_due_result:
  assumes "bank_due now p = Some (q, busy, p')"
  shows "0 < busy" "mset (port_reqs p) = add_mset q (mset (port_reqs p'))" "same_busy p p'" "bp_pNewReq p' = bp_pNewReq p" "bp_wrDataIdx p' = bp_wrDataIdx p"
  using assms by (auto simp: bank_due_def same_busy_def port_reqs_def split: list.splits if_splits)

text \<open>The shared part after one port changed, when its requests keep their numbers.\<close>

lemma shared_changed:
  assumes "shared_ok P sh" "set (seqs p') \<subseteq> set (seqs (P k))" "bs_seqNum sh' = bs_seqNum sh" "bs_trace sh' \<noteq> None"
    and "\<forall>b. sorted_wrt (\<lambda>x y. bq_bankAvlTime x < bq_bankAvlTime y) (bs_bankQue sh' b)"
    and "\<forall>b x. x \<in> set (bs_bankQue sh' b) \<longleftrightarrow> bq_bank x = b \<and> (\<exists>j. x \<in> set (bp_bankBusyQue ((P(k := p')) j)))"
  shows "shared_ok (P(k := p')) sh'"
proof -
  have sub: "set (seqs ((P(k := p')) j)) \<subseteq> set (seqs (P j))" for j
    using assms(2) by simp
  have old: "set (seqs (P i)) \<inter> set (seqs (P j)) = {}" if "i \<noteq> j" for i j
    using assms(1) that unfolding shared_ok_def by blast
  have "set (seqs ((P(k := p')) i)) \<inter> set (seqs ((P(k := p')) j)) = {}" if "i \<noteq> j" for i j
    using sub [of i] sub [of j] old [OF that] by blast
  moreover have "n < bs_seqNum sh'" if "n \<in> set (seqs ((P(k := p')) j))" for n j
  proof -
    have "n \<in> set (seqs (P j))"
      using sub [of j] that by blast
    then show ?thesis
      using assms(1,3) unfolding shared_ok_def by metis
  qed
  ultimately show ?thesis
    using assms(4-6) unfolding shared_ok_def by (intro conjI; blast)
qed

lemma port_ok_later: "port_ok c rs t p \<Longrightarrow> t \<le> t' \<Longrightarrow> port_ok c rs t' p"
  by (auto simp: port_ok_def partial_fine_def)

lemma bank_invI:
  assumes "bank_inv c t P sh" "t \<le> t'" "port_ok c (bs_ranges sh) t' p'" "shared_ok (P(k := p')) sh'" "bs_ranges sh' = bs_ranges sh"
  shows "bank_inv c t' (P(k := p')) sh'"
  using assms port_ok_later [OF _ assms(2)] by (simp add: bank_inv_def)

lemma bank_inv_later: "bank_inv c t P sh \<Longrightarrow> t \<le> t' \<Longrightarrow> bank_inv c t' P sh"
  by (auto simp: bank_inv_def intro: port_ok_later)

lemma sorted_le_last: "sorted_wrt (\<lambda>x y. f x < (f y :: nat)) xs \<Longrightarrow> x \<in> set xs \<Longrightarrow> f x \<le> f (last xs)"
proof (induction xs)
  case (Cons y ys)
  then show ?case
    using last_in_set [of ys] by (cases "ys = []") (auto simp: less_imp_le)
qed simp

lemma bank_schedule_ok:
  assumes "bank_inv c t P sh" "t \<le> now"
  obtains p' sh' where "bank_schedule now (P k) sh = Some (p', sh')" "bank_inv c t (P(k := p')) sh'" "bs_ranges sh' = bs_ranges sh"
    "bp_rdReqQwIdx p' = bp_rdReqQwIdx (P k)" "bp_wrReqQwIdx p' = bp_wrReqQwIdx (P k)"
    "bp_bankBusyQue p' = bp_bankBusyQue (P k) \<or> (\<exists>q. now < bq_bankAvlTime q \<and> bp_bankBusyQue p' = busy_insert q (bp_bankBusyQue (P k)))"
proof (cases "bank_due now (P k)")
  case None
  then show ?thesis
    using that [of "P k" sh] assms(1) by (simp add: bank_schedule_def)
next
  case (Some r)
  then obtain q busy p1 where due: "bank_due now (P k) = Some (q, busy, p1)"
    by (cases r) auto
  note d = bank_due_result [OF due]
  have ok: "port_ok c (bs_ranges sh) t (P k)" and sh: "shared_ok P sh"
    using assms(1) by (simp_all add: bank_inv_def)
  obtain tr where tr: "bs_trace sh = Some tr"
    using sh by (auto simp: shared_ok_def)
  let ?que = "bs_bankQue sh (bq_bank q)"
  let ?A = "if ?que = [] then now + busy else max (bq_bankAvlTime (last ?que) + busy) (now + busy)"
  let ?q = "q\<lparr>bq_bankAvlTime := ?A\<rparr>"
  let ?p = "p1\<lparr>bp_bankBusyQue := busy_insert ?q (bp_bankBusyQue (P k))\<rparr>"
  obtain tr' where run: "bank_schedule now (P k) sh = Some (?p, sh\<lparr>bs_bankQue := (bs_bankQue sh)(bq_bank q := ?que @ [?q]), bs_trace := Some tr'\<rparr>)"
    using d(3) by (simp add: bank_schedule_def due tr Let_def same_busy_def)
  let ?sh = "sh\<lparr>bs_bankQue := (bs_bankQue sh)(bq_bank q := ?que @ [?q]), bs_trace := Some tr'\<rparr>"
  have sorted: "sorted_wrt (\<lambda>x y. bq_bankAvlTime x < bq_bankAvlTime y) (bs_bankQue sh b)"
    and members: "x \<in> set (bs_bankQue sh b) \<longleftrightarrow> bq_bank x = b \<and> (\<exists>j. x \<in> set (bp_bankBusyQue (P j)))" for x b
    using sh by (simp_all add: shared_ok_def)
  have later: "bq_bankAvlTime x < ?A" if "x \<in> set ?que" for x
    using sorted_le_last [OF sorted that] d(1) that by auto
  have now: "now < ?A"
    using d(1) by (simp add: less_max_iff_disj)
  have reqs: "mset (port_reqs ?p) = add_mset ?q (mset (port_reqs p1))"
    using d(3) by (simp add: port_reqs_def same_busy_def)
  have fine: "\<forall>x\<in>#mset (port_reqs (P k)). req_fine c (bs_ranges sh) x"
    using ok by (simp add: port_ok_def)
  then have fine': "\<forall>x\<in>set (port_reqs ?p). req_fine c (bs_ranges sh) x"
    unfolding set_mset_mset [symmetric] reqs d(2) by (simp add: req_fine_def)
  have nums: "mset (seqs ?p) = mset (seqs (P k))"
    by (simp add: mset_seqs reqs d(2))
  have total: "avl_before x ?q \<or> avl_before ?q x" if "x \<in> set (bp_bankBusyQue (P k))" for x
  proof (cases "bq_bank x = bq_bank q")
    case True
    then have "x \<in> set ?que"
      using members that by blast
    then show ?thesis
      using later by (simp add: avl_before_def)
  qed (auto simp: avl_before_def)
  have "sorted_wrt (\<lambda>x y. avl_before y x) (bp_bankBusyQue ?p)"
    using busy_insert_sorted [of "bp_bankBusyQue (P k)" ?q] ok total by (simp add: port_ok_def)
  moreover have part: "partial_fine t w (bp_bankBusyQue ?p) n" if pw: "partial_fine t w (bp_bankBusyQue (P k)) n" for w n
  proof (cases "n = 0")
    case False
    then have "bp_bankBusyQue (P k) \<noteq> []" "avl_before (last (bp_bankBusyQue (P k))) ?q"
      using pw assms(2) now by (auto simp: partial_fine_def avl_before_def)
    then have "last (bp_bankBusyQue ?p) = last (bp_bankBusyQue (P k))"
      using busy_insert_last by simp
    then show ?thesis
      using pw by (simp add: partial_fine_def)
  qed (simp add: partial_fine_def)
  ultimately have pok: "port_ok c (bs_ranges sh) t ?p"
    using ok fine' distinct_seqs_mset [OF nums] d(3-5) by (simp add: port_ok_def same_busy_def)
  have "shared_ok (P(k := ?p)) ?sh"
  proof (rule shared_changed [OF sh])
    show "set (seqs ?p) \<subseteq> set (seqs (P k))"
      using nums by (metis order_refl set_mset_mset)
    show "\<forall>b. sorted_wrt (\<lambda>x y. bq_bankAvlTime x < bq_bankAvlTime y) (bs_bankQue ?sh b)"
    proof
      fix b
      have a: "bq_bankAvlTime ?q = ?A"
        by simp
      have "\<forall>x\<in>set ?que. bq_bankAvlTime x < bq_bankAvlTime ?q"
        unfolding a using later by blast
      then have "sorted_wrt (\<lambda>x y. bq_bankAvlTime x < bq_bankAvlTime y) (?que @ [?q])"
        using sorted [of "bq_bank q"] unfolding sorted_wrt_append by simp
      then show "sorted_wrt (\<lambda>x y. bq_bankAvlTime x < bq_bankAvlTime y) (bs_bankQue ?sh b)"
        using sorted [of b] by (cases "b = bq_bank q") simp_all
    qed
    show "\<forall>b x. x \<in> set (bs_bankQue ?sh b) \<longleftrightarrow> bq_bank x = b \<and> (\<exists>j. x \<in> set (bp_bankBusyQue ((P(k := ?p)) j)))"
    proof (intro allI)
      fix b x
      have "(\<exists>j. x \<in> set (bp_bankBusyQue ((P(k := ?p)) j))) \<longleftrightarrow> x = ?q \<or> (\<exists>j. x \<in> set (bp_bankBusyQue (P j)))"
        by (auto split: if_splits)
      moreover have "x \<in> set (bs_bankQue ?sh b) \<longleftrightarrow> x \<in> set (bs_bankQue sh b) \<or> b = bq_bank q \<and> x = ?q"
        by auto
      ultimately show "x \<in> set (bs_bankQue ?sh b) \<longleftrightarrow> bq_bank x = b \<and> (\<exists>j. x \<in> set (bp_bankBusyQue ((P(k := ?p)) j)))"
        using members [of x b] by auto
    qed
  qed simp_all
  then have inv: "bank_inv c t (P(k := ?p)) ?sh"
    by (rule bank_invI [OF assms(1) order_refl pok]) simp
  have more: "\<exists>q. now < bq_bankAvlTime q \<and> bp_bankBusyQue ?p = busy_insert q (bp_bankBusyQue (P k))"
    by (rule exI [of _ ?q]) (use now in simp)
  have rest: "bs_ranges ?sh = bs_ranges sh" "bp_rdReqQwIdx ?p = bp_rdReqQwIdx (P k)" "bp_wrReqQwIdx ?p = bp_wrReqQwIdx (P k)"
    using d(3) by (simp_all add: same_busy_def)
  show ?thesis
    by (rule that [OF run inv rest disjI2 [OF more]])
qed

section \<open>Service\<close>

text \<open>One word of the request \<open>a\<close> at the end of the port's queue is served; with its last word the request leaves.\<close>

definition serves :: "bank_req \<Rightarrow> bank_port \<Rightarrow> bank_port \<Rightarrow> mem_out \<Rightarrow> bool" where
  "serves a p p' out \<longleftrightarrow> (if mr_type (bq_memReq a) = MEM_REQ_WR
     then mo_wrRspTid out = (if bp_wrReqQwIdx p = 0 then Some (rsp_tid (mr_tid (bq_memReq a)) 0) else None) \<and>
       (if bp_wrReqQwIdx p + 1 = bq_reqQwCnt a then bp_bankBusyQue p' = butlast (bp_bankBusyQue p) \<and> bp_wrReqQwIdx p' = 0
        else bp_bankBusyQue p' = bp_bankBusyQue p \<and> bp_wrReqQwIdx p' = bp_wrReqQwIdx p + 1 \<and> bp_wrReqQwIdx p' < bq_reqQwCnt a)
     else map_option fst (mo_rdRsp out) = Some (rsp_tid (mr_tid (bq_memReq a)) (bp_rdReqQwIdx p)) \<and>
       (if bp_rdReqQwIdx p + 1 = bq_reqQwCnt a then bp_bankBusyQue p' = butlast (bp_bankBusyQue p) \<and> bp_rdReqQwIdx p' = 0
        else bp_bankBusyQue p' = bp_bankBusyQue p \<and> bp_rdReqQwIdx p' = bp_rdReqQwIdx p + 1 \<and> bp_rdReqQwIdx p' < bq_reqQwCnt a))"

lemma same_request:
  assumes "shared_ok P sh" "distinct (seqs (P k))" "x \<in> set (bp_bankBusyQue (P j))" "a \<in> set (bp_bankBusyQue (P k))" "bq_seqNum x = bq_seqNum a"
  shows "j = k \<and> x = a"
proof -
  have "bq_seqNum x \<in> set (seqs (P j))" "bq_seqNum a \<in> set (seqs (P k))"
    using assms(3,4) by (simp_all add: seqs_def port_reqs_def)
  then have "j = k"
    using assms(1,5) by (auto simp: shared_ok_def)
  moreover have "inj_on bq_seqNum (set (port_reqs (P k)))"
    using assms(2) by (simp add: seqs_def distinct_map)
  moreover have "x \<in> set (port_reqs (P k))" "a \<in> set (port_reqs (P k))"
    using assms(3,4) \<open>j = k\<close> by (simp_all add: port_reqs_def)
  ultimately show ?thesis
    using assms(5) by (auto dest: inj_onD)
qed

lemma bank_pop_ok:
  assumes "bank_inv c t P sh" "t \<le> now" "bp_bankBusyQue (P k) \<noteq> []" "a = last (bp_bankBusyQue (P k))" "bs_bankQue sh (bq_bank a) = a # que"
    and p': "p' = (P k)\<lparr>bp_bankBusyQue := butlast (bp_bankBusyQue (P k)), bp_rdReqQwIdx := 0, bp_wrReqQwIdx := 0\<rparr>"
    and sh': "bs_bankQue sh' = (bs_bankQue sh)(bq_bank a := que)" "bs_seqNum sh' = bs_seqNum sh" "bs_trace sh' = bs_trace sh" "bs_ranges sh' = bs_ranges sh"
  shows "bank_inv c now (P(k := p')) sh'"
proof -
  have ok: "port_ok c (bs_ranges sh) t (P k)" and sh: "shared_ok P sh"
    using assms(1) by (simp_all add: bank_inv_def)
  let ?bs = "butlast (bp_bankBusyQue (P k))"
  have busy: "bp_bankBusyQue (P k) = ?bs @ [a]"
    using assms(3,4) by simp
  have reqs: "mset (port_reqs (P k)) = add_mset a (mset (port_reqs p'))"
    by (subst port_reqs_def, subst busy) (simp add: port_reqs_def p')
  then have nums: "mset (seqs (P k)) = add_mset (bq_seqNum a) (mset (seqs p'))"
    by (simp add: mset_seqs)
  then have d: "distinct (seqs p')" "set (seqs p') \<subseteq> set (seqs (P k))" "bq_seqNum a \<notin> set (seqs p')"
  proof -
    have "distinct (bq_seqNum a # seqs p')"
      using nums ok by (metis mset.simps(2) mset_eq_imp_distinct_iff port_ok_def)
    then show "distinct (seqs p')" "bq_seqNum a \<notin> set (seqs p')"
      by simp_all
    show "set (seqs p') \<subseteq> set (seqs (P k))"
      using nums by (metis set_mset_add_mset_insert set_mset_mset subset_insertI)
  qed
  have fine: "\<forall>x\<in>set (port_reqs p'). req_fine c (bs_ranges sh) x"
    using ok reqs by (metis insert_iff port_ok_def set_mset_add_mset_insert set_mset_mset)
  have "sorted_wrt (\<lambda>x y. avl_before y x) (?bs @ [a])"
    using ok busy by (simp add: port_ok_def)
  then have "sorted_wrt (\<lambda>x y. avl_before y x) ?bs"
    by (simp add: sorted_wrt_append)
  then have pok: "port_ok c (bs_ranges sh) now p'"
    using ok fine d(1) by (simp add: port_ok_def p' partial_fine_def)
  have sorted: "sorted_wrt (\<lambda>x y. bq_bankAvlTime x < bq_bankAvlTime y) (bs_bankQue sh b)"
    and members: "x \<in> set (bs_bankQue sh b) \<longleftrightarrow> bq_bank x = b \<and> (\<exists>j. x \<in> set (bp_bankBusyQue (P j)))" for x b
    using sh by (simp_all add: shared_ok_def)
  have "a \<notin> set que"
    using sorted [of "bq_bank a"] assms(5) by auto
  then have ques: "x \<in> set (bs_bankQue sh' b) \<longleftrightarrow> x \<in> set (bs_bankQue sh b) \<and> x \<noteq> a" for x b
    using assms(5) members [of a b] by (cases "b = bq_bank a") (auto simp: sh')
  have "a \<notin> set (port_reqs p')"
    using d(3) by (auto simp: seqs_def)
  then have "a \<notin> set ?bs"
    by (simp add: port_reqs_def p')
  moreover have "a \<notin> set (bp_bankBusyQue (P j))" if "j \<noteq> k" for j
    using same_request [OF sh, of k a j a] ok that busy by (metis in_set_conv_decomp port_ok_def)
  ultimately have busies: "(\<exists>j. x \<in> set (bp_bankBusyQue ((P(k := p')) j))) \<longleftrightarrow> (\<exists>j. x \<in> set (bp_bankBusyQue (P j))) \<and> x \<noteq> a" for x
    using busy by (auto simp: p' split: if_splits) (metis Un_iff insert_iff list.set(1,2) empty_iff set_append)+
  have "shared_ok (P(k := p')) sh'"
  proof (rule shared_changed [OF sh d(2) sh'(2)])
    show "bs_trace sh' \<noteq> None"
      using sh by (simp add: sh'(3) shared_ok_def)
    show "\<forall>b. sorted_wrt (\<lambda>x y. bq_bankAvlTime x < bq_bankAvlTime y) (bs_bankQue sh' b)"
      using sorted sorted [of "bq_bank a"] assms(5) by (simp add: sh'(1))
    show "\<forall>b x. x \<in> set (bs_bankQue sh' b) \<longleftrightarrow> bq_bank x = b \<and> (\<exists>j. x \<in> set (bp_bankBusyQue ((P(k := p')) j)))"
      unfolding ques busies members by blast
  qed
  then show ?thesis
    by (rule bank_invI [OF assms(1,2) pok _ sh'(4)])
qed

text \<open>What is left as it was by a word that is served.\<close>

definition same_queues :: "bank_shared \<Rightarrow> bank_shared \<Rightarrow> bool" where
  "same_queues sh sh' \<longleftrightarrow> bs_bankQue sh' = bs_bankQue sh \<and> bs_seqNum sh' = bs_seqNum sh \<and> bs_trace sh' = bs_trace sh \<and> bs_ranges sh' = bs_ranges sh"

lemma bank_write_result:
  assumes "bp_wrReqQwIdx p < length (bq_data q)"
  obtains out sh1 where "bank_write c i b q p sh = Some (out, if bp_wrReqQwIdx p + 1 = bq_reqQwCnt q then bank_pop b (p\<lparr>bp_wrReqQwIdx := 0\<rparr>) sh1
      else (p\<lparr>bp_wrReqQwIdx := bp_wrReqQwIdx p + 1\<rparr>, sh1))"
    "mo_wrRspTid out = (if bp_wrReqQwIdx p = 0 then Some (rsp_tid (mr_tid (bq_memReq q)) (bp_wrReqQwIdx p)) else None)" "same_queues sh sh1"
  by (rule that, unfold bank_write_def Let_def ensure_holds [OF assms] Option.bind.bind_lunit, rule refl) (simp_all add: same_queues_def)

lemma bank_read_result:
  assumes "mr_type (bq_memReq q) = MEM_REQ_RD \<or> mr_type (bq_memReq q) = MEM_REQ_SET_BIT_63"
  obtains out sh1 where "bank_read c i b q p sh = Some (out, if bp_rdReqQwIdx p + 1 = bq_reqQwCnt q then bank_pop b (p\<lparr>bp_rdReqQwIdx := 0\<rparr>) sh1
      else (p\<lparr>bp_rdReqQwIdx := bp_rdReqQwIdx p + 1\<rparr>, sh1))"
    "map_option fst (mo_rdRsp out) = Some (rsp_tid (mr_tid (bq_memReq q)) (bp_rdReqQwIdx p))" "same_queues sh sh1"
proof -
  obtain mem where mem: "(if mr_type (bq_memReq q) = MEM_REQ_RD then Some (bs_mem sh)
       else if mr_type (bq_memReq q) = MEM_REQ_SET_BIT_63 then Some (store 8 ((mr_addr (bq_memReq q) XOR mc_mangle c) + of_nat (8 * bp_rdReqQwIdx p)) 0x8000000000000000 (bs_mem sh)) else None)
      = Some mem"
    using assms by (cases "mr_type (bq_memReq q) = MEM_REQ_RD") (simp_all del: not_None_eq)
  show ?thesis
    by (rule that, unfold bank_read_def Let_def mem Option.bind.bind_lunit, rule refl) (simp_all add: same_queues_def)
qed

lemma bank_more_ok:
  assumes "bank_inv c t P sh" "t \<le> now" "bp_bankBusyQue (P k) \<noteq> []" "a = last (bp_bankBusyQue (P k))" "bq_bankAvlTime a \<le> now" "n < bq_reqQwCnt a"
    and p': "p' = (if mr_type (bq_memReq a) = MEM_REQ_WR then (P k)\<lparr>bp_wrReqQwIdx := n\<rparr> else (P k)\<lparr>bp_rdReqQwIdx := n\<rparr>)"
    and sh': "bs_bankQue sh' = bs_bankQue sh" "bs_seqNum sh' = bs_seqNum sh" "bs_trace sh' = bs_trace sh" "bs_ranges sh' = bs_ranges sh"
  shows "bank_inv c now (P(k := p')) sh'"
proof -
  have ok: "port_ok c (bs_ranges sh) now (P k)" and sh: "shared_ok P sh"
    using bank_inv_later [OF assms(1,2)] by (simp_all add: bank_inv_def)
  have reqs: "port_reqs p' = port_reqs (P k)"
    by (simp add: p' port_reqs_def)
  have "port_ok c (bs_ranges sh) now p'"
    using ok assms(3-6) by (cases "mr_type (bq_memReq a) = MEM_REQ_WR") (simp_all add: port_ok_def seqs_def port_reqs_def p' partial_fine_def)
  moreover have "shared_ok (P(k := p')) sh'"
    by (rule shared_queued [OF sh _ sh'(1,3)]) (simp_all add: sh' seqs_def reqs, simp add: p')
  ultimately show ?thesis
    by (rule bank_invI [OF assms(1,2) _ _ sh'(4)])
qed

lemma bank_serve_ok:
  assumes "bank_inv c t P sh" "t \<le> unat (mi_now i)"
  obtains out p' sh' where "bank_serve c i (P k) sh = Some (out, p', sh')" "bank_inv c (unat (mi_now i)) (P(k := p')) sh'" "bs_ranges sh' = bs_ranges sh"
    "bp_bankBusyQue (P k) \<noteq> [] \<Longrightarrow> hd (bs_bankQue sh (bq_bank (last (bp_bankBusyQue (P k))))) = last (bp_bankBusyQue (P k)) \<Longrightarrow>
      bq_bankAvlTime (last (bp_bankBusyQue (P k))) \<le> unat (mi_now i) \<Longrightarrow> \<not> mi_rdRspFull i \<Longrightarrow> \<not> mi_wrRspFull i \<Longrightarrow> serves (last (bp_bankBusyQue (P k))) (P k) p' out"
proof (cases "bp_bankBusyQue (P k) = []")
  case True
  have "bank_inv c (unat (mi_now i)) (P(k := P k)) sh"
    using bank_inv_later [OF assms] by simp
  then show ?thesis
    using that [of bank_idle "P k" sh] True by (simp add: bank_serve_def)
next
  case False
  let ?a = "last (bp_bankBusyQue (P k))"
  let ?b = "bq_bank ?a"
  have ok: "port_ok c (bs_ranges sh) t (P k)" and sh: "shared_ok P sh"
    using assms(1) by (simp_all add: bank_inv_def)
  have in_busy: "?a \<in> set (bp_bankBusyQue (P k))"
    using False by simp
  then have fine: "req_fine c (bs_ranges sh) ?a"
    using ok by (auto simp: port_ok_def port_reqs_def)
  have b: "bank_of (bq_host ?a) (mr_addr (bq_memReq ?a)) = ?b"
    using fine by (simp add: req_fine_def)
  have "?a \<in> set (bs_bankQue sh ?b)"
    using sh in_busy by (auto simp: shared_ok_def)
  then obtain h que where que: "bs_bankQue sh ?b = h # que"
    by (cases "bs_bankQue sh ?b") auto
  have stay: "bank_inv c (unat (mi_now i)) P sh"
    by (rule bank_inv_later [OF assms])
  show ?thesis
  proof (cases "bq_seqNum h = bq_seqNum ?a \<and> bq_bankAvlTime h \<le> unat (mi_now i)")
    case idle: False
    then have "(bq_seqNum (hd (bs_bankQue sh ?b)) = bq_seqNum ?a \<and> bq_bankAvlTime (hd (bs_bankQue sh ?b)) \<le> unat (mi_now i)) = False"
      unfolding que by simp
    moreover have "ensure (bs_bankQue sh ?b \<noteq> []) = Some ()"
      by (simp add: que)
    ultimately have "bank_serve c i (P k) sh = Some (bank_idle, P k, sh)"
      using False by (simp only: bank_serve_def Let_def b if_False bind.bind_lunit)
    moreover have "\<not> (h = ?a \<and> bq_bankAvlTime ?a \<le> unat (mi_now i))"
      using idle by auto
    ultimately show ?thesis
      using that [of bank_idle "P k" sh] stay que by simp
  next
    case due: True
    have "\<exists>j. h \<in> set (bp_bankBusyQue (P j))"
      using sh que by (metis list.set_intros(1) shared_ok_def)
    then have h: "h = ?a"
      using same_request [OF sh _ _ in_busy] ok due by (auto simp: port_ok_def)
    have run: "bank_serve c i (P k) sh = (if mr_type (bq_memReq ?a) = MEM_REQ_WR then (if mi_wrRspFull i then Some (bank_idle, P k, sh) else bank_write c i ?b ?a (P k) sh)
         else (if mi_rdRspFull i then Some (bank_idle, P k, sh) else bank_read c i ?b ?a (P k) sh))"
      using False que b due fine h by (simp add: bank_serve_def Let_def req_fine_def)
    have avl: "bq_bankAvlTime ?a \<le> unat (mi_now i)"
      using due h by simp
    have front: "bs_bankQue sh ?b = ?a # que"
      using que h by simp
    have bounds: "partial_fine t False (bp_bankBusyQue (P k)) (bp_rdReqQwIdx (P k))" "partial_fine t True (bp_bankBusyQue (P k)) (bp_wrReqQwIdx (P k))"
        "0 < bq_reqQwCnt ?a" "bq_reqQwCnt ?a \<le> 8" "length (bq_data ?a) = 8" "chk_type (bq_memReq ?a)"
      using ok fine req_cnt_bounds [of c "bq_memReq ?a"] by (simp_all add: port_ok_def req_fine_def)
    show ?thesis
    proof (cases "mr_type (bq_memReq ?a) = MEM_REQ_WR")
      case wr: True
      have k: "bp_wrReqQwIdx (P k) < bq_reqQwCnt ?a" "bp_rdReqQwIdx (P k) = 0"
        using bounds(1-3) wr by (cases "bp_wrReqQwIdx (P k) = 0"; auto simp: partial_fine_def)+
      show ?thesis
      proof (cases "mi_wrRspFull i")
        case True
        then show ?thesis
          using that [of bank_idle "P k" sh] run wr stay by simp
      next
        case notfull: False
        have "bp_wrReqQwIdx (P k) < length (bq_data ?a)"
          using k(1) bounds(4,5) by simp
        then obtain out sh1 where w: "bank_write c i ?b ?a (P k) sh = Some (out, if bp_wrReqQwIdx (P k) + 1 = bq_reqQwCnt ?a then bank_pop ?b ((P k)\<lparr>bp_wrReqQwIdx := 0\<rparr>) sh1
              else ((P k)\<lparr>bp_wrReqQwIdx := bp_wrReqQwIdx (P k) + 1\<rparr>, sh1))"
            "mo_wrRspTid out = (if bp_wrReqQwIdx (P k) = 0 then Some (rsp_tid (mr_tid (bq_memReq ?a)) (bp_wrReqQwIdx (P k))) else None)" "same_queues sh sh1"
          by (rule bank_write_result)
        show ?thesis
        proof (cases "bp_wrReqQwIdx (P k) + 1 = bq_reqQwCnt ?a")
          case last: True
          let ?p = "(P k)\<lparr>bp_bankBusyQue := butlast (bp_bankBusyQue (P k)), bp_rdReqQwIdx := 0, bp_wrReqQwIdx := 0\<rparr>"
          let ?sh = "sh1\<lparr>bs_bankQue := (bs_bankQue sh1)(?b := que)\<rparr>"
          have p: "?p = (P k)\<lparr>bp_wrReqQwIdx := 0, bp_bankBusyQue := butlast (bp_bankBusyQue (P k))\<rparr>"
            using k(2) by (simp add: bank_port.equality)
          have r: "bank_serve c i (P k) sh = Some (out, ?p, ?sh)"
            using run wr notfull w(1,3) last front unfolding p by (simp add: bank_pop_def same_queues_def)
          have inv: "bank_inv c (unat (mi_now i)) (P(k := ?p)) ?sh"
            by (rule bank_pop_ok [OF assms False refl front refl]) (use w(3) in \<open>simp_all add: same_queues_def\<close>)
          show ?thesis
            by (rule that [OF r inv]) (use w wr last in \<open>simp_all add: same_queues_def serves_def\<close>)
        next
          case more: False
          let ?p = "(P k)\<lparr>bp_wrReqQwIdx := bp_wrReqQwIdx (P k) + 1\<rparr>"
          have r: "bank_serve c i (P k) sh = Some (out, ?p, sh1)"
            using run wr notfull w(1) more by simp
          have inv: "bank_inv c (unat (mi_now i)) (P(k := ?p)) sh1"
            by (rule bank_more_ok [OF assms False refl avl, of "bp_wrReqQwIdx (P k) + 1"]) (use k(1) more wr w(3) in \<open>simp_all add: same_queues_def\<close>)
          show ?thesis
            by (rule that [OF r inv]) (use w wr more k(1) in \<open>simp_all add: same_queues_def serves_def\<close>)
        qed
      qed
    next
      case rd: False
      have k: "bp_rdReqQwIdx (P k) < bq_reqQwCnt ?a" "bp_wrReqQwIdx (P k) = 0"
        using bounds(1-3) rd by (cases "bp_rdReqQwIdx (P k) = 0"; auto simp: partial_fine_def)+
      show ?thesis
      proof (cases "mi_rdRspFull i")
        case True
        then show ?thesis
          using that [of bank_idle "P k" sh] run rd stay by simp
      next
        case notfull: False
        have "mr_type (bq_memReq ?a) = MEM_REQ_RD \<or> mr_type (bq_memReq ?a) = MEM_REQ_SET_BIT_63"
          using rd bounds(6) by (auto simp: chk_type_def)
        then obtain out sh1 where w: "bank_read c i ?b ?a (P k) sh = Some (out, if bp_rdReqQwIdx (P k) + 1 = bq_reqQwCnt ?a then bank_pop ?b ((P k)\<lparr>bp_rdReqQwIdx := 0\<rparr>) sh1
              else ((P k)\<lparr>bp_rdReqQwIdx := bp_rdReqQwIdx (P k) + 1\<rparr>, sh1))"
            "map_option fst (mo_rdRsp out) = Some (rsp_tid (mr_tid (bq_memReq ?a)) (bp_rdReqQwIdx (P k)))" "same_queues sh sh1"
          by (rule bank_read_result)
        show ?thesis
        proof (cases "bp_rdReqQwIdx (P k) + 1 = bq_reqQwCnt ?a")
          case last: True
          let ?p = "(P k)\<lparr>bp_bankBusyQue := butlast (bp_bankBusyQue (P k)), bp_rdReqQwIdx := 0, bp_wrReqQwIdx := 0\<rparr>"
          let ?sh = "sh1\<lparr>bs_bankQue := (bs_bankQue sh1)(?b := que)\<rparr>"
          have p: "?p = (P k)\<lparr>bp_rdReqQwIdx := 0, bp_bankBusyQue := butlast (bp_bankBusyQue (P k))\<rparr>"
            using k(2) by (simp add: bank_port.equality)
          have r: "bank_serve c i (P k) sh = Some (out, ?p, ?sh)"
            using run rd notfull w(1,3) last front unfolding p by (simp add: bank_pop_def same_queues_def)
          have inv: "bank_inv c (unat (mi_now i)) (P(k := ?p)) ?sh"
            by (rule bank_pop_ok [OF assms False refl front refl]) (use w(3) in \<open>simp_all add: same_queues_def\<close>)
          show ?thesis
            by (rule that [OF r inv]) (use w rd last in \<open>simp_all add: same_queues_def serves_def\<close>)
        next
          case more: False
          let ?p = "(P k)\<lparr>bp_rdReqQwIdx := bp_rdReqQwIdx (P k) + 1\<rparr>"
          have r: "bank_serve c i (P k) sh = Some (out, ?p, sh1)"
            using run rd notfull w(1) more by simp
          have inv: "bank_inv c (unat (mi_now i)) (P(k := ?p)) sh1"
            by (rule bank_more_ok [OF assms False refl avl, of "bp_rdReqQwIdx (P k) + 1"]) (use k(1) more rd w(3) in \<open>simp_all add: same_queues_def\<close>)
          show ?thesis
            by (rule that [OF r inv]) (use w rd more k(1) in \<open>simp_all add: same_queues_def serves_def\<close>)
        qed
      qed
    qed
  qed
qed

text \<open>The request at the end of port \<open>k\<close>'s queue when no request is to be available before it: it is the first of its bank.\<close>

definition least_req :: "(nat \<Rightarrow> bank_port) \<Rightarrow> nat \<Rightarrow> bool" where
  "least_req P k \<longleftrightarrow> bp_bankBusyQue (P k) \<noteq> [] \<and> (\<forall>m. \<forall>y\<in>set (bp_bankBusyQue (P m)). \<not> avl_before y (last (bp_bankBusyQue (P k))))"

lemma least_front:
  assumes "shared_ok P sh" "least_req P k"
  shows "hd (bs_bankQue sh (bq_bank (last (bp_bankBusyQue (P k))))) = last (bp_bankBusyQue (P k))"
proof -
  let ?a = "last (bp_bankBusyQue (P k))"
  have members: "x \<in> set (bs_bankQue sh b) \<longleftrightarrow> bq_bank x = b \<and> (\<exists>j. x \<in> set (bp_bankBusyQue (P j)))" for x b
    using assms(1) by (simp add: shared_ok_def)
  have "?a \<in> set (bp_bankBusyQue (P k))"
    using assms(2) by (simp add: least_req_def)
  then have "?a \<in> set (bs_bankQue sh (bq_bank ?a))"
    using members by blast
  then obtain h que where que: "bs_bankQue sh (bq_bank ?a) = h # que"
    by (cases "bs_bankQue sh (bq_bank ?a)") auto
  then obtain j where "h \<in> set (bp_bankBusyQue (P j))"
    using members by (metis list.set_intros(1))
  then have "\<not> bq_bankAvlTime h < bq_bankAvlTime ?a"
    using assms(2) by (auto simp: least_req_def avl_before_def)
  moreover have "sorted_wrt (\<lambda>x y. bq_bankAvlTime x < bq_bankAvlTime y) (h # que)"
    using assms(1) que by (metis shared_ok_def)
  ultimately have "?a = h"
    using \<open>?a \<in> set (bs_bankQue sh (bq_bank ?a))\<close> que by auto
  moreover have "hd (bs_bankQue sh (bq_bank ?a)) = h"
    by (simp add: que)
  ultimately show ?thesis
    by metis
qed

lemma least_exists:
  assumes "bank_inv c t P sh" "bp_bankBusyQue (P k) \<noteq> []"
  obtains j where "least_req P j"
proof -
  let ?in = "\<lambda>z. snd z \<in> set (bp_bankBusyQue (P (fst z)))"
  have "?in (k, last (bp_bankBusyQue (P k)))"
    using assms(2) by simp
  then obtain z where z: "?in z" "\<And>y. ?in y \<Longrightarrow> bq_bankAvlTime (snd z) \<le> bq_bankAvlTime (snd y)"
    using ex_has_least_nat [of ?in _ "\<lambda>z. bq_bankAvlTime (snd z)"] by blast
  obtain x where x: "?in x \<and> bq_bankAvlTime (snd x) = bq_bankAvlTime (snd z)"
      "\<And>y. ?in y \<and> bq_bankAvlTime (snd y) = bq_bankAvlTime (snd z) \<Longrightarrow> bq_bank (snd x) \<le> bq_bank (snd y)"
    using ex_has_least_nat [of "\<lambda>y. ?in y \<and> bq_bankAvlTime (snd y) = bq_bankAvlTime (snd z)" z "\<lambda>z. bq_bank (snd z)"] z(1) by blast
  have least: "\<not> avl_before y (snd x)" if "y \<in> set (bp_bankBusyQue (P m))" for y m
  proof
    assume b: "avl_before y (snd x)"
    have "bq_bankAvlTime (snd x) \<le> bq_bankAvlTime y"
      using z(2) [of "(m, y)"] x(1) that by simp
    then have "bq_bankAvlTime y = bq_bankAvlTime (snd z)" "bq_bank y < bq_bank (snd x)"
      using b x(1) by (auto simp: avl_before_def)
    then show False
      using x(2) [of "(m, y)"] that by simp
  qed
  let ?bs = "bp_bankBusyQue (P (fst x))"
  have sorted: "sorted_wrt (\<lambda>x y. avl_before y x) ?bs"
    using assms(1) by (simp add: bank_inv_def port_ok_def)
  have ne: "?bs \<noteq> []"
    using x(1) by auto
  have "snd x = last ?bs"
  proof (rule ccontr)
    assume "snd x \<noteq> last ?bs"
    then have "snd x \<in> set (butlast ?bs)"
      using x(1) ne by (metis append_butlast_last_id in_set_conv_decomp rotate1.simps(2) set_ConsD set_rotate1)
    moreover have "sorted_wrt (\<lambda>x y. avl_before y x) (butlast ?bs @ [last ?bs])"
      using sorted ne by simp
    ultimately have "avl_before (last ?bs) (snd x)"
      by (simp add: sorted_wrt_append)
    then show False
      using least [of "last ?bs" "fst x"] ne by simp
  qed
  then show ?thesis
    using that [of "fst x"] ne least by (auto simp: least_req_def)
qed

definition word_served :: "bank_req \<Rightarrow> bank_port \<Rightarrow> bank_port \<Rightarrow> mem_out \<Rightarrow> bool" where
  "word_served a p p' out \<longleftrightarrow> (let w = mr_type (bq_memReq a) = MEM_REQ_WR; k = (if w then bp_wrReqQwIdx p else bp_rdReqQwIdx p); k' = (if w then bp_wrReqQwIdx p' else bp_rdReqQwIdx p') in
     (if w then mo_wrRspTid out = (if k = 0 then Some (rsp_tid (mr_tid (bq_memReq a)) 0) else None)
      else map_option fst (mo_rdRsp out) = Some (rsp_tid (mr_tid (bq_memReq a)) k)) \<and>
     (if k + 1 = bq_reqQwCnt a then a \<notin> set (bp_bankBusyQue p') \<and> k' = 0 else last (bp_bankBusyQue p') = a \<and> k' = k + 1))"

lemma serves_word:
  assumes "serves a p p' out" "a = last (bp_bankBusyQue p)" "bp_bankBusyQue p \<noteq> []" "sorted_wrt (\<lambda>x y. avl_before y x) (bp_bankBusyQue p)"
  shows "word_served a p p' out"
proof -
  have "sorted_wrt (\<lambda>x y. avl_before y x) (butlast (bp_bankBusyQue p) @ [a])"
    using assms(2-4) by simp
  then have "a \<notin> set (butlast (bp_bankBusyQue p))"
    by (auto simp: sorted_wrt_append avl_before_def)
  then show ?thesis
    using assms(1,2) by (auto simp: serves_def word_served_def Let_def split: if_splits)
qed

lemma bank_clock_ok:
  assumes "bank_inv c t P sh" "t \<le> unat (mi_now i)" "legal_in c (bs_ranges sh) i"
  obtains out p' sh' where "SyscMemLib_banks c i (P k) sh = Some (out, p', sh')" "bank_inv c (unat (mi_now i)) (P(k := p')) sh'" "bs_ranges sh' = bs_ranges sh"
    "least_req P k \<Longrightarrow> bq_bankAvlTime (last (bp_bankBusyQue (P k))) \<le> unat (mi_now i) \<Longrightarrow> \<not> mi_rdRspFull i \<Longrightarrow> \<not> mi_wrRspFull i \<Longrightarrow>
      word_served (last (bp_bankBusyQue (P k))) (P k) p' out"
proof -
  let ?now = "unat (mi_now i)"
  obtain p1 sh1 where a: "bank_take c i (P k) sh = Some (p1, sh1)" "bank_inv c t (P(k := p1)) sh1" "same_busy (P k) p1" "bs_bankQue sh1 = bs_bankQue sh" "bs_ranges sh1 = bs_ranges sh"
    by (rule bank_take_ok [OF assms(1,3)])
  obtain p2 sh2 where b: "bank_schedule ?now ((P(k := p1)) k) sh1 = Some (p2, sh2)" "bank_inv c t ((P(k := p1))(k := p2)) sh2" "bs_ranges sh2 = bs_ranges sh1"
      "bp_rdReqQwIdx p2 = bp_rdReqQwIdx ((P(k := p1)) k)" "bp_wrReqQwIdx p2 = bp_wrReqQwIdx ((P(k := p1)) k)"
      "bp_bankBusyQue p2 = bp_bankBusyQue ((P(k := p1)) k) \<or> (\<exists>q. ?now < bq_bankAvlTime q \<and> bp_bankBusyQue p2 = busy_insert q (bp_bankBusyQue ((P(k := p1)) k)))"
    by (rule bank_schedule_ok [OF a(2) assms(2), of k])
  have inv2: "bank_inv c t (P(k := p2)) sh2"
    using b(2) by simp
  obtain out p' sh' where d: "bank_serve c i ((P(k := p2)) k) sh2 = Some (out, p', sh')" "bank_inv c ?now ((P(k := p2))(k := p')) sh'" "bs_ranges sh' = bs_ranges sh2"
      "bp_bankBusyQue ((P(k := p2)) k) \<noteq> [] \<Longrightarrow> hd (bs_bankQue sh2 (bq_bank (last (bp_bankBusyQue ((P(k := p2)) k))))) = last (bp_bankBusyQue ((P(k := p2)) k)) \<Longrightarrow>
      bq_bankAvlTime (last (bp_bankBusyQue ((P(k := p2)) k))) \<le> ?now \<Longrightarrow> \<not> mi_rdRspFull i \<Longrightarrow> \<not> mi_wrRspFull i \<Longrightarrow>
      serves (last (bp_bankBusyQue ((P(k := p2)) k))) ((P(k := p2)) k) p' out"
    by (rule bank_serve_ok [OF inv2 assms(2), of k]) (rule that, assumption+)
  have run: "SyscMemLib_banks c i (P k) sh = Some (out, p', sh')"
    using a(1) b(1) d(1) by (simp add: SyscMemLib_banks_def)
  have served: "word_served (last (bp_bankBusyQue (P k))) (P k) p' out"
    if l: "least_req P k" "bq_bankAvlTime (last (bp_bankBusyQue (P k))) \<le> ?now" "\<not> mi_rdRspFull i" "\<not> mi_wrRspFull i"
  proof -
    let ?a = "last (bp_bankBusyQue (P k))"
    have ne: "bp_bankBusyQue (P k) \<noteq> []"
      using l(1) by (simp add: least_req_def)
    have busy: "bp_bankBusyQue p2 = bp_bankBusyQue (P k) \<or> (\<exists>q. ?now < bq_bankAvlTime q \<and> bp_bankBusyQue p2 = busy_insert q (bp_bankBusyQue (P k)))"
      using b(6) a(3) by (simp add: same_busy_def)
    have late: "avl_before ?a q" "\<not> avl_before q ?a" if "?now < bq_bankAvlTime q" for q
      using that l(2) by (auto simp: avl_before_def)
    have last: "last (bp_bankBusyQue p2) = ?a" "bp_bankBusyQue p2 \<noteq> []"
      using busy ne busy_insert_last [OF ne late(1)] by auto
    have "\<not> avl_before y ?a" if "y \<in> set (bp_bankBusyQue ((P(k := p2)) m))" for y m
    proof -
      have "y \<in> set (bp_bankBusyQue (P m)) \<or> ?now < bq_bankAvlTime y"
        using that busy by (cases "m = k") auto
      then show ?thesis
        using l(1) late(2) by (auto simp: least_req_def)
    qed
    then have "least_req (P(k := p2)) k"
      using last by (simp add: least_req_def)
    moreover have "shared_ok (P(k := p2)) sh2"
      using inv2 by (simp add: bank_inv_def)
    ultimately have "hd (bs_bankQue sh2 (bq_bank ?a)) = ?a"
      using least_front last(1) by fastforce
    then have "serves ?a p2 p' out"
      using d(4) last l(2-4) by simp
    moreover have "sorted_wrt (\<lambda>x y. avl_before y x) (bp_bankBusyQue p2)"
      using inv2 unfolding bank_inv_def port_ok_def by (metis fun_upd_same)
    ultimately have "word_served ?a p2 p' out"
      using serves_word last by metis
    moreover have "bp_rdReqQwIdx p2 = bp_rdReqQwIdx (P k)" "bp_wrReqQwIdx p2 = bp_wrReqQwIdx (P k)"
      using a(3) b(4,5) by (simp_all add: same_busy_def)
    ultimately show ?thesis
      by (simp only: word_served_def)
  qed
  show ?thesis
    by (rule that [OF run _ _ served]) (use a b d in simp_all)
qed

lemma bank_reach_inv:
  assumes "length (mc_raw c) = 8" "bank_reach c t P sh"
  shows "bank_inv c t P sh"
  using assms(2)
proof (induction rule: bank_reach.induct)
  case (start sh)
  then show ?case
    using assms(1) by (simp add: bank_inv_def port_ok_def shared_ok_def seqs_def port_reqs_def bank_port_new_def collect_fine_def partial_fine_def)
next
  case (clock t P sh i k out p' sh')
  obtain out1 p1 sh1 where "SyscMemLib_banks c i (P k) sh = Some (out1, p1, sh1)" "bank_inv c (unat (mi_now i)) (P(k := p1)) sh1"
    by (rule bank_clock_ok [OF clock(5,2,3), of k])
  moreover from this(1) have "p1 = p'" "sh1 = sh'"
    using clock(4) by simp_all
  ultimately show ?case
    by metis
qed

text \<open>
  C13: The banks never lock up, whatever ports share them: in every state that is reached from empty banks with an open trace, to which every scheduled request
  is written, by clocks with legal requests, and in which a request is scheduled, there is a port whose next request is to be available no later than any
  other, and once its time has come and neither response queue is full, a clock of that port returns and serves one word of that request, the one behind those
  served before; with the last word the request leaves.
\<close>

theorem bank_progress:
  assumes "length (mc_raw c) = 8" "bank_reach c t P sh" "bp_bankBusyQue (P k) \<noteq> []"
  shows "\<exists>j. bp_bankBusyQue (P j) \<noteq> [] \<and>
    (\<forall>m. \<forall>y\<in>set (bp_bankBusyQue (P m)). bq_bankAvlTime (last (bp_bankBusyQue (P j))) \<le> bq_bankAvlTime y) \<and>
    (\<forall>i. t \<le> unat (mi_now i) \<and> bq_bankAvlTime (last (bp_bankBusyQue (P j))) \<le> unat (mi_now i) \<and> legal_in c (bs_ranges sh) i \<and> \<not> mi_rdRspFull i \<and> \<not> mi_wrRspFull i \<longrightarrow>
      (\<exists>out p' sh'. SyscMemLib_banks c i (P j) sh = Some (out, p', sh') \<and> word_served (last (bp_bankBusyQue (P j))) (P j) p' out))"
proof -
  have inv: "bank_inv c t P sh"
    by (rule bank_reach_inv [OF assms(1,2)])
  obtain j where j: "least_req P j"
    by (rule least_exists [OF inv assms(3)])
  show ?thesis
  proof (intro exI [of _ j] conjI allI impI ballI)
    show "bp_bankBusyQue (P j) \<noteq> []"
      using j by (simp add: least_req_def)
    show "bq_bankAvlTime (last (bp_bankBusyQue (P j))) \<le> bq_bankAvlTime y" if "y \<in> set (bp_bankBusyQue (P m))" for m y
      using j that by (auto simp: least_req_def avl_before_def not_less [symmetric])
    fix i
    assume i: "t \<le> unat (mi_now i) \<and> bq_bankAvlTime (last (bp_bankBusyQue (P j))) \<le> unat (mi_now i) \<and> legal_in c (bs_ranges sh) i \<and> \<not> mi_rdRspFull i \<and> \<not> mi_wrRspFull i"
    then have "t \<le> unat (mi_now i)" "legal_in c (bs_ranges sh) i"
      by blast+
    from bank_clock_ok [OF inv this, of j] show "\<exists>out p' sh'. SyscMemLib_banks c i (P j) sh = Some (out, p', sh') \<and> word_served (last (bp_bankBusyQue (P j))) (P j) p' out"
      using j i by metis
  qed
qed

definition wit_banks :: bank_shared where
  "wit_banks = \<lparr>bs_bankQue = (\<lambda>_. []), bs_seqNum = 1, bs_placementErrorCnt = 0, bs_order = (0, []), bs_mem = (\<lambda>_. 0),
     bs_ranges = sm_ranges wit_mem, bs_mon = sm_mon wit_mem, bs_trace = Some (trace_OpenWrite \<lparr>th_magic = 0, th_version = 0, th_memReqCount = 0, th_fileLineOffset = 0, th_fileLineCount = 0\<rparr>)\<rparr>"

lemma wit_banks_run:
  "\<exists>o1 p1 sh1 o2 p2 sh2. SyscMemLib_banks wit_cfg (wit_in 0 True (wit_req 0 0 0x2000 0)) bank_port_new wit_banks = Some (o1, p1, sh1) \<and>
    bs_ranges sh1 = bs_ranges wit_banks \<and> SyscMemLib_banks wit_cfg (wit_in 1515000 False (wit_req 0 0 0 0)) p1 sh1 = Some (o2, p2, sh2) \<and> bp_bankBusyQue p2 \<noteq> []"
  by (simp add: SyscMemLib_banks_def bank_take_def bank_new_def bank_queue_def bank_schedule_def bank_due_def bank_serve_def bank_port_new_def wit_banks_def wit_mem_def wit_cfg_def
      wit_in_def wit_req_def addr_fatal_def addr_host_def IsAddressValidationEnabled_def MEM_REQ_RD_def MEM_REQ_WR_def bank_of_def BANK_CNT_def busy_insert_def Let_def)

theorem bank_progress_witness:
  "\<exists>t P sh. bp_bankBusyQue (P (0 :: nat)) \<noteq> [] \<and> (\<exists>j. bp_bankBusyQue (P j) \<noteq> [] \<and>
    (\<forall>m. \<forall>y\<in>set (bp_bankBusyQue (P m)). bq_bankAvlTime (last (bp_bankBusyQue (P j))) \<le> bq_bankAvlTime y) \<and>
    (\<forall>i. t \<le> unat (mi_now i) \<and> bq_bankAvlTime (last (bp_bankBusyQue (P j))) \<le> unat (mi_now i) \<and> legal_in wit_cfg (bs_ranges sh) i \<and> \<not> mi_rdRspFull i \<and> \<not> mi_wrRspFull i \<longrightarrow>
      (\<exists>out p' sh'. SyscMemLib_banks wit_cfg i (P j) sh = Some (out, p', sh') \<and> word_served (last (bp_bankBusyQue (P j))) (P j) p' out)))"
proof -
  let ?i1 = "wit_in 0 True (wit_req 0 0 0x2000 0)" and ?i2 = "wit_in 1515000 False (wit_req 0 0 0 0)" and ?P0 = "\<lambda>_. bank_port_new"
  obtain o1 p1 sh1 o2 p2 sh2 where r: "SyscMemLib_banks wit_cfg ?i1 bank_port_new wit_banks = Some (o1, p1, sh1)" "bs_ranges sh1 = bs_ranges wit_banks"
      "SyscMemLib_banks wit_cfg ?i2 p1 sh1 = Some (o2, p2, sh2)" "bp_bankBusyQue p2 \<noteq> []"
    using wit_banks_run by blast
  have legal: "legal_in wit_cfg (bs_ranges wit_banks) ?i1" "legal_in wit_cfg (bs_ranges wit_banks) ?i2"
    by (simp_all add: wit_cfg_def wit_banks_def wit_mem_def wit_in_def wit_req_def legal_in_def chk_type_def addr_fatal_def IsAddressValidationEnabled_def MEM_REQ_RD_def MEM_REQ_WR_def Let_def)
  have "bank_reach wit_cfg 0 ?P0 wit_banks"
    by (rule bank_reach.start) (simp_all add: wit_banks_def)
  from bank_reach.clock [OF this _ legal(1) r(1)] have "bank_reach wit_cfg (unat (mi_now ?i1)) (?P0(0 := p1)) sh1"
    by simp
  from bank_reach.clock [OF this, of ?i2 0 o2 p2 sh2] have reach: "bank_reach wit_cfg (unat (mi_now ?i2)) (?P0(0 := p2)) sh2"
    using r(2,3) legal(2) by (simp add: wit_in_def)
  have busy: "bp_bankBusyQue ((?P0(0 := p2)) 0) \<noteq> []" and raw: "length (mc_raw wit_cfg) = 8"
    using r(4) by (simp_all add: wit_cfg_def)
  show ?thesis
    by (rule exI [of _ "unat (mi_now ?i2)"], rule exI [of _ "?P0(0 := p2)"], rule exI [of _ sh2], rule conjI [OF busy]) (rule bank_progress [OF raw reach busy])
qed

end
