(* ===== verification/Spec2Isabelle.thy ===== *)
theory Spec2Isabelle
  imports ConstValue SyscUltra HifSystem HifLib DefineExpr PreExpand HtiPath SyscBank
begin

text \<open>
  A verification development for OpenHT, the tool set that turns C++ into personalities for a hybrid-threaded coprocessor. Three parts of the program
  carry logic of their own and are modelled: the library that links a host process to its coprocessor (\<^verbatim>\<open>src/ht_lib/host\<close>), the SystemC library a
  personality is simulated with (\<^verbatim>\<open>src/ht_lib/sysc\<close>), and the front ends of the two translators \<^verbatim>\<open>htl\<close> and \<^verbatim>\<open>htv\<close>
  (\<^verbatim>\<open>src/src/htl\<close>, \<^verbatim>\<open>src/src/Htfe\<close>).

  \<^bold>\<open>Conventions.\<close> A class is a record, an enumeration a datatype, a method a function from the state to the new state and the result, and \<open>None\<close> is a
  failed assertion, a trap or undefined behaviour: a run that stops. A loop that may not end is a \<open>partial_function (option)\<close> or has a fuel as
  its first argument, and the theorems show that it ends. What is outside of the program (files, random numbers, the memory the linker leaves
  uninitialised, the clients' callbacks) is an argument.

  \<^bold>\<open>The link of host and coprocessor.\<close>
  \<^item> \<open>OhtPrelude\<close>: words, \<open>ensure\<close> for assertions, and the facts on ring indices; \<open>CIntegers\<close>: the C integer types.
  \<^item> \<open>HifMsg\<close>: the control message (\<^verbatim>\<open>HtCtrlMsg.h\<close>) and the queue \<^verbatim>\<open>CQueue\<close> (\<^verbatim>\<open>HtPlatform.h\<close>), with the round trip of
    the one and the refinement of a bounded first-in first-out queue by the other.
  \<^item> \<open>HifEnd\<close>: the routines both ends share: lock, control rings, data blocks, \<^verbatim>\<open>FlushBlk\<close>, \<^verbatim>\<open>NextTxBlk\<close>, \<^verbatim>\<open>NextRxBlk\<close>, sending. A shared memory word is
    seen through the endpoint that polls it. \<open>HostUnit\<close> (\<^verbatim>\<open>CHtUnitLib\<close> of \<^verbatim>\<open>HtHifLib.cpp\<close>) and \<open>ModelUnit\<close> (\<^verbatim>\<open>CHtModelUnitLib\<close> of \<^verbatim>\<open>HtModelLib.cpp\<close>) are the two
    ends with their callbacks, message loops and monitors.
  \<^item> \<open>HifLink\<close> and \<open>HifChan\<close> hold the invariant of one direction of the link: which ring slots hold messages, which blocks are free, announced or returned,
    and the payload that is on its way; \<open>HifSend\<close> and \<open>HifRecv\<close> show what each operation does to it, \<open>HostLink\<close> and \<open>ModelLink\<close> lift this to the
    operations of the two ends, \<open>HifBoot\<close> establishes it from the two constructors.
  \<^item> \<open>HifSystem\<close>: all interleavings of admissible calls of the two applications and of the flush timers, as an inductive relation; its theorems say that
    what is sent arrives once, in order and unaltered, that every call returns, and that a halt is answered.
  \<^item> \<open>UnitMap\<close>, \<open>HifMem\<close>, \<open>HifMemUse\<close>, \<open>HifLib\<close>: the map of units, the layout of the shared memory and its clearing, the dispatch arguments, the pool of
    units.

  \<^bold>\<open>The SystemC library.\<close> \<open>SyscQueues\<close> and \<open>SyscRams\<close> model the queues and memories of \<^verbatim>\<open>HtMemTypes.h\<close>; a signal keeps its current value and the one
  written in the clock. The locales of these theories state what a queue or a memory promises to its client; each is interpreted on the
  model's operations and the refinement theorems rest on it. \<open>MtRand\<close> is the random number generator (\<^verbatim>\<open>htl/MtRand.cpp\<close>, \<^verbatim>\<open>mtrand.cpp\<close>
  and \<^verbatim>\<open>__CnyMTRand\<close>), shown to return the MT19937 sequence. \<open>MemTrace\<close> is \<^verbatim>\<open>HtMemTrace.h\<close>: the address ranges, and the trace file as the bytes that are
  written and read. \<open>SyscMon\<close> has the counters of \<^verbatim>\<open>SyscMonLib.cpp\<close>. The memory a personality runs against, \<^verbatim>\<open>CSyscMemLib\<close> of \<^verbatim>\<open>SyscMemLib.cpp\<close>, is modelled
  clock by clock in its two modes: \<open>SyscMem\<close> has the requests, the ordering check, the memory and the slots from which a request is served at random,
  and shows that every request is served once; \<open>SyscBank\<close> has the banks whose queues all ports share, the runs of all ports as an inductive relation, and
  shows that the port whose request is to be available first can always go on.

  \<^bold>\<open>The translators.\<close>
  \<^item> \<open>ConstValue\<close>: the typed constants of \<^verbatim>\<open>HtfeConstValue.h\<close>, whose operators choose getters and setters from tables of sixteen cases; the theorems state
    the exact values.
  \<^item> \<open>ExprEval\<close>: what the three expression evaluators of the tool set share: tokens, characters, the operand and operator stacks, and a locale in which the
    stacks are related to the value of an expression. \<open>DefineExpr\<close>: \<^verbatim>\<open>CDefineTable\<close> of \<^verbatim>\<open>htl/FindStringValue.cpp\<close>; \<open>PreExpr\<close>: the two preprocessors'
    \<^verbatim>\<open>ParseExpression\<close>, in which operators of equal precedence group to the right.
  \<^item> \<open>PreRead\<close>: lines, continuations, comments and positions; \<open>PreMacro\<close> and \<open>PreExpand\<close>: macros and their full expansion; \<open>PreLines\<close>: files, directives and
    \<^verbatim>\<open>GetLine\<close>; \<open>PreCond\<close>: the conditional directives against a reference that has the groups of lines in its derivation; \<open>HtlLex\<close>: the lexer
    \<^verbatim>\<open>CLex\<close> of \<^verbatim>\<open>htl/Lex.cpp\<close> over these lines; \<open>HtiPath\<close>: the paths of message interfaces and the instance parameters of
    \<^verbatim>\<open>htl/HtiFile.cpp\<close>. The classes \<^verbatim>\<open>CPreProcess\<close> of
    \<^verbatim>\<open>htl/PreProcess.cpp\<close> and \<^verbatim>\<open>Htfe/HtfePreProcess.cpp\<close> are copies of each other; the tool is an argument where they differ, and a definition named
    \<^verbatim>\<open>htfe_\<close> is the second copy.

  \<^bold>\<open>Bounds and fuel.\<close> The polling loops of the link have no bound in the code; that they end is part of \<open>calls_return\<close>. The fuel of the evaluators bounds
  the nesting and the number of operands; \<open>define_ends\<close> gives a bound from which on the result no longer depends on it. The fuel of the line reader is one
  more than the lines left. A statement with \<open>n + k\<close> says that the result is the same for every fuel from \<open>k\<close> on. Sequence numbers and counters that
  the code keeps in 32 or 64 bits are words; indices are reduced as in the code.

  \<^bold>\<open>Not modelled.\<close> The threads, timers and driver calls of the host library (their effects are the interleavings of \<open>HifSystem\<close>); the rest of the
  translators: parsing of the commands of design and instance files and of C++, the checks of a design, and the generators, whose result is program text for which the
  repository has no semantics; \<^verbatim>\<open>htc\<close> and \<^verbatim>\<open>htv_clang\<close>, built on ROSE and clang, which are not in the repository; printing of messages, VCD traces and
  reports; examples and tests.
\<close>

end
